(* ===== verification/Prelude.thy ===== *)
theory Prelude
  imports "HOL-Library.Word"
begin

text \<open>
  The vocabulary that every component of the SNFS model shares.

  \<^item> Machine types: a byte is an \<open>8 word\<close>, the fixed-width integers of \<open>stdint.h\<close> are
    words of their width, a memory object is a list of bytes.
  \<^item> Little-endian images of words (\<open>le_bytes\<close>, \<open>le_word\<close>): how a \<open>uint64_t\<close> lies in
    memory on the x86-64 machines the labs target, needed because the handle database uses
    the image of a handle as a key and because the wire protocol is a memory image.
  \<^item> C strings: \<open>zstr\<close> is a string with its terminator, \<open>cstr_of\<close> reads the string at the
    front of a memory object and fails when there is no terminator in it.
  \<^item> The program monad \<open>prog\<close>: a C function with effects maps a state to an outcome, which
    is a returned value with the new state, a call of \<open>exit\<close>, a loop that does not end, or
    undefined behaviour. \<open>wp\<close> and \<open>twp\<close> are its partial and total weakest preconditions;
    their rules are collected in \<open>wp_rules\<close> and do most of the work of the later proofs.
\<close>

unbundle bit_operations_syntax

named_theorems wp_rules \<open>weakest precondition rules of the program monad\<close>
named_theorems twp_rules \<open>total weakest precondition rules of the program monad\<close>

section \<open>Machine types\<close>

type_synonym byte = "8 word"
type_synonym u8 = "8 word"
type_synonym u32 = "32 word"
type_synonym u64 = "64 word"
type_synonym i64 = "64 word"  \<comment> \<open>an \<open>int64_t\<close>, read with \<open>sint\<close> and compared with \<open><s\<close>\<close>
type_synonym bytes = "byte list"

section \<open>Little-endian images\<close>

fun le_bytes :: "nat \<Rightarrow> 'a::len word \<Rightarrow> bytes" where
  "le_bytes 0 w = []"
| "le_bytes (Suc n) w = ucast w # le_bytes n (drop_bit 8 w)"

fun le_word :: "bytes \<Rightarrow> 'a::len word" where
  "le_word [] = 0"
| "le_word (b # bs) = ucast b OR push_bit 8 (le_word bs)"

lemma length_le_bytes [simp]: "length (le_bytes n w) = n"
  by (induction n arbitrary: w) auto

lemma le_word_le_bytes_take_bit: "le_word (le_bytes n w) = take_bit (8 * n) w"
proof (induction n arbitrary: w)
  case 0
  then show ?case by simp
next
  case (Suc n)
  show ?case
    by (rule bit_word_eqI) (auto simp: Suc.IH bit_simps)
qed

lemma le_word_le_bytes [simp]:
  fixes w :: "'a::len word"
  assumes "LENGTH('a) \<le> 8 * n"
  shows "le_word (le_bytes n w) = w"
  using assms by (simp add: le_word_le_bytes_take_bit take_bit_word_eq_self)

lemma le_bytes_inject:
  fixes v w :: "'a::len word"
  assumes "LENGTH('a) \<le> 8 * n"
  shows "le_bytes n v = le_bytes n w \<longleftrightarrow> v = w"
  using assms le_word_le_bytes by metis

lemma bit_le_word_bound:
  "bit (le_word bs :: 'a::len word) i \<Longrightarrow> i < 8 * length bs"
proof (induction bs arbitrary: i)
  case Nil
  then show ?case by simp
next
  case (Cons b bs)
  from Cons.prems have "bit b i \<or> 8 \<le> i \<and> bit (le_word bs :: 'a word) (i - 8)"
    by (auto simp: bit_simps)
  then show ?case
  proof
    assume "bit b i"
    then have "i < 8" by (auto dest: bit_imp_le_length)
    then show ?thesis by simp
  next
    assume "8 \<le> i \<and> bit (le_word bs :: 'a word) (i - 8)"
    then show ?thesis using Cons.IH [of "i - 8"] by auto
  qed
qed

lemma le_bytes_le_word [simp]:
  "8 * length bs \<le> LENGTH('a::len) \<Longrightarrow> le_bytes (length bs) (le_word bs :: 'a word) = bs"
proof (induction bs)
  case Nil
  then show ?case by simp
next
  case (Cons b bs)
  have "drop_bit 8 (le_word (b # bs) :: 'a word) = le_word bs"
  proof (rule bit_word_eqI)
    fix i
    assume "i < LENGTH('a)"
    have "bit (le_word bs :: 'a word) i \<Longrightarrow> i + 8 < LENGTH('a)"
      using bit_le_word_bound [of bs i, where 'a = 'a] Cons.prems by simp
    moreover have "\<not> bit b (i + 8)"
      by (auto dest: bit_imp_le_length)
    ultimately show "bit (drop_bit 8 (le_word (b # bs) :: 'a word)) i \<longleftrightarrow> bit (le_word bs :: 'a word) i"
      by (auto simp: bit_simps add.commute)
  qed
  moreover have "(ucast (le_word (b # bs) :: 'a word) :: byte) = b"
  proof (rule bit_word_eqI)
    fix i
    assume "i < LENGTH(8)"
    then show "bit (ucast (le_word (b # bs) :: 'a word) :: byte) i \<longleftrightarrow> bit b i"
      using Cons.prems by (auto simp: bit_simps)
  qed
  ultimately show ?case
    using Cons by simp
qed

lemma le_bytes_le_word_n [simp]:
  "length bs = n \<Longrightarrow> 8 * n \<le> LENGTH('a::len) \<Longrightarrow> le_bytes n (le_word bs :: 'a word) = bs"
  using le_bytes_le_word [of bs, where 'a = 'a] by simp

section \<open>C strings\<close>

text \<open>The memory image of the C string \<open>n\<close>: its characters and the terminator.\<close>

definition zstr :: "bytes \<Rightarrow> bytes" where
  "zstr n = n @ [0]"

text \<open>The C string at the front of a memory object, if a terminator lies inside it.\<close>

definition cstr_of :: "bytes \<Rightarrow> bytes option" where
  "cstr_of m = (if 0 \<in> set m then Some (takeWhile (\<lambda>b. b \<noteq> 0) m) else None)"

text \<open>\<open>cstring n\<close>: the bytes \<open>n\<close> are the characters of a C string.\<close>

definition cstring :: "bytes \<Rightarrow> bool" where
  "cstring n \<longleftrightarrow> 0 \<notin> set n"

lemma takeWhile_neq_append: "x \<notin> set n \<Longrightarrow> takeWhile (\<lambda>b. b \<noteq> x) (n @ x # m) = n"
  by (induction n) auto

lemma cstr_of_zstr [simp]: "cstring n \<Longrightarrow> cstr_of (zstr n) = Some n"
  by (simp add: cstr_of_def zstr_def cstring_def takeWhile_neq_append)

lemma cstr_of_append0 [simp]: "cstring n \<Longrightarrow> cstr_of (n @ 0 # m) = Some n"
  by (simp add: cstr_of_def cstring_def takeWhile_neq_append)

lemma cstr_of_cstring: "cstr_of m = Some n \<Longrightarrow> cstring n"
  by (auto simp: cstr_of_def cstring_def split: if_splits dest: set_takeWhileD)

lemma zstr_inject [simp]: "zstr m = zstr n \<longleftrightarrow> m = n"
  by (simp add: zstr_def)

lemma length_zstr [simp]: "length (zstr n) = Suc (length n)"
  by (simp add: zstr_def)

lemma zstr_not_Nil [simp]: "zstr n \<noteq> []"
  by (simp add: zstr_def)

section \<open>The program monad\<close>

datatype ('a, 's) outcome =
    Ret 'a 's      \<comment> \<open>the call returned a value and left this state\<close>
  | Exits          \<comment> \<open>\<open>err_exit\<close> or \<open>exit\<close> ended the process\<close>
  | Spins          \<comment> \<open>the call is still running when its input is used up\<close>
  | Undefined      \<comment> \<open>undefined behaviour: a read outside an object\<close>

type_synonym ('s, 'a) prog = "'s \<Rightarrow> ('a, 's) outcome"

definition ret :: "'a \<Rightarrow> ('s, 'a) prog" where
  "ret a = (\<lambda>s. Ret a s)"

definition bnd :: "('s, 'a) prog \<Rightarrow> ('a \<Rightarrow> ('s, 'b) prog) \<Rightarrow> ('s, 'b) prog" where
  "bnd m f = (\<lambda>s. case m s of Ret a s' \<Rightarrow> f a s' | Exits \<Rightarrow> Exits | Spins \<Rightarrow> Spins
     | Undefined \<Rightarrow> Undefined)"

definition andthen :: "('s, 'a) prog \<Rightarrow> ('s, 'b) prog \<Rightarrow> ('s, 'b) prog" where
  "andthen m k = bnd m (\<lambda>_. k)"

definition err_exit :: "('s, 'a) prog" where
  "err_exit = (\<lambda>_. Exits)"

definition undefined_behaviour :: "('s, 'a) prog" where
  "undefined_behaviour = (\<lambda>_. Undefined)"

definition gets :: "('s \<Rightarrow> 'a) \<Rightarrow> ('s, 'a) prog" where
  "gets f = (\<lambda>s. Ret (f s) s)"

definition modify :: "('s \<Rightarrow> 's) \<Rightarrow> ('s, unit) prog" where
  "modify f = (\<lambda>s. Ret () (f s))"

text \<open>\<open>must\<close> is a memory access that is only defined under a condition.\<close>

definition must :: "bool \<Rightarrow> ('s, unit) prog" where
  "must c = (if c then ret () else undefined_behaviour)"

text \<open>The \<open>assert\<close> macro of \<open>common/utils.h\<close>: \<open>err_exit\<close> unless the condition holds.\<close>

definition c_assert :: "bool \<Rightarrow> ('s, unit) prog" where
  "c_assert c = (if c then ret () else err_exit)"

lemmas prog_defs = ret_def bnd_def andthen_def err_exit_def undefined_behaviour_def gets_def
  modify_def must_def c_assert_def

lemma bnd_ret [simp]: "bnd (ret a) f = f a"
  by (simp add: prog_defs)

lemma bnd_ret_right [simp]: "bnd m ret = m"
  by (auto simp: prog_defs split: outcome.splits)

lemma bnd_assoc: "bnd (bnd m f) g = bnd m (\<lambda>x. bnd (f x) g)"
  by (auto simp: prog_defs split: outcome.splits)

subsection \<open>Weakest preconditions\<close>

definition wp :: "('s, 'a) prog \<Rightarrow> ('a \<Rightarrow> 's \<Rightarrow> bool) \<Rightarrow> 's \<Rightarrow> bool" where
  "wp m Q s = (case m s of Ret a s' \<Rightarrow> Q a s' | _ \<Rightarrow> True)"

definition twp :: "('s, 'a) prog \<Rightarrow> ('a \<Rightarrow> 's \<Rightarrow> bool) \<Rightarrow> 's \<Rightarrow> bool" where
  "twp m Q s = (case m s of Ret a s' \<Rightarrow> Q a s' | _ \<Rightarrow> False)"

lemma wp_ret [simp, wp_rules]: "wp (ret a) Q s = Q a s"
  by (simp add: wp_def prog_defs)

lemma wp_bnd [simp, wp_rules]: "wp (bnd m f) Q s = wp m (\<lambda>a. wp (f a) Q) s"
  by (simp add: wp_def prog_defs split: outcome.splits)

lemma wp_andthen [simp, wp_rules]: "wp (andthen m k) Q s = wp m (\<lambda>_. wp k Q) s"
  by (simp add: andthen_def)

lemma wp_err_exit [simp, wp_rules]: "wp err_exit Q s"
  by (simp add: wp_def prog_defs)

lemma wp_undefined [simp, wp_rules]: "wp undefined_behaviour Q s"
  by (simp add: wp_def prog_defs)

lemma wp_gets [simp, wp_rules]: "wp (gets f) Q s = Q (f s) s"
  by (simp add: wp_def prog_defs)

lemma wp_modify [simp, wp_rules]: "wp (modify f) Q s = Q () (f s)"
  by (simp add: wp_def prog_defs)

lemma wp_must [simp, wp_rules]: "wp (must c) Q s = (c \<longrightarrow> Q () s)"
  by (simp add: must_def)

lemma wp_c_assert [simp, wp_rules]: "wp (c_assert c) Q s = (c \<longrightarrow> Q () s)"
  by (simp add: c_assert_def)

lemma twp_ret [simp, twp_rules]: "twp (ret a) Q s = Q a s"
  by (simp add: twp_def prog_defs)

lemma twp_bnd [simp, twp_rules]: "twp (bnd m f) Q s = twp m (\<lambda>a. twp (f a) Q) s"
  by (simp add: twp_def prog_defs split: outcome.splits)

lemma twp_andthen [simp, twp_rules]: "twp (andthen m k) Q s = twp m (\<lambda>_. twp k Q) s"
  by (simp add: andthen_def)

lemma twp_err_exit [simp, twp_rules]: "\<not> twp err_exit Q s"
  by (simp add: twp_def prog_defs)

lemma twp_undefined [simp, twp_rules]: "\<not> twp undefined_behaviour Q s"
  by (simp add: twp_def prog_defs)

lemma twp_gets [simp, twp_rules]: "twp (gets f) Q s = Q (f s) s"
  by (simp add: twp_def prog_defs)

lemma twp_modify [simp, twp_rules]: "twp (modify f) Q s = Q () (f s)"
  by (simp add: twp_def prog_defs)

lemma twp_must [simp, twp_rules]: "twp (must c) Q s = (c \<and> Q () s)"
  by (simp add: must_def)

lemma twp_c_assert [simp, twp_rules]: "twp (c_assert c) Q s = (c \<and> Q () s)"
  by (simp add: c_assert_def)

lemma wp_mono: "wp m P s \<Longrightarrow> (\<And>a s'. P a s' \<Longrightarrow> Q a s') \<Longrightarrow> wp m Q s"
  by (auto simp: wp_def split: outcome.splits)

lemma twp_mono: "twp m P s \<Longrightarrow> (\<And>a s'. P a s' \<Longrightarrow> Q a s') \<Longrightarrow> twp m Q s"
  by (auto simp: twp_def split: outcome.splits)

lemma twp_imp_wp: "twp m Q s \<Longrightarrow> wp m Q s"
  by (auto simp: wp_def twp_def split: outcome.splits)

lemma wp_conj: "wp m P s \<Longrightarrow> wp m Q s \<Longrightarrow> wp m (\<lambda>a s'. P a s' \<and> Q a s') s"
  by (auto simp: wp_def split: outcome.splits)

lemma twp_wp_conj: "twp m P s \<Longrightarrow> wp m Q s \<Longrightarrow> twp m (\<lambda>a s'. P a s' \<and> Q a s') s"
  by (auto simp: wp_def twp_def split: outcome.splits)

lemma twp_of_wp: "twp m (\<lambda>_ _. True) s \<Longrightarrow> wp m Q s \<Longrightarrow> twp m Q s"
  by (auto simp: wp_def twp_def split: outcome.splits)

lemma twp_Ret: "twp m Q s \<longleftrightarrow> (\<exists>a s'. m s = Ret a s' \<and> Q a s')"
  by (auto simp: twp_def split: outcome.splits)

lemma wp_Ret: "wp m Q s \<Longrightarrow> m s = Ret a s' \<Longrightarrow> Q a s'"
  by (simp add: wp_def)

lemma wpI: "(\<And>a s'. m s = Ret a s' \<Longrightarrow> Q a s') \<Longrightarrow> wp m Q s"
  by (auto simp: wp_def split: outcome.splits)

lemma wp_iff: "wp m Q s \<longleftrightarrow> (\<forall>a s'. m s = Ret a s' \<longrightarrow> Q a s')"
  by (auto simp: wp_def split: outcome.splits)

section \<open>Lists and maps\<close>

lemma inj_on_map_upd:
  "inj_on f (dom f) \<Longrightarrow> v \<notin> ran f \<Longrightarrow> inj_on (f(k \<mapsto> v)) (dom (f(k \<mapsto> v)))"
  by (auto simp: inj_on_def ran_def)

lemma map_le_dom_eq: "f k = Some v \<Longrightarrow> v \<in> ran f"
  by (auto simp: ran_def)

end
