(* ===== verification/Ftypes.thy ===== *)
theory Ftypes
  imports Prelude
begin

text \<open>
  The data of the protocol: \<open>include/common/ftypes.h\<close>, \<open>requests.h\<close> and \<open>replys.h\<close>, and the
  message names of \<open>src/common/strings.c\<close>. A C enumeration is a datatype with its integer codes
  beside it, a struct is a record, and a tagged union (\<open>snfs_req\<close>, \<open>snfs_rep\<close>) is a
  datatype with one constructor per tag, so that reading a member under the wrong tag cannot be
  written. A tag outside the enumeration is \<open>Req_other\<close> or \<open>Rep_other\<close>.
\<close>

section \<open>Enumerations and constants\<close>

definition SNFS_MAX_FILENAME_LENGTH :: nat where
  "SNFS_MAX_FILENAME_LENGTH = 255"

definition SNFS_MAX_FILENAME_BUF :: nat where
  "SNFS_MAX_FILENAME_BUF = 256"

lemma filename_limits [simp]:
  "SNFS_MAX_FILENAME_LENGTH = 255" "SNFS_MAX_FILENAME_BUF = 256"
  by (simp_all add: SNFS_MAX_FILENAME_LENGTH_def SNFS_MAX_FILENAME_BUF_def)

definition SNFS_SETMODE :: u64 where "SNFS_SETMODE = 1"
definition SNFS_SETUID :: u64 where "SNFS_SETUID = 2"
definition SNFS_SETGID :: u64 where "SNFS_SETGID = 4"
definition SNFS_SETSIZE :: u64 where "SNFS_SETSIZE = 8"
definition SNFS_SETTIMES :: u64 where "SNFS_SETTIMES = 16"

lemmas which_bits = SNFS_SETMODE_def SNFS_SETUID_def SNFS_SETGID_def SNFS_SETSIZE_def
  SNFS_SETTIMES_def

type_synonym fhandle = u64

record snfs_timeval =
  tv_seconds :: i64
  tv_useconds :: i64

record snfsentry =
  ent_fileid :: u64
  ent_filename :: bytes

datatype ftype = SNFNON | SNFREG | SNFDIR | SNFBLK | SNFCHR | SNFLNK

record fattr =
  fa_type :: ftype
  fa_mode :: u64
  fa_nlink :: u64
  fa_uid :: u64
  fa_gid :: u64
  fa_size :: u64
  fa_rdev :: u64
  fa_fsid :: u64
  fa_fileid :: u64
  fa_atime :: snfs_timeval
  fa_mtime :: snfs_timeval
  fa_ctime :: snfs_timeval

datatype snfs_msg_type =
    NOOP | MOUNT | GETATTR | READDIR | LOOKUP | READ | WRITE | SETATTR
  | CREATE | REMOVE | RENAME | MKDIR | ERROR

datatype snfs_error =
    SNFS_ENOTIMPL | SNFS_EBADOP | SNFS_ENOENT | SNFS_EACCES | SNFS_ENOTDIR | SNFS_EINTERNAL

fun ftype_code :: "ftype \<Rightarrow> u32" where
  "ftype_code SNFNON = 0"
| "ftype_code SNFREG = 1"
| "ftype_code SNFDIR = 2"
| "ftype_code SNFBLK = 3"
| "ftype_code SNFCHR = 4"
| "ftype_code SNFLNK = 5"

fun msg_code :: "snfs_msg_type \<Rightarrow> u32" where
  "msg_code NOOP = 0"
| "msg_code MOUNT = 1"
| "msg_code GETATTR = 2"
| "msg_code READDIR = 3"
| "msg_code LOOKUP = 4"
| "msg_code READ = 5"
| "msg_code WRITE = 6"
| "msg_code SETATTR = 7"
| "msg_code CREATE = 8"
| "msg_code REMOVE = 9"
| "msg_code RENAME = 10"
| "msg_code MKDIR = 11"
| "msg_code ERROR = 12"

fun error_code :: "snfs_error \<Rightarrow> u32" where
  "error_code SNFS_ENOTIMPL = 0"
| "error_code SNFS_EBADOP = 1"
| "error_code SNFS_ENOENT = 2"
| "error_code SNFS_EACCES = 3"
| "error_code SNFS_ENOTDIR = 4"
| "error_code SNFS_EINTERNAL = 5"

text \<open>
  Reading a code back. A 32-bit value that is no enumerator has no constructor: the C code
  compares such a value with every enumerator and takes the \<open>default\<close> branch.
\<close>

definition code_lookup :: "('a \<Rightarrow> u32) \<Rightarrow> 'a list \<Rightarrow> u32 \<Rightarrow> 'a option" where
  "code_lookup code xs c = List.find (\<lambda>x. code x = c) xs"

definition all_ftypes :: "ftype list" where
  "all_ftypes = [SNFNON, SNFREG, SNFDIR, SNFBLK, SNFCHR, SNFLNK]"

definition all_msg_types :: "snfs_msg_type list" where
  "all_msg_types = [NOOP, MOUNT, GETATTR, READDIR, LOOKUP, READ, WRITE, SETATTR,
     CREATE, REMOVE, RENAME, MKDIR, ERROR]"

definition all_errors :: "snfs_error list" where
  "all_errors =
     [SNFS_ENOTIMPL, SNFS_EBADOP, SNFS_ENOENT, SNFS_EACCES, SNFS_ENOTDIR, SNFS_EINTERNAL]"

definition ftype_of_code :: "u32 \<Rightarrow> ftype option" where
  "ftype_of_code = code_lookup ftype_code all_ftypes"

definition msg_of_code :: "u32 \<Rightarrow> snfs_msg_type option" where
  "msg_of_code = code_lookup msg_code all_msg_types"

definition error_of_code :: "u32 \<Rightarrow> snfs_error option" where
  "error_of_code = code_lookup error_code all_errors"

lemma msg_of_code_msg_code [simp]: "msg_of_code (msg_code m) = Some m"
  by (cases m) (simp_all add: msg_of_code_def code_lookup_def all_msg_types_def)

lemma ftype_of_code_ftype_code [simp]: "ftype_of_code (ftype_code t) = Some t"
  by (cases t) (simp_all add: ftype_of_code_def code_lookup_def all_ftypes_def)

lemma error_of_code_error_code [simp]: "error_of_code (error_code e) = Some e"
  by (cases e) (simp_all add: error_of_code_def code_lookup_def all_errors_def)

lemma msg_code_inject [simp]: "msg_code a = msg_code b \<longleftrightarrow> a = b"
  by (metis msg_of_code_msg_code option.inject)

lemma msg_of_code_SomeD: "msg_of_code c = Some m \<Longrightarrow> c = msg_code m"
  by (auto simp: msg_of_code_def code_lookup_def find_Some_iff)

section \<open>Requests\<close>

record getattr_args =
  ga_fh :: fhandle

record read_args =
  ra_file :: fhandle
  ra_offset :: i64
  ra_count :: u64

record write_args =
  wa_file :: fhandle
  wa_offset :: i64
  wa_count :: u64
  wa_data :: bytes

record readdir_args =
  rd_dir :: fhandle
  rd_count :: u64

record lookup_args =
  la_dir :: fhandle
  la_filename :: bytes

record setattr_args =
  sa_file :: fhandle
  sa_which :: u64
  sa_mode :: u64
  sa_uid :: u64
  sa_gid :: u64
  sa_size :: i64
  sa_atime :: snfs_timeval
  sa_mtime :: snfs_timeval

record create_args =
  ca_filename :: bytes
  ca_mode :: u32

record remove_args =
  rm_fh :: fhandle
  rm_is_dir :: u8

record rename_args =
  rn_fh :: fhandle
  rn_filename :: bytes

record mkdir_args =
  mk_dirname :: bytes
  mk_mode :: u32

datatype snfs_req =
    Req_noop
  | Req_mount
  | Req_getattr getattr_args
  | Req_readdir readdir_args
  | Req_lookup lookup_args
  | Req_read read_args
  | Req_write write_args
  | Req_setattr setattr_args
  | Req_create create_args
  | Req_remove remove_args
  | Req_rename rename_args
  | Req_mkdir mkdir_args
  | Req_other u32

fun req_code :: "snfs_req \<Rightarrow> u32" where
  "req_code Req_noop = msg_code NOOP"
| "req_code Req_mount = msg_code MOUNT"
| "req_code (Req_getattr a) = msg_code GETATTR"
| "req_code (Req_readdir a) = msg_code READDIR"
| "req_code (Req_lookup a) = msg_code LOOKUP"
| "req_code (Req_read a) = msg_code READ"
| "req_code (Req_write a) = msg_code WRITE"
| "req_code (Req_setattr a) = msg_code SETATTR"
| "req_code (Req_create a) = msg_code CREATE"
| "req_code (Req_remove a) = msg_code REMOVE"
| "req_code (Req_rename a) = msg_code RENAME"
| "req_code (Req_mkdir a) = msg_code MKDIR"
| "req_code (Req_other c) = c"

section \<open>Replies\<close>

record lookup_rep =
  lr_handle :: fhandle
  lr_attributes :: fattr

record read_rep =
  rr_count :: u64
  rr_eof :: u64
  rr_data :: bytes

record readdir_rep =
  dr_num_entries :: u64
  dr_entries :: "snfsentry list"

datatype snfs_rep =
    Rep_noop
  | Rep_mount fhandle
  | Rep_getattr fattr
  | Rep_readdir readdir_rep
  | Rep_lookup lookup_rep
  | Rep_read read_rep
  | Rep_write u64
  | Rep_setattr u64
  | Rep_create fhandle
  | Rep_remove
  | Rep_rename fhandle
  | Rep_mkdir fhandle
  | Rep_error snfs_error

fun rep_code :: "snfs_rep \<Rightarrow> u32" where
  "rep_code Rep_noop = msg_code NOOP"
| "rep_code (Rep_mount h) = msg_code MOUNT"
| "rep_code (Rep_getattr a) = msg_code GETATTR"
| "rep_code (Rep_readdir r) = msg_code READDIR"
| "rep_code (Rep_lookup r) = msg_code LOOKUP"
| "rep_code (Rep_read r) = msg_code READ"
| "rep_code (Rep_write n) = msg_code WRITE"
| "rep_code (Rep_setattr w) = msg_code SETATTR"
| "rep_code (Rep_create h) = msg_code CREATE"
| "rep_code Rep_remove = msg_code REMOVE"
| "rep_code (Rep_rename h) = msg_code RENAME"
| "rep_code (Rep_mkdir h) = msg_code MKDIR"
| "rep_code (Rep_error e) = msg_code ERROR"

section \<open>Message names\<close>

text \<open>
  \<open>strmsgtype\<close> takes the integer the message carries. It has no case for the four
  messages added for the extra credit, which therefore print as \<open>UNKNOWN\<close>.
\<close>

definition strmsgtype :: "u32 \<Rightarrow> string" where
  "strmsgtype c =
     (if c = msg_code NOOP then ''NOOP''
      else if c = msg_code MOUNT then ''MOUNT''
      else if c = msg_code GETATTR then ''GETATTR''
      else if c = msg_code READ then ''READ''
      else if c = msg_code READDIR then ''READDIR''
      else if c = msg_code WRITE then ''WRITE''
      else if c = msg_code LOOKUP then ''LOOKUP''
      else if c = msg_code SETATTR then ''SETATTR''
      else if c = msg_code ERROR then ''ERROR''
      else ''UNKNOWN'')"

definition strsnfserror :: "u32 \<Rightarrow> string" where
  "strsnfserror c =
     (if c = error_code SNFS_ENOTIMPL then ''The requested operation has not been implemented.''
      else if c = error_code SNFS_EBADOP then ''The requested operation is invalid.''
      else if c = error_code SNFS_ENOENT then ''The entry specified does not exist or is invalid.''
      else if c = error_code SNFS_EACCES then ''Permission was denied for the specified entry.''
      else if c = error_code SNFS_ENOTDIR then ''A directory entry was expected but was not found.''
      else if c = error_code SNFS_EINTERNAL then ''There was an internal server error.''
      else ''UNKNOWN'')"

text \<open>
  \<open>printbuf\<close>: two upper-case hexadecimal digits a byte, a line break after every 32 bytes and
  after an incomplete last line. The argument \<open>i\<close> of the loop is the C loop's index.
\<close>

definition hex_digit :: "nat \<Rightarrow> char" where
  "hex_digit d = ''0123456789ABCDEF'' ! d"

definition hex_byte :: "byte \<Rightarrow> string" where
  "hex_byte b = [hex_digit (unat b div 16), hex_digit (unat b mod 16)]"

fun printbuf_loop :: "nat \<Rightarrow> bytes \<Rightarrow> string" where
  "printbuf_loop i [] = (if i mod 32 \<noteq> 0 then ''\<newline>'' else [])"
| "printbuf_loop i (b # bs) =
     hex_byte b @ (if (i + 1) mod 32 = 0 then ''\<newline>'' else []) @ printbuf_loop (i + 1) bs"

definition printbuf :: "bytes \<Rightarrow> string" where
  "printbuf buf = printbuf_loop 0 buf"

text \<open>
  The lines \<open>printbuf\<close> prints, as a specification: the input cut into rows of 32 bytes, each
  row in hexadecimal with a line break at its end. Nothing is printed for an empty buffer.
\<close>

function rows :: "nat \<Rightarrow> 'a list \<Rightarrow> 'a list list" where
  "rows n xs = (if n = 0 \<or> xs = [] then [] else take n xs # rows n (drop n xs))"
  by pat_completeness auto
termination
  by (relation "measure (\<lambda>(n, xs). length xs)") auto

declare rows.simps [simp del]

definition print_row :: "bytes \<Rightarrow> string" where
  "print_row r = concat (map hex_byte r) @ ''\<newline>''"

lemma printbuf_loop_row:
  assumes "bs \<noteq> []" "length bs \<le> 32 - i mod 32"
  shows "printbuf_loop i bs = print_row bs"
  using assms
proof (induction bs arbitrary: i)
  case Nil
  then show ?case by simp
next
  case (Cons b bs)
  show ?case
  proof (cases "bs = []")
    case True
    then show ?thesis
      by (auto simp: print_row_def)
  next
    case False
    with Cons.prems have "2 \<le> 32 - i mod 32"
      by (cases bs) auto
    then have step: "(i + 1) mod 32 = i mod 32 + 1"
      by (simp add: mod_Suc)
    with Cons.prems have "length bs \<le> 32 - (i + 1) mod 32"
      by simp
    from Cons.IH [OF False this] step show ?thesis
      by (simp add: print_row_def)
  qed
qed

lemma printbuf_loop_append:
  assumes "i mod 32 = 0" "length r = 32"
  shows "printbuf_loop i (r @ bs) = print_row r @ printbuf_loop (i + 32) bs"
proof -
  have "k \<le> 32 \<Longrightarrow> length r' = k \<Longrightarrow> i mod 32 = 32 - k \<Longrightarrow> 0 < k \<Longrightarrow>
    printbuf_loop i (r' @ bs) = print_row r' @ printbuf_loop (i + k) bs" for k r' i
  proof (induction k arbitrary: r' i)
    case 0
    then show ?case by simp
  next
    case (Suc k)
    from Suc.prems obtain b r'' where r': "r' = b # r''" "length r'' = k"
      by (cases r') auto
    show ?case
    proof (cases "k = 0")
      case True
      with Suc.prems r' have "(i + 1) mod 32 = 0"
        by (simp add: mod_Suc)
      with r' True show ?thesis by (simp add: print_row_def)
    next
      case False
      with Suc.prems have step: "(i + 1) mod 32 = 32 - k"
        by (simp add: mod_Suc, arith)
      with Suc.IH [of r'' "i + 1"] Suc.prems r' False show ?thesis
        by (simp add: print_row_def)
    qed
  qed
  from this [of 32 r i] assms show ?thesis by simp
qed

lemma printbuf_loop_rows:
  "i mod 32 = 0 \<Longrightarrow> printbuf_loop i bs = concat (map print_row (rows 32 bs))"
proof (induction bs arbitrary: i rule: length_induct)
  case (1 bs)
  show ?case
  proof (cases "bs = []")
    case True
    with 1 show ?thesis by (simp add: rows.simps)
  next
    case nonempty: False
    then have rows: "rows 32 bs = take 32 bs # rows 32 (drop 32 bs)"
      by (simp add: rows.simps [of 32 bs])
    show ?thesis
    proof (cases "length bs \<le> 32")
      case True
      then have "rows 32 (drop 32 bs) = []"
        by (simp add: rows.simps)
      with nonempty True 1(2) rows show ?thesis
        by (simp add: printbuf_loop_row)
    next
      case False
      have "printbuf_loop i (take 32 bs @ drop 32 bs) =
          print_row (take 32 bs) @ printbuf_loop (i + 32) (drop 32 bs)"
        using False 1(2) by (intro printbuf_loop_append) auto
      moreover have "printbuf_loop (i + 32) (drop 32 bs) = concat (map print_row (rows 32 (drop 32 bs)))"
        using nonempty 1(2) by (intro 1(1) [rule_format]) auto
      ultimately show ?thesis using rows by simp
    qed
  qed
qed

end
