(* ===== verification/Posix_Env.thy ===== *)
theory Posix_Env
  imports Ftypes
begin

text \<open>
  What the server runs on. The kernel's file-system calls and Berkeley DB are not part of the
  repository, so they are the fields of a record \<open>env\<close> that every server definition takes as an
  argument: functions over a state \<open>'w\<close> of the file system and a state \<open>'d\<close> of the
  database, with the signatures and the error convention of the man pages (\<open>Inl errno\<close> for a
  call that fails). The server's own state is the record \<open>server\<close>. The wrappers \<open>c_...\<close>
  are the C calls as the handlers make them: they thread the state and keep the books on the
  process resources the handlers are responsible for, open descriptors and live heap blocks.

  \<open>libdb_laws\<close> and \<open>libdb_no_failure\<close> state the documented behaviour of an unsorted-duplicate-free
  Berkeley DB B-tree on which the handle database relies; they are named hypotheses of the
  theorems that need them. The database file lives apart from \<open>'w\<close>: requests that name
  \<open>.snfs.db\<close> itself are outside the model.
\<close>

section \<open>The system calls\<close>

datatype errno = ENOENT | EACCES | ENOTDIR | EINVAL | EISDIR | EEXIST | EFAULT | EBADF
  | ENOTSUP | ETERM | EAGAIN | ERANGE | Errno int

record stat =
  st_mode :: u32
  st_nlink :: u64
  st_uid :: u32
  st_gid :: u32
  st_size :: i64
  st_rdev :: u64
  st_dev :: u64
  st_ino :: u64
  st_atime :: i64
  st_mtime :: i64
  st_ctime :: i64

definition S_IFMT :: u32 where "S_IFMT = 0xF000"
definition S_IFREG :: u32 where "S_IFREG = 0x8000"
definition S_IFDIR :: u32 where "S_IFDIR = 0x4000"
definition S_IFBLK :: u32 where "S_IFBLK = 0x6000"
definition S_IFCHR :: u32 where "S_IFCHR = 0x2000"
definition S_IFLNK :: u32 where "S_IFLNK = 0xA000"

lemmas s_if_defs = S_IFMT_def S_IFREG_def S_IFDIR_def S_IFBLK_def S_IFCHR_def S_IFLNK_def

definition S_ISREG :: "u32 \<Rightarrow> bool" where "S_ISREG m \<longleftrightarrow> m AND S_IFMT = S_IFREG"
definition S_ISDIR :: "u32 \<Rightarrow> bool" where "S_ISDIR m \<longleftrightarrow> m AND S_IFMT = S_IFDIR"
definition S_ISBLK :: "u32 \<Rightarrow> bool" where "S_ISBLK m \<longleftrightarrow> m AND S_IFMT = S_IFBLK"
definition S_ISCHR :: "u32 \<Rightarrow> bool" where "S_ISCHR m \<longleftrightarrow> m AND S_IFMT = S_IFCHR"
definition S_ISLNK :: "u32 \<Rightarrow> bool" where "S_ISLNK m \<longleftrightarrow> m AND S_IFMT = S_IFLNK"

lemmas s_is_defs = S_ISREG_def S_ISDIR_def S_ISBLK_def S_ISCHR_def S_ISLNK_def

datatype oflag = O_RDONLY | O_WRONLY

record dirent =
  d_ino :: u64
  d_name :: bytes   \<comment> \<open>the 256-byte \<open>d_name\<close> array\<close>

datatype dir_result = Dir_entry dirent | Dir_end | Dir_error errno

type_synonym path = bytes

record ('w, 'd) env =
  px_stat :: "path \<Rightarrow> 'w \<Rightarrow> errno + stat"
  px_open :: "path \<Rightarrow> oflag \<Rightarrow> 'w \<Rightarrow> (errno + int) \<times> 'w"
  px_creat :: "path \<Rightarrow> u32 \<Rightarrow> 'w \<Rightarrow> (errno + int) \<times> 'w"
  px_lseek :: "int \<Rightarrow> i64 \<Rightarrow> 'w \<Rightarrow> i64 \<times> 'w"
  px_read :: "int \<Rightarrow> u64 \<Rightarrow> 'w \<Rightarrow> (errno + bytes) \<times> 'w"
  px_write :: "int \<Rightarrow> bytes \<Rightarrow> 'w \<Rightarrow> (errno + u64) \<times> 'w"
  px_close :: "int \<Rightarrow> 'w \<Rightarrow> 'w"
  px_opendir :: "path \<Rightarrow> 'w \<Rightarrow> (errno + int) \<times> 'w"
  px_readdir :: "int \<Rightarrow> 'w \<Rightarrow> dir_result \<times> 'w"
  px_unlink :: "path \<Rightarrow> 'w \<Rightarrow> errno option \<times> 'w"
  px_rmdir :: "path \<Rightarrow> 'w \<Rightarrow> errno option \<times> 'w"
  px_rename :: "path \<Rightarrow> path \<Rightarrow> 'w \<Rightarrow> errno option \<times> 'w"
  px_mkdir :: "path \<Rightarrow> u32 \<Rightarrow> 'w \<Rightarrow> errno option \<times> 'w"
  px_chmod :: "path \<Rightarrow> u32 \<Rightarrow> 'w \<Rightarrow> errno option \<times> 'w"
  px_chown :: "path \<Rightarrow> u32 \<Rightarrow> u32 \<Rightarrow> 'w \<Rightarrow> errno option \<times> 'w"
  px_truncate :: "path \<Rightarrow> i64 \<Rightarrow> 'w \<Rightarrow> errno option \<times> 'w"
  px_utimes :: "path \<Rightarrow> snfs_timeval \<Rightarrow> snfs_timeval \<Rightarrow> 'w \<Rightarrow> errno option \<times> 'w"
  px_utime :: "path \<Rightarrow> i64 \<Rightarrow> i64 \<Rightarrow> 'w \<Rightarrow> errno option \<times> 'w"
  malloc_ok :: "nat \<Rightarrow> 'w \<Rightarrow> bool"   \<comment> \<open>\<open>malloc\<close> of this size does not return \<open>NULL\<close>\<close>
  stack_ok :: "nat \<Rightarrow> bool"        \<comment> \<open>a variable-length array of this size fits the stack\<close>
  stack_fattr :: "'w \<Rightarrow> fattr"      \<comment> \<open>what an uninitialised local \<open>fattr\<close> happens to hold\<close>
  db_create :: "'d \<Rightarrow> int \<times> 'd"
  db_open :: "'d \<Rightarrow> int \<times> 'd"
  db_close :: "'d \<Rightarrow> int \<times> 'd"
  db_get :: "bytes \<Rightarrow> 'd \<Rightarrow> int \<times> bytes"
  db_put :: "bytes \<Rightarrow> bytes \<Rightarrow> 'd \<Rightarrow> int \<times> 'd"
  db_del :: "bytes \<Rightarrow> 'd \<Rightarrow> int \<times> 'd"
  db_unlink :: "'d \<Rightarrow> int \<times> 'd"    \<comment> \<open>\<open>remove(DB_FILE)\<close>\<close>
  DB_NOTFOUND :: int

section \<open>The server's state\<close>

record ('w, 'd) server =
  world :: 'w                \<comment> \<open>the file system\<close>
  DBP :: bool                \<comment> \<open>the static handle \<open>DBP\<close> is not \<open>NULL\<close>\<close>
  dbst :: 'd                 \<comment> \<open>the database\<close>
  rnd :: "u64 list"          \<comment> \<open>the next draws of \<open>arc4random_buf\<close>\<close>
  live :: int                \<comment> \<open>heap blocks allocated and not freed\<close>
  fds :: "int list"          \<comment> \<open>descriptors and directory streams open\<close>
  sent :: "snfs_rep list"    \<comment> \<open>replies handed to the transport, oldest first\<close>

type_synonym ('w, 'd, 'a) srv = "(('w, 'd) server, 'a) prog"

subsection \<open>Calls that return a status\<close>

definition c_status :: "('w \<Rightarrow> errno option \<times> 'w) \<Rightarrow> ('w, 'd, errno option) srv" where
  "c_status f = (\<lambda>s. case f (world s) of (r, w) \<Rightarrow> Ret r (s\<lparr>world := w\<rparr>))"

definition c_stat :: "('w, 'd) env \<Rightarrow> path \<Rightarrow> ('w, 'd, errno + stat) srv" where
  "c_stat E p = gets (\<lambda>s. px_stat E p (world s))"

subsection \<open>Descriptors\<close>

definition c_opening :: "('w \<Rightarrow> (errno + int) \<times> 'w) \<Rightarrow> ('w, 'd, errno + int) srv" where
  "c_opening f = (\<lambda>s. case f (world s) of
     (Inl e, w) \<Rightarrow> Ret (Inl e) (s\<lparr>world := w\<rparr>)
   | (Inr fd, w) \<Rightarrow> Ret (Inr fd) (s\<lparr>world := w, fds := fd # fds s\<rparr>))"

definition c_close :: "('w, 'd) env \<Rightarrow> int \<Rightarrow> ('w, 'd, unit) srv" where
  "c_close E fd = modify (\<lambda>s. s\<lparr>world := px_close E fd (world s), fds := remove1 fd (fds s)\<rparr>)"

definition c_lseek :: "('w, 'd) env \<Rightarrow> int \<Rightarrow> i64 \<Rightarrow> ('w, 'd, i64) srv" where
  "c_lseek E fd off =
     (\<lambda>s. case px_lseek E fd off (world s) of (r, w) \<Rightarrow> Ret r (s\<lparr>world := w\<rparr>))"

definition c_read :: "('w, 'd) env \<Rightarrow> int \<Rightarrow> u64 \<Rightarrow> ('w, 'd, errno + bytes) srv" where
  "c_read E fd n =
     (\<lambda>s. case px_read E fd n (world s) of (r, w) \<Rightarrow> Ret r (s\<lparr>world := w\<rparr>))"

definition c_write :: "('w, 'd) env \<Rightarrow> int \<Rightarrow> bytes \<Rightarrow> ('w, 'd, errno + u64) srv" where
  "c_write E fd d =
     (\<lambda>s. case px_write E fd d (world s) of (r, w) \<Rightarrow> Ret r (s\<lparr>world := w\<rparr>))"

definition c_readdir :: "('w, 'd) env \<Rightarrow> int \<Rightarrow> ('w, 'd, dir_result) srv" where
  "c_readdir E d =
     (\<lambda>s. case px_readdir E d (world s) of (r, w) \<Rightarrow> Ret r (s\<lparr>world := w\<rparr>))"

subsection \<open>Memory\<close>

text \<open>\<open>malloc\<close> whose result is used without a check, and \<open>malloc\<close> followed by \<open>assert_malloc\<close>.\<close>

definition c_malloc_unchecked :: "('w, 'd) env \<Rightarrow> nat \<Rightarrow> ('w, 'd, unit) srv" where
  "c_malloc_unchecked E n =
     bnd (gets (\<lambda>s. malloc_ok E n (world s))) (\<lambda>ok.
     andthen (must ok) (modify (\<lambda>s. s\<lparr>live := live s + 1\<rparr>)))"

definition c_malloc :: "('w, 'd) env \<Rightarrow> nat \<Rightarrow> ('w, 'd, unit) srv" where
  "c_malloc E n =
     bnd (gets (\<lambda>s. malloc_ok E n (world s))) (\<lambda>ok.
     andthen (c_assert ok) (modify (\<lambda>s. s\<lparr>live := live s + 1\<rparr>)))"

definition c_free :: "('w, 'd, unit) srv" where
  "c_free = modify (\<lambda>s. s\<lparr>live := live s - 1\<rparr>)"

text \<open>A memory object passed where a C string is expected.\<close>

definition as_cstr :: "bytes \<Rightarrow> ('w, 'd, path) srv" where
  "as_cstr m = (case cstr_of m of None \<Rightarrow> undefined_behaviour | Some n \<Rightarrow> ret n)"

subsection \<open>Their weakest preconditions\<close>

lemma wp_c_status [simp, wp_rules]:
  "wp (c_status f) Q s =
     (\<forall>r w. f (world s) = (r, w) \<longrightarrow> Q r (s\<lparr>world := w\<rparr>))"
  by (simp add: c_status_def wp_def split: prod.splits)

lemma wp_c_stat [simp, wp_rules]: "wp (c_stat E p) Q s = Q (px_stat E p (world s)) s"
  by (simp add: c_stat_def)

lemma wp_c_opening [simp, wp_rules]:
  "wp (c_opening f) Q s =
     ((\<forall>e w. f (world s) = (Inl e, w) \<longrightarrow> Q (Inl e) (s\<lparr>world := w\<rparr>)) \<and>
      (\<forall>fd w. f (world s) = (Inr fd, w) \<longrightarrow> Q (Inr fd) (s\<lparr>world := w, fds := fd # fds s\<rparr>)))"
  by (auto simp: c_opening_def wp_def split: prod.splits sum.splits)

lemma wp_c_close [simp, wp_rules]:
  "wp (c_close E fd) Q s = Q () (s\<lparr>world := px_close E fd (world s), fds := remove1 fd (fds s)\<rparr>)"
  by (simp add: c_close_def)

lemma wp_c_lseek [simp, wp_rules]:
  "wp (c_lseek E fd off) Q s =
     (\<forall>r w. px_lseek E fd off (world s) = (r, w) \<longrightarrow> Q r (s\<lparr>world := w\<rparr>))"
  by (simp add: c_lseek_def wp_def split: prod.splits)

lemma wp_c_read [simp, wp_rules]:
  "wp (c_read E fd n) Q s =
     (\<forall>r w. px_read E fd n (world s) = (r, w) \<longrightarrow> Q r (s\<lparr>world := w\<rparr>))"
  by (simp add: c_read_def wp_def split: prod.splits)

lemma wp_c_write [simp, wp_rules]:
  "wp (c_write E fd d) Q s =
     (\<forall>r w. px_write E fd d (world s) = (r, w) \<longrightarrow> Q r (s\<lparr>world := w\<rparr>))"
  by (simp add: c_write_def wp_def split: prod.splits)

lemma wp_c_readdir [simp, wp_rules]:
  "wp (c_readdir E d) Q s =
     (\<forall>r w. px_readdir E d (world s) = (r, w) \<longrightarrow> Q r (s\<lparr>world := w\<rparr>))"
  by (simp add: c_readdir_def wp_def split: prod.splits)

lemma wp_c_malloc_unchecked [simp, wp_rules]:
  "wp (c_malloc_unchecked E n) Q s =
     (malloc_ok E n (world s) \<longrightarrow> Q () (s\<lparr>live := live s + 1\<rparr>))"
  by (simp add: c_malloc_unchecked_def)

lemma wp_c_malloc [simp, wp_rules]:
  "wp (c_malloc E n) Q s = (malloc_ok E n (world s) \<longrightarrow> Q () (s\<lparr>live := live s + 1\<rparr>))"
  by (simp add: c_malloc_def)

lemma wp_c_free [simp, wp_rules]: "wp c_free Q s = Q () (s\<lparr>live := live s - 1\<rparr>)"
  by (simp add: c_free_def)

lemma wp_as_cstr [simp, wp_rules]:
  "wp (as_cstr m) Q s = (\<forall>n. cstr_of m = Some n \<longrightarrow> Q n s)"
  by (simp add: as_cstr_def split: option.splits)

lemma twp_c_status [simp, twp_rules]:
  "twp (c_status f) Q s =
     (\<forall>r w. f (world s) = (r, w) \<longrightarrow> Q r (s\<lparr>world := w\<rparr>))"
  by (simp add: c_status_def twp_def split: prod.splits)

lemma twp_c_stat [simp, twp_rules]: "twp (c_stat E p) Q s = Q (px_stat E p (world s)) s"
  by (simp add: c_stat_def)

lemma twp_c_opening [simp, twp_rules]:
  "twp (c_opening f) Q s =
     ((\<forall>e w. f (world s) = (Inl e, w) \<longrightarrow> Q (Inl e) (s\<lparr>world := w\<rparr>)) \<and>
      (\<forall>fd w. f (world s) = (Inr fd, w) \<longrightarrow> Q (Inr fd) (s\<lparr>world := w, fds := fd # fds s\<rparr>)))"
  by (auto simp: c_opening_def twp_def split: prod.splits sum.splits)

lemma twp_c_close [simp, twp_rules]:
  "twp (c_close E fd) Q s = Q () (s\<lparr>world := px_close E fd (world s), fds := remove1 fd (fds s)\<rparr>)"
  by (simp add: c_close_def)

lemma twp_c_lseek [simp, twp_rules]:
  "twp (c_lseek E fd off) Q s =
     (\<forall>r w. px_lseek E fd off (world s) = (r, w) \<longrightarrow> Q r (s\<lparr>world := w\<rparr>))"
  by (simp add: c_lseek_def twp_def split: prod.splits)

lemma twp_c_read [simp, twp_rules]:
  "twp (c_read E fd n) Q s =
     (\<forall>r w. px_read E fd n (world s) = (r, w) \<longrightarrow> Q r (s\<lparr>world := w\<rparr>))"
  by (simp add: c_read_def twp_def split: prod.splits)

lemma twp_c_write [simp, twp_rules]:
  "twp (c_write E fd d) Q s =
     (\<forall>r w. px_write E fd d (world s) = (r, w) \<longrightarrow> Q r (s\<lparr>world := w\<rparr>))"
  by (simp add: c_write_def twp_def split: prod.splits)

lemma twp_c_readdir [simp, twp_rules]:
  "twp (c_readdir E d) Q s =
     (\<forall>r w. px_readdir E d (world s) = (r, w) \<longrightarrow> Q r (s\<lparr>world := w\<rparr>))"
  by (simp add: c_readdir_def twp_def split: prod.splits)

lemma twp_c_malloc_unchecked [simp, twp_rules]:
  "twp (c_malloc_unchecked E n) Q s =
     (malloc_ok E n (world s) \<and> Q () (s\<lparr>live := live s + 1\<rparr>))"
  by (simp add: c_malloc_unchecked_def)

lemma twp_c_malloc [simp, twp_rules]:
  "twp (c_malloc E n) Q s = (malloc_ok E n (world s) \<and> Q () (s\<lparr>live := live s + 1\<rparr>))"
  by (simp add: c_malloc_def)

lemma twp_c_free [simp, twp_rules]: "twp c_free Q s = Q () (s\<lparr>live := live s - 1\<rparr>)"
  by (simp add: c_free_def)

lemma twp_as_cstr [simp, twp_rules]:
  "twp (as_cstr m) Q s = (\<exists>n. cstr_of m = Some n \<and> Q n s)"
  by (simp add: as_cstr_def split: option.splits)

section \<open>The laws of the database library\<close>

text \<open>The contents of the database: what \<open>get\<close> finds under a key.\<close>

definition db_view :: "('w, 'd) env \<Rightarrow> 'd \<Rightarrow> bytes \<Rightarrow> bytes option" where
  "db_view E d k = (case db_get E k d of (err, v) \<Rightarrow> if err = 0 then Some v else None)"

text \<open>
  What a call that reports success has done: \<open>put\<close> replaces, \<open>del\<close> removes an existing key
  and reports \<open>DB_NOTFOUND\<close> for a missing one, opening and closing keep the contents.
\<close>

definition libdb_laws :: "('w, 'd) env \<Rightarrow> bool" where
  "libdb_laws E \<longleftrightarrow>
     DB_NOTFOUND E \<noteq> 0 \<and>
     (\<forall>d d'. db_create E d = (0, d') \<longrightarrow> db_view E d' = db_view E d) \<and>
     (\<forall>d d'. db_open E d = (0, d') \<longrightarrow> db_view E d' = db_view E d) \<and>
     (\<forall>k v d d'. db_put E k v d = (0, d') \<longrightarrow> db_view E d' = (db_view E d)(k \<mapsto> v)) \<and>
     (\<forall>k d d'. db_del E k d = (0, d') \<longrightarrow>
        db_view E d k \<noteq> None \<and> db_view E d' = (db_view E d)(k := None)) \<and>
     (\<forall>k d d'. db_del E k d = (DB_NOTFOUND E, d') \<longrightarrow>
        db_view E d k = None \<and> db_view E d' = db_view E d)"

text \<open>No call fails except by not finding a key, and memory does not run out.\<close>

definition libdb_no_failure :: "('w, 'd) env \<Rightarrow> bool" where
  "libdb_no_failure E \<longleftrightarrow>
     (\<forall>d. fst (db_create E d) = 0) \<and> (\<forall>d. fst (db_open E d) = 0) \<and>
     (\<forall>k v d. fst (db_put E k v d) = 0) \<and>
     (\<forall>k d. fst (db_get E k d) = 0 \<or> fst (db_get E k d) = DB_NOTFOUND E) \<and>
     (\<forall>k d. fst (db_del E k d) = 0 \<or> fst (db_del E k d) = DB_NOTFOUND E)"

definition memory_available :: "('w, 'd) env \<Rightarrow> bool" where
  "memory_available E \<longleftrightarrow> (\<forall>n w. malloc_ok E n w)"

section \<open>The laws of the file system\<close>

text \<open>
  What POSIX says of regular files and directory streams, stated over two views of the file
  system: the contents of the regular files, and the file and position of each open descriptor.
  Reads of a regular file are not short unless the file ends.
\<close>

record 'w files_view =
  contents :: "'w \<Rightarrow> path \<rightharpoonup> bytes"
  position :: "'w \<Rightarrow> int \<rightharpoonup> path \<times> nat"
  listing :: "'w \<Rightarrow> path \<Rightarrow> dirent list"
  stream :: "'w \<Rightarrow> int \<rightharpoonup> dirent list"

text \<open>The bytes \<open>d\<close> written at a position, a gap before it filled with zeros.\<close>

definition overwrite :: "bytes \<Rightarrow> nat \<Rightarrow> bytes \<Rightarrow> bytes" where
  "overwrite old off d =
     take off (old @ replicate (off - length old) 0) @ d @ drop (off + length d) old"

lemma overwrite_read [simp]: "take (length d) (drop off (overwrite c off d)) = d"
  by (simp add: overwrite_def)

lemma length_overwrite [simp]: "length (overwrite c off d) = max (length c) (off + length d)"
  by (auto simp: overwrite_def)

lemma overwrite_before: "i < off \<Longrightarrow> i < length c \<Longrightarrow> overwrite c off d ! i = c ! i"
  by (simp add: overwrite_def nth_append)

definition stat_law :: "('w, 'd) env \<Rightarrow> 'w files_view \<Rightarrow> bool" where
  "stat_law E V \<longleftrightarrow>
     (\<forall>p w c st. contents V w p = Some c \<longrightarrow> px_stat E p w = Inr st \<longrightarrow>
        st_size st = of_nat (length c))"

definition open_law :: "('w, 'd) env \<Rightarrow> 'w files_view \<Rightarrow> bool" where
  "open_law E V \<longleftrightarrow>
     (\<forall>p fl w fd w'. px_open E p fl w = (Inr fd, w') \<longrightarrow>
        contents V w' = contents V w \<and> position V w' fd = Some (p, 0))"

definition lseek_law :: "('w, 'd) env \<Rightarrow> 'w files_view \<Rightarrow> bool" where
  "lseek_law E V \<longleftrightarrow>
     (\<forall>fd p k off w. position V w fd = Some (p, k) \<longrightarrow>
        (\<exists>r w'. px_lseek E fd off w = (r, w') \<and> contents V w' = contents V w \<and>
          (if off <s 0 then r <s 0 else r = off \<and> position V w' fd = Some (p, unat off))))"

definition read_law :: "('w, 'd) env \<Rightarrow> 'w files_view \<Rightarrow> bool" where
  "read_law E V \<longleftrightarrow>
     (\<forall>fd p k c n w d w'. position V w fd = Some (p, k) \<longrightarrow> contents V w p = Some c \<longrightarrow>
        px_read E fd n w = (Inr d, w') \<longrightarrow>
        d = take (unat n) (drop k c) \<and> contents V w' = contents V w)"

definition write_law :: "('w, 'd) env \<Rightarrow> 'w files_view \<Rightarrow> bool" where
  "write_law E V \<longleftrightarrow>
     (\<forall>fd p k c d n w w'. position V w fd = Some (p, k) \<longrightarrow> contents V w p = Some c \<longrightarrow>
        length d < 2 ^ 64 \<longrightarrow> px_write E fd d w = (Inr n, w') \<longrightarrow>
        unat n \<le> length d \<and>
        contents V w' = (contents V w)(p \<mapsto> overwrite c k (take (unat n) d)))"

definition file_laws :: "('w, 'd) env \<Rightarrow> 'w files_view \<Rightarrow> bool" where
  "file_laws E V \<longleftrightarrow> stat_law E V \<and> open_law E V \<and> lseek_law E V \<and> read_law E V \<and>
     write_law E V \<and> (\<forall>fd w. contents V (px_close E fd w) = contents V w)"

lemmas file_laws_defs = file_laws_def stat_law_def open_law_def lseek_law_def read_law_def
  write_law_def

lemma file_lawsD:
  assumes "file_laws E V"
  shows "contents V w p = Some c \<Longrightarrow> px_stat E p w = Inr st \<Longrightarrow> st_size st = of_nat (length c)"
    and "px_open E p fl w = (Inr fd, w') \<Longrightarrow> contents V w' = contents V w \<and> position V w' fd = Some (p, 0)"
    and "position V w fd = Some (p, k) \<Longrightarrow> \<exists>r w'. px_lseek E fd off w = (r, w') \<and>
      contents V w' = contents V w \<and>
      (if off <s 0 then r <s 0 else r = off \<and> position V w' fd = Some (p, unat off))"
    and "position V w fd = Some (p, k) \<Longrightarrow> contents V w p = Some c \<Longrightarrow>
      px_read E fd n w = (Inr d, w') \<Longrightarrow> d = take (unat n) (drop k c) \<and> contents V w' = contents V w"
    and "position V w fd = Some (p, k) \<Longrightarrow> contents V w p = Some c \<Longrightarrow> length d' < 2 ^ 64 \<Longrightarrow>
      px_write E fd d' w = (Inr m, w') \<Longrightarrow> unat m \<le> length d' \<and>
        contents V w' = (contents V w)(p \<mapsto> overwrite c k (take (unat m) d'))"
    and "contents V (px_close E fd w) = contents V w"
proof -
  have L: "stat_law E V" "open_law E V" "lseek_law E V" "read_law E V" "write_law E V"
      "contents V (px_close E fd w) = contents V w"
    using assms by (simp_all add: file_laws_def)
  show "contents V w p = Some c \<Longrightarrow> px_stat E p w = Inr st \<Longrightarrow> st_size st = of_nat (length c)"
    using L(1) unfolding stat_law_def by blast
  show "px_open E p fl w = (Inr fd, w') \<Longrightarrow> contents V w' = contents V w \<and> position V w' fd = Some (p, 0)"
    using L(2) unfolding open_law_def by blast
  show "position V w fd = Some (p, k) \<Longrightarrow> \<exists>r w'. px_lseek E fd off w = (r, w') \<and>
      contents V w' = contents V w \<and>
      (if off <s 0 then r <s 0 else r = off \<and> position V w' fd = Some (p, unat off))"
    using L(3) unfolding lseek_law_def by blast
  show "position V w fd = Some (p, k) \<Longrightarrow> contents V w p = Some c \<Longrightarrow>
      px_read E fd n w = (Inr d, w') \<Longrightarrow> d = take (unat n) (drop k c) \<and> contents V w' = contents V w"
    using L(4) unfolding read_law_def by blast
  show "position V w fd = Some (p, k) \<Longrightarrow> contents V w p = Some c \<Longrightarrow> length d' < 2 ^ 64 \<Longrightarrow>
      px_write E fd d' w = (Inr m, w') \<Longrightarrow> unat m \<le> length d' \<and>
        contents V w' = (contents V w)(p \<mapsto> overwrite c k (take (unat m) d'))"
    using L(5) unfolding write_law_def by blast
qed (rule file_laws_def [THEN iffD1, OF assms, THEN conjunct2, THEN conjunct2, THEN conjunct2,
    THEN conjunct2, THEN conjunct2, rule_format])

text \<open>No call on an existing regular file fails, and writes are complete.\<close>

definition file_no_failure :: "('w, 'd) env \<Rightarrow> 'w files_view \<Rightarrow> bool" where
  "file_no_failure E V \<longleftrightarrow>
     (\<forall>p w c. contents V w p = Some c \<longrightarrow>
        (\<exists>st. px_stat E p w = Inr st) \<and> (\<forall>fl. \<exists>fd w'. px_open E p fl w = (Inr fd, w')) \<and>
        (\<forall>fd k. position V w fd = Some (p, k) \<longrightarrow>
          (\<forall>n. \<exists>d w'. px_read E fd n w = (Inr d, w')) \<and>
          (\<forall>d. length d < 2 ^ 64 \<longrightarrow> (\<exists>n w'. px_write E fd d w = (Inr n, w') \<and> unat n = length d))))"

lemma file_no_failureD:
  assumes "file_no_failure E V" "contents V w p = Some c"
  shows "\<exists>st. px_stat E p w = Inr st"
    and "\<exists>fd w'. px_open E p fl w = (Inr fd, w')"
    and "position V w fd = Some (p, k) \<Longrightarrow> \<exists>d w'. px_read E fd n w = (Inr d, w')"
    and "position V w fd = Some (p, k) \<Longrightarrow> length d' < 2 ^ 64 \<Longrightarrow>
      \<exists>m w'. px_write E fd d' w = (Inr m, w') \<and> unat m = length d'"
proof -
  from assms have F: "(\<exists>st. px_stat E p w = Inr st) \<and> (\<forall>fl. \<exists>fd w'. px_open E p fl w = (Inr fd, w')) \<and>
      (\<forall>fd k. position V w fd = Some (p, k) \<longrightarrow>
        (\<forall>n. \<exists>d w'. px_read E fd n w = (Inr d, w')) \<and>
        (\<forall>d. length d < 2 ^ 64 \<longrightarrow> (\<exists>n w'. px_write E fd d w = (Inr n, w') \<and> unat n = length d)))"
    unfolding file_no_failure_def by blast
  then show "\<exists>st. px_stat E p w = Inr st"
    and "\<exists>fd w'. px_open E p fl w = (Inr fd, w')"
    and "position V w fd = Some (p, k) \<Longrightarrow> \<exists>d w'. px_read E fd n w = (Inr d, w')"
    and "position V w fd = Some (p, k) \<Longrightarrow> length d' < 2 ^ 64 \<Longrightarrow>
      \<exists>m w'. px_write E fd d' w = (Inr m, w') \<and> unat m = length d'"
    by blast+
qed

text \<open>A directory stream yields the entries of the directory, one at a time, then its end.\<close>

definition dir_laws :: "('w, 'd) env \<Rightarrow> 'w files_view \<Rightarrow> bool" where
  "dir_laws E V \<longleftrightarrow>
     (\<forall>p w d w'. px_opendir E p w = (Inr d, w') \<longrightarrow> stream V w' d = Some (listing V w p)) \<and>
     (\<forall>d w. stream V w d = Some [] \<longrightarrow> fst (px_readdir E d w) = Dir_end) \<and>
     (\<forall>d w e es. stream V w d = Some (e # es) \<longrightarrow>
        (\<exists>w'. px_readdir E d w = (Dir_entry e, w') \<and> stream V w' d = Some es)) \<and>
     (\<forall>p w e. e \<in> set (listing V w p) \<longrightarrow> length (d_name e) = 256)"

end
