(* ===== verification/Sample_System.thy ===== *)
theory Sample_System
  imports Posix_Env "HOL-Library.AList"
begin

text \<open>
  A small concrete environment: an association list for the database, and a flat in-memory file
  system of named nodes with an open-file table. It is not part of the model of the program. It
  instantiates the record \<open>env\<close> so that a theorem with hypotheses on the environment can be applied
  to a run that the kernel evaluates, which shows that the hypotheses can hold.
\<close>

section \<open>The file system\<close>

record node =
  nd_dir :: bool
  nd_data :: bytes
  nd_mode :: u32
  nd_uid :: u32
  nd_gid :: u32
  nd_times :: "i64 \<times> i64"

record memfs =
  nodes :: "(path \<times> node) list"
  opened :: "(int \<times> path \<times> nat) list"
  streams :: "(int \<times> dirent list) list"
  next_fd :: int

definition slash :: byte where "slash = 0x2F"

text \<open>The directory part of an absolute path; \<open>/\<close> for a name right below the root.\<close>

definition parent :: "path \<Rightarrow> path" where
  "parent p =
     (let q = rev (dropWhile (\<lambda>b. b \<noteq> slash) (rev p))
      in if length q \<le> 1 then [slash] else butlast q)"

definition fs_stat :: "path \<Rightarrow> memfs \<Rightarrow> errno + stat" where
  "fs_stat p w = (case map_of (nodes w) p of None \<Rightarrow> Inl ENOENT
     | Some n \<Rightarrow> Inr \<lparr>st_mode = (if nd_dir n then S_IFDIR else S_IFREG) OR (nd_mode n AND 0xFFF),
         st_nlink = 1, st_uid = nd_uid n, st_gid = nd_gid n,
         st_size = of_nat (length (nd_data n)), st_rdev = 0, st_dev = 1,
         st_ino = 7, st_atime = fst (nd_times n), st_mtime = snd (nd_times n), st_ctime = 0\<rparr>)"

definition fs_open :: "path \<Rightarrow> oflag \<Rightarrow> memfs \<Rightarrow> (errno + int) \<times> memfs" where
  "fs_open p fl w = (case map_of (nodes w) p of None \<Rightarrow> (Inl ENOENT, w)
     | Some n \<Rightarrow> if nd_dir n \<and> fl = O_WRONLY then (Inl EISDIR, w)
         else (Inr (next_fd w),
           w\<lparr>opened := AList.update (next_fd w) (p, 0) (opened w), next_fd := next_fd w + 1\<rparr>))"

definition fs_creat :: "path \<Rightarrow> u32 \<Rightarrow> memfs \<Rightarrow> (errno + int) \<times> memfs" where
  "fs_creat p m w = (case map_of (nodes w) (parent p) of None \<Rightarrow> (Inl ENOENT, w)
     | Some d \<Rightarrow> if \<not> nd_dir d then (Inl ENOTDIR, w)
         else fs_open p O_WRONLY (w\<lparr>nodes := AList.update p
           (case map_of (nodes w) p of
              None \<Rightarrow> \<lparr>nd_dir = False, nd_data = [], nd_mode = m, nd_uid = 0, nd_gid = 0,
                nd_times = (0, 0)\<rparr>
            | Some n \<Rightarrow> n\<lparr>nd_data := []\<rparr>) (nodes w)\<rparr>))"

definition fs_lseek :: "int \<Rightarrow> i64 \<Rightarrow> memfs \<Rightarrow> i64 \<times> memfs" where
  "fs_lseek fd off w = (case map_of (opened w) fd of None \<Rightarrow> (-1, w)
     | Some (p, _) \<Rightarrow> if off <s 0 then (-1, w)
         else (off, w\<lparr>opened := AList.update fd (p, unat off) (opened w)\<rparr>))"

definition fs_read :: "int \<Rightarrow> u64 \<Rightarrow> memfs \<Rightarrow> (errno + bytes) \<times> memfs" where
  "fs_read fd n w = (case map_of (opened w) fd of None \<Rightarrow> (Inl EBADF, w)
     | Some (p, off) \<Rightarrow> (case map_of (nodes w) p of None \<Rightarrow> (Inl ENOENT, w)
       | Some nd \<Rightarrow> if nd_dir nd then (Inl EISDIR, w)
           else (let d = take (unat n) (drop off (nd_data nd)) in
             (Inr d, w\<lparr>opened := AList.update fd (p, off + length d) (opened w)\<rparr>))))"

definition fs_write :: "int \<Rightarrow> bytes \<Rightarrow> memfs \<Rightarrow> (errno + u64) \<times> memfs" where
  "fs_write fd d w = (case map_of (opened w) fd of None \<Rightarrow> (Inl EBADF, w)
     | Some (p, off) \<Rightarrow> (case map_of (nodes w) p of None \<Rightarrow> (Inl ENOENT, w)
       | Some nd \<Rightarrow> (Inr (of_nat (length d)), w\<lparr>
           nodes := AList.update p (nd\<lparr>nd_data := overwrite (nd_data nd) off d\<rparr>) (nodes w),
           opened := AList.update fd (p, off + length d) (opened w)\<rparr>)))"

definition fs_close :: "int \<Rightarrow> memfs \<Rightarrow> memfs" where
  "fs_close fd w = w\<lparr>opened := AList.delete fd (opened w)\<rparr>"

definition fs_dirent :: "path \<Rightarrow> dirent" where
  "fs_dirent q = \<lparr>d_ino = 7,
     d_name = take 256 (rev (takeWhile (\<lambda>b. b \<noteq> slash) (rev q)) @ replicate 256 0)\<rparr>"

definition fs_listing :: "memfs \<Rightarrow> path \<Rightarrow> dirent list" where
  "fs_listing w p = map fs_dirent (filter (\<lambda>q. parent q = p \<and> q \<noteq> p) (map fst (nodes w)))"

definition fs_opendir :: "path \<Rightarrow> memfs \<Rightarrow> (errno + int) \<times> memfs" where
  "fs_opendir p w = (case map_of (nodes w) p of None \<Rightarrow> (Inl ENOENT, w)
     | Some n \<Rightarrow> if \<not> nd_dir n then (Inl ENOTDIR, w)
         else (Inr (next_fd w), w\<lparr>
           streams := AList.update (next_fd w) (fs_listing w p) (streams w),
           next_fd := next_fd w + 1\<rparr>))"

definition fs_readdir :: "int \<Rightarrow> memfs \<Rightarrow> dir_result \<times> memfs" where
  "fs_readdir fd w = (case map_of (streams w) fd of None \<Rightarrow> (Dir_error EBADF, w)
     | Some [] \<Rightarrow> (Dir_end, w)
     | Some (e # es) \<Rightarrow> (Dir_entry e, w\<lparr>streams := AList.update fd es (streams w)\<rparr>))"

definition fs_unlink :: "path \<Rightarrow> memfs \<Rightarrow> errno option \<times> memfs" where
  "fs_unlink p w = (case map_of (nodes w) p of None \<Rightarrow> (Some ENOENT, w)
     | Some n \<Rightarrow> if nd_dir n then (Some EISDIR, w)
         else (None, w\<lparr>nodes := AList.delete p (nodes w)\<rparr>))"

definition fs_rmdir :: "path \<Rightarrow> memfs \<Rightarrow> errno option \<times> memfs" where
  "fs_rmdir p w = (case map_of (nodes w) p of None \<Rightarrow> (Some ENOENT, w)
     | Some n \<Rightarrow> if \<not> nd_dir n then (Some ENOTDIR, w)
         else (None, w\<lparr>nodes := AList.delete p (nodes w)\<rparr>))"

definition fs_rename :: "path \<Rightarrow> path \<Rightarrow> memfs \<Rightarrow> errno option \<times> memfs" where
  "fs_rename p q w = (case map_of (nodes w) p of None \<Rightarrow> (Some ENOENT, w)
     | Some n \<Rightarrow> if p = q then (None, w)
         else (None, w\<lparr>nodes := AList.update q n (AList.delete p (nodes w))\<rparr>))"

definition fs_mkdir :: "path \<Rightarrow> u32 \<Rightarrow> memfs \<Rightarrow> errno option \<times> memfs" where
  "fs_mkdir p m w = (case map_of (nodes w) p of Some _ \<Rightarrow> (Some EEXIST, w)
     | None \<Rightarrow> (case map_of (nodes w) (parent p) of None \<Rightarrow> (Some ENOENT, w)
       | Some d \<Rightarrow> (None, w\<lparr>nodes := AList.update p
           \<lparr>nd_dir = True, nd_data = [], nd_mode = m, nd_uid = 0, nd_gid = 0, nd_times = (0, 0)\<rparr>
           (nodes w)\<rparr>)))"

definition fs_change :: "(node \<Rightarrow> node) \<Rightarrow> path \<Rightarrow> memfs \<Rightarrow> errno option \<times> memfs" where
  "fs_change g p w = (case map_of (nodes w) p of None \<Rightarrow> (Some ENOENT, w)
     | Some n \<Rightarrow> (None, w\<lparr>nodes := AList.update p (g n) (nodes w)\<rparr>))"

definition fs_chown :: "path \<Rightarrow> u32 \<Rightarrow> u32 \<Rightarrow> memfs \<Rightarrow> errno option \<times> memfs" where
  "fs_chown p u g = fs_change (\<lambda>n. n\<lparr>nd_uid := if u = -1 then nd_uid n else u,
     nd_gid := if g = -1 then nd_gid n else g\<rparr>) p"

definition fs_truncate :: "path \<Rightarrow> i64 \<Rightarrow> memfs \<Rightarrow> errno option \<times> memfs" where
  "fs_truncate p k = (if k <s 0 then (\<lambda>w. (Some EINVAL, w))
     else fs_change (\<lambda>n. n\<lparr>nd_data :=
       take (unat k) (nd_data n @ replicate (unat k - length (nd_data n)) 0)\<rparr>) p)"

text \<open>\<open>utimes\<close> refuses a microsecond field outside a second, as POSIX has it.\<close>

definition fs_utimes ::
    "path \<Rightarrow> snfs_timeval \<Rightarrow> snfs_timeval \<Rightarrow> memfs \<Rightarrow> errno option \<times> memfs" where
  "fs_utimes p a m =
     (if unat (tv_useconds a) < 1000000 \<and> unat (tv_useconds m) < 1000000
      then fs_change (\<lambda>n. n\<lparr>nd_times := (tv_seconds a, tv_seconds m)\<rparr>) p
      else (\<lambda>w. (Some EINVAL, w)))"

section \<open>The database\<close>

type_synonym memdb = "(bytes \<times> bytes) list"

definition mem_get :: "bytes \<Rightarrow> memdb \<Rightarrow> int \<times> bytes" where
  "mem_get k d = (case map_of d k of None \<Rightarrow> (-30988, []) | Some v \<Rightarrow> (0, v))"

definition mem_put :: "bytes \<Rightarrow> bytes \<Rightarrow> memdb \<Rightarrow> int \<times> memdb" where
  "mem_put k v d = (0, AList.update k v d)"

definition mem_del :: "bytes \<Rightarrow> memdb \<Rightarrow> int \<times> memdb" where
  "mem_del k d = (case map_of d k of None \<Rightarrow> (-30988, d) | Some _ \<Rightarrow> (0, AList.delete k d))"

text \<open>What happens to lie on the stack of the sample server.\<close>

definition garbage_fattr :: fattr where
  "garbage_fattr =
     \<lparr>fa_type = SNFBLK, fa_mode = 1, fa_nlink = 2, fa_uid = 3, fa_gid = 4, fa_size = 5, fa_rdev = 6,
      fa_fsid = 7, fa_fileid = 8, fa_atime = \<lparr>tv_seconds = 9, tv_useconds = 10\<rparr>,
      fa_mtime = \<lparr>tv_seconds = 11, tv_useconds = 12\<rparr>, fa_ctime = \<lparr>tv_seconds = 13, tv_useconds = 14\<rparr>\<rparr>"

definition sample_env :: "(memfs, memdb) env" where
  "sample_env = \<lparr>
     px_stat = fs_stat, px_open = fs_open, px_creat = fs_creat, px_lseek = fs_lseek,
     px_read = fs_read, px_write = fs_write, px_close = fs_close, px_opendir = fs_opendir,
     px_readdir = fs_readdir, px_unlink = fs_unlink, px_rmdir = fs_rmdir, px_rename = fs_rename,
     px_mkdir = fs_mkdir, px_chmod = (\<lambda>p m. fs_change (\<lambda>n. n\<lparr>nd_mode := m\<rparr>) p),
     px_chown = fs_chown, px_truncate = fs_truncate, px_utimes = fs_utimes,
     px_utime = (\<lambda>p a m. fs_change (\<lambda>n. n\<lparr>nd_times := (a, m)\<rparr>) p),
     malloc_ok = (\<lambda>n w. True), stack_ok = (\<lambda>n. n \<le> 8388608), stack_fattr = (\<lambda>w. garbage_fattr),
     db_create = (\<lambda>d. (0, d)), db_open = (\<lambda>d. (0, d)), db_close = (\<lambda>d. (0, d)),
     db_get = mem_get, db_put = mem_put, db_del = mem_del, db_unlink = (\<lambda>d. (0, [])),
     DB_NOTFOUND = -30988\<rparr>"

lemma sample_db_view: "db_view sample_env d = map_of d"
  by (rule ext) (simp add: db_view_def sample_env_def mem_get_def split: option.splits)

lemma sample_libdb_laws: "libdb_laws sample_env"
  unfolding libdb_laws_def sample_db_view
  by (auto simp: sample_env_def mem_put_def mem_del_def update_conv' delete_conv' split: option.splits)

lemma sample_no_failure: "libdb_no_failure sample_env"
  by (simp add: libdb_no_failure_def sample_env_def mem_put_def mem_get_def mem_del_def
      split: option.splits)

lemma sample_memory: "memory_available sample_env"
  by (simp add: memory_available_def sample_env_def)

section \<open>A sample server\<close>

definition root_node :: node where
  "root_node = \<lparr>nd_dir = True, nd_data = [], nd_mode = 0x1ED, nd_uid = 0, nd_gid = 0,
     nd_times = (0, 0)\<rparr>"

definition file_node :: "bytes \<Rightarrow> node" where
  "file_node d = \<lparr>nd_dir = False, nd_data = d, nd_mode = 0x1A4, nd_uid = 0, nd_gid = 0,
     nd_times = (0, 0)\<rparr>"

text \<open>A served directory with one file \<open>/a\<close> of three bytes, and three random draws.\<close>

definition sample_fs :: memfs where
  "sample_fs = \<lparr>nodes = [([0x2F], root_node), ([0x2F, 0x61], file_node [1, 2, 3])],
     opened = [], streams = [], next_fd = 3\<rparr>"

definition sample_server :: "(memfs, memdb) server" where
  "sample_server = \<lparr>world = sample_fs, DBP = False, dbst = [], rnd = [11, 22, 33], live = 0,
     fds = [], sent = []\<rparr>"

section \<open>The sample file system obeys the laws\<close>

definition sample_view :: "memfs files_view" where
  "sample_view = \<lparr>
     contents = (\<lambda>w p. case map_of (nodes w) p of None \<Rightarrow> None
       | Some n \<Rightarrow> if nd_dir n then None else Some (nd_data n)),
     position = (\<lambda>w. map_of (opened w)),
     listing = fs_listing,
     stream = (\<lambda>w. map_of (streams w))\<rparr>"

lemma sample_file_laws: "file_laws sample_env sample_view"
  unfolding file_laws_defs
  by (intro conjI allI impI)
    (auto simp: sample_env_def sample_view_def fs_stat_def fs_open_def fs_lseek_def fs_read_def
      fs_write_def fs_close_def update_conv' Let_def fun_eq_iff unat_of_nat take_bit_nat_eq_self
      signed.not_less signed.not_le split: option.splits if_splits prod.splits)

lemma sample_file_no_failure: "file_no_failure sample_env sample_view"
  unfolding file_no_failure_def
  by (intro conjI allI impI)
    (auto simp: sample_env_def sample_view_def fs_stat_def fs_open_def fs_read_def
      fs_write_def Let_def unat_of_nat take_bit_nat_eq_self
      split: option.splits if_splits prod.splits)

lemma sample_dir_laws: "dir_laws sample_env sample_view"
  unfolding dir_laws_def
  by (intro conjI allI impI)
    (auto simp: sample_env_def sample_view_def fs_opendir_def fs_readdir_def fs_listing_def
      fs_dirent_def update_conv' split: option.splits if_splits prod.splits list.splits)

end
