(* ===== verification/Handle_Table.thy ===== *)
theory Handle_Table
  imports Prelude
begin

text \<open>
  The interface between the file-handle database and the request handlers, as a contract. A
  handle table is a finite partial bijection from handles to paths. The contract speaks of any
  state type with a representation relation \<open>repr\<close>, and of three operations on it: \<open>get\<close>,
  \<open>find_or_insert\<close> and \<open>remove\<close>. \<open>clear s f n\<close> says that the path \<open>n\<close> cannot be mistaken for a
  handle in the common key space, \<open>genuine f h\<close> that the handle \<open>h\<close> cannot be mistaken for a path of the
  table; every handle of the table is genuine, and the operations keep \<open>clear\<close> for every path.

  The lemmas of the locale are what the handlers use: a handle given out for a path resolves to
  that path, asking again gives the same handle, distinct paths have distinct handles, and a
  removed path is forgotten.
\<close>

type_synonym table = "u64 \<rightharpoonup> bytes"

text \<open>The table without the entries for the path \<open>n\<close>.\<close>

definition forget :: "bytes \<Rightarrow> table \<Rightarrow> table" where
  "forget n f = (\<lambda>h. if f h = Some n then None else f h)"

text \<open>What \<open>find_or_insert\<close> does to a table when it returns \<open>h\<close> for \<open>n\<close>.\<close>

definition inserted :: "bytes \<Rightarrow> u64 \<Rightarrow> table \<Rightarrow> table \<Rightarrow> bool" where
  "inserted n h f f' \<longleftrightarrow>
     (f h = Some n \<and> f' = f) \<or> (n \<notin> ran f \<and> f h = None \<and> f' = f(h \<mapsto> n))"

lemma inserted_maps: "inserted n h f f' \<Longrightarrow> f' h = Some n"
  by (auto simp: inserted_def)

lemma inserted_mono: "inserted n h f f' \<Longrightarrow> f k = Some m \<Longrightarrow> f' k = Some m"
  by (auto simp: inserted_def)

lemma inserted_map_le: "inserted n h f f' \<Longrightarrow> f \<subseteq>\<^sub>m f'"
  by (auto simp: inserted_def map_le_def)

lemma inserted_ran: "inserted n h f f' \<Longrightarrow> ran f' = insert n (ran f)"
  by (auto simp: inserted_def intro: ranI)

lemma forget_Some [simp]: "forget n f h = Some m \<longleftrightarrow> f h = Some m \<and> m \<noteq> n"
  by (auto simp: forget_def)

lemma forget_None [simp]: "forget n f h = None \<longleftrightarrow> f h = None \<or> f h = Some n"
  by (auto simp: forget_def)

lemma forget_ran: "ran (forget n f) = ran f - {n}"
  by (auto simp: ran_def)

lemma forget_dom: "dom (forget n f) \<subseteq> dom f"
  by auto

locale handle_table =
  fixes repr :: "'s \<Rightarrow> table \<Rightarrow> bool"
    and clear :: "'s \<Rightarrow> table \<Rightarrow> bytes \<Rightarrow> bool"
    and genuine :: "table \<Rightarrow> u64 \<Rightarrow> bool"
    and get :: "u64 \<Rightarrow> ('s, bytes option) prog"
    and find_or_insert :: "bytes \<Rightarrow> ('s, u64) prog"
    and remove :: "bytes \<Rightarrow> ('s, bool) prog"
  assumes repr_inj: "repr s f \<Longrightarrow> inj_on f (dom f)"
    and repr_cstring: "repr s f \<Longrightarrow> n \<in> ran f \<Longrightarrow> cstring n"
    and genuine_member: "repr s f \<Longrightarrow> f h = Some n \<Longrightarrow> genuine f h"
    and genuine_antimono: "genuine f h \<Longrightarrow> ran g \<subseteq> ran f \<Longrightarrow> genuine g h"
    and get_spec: "repr s f \<Longrightarrow> genuine f h \<Longrightarrow>
      wp (get h) (\<lambda>r s'. repr s' f \<and> r = map_option zstr (f h) \<and>
        (\<forall>m. clear s f m \<longrightarrow> clear s' f m)) s"
    and insert_spec: "repr s f \<Longrightarrow> clear s f n \<Longrightarrow> cstring n \<Longrightarrow>
      wp (find_or_insert n) (\<lambda>h s'. \<exists>f'. repr s' f' \<and> inserted n h f f' \<and>
        (\<forall>m. clear s f m \<longrightarrow> clear s' f' m)) s"
    and remove_spec: "repr s f \<Longrightarrow> clear s f n \<Longrightarrow> cstring n \<Longrightarrow>
      wp (remove n) (\<lambda>b s'. b = (n \<in> ran f) \<and> repr s' (forget n f) \<and>
        (\<forall>m. clear s f m \<longrightarrow> clear s' (forget n f) m)) s"
begin

text \<open>A handle given out for a path resolves to that path.\<close>

lemma insert_then_get:
  assumes "repr s f" "clear s f n" "cstring n"
  shows "wp (bnd (find_or_insert n) get) (\<lambda>r s'. r = Some (zstr n)) s"
proof -
  have "wp (get h) (\<lambda>r s''. r = Some (zstr n)) s'"
    if "repr s' f'" "inserted n h f f'" for h s' f'
    using get_spec [OF that(1) genuine_member [OF that(1) inserted_maps [OF that(2)]]]
      inserted_maps [OF that(2)] by (auto elim: wp_mono)
  then show ?thesis
    unfolding wp_rules using insert_spec [OF assms] by (auto elim!: wp_mono)
qed

text \<open>Asking for a path twice gives the same handle, and the second time changes nothing.\<close>

lemma insert_idempotent:
  assumes "repr s f" "clear s f n" "cstring n"
  shows "wp (bnd (find_or_insert n) (\<lambda>h. bnd (find_or_insert n) (\<lambda>k. ret (h, k))))
    (\<lambda>(h, k) s'. h = k \<and> (\<exists>f'. repr s' f' \<and> inserted n h f f')) s"
proof -
  have "wp (find_or_insert n) (\<lambda>k s''. h = k \<and> (\<exists>f''. repr s'' f'' \<and> inserted n h f f'')) s'"
    if s': "repr s' f'" "inserted n h f f'" "clear s' f' n" for h s' f'
  proof (rule wp_mono [OF insert_spec [OF s'(1,3) assms(3)]], elim exE conjE)
    fix k s'' f''
    assume s'': "repr s'' f''" "inserted n k f' f''"
    have "n \<in> ran f'"
      using s'(2) by (auto simp: inserted_ran)
    with s''(2) have k: "f' k = Some n" and "f'' = f'"
      by (auto simp: inserted_def)
    moreover have "f' h = Some n" using s'(2) by (rule inserted_maps)
    ultimately have "h = k"
      using inj_onD [OF repr_inj [OF s'(1)], of h k] k by (simp add: domI)
    with \<open>f'' = f'\<close> s'' s'(2) show "h = k \<and> (\<exists>f''. repr s'' f'' \<and> inserted n h f f'')"
      by blast
  qed
  with assms show ?thesis
    unfolding wp_rules by (auto intro!: wp_mono [OF insert_spec [OF assms]])
qed

text \<open>Different paths never share a handle.\<close>

lemma insert_distinct:
  assumes "repr s f" "clear s f m" "clear s f n" "cstring m" "cstring n" "m \<noteq> n"
  shows "wp (bnd (find_or_insert m) (\<lambda>h. bnd (find_or_insert n) (\<lambda>k. ret (h, k))))
    (\<lambda>(h, k) s'. h \<noteq> k) s"
proof -
  have "wp (find_or_insert n) (\<lambda>k s''. h \<noteq> k) s'"
    if s': "repr s' f'" "inserted m h f f'" "clear s' f' n" for h s' f'
  proof (rule wp_mono [OF insert_spec [OF s'(1,3) assms(5)]], elim exE conjE)
    fix k s'' f''
    assume "inserted n k f' f''"
    then have "f'' k = Some n" "f'' h = Some m"
      using inserted_maps [OF s'(2)] by (auto intro: inserted_maps inserted_mono [of n k f' f''])
    with assms(6) show "h \<noteq> k" by auto
  qed
  with assms show ?thesis
    unfolding wp_rules by (auto intro!: wp_mono [OF insert_spec [OF assms(1,2,4)]])
qed

text \<open>A removed path is forgotten: its handle no longer resolves.\<close>

lemma remove_then_get:
  assumes "repr s f" "clear s f n" "cstring n" "f h = Some n"
  shows "wp (bnd (remove n) (\<lambda>b. bnd (get h) (\<lambda>r. ret (b, r)))) (\<lambda>(b, r) s'. b \<and> r = None) s"
proof -
  have "n \<in> ran f" using assms(4) by (auto simp: ran_def)
  moreover have "wp (get h) (\<lambda>r s''. r = None) s'" if "repr s' (forget n f)" for s'
  proof -
    have "genuine (forget n f) h"
      by (rule genuine_antimono [OF genuine_member [OF assms(1,4)]]) (auto simp: forget_ran)
    moreover have "forget n f h = None" using assms(4) by simp
    ultimately show ?thesis
      using get_spec [OF that] by (fastforce elim: wp_mono)
  qed
  ultimately show ?thesis
    unfolding wp_rules by (auto intro!: wp_mono [OF remove_spec [OF assms(1,2,3)]])
qed

text \<open>Removing one path leaves the handles of all others alone.\<close>

lemma remove_other:
  assumes "repr s f" "clear s f n" "cstring n" "f h = Some m" "m \<noteq> n"
  shows "wp (bnd (remove n) (\<lambda>b. get h)) (\<lambda>r s'. r = Some (zstr m)) s"
proof -
  have "wp (get h) (\<lambda>r s''. r = Some (zstr m)) s'" if "repr s' (forget n f)" for s'
  proof -
    have "genuine (forget n f) h"
      by (rule genuine_antimono [OF genuine_member [OF assms(1,4)]]) (auto simp: forget_ran)
    moreover have "forget n f h = Some m" using assms(4,5) by simp
    ultimately show ?thesis
      using get_spec [OF that] by (fastforce elim: wp_mono)
  qed
  then show ?thesis
    unfolding wp_rules by (auto intro!: wp_mono [OF remove_spec [OF assms(1,2,3)]])
qed

end

end
