(* ===== verification/Fhandledb.thy ===== *)
theory Fhandledb
  imports Posix_Env Handle_Table
begin

text \<open>
  The file-handle database, \<open>src/server/fhandledb.c\<close>: a Berkeley DB file that maps the
  eight-byte image of a handle to the path it stands for, and the path back to the handle, in one
  key space. The definitions follow the C functions one by one. A value fetched from the database
  is a heap copy (\<open>live\<close> counts it); reading it as a handle needs eight bytes, reading it as a
  path needs a terminator.

  The abstract view of the component is a finite partial bijection from handles to paths.
  \<open>db_repr\<close> relates it to the contents of the database, and the locale \<open>handle_table\<close> states
  what the rest of the server may assume of the three exported operations. Its interpretation
  on the model is the refinement proof.
\<close>

section \<open>The operations\<close>

definition init_db_if_needed :: "('w, 'd) env \<Rightarrow> ('w, 'd, bool) srv" where
  "init_db_if_needed E = (\<lambda>s.
     if DBP s then Ret False s
     else case db_create E (dbst s) of (cerr, d) \<Rightarrow>
       if cerr \<noteq> 0 then Exits
       else case db_open E d of (oerr, d') \<Rightarrow>
         if oerr \<noteq> 0 then Exits
         else Ret True (s\<lparr>DBP := True, dbst := d'\<rparr>))"

definition destroy_db :: "('w, 'd) env \<Rightarrow> bool \<Rightarrow> ('w, 'd, bool) srv" where
  "destroy_db E delete = (\<lambda>s.
     if \<not> DBP s then Ret True s
     else case db_close E (dbst s) of (err, d) \<Rightarrow>
       if err \<noteq> 0 then Ret False (s\<lparr>dbst := d\<rparr>)
       else if delete then
         case db_unlink E d of (err, d') \<Rightarrow>
           Ret (err = 0) (s\<lparr>DBP := False, dbst := d'\<rparr>)
       else Ret True (s\<lparr>DBP := False, dbst := d\<rparr>))"

definition find_db :: "('w, 'd) env \<Rightarrow> bytes \<Rightarrow> ('w, 'd, bytes option) srv" where
  "find_db E key =
     andthen (init_db_if_needed E)
     (bnd (gets (\<lambda>s. db_get E key (dbst s))) (\<lambda>(err, val).
      if err \<noteq> 0 then
        if err \<noteq> DB_NOTFOUND E then err_exit
        else ret None
      else
        andthen (c_malloc_unchecked E (length val))
        (ret (Some val))))"

text \<open>Reading the first eight bytes of a fetched value: \<open>*(fhandle *)result\<close>.\<close>

definition load_handle :: "bytes \<Rightarrow> ('w, 'd, fhandle) srv" where
  "load_handle val = andthen (must (8 \<le> length val)) (ret (le_word (take 8 val)))"

definition c_del :: "('w, 'd) env \<Rightarrow> bytes \<Rightarrow> ('w, 'd, int) srv" where
  "c_del E key = (\<lambda>s. case db_del E key (dbst s) of (err, d) \<Rightarrow> Ret err (s\<lparr>dbst := d\<rparr>))"

definition c_put :: "('w, 'd) env \<Rightarrow> bytes \<Rightarrow> bytes \<Rightarrow> ('w, 'd, int) srv" where
  "c_put E key val =
     (\<lambda>s. case db_put E key val (dbst s) of (err, d) \<Rightarrow> Ret err (s\<lparr>dbst := d\<rparr>))"

definition name_remove :: "('w, 'd) env \<Rightarrow> path \<Rightarrow> ('w, 'd, bool) srv" where
  "name_remove E filename =
     andthen (init_db_if_needed E)
     (bnd (find_db E (zstr filename)) (\<lambda>r. case r of
        None \<Rightarrow> ret False
      | Some handle \<Rightarrow>
          \<comment> \<open>the key of the second deletion is the first \<open>sizeof(char *)\<close> bytes of the value\<close>
          andthen (must (8 \<le> length handle))
          (bnd (c_del E (zstr filename)) (\<lambda>err.
           bnd (c_del E (take 8 handle)) (\<lambda>err2.
           if err \<noteq> 0 \<or> err2 \<noteq> 0 then
             if err \<noteq> DB_NOTFOUND E \<or> err2 \<noteq> DB_NOTFOUND E then err_exit
             else ret False
           else ret True)))))"

definition insert_db :: "('w, 'd) env \<Rightarrow> bytes \<Rightarrow> bytes \<Rightarrow> ('w, 'd, unit) srv" where
  "insert_db E key val =
     andthen (init_db_if_needed E)
     (bnd (c_put E key val) (\<lambda>err.
      if err \<noteq> 0 then err_exit else ret ()))"

text \<open>
  The loop draws handles until one is not a key of the database. Its argument is the tape of the
  draws still to come; the loop is still running when the tape is used up.
\<close>

fun generate_loop :: "('w, 'd) env \<Rightarrow> u64 list \<Rightarrow> ('w, 'd, fhandle) srv" where
  "generate_loop E [] = (\<lambda>s. Spins)"
| "generate_loop E (handle # draws) =
     andthen (modify (\<lambda>s. s\<lparr>rnd := draws\<rparr>))
     (bnd (find_db E (le_bytes 8 handle)) (\<lambda>result. case result of
        None \<Rightarrow> ret handle
      | Some v \<Rightarrow> andthen c_free (generate_loop E draws)))"

definition generate_new_fhandle :: "('w, 'd) env \<Rightarrow> ('w, 'd, fhandle) srv" where
  "generate_new_fhandle E = bnd (gets rnd) (\<lambda>draws. generate_loop E draws)"

definition new_fhandle :: "('w, 'd) env \<Rightarrow> path \<Rightarrow> ('w, 'd, fhandle) srv" where
  "new_fhandle E filename =
     bnd (generate_new_fhandle E) (\<lambda>handle.
     andthen (insert_db E (le_bytes 8 handle) (zstr filename))
     (andthen (insert_db E (zstr filename) (le_bytes 8 handle))
     (ret handle)))"

definition name_find_or_insert :: "('w, 'd) env \<Rightarrow> path \<Rightarrow> ('w, 'd, fhandle) srv" where
  "name_find_or_insert E filename =
     bnd (find_db E (zstr filename)) (\<lambda>result. case result of
       Some v \<Rightarrow> bnd (load_handle v) (\<lambda>handle. andthen c_free (ret handle))
     | None \<Rightarrow> new_fhandle E filename)"

definition get_file :: "('w, 'd) env \<Rightarrow> fhandle \<Rightarrow> ('w, 'd, bytes option) srv" where
  "get_file E handle = find_db E (le_bytes 8 handle)"

subsection \<open>Preconditions of the library calls\<close>

lemma wp_c_del [simp, wp_rules]:
  "wp (c_del E key) Q s =
     (\<forall>err d. db_del E key (dbst s) = (err, d) \<longrightarrow> Q err (s\<lparr>dbst := d\<rparr>))"
  by (simp add: c_del_def wp_def split: prod.splits)

lemma wp_c_put [simp, wp_rules]:
  "wp (c_put E key val) Q s =
     (\<forall>err d. db_put E key val (dbst s) = (err, d) \<longrightarrow> Q err (s\<lparr>dbst := d\<rparr>))"
  by (simp add: c_put_def wp_def split: prod.splits)

lemma twp_c_del [simp, twp_rules]:
  "twp (c_del E key) Q s =
     (\<forall>err d. db_del E key (dbst s) = (err, d) \<longrightarrow> Q err (s\<lparr>dbst := d\<rparr>))"
  by (simp add: c_del_def twp_def split: prod.splits)

lemma twp_c_put [simp, twp_rules]:
  "twp (c_put E key val) Q s =
     (\<forall>err d. db_put E key val (dbst s) = (err, d) \<longrightarrow> Q err (s\<lparr>dbst := d\<rparr>))"
  by (simp add: c_put_def twp_def split: prod.splits)

section \<open>What the operations can change\<close>

text \<open>
  Without any assumption on the library: a call that returns has changed nothing but the
  database, the random tape and the number of live heap blocks, the latter by the amount stated.
\<close>

definition db_only :: "int \<Rightarrow> ('w, 'd) server \<Rightarrow> ('w, 'd) server \<Rightarrow> bool" where
  "db_only k s s' \<longleftrightarrow>
     world s' = world s \<and> fds s' = fds s \<and> sent s' = sent s \<and> live s' = live s + k"

lemma db_only_selectors:
  assumes "db_only k s s'"
  shows "world s' = world s" "fds s' = fds s" "sent s' = sent s" "live s' = live s + k"
  using assms by (simp_all add: db_only_def)

lemma db_only_trans: "db_only k s s' \<Longrightarrow> db_only l s' s'' \<Longrightarrow> db_only (k + l) s s''"
  by (simp add: db_only_def)

lemma init_db_frame: "wp (init_db_if_needed E) (\<lambda>_. db_only 0 s) s"
  by (auto simp: init_db_if_needed_def wp_def db_only_def split: prod.splits outcome.splits)

lemma find_db_frame:
  "wp (find_db E key) (\<lambda>r. db_only (if r = None then 0 else 1) s) s"
  unfolding find_db_def wp_rules
  by (rule wp_mono [OF init_db_frame]) (auto simp: db_only_def split: prod.splits)

lemma get_file_frame:
  "wp (get_file E h) (\<lambda>r. db_only (if r = None then 0 else 1) s) s"
  unfolding get_file_def by (rule find_db_frame)

lemma insert_db_frame: "wp (insert_db E key val) (\<lambda>_. db_only 0 s) s"
  unfolding insert_db_def wp_rules
  by (rule wp_mono [OF init_db_frame]) (auto simp: db_only_def)

lemma generate_loop_frame: "wp (generate_loop E draws) (\<lambda>_. db_only 0 s) s"
proof (induction draws arbitrary: s)
  case Nil
  then show ?case by (simp add: wp_def)
next
  case (Cons h hs)
  show ?case
    unfolding generate_loop.simps wp_rules
    by (rule wp_mono [OF find_db_frame])
      (auto simp: db_only_def split: option.splits intro: wp_mono [OF Cons.IH])
qed

lemma new_fhandle_frame: "wp (new_fhandle E n) (\<lambda>_. db_only 0 s) s"
  unfolding new_fhandle_def generate_new_fhandle_def wp_rules
  by (rule wp_mono [OF generate_loop_frame], rule wp_mono [OF insert_db_frame],
      rule wp_mono [OF insert_db_frame]) (simp add: db_only_def)

lemma name_find_or_insert_frame: "wp (name_find_or_insert E n) (\<lambda>_. db_only 0 s) s"
  unfolding name_find_or_insert_def load_handle_def wp_rules
  by (rule wp_mono [OF find_db_frame])
    (auto simp: db_only_def split: option.splits intro: wp_mono [OF new_fhandle_frame])

text \<open>The copy of the handle that \<open>name_remove\<close> fetches is never freed.\<close>

lemma name_remove_frame:
  "wp (name_remove E n) (\<lambda>b s'. db_only 1 s s' \<or> \<not> b \<and> db_only 0 s s') s"
  unfolding name_remove_def wp_rules
  by (rule wp_mono [OF init_db_frame], rule wp_mono [OF find_db_frame])
    (auto simp: db_only_def split: option.splits)

section \<open>The database represents a handle table\<close>

definition table_ok :: "table \<Rightarrow> bool" where
  "table_ok f \<longleftrightarrow> finite (dom f) \<and> inj_on f (dom f) \<and> (\<forall>n \<in> ran f. cstring n) \<and>
     (\<forall>h \<in> dom f. \<forall>n \<in> ran f. le_bytes 8 h \<noteq> zstr n)"

definition db_holds :: "(bytes \<Rightarrow> bytes option) \<Rightarrow> table \<Rightarrow> bool" where
  "db_holds m f \<longleftrightarrow>
     (\<forall>h n. f h = Some n \<longrightarrow> m (le_bytes 8 h) = Some (zstr n) \<and> m (zstr n) = Some (le_bytes 8 h)) \<and>
     (\<forall>k. m k \<noteq> None \<longrightarrow> (\<exists>h n. f h = Some n \<and> (k = le_bytes 8 h \<or> k = zstr n)))"

definition db_repr :: "('w, 'd) env \<Rightarrow> ('w, 'd) server \<Rightarrow> table \<Rightarrow> bool" where
  "db_repr E s f \<longleftrightarrow> libdb_laws E \<and> table_ok f \<and> db_holds (db_view E (dbst s)) f"

text \<open>
  Handles and paths share one key space, so a path of seven bytes can have the same key as a
  handle. \<open>db_clear\<close> excludes that for the handles in the table and for those still to be drawn;
  it holds for every path whose length is not seven (\<open>db_clear_length\<close>).
\<close>

definition db_clear :: "('w, 'd) server \<Rightarrow> table \<Rightarrow> path \<Rightarrow> bool" where
  "db_clear s f n \<longleftrightarrow> (\<forall>h \<in> dom f \<union> set (rnd s). le_bytes 8 h \<noteq> zstr n)"

definition genuine_handle :: "table \<Rightarrow> fhandle \<Rightarrow> bool" where
  "genuine_handle f h \<longleftrightarrow> (\<forall>n \<in> ran f. le_bytes 8 h \<noteq> zstr n)"

lemma db_clear_length: "length n \<noteq> 7 \<Longrightarrow> db_clear s f n"
  by (auto simp: db_clear_def dest: arg_cong [where f = length])

lemma handle_key_inject [simp]: "le_bytes 8 (h :: u64) = le_bytes 8 k \<longleftrightarrow> h = k"
  by (rule le_bytes_inject) simp

lemma db_holds_upd:
  assumes "table_ok f" "db_holds m f" "m (zstr n) = None" "m (le_bytes 8 h) = None"
    and "cstring n" "\<forall>k \<in> insert h (dom f). le_bytes 8 k \<noteq> zstr n"
  shows "db_holds (m(le_bytes 8 h \<mapsto> zstr n, zstr n \<mapsto> le_bytes 8 h)) (f(h \<mapsto> n))"
    and "table_ok (f(h \<mapsto> n))" and "n \<notin> ran f" and "f h = None"
proof -
  have fh: "f h = None"
    using assms(2,4) by (cases "f h") (auto simp: db_holds_def)
  have nf: "f k \<noteq> Some n" for k
    using assms(2,3) by (auto simp: db_holds_def)
  have hn: "f k = Some n' \<Longrightarrow> le_bytes 8 h \<noteq> zstr n'" for k n'
    using assms(2,4) by (auto simp: db_holds_def)
  show "f h = None" by (rule fh)
  show "n \<notin> ran f" using nf by (auto simp: ran_def)
  show "table_ok (f(h \<mapsto> n))"
    using assms(1,5,6) fh nf hn
    by (auto simp: table_ok_def inj_on_def ran_def dom_def) metis
  show "db_holds (m(le_bytes 8 h \<mapsto> zstr n, zstr n \<mapsto> le_bytes 8 h)) (f(h \<mapsto> n))"
    unfolding db_holds_def
  proof (intro conjI allI impI)
    fix k n'
    assume "(f(h \<mapsto> n)) k = Some n'"
    then consider "k = h" "n' = n" | "k \<noteq> h" "f k = Some n'" by (auto split: if_splits)
    then show "(m(le_bytes 8 h \<mapsto> zstr n, zstr n \<mapsto> le_bytes 8 h)) (le_bytes 8 k) = Some (zstr n')"
      and "(m(le_bytes 8 h \<mapsto> zstr n, zstr n \<mapsto> le_bytes 8 h)) (zstr n') = Some (le_bytes 8 k)"
      using assms(2,6) hn [of k n'] nf [of k] by (cases; auto simp: db_holds_def domI)+
  next
    fix k
    assume "(m(le_bytes 8 h \<mapsto> zstr n, zstr n \<mapsto> le_bytes 8 h)) k \<noteq> None"
    then consider "k = le_bytes 8 h \<or> k = zstr n" | "m k \<noteq> None" by (auto split: if_splits)
    then show "\<exists>h' n'. (f(h \<mapsto> n)) h' = Some n' \<and> (k = le_bytes 8 h' \<or> k = zstr n')"
    proof cases
      case 1
      then show ?thesis by (intro exI [of _ h] exI [of _ n]) simp
    next
      case 2
      with assms(2) obtain h' n' where "f h' = Some n'" "k = le_bytes 8 h' \<or> k = zstr n'"
        unfolding db_holds_def by blast
      with fh show ?thesis by (intro exI [of _ h'] exI [of _ n']) auto
    qed
  qed
qed

lemma db_holds_del:
  assumes "table_ok f" "db_holds m f" "f h = Some n"
  shows "db_holds (m(zstr n := None, le_bytes 8 h := None)) (forget n f)"
    and "table_ok (forget n f)"
proof -
  have others: "k \<noteq> h \<and> n' \<noteq> n \<and> le_bytes 8 k \<noteq> zstr n \<and> le_bytes 8 h \<noteq> zstr n'"
    if "f k = Some n'" "n' \<noteq> n" for k n'
    using assms(1,3) that by (auto simp: table_ok_def ran_def dom_def)
  have only: "k = h" if "f k = Some n" for k
    using assms(1,3) that by (auto simp: table_ok_def inj_on_def dom_def)
  show "db_holds (m(zstr n := None, le_bytes 8 h := None)) (forget n f)"
    unfolding db_holds_def
  proof (intro conjI allI impI)
    fix k n'
    assume "forget n f k = Some n'"
    with others [of k n'] assms(2)
    show "(m(zstr n := None, le_bytes 8 h := None)) (le_bytes 8 k) = Some (zstr n')"
      and "(m(zstr n := None, le_bytes 8 h := None)) (zstr n') = Some (le_bytes 8 k)"
      by (auto simp: db_holds_def)
  next
    fix k
    assume k: "(m(zstr n := None, le_bytes 8 h := None)) k \<noteq> None"
    then have "m k \<noteq> None" "k \<noteq> zstr n" "k \<noteq> le_bytes 8 h"
      by (auto split: if_splits)
    with assms(2) obtain h' n' where "f h' = Some n'" "k = le_bytes 8 h' \<or> k = zstr n'"
      unfolding db_holds_def by blast
    with \<open>k \<noteq> zstr n\<close> \<open>k \<noteq> le_bytes 8 h\<close> only
    show "\<exists>h' n'. forget n f h' = Some n' \<and> (k = le_bytes 8 h' \<or> k = zstr n')"
      by (metis forget_Some)
  qed
  have "inj_on (forget n f) (dom (forget n f))"
  proof (rule inj_onI)
    fix k l
    assume "k \<in> dom (forget n f)" and eq: "forget n f k = forget n f l"
    then obtain n' where "forget n f k = Some n'" by (blast dest: domD)
    moreover from this eq have "forget n f l = Some n'" by simp
    ultimately have "f k = Some n'" "f l = Some n'" by simp_all
    with assms(1) show "k = l"
      by (auto simp: table_ok_def inj_on_def dom_def)
  qed
  moreover have "finite (dom (forget n f))"
    using assms(1) forget_dom [of n f] by (auto simp: table_ok_def intro: finite_subset)
  ultimately show "table_ok (forget n f)"
    using assms(1) forget_dom [of n f] unfolding table_ok_def forget_ran by blast
qed

section \<open>The operations under the laws of the library\<close>

lemma init_db_view:
  "libdb_laws E \<Longrightarrow>
   wp (init_db_if_needed E) (\<lambda>_ s'. db_view E (dbst s') = db_view E (dbst s) \<and> rnd s' = rnd s) s"
  by (auto simp: init_db_if_needed_def wp_def libdb_laws_def split: prod.splits outcome.splits)

lemma find_db_view:
  assumes "libdb_laws E"
  shows "wp (find_db E key) (\<lambda>r s'. r = db_view E (dbst s) key \<and>
    db_view E (dbst s') = db_view E (dbst s) \<and> rnd s' = rnd s) s"
proof -
  have "DB_NOTFOUND E \<noteq> 0"
    using assms by (simp add: libdb_laws_def)
  then have "wp (find_db E key) (\<lambda>r s'. r = db_view E (dbst s') key \<and>
      db_view E (dbst s') = db_view E (dbst s) \<and> rnd s' = rnd s) s"
    unfolding find_db_def wp_rules
    by (intro wp_mono [OF init_db_view [OF assms]])
      (auto simp: db_view_def [of _ _ key] split: prod.splits)
  then show ?thesis
    by (rule wp_mono) auto
qed

lemma insert_db_view:
  assumes "libdb_laws E"
  shows "wp (insert_db E key val) (\<lambda>_ s'.
    db_view E (dbst s') = (db_view E (dbst s))(key \<mapsto> val) \<and> rnd s' = rnd s) s"
  unfolding insert_db_def wp_rules
  by (rule wp_mono [OF init_db_view [OF assms]]) (use assms in \<open>auto simp: libdb_laws_def\<close>)

lemma generate_loop_view:
  assumes "libdb_laws E"
  shows "wp (generate_loop E draws) (\<lambda>h s'. h \<in> set draws \<and> db_view E (dbst s) (le_bytes 8 h) = None \<and>
    db_view E (dbst s') = db_view E (dbst s) \<and> set (rnd s') \<subseteq> set draws) s"
proof (induction draws arbitrary: s)
  case Nil
  then show ?case by (simp add: wp_def)
next
  case (Cons d ds)
  have "wp (generate_loop E ds) (\<lambda>h s''. h \<in> set (d # ds) \<and>
      db_view E (dbst s) (le_bytes 8 h) = None \<and> db_view E (dbst s'') = db_view E (dbst s) \<and>
      set (rnd s'') \<subseteq> set (d # ds)) s'"
    if "db_view E (dbst s') = db_view E (dbst s)" for s'
    by (rule wp_mono [OF Cons.IH]) (use that in auto)
  then show ?case
    unfolding generate_loop.simps wp_rules
    by (intro wp_mono [OF find_db_view [OF assms]]) (auto split: option.splits)
qed

lemma new_fhandle_view:
  assumes "libdb_laws E"
  shows "wp (new_fhandle E n) (\<lambda>h s'. h \<in> set (rnd s) \<and> db_view E (dbst s) (le_bytes 8 h) = None \<and>
    db_view E (dbst s') = (db_view E (dbst s))(le_bytes 8 h \<mapsto> zstr n, zstr n \<mapsto> le_bytes 8 h) \<and>
    set (rnd s') \<subseteq> set (rnd s)) s"
  unfolding new_fhandle_def generate_new_fhandle_def wp_rules
  by (rule wp_mono [OF generate_loop_view [OF assms]], rule wp_mono [OF insert_db_view [OF assms]],
      rule wp_mono [OF insert_db_view [OF assms]]) auto

section \<open>The database provides the handle table\<close>

lemma db_repr_get:
  assumes "db_repr E s f" "genuine_handle f h"
  shows "db_view E (dbst s) (le_bytes 8 h) = map_option zstr (f h)"
proof (cases "f h")
  case None
  have "db_view E (dbst s) (le_bytes 8 h) = None"
  proof (rule ccontr)
    assume "db_view E (dbst s) (le_bytes 8 h) \<noteq> None"
    with assms(1) obtain k n where "f k = Some n" "le_bytes 8 h = le_bytes 8 k \<or> le_bytes 8 h = zstr n"
      unfolding db_repr_def db_holds_def by blast
    with None assms(2) show False
      by (auto simp: genuine_handle_def ran_def)
  qed
  with None show ?thesis by simp
next
  case (Some n)
  with assms(1) show ?thesis by (simp add: db_repr_def db_holds_def)
qed

lemma db_repr_name:
  assumes "db_repr E s f" "db_clear s f n"
  shows "(\<exists>h. f h = Some n \<and> db_view E (dbst s) (zstr n) = Some (le_bytes 8 h)) \<or>
    n \<notin> ran f \<and> db_view E (dbst s) (zstr n) = None"
proof (cases "n \<in> ran f")
  case True
  with assms(1) show ?thesis by (auto simp: db_repr_def db_holds_def ran_def)
next
  case False
  have "db_view E (dbst s) (zstr n) = None"
  proof (rule ccontr)
    assume "db_view E (dbst s) (zstr n) \<noteq> None"
    with assms(1) obtain k m where "f k = Some m" "zstr n = le_bytes 8 k \<or> n = m"
      unfolding db_repr_def db_holds_def by (metis zstr_inject)
    with False assms(2) show False
      by (auto simp: db_clear_def ran_def dom_def)
  qed
  with False show ?thesis by simp
qed

lemma name_find_or_insert_repr:
  fixes s :: "('w, 'd) server"
  assumes R: "db_repr E s f" and c: "db_clear s f n" and n: "cstring n"
  shows "wp (name_find_or_insert E n) (\<lambda>h s'. \<exists>f'. db_repr E s' f' \<and> inserted n h f f' \<and>
    (\<forall>m. db_clear s f m \<longrightarrow> db_clear s' f' m)) s"
proof -
  from R have laws: "libdb_laws E" by (simp add: db_repr_def)
  have found: "db_repr E s'' f \<and> inserted n (le_word (take 8 (le_bytes 8 h))) f f \<and>
      (\<forall>m. db_clear s f m \<longrightarrow> db_clear s'' f m)"
    if "f h = Some n" "db_view E (dbst s'') = db_view E (dbst s)" "rnd s'' = rnd s" for h and s'' :: "('w, 'd) server"
    using that R by (simp add: db_repr_def inserted_def db_clear_def)
  have fresh: "wp (new_fhandle E n) (\<lambda>h s''. \<exists>f'. db_repr E s'' f' \<and> inserted n h f f' \<and>
      (\<forall>m. db_clear s f m \<longrightarrow> db_clear s'' f' m)) s'"
    if nf: "db_view E (dbst s) (zstr n) = None"
      and s': "db_view E (dbst s') = db_view E (dbst s)" "rnd s' = rnd s" for s' :: "('w, 'd) server"
  proof (rule wp_mono [OF new_fhandle_view [OF laws]], elim conjE)
    fix h and s'' :: "('w, 'd) server"
    assume h: "h \<in> set (rnd s')" "db_view E (dbst s') (le_bytes 8 h) = None"
      and s'': "db_view E (dbst s'') = (db_view E (dbst s'))(le_bytes 8 h \<mapsto> zstr n, zstr n \<mapsto> le_bytes 8 h)"
        "set (rnd s'') \<subseteq> set (rnd s')"
    have "\<forall>k \<in> insert h (dom f). le_bytes 8 k \<noteq> zstr n"
      using c h(1) s'(2) by (auto simp: db_clear_def)
    from db_holds_upd [of f "db_view E (dbst s)" n h, OF _ _ nf _ n this] R h(2) s'(1)
    have "db_repr E s'' (f(h \<mapsto> n))" "inserted n h f (f(h \<mapsto> n))"
      by (auto simp: db_repr_def inserted_def s''(1))
    moreover have "\<forall>m. db_clear s f m \<longrightarrow> db_clear s'' (f(h \<mapsto> n)) m"
      using h(1) s'(2) s''(2) by (auto simp: db_clear_def)
    ultimately show "\<exists>f'. db_repr E s'' f' \<and> inserted n h f f' \<and>
        (\<forall>m. db_clear s f m \<longrightarrow> db_clear s'' f' m)"
      by blast
  qed
  show ?thesis
    unfolding name_find_or_insert_def load_handle_def wp_rules
  proof (rule wp_mono [OF find_db_view [OF laws]], elim conjE)
    fix r and s' :: "('w, 'd) server"
    assume r: "r = db_view E (dbst s) (zstr n)"
      and s': "db_view E (dbst s') = db_view E (dbst s)" "rnd s' = rnd s"
    show "wp (case r of None \<Rightarrow> new_fhandle E n
        | Some v \<Rightarrow> bnd (andthen (must (8 \<le> length v)) (ret (le_word (take 8 v))))
            (\<lambda>handle. andthen c_free (ret handle)))
      (\<lambda>h s'. \<exists>f'. db_repr E s' f' \<and> inserted n h f f' \<and>
        (\<forall>m. db_clear s f m \<longrightarrow> db_clear s' f' m)) s'"
      using db_repr_name [OF R c]
    proof (elim disjE exE conjE)
      fix h
      assume h: "f h = Some n" "db_view E (dbst s) (zstr n) = Some (le_bytes 8 h)"
      from found [OF h(1), of "s'\<lparr>live := live s' - 1\<rparr>"] h(2) r s' show ?thesis
        by (auto intro!: exI [of _ f])
    next
      assume "n \<notin> ran f" "db_view E (dbst s) (zstr n) = None"
      with fresh s' r show ?thesis by simp
    qed
  qed
qed

lemma name_remove_repr:
  fixes s :: "('w, 'd) server"
  assumes R: "db_repr E s f" and c: "db_clear s f n" and n: "cstring n"
  shows "wp (name_remove E n) (\<lambda>b s'. b = (n \<in> ran f) \<and> db_repr E s' (forget n f) \<and>
    (\<forall>m. db_clear s f m \<longrightarrow> db_clear s' (forget n f) m)) s"
proof -
  from R have laws: "libdb_laws E" by (simp add: db_repr_def)
  have del: "db_view E d k \<noteq> None \<and> db_view E d' = (db_view E d)(k := None)"
    if "db_del E k d = (0, d')" for k d d'
    using laws that by (auto simp: libdb_laws_def)
  have miss: "db_view E d k = None" if "db_del E k d = (DB_NOTFOUND E, d')" for k d d'
    using laws that by (auto simp: libdb_laws_def)
  have clear: "(\<forall>m. db_clear s f m \<longrightarrow> db_clear s' (forget n f) m)" if "rnd s' = rnd s" for s' :: "('w, 'd) server"
    using that forget_dom [of n f] by (auto simp: db_clear_def)
  have gone: "forget n f = f" if "n \<notin> ran f"
    using that by (auto simp: forget_def ran_def fun_eq_iff)
  show ?thesis
    unfolding name_remove_def wp_rules
  proof (rule wp_mono [OF init_db_view [OF laws]], rule wp_mono [OF find_db_view [OF laws]], elim conjE)
    fix u r and s' s'' :: "('w, 'd) server"
    assume s': "db_view E (dbst s') = db_view E (dbst s)" "rnd s' = rnd s"
      and r: "r = db_view E (dbst s') (zstr n)"
      and s'': "db_view E (dbst s'') = db_view E (dbst s')" "rnd s'' = rnd s'"
    show "wp (case r of None \<Rightarrow> ret False
        | Some handle \<Rightarrow> andthen (must (8 \<le> length handle))
            (bnd (c_del E (zstr n)) (\<lambda>err. bnd (c_del E (take 8 handle)) (\<lambda>err2.
             if err \<noteq> 0 \<or> err2 \<noteq> 0
             then if err \<noteq> DB_NOTFOUND E \<or> err2 \<noteq> DB_NOTFOUND E then err_exit else ret False
             else ret True))))
      (\<lambda>b s'. b = (n \<in> ran f) \<and> db_repr E s' (forget n f) \<and>
        (\<forall>m. db_clear s f m \<longrightarrow> db_clear s' (forget n f) m)) s''"
      (is "wp _ ?Q s''")
      using db_repr_name [OF R c]
    proof (elim disjE exE conjE)
      fix h
      assume h: "f h = Some n" "db_view E (dbst s) (zstr n) = Some (le_bytes 8 h)"
      have "?Q True (s''\<lparr>dbst := d2\<rparr>)"
        if "db_del E (zstr n) (dbst s'') = (0, d)" "db_del E (le_bytes 8 h) d = (0, d2)" for d d2
        using R h(1) db_holds_del [of f _ h n] del [OF that(1)] del [OF that(2)] s' s'' clear
        by (auto simp: db_repr_def intro: ranI)
      with h r s' s'' laws miss [of "zstr n" "dbst s''"] show ?thesis
        by (auto simp: libdb_laws_def)
    next
      assume "n \<notin> ran f" "db_view E (dbst s) (zstr n) = None"
      with R r s' s'' clear gone show ?thesis by (simp add: db_repr_def)
    qed
  qed
qed

interpretation fhdb: handle_table
  "db_repr E" db_clear genuine_handle "get_file E" "name_find_or_insert E" "name_remove E"
  for E :: "('w, 'd) env"
proof unfold_locales
  fix s :: "('w, 'd) server" and f :: table
  assume R: "db_repr E s f"
  then show "inj_on f (dom f)"
    by (simp add: db_repr_def table_ok_def)
  show "cstring n" if "n \<in> ran f" for n
    using R that by (simp add: db_repr_def table_ok_def)
  show "genuine_handle f h" if "f h = Some n" for h n
    using R that by (auto simp: db_repr_def table_ok_def genuine_handle_def)
  show "wp (get_file E h) (\<lambda>r s'. db_repr E s' f \<and> r = map_option zstr (f h) \<and>
      (\<forall>m. db_clear s f m \<longrightarrow> db_clear s' f m)) s" if "genuine_handle f h" for h
    unfolding get_file_def
    using R db_repr_get [OF R that]
    by (intro wp_mono [OF find_db_view]) (auto simp: db_repr_def db_clear_def)
next
  fix f g :: table and h
  show "genuine_handle f h \<Longrightarrow> ran g \<subseteq> ran f \<Longrightarrow> genuine_handle g h"
    by (auto simp: genuine_handle_def)
qed (rule name_find_or_insert_repr name_remove_repr; assumption)+

end
