(* ===== verification/Fhandledb_Spec.thy ===== *)
theory Fhandledb_Spec
  imports Fhandledb
begin

text \<open>
  The total specifications of the handle database: when the library works and memory is
  available, the exported operations return, with the result and the effect that the partial
  specifications of \<open>Fhandledb\<close> give. The draw loop needs one draw that is not a key of the database;
  \<open>fresh_draw_pigeonhole\<close> shows that a tape of distinct draws longer than twice the
  table has one. These are the facts the handlers use.
\<close>

definition env_ok :: "('w, 'd) env \<Rightarrow> bool" where
  "env_ok E \<longleftrightarrow> libdb_laws E \<and> libdb_no_failure E \<and> memory_available E"

definition fresh_draw :: "('w, 'd) env \<Rightarrow> ('w, 'd) server \<Rightarrow> bool" where
  "fresh_draw E s \<longleftrightarrow> (\<exists>h \<in> set (rnd s). db_view E (dbst s) (le_bytes 8 h) = None)"

lemma env_ok_laws [simp]: "env_ok E \<Longrightarrow> libdb_laws E"
  by (simp add: env_ok_def)

section \<open>Every operation returns\<close>

lemma init_db_total: "env_ok E \<Longrightarrow> twp (init_db_if_needed E) (\<lambda>_ _. True) s"
  by (auto simp: init_db_if_needed_def twp_def env_ok_def libdb_no_failure_def
      split: prod.splits outcome.splits) (metis fst_conv)+

lemma find_db_total: "env_ok E \<Longrightarrow> twp (find_db E key) (\<lambda>_ _. True) s"
  unfolding find_db_def twp_rules
  by (rule twp_mono [OF init_db_total])
    (auto simp: env_ok_def libdb_no_failure_def memory_available_def split: prod.splits; metis fst_conv)+

lemma insert_db_total: "env_ok E \<Longrightarrow> twp (insert_db E key val) (\<lambda>_ _. True) s"
  unfolding insert_db_def twp_rules
  by (rule twp_mono [OF init_db_total])
    (auto simp: env_ok_def libdb_no_failure_def split: prod.splits; metis fst_conv)+

lemma find_db_spec:
  assumes "env_ok E"
  shows "twp (find_db E key) (\<lambda>r s'. (r = db_view E (dbst s) key \<and>
    db_view E (dbst s') = db_view E (dbst s) \<and> rnd s' = rnd s) \<and>
    db_only (if r = None then 0 else 1) s s') s"
  by (rule twp_mono [OF twp_wp_conj [OF find_db_total [OF assms]
        wp_conj [OF find_db_view [OF env_ok_laws [OF assms]] find_db_frame]]]) simp

lemma insert_db_spec:
  assumes "env_ok E"
  shows "twp (insert_db E key val) (\<lambda>_ s'.
    db_view E (dbst s') = (db_view E (dbst s))(key \<mapsto> val) \<and> rnd s' = rnd s) s"
  by (rule twp_mono [OF twp_wp_conj [OF insert_db_total [OF assms]
        insert_db_view [OF env_ok_laws [OF assms]]]]) simp

lemma generate_loop_total:
  fixes s :: "('w, 'd) server"
  assumes "env_ok E"
  shows "\<exists>h \<in> set draws. db_view E (dbst s) (le_bytes 8 h) = None \<Longrightarrow>
    twp (generate_loop E draws) (\<lambda>_ _. True) s"
proof (induction draws arbitrary: s)
  case Nil
  then show ?case by simp
next
  case (Cons d ds)
  show ?case
    unfolding generate_loop.simps twp_rules
  proof (rule twp_mono [OF find_db_spec [OF assms]], elim conjE)
    fix r and s' :: "('w, 'd) server"
    assume r: "r = db_view E (dbst (s\<lparr>rnd := ds\<rparr>)) (le_bytes 8 d)"
      and s': "db_view E (dbst s') = db_view E (dbst (s\<lparr>rnd := ds\<rparr>))"
    show "twp (case r of None \<Rightarrow> ret d | Some v \<Rightarrow> andthen c_free (generate_loop E ds))
        (\<lambda>_ _. True) s'"
    proof (cases r)
      case None
      then show ?thesis by simp
    next
      case (Some v)
      with Cons.prems r have "\<exists>h \<in> set ds. db_view E (dbst s) (le_bytes 8 h) = None"
        by auto
      with Some s' Cons.IH [of "s'\<lparr>live := live s' - 1\<rparr>"] show ?thesis by simp
    qed
  qed
qed

lemma new_fhandle_total:
  assumes "env_ok E" "fresh_draw E s"
  shows "twp (new_fhandle E n) (\<lambda>_ _. True) s"
  unfolding new_fhandle_def generate_new_fhandle_def twp_rules
  by (rule twp_mono [OF generate_loop_total [OF assms(1) assms(2) [unfolded fresh_draw_def]]],
      rule twp_mono [OF insert_db_total [OF assms(1)]], rule twp_mono [OF insert_db_total [OF assms(1)]]) simp

lemma fresh_draw_pigeonhole:
  assumes R: "db_repr E s f" and d: "distinct (rnd s)" "2 * card (dom f) < length (rnd s)"
  shows "fresh_draw E s"
proof (rule ccontr)
  assume no: "\<not> fresh_draw E s"
  have fin: "finite (dom f)" and holds: "db_holds (db_view E (dbst s)) f"
    using R by (simp_all add: db_repr_def table_ok_def)
  let ?keys = "le_bytes 8 ` dom f \<union> zstr ` ran f"
  have "le_bytes 8 ` set (rnd s) \<subseteq> ?keys"
  proof
    fix k
    assume "k \<in> le_bytes 8 ` set (rnd s)"
    with no have "db_view E (dbst s) k \<noteq> None"
      by (auto simp: fresh_draw_def)
    with holds show "k \<in> ?keys"
      unfolding db_holds_def by (auto simp: ran_def dom_def) blast
  qed
  moreover have ran: "ran f = (the \<circ> f) ` dom f"
    by (force simp: ran_def dom_def)
  then have "card (ran f) \<le> card (dom f)" "finite (ran f)"
    using fin by (simp_all add: card_image_le)
  then have "card ?keys \<le> 2 * card (dom f)" "finite ?keys"
    using fin card_image_le [of "dom f" "le_bytes 8"] card_image_le [of "ran f" zstr]
      card_Un_le [of "le_bytes 8 ` dom f" "zstr ` ran f"] by auto
  moreover have "card (le_bytes 8 ` set (rnd s)) = length (rnd s)"
    using d(1) by (simp add: card_image inj_on_def distinct_card)
  ultimately show False
    using card_mono [of ?keys "le_bytes 8 ` set (rnd s)"] d(2) by simp
qed

section \<open>The exported operations\<close>

text \<open>
  \<open>table_step E k s f s' f'\<close>: from the table \<open>f\<close> to the table \<open>f'\<close>, with \<open>k\<close> heap blocks more
  and nothing changed outside the database. Paths that are clear stay clear.
\<close>

definition table_step ::
    "('w, 'd) env \<Rightarrow> int \<Rightarrow> ('w, 'd) server \<Rightarrow> table \<Rightarrow> ('w, 'd) server \<Rightarrow> table \<Rightarrow> bool" where
  "table_step E k s f s' f' \<longleftrightarrow> db_repr E s' f' \<and> db_only k s s' \<and>
     (\<forall>m. db_clear s f m \<longrightarrow> db_clear s' f' m)"

lemma get_file_total: "env_ok E \<Longrightarrow> twp (get_file E h) (\<lambda>_ _. True) s"
  by (simp add: get_file_def find_db_total)

lemma get_file_spec:
  assumes "env_ok E" "db_repr E s f" "genuine_handle f h"
  shows "twp (get_file E h) (\<lambda>r s'. r = map_option zstr (f h) \<and>
    table_step E (if f h = None then 0 else 1) s f s' f \<and> rnd s' = rnd s \<and>
    db_view E (dbst s') = db_view E (dbst s)) s"
proof -
  have "wp (get_file E h) (\<lambda>_ s'. db_view E (dbst s') = db_view E (dbst s) \<and> rnd s' = rnd s) s"
    unfolding get_file_def by (rule wp_mono [OF find_db_view]) (use assms in auto)
  note * = this [THEN wp_conj [OF wp_conj [OF fhdb.get_spec [OF assms(2,3)] get_file_frame]]]
  show ?thesis
    by (rule twp_mono [OF twp_wp_conj [OF get_file_total [OF assms(1)] *]])
      (auto simp: table_step_def split: if_splits)
qed

lemma name_find_or_insert_total:
  fixes s :: "('w, 'd) server"
  assumes "env_ok E" "db_repr E s f" "db_clear s f n" "fresh_draw E s"
  shows "twp (name_find_or_insert E n) (\<lambda>_ _. True) s"
  unfolding name_find_or_insert_def load_handle_def twp_rules
proof (rule twp_mono [OF find_db_spec [OF assms(1)]], elim conjE)
  fix r and s' :: "('w, 'd) server"
  assume r: "r = db_view E (dbst s) (zstr n)"
    and s': "db_view E (dbst s') = db_view E (dbst s)" "rnd s' = rnd s"
  show "twp (case r of None \<Rightarrow> new_fhandle E n
      | Some v \<Rightarrow> bnd (andthen (must (8 \<le> length v)) (ret (le_word (take 8 v))))
          (\<lambda>handle. andthen c_free (ret handle))) (\<lambda>_ _. True) s'"
  proof (cases r)
    case None
    with assms(4) s' have "fresh_draw E s'" by (simp add: fresh_draw_def)
    with None assms(1) show ?thesis by (simp add: new_fhandle_total)
  next
    case (Some v)
    with db_repr_name [OF assms(2,3)] r have "length v = 8" by auto
    with Some show ?thesis by simp
  qed
qed

lemma name_find_or_insert_spec:
  assumes "env_ok E" "db_repr E s f" "db_clear s f n" "cstring n" "fresh_draw E s"
  shows "twp (name_find_or_insert E n)
    (\<lambda>h s'. \<exists>f'. table_step E 0 s f s' f' \<and> inserted n h f f') s"
  by (rule twp_mono [OF twp_wp_conj [OF name_find_or_insert_total [OF assms(1,2,3,5)]
        wp_conj [OF fhdb.insert_spec [OF assms(2-4)] name_find_or_insert_frame]]])
    (auto simp: table_step_def)

lemma name_remove_total:
  fixes s :: "('w, 'd) server"
  assumes "env_ok E" "db_repr E s f" "db_clear s f n"
  shows "twp (name_remove E n) (\<lambda>_ s'. n \<in> ran f \<longrightarrow> db_only 1 s s') s"
  unfolding name_remove_def twp_rules
proof (rule twp_mono [OF twp_wp_conj [OF init_db_total [OF assms(1)]
        wp_conj [OF init_db_view [OF env_ok_laws [OF assms(1)]] init_db_frame]]],
    rule twp_mono [OF find_db_spec [OF assms(1)]], elim conjE)
  fix u :: bool and r and s' s'' :: "('w, 'd) server"
  assume s': "db_view E (dbst s') = db_view E (dbst s)" "db_only 0 s s'"
    and r: "r = db_view E (dbst s') (zstr n)"
    and s'': "db_view E (dbst s'') = db_view E (dbst s')"
      "db_only (if r = None then 0 else 1) s' s''"
  have ok: "libdb_laws E" "libdb_no_failure E" using assms(1) by (simp_all add: env_ok_def)
  have del: "\<exists>d'. db_del E k d = (0, d') \<and> db_view E d' = (db_view E d)(k := None)"
    if "db_view E d k \<noteq> None" for k d
    using ok that unfolding libdb_laws_def libdb_no_failure_def
    by (metis prod.collapse)
  show "twp (case r of None \<Rightarrow> ret False
      | Some handle \<Rightarrow> andthen (must (8 \<le> length handle))
          (bnd (c_del E (zstr n)) (\<lambda>err. bnd (c_del E (take 8 handle)) (\<lambda>err2.
           if err \<noteq> 0 \<or> err2 \<noteq> 0
           then if err \<noteq> DB_NOTFOUND E \<or> err2 \<noteq> DB_NOTFOUND E then err_exit else ret False
           else ret True))))
    (\<lambda>_ s'. n \<in> ran f \<longrightarrow> db_only 1 s s') s''"
    using db_repr_name [OF assms(2,3)]
  proof (elim disjE exE conjE)
    fix h
    assume h: "f h = Some n" "db_view E (dbst s) (zstr n) = Some (le_bytes 8 h)"
    have "db_view E (dbst s) (le_bytes 8 h) \<noteq> None" "le_bytes 8 h \<noteq> zstr n"
      using assms(2,3) h by (auto simp: db_repr_def db_holds_def db_clear_def)
    with h s' s'' del [of "dbst s''" "zstr n"] obtain d where
      d: "db_del E (zstr n) (dbst s'') = (0, d)" "db_view E d (le_bytes 8 h) \<noteq> None"
      by auto
    from del [OF d(2)] obtain d2 where "db_del E (le_bytes 8 h) d = (0, d2)" by auto
    with d h r s' s'' show ?thesis by (auto simp: db_only_def)
  next
    assume "n \<notin> ran f" "db_view E (dbst s) (zstr n) = None"
    with r s' show ?thesis by simp
  qed
qed

lemma name_remove_spec:
  assumes "env_ok E" "db_repr E s f" "db_clear s f n" "n \<in> ran f"
  shows "twp (name_remove E n) (\<lambda>b s'. b \<and> table_step E 1 s f s' (forget n f)) s"
proof -
  have "cstring n" using fhdb.repr_cstring [OF assms(2,4)] .
  then show ?thesis
    by (intro twp_mono [OF twp_wp_conj [OF name_remove_total [OF assms(1-3)]
          fhdb.remove_spec [OF assms(2,3)]]]) (use assms(4) in \<open>auto simp: table_step_def\<close>)
qed

lemma name_find_again:
  assumes "env_ok E" "db_repr E s f" "db_clear s f n" "f h = Some n"
  shows "twp (name_find_or_insert E n) (\<lambda>k s'. k = h \<and> table_step E 0 s f s' f \<and> rnd s' = rnd s) s"
proof -
  have "db_view E (dbst s) (zstr n) = Some (le_bytes 8 h)"
    using assms(2,4) by (auto simp: db_repr_def db_holds_def)
  then show ?thesis
    unfolding name_find_or_insert_def load_handle_def twp_rules
    using assms(2) by (intro twp_mono [OF find_db_spec [OF assms(1)]])
      (auto simp: table_step_def db_repr_def db_only_def db_clear_def)
qed

section \<open>How many draws are left\<close>

text \<open>
  \<open>fresh_supply E s k\<close>: at least \<open>k\<close> different draws to come are not keys of the database. A
  call that hands out a handle uses up at most one of them, so a sequence of requests can
  be followed.
\<close>

definition fresh_set :: "('w, 'd) env \<Rightarrow> ('w, 'd) server \<Rightarrow> u64 set" where
  "fresh_set E s = {h \<in> set (rnd s). db_view E (dbst s) (le_bytes 8 h) = None}"

definition fresh_supply :: "('w, 'd) env \<Rightarrow> ('w, 'd) server \<Rightarrow> nat \<Rightarrow> bool" where
  "fresh_supply E s k \<longleftrightarrow> k \<le> card (fresh_set E s)"

lemma fresh_supply_draw: "fresh_supply E s (Suc k) \<Longrightarrow> fresh_draw E s"
proof -
  assume "fresh_supply E s (Suc k)"
  then have "fresh_set E s \<noteq> {}" by (auto simp: fresh_supply_def)
  then show ?thesis by (auto simp: fresh_set_def fresh_draw_def)
qed

lemma generate_loop_used:
  fixes s :: "('w, 'd) server"
  assumes "libdb_laws E"
  shows "wp (generate_loop E draws) (\<lambda>h s'. \<exists>used. draws = used @ h # rnd s' \<and>
    (\<forall>d \<in> set used. db_view E (dbst s) (le_bytes 8 d) \<noteq> None)) s"
proof (induction draws arbitrary: s)
  case Nil
  then show ?case by (simp add: wp_def)
next
  case (Cons d ds)
  have "wp (generate_loop E ds) (\<lambda>h s''. \<exists>used. d # ds = used @ h # rnd s'' \<and>
      (\<forall>d \<in> set used. db_view E (dbst s) (le_bytes 8 d) \<noteq> None)) s'"
    if "db_view E (dbst s') = db_view E (dbst s)" "db_view E (dbst s) (le_bytes 8 d) \<noteq> None"
    for s' :: "('w, 'd) server"
  proof (rule wp_mono [OF Cons.IH], elim exE conjE)
    fix h and s'' :: "('w, 'd) server" and used
    assume "ds = used @ h # rnd s''" "\<forall>d \<in> set used. db_view E (dbst s') (le_bytes 8 d) \<noteq> None"
    with that show "\<exists>used. d # ds = used @ h # rnd s'' \<and>
        (\<forall>d \<in> set used. db_view E (dbst s) (le_bytes 8 d) \<noteq> None)"
      by (intro exI [of _ "d # used"]) auto
  qed
  then show ?case
    unfolding generate_loop.simps wp_rules
    by (intro wp_mono [OF find_db_view [OF assms]])
      (auto split: option.splits intro!: exI [of _ "[]"])
qed

lemma new_fhandle_supply:
  fixes s :: "('w, 'd) server"
  assumes "libdb_laws E" "\<forall>h \<in> set (rnd s). le_bytes 8 h \<noteq> zstr n" "fresh_supply E s (Suc k)"
  shows "wp (new_fhandle E n) (\<lambda>_ s'. fresh_supply E s' k) s"
  unfolding new_fhandle_def generate_new_fhandle_def wp_rules
proof (rule wp_mono [OF wp_conj [OF generate_loop_used [OF assms(1)] generate_loop_view [OF assms(1)]]],
    rule wp_mono [OF insert_db_view [OF assms(1)]], rule wp_mono [OF insert_db_view [OF assms(1)]],
    elim exE conjE)
  fix h used and u u' :: unit and s' s'' s3 :: "('w, 'd) server"
  assume used: "rnd s = used @ h # rnd s'"
      "\<forall>d \<in> set used. db_view E (dbst s) (le_bytes 8 d) \<noteq> None"
    and view: "db_view E (dbst s') = db_view E (dbst s)"
      "db_view E (dbst s'') = (db_view E (dbst s'))(le_bytes 8 h \<mapsto> zstr n)"
      "db_view E (dbst s3) = (db_view E (dbst s''))(zstr n \<mapsto> le_bytes 8 h)"
    and rnd: "rnd s'' = rnd s'" "rnd s3 = rnd s''"
  have "fresh_set E s - {h} \<subseteq> fresh_set E s3"
  proof
    fix d
    assume d: "d \<in> fresh_set E s - {h}"
    with used have "d \<in> set (rnd s')" by (auto simp: fresh_set_def)
    moreover have "le_bytes 8 d \<noteq> zstr n" using assms(2) d by (simp add: fresh_set_def)
    ultimately show "d \<in> fresh_set E s3"
      using d by (simp add: fresh_set_def view rnd)
  qed
  then have "card (fresh_set E s - {h}) \<le> card (fresh_set E s3)"
    by (intro card_mono) (simp add: fresh_set_def)
  then show "fresh_supply E s3 k"
    using assms(3) by (simp add: fresh_supply_def card_Diff_singleton_if split: if_splits)
qed

lemma fresh_supply_mono: "fresh_supply E s (Suc k) \<Longrightarrow> fresh_supply E s k"
  by (simp add: fresh_supply_def)

lemma fresh_supply_cong:
  "rnd s' = rnd s \<Longrightarrow> db_view E (dbst s') = db_view E (dbst s) \<Longrightarrow> fresh_supply E s' k = fresh_supply E s k"
  by (simp add: fresh_supply_def fresh_set_def)

lemma name_find_or_insert_supply:
  fixes s :: "('w, 'd) server"
  assumes "libdb_laws E" "db_clear s f n" "fresh_supply E s (Suc k)"
  shows "wp (name_find_or_insert E n) (\<lambda>_ s'. fresh_supply E s' k) s"
  unfolding name_find_or_insert_def load_handle_def wp_rules
proof (rule wp_mono [OF find_db_view [OF assms(1)]], elim conjE)
  fix r and s' :: "('w, 'd) server"
  assume s': "db_view E (dbst s') = db_view E (dbst s)" "rnd s' = rnd s"
  have "fresh_supply E s' (Suc k)" "\<forall>h \<in> set (rnd s'). le_bytes 8 h \<noteq> zstr n"
    using assms(2,3) s' fresh_supply_cong [of s' s E "Suc k"] by (auto simp: db_clear_def)
  moreover have "fresh_supply E (s'\<lparr>live := l\<rparr>) k" for l
    using fresh_supply_mono [OF assms(3)] s' by (simp add: fresh_supply_def fresh_set_def)
  ultimately show "wp (case r of None \<Rightarrow> new_fhandle E n
      | Some v \<Rightarrow> bnd (andthen (must (8 \<le> length v)) (ret (le_word (take 8 v))))
          (\<lambda>handle. andthen c_free (ret handle))) (\<lambda>_ s'. fresh_supply E s' k) s'"
    using new_fhandle_supply [OF assms(1)] by (auto split: option.splits)
qed

end
