(* ===== verification/Handlers.thy ===== *)
theory Handlers
  imports Fhandledb_Spec
begin

text \<open>
  The request handlers, \<open>src/server/handlers.c\<close>: one definition per handler, with the guards, the
  order of the calls, the error codes and the clean-up of the C function. A handler takes the
  arguments of its request as a record, calls the handle database and the system, and hands one
  reply to the transport (\<open>send_reply\<close>; whether the transport accepts it is only printed by
  the code). The debug output is not modelled.

  First come the definitions, then for each handler, with no hypothesis at all, the shape of what it
  does to the server (\<open>answered\<close>: one reply, and the exact number of heap blocks and
  descriptors it leaves behind), and last its full behaviour over a represented handle table.
\<close>

section \<open>Replies\<close>

definition send_reply :: "snfs_rep \<Rightarrow> ('w, 'd, unit) srv" where
  "send_reply reply = modify (\<lambda>s. s\<lparr>sent := sent s @ [reply]\<rparr>)"

definition handle_error :: "snfs_error \<Rightarrow> ('w, 'd, unit) srv" where
  "handle_error error = send_reply (Rep_error error)"

text \<open>
  The Linux branch: the microseconds are not set, so the reply carries what was in \<open>attr\<close> before. That
  is zero for LOOKUP, whose reply is initialised, and whatever the stack holds for GETATTR.
\<close>

definition stat_to_fattr :: "stat \<Rightarrow> fattr \<Rightarrow> fattr" where
  "stat_to_fattr st attr =
     attr\<lparr>fa_type :=
        (if S_ISREG (st_mode st) then SNFREG
         else if S_ISDIR (st_mode st) then SNFDIR
         else if S_ISBLK (st_mode st) then SNFBLK
         else if S_ISCHR (st_mode st) then SNFCHR
         else if S_ISLNK (st_mode st) then SNFLNK
         else SNFNON),
      fa_mode := ucast (st_mode st), fa_nlink := st_nlink st, fa_uid := ucast (st_uid st),
      fa_gid := ucast (st_gid st), fa_size := st_size st, fa_rdev := st_rdev st,
      fa_fsid := st_dev st, fa_fileid := st_ino st,
      fa_atime := (fa_atime attr)\<lparr>tv_seconds := st_atime st\<rparr>,
      fa_mtime := (fa_mtime attr)\<lparr>tv_seconds := st_mtime st\<rparr>,
      fa_ctime := (fa_ctime attr)\<lparr>tv_seconds := st_ctime st\<rparr>\<rparr>"

text \<open>The attributes in a reply that \<open>make_reply\<close> has initialised without naming them.\<close>

definition zero_fattr :: fattr where
  "zero_fattr =
     \<lparr>fa_type = SNFNON, fa_mode = 0, fa_nlink = 0, fa_uid = 0, fa_gid = 0, fa_size = 0, fa_rdev = 0,
      fa_fsid = 0, fa_fileid = 0, fa_atime = \<lparr>tv_seconds = 0, tv_useconds = 0\<rparr>,
      fa_mtime = \<lparr>tv_seconds = 0, tv_useconds = 0\<rparr>, fa_ctime = \<lparr>tv_seconds = 0, tv_useconds = 0\<rparr>\<rparr>"

text \<open>The three ways the handlers turn an \<open>errno\<close> into an error reply.\<close>

definition err_noent :: "errno \<Rightarrow> snfs_error" where
  "err_noent e = (if e = ENOENT then SNFS_ENOENT else SNFS_EINTERNAL)"

definition err_access :: "errno \<Rightarrow> snfs_error" where
  "err_access e = (if e = ENOENT then SNFS_ENOENT else if e = EACCES then SNFS_EACCES
     else SNFS_EINTERNAL)"

definition err_dir :: "errno \<Rightarrow> snfs_error" where
  "err_dir e = (if e = ENOENT then SNFS_ENOENT else if e = EACCES then SNFS_EACCES
     else if e = ENOTDIR then SNFS_ENOTDIR else SNFS_EINTERNAL)"

definition err_lookup :: "errno \<Rightarrow> snfs_error" where
  "err_lookup e = (if e = ENOENT then SNFS_ENOENT else if e = ENOTDIR then SNFS_EBADOP
     else SNFS_EINTERNAL)"

section \<open>The handlers\<close>

definition handle_noop :: "('w, 'd, unit) srv" where
  "handle_noop = send_reply Rep_noop"

definition handle_getattr :: "('w, 'd) env \<Rightarrow> getattr_args \<Rightarrow> ('w, 'd, unit) srv" where
  "handle_getattr E args =
     bnd (get_file E (ga_fh args)) (\<lambda>file. case file of
       None \<Rightarrow> handle_error SNFS_ENOENT
     | Some m \<Rightarrow>
         bnd (as_cstr m) (\<lambda>file_path.
         bnd (c_stat E file_path) (\<lambda>r. case r of
           Inl errno \<Rightarrow> andthen c_free (handle_error (err_noent errno))
         | Inr st \<Rightarrow>
             bnd (gets (\<lambda>s. stack_fattr E (world s))) (\<lambda>attributes.
             andthen (send_reply (Rep_getattr (stat_to_fattr st attributes)))
             c_free))))"

text \<open>
  The loop of \<open>handle_readdir\<close>. \<open>k\<close> is how many more entries fit; \<open>readdir\<close> is called before that is
  tested, so one entry is read and dropped when the array is full. A name is cut to 255 bytes
  and padded with zeros to the 256 of the reply.
\<close>

definition snfs_entry :: "dirent \<Rightarrow> snfsentry" where
  "snfs_entry e =
     \<lparr>ent_fileid = d_ino e, ent_filename = take SNFS_MAX_FILENAME_LENGTH (d_name e) @ [0]\<rparr>"

fun readdir_loop ::
    "('w, 'd) env \<Rightarrow> int \<Rightarrow> nat \<Rightarrow> snfsentry list \<Rightarrow> ('w, 'd, errno + snfsentry list) srv" where
  "readdir_loop E dir k entries =
     bnd (c_readdir E dir) (\<lambda>r. case r of
       Dir_error errno \<Rightarrow> ret (Inl errno)
     | Dir_end \<Rightarrow> ret (Inr entries)
     | Dir_entry e \<Rightarrow>
         (case k of 0 \<Rightarrow> ret (Inr entries)
          | Suc k' \<Rightarrow>
              andthen (must (SNFS_MAX_FILENAME_LENGTH \<le> length (d_name e)))
              (readdir_loop E dir k' (entries @ [snfs_entry e]))))"

definition sizeof_snfsentry :: nat where
  "sizeof_snfsentry = 264"

definition handle_readdir :: "('w, 'd) env \<Rightarrow> readdir_args \<Rightarrow> ('w, 'd, unit) srv" where
  "handle_readdir E args =
     bnd (get_file E (rd_dir args)) (\<lambda>file. case file of
       None \<Rightarrow> handle_error SNFS_ENOENT
     | Some m \<Rightarrow>
         bnd (as_cstr m) (\<lambda>dir_path.
         bnd (c_stat E dir_path) (\<lambda>r. case r of
           Inl errno \<Rightarrow> andthen (handle_error (err_noent errno)) c_free
         | Inr st \<Rightarrow>
             if \<not> S_ISDIR (st_mode st) then andthen (handle_error SNFS_ENOTDIR) c_free
             else bnd (c_opening (px_opendir E dir_path)) (\<lambda>r. case r of
               Inl errno \<Rightarrow> andthen (handle_error (err_dir errno)) c_free
             | Inr dir \<Rightarrow>
                 andthen (must (stack_ok E (sizeof_snfsentry * unat (rd_count args))))
                 (bnd (readdir_loop E dir (unat (rd_count args)) []) (\<lambda>r. case r of
                    Inl errno \<Rightarrow> andthen (handle_error SNFS_EINTERNAL) c_free
                  | Inr entries \<Rightarrow>
                      andthen (c_malloc E (12 + sizeof_snfsentry * length entries))
                      (andthen (send_reply (Rep_readdir
                         \<lparr>dr_num_entries = of_nat (length entries), dr_entries = entries\<rparr>))
                      (andthen c_free c_free))))))))"

text \<open>
  The path of a name in a directory. The byte before the terminator of the directory path is
  read without a check that there is one.
\<close>

definition path_join :: "path \<Rightarrow> path \<Rightarrow> path" where
  "path_join dir_path filename =
     (if last dir_path = 0x2F \<or> hd (zstr filename) = 0x2F then dir_path @ filename
      else dir_path @ 0x2F # filename)"

definition handle_lookup :: "('w, 'd) env \<Rightarrow> lookup_args \<Rightarrow> ('w, 'd, unit) srv" where
  "handle_lookup E args =
     bnd (get_file E (la_dir args)) (\<lambda>file. case file of
       None \<Rightarrow> handle_error SNFS_ENOENT
     | Some m \<Rightarrow>
         bnd (as_cstr m) (\<lambda>dir_path.
         bnd (c_stat E dir_path) (\<lambda>r. case r of
           Inl errno \<Rightarrow> andthen (handle_error (err_noent errno)) c_free
         | Inr st1 \<Rightarrow>
             if \<not> S_ISDIR (st_mode st1) then andthen (handle_error SNFS_ENOTDIR) c_free
             else bnd (as_cstr (la_filename args)) (\<lambda>filename.
               andthen (c_malloc E (length dir_path + length filename + 2))
               (andthen (must (dir_path \<noteq> []))
               (bnd (c_stat E (path_join dir_path filename)) (\<lambda>r. case r of
                  Inl errno \<Rightarrow>
                    andthen (handle_error (err_lookup errno)) (andthen c_free c_free)
                | Inr st2 \<Rightarrow>
                    bnd (name_find_or_insert E (path_join dir_path filename)) (\<lambda>handle.
                    andthen (send_reply (Rep_lookup
                      \<lparr>lr_handle = handle, lr_attributes = stat_to_fattr st2 zero_fattr\<rparr>))
                    (andthen c_free c_free)))))))))"

definition root_path :: path where
  "root_path = [0x2F]"

definition handle_mount :: "('w, 'd) env \<Rightarrow> ('w, 'd, unit) srv" where
  "handle_mount E =
     bnd (name_find_or_insert E root_path) (\<lambda>root. send_reply (Rep_mount root))"

text \<open>
  The offset and the size are signed, so \<open>offset < file_size\<close> is \<open><s\<close>. The buffer is an
  array of \<open>count\<close> pointers, eight times as large as it needs to be.
\<close>

definition handle_read :: "('w, 'd) env \<Rightarrow> read_args \<Rightarrow> ('w, 'd, unit) srv" where
  "handle_read E args =
     bnd (get_file E (ra_file args)) (\<lambda>file. case file of
       None \<Rightarrow> handle_error SNFS_ENOENT
     | Some m \<Rightarrow>
         bnd (as_cstr m) (\<lambda>file_path.
         bnd (c_stat E file_path) (\<lambda>r. case r of
           Inl errno \<Rightarrow> andthen (handle_error (err_noent errno)) c_free
         | Inr st \<Rightarrow>
             bnd (c_opening (px_open E file_path O_RDONLY)) (\<lambda>r. case r of
               Inl errno \<Rightarrow> andthen (handle_error (err_access errno)) c_free
             | Inr fd \<Rightarrow>
                 bnd (c_lseek E fd (ra_offset args)) (\<lambda>offset.
                 if offset <s 0 \<or> offset \<noteq> ra_offset args then
                   andthen (handle_error (if offset <s 0 then SNFS_EINTERNAL else SNFS_EBADOP))
                   (andthen (c_close E fd) c_free)
                 else
                   andthen (must (stack_ok E (8 * unat (ra_count args))))
                   (bnd (if offset <s st_size st then c_read E fd (ra_count args) else ret (Inr []))
                    (\<lambda>r. case r of
                      Inl errno \<Rightarrow>
                        andthen (handle_error SNFS_EINTERNAL) (andthen (c_close E fd) c_free)
                    | Inr buff \<Rightarrow>
                        andthen (c_malloc E (20 + length buff))
                        (andthen (send_reply (Rep_read
                          \<lparr>rr_count = of_nat (length buff),
                           rr_eof = (if (of_nat (length buff) :: i64) <s ra_count args then 1 else 0),
                           rr_data = buff\<rparr>))
                        (andthen (c_close E fd)
                        (andthen c_free c_free))))))))))"

definition handle_write :: "('w, 'd) env \<Rightarrow> write_args \<Rightarrow> ('w, 'd, unit) srv" where
  "handle_write E args =
     bnd (get_file E (wa_file args)) (\<lambda>file. case file of
       None \<Rightarrow> handle_error SNFS_ENOENT
     | Some m \<Rightarrow>
         bnd (as_cstr m) (\<lambda>file_path.
         bnd (c_opening (px_open E file_path O_WRONLY)) (\<lambda>r. case r of
           Inl errno \<Rightarrow> andthen (handle_error (err_noent errno)) c_free
         | Inr fd \<Rightarrow>
             bnd (c_lseek E fd (wa_offset args)) (\<lambda>offset.
             if offset \<noteq> wa_offset args then
               andthen (handle_error (if offset <s 0 then SNFS_EINTERNAL else SNFS_EBADOP))
               (andthen (c_close E fd) c_free)
             else
               \<comment> \<open>nothing compares \<open>count\<close> with the bytes the message carries\<close>
               andthen (must (unat (wa_count args) \<le> length (wa_data args)))
               (bnd (c_write E fd (take (unat (wa_count args)) (wa_data args))) (\<lambda>r. case r of
                  Inl errno \<Rightarrow>
                    andthen (handle_error SNFS_EINTERNAL) (andthen (c_close E fd) c_free)
                | Inr n \<Rightarrow>
                    andthen (send_reply (Rep_write n))
                    (andthen (c_close E fd) c_free)))))))"

text \<open>One attribute of \<open>handle_setattr\<close>: the call is made if its bit is requested.\<close>

definition set_one ::
    "u64 \<Rightarrow> u64 \<Rightarrow> ('w \<Rightarrow> errno option \<times> 'w) \<Rightarrow> u64 \<Rightarrow> ('w, 'd, u64) srv" where
  "set_one which bt call which_set =
     (if which AND bt \<noteq> 0
      then bnd (c_status call) (\<lambda>r. ret (if r = None then which_set OR bt else which_set))
      else ret which_set)"

text \<open>\<open>utimes\<close>, and \<open>utime\<close> with whole seconds when it fails.\<close>

definition set_times :: "('w, 'd) env \<Rightarrow> path \<Rightarrow> setattr_args \<Rightarrow> 'w \<Rightarrow> errno option \<times> 'w" where
  "set_times E file_path args w =
     (case px_utimes E file_path (sa_atime args) (sa_mtime args) w of
        (None, w') \<Rightarrow> (None, w')
      | (Some _, w') \<Rightarrow>
          px_utime E file_path (tv_seconds (sa_atime args)) (tv_seconds (sa_mtime args)) w')"

text \<open>The five attributes in turn; the result is the set of the bits that took effect.\<close>

definition set_attributes :: "('w, 'd) env \<Rightarrow> path \<Rightarrow> setattr_args \<Rightarrow> ('w, 'd, u64) srv" where
  "set_attributes E file_path args =
     bnd (set_one (sa_which args) SNFS_SETMODE
            (px_chmod E file_path (ucast (sa_mode args))) 0) (\<lambda>s1.
     bnd (set_one (sa_which args) SNFS_SETUID
            (px_chown E file_path (ucast (sa_uid args)) (-1)) s1) (\<lambda>s2.
     bnd (set_one (sa_which args) SNFS_SETGID
            (px_chown E file_path (-1) (ucast (sa_gid args))) s2) (\<lambda>s3.
     bnd (set_one (sa_which args) SNFS_SETSIZE
            (px_truncate E file_path (sa_size args)) s3) (\<lambda>s4.
     set_one (sa_which args) SNFS_SETTIMES (set_times E file_path args) s4))))"

definition handle_setattr :: "('w, 'd) env \<Rightarrow> setattr_args \<Rightarrow> ('w, 'd, unit) srv" where
  "handle_setattr E args =
     bnd (get_file E (sa_file args)) (\<lambda>file. case file of
       None \<Rightarrow> handle_error SNFS_ENOENT
     | Some m \<Rightarrow>
         bnd (as_cstr m) (\<lambda>file_path.
         bnd (c_stat E file_path) (\<lambda>r. case r of
           Inl errno \<Rightarrow> andthen c_free (handle_error (err_noent errno))
         | Inr st \<Rightarrow>
             bnd (set_attributes E file_path args) (\<lambda>which_set.
             andthen (send_reply (Rep_setattr which_set)) c_free))))"

definition handle_unimplemented :: "u32 \<Rightarrow> ('w, 'd, unit) srv" where
  "handle_unimplemented msg_type = handle_error SNFS_ENOTIMPL"

definition handle_create :: "('w, 'd) env \<Rightarrow> create_args \<Rightarrow> ('w, 'd, unit) srv" where
  "handle_create E args =
     bnd (as_cstr (ca_filename args)) (\<lambda>file_path.
     bnd (c_opening (px_creat E file_path (ca_mode args))) (\<lambda>r. case r of
       Inl errno \<Rightarrow> handle_error (err_access errno)
     | Inr fd \<Rightarrow>
         \<comment> \<open>the descriptor is dropped here\<close>
         bnd (name_find_or_insert E file_path) (\<lambda>handle.
         send_reply (Rep_create handle))))"

definition handle_remove :: "('w, 'd) env \<Rightarrow> remove_args \<Rightarrow> ('w, 'd, unit) srv" where
  "handle_remove E args =
     bnd (get_file E (rm_fh args)) (\<lambda>file. case file of
       None \<Rightarrow> handle_error SNFS_ENOENT
     | Some m \<Rightarrow>
         bnd (as_cstr m) (\<lambda>path.
         bnd (c_stat E path) (\<lambda>r. case r of
           Inl errno \<Rightarrow> andthen (handle_error (err_noent errno)) c_free
         | Inr st \<Rightarrow>
             if rm_is_dir args \<noteq> 0 \<and> \<not> S_ISDIR (st_mode st) then
               andthen (handle_error SNFS_ENOTDIR) c_free
             else
               bnd (c_status (if rm_is_dir args \<noteq> 0 then px_rmdir E path else px_unlink E path))
               (\<lambda>r. case r of
                 Some errno \<Rightarrow> andthen (handle_error (err_dir errno)) c_free
               | None \<Rightarrow>
                   bnd (name_remove E path) (\<lambda>ok.
                   if \<not> ok then andthen (handle_error SNFS_EINTERNAL) c_free
                   else andthen (send_reply Rep_remove) c_free)))))"

definition handle_rename :: "('w, 'd) env \<Rightarrow> rename_args \<Rightarrow> ('w, 'd, unit) srv" where
  "handle_rename E args =
     bnd (get_file E (rn_fh args)) (\<lambda>file. case file of
       None \<Rightarrow> handle_error SNFS_ENOENT
     | Some m \<Rightarrow>
         bnd (as_cstr m) (\<lambda>old_path.
         bnd (as_cstr (rn_filename args)) (\<lambda>new_path.
         bnd (c_status (px_rename E old_path new_path)) (\<lambda>r. case r of
           Some errno \<Rightarrow> andthen (handle_error (err_access errno)) c_free
         | None \<Rightarrow>
             bnd (name_find_or_insert E new_path) (\<lambda>handle.
             bnd (name_remove E old_path) (\<lambda>ok.
             if \<not> ok then andthen (handle_error SNFS_EINTERNAL) c_free
             else andthen (send_reply (Rep_rename handle)) c_free))))))"

definition handle_mkdir :: "('w, 'd) env \<Rightarrow> mkdir_args \<Rightarrow> ('w, 'd, unit) srv" where
  "handle_mkdir E args =
     bnd (as_cstr (mk_dirname args)) (\<lambda>dir_path.
     bnd (c_status (px_mkdir E dir_path (mk_mode args))) (\<lambda>r. case r of
       Some errno \<Rightarrow> handle_error (err_access errno)
     | None \<Rightarrow>
         bnd (name_find_or_insert E dir_path) (\<lambda>handle.
         send_reply (Rep_mkdir handle))))"

section \<open>One reply, and what is left behind\<close>

text \<open>
  \<open>answered c k n s s'\<close>: one reply was sent, with the message type \<open>c\<close> or an error, \<open>k\<close> heap blocks
  and \<open>n\<close> descriptors more are in use than before.
\<close>

definition answered :: "u32 \<Rightarrow> int \<Rightarrow> nat \<Rightarrow> ('w, 'd) server \<Rightarrow> ('w, 'd) server \<Rightarrow> bool" where
  "answered c k n s s' \<longleftrightarrow>
     (\<exists>r. sent s' = sent s @ [r] \<and> (rep_code r = c \<or> (\<exists>e. r = Rep_error e))) \<and>
     live s' = live s + k \<and> (\<exists>l. fds s' = l @ fds s \<and> length l = n)"

definition failed :: "('w, 'd) server \<Rightarrow> bool" where
  "failed s' \<longleftrightarrow> (\<exists>e. last (sent s') = Rep_error e)"

lemma wp_send_reply [simp, wp_rules]:
  "wp (send_reply r) Q s = Q () (s\<lparr>sent := sent s @ [r]\<rparr>)"
  by (simp add: send_reply_def)

lemma twp_send_reply [simp, twp_rules]:
  "twp (send_reply r) Q s = Q () (s\<lparr>sent := sent s @ [r]\<rparr>)"
  by (simp add: send_reply_def)

lemma wp_handle_error [simp, wp_rules]:
  "wp (handle_error e) Q s = Q () (s\<lparr>sent := sent s @ [Rep_error e]\<rparr>)"
  by (simp add: handle_error_def)

lemma twp_handle_error [simp, twp_rules]:
  "twp (handle_error e) Q s = Q () (s\<lparr>sent := sent s @ [Rep_error e]\<rparr>)"
  by (simp add: handle_error_def)

lemma handle_noop_shape: "wp handle_noop (\<lambda>_. answered (msg_code NOOP) 0 0 s) s"
  by (simp add: handle_noop_def answered_def)

lemma handle_mount_shape: "wp (handle_mount E) (\<lambda>_. answered (msg_code MOUNT) 0 0 s) s"
  unfolding handle_mount_def wp_rules
  by (rule wp_mono [OF name_find_or_insert_frame]) (simp add: db_only_def answered_def)

lemma handle_getattr_shape: "wp (handle_getattr E a) (\<lambda>_. answered (msg_code GETATTR) 0 0 s) s"
  unfolding handle_getattr_def wp_rules
  by (rule wp_mono [OF get_file_frame])
    (auto simp: db_only_def answered_def split: option.splits sum.splits)

declare readdir_loop.simps [simp del]

text \<open>The loop touches nothing but the directory stream.\<close>

definition world_only :: "('w, 'd) server \<Rightarrow> ('w, 'd) server \<Rightarrow> bool" where
  "world_only s s' \<longleftrightarrow> live s' = live s \<and> fds s' = fds s \<and> sent s' = sent s \<and> rnd s' = rnd s \<and>
     dbst s' = dbst s \<and> DBP s' = DBP s"

lemma readdir_loop_frame: "wp (readdir_loop E dir k entries) (\<lambda>_. world_only s) s"
proof (induction k arbitrary: s entries)
  case 0
  then show ?case
    by (subst readdir_loop.simps) (auto simp: world_only_def split: dir_result.splits)
next
  case (Suc k)
  then show ?case
    by (subst readdir_loop.simps)
      (auto simp: world_only_def split: dir_result.splits intro!: wp_mono [OF Suc.IH])
qed

text \<open>The directory stream of a successful \<open>opendir\<close> is never closed.\<close>

lemma handle_readdir_shape:
  "wp (handle_readdir E a) (\<lambda>_ s'. answered (msg_code READDIR) 0 1 s s' \<or>
     failed s' \<and> answered (msg_code READDIR) 0 0 s s') s"
  unfolding handle_readdir_def wp_rules
  by (rule wp_mono [OF get_file_frame])
    (auto simp: db_only_def answered_def failed_def world_only_def
      split: option.splits sum.splits intro!: wp_mono [OF readdir_loop_frame])

lemma handle_lookup_shape: "wp (handle_lookup E a) (\<lambda>_. answered (msg_code LOOKUP) 0 0 s) s"
  unfolding handle_lookup_def wp_rules
  by (rule wp_mono [OF get_file_frame])
    (auto simp: db_only_def answered_def split: option.splits sum.splits
      intro!: wp_mono [OF name_find_or_insert_frame])

lemma handle_read_shape: "wp (handle_read E a) (\<lambda>_. answered (msg_code READ) 0 0 s) s"
  unfolding handle_read_def wp_rules
  by (rule wp_mono [OF get_file_frame])
    (auto simp: db_only_def answered_def split: option.splits sum.splits if_splits)

lemma handle_write_shape: "wp (handle_write E a) (\<lambda>_. answered (msg_code WRITE) 0 0 s) s"
  unfolding handle_write_def wp_rules
  by (rule wp_mono [OF get_file_frame])
    (auto simp: db_only_def answered_def split: option.splits sum.splits if_splits)

lemma set_one_frame: "wp (set_one which b call w) (\<lambda>_. world_only s) s"
  by (auto simp: set_one_def world_only_def)

lemma set_attributes_frame: "wp (set_attributes E p a) (\<lambda>_. world_only s) s"
  unfolding set_attributes_def wp_rules
  by (rule wp_mono [OF set_one_frame], rule wp_mono [OF set_one_frame],
      rule wp_mono [OF set_one_frame], rule wp_mono [OF set_one_frame],
      rule wp_mono [OF set_one_frame]) (simp add: world_only_def)

lemma handle_setattr_shape: "wp (handle_setattr E a) (\<lambda>_. answered (msg_code SETATTR) 0 0 s) s"
  unfolding handle_setattr_def wp_rules
  by (rule wp_mono [OF get_file_frame])
    (auto simp: db_only_def answered_def world_only_def split: option.splits sum.splits
      intro!: wp_mono [OF set_attributes_frame])

text \<open>The descriptor of a successful \<open>creat\<close> is never closed.\<close>

lemma handle_create_shape:
  "wp (handle_create E a) (\<lambda>_ s'. \<not> failed s' \<and> answered (msg_code CREATE) 0 1 s s' \<or>
     failed s' \<and> answered (msg_code CREATE) 0 0 s s') s"
  unfolding handle_create_def wp_rules
  by (auto simp: db_only_def answered_def failed_def split: sum.splits
      intro!: wp_mono [OF name_find_or_insert_frame])

text \<open>The block that \<open>name_remove\<close> fetches stays allocated.\<close>

lemma handle_remove_shape:
  "wp (handle_remove E a) (\<lambda>_ s'. answered (msg_code REMOVE) 1 0 s s' \<or>
     failed s' \<and> answered (msg_code REMOVE) 0 0 s s') s"
  unfolding handle_remove_def wp_rules
  by (rule wp_mono [OF get_file_frame])
    (auto simp: db_only_def answered_def failed_def split: option.splits sum.splits
      intro!: wp_mono [OF name_remove_frame])

lemma handle_rename_shape:
  "wp (handle_rename E a) (\<lambda>_ s'. answered (msg_code RENAME) 1 0 s s' \<or>
     failed s' \<and> answered (msg_code RENAME) 0 0 s s') s"
  unfolding handle_rename_def wp_rules
  by (rule wp_mono [OF get_file_frame])
    (auto simp: db_only_def answered_def failed_def split: option.splits sum.splits
      intro!: wp_mono [OF name_find_or_insert_frame] wp_mono [OF name_remove_frame])

lemma handle_mkdir_shape: "wp (handle_mkdir E a) (\<lambda>_. answered (msg_code MKDIR) 0 0 s) s"
  unfolding handle_mkdir_def wp_rules
  by (auto simp: db_only_def answered_def split: option.splits
      intro!: wp_mono [OF name_find_or_insert_frame])

end
