(* ===== verification/Handler_Spec.thy ===== *)
theory Handler_Spec
  imports Handlers
begin

text \<open>
  What the handlers do when the database represents a handle table \<open>f\<close> and the environment
  works. Every lemma is total: the handler returns. A handle that is not in the table is answered with
  \<open>SNFS_ENOENT\<close> and has no other effect (\<open>stale_handle\<close>); on a handle of the table the reply
  and the effect on the file system are those of the system calls on its path, and the table
  changes as the protocol says: LOOKUP, CREATE, MKDIR and MOUNT insert a path, REMOVE forgets one,
  RENAME inserts the new path and forgets the old one, the others leave it alone.
\<close>

definition handled ::
    "('w, 'd) env \<Rightarrow> ('w, 'd) server \<Rightarrow> table \<Rightarrow> snfs_rep \<Rightarrow> ('w, 'd) server \<Rightarrow> table \<Rightarrow> bool" where
  "handled E s f r s' f' \<longleftrightarrow> db_repr E s' f' \<and> sent s' = sent s @ [r] \<and>
     (\<forall>m. db_clear s f m \<longrightarrow> db_clear s' f' m)"

lemma db_repr_cong: "dbst s' = dbst s \<Longrightarrow> db_repr E s' f = db_repr E s f"
  by (simp add: db_repr_def)

text \<open>The table and the draws do not depend on the other fields of the state.\<close>

lemma repr_upd [simp]:
  "db_repr E (s\<lparr>live := l\<rparr>) f = db_repr E s f"
  "db_repr E (s\<lparr>world := w\<rparr>) f = db_repr E s f"
  "db_repr E (s\<lparr>sent := t\<rparr>) f = db_repr E s f"
  "db_repr E (s\<lparr>fds := l'\<rparr>) f = db_repr E s f"
  by (simp_all add: db_repr_def)

lemma clear_upd [simp]:
  "db_clear (s\<lparr>live := l\<rparr>) f n = db_clear s f n"
  "db_clear (s\<lparr>world := w\<rparr>) f n = db_clear s f n"
  "db_clear (s\<lparr>sent := t\<rparr>) f n = db_clear s f n"
  "db_clear (s\<lparr>fds := l'\<rparr>) f n = db_clear s f n"
  by (simp_all add: db_clear_def)

lemma fresh_upd [simp]:
  "fresh_draw E (s\<lparr>live := l\<rparr>) = fresh_draw E s"
  "fresh_draw E (s\<lparr>world := w\<rparr>) = fresh_draw E s"
  "fresh_draw E (s\<lparr>sent := t\<rparr>) = fresh_draw E s"
  "fresh_draw E (s\<lparr>fds := l'\<rparr>) = fresh_draw E s"
  by (simp_all add: fresh_draw_def)

lemma db_clear_cong: "rnd s' = rnd s \<Longrightarrow> db_clear s' f n = db_clear s f n"
  by (simp add: db_clear_def)

lemma table_stepD:
  assumes "table_step E k s f s' f'"
  shows "db_repr E s' f'" "world s' = world s" "fds s' = fds s" "sent s' = sent s"
    "live s' = live s + k" "db_clear s f m \<Longrightarrow> db_clear s' f' m"
  using assms by (simp_all add: table_step_def db_only_def)

text \<open>A handler that resolves a live handle goes on with its path.\<close>

lemma get_file_live:
  assumes "env_ok E" "db_repr E s f" "f h = Some n"
    and "\<And>s'. table_step E 1 s f s' f \<Longrightarrow> rnd s' = rnd s \<Longrightarrow>
      db_view E (dbst s') = db_view E (dbst s) \<Longrightarrow> twp (g n) Q s'"
  shows "twp (bnd (get_file E h) (\<lambda>file. case file of None \<Rightarrow> k | Some m \<Rightarrow> bnd (as_cstr m) g)) Q s"
proof -
  have "cstring n" using fhdb.repr_cstring [OF assms(2)] assms(3) by (auto intro: ranI)
  then show ?thesis
    unfolding twp_rules
    by (intro twp_mono [OF get_file_spec [OF assms(1,2) fhdb.genuine_member [OF assms(2,3)]]])
      (use assms(3,4) in auto)
qed

lemma get_file_stale:
  assumes "env_ok E" "db_repr E s f" "genuine_handle f h" "f h = None"
  shows "twp (bnd (get_file E h) (\<lambda>file. case file of None \<Rightarrow> handle_error SNFS_ENOENT | Some m \<Rightarrow> g m))
    (\<lambda>_ s'. handled E s f (Rep_error SNFS_ENOENT) s' f \<and> world s' = world s \<and> fds s' = fds s \<and>
      live s' = live s) s"
  unfolding twp_rules
  by (rule twp_mono [OF get_file_spec [OF assms(1-3)]])
    (use assms(4) in \<open>auto simp: handled_def table_step_def db_only_def\<close>)

definition stale_effect :: "('w, 'd) env \<Rightarrow> ('w, 'd) server \<Rightarrow> table \<Rightarrow> unit \<Rightarrow> ('w, 'd) server \<Rightarrow> bool" where
  "stale_effect E s f u s' \<longleftrightarrow> handled E s f (Rep_error SNFS_ENOENT) s' f \<and> world s' = world s \<and>
     fds s' = fds s \<and> live s' = live s"

lemma stale_handle:
  assumes "env_ok E" "db_repr E s f" "genuine_handle f h" "f h = None"
  shows "ga_fh ga = h \<Longrightarrow> twp (handle_getattr E ga) (stale_effect E s f) s"
    and "rd_dir rd = h \<Longrightarrow> twp (handle_readdir E rd) (stale_effect E s f) s"
    and "la_dir la = h \<Longrightarrow> twp (handle_lookup E la) (stale_effect E s f) s"
    and "ra_file ra = h \<Longrightarrow> twp (handle_read E ra) (stale_effect E s f) s"
    and "wa_file wa = h \<Longrightarrow> twp (handle_write E wa) (stale_effect E s f) s"
    and "sa_file sa = h \<Longrightarrow> twp (handle_setattr E sa) (stale_effect E s f) s"
    and "rm_fh rm = h \<Longrightarrow> twp (handle_remove E rm) (stale_effect E s f) s"
    and "rn_fh rn = h \<Longrightarrow> twp (handle_rename E rn) (stale_effect E s f) s"
  unfolding handle_getattr_def handle_readdir_def handle_lookup_def handle_read_def
    handle_write_def handle_setattr_def handle_remove_def handle_rename_def
  by (rule twp_mono [OF get_file_stale]; use assms in \<open>simp add: stale_effect_def\<close>)+

lemma world_onlyD:
  "world_only s s' \<Longrightarrow> db_repr E s' f = db_repr E s f"
  "world_only s s' \<Longrightarrow> db_clear s' f m = db_clear s f m"
  by (simp_all add: world_only_def db_repr_def db_clear_def)

section \<open>Requests that leave the table alone\<close>

definition getattr_reply :: "errno + stat \<Rightarrow> fattr \<Rightarrow> snfs_rep" where
  "getattr_reply r attr =
     (case r of Inl e \<Rightarrow> Rep_error (err_noent e) | Inr st \<Rightarrow> Rep_getattr (stat_to_fattr st attr))"

lemma handle_getattr_spec:
  assumes "env_ok E" "db_repr E s f" "f (ga_fh a) = Some n"
  shows "twp (handle_getattr E a) (\<lambda>_ s'.
    handled E s f (getattr_reply (px_stat E n (world s)) (stack_fattr E (world s))) s' f \<and> world s' = world s) s"
  unfolding handle_getattr_def
  by (rule get_file_live [OF assms])
    (auto simp: handled_def getattr_reply_def table_step_def db_only_def split: sum.splits)

text \<open>
  SETATTR as a function on the file system: the bits that were requested and whose call
  succeeded.
\<close>

definition apply_one ::
    "u64 \<Rightarrow> u64 \<Rightarrow> ('w \<Rightarrow> errno option \<times> 'w) \<Rightarrow> u64 \<times> 'w \<Rightarrow> u64 \<times> 'w" where
  "apply_one which bt call = (\<lambda>(done, w).
     if which AND bt = 0 then (done, w)
     else (case call w of (None, w') \<Rightarrow> (done OR bt, w') | (Some _, w') \<Rightarrow> (done, w')))"

definition apply_setattr :: "('w, 'd) env \<Rightarrow> path \<Rightarrow> setattr_args \<Rightarrow> 'w \<Rightarrow> u64 \<times> 'w" where
  "apply_setattr E p a w =
     (apply_one (sa_which a) SNFS_SETTIMES (set_times E p a) \<circ>
      apply_one (sa_which a) SNFS_SETSIZE (px_truncate E p (sa_size a)) \<circ>
      apply_one (sa_which a) SNFS_SETGID (px_chown E p (-1) (ucast (sa_gid a))) \<circ>
      apply_one (sa_which a) SNFS_SETUID (px_chown E p (ucast (sa_uid a)) (-1)) \<circ>
      apply_one (sa_which a) SNFS_SETMODE (px_chmod E p (ucast (sa_mode a)))) (0, w)"

lemma set_one_apply:
  "twp (set_one which bt call d) (\<lambda>d' s'. (d', world s') = apply_one which bt call (d, world s) \<and>
     world_only s s') s"
  by (auto simp: set_one_def apply_one_def world_only_def split: option.splits prod.splits)

lemma set_attributes_apply:
  "twp (set_attributes E p a) (\<lambda>d' s'. (d', world s') = apply_setattr E p a (world s) \<and>
     world_only s s') s"
  unfolding set_attributes_def twp_rules
  by (rule twp_mono [OF set_one_apply], rule twp_mono [OF set_one_apply],
      rule twp_mono [OF set_one_apply], rule twp_mono [OF set_one_apply],
      rule twp_mono [OF set_one_apply])
    (auto simp: apply_setattr_def world_only_def)

definition setattr_reply :: "errno + stat \<Rightarrow> u64 \<times> 'w \<Rightarrow> snfs_rep" where
  "setattr_reply r x =
     (case r of Inl e \<Rightarrow> Rep_error (err_noent e) | Inr st \<Rightarrow> Rep_setattr (fst x))"

lemma handle_setattr_spec:
  assumes "env_ok E" "db_repr E s f" "f (sa_file a) = Some n"
  shows "twp (handle_setattr E a) (\<lambda>_ s'.
    handled E s f (setattr_reply (px_stat E n (world s)) (apply_setattr E n a (world s))) s' f \<and>
    world s' = (case px_stat E n (world s) of Inl e \<Rightarrow> world s
      | Inr st \<Rightarrow> snd (apply_setattr E n a (world s)))) s"
  unfolding handle_setattr_def
proof (rule get_file_live [OF assms], goal_cases)
  case (1 s')
  note D = table_stepD [OF 1(1)]
  show ?case
  proof (cases "px_stat E n (world s)")
    case (Inl e)
    with D show ?thesis
      by (auto simp: handled_def setattr_reply_def)
  next
    case (Inr st)
    have "handled E s f (Rep_setattr d') (s''\<lparr>sent := sent s'' @ [Rep_setattr d'], live := l\<rparr>) f"
      if "world_only s' s''" for d' s'' l
      using that D world_onlyD(1) [OF that, of E f] world_onlyD(2) [OF that] by (simp add: handled_def world_only_def)
    with Inr D(2) show ?thesis
      by (auto simp: setattr_reply_def intro!: twp_mono [OF set_attributes_apply];
          metis fst_conv snd_conv)
  qed
qed

section \<open>Requests that change the table\<close>

text \<open>The path of a name is handed out, and a handle for it returned.\<close>

lemma handle_mount_spec:
  assumes "env_ok E" "db_repr E s f" "fresh_draw E s"
  shows "twp (handle_mount E) (\<lambda>_ s'. \<exists>h f'.
    handled E s f (Rep_mount h) s' f' \<and> inserted root_path h f f' \<and> world s' = world s) s"
proof -
  have "db_clear s f root_path" "cstring root_path"
    by (auto simp: root_path_def cstring_def intro: db_clear_length)
  then show ?thesis
    unfolding handle_mount_def twp_rules
    by (intro twp_mono [OF name_find_or_insert_spec [OF assms(1,2) _ _ assms(3)]])
      (auto simp: handled_def table_step_def db_only_def)
qed

text \<open>
  LOOKUP of a name in the directory of a live handle. The reply carries a handle that the new
  table maps to the joined path.
\<close>

lemma path_join_cstring: "cstring d \<Longrightarrow> cstring n \<Longrightarrow> cstring (path_join d n)"
  by (auto simp: path_join_def cstring_def)

lemma fresh_draw_cong:
  "rnd s' = rnd s \<Longrightarrow> db_view E (dbst s') = db_view E (dbst s) \<Longrightarrow> fresh_draw E s' = fresh_draw E s"
  by (simp add: fresh_draw_def)

definition lookup_guard ::
    "('w, 'd) env \<Rightarrow> 'w \<Rightarrow> path \<Rightarrow> path \<Rightarrow> snfs_error + stat" where
  "lookup_guard E w d n =
     (case px_stat E d w of Inl e \<Rightarrow> Inl (err_noent e)
      | Inr st1 \<Rightarrow> if \<not> S_ISDIR (st_mode st1) then Inl SNFS_ENOTDIR
         else (case px_stat E (path_join d n) w of Inl e \<Rightarrow> Inl (err_lookup e) | Inr st2 \<Rightarrow> Inr st2))"

lemma handle_lookup_found:
  assumes "env_ok E" "db_repr E s f" "f (la_dir a) = Some d" "d \<noteq> []"
    and "cstr_of (la_filename a) = Some n" "lookup_guard E (world s) d n = Inr st"
    and "db_clear s f (path_join d n)" "fresh_draw E s"
  shows "twp (handle_lookup E a) (\<lambda>_ s'. \<exists>h f'.
    handled E s f (Rep_lookup \<lparr>lr_handle = h, lr_attributes = stat_to_fattr st zero_fattr\<rparr>) s' f' \<and>
    inserted (path_join d n) h f f' \<and> world s' = world s) s"
  unfolding handle_lookup_def
proof (rule get_file_live [OF assms(1,2,3)], goal_cases)
  case (1 s')
  note D = table_stepD [OF 1(1)]
  let ?s = "s'\<lparr>live := live s' + 1\<rparr>"
  obtain st1 where st: "px_stat E d (world s) = Inr st1" "S_ISDIR (st_mode st1)"
      "px_stat E (path_join d n) (world s) = Inr st"
    using assms(6) by (auto simp: lookup_guard_def split: sum.splits if_splits)
  have "db_repr E ?s f" "db_clear ?s f (path_join d n)" "fresh_draw E ?s"
    using D(1) D(6) [OF assms(7)] assms(8) fresh_draw_cong [of s' s E] 1
    by simp_all
  moreover have "cstring (path_join d n)"
    using fhdb.repr_cstring [OF assms(2)] assms(3,5)
    by (auto intro: ranI cstr_of_cstring path_join_cstring)
  ultimately have *: "twp (name_find_or_insert E (path_join d n))
      (\<lambda>h s''. \<exists>f'. table_step E 0 ?s f s'' f' \<and> inserted (path_join d n) h f f') ?s"
    using assms(1) by (intro name_find_or_insert_spec)
  have "malloc_ok E k w" for k w using assms(1) by (simp add: env_ok_def memory_available_def)
  with st D(1-4,6) assms(4,5) show ?case
    by (auto simp: handled_def table_step_def db_only_def intro!: twp_mono [OF *]; blast)
qed

lemma handle_lookup_error:
  assumes "env_ok E" "db_repr E s f" "f (la_dir a) = Some d" "d \<noteq> []"
    and "cstr_of (la_filename a) = Some n" "lookup_guard E (world s) d n = Inl e"
  shows "twp (handle_lookup E a) (\<lambda>_ s'. handled E s f (Rep_error e) s' f \<and> world s' = world s) s"
  unfolding handle_lookup_def
proof (rule get_file_live [OF assms(1,2,3)], goal_cases)
  case (1 s')
  note D = table_stepD [OF 1(1)]
  have "malloc_ok E k w" for k w using assms(1) by (simp add: env_ok_def memory_available_def)
  with D assms(4-6) show ?case
    by (auto simp: lookup_guard_def handled_def split: sum.splits if_splits)
qed

text \<open>CREATE and MKDIR: the call of the system, then a handle for the path of the request.\<close>

lemma handle_create_made:
  assumes "env_ok E" "db_repr E s f" "cstr_of (ca_filename a) = Some n"
    and "px_creat E n (ca_mode a) (world s) = (Inr fd, w)" "db_clear s f n" "fresh_draw E s"
  shows "twp (handle_create E a) (\<lambda>_ s'. \<exists>h f'. handled E s f (Rep_create h) s' f' \<and>
    inserted n h f f' \<and> world s' = w \<and> fds s' = fd # fds s) s"
proof -
  let ?s = "s\<lparr>world := w, fds := fd # fds s\<rparr>"
  have *: "twp (name_find_or_insert E n)
      (\<lambda>h s''. \<exists>f'. table_step E 0 ?s f s'' f' \<and> inserted n h f f') ?s"
    using assms by (intro name_find_or_insert_spec) (auto intro: cstr_of_cstring)
  show ?thesis
    unfolding handle_create_def
    using assms(3,4) by (auto simp: handled_def table_step_def db_only_def intro!: twp_mono [OF *])
qed

lemma handle_create_failed:
  assumes "db_repr E s f" "cstr_of (ca_filename a) = Some n"
    and "px_creat E n (ca_mode a) (world s) = (Inl e, w)"
  shows "twp (handle_create E a) (\<lambda>_ s'. handled E s f (Rep_error (err_access e)) s' f \<and>
    world s' = w \<and> fds s' = fds s) s"
  unfolding handle_create_def using assms by (auto simp: handled_def)

lemma handle_mkdir_made:
  assumes "env_ok E" "db_repr E s f" "cstr_of (mk_dirname a) = Some n"
    and "px_mkdir E n (mk_mode a) (world s) = (None, w)" "db_clear s f n" "fresh_draw E s"
  shows "twp (handle_mkdir E a) (\<lambda>_ s'. \<exists>h f'. handled E s f (Rep_mkdir h) s' f' \<and>
    inserted n h f f' \<and> world s' = w) s"
proof -
  let ?s = "s\<lparr>world := w\<rparr>"
  have *: "twp (name_find_or_insert E n)
      (\<lambda>h s''. \<exists>f'. table_step E 0 ?s f s'' f' \<and> inserted n h f f') ?s"
    using assms by (intro name_find_or_insert_spec) (auto intro: cstr_of_cstring)
  show ?thesis
    unfolding handle_mkdir_def
    using assms(3,4) by (auto simp: handled_def table_step_def db_only_def intro!: twp_mono [OF *])
qed

lemma handle_mkdir_failed:
  assumes "db_repr E s f" "cstr_of (mk_dirname a) = Some n"
    and "px_mkdir E n (mk_mode a) (world s) = (Some e, w)"
  shows "twp (handle_mkdir E a) (\<lambda>_ s'. handled E s f (Rep_error (err_access e)) s' f \<and>
    world s' = w) s"
  unfolding handle_mkdir_def using assms by (auto simp: handled_def)

text \<open>REMOVE as a function on the file system: the error of the reply, if any.\<close>

definition remove_result ::
    "('w, 'd) env \<Rightarrow> path \<Rightarrow> bool \<Rightarrow> 'w \<Rightarrow> snfs_error option \<times> 'w" where
  "remove_result E n is_dir w =
     (case px_stat E n w of Inl e \<Rightarrow> (Some (err_noent e), w)
      | Inr st \<Rightarrow> if is_dir \<and> \<not> S_ISDIR (st_mode st) then (Some SNFS_ENOTDIR, w)
         else (case (if is_dir then px_rmdir E n else px_unlink E n) w of
           (Some e, w') \<Rightarrow> (Some (err_dir e), w') | (None, w') \<Rightarrow> (None, w')))"

lemma handle_remove_spec:
  assumes "env_ok E" "db_repr E s f" "f (rm_fh a) = Some n" "db_clear s f n"
    and "remove_result E n (rm_is_dir a \<noteq> 0) (world s) = (r, w)"
  shows "twp (handle_remove E a) (\<lambda>_ s'. world s' = w \<and>
    (case r of Some e \<Rightarrow> handled E s f (Rep_error e) s' f
     | None \<Rightarrow> handled E s f Rep_remove s' (forget n f))) s"
  unfolding handle_remove_def
proof (rule get_file_live [OF assms(1-3)], goal_cases)
  case (1 s')
  note D = table_stepD(1-4,6) [OF 1(1)]
  have n: "n \<in> ran f" using assms(3) by (rule ranI)
  have *: "twp (name_remove E n) (\<lambda>b s''. b \<and> table_step E 1 (s'\<lparr>world := w\<rparr>) f s'' (forget n f))
      (s'\<lparr>world := w\<rparr>)"
    using D assms(1,4) n by (intro name_remove_spec) auto
  show ?case
    using assms(5) D
    by (auto simp: remove_result_def handled_def table_step_def db_only_def
        split: sum.splits if_splits prod.splits option.splits intro!: twp_mono [OF *])
qed

text \<open>
  RENAME of the path \<open>n\<close> of a live handle to \<open>m\<close>. The table gets the new path, then loses the old
  one; when the two are the same path nothing of it remains in the table.
\<close>

lemma handle_rename_done:
  assumes "env_ok E" "db_repr E s f" "f (rn_fh a) = Some n" "cstr_of (rn_filename a) = Some m"
    and "px_rename E n m (world s) = (None, w)" "db_clear s f n" "db_clear s f m" "fresh_draw E s"
  shows "twp (handle_rename E a) (\<lambda>_ s'. \<exists>h f'. handled E s f (Rep_rename h) s' (forget n f') \<and>
    inserted m h f f' \<and> world s' = w) s"
  unfolding handle_rename_def
proof (rule get_file_live [OF assms(1-3)], goal_cases)
  case (1 s')
  note D = table_stepD(1-4,6) [OF 1(1)]
  let ?s = "s'\<lparr>world := w\<rparr>"
  have *: "twp (name_find_or_insert E m)
      (\<lambda>h s''. \<exists>f'. table_step E 0 ?s f s'' f' \<and> inserted m h f f') ?s"
    using D assms(1,4,7,8) fresh_draw_cong [of s' s E] 1
    by (intro name_find_or_insert_spec) (auto intro: cstr_of_cstring)
  have **: "twp (name_remove E n) (\<lambda>b s4. b \<and> table_step E 1 s3 f' s4 (forget n f')) s3"
    if "table_step E 0 ?s f s3 f'" "inserted m h f f'" for s3 f' h
  proof (rule name_remove_spec)
    show "db_clear s3 f' n"
      using table_stepD(6) [OF that(1), of n] D(5) [OF assms(6)] by simp
    show "n \<in> ran f'"
      using that(2) assms(3) by (auto simp: inserted_ran intro: ranI)
  qed (use assms(1) table_stepD(1) [OF that(1)] in auto)
  show ?case
    using assms(4,5) D
    by (auto simp: handled_def table_step_def db_only_def
        intro!: twp_mono [OF *] twp_mono [OF **]; blast)
qed

lemma handle_rename_failed:
  assumes "env_ok E" "db_repr E s f" "f (rn_fh a) = Some n" "cstr_of (rn_filename a) = Some m"
    and "px_rename E n m (world s) = (Some e, w)"
  shows "twp (handle_rename E a) (\<lambda>_ s'. handled E s f (Rep_error (err_access e)) s' f \<and> world s' = w) s"
  unfolding handle_rename_def
  by (rule get_file_live [OF assms(1-3)])
    (use assms(4,5) in \<open>auto simp: handled_def table_step_def db_only_def\<close>)

lemma renamed_table:
  assumes "inserted m h f f'" "m \<noteq> n" shows "forget n f' h = Some m"
  using inserted_maps [OF assms(1)] assms(2) by simp

lemma renamed_to_itself:
  assumes "inserted n h f f'" shows "forget n f' h = None"
  using inserted_maps [OF assms(1)] by simp

end
