(* ===== verification/File_Store.thy ===== *)
theory File_Store
  imports Handler_Spec
begin

text \<open>
  READ, WRITE and READDIR against an abstract view of the file system: over a file system that
  obeys the POSIX laws \<open>file_laws\<close> and \<open>dir_laws\<close>, READ returns the bytes of the file at its
  offset, WRITE replaces them and changes no other file, and READDIR returns the first entries
  of the listing. \<open>read_eof_iff\<close> states exactly when the end-of-file flag is set.
\<close>

section \<open>READ\<close>

definition read_data :: "bytes \<Rightarrow> i64 \<Rightarrow> u64 \<Rightarrow> bytes" where
  "read_data c off count = take (unat count) (drop (unat off) c)"

definition read_reply :: "bytes \<Rightarrow> u64 \<Rightarrow> snfs_rep" where
  "read_reply d count = Rep_read \<lparr>rr_count = of_nat (length d),
     rr_eof = (if (of_nat (length d) :: i64) <s count then 1 else 0), rr_data = d\<rparr>"

lemma sint_cases:
  fixes w :: "64 word"
  shows "sint w = (if unat w < 2 ^ 63 then int (unat w) else int (unat w) - 2 ^ 64)"
proof -
  define k where "k = uint w"
  have k: "0 \<le> k" "k < 2 ^ 64" using uint_lt2p [of w] by (simp_all add: k_def)
  have "sint w = take_bit 64 (k + 2 ^ 63) - 2 ^ 63"
    by (simp add: sint_uint signed_take_bit_eq_take_bit_shift k_def)
  also have "\<dots> = (if k < 2 ^ 63 then k else k - 2 ^ 64)"
  proof (cases "k < 2 ^ 63")
    case True
    with k show ?thesis by (simp add: take_bit_eq_mod)
  next
    case False
    have "(k + 2 ^ 63) mod 2 ^ 64 = (k + 2 ^ 63 - 2 ^ 64) mod 2 ^ 64"
      by (rule minus_mod_self2 [symmetric])
    also have "\<dots> = k + 2 ^ 63 - 2 ^ 64"
      using k False by (intro mod_pos_pos_trivial) auto
    finally have "take_bit 64 (k + 2 ^ 63) = k + 2 ^ 63 - 2 ^ 64"
      unfolding take_bit_eq_mod .
    with False show ?thesis by simp
  qed
  finally have s: "sint w = (if k < 2 ^ 63 then k else k - 2 ^ 64)" .
  have u: "int (unat w) = k" by (simp add: k_def)
  have "unat w = nat k" by (simp only: u [symmetric] nat_int)
  then have "unat w < 2 ^ 63 \<longleftrightarrow> k < 2 ^ 63" using nat_less_iff [OF k(1), of "2 ^ 63"] by simp
  then show ?thesis by (simp only: s u)
qed

lemma nonneg_iff: "0 \<le>s (w :: 64 word) \<longleftrightarrow> unat w < 2 ^ 63"
  using uint_lt2p [of w] by (simp add: word_sle_eq sint_cases)

lemma neg_iff: "(w :: 64 word) <s 0 \<longleftrightarrow> \<not> unat w < 2 ^ 63"
  using uint_lt2p [of w] by (simp add: word_sless_alt sint_cases)

lemma sless_iff:
  "unat (v :: 64 word) < 2 ^ 63 \<Longrightarrow> unat w < 2 ^ 63 \<Longrightarrow> v <s w \<longleftrightarrow> unat v < unat w"
  by (simp add: word_sless_alt sint_cases flip: word_less_def word_less_nat_alt)

lemma unat_of_nat_small: "n < 2 ^ 64 \<Longrightarrow> unat (of_nat n :: 64 word) = n"
  by (simp add: unat_of_nat take_bit_nat_eq_self)

text \<open>
  The flag is set when the read came back short, which is when the request reaches past the end of the file. A
  request that stops exactly at the end does not set it.
\<close>

lemma read_eof_iff:
  assumes "length c < 2 ^ 63" "unat count < 2 ^ 63"
  shows "(of_nat (length (read_data c off count)) :: i64) <s count \<longleftrightarrow>
    0 < count \<and> length c < unat off + unat count"
proof -
  have "length (read_data c off count) = min (length c - unat off) (unat count)"
    by (auto simp: read_data_def)
  moreover have "0 < count \<longleftrightarrow> 0 < unat count"
    by (simp add: word_less_nat_alt)
  ultimately show ?thesis
    using assms by (auto simp: sless_iff unat_of_nat_small)
qed

definition files_ok :: "('w, 'd) env \<Rightarrow> 'w files_view \<Rightarrow> bool" where
  "files_ok E V \<longleftrightarrow> file_laws E V \<and> file_no_failure E V"

lemma handle_read_spec:
  fixes s :: "('w, 'd) server"
  assumes ok: "env_ok E" "files_ok E V" and R: "db_repr E s f" "f (ra_file a) = Some n"
    and c: "contents V (world s) n = Some c" "length c < 2 ^ 63"
    and off: "0 \<le>s ra_offset a" and stack: "stack_ok E (8 * unat (ra_count a))"
  shows "twp (handle_read E a) (\<lambda>_ s'.
    handled E s f (read_reply (read_data c (ra_offset a) (ra_count a)) (ra_count a)) s' f \<and>
    contents V (world s') = contents V (world s)) s"
  unfolding handle_read_def
proof (rule get_file_live [OF ok(1) R], goal_cases)
  case (1 s')
  note D = table_stepD(1-4,6) [OF 1(1)]
  have laws: "file_laws E V" and fine: "file_no_failure E V" using ok(2) by (simp_all add: files_ok_def)
  note L = file_lawsD [OF laws]
  obtain st where st: "px_stat E n (world s) = Inr st"
    using file_no_failureD(1) [OF fine c(1)] by auto
  obtain fd w1 where w1: "px_open E n O_RDONLY (world s) = (Inr fd, w1)"
      "contents V w1 = contents V (world s)" "position V w1 fd = Some (n, 0)"
    using file_no_failureD(2) [OF fine c(1)] L(2) by metis
  obtain w2 where w2: "px_lseek E fd (ra_offset a) w1 = (ra_offset a, w2)"
      "contents V w2 = contents V w1" "position V w2 fd = Some (n, unat (ra_offset a))"
    using L(3) [OF w1(3), of "ra_offset a"] off by (auto simp: nonneg_iff neg_iff)
  have c2: "contents V w2 n = Some c" using w2 w1 c(1) by simp
  obtain w3 where w3: "px_read E fd (ra_count a) w2 = (Inr (read_data c (ra_offset a) (ra_count a)), w3)"
      "contents V w3 = contents V w2"
    using file_no_failureD(3) [OF fine c2 w2(3)] L(4) [OF w2(3) c2] by (metis read_data_def)
  have eof: "read_data c (ra_offset a) (ra_count a) = []" if "\<not> ra_offset a <s st_size st"
    using that off c(2) L(1) [OF c(1) st]
    by (simp add: read_data_def sless_iff nonneg_iff unat_of_nat_small)
  have m: "malloc_ok E k w" for k w using ok(1) by (simp add: env_ok_def memory_available_def)
  have nn: "\<not> ra_offset a <s 0" using off by (simp add: nonneg_iff neg_iff)
  show ?case
    using D st w1 w2 w3 stack m nn eof L(6)
    by (auto simp: handled_def read_reply_def)
qed

lemma handle_read_negative:
  fixes s :: "('w, 'd) server"
  assumes ok: "env_ok E" "files_ok E V" and R: "db_repr E s f" "f (ra_file a) = Some n"
    and c: "contents V (world s) n = Some c" and off: "ra_offset a <s 0"
  shows "twp (handle_read E a) (\<lambda>_ s'. handled E s f (Rep_error SNFS_EINTERNAL) s' f \<and>
    contents V (world s') = contents V (world s)) s"
  unfolding handle_read_def
proof (rule get_file_live [OF ok(1) R], goal_cases)
  case (1 s')
  note D = table_stepD(1-4,6) [OF 1(1)]
  have laws: "file_laws E V" and fine: "file_no_failure E V" using ok(2) by (simp_all add: files_ok_def)
  note L = file_lawsD [OF laws]
  obtain st where st: "px_stat E n (world s) = Inr st"
    using file_no_failureD(1) [OF fine c(1)] by auto
  obtain fd w1 where w1: "px_open E n O_RDONLY (world s) = (Inr fd, w1)"
      "contents V w1 = contents V (world s)" "position V w1 fd = Some (n, 0)"
    using file_no_failureD(2) [OF fine c(1)] L(2) by metis
  obtain r w2 where w2: "px_lseek E fd (ra_offset a) w1 = (r, w2)" "r <s 0"
      "contents V w2 = contents V w1"
    using L(3) [OF w1(3), of "ra_offset a"] off by auto
  show ?case
    using D st w1 w2 L(6) by (auto simp: handled_def)
qed

section \<open>WRITE\<close>

definition write_data :: "write_args \<Rightarrow> bytes" where
  "write_data a = take (unat (wa_count a)) (wa_data a)"

lemma handle_write_spec:
  fixes s :: "('w, 'd) server"
  assumes ok: "env_ok E" "files_ok E V" and R: "db_repr E s f" "f (wa_file a) = Some n"
    and c: "contents V (world s) n = Some c"
    and off: "0 \<le>s wa_offset a" and len: "unat (wa_count a) \<le> length (wa_data a)"
  shows "twp (handle_write E a) (\<lambda>_ s'. handled E s f (Rep_write (wa_count a)) s' f \<and>
    contents V (world s') =
      (contents V (world s))(n \<mapsto> overwrite c (unat (wa_offset a)) (write_data a))) s"
  unfolding handle_write_def
proof (rule get_file_live [OF ok(1) R], goal_cases)
  case (1 s')
  note D = table_stepD(1-4,6) [OF 1(1)]
  have laws: "file_laws E V" and fine: "file_no_failure E V" using ok(2) by (simp_all add: files_ok_def)
  note L = file_lawsD [OF laws]
  obtain fd w1 where w1: "px_open E n O_WRONLY (world s) = (Inr fd, w1)"
      "contents V w1 = contents V (world s)" "position V w1 fd = Some (n, 0)"
    using file_no_failureD(2) [OF fine c(1)] L(2) by metis
  obtain w2 where w2: "px_lseek E fd (wa_offset a) w1 = (wa_offset a, w2)"
      "contents V w2 = contents V w1" "position V w2 fd = Some (n, unat (wa_offset a))"
    using L(3) [OF w1(3), of "wa_offset a"] off by (auto simp: nonneg_iff neg_iff)
  have c2: "contents V w2 n = Some c" using w2 w1 c(1) by simp
  have len64: "length (write_data a) < 2 ^ 64"
    using unsigned_less [of "wa_count a", where 'a = nat] len by (simp add: write_data_def)
  obtain m w3 where w3: "px_write E fd (write_data a) w2 = (Inr m, w3)" "unat m = length (write_data a)"
    using file_no_failureD(4) [OF fine c2 w2(3) len64] by auto
  have "unat m = unat (wa_count a)"
    using w3(2) len by (simp add: write_data_def)
  then have m: "m = wa_count a" by (simp only: word_unat_eq_iff)
  have "contents V w3 = (contents V w2)(n \<mapsto> overwrite c (unat (wa_offset a)) (write_data a))"
    using L(5) [OF w2(3) c2 len64 w3(1)] w3(2) by simp
  then show ?case
    using D w1 w2 w3 m len L(6) by (auto simp: handled_def write_data_def)
qed

text \<open>What was written is what a READ at the same place returns.\<close>

lemma read_after_write:
  fixes s :: "('w, 'd) server"
  assumes ok: "env_ok E" "files_ok E V" and R: "db_repr E s f" "f (wa_file wa) = Some n"
    and c: "contents V (world s) n = Some c" "length c < 2 ^ 63"
    and off: "0 \<le>s wa_offset wa" and len: "unat (wa_count wa) \<le> length (wa_data wa)"
    and fits: "unat (wa_offset wa) + unat (wa_count wa) < 2 ^ 63"
    and stack: "stack_ok E (8 * unat (wa_count wa))"
  shows "twp (andthen (handle_write E wa)
      (handle_read E \<lparr>ra_file = wa_file wa, ra_offset = wa_offset wa, ra_count = wa_count wa\<rparr>))
    (\<lambda>_ s'. sent s' = sent s @ [Rep_write (wa_count wa), Rep_read \<lparr>rr_count = wa_count wa,
      rr_eof = 0, rr_data = write_data wa\<rparr>]) s"
proof -
  let ?d = "write_data wa" and ?ra = "\<lparr>ra_file = wa_file wa, ra_offset = wa_offset wa, ra_count = wa_count wa\<rparr>"
  let ?c = "overwrite c (unat (wa_offset wa)) ?d"
  have ld: "length ?d = unat (wa_count wa)" using len by (simp add: write_data_def)
  have data: "read_data ?c (wa_offset wa) (wa_count wa) = ?d"
    using overwrite_read [of ?d "unat (wa_offset wa)" c] ld by (simp add: read_data_def)
  have rep: "read_reply ?d (wa_count wa) = Rep_read \<lparr>rr_count = wa_count wa, rr_eof = 0, rr_data = ?d\<rparr>"
    using ld by (simp add: read_reply_def)
  have "twp (handle_read E ?ra) (\<lambda>_ s''. sent s'' = sent s @ [Rep_write (wa_count wa),
      Rep_read \<lparr>rr_count = wa_count wa, rr_eof = 0, rr_data = ?d\<rparr>]) s'"
    if h: "handled E s f (Rep_write (wa_count wa)) s' f"
      and w: "contents V (world s') = (contents V (world s))(n \<mapsto> ?c)" for s'
  proof (rule twp_mono [OF handle_read_spec [where c = ?c and V = V and f = f and n = n]])
    show "length ?c < 2 ^ 63"
      using c(2) fits ld by simp
  qed (use ok R h w off stack data rep in \<open>auto simp: handled_def\<close>)
  then show ?thesis
    unfolding twp_rules
    by (intro twp_mono [OF handle_write_spec [OF ok R c(1) off len]]) auto
qed

section \<open>READDIR\<close>

lemma dir_lawsD:
  assumes "dir_laws E V"
  shows "stream V w d = Some [] \<Longrightarrow> \<exists>w'. px_readdir E d w = (Dir_end, w')"
    and "stream V w d = Some (e # es) \<Longrightarrow> \<exists>w'. px_readdir E d w = (Dir_entry e, w') \<and> stream V w' d = Some es"
proof -
  show "stream V w d = Some [] \<Longrightarrow> \<exists>w'. px_readdir E d w = (Dir_end, w')"
    using assms unfolding dir_laws_def by (metis prod.collapse)
  show "stream V w d = Some (e # es) \<Longrightarrow> \<exists>w'. px_readdir E d w = (Dir_entry e, w') \<and> stream V w' d = Some es"
    using assms unfolding dir_laws_def by blast
qed

lemma readdir_loop_listing:
  assumes "dir_laws E V" "stream V (world s) d = Some es"
    and "\<forall>e \<in> set es. SNFS_MAX_FILENAME_LENGTH \<le> length (d_name e)"
  shows "twp (readdir_loop E d k acc) (\<lambda>r s'. r = Inr (acc @ map snfs_entry (take k es)) \<and>
    world_only s s') s"
  using assms(2,3)
proof (induction k arbitrary: s es acc)
  case 0
  then show ?case
    using dir_lawsD [OF assms(1), of "world s" d]
    by (subst readdir_loop.simps, cases es) (fastforce simp: world_only_def)+
next
  case (Suc k)
  show ?case
  proof (cases es)
    case Nil
    with Suc.prems dir_lawsD(1) [OF assms(1), of "world s" d] show ?thesis
      by (subst readdir_loop.simps) (fastforce simp: world_only_def)
  next
    case (Cons e es')
    with Suc.prems(1) obtain w where w: "px_readdir E d (world s) = (Dir_entry e, w)"
        "stream V w d = Some es'"
      using dir_lawsD(2) [OF assms(1)] by blast
    with Cons Suc.prems(2) show ?thesis
      by (subst readdir_loop.simps)
        (auto simp: world_only_def intro!: twp_mono [OF Suc.IH [of "s\<lparr>world := w\<rparr>" es']])
  qed
qed

lemma handle_readdir_spec:
  fixes s :: "('w, 'd) server"
  assumes ok: "env_ok E" "dir_laws E V" and R: "db_repr E s f" "f (rd_dir a) = Some n"
    and dir: "px_stat E n (world s) = Inr st" "S_ISDIR (st_mode st)"
    and op: "px_opendir E n (world s) = (Inr d, w)"
    and stack: "stack_ok E (sizeof_snfsentry * unat (rd_count a))"
  shows "twp (handle_readdir E a) (\<lambda>_ s'.
    let es = map snfs_entry (take (unat (rd_count a)) (listing V (world s) n)) in
    handled E s f (Rep_readdir \<lparr>dr_num_entries = of_nat (length es), dr_entries = es\<rparr>) s' f) s"
  unfolding handle_readdir_def
proof (rule get_file_live [OF ok(1) R], goal_cases)
  case (1 s')
  note D = table_stepD(1-4,6) [OF 1(1)]
  let ?s = "s'\<lparr>world := w, fds := d # fds s\<rparr>"
  have "stream V w d = Some (listing V (world s) n)"
    using ok(2) op by (auto simp: dir_laws_def)
  moreover have "\<forall>e \<in> set (listing V (world s) n). SNFS_MAX_FILENAME_LENGTH \<le> length (d_name e)"
    using ok(2) by (auto simp: dir_laws_def)
  ultimately have *: "twp (readdir_loop E d (unat (rd_count a)) [])
      (\<lambda>r s''. r = Inr ([] @ map snfs_entry (take (unat (rd_count a)) (listing V (world s) n))) \<and>
        world_only ?s s'') ?s"
    by (intro readdir_loop_listing [OF ok(2)]) auto
  have m: "malloc_ok E k w" for k w using ok(1) by (simp add: env_ok_def memory_available_def)
  have fin: "handled E s f r (s''\<lparr>sent := sent s'' @ [r], live := l\<rparr>) f"
    if "world_only ?s s''" for r s'' l
    using that D world_onlyD(1) [OF that, of E f] world_onlyD(2) [OF that]
    by (simp add: handled_def world_only_def)
  show ?case
    using D(2,3) dir op stack m
    by (auto simp: Let_def intro!: twp_mono [OF *] fin)
qed

end
