(* ===== verification/Sample_Server.thy ===== *)
theory Sample_Server
  imports Sample_System File_Store
begin

text \<open>
  A server over the sample environment whose database already holds two handles, 5 for the root
  \<open>/\<close> and 7 for the file \<open>/a\<close>. The witnesses run requests on it.
\<close>

definition slash_path :: path where "slash_path = [0x2F]"
definition file_path :: path where "file_path = [0x2F, 0x61]"
definition new_path :: path where "new_path = [0x2F, 0x62]"

definition sample_table :: table where
  "sample_table = [5 \<mapsto> slash_path, 7 \<mapsto> file_path]"

definition sample_live :: "(memfs, memdb) server" where
  "sample_live = sample_server\<lparr>DBP := True, dbst :=
     [(zstr file_path, le_bytes 8 (7 :: u64)), (le_bytes 8 (7 :: u64), zstr file_path),
      (zstr slash_path, le_bytes 8 (5 :: u64)), (le_bytes 8 (5 :: u64), zstr slash_path)]\<rparr>"

lemmas sample_paths = slash_path_def file_path_def new_path_def

lemma sample_cstrings [simp]: "cstring slash_path" "cstring file_path" "cstring new_path"
  by (simp_all add: sample_paths cstring_def)

lemma sample_env_ok [simp]: "env_ok sample_env"
  by (simp add: env_ok_def sample_libdb_laws sample_no_failure sample_memory)

lemma sample_files_ok [simp]: "files_ok sample_env sample_view"
  by (simp add: files_ok_def sample_file_laws sample_file_no_failure)

lemma sample_dirs_ok [simp]: "dir_laws sample_env sample_view"
  by (rule sample_dir_laws)

lemma sample_clear [simp]: "length n \<noteq> 7 \<Longrightarrow> db_clear sample_live f n"
  by (rule db_clear_length)

lemma short_not_handle: "length n \<noteq> 7 \<Longrightarrow> le_bytes 8 (h :: u64) \<noteq> zstr n"
  by (auto dest: arg_cong [where f = length])

lemma sample_lengths [simp]: "length slash_path = 1" "length file_path = 2" "length new_path = 2"
  by (simp_all add: sample_paths)

lemma sample_view_live:
  "db_view sample_env (dbst sample_live) =
     Map.empty(le_bytes 8 (5 :: u64) \<mapsto> zstr slash_path, zstr slash_path \<mapsto> le_bytes 8 (5 :: u64),
       le_bytes 8 (7 :: u64) \<mapsto> zstr file_path, zstr file_path \<mapsto> le_bytes 8 (7 :: u64))"
  by (simp add: sample_db_view sample_live_def)

lemma sample_repr_empty: "db_repr sample_env sample_server Map.empty"
  by (simp add: db_repr_def sample_libdb_laws table_ok_def db_holds_def sample_db_view sample_server_def)

lemma sample_repr [simp]: "db_repr sample_env sample_live sample_table"
proof -
  let ?m = "Map.empty(le_bytes 8 (5 :: u64) \<mapsto> zstr slash_path, zstr slash_path \<mapsto> le_bytes 8 (5 :: u64))"
  have 1: "table_ok Map.empty" "db_holds Map.empty Map.empty"
    by (simp_all add: table_ok_def db_holds_def)
  have 2: "table_ok [5 \<mapsto> slash_path]" "db_holds ?m [5 \<mapsto> slash_path]"
    using db_holds_upd [OF 1, of slash_path 5] by (simp_all add: short_not_handle)
  have d: "slash_path \<noteq> file_path" by (simp add: sample_paths)
  have "db_holds (?m(le_bytes 8 (7 :: u64) \<mapsto> zstr file_path, zstr file_path \<mapsto> le_bytes 8 (7 :: u64)))
      [5 \<mapsto> slash_path, 7 \<mapsto> file_path]" "table_ok [5 \<mapsto> slash_path, 7 \<mapsto> file_path]"
    using db_holds_upd [OF 2, of file_path 7] d
      short_not_handle [of slash_path 7] short_not_handle [of file_path 5]
    by (simp_all add: short_not_handle short_not_handle [symmetric])
  then show ?thesis
    by (simp add: db_repr_def sample_libdb_laws sample_view_live sample_table_def)
qed

lemma sample_table_simps [simp]:
  "sample_table 5 = Some slash_path" "sample_table 7 = Some file_path" "sample_table 9 = None"
  by (simp_all add: sample_table_def)

lemma sample_ran: "ran sample_table = {slash_path, file_path}"
  by (simp add: sample_table_def ran_map_upd insert_commute)

lemma sample_genuine [simp]: "genuine_handle sample_table h"
  by (auto simp: genuine_handle_def sample_ran short_not_handle)

lemma sample_fresh [simp]: "fresh_draw sample_env sample_live"
proof -
  have "11 \<in> set (rnd sample_live)" by (simp add: sample_live_def sample_server_def)
  moreover have "db_view sample_env (dbst sample_live) (le_bytes 8 (11 :: u64)) = None"
    using short_not_handle [of slash_path 11] short_not_handle [of file_path 11]
    by (simp add: sample_view_live)
  ultimately show ?thesis unfolding fresh_draw_def by blast
qed

lemma sample_supply: "fresh_supply sample_env sample_live 2"
proof -
  have "11 \<in> fresh_set sample_env sample_live" "22 \<in> fresh_set sample_env sample_live"
    using short_not_handle [of slash_path] short_not_handle [of file_path]
    by (simp_all add: fresh_set_def sample_view_live) (simp_all add: sample_live_def sample_server_def)
  then have "{11, 22} \<subseteq> fresh_set sample_env sample_live" by simp
  from card_mono [OF _ this] show ?thesis by (simp add: fresh_supply_def fresh_set_def)
qed

lemma sample_contents [simp]:
  "contents sample_view (world sample_live) file_path = Some [1, 2, 3]"
  by (simp add: sample_view_def sample_live_def sample_server_def sample_fs_def file_path_def
      file_node_def)

lemma sample_stack [simp]: "n \<le> 8388608 \<Longrightarrow> stack_ok sample_env n"
  by (simp add: sample_env_def)

lemma sample_good_table: "\<forall>n \<in> ran sample_table. n \<noteq> [] \<and> length n \<noteq> 7"
  by (simp add: sample_ran) (simp add: sample_paths)

text \<open>A table that the database of the sample server holds maps the handle 5 to the root.\<close>

lemma sample_root_handle:
  assumes "db_repr sample_env sample_live f" "f 5 = Some d" shows "d = slash_path"
proof -
  have "db_view sample_env (dbst sample_live) (le_bytes 8 (5 :: u64)) = Some (zstr d)"
    using assms by (simp add: db_repr_def db_holds_def)
  then show ?thesis
    using short_not_handle [of slash_path 5] short_not_handle [of file_path 5]
    by (simp add: sample_view_live split: if_splits)
qed

end
