(* ===== verification/Handle_Props.thy ===== *)
theory Handle_Props
  imports Sample_Server
begin

text \<open>
  The properties of the handle database, \<open>src/server/fhandledb.c\<close>, each with a witness on the sample
  server. The first five are the contract \<open>handle_table\<close> instantiated with the operations of the
  code (the interpretation \<open>fhdb\<close>) and made total.
\<close>

text \<open>
  A path that is given to name_find_or_insert has a handle afterwards, and get_file of that
  handle returns exactly the path with its terminator. Both calls return, provided the database
  library works, memory is available, one of the random draws is not yet a key, and the path
  cannot be confused with the image of a handle.
\<close>

theorem handle_resolves:
  assumes "env_ok E" "db_repr E s f" "db_clear s f n" "cstring n" "fresh_draw E s"
  shows "twp (bnd (name_find_or_insert E n) (get_file E)) (\<lambda>r s'. r = Some (zstr n)) s"
proof (rule twp_of_wp)
  show "twp (bnd (name_find_or_insert E n) (get_file E)) (\<lambda>_ _. True) s"
    unfolding twp_rules
    by (rule twp_mono [OF name_find_or_insert_total [OF assms(1,2,3,5)]]) (rule get_file_total [OF assms(1)])
qed (rule fhdb.insert_then_get [OF assms(2-4)])

lemma handle_resolves_witness:
  "twp (bnd (name_find_or_insert sample_env new_path) (get_file sample_env))
    (\<lambda>r s'. r = Some (zstr new_path)) sample_live"
  by (rule handle_resolves [where f = sample_table]) simp_all

text \<open>
  Asking name_find_or_insert for the same path twice gives the same handle.
\<close>

theorem same_path_same_handle:
  assumes "env_ok E" "db_repr E s f" "db_clear s f n" "cstring n" "fresh_draw E s"
  shows "twp (bnd (name_find_or_insert E n) (\<lambda>h. bnd (name_find_or_insert E n) (\<lambda>k. ret (h, k))))
    (\<lambda>(h, k) s'. h = k) s"
proof (rule twp_of_wp)
  show "twp (bnd (name_find_or_insert E n) (\<lambda>h. bnd (name_find_or_insert E n) (\<lambda>k. ret (h, k))))
      (\<lambda>_ _. True) s"
    unfolding twp_rules
  proof (rule twp_mono [OF name_find_or_insert_spec [OF assms]], elim exE conjE)
    fix h s' f'
    assume "table_step E 0 s f s' f'" "inserted n h f f'"
    then show "twp (name_find_or_insert E n) (\<lambda>k s'. True) s'"
      using assms(1,3)
      by (intro twp_mono [OF name_find_again [where f = f' and h = h]])
        (auto dest: table_stepD inserted_maps)
  qed
  show "wp (bnd (name_find_or_insert E n) (\<lambda>h. bnd (name_find_or_insert E n) (\<lambda>k. ret (h, k))))
      (\<lambda>(h, k) s'. h = k) s"
    by (rule wp_mono [OF fhdb.insert_idempotent [OF assms(2-4)]]) auto
qed

lemma same_path_same_handle_witness:
  "twp (bnd (name_find_or_insert sample_env new_path)
      (\<lambda>h. bnd (name_find_or_insert sample_env new_path) (\<lambda>k. ret (h, k))))
    (\<lambda>(h, k) s'. h = k) sample_live"
  by (rule same_path_same_handle [where f = sample_table]) simp_all

text \<open>
  Two different paths are given different handles, provided two of the random draws to come
  are not yet keys.
\<close>

theorem distinct_paths_distinct_handles:
  assumes "env_ok E" "db_repr E s f" "db_clear s f m" "db_clear s f n" "cstring m" "cstring n"
    and "m \<noteq> n" "fresh_supply E s 2"
  shows "twp (bnd (name_find_or_insert E m) (\<lambda>h. bnd (name_find_or_insert E n) (\<lambda>k. ret (h, k))))
    (\<lambda>(h, k) s'. h \<noteq> k) s"
proof (rule twp_of_wp)
  have two: "fresh_supply E s (Suc (Suc 0))" using assms(8) by (simp add: numeral_2_eq_2)
  show "twp (bnd (name_find_or_insert E m) (\<lambda>h. bnd (name_find_or_insert E n) (\<lambda>k. ret (h, k))))
      (\<lambda>_ _. True) s"
    unfolding twp_rules
  proof (rule twp_mono [OF twp_wp_conj [OF
        name_find_or_insert_spec [OF assms(1,2,3,5) fresh_supply_draw [OF two]]
        name_find_or_insert_supply [OF env_ok_laws [OF assms(1)] assms(3) two]]], elim exE conjE)
    fix h s' f'
    assume *: "table_step E 0 s f s' f'" "fresh_supply E s' (Suc 0)"
    show "twp (name_find_or_insert E n) (\<lambda>k s'. True) s'"
      by (rule name_find_or_insert_total [OF assms(1) table_stepD(1) [OF *(1)]
            table_stepD(6) [OF *(1) assms(4)] fresh_supply_draw [OF *(2)]])
  qed
qed (rule fhdb.insert_distinct [OF assms(2-7)])

lemma distinct_paths_distinct_handles_witness:
  "twp (bnd (name_find_or_insert sample_env slash_path)
      (\<lambda>h. bnd (name_find_or_insert sample_env new_path) (\<lambda>k. ret (h, k))))
    (\<lambda>(h, k) s'. h \<noteq> k) sample_live"
  by (rule distinct_paths_distinct_handles [where f = sample_table])
    (simp_all add: sample_supply, simp add: sample_paths)

text \<open>
  name_remove of a path that has a handle reports success, and from then on get_file does not
  find that handle any more, so a client that still holds it gets SNFS_ENOENT.
\<close>

theorem removed_path_forgotten:
  assumes "env_ok E" "db_repr E s f" "db_clear s f n" "cstring n" "f h = Some n"
  shows "twp (bnd (name_remove E n) (\<lambda>b. bnd (get_file E h) (\<lambda>r. ret (b, r))))
    (\<lambda>(b, r) s'. b \<and> r = None) s"
proof (rule twp_of_wp)
  show "twp (bnd (name_remove E n) (\<lambda>b. bnd (get_file E h) (\<lambda>r. ret (b, r)))) (\<lambda>_ _. True) s"
    unfolding twp_rules
    by (rule twp_mono [OF name_remove_total [OF assms(1-3)]]) (rule get_file_total [OF assms(1)])
qed (rule fhdb.remove_then_get [OF assms(2-5)])

lemma removed_path_forgotten_witness:
  "twp (bnd (name_remove sample_env file_path) (\<lambda>b. bnd (get_file sample_env 7) (\<lambda>r. ret (b, r))))
    (\<lambda>(b, r) s'. b \<and> r = None) sample_live"
  by (rule removed_path_forgotten [where f = sample_table]) simp_all

text \<open>
  name_remove of one path leaves the handle of every other path as it was.
\<close>

theorem removal_keeps_others:
  assumes "env_ok E" "db_repr E s f" "db_clear s f n" "cstring n" "f h = Some m" "m \<noteq> n"
  shows "twp (bnd (name_remove E n) (\<lambda>b. get_file E h)) (\<lambda>r s'. r = Some (zstr m)) s"
proof (rule twp_of_wp)
  show "twp (bnd (name_remove E n) (\<lambda>b. get_file E h)) (\<lambda>_ _. True) s"
    unfolding twp_rules
    by (rule twp_mono [OF name_remove_total [OF assms(1-3)]]) (rule get_file_total [OF assms(1)])
qed (rule fhdb.remove_other [OF assms(2-6)])

lemma removal_keeps_others_witness:
  "twp (bnd (name_remove sample_env file_path) (\<lambda>b. get_file sample_env 5))
    (\<lambda>r s'. r = Some (zstr slash_path)) sample_live"
  by (rule removal_keeps_others [where f = sample_table]) (simp_all, simp add: sample_paths)

text \<open>
  The loop of generate_new_fhandle ends: with a tape of different random draws longer than
  twice the number of handles in use, name_find_or_insert returns for every path that is clear.
\<close>

theorem handle_generation_terminates:
  assumes "env_ok E" "db_repr E s f" "db_clear s f n" "distinct (rnd s)"
    and "2 * card (dom f) < length (rnd s)"
  shows "\<exists>h s'. name_find_or_insert E n s = Ret h s'"
  using name_find_or_insert_total [OF assms(1-3) fresh_draw_pigeonhole [OF assms(2,4,5)]]
  by (simp add: twp_Ret)

lemma handle_generation_terminates_witness:
  "\<exists>h s'. name_find_or_insert sample_env new_path sample_server = Ret h s'"
  by (rule handle_generation_terminates [OF sample_env_ok sample_repr_empty])
    (simp_all add: db_clear_length sample_server_def)

text \<open>
  Paths and handles share one key space, so a path of seven bytes and its terminator is the
  image of a handle nobody was given. get_file of that forged handle does not report that
  there is no such handle: it returns the eight raw bytes of the handle of the path.
\<close>

theorem seven_byte_path_forges_a_handle:
  assumes "env_ok E" "db_repr E s f" "f k = Some n" "length n = 7"
  shows "twp (get_file E (le_word (zstr n))) (\<lambda>r s'. r = Some (le_bytes 8 k)) s"
proof -
  have "le_bytes 8 (le_word (zstr n) :: u64) = zstr n"
    using assms(4) by (intro le_bytes_le_word_n) simp_all
  moreover have "db_view E (dbst s) (zstr n) = Some (le_bytes 8 k)"
    using assms(2,3) by (simp add: db_repr_def db_holds_def)
  ultimately show ?thesis
    unfolding get_file_def by (intro twp_mono [OF find_db_spec [OF assms(1)]]) simp
qed

definition seven_path :: path where
  "seven_path = [0x2F, 0x61, 0x62, 0x63, 0x64, 0x65, 0x66]"

definition seven_server :: "(memfs, memdb) server" where
  "seven_server = sample_server\<lparr>dbst :=
     [(zstr seven_path, le_bytes 8 (7 :: u64)), (le_bytes 8 (7 :: u64), zstr seven_path)]\<rparr>"

lemma seven_repr: "db_repr sample_env seven_server [7 \<mapsto> seven_path]"
proof -
  have "le_bytes 8 (7 :: u64) \<noteq> zstr seven_path" by code_simp
  then show ?thesis
    using db_holds_upd [of Map.empty Map.empty seven_path 7]
    by (simp add: db_repr_def sample_libdb_laws sample_db_view seven_server_def table_ok_def
        db_holds_def cstring_def seven_path_def)
qed

lemma seven_byte_path_forges_a_handle_witness:
  "twp (get_file sample_env (le_word (zstr seven_path))) (\<lambda>r s'. r = Some (le_bytes 8 (7 :: u64)))
    seven_server"
  by (rule seven_byte_path_forges_a_handle [OF sample_env_ok seven_repr]) (simp_all add: seven_path_def)

end
