(* ===== verification/Wire.thy ===== *)
theory Wire
  imports Ftypes
begin

text \<open>
  The messages as bytes. The C code has no serialisation: it sends and receives the memory of the
  structs of \<open>requests.h\<close> and \<open>replys.h\<close>. \<open>encode_req\<close> and \<open>encode_rep\<close> are those images
  (little endian, four-byte enumerations, packed except for the seven bytes of padding in
  \<open>snfs_remove_args\<close>), cut to the size that the sender passes. \<open>decode_req\<close> and \<open>decode_rep\<close> read the
  members back; they give \<open>None\<close> where the C code would read beyond the end of the message.

  The locale \<open>field_codec\<close> is the contract of one member: a fixed width and an image
  that reads back in front of anything. It is interpreted for each type of member, and the
  round trips of the messages are composed from it.
\<close>

type_synonym 'a reader = "bytes \<Rightarrow> ('a \<times> bytes) option"

section \<open>Members\<close>

locale field_codec =
  fixes enc :: "'a \<Rightarrow> bytes" and dec :: "'a reader" and width :: nat and ok :: "'a \<Rightarrow> bool"
  assumes dec_enc: "ok a \<Longrightarrow> dec (enc a @ rest) = Some (a, rest)"
    and enc_width: "ok a \<Longrightarrow> length (enc a) = width"
    and dec_width: "dec m = Some (a, rest) \<Longrightarrow> length m = width + length rest"
    and dec_short: "dec m = None \<Longrightarrow> length m < width"
begin

lemma enc_inject: "ok a \<Longrightarrow> ok b \<Longrightarrow> enc a = enc b \<longleftrightarrow> a = b"
  by (metis dec_enc option.inject prod.inject)

lemma dec_exact: "ok a \<Longrightarrow> dec (enc a) = Some (a, [])"
  using dec_enc [of a "[]"] by simp

lemma dec_None_iff: "dec m = None \<longleftrightarrow> length m < width"
proof
  assume "length m < width"
  then show "dec m = None"
    using dec_width [of m] by (cases "dec m") auto
qed (rule dec_short)

end

definition get_bytes :: "nat \<Rightarrow> bytes reader" where
  "get_bytes n m = (if length m < n then None else Some (take n m, drop n m))"

definition get_u32 :: "u32 reader" where
  "get_u32 m = map_option (\<lambda>(b, r). (le_word b, r)) (get_bytes 4 m)"

definition get_u64 :: "u64 reader" where
  "get_u64 m = map_option (\<lambda>(b, r). (le_word b, r)) (get_bytes 8 m)"

definition reads :: "'a reader \<Rightarrow> ('a \<Rightarrow> 'b reader) \<Rightarrow> 'b reader" where
  "reads g k m = Option.bind (g m) (\<lambda>(a, r). k a r)"

definition yields :: "'a \<Rightarrow> 'a reader" where
  "yields a m = Some (a, m)"

definition put_timeval :: "snfs_timeval \<Rightarrow> bytes" where
  "put_timeval t = le_bytes 8 (tv_seconds t) @ le_bytes 8 (tv_useconds t)"

definition get_timeval :: "snfs_timeval reader" where
  "get_timeval = reads get_u64 (\<lambda>s. reads get_u64 (\<lambda>u.
     yields \<lparr>tv_seconds = s, tv_useconds = u\<rparr>))"

definition put_entry :: "snfsentry \<Rightarrow> bytes" where
  "put_entry e = le_bytes 8 (ent_fileid e) @ ent_filename e"

definition get_entry :: "snfsentry reader" where
  "get_entry = reads get_u64 (\<lambda>i. reads (get_bytes SNFS_MAX_FILENAME_BUF) (\<lambda>n.
     yields \<lparr>ent_fileid = i, ent_filename = n\<rparr>))"

definition put_fattr :: "fattr \<Rightarrow> bytes" where
  "put_fattr a = le_bytes 4 (ftype_code (fa_type a)) @ le_bytes 8 (fa_mode a) @
     le_bytes 8 (fa_nlink a) @ le_bytes 8 (fa_uid a) @ le_bytes 8 (fa_gid a) @
     le_bytes 8 (fa_size a) @ le_bytes 8 (fa_rdev a) @ le_bytes 8 (fa_fsid a) @
     le_bytes 8 (fa_fileid a) @ put_timeval (fa_atime a) @ put_timeval (fa_mtime a) @
     put_timeval (fa_ctime a)"

text \<open>A file type that is no enumerator cannot be written down; the client never looks at it.\<close>

definition get_fattr :: "fattr reader" where
  "get_fattr = reads get_u32 (\<lambda>t. reads get_u64 (\<lambda>mode. reads get_u64 (\<lambda>nlink.
     reads get_u64 (\<lambda>uid. reads get_u64 (\<lambda>gid. reads get_u64 (\<lambda>sz. reads get_u64 (\<lambda>rdev.
     reads get_u64 (\<lambda>fsid. reads get_u64 (\<lambda>fileid. reads get_timeval (\<lambda>at.
     reads get_timeval (\<lambda>mt. reads get_timeval (\<lambda>ct.
     yields \<lparr>fa_type = (case ftype_of_code t of None \<Rightarrow> SNFNON | Some ty \<Rightarrow> ty), fa_mode = mode,
       fa_nlink = nlink, fa_uid = uid, fa_gid = gid, fa_size = sz, fa_rdev = rdev, fa_fsid = fsid,
       fa_fileid = fileid, fa_atime = at, fa_mtime = mt, fa_ctime = ct\<rparr>))))))))))))"

lemma reads_Some [simp]: "g m = Some (a, r) \<Longrightarrow> reads g k m = k a r"
  by (simp add: reads_def)

lemma reads_None_iff:
  "reads g k m = None \<longleftrightarrow> g m = None \<or> (\<exists>a r. g m = Some (a, r) \<and> k a r = None)"
  by (auto simp: reads_def split: Option.bind_splits)

lemma reads_eq_Some:
  "reads g k m = Some x \<longleftrightarrow> (\<exists>a r. g m = Some (a, r) \<and> k a r = Some x)"
  by (auto simp: reads_def split: Option.bind_splits)

lemma yields_eq [simp]: "yields a m = Some (b, r) \<longleftrightarrow> a = b \<and> m = r"
  by (simp add: yields_def)

lemma yields_not_None [simp]: "yields a m \<noteq> None"
  by (simp add: yields_def)

interpretation bytes_field: field_codec "\<lambda>b. b" "get_bytes n" n "\<lambda>b. length b = n" for n
  by unfold_locales (auto simp: get_bytes_def split: if_splits)

interpretation u32_field: field_codec "le_bytes 4" get_u32 4 "\<lambda>_. True"
  by unfold_locales (auto simp: get_u32_def get_bytes_def split: if_splits)

interpretation u64_field: field_codec "le_bytes 8" get_u64 8 "\<lambda>_. True"
  by unfold_locales (auto simp: get_u64_def get_bytes_def split: if_splits)

lemmas scalar_reads = u32_field.dec_enc u64_field.dec_enc bytes_field.dec_enc
lemmas scalar_widths = u32_field.dec_width u64_field.dec_width bytes_field.dec_width
lemmas scalar_short = u32_field.dec_None_iff u64_field.dec_None_iff bytes_field.dec_None_iff

interpretation timeval_field: field_codec put_timeval get_timeval 16 "\<lambda>_. True"
proof unfold_locales
  show "get_timeval (put_timeval a @ rest) = Some (a, rest)" for a rest
    by (simp add: get_timeval_def put_timeval_def scalar_reads yields_def)
  show "length m = 16 + length rest" if "get_timeval m = Some (a, rest)" for m a rest
    using that by (auto simp: get_timeval_def reads_eq_Some dest!: scalar_widths)
  show "length m < 16" if "get_timeval m = None" for m
    using that by (auto simp: get_timeval_def reads_None_iff scalar_short dest!: scalar_widths)
qed (simp add: put_timeval_def)

interpretation entry_field: field_codec put_entry get_entry 264 "\<lambda>e. length (ent_filename e) = 256"
proof unfold_locales
  show "get_entry (put_entry a @ rest) = Some (a, rest)" if "length (ent_filename a) = 256" for a rest
    using that by (simp add: get_entry_def put_entry_def scalar_reads yields_def)
  show "length m = 264 + length rest" if "get_entry m = Some (a, rest)" for m a rest
    using that by (auto simp: get_entry_def reads_eq_Some dest!: scalar_widths)
  show "length m < 264" if "get_entry m = None" for m
    using that by (auto simp: get_entry_def reads_None_iff scalar_short dest!: scalar_widths)
qed (simp add: put_entry_def)

interpretation fattr_field: field_codec put_fattr get_fattr 116 "\<lambda>_. True"
proof unfold_locales
  show "get_fattr (put_fattr a @ rest) = Some (a, rest)" for a rest
    by (simp add: get_fattr_def put_fattr_def scalar_reads timeval_field.dec_enc yields_def)
  show "length m = 116 + length rest" if "get_fattr m = Some (a, rest)" for m a rest
    using that by (auto simp: get_fattr_def reads_eq_Some dest!: scalar_widths timeval_field.dec_width)
  show "length m < 116" if "get_fattr m = None" for m
    using that by (auto simp: get_fattr_def reads_None_iff scalar_short timeval_field.dec_None_iff
        dest!: scalar_widths timeval_field.dec_width)
qed (simp add: put_fattr_def timeval_field.enc_width)

section \<open>Requests\<close>

text \<open>What the client sends: the type and the arguments, \<open>snfs_req_size\<close> bytes in all.\<close>

fun put_args :: "snfs_req \<Rightarrow> bytes" where
  "put_args Req_noop = []"
| "put_args Req_mount = []"
| "put_args (Req_getattr a) = le_bytes 8 (ga_fh a)"
| "put_args (Req_readdir a) = le_bytes 8 (rd_dir a) @ le_bytes 8 (rd_count a)"
| "put_args (Req_lookup a) = le_bytes 8 (la_dir a) @ la_filename a"
| "put_args (Req_read a) =
     le_bytes 8 (ra_file a) @ le_bytes 8 (ra_offset a) @ le_bytes 8 (ra_count a)"
| "put_args (Req_write a) =
     le_bytes 8 (wa_file a) @ le_bytes 8 (wa_offset a) @ le_bytes 8 (wa_count a) @ wa_data a"
| "put_args (Req_setattr a) =
     le_bytes 8 (sa_file a) @ le_bytes 8 (sa_which a) @ le_bytes 8 (sa_mode a) @
     le_bytes 8 (sa_uid a) @ le_bytes 8 (sa_gid a) @ le_bytes 8 (sa_size a) @
     put_timeval (sa_atime a) @ put_timeval (sa_mtime a)"
| "put_args (Req_create a) = ca_filename a @ le_bytes 4 (ca_mode a)"
| "put_args (Req_remove a) = le_bytes 8 (rm_fh a) @ rm_is_dir a # replicate 7 0"
| "put_args (Req_rename a) = le_bytes 8 (rn_fh a) @ rn_filename a"
| "put_args (Req_mkdir a) = mk_dirname a @ le_bytes 4 (mk_mode a)"
| "put_args (Req_other c) = []"

definition encode_req :: "snfs_req \<Rightarrow> bytes" where
  "encode_req r = le_bytes 4 (req_code r) @ put_args r"

text \<open>
  The server's view of a message. A file name is what lies in the message at the place of the
  array, at most 256 bytes; the data of a WRITE is the rest of the message.
\<close>

definition get_rest :: "nat \<Rightarrow> bytes reader" where
  "get_rest n m = Some (take n m, drop n m)"

definition get_data :: "bytes reader" where
  "get_data m = Some (m, [])"

definition get_args :: "u32 \<Rightarrow> snfs_req reader" where
  "get_args c =
     (case msg_of_code c of
        Some NOOP \<Rightarrow> yields Req_noop
      | Some MOUNT \<Rightarrow> yields Req_mount
      | Some GETATTR \<Rightarrow> reads get_u64 (\<lambda>h. yields (Req_getattr \<lparr>ga_fh = h\<rparr>))
      | Some READDIR \<Rightarrow> reads get_u64 (\<lambda>h. reads get_u64 (\<lambda>n.
          yields (Req_readdir \<lparr>rd_dir = h, rd_count = n\<rparr>)))
      | Some LOOKUP \<Rightarrow> reads get_u64 (\<lambda>h. reads (get_rest SNFS_MAX_FILENAME_BUF) (\<lambda>n.
          yields (Req_lookup \<lparr>la_dir = h, la_filename = n\<rparr>)))
      | Some READ \<Rightarrow> reads get_u64 (\<lambda>h. reads get_u64 (\<lambda>off. reads get_u64 (\<lambda>n.
          yields (Req_read \<lparr>ra_file = h, ra_offset = off, ra_count = n\<rparr>))))
      | Some WRITE \<Rightarrow> reads get_u64 (\<lambda>h. reads get_u64 (\<lambda>off. reads get_u64 (\<lambda>n.
          reads get_data (\<lambda>d.
          yields (Req_write \<lparr>wa_file = h, wa_offset = off, wa_count = n, wa_data = d\<rparr>)))))
      | Some SETATTR \<Rightarrow> reads get_u64 (\<lambda>h. reads get_u64 (\<lambda>which. reads get_u64 (\<lambda>mode.
          reads get_u64 (\<lambda>uid. reads get_u64 (\<lambda>gid. reads get_u64 (\<lambda>sz.
          reads get_timeval (\<lambda>at. reads get_timeval (\<lambda>mt.
          yields (Req_setattr \<lparr>sa_file = h, sa_which = which, sa_mode = mode, sa_uid = uid,
            sa_gid = gid, sa_size = sz, sa_atime = at, sa_mtime = mt\<rparr>)))))))))
      | Some CREATE \<Rightarrow> reads (get_bytes SNFS_MAX_FILENAME_BUF) (\<lambda>n. reads get_u32 (\<lambda>mode.
          yields (Req_create \<lparr>ca_filename = n, ca_mode = mode\<rparr>)))
      | Some REMOVE \<Rightarrow> reads get_u64 (\<lambda>h. reads (get_bytes 1) (\<lambda>b.
          yields (Req_remove \<lparr>rm_fh = h, rm_is_dir = hd b\<rparr>)))
      | Some RENAME \<Rightarrow> reads get_u64 (\<lambda>h. reads (get_rest SNFS_MAX_FILENAME_BUF) (\<lambda>n.
          yields (Req_rename \<lparr>rn_fh = h, rn_filename = n\<rparr>)))
      | Some MKDIR \<Rightarrow> reads (get_bytes SNFS_MAX_FILENAME_BUF) (\<lambda>n. reads get_u32 (\<lambda>mode.
          yields (Req_mkdir \<lparr>mk_dirname = n, mk_mode = mode\<rparr>)))
      | Some ERROR \<Rightarrow> yields (Req_other c)
      | None \<Rightarrow> yields (Req_other c))"

definition decode_req :: "bytes \<Rightarrow> snfs_req option" where
  "decode_req m = map_option fst (reads get_u32 get_args m)"

text \<open>The bytes of the arguments that a handler reads whatever they are.\<close>

fun args_size :: "snfs_msg_type \<Rightarrow> nat" where
  "args_size NOOP = 0"
| "args_size MOUNT = 0"
| "args_size GETATTR = 8"
| "args_size READDIR = 16"
| "args_size LOOKUP = 8"
| "args_size READ = 24"
| "args_size WRITE = 24"
| "args_size SETATTR = 80"
| "args_size CREATE = 260"
| "args_size REMOVE = 9"
| "args_size RENAME = 8"
| "args_size MKDIR = 260"
| "args_size ERROR = 0"

text \<open>A request as the client builds it: name arrays are full, an unknown tag is no enumerator.\<close>

fun req_ok :: "snfs_req \<Rightarrow> bool" where
  "req_ok (Req_lookup a) = (length (la_filename a) = SNFS_MAX_FILENAME_BUF)"
| "req_ok (Req_create a) = (length (ca_filename a) = SNFS_MAX_FILENAME_BUF)"
| "req_ok (Req_rename a) = (length (rn_filename a) = SNFS_MAX_FILENAME_BUF)"
| "req_ok (Req_mkdir a) = (length (mk_dirname a) = SNFS_MAX_FILENAME_BUF)"
| "req_ok (Req_other c) = (msg_of_code c \<in> {None, Some ERROR})"
| "req_ok _ = True"

lemma get_rest_put [simp]: "length n = k \<Longrightarrow> get_rest k n = Some (n, [])"
  by (simp add: get_rest_def)

lemma get_bytes_1 [simp]: "get_bytes (Suc 0) (b # r) = Some ([b], r)"
  by (simp add: get_bytes_def)

lemma get_bytes_put [simp]: "length n = k \<Longrightarrow> get_bytes k (n @ r) = Some (n, r)"
  by (simp add: get_bytes_def)

declare msg_code.simps [simp del]

lemma get_args_other: "msg_of_code c \<in> {None, Some ERROR} \<Longrightarrow> get_args c = yields (Req_other c)"
  by (auto simp: get_args_def split: option.splits)

lemma get_args_put:
  assumes "req_ok r"
  shows "get_args (req_code r) (put_args r) = Some (r, if r \<in> range Req_remove then replicate 7 0 else [])"
proof -
  note [simp] = get_args_def get_data_def scalar_reads yields_def
    u64_field.dec_exact u32_field.dec_exact timeval_field.dec_enc timeval_field.dec_exact
  from assms show ?thesis
    by (cases r) (auto simp: get_args_other)
qed

lemma decode_encode_req: "req_ok r \<Longrightarrow> decode_req (encode_req r) = Some r"
  by (simp add: decode_req_def encode_req_def scalar_reads get_args_put)

text \<open>
  A message is too short exactly when it does not hold its type or the arguments of fixed size
  of its type. Nothing else can make the reading of the arguments leave the message.
\<close>

definition args_needed :: "u32 \<Rightarrow> nat" where
  "args_needed c = (case msg_of_code c of None \<Rightarrow> 0 | Some t \<Rightarrow> args_size t)"

lemma get_args_None: "get_args c m = None \<Longrightarrow> length m < args_needed c"
  by (cases "msg_of_code c"; cases "the (msg_of_code c)")
    (auto simp: get_args_def args_needed_def get_rest_def get_data_def reads_None_iff scalar_short
      timeval_field.dec_None_iff dest!: scalar_widths timeval_field.dec_width)

lemma get_args_Some: "get_args c m = Some (a, r) \<Longrightarrow> args_needed c \<le> length m"
  by (cases "msg_of_code c"; cases "the (msg_of_code c)")
    (auto simp: get_args_def args_needed_def get_rest_def get_data_def reads_eq_Some
      dest!: scalar_widths timeval_field.dec_width)

lemma decode_req_None_iff:
  "decode_req m = None \<longleftrightarrow> length m < 4 \<or> length m < 4 + args_needed (le_word (take 4 m))"
proof (cases "length m < 4")
  case True
  then show ?thesis by (simp add: decode_req_def reads_None_iff u32_field.dec_None_iff)
next
  case False
  then have m: "get_u32 m = Some (le_word (take 4 m), drop 4 m)"
    by (simp add: get_u32_def get_bytes_def)
  show ?thesis
  proof (cases "get_args (le_word (take 4 m)) (drop 4 m)")
    case None
    with m False get_args_None [OF None] show ?thesis by (simp add: decode_req_def)
  next
    case (Some x)
    with m False get_args_Some [of "le_word (take 4 m)" "drop 4 m" "fst x" "snd x"] show ?thesis
      by (simp add: decode_req_def)
  qed
qed

text \<open>What the client passes as the size of each request.\<close>

fun snfs_req_size :: "snfs_req \<Rightarrow> nat" where
  "snfs_req_size (Req_noop) = 4"
| "snfs_req_size (Req_mount) = 4"
| "snfs_req_size (Req_getattr a) = 12"
| "snfs_req_size (Req_readdir a) = 20"
| "snfs_req_size (Req_lookup a) = 268"
| "snfs_req_size (Req_read a) = 28"
| "snfs_req_size (Req_write a) = 28 + length (wa_data a)"
| "snfs_req_size (Req_setattr a) = 84"
| "snfs_req_size (Req_create a) = 264"
| "snfs_req_size (Req_remove a) = 20"
| "snfs_req_size (Req_rename a) = 268"
| "snfs_req_size (Req_mkdir a) = 264"
| "snfs_req_size (Req_other c) = 4"

lemma length_encode_req: "req_ok r \<Longrightarrow> length (encode_req r) = snfs_req_size r"
  by (cases r) (simp_all add: encode_req_def timeval_field.enc_width)

section \<open>Replies\<close>

fun put_rep :: "snfs_rep \<Rightarrow> bytes" where
  "put_rep Rep_noop = []"
| "put_rep (Rep_mount h) = le_bytes 8 h"
| "put_rep (Rep_getattr a) = put_fattr a"
| "put_rep (Rep_readdir r) = le_bytes 8 (dr_num_entries r) @ concat (map put_entry (dr_entries r))"
| "put_rep (Rep_lookup r) = le_bytes 8 (lr_handle r) @ put_fattr (lr_attributes r)"
| "put_rep (Rep_read r) = le_bytes 8 (rr_count r) @ le_bytes 8 (rr_eof r) @ rr_data r"
| "put_rep (Rep_write n) = le_bytes 8 n"
| "put_rep (Rep_setattr w) = le_bytes 8 w"
| "put_rep (Rep_create h) = le_bytes 8 h"
| "put_rep Rep_remove = []"
| "put_rep (Rep_rename h) = le_bytes 8 h"
| "put_rep (Rep_mkdir h) = le_bytes 8 h"
| "put_rep (Rep_error e) = le_bytes 4 (error_code e)"

definition encode_rep :: "snfs_rep \<Rightarrow> bytes" where
  "encode_rep r = le_bytes 4 (rep_code r) @ put_rep r"

fun get_entries :: "nat \<Rightarrow> snfsentry list reader" where
  "get_entries 0 = yields []"
| "get_entries (Suc n) = reads get_entry (\<lambda>e. reads (get_entries n) (\<lambda>es. yields (e # es)))"

text \<open>
  The client reads the member that belongs to the type of its request, once the type of the reply
  is known to be the same; an error code that is no enumerator is only printed.
\<close>

definition get_rep :: "u32 \<Rightarrow> snfs_rep reader" where
  "get_rep c =
     (case msg_of_code c of
        Some NOOP \<Rightarrow> yields Rep_noop
      | Some MOUNT \<Rightarrow> reads get_u64 (\<lambda>h. yields (Rep_mount h))
      | Some GETATTR \<Rightarrow> reads get_fattr (\<lambda>a. yields (Rep_getattr a))
      | Some READDIR \<Rightarrow> reads get_u64 (\<lambda>n. reads (get_entries (unat n)) (\<lambda>es.
          yields (Rep_readdir \<lparr>dr_num_entries = n, dr_entries = es\<rparr>)))
      | Some LOOKUP \<Rightarrow> reads get_u64 (\<lambda>h. reads get_fattr (\<lambda>a.
          yields (Rep_lookup \<lparr>lr_handle = h, lr_attributes = a\<rparr>)))
      | Some READ \<Rightarrow> reads get_u64 (\<lambda>n. reads get_u64 (\<lambda>eof. reads get_data (\<lambda>d.
          yields (Rep_read \<lparr>rr_count = n, rr_eof = eof, rr_data = d\<rparr>))))
      | Some WRITE \<Rightarrow> reads get_u64 (\<lambda>n. yields (Rep_write n))
      | Some SETATTR \<Rightarrow> reads get_u64 (\<lambda>w. yields (Rep_setattr w))
      | Some CREATE \<Rightarrow> reads get_u64 (\<lambda>h. yields (Rep_create h))
      | Some REMOVE \<Rightarrow> yields Rep_remove
      | Some RENAME \<Rightarrow> reads get_u64 (\<lambda>h. yields (Rep_rename h))
      | Some MKDIR \<Rightarrow> reads get_u64 (\<lambda>h. yields (Rep_mkdir h))
      | Some ERROR \<Rightarrow> reads get_u32 (\<lambda>e. yields (Rep_error
          (case error_of_code e of None \<Rightarrow> SNFS_EINTERNAL | Some er \<Rightarrow> er)))
      | None \<Rightarrow> (\<lambda>m. None))"

definition decode_rep :: "bytes \<Rightarrow> snfs_rep option" where
  "decode_rep m = map_option fst (reads get_u32 get_rep m)"

fun rep_ok :: "snfs_rep \<Rightarrow> bool" where
  "rep_ok (Rep_readdir r) =
     (length (dr_entries r) = unat (dr_num_entries r) \<and>
      (\<forall>e \<in> set (dr_entries r). length (ent_filename e) = SNFS_MAX_FILENAME_BUF))"
| "rep_ok _ = True"

lemma get_entries_put:
  "\<forall>e \<in> set es. length (ent_filename e) = 256 \<Longrightarrow>
   get_entries (length es) (concat (map put_entry es) @ rest) = Some (es, rest)"
  by (induction es) (auto simp: entry_field.dec_enc yields_def)

lemma get_rep_put:
  assumes "rep_ok r"
  shows "get_rep (rep_code r) (put_rep r) = Some (r, [])"
proof -
  note [simp] = get_rep_def get_data_def scalar_reads yields_def fattr_field.dec_exact
    u64_field.dec_exact u32_field.dec_exact
  have "get_entries (unat n) (concat (map put_entry es)) = Some (es, [])"
    if "length es = unat n" "\<forall>e \<in> set es. length (ent_filename e) = 256" for n :: u64 and es
    using get_entries_put [of es "[]"] that by simp
  with assms show ?thesis by (cases r) auto
qed

lemma decode_encode_rep: "rep_ok r \<Longrightarrow> decode_rep (encode_rep r) = Some r"
  by (simp add: decode_rep_def encode_rep_def scalar_reads get_rep_put)

text \<open>What the server passes as the size of each reply.\<close>

fun snfs_rep_size :: "snfs_rep \<Rightarrow> nat" where
  "snfs_rep_size Rep_noop = 4"
| "snfs_rep_size (Rep_mount h) = 12"
| "snfs_rep_size (Rep_getattr a) = 120"
| "snfs_rep_size (Rep_readdir r) = 12 + 264 * length (dr_entries r)"
| "snfs_rep_size (Rep_lookup r) = 128"
| "snfs_rep_size (Rep_read r) = 20 + length (rr_data r)"
| "snfs_rep_size (Rep_write n) = 12"
| "snfs_rep_size (Rep_setattr w) = 12"
| "snfs_rep_size (Rep_create h) = 12"
| "snfs_rep_size Rep_remove = 4"
| "snfs_rep_size (Rep_rename h) = 12"
| "snfs_rep_size (Rep_mkdir h) = 12"
| "snfs_rep_size (Rep_error e) = 8"

lemma length_put_entries:
  "\<forall>e \<in> set es. length (ent_filename e) = 256 \<Longrightarrow>
   length (concat (map put_entry es)) = 264 * length es"
  by (induction es) (auto simp: entry_field.enc_width)

lemma length_encode_rep: "rep_ok r \<Longrightarrow> length (encode_rep r) = snfs_rep_size r"
  by (cases r) (simp_all add: encode_rep_def fattr_field.enc_width length_put_entries)

end
