(* ===== verification/Serve_Loop.thy ===== *)
theory Serve_Loop
  imports Handler_Spec Wire
begin

text \<open>
  The server's main loop, \<open>serve_loop\<close> of \<open>src/server/main.c\<close>. Messages arrive as bytes; the
  loop reads the type, hands the arguments to the handler of that type and goes on until SIGTERM or
  a failed receive, then closes the database. What the transport delivers is a list of events.

  \<open>serve_one\<close> is one turn of the loop. It is undefined for a message too short for what its
  type makes the handlers read: the loop compares the size with the type's only to choose
  the name it prints. \<open>served\<close> is the step relation of the server and \<open>reachable\<close> the states
  it can get to, and the invariant of the handle table is proved over it by rule induction.
\<close>

section \<open>One request\<close>

fun dispatch :: "('w, 'd) env \<Rightarrow> snfs_req \<Rightarrow> ('w, 'd, unit) srv" where
  "dispatch E Req_noop = handle_noop"
| "dispatch E Req_mount = handle_mount E"
| "dispatch E (Req_getattr a) = handle_getattr E a"
| "dispatch E (Req_readdir a) = handle_readdir E a"
| "dispatch E (Req_lookup a) = handle_lookup E a"
| "dispatch E (Req_read a) = handle_read E a"
| "dispatch E (Req_write a) = handle_write E a"
| "dispatch E (Req_setattr a) = handle_setattr E a"
| "dispatch E (Req_create a) = handle_create E a"
| "dispatch E (Req_remove a) = handle_remove E a"
| "dispatch E (Req_rename a) = handle_rename E a"
| "dispatch E (Req_mkdir a) = handle_mkdir E a"
| "dispatch E (Req_other c) = handle_unimplemented c"

definition serve_one :: "('w, 'd) env \<Rightarrow> bytes \<Rightarrow> ('w, 'd, unit) srv" where
  "serve_one E m = (case decode_req m of None \<Rightarrow> undefined_behaviour | Some req \<Rightarrow> dispatch E req)"

section \<open>The loop\<close>

datatype event =
    Sigterm            \<comment> \<open>the signal handler has set \<open>terminated\<close>\<close>
  | Recv_failed        \<comment> \<open>\<open>nn_recv\<close> returned a negative number\<close>
  | Message bytes

text \<open>The result says whether the loop ended by SIGTERM; without events it waits in \<open>nn_recv\<close>.\<close>

fun loop :: "('w, 'd) env \<Rightarrow> event list \<Rightarrow> ('w, 'd, bool) srv" where
  "loop E [] = (\<lambda>s. Spins)"
| "loop E (Sigterm # evs) = ret True"
| "loop E (Recv_failed # evs) = ret False"
| "loop E (Message m # evs) = andthen (serve_one E m) (loop E evs)"

text \<open>\<open>sock\<close> and \<open>bound\<close> are the results of \<open>nn_socket\<close> and \<open>nn_bind\<close>. The state is that at \<open>exit(0)\<close>.\<close>

definition serve_loop ::
    "('w, 'd) env \<Rightarrow> int \<Rightarrow> int \<Rightarrow> event list \<Rightarrow> ('w, 'd, bool) srv" where
  "serve_loop E sock bound evs =
     (if sock < 0 then err_exit
      else if bound < 0 then err_exit
      else bnd (loop E evs) (\<lambda>terminated.
        andthen (destroy_db E False)
        (ret terminated)))"

section \<open>One reply for each request\<close>

fun heap_leak :: "snfs_req \<Rightarrow> int" where
  "heap_leak (Req_remove a) = 1"
| "heap_leak (Req_rename a) = 1"
| "heap_leak r = 0"

fun fd_leak :: "snfs_req \<Rightarrow> nat" where
  "fd_leak (Req_readdir a) = 1"
| "fd_leak (Req_create a) = 1"
| "fd_leak r = 0"

definition accounted :: "snfs_req \<Rightarrow> ('w, 'd) server \<Rightarrow> ('w, 'd) server \<Rightarrow> bool" where
  "accounted req s s' \<longleftrightarrow> answered (req_code req) (heap_leak req) (fd_leak req) s s' \<or>
     failed s' \<and> answered (req_code req) 0 0 s s'"

lemma dispatch_accounted: "wp (dispatch E req) (\<lambda>_. accounted req s) s"
proof (cases req)
  case (Req_other c)
  then show ?thesis
    by (simp add: handle_unimplemented_def accounted_def answered_def)
qed (auto simp: accounted_def intro: wp_mono [OF handle_noop_shape] wp_mono [OF handle_mount_shape]
    wp_mono [OF handle_getattr_shape] wp_mono [OF handle_readdir_shape]
    wp_mono [OF handle_lookup_shape] wp_mono [OF handle_read_shape] wp_mono [OF handle_write_shape]
    wp_mono [OF handle_setattr_shape] wp_mono [OF handle_create_shape]
    wp_mono [OF handle_remove_shape] wp_mono [OF handle_rename_shape]
    wp_mono [OF handle_mkdir_shape])

definition answers :: "bytes \<Rightarrow> snfs_rep \<Rightarrow> bool" where
  "answers m r \<longleftrightarrow> (\<exists>req. decode_req m = Some req \<and> (rep_code r = req_code req \<or> (\<exists>e. r = Rep_error e)))"

lemma serve_one_answers: "wp (serve_one E m) (\<lambda>_ s'. \<exists>r. sent s' = sent s @ [r] \<and> answers m r) s"
  unfolding serve_one_def
  by (auto split: option.splits simp: answers_def
      intro!: wp_mono [OF dispatch_accounted] simp: accounted_def answered_def)

text \<open>The messages the loop takes before it stops.\<close>

fun messages :: "event list \<Rightarrow> bytes list" where
  "messages (Message m # evs) = m # messages evs"
| "messages _ = []"

lemma loop_answers:
  "wp (loop E evs) (\<lambda>_ s'. \<exists>rs. sent s' = sent s @ rs \<and> list_all2 answers (messages evs) rs) s"
proof (induction evs arbitrary: s rule: messages.induct)
  case (1 m evs)
  show ?case
    by (auto intro!: wp_mono [OF serve_one_answers] wp_mono [OF "1.IH"])
qed (simp_all add: wp_def ret_def)

lemma destroy_db_frame:
  "wp (destroy_db E b) (\<lambda>_ s'. sent s' = sent s \<and> live s' = live s \<and> fds s' = fds s) s"
  by (auto simp: destroy_db_def wp_def split: prod.splits outcome.splits)

lemma serve_loop_answers:
  "wp (serve_loop E sock bound evs)
    (\<lambda>_ s'. \<exists>rs. sent s' = sent s @ rs \<and> list_all2 answers (messages evs) rs) s"
  by (auto simp: serve_loop_def intro!: wp_mono [OF loop_answers] wp_mono [OF destroy_db_frame])

section \<open>The invariant of the handle table\<close>

text \<open>
  The table is kept as long as no path of seven bytes is handed out, since such a path and its terminator
  look like a handle. \<open>table_inv\<close> is the invariant, \<open>admissible\<close> the requests that cannot break it.
\<close>

definition no_seven :: "table \<Rightarrow> bool" where
  "no_seven f \<longleftrightarrow> (\<forall>n \<in> ran f. length n \<noteq> 7)"

definition table_inv :: "('w, 'd) env \<Rightarrow> table \<Rightarrow> ('w, 'd) server \<Rightarrow> bool" where
  "table_inv E f s \<longleftrightarrow> db_repr E s f \<and> no_seven f"

fun admissible :: "table \<Rightarrow> snfs_req \<Rightarrow> bool" where
  "admissible f (Req_lookup a) = (\<forall>d n. f (la_dir a) = Some d \<longrightarrow> cstr_of (la_filename a) = Some n \<longrightarrow>
     length (path_join d n) \<noteq> 7)"
| "admissible f (Req_create a) = (\<forall>n. cstr_of (ca_filename a) = Some n \<longrightarrow> length n \<noteq> 7)"
| "admissible f (Req_rename a) = (\<forall>n. cstr_of (rn_filename a) = Some n \<longrightarrow> length n \<noteq> 7)"
| "admissible f (Req_mkdir a) = (\<forall>n. cstr_of (mk_dirname a) = Some n \<longrightarrow> length n \<noteq> 7)"
| "admissible f _ = True"

lemma no_seven_genuine: "no_seven f \<Longrightarrow> genuine_handle f h"
  by (auto simp: no_seven_def genuine_handle_def dest: arg_cong [where f = length])

lemma no_seven_insert: "no_seven f \<Longrightarrow> length n \<noteq> 7 \<Longrightarrow> inserted n h f f' \<Longrightarrow> no_seven f'"
  by (auto simp: no_seven_def inserted_ran)

lemma no_seven_forget: "no_seven f \<Longrightarrow> no_seven (forget n f)"
  by (auto simp: no_seven_def forget_ran)

lemma inv_upd [simp]:
  "table_inv E f (s\<lparr>live := l\<rparr>) = table_inv E f s"
  "table_inv E f (s\<lparr>world := w\<rparr>) = table_inv E f s"
  "table_inv E f (s\<lparr>sent := t\<rparr>) = table_inv E f s"
  "table_inv E f (s\<lparr>fds := l'\<rparr>) = table_inv E f s"
  by (simp_all add: table_inv_def)

lemma get_file_inv:
  assumes "table_inv E f s"
  shows "wp (get_file E h) (\<lambda>r s'. table_inv E f s' \<and> r = map_option zstr (f h)) s"
  using assms fhdb.get_spec [of E s f h] no_seven_genuine [of f h]
  by (auto simp: table_inv_def elim!: wp_mono)

lemma insert_inv:
  assumes "table_inv E f s" "length n \<noteq> 7" "cstring n"
  shows "wp (name_find_or_insert E n) (\<lambda>h s'. \<exists>f'. table_inv E f' s' \<and> ran f' = insert n (ran f)) s"
  using assms fhdb.insert_spec [of E s f n] no_seven_insert [of f n] inserted_ran [of n _ f]
  by (fastforce simp: table_inv_def db_clear_length elim!: wp_mono)

lemma remove_inv:
  assumes "table_inv E f s" "n \<in> ran f"
  shows "wp (name_remove E n) (\<lambda>b s'. \<exists>f'. table_inv E f' s') s"
proof -
  have n: "cstring n" "length n \<noteq> 7"
    using assms fhdb.repr_cstring [of E s f n] by (auto simp: table_inv_def no_seven_def)
  show ?thesis
    using assms(1) fhdb.remove_spec [of E s f n] n no_seven_forget [of f n]
    by (auto simp: table_inv_def db_clear_length elim!: wp_mono)
qed

text \<open>A handler that resolves a handle goes on with a path of the table, or is done.\<close>

lemma resolve_inv:
  assumes "table_inv E f s"
    and "\<And>n s'. f h = Some n \<Longrightarrow> n \<in> ran f \<Longrightarrow> table_inv E f s' \<Longrightarrow> world s' = world s \<Longrightarrow>
      wp (g n) (\<lambda>_ s''. \<exists>f'. table_inv E f' s'') s'"
  shows "wp (bnd (get_file E h) (\<lambda>file. case file of None \<Rightarrow> handle_error SNFS_ENOENT
      | Some m \<Rightarrow> bnd (as_cstr m) g)) (\<lambda>_ s''. \<exists>f'. table_inv E f' s'') s"
proof -
  have c: "cstr_of (zstr n) = Some n" if "n \<in> ran f" for n
    using assms(1) fhdb.repr_cstring [of E s f n] that by (simp add: table_inv_def)
  show ?thesis
    unfolding wp_rules
    by (rule wp_mono [OF wp_conj [OF get_file_inv [OF assms(1)] get_file_frame]])
      (auto simp: c ranI db_only_def intro: assms(2) split: option.splits)
qed

lemma world_only_inv: "world_only s s' \<Longrightarrow> table_inv E f s' = table_inv E f s"
  by (simp add: table_inv_def world_onlyD)

lemma mount_inv: "table_inv E f s \<Longrightarrow> wp (handle_mount E) (\<lambda>_ s'. \<exists>f'. table_inv E f' s') s"
  by (auto simp: handle_mount_def root_path_def cstring_def intro!: wp_mono [OF insert_inv])

lemma getattr_inv: "table_inv E f s \<Longrightarrow> wp (handle_getattr E a) (\<lambda>_ s'. \<exists>f'. table_inv E f' s') s"
  unfolding handle_getattr_def by (rule resolve_inv) (auto split: sum.splits)

lemma readdir_inv:
  assumes "table_inv E f s"
  shows "wp (handle_readdir E a) (\<lambda>_ s'. \<exists>f'. table_inv E f' s') s"
  unfolding handle_readdir_def
  by (rule resolve_inv [OF assms])
    (auto split: sum.splits simp: world_only_inv intro!: wp_mono [OF readdir_loop_frame])

lemma lookup_inv:
  assumes "table_inv E f s" "admissible f (Req_lookup a)"
  shows "wp (handle_lookup E a) (\<lambda>_ s'. \<exists>f'. table_inv E f' s') s"
proof -
  have c: "n \<in> ran f \<Longrightarrow> cstring n" for n
    using assms(1) fhdb.repr_cstring [of E s f n] by (simp add: table_inv_def)
  show ?thesis
    unfolding handle_lookup_def
    by (rule resolve_inv [OF assms(1)])
      (use assms(2) in \<open>auto split: sum.splits dest: c cstr_of_cstring
        intro: path_join_cstring intro!: wp_mono [OF insert_inv]\<close>)
qed

lemma read_inv: "table_inv E f s \<Longrightarrow> wp (handle_read E a) (\<lambda>_ s'. \<exists>f'. table_inv E f' s') s"
  unfolding handle_read_def by (rule resolve_inv) (auto split: sum.splits)

lemma write_inv: "table_inv E f s \<Longrightarrow> wp (handle_write E a) (\<lambda>_ s'. \<exists>f'. table_inv E f' s') s"
  unfolding handle_write_def by (rule resolve_inv) (auto split: sum.splits)

lemma setattr_inv: "table_inv E f s \<Longrightarrow> wp (handle_setattr E a) (\<lambda>_ s'. \<exists>f'. table_inv E f' s') s"
  unfolding handle_setattr_def
  by (rule resolve_inv) (auto split: sum.splits simp: world_only_inv
      intro!: wp_mono [OF set_attributes_frame])

lemma create_inv:
  assumes "table_inv E f s" "admissible f (Req_create a)"
  shows "wp (handle_create E a) (\<lambda>_ s'. \<exists>f'. table_inv E f' s') s"
  unfolding handle_create_def
  using assms by (auto split: sum.splits intro: cstr_of_cstring intro!: wp_mono [OF insert_inv])

lemma mkdir_inv:
  assumes "table_inv E f s" "admissible f (Req_mkdir a)"
  shows "wp (handle_mkdir E a) (\<lambda>_ s'. \<exists>f'. table_inv E f' s') s"
  unfolding handle_mkdir_def
  using assms by (auto split: option.splits intro: cstr_of_cstring intro!: wp_mono [OF insert_inv])

lemma remove_req_inv: "table_inv E f s \<Longrightarrow> wp (handle_remove E a) (\<lambda>_ s'. \<exists>f'. table_inv E f' s') s"
  unfolding handle_remove_def
  by (rule resolve_inv) (auto split: sum.splits option.splits intro!: wp_mono [OF remove_inv])

lemma rename_inv:
  assumes "table_inv E f s" "admissible f (Req_rename a)"
  shows "wp (handle_rename E a) (\<lambda>_ s'. \<exists>f'. table_inv E f' s') s"
proof -
  have rem: "wp (name_remove E n) (\<lambda>b s''. \<exists>f'. table_inv E f' s'') s'"
    if "n \<in> ran f" "\<exists>f'. table_inv E f' s' \<and> ran f \<subseteq> ran f'" for n s'
    using that remove_inv by blast
  show ?thesis
    unfolding handle_rename_def
    by (rule resolve_inv [OF assms(1)])
      (use assms(2) in \<open>auto split: option.splits intro: cstr_of_cstring
        intro!: wp_mono [OF insert_inv] wp_mono [OF rem]\<close>; blast)
qed

lemma dispatch_inv:
  assumes "table_inv E f s" "admissible f req"
  shows "wp (dispatch E req) (\<lambda>_ s'. \<exists>f'. table_inv E f' s') s"
  using assms
  by (cases req) (auto simp: handle_noop_def handle_unimplemented_def simp del: admissible.simps
    intro: mount_inv getattr_inv readdir_inv lookup_inv read_inv write_inv setattr_inv create_inv
      mkdir_inv remove_req_inv rename_inv)

section \<open>The server as a transition system\<close>

text \<open>
  \<open>served E s m s'\<close>: in state \<open>s\<close> the message \<open>m\<close> arrives and is answered, and the loop is back
  at the receive in state \<open>s'\<close>.
\<close>

inductive served :: "('w, 'd) env \<Rightarrow> ('w, 'd) server \<Rightarrow> bytes \<Rightarrow> ('w, 'd) server \<Rightarrow> bool"
  for E :: "('w, 'd) env" where
  serve: "decode_req m = Some req \<Longrightarrow> dispatch E req s = Ret () s' \<Longrightarrow> served E s m s'"

inductive_cases servedE: "served E s m s'"

inductive_simps served_iff: "served E s m s'"

inductive reachable :: "('w, 'd) env \<Rightarrow> ('w, 'd) server \<Rightarrow> bytes list \<Rightarrow> ('w, 'd) server \<Rightarrow> bool"
  for E :: "('w, 'd) env" and s0 :: "('w, 'd) server" where
  start: "reachable E s0 [] s0"
| turn: "reachable E s0 ms s \<Longrightarrow> served E s m s' \<Longrightarrow> reachable E s0 (ms @ [m]) s'"

lemma served_serve_one: "served E s m s' \<longleftrightarrow> serve_one E m s = Ret () s'"
  by (auto simp: served_iff serve_one_def undefined_behaviour_def split: option.splits)

text \<open>The loop takes exactly the turns of the transition system.\<close>

lemma loop_reachable:
  "loop E (map Message ms @ [Sigterm]) s = Ret b s' \<Longrightarrow> reachable E s0 ns s \<Longrightarrow>
   b \<and> reachable E s0 (ns @ ms) s'"
proof (induction ms arbitrary: s ns)
  case Nil
  then show ?case by (simp add: ret_def)
next
  case (Cons m ms)
  from Cons.prems(1) obtain s1 where "serve_one E m s = Ret () s1"
      "loop E (map Message ms @ [Sigterm]) s1 = Ret b s'"
    by (auto simp: andthen_def bnd_def split: outcome.splits)
  moreover from this Cons.prems(2) have "reachable E s0 (ns @ [m]) s1"
    by (auto simp: served_serve_one intro: reachable.turn)
  ultimately show ?case
    using Cons.IH [of s1 "ns @ [m]"] by simp
qed

definition admissible_msg :: "table \<Rightarrow> bytes \<Rightarrow> bool" where
  "admissible_msg f m \<longleftrightarrow> (\<forall>req. decode_req m = Some req \<longrightarrow> admissible f req)"

text \<open>
  \<open>admissible_run E s0 ms\<close>: each message of the run is admissible when it is served, for the table that
  the database holds then.
\<close>

definition admissible_run :: "('w, 'd) env \<Rightarrow> ('w, 'd) server \<Rightarrow> bytes list \<Rightarrow> bool" where
  "admissible_run E s0 ms \<longleftrightarrow> (\<forall>ns m ls s f. ms = ns @ m # ls \<longrightarrow> reachable E s0 ns s \<longrightarrow>
     db_repr E s f \<longrightarrow> admissible_msg f m)"

lemma admissible_run_butlast: "admissible_run E s0 (ms @ [m]) \<Longrightarrow> admissible_run E s0 ms"
  unfolding admissible_run_def by (metis append_Cons append_assoc)

lemma reachable_inv:
  assumes "reachable E s0 ms s" "table_inv E f0 s0" "admissible_run E s0 ms"
  shows "\<exists>f. table_inv E f s"
  using assms
proof (induction rule: reachable.induct)
  case start
  then show ?case by blast
next
  case (turn ms s m s')
  then obtain f where f: "table_inv E f s" by (blast dest: admissible_run_butlast)
  from turn.hyps(2) obtain req where req: "decode_req m = Some req" "dispatch E req s = Ret () s'"
    by (rule servedE)
  from f turn.hyps(1) turn.prems(2) have "admissible_msg f m"
    unfolding admissible_run_def by (metis append_Nil2 table_inv_def)
  with req(1) have "admissible f req" by (simp add: admissible_msg_def)
  from wp_Ret [OF dispatch_inv [OF f this] req(2)] show ?case .
qed

lemma reachable_answers:
  "reachable E s0 ms s \<Longrightarrow> \<exists>rs. sent s = sent s0 @ rs \<and> list_all2 answers ms rs"
proof (induction rule: reachable.induct)
  case start
  then show ?case by simp
next
  case (turn ms s m s')
  from turn.IH obtain rs where "sent s = sent s0 @ rs" "list_all2 answers ms rs" by auto
  moreover from wp_Ret [OF serve_one_answers, of E m s] turn.hyps(2)
  obtain r where "sent s' = sent s @ [r]" "answers m r" by (auto simp: served_serve_one)
  ultimately show ?case
    by (intro exI [of _ "rs @ [r]"]) (auto intro: list_all2_appendI)
qed

end
