(* ===== verification/Serve_Total.thy ===== *)
theory Serve_Total
  imports Serve_Loop File_Store
begin

text \<open>
  The server answers. The lemmas of \<open>Serve_Loop\<close> say what is the case when a handler returns; those of
  this theory say that it does: over a represented table, with a working database, memory and one
  fresh draw, every handler returns on every request whose arguments are what the C code takes
  them for (\<open>req_fits\<close>), whichever system calls fail. \<open>serving\<close> is the invariant that carries this
  from one request to the next, so that the loop itself returns.
\<close>

section \<open>What a request must be like\<close>

text \<open>
  Nothing in the handlers checks these conditions: a name array with a terminator in it, a write
  that carries as many bytes as it says, and arrays that fit the stack. A path of seven
  bytes would be taken for a handle, and of an empty directory path the last byte is read.
\<close>

definition fit_path :: "path \<Rightarrow> bool" where
  "fit_path n \<longleftrightarrow> n \<noteq> [] \<and> length n \<noteq> 7"

fun req_fits :: "('w, 'd) env \<Rightarrow> table \<Rightarrow> snfs_req \<Rightarrow> bool" where
  "req_fits E f (Req_lookup a) =
     (case cstr_of (la_filename a) of None \<Rightarrow> False
      | Some n \<Rightarrow> (case f (la_dir a) of None \<Rightarrow> True | Some d \<Rightarrow> fit_path (path_join d n)))"
| "req_fits E f (Req_create a) =
     (case cstr_of (ca_filename a) of None \<Rightarrow> False | Some n \<Rightarrow> fit_path n)"
| "req_fits E f (Req_rename a) =
     (case cstr_of (rn_filename a) of None \<Rightarrow> False | Some n \<Rightarrow> fit_path n)"
| "req_fits E f (Req_mkdir a) =
     (case cstr_of (mk_dirname a) of None \<Rightarrow> False | Some n \<Rightarrow> fit_path n)"
| "req_fits E f (Req_read a) = stack_ok E (8 * unat (ra_count a))"
| "req_fits E f (Req_readdir a) = stack_ok E (sizeof_snfsentry * unat (rd_count a))"
| "req_fits E f (Req_write a) = (unat (wa_count a) \<le> length (wa_data a))"
| "req_fits E f _ = True"

section \<open>The invariant\<close>

definition good_table :: "table \<Rightarrow> bool" where
  "good_table f \<longleftrightarrow> (\<forall>n \<in> ran f. fit_path n)"

lemma good_table_no_seven: "good_table f \<Longrightarrow> no_seven f"
  by (simp add: good_table_def no_seven_def fit_path_def)

lemma good_table_insert: "good_table f \<Longrightarrow> fit_path n \<Longrightarrow> inserted n h f f' \<Longrightarrow> good_table f'"
  by (simp add: good_table_def inserted_ran)

lemma good_table_forget: "good_table f \<Longrightarrow> good_table (forget n f)"
  by (simp add: good_table_def forget_ran)

lemma fit_path_clear: "fit_path n \<Longrightarrow> db_clear s f n"
  by (simp add: fit_path_def db_clear_length)

definition serving :: "('w, 'd) env \<Rightarrow> nat \<Rightarrow> table \<Rightarrow> ('w, 'd) server \<Rightarrow> bool" where
  "serving E k f s \<longleftrightarrow> db_repr E s f \<and> good_table f \<and> fresh_supply E s k"

abbreviation serves :: "('w, 'd) env \<Rightarrow> nat \<Rightarrow> ('w, 'd) server \<Rightarrow> bool" where
  "serves E k s \<equiv> \<exists>f. serving E k f s"

lemma supply_upd [simp]:
  "fresh_supply E (s\<lparr>live := l\<rparr>) k = fresh_supply E s k"
  "fresh_supply E (s\<lparr>world := w\<rparr>) k = fresh_supply E s k"
  "fresh_supply E (s\<lparr>sent := t\<rparr>) k = fresh_supply E s k"
  "fresh_supply E (s\<lparr>fds := l'\<rparr>) k = fresh_supply E s k"
  by (simp_all add: fresh_supply_def fresh_set_def)

lemma serving_upd [simp]:
  "serving E k f (s\<lparr>live := l\<rparr>) = serving E k f s"
  "serving E k f (s\<lparr>world := w\<rparr>) = serving E k f s"
  "serving E k f (s\<lparr>sent := t\<rparr>) = serving E k f s"
  "serving E k f (s\<lparr>fds := l'\<rparr>) = serving E k f s"
  by (simp_all add: serving_def)

lemma serving_world_only: "world_only s s' \<Longrightarrow> serving E k f s' = serving E k f s"
  by (simp add: serving_def db_repr_def fresh_supply_def fresh_set_def world_only_def)

lemma serving_less: "serving E (Suc k) f s \<Longrightarrow> serving E k f s"
  by (simp add: serving_def fresh_supply_mono)

lemma serving_clear: "serving E k f s \<Longrightarrow> n \<in> ran f \<Longrightarrow> db_clear s f n"
  by (simp add: serving_def good_table_def fit_path_clear)

lemma serving_cstr: "serving E k f s \<Longrightarrow> n \<in> ran f \<Longrightarrow> cstring n"
  using fhdb.repr_cstring by (auto simp: serving_def)

section \<open>The handle database\<close>

lemma insert_serving:
  assumes "env_ok E" "serving E (Suc k) f s" "fit_path n" "cstring n"
  shows "twp (name_find_or_insert E n) (\<lambda>h s'. \<exists>f'. serving E k f' s' \<and> ran f' = insert n (ran f)) s"
proof -
  have R: "db_repr E s f" "good_table f" "fresh_supply E s (Suc k)"
    using assms(2) by (simp_all add: serving_def)
  show ?thesis
    by (rule twp_mono [OF twp_wp_conj [OF
          name_find_or_insert_spec [OF assms(1) R(1) fit_path_clear [OF assms(3)] assms(4) fresh_supply_draw [OF R(3)]]
          name_find_or_insert_supply [OF env_ok_laws [OF assms(1)] fit_path_clear [OF assms(3), of s f] R(3)]]])
      (auto simp: serving_def table_step_def inserted_ran dest: good_table_insert [OF R(2) assms(3)])
qed

lemma init_db_rnd: "wp (init_db_if_needed E) (\<lambda>_ s'. rnd s' = rnd s) s"
  by (auto simp: init_db_if_needed_def wp_def split: prod.splits outcome.splits)

lemma name_remove_rnd:
  assumes "libdb_laws E" shows "wp (name_remove E n) (\<lambda>_ s'. rnd s' = rnd s) s"
  unfolding name_remove_def wp_rules
  by (rule wp_mono [OF init_db_rnd], rule wp_mono [OF find_db_view [OF assms]])
    (auto split: option.splits)

text \<open>Forgetting a path frees keys, so what was a fresh draw stays one.\<close>

lemma fresh_supply_forget:
  assumes "db_repr E s f" "db_repr E s' (forget n f)" "rnd s' = rnd s" "fresh_supply E s k"
  shows "fresh_supply E s' k"
proof -
  have old: "db_view E (dbst s') k = None" if "db_view E (dbst s) k = None" for k
  proof -
    have holds: "db_holds (db_view E (dbst s)) f" "db_holds (db_view E (dbst s')) (forget n f)"
      using assms(1,2) by (simp_all add: db_repr_def)
    have "False" if "f h = Some m" "k = le_bytes 8 h \<or> k = zstr m" for h m
      using holds(1) that \<open>db_view E (dbst s) k = None\<close> unfolding db_holds_def by auto
    then show ?thesis
      using holds(2) unfolding db_holds_def by (metis forget_Some)
  qed
  have "fresh_set E s \<subseteq> fresh_set E s'"
    using old assms(3) by (auto simp: fresh_set_def)
  moreover have "finite (fresh_set E s')" by (simp add: fresh_set_def)
  ultimately show ?thesis
    using assms(4) card_mono [of "fresh_set E s'" "fresh_set E s"] by (simp add: fresh_supply_def)
qed

lemma remove_serving:
  assumes "env_ok E" "serving E k f s" "n \<in> ran f"
  shows "twp (name_remove E n) (\<lambda>b s'. b \<and> serves E k s') s"
proof -
  have R: "db_repr E s f" "good_table f" "fresh_supply E s k"
    using assms(2) by (simp_all add: serving_def)
  show ?thesis
    by (rule twp_mono [OF twp_wp_conj [OF
          name_remove_spec [OF assms(1) R(1) serving_clear [OF assms(2,3)] assms(3)]
          name_remove_rnd [OF env_ok_laws [OF assms(1)]]]])
      (use R good_table_forget [OF R(2)] fresh_supply_forget [OF R(1) _ _ R(3)] in
        \<open>auto simp: serving_def table_step_def\<close>)
qed

section \<open>Every handler returns\<close>

text \<open>A handler that resolves a handle is done, or goes on with a path of the table.\<close>

lemma resolve_serving:
  assumes "env_ok E" "serving E k f s"
    and "\<And>n s'. f h = Some n \<Longrightarrow> n \<in> ran f \<Longrightarrow> serving E k f s' \<Longrightarrow> world s' = world s \<Longrightarrow>
      twp (g n) (\<lambda>_ s''. serves E l s'') s'"
    and "l \<le> k"
  shows "twp (bnd (get_file E h) (\<lambda>file. case file of None \<Rightarrow> handle_error SNFS_ENOENT
      | Some m \<Rightarrow> bnd (as_cstr m) g)) (\<lambda>_ s''. serves E l s'') s"
proof -
  have R: "db_repr E s f" "good_table f" "fresh_supply E s k"
    using assms(2) by (simp_all add: serving_def)
  have c: "cstr_of (zstr n) = Some n" if "n \<in> ran f" for n
    using serving_cstr [OF assms(2) that] by simp
  have same: "serving E k f s'" if "table_step E j s f s' f" "rnd s' = rnd s"
      "db_view E (dbst s') = db_view E (dbst s)" for s' j
    using that R fresh_supply_cong [of s' s E k] by (simp add: serving_def table_step_def)
  have less: "serving E l f s'" if "serving E k f s'" for s'
    using that assms(4) by (auto simp: serving_def fresh_supply_def)
  have w: "world s' = world s" if "table_step E j s f s' f" for s' j
    using that by (simp add: table_step_def db_only_def)
  show ?thesis
    unfolding twp_rules
  proof (rule twp_mono [OF get_file_spec [OF assms(1) R(1) no_seven_genuine [OF good_table_no_seven [OF R(2)]]]],
      elim conjE)
    fix r s'
    assume r: "r = map_option zstr (f h)" and s': "table_step E (if f h = None then 0 else 1) s f s' f"
      "rnd s' = rnd s" "db_view E (dbst s') = db_view E (dbst s)"
    show "twp (case r of None \<Rightarrow> handle_error SNFS_ENOENT | Some m \<Rightarrow> bnd (as_cstr m) g)
        (\<lambda>_ s''. serves E l s'') s'"
    proof (cases "f h")
      case None
      with r less [OF same [OF s']] show ?thesis by auto
    next
      case (Some n)
      then have "n \<in> ran f" by (rule ranI)
      with Some r c assms(3) [OF Some _ same [OF s'] w [OF s'(1)]] show ?thesis by simp
    qed
  qed
qed

lemma memory_ok: "env_ok E \<Longrightarrow> malloc_ok E k w"
  by (simp add: env_ok_def memory_available_def)

lemma mount_serves: "env_ok E \<Longrightarrow> serving E (Suc k) f s \<Longrightarrow> twp (handle_mount E) (\<lambda>_. serves E k) s"
  unfolding handle_mount_def twp_rules
  by (rule twp_mono [OF insert_serving]) (auto simp: root_path_def cstring_def fit_path_def)

lemma getattr_serves:
  "env_ok E \<Longrightarrow> serving E k f s \<Longrightarrow> twp (handle_getattr E a) (\<lambda>_. serves E k) s"
  unfolding handle_getattr_def by (rule resolve_serving) (auto split: sum.splits)

lemma setattr_serves:
  "env_ok E \<Longrightarrow> serving E k f s \<Longrightarrow> twp (handle_setattr E a) (\<lambda>_. serves E k) s"
  unfolding handle_setattr_def
  by (rule resolve_serving)
    (auto split: sum.splits simp: serving_world_only intro!: twp_mono [OF set_attributes_apply])

lemma read_serves:
  assumes "env_ok E" "serving E k f s" "stack_ok E (8 * unat (ra_count a))"
  shows "twp (handle_read E a) (\<lambda>_. serves E k) s"
  unfolding handle_read_def
  by (rule resolve_serving [OF assms(1,2)])
    (use assms(3) memory_ok [OF assms(1)] in \<open>auto split: sum.splits\<close>)

lemma write_serves:
  assumes "env_ok E" "serving E k f s" "unat (wa_count a) \<le> length (wa_data a)"
  shows "twp (handle_write E a) (\<lambda>_. serves E k) s"
  unfolding handle_write_def
  by (rule resolve_serving [OF assms(1,2)]) (use assms(3) in \<open>auto split: sum.splits\<close>)

lemma readdir_serves:
  assumes "env_ok E" "dir_laws E V" "serving E k f s" "stack_ok E (sizeof_snfsentry * unat (rd_count a))"
  shows "twp (handle_readdir E a) (\<lambda>_. serves E k) s"
proof -
  have loop: "twp (readdir_loop E d j []) (\<lambda>r s''. (\<exists>es. r = Inr es) \<and> serves E k s'') (s'\<lparr>world := w, fds := l\<rparr>)"
    if "px_opendir E n w' = (Inr d, w)" "serving E k f s'" for n w w' d s' l j
  proof -
    have "stream V w d = Some (listing V w' n)"
        "\<forall>e \<in> set (listing V w' n). SNFS_MAX_FILENAME_LENGTH \<le> length (d_name e)"
      using assms(2) that(1) by (auto simp: dir_laws_def)
    then show ?thesis
      by (intro twp_mono [OF readdir_loop_listing [OF assms(2)]])
        (use that(2) in \<open>auto simp: serving_world_only\<close>)
  qed
  show ?thesis
    unfolding handle_readdir_def
    by (rule resolve_serving [OF assms(1,3)])
      (use assms(4) memory_ok [OF assms(1)] in \<open>auto split: sum.splits intro!: twp_mono [OF loop]\<close>)
qed

lemma lookup_serves:
  assumes "env_ok E" "serving E (Suc k) f s" "req_fits E f (Req_lookup a)"
  shows "twp (handle_lookup E a) (\<lambda>_. serves E k) s"
proof -
  obtain n where n: "cstr_of (la_filename a) = Some n" "cstring n"
    using assms(3) by (auto split: option.splits intro: cstr_of_cstring)
  have d: "d \<noteq> []" "cstring (path_join d n)" "fit_path (path_join d n)" if "f (la_dir a) = Some d" for d
  proof -
    have r: "d \<in> ran f" using that by (rule ranI)
    show "d \<noteq> []" "cstring (path_join d n)" "fit_path (path_join d n)"
      using r that assms(2,3) n serving_cstr [OF assms(2) r]
      by (auto simp: serving_def good_table_def fit_path_def intro: path_join_cstring)
  qed
  show ?thesis
    unfolding handle_lookup_def
    by (rule resolve_serving [OF assms(1,2)])
      (use n(1) d memory_ok [OF assms(1)] assms(1) in \<open>auto split: sum.splits dest: serving_less
        intro!: twp_mono [OF insert_serving]\<close>)
qed

lemma create_serves:
  assumes "env_ok E" "serving E (Suc k) f s" "req_fits E f (Req_create a)"
  shows "twp (handle_create E a) (\<lambda>_. serves E k) s"
  unfolding handle_create_def
  using assms by (auto split: sum.splits option.splits intro: cstr_of_cstring serving_less
    intro!: twp_mono [OF insert_serving])

lemma mkdir_serves:
  assumes "env_ok E" "serving E (Suc k) f s" "req_fits E f (Req_mkdir a)"
  shows "twp (handle_mkdir E a) (\<lambda>_. serves E k) s"
  unfolding handle_mkdir_def
  using assms by (auto split: option.splits intro: cstr_of_cstring serving_less
    intro!: twp_mono [OF insert_serving])

lemma remove_serves:
  assumes "env_ok E" "serving E k f s"
  shows "twp (handle_remove E a) (\<lambda>_. serves E k) s"
  unfolding handle_remove_def
  by (rule resolve_serving [OF assms])
    (auto split: sum.splits option.splits intro!: twp_mono [OF remove_serving] assms(1))

lemma rename_serves:
  assumes "env_ok E" "serving E (Suc k) f s" "req_fits E f (Req_rename a)"
  shows "twp (handle_rename E a) (\<lambda>_. serves E k) s"
proof -
  obtain m where m: "cstr_of (rn_filename a) = Some m" "cstring m" "fit_path m"
    using assms(3) by (auto split: option.splits intro: cstr_of_cstring)
  have rem: "twp (name_remove E n) (\<lambda>b s''. b \<and> serves E k s'') s'"
    if "n \<in> ran f" "\<exists>f'. serving E k f' s' \<and> ran f' = insert m (ran f)" for n s'
    using that remove_serving [OF assms(1), of k _ s' n] by blast
  show ?thesis
    unfolding handle_rename_def
    by (rule resolve_serving [OF assms(1,2) _ le_SucI [OF le_refl]])
      (use m assms(1) in \<open>auto split: option.splits dest: serving_less
        intro!: twp_mono [OF insert_serving] twp_mono [OF rem]\<close>; blast)
qed

lemma dispatch_serves:
  assumes "env_ok E" "dir_laws E V" "serving E (Suc k) f s" "req_fits E f req"
  shows "twp (dispatch E req) (\<lambda>_. serves E k) s"
proof -
  have "serving E k f s" using assms(3) by (rule serving_less)
  then show ?thesis
    using assms
    by (cases req) (auto simp: handle_noop_def handle_unimplemented_def simp del: req_fits.simps(1-4)
      intro: mount_serves getattr_serves readdir_serves lookup_serves read_serves write_serves
        setattr_serves create_serves mkdir_serves remove_serves rename_serves)
qed

lemma dispatch_returns:
  assumes "env_ok E" "dir_laws E V" "serving E (Suc k) f s" "req_fits E f req"
  shows "\<exists>s'. dispatch E req s = Ret () s' \<and> serves E k s' \<and> accounted req s s'"
  using twp_wp_conj [OF dispatch_serves [OF assms] dispatch_accounted [of E req s]]
  by (simp add: twp_Ret)

text \<open>One fresh draw is a supply of one.\<close>

lemma fresh_draw_supply: "fresh_draw E s \<Longrightarrow> fresh_supply E s 1"
proof -
  assume "fresh_draw E s"
  then have "fresh_set E s \<noteq> {}" "finite (fresh_set E s)" by (auto simp: fresh_set_def fresh_draw_def)
  then show ?thesis by (simp add: fresh_supply_def Suc_le_eq card_gt_0_iff)
qed

section \<open>The loop returns\<close>

text \<open>
  \<open>fitting_run E s0 ms\<close>: each message of the run is long enough for its type and fits, for the table
  the database holds when it is served.
\<close>

definition fitting_run :: "('w, 'd) env \<Rightarrow> ('w, 'd) server \<Rightarrow> bytes list \<Rightarrow> bool" where
  "fitting_run E s0 ms \<longleftrightarrow> (\<forall>ns m ls s f. ms = ns @ m # ls \<longrightarrow> reachable E s0 ns s \<longrightarrow>
     db_repr E s f \<longrightarrow> (\<exists>req. decode_req m = Some req \<and> req_fits E f req))"

lemma served_returns:
  assumes "env_ok E" "dir_laws E V" "fitting_run E s0 (ns @ m # ms)" "reachable E s0 ns s" "serves E (Suc k) s"
  shows "\<exists>s'. serve_one E m s = Ret () s' \<and> reachable E s0 (ns @ [m]) s' \<and> serves E k s'"
proof -
  from assms(5) obtain f where f: "serving E (Suc k) f s" ..
  then have "db_repr E s f" by (simp add: serving_def)
  with assms(3,4) obtain req where req: "decode_req m = Some req" "req_fits E f req"
    unfolding fitting_run_def by blast
  from dispatch_returns [OF assms(1,2) f req(2)] obtain s' where s': "dispatch E req s = Ret () s'" "serves E k s'"
    by blast
  with req(1) have "served E s m s'" by (blast intro: served.serve)
  with s' assms(4) show ?thesis
    by (auto simp: served_serve_one [symmetric] intro: reachable.turn)
qed

lemma loop_returns:
  assumes "env_ok E" "dir_laws E V" "e = Sigterm \<or> e = Recv_failed"
  shows "fitting_run E s0 (ns @ ms) \<Longrightarrow> reachable E s0 ns s \<Longrightarrow> serves E (length ms) s \<Longrightarrow>
    \<exists>s'. loop E (map Message ms @ e # evs) s = Ret (e = Sigterm) s' \<and> reachable E s0 (ns @ ms) s'"
proof (induction ms arbitrary: ns s)
  case Nil
  then show ?case using assms(3) by (auto simp: ret_def)
next
  case (Cons m ms)
  then obtain s1 where s1: "serve_one E m s = Ret () s1" "reachable E s0 (ns @ [m]) s1" "serves E (length ms) s1"
    using served_returns [OF assms(1,2) Cons.prems(1,2), of "length ms"] by auto
  with Cons.prems(1) Cons.IH [of "ns @ [m]" s1] show ?case
    by (simp add: andthen_def bnd_def)
qed

lemma destroy_db_returns: "\<exists>b s'. destroy_db E False s = Ret b s' \<and> sent s' = sent s"
  by (auto simp: destroy_db_def split: prod.splits)

lemma serve_loop_returns:
  assumes "env_ok E" "dir_laws E V" "e = Sigterm \<or> e = Recv_failed" "0 \<le> sock" "0 \<le> bound"
    and "fitting_run E s ms" "serves E (length ms) s"
  shows "\<exists>s' rs. serve_loop E sock bound (map Message ms @ e # evs) s = Ret (e = Sigterm) s' \<and>
    sent s' = sent s @ rs \<and> list_all2 answers ms rs"
proof -
  obtain s1 where s1: "loop E (map Message ms @ e # evs) s = Ret (e = Sigterm) s1" "reachable E s ms s1"
    using loop_returns [OF assms(1-3), of s "[]" ms s] assms(6,7) reachable.start [of E s] by auto
  obtain b s' where s': "destroy_db E False s1 = Ret b s'" "sent s' = sent s1"
    using destroy_db_returns [of E s1] by blast
  from reachable_answers [OF s1(2)] obtain rs where "sent s1 = sent s @ rs" "list_all2 answers ms rs"
    by blast
  with s1(1) s' assms(4,5) show ?thesis
    by (auto simp: serve_loop_def andthen_def bnd_def ret_def)
qed

end
