(* ===== verification/Server_Props.thy ===== *)
theory Server_Props
  imports Sample_Server Serve_Total
begin

text \<open>
  The properties of the request handlers and of the server's loop, \<open>src/server/handlers.c\<close> and
  \<open>src/server/main.c\<close>, stated over \<open>dispatch\<close> and \<open>serve_loop\<close>, each with a witness on the
  sample server. The effect of a request on the handle table is a relation between the table
  before and the table after; the effect on the file system is that of the system calls on the
  path of the handle.
\<close>

section \<open>All requests\<close>


lemma sample_good: "good_table sample_table"
  using sample_good_table by (simp add: good_table_def fit_path_def)



definition lookup_a :: snfs_req where
  "lookup_a = Req_lookup \<lparr>la_dir = 5, la_filename = 0x61 # replicate 255 0\<rparr>"

lemma lookup_a_name: "cstr_of (0x61 # replicate 255 0) = Some [0x61]"
  by (simp add: cstr_of_def)

lemma lookup_a_decodes: "decode_req (encode_req lookup_a) = Some lookup_a"
  by (rule decode_encode_req) (simp add: lookup_a_def)

lemma lookup_a_fits:
  assumes "db_repr sample_env sample_live f" shows "req_fits sample_env f lookup_a"
  using sample_root_handle [OF assms]
  by (auto simp: lookup_a_def lookup_a_name fit_path_def path_join_def slash_path_def split: option.splits)


text \<open>
  C2: In every state the server can reach from a faithful handle table, the database is a faithful handle
  table: a partial bijection between handles and paths, stored in both directions. The condition is that no
  request of the run, in the state in which it is served, names a path of seven bytes, the one length that looks
  like a handle: not the path of CREATE, MKDIR and RENAME, and not the path that LOOKUP makes of its own
  directory and its name.
\<close>

theorem reachable_table_invariant:
  assumes "reachable E s0 ms s" "db_repr E s0 f0" "no_seven f0"
    and "admissible_run E s0 ms"
  shows "\<exists>f. db_repr E s f \<and> no_seven f"
  using reachable_inv [OF assms(1) _ assms(4)] assms(2,3) by (auto simp: table_inv_def)

lemma sample_no_seven: "no_seven sample_table"
  by (simp add: no_seven_def sample_ran)

lemma reachable_table_invariant_witness:
  "\<exists>s f. reachable sample_env sample_live [encode_req lookup_a] s \<and>
    db_repr sample_env s f \<and> no_seven f"
proof -
  have first: "s = sample_live" if "reachable sample_env sample_live [] s" for s
    using that by (cases rule: reachable.cases) auto
  have "admissible f lookup_a" if "db_repr sample_env sample_live f" for f
    using lookup_a_fits [OF that] by (auto simp: lookup_a_def fit_path_def split: option.splits)
  then have run: "admissible_run sample_env sample_live [encode_req lookup_a]"
    by (auto simp: admissible_run_def admissible_msg_def Cons_eq_append_conv lookup_a_decodes dest!: first)
  have "serving sample_env (Suc 0) sample_table sample_live"
    using sample_good by (simp add: serving_def fresh_draw_supply [simplified])
  from dispatch_returns [OF sample_env_ok sample_dirs_ok this lookup_a_fits [OF sample_repr]]
  obtain s where "dispatch sample_env lookup_a sample_live = Ret () s" by blast
  with lookup_a_decodes have "reachable sample_env sample_live ([] @ [encode_req lookup_a]) s"
    by (blast intro: reachable.intros served.intros)
  then show ?thesis
    using reachable_table_invariant [OF _ sample_repr sample_no_seven run] by auto
qed

text \<open>
  A request with a handle that is not in the table (removed, or never given out) is
  answered with SNFS_ENOENT and changes neither the file system nor the handle table, and leaves no
  memory or descriptor behind. This is so for all eight requests that carry a handle.
\<close>

fun req_handle :: "snfs_req \<Rightarrow> fhandle option" where
  "req_handle (Req_getattr a) = Some (ga_fh a)"
| "req_handle (Req_readdir a) = Some (rd_dir a)"
| "req_handle (Req_lookup a) = Some (la_dir a)"
| "req_handle (Req_read a) = Some (ra_file a)"
| "req_handle (Req_write a) = Some (wa_file a)"
| "req_handle (Req_setattr a) = Some (sa_file a)"
| "req_handle (Req_remove a) = Some (rm_fh a)"
| "req_handle (Req_rename a) = Some (rn_fh a)"
| "req_handle r = None"

theorem stale_handle_enoent:
  assumes "env_ok E" "db_repr E s f" "req_handle req = Some h" "genuine_handle f h" "f h = None"
  shows "twp (dispatch E req) (\<lambda>_ s'. sent s' = sent s @ [Rep_error SNFS_ENOENT] \<and>
    db_repr E s' f \<and> world s' = world s \<and> fds s' = fds s \<and> live s' = live s) s"
proof -
  have "twp (dispatch E req) (stale_effect E s f) s"
    using stale_handle [OF assms(1,2,4,5)] assms(3) by (cases req) auto
  then show ?thesis
    by (rule twp_mono) (simp add: stale_effect_def handled_def)
qed

lemma stale_handle_enoent_witness:
  "twp (dispatch sample_env (Req_getattr \<lparr>ga_fh = 9\<rparr>))
    (\<lambda>_ s'. sent s' = sent sample_live @ [Rep_error SNFS_ENOENT] \<and>
      db_repr sample_env s' sample_table \<and> world s' = world sample_live \<and>
      fds s' = fds sample_live \<and> live s' = live sample_live) sample_live"
  by (rule stale_handle_enoent) (simp_all, simp)

section \<open>Files\<close>

definition sample_stat :: stat where
  "sample_stat = \<lparr>st_mode = 0x81A4, st_nlink = 1, st_uid = 0, st_gid = 0, st_size = 3,
     st_rdev = 0, st_dev = 1, st_ino = 7, st_atime = 0, st_mtime = 0, st_ctime = 0\<rparr>"

definition sample_dir_stat :: stat where
  "sample_dir_stat = \<lparr>st_mode = 0x41ED, st_nlink = 1, st_uid = 0, st_gid = 0, st_size = 0,
     st_rdev = 0, st_dev = 1, st_ino = 7, st_atime = 0, st_mtime = 0, st_ctime = 0\<rparr>"

lemma sample_stats [simp]:
  "px_stat sample_env file_path (world sample_live) = Inr sample_stat"
  "px_stat sample_env slash_path (world sample_live) = Inr sample_dir_stat"
  by (simp_all add: sample_env_def fs_stat_def sample_live_def sample_server_def sample_fs_def
      file_node_def root_node_def sample_paths sample_stat_def sample_dir_stat_def s_if_defs)

text \<open>
  READ of a live handle at a non-negative offset returns the bytes of the file from there on,
  at most count of them, and changes no file. The end-of-file flag is set exactly when the
  request reaches beyond the last byte.
\<close>

theorem read_returns_contents:
  assumes "env_ok E" "files_ok E V" "db_repr E s f" "f (ra_file a) = Some n"
    and "contents V (world s) n = Some c" "length c < 2 ^ 63" "unat (ra_count a) < 2 ^ 63"
    and "0 \<le>s ra_offset a" "stack_ok E (8 * unat (ra_count a))"
  shows "twp (dispatch E (Req_read a)) (\<lambda>_ s'.
    (let d = take (unat (ra_count a)) (drop (unat (ra_offset a)) c) in
     sent s' = sent s @ [Rep_read \<lparr>rr_count = of_nat (length d),
       rr_eof = (if 0 < ra_count a \<and> length c < unat (ra_offset a) + unat (ra_count a) then 1 else 0),
       rr_data = d\<rparr>]) \<and>
    contents V (world s') = contents V (world s)) s"
  using handle_read_spec [OF assms(1-6,8,9)] read_eof_iff [OF assms(6,7), of "ra_offset a"]
  by (auto simp: handled_def read_reply_def read_data_def Let_def elim!: twp_mono)

lemma read_returns_contents_witness:
  "twp (dispatch sample_env (Req_read \<lparr>ra_file = 7, ra_offset = 1, ra_count = 5\<rparr>))
    (\<lambda>_ s'. sent s' = [Rep_read \<lparr>rr_count = 2, rr_eof = 1, rr_data = [2, 3]\<rparr>]) sample_live"
  by (rule twp_mono [OF read_returns_contents [OF sample_env_ok sample_files_ok sample_repr,
        where n = file_path and c = "[1, 2, 3]"]])
    (simp_all add: nonneg_iff, simp add: sample_live_def sample_server_def)

text \<open>
  WRITE to a live handle replaces the bytes of the file at the offset by the first count bytes
  of the message's data, filling a gap with zeros, acknowledges count bytes, and changes no other file.
  The data must really be in the message: nothing checks count against its size.
\<close>

theorem write_replaces_contents:
  assumes "env_ok E" "files_ok E V" "db_repr E s f" "f (wa_file a) = Some n"
    and "contents V (world s) n = Some c" "0 \<le>s wa_offset a"
    and "unat (wa_count a) \<le> length (wa_data a)"
  shows "twp (dispatch E (Req_write a)) (\<lambda>_ s'. sent s' = sent s @ [Rep_write (wa_count a)] \<and>
    contents V (world s') = (contents V (world s))
      (n \<mapsto> overwrite c (unat (wa_offset a)) (take (unat (wa_count a)) (wa_data a)))) s"
  using handle_write_spec [OF assms] by (auto simp: handled_def write_data_def elim!: twp_mono)

lemma write_replaces_contents_witness:
  "twp (dispatch sample_env (Req_write \<lparr>wa_file = 7, wa_offset = 2, wa_count = 2, wa_data = [8, 9, 10]\<rparr>))
    (\<lambda>_ s'. sent s' = [Rep_write 2] \<and>
      contents sample_view (world s') file_path = Some [1, 2, 8, 9]) sample_live"
  by (rule twp_mono [OF write_replaces_contents [OF sample_env_ok sample_files_ok sample_repr,
        where n = file_path and c = "[1, 2, 3]"]])
    (simp_all add: nonneg_iff overwrite_def, simp add: sample_live_def sample_server_def)

text \<open>
  A READ that follows a WRITE at the same offset of the same handle returns the bytes that were
  written.
\<close>

theorem read_back_what_was_written:
  assumes "env_ok E" "files_ok E V" "db_repr E s f" "f (wa_file wa) = Some n"
    and "contents V (world s) n = Some c" "length c < 2 ^ 63" "0 \<le>s wa_offset wa"
    and "unat (wa_count wa) \<le> length (wa_data wa)"
    and "unat (wa_offset wa) + unat (wa_count wa) < 2 ^ 63" "stack_ok E (8 * unat (wa_count wa))"
    and "ra_file ra = wa_file wa" "ra_offset ra = wa_offset wa" "ra_count ra = wa_count wa"
  shows "twp (andthen (dispatch E (Req_write wa)) (dispatch E (Req_read ra))) (\<lambda>_ s'.
    sent s' = sent s @ [Rep_write (wa_count wa), Rep_read \<lparr>rr_count = wa_count wa, rr_eof = 0,
      rr_data = take (unat (wa_count wa)) (wa_data wa)\<rparr>]) s"
proof -
  have "ra = \<lparr>ra_file = wa_file wa, ra_offset = wa_offset wa, ra_count = wa_count wa\<rparr>"
    using assms(11-13) by simp
  then show ?thesis
    using read_after_write [OF assms(1-10)] by (simp add: write_data_def)
qed

lemma read_back_what_was_written_witness:
  "twp (andthen (dispatch sample_env (Req_write \<lparr>wa_file = 7, wa_offset = 2, wa_count = 2,
        wa_data = [8, 9]\<rparr>))
      (dispatch sample_env (Req_read \<lparr>ra_file = 7, ra_offset = 2, ra_count = 2\<rparr>)))
    (\<lambda>_ s'. sent s' = [Rep_write 2, Rep_read \<lparr>rr_count = 2, rr_eof = 0, rr_data = [8, 9]\<rparr>]) sample_live"
  by (rule twp_mono [OF read_back_what_was_written [OF sample_env_ok sample_files_ok sample_repr,
        where n = file_path and c = "[1, 2, 3]"]])
    (simp_all add: nonneg_iff, simp add: sample_live_def sample_server_def)

text \<open>
  READ at a negative offset is answered with SNFS_EINTERNAL (the comment above the handler announces
  SNFS_EBADOP) and changes no file.
\<close>

theorem read_negative_offset:
  assumes "env_ok E" "files_ok E V" "db_repr E s f" "f (ra_file a) = Some n"
    and "contents V (world s) n = Some c" "ra_offset a <s 0"
  shows "twp (dispatch E (Req_read a)) (\<lambda>_ s'. sent s' = sent s @ [Rep_error SNFS_EINTERNAL] \<and>
    contents V (world s') = contents V (world s)) s"
  using handle_read_negative [OF assms] by (auto simp: handled_def elim!: twp_mono)

lemma read_negative_offset_witness:
  "twp (dispatch sample_env (Req_read \<lparr>ra_file = 7, ra_offset = 0xFFFFFFFFFFFFFFFF, ra_count = 5\<rparr>))
    (\<lambda>_ s'. sent s' = sent sample_live @ [Rep_error SNFS_EINTERNAL] \<and>
      contents sample_view (world s') = contents sample_view (world sample_live)) sample_live"
  by (rule read_negative_offset [OF sample_env_ok sample_files_ok sample_repr,
        where n = file_path and c = "[1, 2, 3]"]) (simp_all add: neg_iff)

section \<open>Attributes and directories\<close>

text \<open>
  GETATTR of a live handle is answered with the attributes that stat gives for its path, or with
  SNFS_ENOENT or SNFS_EINTERNAL when stat fails, and changes nothing.
\<close>

theorem getattr_reports_stat:
  assumes "env_ok E" "db_repr E s f" "f (ga_fh a) = Some n"
  shows "twp (dispatch E (Req_getattr a)) (\<lambda>_ s'. db_repr E s' f \<and> world s' = world s \<and>
    sent s' = sent s @ [case px_stat E n (world s) of
      Inr st \<Rightarrow> Rep_getattr (stat_to_fattr st (stack_fattr E (world s)))
    | Inl e \<Rightarrow> Rep_error (if e = ENOENT then SNFS_ENOENT else SNFS_EINTERNAL)]) s"
  using handle_getattr_spec [OF assms]
  by (auto simp: handled_def getattr_reply_def err_noent_def split: sum.splits elim!: twp_mono)

lemma getattr_reports_stat_witness:
  "twp (dispatch sample_env (Req_getattr \<lparr>ga_fh = 7\<rparr>)) (\<lambda>_ s'.
    sent s' = sent sample_live @ [Rep_getattr (stat_to_fattr sample_stat garbage_fattr)] \<and>
    fa_type (stat_to_fattr sample_stat garbage_fattr) = SNFREG) sample_live"
  by (rule twp_mono [OF getattr_reports_stat [OF sample_env_ok sample_repr, where n = file_path]])
    (simp_all add: stat_to_fattr_def sample_stat_def s_is_defs s_if_defs, simp add: sample_env_def)

text \<open>
  SETATTR of a live handle makes the calls whose bits are set, in the order mode, owner, group,
  size, times, each on the result of the one before, and replies with the bits whose call succeeded; a
  failed call does not stop the later ones. Times fall back to utime when utimes fails.
\<close>

theorem setattr_reports_what_was_set:
  assumes "env_ok E" "db_repr E s f" "f (sa_file a) = Some n" "px_stat E n (world s) = Inr st"
  shows "twp (dispatch E (Req_setattr a)) (\<lambda>_ s'.
    let (bits, w) = apply_setattr E n a (world s) in
    sent s' = sent s @ [Rep_setattr bits] \<and> world s' = w \<and> db_repr E s' f) s"
  using handle_setattr_spec [OF assms(1-3)] assms(4)
  by (auto simp: handled_def setattr_reply_def Let_def case_prod_beta elim!: twp_mono)

lemma setattr_reports_what_was_set_witness:
  "twp (dispatch sample_env (Req_setattr \<lparr>sa_file = 7, sa_which = SNFS_SETSIZE, sa_mode = 0, sa_uid = 0,
      sa_gid = 0, sa_size = 2, sa_atime = \<lparr>tv_seconds = 0, tv_useconds = 0\<rparr>,
      sa_mtime = \<lparr>tv_seconds = 0, tv_useconds = 0\<rparr>\<rparr>))
    (\<lambda>_ s'. sent s' = [Rep_setattr SNFS_SETSIZE] \<and>
      contents sample_view (world s') file_path = Some [1, 2]) sample_live"
proof -
  let ?a = "\<lparr>sa_file = 7, sa_which = SNFS_SETSIZE, sa_mode = 0, sa_uid = 0,
      sa_gid = 0, sa_size = 2, sa_atime = \<lparr>tv_seconds = 0, tv_useconds = 0\<rparr>,
      sa_mtime = \<lparr>tv_seconds = 0, tv_useconds = 0\<rparr>\<rparr>"
  have *: "apply_setattr sample_env file_path ?a (world sample_live) = (SNFS_SETSIZE,
      (world sample_live)\<lparr>nodes := [(slash_path, root_node), (file_path, file_node [1, 2])]\<rparr>)"
    by (simp add: apply_setattr_def apply_one_def which_bits sample_env_def fs_truncate_def
        fs_change_def sample_live_def sample_server_def sample_fs_def sample_paths file_node_def
        neg_iff)
  show ?thesis
    by (rule twp_mono [OF setattr_reports_what_was_set [OF sample_env_ok sample_repr,
          where n = file_path and st = sample_stat]])
      (auto simp: * sample_view_def file_node_def, simp_all add: sample_live_def sample_server_def sample_paths)
qed

text \<open>
  LOOKUP of an existing name in the directory of a live handle replies with the attributes of
  the joined path and a handle that from now on stands for that path; every handle given out
  before keeps its meaning, and the file system is not changed.
\<close>

theorem lookup_gives_handle:
  assumes "env_ok E" "db_repr E s f" "f (la_dir a) = Some d" "d \<noteq> []"
    and "cstr_of (la_filename a) = Some n"
    and "px_stat E d (world s) = Inr st1" "S_ISDIR (st_mode st1)"
    and "px_stat E (path_join d n) (world s) = Inr st2"
    and "db_clear s f (path_join d n)" "fresh_draw E s"
  shows "twp (dispatch E (Req_lookup a)) (\<lambda>_ s'. \<exists>h f'.
    sent s' = sent s @ [Rep_lookup \<lparr>lr_handle = h, lr_attributes = stat_to_fattr st2 zero_fattr\<rparr>] \<and>
    db_repr E s' f' \<and> f' h = Some (path_join d n) \<and> f \<subseteq>\<^sub>m f' \<and> world s' = world s) s"
proof -
  have "lookup_guard E (world s) d n = Inr st2" using assms(6-8) by (simp add: lookup_guard_def)
  from handle_lookup_found [OF assms(1-5) this assms(9,10)] show ?thesis
    by (auto simp: handled_def dest: inserted_maps inserted_map_le elim!: twp_mono)
qed

lemma lookup_gives_handle_witness:
  "twp (dispatch sample_env (Req_lookup \<lparr>la_dir = 5, la_filename = zstr [0x61]\<rparr>)) (\<lambda>_ s'. \<exists>h f'.
    sent s' = sent sample_live @ [Rep_lookup \<lparr>lr_handle = h, lr_attributes = stat_to_fattr sample_stat zero_fattr\<rparr>] \<and>
    db_repr sample_env s' f' \<and> f' h = Some file_path) sample_live"
proof -
  have j: "path_join slash_path [0x61] = file_path" by (simp add: path_join_def sample_paths)
  have c: "cstr_of (zstr [0x61]) = Some [0x61]" by (simp add: cstring_def)
  show ?thesis
    by (rule twp_mono [OF lookup_gives_handle [OF sample_env_ok sample_repr,
          where d = slash_path and n = "[0x61]" and ?st1.0 = sample_dir_stat and ?st2.0 = sample_stat]])
      (simp_all add: j c, simp_all add: sample_paths sample_dir_stat_def s_is_defs s_if_defs, blast)
qed

text \<open>
  LOOKUP fails, without any effect, with SNFS_ENOENT when the directory or the name does not
  exist, SNFS_ENOTDIR when the handle is not that of a directory, SNFS_EBADOP when the name is not well formed, and
  SNFS_EINTERNAL for every other failure of stat.
\<close>

theorem lookup_errors:
  assumes "env_ok E" "db_repr E s f" "f (la_dir a) = Some d" "d \<noteq> []"
    and "cstr_of (la_filename a) = Some n"
    and "lookup_guard E (world s) d n = Inl e"
  shows "twp (dispatch E (Req_lookup a)) (\<lambda>_ s'. sent s' = sent s @ [Rep_error e] \<and>
    db_repr E s' f \<and> world s' = world s) s"
  using handle_lookup_error [OF assms] by (auto simp: handled_def elim!: twp_mono)

lemma lookup_errors_witness:
  "twp (dispatch sample_env (Req_lookup \<lparr>la_dir = 7, la_filename = zstr [0x61]\<rparr>)) (\<lambda>_ s'.
    sent s' = sent sample_live @ [Rep_error SNFS_ENOTDIR] \<and>
    db_repr sample_env s' sample_table \<and> world s' = world sample_live) sample_live"
  by (rule lookup_errors [where d = file_path and n = "[0x61]"])
    (simp_all add: lookup_guard_def cstring_def, simp_all add: sample_paths sample_stat_def s_is_defs s_if_defs)

text \<open>
  READDIR of a live directory replies with the first count entries of its listing, in order, each
  with its inode number and its name cut to 255 bytes.
\<close>

theorem readdir_lists_directory:
  assumes "env_ok E" "dir_laws E V" "db_repr E s f" "f (rd_dir a) = Some n"
    and "px_stat E n (world s) = Inr st" "S_ISDIR (st_mode st)"
    and "px_opendir E n (world s) = (Inr d, w)"
    and "stack_ok E (sizeof_snfsentry * unat (rd_count a))"
  shows "twp (dispatch E (Req_readdir a)) (\<lambda>_ s'.
    let es = map (\<lambda>e. \<lparr>ent_fileid = d_ino e, ent_filename = take 255 (d_name e) @ [0]\<rparr>)
      (take (unat (rd_count a)) (listing V (world s) n)) in
    sent s' = sent s @ [Rep_readdir \<lparr>dr_num_entries = of_nat (length es), dr_entries = es\<rparr>] \<and>
    db_repr E s' f) s"
  using handle_readdir_spec [OF assms]
  by (auto simp: handled_def Let_def snfs_entry_def [abs_def] elim!: twp_mono)

lemma readdir_lists_directory_witness:
  "twp (dispatch sample_env (Req_readdir \<lparr>rd_dir = 5, rd_count = 4\<rparr>)) (\<lambda>_ s'.
    sent s' = [Rep_readdir \<lparr>dr_num_entries = 1,
      dr_entries = [\<lparr>ent_fileid = 7, ent_filename = 0x61 # replicate 255 0\<rparr>]\<rparr>]) sample_live"
proof -
  have l: "listing sample_view (world sample_live) slash_path =
      [\<lparr>d_ino = 7, d_name = 0x61 # replicate 255 0\<rparr>]"
    by (simp add: sample_view_def fs_listing_def fs_dirent_def sample_live_def sample_server_def
        sample_fs_def sample_paths parent_def slash_def take_Cons')
  have o: "px_opendir sample_env slash_path (world sample_live) = (Inr 3, (world sample_live)
      \<lparr>streams := AList.update 3 (fs_listing (world sample_live) slash_path) (streams (world sample_live)),
       next_fd := 4\<rparr>)"
    by (simp add: sample_env_def fs_opendir_def sample_live_def sample_server_def sample_fs_def
        sample_paths root_node_def)
  have "replicate (Suc 254) (0 :: byte) = replicate 254 0 @ [0]"
    by (simp only: replicate_append_same replicate_Suc)
  then have "replicate 254 0 @ [0 :: byte] = replicate 255 0" by simp
  then show ?thesis
    by (intro twp_mono [OF readdir_lists_directory [OF sample_env_ok sample_dirs_ok sample_repr,
          where n = slash_path and st = sample_dir_stat, OF _ _ _ o]])
      (simp_all add: l Let_def sizeof_snfsentry_def, simp_all add: sample_dir_stat_def s_is_defs s_if_defs
        sample_live_def sample_server_def)
qed

section \<open>Requests that change the name space\<close>

text \<open>
  A successful CREATE replies with a handle that from now on stands for the path of the request;
  the handles given out before keep their meaning, and the descriptor of the new file stays open.
\<close>

theorem create_gives_handle:
  assumes "env_ok E" "db_repr E s f" "cstr_of (ca_filename a) = Some n"
    and "px_creat E n (ca_mode a) (world s) = (Inr fd, w)" "db_clear s f n" "fresh_draw E s"
  shows "twp (dispatch E (Req_create a)) (\<lambda>_ s'. \<exists>h f'. sent s' = sent s @ [Rep_create h] \<and>
    db_repr E s' f' \<and> f' h = Some n \<and> f \<subseteq>\<^sub>m f' \<and> world s' = w \<and> fds s' = fd # fds s) s"
  using handle_create_made [OF assms]
  by (auto simp: handled_def dest: inserted_maps inserted_map_le elim!: twp_mono)

lemma create_gives_handle_witness:
  "twp (dispatch sample_env (Req_create \<lparr>ca_filename = zstr new_path, ca_mode = 0x1A4\<rparr>)) (\<lambda>_ s'.
    \<exists>h f'. sent s' = sent sample_live @ [Rep_create h] \<and> f' h = Some new_path \<and>
      contents sample_view (world s') new_path = Some [] \<and> fds s' = [3]) sample_live"
proof -
  have *: "px_creat sample_env new_path 0x1A4 (world sample_live) = (Inr 3, (world sample_live)
      \<lparr>nodes := [(slash_path, root_node), (file_path, file_node [1, 2, 3]), (new_path, file_node [])],
       opened := [(3, new_path, 0)], next_fd := 4\<rparr>)"
    by (simp add: sample_env_def fs_creat_def fs_open_def sample_live_def sample_server_def
        sample_fs_def sample_paths root_node_def file_node_def parent_def slash_def)
  show ?thesis
    by (rule twp_mono [OF create_gives_handle [OF sample_env_ok sample_repr,
          where n = new_path and fd = 3, OF _ _ sample_clear sample_fresh]])
      (simp_all add: *, auto simp: sample_view_def file_node_def sample_paths sample_live_def sample_server_def)
qed

text \<open>
  A successful MKDIR replies with a handle that from now on stands for the new directory, and the
  handles given out before keep their meaning; a failed one replies with SNFS_ENOENT,
  SNFS_EACCES or SNFS_EINTERNAL and leaves the table as it was.
\<close>

theorem mkdir_gives_handle:
  assumes "env_ok E" "db_repr E s f" "cstr_of (mk_dirname a) = Some n"
    and "px_mkdir E n (mk_mode a) (world s) = (r, w)" "db_clear s f n" "fresh_draw E s"
  shows "twp (dispatch E (Req_mkdir a)) (\<lambda>_ s'. world s' = w \<and> (case r of
      None \<Rightarrow> \<exists>h f'. sent s' = sent s @ [Rep_mkdir h] \<and> db_repr E s' f' \<and> f' h = Some n \<and> f \<subseteq>\<^sub>m f'
    | Some e \<Rightarrow> sent s' = sent s @ [Rep_error (err_access e)] \<and> db_repr E s' f)) s"
proof (cases r)
  case None
  with handle_mkdir_made [OF assms(1-3) _ assms(5,6)] assms(4) show ?thesis
    by (auto simp: handled_def dest: inserted_maps inserted_map_le elim!: twp_mono)
next
  case (Some e)
  with handle_mkdir_failed [OF assms(2,3)] assms(4) show ?thesis
    by (auto simp: handled_def elim!: twp_mono)
qed

lemma mkdir_gives_handle_witness:
  "twp (dispatch sample_env (Req_mkdir \<lparr>mk_dirname = zstr file_path, mk_mode = 0x1ED\<rparr>)) (\<lambda>_ s'.
    sent s' = [Rep_error SNFS_EINTERNAL]) sample_live"
proof -
  have *: "px_mkdir sample_env file_path 0x1ED (world sample_live) = (Some EEXIST, world sample_live)"
    by (simp add: sample_env_def fs_mkdir_def sample_live_def sample_server_def sample_fs_def sample_paths)
  show ?thesis
    by (rule twp_mono [OF mkdir_gives_handle [OF sample_env_ok sample_repr,
          where n = file_path and r = "Some EEXIST", OF _ _ sample_clear sample_fresh]])
      (simp_all add: * err_access_def, simp add: sample_live_def sample_server_def)
qed

text \<open>
  REMOVE of a live handle deletes the file or directory and makes exactly the handle of its path
  stale; when stat or the deletion fails the reply is the error and the table is unchanged.
\<close>

theorem remove_forgets_handle:
  assumes "env_ok E" "db_repr E s f" "f (rm_fh a) = Some n" "db_clear s f n"
    and "remove_result E n (rm_is_dir a \<noteq> 0) (world s) = (r, w)"
  shows "twp (dispatch E (Req_remove a)) (\<lambda>_ s'. world s' = w \<and> (case r of
      None \<Rightarrow> sent s' = sent s @ [Rep_remove] \<and> db_repr E s' (f(rm_fh a := None))
    | Some e \<Rightarrow> sent s' = sent s @ [Rep_error e] \<and> db_repr E s' f)) s"
proof -
  have "forget n f = f(rm_fh a := None)"
    using fhdb.repr_inj [OF assms(2)] assms(3)
    by (auto simp: forget_def inj_on_def dom_def fun_eq_iff)
  with handle_remove_spec [OF assms] show ?thesis
    by (auto simp: handled_def split: option.splits elim!: twp_mono)
qed

lemma remove_forgets_handle_witness:
  "twp (dispatch sample_env (Req_remove \<lparr>rm_fh = 7, rm_is_dir = 0\<rparr>)) (\<lambda>_ s'.
    sent s' = [Rep_remove] \<and> contents sample_view (world s') file_path = None \<and>
    db_repr sample_env s' (sample_table(7 := None))) sample_live"
proof -
  have u: "px_unlink sample_env file_path (world sample_live) =
      (None, (world sample_live)\<lparr>nodes := [(slash_path, root_node)]\<rparr>)"
    by (simp add: sample_env_def fs_unlink_def sample_live_def sample_server_def sample_fs_def
        sample_paths file_node_def)
  have *: "remove_result sample_env file_path False (world sample_live) =
      (None, (world sample_live)\<lparr>nodes := [(slash_path, root_node)]\<rparr>)"
    by (simp add: remove_result_def u)
  show ?thesis
    by (rule twp_mono [OF remove_forgets_handle [OF sample_env_ok sample_repr, where n = file_path and r = None]])
      (simp_all add: *, simp add: sample_view_def sample_paths sample_live_def sample_server_def)
qed

text \<open>
  A successful RENAME to a different path replies with a handle that stands for the new path, and
  the handle of the old path becomes stale; all other handles keep their meaning.
\<close>

theorem rename_moves_handle:
  assumes "env_ok E" "db_repr E s f" "f (rn_fh a) = Some n" "cstr_of (rn_filename a) = Some m"
    and "px_rename E n m (world s) = (None, w)" "db_clear s f n" "db_clear s f m" "fresh_draw E s"
    and "m \<noteq> n"
  shows "twp (dispatch E (Req_rename a)) (\<lambda>_ s'. \<exists>h f'. sent s' = sent s @ [Rep_rename h] \<and>
    db_repr E s' f' \<and> f' h = Some m \<and> f' (rn_fh a) = None \<and>
    (\<forall>k. k \<noteq> rn_fh a \<and> k \<noteq> h \<longrightarrow> f' k = f k) \<and> world s' = w) s"
proof -
  have others: "forget n f' k = f k" if "inserted m h f f'" "k \<noteq> rn_fh a" "k \<noteq> h" for h f' k
    using that fhdb.repr_inj [OF assms(2)] assms(3)
    by (auto simp: inserted_def forget_def inj_on_def dom_def)
  have old: "forget n f' (rn_fh a) = None" if "inserted m h f f'" for h f'
    using inserted_mono [OF that assms(3)] by simp
  show ?thesis
    using handle_rename_done [OF assms(1-8)]
    by (auto simp: handled_def renamed_table [OF _ assms(9)] others old elim!: twp_mono)
      (metis old others renamed_table [OF _ assms(9)])
qed

lemma sample_rename:
  "px_rename sample_env file_path new_path (world sample_live) =
    (None, (world sample_live)\<lparr>nodes := [(slash_path, root_node), (new_path, file_node [1, 2, 3])]\<rparr>)"
  by (simp add: sample_env_def fs_rename_def sample_live_def sample_server_def sample_fs_def
      sample_paths file_node_def)

lemma rename_moves_handle_witness:
  "twp (dispatch sample_env (Req_rename \<lparr>rn_fh = 7, rn_filename = zstr new_path\<rparr>)) (\<lambda>_ s'. \<exists>h f'.
    sent s' = sent sample_live @ [Rep_rename h] \<and> f' h = Some new_path \<and> f' 7 = None \<and>
    contents sample_view (world s') new_path = Some [1, 2, 3]) sample_live"
  by (rule twp_mono [OF rename_moves_handle [OF sample_env_ok sample_repr, where n = file_path and m = new_path,
        OF _ _ _ sample_clear sample_clear sample_fresh]])
    (simp_all add: sample_rename, simp_all add: sample_paths, auto simp: sample_view_def file_node_def)

text \<open>
  A RENAME of a file to its own path succeeds and replies with a handle, but that handle
  is stale at once: the handler inserts the new path, finds the old handle, and then removes
  the path together with it.
\<close>

theorem rename_to_itself_loses_handle:
  assumes "env_ok E" "db_repr E s f" "f (rn_fh a) = Some n" "cstr_of (rn_filename a) = Some n"
    and "px_rename E n n (world s) = (None, w)" "db_clear s f n" "fresh_draw E s"
  shows "twp (dispatch E (Req_rename a)) (\<lambda>_ s'. \<exists>h f'. sent s' = sent s @ [Rep_rename h] \<and>
    db_repr E s' f' \<and> f' h = None \<and> n \<notin> ran f') s"
proof -
  have "n \<notin> ran (forget n f')" for f' by (simp add: forget_ran)
  with handle_rename_done [OF assms(1-6) assms(6,7)] show ?thesis
    by (auto simp: handled_def elim!: twp_mono) (metis renamed_to_itself)
qed

lemma rename_to_itself_loses_handle_witness:
  "twp (dispatch sample_env (Req_rename \<lparr>rn_fh = 7, rn_filename = zstr file_path\<rparr>)) (\<lambda>_ s'. \<exists>h f'.
    sent s' = sent sample_live @ [Rep_rename h] \<and> db_repr sample_env s' f' \<and> f' h = None \<and>
    file_path \<notin> ran f') sample_live"
proof -
  have "px_rename sample_env file_path file_path (world sample_live) = (None, world sample_live)"
    by (simp add: sample_env_def fs_rename_def sample_live_def sample_server_def sample_fs_def sample_paths)
  then show ?thesis
    by (intro rename_to_itself_loses_handle [OF sample_env_ok sample_repr]) simp_all
qed

section \<open>Messages\<close>

text \<open>
  C28: The server reads from the bytes of a request exactly the request the client built, for every
  type of request.
\<close>

theorem request_round_trip:
  assumes "req_ok r"
  shows "decode_req (encode_req r) = Some r \<and> length (encode_req r) = snfs_req_size r"
  using assms by (simp add: decode_encode_req length_encode_req)

lemma request_round_trip_witness:
  "decode_req (encode_req (Req_read \<lparr>ra_file = 7, ra_offset = 1, ra_count = 5\<rparr>)) =
     Some (Req_read \<lparr>ra_file = 7, ra_offset = 1, ra_count = 5\<rparr>)"
  using request_round_trip [of "Req_read \<lparr>ra_file = 7, ra_offset = 1, ra_count = 5\<rparr>"] by simp

text \<open>
  The client reads from the bytes of a reply exactly the reply the server built, for every type
  of reply, and the server passes the transport exactly the size of the image.
\<close>

theorem reply_round_trip:
  assumes "rep_ok r"
  shows "decode_rep (encode_rep r) = Some r \<and> length (encode_rep r) = snfs_rep_size r"
  using assms by (simp add: decode_encode_rep length_encode_rep)

lemma reply_round_trip_witness:
  "decode_rep (encode_rep (Rep_read \<lparr>rr_count = 2, rr_eof = 1, rr_data = [2, 3]\<rparr>)) =
     Some (Rep_read \<lparr>rr_count = 2, rr_eof = 1, rr_data = [2, 3]\<rparr>)"
  using reply_round_trip [of "Rep_read \<lparr>rr_count = 2, rr_eof = 1, rr_data = [2, 3]\<rparr>"] by simp

text \<open>
  Serving a message reads outside it exactly when it is shorter than its type and the arguments of
  fixed size of that type. The loop does not check this: such a message is undefined behaviour.
\<close>

theorem short_message_undefined:
  "decode_req m = None \<longleftrightarrow> length m < 4 \<or> length m < 4 + args_needed (le_word (take 4 m))"
  by (rule decode_req_None_iff)

end
