(* ===== verification/Comm.thy ===== *)
theory Comm
  imports Posix_Env
begin

text \<open>
  Sending and receiving, \<open>src/common/comm.c\<close>. The interface of the messaging library and the clock are the
  fields of a record \<open>net\<close>, functions over a state \<open>'n\<close> of the network; the sockets of the library that are behind it
  are modelled by themselves in the theories \<open>Nn_*\<close>. Both loops retry until they succeed, meet a fatal error or run out of time, and so
  might run forever if the clock stood still; they are partial functions whose value is \<open>None\<close>
  when they do not end. \<open>send_data_returns\<close> and \<open>receive_data_returns\<close> prove that
  they end over a clock that a sleep moves forward, by well-founded induction on the time left.
\<close>

section \<open>The network\<close>

record 'n net =
  nn_socket :: "'n \<Rightarrow> int \<times> 'n"
  nn_connect :: "bytes \<Rightarrow> 'n \<Rightarrow> int \<times> 'n"
  nn_shutdown :: "int \<Rightarrow> 'n \<Rightarrow> 'n"
  nn_close :: "int \<Rightarrow> 'n \<Rightarrow> 'n"
  nn_send :: "bytes \<Rightarrow> bool \<Rightarrow> 'n \<Rightarrow> (errno + int) \<times> 'n"
  nn_recv :: "bool \<Rightarrow> 'n \<Rightarrow> (errno + bytes) \<times> 'n"
  usleep :: "nat \<Rightarrow> 'n \<Rightarrow> 'n"
  gettimeofday :: "'n \<Rightarrow> int \<times> int"   \<comment> \<open>seconds and microseconds\<close>

text \<open>The flag \<open>NN_DONTWAIT\<close> is the boolean argument of a send or a receive.\<close>

definition current_ms :: "'n net \<Rightarrow> 'n \<Rightarrow> int" where
  "current_ms N n = (case gettimeofday N n of (sec, usec) \<Rightarrow> sec * 1000 + usec div 1000)"

section \<open>Sending\<close>

definition send_fatal :: "errno \<Rightarrow> bool" where
  "send_fatal e \<longleftrightarrow> e \<in> {EFAULT, EBADF, ENOTSUP, ETERM}"

text \<open>The value of the loop: whether it returned at once with a fatal error, and \<open>bytes\<close>.\<close>

partial_function (option) send_loop ::
    "'n net \<Rightarrow> bytes \<Rightarrow> bool \<Rightarrow> int \<Rightarrow> 'n \<Rightarrow> ((bool \<times> int) \<times> 'n) option" where
  "send_loop N data flags end_time n =
     (case nn_send N data flags n of
        (Inr bytes, n1) \<Rightarrow> Some ((False, bytes), n1)
      | (Inl errno, n1) \<Rightarrow>
          if send_fatal errno then Some ((True, -1), n1)
          else let n2 = usleep N 300 n1 in
            if current_ms N n2 < end_time then send_loop N data flags end_time n2
            else Some ((False, -1), n2))"

text \<open>\<open>(int) size\<close>: the size as a 32-bit signed integer.\<close>

definition c_int :: "nat \<Rightarrow> int" where
  "c_int n = sint (of_nat n :: 32 word)"

definition send_data :: "'n net \<Rightarrow> bytes \<Rightarrow> bool \<Rightarrow> 'n \<Rightarrow> (int \<times> 'n) option" where
  "send_data N data flags n =
     (case send_loop N data flags (current_ms N n + 550) n of
        None \<Rightarrow> None
      | Some ((fatal, bytes), n') \<Rightarrow>
          if fatal then Some (bytes, n')
          else if bytes \<noteq> c_int (length data) then Some (-1, n')
          else Some (bytes, n'))"

section \<open>Receiving\<close>

definition recv_fatal :: "errno \<Rightarrow> bool" where
  "recv_fatal e \<longleftrightarrow> e \<in> {EBADF, ENOTSUP, ETERM}"

text \<open>\<open>data\<close> stays \<open>NULL\<close> unless a receive succeeds.\<close>

partial_function (option) recv_loop ::
    "'n net \<Rightarrow> bool \<Rightarrow> int \<Rightarrow> 'n \<Rightarrow> (bytes option \<times> 'n) option" where
  "recv_loop N flags end_time n =
     (case nn_recv N flags n of
        (Inr data, n1) \<Rightarrow> Some (Some data, n1)
      | (Inl errno, n1) \<Rightarrow>
          if recv_fatal errno then Some (None, n1)
          else let n2 = usleep N 250 n1 in
            if current_ms N n2 < end_time then recv_loop N flags end_time n2
            else Some (None, n2))"

definition receive_data :: "'n net \<Rightarrow> bool \<Rightarrow> 'n \<Rightarrow> (bytes option \<times> 'n) option" where
  "receive_data N flags n = recv_loop N flags (current_ms N n + 1250) n"

section \<open>They end\<close>

text \<open>
  The law of the clock: it is a count of microseconds that sending and receiving do not set back and
  that a sleep moves forward by at least its argument.
\<close>

definition counts_time :: "'n net \<Rightarrow> ('n \<Rightarrow> int) \<Rightarrow> bool" where
  "counts_time N us \<longleftrightarrow>
     (\<forall>n. fst (gettimeofday N n) * 1000000 + snd (gettimeofday N n) = us n \<and>
        0 \<le> snd (gettimeofday N n) \<and> snd (gettimeofday N n) < 1000000) \<and>
     (\<forall>k n. us n + int k \<le> us (usleep N k n)) \<and>
     (\<forall>d f n. us n \<le> us (snd (nn_send N d f n))) \<and>
     (\<forall>f n. us n \<le> us (snd (nn_recv N f n)))"

definition clock_law :: "'n net \<Rightarrow> bool" where
  "clock_law N \<longleftrightarrow> (\<exists>us. counts_time N us)"

lemma current_ms_us:
  assumes "fst (gettimeofday N n) * 1000000 + snd (gettimeofday N n) = us n"
    and "0 \<le> snd (gettimeofday N n)" "snd (gettimeofday N n) < 1000000"
  shows "current_ms N n = us n div 1000"
proof -
  obtain sec usec where t: "gettimeofday N n = (sec, usec)" by (cases "gettimeofday N n")
  with assms have "us n = usec + sec * 1000 * 1000" by simp
  then show ?thesis
    using t by (simp add: current_ms_def)
qed

text \<open>A loop that sleeps at least one microsecond in each turn and stops at a deadline ends.\<close>

lemma deadline_induct [consumes 1, case_names turn]:
  fixes us :: "'n \<Rightarrow> int"
  assumes "\<And>n. current_ms N n = us n div 1000"
    and "\<And>n. (\<And>n'. us n < us n' \<Longrightarrow> current_ms N n' < end_time \<Longrightarrow> P n') \<Longrightarrow> P n"
  shows "P n"
proof (induction "nat (end_time * 1000 - us n)" arbitrary: n rule: less_induct)
  case less
  show ?case
  proof (rule assms(2))
    fix n'
    assume n': "us n < us n'" "current_ms N n' < end_time"
    from n'(2) have "us n' < end_time * 1000" by (simp add: assms(1))
    with n'(1) show "P n'" by (intro less) simp
  qed
qed

lemma counts_timeD:
  assumes "counts_time N us"
  shows "current_ms N n = us n div 1000" and "us n + int k \<le> us (usleep N k n)"
    and "us n \<le> us (snd (nn_send N d f n))" and "us n \<le> us (snd (nn_recv N f n))"
  using assms by (auto simp: counts_time_def intro: current_ms_us)

lemma send_loop_returns:
  assumes "clock_law N"
  shows "\<exists>fatal b n'. send_loop N data flags end_time n = Some ((fatal, b), n') \<and> (fatal \<longrightarrow> b = -1)"
proof -
  from assms obtain us where us: "counts_time N us" by (auto simp: clock_law_def)
  show ?thesis
    using counts_timeD(1) [OF us]
  proof (induction n rule: deadline_induct [where end_time = end_time])
    case (turn n)
    obtain r n1 where r: "nn_send N data flags n = (r, n1)" by (cases "nn_send N data flags n")
    have "us n < us (usleep N 300 n1)"
      using counts_timeD(2) [OF us, of n1 300] counts_timeD(3) [OF us, of n data flags] r by simp
    from turn [OF this] r show ?case
      by (subst send_loop.simps) (auto simp: Let_def split: sum.splits)
  qed
qed

lemma recv_loop_returns:
  assumes "clock_law N"
  shows "\<exists>r n'. recv_loop N flags end_time n = Some (r, n')"
proof -
  from assms obtain us where us: "counts_time N us" by (auto simp: clock_law_def)
  show ?thesis
    using counts_timeD(1) [OF us]
  proof (induction n rule: deadline_induct [where end_time = end_time])
    case (turn n)
    obtain r n1 where r: "nn_recv N flags n = (r, n1)" by (cases "nn_recv N flags n")
    have "us n < us (usleep N 250 n1)"
      using counts_timeD(2) [OF us, of n1 250] counts_timeD(4) [OF us, of n flags] r by simp
    from turn [OF this] r show ?case
      by (subst recv_loop.simps) (auto simp: Let_def split: sum.splits)
  qed
qed

lemma send_data_returns:
  assumes "clock_law N"
  shows "\<exists>r n'. send_data N data flags n = Some (r, n') \<and> (r = c_int (length data) \<or> r = -1)"
  using send_loop_returns [OF assms, of data flags "current_ms N n + 550" n]
  by (auto simp: send_data_def)

lemma receive_data_returns:
  "clock_law N \<Longrightarrow> \<exists>r n'. receive_data N flags n = Some (r, n')"
  unfolding receive_data_def by (rule recv_loop_returns)

section \<open>What they do on a transport that is ready\<close>

lemma send_data_ready:
  "nn_send N data flags n = (Inr (c_int (length data)), n') \<Longrightarrow>
   send_data N data flags n = Some (c_int (length data), n')"
  by (subst send_data_def, subst send_loop.simps) simp

lemma send_data_short:
  "nn_send N data flags n = (Inr b, n') \<Longrightarrow> b \<noteq> c_int (length data) \<Longrightarrow>
   send_data N data flags n = Some (-1, n')"
  by (subst send_data_def, subst send_loop.simps) simp

lemma send_data_fatal:
  "nn_send N data flags n = (Inl e, n') \<Longrightarrow> send_fatal e \<Longrightarrow> send_data N data flags n = Some (-1, n')"
  by (subst send_data_def, subst send_loop.simps) simp

lemma receive_data_ready:
  "nn_recv N flags n = (Inr m, n') \<Longrightarrow> receive_data N flags n = Some (Some m, n')"
  by (subst receive_data_def, subst recv_loop.simps) simp

lemma receive_data_fatal:
  "nn_recv N flags n = (Inl e, n') \<Longrightarrow> recv_fatal e \<Longrightarrow> receive_data N flags n = Some (None, n')"
  by (subst receive_data_def, subst recv_loop.simps) simp

lemma c_int_nonneg: "n < 2 ^ 31 \<Longrightarrow> c_int n = int n"
  by (simp add: c_int_def signed_of_nat signed_take_bit_int_eq_self)

section \<open>Retrying, as a specification\<close>

text \<open>
  The receives of a network taken \<open>k\<close> turns apart, each after a sleep. The loop is the first turn
  that succeeds, is fatal, or leaves the clock past the deadline.
\<close>

fun after_turns :: "'n net \<Rightarrow> bool \<Rightarrow> nat \<Rightarrow> 'n \<Rightarrow> 'n" where
  "after_turns N flags 0 n = n"
| "after_turns N flags (Suc k) n = after_turns N flags k (usleep N 250 (snd (nn_recv N flags n)))"

definition retries :: "'n net \<Rightarrow> bool \<Rightarrow> int \<Rightarrow> 'n \<Rightarrow> bool" where
  "retries N flags end_time n \<longleftrightarrow> (\<exists>e. fst (nn_recv N flags n) = Inl e \<and> \<not> recv_fatal e \<and>
     current_ms N (usleep N 250 (snd (nn_recv N flags n))) < end_time)"

lemma recv_loop_turns:
  assumes "\<forall>j < k. retries N flags end_time (after_turns N flags j n)"
  shows "recv_loop N flags end_time n = recv_loop N flags end_time (after_turns N flags k n)"
  using assms
proof (induction k arbitrary: n)
  case 0
  then show ?case by simp
next
  case (Suc k)
  let ?n = "usleep N 250 (snd (nn_recv N flags n))"
  have "retries N flags end_time n" using Suc.prems [rule_format, of 0] by simp
  then have "recv_loop N flags end_time n = recv_loop N flags end_time ?n"
    by (subst recv_loop.simps) (auto simp: retries_def Let_def split: prod.splits)
  also have "\<dots> = recv_loop N flags end_time (after_turns N flags k ?n)"
    using Suc.prems by (intro Suc.IH) auto
  finally show ?case by simp
qed

end
