(* ===== verification/Request.thy ===== *)
theory Request
  imports Comm Wire
begin

text \<open>
  The client's exchange of a request for a reply: \<open>src/client/request.c\<close>, \<open>send_request\<close> of
  \<open>src/client/fuseops.c\<close>, and the state \<open>client_state\<close> they run on. A reply is the
  bytes of a message that the transport allocated; \<open>messages\<close> counts those not yet freed and
  \<open>endpoints\<close> lists the connections that are open. An exchange that does not end is the outcome
  \<open>Spins\<close>.
\<close>

section \<open>The client's state\<close>

record 'n client =
  net_state :: 'n
  server_url :: bytes
  server_sock :: int
  root_fhandle :: fhandle
  msg_bufs :: int            \<comment> \<open>messages received and not freed\<close>
  heap_bufs :: int           \<comment> \<open>blocks allocated and not freed\<close>
  endpoints :: "int list"    \<comment> \<open>connections open\<close>
  after_string :: bytes      \<comment> \<open>what lies in memory behind a string that is copied too far\<close>

type_synonym ('n, 'a) cl = "('n client, 'a) prog"

definition nn_freemsg :: "('n, unit) cl" where
  "nn_freemsg = modify (\<lambda>c. c\<lparr>msg_bufs := msg_bufs c - 1\<rparr>)"

definition c_connect :: "'n net \<Rightarrow> bytes \<Rightarrow> ('n, int) cl" where
  "c_connect N url = (\<lambda>c. case nn_connect N url (net_state c) of (e, n) \<Rightarrow>
     Ret e (if e < 0 then c\<lparr>net_state := n\<rparr> else c\<lparr>net_state := n, endpoints := e # endpoints c\<rparr>))"

definition c_shutdown :: "'n net \<Rightarrow> int \<Rightarrow> ('n, unit) cl" where
  "c_shutdown N e = modify (\<lambda>c. c\<lparr>net_state := nn_shutdown N e (net_state c),
     endpoints := remove1 e (endpoints c)\<rparr>)"

definition c_send_data :: "'n net \<Rightarrow> bytes \<Rightarrow> bool \<Rightarrow> ('n, int) cl" where
  "c_send_data N data flags = (\<lambda>c. case send_data N data flags (net_state c) of
     None \<Rightarrow> Spins | Some (r, n) \<Rightarrow> Ret r (c\<lparr>net_state := n\<rparr>))"

definition c_receive_data :: "'n net \<Rightarrow> bool \<Rightarrow> ('n, bytes option) cl" where
  "c_receive_data N flags = (\<lambda>c. case receive_data N flags (net_state c) of
     None \<Rightarrow> Spins
   | Some (None, n) \<Rightarrow> Ret None (c\<lparr>net_state := n\<rparr>)
   | Some (Some m, n) \<Rightarrow> Ret (Some m) (c\<lparr>net_state := n, msg_bufs := msg_bufs c + 1\<rparr>))"

section \<open>The exchange\<close>

text \<open>Reading \<open>reply->type\<close>; there is no check that the message is that long.\<close>

definition reply_type :: "bytes \<Rightarrow> ('n, u32) cl" where
  "reply_type m = andthen (must (4 \<le> length m)) (ret (le_word (take 4 m)))"

definition snfs_req_rep_f :: "'n net \<Rightarrow> int \<Rightarrow> bytes \<Rightarrow> bytes \<Rightarrow> bool \<Rightarrow> ('n, bytes option) cl" where
  "snfs_req_rep_f N sock url request flags =
     andthen (c_assert (0 \<le> sock))
     (bnd (c_connect N url) (\<lambda>endpoint.
      if endpoint < 0 then ret None
      else
        bnd (c_send_data N request flags) (\<lambda>sent.
        if sent < 0 then andthen (c_shutdown N endpoint) (ret None)
        else
          bnd (c_receive_data N flags) (\<lambda>reply.
          andthen (c_shutdown N endpoint)
          (case reply of
             None \<Rightarrow> ret None
           | Some m \<Rightarrow>
               bnd (reply_type m) (\<lambda>t.
               if t = msg_code ERROR then
                 \<comment> \<open>the error code is read for the debug output\<close>
                 andthen (must (8 \<le> length m))
                 (andthen nn_freemsg (ret None))
               else ret (Some m)))))))"

definition snfs_req_rep :: "'n net \<Rightarrow> int \<Rightarrow> bytes \<Rightarrow> bytes \<Rightarrow> ('n, bytes option) cl" where
  "snfs_req_rep N sock url request = snfs_req_rep_f N sock url request False"

definition test_connection :: "'n net \<Rightarrow> int \<Rightarrow> bytes \<Rightarrow> ('n, unit) cl" where
  "test_connection N sock url =
     bnd (snfs_req_rep_f N sock url (encode_req Req_noop) True) (\<lambda>rep. case rep of
       None \<Rightarrow> err_exit
     | Some m \<Rightarrow>
         andthen nn_freemsg
         (bnd (snfs_req_rep N sock url (encode_req Req_noop)) (\<lambda>rep. case rep of
            None \<Rightarrow> err_exit
          | Some m \<Rightarrow> nn_freemsg)))"

text \<open>The root handle is read without a look at the type of the reply.\<close>

definition server_mount :: "'n net \<Rightarrow> int \<Rightarrow> bytes \<Rightarrow> ('n, fhandle option) cl" where
  "server_mount N sock url =
     bnd (snfs_req_rep N sock url (encode_req Req_mount)) (\<lambda>reply. case reply of
       None \<Rightarrow> ret None
     | Some m \<Rightarrow>
         andthen (must (12 \<le> length m))
         (andthen nn_freemsg
         (ret (Some (le_word (take 8 (drop 4 m)))))))"

text \<open>\<open>send_request\<close>: the reply of the same type as the request, or nothing.\<close>

definition send_request :: "'n net \<Rightarrow> snfs_req \<Rightarrow> ('n, bytes option) cl" where
  "send_request N request =
     andthen (c_assert (4 \<le> length (encode_req request)))
     (bnd (gets (\<lambda>c. (server_sock c, server_url c))) (\<lambda>(sock, url).
      bnd (snfs_req_rep_f N sock url (encode_req request) True) (\<lambda>reply. case reply of
        None \<Rightarrow> ret None
      | Some m \<Rightarrow>
          bnd (reply_type m) (\<lambda>t.
          if t \<noteq> req_code request then andthen nn_freemsg (ret None)
          else ret (Some m)))))"

text \<open>The members of the reply, read where the type says they are.\<close>

definition content :: "bytes \<Rightarrow> ('n, snfs_rep) cl" where
  "content m = (case decode_rep m of None \<Rightarrow> undefined_behaviour | Some r \<Rightarrow> ret r)"

section \<open>The client's start and end\<close>

text \<open>\<open>snfs_init\<close>: connect, test, mount; the process ends when any of it fails.\<close>

definition snfs_init :: "'n net \<Rightarrow> ('n, unit) cl" where
  "snfs_init N =
     bnd (\<lambda>c. case nn_socket N (net_state c) of (sock, n) \<Rightarrow>
            Ret sock (c\<lparr>net_state := n, server_sock := sock\<rparr>)) (\<lambda>sock.
     bnd (gets server_url) (\<lambda>url.
     andthen (test_connection N sock url)
     (bnd (server_mount N sock url) (\<lambda>root. case root of
        None \<Rightarrow> err_exit
      | Some h \<Rightarrow> modify (\<lambda>c. c\<lparr>root_fhandle := h\<rparr>)))))"

text \<open>\<open>snfs_destroy\<close> closes the socket and frees the URL and the state itself.\<close>

definition snfs_destroy :: "'n net \<Rightarrow> ('n, unit) cl" where
  "snfs_destroy N = modify (\<lambda>c. c\<lparr>net_state := nn_close N (server_sock c) (net_state c),
     heap_bufs := heap_bufs c - 2\<rparr>)"

section \<open>Preconditions\<close>

lemma wp_nn_freemsg [simp, wp_rules]: "wp nn_freemsg Q c = Q () (c\<lparr>msg_bufs := msg_bufs c - 1\<rparr>)"
  by (simp add: nn_freemsg_def)

lemma twp_nn_freemsg [simp, twp_rules]: "twp nn_freemsg Q c = Q () (c\<lparr>msg_bufs := msg_bufs c - 1\<rparr>)"
  by (simp add: nn_freemsg_def)

lemma wp_c_connect [simp, wp_rules]:
  "wp (c_connect N url) Q c = (\<forall>e n. nn_connect N url (net_state c) = (e, n) \<longrightarrow>
     Q e (if e < 0 then c\<lparr>net_state := n\<rparr> else c\<lparr>net_state := n, endpoints := e # endpoints c\<rparr>))"
  by (simp add: c_connect_def wp_def split: prod.splits)

lemma wp_c_shutdown [simp, wp_rules]:
  "wp (c_shutdown N e) Q c = Q () (c\<lparr>net_state := nn_shutdown N e (net_state c),
     endpoints := remove1 e (endpoints c)\<rparr>)"
  by (simp add: c_shutdown_def)

lemma wp_c_send_data [simp, wp_rules]:
  "wp (c_send_data N data flags) Q c =
     (\<forall>r n. send_data N data flags (net_state c) = Some (r, n) \<longrightarrow> Q r (c\<lparr>net_state := n\<rparr>))"
  by (auto simp: c_send_data_def wp_def split: option.splits prod.splits)

lemma wp_c_receive_data [simp, wp_rules]:
  "wp (c_receive_data N flags) Q c =
     ((\<forall>n. receive_data N flags (net_state c) = Some (None, n) \<longrightarrow> Q None (c\<lparr>net_state := n\<rparr>)) \<and>
      (\<forall>m n. receive_data N flags (net_state c) = Some (Some m, n) \<longrightarrow>
        Q (Some m) (c\<lparr>net_state := n, msg_bufs := msg_bufs c + 1\<rparr>)))"
  by (auto simp: c_receive_data_def wp_def split: option.splits prod.splits)

lemma wp_reply_type [simp, wp_rules]:
  "wp (reply_type m) Q c = (4 \<le> length m \<longrightarrow> Q (le_word (take 4 m)) c)"
  by (simp add: reply_type_def)

lemma wp_content [simp, wp_rules]: "wp (content m) Q c = (\<forall>r. decode_rep m = Some r \<longrightarrow> Q r c)"
  by (simp add: content_def split: option.splits)

section \<open>The books of an exchange\<close>

text \<open>
  An exchange closes the connection it opened and holds a message exactly when it returns one. This
  needs no assumption on the network.
\<close>

definition cl_only :: "int \<Rightarrow> 'n client \<Rightarrow> 'n client \<Rightarrow> bool" where
  "cl_only k c c' \<longleftrightarrow> msg_bufs c' = msg_bufs c + k \<and> heap_bufs c' = heap_bufs c \<and>
     endpoints c' = endpoints c \<and> root_fhandle c' = root_fhandle c \<and> server_url c' = server_url c \<and>
     server_sock c' = server_sock c \<and> after_string c' = after_string c"

lemma snfs_req_rep_f_frame:
  "wp (snfs_req_rep_f N sock url req flags) (\<lambda>r c'. cl_only (if r = None then 0 else 1) c c' \<and>
    (\<forall>m. r = Some m \<longrightarrow> 4 \<le> length m \<and> le_word (take 4 m) \<noteq> msg_code ERROR)) c"
  by (auto simp: snfs_req_rep_f_def cl_only_def split: option.splits)

lemma send_request_frame:
  "wp (send_request N req) (\<lambda>r c'. cl_only (if r = None then 0 else 1) c c' \<and>
    (\<forall>m. r = Some m \<longrightarrow> 4 \<le> length m \<and> le_word (take 4 m) = req_code req)) c"
  unfolding send_request_def wp_rules
  by (auto simp: cl_only_def split: option.splits intro!: wp_mono [OF snfs_req_rep_f_frame])

end
