(* ===== verification/Fuseops.thy ===== *)
theory Fuseops
  imports Request
begin

text \<open>
  The FUSE callbacks, \<open>src/client/fuseops.c\<close>: each looks the path up component by component (or
  uses the handle FUSE kept from \<open>open\<close>), sends one request and turns the reply into what FUSE
  wants, a negative error number, or a count. The results are \<open>int\<close>s with the conversions of
  the code written out. An out-parameter is a component of the result.
\<close>

definition ENOENT_int :: int where "ENOENT_int = 2"
definition EIO_int :: int where "EIO_int = 5"

lemmas errno_ints = ENOENT_int_def EIO_int_def

section \<open>Attributes\<close>

text \<open>\<open>rdev\<close> and \<open>dev\<close> of the buffer are left as they are, and so are the nanoseconds.\<close>

definition fattr_to_stat :: "fattr \<Rightarrow> stat \<Rightarrow> stat" where
  "fattr_to_stat attr st = st\<lparr>st_mode := ucast (fa_mode attr), st_nlink := fa_nlink attr,
     st_uid := ucast (fa_uid attr), st_gid := ucast (fa_gid attr), st_size := fa_size attr,
     st_ino := fa_fileid attr, st_atime := tv_seconds (fa_atime attr),
     st_mtime := tv_seconds (fa_mtime attr), st_ctime := tv_seconds (fa_ctime attr)\<rparr>"

section \<open>Path lookup\<close>

text \<open>\<open>strtok\<close> with the delimiter \<open>/\<close>: it skips delimiters and never returns an empty token.\<close>

definition is_slash :: "byte \<Rightarrow> bool" where
  "is_slash b \<longleftrightarrow> b = 0x2F"

function strtok :: "bytes \<Rightarrow> bytes list" where
  "strtok p =
     (let q = dropWhile is_slash p in
      if q = [] then []
      else takeWhile (\<lambda>b. \<not> is_slash b) q # strtok (dropWhile (\<lambda>b. \<not> is_slash b) q))"
  by pat_completeness auto
termination
proof (relation "measure length")
  fix p q :: bytes
  assume q: "q = dropWhile is_slash p" "q \<noteq> []"
  then have "\<not> is_slash (hd q)" using hd_dropWhile [of is_slash p] by simp
  with q(2) have "length (dropWhile (\<lambda>b. \<not> is_slash b) q) < length q"
    by (cases q) (simp_all add: length_dropWhile_le le_imp_less_Suc)
  also have "\<dots> \<le> length p" using q(1) by (simp add: length_dropWhile_le)
  finally show "(dropWhile (\<lambda>b. \<not> is_slash b) q, p) \<in> measure length" by simp
qed simp

declare strtok.simps [simp del]

text \<open>
  The name array of a request: 255 bytes from the name on, however long it is, and a zero. A
  shorter name is followed by what lies behind it in memory.
\<close>

definition name_array :: "bytes \<Rightarrow> bytes \<Rightarrow> bytes" where
  "name_array name behind = take SNFS_MAX_FILENAME_LENGTH (zstr name @ behind) @ [0]"

definition copy_name :: "bytes \<Rightarrow> ('n, bytes) cl" where
  "copy_name name =
     bnd (gets after_string) (\<lambda>behind.
     andthen (must (SNFS_MAX_FILENAME_LENGTH \<le> length (zstr name @ behind)))
     (ret (name_array name behind)))"

fun lookup_loop :: "'n net \<Rightarrow> fhandle \<Rightarrow> bytes list \<Rightarrow> ('n, fhandle option) cl" where
  "lookup_loop N cur_handle [] = ret (Some cur_handle)"
| "lookup_loop N cur_handle (filename # rest) =
     bnd (copy_name filename) (\<lambda>name.
     bnd (send_request N (Req_lookup \<lparr>la_dir = cur_handle, la_filename = name\<rparr>)) (\<lambda>reply. case reply of
       None \<Rightarrow> ret None
     | Some m \<Rightarrow>
         bnd (content m) (\<lambda>rep. case rep of
           Rep_lookup r \<Rightarrow> andthen nn_freemsg (lookup_loop N (lr_handle r) rest)
         | _ \<Rightarrow> undefined_behaviour)))"

text \<open>\<open>None\<close> is the result \<open>false\<close>.\<close>

definition lookup :: "'n net \<Rightarrow> path \<Rightarrow> ('n, fhandle option) cl" where
  "lookup N path =
     bnd (gets root_fhandle) (\<lambda>root.
     if path = [0x2F] then ret (Some root)
     else lookup_loop N root (strtok path))"

text \<open>A stub; nothing calls it.\<close>

definition cached_lookup :: "path \<Rightarrow> ('n, fhandle option) cl" where
  "cached_lookup path = ret None"

section \<open>Reading\<close>

definition snfs_getattr :: "'n net \<Rightarrow> path \<Rightarrow> stat \<Rightarrow> ('n, int \<times> stat) cl" where
  "snfs_getattr N path stbuf =
     bnd (lookup N path) (\<lambda>h. case h of
       None \<Rightarrow> ret (- ENOENT_int, stbuf)
     | Some handle \<Rightarrow>
         bnd (send_request N (Req_getattr \<lparr>ga_fh = handle\<rparr>)) (\<lambda>reply. case reply of
           None \<Rightarrow> ret (- EIO_int, stbuf)
         | Some m \<Rightarrow>
             bnd (content m) (\<lambda>rep. case rep of
               Rep_getattr a \<Rightarrow> andthen nn_freemsg (ret (0, fattr_to_stat a stbuf))
             | _ \<Rightarrow> undefined_behaviour)))"

text \<open>The names that \<open>filler\<close> is called with, each read up to its terminator.\<close>

fun fill :: "snfsentry list \<Rightarrow> ('n, bytes list) cl" where
  "fill [] = ret []"
| "fill (e # es) = (case cstr_of (ent_filename e) of
     None \<Rightarrow> undefined_behaviour
   | Some n \<Rightarrow> bnd (fill es) (\<lambda>ns. ret (n # ns)))"

definition snfs_readdir :: "'n net \<Rightarrow> path \<Rightarrow> ('n, int \<times> bytes list) cl" where
  "snfs_readdir N path =
     bnd (lookup N path) (\<lambda>h. case h of
       None \<Rightarrow> ret (- ENOENT_int, [])
     | Some handle \<Rightarrow>
         bnd (send_request N (Req_readdir \<lparr>rd_dir = handle, rd_count = 256\<rparr>)) (\<lambda>reply. case reply of
           None \<Rightarrow> ret (- EIO_int, [])
         | Some m \<Rightarrow>
             bnd (content m) (\<lambda>rep. case rep of
               Rep_readdir r \<Rightarrow>
                 bnd (fill (dr_entries r)) (\<lambda>names.
                 andthen nn_freemsg (ret (0, names)))
             | _ \<Rightarrow> undefined_behaviour)))"

text \<open>The handle goes into \<open>fi->fh\<close>, which is left alone when the lookup fails.\<close>

definition snfs_open :: "'n net \<Rightarrow> path \<Rightarrow> fhandle \<Rightarrow> ('n, int \<times> fhandle) cl" where
  "snfs_open N path fh =
     bnd (lookup N path) (\<lambda>h. case h of
       None \<Rightarrow> ret (- ENOENT_int, fh)
     | Some handle \<Rightarrow> ret (0, handle))"

definition snfs_read :: "'n net \<Rightarrow> u64 \<Rightarrow> i64 \<Rightarrow> fhandle \<Rightarrow> ('n, int \<times> bytes) cl" where
  "snfs_read N count offset fh =
     bnd (send_request N (Req_read \<lparr>ra_file = fh, ra_offset = offset, ra_count = count\<rparr>))
     (\<lambda>reply. case reply of
       None \<Rightarrow> ret (- EIO_int, [])
     | Some m \<Rightarrow>
         bnd (content m) (\<lambda>rep. case rep of
           Rep_read r \<Rightarrow>
             (let to_copy = min (rr_count r) count in
              andthen (must (unat to_copy \<le> length (rr_data r)))
              (andthen nn_freemsg
              (ret (sint (ucast to_copy :: u32), take (unat to_copy) (rr_data r)))))
         | _ \<Rightarrow> undefined_behaviour))"

section \<open>Writing\<close>

text \<open>A failing \<open>malloc\<close> ends the client; it is not modelled here.\<close>

definition cl_malloc :: "('n, unit) cl" where
  "cl_malloc = modify (\<lambda>c. c\<lparr>heap_bufs := heap_bufs c + 1\<rparr>)"

definition cl_free :: "('n, unit) cl" where
  "cl_free = modify (\<lambda>c. c\<lparr>heap_bufs := heap_bufs c - 1\<rparr>)"

text \<open>\<open>buf\<close> holds the \<open>count\<close> bytes that FUSE passes.\<close>

definition snfs_write :: "'n net \<Rightarrow> bytes \<Rightarrow> u64 \<Rightarrow> i64 \<Rightarrow> fhandle \<Rightarrow> ('n, int) cl" where
  "snfs_write N buf count offset fh =
     andthen cl_malloc
     (andthen (must (unat count \<le> length buf))
     (bnd (send_request N (Req_write \<lparr>wa_file = fh, wa_offset = offset, wa_count = count,
        wa_data = take (unat count) buf\<rparr>)) (\<lambda>reply. case reply of
        None \<Rightarrow> andthen cl_free (ret (- EIO_int))
      | Some m \<Rightarrow>
          bnd (content m) (\<lambda>rep. case rep of
            Rep_write n \<Rightarrow> andthen cl_free (andthen nn_freemsg (ret (sint (ucast n :: u32))))
          | _ \<Rightarrow> undefined_behaviour))))"

record timespec =
  ts_sec :: i64
  ts_nsec :: i64

text \<open>The nanoseconds are multiplied by a thousand where microseconds are meant.\<close>

definition to_timeval :: "timespec \<Rightarrow> snfs_timeval" where
  "to_timeval t = \<lparr>tv_seconds = ts_sec t, tv_useconds = ts_nsec t * 1000\<rparr>"

text \<open>The reply is not freed when there is one.\<close>

definition snfs_setattr ::
    "'n net \<Rightarrow> path \<Rightarrow> u64 \<Rightarrow> i64 \<Rightarrow> u32 \<Rightarrow> u32 \<Rightarrow> u32 \<Rightarrow> (timespec \<times> timespec) option
      \<Rightarrow> ('n, int) cl" where
  "snfs_setattr N path which sz mode uid gid tv =
     bnd (lookup N path) (\<lambda>h. case h of
       None \<Rightarrow> ret (- ENOENT_int)
     | Some handle \<Rightarrow>
         (let zero = \<lparr>tv_seconds = 0, tv_useconds = 0\<rparr>;
              atime = (case tv of None \<Rightarrow> zero | Some (a, m) \<Rightarrow> to_timeval a);
              mtime = (case tv of None \<Rightarrow> zero | Some (a, m) \<Rightarrow> to_timeval m) in
          bnd (send_request N (Req_setattr \<lparr>sa_file = handle, sa_which = which, sa_mode = ucast mode,
            sa_uid = ucast uid, sa_gid = ucast gid, sa_size = sz, sa_atime = atime,
            sa_mtime = mtime\<rparr>)) (\<lambda>reply. case reply of
            None \<Rightarrow> ret (- EIO_int)
          | Some m \<Rightarrow>
              bnd (content m) (\<lambda>rep. case rep of
                Rep_setattr w \<Rightarrow> ret (if w = which then 0 else -1)
              | _ \<Rightarrow> undefined_behaviour))))"

definition snfs_truncate :: "'n net \<Rightarrow> path \<Rightarrow> i64 \<Rightarrow> ('n, int) cl" where
  "snfs_truncate N path sz = snfs_setattr N path SNFS_SETSIZE sz 0 0 0 None"

definition snfs_chmod :: "'n net \<Rightarrow> path \<Rightarrow> u32 \<Rightarrow> ('n, int) cl" where
  "snfs_chmod N path mode = snfs_setattr N path SNFS_SETMODE 0 mode 0 0 None"

definition snfs_chown :: "'n net \<Rightarrow> path \<Rightarrow> u32 \<Rightarrow> u32 \<Rightarrow> ('n, int) cl" where
  "snfs_chown N path uid gid =
     snfs_setattr N path
       ((if sint uid \<noteq> -1 then SNFS_SETUID else 0) OR (if sint gid \<noteq> -1 then SNFS_SETGID else 0))
       0 0 uid gid None"

definition snfs_utimens :: "'n net \<Rightarrow> path \<Rightarrow> timespec \<times> timespec \<Rightarrow> ('n, int) cl" where
  "snfs_utimens N path tv = snfs_setattr N path SNFS_SETTIMES 0 0 0 0 (Some tv)"

section \<open>The name space\<close>

definition snfs_create :: "'n net \<Rightarrow> path \<Rightarrow> u32 \<Rightarrow> fhandle \<Rightarrow> ('n, int \<times> fhandle) cl" where
  "snfs_create N path mode fh =
     (if path = [0x2F] then ret (- ENOENT_int, fh)
      else
        bnd (copy_name path) (\<lambda>name.
        bnd (send_request N (Req_create \<lparr>ca_filename = name, ca_mode = mode\<rparr>)) (\<lambda>reply. case reply of
          None \<Rightarrow> ret (- ENOENT_int, fh)
        | Some m \<Rightarrow>
            bnd (content m) (\<lambda>rep. case rep of
              Rep_create h \<Rightarrow> andthen nn_freemsg (ret (0, h))
            | _ \<Rightarrow> undefined_behaviour))))"

text \<open>\<open>snfs_unlink\<close> and \<open>snfs_rmdir\<close> differ in the flag \<open>is_dir\<close> only.\<close>

definition remove_path :: "'n net \<Rightarrow> path \<Rightarrow> u8 \<Rightarrow> ('n, int) cl" where
  "remove_path N path is_dir =
     bnd (lookup N path) (\<lambda>h. case h of
       None \<Rightarrow> ret (- ENOENT_int)
     | Some handle \<Rightarrow>
         bnd (send_request N (Req_remove \<lparr>rm_fh = handle, rm_is_dir = is_dir\<rparr>)) (\<lambda>reply. case reply of
           None \<Rightarrow> ret (- ENOENT_int)
         | Some m \<Rightarrow> andthen nn_freemsg (ret 0)))"

definition snfs_unlink :: "'n net \<Rightarrow> path \<Rightarrow> ('n, int) cl" where
  "snfs_unlink N path = remove_path N path 0"

definition snfs_rmdir :: "'n net \<Rightarrow> path \<Rightarrow> ('n, int) cl" where
  "snfs_rmdir N path = remove_path N path 1"

definition snfs_rename :: "'n net \<Rightarrow> path \<Rightarrow> path \<Rightarrow> ('n, int) cl" where
  "snfs_rename N oldpath newpath =
     bnd (lookup N oldpath) (\<lambda>h. case h of
       None \<Rightarrow> ret (- ENOENT_int)
     | Some handle \<Rightarrow>
         bnd (copy_name newpath) (\<lambda>name.
         bnd (send_request N (Req_rename \<lparr>rn_fh = handle, rn_filename = name\<rparr>)) (\<lambda>reply. case reply of
           None \<Rightarrow> ret (- ENOENT_int)
         | Some m \<Rightarrow> andthen nn_freemsg (ret 0))))"

definition snfs_mkdir :: "'n net \<Rightarrow> path \<Rightarrow> u32 \<Rightarrow> ('n, int) cl" where
  "snfs_mkdir N path mode =
     (if path = [0x2F] then ret (- ENOENT_int)
      else
        bnd (copy_name path) (\<lambda>name.
        bnd (send_request N (Req_mkdir \<lparr>mk_dirname = name, mk_mode = mode OR S_IFDIR\<rparr>))
        (\<lambda>reply. case reply of
          None \<Rightarrow> ret (- ENOENT_int)
        | Some m \<Rightarrow> andthen nn_freemsg (ret 0))))"

definition snfs_opendir :: "'n net \<Rightarrow> path \<Rightarrow> fhandle \<Rightarrow> ('n, int \<times> fhandle) cl" where
  "snfs_opendir N path fh =
     bnd (lookup N path) (\<lambda>h. case h of
       None \<Rightarrow> ret (- ENOENT_int, fh)
     | Some handle \<Rightarrow> ret (0, handle))"

definition snfs_release :: "path \<Rightarrow> ('n, int) cl" where
  "snfs_release path = ret 0"

definition snfs_releasedir :: "path \<Rightarrow> ('n, int) cl" where
  "snfs_releasedir path = ret 0"

section \<open>Tokens\<close>

text \<open>The components of a path, as a specification: the non-empty pieces between the slashes.\<close>

fun pieces :: "bytes \<Rightarrow> bytes list" where
  "pieces [] = [[]]"
| "pieces (b # bs) = (if is_slash b then [] # pieces bs
     else case pieces bs of [] \<Rightarrow> [[b]] | t # ts \<Rightarrow> (b # t) # ts)"

lemma pieces_not_Nil [simp]: "pieces p \<noteq> []"
  by (induction p) (auto split: list.splits)

lemma pieces_token:
  "pieces (a @ b) = (a @ hd (pieces b)) # tl (pieces b)" if "\<forall>x \<in> set a. \<not> is_slash x"
  using that by (induction a) (auto split: list.splits)

lemma pieces_dropWhile:
  "filter (\<lambda>t. t \<noteq> []) (pieces (dropWhile is_slash p)) = filter (\<lambda>t. t \<noteq> []) (pieces p)"
  by (induction p) auto

lemma strtok_Nil [simp]: "strtok [] = []"
  by (simp add: strtok.simps)

lemma strtok_pieces: "strtok p = filter (\<lambda>t. t \<noteq> []) (pieces p)"
proof (induction p rule: strtok.induct)
  case (1 p)
  let ?q = "dropWhile is_slash p"
  let ?a = "takeWhile (\<lambda>b. \<not> is_slash b) ?q" and ?b = "dropWhile (\<lambda>b. \<not> is_slash b) ?q"
  show ?case
  proof (cases "?q = []")
    case True
    then have "filter (\<lambda>t. t \<noteq> []) (pieces p) = []"
      using pieces_dropWhile [of p] by (simp only:) simp
    with True show ?thesis by (simp only: strtok.simps [of p] Let_def if_True simp_thms)
  next
    case False
    then have "\<not> is_slash (hd ?q)" using hd_dropWhile by blast
    with False have a: "?a \<noteq> []" by (cases ?q) auto
    have b: "hd (pieces ?b) = []"
    proof (cases ?b)
      case Nil
      then show ?thesis by (simp only: pieces.simps list.sel)
    next
      case (Cons x xs)
      then have "is_slash x" using hd_dropWhile [of "\<lambda>b. \<not> is_slash b" ?q] by simp
      then show ?thesis by (simp only: Cons pieces.simps if_True list.sel)
    qed
    have "filter (\<lambda>t. t \<noteq> []) (pieces ?b) = filter (\<lambda>t. t \<noteq> []) (tl (pieces ?b))"
      using b by (cases "pieces ?b") auto
    moreover have "pieces (?a @ ?b) = (?a @ hd (pieces ?b)) # tl (pieces ?b)"
      by (rule pieces_token) (auto dest: set_takeWhileD)
    then have "pieces ?q = ?a # tl (pieces ?b)"
      using b by simp
    ultimately have "filter (\<lambda>t. t \<noteq> []) (pieces ?q) = ?a # filter (\<lambda>t. t \<noteq> []) (pieces ?b)"
      using a by simp
    with 1 False show ?thesis
      by (simp add: strtok.simps [of p] pieces_dropWhile Let_def)
  qed
qed

lemma strtok_token: "t \<in> set (strtok p) \<Longrightarrow> t \<noteq> [] \<and> (\<forall>b \<in> set t. \<not> is_slash b \<and> b \<in> set p)"
proof -
  have "t \<in> set (pieces p) \<Longrightarrow> \<forall>b \<in> set t. \<not> is_slash b \<and> b \<in> set p" for t
    by (induction p arbitrary: t) (force split: if_splits list.splits)+
  then show "t \<in> set (strtok p) \<Longrightarrow> ?thesis" by (auto simp: strtok_pieces)
qed

section \<open>Name arrays\<close>

lemma length_name_array:
  "SNFS_MAX_FILENAME_LENGTH \<le> length (zstr n @ behind) \<Longrightarrow>
   length (name_array n behind) = SNFS_MAX_FILENAME_BUF"
  by (auto simp: name_array_def min_def)

text \<open>
  The server reads back the name, cut to 255 bytes: for a longer name the byte 256 is the
  terminator.
\<close>

lemma cstr_of_name_array:
  assumes "cstring n"
  shows "cstr_of (name_array n behind) = Some (take 255 n)"
proof (cases "length n < 255")
  case True
  then have "name_array n behind = n @ 0 # (take (255 - Suc (length n)) behind @ [0])"
    by (simp add: name_array_def zstr_def take_Cons' split: nat.splits)
  with assms True show ?thesis by simp
next
  case False
  then have "name_array n behind = take 255 n @ 0 # []"
    by (simp add: name_array_def zstr_def)
  moreover have "cstring (take 255 n)"
    using assms by (auto simp: cstring_def dest: in_set_takeD)
  ultimately show ?thesis by (metis cstr_of_append0)
qed

section \<open>The books of the callbacks\<close>

text \<open>
  Whatever the network does, a callback that returns has closed every connection, freed
  every block it allocated and every message it received, except that SETATTR keeps the reply of a
  request that was answered.
\<close>

lemma cl_only_trans: "cl_only k c c' \<Longrightarrow> cl_only l c' c'' \<Longrightarrow> cl_only (k + l) c c''"
  by (simp add: cl_only_def)

lemma lookup_loop_frame: "wp (lookup_loop N h ts) (\<lambda>_. cl_only 0 c) c"
proof (induction ts arbitrary: h c)
  case Nil
  then show ?case by (simp add: cl_only_def)
next
  case (Cons t ts)
  have *: "wp (lookup_loop N h' ts) (\<lambda>_. cl_only 0 c) (c'\<lparr>msg_bufs := msg_bufs c' - 1\<rparr>)"
    if "cl_only 1 c c'" for h' c'
    using that by (intro wp_mono [OF Cons.IH]) (simp add: cl_only_def)
  show ?case
    unfolding lookup_loop.simps copy_name_def wp_rules
    by (auto split: option.splits snfs_rep.splits intro!: wp_mono [OF send_request_frame] *)
qed

lemma lookup_frame: "wp (lookup N p) (\<lambda>_. cl_only 0 c) c"
  unfolding lookup_def wp_rules
  by (auto simp: cl_only_def intro: wp_mono [OF lookup_loop_frame])

lemma fill_frame: "wp (fill es) (\<lambda>_ c'. c' = c) c"
proof (induction es arbitrary: c)
  case (Cons e es)
  then show ?case by (auto split: option.splits intro: wp_mono [OF Cons.IH])
qed simp

lemma books:
  "wp (snfs_getattr N p st) (\<lambda>_. cl_only 0 c) c"
  "wp (snfs_readdir N p) (\<lambda>_. cl_only 0 c) c"
  "wp (snfs_open N p fh) (\<lambda>_. cl_only 0 c) c"
  "wp (snfs_opendir N p fh) (\<lambda>_. cl_only 0 c) c"
  "wp (snfs_read N count off fh) (\<lambda>_. cl_only 0 c) c"
  "wp (snfs_create N p mode fh) (\<lambda>_. cl_only 0 c) c"
  "wp (remove_path N p d) (\<lambda>_. cl_only 0 c) c"
  "wp (snfs_rename N p q) (\<lambda>_. cl_only 0 c) c"
  "wp (snfs_mkdir N p mode) (\<lambda>_. cl_only 0 c) c"
  unfolding snfs_getattr_def snfs_readdir_def snfs_open_def snfs_opendir_def snfs_read_def
    snfs_create_def remove_path_def snfs_rename_def snfs_mkdir_def copy_name_def wp_rules Let_def
  by (auto simp: cl_only_def split: option.splits snfs_rep.splits
      intro!: wp_mono [OF lookup_frame] wp_mono [OF send_request_frame] wp_mono [OF fill_frame])

lemma setattr_books:
  "wp (snfs_setattr N p which sz mode uid gid tv)
    (\<lambda>r. cl_only (if r = 0 \<or> r = -1 then 1 else 0) c) c"
  unfolding snfs_setattr_def wp_rules Let_def
  by (auto simp: cl_only_def errno_ints split: option.splits snfs_rep.splits
      intro!: wp_mono [OF lookup_frame] wp_mono [OF send_request_frame])

lemma write_books: "wp (snfs_write N buf count off fh) (\<lambda>_. cl_only 0 c) c"
  unfolding snfs_write_def cl_malloc_def cl_free_def wp_rules
  by (auto simp: cl_only_def split: option.splits snfs_rep.splits
      intro!: wp_mono [OF send_request_frame])

end
