(* ===== verification/Request_Reply.thy ===== *)
theory Request_Reply
  imports Fuseops Serve_Loop
begin

text \<open>
  What the client needs from the network, as a contract. Behind the network there is a peer with a
  state; \<open>step req s\<close> is its answer to a request and its next state, if it answers. The
  laws say that connecting and closing do not touch the peer, and that an idle network
  carries the image of a request to the peer and the image of its answer back.

  The lemmas of the locale are the client's exchange over any such network. The interpretation is
  on the network \<open>direct_net E\<close> whose peer is the model of the server, one turn of
  \<open>serve_loop\<close> for each message: the client and the server put together.
\<close>

text \<open>
  The resolution of a list of names against a peer, one LOOKUP for each: the handle of the last, or
  nothing when one of them is refused.
\<close>

fun resolve ::
    "(snfs_req \<Rightarrow> 's \<Rightarrow> (snfs_rep \<times> 's) option) \<Rightarrow> bytes \<Rightarrow> fhandle \<Rightarrow> bytes list \<Rightarrow> 's
      \<Rightarrow> (fhandle option \<times> 's) option" where
  "resolve step behind h [] s = Some (Some h, s)"
| "resolve step behind h (t # ts) s =
     (case step (Req_lookup \<lparr>la_dir = h, la_filename = name_array t behind\<rparr>) s of
        Some (Rep_lookup r, s') \<Rightarrow> resolve step behind (lr_handle r) ts s'
      | Some (Rep_error e, s') \<Rightarrow> Some (None, s')
      | _ \<Rightarrow> None)"

locale request_reply =
  fixes N :: "'n net" and peer :: "'n \<Rightarrow> 's" and idle :: "'n \<Rightarrow> bool"
    and step :: "snfs_req \<Rightarrow> 's \<Rightarrow> (snfs_rep \<times> 's) option"
  assumes connect_law: "idle n \<Longrightarrow> \<exists>e n'. nn_connect N url n = (e, n') \<and> 0 \<le> e \<and> idle n' \<and> peer n' = peer n"
    and shutdown_law: "idle n \<Longrightarrow> idle (nn_shutdown N e n) \<and> peer (nn_shutdown N e n) = peer n"
    and exchange_law: "idle n \<Longrightarrow> req_ok req \<Longrightarrow> step req (peer n) = Some (rep, s') \<Longrightarrow>
      \<exists>n1 n2. nn_send N (encode_req req) flags n = (Inr (c_int (length (encode_req req))), n1) \<and>
        nn_recv N flags n1 = (Inr (encode_rep rep), n2) \<and> idle n2 \<and> peer n2 = s'"
    and socket_law: "idle n \<Longrightarrow> \<exists>e n'. nn_socket N n = (e, n') \<and> 0 \<le> e \<and> idle n' \<and> peer n' = peer n"
begin

text \<open>One exchange. An ERROR is freed and not returned.\<close>

lemma exchange_f:
  assumes "idle (net_state c)" "0 \<le> sock" "req_ok req" "length (encode_req req) < 2 ^ 31"
    and "step req (peer (net_state c)) = Some (rep, s')"
    and "rep_code rep = req_code req \<or> (\<exists>e. rep = Rep_error e)" "req_code req \<noteq> msg_code ERROR"
  shows "twp (snfs_req_rep_f N sock (server_url c) (encode_req req) flags) (\<lambda>r c'.
    r = (if rep_code rep = req_code req then Some (encode_rep rep) else None) \<and>
    cl_only (if rep_code rep = req_code req then 1 else 0) c c' \<and>
    idle (net_state c') \<and> peer (net_state c') = s') c"
proof -
  obtain e n0 where n0: "nn_connect N (server_url c) (net_state c) = (e, n0)" "0 \<le> e" "idle n0"
      "peer n0 = peer (net_state c)"
    using connect_law [OF assms(1)] by blast
  obtain n1 n2 where n1: "nn_send N (encode_req req) flags n0 = (Inr (c_int (length (encode_req req))), n1)"
      "nn_recv N flags n1 = (Inr (encode_rep rep), n2)" "idle n2" "peer n2 = s'"
    using exchange_law [OF n0(3) assms(3), of rep s' flags] assms(5) n0(4) by auto
  have send: "send_data N (encode_req req) flags n0 = Some (int (length (encode_req req)), n1)"
    using send_data_ready [OF n1(1)] assms(4) by (simp add: c_int_nonneg)
  have recv: "receive_data N flags n1 = Some (Some (encode_rep rep), n2)"
    by (rule receive_data_ready [OF n1(2)])
  have t: "take 4 (encode_rep rep) = le_bytes 4 (rep_code rep)" "4 \<le> length (encode_rep rep)"
    by (simp_all add: encode_rep_def)
  have err: "8 \<le> length (encode_rep rep)" if "rep_code rep \<noteq> req_code req"
    using assms(6) that by (auto simp: encode_rep_def)
  have sd: "idle (nn_shutdown N e n2)" "peer (nn_shutdown N e n2) = s'"
    using shutdown_law [OF n1(3), of e] n1(4) by simp_all
  show ?thesis
    using assms(2,6,7) n0(1,2) send recv t err sd
    by (auto simp: twp_Ret snfs_req_rep_f_def prog_defs c_connect_def
        c_send_data_def c_receive_data_def c_shutdown_def reply_type_def nn_freemsg_def cl_only_def)
qed

text \<open>The exchange of a callback, which checks the type of the reply once more.\<close>

lemma exchange:
  assumes "idle (net_state c)" "0 \<le> server_sock c" "req_ok req" "length (encode_req req) < 2 ^ 31"
    and "step req (peer (net_state c)) = Some (rep, s')"
    and "rep_code rep = req_code req \<or> (\<exists>e. rep = Rep_error e)" "req_code req \<noteq> msg_code ERROR"
  shows "twp (send_request N req) (\<lambda>r c'.
    r = (if rep_code rep = req_code req then Some (encode_rep rep) else None) \<and>
    cl_only (if rep_code rep = req_code req then 1 else 0) c c' \<and>
    idle (net_state c') \<and> peer (net_state c') = s') c"
proof -
  have len: "4 \<le> length (encode_req req)" by (simp add: encode_req_def)
  have t: "take 4 (encode_rep rep) = le_bytes 4 (rep_code rep)" "4 \<le> length (encode_rep rep)"
    by (simp_all add: encode_rep_def)
  show ?thesis
    unfolding send_request_def reply_type_def twp_rules
    using len t by (auto intro!: twp_mono [OF exchange_f [OF assms]])
qed

text \<open>Two exchanges in a row are possible: the client is ready again after each callback.\<close>

definition ready :: "'n client \<Rightarrow> bool" where
  "ready c \<longleftrightarrow> idle (net_state c) \<and> 0 \<le> server_sock c \<and> SNFS_MAX_FILENAME_LENGTH \<le> length (after_string c)"

lemma ready_frame: "ready c \<Longrightarrow> cl_only k c c' \<Longrightarrow> idle (net_state c') \<Longrightarrow> ready c'"
  by (simp add: ready_def cl_only_def)

lemma ready_upd [simp]:
  "ready (c\<lparr>msg_bufs := k\<rparr>) = ready c" "ready (c\<lparr>heap_bufs := k\<rparr>) = ready c"
  by (simp_all add: ready_def)

lemma name_ok: "ready c \<Longrightarrow> length (name_array t (after_string c)) = SNFS_MAX_FILENAME_BUF"
  by (rule length_name_array) (simp add: ready_def)

lemma request_answered:
  assumes "ready c" "req_ok req" "length (encode_req req) < 2 ^ 31"
    and "step req (peer (net_state c)) = Some (rep, s')"
    and "rep_code rep = req_code req" "req_code req \<noteq> msg_code ERROR"
  shows "twp (send_request N req) (\<lambda>r c'. r = Some (encode_rep rep) \<and> cl_only 1 c c' \<and> ready c' \<and>
    peer (net_state c') = s') c"
  using assms by (intro twp_mono [OF exchange [where rep = rep and s' = s' and req = req]])
    (auto simp: ready_def dest: ready_frame simp: cl_only_def)

lemma request_refused:
  assumes "ready c" "req_ok req" "length (encode_req req) < 2 ^ 31"
    and "step req (peer (net_state c)) = Some (Rep_error e, s')" "req_code req \<noteq> msg_code ERROR"
  shows "twp (send_request N req) (\<lambda>r c'. r = None \<and> cl_only 0 c c' \<and> ready c' \<and>
    peer (net_state c') = s') c"
  using assms by (intro twp_mono [OF exchange [where rep = "Rep_error e" and s' = s' and req = req]])
    (auto simp: ready_def cl_only_def)

lemma content_encode [simp]: "rep_ok r \<Longrightarrow> content (encode_rep r) = ret r"
  by (simp add: content_def decode_encode_rep)

lemma lookup_loop_resolves:
  assumes "ready c" "resolve step (after_string c) h ts (peer (net_state c)) = Some (r, s')"
  shows "twp (lookup_loop N h ts) (\<lambda>r' c'. r' = r \<and> ready c' \<and> cl_only 0 c c' \<and> peer (net_state c') = s') c"
  using assms
proof (induction ts arbitrary: h c)
  case Nil
  then show ?case by (simp add: cl_only_def)
next
  case (Cons t ts)
  let ?behind = "after_string c"
  let ?req = "Req_lookup \<lparr>la_dir = h, la_filename = name_array t ?behind\<rparr>"
  have ok: "req_ok ?req" "length (encode_req ?req) < 2 ^ 31" "req_code ?req \<noteq> msg_code ERROR"
    using name_ok [OF Cons.prems(1), of t] by (simp_all add: encode_req_def)
  have mem: "SNFS_MAX_FILENAME_LENGTH \<le> length (zstr t @ ?behind)"
    using Cons.prems(1) by (simp add: ready_def)
  from Cons.prems(2) obtain rep s1 where step: "step ?req (peer (net_state c)) = Some (rep, s1)"
    by (auto split: option.splits)
  from Cons.prems(2) step consider (found) l where "rep = Rep_lookup l"
      "resolve step ?behind (lr_handle l) ts s1 = Some (r, s')"
    | (refused) e where "rep = Rep_error e" "r = None" "s' = s1"
    by (auto split: snfs_rep.splits)
  then show ?case
  proof cases
    case found
    have *: "twp (lookup_loop N (lr_handle l) ts)
        (\<lambda>r' c''. r' = r \<and> ready c'' \<and> cl_only 0 c c'' \<and> peer (net_state c'') = s')
        (c'\<lparr>msg_bufs := msg_bufs c' - 1\<rparr>)"
      if "cl_only 1 c c'" "ready c'" "peer (net_state c') = s1" for c'
      using that found(2)
      by (intro twp_mono [OF Cons.IH [of "c'\<lparr>msg_bufs := msg_bufs c' - 1\<rparr>" "lr_handle l"]])
        (auto simp: cl_only_def)
    show ?thesis
      unfolding lookup_loop.simps copy_name_def twp_rules
      using mem step found(1) ok Cons.prems(1)
      by (auto intro!: twp_mono [OF request_answered [where rep = rep and s' = s1]] *)
  next
    case refused
    show ?thesis
      unfolding lookup_loop.simps copy_name_def twp_rules
      using mem step refused ok Cons.prems(1)
      by (auto intro!: twp_mono [OF request_refused [where e = e and s' = s1]])
  qed
qed

lemma lookup_resolves:
  assumes "ready c" "p \<noteq> [0x2F]"
    and "resolve step (after_string c) (root_fhandle c) (strtok p) (peer (net_state c)) = Some (r, s')"
  shows "twp (lookup N p) (\<lambda>r' c'. r' = r \<and> ready c' \<and> cl_only 0 c c' \<and> peer (net_state c') = s') c"
  using assms by (simp add: lookup_def lookup_loop_resolves)

text \<open>The callbacks on an answered request.\<close>

lemma read_done:
  assumes "ready c" "step (Req_read \<lparr>ra_file = fh, ra_offset = off, ra_count = count\<rparr>) (peer (net_state c)) =
      Some (Rep_read r, s')"
    and "unat (min (rr_count r) count) \<le> length (rr_data r)"
  shows "twp (snfs_read N count off fh) (\<lambda>x c'.
    x = (sint (ucast (min (rr_count r) count) :: u32), take (unat (min (rr_count r) count)) (rr_data r)) \<and>
    ready c' \<and> cl_only 0 c c' \<and> peer (net_state c') = s') c"
  unfolding snfs_read_def twp_rules Let_def
  using assms by (auto simp: encode_req_def Let_def cl_only_def
      intro!: twp_mono [OF request_answered [where rep = "Rep_read r" and s' = s']])

lemma read_refused:
  assumes "ready c" "step (Req_read \<lparr>ra_file = fh, ra_offset = off, ra_count = count\<rparr>) (peer (net_state c)) =
      Some (Rep_error e, s')"
  shows "twp (snfs_read N count off fh) (\<lambda>x c'. x = (- EIO_int, []) \<and>
    ready c' \<and> cl_only 0 c c' \<and> peer (net_state c') = s') c"
  unfolding snfs_read_def twp_rules
  using assms by (auto simp: encode_req_def
      intro!: twp_mono [OF request_refused [where e = e and s' = s']])

lemma write_done:
  assumes "ready c" "unat count \<le> length buf" "28 + unat count < 2 ^ 31"
    and "step (Req_write \<lparr>wa_file = fh, wa_offset = off, wa_count = count, wa_data = take (unat count) buf\<rparr>)
      (peer (net_state c)) = Some (Rep_write n, s')"
  shows "twp (snfs_write N buf count off fh) (\<lambda>x c'. x = sint (ucast n :: u32) \<and>
    ready c' \<and> cl_only 0 c c' \<and> peer (net_state c') = s') c"
proof -
  let ?c = "c\<lparr>heap_bufs := heap_bufs c + 1\<rparr>"
  show ?thesis
    unfolding snfs_write_def cl_malloc_def cl_free_def twp_rules
    using assms by (auto simp: encode_req_def cl_only_def
        intro!: twp_mono [OF request_answered [where c = ?c and rep = "Rep_write n" and s' = s']])
qed

text \<open>The callbacks that take a path look it up first.\<close>

definition found :: "path \<Rightarrow> 'n client \<Rightarrow> fhandle \<Rightarrow> 's \<Rightarrow> bool" where
  "found p c h s' \<longleftrightarrow> (if p = [0x2F] then h = root_fhandle c \<and> s' = peer (net_state c)
     else resolve step (after_string c) (root_fhandle c) (strtok p) (peer (net_state c)) = Some (Some h, s'))"

lemma lookup_found:
  assumes "ready c" "found p c h s'"
  shows "twp (lookup N p) (\<lambda>r c'. r = Some h \<and> ready c' \<and> cl_only 0 c c' \<and> peer (net_state c') = s') c"
proof (cases "p = [0x2F]")
  case True
  with assms show ?thesis by (simp add: lookup_def found_def cl_only_def)
next
  case False
  with assms show ?thesis by (intro lookup_resolves) (simp_all add: found_def)
qed

lemma open_found:
  assumes "ready c" "found p c h s'"
  shows "twp (snfs_open N p fh) (\<lambda>x c'. x = (0, h) \<and> ready c' \<and> cl_only 0 c c' \<and> peer (net_state c') = s') c"
  unfolding snfs_open_def twp_rules
  by (rule twp_mono [OF lookup_found [OF assms]]) simp

lemma getattr_done:
  assumes "ready c" "found p c h s1" "step (Req_getattr \<lparr>ga_fh = h\<rparr>) s1 = Some (Rep_getattr a, s')"
  shows "twp (snfs_getattr N p st) (\<lambda>x c'. x = (0, fattr_to_stat a st) \<and> ready c' \<and> cl_only 0 c c' \<and>
    peer (net_state c') = s') c"
proof -
  have *: "twp (send_request N (Req_getattr \<lparr>ga_fh = h\<rparr>)) (\<lambda>r c''. r = Some (encode_rep (Rep_getattr a)) \<and>
      cl_only 1 c' c'' \<and> ready c'' \<and> peer (net_state c'') = s') c'" if "ready c'" "peer (net_state c') = s1" for c'
    using that assms(3) by (intro request_answered) (simp_all add: encode_req_def)
  show ?thesis
    unfolding snfs_getattr_def twp_rules
    by (rule twp_mono [OF lookup_found [OF assms(1,2)]])
      (auto intro!: twp_mono [OF *] simp: cl_only_def)
qed

lemma remove_done:
  assumes "ready c" "found p c h s1" "step (Req_remove \<lparr>rm_fh = h, rm_is_dir = d\<rparr>) s1 = Some (Rep_remove, s')"
  shows "twp (remove_path N p d) (\<lambda>x c'. x = 0 \<and> ready c' \<and> cl_only 0 c c' \<and> peer (net_state c') = s') c"
proof -
  have *: "twp (send_request N (Req_remove \<lparr>rm_fh = h, rm_is_dir = d\<rparr>)) (\<lambda>r c''. r = Some (encode_rep Rep_remove) \<and>
      cl_only 1 c' c'' \<and> ready c'' \<and> peer (net_state c'') = s') c'" if "ready c'" "peer (net_state c') = s1" for c'
    using that assms(3) by (intro request_answered) (simp_all add: encode_req_def)
  show ?thesis
    unfolding remove_path_def twp_rules
    by (rule twp_mono [OF lookup_found [OF assms(1,2)]])
      (auto intro!: twp_mono [OF *] simp: cl_only_def)
qed

lemma create_done:
  assumes "ready c" "p \<noteq> [0x2F]"
    and "step (Req_create \<lparr>ca_filename = name_array p (after_string c), ca_mode = mode\<rparr>) (peer (net_state c)) =
      Some (Rep_create h, s')"
  shows "twp (snfs_create N p mode fh) (\<lambda>x c'. x = (0, h) \<and> ready c' \<and> cl_only 0 c c' \<and>
    peer (net_state c') = s') c"
proof -
  have mem: "SNFS_MAX_FILENAME_LENGTH \<le> length (zstr p @ after_string c)"
    using assms(1) by (simp add: ready_def)
  show ?thesis
    unfolding snfs_create_def copy_name_def twp_rules
    using assms mem name_ok [OF assms(1), of p]
    by (auto simp: encode_req_def cl_only_def
        intro!: twp_mono [OF request_answered [where rep = "Rep_create h" and s' = s']])
qed

text \<open>The start of the client: two NOOPs, the first of them without waiting, and a MOUNT.\<close>

lemma noop_answered:
  assumes "idle (net_state c)" "0 \<le> sock" "step Req_noop (peer (net_state c)) = Some (Rep_noop, s')"
  shows "twp (snfs_req_rep_f N sock (server_url c) (encode_req Req_noop) flags) (\<lambda>r c'.
    r = Some (encode_rep Rep_noop) \<and> cl_only 1 c c' \<and> idle (net_state c') \<and> peer (net_state c') = s') c"
  by (rule twp_mono [OF exchange_f [OF assms(1,2) _ _ assms(3)]]) (simp_all add: encode_req_def)

lemma connection_tested:
  assumes "idle (net_state c)" "0 \<le> sock" "step Req_noop (peer (net_state c)) = Some (Rep_noop, s1)"
    and "step Req_noop s1 = Some (Rep_noop, s2)"
  shows "twp (test_connection N sock (server_url c)) (\<lambda>_ c'. cl_only 0 c c' \<and> idle (net_state c') \<and>
    peer (net_state c') = s2) c"
proof -
  have *: "twp (snfs_req_rep_f N sock (server_url c) (encode_req Req_noop) False) (\<lambda>r c''.
      r = Some (encode_rep Rep_noop) \<and> cl_only 1 (c'\<lparr>msg_bufs := msg_bufs c' - 1\<rparr>) c'' \<and>
      idle (net_state c'') \<and> peer (net_state c'') = s2) (c'\<lparr>msg_bufs := msg_bufs c' - 1\<rparr>)"
    if "cl_only 1 c c'" "idle (net_state c')" "peer (net_state c') = s1" for c'
    using noop_answered [of "c'\<lparr>msg_bufs := msg_bufs c' - 1\<rparr>" sock s2 False] that assms(2,4)
    by (simp add: cl_only_def)
  show ?thesis
    unfolding test_connection_def snfs_req_rep_def twp_rules
    by (rule twp_mono [OF noop_answered [OF assms(1-3)]], clarsimp, rule twp_mono [OF *])
      (auto simp: cl_only_def)
qed

lemma mount_answered:
  assumes "idle (net_state c)" "0 \<le> sock" "step Req_mount (peer (net_state c)) = Some (Rep_mount h, s')"
  shows "twp (server_mount N sock (server_url c)) (\<lambda>r c'. r = Some h \<and> cl_only 0 c c' \<and>
    idle (net_state c') \<and> peer (net_state c') = s') c"
proof -
  have "12 \<le> length (encode_rep (Rep_mount h))"
    "take 8 (drop 4 (encode_rep (Rep_mount h))) = le_bytes 8 h"
    by (simp_all add: encode_rep_def)
  then show ?thesis
    unfolding server_mount_def snfs_req_rep_def twp_rules
    by (intro twp_mono [OF exchange_f [OF assms(1,2) _ _ assms(3)]])
      (simp_all add: encode_req_def cl_only_def)
qed

lemma init_mounts:
  assumes "idle (net_state c)" "SNFS_MAX_FILENAME_LENGTH \<le> length (after_string c)"
    and "step Req_noop (peer (net_state c)) = Some (Rep_noop, s1)"
    and "step Req_noop s1 = Some (Rep_noop, s2)" "step Req_mount s2 = Some (Rep_mount h, s3)"
  shows "twp (snfs_init N) (\<lambda>_ c'. ready c' \<and> root_fhandle c' = h \<and> msg_bufs c' = msg_bufs c \<and>
    endpoints c' = endpoints c \<and> peer (net_state c') = s3) c"
proof -
  obtain e n where n: "nn_socket N (net_state c) = (e, n)" "0 \<le> e" "idle n" "peer n = peer (net_state c)"
    using socket_law [OF assms(1)] by blast
  let ?c = "c\<lparr>net_state := n, server_sock := e\<rparr>"
  have mount: "twp (server_mount N e (server_url c)) (\<lambda>r c''. r = Some h \<and> cl_only 0 c' c'' \<and>
      idle (net_state c'') \<and> peer (net_state c'') = s3) c'"
    if "cl_only 0 ?c c'" "idle (net_state c')" "peer (net_state c') = s2" for c'
    using mount_answered [of c' e h s3] that n(2) assms(5) by (simp add: cl_only_def)
  have test: "twp (test_connection N e (server_url c)) (\<lambda>_ c'. cl_only 0 ?c c' \<and> idle (net_state c') \<and>
      peer (net_state c') = s2) ?c"
    using connection_tested [of ?c e s1 s2] n assms(3,4) by simp
  have sock: "twp (\<lambda>c. case nn_socket N (net_state c) of (sock, n) \<Rightarrow>
      Ret sock (c\<lparr>net_state := n, server_sock := sock\<rparr>)) Q c = Q e ?c" for Q
    using n(1) by (simp add: twp_def)
  show ?thesis
    unfolding snfs_init_def twp_rules sock
    by (simp, rule twp_mono [OF test], elim conjE, rule twp_mono [OF mount])
      (use assms(2) n(2) in \<open>auto simp: cl_only_def ready_def\<close>)
qed

end

end
