(* ===== verification/End_To_End.thy ===== *)
theory End_To_End
  imports Request_Reply Sample_Server
begin

text \<open>
  The client and the server together. \<open>direct_net E\<close> is a network that carries messages without
  loss: a message that is sent is served by one turn of the model of \<open>serve_loop\<close>, and the
  replies the server sends are received as their images, in order. Its interpretation of
  \<open>request_reply\<close> makes the lemmas about the client's callbacks speak about the server's handlers.

  \<open>resolve_path\<close> is the central fact: the client's cutting of a path at its slashes and the
  server's joining of the names again meet in the same path.
\<close>

record ('w, 'd) joined =
  server_side :: "('w, 'd) server"
  inbox :: "bytes list"
  clock_us :: nat

definition direct_send ::
    "('w, 'd) env \<Rightarrow> bytes \<Rightarrow> bool \<Rightarrow> ('w, 'd) joined \<Rightarrow> (errno + int) \<times> ('w, 'd) joined" where
  "direct_send E data flags n = (Inr (c_int (length data)),
     case serve_one E data (server_side n) of
       Ret _ s' \<Rightarrow> n\<lparr>server_side := s',
         inbox := inbox n @ map encode_rep (drop (length (sent (server_side n))) (sent s'))\<rparr>
     | _ \<Rightarrow> n)"

definition direct_recv ::
    "bool \<Rightarrow> ('w, 'd) joined \<Rightarrow> (errno + bytes) \<times> ('w, 'd) joined" where
  "direct_recv flags n =
     (case inbox n of [] \<Rightarrow> (Inl EAGAIN, n) | m # ms \<Rightarrow> (Inr m, n\<lparr>inbox := ms\<rparr>))"

definition direct_net :: "('w, 'd) env \<Rightarrow> ('w, 'd) joined net" where
  "direct_net E = \<lparr>nn_socket = (\<lambda>n. (0, n)), nn_connect = (\<lambda>url n. (1, n)),
     nn_shutdown = (\<lambda>e n. n), nn_close = (\<lambda>e n. n), nn_send = direct_send E, nn_recv = direct_recv,
     usleep = (\<lambda>k n. n\<lparr>clock_us := clock_us n + k\<rparr>),
     gettimeofday = (\<lambda>n. (int (clock_us n) div 1000000, int (clock_us n) mod 1000000))\<rparr>"

text \<open>The server as a peer: its answer to a request is the reply it sends.\<close>

definition server_step ::
    "('w, 'd) env \<Rightarrow> snfs_req \<Rightarrow> ('w, 'd) server \<Rightarrow> (snfs_rep \<times> ('w, 'd) server) option" where
  "server_step E req s =
     (case dispatch E req s of Ret _ s' \<Rightarrow> Some (last (sent s'), s') | _ \<Rightarrow> None)"

lemma server_step_one_reply:
  "server_step E req s = Some (rep, s') \<Longrightarrow> dispatch E req s = Ret () s' \<and> sent s' = sent s @ [rep]"
  using dispatch_accounted [of E req s]
  by (auto simp: server_step_def wp_def accounted_def answered_def split: outcome.splits)

lemma server_stepI:
  "twp (dispatch E req) (\<lambda>_ s'. sent s' = sent s @ [rep] \<and> Q s') s \<Longrightarrow>
   \<exists>s'. server_step E req s = Some (rep, s') \<and> Q s'"
  by (auto simp: twp_Ret server_step_def)

interpretation direct: request_reply "direct_net E" server_side "\<lambda>n. inbox n = []" "server_step E"
  for E :: "('w, 'd) env"
proof unfold_locales
  fix n :: "('w, 'd) joined" and req rep s' flags
  assume n: "inbox n = []" "req_ok req" "server_step E req (server_side n) = Some (rep, s')"
  have one: "serve_one E (encode_req req) (server_side n) = Ret () s'"
    using server_step_one_reply [OF n(3)] n(2) by (simp add: serve_one_def decode_encode_req)
  let ?n1 = "n\<lparr>server_side := s', inbox := [encode_rep rep]\<rparr>"
  have "nn_send (direct_net E) (encode_req req) flags n = (Inr (c_int (length (encode_req req))), ?n1)"
    using n(1) one server_step_one_reply [OF n(3)] by (simp add: direct_net_def direct_send_def)
  moreover have "nn_recv (direct_net E) flags ?n1 = (Inr (encode_rep rep), ?n1\<lparr>inbox := []\<rparr>)"
    by (simp add: direct_net_def direct_recv_def)
  ultimately show "\<exists>n1 n2. nn_send (direct_net E) (encode_req req) flags n =
      (Inr (c_int (length (encode_req req))), n1) \<and>
    nn_recv (direct_net E) flags n1 = (Inr (encode_rep rep), n2) \<and> inbox n2 = [] \<and> server_side n2 = s'"
    by force
qed (simp_all add: direct_net_def)

lemma direct_clock: "clock_law (direct_net E)"
proof -
  have "counts_time (direct_net E) (\<lambda>n. int (clock_us n))"
    by (auto simp: counts_time_def direct_net_def direct_send_def direct_recv_def
        split: outcome.splits list.splits)
  then show ?thesis by (auto simp: clock_law_def)
qed

section \<open>Resolving a path\<close>

lemma handle_lookup_supply:
  assumes "env_ok E" "db_repr E s f" "f (la_dir a) = Some d" "d \<noteq> []"
    and "cstr_of (la_filename a) = Some n" "lookup_guard E (world s) d n = Inr st"
    and "db_clear s f (path_join d n)" "fresh_supply E s (Suc k)"
  shows "wp (handle_lookup E a) (\<lambda>_ s'. fresh_supply E s' k) s"
proof -
  have d: "cstring d" using fhdb.repr_cstring [OF assms(2)] assms(3) by (auto intro: ranI)
  have g: "db_view E (dbst s) (le_bytes 8 (la_dir a)) = Some (zstr d)"
    using db_repr_get [OF assms(2) fhdb.genuine_member [OF assms(2,3)]] assms(3) by simp
  have laws: "libdb_laws E" using assms(1) by simp
  have *: "wp (name_find_or_insert E (path_join d n)) (\<lambda>_ s''. fresh_supply E s'' k) (s'\<lparr>live := l\<rparr>)"
    if "db_view E (dbst s') = db_view E (dbst s)" "rnd s' = rnd s" for s' l
    using that assms(7,8)
    by (intro name_find_or_insert_supply [OF laws, where f = f])
      (simp_all add: fresh_supply_def fresh_set_def db_clear_def)
  have sup: "fresh_supply E s'' k \<Longrightarrow> fresh_supply E (s''\<lparr>sent := x, live := y\<rparr>) k" for s'' :: "('a, 'b) server" and x y
    by (simp add: fresh_supply_def fresh_set_def)
  have frame: "wp (get_file E (la_dir a)) (\<lambda>r s'. r = Some (zstr d) \<and>
      db_view E (dbst s') = db_view E (dbst s) \<and> rnd s' = rnd s \<and> world s' = world s) s"
    unfolding get_file_def
    by (rule wp_mono [OF wp_conj [OF find_db_view [OF laws] find_db_frame]]) (simp add: g db_only_def)
  show ?thesis
    unfolding handle_lookup_def wp_rules
    by (rule wp_mono [OF frame])
      (use assms(5,6) d in \<open>auto simp: lookup_guard_def split: sum.splits if_splits
        intro!: wp_mono [OF *] sup\<close>)
qed

text \<open>
  The directories on the way exist, and so does the last name; no path on the way can be taken for
  a handle.
\<close>

fun walkable :: "('w, 'd) env \<Rightarrow> ('w, 'd) server \<Rightarrow> table \<Rightarrow> path \<Rightarrow> bytes list \<Rightarrow> bool" where
  "walkable E s f d [] \<longleftrightarrow> True"
| "walkable E s f d (t # ts) \<longleftrightarrow>
     cstring t \<and> length t \<le> 255 \<and> (\<exists>st. lookup_guard E (world s) d t = Inr st) \<and>
     db_clear s f (path_join d t) \<and> walkable E s f (path_join d t) ts"

lemma walkable_mono:
  "walkable E s f d ts \<Longrightarrow> world s' = world s \<Longrightarrow> (\<And>m. db_clear s f m \<Longrightarrow> db_clear s' f' m) \<Longrightarrow>
   walkable E s' f' d ts"
  by (induction ts arbitrary: d) auto

lemma path_join_not_Nil [simp]: "path_join d n \<noteq> []" if "d \<noteq> []"
  using that by (simp add: path_join_def)

lemma resolve_path:
  fixes s :: "('w, 'd) server"
  assumes "env_ok E"
  shows "db_repr E s f \<Longrightarrow> f h = Some d \<Longrightarrow> d \<noteq> [] \<Longrightarrow> walkable E s f d ts \<Longrightarrow>
    fresh_supply E s (length ts) \<Longrightarrow>
    \<exists>h' s' f'. resolve (server_step E) behind h ts s = Some (Some h', s') \<and> db_repr E s' f' \<and>
      f' h' = Some (foldl path_join d ts) \<and> f \<subseteq>\<^sub>m f' \<and> world s' = world s \<and>
      (\<forall>m. db_clear s f m \<longrightarrow> db_clear s' f' m)"
proof (induction ts arbitrary: s f h d)
  case Nil
  then show ?case by (intro exI [of _ h] exI [of _ s] exI [of _ f]) simp
next
  case (Cons t ts)
  let ?a = "\<lparr>la_dir = h, la_filename = name_array t behind\<rparr>"
  from Cons.prems(4) obtain st where t: "cstring t" "length t \<le> 255"
      "lookup_guard E (world s) d t = Inr st" "db_clear s f (path_join d t)"
      "walkable E s f (path_join d t) ts" by auto
  have n: "cstr_of (la_filename ?a) = Some t" using t(1,2) by (simp add: cstr_of_name_array)
  have sup: "fresh_supply E s (Suc (length ts))" using Cons.prems(5) by simp
  have a: "f (la_dir ?a) = Some d" using Cons.prems(2) by simp
  from twp_wp_conj [OF handle_lookup_found [OF assms Cons.prems(1) a Cons.prems(3) n t(3,4)
        fresh_supply_draw [OF sup]]
      handle_lookup_supply [OF assms Cons.prems(1) a Cons.prems(3) n t(3,4) sup]]
  obtain s1 h1 f1 where s1: "dispatch E (Req_lookup ?a) s = Ret () s1"
      "handled E s f (Rep_lookup \<lparr>lr_handle = h1, lr_attributes = stat_to_fattr st zero_fattr\<rparr>) s1 f1"
      "inserted (path_join d t) h1 f f1" "world s1 = world s" "fresh_supply E s1 (length ts)"
    by (auto simp: twp_Ret)
  have step: "server_step E (Req_lookup ?a) s =
      Some (Rep_lookup \<lparr>lr_handle = h1, lr_attributes = stat_to_fattr st zero_fattr\<rparr>, s1)"
    using s1(1,2) by (simp add: server_step_def handled_def)
  have "walkable E s1 f1 (path_join d t) ts"
    by (rule walkable_mono [OF t(5) s1(4)]) (use s1(2) in \<open>simp add: handled_def\<close>)
  from Cons.IH [OF _ inserted_maps [OF s1(3)] _ this s1(5)] s1(2) Cons.prems(3)
  obtain h' s' f' where r: "resolve (server_step E) behind h1 ts s1 = Some (Some h', s')" "db_repr E s' f'"
      "f' h' = Some (foldl path_join (path_join d t) ts)" "f1 \<subseteq>\<^sub>m f'" "world s' = world s1"
      "\<forall>m. db_clear s1 f1 m \<longrightarrow> db_clear s' f' m"
    by (auto simp: handled_def)
  have "f \<subseteq>\<^sub>m f'" using inserted_map_le [OF s1(3)] r(4) by (rule map_le_trans)
  with r step s1(2,4) show ?case
    by (intro exI [of _ h'] exI [of _ s'] exI [of _ f']) (auto simp: handled_def)
qed

section \<open>Normal paths\<close>

text \<open>
  The server's joining of the names the client cuts a path into, below the root. \<open>path_of\<close> puts one
  slash before each name; a path of that form is its own resolution.
\<close>

definition resolution :: "bytes \<Rightarrow> path" where
  "resolution p = foldl path_join root_path (strtok p)"

definition path_of :: "bytes list \<Rightarrow> path" where
  "path_of ts = concat (map (\<lambda>t. 0x2F # t) ts)"

definition path_name :: "bytes \<Rightarrow> bool" where
  "path_name t \<longleftrightarrow> t \<noteq> [] \<and> (\<forall>b \<in> set t. \<not> is_slash b)"

lemma path_name_ends:
  assumes "path_name t"
  shows "last t \<noteq> 0x2F" "hd (zstr t) \<noteq> 0x2F"
  using assms by (cases t; auto simp: path_name_def is_slash_def zstr_def)+

lemma join_names:
  "\<forall>t \<in> set ts. path_name t \<Longrightarrow> q \<noteq> [] \<Longrightarrow> last q \<noteq> 0x2F \<Longrightarrow> foldl path_join q ts = q @ path_of ts"
proof (induction ts arbitrary: q)
  case (Cons t ts)
  then have t: "path_name t" by simp
  then have j: "path_join q t = q @ 0x2F # t"
    using Cons.prems path_name_ends [OF t] by (simp add: path_join_def)
  have "foldl path_join (q @ 0x2F # t) ts = (q @ 0x2F # t) @ path_of ts"
    using Cons.prems t path_name_ends(1) [OF t] by (intro Cons.IH) (auto simp: path_name_def)
  then show ?case by (simp add: j path_of_def)
qed (simp add: path_of_def)

lemma resolution_path_of:
  assumes "strtok p \<noteq> []"
  shows "resolution p = path_of (strtok p)"
proof -
  obtain t ts where p: "strtok p = t # ts" using assms by (cases "strtok p") auto
  have all: "\<forall>t \<in> set (strtok p). path_name t"
    using strtok_token [of _ p] by (auto simp: path_name_def)
  then have t: "path_name t" using p by simp
  have "path_join root_path t = 0x2F # t" by (simp add: path_join_def root_path_def)
  moreover have "foldl path_join (0x2F # t) ts = (0x2F # t) @ path_of ts"
    using all p t path_name_ends(1) [OF t] by (intro join_names) (auto simp: path_name_def)
  ultimately show ?thesis by (simp add: resolution_def p path_of_def)
qed

lemma strtok_name:
  assumes "path_name t"
  shows "strtok (0x2F # t @ path_of ts) = t # strtok (path_of ts)"
proof -
  have s: "is_slash 0x2F" by (simp add: is_slash_def)
  have d: "dropWhile is_slash (t @ path_of ts) = t @ path_of ts"
    using assms by (cases t) (auto simp: path_name_def)
  have p: "path_of ts = [] \<or> is_slash (hd (path_of ts))"
    by (cases ts) (simp_all add: path_of_def is_slash_def)
  have "takeWhile (\<lambda>b. \<not> is_slash b) (path_of ts) = []" "dropWhile (\<lambda>b. \<not> is_slash b) (path_of ts) = path_of ts"
    using p by (cases "path_of ts"; simp)+
  then have "takeWhile (\<lambda>b. \<not> is_slash b) (t @ path_of ts) = t"
      "dropWhile (\<lambda>b. \<not> is_slash b) (t @ path_of ts) = path_of ts"
    using assms by (simp_all add: path_name_def)
  then show ?thesis
    using assms s d by (subst strtok.simps) (simp add: Let_def path_name_def)
qed

lemma strtok_path_of: "\<forall>t \<in> set ts. path_name t \<Longrightarrow> strtok (path_of ts) = ts"
proof (induction ts)
  case Nil
  then show ?case by (simp add: path_of_def)
next
  case (Cons t ts)
  then show ?case using strtok_name [of t ts] by (simp add: path_of_def)
qed

lemma resolution_normal:
  "ts \<noteq> [] \<Longrightarrow> \<forall>t \<in> set ts. path_name t \<Longrightarrow> resolution (path_of ts) = path_of ts"
  using resolution_path_of [of "path_of ts"] by (simp add: strtok_path_of)

text \<open>
  \<open>dir_at ts i\<close> is the directory of the first \<open>i\<close> names. \<open>names_ok\<close> says what a name is: not empty, without a
  slash or a zero, at most 255 bytes.
\<close>

definition dir_at :: "bytes list \<Rightarrow> nat \<Rightarrow> path" where
  "dir_at ts i = (if i = 0 then root_path else path_of (take i ts))"

definition names_ok :: "bytes list \<Rightarrow> bool" where
  "names_ok ts \<longleftrightarrow> (\<forall>t \<in> set ts. t \<noteq> [] \<and> 0x2F \<notin> set t \<and> 0 \<notin> set t \<and> length t \<le> 255)"

lemma names_ok_name: "names_ok ts \<Longrightarrow> t \<in> set ts \<Longrightarrow> path_name t \<and> cstring t \<and> length t \<le> 255"
  by (auto simp: names_ok_def path_name_def is_slash_def cstring_def)

lemma path_of_snoc: "path_of (ts @ [t]) = path_of ts @ 0x2F # t"
  by (simp add: path_of_def)

lemma dir_at_join:
  assumes "names_ok ts" "i < length ts"
  shows "path_join (dir_at ts i) (ts ! i) = dir_at ts (Suc i)"
proof -
  have t: "path_name (ts ! i)" using assms names_ok_name by auto
  have take: "take (Suc i) ts = take i ts @ [ts ! i]" using assms(2) by (rule take_Suc_conv_app_nth)
  show ?thesis
  proof (cases i)
    case 0
    with take show ?thesis by (simp add: dir_at_def path_join_def root_path_def path_of_def)
  next
    case (Suc j)
    with assms have "j < length ts" by simp
    then have l: "take i ts = take j ts @ [ts ! j]" "path_name (ts ! j)"
      using Suc take_Suc_conv_app_nth [of j ts] assms(1) names_ok_name by auto
    have "last (path_of (take i ts)) = last (ts ! j)"
      using l path_name_def [of "ts ! j"] by (simp add: path_of_snoc)
    then have "last (path_of (take i ts)) \<noteq> 0x2F" using path_name_ends(1) [OF l(2)] by simp
    with Suc take path_name_ends(2) [OF t] show ?thesis
      by (simp add: dir_at_def path_join_def path_of_snoc)
  qed
qed

text \<open>When the directories on the way and the file exist, the names can be walked.\<close>

lemma walkable_prefixes:
  assumes "names_ok ts" "\<forall>i < length ts. \<exists>st. px_stat E (dir_at ts i) (world s) = Inr st \<and> S_ISDIR (st_mode st)"
    and "px_stat E (dir_at ts (length ts)) (world s) = Inr st'" "\<forall>i \<le> length ts. length (dir_at ts i) \<noteq> 7"
  shows "i \<le> length ts \<Longrightarrow> walkable E s f (dir_at ts i) (drop i ts)"
proof (induction "length ts - i" arbitrary: i)
  case 0
  then show ?case by simp
next
  case (Suc k)
  then have i: "i < length ts" by simp
  then have d: "drop i ts = ts ! i # drop (Suc i) ts" by (simp add: Cons_nth_drop_Suc)
  have j: "path_join (dir_at ts i) (ts ! i) = dir_at ts (Suc i)" by (rule dir_at_join [OF assms(1) i])
  obtain st where st: "px_stat E (dir_at ts i) (world s) = Inr st" "S_ISDIR (st_mode st)"
    using assms(2) i by blast
  have "\<exists>st2. px_stat E (dir_at ts (Suc i)) (world s) = Inr st2"
  proof (cases "Suc i < length ts")
    case True
    with assms(2) show ?thesis by blast
  next
    case False
    with i have "Suc i = length ts" by simp
    with assms(3) show ?thesis by auto
  qed
  then have "\<exists>st. lookup_guard E (world s) (dir_at ts i) (ts ! i) = Inr st"
    using st j by (auto simp: lookup_guard_def)
  moreover have "walkable E s f (dir_at ts (Suc i)) (drop (Suc i) ts)"
    using Suc i by simp
  ultimately show ?case
    using d j assms(4) i names_ok_name [OF assms(1), of "ts ! i"] by (simp add: db_clear_length)
qed

section \<open>A client that is mounted\<close>

text \<open>
  The client is between two callbacks, the database is the table \<open>f\<close>, and the client's root handle
  is that of the path \<open>/\<close>. \<open>walk\<close> is what it takes for the lookup of \<open>p\<close> to succeed.
\<close>

definition mounted :: "('w, 'd) env \<Rightarrow> table \<Rightarrow> ('w, 'd) joined client \<Rightarrow> bool" where
  "mounted E f c \<longleftrightarrow> inbox (net_state c) = [] \<and> 0 \<le> server_sock c \<and>
     SNFS_MAX_FILENAME_LENGTH \<le> length (after_string c) \<and>
     db_repr E (server_side (net_state c)) f \<and> f (root_fhandle c) = Some root_path"

definition walk :: "('w, 'd) env \<Rightarrow> table \<Rightarrow> ('w, 'd) joined client \<Rightarrow> bytes \<Rightarrow> bool" where
  "walk E f c p \<longleftrightarrow> walkable E (server_side (net_state c)) f root_path (strtok p) \<and>
     fresh_supply E (server_side (net_state c)) (length (strtok p))"

lemma mounted_ready: "mounted E f c \<Longrightarrow> direct.ready c"
  by (simp add: mounted_def direct.ready_def)

lemma mounted_frame:
  "mounted E f c \<Longrightarrow> direct.ready c' \<Longrightarrow> cl_only k c c' \<Longrightarrow> db_repr E (server_side (net_state c')) f' \<Longrightarrow>
   f \<subseteq>\<^sub>m f' \<Longrightarrow> mounted E f' c'"
  by (auto simp: mounted_def direct.ready_def cl_only_def map_le_def dom_def)

lemma strtok_root: "strtok [0x2F] = []"
  by (subst strtok.simps) (simp add: is_slash_def)

lemma walk_found:
  assumes "env_ok E" "mounted E f c" "walk E f c p"
  shows "\<exists>h s' f'. direct.found E p c h s' \<and> db_repr E s' f' \<and> f' h = Some (resolution p) \<and>
    f \<subseteq>\<^sub>m f' \<and> world s' = world (server_side (net_state c)) \<and>
    (\<forall>m. db_clear (server_side (net_state c)) f m \<longrightarrow> db_clear s' f' m)"
proof -
  let ?s = "server_side (net_state c)"
  have root: "root_path \<noteq> []" by (simp add: root_path_def)
  from assms have f: "db_repr E ?s f" "f (root_fhandle c) = Some root_path"
      "walkable E ?s f root_path (strtok p)" "fresh_supply E ?s (length (strtok p))"
    by (simp_all add: mounted_def walk_def)
  from resolve_path [OF assms(1) f(1,2) root f(3,4), of "after_string c"] f show ?thesis
    by (cases "p = [0x2F]") (auto simp: direct.found_def resolution_def strtok_root)
qed

text \<open>The opening of a path, from which the callbacks on a handle go on.\<close>

lemma open_walk:
  assumes "env_ok E" "mounted E f c" "walk E f c p"
  shows "twp (snfs_open (direct_net E) p fh) (\<lambda>(r, h) c'. r = 0 \<and> (\<exists>f'. mounted E f' c' \<and>
    f' h = Some (resolution p) \<and> f \<subseteq>\<^sub>m f' \<and> cl_only 0 c c' \<and>
    world (server_side (net_state c')) = world (server_side (net_state c)) \<and>
    (\<forall>m. db_clear (server_side (net_state c)) f m \<longrightarrow> db_clear (server_side (net_state c')) f' m))) c"
proof -
  from walk_found [OF assms] obtain h s' f' where h: "direct.found E p c h s'" "db_repr E s' f'"
      "f' h = Some (resolution p)" "f \<subseteq>\<^sub>m f'" "world s' = world (server_side (net_state c))"
      "\<forall>m. db_clear (server_side (net_state c)) f m \<longrightarrow> db_clear s' f' m"
    by blast
  show ?thesis
    by (rule twp_mono [OF direct.open_found [OF mounted_ready [OF assms(2)] h(1)]])
      (use h mounted_frame [OF assms(2), of _ 0 f'] in auto)
qed

lemma handle_create_supply:
  assumes "env_ok E" "cstr_of (ca_filename a) = Some n" "px_creat E n (ca_mode a) (world s) = (Inr fd, w)"
    and "db_clear s f n" "fresh_supply E s (Suc k)"
  shows "wp (handle_create E a) (\<lambda>_ s'. fresh_supply E s' k) s"
proof -
  let ?s = "s\<lparr>world := w, fds := fd # fds s\<rparr>"
  have "fresh_supply E ?s (Suc k)" using assms(5) by (simp add: fresh_supply_def fresh_set_def)
  then have *: "wp (name_find_or_insert E n) (\<lambda>_ s''. fresh_supply E s'' k) ?s"
    using assms(1,4) by (intro name_find_or_insert_supply [where f = f]) simp_all
  have sup: "fresh_supply E s'' k \<Longrightarrow> fresh_supply E (s''\<lparr>sent := x\<rparr>) k"
    for s'' :: "('a, 'b) server" and x
    by (simp add: fresh_supply_def fresh_set_def)
  show ?thesis
    unfolding handle_create_def wp_rules
    using assms(2,3) by (auto intro!: wp_mono [OF *] sup)
qed

text \<open>A handler's specification as a step of the peer.\<close>

lemma server_step_handled:
  "twp (dispatch E req) (\<lambda>_ s'. handled E s f rep s' f' \<and> Q s') s \<Longrightarrow>
   \<exists>s'. server_step E req s = Some (rep, s') \<and> db_repr E s' f' \<and> Q s'"
  by (auto simp: twp_Ret server_step_def handled_def)

text \<open>The mount of a client over the server, when the server's database is \<open>f\<close>.\<close>

lemma init_walk:
  assumes "env_ok E" "db_repr E s f" "fresh_draw E s" "s = server_side (net_state c)"
    and "inbox (net_state c) = []" "SNFS_MAX_FILENAME_LENGTH \<le> length (after_string c)"
  shows "twp (snfs_init (direct_net E)) (\<lambda>_ c'. \<exists>f'. mounted E f' c' \<and> f \<subseteq>\<^sub>m f' \<and>
    world (server_side (net_state c')) = world s \<and> msg_bufs c' = msg_bufs c \<and> endpoints c' = endpoints c) c"
proof -
  have noop: "server_step E Req_noop s' = Some (Rep_noop, s'\<lparr>sent := sent s' @ [Rep_noop]\<rparr>)" for s' :: "('a, 'b) server"
    by (simp add: server_step_def handle_noop_def send_reply_def modify_def)
  let ?s2 = "s\<lparr>sent := sent s @ [Rep_noop, Rep_noop]\<rparr>"
  have "twp (dispatch E Req_mount) (\<lambda>_ s'. \<exists>h f'.
      handled E ?s2 f (Rep_mount h) s' f' \<and> inserted root_path h f f' \<and> world s' = world s) ?s2"
    using handle_mount_spec [OF assms(1), of ?s2 f] assms(2,3) by simp
  then obtain s3 h f' where s3: "server_step E Req_mount ?s2 = Some (Rep_mount h, s3)"
      "db_repr E s3 f'" "inserted root_path h f f'" "world s3 = world s"
    by (auto simp: twp_Ret server_step_def handled_def)
  show ?thesis
  proof (rule twp_mono [OF direct.init_mounts [OF assms(5,6), of E "s\<lparr>sent := sent s @ [Rep_noop]\<rparr>" ?s2 h s3]])
    fix u c'
    assume c': "direct.ready c' \<and> root_fhandle c' = h \<and> msg_bufs c' = msg_bufs c \<and>
      endpoints c' = endpoints c \<and> server_side (net_state c') = s3"
    then have "mounted E f' c'"
      using s3(2) inserted_maps [OF s3(3)] by (auto simp: mounted_def direct.ready_def)
    with c' s3(4) inserted_map_le [OF s3(3)]
    show "\<exists>f'. mounted E f' c' \<and> f \<subseteq>\<^sub>m f' \<and> world (server_side (net_state c')) = world s \<and>
        msg_bufs c' = msg_bufs c \<and> endpoints c' = endpoints c" by blast
  qed (use assms(4) noop s3(1) in simp_all)
qed

end
