(* ===== verification/Callbacks_End.thy ===== *)
theory Callbacks_End
  imports Fuseops
begin

text \<open>
  No callback of the client waits forever: over a network whose clock a sleep moves forward
  (\<open>clock_law\<close>), every callback has an outcome other than \<open>Spins\<close>. The rules follow the
  constructs of the program monad, down to the two loops of \<open>Comm\<close>.
\<close>

definition ends :: "('s, 'a) prog \<Rightarrow> bool" where
  "ends m \<longleftrightarrow> (\<forall>s. m s \<noteq> Spins)"

lemma ends_bnd: "ends m \<Longrightarrow> (\<And>a. ends (f a)) \<Longrightarrow> ends (bnd m f)"
  by (auto simp: ends_def bnd_def split: outcome.splits)

lemma ends_andthen: "ends m \<Longrightarrow> ends k \<Longrightarrow> ends (andthen m k)"
  by (simp add: andthen_def ends_bnd)

lemma ends_basic:
  "ends (ret a)" "ends err_exit" "ends undefined_behaviour" "ends (gets f)" "ends (modify g)"
  "ends (must b)" "ends (c_assert b)"
  by (simp_all add: ends_def prog_defs)

lemma ends_steps:
  "ends nn_freemsg" "ends (c_connect N url)" "ends (c_shutdown N e)" "ends (reply_type m)"
  "ends (content m)" "ends (copy_name t)" "ends cl_malloc" "ends cl_free"
  by (auto simp: nn_freemsg_def c_shutdown_def reply_type_def content_def copy_name_def
      cl_malloc_def cl_free_def intro!: ends_basic ends_bnd ends_andthen split: option.splits)
    (simp add: ends_def c_connect_def split: prod.splits)

lemma ends_transport:
  assumes "clock_law N"
  shows "ends (c_send_data N d flags)" "ends (c_receive_data N flags)"
proof -
  have "send_data N d flags n \<noteq> None" "receive_data N flags n \<noteq> None" for n
    using send_data_returns [OF assms, of d flags n] receive_data_returns [OF assms, of flags n] by auto
  then show "ends (c_send_data N d flags)" "ends (c_receive_data N flags)"
    by (auto simp: ends_def c_send_data_def c_receive_data_def split: option.splits prod.splits)
qed

lemmas ends_intros = ends_bnd ends_andthen ends_basic ends_steps ends_transport

lemma ends_exchange:
  assumes "clock_law N"
  shows "ends (snfs_req_rep_f N sock url req flags)"
  unfolding snfs_req_rep_f_def
  by (auto intro!: ends_intros assms split: option.splits)

lemma ends_send_request:
  assumes "clock_law N"
  shows "ends (send_request N req)"
  unfolding send_request_def
  by (auto intro!: ends_intros ends_exchange assms split: option.splits)

lemma ends_lookup_loop: "clock_law N \<Longrightarrow> ends (lookup_loop N h ts)"
  by (induction ts arbitrary: h)
    (auto intro!: ends_intros ends_send_request split: option.splits snfs_rep.splits)

lemma ends_lookup: "clock_law N \<Longrightarrow> ends (lookup N p)"
  unfolding lookup_def by (auto intro!: ends_intros ends_lookup_loop)

lemma ends_fill: "ends (fill es)"
  by (induction es) (auto intro!: ends_intros split: option.splits)

lemma ends_callbacks:
  assumes "clock_law N"
  shows "ends (snfs_getattr N p st)" "ends (snfs_readdir N p)" "ends (snfs_open N p fh)"
    "ends (snfs_opendir N p fh)" "ends (snfs_read N count off fh)"
    "ends (snfs_write N buf count off fh)" "ends (snfs_setattr N p which sz mode uid gid tv)"
    "ends (snfs_create N p mode fh)" "ends (remove_path N p d)" "ends (snfs_rename N p q)"
    "ends (snfs_mkdir N p mode)"
  unfolding snfs_getattr_def snfs_readdir_def snfs_open_def snfs_opendir_def snfs_read_def
    snfs_write_def snfs_setattr_def snfs_create_def remove_path_def snfs_rename_def snfs_mkdir_def Let_def
  by (auto intro!: ends_intros ends_send_request ends_lookup ends_fill assms
      split: option.splits snfs_rep.splits)

section \<open>No callback waits\<close>

text \<open>
  The callbacks pass \<open>NN_DONTWAIT\<close> with every send and receive: their effect does not depend on what the
  network does in a call that may wait. \<open>unwaiting N N'\<close>: the two differ at most in those calls.
\<close>

definition unwaiting :: "'n net \<Rightarrow> 'n net \<Rightarrow> bool" where
  "unwaiting N N' \<longleftrightarrow> (\<exists>waiting_send waiting_recv. N' = N
     \<lparr>nn_send := \<lambda>d flags. if flags then nn_send N d True else waiting_send d,
      nn_recv := \<lambda>flags. if flags then nn_recv N True else waiting_recv\<rparr>)"

lemma unwaitingD:
  assumes "unwaiting N N'"
  shows "nn_send N' d True = nn_send N d True" "nn_recv N' True = nn_recv N True"
    "nn_connect N' = nn_connect N" "nn_shutdown N' = nn_shutdown N" "usleep N' = usleep N"
    "current_ms N' n = current_ms N n"
  using assms by (auto simp: unwaiting_def current_ms_def)

lemma send_loop_unwaiting:
  assumes "clock_law N" "unwaiting N N'"
  shows "send_loop N' data True end_time n = send_loop N data True end_time n"
proof -
  from assms(1) obtain us where us: "counts_time N us" by (auto simp: clock_law_def)
  show ?thesis
    using counts_timeD(1) [OF us]
  proof (induction n rule: deadline_induct [where end_time = end_time])
    case (turn n)
    obtain r n1 where r: "nn_send N data True n = (r, n1)" by (cases "nn_send N data True n")
    have "us n < us (usleep N 300 n1)"
      using counts_timeD(2) [OF us, of n1 300] counts_timeD(3) [OF us, of n data True] r by simp
    from turn [OF this] r show ?case
      by (subst (1 2) send_loop.simps) (simp add: unwaitingD [OF assms(2)] Let_def split: sum.splits)
  qed
qed

lemma recv_loop_unwaiting:
  assumes "clock_law N" "unwaiting N N'"
  shows "recv_loop N' True end_time n = recv_loop N True end_time n"
proof -
  from assms(1) obtain us where us: "counts_time N us" by (auto simp: clock_law_def)
  show ?thesis
    using counts_timeD(1) [OF us]
  proof (induction n rule: deadline_induct [where end_time = end_time])
    case (turn n)
    obtain r n1 where r: "nn_recv N True n = (r, n1)" by (cases "nn_recv N True n")
    have "us n < us (usleep N 250 n1)"
      using counts_timeD(2) [OF us, of n1 250] counts_timeD(4) [OF us, of n True] r by simp
    from turn [OF this] r show ?case
      by (subst (1 2) recv_loop.simps) (simp add: unwaitingD [OF assms(2)] Let_def split: sum.splits)
  qed
qed

lemma exchange_unwaiting:
  assumes "clock_law N" "unwaiting N N'"
  shows "send_request N' req = send_request N req"
proof -
  have "send_data N' d True n = send_data N d True n" "receive_data N' True n = receive_data N True n" for d n
    by (simp_all add: send_data_def receive_data_def send_loop_unwaiting [OF assms]
        recv_loop_unwaiting [OF assms] unwaitingD(6) [OF assms(2)])
  then have "c_send_data N' d True = c_send_data N d True" "c_receive_data N' True = c_receive_data N True" for d
    by (simp_all add: c_send_data_def c_receive_data_def)
  moreover have "c_connect N' = c_connect N" "c_shutdown N' = c_shutdown N"
    by (rule ext, simp add: c_connect_def c_shutdown_def unwaitingD [OF assms(2)])+
  ultimately have "snfs_req_rep_f N' sock url r True = snfs_req_rep_f N sock url r True" for sock url r
    by (simp add: snfs_req_rep_f_def cong: if_cong)
  then show ?thesis by (simp add: send_request_def)
qed

lemma lookup_unwaiting:
  assumes "clock_law N" "unwaiting N N'" shows "lookup N' p = lookup N p"
proof -
  have "lookup_loop N' h ts = lookup_loop N h ts" for h ts
    by (induction ts arbitrary: h) (simp_all add: exchange_unwaiting [OF assms])
  then show ?thesis by (simp add: lookup_def cong: if_cong)
qed

lemma callbacks_unwaiting:
  assumes "clock_law N" "unwaiting N N'"
  shows "snfs_getattr N' p st = snfs_getattr N p st" "snfs_readdir N' p = snfs_readdir N p"
    "snfs_open N' p fh = snfs_open N p fh" "snfs_read N' count off fh = snfs_read N count off fh"
    "snfs_write N' buf count off fh = snfs_write N buf count off fh"
    "snfs_setattr N' p which sz mode uid gid tv = snfs_setattr N p which sz mode uid gid tv"
    "snfs_create N' p mode fh = snfs_create N p mode fh" "remove_path N' p d = remove_path N p d"
    "snfs_rename N' p q = snfs_rename N p q" "snfs_mkdir N' p mode = snfs_mkdir N p mode"
  unfolding snfs_getattr_def snfs_readdir_def snfs_open_def snfs_read_def
    snfs_write_def snfs_setattr_def snfs_create_def remove_path_def snfs_rename_def snfs_mkdir_def
  by (simp_all only: exchange_unwaiting [OF assms] lookup_unwaiting [OF assms])

end
