(* ===== verification/Client_Props.thy ===== *)
theory Client_Props
  imports End_To_End Callbacks_End
begin

text \<open>
  The properties of the client, \<open>src/client/fuseops.c\<close>, \<open>src/client/request.c\<close> and
  \<open>src/common/comm.c\<close>, alone and put together with the server. The end-to-end properties run the
  model of a callback over the network \<open>direct_net E\<close>, whose peer is the model of the server's
  loop, and rest on the facts of the interpretation \<open>direct\<close>.
\<close>

section \<open>A sample client\<close>

definition sample_client :: "(memfs, memdb) joined client" where
  "sample_client = \<lparr>net_state = \<lparr>server_side = sample_live, inbox = [], clock_us = 0\<rparr>,
     server_url = [], server_sock = 0, root_fhandle = 5, msg_bufs = 0, heap_bufs = 0,
     endpoints = [], after_string = replicate 300 0\<rparr>"

lemma sample_mounted: "mounted sample_env sample_table sample_client"
  by (simp add: mounted_def sample_client_def root_path_def slash_path_def [symmetric])

lemma sample_side [simp]: "server_side (net_state sample_client) = sample_live"
  by (simp add: sample_client_def)

lemma sample_strtok [simp]: "strtok file_path = [[0x61]]"
  using strtok_path_of [of "[[0x61]]"] by (simp add: path_of_def path_name_def is_slash_def sample_paths)

lemma sample_resolution [simp]: "resolution file_path = file_path"
  using resolution_path_of [of file_path] by (simp add: path_of_def) (simp add: sample_paths)

lemma sample_lookup_guard: "lookup_guard sample_env (world sample_live) root_path [0x61] = Inr
   \<lparr>st_mode = 0x81A4, st_nlink = 1, st_uid = 0, st_gid = 0, st_size = 3,
     st_rdev = 0, st_dev = 1, st_ino = 7, st_atime = 0, st_mtime = 0, st_ctime = 0\<rparr>"
  by (simp add: lookup_guard_def sample_env_def fs_stat_def sample_live_def sample_server_def sample_fs_def
      root_path_def path_join_def root_node_def file_node_def s_if_defs s_is_defs)

lemma sample_walk: "walk sample_env sample_table sample_client file_path"
proof -
  have "11 \<in> fresh_set sample_env sample_live"
    using short_not_handle [of slash_path 11] short_not_handle [of file_path 11]
    by (simp add: fresh_set_def sample_view_live) (simp add: sample_live_def sample_server_def)
  then have "{11} \<subseteq> fresh_set sample_env sample_live" by simp
  from card_mono [OF _ this] have "fresh_supply sample_env sample_live (Suc 0)"
    by (simp add: fresh_supply_def fresh_set_def)
  then show ?thesis
    using sample_lookup_guard by (auto simp: walk_def cstring_def db_clear_length root_path_def path_join_def)
qed

section \<open>Through the client to the server\<close>

lemma short_count: "k < 2 ^ 31 \<Longrightarrow> sint (ucast (of_nat k :: u64) :: u32) = int k"
proof -
  assume k: "k < 2 ^ 31"
  have "ucast (of_nat k :: u64) = (of_nat (unat (of_nat k :: u64)) :: u32)"
    by (rule of_nat_unat [symmetric])
  also have "\<dots> = of_nat k" using k by (simp add: unat_of_nat_small)
  finally show ?thesis using c_int_nonneg [OF k] by (simp add: c_int_def)
qed

text \<open>
  C4: Opening /t1/t2/.../tn through the client gives FUSE a handle that the table of the server maps to
  exactly that path, whatever the number of names; all handles given out before keep their meaning, and the
  file system is not changed. The conditions: the names are names (not empty, no slash, no zero, at most
  255 bytes), the directories on the way exist and are directories, the last name exists, no path on the way has seven
  bytes, there are as many fresh draws as names, the client is mounted, and the network between the two
  loses nothing.
\<close>

theorem open_resolves_path:
  assumes "env_ok E" "mounted E f c" "names_ok ts" "ts \<noteq> []"
    and "w = world (server_side (net_state c))"
    and "\<forall>i < length ts. \<exists>st. px_stat E (dir_at ts i) w = Inr st \<and> S_ISDIR (st_mode st)"
    and "px_stat E (concat (map (\<lambda>t. 0x2F # t) ts)) w = Inr st"
    and "\<forall>i \<le> length ts. length (dir_at ts i) \<noteq> 7"
    and "fresh_supply E (server_side (net_state c)) (length ts)"
  shows "twp (snfs_open (direct_net E) (concat (map (\<lambda>t. 0x2F # t) ts)) fh) (\<lambda>(r, h) c'. r = 0 \<and> (\<exists>f'.
    db_repr E (server_side (net_state c')) f' \<and> f' h = Some (concat (map (\<lambda>t. 0x2F # t) ts)) \<and>
    f \<subseteq>\<^sub>m f') \<and> world (server_side (net_state c')) = w) c"
proof -
  have names: "\<forall>t \<in> set ts. path_name t" using names_ok_name [OF assms(3)] by blast
  have last: "dir_at ts (length ts) = path_of ts" using assms(4) by (simp add: dir_at_def)
  have "walkable E (server_side (net_state c)) f (dir_at ts 0) (drop 0 ts)"
    using assms(5-7) last by (intro walkable_prefixes [OF assms(3) _ _ assms(8)]) (simp_all add: path_of_def)
  then have "walk E f c (path_of ts)"
    using assms(9) by (simp add: walk_def strtok_path_of [OF names] dir_at_def)
  from open_walk [OF assms(1,2) this, of fh] show ?thesis
    using assms(5) resolution_normal [OF assms(4) names]
    by (auto simp: mounted_def path_of_def elim!: twp_mono)
qed

text \<open>A served directory with a directory \<open>/d\<close> and a file \<open>/d/b\<close> in it.\<close>

definition deep_client :: "(memfs, memdb) joined client" where
  "deep_client = sample_client\<lparr>net_state := (net_state sample_client)\<lparr>server_side := sample_live\<lparr>world :=
     sample_fs\<lparr>nodes := [([0x2F], root_node), ([0x2F, 0x64], root_node), ([0x2F, 0x64, 0x2F, 0x62], file_node [4, 5])]\<rparr>\<rparr>\<rparr>\<rparr>"

lemma deep_mounted: "mounted sample_env sample_table deep_client"
  using sample_mounted by (simp add: mounted_def deep_client_def)

lemma open_resolves_path_witness:
  "twp (snfs_open (direct_net sample_env) [0x2F, 0x64, 0x2F, 0x62] 0) (\<lambda>(r, h) c'. r = 0 \<and> (\<exists>f'.
    db_repr sample_env (server_side (net_state c')) f' \<and> f' h = Some [0x2F, 0x64, 0x2F, 0x62])) deep_client"
proof -
  let ?ts = "[[0x64], [0x62]] :: bytes list" and ?w = "world (server_side (net_state deep_client))"
  have at: "dir_at ?ts 0 = [0x2F]" "dir_at ?ts (Suc 0) = [0x2F, 0x64]" "dir_at ?ts 2 = [0x2F, 0x64, 0x2F, 0x62]"
    by (simp_all add: dir_at_def root_path_def path_of_def)
  have stats: "\<exists>st. px_stat sample_env [0x2F] ?w = Inr st \<and> S_ISDIR (st_mode st)"
      "\<exists>st. px_stat sample_env [0x2F, 0x64] ?w = Inr st \<and> S_ISDIR (st_mode st)"
      "\<exists>st. px_stat sample_env [0x2F, 0x64, 0x2F, 0x62] ?w = Inr st"
    by (simp_all add: deep_client_def sample_env_def fs_stat_def root_node_def file_node_def s_if_defs s_is_defs)
  then obtain st where st: "px_stat sample_env [0x2F, 0x64, 0x2F, 0x62] ?w = Inr st" by blast
  have lt: "\<forall>i < length ?ts. P (dir_at ?ts i)" if "P [0x2F]" "P [0x2F, 0x64]" for P
    using that at by (auto simp: less_Suc_eq)
  have le: "\<forall>i \<le> length ?ts. length (dir_at ?ts i) \<noteq> 7"
    using at by (auto simp: le_Suc_eq numeral_2_eq_2)
  have sup: "fresh_supply sample_env (server_side (net_state deep_client)) (length ?ts)"
    using sample_supply by (simp add: deep_client_def fresh_supply_def fresh_set_def numeral_2_eq_2)
  show ?thesis
    by (rule twp_mono [OF open_resolves_path [where ts = ?ts, OF sample_env_ok deep_mounted _ _ refl lt [OF stats(1,2)] _ le sup,
          simplified list.map concat.simps append_Nil append_Nil2 append_Cons, OF _ _ st]])
      (auto simp: names_ok_def)
qed

text \<open>
  Reading through a handle that open gave returns the bytes of the file at the offset and their
  number, at most count of them.
\<close>

theorem read_through_client:
  assumes "env_ok E" "files_ok E V" "mounted E f c" "walk E f c p"
    and "contents V (world (server_side (net_state c))) (resolution p) = Some data"
    and "length data < 2 ^ 63" "0 \<le>s off" "unat count < 2 ^ 31" "stack_ok E (8 * unat count)"
  shows "twp (bnd (snfs_open (direct_net E) p fh) (\<lambda>(r, h). snfs_read (direct_net E) count off h))
    (\<lambda>(n, buf) c'. buf = take (unat count) (drop (unat off) data) \<and> n = int (length buf)) c"
proof -
  let ?d = "read_data data off count"
  have len: "length ?d \<le> unat count" by (simp add: read_data_def)
  then have w: "length ?d < 2 ^ 31" "unat (of_nat (length ?d) :: u64) = length ?d" "of_nat (length ?d) \<le> count"
    using assms(8) by (simp_all add: unat_of_nat_small word_le_nat_alt)
  then have i: "sint (ucast (of_nat (length ?d) :: u64) :: u32) = int (length ?d)"
    by (intro short_count)
  have "twp (snfs_read (direct_net E) count off h)
      (\<lambda>(n, buf) c''. buf = ?d \<and> n = int (length buf)) c'"
    if "mounted E f' c'" "f' h = Some (resolution p)"
      "world (server_side (net_state c')) = world (server_side (net_state c))" for c' f' h
  proof -
    let ?a = "\<lparr>ra_file = h, ra_offset = off, ra_count = count\<rparr>"
    have "twp (dispatch E (Req_read ?a)) (\<lambda>_ s'. handled E (server_side (net_state c')) f' (read_reply ?d count) s' f' \<and>
        contents V (world s') = contents V (world (server_side (net_state c')))) (server_side (net_state c'))"
      using handle_read_spec [OF assms(1,2), of "server_side (net_state c')" f' ?a] that assms
      by (simp add: mounted_def)
    from server_step_handled [OF this] obtain s'' where
      "server_step E (Req_read ?a) (server_side (net_state c')) = Some (read_reply ?d count, s'')" by blast
    then have s: "server_step E (Req_read ?a) (server_side (net_state c')) = Some (Rep_read
      \<lparr>rr_count = of_nat (length ?d), rr_eof = if (of_nat (length ?d) :: i64) <s count then 1 else 0, rr_data = ?d\<rparr>, s'')"
      by (simp add: read_reply_def)
    show ?thesis
      by (rule twp_mono [OF direct.read_done [OF mounted_ready [OF that(1)] s]])
        (use w i in \<open>auto simp: min_absorb1\<close>)
  qed
  then show ?thesis
    unfolding twp_rules
    by (intro twp_mono [OF open_walk [OF assms(1,3,4)]]) (auto simp: read_data_def)
qed

lemma sample_client_contents:
  "contents sample_view (world (server_side (net_state sample_client))) (resolution file_path) = Some [1, 2, 3]"
  by simp

lemma read_through_client_witness:
  "twp (bnd (snfs_open (direct_net sample_env) file_path 0)
      (\<lambda>(r, h). snfs_read (direct_net sample_env) 5 1 h))
    (\<lambda>(n, buf) c'. buf = [2, 3] \<and> n = 2) sample_client"
  by (rule twp_mono [OF read_through_client [OF sample_env_ok sample_files_ok sample_mounted sample_walk
        sample_client_contents]]) (auto simp: nonneg_iff)

text \<open>
  C3: What is written through a handle that open gave is what a read at the same offset returns, and the
  write reports as many bytes as it was given.
\<close>

theorem read_back_through_client:
  assumes "env_ok E" "files_ok E V" "mounted E f c" "walk E f c p"
    and "contents V (world (server_side (net_state c))) (resolution p) = Some data"
    and "length data < 2 ^ 63" "0 \<le>s off" "unat count = length buf" "28 + length buf < 2 ^ 31"
    and "unat off + length buf < 2 ^ 63" "stack_ok E (8 * length buf)"
  shows "twp (bnd (snfs_open (direct_net E) p fh) (\<lambda>(r, h).
      bnd (snfs_write (direct_net E) buf count off h) (\<lambda>n.
      bnd (snfs_read (direct_net E) count off h) (\<lambda>(m, buf'). ret (n, m, buf')))))
    (\<lambda>(n, m, buf') c'. n = int (length buf) \<and> m = int (length buf) \<and> buf' = buf) c"
proof -
  have cnt: "of_nat (length buf) = count"
    using assms(8) [symmetric] by simp
  have i: "sint (ucast count :: u32) = int (length buf)"
    using short_count [of "length buf"] assms(9) by (simp add: cnt)
  let ?c = "overwrite data (unat off) buf"
  have rd: "read_data ?c off count = buf"
    using overwrite_read [of buf "unat off" data] assms(8) by (simp add: read_data_def)
  have "twp (bnd (snfs_write (direct_net E) buf count off h) (\<lambda>n.
      bnd (snfs_read (direct_net E) count off h) (\<lambda>(m, buf'). ret (n, m, buf'))))
    (\<lambda>(n, m, buf') c'. n = int (length buf) \<and> m = int (length buf) \<and> buf' = buf) c1"
    if "mounted E f1 c1" "f1 h = Some (resolution p)"
      "world (server_side (net_state c1)) = world (server_side (net_state c))" for c1 f1 h
  proof -
    let ?w = "\<lparr>wa_file = h, wa_offset = off, wa_count = count, wa_data = buf\<rparr>"
    let ?r = "\<lparr>ra_file = h, ra_offset = off, ra_count = count\<rparr>"
    let ?s1 = "server_side (net_state c1)"
    have "twp (dispatch E (Req_write ?w)) (\<lambda>_ s'. handled E ?s1 f1 (Rep_write count) s' f1 \<and>
        contents V (world s') = (contents V (world ?s1))(resolution p \<mapsto> ?c)) ?s1"
      using handle_write_spec [OF assms(1,2), of ?s1 f1 ?w] that assms(5,7,8)
      by (simp add: mounted_def write_data_def)
    from server_step_handled [OF this] obtain s2 where s2:
        "server_step E (Req_write ?w) ?s1 = Some (Rep_write count, s2)" "db_repr E s2 f1"
        "contents V (world s2) (resolution p) = Some ?c"
      by auto
    have "twp (dispatch E (Req_read ?r)) (\<lambda>_ s'. handled E s2 f1 (read_reply buf count) s' f1 \<and>
        contents V (world s') = contents V (world s2)) s2"
      using handle_read_spec [OF assms(1,2) s2(2), of ?r "resolution p" ?c] that s2(3) assms(6-11) rd
      by simp
    from server_step_handled [OF this] obtain s3 where s3:
        "server_step E (Req_read ?r) s2 = Some (read_reply buf count, s3)" by blast
    have rep: "read_reply buf count = Rep_read \<lparr>rr_count = count,
        rr_eof = if (of_nat (length buf) :: i64) <s count then 1 else 0, rr_data = buf\<rparr>"
      by (simp add: read_reply_def cnt)
    have written: "twp (snfs_write (direct_net E) buf count off h) (\<lambda>x c'. x = sint (ucast count :: u32) \<and>
        direct.ready c' \<and> cl_only 0 c1 c' \<and> server_side (net_state c') = s2) c1"
      by (rule direct.write_done [OF mounted_ready [OF that(1)]]) (use assms(8,9) s2(1) in simp_all)
    have reread: "twp (snfs_read (direct_net E) count off h) (\<lambda>(m, buf') c3. m = int (length buf) \<and> buf' = buf) c2"
      if "direct.ready c2" "server_side (net_state c2) = s2" for c2
      by (rule twp_mono [OF direct.read_done [OF that(1), where s' = s3 and E = E and r = "\<lparr>rr_count = count,
        rr_eof = if (of_nat (length buf) :: i64) <s count then 1 else 0, rr_data = buf\<rparr>"]])
        (use that(2) s3 rep i assms(8) in auto)
    show ?thesis
      unfolding twp_rules
      by (rule twp_mono [OF written], elim conjE, rule twp_mono [OF reread]) (auto simp: i)
  qed
  then show ?thesis
    by (subst twp_bnd, intro twp_mono [OF open_walk [OF assms(1,3,4)]]) (auto simp del: twp_rules)
qed

lemma read_back_through_client_witness:
  "twp (bnd (snfs_open (direct_net sample_env) file_path 0) (\<lambda>(r, h).
      bnd (snfs_write (direct_net sample_env) [8, 9] 2 2 h) (\<lambda>n.
      bnd (snfs_read (direct_net sample_env) 2 2 h) (\<lambda>(m, buf'). ret (n, m, buf')))))
    (\<lambda>(n, m, buf') c'. n = 2 \<and> m = 2 \<and> buf' = [8, 9]) sample_client"
  by (rule twp_mono [OF read_back_through_client [OF sample_env_ok sample_files_ok sample_mounted sample_walk
        sample_client_contents]]) (auto simp: nonneg_iff)

text \<open>
  getattr through the client fills the buffer from the attributes that stat gives on the server for the
  resolved path.
\<close>

theorem getattr_through_client:
  assumes "env_ok E" "mounted E f c" "walk E f c p"
    and "px_stat E (resolution p) (world (server_side (net_state c))) = Inr st"
  shows "twp (snfs_getattr (direct_net E) p buf) (\<lambda>x c'. x = (0, fattr_to_stat (stat_to_fattr st (stack_fattr E (world (server_side (net_state c))))) buf) \<and>
    world (server_side (net_state c')) = world (server_side (net_state c))) c"
proof -
  let ?s = "server_side (net_state c)"
  from walk_found [OF assms(1-3)] obtain h s1 f1 where h: "direct.found E p c h s1" "db_repr E s1 f1"
      "f1 h = Some (resolution p)" "world s1 = world ?s" by blast
  have "twp (dispatch E (Req_getattr \<lparr>ga_fh = h\<rparr>)) (\<lambda>_ s'.
      handled E s1 f1 (Rep_getattr (stat_to_fattr st (stack_fattr E (world ?s)))) s' f1 \<and> world s' = world s1) s1"
    using handle_getattr_spec [OF assms(1) h(2), of "\<lparr>ga_fh = h\<rparr>"] h(3,4) assms(4)
    by (simp add: getattr_reply_def)
  from server_step_handled [OF this] obtain s2 where s2: "world s2 = world s1"
      "server_step E (Req_getattr \<lparr>ga_fh = h\<rparr>) s1 = Some (Rep_getattr (stat_to_fattr st (stack_fattr E (world ?s))), s2)" by blast
  show ?thesis
    by (rule twp_mono [OF direct.getattr_done [OF mounted_ready [OF assms(2)] h(1) s2(2)]])
      (use s2(1) h(4) in simp)
qed

lemma getattr_through_client_witness:
  "twp (snfs_getattr (direct_net sample_env) file_path buf) (\<lambda>(r, st) c'. r = 0 \<and>
    st_size st = 3 \<and> st_mode st = 0x81A4) sample_client"
proof -
  have "px_stat sample_env file_path (world sample_live) = Inr
      \<lparr>st_mode = 0x81A4, st_nlink = 1, st_uid = 0, st_gid = 0, st_size = 3,
       st_rdev = 0, st_dev = 1, st_ino = 7, st_atime = 0, st_mtime = 0, st_ctime = 0\<rparr>"
    by (simp add: sample_env_def fs_stat_def sample_live_def sample_server_def sample_fs_def
        file_node_def sample_paths s_if_defs)
  then show ?thesis
    by (intro twp_mono [OF getattr_through_client [OF sample_env_ok sample_mounted sample_walk]])
      (auto simp: fattr_to_stat_def stat_to_fattr_def)
qed

text \<open>
  unlink through the client removes the file, reports success, and leaves no handle in the server's
  table for the resolved path, so that every handle clients still hold for it is stale.
\<close>

theorem unlink_through_client:
  assumes "env_ok E" "mounted E f c" "walk E f c p"
    and "db_clear (server_side (net_state c)) f (resolution p)"
    and "remove_result E (resolution p) False (world (server_side (net_state c))) = (None, w)"
  shows "twp (snfs_unlink (direct_net E) p) (\<lambda>r c'. r = 0 \<and> world (server_side (net_state c')) = w \<and>
    (\<exists>f'. db_repr E (server_side (net_state c')) f' \<and> resolution p \<notin> ran f')) c"
proof -
  let ?s = "server_side (net_state c)"
  from walk_found [OF assms(1-3)] assms(4) obtain h s1 f1 where h: "direct.found E p c h s1"
      "db_repr E s1 f1" "f1 h = Some (resolution p)" "world s1 = world ?s" "db_clear s1 f1 (resolution p)"
    by blast
  let ?req = "Req_remove \<lparr>rm_fh = h, rm_is_dir = 0\<rparr>"
  have "twp (dispatch E ?req) (\<lambda>_ s'. handled E s1 f1 Rep_remove s' (forget (resolution p) f1) \<and>
      world s' = w) s1"
    using handle_remove_spec [OF assms(1) h(2), of "\<lparr>rm_fh = h, rm_is_dir = 0\<rparr>" "resolution p" None w]
      h(3-5) assms(5)
    by (auto elim!: twp_mono)
  from server_step_handled [OF this] obtain s2 where s2: "world s2 = w"
      "db_repr E s2 (forget (resolution p) f1)" "server_step E ?req s1 = Some (Rep_remove, s2)" by blast
  show ?thesis
    unfolding snfs_unlink_def
    by (rule twp_mono [OF direct.remove_done [OF mounted_ready [OF assms(2)] h(1) s2(3)]])
      (use s2(1,2) in \<open>auto simp: forget_ran\<close>)
qed

lemma unlink_through_client_witness:
  "twp (snfs_unlink (direct_net sample_env) file_path) (\<lambda>r c'. r = 0 \<and>
    contents sample_view (world (server_side (net_state c'))) file_path = None) sample_client"
proof -
  have u: "px_unlink sample_env file_path (world sample_live) =
      (None, (world sample_live)\<lparr>nodes := [(slash_path, root_node)]\<rparr>)"
    by (simp add: sample_env_def fs_unlink_def sample_live_def sample_server_def sample_fs_def
        sample_paths file_node_def)
  have st: "\<exists>st. px_stat sample_env file_path (world sample_live) = Inr st"
    by (simp add: sample_env_def fs_stat_def sample_live_def sample_server_def sample_fs_def sample_paths)
  then have "remove_result sample_env file_path False (world sample_live) =
      (None, (world sample_live)\<lparr>nodes := [(slash_path, root_node)]\<rparr>)"
    by (auto simp: remove_result_def u)
  then show ?thesis
    by (intro twp_mono [OF unlink_through_client [OF sample_env_ok sample_mounted sample_walk,
          where w = "(world sample_live)\<lparr>nodes := [(slash_path, root_node)]\<rparr>"]])
      (simp_all add: db_clear_length, simp add: sample_view_def sample_paths)
qed

text \<open>
  Creating a file through the client and opening it by the same path gives the same handle
  twice, when the path is in normal form (a slash before each of its names) and short enough to
  be sent whole.
\<close>

theorem create_then_open_same_handle:
  assumes "env_ok E" "mounted E f c" "s = server_side (net_state c)"
    and "p = path_of ts" "ts \<noteq> []" "\<forall>t \<in> set ts. path_name t" "cstring p" "length p \<le> 255"
    and "px_creat E p mode (world s) = (Inr fd, w)" "db_clear s f p"
    and "walkable E (s\<lparr>world := w\<rparr>) f root_path ts" "fresh_supply E s (Suc (length ts))"
  shows "twp (bnd (snfs_create (direct_net E) p mode fh) (\<lambda>(r, h).
      bnd (snfs_open (direct_net E) p fh) (\<lambda>(r', h'). ret (r, h, r', h'))))
    (\<lambda>(r, h, r', h') c'. r = 0 \<and> r' = 0 \<and> h' = h) c"
proof -
  let ?a = "\<lparr>ca_filename = name_array p (after_string c), ca_mode = mode\<rparr>"
  have name: "cstr_of (ca_filename ?a) = Some p" using assms(7,8) by (simp add: cstr_of_name_array)
  have R: "db_repr E s f" using assms(2,3) by (simp add: mounted_def)
  have creat: "px_creat E p (ca_mode ?a) (world s) = (Inr fd, w)" using assms(9) by simp
  have tok: "strtok p = ts" "resolution p = p"
    using assms(4-6) by (simp_all add: strtok_path_of resolution_normal)
  have "p \<noteq> [0x2F]" using tok(1) assms(5) strtok_root by auto
  have "twp (dispatch E (Req_create ?a)) (\<lambda>_ s'. \<exists>h f1. handled E s f (Rep_create h) s' f1 \<and>
      f1 h = Some p \<and> f \<subseteq>\<^sub>m f1 \<and> world s' = w \<and> fresh_supply E s' (length ts)) s"
    by (rule twp_mono [OF twp_wp_conj [OF handle_create_made [OF assms(1) R name creat assms(10)
            fresh_supply_draw [OF assms(12)]] handle_create_supply [OF assms(1) name creat assms(10,12)]],
          of "\<lambda>_. _", unfolded dispatch.simps [symmetric]])
      (auto dest: inserted_maps inserted_map_le)
  then obtain s1 h f1 where s1: "server_step E (Req_create ?a) s = Some (Rep_create h, s1)"
      "handled E s f (Rep_create h) s1 f1" "f1 h = Some p" "f \<subseteq>\<^sub>m f1" "world s1 = w"
      "fresh_supply E s1 (length ts)"
    by (auto simp: twp_Ret server_step_def handled_def)
  have create: "twp (snfs_create (direct_net E) p mode fh) (\<lambda>x c'. x = (0, h) \<and> direct.ready c' \<and>
      cl_only 0 c c' \<and> server_side (net_state c') = s1) c"
    by (rule direct.create_done [OF mounted_ready [OF assms(2)] \<open>p \<noteq> [0x2F]\<close>]) (use s1(1) assms(3) in simp)
  have "twp (snfs_open (direct_net E) p fh) (\<lambda>(r', h') c''. r' = 0 \<and> h' = h) c'"
    if c': "direct.ready c'" "cl_only 0 c c'" "server_side (net_state c') = s1" for c'
  proof -
    have m: "mounted E f1 c'"
      by (rule mounted_frame [OF assms(2) c'(1,2)]) (use s1(2,4) c'(3) in \<open>simp_all add: handled_def\<close>)
    have "walkable E s1 f1 root_path ts"
      by (rule walkable_mono [OF assms(11)]) (use s1(2,5) in \<open>simp_all add: handled_def\<close>)
    then have w: "walk E f1 c' p" using s1(6) tok(1) c'(3) by (simp add: walk_def)
    show ?thesis
    proof (rule twp_mono [OF open_walk [OF assms(1) m w]], clarsimp simp: tok(2))
      fix h' c'' f2
      assume "mounted E f2 c''" "f1 \<subseteq>\<^sub>m f2" "f2 h' = Some p"
      moreover have "f2 h = Some p" using s1(3) \<open>f1 \<subseteq>\<^sub>m f2\<close> by (auto simp: map_le_def dom_def)
      ultimately show "h' = h"
        using fhdb.repr_inj [of E "server_side (net_state c'')" f2]
        by (auto simp: mounted_def inj_on_def dom_def)
    qed
  qed
  then show ?thesis
    unfolding twp_rules
    by (intro twp_mono [OF create]) (force intro: twp_mono)
qed

lemma create_then_open_same_handle_witness:
  "twp (bnd (snfs_create (direct_net sample_env) new_path 0x1A4 0) (\<lambda>(r, h).
      bnd (snfs_open (direct_net sample_env) new_path 0) (\<lambda>(r', h'). ret (r, h, r', h'))))
    (\<lambda>(r, h, r', h') c'. r = 0 \<and> r' = 0 \<and> h' = h) sample_client"
proof -
  let ?w = "(world sample_live)
      \<lparr>nodes := [(slash_path, root_node), (file_path, file_node [1, 2, 3]), (new_path, file_node [])],
       opened := [(3, new_path, 0)], next_fd := 4\<rparr>"
  have creat: "px_creat sample_env new_path 0x1A4 (world sample_live) = (Inr 3, ?w)"
    by (simp add: sample_env_def fs_creat_def fs_open_def sample_live_def sample_server_def
        sample_fs_def sample_paths root_node_def file_node_def parent_def slash_def)
  have "\<exists>st. lookup_guard sample_env ?w root_path [0x62] = Inr st"
    by (simp add: lookup_guard_def sample_env_def fs_stat_def root_path_def path_join_def root_node_def
        file_node_def sample_paths s_if_defs s_is_defs)
  then have walk: "walkable sample_env (sample_live\<lparr>world := ?w\<rparr>) sample_table root_path [[0x62]]"
    by (auto simp: cstring_def root_path_def path_join_def db_clear_length)
  have "{11, 22} \<subseteq> fresh_set sample_env sample_live"
    using short_not_handle [of slash_path] short_not_handle [of file_path]
    by (simp add: fresh_set_def sample_view_live) (simp add: sample_live_def sample_server_def)
  from card_mono [OF _ this] have draws: "fresh_supply sample_env sample_live (Suc (length [[0x62 :: byte]]))"
    by (simp add: fresh_supply_def fresh_set_def)
  show ?thesis
    by (rule create_then_open_same_handle [OF sample_env_ok sample_mounted sample_side [symmetric]
          _ _ _ _ _ creat _ walk draws])
      (simp_all, simp_all add: sample_paths path_of_def path_name_def is_slash_def db_clear_length)
qed

text \<open>
  The client's start (socket, two NOOPs, MOUNT) ends with a root handle that the server's table
  maps to the path of the root, with the file system unchanged, no connection left open and no
  message held.
\<close>

theorem init_mounts_root:
  assumes "env_ok E" "db_repr E (server_side (net_state c)) f" "fresh_draw E (server_side (net_state c))"
    and "inbox (net_state c) = []" "SNFS_MAX_FILENAME_LENGTH \<le> length (after_string c)"
  shows "twp (snfs_init (direct_net E)) (\<lambda>_ c'. (\<exists>f'. db_repr E (server_side (net_state c')) f' \<and>
      f' (root_fhandle c') = Some root_path \<and> f \<subseteq>\<^sub>m f') \<and>
    world (server_side (net_state c')) = world (server_side (net_state c)) \<and>
    msg_bufs c' = msg_bufs c \<and> endpoints c' = endpoints c) c"
  by (rule twp_mono [OF init_walk [OF assms(1-3) refl assms(4,5)]]) (auto simp: mounted_def)

lemma init_mounts_root_witness:
  "twp (snfs_init (direct_net sample_env)) (\<lambda>_ c'. (\<exists>f'. db_repr sample_env (server_side (net_state c')) f' \<and>
      f' (root_fhandle c') = Some root_path) \<and> endpoints c' = []) sample_client"
  by (rule twp_mono [OF init_mounts_root [where f = sample_table]])
    (auto simp: sample_client_def sample_mounted [unfolded mounted_def])

section \<open>The client alone\<close>

text \<open>
  C35: No file-system callback waits for ever: each sends and receives only with NN_DONTWAIT, so that what the
  network does in a call that may wait makes no difference to it, and over any network whose clock a
  sleep moves forward and whose single calls return, however they fail, the retrying stops at its
  deadline. The callbacks are the eleven that FUSE calls on files and directories; snfs_init, which
  FUSE calls once at the start, exchanges its second NOOP and the MOUNT without NN_DONTWAIT and may
  wait for a server for ever, as request.c says.
\<close>

theorem callbacks_never_hang:
  assumes "clock_law N" "unwaiting N N'"
  shows "snfs_getattr N p st c \<noteq> Spins \<and> snfs_getattr N' p st = snfs_getattr N p st \<and>
    snfs_readdir N p c \<noteq> Spins \<and> snfs_readdir N' p = snfs_readdir N p \<and>
    snfs_open N p fh c \<noteq> Spins \<and> snfs_open N' p fh = snfs_open N p fh \<and>
    snfs_read N count off fh c \<noteq> Spins \<and> snfs_read N' count off fh = snfs_read N count off fh \<and>
    snfs_write N buf count off fh c \<noteq> Spins \<and>
    snfs_write N' buf count off fh = snfs_write N buf count off fh \<and>
    snfs_setattr N p which sz mode uid gid tv c \<noteq> Spins \<and>
    snfs_setattr N' p which sz mode uid gid tv = snfs_setattr N p which sz mode uid gid tv \<and>
    snfs_create N p md fh c \<noteq> Spins \<and> snfs_create N' p md fh = snfs_create N p md fh \<and>
    snfs_unlink N p c \<noteq> Spins \<and> snfs_unlink N' p = snfs_unlink N p \<and>
    snfs_rmdir N p c \<noteq> Spins \<and> snfs_rmdir N' p = snfs_rmdir N p \<and>
    snfs_rename N p q c \<noteq> Spins \<and> snfs_rename N' p q = snfs_rename N p q \<and>
    snfs_mkdir N p md c \<noteq> Spins \<and> snfs_mkdir N' p md = snfs_mkdir N p md"
  using ends_callbacks [OF assms(1)]
  by (simp add: ends_def snfs_unlink_def snfs_rmdir_def callbacks_unwaiting [OF assms])

lemma callbacks_never_hang_witness: "snfs_unlink (direct_net sample_env) file_path sample_client \<noteq> Spins"
proof -
  let ?N = "direct_net sample_env"
  have "unwaiting ?N (?N\<lparr>nn_send := \<lambda>d flags. if flags then nn_send ?N d True else (\<lambda>n. (Inl ETERM, n)),
      nn_recv := \<lambda>flags. if flags then nn_recv ?N True else (\<lambda>n. (Inl ETERM, n))\<rparr>)"
    unfolding unwaiting_def by (intro exI, rule refl)
  from callbacks_never_hang [OF direct_clock this] show ?thesis by blast
qed

text \<open>
  C36: Whatever the network does, a callback that returns has closed the connections it opened and freed the
  blocks and messages it took, with one exception: setattr keeps the reply of every request that
  was answered.
\<close>

theorem callbacks_release:
  "wp (snfs_getattr N p st) (\<lambda>_. cl_only 0 c) c \<and> wp (snfs_readdir N p) (\<lambda>_. cl_only 0 c) c \<and>
   wp (snfs_open N p fh) (\<lambda>_. cl_only 0 c) c \<and> wp (snfs_read N count off fh) (\<lambda>_. cl_only 0 c) c \<and>
   wp (snfs_write N buf count off fh) (\<lambda>_. cl_only 0 c) c \<and>
   wp (snfs_create N p mode fh) (\<lambda>_. cl_only 0 c) c \<and> wp (snfs_unlink N p) (\<lambda>_. cl_only 0 c) c \<and>
   wp (snfs_rmdir N p) (\<lambda>_. cl_only 0 c) c \<and> wp (snfs_rename N p q) (\<lambda>_. cl_only 0 c) c \<and>
   wp (snfs_mkdir N p mode) (\<lambda>_. cl_only 0 c) c \<and>
   wp (snfs_setattr N p which sz mode uid gid tv) (\<lambda>r. cl_only (if r = 0 \<or> r = -1 then 1 else 0) c) c"
  by (simp add: books setattr_books write_books snfs_unlink_def snfs_rmdir_def)

text \<open>
  The name array of a request is 256 bytes long and the server reads from it the first 255 bytes of
  the name: longer names are silently cut, and nothing that lies behind the name in memory is taken for
  a part of it.
\<close>

theorem name_is_cut:
  assumes "cstring n" "SNFS_MAX_FILENAME_LENGTH \<le> length (zstr n @ behind)"
  shows "length (name_array n behind) = 256 \<and> cstr_of (name_array n behind) = Some (take 255 n)"
  using assms length_name_array [OF assms(2)] by (simp add: cstr_of_name_array)

lemma name_is_cut_witness:
  "length (name_array [0x61] (replicate 300 7)) = 256 \<and>
   cstr_of (name_array [0x61] (replicate 300 7)) = Some [0x61]"
  using name_is_cut [of "[0x61]" "replicate 300 7"] by (simp add: cstring_def)

text \<open>
  utimens turns nanoseconds into microseconds by multiplying: a time with a thousand nanoseconds or more
  (and less than a second) becomes a microsecond field of a million or more, which is no valid time.
\<close>

theorem utimens_scales_up:
  assumes "1000 \<le> unat (ts_nsec t)" "unat (ts_nsec t) < 1000000000"
  shows "unat (tv_useconds (to_timeval t)) = 1000 * unat (ts_nsec t) \<and>
    1000000 \<le> unat (tv_useconds (to_timeval t))"
proof -
  have "unat (ts_nsec t * 1000) = unat (ts_nsec t) * 1000"
    using assms(2) by (subst unat_mult_lem [THEN iffD1]) simp_all
  with assms(1) show ?thesis by (simp add: to_timeval_def)
qed

lemma utimens_scales_up_witness:
  "1000000 \<le> unat (tv_useconds (to_timeval \<lparr>ts_sec = 0, ts_nsec = 5000\<rparr>))"
  using utimens_scales_up [of "\<lparr>ts_sec = 0, ts_nsec = 5000\<rparr>"] by simp

end
