(* ===== verification/Options.thy ===== *)
theory Options
  imports Serve_Loop Request
begin

text \<open>
  The command lines and the starts of the server, \<open>src/server/main.c\<close>, and of the client,
  \<open>src/client/main.c\<close>. \<open>getopt\<close> is seen through what it returns: a list of its results, and the
  index of the first argument that is not an option. \<open>strtol\<close> with base 0 and the \<open>%ld\<close> of \<open>snprintf\<close> are
  written out, since \<open>parse_number\<close> and the server's URL depend on what they do.
\<close>

section \<open>strtol\<close>

definition is_space :: "byte \<Rightarrow> bool" where
  "is_space b \<longleftrightarrow> b = 32 \<or> (9 \<le> b \<and> b \<le> 13)"

definition digit_val :: "byte \<Rightarrow> nat option" where
  "digit_val b =
     (if 48 \<le> b \<and> b \<le> 57 then Some (unat b - 48)
      else if 97 \<le> b \<and> b \<le> 122 then Some (unat b - 87)
      else if 65 \<le> b \<and> b \<le> 90 then Some (unat b - 55)
      else None)"

definition is_digit :: "nat \<Rightarrow> byte \<Rightarrow> bool" where
  "is_digit base b = (case digit_val b of None \<Rightarrow> False | Some d \<Rightarrow> d < base)"

definition number_of :: "nat \<Rightarrow> bytes \<Rightarrow> nat" where
  "number_of base ds = foldl (\<lambda>n b. n * base + the (digit_val b)) 0 ds"

definition LONG_MAX :: int where "LONG_MAX = 2 ^ 63 - 1"
definition LONG_MIN :: int where "LONG_MIN = - (2 ^ 63)"

text \<open>The sign, then the base and the digits that follow its prefix.\<close>

definition strip_sign :: "bytes \<Rightarrow> bool \<times> bytes" where
  "strip_sign t = (case t of [] \<Rightarrow> (False, [])
     | b # bs \<Rightarrow> if b = 45 then (True, bs) else if b = 43 then (False, bs) else (False, t))"

definition strip_base :: "bytes \<Rightarrow> nat \<times> bytes" where
  "strip_base u =
     (if 3 \<le> length u \<and> u ! 0 = 48 \<and> (u ! 1 = 120 \<or> u ! 1 = 88) \<and> is_digit 16 (u ! 2) then (16, drop 2 u)
      else if u \<noteq> [] \<and> hd u = 48 then (8, u)
      else (10, u))"

text \<open>The value, the rest of the string, and whether the value was out of range.\<close>

definition strtol :: "bytes \<Rightarrow> int \<times> bytes \<times> bool" where
  "strtol s =
     (let (neg, u) = strip_sign (dropWhile is_space s);
          (base, v) = strip_base u;
          ds = takeWhile (is_digit base) v
      in if ds = [] then (0, s, False)
         else let n = int (number_of base ds); r = (if neg then - n else n); e = drop (length ds) v
           in if LONG_MAX < r then (LONG_MAX, e, True)
              else if r < LONG_MIN then (LONG_MIN, e, True)
              else (r, e, False))"

section \<open>parse_number\<close>

text \<open>
  \<open>erange\<close> says whether \<open>errno\<close> was \<open>ERANGE\<close> before the call: the code does not clear it. The
  result is the return value, and the number that was stored, if one was.
\<close>

definition parse_number :: "bool \<Rightarrow> bytes \<Rightarrow> int \<times> int option" where
  "parse_number erange string =
     (case strtol string of (result, e, overflow) \<Rightarrow>
        if result = 0 \<and> e = string then (-1, None)
        else if (erange \<or> overflow) \<and> (result = LONG_MAX \<or> result = LONG_MIN) then (-1, None)
        else if e \<noteq> [] then (0, Some result)
        else (1, Some result))"

section \<open>Command lines\<close>

text \<open>A result of \<open>getopt\<close>: an option with its argument, or \<open>?\<close> with the value of \<open>optopt\<close>.\<close>

datatype opt = Opt byte bytes | Bad_opt byte

text \<open>How a program's main function goes on after its command line.\<close>

datatype 'a parsed = Options 'a | Help_exit | Usage_exit

record server_options =
  so_verbose :: bool
  so_port :: int

definition DEFAULT_PORT :: int where "DEFAULT_PORT = 2048"

definition default_server_options :: server_options where
  "default_server_options = \<lparr>so_verbose = False, so_port = DEFAULT_PORT\<rparr>"

fun server_parse_options :: "bool \<Rightarrow> opt list \<Rightarrow> server_options \<Rightarrow> server_options parsed" where
  "server_parse_options er [] opts = Options opts"
| "server_parse_options er (Opt c optarg # rest) opts =
     (if c = 0x68 then Help_exit
      else if c = 0x76 then server_parse_options er rest (opts\<lparr>so_verbose := True\<rparr>)
      else if c = 0x70 then
        (case parse_number er optarg of
           (r, Some n) \<Rightarrow> if r \<noteq> 1 then Usage_exit else server_parse_options er rest (opts\<lparr>so_port := n\<rparr>)
         | (r, None) \<Rightarrow> Usage_exit)
      else Usage_exit)"
| "server_parse_options er (Bad_opt c # rest) opts = Usage_exit"

record client_options =
  co_verbose :: bool
  co_fuse_debug :: bool

fun client_parse_options :: "opt list \<Rightarrow> client_options \<Rightarrow> client_options parsed" where
  "client_parse_options [] opts = Options opts"
| "client_parse_options (Opt c optarg # rest) opts =
     (if c = 0x64 then client_parse_options rest (opts\<lparr>co_fuse_debug := True\<rparr>)
      else if c = 0x68 then Help_exit
      else if c = 0x76 then client_parse_options rest (opts\<lparr>co_verbose := True\<rparr>)
      else Usage_exit)"
| "client_parse_options (Bad_opt c # rest) opts = Usage_exit"

section \<open>The server's start\<close>

text \<open>\<open>%ld\<close>.\<close>

fun dec_nat :: "nat \<Rightarrow> bytes" where
  "dec_nat n = (if n < 10 then [48 + of_nat n] else dec_nat (n div 10) @ [48 + of_nat (n mod 10)])"

declare dec_nat.simps [simp del]

definition dec :: "int \<Rightarrow> bytes" where
  "dec n = (if n < 0 then 45 # dec_nat (nat (- n)) else dec_nat (nat n))"

text \<open>The URL: \<open>tcp://*:\<close> and the port, cut by \<open>snprintf\<close> to 28 characters.\<close>

definition url_prefix :: bytes where
  "url_prefix = [0x74, 0x63, 0x70, 0x3A, 0x2F, 0x2F, 0x2A, 0x3A]"

definition tcp_url :: "int \<Rightarrow> bytes" where
  "tcp_url port = take 28 (url_prefix @ dec port)"

text \<open>
  What the system answers while the server starts: \<open>opendir\<close>, \<open>realpath\<close>, \<open>chdir\<close> and \<open>chroot\<close> of the
  directory, then \<open>nn_socket\<close>, and \<open>nn_bind\<close> of the URL.
\<close>

record start =
  dir_ok :: "bytes \<Rightarrow> bool"
  real_path :: "bytes \<Rightarrow> bytes option"
  chdir_ok :: "bytes \<Rightarrow> bool"
  chroot_ok :: "bytes \<Rightarrow> bool"
  sock_fd :: int
  bind_result :: "bytes \<Rightarrow> int"

text \<open>
  \<open>args\<close> are the arguments that are not options. The value is whether the loop ended by SIGTERM; \<open>None\<close> is the
  exit with success of the option \<open>-h\<close>.
\<close>

definition server_main ::
    "('w, 'd) env \<Rightarrow> start \<Rightarrow> bool \<Rightarrow> opt list \<Rightarrow> bytes list \<Rightarrow> event list \<Rightarrow> ('w, 'd, bool option) srv" where
  "server_main E st er opts args evs =
     (case server_parse_options er opts default_server_options of
        Help_exit \<Rightarrow> ret None
      | Usage_exit \<Rightarrow> err_exit
      | Options o' \<Rightarrow>
          (case args of
             [] \<Rightarrow> err_exit
           | path # _ \<Rightarrow>
               if \<not> dir_ok st path then err_exit
               else (case real_path st path of
                 None \<Rightarrow> err_exit
               | Some full \<Rightarrow>
                   if \<not> chdir_ok st full then err_exit
                   else if \<not> chroot_ok st full then err_exit
                   else
                     andthen (init_db_if_needed E)
                     (bnd (serve_loop E (sock_fd st) (bind_result st (tcp_url (so_port o'))) evs)
                       (\<lambda>b. ret (Some b))))))"

section \<open>The client's start\<close>

text \<open>The arguments of \<open>fuse_main\<close>: the program, the mount point, and the fixed options.\<close>

definition fuse_argv :: "bytes \<Rightarrow> bytes \<Rightarrow> client_options \<Rightarrow> bytes list" where
  "fuse_argv prog dir_path o' =
     [prog, dir_path, [0x2D, 0x73], [0x2D, 0x6F],
      [0x64, 0x65, 0x66, 0x61, 0x75, 0x6C, 0x74, 0x5F, 0x70, 0x65, 0x72, 0x6D, 0x69, 0x73, 0x73, 0x69, 0x6F, 0x6E, 0x73]] @
     (if co_fuse_debug o' then [[0x2D, 0x64]] else [])"

text \<open>
  Up to \<open>fuse_main\<close>: the URL that is kept and the arguments of FUSE. \<open>None\<close> is the exit of the option \<open>-h\<close>.
\<close>

definition client_main ::
    "(bytes \<Rightarrow> bool) \<Rightarrow> bytes \<Rightarrow> opt list \<Rightarrow> bytes list \<Rightarrow> ('n, (bytes list) option) cl" where
  "client_main opendir_ok prog opts args =
     andthen (modify (\<lambda>c. c\<lparr>heap_bufs := heap_bufs c + 1\<rparr>))
     (case client_parse_options opts \<lparr>co_verbose = False, co_fuse_debug = False\<rparr> of
        Help_exit \<Rightarrow> ret None
      | Usage_exit \<Rightarrow> err_exit
      | Options o' \<Rightarrow>
          (case args of
             [] \<Rightarrow> err_exit
           | url # rest \<Rightarrow>
               andthen (modify (\<lambda>c. c\<lparr>server_url := url, heap_bufs := heap_bufs c + 1\<rparr>))
               (case rest of
                  [] \<Rightarrow> err_exit
                | dir_path # _ \<Rightarrow>
                    if \<not> opendir_ok dir_path then err_exit
                    else ret (Some (fuse_argv prog dir_path o')))))"

section \<open>Decimal numbers\<close>

lemma digit_val_dec: "d < 10 \<Longrightarrow> digit_val (48 + of_nat d) = Some d"
proof -
  assume "d < 10"
  then have "d \<in> {0, 1, 2, 3, 4, 5, 6, 7, 8, 9}" by auto
  then show ?thesis by (elim insertE) (simp_all add: digit_val_def)
qed

lemma is_digit_dec: "d < 10 \<Longrightarrow> is_digit 10 (48 + of_nat d)"
  by (simp add: is_digit_def digit_val_dec)

lemma dec_nat_digits: "\<forall>b \<in> set (dec_nat n). is_digit 10 b"
  by (induction n rule: dec_nat.induct) (subst dec_nat.simps, auto simp: is_digit_dec)

lemma number_of_dec_nat: "number_of 10 (dec_nat n) = n"
proof (induction n rule: dec_nat.induct)
  case (1 n)
  show ?case
  proof (cases "n < 10")
    case True
    then show ?thesis by (simp add: dec_nat.simps [of n] number_of_def digit_val_dec)
  next
    case False
    with 1 have "number_of 10 (dec_nat n) = n div 10 * 10 + n mod 10"
      by (simp add: dec_nat.simps [of n] number_of_def digit_val_dec)
    then show ?thesis by simp
  qed
qed

lemma dec_nat_not_Nil [simp]: "dec_nat n \<noteq> []"
  by (simp add: dec_nat.simps [of n])

text \<open>Only the number zero begins with the digit that announces an octal number.\<close>

lemma hd_dec_nat: "0 < n \<Longrightarrow> hd (dec_nat n) \<noteq> 48"
proof (induction n rule: dec_nat.induct)
  case (1 n)
  show ?case
  proof (cases "n < 10")
    case True
    with "1.prems" have "n \<in> {1, 2, 3, 4, 5, 6, 7, 8, 9}" by auto
    then show ?thesis by (elim insertE) (simp_all add: dec_nat.simps)
  next
    case False
    then have "0 < n div 10" by simp
    with 1 False show ?thesis by (simp add: dec_nat.simps [of n])
  qed
qed

lemma strip_base_dec_nat:
  "strip_base (dec_nat n) = ((if n = 0 then 8 else 10), dec_nat n)"
proof (cases "n = 0")
  case True
  then show ?thesis by (simp add: strip_base_def dec_nat.simps [of 0])
next
  case False
  then have "hd (dec_nat n) \<noteq> 48" by (simp add: hd_dec_nat)
  moreover from this have "dec_nat n ! 0 \<noteq> 48" by (simp add: hd_conv_nth)
  ultimately show ?thesis using False by (simp add: strip_base_def)
qed

lemma digit_not_special: "is_digit 10 b \<Longrightarrow> \<not> is_space b \<and> b \<noteq> 45 \<and> b \<noteq> 43"
  by (auto simp: is_digit_def digit_val_def is_space_def word_le_nat_alt split: if_splits)

lemma strtol_digits:
  assumes "LONG_MIN \<le> r" "r \<le> LONG_MAX" "r = (if neg then - int n else int n)"
    and "strip_sign (dropWhile is_space s) = (neg, dec_nat n)"
  shows "strtol s = (r, [], False)"
proof -
  have ds: "takeWhile (is_digit 10) (dec_nat n) = dec_nat n"
    using dec_nat_digits [of n] by simp
  show ?thesis
  proof (cases "n = 0")
    case True
    have "is_digit 8 48" by (simp add: is_digit_def digit_val_def)
    moreover have "dec_nat 0 = [48]" "number_of 8 [48] = 0" "strip_base [48] = (8, [48])"
      by (simp_all add: dec_nat.simps [of 0] number_of_def digit_val_def strip_base_def)
    ultimately show ?thesis using True assms
      by (simp add: strtol_def LONG_MAX_def LONG_MIN_def Let_def)
  next
    case False
    with assms show ?thesis
      by (simp add: strtol_def strip_base_dec_nat number_of_dec_nat Let_def ds split: if_splits)
  qed
qed

lemma strtol_dec:
  assumes "LONG_MIN \<le> n" "n \<le> LONG_MAX"
  shows "strtol (dec n) = (n, [], False)"
proof (cases "n < 0")
  case True
  then show ?thesis
    by (intro strtol_digits [OF assms, of True "nat (- n)"])
      (simp_all add: dec_def strip_sign_def is_space_def)
next
  case False
  obtain b bs where b: "dec_nat (nat n) = b # bs" by (cases "dec_nat (nat n)") auto
  then have "is_digit 10 b" using dec_nat_digits [of "nat n"] by simp
  with digit_not_special [OF this] b False show ?thesis
    by (intro strtol_digits [OF assms, of False "nat n"]) (simp_all add: dec_def strip_sign_def)
qed

lemma length_dec_nat: "n < 10 ^ k \<Longrightarrow> 0 < k \<Longrightarrow> length (dec_nat n) \<le> k"
proof (induction k arbitrary: n)
  case (Suc k)
  show ?case
  proof (cases "n < 10")
    case False
    with Suc.prems have "0 < k" "n div 10 < 10 ^ k" by (cases k, auto)
    with Suc.IH have "length (dec_nat (n div 10)) \<le> k" by blast
    with False show ?thesis by (simp add: dec_nat.simps [of n])
  qed (simp add: dec_nat.simps [of n])
qed simp

lemma length_dec:
  assumes "LONG_MIN \<le> n" "n \<le> LONG_MAX"
  shows "length (dec n) \<le> 20"
proof -
  have "nat (- n) < 10 ^ 19" "nat n < 10 ^ 19" using assms by (simp_all add: LONG_MIN_def LONG_MAX_def)
  then have "length (dec_nat (nat (- n))) \<le> 19" "length (dec_nat (nat n)) \<le> 19"
    by (simp_all add: length_dec_nat)
  then show ?thesis by (simp add: dec_def)
qed

lemma strtol_range: "fst (strtol s) \<le> LONG_MAX \<and> LONG_MIN \<le> fst (strtol s)"
  by (simp add: strtol_def Let_def LONG_MAX_def LONG_MIN_def split: prod.splits)

lemma parse_number_range: "parse_number er s = (r, Some n) \<Longrightarrow> n \<le> LONG_MAX \<and> LONG_MIN \<le> n"
  using strtol_range [of s] by (auto simp: parse_number_def split: prod.splits if_splits)

lemma server_port_range:
  "server_parse_options er opts o1 = Options o2 \<Longrightarrow> so_port o1 \<le> LONG_MAX \<and> LONG_MIN \<le> so_port o1 \<Longrightarrow>
   so_port o2 \<le> LONG_MAX \<and> LONG_MIN \<le> so_port o2"
proof (induction er opts o1 rule: server_parse_options.induct)
  case (2 er c optarg rest opts)
  then show ?case
    by (auto split: if_splits prod.splits option.splits dest: parse_number_range)
qed auto

end
