(* ===== verification/Options_Props.thy ===== *)
theory Options_Props
  imports Options Sample_Server
begin

text \<open>The properties of the command line of the server and of its start.\<close>

text \<open>
  parse_number reads back every number of type long that is written in decimal, except that the
  two ends of the range are refused when errno was ERANGE from some earlier call.
\<close>

theorem parse_number_round_trip:
  assumes "LONG_MIN \<le> n" "n \<le> LONG_MAX"
  shows "parse_number er (dec n) =
    (if er \<and> (n = LONG_MAX \<or> n = LONG_MIN) then (-1, None) else (1, Some n))"
proof -
  have "dec n \<noteq> []" by (simp add: dec_def)
  then show ?thesis by (simp add: parse_number_def strtol_dec [OF assms])
qed

lemma parse_number_round_trip_witness:
  "parse_number True (dec (-2048)) = (1, Some (-2048)) \<and> parse_number True (dec LONG_MAX) = (-1, None)"
  using parse_number_round_trip [of "-2048" True] parse_number_round_trip [of LONG_MAX True]
  by (simp add: LONG_MAX_def LONG_MIN_def)

text \<open>
  Whatever port the command line gives, the URL the server binds is the whole number behind the prefix: the
  buffer of 29 bytes is never too small. The port itself is not checked: any long is accepted.
\<close>

theorem server_url_is_whole:
  assumes "server_parse_options er opts default_server_options = Options o'"
  shows "tcp_url (so_port o') = url_prefix @ dec (so_port o')"
proof -
  have "so_port o' \<le> LONG_MAX \<and> LONG_MIN \<le> so_port o'"
    by (rule server_port_range [OF assms]) (simp add: default_server_options_def DEFAULT_PORT_def LONG_MAX_def LONG_MIN_def)
  then have "length (url_prefix @ dec (so_port o')) \<le> 28"
    using length_dec [of "so_port o'"] by (simp add: url_prefix_def)
  then show ?thesis by (simp add: tcp_url_def)
qed

lemma server_url_is_whole_witness: "tcp_url 2048 = url_prefix @ [0x32, 0x30, 0x34, 0x38]"
proof -
  have "dec 2048 = [0x32, 0x30, 0x34, 0x38]" by (simp add: dec_def dec_nat.simps)
  then show ?thesis
    using server_url_is_whole [of False "[]" default_server_options]
    by (simp add: default_server_options_def DEFAULT_PORT_def)
qed

end
