(* ===== verification/Chloros.thy ===== *)
theory Chloros
  imports Prelude "HOL-Library.Multiset"
begin

text \<open>
  The scheduler of the green threads of lab 1, \<open>lab1/src/chloros.cpp\<close>, on one kernel thread. The queue and
  the current thread are values; a thread that leaves the queue by a move is gone from it. A
  context switch is a transfer of control: what the thread that gets the processor does first
  depends on where it gave it up, which is the field \<open>point\<close> of the model's thread. The allocated
  stacks are kept in a list of their tops, so that freeing is visible.

  \<open>chl_step\<close> is the step relation of the library calls of the running thread, \<open>chl_reachable\<close> the
  states it can get to from \<open>Initialize\<close>, and \<open>chl_inv\<close> the invariant.
\<close>

section \<open>Threads\<close>

datatype State = kWaiting | kReady | kRunning | kZombie

text \<open>
  Where a thread that does not have the processor goes on: at its start, behind the context switch of a
  plain \<open>Yield\<close>, or behind that of the \<open>Yield\<close> in the loop of \<open>Wait\<close>. The current thread runs its
  own code or the loop of \<open>Wait\<close>.
\<close>

datatype point = Starts | Own_code | In_Wait

record Thread =
  thread_id :: u64
  thread_state :: State
  stack_top :: u64
  is_initial_kernel_thread :: bool
  point :: point

record chloros =
  next_id :: u64
  thread_queue :: "Thread list"
  current_thread :: Thread
  initial_thread_id :: u64
  stacks :: "u64 list"

text \<open>The constructor. \<open>stk\<close> is the end of the block that \<open>aligned_alloc\<close> returned.\<close>

definition new_Thread :: "u64 \<Rightarrow> u64 option \<Rightarrow> Thread" where
  "new_Thread n stk = \<lparr>thread_id = n, thread_state = kWaiting,
     stack_top = (case stk of None \<Rightarrow> 0 | Some a \<Rightarrow> a),
     is_initial_kernel_thread = False, point = Starts\<rparr>"

text \<open>The caller of \<open>Initialize\<close> becomes the current thread, in the state \<open>kWaiting\<close>.\<close>

definition Initialize :: "u64 \<Rightarrow> chloros" where
  "Initialize n = \<lparr>next_id = n + 1, thread_queue = [],
     current_thread = (new_Thread n None)\<lparr>thread_state := kWaiting, is_initial_kernel_thread := True,
       point := Own_code\<rparr>,
     initial_thread_id = n, stacks = []\<rparr>"

section \<open>Yield\<close>

text \<open>The condition of the loop that looks for a thread to run.\<close>

definition schedulable :: "bool \<Rightarrow> u64 \<Rightarrow> u64 \<Rightarrow> Thread \<Rightarrow> bool" where
  "schedulable only_ready cur_id init_id t \<longleftrightarrow>
     (thread_state t = kReady \<or> (thread_state t = kWaiting \<and> \<not> only_ready)) \<and>
     (cur_id \<noteq> init_id \<or> \<not> is_initial_kernel_thread t)"

text \<open>The first of them, and the queue without it.\<close>

fun take_first :: "('a \<Rightarrow> bool) \<Rightarrow> 'a list \<Rightarrow> ('a \<times> 'a list) option" where
  "take_first P [] = None"
| "take_first P (x # xs) =
     (if P x then Some (x, xs)
      else case take_first P xs of None \<Rightarrow> None | Some (y, ys) \<Rightarrow> Some (y, x # ys))"

definition is_zombie :: "Thread \<Rightarrow> bool" where
  "is_zombie t \<longleftrightarrow> thread_state t = kZombie"

text \<open>\<open>GarbageCollect\<close>: the zombies of the queue are destroyed, their stacks freed.\<close>

definition GarbageCollect :: "chloros \<Rightarrow> chloros" where
  "GarbageCollect s = s\<lparr>thread_queue := filter (\<lambda>t. \<not> is_zombie t) (thread_queue s),
     stacks := filter (\<lambda>a. a \<notin> stack_top ` set (filter is_zombie (thread_queue s))) (stacks s)\<rparr>"

text \<open>
  The locked section of \<open>Yield\<close>. \<open>p\<close> is where the thread that yields will go on. The result
  is nothing when there is no thread to yield to.
\<close>

definition yield_locked :: "bool \<Rightarrow> point \<Rightarrow> chloros \<Rightarrow> chloros option" where
  "yield_locked only_ready p s =
     (let prev_thread = current_thread s in
      case take_first (schedulable only_ready (thread_id prev_thread) (initial_thread_id s))
        (thread_queue s) of
        None \<Rightarrow> None
      | Some (next_thread, rest) \<Rightarrow>
          let prev' = prev_thread\<lparr>thread_state :=
                if thread_state prev_thread = kRunning then kReady else thread_state prev_thread,
                point := p\<rparr> in
          Some (s\<lparr>thread_queue := rest @ [prev'],
            current_thread := next_thread\<lparr>thread_state := kRunning\<rparr>\<rparr>))"

text \<open>
  What the thread that got the processor does first: a new thread enters its function, any other
  returns from its context switch and collects the zombies, and one in \<open>Wait\<close> sets its state.
\<close>

definition resume :: "chloros \<Rightarrow> chloros" where
  "resume s =
     (case point (current_thread s) of
        Starts \<Rightarrow> s\<lparr>current_thread := (current_thread s)\<lparr>point := Own_code\<rparr>\<rparr>
      | Own_code \<Rightarrow> GarbageCollect s
      | In_Wait \<Rightarrow> (let s' = GarbageCollect s in
          s'\<lparr>current_thread := (current_thread s')\<lparr>thread_state := kWaiting\<rparr>\<rparr>))"

text \<open>The result of \<open>Yield\<close>, and the state in which the next code of a thread runs.\<close>

definition Yield :: "bool \<Rightarrow> point \<Rightarrow> chloros \<Rightarrow> bool \<times> chloros" where
  "Yield only_ready p s =
     (case yield_locked only_ready p s of None \<Rightarrow> (False, s) | Some s' \<Rightarrow> (True, resume s'))"

section \<open>The other calls\<close>

text \<open>\<open>Spawn\<close> up to its \<open>Yield\<close>: the new thread is put at the front of the queue.\<close>

definition spawn_thread :: "u64 \<Rightarrow> chloros \<Rightarrow> chloros" where
  "spawn_thread stk s =
     (let new_thread = (new_Thread (next_id s) (Some stk))\<lparr>thread_state := kReady\<rparr> in
      s\<lparr>next_id := next_id s + 1, thread_queue := new_thread # thread_queue s,
        stacks := stk # stacks s\<rparr>)"

definition Spawn :: "u64 \<Rightarrow> chloros \<Rightarrow> chloros" where
  "Spawn stk s = snd (Yield True Own_code (spawn_thread stk s))"

definition set_state :: "State \<Rightarrow> point \<Rightarrow> chloros \<Rightarrow> chloros" where
  "set_state st p s = s\<lparr>current_thread := (current_thread s)\<lparr>thread_state := st, point := p\<rparr>\<rparr>"

text \<open>\<open>Wait\<close> up to its loop, and one test of the loop's condition.\<close>

definition Wait_enter :: "chloros \<Rightarrow> chloros" where
  "Wait_enter s = set_state kWaiting In_Wait s"

definition Wait_turn :: "chloros \<Rightarrow> bool \<times> chloros" where
  "Wait_turn s = (case Yield True In_Wait s of
     (False, s') \<Rightarrow> (False, set_state (thread_state (current_thread s')) Own_code s')
   | (True, s') \<Rightarrow> (True, s'))"

text \<open>The end of \<open>ThreadEntry\<close>; \<open>ASSERT(false)\<close> is reached when the result is \<open>False\<close>.\<close>

definition thread_exit :: "chloros \<Rightarrow> bool \<times> chloros" where
  "thread_exit s = Yield False Own_code (set_state kZombie Own_code s)"

definition GetThreadCount :: "chloros \<Rightarrow> nat \<times> nat" where
  "GetThreadCount s = (length (filter (\<lambda>t. \<not> is_zombie t) (thread_queue s)),
     length (filter is_zombie (thread_queue s)))"

section \<open>The transition system\<close>

text \<open>
  The calls a running thread can make. Only the initial thread calls \<open>Wait\<close>, as the interface
  demands, and only a spawned thread comes to the end of \<open>ThreadEntry\<close>. \<open>aligned_alloc\<close> returns a
  block that is not in use. The counter of the ids does not wrap: that takes \<open>2\<^sup>6\<^sup>4\<close> spawns.
\<close>

datatype call = Spawns u64 | Yields bool | Waits | Wait_tests | Exits_thread

inductive chl_step :: "chloros \<Rightarrow> call \<Rightarrow> chloros \<Rightarrow> bool" where
  spawn: "point (current_thread s) = Own_code \<Longrightarrow> stk \<notin> set (stacks s) \<Longrightarrow> next_id s \<noteq> -1 \<Longrightarrow>
    chl_step s (Spawns stk) (Spawn stk s)"
| yield: "point (current_thread s) = Own_code \<Longrightarrow> Yield b Own_code s = (r, s') \<Longrightarrow>
    chl_step s (Yields b) s'"
| wait: "point (current_thread s) = Own_code \<Longrightarrow> is_initial_kernel_thread (current_thread s) \<Longrightarrow>
    chl_step s Waits (Wait_enter s)"
| wait_turn: "point (current_thread s) = In_Wait \<Longrightarrow> Wait_turn s = (r, s') \<Longrightarrow>
    chl_step s Wait_tests s'"
| exit: "point (current_thread s) = Own_code \<Longrightarrow> \<not> is_initial_kernel_thread (current_thread s) \<Longrightarrow>
    thread_exit s = (r, s') \<Longrightarrow> chl_step s Exits_thread s'"

inductive chl_reachable :: "chloros \<Rightarrow> bool" where
  init: "n \<noteq> -1 \<Longrightarrow> chl_reachable (Initialize n)"
| step: "chl_reachable s \<Longrightarrow> chl_step s l s' \<Longrightarrow> chl_reachable s'"

section \<open>The invariant\<close>

text \<open>
  \<open>chl_inv\<close> holds whenever a thread runs its own code or the loop of \<open>Wait\<close>: all ids are different and
  below the counter; the initial thread is there and is the only one of its kind; only the current
  thread can be running; the queue has no zombie and no thread that has not started, and nobody
  waits in it but the initial thread; the allocated stacks are those of the spawned threads.
\<close>

definition all_threads :: "chloros \<Rightarrow> Thread list" where
  "all_threads s = current_thread s # thread_queue s"

definition spawned_stacks :: "Thread list \<Rightarrow> u64 list" where
  "spawned_stacks ts = map stack_top (filter (\<lambda>t. \<not> is_initial_kernel_thread t) ts)"

definition ids_ok :: "chloros \<Rightarrow> bool" where
  "ids_ok s \<longleftrightarrow> distinct (map thread_id (all_threads s)) \<and>
     (\<forall>t \<in> set (all_threads s). thread_id t < next_id s \<and>
       (is_initial_kernel_thread t \<longleftrightarrow> thread_id t = initial_thread_id s)) \<and>
     initial_thread_id s \<in> thread_id ` set (all_threads s)"

definition queued_ok :: "Thread \<Rightarrow> bool" where
  "queued_ok t \<longleftrightarrow> point t \<noteq> Starts \<and>
     (if is_initial_kernel_thread t then thread_state t \<in> {kReady, kWaiting} else thread_state t = kReady) \<and>
     (point t = In_Wait \<longrightarrow> is_initial_kernel_thread t)"

definition current_ok :: "Thread \<Rightarrow> bool" where
  "current_ok t \<longleftrightarrow> point t \<noteq> Starts \<and>
     (if is_initial_kernel_thread t then thread_state t \<in> {kRunning, kWaiting}
      else thread_state t = kRunning) \<and>
     (point t = In_Wait \<longrightarrow> is_initial_kernel_thread t)"

definition stacks_ok :: "chloros \<Rightarrow> bool" where
  "stacks_ok s \<longleftrightarrow> distinct (stacks s) \<and> distinct (spawned_stacks (all_threads s)) \<and>
     set (stacks s) = set (spawned_stacks (all_threads s))"

definition chl_inv :: "chloros \<Rightarrow> bool" where
  "chl_inv s \<longleftrightarrow> ids_ok s \<and> stacks_ok s \<and> current_ok (current_thread s) \<and>
     (\<forall>t \<in> set (thread_queue s). queued_ok t)"

lemmas chl_inv_defs = chl_inv_def ids_ok_def stacks_ok_def all_threads_def spawned_stacks_def

section \<open>Choosing a thread\<close>

lemma take_first_None: "take_first P xs = None \<longleftrightarrow> (\<forall>x \<in> set xs. \<not> P x)"
  by (induction xs) (auto split: option.splits)

lemma take_first_Some:
  "take_first P xs = Some (y, ys) \<Longrightarrow>
   \<exists>as bs. xs = as @ y # bs \<and> ys = as @ bs \<and> P y \<and> (\<forall>a \<in> set as. \<not> P a)"
proof (induction xs arbitrary: ys)
  case (Cons x xs)
  show ?case
  proof (cases "P x")
    case True
    with Cons.prems have "x # xs = [] @ y # ys \<and> ys = [] @ ys \<and> P y \<and> (\<forall>a \<in> set []. \<not> P a)" by simp
    then show ?thesis by blast
  next
    case False
    with Cons.prems obtain zs where zs: "take_first P xs = Some (y, zs)" "ys = x # zs"
      by (auto split: option.splits)
    from Cons.IH [OF zs(1)] obtain as bs where "xs = as @ y # bs" "zs = as @ bs" "P y" "\<forall>a \<in> set as. \<not> P a"
      by blast
    with zs(2) False have "x # xs = (x # as) @ y # bs \<and> ys = (x # as) @ bs \<and> P y \<and>
        (\<forall>a \<in> set (x # as). \<not> P a)" by simp
    then show ?thesis by blast
  qed
qed simp

text \<open>What the scheduling does not change about the threads.\<close>

definition key :: "Thread \<Rightarrow> u64 \<times> u64 \<times> bool" where
  "key t = (thread_id t, stack_top t, is_initial_kernel_thread t)"

lemma key_upd [simp]:
  "key (t\<lparr>thread_state := st\<rparr>) = key t" "key (t\<lparr>point := p\<rparr>) = key t"
  by (simp_all add: key_def)

definition keys_ok :: "u64 \<Rightarrow> u64 \<Rightarrow> u64 list \<Rightarrow> (u64 \<times> u64 \<times> bool) list \<Rightarrow> bool" where
  "keys_ok n i st ks \<longleftrightarrow> distinct (map fst ks) \<and> (\<forall>(x, a, b) \<in> set ks. x < n \<and> (b \<longleftrightarrow> x = i)) \<and>
     i \<in> fst ` set ks \<and>
     distinct st \<and> distinct (map (fst \<circ> snd) (filter (\<lambda>k. \<not> snd (snd k)) ks)) \<and>
     set st = (fst \<circ> snd) ` set (filter (\<lambda>k. \<not> snd (snd k)) ks)"

lemma keys_ok_iff:
  "ids_ok s \<and> stacks_ok s \<longleftrightarrow>
   keys_ok (next_id s) (initial_thread_id s) (stacks s) (map key (all_threads s))"
proof -
  have 1: "map fst (map key ts) = map thread_id ts" for ts
    by (simp add: key_def)
  have 2: "map (fst \<circ> snd) (filter (\<lambda>k. \<not> snd (snd k)) (map key ts)) = spawned_stacks ts" for ts
    by (simp add: spawned_stacks_def filter_map comp_def key_def)
  have 3: "(\<forall>(x, a, b) \<in> set (map key ts). x < n \<and> (b \<longleftrightarrow> x = i)) \<longleftrightarrow>
      (\<forall>t \<in> set ts. thread_id t < n \<and> (is_initial_kernel_thread t \<longleftrightarrow> thread_id t = i))" for ts n i
    by (auto simp: key_def)
  have 4: "fst ` set (map key ts) = thread_id ` set ts" for ts
    using arg_cong [OF 1 [of ts], of set] by (simp only: list.set_map)
  have 5: "(fst \<circ> snd) ` set (filter (\<lambda>k. \<not> snd (snd k)) (map key ts)) = set (spawned_stacks ts)" for ts
    using arg_cong [OF 2 [of ts], of set] by (simp only: list.set_map)
  show ?thesis
    unfolding keys_ok_def ids_ok_def stacks_ok_def 1 2 3 4 5 by blast
qed

lemma keys_ok_perm:
  assumes "mset ks = mset ks'"
  shows "keys_ok n i st ks = keys_ok n i st ks'"
proof -
  have s: "set ks = set ks'" using assms by (rule mset_eq_setD)
  have d: "mset (map f (filter P ks)) = mset (map f (filter P ks'))" for f :: "_ \<Rightarrow> u64" and P
    using assms by (simp add: mset_filter)
  have "distinct (map f (filter P ks)) = distinct (map f (filter P ks'))" for f :: "_ \<Rightarrow> u64" and P
    using d by (rule mset_eq_imp_distinct_iff)
  from this [of fst "\<lambda>_. True"] this [of "fst \<circ> snd" "\<lambda>k. \<not> snd (snd k)"] s show ?thesis
    by (simp add: keys_ok_def)
qed

lemma chl_inv_keys:
  "chl_inv s \<longleftrightarrow> keys_ok (next_id s) (initial_thread_id s) (stacks s) (map key (all_threads s)) \<and>
    current_ok (current_thread s) \<and> (\<forall>t \<in> set (thread_queue s). queued_ok t)"
  unfolding chl_inv_def keys_ok_iff [symmetric] by blast

text \<open>The locked section of \<open>Yield\<close>, seen from outside.\<close>

lemma yield_locked_Some:
  assumes "yield_locked b p s = Some s'"
  obtains as t bs where "thread_queue s = as @ t # bs"
    and "schedulable b (thread_id (current_thread s)) (initial_thread_id s) t"
    and "\<forall>a \<in> set as. \<not> schedulable b (thread_id (current_thread s)) (initial_thread_id s) a"
    and "s' = s\<lparr>thread_queue := as @ bs @ [(current_thread s)\<lparr>thread_state :=
        if thread_state (current_thread s) = kRunning then kReady else thread_state (current_thread s),
        point := p\<rparr>],
      current_thread := t\<lparr>thread_state := kRunning\<rparr>\<rparr>"
  using assms by (auto simp: yield_locked_def Let_def split: option.splits dest!: take_first_Some)

lemma yield_locked_keys:
  assumes "yield_locked b p s = Some s'"
  shows "mset (map key (all_threads s')) = mset (map key (all_threads s)) \<and> next_id s' = next_id s \<and>
    initial_thread_id s' = initial_thread_id s \<and> stacks s' = stacks s"
  using assms by (elim yield_locked_Some) (simp add: all_threads_def)

lemma GarbageCollect_none: "\<forall>t \<in> set (thread_queue s). \<not> is_zombie t \<Longrightarrow> GarbageCollect s = s"
proof -
  assume "\<forall>t \<in> set (thread_queue s). \<not> is_zombie t"
  then have "filter (\<lambda>t. \<not> is_zombie t) (thread_queue s) = thread_queue s"
    "filter is_zombie (thread_queue s) = []" by (simp_all add: filter_empty_conv)
  then show ?thesis by (simp add: GarbageCollect_def)
qed

lemma queued_not_zombie: "queued_ok t \<Longrightarrow> \<not> is_zombie t"
  by (auto simp: queued_ok_def is_zombie_def split: if_splits)

section \<open>The invariant is kept\<close>

text \<open>
  The thread that yields may be queued, and the thread chosen is not new; then \<open>resume\<close> restores the invariant.
\<close>

lemma yield_inv:
  assumes "chl_inv s" "p \<noteq> Starts" "p = In_Wait \<Longrightarrow> is_initial_kernel_thread (current_thread s)"
    and "yield_locked b p s = Some s'"
  shows "chl_inv (resume s') \<and> thread_queue (resume s') = thread_queue s'"
proof -
  from assms(4) obtain as t bs where y: "thread_queue s = as @ t # bs"
    "s' = s\<lparr>thread_queue := as @ bs @ [(current_thread s)\<lparr>thread_state :=
        if thread_state (current_thread s) = kRunning then kReady else thread_state (current_thread s),
        point := p\<rparr>],
      current_thread := t\<lparr>thread_state := kRunning\<rparr>\<rparr>" by (rule yield_locked_Some)
  have K: "keys_ok (next_id s') (initial_thread_id s') (stacks s') (map key (all_threads s'))"
    using assms(1) yield_locked_keys [OF assms(4)] keys_ok_perm by (fastforce simp: chl_inv_keys)
  have q: "\<forall>u \<in> set (thread_queue s'). queued_ok u"
    using assms(1-3) y by (auto simp: chl_inv_keys current_ok_def queued_ok_def split: if_splits)
  then have gc: "GarbageCollect s' = s'" by (simp add: GarbageCollect_none queued_not_zombie)
  have t: "queued_ok t" using assms(1) y(1) by (simp add: chl_inv_keys)
  let ?t = "t\<lparr>thread_state := if point t = In_Wait then kWaiting else kRunning\<rparr>"
  have r: "resume s' = s'\<lparr>current_thread := ?t\<rparr>"
    using t gc y(2) by (cases "point t") (simp_all add: resume_def queued_ok_def Let_def)
  have "map key (all_threads (resume s')) = map key (all_threads s')"
    unfolding r by (simp add: y(2) all_threads_def)
  moreover have "current_ok ?t" using t by (auto simp: current_ok_def queued_ok_def split: if_splits)
  ultimately show ?thesis using K q by (simp add: chl_inv_keys r)
qed

lemma id_below:
  fixes n :: u64
  assumes "n \<noteq> -1"
  shows "x \<le> n \<Longrightarrow> x < n + 1"
proof -
  show "x \<le> n \<Longrightarrow> x < n + 1"
    using assms inc_less_eq_iff [of n x] by (metis linorder_not_le)
qed

lemma keys_ok_spawn:
  assumes "keys_ok n i st ks" "n \<noteq> -1" "stk \<notin> set st"
  shows "keys_ok (n + 1) i (stk # st) ((n, stk, False) # ks)"
proof -
  have below: "fst k < n" "snd (snd k) \<longleftrightarrow> fst k = i" if "k \<in> set ks" for k
    using assms(1) that by (cases k; force simp: keys_ok_def)+
  have i: "i \<in> fst ` set ks" "i \<noteq> n" using assms(1) below by (auto simp: keys_ok_def)
  have 1: "\<forall>(x, a, b) \<in> set ((n, stk, False) # ks). x < n + 1 \<and> (b \<longleftrightarrow> x = i)"
  proof
    fix k assume k: "k \<in> set ((n, stk, False) # ks)"
    show "case k of (x, a, b) \<Rightarrow> x < n + 1 \<and> (b \<longleftrightarrow> x = i)"
    proof (cases "k \<in> set ks")
      case True
      with below [OF True] id_below [OF assms(2), of "fst k"] show ?thesis by (cases k) simp
    next
      case False
      with k i(2) id_below [OF assms(2), of n] show ?thesis by simp
    qed
  qed
  have 2: "distinct (map fst ((n, stk, False) # ks))"
    using assms(1) below(1) by (fastforce simp: keys_ok_def)
  show ?thesis
    using assms(1,3) i(1) unfolding keys_ok_def
    by (intro conjI 1 2) simp_all
qed

text \<open>\<open>Spawn\<close> always runs the new thread: it is ready, at the front, and not an initial thread.\<close>

lemma Spawn_eq:
  "Spawn stk s = s\<lparr>next_id := next_id s + 1, stacks := stk # stacks s,
     thread_queue := thread_queue s @ [(current_thread s)\<lparr>thread_state :=
       if thread_state (current_thread s) = kRunning then kReady else thread_state (current_thread s),
       point := Own_code\<rparr>],
     current_thread := (new_Thread (next_id s) (Some stk))\<lparr>thread_state := kRunning, point := Own_code\<rparr>\<rparr>"
  by (simp add: Spawn_def Yield_def yield_locked_def spawn_thread_def resume_def new_Thread_def
      schedulable_def Let_def)

lemma spawn_inv:
  assumes "chl_inv s" "point (current_thread s) = Own_code" "stk \<notin> set (stacks s)" "next_id s \<noteq> -1"
  shows "chl_inv (Spawn stk s)"
proof -
  let ?new = "(new_Thread (next_id s) (Some stk))\<lparr>thread_state := kReady\<rparr>"
  let ?cur = "(current_thread s)\<lparr>thread_state :=
      if thread_state (current_thread s) = kRunning then kReady else thread_state (current_thread s),
      point := Own_code\<rparr>"
  note S = Spawn_eq [of stk s]
  have "keys_ok (next_id s + 1) (initial_thread_id s) (stk # stacks s) (key ?new # map key (all_threads s))"
    using keys_ok_spawn [OF _ assms(4,3)] assms(1) by (simp add: chl_inv_keys key_def new_Thread_def)
  moreover have "mset (map key (all_threads (Spawn stk s))) = mset (key ?new # map key (all_threads s))"
    by (simp add: S all_threads_def)
  ultimately have "keys_ok (next_id s + 1) (initial_thread_id s) (stk # stacks s)
      (map key (all_threads (Spawn stk s)))"
    using keys_ok_perm by blast
  moreover have "queued_ok ?cur" "\<forall>t \<in> set (thread_queue s). queued_ok t"
    using assms(1,2) by (auto simp: chl_inv_keys current_ok_def queued_ok_def split: if_splits)
  ultimately show ?thesis
    unfolding chl_inv_keys by (simp add: S) (simp add: current_ok_def new_Thread_def)
qed

lemma keys_ok_exit:
  assumes "keys_ok n i st ((x, a, False) # ks)"
  shows "keys_ok n i (filter (\<lambda>b. b \<noteq> a) st) ks"
proof -
  have "set st = insert a ((fst \<circ> snd) ` set (filter (\<lambda>k. \<not> snd (snd k)) ks))"
    "a \<notin> (fst \<circ> snd) ` set (filter (\<lambda>k. \<not> snd (snd k)) ks)"
    using assms by (auto simp: keys_ok_def)
  then have 1: "set (filter (\<lambda>b. b \<noteq> a) st) = (fst \<circ> snd) ` set (filter (\<lambda>k. \<not> snd (snd k)) ks)" by auto
  have "x \<noteq> i" using assms by (auto simp: keys_ok_def)
  with assms have 2: "i \<in> fst ` set ks" by (auto simp: keys_ok_def)
  show ?thesis
    unfolding keys_ok_def by (intro conjI 1 2) (use assms in \<open>simp_all add: keys_ok_def\<close>)
qed

text \<open>
  A spawned thread that ends always finds the initial thread in the queue, so its last \<open>Yield\<close> succeeds;
  the thread that gets the processor destroys it.
\<close>

lemma chl_invD:
  assumes "chl_inv s"
  shows "t \<in> set (all_threads s) \<Longrightarrow> is_initial_kernel_thread t \<longleftrightarrow> thread_id t = initial_thread_id s"
    and "\<exists>t \<in> set (all_threads s). thread_id t = initial_thread_id s"
    and "distinct (map thread_id (all_threads s))"
    and "t \<in> set (thread_queue s) \<Longrightarrow> queued_ok t"
    and "current_ok (current_thread s)"
  using assms by (auto simp: chl_inv_def ids_ok_def)

lemma in_all_threads [simp]:
  "current_thread s \<in> set (all_threads s)" "t \<in> set (thread_queue s) \<Longrightarrow> t \<in> set (all_threads s)"
  by (simp_all add: all_threads_def)

lemma queue_not_current:
  assumes "chl_inv s" "t \<in> set (thread_queue s)"
  shows "thread_id t \<noteq> thread_id (current_thread s)"
  using chl_invD(3) [OF assms(1)] imageI [OF assms(2), of thread_id]
  by (simp add: all_threads_def) metis

lemma initial_in_queue:
  assumes "chl_inv s" "\<not> is_initial_kernel_thread (current_thread s)"
  shows "\<exists>t \<in> set (thread_queue s). is_initial_kernel_thread t \<and> thread_state t \<in> {kReady, kWaiting}"
    and "thread_id (current_thread s) \<noteq> initial_thread_id s"
proof -
  show c: "thread_id (current_thread s) \<noteq> initial_thread_id s"
    using assms chl_invD(1) [OF assms(1), of "current_thread s"] by simp
  obtain t where t: "t \<in> set (all_threads s)" "thread_id t = initial_thread_id s"
    using chl_invD(2) [OF assms(1)] by blast
  with c have q: "t \<in> set (thread_queue s)" by (auto simp: all_threads_def)
  have "is_initial_kernel_thread t" using chl_invD(1) [OF assms(1) t(1)] t(2) by blast
  moreover from this have "thread_state t \<in> {kReady, kWaiting}"
    using chl_invD(4) [OF assms(1) q] by (simp add: queued_ok_def)
  ultimately show "\<exists>t \<in> set (thread_queue s). is_initial_kernel_thread t \<and> thread_state t \<in> {kReady, kWaiting}"
    using q by blast
qed

lemma exit_inv:
  assumes "chl_inv s" "\<not> is_initial_kernel_thread (current_thread s)"
  shows "\<exists>s'. thread_exit s = (True, s') \<and> chl_inv s' \<and>
    mset (map thread_id (thread_queue s)) = mset (map thread_id (all_threads s'))"
proof -
  let ?z = "set_state kZombie Own_code s"
  have z: "thread_queue ?z = thread_queue s" "thread_id (current_thread ?z) = thread_id (current_thread s)"
      "initial_thread_id ?z = initial_thread_id s" "stacks ?z = stacks s" "next_id ?z = next_id s"
    by (simp_all add: set_state_def)
  have "yield_locked False Own_code ?z \<noteq> None"
    using initial_in_queue [OF assms]
    by (auto simp: yield_locked_def z take_first_None schedulable_def Let_def split: option.splits)
  then obtain s1 where s1: "yield_locked False Own_code ?z = Some s1" by blast
  then obtain as t bs where y: "thread_queue s = as @ t # bs"
    "s1 = ?z\<lparr>thread_queue := as @ bs @ [(current_thread s)\<lparr>thread_state := kZombie, point := Own_code\<rparr>],
      current_thread := t\<lparr>thread_state := kRunning\<rparr>\<rparr>"
    by (rule yield_locked_Some) (simp add: set_state_def)
  have q: "queued_ok t" "\<forall>u \<in> set (as @ bs). queued_ok u" using assms(1) y(1) by (auto simp: chl_inv_def)
  then have nz: "\<forall>u \<in> set (as @ bs). \<not> is_zombie u" by (simp add: queued_not_zombie)
  then have f: "filter (\<lambda>u. \<not> is_zombie u) as = as" "filter (\<lambda>u. \<not> is_zombie u) bs = bs"
      "filter is_zombie as = []" "filter is_zombie bs = []" by (simp_all add: filter_empty_conv)
  have gc: "GarbageCollect s1 = s\<lparr>thread_queue := as @ bs, current_thread := t\<lparr>thread_state := kRunning\<rparr>,
      stacks := filter (\<lambda>a. a \<noteq> stack_top (current_thread s)) (stacks s)\<rparr>"
    by (simp add: GarbageCollect_def y(2) f z) (simp add: is_zombie_def set_state_def)
  let ?t = "t\<lparr>thread_state := if point t = In_Wait then kWaiting else kRunning\<rparr>"
  have cur: "current_thread s1 = t\<lparr>thread_state := kRunning\<rparr>" by (simp add: y(2))
  have r: "resume s1 = s\<lparr>thread_queue := as @ bs, current_thread := ?t,
      stacks := filter (\<lambda>a. a \<noteq> stack_top (current_thread s)) (stacks s)\<rparr>"
    using q(1) by (cases "point t") (simp_all add: resume_def gc cur queued_ok_def Let_def)
  have "key (current_thread s) = (thread_id (current_thread s), stack_top (current_thread s), False)"
    using assms(2) by (simp add: key_def)
  with assms(1) have "keys_ok (next_id s) (initial_thread_id s) (filter (\<lambda>a. a \<noteq> stack_top (current_thread s)) (stacks s))
      (map key (thread_queue s))"
    by (auto simp: chl_inv_keys all_threads_def intro: keys_ok_exit)
  moreover have m: "mset (map g (all_threads (resume s1))) = mset (map g (thread_queue s))"
    if "g ?t = g t" for g :: "Thread \<Rightarrow> 'a"
    using that by (simp add: r y(1) all_threads_def)
  ultimately have "keys_ok (next_id s) (initial_thread_id s) (filter (\<lambda>a. a \<noteq> stack_top (current_thread s)) (stacks s))
      (map key (all_threads (resume s1)))"
    using keys_ok_perm [OF m [of key]] by simp
  moreover have "current_ok ?t" using q(1) by (auto simp: current_ok_def queued_ok_def split: if_splits)
  ultimately have "chl_inv (resume s1)"
    using q(2) unfolding chl_inv_keys by (simp add: r)
  moreover have "thread_exit s = (True, resume s1)"
    by (simp add: thread_exit_def Yield_def s1)
  ultimately show ?thesis using m [of thread_id] by simp
qed

lemma wait_inv:
  assumes "chl_inv s" "is_initial_kernel_thread (current_thread s)"
  shows "chl_inv (Wait_enter s)"
proof -
  have "map key (all_threads (Wait_enter s)) = map key (all_threads s)"
    by (simp add: all_threads_def Wait_enter_def set_state_def key_def)
  with assms show ?thesis
    unfolding chl_inv_keys by (simp add: Wait_enter_def set_state_def current_ok_def)
qed

lemma wait_turn_inv:
  assumes "chl_inv s" "point (current_thread s) = In_Wait"
  shows "chl_inv (snd (Wait_turn s))"
proof -
  have i: "is_initial_kernel_thread (current_thread s)"
    using assms by (simp add: chl_inv_def current_ok_def)
  show ?thesis
  proof (cases "yield_locked True In_Wait s")
    case None
    let ?s = "set_state (thread_state (current_thread s)) Own_code s"
    have "map key (all_threads ?s) = map key (all_threads s)"
      by (simp add: all_threads_def set_state_def key_def)
    moreover have "current_ok (current_thread ?s)"
      using chl_invD(5) [OF assms(1)] by (auto simp: set_state_def current_ok_def split: if_splits)
    ultimately have "chl_inv ?s"
      using assms(1) unfolding chl_inv_keys by (simp add: set_state_def)
    with None show ?thesis by (simp add: Wait_turn_def Yield_def)
  next
    case (Some s')
    with yield_inv [OF assms(1) _ i Some] show ?thesis by (simp add: Wait_turn_def Yield_def)
  qed
qed

lemma step_inv:
  assumes "chl_step s l s'" "chl_inv s"
  shows "chl_inv s'"
  using assms
proof (cases rule: chl_step.cases)
  case (spawn stk)
  with assms(2) show ?thesis by (simp add: spawn_inv)
next
  case (yield b r)
  with yield_inv [OF assms(2), of Own_code b] assms(2) show ?thesis
    by (auto simp: Yield_def split: option.splits)
next
  case wait
  with assms(2) show ?thesis by (simp add: wait_inv)
next
  case (wait_turn r)
  with wait_turn_inv [OF assms(2)] show ?thesis by simp
next
  case (exit r)
  with exit_inv [OF assms(2)] show ?thesis by auto
qed

lemma init_inv:
  assumes "n \<noteq> -1"
  shows "chl_inv (Initialize n)"
proof -
  have "n < n + 1" using id_below [OF assms, of n] by simp
  then show ?thesis by (simp add: chl_inv_defs Initialize_def new_Thread_def current_ok_def)
qed

lemma reachable_chl_inv: "chl_reachable s \<Longrightarrow> chl_inv s"
  by (induction rule: chl_reachable.induct) (auto intro: init_inv step_inv)

section \<open>Waiting\<close>

text \<open>When the initial thread is the current one, all others are ready.\<close>

lemma wait_ends_empty:
  assumes "chl_inv s" "is_initial_kernel_thread (current_thread s)" "yield_locked True p s = None"
  shows "thread_queue s = []"
proof (rule ccontr)
  assume "thread_queue s \<noteq> []"
  then obtain t where t: "t \<in> set (thread_queue s)" by (meson last_in_set)
  have "thread_id t \<noteq> thread_id (current_thread s)"
    using queue_not_current [OF assms(1) t] .
  then have "\<not> is_initial_kernel_thread t"
    using chl_invD(1) [OF assms(1), of t] chl_invD(1) [OF assms(1), of "current_thread s"] assms(2) t by simp
  moreover have "queued_ok t" using chl_invD(4) [OF assms(1) t] .
  ultimately have "\<not> is_initial_kernel_thread t \<and> queued_ok t" by blast
  then have "schedulable True (thread_id (current_thread s)) (initial_thread_id s) t"
    by (simp add: schedulable_def queued_ok_def)
  with assms(3) t show False
    by (auto simp: yield_locked_def take_first_None Let_def split: option.splits)
qed

section \<open>Fairness\<close>

text \<open>
  \<open>waits_for x s n m s'\<close>: the program goes from \<open>s\<close> to \<open>s'\<close> with \<open>n\<close> successful yields, those that \<open>Spawn\<close>, \<open>Wait\<close> and the end of a
  thread make included, and \<open>m\<close> calls of \<open>Spawn\<close>, the thread \<open>x\<close> never being the current one.
\<close>

fun switches :: "call \<Rightarrow> chloros \<Rightarrow> nat" where
  "switches (Spawns stk) s = (if yield_locked True Own_code (spawn_thread stk s) = None then 0 else 1)"
| "switches (Yields b) s = (if yield_locked b Own_code s = None then 0 else 1)"
| "switches Waits s = 0"
| "switches Wait_tests s = (if yield_locked True In_Wait s = None then 0 else 1)"
| "switches Exits_thread s = (if yield_locked False Own_code (set_state kZombie Own_code s) = None then 0 else 1)"

fun spawns :: "call \<Rightarrow> nat" where
  "spawns (Spawns _) = 1"
| "spawns _ = 0"

inductive waits_for :: "u64 \<Rightarrow> chloros \<Rightarrow> nat \<Rightarrow> nat \<Rightarrow> chloros \<Rightarrow> bool" where
  here: "thread_id (current_thread s) \<noteq> x \<Longrightarrow> waits_for x s 0 0 s"
| later: "waits_for x s n m s' \<Longrightarrow> chl_step s' l s'' \<Longrightarrow> thread_id (current_thread s'') \<noteq> x \<Longrightarrow>
    waits_for x s (n + switches l s') (m + spawns l) s''"

definition before :: "u64 \<Rightarrow> Thread list \<Rightarrow> nat" where
  "before x ts = length (takeWhile (\<lambda>t. thread_id t \<noteq> x) ts)"

lemma before_simps [simp]:
  "before x [] = 0" "before x (t # ts) = (if thread_id t = x then 0 else Suc (before x ts))"
  by (simp_all add: before_def)

lemma before_append:
  "before x (as @ bs) = (if x \<in> thread_id ` set as then before x as else length as + before x bs)"
  by (induction as) auto

lemma before_filter: "\<forall>u \<in> set q. thread_id u = x \<longrightarrow> P u \<Longrightarrow> before x (filter P q) \<le> before x q"
  by (induction q) auto

text \<open>The thread \<open>x\<close> of the queue can be chosen by anybody.\<close>

definition queued :: "u64 \<Rightarrow> chloros \<Rightarrow> bool" where
  "queued x s \<longleftrightarrow> x \<noteq> initial_thread_id s \<and> x \<in> thread_id ` set (thread_queue s)"

lemma queued_ready:
  assumes "chl_inv s" "queued x s" "u \<in> set (thread_queue s)" "thread_id u = x"
  shows "schedulable b c i u" "\<not> is_zombie u"
proof -
  have "\<not> is_initial_kernel_thread u" "queued_ok u"
    using chl_invD(1,4) [OF assms(1)] assms(2-4) by (simp_all add: queued_def)
  then show "schedulable b c i u" "\<not> is_zombie u"
    by (simp_all add: schedulable_def queued_ok_def is_zombie_def)
qed

lemma yield_before:
  assumes "chl_inv s" "queued x s" "thread_queue s0 = thread_queue s" "initial_thread_id s0 = initial_thread_id s"
    and "yield_locked b p s0 = Some s1" "thread_id (current_thread s1) \<noteq> x"
  shows "x \<in> thread_id ` set (thread_queue s1) \<and> before x (thread_queue s1) + 1 = before x (thread_queue s) \<and>
    initial_thread_id s1 = initial_thread_id s"
proof -
  from assms(5) obtain as t bs c where y: "thread_queue s0 = as @ t # bs"
    "\<forall>a \<in> set as. \<not> schedulable b (thread_id (current_thread s0)) (initial_thread_id s0) a"
    "thread_queue s1 = as @ bs @ [c]" "thread_id (current_thread s1) = thread_id t"
    "initial_thread_id s1 = initial_thread_id s0"
    by (elim yield_locked_Some) auto
  have "x \<notin> thread_id ` set as"
  proof
    assume "x \<in> thread_id ` set as"
    then obtain u where "u \<in> set as" "thread_id u = x" by blast
    moreover from this queued_ready(1) [OF assms(1,2)] y(1) assms(3)
    have "schedulable b (thread_id (current_thread s0)) (initial_thread_id s0) u" by simp
    ultimately show False using y(2) by blast
  qed
  moreover have "x \<in> thread_id ` set (as @ t # bs)" using assms(2,3) y(1) by (simp add: queued_def)
  moreover have q: "thread_queue s = as @ t # bs" using assms(3) y(1) by simp
  ultimately show ?thesis
    using assms(4,6) y(3-5) by (auto simp: q before_append)
qed

lemma resume_before:
  assumes "x \<in> thread_id ` set (thread_queue s)" "\<forall>u \<in> set (thread_queue s). thread_id u = x \<longrightarrow> \<not> is_zombie u"
  shows "x \<in> thread_id ` set (thread_queue (resume s)) \<and>
    before x (thread_queue (resume s)) \<le> before x (thread_queue s) \<and>
    initial_thread_id (resume s) = initial_thread_id s \<and>
    thread_id (current_thread (resume s)) = thread_id (current_thread s)"
  using assms before_filter [of "thread_queue s" x "\<lambda>t. \<not> is_zombie t"]
  by (auto simp: resume_def GarbageCollect_def Let_def split: point.splits)

lemma Yield_before:
  assumes "chl_inv s" "queued x s" "thread_queue s0 = thread_queue s" "initial_thread_id s0 = initial_thread_id s"
    and "Yield b p s0 = (True, s')" "thread_id (current_thread s') \<noteq> x"
    and "thread_id (current_thread s0) \<noteq> x"
  shows "queued x s' \<and> before x (thread_queue s') + 1 \<le> before x (thread_queue s)"
proof -
  from assms(5) obtain s1 where s1: "yield_locked b p s0 = Some s1" "s' = resume s1"
    by (auto simp: Yield_def split: option.splits)
  have c: "thread_id (current_thread s1) \<noteq> x"
    using assms(6) by (simp add: s1(2) resume_def GarbageCollect_def Let_def split: point.splits)
  note y = yield_before [OF assms(1-4) s1(1) c]
  have "\<forall>u \<in> set (thread_queue s1). thread_id u = x \<longrightarrow> \<not> is_zombie u"
  proof (intro ballI impI)
    fix u assume u: "u \<in> set (thread_queue s1)" "thread_id u = x"
    from s1(1) have "set (thread_queue s1) \<subseteq> insert (last (thread_queue s1)) (set (thread_queue s0)) \<and>
        thread_id (last (thread_queue s1)) = thread_id (current_thread s0)"
      by (elim yield_locked_Some) auto
    with u assms(7) have "u \<in> set (thread_queue s)" using assms(3) by auto
    with queued_ready(2) [OF assms(1,2)] u(2) show "\<not> is_zombie u" by blast
  qed
  with y resume_before [of x s1] assms(2) show ?thesis by (auto simp: s1(2) queued_def)
qed

lemma step_before:
  assumes "chl_inv s" "queued x s" "chl_step s l s'" "thread_id (current_thread s') \<noteq> x"
  shows "queued x s' \<and> before x (thread_queue s') + switches l s \<le> before x (thread_queue s) + spawns l"
proof -
  have "x \<in> thread_id ` set (thread_queue s)" using assms(2) by (simp add: queued_def)
  then have c: "thread_id (current_thread s) \<noteq> x"
    using queue_not_current [OF assms(1)] by force
  show ?thesis
    using assms(3)
  proof (cases rule: chl_step.cases)
    case (spawn stk)
    with assms(2) show ?thesis by (simp add: Spawn_eq queued_def before_append)
  next
    case (yield b r)
    show ?thesis
    proof (cases r)
      case True
      with yield Yield_before [OF assms(1,2) refl refl _ assms(4) c] show ?thesis
        by (auto simp: Yield_def split: option.splits)
    next
      case False
      with yield assms(2) show ?thesis by (auto simp: Yield_def split: option.splits)
    qed
  next
    case wait
    with assms(2) show ?thesis by (simp add: Wait_enter_def set_state_def queued_def)
  next
    case (wait_turn r)
    show ?thesis
    proof (cases "yield_locked True In_Wait s")
      case None
      with wait_turn assms(2) show ?thesis
        by (auto simp: Wait_turn_def Yield_def set_state_def queued_def)
    next
      case (Some s1)
      with wait_turn have "Yield True In_Wait s = (True, s')" by (simp add: Wait_turn_def Yield_def)
      from Yield_before [OF assms(1,2) refl refl this assms(4) c] wait_turn Some show ?thesis by simp
    qed
  next
    case (exit r)
    with exit_inv [OF assms(1)] have "Yield False Own_code (set_state kZombie Own_code s) = (True, s')"
      by (auto simp: thread_exit_def)
    from Yield_before [OF assms(1,2) _ _ this assms(4)] exit c show ?thesis by (simp add: set_state_def)
  qed
qed

lemma waits_for_bound:
  assumes "waits_for x s n m s'" "chl_inv s" "queued x s"
  shows "chl_inv s' \<and> queued x s' \<and> n + before x (thread_queue s') \<le> before x (thread_queue s) + m"
  using assms
proof (induction rule: waits_for.induct)
  case (here s x)
  then show ?case by simp
next
  case (later x s n m s' l s'')
  then have "chl_inv s'" "queued x s'" "n + before x (thread_queue s') \<le> before x (thread_queue s) + m" by auto
  with step_before [OF this(1,2) later.hyps(2,3)] step_inv [OF later.hyps(2) this(1)] show ?case
    by auto
qed

text \<open>Spawning does starve the queue: a thread in it stays where it is.\<close>

lemma spawn_starves:
  assumes "queued x s"
  shows "queued x (Spawn stk s) \<and> before x (thread_queue (Spawn stk s)) = before x (thread_queue s) \<and> switches (Spawns stk) s = 1"
  using assms
  by (simp add: Spawn_eq queued_def before_append)
    (simp add: yield_locked_def spawn_thread_def new_Thread_def schedulable_def Let_def)

end
