(* ===== verification/Chloros_Context.thy ===== *)
theory Chloros_Context
  imports Prelude
begin

text \<open>
  The context switch of lab 1, \<open>lab1/src/context_switch.S\<close>, on the registers it touches, and the first stack
  of a thread, which \<open>Spawn\<close> of \<open>lab1/src/chloros.cpp\<close> lays out for it. Memory is a
  function from the address of an eight-byte cell to its value; the code only makes aligned accesses of eight
  bytes to the stack.
\<close>

record Context =
  rsp :: u64
  r15 :: u64
  r14 :: u64
  r13 :: u64
  r12 :: u64
  rbx :: u64
  rbp :: u64
  mxcsr :: u32
  x87 :: u32

text \<open>
  The processor: the registers of a context, the registers of the first two arguments, the instruction
  pointer and the memory. The x87 control word has sixteen bits.
\<close>

record cpu =
  gp :: Context
  control_word :: "16 word"
  rdi :: u64
  rsi :: u64
  rip :: u64
  cells :: "u64 \<Rightarrow> u64"

section \<open>context_switch\<close>

text \<open>\<open>fnstcw\<close> stores two bytes: the upper half of the field \<open>x87\<close> keeps what it held.\<close>

definition save_context :: "cpu \<Rightarrow> Context \<Rightarrow> Context" where
  "save_context c old = (gp c)\<lparr>x87 := (x87 old AND NOT (mask 16)) OR ucast (control_word c)\<rparr>"

definition load_context :: "Context \<Rightarrow> cpu \<Rightarrow> cpu" where
  "load_context new c = c\<lparr>gp := new, control_word := ucast (x87 new)\<rparr>"

definition pop_rip :: "cpu \<Rightarrow> cpu" where
  "pop_rip c = c\<lparr>rip := cells c (rsp (gp c)), gp := (gp c)\<lparr>rsp := rsp (gp c) + 8\<rparr>\<rparr>"

text \<open>The two contexts are those of two threads. The result is the first one and the processor.\<close>

definition context_switch :: "Context \<Rightarrow> Context \<Rightarrow> cpu \<Rightarrow> Context \<times> cpu" where
  "context_switch old_context new_context c =
     (save_context c old_context, pop_rip (load_context new_context c))"

section \<open>A new thread\<close>

definition push :: "u64 \<Rightarrow> cpu \<Rightarrow> cpu" where
  "push v c = (let a = rsp (gp c) - 8 in
     c\<lparr>cells := (cells c)(a := v), gp := (gp c)\<lparr>rsp := a\<rparr>\<rparr>)"

text \<open>
  \<open>start_thread\<close> up to its call of \<open>thread_entry\<close>; \<open>here\<close> is the address behind the call.
\<close>

definition start_thread :: "u64 \<Rightarrow> u64 \<Rightarrow> cpu \<Rightarrow> cpu" where
  "start_thread thread_entry here c =
     (let c1 = push (rbp (gp c)) c;
          c2 = c1\<lparr>gp := (gp c1)\<lparr>rbp := rsp (gp c1)\<rparr>\<rparr>;
          c3 = c2\<lparr>rdi := cells c2 (rbp (gp c2) + 8)\<rparr>;
          c4 = c3\<lparr>rsi := cells c3 (rbp (gp c3) + 16)\<rparr>
      in (push here c4)\<lparr>rip := thread_entry\<rparr>)"

text \<open>
  The constructor's control registers, and what \<open>Spawn\<close> writes below the top of the new stack; the
  address of the last of it is the new thread's stack pointer. The other registers are zero.
\<close>

definition initial_context :: Context where
  "initial_context = \<lparr>rsp = 0, r15 = 0, r14 = 0, r13 = 0, r12 = 0, rbx = 0, rbp = 0,
     mxcsr = 0x1F80, x87 = 0x037F\<rparr>"

definition lay_stack ::
    "u64 \<Rightarrow> u64 \<Rightarrow> u64 \<Rightarrow> u64 \<Rightarrow> (u64 \<Rightarrow> u64) \<Rightarrow> Context \<times> (u64 \<Rightarrow> u64)" where
  "lay_stack stack fn arg start m =
     (let offset = 8;
          current_rsp = stack - 2 * offset; m1 = m(current_rsp := arg);
          current_rsp2 = current_rsp - offset; m2 = m1(current_rsp2 := fn);
          current_rsp3 = current_rsp2 - offset; m3 = m2(current_rsp3 := start)
      in (initial_context\<lparr>rsp := current_rsp3\<rparr>, m3))"

section \<open>Correctness\<close>

lemma ucast_word16 [simp]:
  fixes w :: "16 word" and v :: u32
  shows "ucast ((v AND NOT (mask 16)) OR (ucast w :: u32)) = w"
  by (rule bit_word_eqI) (simp add: bit_simps)

text \<open>Switching away and back, whatever the others did to the registers.\<close>

lemma switch_back:
  assumes "context_switch old new c = (saved, c')"
    and "cells d (rsp (gp c)) = cells c (rsp (gp c))"
    and "context_switch other saved d = (x, d')"
  shows "gp d' = (gp c)\<lparr>rsp := rsp (gp c) + 8, x87 := x87 saved\<rparr>"
    and "control_word d' = control_word c" and "rip d' = cells c (rsp (gp c))"
  using assms by (auto simp: context_switch_def save_context_def load_context_def pop_rip_def)

lemma start_entry:
  assumes "lay_stack stack fn arg start m = (ctx, m')" "cells c = m'"
  shows "rip (snd (context_switch old ctx c)) = start"
    and "rdi (start_thread te here (snd (context_switch old ctx c))) = fn"
    and "rsi (start_thread te here (snd (context_switch old ctx c))) = arg"
    and "rsp (gp (start_thread te here (snd (context_switch old ctx c)))) = stack - 40"
    and "a \<notin> {stack - 16, stack - 24, stack - 32, stack - 40} \<Longrightarrow>
      cells (start_thread te here (snd (context_switch old ctx c))) a = m a"
proof -
  have "cells c = m(stack - 16 := arg, stack - 24 := fn, stack - 32 := start)"
    "ctx = initial_context\<lparr>rsp := stack - 32\<rparr>"
    using assms by (auto simp: lay_stack_def Let_def)
  then show "rip (snd (context_switch old ctx c)) = start"
    "rdi (start_thread te here (snd (context_switch old ctx c))) = fn"
    "rsi (start_thread te here (snd (context_switch old ctx c))) = arg"
    "rsp (gp (start_thread te here (snd (context_switch old ctx c)))) = stack - 40"
    "a \<notin> {stack - 16, stack - 24, stack - 32, stack - 40} \<Longrightarrow>
      cells (start_thread te here (snd (context_switch old ctx c))) a = m a"
    by (simp_all add: context_switch_def load_context_def pop_rip_def start_thread_def push_def Let_def)
qed

end
