(* ===== verification/Chloros_Cores.thy ===== *)
theory Chloros_Cores
  imports Chloros
begin

text \<open>
  The scheduler of lab 1 on several kernel threads. Each has its own current thread and initial thread; the
  queue and the counter are shared under a lock. \<open>Yield\<close> releases the lock before it switches
  contexts, so that its locked section and the switch are two events, and events of
  other kernel threads can come between them.

  The events are those of \<open>Initialize\<close>, \<open>Spawn\<close>, \<open>Yield\<close> and \<open>ThreadEntry\<close>. They are enough to show two
  things the code does not prevent: a kernel thread runs the initial thread of another one, and
  two kernel threads run on the same stack.
\<close>

text \<open>
  \<open>left_id\<close> is the thread that the kernel thread has put into the queue while it still runs on that
  thread's stack and its context is not saved.
\<close>

record kernel =
  k_current :: Thread
  k_initial_id :: u64
  left_id :: "u64 option"

record cores =
  shared_next_id :: u64
  shared_queue :: "Thread list"
  kernels :: "nat \<rightharpoonup> kernel"

datatype kevent = KInitialize | KSpawn u64 | KYield bool | KSwitch | KExit

text \<open>The kernel thread's view of the scheduler, and the way back.\<close>

definition view_of :: "cores \<Rightarrow> kernel \<Rightarrow> chloros" where
  "view_of c k = \<lparr>next_id = shared_next_id c, thread_queue = shared_queue c,
     current_thread = k_current k, initial_thread_id = k_initial_id k, stacks = []\<rparr>"

definition put_view :: "nat \<Rightarrow> kernel \<Rightarrow> u64 option \<Rightarrow> chloros \<Rightarrow> cores \<Rightarrow> cores" where
  "put_view i k l s c = c\<lparr>shared_next_id := next_id s, shared_queue := thread_queue s,
     kernels := (kernels c)(i \<mapsto> k\<lparr>k_current := current_thread s, left_id := l\<rparr>)\<rparr>"

definition k_yield :: "nat \<Rightarrow> kernel \<Rightarrow> bool \<Rightarrow> chloros \<Rightarrow> cores \<Rightarrow> cores" where
  "k_yield i k b s c = (case yield_locked b Own_code s of
     None \<Rightarrow> put_view i k None s c
   | Some s' \<Rightarrow> put_view i k (Some (thread_id (current_thread s))) s' c)"

text \<open>An event of the kernel thread \<open>i\<close>, if it can happen. \<open>KSwitch\<close> is \<open>ContextSwitch\<close> and what follows it.\<close>

fun k_step :: "nat \<Rightarrow> kevent \<Rightarrow> cores \<Rightarrow> cores option" where
  "k_step i KInitialize c = (case kernels c i of
     Some _ \<Rightarrow> None
   | None \<Rightarrow> let s = Initialize (shared_next_id c) in
       Some (c\<lparr>shared_next_id := next_id s, kernels := (kernels c)(i \<mapsto>
         \<lparr>k_current = current_thread s, k_initial_id = initial_thread_id s, left_id = None\<rparr>)\<rparr>))"
| "k_step i e c = (case kernels c i of
     None \<Rightarrow> None
   | Some k \<Rightarrow>
       (case e of
          KSwitch \<Rightarrow> (case left_id k of None \<Rightarrow> None
            | Some _ \<Rightarrow> Some (put_view i k None (resume (view_of c k)) c))
        | KSpawn stk \<Rightarrow> if left_id k \<noteq> None then None
            else Some (k_yield i k True (spawn_thread stk (view_of c k)) c)
        | KYield b \<Rightarrow> if left_id k \<noteq> None then None else Some (k_yield i k b (view_of c k) c)
        | KExit \<Rightarrow> if left_id k \<noteq> None \<or> is_initial_kernel_thread (k_current k) then None
            else Some (k_yield i k False (set_state kZombie Own_code (view_of c k)) c)
        | KInitialize \<Rightarrow> None))"

fun k_run :: "(nat \<times> kevent) list \<Rightarrow> cores \<Rightarrow> cores option" where
  "k_run [] c = Some c"
| "k_run ((i, e) # es) c = (case k_step i e c of None \<Rightarrow> None | Some c' \<Rightarrow> k_run es c')"

definition no_kernels :: cores where
  "no_kernels = \<lparr>shared_next_id = 0, shared_queue = [], kernels = Map.empty\<rparr>"

definition k_reachable :: "cores \<Rightarrow> bool" where
  "k_reachable c \<longleftrightarrow> (\<exists>es. k_run es no_kernels = Some c)"

text \<open>The thread on whose stack a kernel thread is running.\<close>

definition stack_of :: "kernel \<Rightarrow> u64" where
  "stack_of k = (case left_id k of None \<Rightarrow> thread_id (k_current k) | Some x \<Rightarrow> x)"

text \<open>A run of two kernel threads that spawn one thread each.\<close>

definition two_kernels :: "(nat \<times> kevent) list" where
  "two_kernels = [(0, KInitialize), (1, KInitialize), (0, KSpawn 0x1000), (0, KSwitch),
     (1, KSpawn 0x2000), (1, KSwitch)]"

lemmas k_defs = view_of_def put_view_def k_yield_def yield_locked_def spawn_thread_def Initialize_def
  new_Thread_def set_state_def schedulable_def resume_def GarbageCollect_def is_zombie_def Let_def
  no_kernels_def two_kernels_def

lemma migrates:
  "\<exists>c k. k_run (two_kernels @ [(1, KYield False), (1, KSwitch)]) no_kernels = Some c \<and>
     kernels c 1 = Some k \<and> left_id k = None \<and> is_initial_kernel_thread (k_current k) \<and>
     thread_id (k_current k) \<noteq> k_initial_id k"
  by (simp add: k_defs)

lemma same_stack:
  "\<exists>c j k. k_run (two_kernels @ [(0, KYield False), (1, KYield True), (1, KSwitch)]) no_kernels = Some c \<and>
     kernels c 0 = Some j \<and> kernels c 1 = Some k \<and> stack_of j = stack_of k"
  by (simp add: k_defs stack_of_def)

end
