(* ===== verification/Chloros_Props.thy ===== *)
theory Chloros_Props
  imports Chloros Chloros_Context Chloros_Cores
begin

text \<open>
  The properties of the green threads of lab 1: the scheduler on one kernel thread, the context
  switch, and what goes wrong on several kernel threads.
\<close>

section \<open>One kernel thread\<close>

text \<open>
  C29: Whatever the threads do, whenever one of them runs: no two threads share an id, only the current
  thread is running, the queue holds no zombie and only the initial thread can wait in it, the initial thread
  still exists, and the allocated stacks are exactly those of the spawned threads that have not
  ended, so that none is leaked and none is freed while it is in use.
\<close>

theorem scheduler_invariant:
  assumes "chl_reachable s"
  shows "distinct (map thread_id (current_thread s # thread_queue s)) \<and>
    (\<forall>t \<in> set (thread_queue s). thread_state t = kReady \<or>
      thread_state t = kWaiting \<and> thread_id t = initial_thread_id s) \<and>
    (\<exists>t \<in> set (current_thread s # thread_queue s). thread_id t = initial_thread_id s) \<and>
    distinct (stacks s) \<and> set (stacks s) =
      {stack_top t |t. t \<in> set (current_thread s # thread_queue s) \<and> thread_id t \<noteq> initial_thread_id s}"
proof -
  have inv: "chl_inv s" using assms by (rule reachable_chl_inv)
  note D = chl_invD [OF inv]
  have "thread_state t = kReady \<or> thread_state t = kWaiting \<and> thread_id t = initial_thread_id s"
    if "t \<in> set (thread_queue s)" for t
    using D(4) [OF that] D(1) [of t] that by (auto simp: queued_ok_def split: if_splits)
  moreover have "set (stacks s) = {stack_top t |t. t \<in> set (all_threads s) \<and> thread_id t \<noteq> initial_thread_id s}"
    using inv D(1) by (auto simp: chl_inv_def stacks_ok_def spawned_stacks_def)
  moreover have "distinct (stacks s)" using inv by (simp add: chl_inv_def stacks_ok_def)
  ultimately show ?thesis using D(2,3) unfolding all_threads_def by blast
qed

lemma scheduler_invariant_witness:
  "\<exists>s. chl_reachable s \<and> stacks s = [0x1000] \<and> distinct (map thread_id (current_thread s # thread_queue s))"
proof -
  have "chl_reachable (Initialize 0)" by (rule chl_reachable.init) simp
  then have "chl_reachable (Spawn 0x1000 (Initialize 0))"
    by (rule chl_reachable.step) (rule chl_step.spawn; simp add: Initialize_def)
  moreover from scheduler_invariant [OF this]
  have "distinct (map thread_id (current_thread (Spawn 0x1000 (Initialize 0)) #
      thread_queue (Spawn 0x1000 (Initialize 0))))" by blast
  moreover have "stacks (Spawn 0x1000 (Initialize 0)) = [0x1000]" by (simp add: Spawn_eq Initialize_def)
  ultimately show ?thesis by blast
qed

text \<open>
  When the function of a spawned thread returns, the last Yield of ThreadEntry always finds a thread to
  run, so the assertion behind it is never reached; the thread that goes on destroys the one that
  ended, and all other threads are still there.
\<close>

theorem exit_never_returns:
  assumes "chl_reachable s" "\<not> is_initial_kernel_thread (current_thread s)"
  shows "\<exists>s'. thread_exit s = (True, s') \<and> mset (map thread_id (current_thread s' # thread_queue s')) =
    mset (map thread_id (thread_queue s)) \<and> snd (GetThreadCount s') = 0"
proof -
  from exit_inv [OF reachable_chl_inv [OF assms(1)] assms(2)] obtain s' where s':
      "thread_exit s = (True, s')" "chl_inv s'"
      "mset (map thread_id (thread_queue s)) = mset (map thread_id (all_threads s'))" by blast
  have "filter is_zombie (thread_queue s') = []"
    using chl_invD(4) [OF s'(2)] by (simp add: filter_empty_conv queued_not_zombie)
  with s' show ?thesis by (simp add: GetThreadCount_def all_threads_def)
qed

lemma exit_never_returns_witness: "fst (thread_exit (Spawn 0x1000 (Initialize 0))) = True"
proof -
  have "chl_reachable (Initialize 0)" by (rule chl_reachable.init) simp
  then have "chl_reachable (Spawn 0x1000 (Initialize 0))"
    by (rule chl_reachable.step) (rule chl_step.spawn; simp add: Initialize_def)
  moreover have "\<not> is_initial_kernel_thread (current_thread (Spawn 0x1000 (Initialize 0)))"
    by (simp add: Spawn_eq new_Thread_def)
  ultimately show ?thesis using exit_never_returns by force
qed

text \<open>
  Wait returns to the initial thread only when all spawned threads have ended: then the queue is empty.
\<close>

theorem wait_returns_when_all_ended:
  assumes "chl_reachable s" "point (current_thread s) = In_Wait" "Wait_turn s = (False, s')"
  shows "thread_queue s' = [] \<and> stacks s' = []"
proof -
  have inv: "chl_inv s" using assms(1) by (rule reachable_chl_inv)
  have i: "is_initial_kernel_thread (current_thread s)"
    using chl_invD(5) [OF inv] assms(2) by (simp add: current_ok_def)
  have n: "yield_locked True In_Wait s = None"
    using assms(3) by (auto simp: Wait_turn_def Yield_def split: option.splits)
  have q: "thread_queue s = []" by (rule wait_ends_empty [OF inv i n])
  have "stacks s = []"
    using inv i q by (simp add: chl_inv_def stacks_ok_def spawned_stacks_def all_threads_def)
  with q n assms(3) show ?thesis
    by (auto simp: Wait_turn_def Yield_def set_state_def)
qed

lemma wait_returns_when_all_ended_witness:
  "thread_queue (snd (Wait_turn (Wait_enter (Initialize 0)))) = []"
proof -
  have "chl_reachable (Initialize 0)" by (rule chl_reachable.init) simp
  then have r: "chl_reachable (Wait_enter (Initialize 0))"
    by (rule chl_reachable.step) (rule chl_step.wait; simp add: Initialize_def)
  have w: "Wait_turn (Wait_enter (Initialize 0)) = (False, snd (Wait_turn (Wait_enter (Initialize 0))))"
    by (simp add: Wait_turn_def Yield_def yield_locked_def Wait_enter_def set_state_def Initialize_def Let_def)
  show ?thesis
    using wait_returns_when_all_ended [OF r _ w] by (simp add: Wait_enter_def set_state_def)
qed

text \<open>
  C30: The scheduler is fair to spawned threads, but for new ones: while a thread with k threads before it in the queue does not get the
  processor, there are at most k successful yields, and one more for each call of Spawn, whatever the threads do. Counted is every
  successful yield, those that Spawn, Wait and the end of a thread make included. A new thread overtakes the queue, so without a
  bound on the spawns there is none.
\<close>

theorem bounded_waiting:
  assumes "chl_reachable s" "x \<in> thread_id ` set (thread_queue s)" "x \<noteq> initial_thread_id s"
    and "waits_for x s yields spawned s'"
  shows "yields \<le> length (takeWhile (\<lambda>t. thread_id t \<noteq> x) (thread_queue s)) + spawned"
  using waits_for_bound [OF assms(4) reachable_chl_inv [OF assms(1)]] assms(2,3)
  by (simp add: queued_def before_def)

lemma bounded_waiting_witness:
  "\<exists>s. chl_reachable s \<and> waits_for 1 s 1 1 (Spawn 0x3000 s) \<and> (\<forall>n m s'. waits_for 1 s n m s' \<longrightarrow> n \<le> 1 + m)"
proof -
  let ?s1 = "Spawn 0x1000 (Initialize 0)"
  let ?s = "Spawn 0x2000 ?s1"
  have "chl_reachable (Initialize 0)" by (rule chl_reachable.init) simp
  then have "chl_reachable ?s1"
    by (rule chl_reachable.step) (rule chl_step.spawn; simp add: Initialize_def)
  then have r: "chl_reachable ?s"
    by (rule chl_reachable.step) (rule chl_step.spawn; simp add: Spawn_eq Initialize_def)
  have q: "1 \<in> thread_id ` set (thread_queue ?s)" "1 \<noteq> initial_thread_id ?s"
    "length (takeWhile (\<lambda>t. thread_id t \<noteq> 1) (thread_queue ?s)) = 1"
    by (simp_all add: Spawn_eq Initialize_def new_Thread_def)
  have "waits_for 1 ?s 0 0 ?s" by (rule waits_for.here) (simp add: Spawn_eq Initialize_def new_Thread_def)
  moreover have "chl_step ?s (Spawns 0x3000) (Spawn 0x3000 ?s)"
    by (rule chl_step.spawn) (simp_all add: Spawn_eq Initialize_def new_Thread_def)
  moreover have "thread_id (current_thread (Spawn 0x3000 ?s)) \<noteq> 1" by (simp add: Spawn_eq Initialize_def new_Thread_def)
  moreover have "queued 1 ?s" using q(1,2) by (simp add: queued_def)
  ultimately have w: "waits_for 1 ?s 1 1 (Spawn 0x3000 ?s)"
    using waits_for.later [of 1 ?s 0 0 ?s "Spawns 0x3000"] spawn_starves [of 1 ?s "0x3000"] by simp
  have "\<forall>n m s'. waits_for 1 ?s n m s' \<longrightarrow> n \<le> 1 + m"
    using bounded_waiting [OF r q(1,2)] unfolding q(3) by blast
  with r w show ?thesis by blast
qed

section \<open>The context switch\<close>

text \<open>
  The first switch to a thread that Spawn has set up enters start_thread, which calls thread_entry with
  the function and the argument of Spawn, on a stack aligned as the ABI demands, having written only to
  the forty bytes below the top of the stack.
\<close>

theorem spawned_thread_enters_function:
  assumes "lay_stack stack fn arg start m = (ctx, m')" "cells c = m'" "16 dvd unat stack" "32 \<le> stack"
  shows "let c1 = snd (context_switch old ctx c); c2 = start_thread thread_entry here c1 in
    rip c1 = start \<and> rip c2 = thread_entry \<and> rdi c2 = fn \<and> rsi c2 = arg \<and>
    16 dvd unat (rsp (gp c2) + 8) \<and>
    (\<forall>a. a \<notin> {stack - 16, stack - 24, stack - 32, stack - 40} \<longrightarrow> cells c2 a = m a)"
proof -
  note S = start_entry [OF assms(1,2)]
  have "unat (stack - 32) = unat stack - 32" using assms(4) by (simp add: unat_sub)
  with assms(3) have "16 dvd unat (stack - 32)" by (simp add: dvd_diff_nat)
  then have "16 dvd unat (rsp (gp (start_thread thread_entry here (snd (context_switch old ctx c)))) + 8)"
    by (simp add: S(4))
  moreover have "rip (start_thread thread_entry here c1) = thread_entry" for c1
    by (simp add: start_thread_def Let_def)
  ultimately show ?thesis using S by (simp add: Let_def)
qed

lemma spawned_thread_enters_function_witness:
  "\<exists>ctx c. rdi (start_thread 0x99 0x50 (snd (context_switch initial_context ctx c))) = 0x42"
proof -
  obtain ctx m' where l: "lay_stack 0x1000 0x42 7 0x77 (\<lambda>a. 0) = (ctx, m')" by fastforce
  let ?c = "\<lparr>gp = initial_context, control_word = 0, rdi = 0, rsi = 0, rip = 0, cells = m'\<rparr>"
  have "rdi (start_thread 0x99 0x50 (snd (context_switch initial_context ctx ?c))) = 0x42"
    using spawned_thread_enters_function [OF l, where c = ?c and old = initial_context and thread_entry = "0x99" and here = "0x50"]
    by (simp add: Let_def word_le_nat_alt)
  then show ?thesis by blast
qed

text \<open>
  A thread that is switched away and later switched back to continues behind its call of context_switch
  with the stack pointer, the callee-saved registers and both control registers it had, whatever the
  threads in between did to the processor, as long as they left its return address alone.
\<close>

theorem context_switch_round_trip:
  assumes "context_switch old new c = (saved, c')" "context_switch other saved d = (x, d')"
    and "cells d (rsp (gp c)) = cells c (rsp (gp c))"
  shows "rip d' = cells c (rsp (gp c)) \<and> rsp (gp d') = rsp (gp c) + 8 \<and>
    r15 (gp d') = r15 (gp c) \<and> r14 (gp d') = r14 (gp c) \<and> r13 (gp d') = r13 (gp c) \<and>
    r12 (gp d') = r12 (gp c) \<and> rbx (gp d') = rbx (gp c) \<and> rbp (gp d') = rbp (gp c) \<and>
    mxcsr (gp d') = mxcsr (gp c) \<and> control_word d' = control_word c"
  using switch_back [OF assms(1,3,2)] by simp

lemma context_switch_round_trip_witness:
  "\<exists>d'. snd (context_switch initial_context (fst (context_switch initial_context initial_context
      \<lparr>gp = initial_context\<lparr>rsp := 64, rbx := 5\<rparr>, control_word = 3, rdi = 0, rsi = 0, rip = 1, cells = (\<lambda>a. 9)\<rparr>))
      \<lparr>gp = initial_context, control_word = 0, rdi = 0, rsi = 0, rip = 0, cells = (\<lambda>a. 9)\<rparr>) = d' \<and>
    rip d' = 9 \<and> rbx (gp d') = 5 \<and> control_word d' = 3"
proof -
  let ?c = "\<lparr>gp = initial_context\<lparr>rsp := 64, rbx := 5\<rparr>, control_word = 3, rdi = 0, rsi = 0, rip = 1,
      cells = (\<lambda>a. 9)\<rparr> :: cpu"
  let ?d = "\<lparr>gp = initial_context, control_word = 0, rdi = 0, rsi = 0, rip = 0, cells = (\<lambda>a. 9)\<rparr> :: cpu"
  obtain saved c' where 1: "context_switch initial_context initial_context ?c = (saved, c')" by fastforce
  obtain x d' where 2: "context_switch initial_context saved ?d = (x, d')" by fastforce
  from context_switch_round_trip [OF 1 2] 1 2 show ?thesis by simp
qed

section \<open>Several kernel threads\<close>

text \<open>
  On several kernel threads Yield can make one of them run the initial thread of another one,
  which the comments forbid: the test that should prevent it is made only when the
  current thread is the initial one.
\<close>

theorem initial_thread_migrates:
  "\<exists>c i k. k_reachable c \<and> kernels c i = Some k \<and> left_id k = None \<and>
     is_initial_kernel_thread (k_current k) \<and> thread_id (k_current k) \<noteq> k_initial_id k"
proof -
  from migrates obtain c k where
    "k_run (two_kernels @ [(1, KYield False), (1, KSwitch)]) no_kernels = Some c"
    "kernels c 1 = Some k \<and> left_id k = None \<and> is_initial_kernel_thread (k_current k) \<and>
     thread_id (k_current k) \<noteq> k_initial_id k" by blast
  then show ?thesis unfolding k_reachable_def by blast
qed

text \<open>
  Yield unlocks the queue before it switches contexts, so another kernel thread can take the thread that
  is being left and run it while the first one is still on its stack.
\<close>

theorem two_kernels_on_one_stack:
  "\<exists>c i j ki kj. k_reachable c \<and> i \<noteq> j \<and> kernels c i = Some ki \<and> kernels c j = Some kj \<and>
     stack_of ki = stack_of kj"
proof -
  from same_stack obtain c j k where
    "k_run (two_kernels @ [(0, KYield False), (1, KYield True), (1, KSwitch)]) no_kernels = Some c"
    "kernels c 0 = Some j" "kernels c 1 = Some k" "stack_of j = stack_of k" by blast
  moreover have "(0::nat) \<noteq> 1" by simp
  ultimately show ?thesis unfolding k_reachable_def by blast
qed

end
