(* ===== verification/Nn_Priolist.thy ===== *)
theory Nn_Priolist
  imports Prelude
begin

text \<open>
  The prioritised list of pipes, \<open>src/protocols/utils/priolist.c\<close> of nanomsg, which the fair queue and the load balancer
  are made of (\<open>Nn_Pipes\<close>): sixteen slots, one for each priority, each with the list of its active pipes and the current
  one among them, and the number of the slot that is current.

  The lists are taken at what \<open>Nn_List\<close> shows them to represent. The data of a pipe, which hold its priority and its
  place in the list, are named by the pipe. A failed assertion and a null pointer are \<open>None\<close>.
\<close>

definition NN_PRIOLIST_SLOTS :: nat where "NN_PRIOLIST_SLOTS = 16"

record nn_priolist_slot =
  sl_pipes :: "nat list"
  sl_current :: "nat option"

record nn_priolist =
  pl_slots :: "nn_priolist_slot list"
  pl_current :: int
  pl_priority :: "nat \<Rightarrow> nat"

definition nn_priolist_init :: nn_priolist where
  "nn_priolist_init =
     \<lparr>pl_slots = replicate NN_PRIOLIST_SLOTS \<lparr>sl_pipes = [], sl_current = None\<rparr>, pl_current = - 1, pl_priority = (\<lambda>_. 0)\<rparr>"

definition nn_priolist_term :: "nn_priolist \<Rightarrow> unit option" where
  "nn_priolist_term self = (if \<forall>sl \<in> set (pl_slots self). sl_pipes sl = [] then Some () else None)"

definition nn_priolist_add :: "nn_priolist \<Rightarrow> nat \<Rightarrow> nat \<Rightarrow> nn_priolist" where
  "nn_priolist_add self pipe priority = self\<lparr>pl_priority := (pl_priority self)(pipe := priority)\<rparr>"

text \<open>The slot of a pipe, and a slot changed.\<close>

definition slot_of :: "nn_priolist \<Rightarrow> nat \<Rightarrow> nn_priolist_slot" where
  "slot_of self pipe = pl_slots self ! (pl_priority self pipe - 1)"

definition put_sl :: "nn_priolist \<Rightarrow> nat \<Rightarrow> nn_priolist_slot \<Rightarrow> nn_priolist" where
  "put_sl self i sl = self\<lparr>pl_slots := (pl_slots self)[i := sl]\<rparr>"

text \<open>The item behind one of a list, and the first item when there is none.\<close>

fun behind :: "nat list \<Rightarrow> nat \<Rightarrow> nat option" where
  "behind [] x = None"
| "behind (y # ys) x = (if x = y then (case ys of [] \<Rightarrow> None | z # _ \<Rightarrow> Some z) else behind ys x)"

definition begin_of :: "nat list \<Rightarrow> nat option" where
  "begin_of xs = (case xs of [] \<Rightarrow> None | x # _ \<Rightarrow> Some x)"

definition or_begin :: "nat option \<Rightarrow> nat list \<Rightarrow> nat option" where
  "or_begin it xs = (case it of None \<Rightarrow> begin_of xs | Some x \<Rightarrow> Some x)"

text \<open>
  The loop that leaves empty slots for lower priorities: the number of the first slot from \<open>current\<close> on with a
  pipe, or \<open>-1\<close>. Slot \<open>current\<close> is at index \<open>current - 1\<close>.
\<close>

function skip_empty :: "nn_priolist_slot list \<Rightarrow> nat \<Rightarrow> int" where
  "skip_empty sls current =
     (if NN_PRIOLIST_SLOTS < current then - 1
      else if sl_pipes (sls ! (current - 1)) \<noteq> [] then int current
      else skip_empty sls (current + 1))"
  by pat_completeness auto
termination
  by (relation "measure (\<lambda>(sls, current). Suc NN_PRIOLIST_SLOTS - current)") auto

declare skip_empty.simps [simp del]

definition nn_priolist_rm :: "nn_priolist \<Rightarrow> nat \<Rightarrow> nn_priolist" where
  "nn_priolist_rm self pipe =
     (let i = pl_priority self pipe - 1; slot = slot_of self pipe; rest = remove1 pipe (sl_pipes slot) in
      if pipe \<notin> set (sl_pipes slot) then self
      else if sl_current slot \<noteq> Some pipe then put_sl self i (slot\<lparr>sl_pipes := rest\<rparr>)
      else let self' = put_sl self i \<lparr>sl_pipes = rest, sl_current = or_begin (behind (sl_pipes slot) pipe) rest\<rparr> in
        if pl_current self' \<noteq> int (pl_priority self pipe) then self'
        else self'\<lparr>pl_current := skip_empty (pl_slots self') (pl_priority self pipe)\<rparr>)"

text \<open>A pipe that is in the list already must not be activated.\<close>

definition nn_priolist_activate :: "nn_priolist \<Rightarrow> nat \<Rightarrow> nn_priolist option" where
  "nn_priolist_activate self pipe =
     (let i = pl_priority self pipe - 1; slot = slot_of self pipe in
      if pipe \<in> set (sl_pipes slot) then None
      else if sl_pipes slot \<noteq> [] then Some (put_sl self i (slot\<lparr>sl_pipes := sl_pipes slot @ [pipe]\<rparr>))
      else let self' = put_sl self i \<lparr>sl_pipes = [pipe], sl_current = Some pipe\<rparr> in
        Some (if pl_current self' = - 1 then self'\<lparr>pl_current := int (pl_priority self pipe)\<rparr>
              else if int (pl_priority self pipe) < pl_current self' then
                self'\<lparr>pl_current := int (pl_priority self pipe)\<rparr>
              else self'))"

definition nn_priolist_is_active :: "nn_priolist \<Rightarrow> bool" where
  "nn_priolist_is_active self \<longleftrightarrow> pl_current self \<noteq> - 1"

text \<open>No pipe, or the current pipe of the current slot, whose pointer must not be null.\<close>

definition nn_priolist_getpipe :: "nn_priolist \<Rightarrow> nat option option" where
  "nn_priolist_getpipe self =
     (if pl_current self = - 1 then Some None
      else case sl_current (pl_slots self ! (nat (pl_current self) - 1)) of
        None \<Rightarrow> None | Some p \<Rightarrow> Some (Some p))"

definition nn_priolist_advance :: "nn_priolist \<Rightarrow> bool \<Rightarrow> nn_priolist option" where
  "nn_priolist_advance self release =
     (if pl_current self \<le> 0 then None
      else let i = nat (pl_current self) - 1; slot = pl_slots self ! i in
        case sl_current slot of
          None \<Rightarrow> None
        | Some p \<Rightarrow>
            let rest = if release then remove1 p (sl_pipes slot) else sl_pipes slot;
                self' = put_sl self i \<lparr>sl_pipes = rest, sl_current = or_begin (behind (sl_pipes slot) p) rest\<rparr>
            in Some (self'\<lparr>pl_current := skip_empty (pl_slots self') (nat (pl_current self))\<rparr>))"

definition nn_priolist_get_priority :: "nn_priolist \<Rightarrow> int" where
  "nn_priolist_get_priority self = pl_current self"

section \<open>The invariant\<close>

text \<open>
  A slot holds each of its pipes once and has a current pipe if it has any; the current slot is the highest-priority slot
  that is not empty.
\<close>

definition slot_ok :: "nn_priolist_slot \<Rightarrow> bool" where
  "slot_ok sl \<longleftrightarrow> distinct (sl_pipes sl) \<and>
     (case sl_current sl of None \<Rightarrow> sl_pipes sl = [] | Some p \<Rightarrow> p \<in> set (sl_pipes sl))"

definition current_ok :: "nn_priolist_slot list \<Rightarrow> int \<Rightarrow> bool" where
  "current_ok sls c \<longleftrightarrow>
     (if c = - 1 then \<forall>sl \<in> set sls. sl_pipes sl = []
      else 1 \<le> c \<and> c \<le> int (length sls) \<and> sl_pipes (sls ! (nat c - 1)) \<noteq> [] \<and>
        (\<forall>i < nat c - 1. sl_pipes (sls ! i) = []))"

definition priolist_ok :: "nn_priolist \<Rightarrow> bool" where
  "priolist_ok pl \<longleftrightarrow> length (pl_slots pl) = NN_PRIOLIST_SLOTS \<and>
     (\<forall>i < NN_PRIOLIST_SLOTS. slot_ok (pl_slots pl ! i) \<and>
        (\<forall>p \<in> set (sl_pipes (pl_slots pl ! i)). pl_priority pl p = Suc i)) \<and>
     current_ok (pl_slots pl) (pl_current pl)"

lemma priolist_okD:
  assumes "priolist_ok pl"
  shows "length (pl_slots pl) = NN_PRIOLIST_SLOTS"
    and "i < NN_PRIOLIST_SLOTS \<Longrightarrow> slot_ok (pl_slots pl ! i)"
    and "i < NN_PRIOLIST_SLOTS \<Longrightarrow> p \<in> set (sl_pipes (pl_slots pl ! i)) \<Longrightarrow> pl_priority pl p = Suc i"
    and "current_ok (pl_slots pl) (pl_current pl)"
  using assms by (simp_all add: priolist_ok_def)

lemma current_ok_Suc:
  "current_ok sls (int (Suc j)) \<longleftrightarrow>
     j < length sls \<and> sl_pipes (sls ! j) \<noteq> [] \<and> (\<forall>i < j. sl_pipes (sls ! i) = [])"
proof -
  have "nat (int (Suc j)) - 1 = j" unfolding nat_int by simp
  then show ?thesis by (simp add: current_ok_def Suc_le_eq del: of_nat_Suc)
qed

lemma current_ok_cases:
  assumes "current_ok sls c"
  obtains (none) "c = - 1" "\<forall>i < length sls. sl_pipes (sls ! i) = []"
  | (some) j where "c = int (Suc j)" "j < length sls" "sl_pipes (sls ! j) \<noteq> []" "\<forall>i < j. sl_pipes (sls ! i) = []"
proof (cases "c = - 1")
  case True
  with assms have "\<forall>sl \<in> set sls. sl_pipes sl = []" by (simp add: current_ok_def)
  with True show thesis by (intro none) simp_all
next
  case False
  with assms have "1 \<le> c" by (simp add: current_ok_def)
  then have c: "c = int (Suc (nat c - 1))" by simp
  with assms have "current_ok sls (int (Suc (nat c - 1)))" by simp
  with c show thesis unfolding current_ok_Suc by (intro some [of "nat c - 1"]) simp_all
qed

text \<open>The active pipes.\<close>

definition active :: "nn_priolist \<Rightarrow> nat set" where
  "active pl = (\<Union>sl \<in> set (pl_slots pl). set (sl_pipes sl))"

lemma priolist_ok_init: "priolist_ok nn_priolist_init"
  by (simp add: priolist_ok_def nn_priolist_init_def slot_ok_def current_ok_def)

lemma active_init [simp]: "active nn_priolist_init = {}"
  by (simp add: active_def nn_priolist_init_def)

lemma skip_empty:
  assumes "length sls = NN_PRIOLIST_SLOTS" "1 \<le> c" "\<forall>i < c - 1. sl_pipes (sls ! i) = []"
  shows "current_ok sls (skip_empty sls c)"
  using assms
proof (induction sls c rule: skip_empty.induct)
  case (1 sls c)
  show ?case
  proof (cases "NN_PRIOLIST_SLOTS < c")
    case True
    then have "\<forall>sl \<in> set sls. sl_pipes sl = []" using "1.prems" by (auto simp: in_set_conv_nth)
    with True show ?thesis by (simp add: skip_empty.simps [of sls c] current_ok_def)
  next
    case False
    show ?thesis
    proof (cases "sl_pipes (sls ! (c - 1)) = []")
      case True
      have "sl_pipes (sls ! i) = []" if "i < c + 1 - 1" for i
      proof -
        have "i < c - 1 \<or> i = c - 1" using that by arith
        then show ?thesis using "1.prems"(3) True by blast
      qed
      with False True "1.IH" "1.prems"(1) show ?thesis by (simp add: skip_empty.simps [of sls c])
    next
      case False
      with \<open>\<not> NN_PRIOLIST_SLOTS < c\<close> "1.prems" show ?thesis
        by (auto simp: skip_empty.simps [of sls c] current_ok_def)
    qed
  qed
qed

text \<open>The members of the list behind its items.\<close>

lemma behind_in: "behind xs x = Some y \<Longrightarrow> y \<in> set xs"
  by (induction xs x rule: behind.induct) (auto split: if_splits list.splits)

lemma behind_neq: "distinct xs \<Longrightarrow> behind xs x = Some y \<Longrightarrow> y \<noteq> x"
proof (induction xs x rule: behind.induct)
  case (2 z ys x)
  then show ?case using behind_in [of ys x y] by (cases "x = z") (auto split: list.splits)
qed simp

lemma or_begin_ok:
  assumes "distinct xs" "ys = xs \<or> ys = remove1 x xs"
  shows "case or_begin (behind xs x) ys of None \<Rightarrow> ys = [] | Some p \<Rightarrow> p \<in> set ys"
proof (cases "behind xs x")
  case None
  then show ?thesis by (cases ys) (simp_all add: or_begin_def begin_of_def)
next
  case (Some y)
  then have "y \<in> set ys" using assms behind_in [of xs x y] behind_neq [of xs x y] by auto
  with Some show ?thesis by (simp add: or_begin_def)
qed

text \<open>Which pipes are active can be told from their slots.\<close>

lemma active_nth:
  assumes "length (pl_slots pl) = NN_PRIOLIST_SLOTS"
  shows "p \<in> active pl \<longleftrightarrow> (\<exists>i < NN_PRIOLIST_SLOTS. p \<in> set (sl_pipes (pl_slots pl ! i)))"
proof -
  have "(\<exists>sl \<in> set xs. P sl) \<longleftrightarrow> (\<exists>i < length xs. P (xs ! i))" for P and xs :: "nn_priolist_slot list"
    by (metis in_set_conv_nth)
  then show ?thesis using assms by (simp add: active_def)
qed

lemma active_iff:
  assumes "priolist_ok pl"
  shows "p \<in> active pl \<longleftrightarrow>
    1 \<le> pl_priority pl p \<and> pl_priority pl p \<le> NN_PRIOLIST_SLOTS \<and> p \<in> set (sl_pipes (slot_of pl p))"
proof
  note D = priolist_okD [OF assms]
  assume "p \<in> active pl"
  then obtain i where i: "i < NN_PRIOLIST_SLOTS" "p \<in> set (sl_pipes (pl_slots pl ! i))"
    using active_nth [OF D(1)] by blast
  with D(3) [OF this]
  show "1 \<le> pl_priority pl p \<and> pl_priority pl p \<le> NN_PRIOLIST_SLOTS \<and> p \<in> set (sl_pipes (slot_of pl p))"
    by (simp add: slot_of_def)
next
  assume *: "1 \<le> pl_priority pl p \<and> pl_priority pl p \<le> NN_PRIOLIST_SLOTS \<and> p \<in> set (sl_pipes (slot_of pl p))"
  then have "pl_priority pl p - 1 < NN_PRIOLIST_SLOTS" by linarith
  with * active_nth [OF priolist_okD(1) [OF assms], of p] show "p \<in> active pl" unfolding slot_of_def by blast
qed

text \<open>Changing one slot, and the current one.\<close>

lemma put_ok:
  assumes "priolist_ok pl" "i < NN_PRIOLIST_SLOTS" "slot_ok s" "\<forall>p \<in> set (sl_pipes s). pl_priority pl p = Suc i"
    and "current_ok ((pl_slots pl)[i := s]) c"
  shows "priolist_ok ((put_sl pl i s)\<lparr>pl_current := c\<rparr>)"
    and "p \<in> active ((put_sl pl i s)\<lparr>pl_current := c\<rparr>) \<longleftrightarrow>
      (if pl_priority pl p = Suc i then p \<in> set (sl_pipes s) else p \<in> active pl)"
proof -
  let ?pl = "(put_sl pl i s)\<lparr>pl_current := c\<rparr>"
  note D = priolist_okD [OF assms(1)]
  have nth: "(pl_slots pl)[i := s] ! j = (if j = i then s else pl_slots pl ! j)" if "j < NN_PRIOLIST_SLOTS" for j
    using D(1) that by (simp add: nth_list_update)
  have "slot_ok ((pl_slots pl)[i := s] ! j)"
    "\<forall>p \<in> set (sl_pipes ((pl_slots pl)[i := s] ! j)). pl_priority pl p = Suc j" if "j < NN_PRIOLIST_SLOTS" for j
    using D(2,3) [OF that] assms(3,4) unfolding nth [OF that] by simp_all
  then show ok: "priolist_ok ?pl"
    unfolding priolist_ok_def using D(1) assms(5) by (simp add: put_sl_def)
  have "1 \<le> pl_priority pl p \<Longrightarrow> pl_priority pl p - 1 = i \<longleftrightarrow> pl_priority pl p = Suc i" by arith
  then show "p \<in> active ?pl \<longleftrightarrow> (if pl_priority pl p = Suc i then p \<in> set (sl_pipes s) else p \<in> active pl)"
    unfolding active_iff [OF ok] active_iff [OF assms(1)] using assms(2) D(1)
    by (cases "pl_priority pl p = Suc i") (auto simp: slot_of_def put_sl_def)
qed

section \<open>The operations keep it\<close>

lemma add_ok:
  assumes "priolist_ok pl" "p \<notin> active pl"
  shows "priolist_ok (nn_priolist_add pl p prio)" "active (nn_priolist_add pl p prio) = active pl"
proof -
  note D = priolist_okD [OF assms(1)]
  have p: "p \<notin> set (sl_pipes (pl_slots pl ! i))" if "i < NN_PRIOLIST_SLOTS" for i
    using assms(2) active_nth [OF D(1)] that by blast
  have "\<forall>q \<in> set (sl_pipes (pl_slots pl ! i)). ((pl_priority pl)(p := prio)) q = Suc i" if "i < NN_PRIOLIST_SLOTS" for i
    using p [OF that] D(3) [OF that] by auto
  then show "priolist_ok (nn_priolist_add pl p prio)"
    unfolding priolist_ok_def using D(1,2,4) by (simp add: nn_priolist_add_def)
  show "active (nn_priolist_add pl p prio) = active pl"
    by (simp add: active_def nn_priolist_add_def)
qed

lemma all_slots_nth: "(\<forall>sl \<in> set sls. P sl) \<longleftrightarrow> (\<forall>i < length sls. P (sls ! i))"
  by (metis in_set_conv_nth)

lemma current_other:
  assumes "current_ok sls c" "i < length sls" "sl_pipes (sls ! i) = [] \<longleftrightarrow> sl_pipes s = []"
  shows "current_ok (sls[i := s]) c"
proof -
  have "sl_pipes (sls[i := s] ! j) = [] \<longleftrightarrow> sl_pipes (sls ! j) = []" if "j < length sls" for j
    using assms(2,3) that by (cases "j = i") simp_all
  then show ?thesis using assms(1) by (auto simp: current_ok_def all_slots_nth)
qed

text \<open>An empty slot that gets a pipe.\<close>

lemma current_filled:
  assumes "current_ok sls c" "i < length sls" "sl_pipes (sls ! i) = []" "sl_pipes s \<noteq> []"
  shows "current_ok (sls[i := s]) (if c = - 1 \<or> int (Suc i) < c then int (Suc i) else c)"
  using assms(1)
proof (cases rule: current_ok_cases)
  case none
  then show ?thesis using assms by (simp add: current_ok_Suc del: of_nat_Suc)
next
  case (some j)
  then have "j \<noteq> i" using assms(3) by auto
  then show ?thesis using some assms(2,4) by (auto simp: current_ok_Suc simp del: of_nat_Suc)
qed

lemma slot_of_ok:
  assumes "priolist_ok pl" "1 \<le> pl_priority pl p" "pl_priority pl p \<le> NN_PRIOLIST_SLOTS"
  shows "pl_priority pl p - 1 < NN_PRIOLIST_SLOTS" "slot_ok (slot_of pl p)"
    "\<forall>q \<in> set (sl_pipes (slot_of pl p)). pl_priority pl q = Suc (pl_priority pl p - 1)"
proof -
  note D = priolist_okD [OF assms(1)]
  show i: "pl_priority pl p - 1 < NN_PRIOLIST_SLOTS" using assms(2,3) by linarith
  show "slot_ok (slot_of pl p)" unfolding slot_of_def by (rule D(2) [OF i])
  show "\<forall>q \<in> set (sl_pipes (slot_of pl p)). pl_priority pl q = Suc (pl_priority pl p - 1)"
    unfolding slot_of_def using D(3) [OF i] by blast
qed

lemma activate_ok:
  assumes "priolist_ok pl" "1 \<le> pl_priority pl p" "pl_priority pl p \<le> NN_PRIOLIST_SLOTS" "p \<notin> active pl"
  shows "\<exists>pl'. nn_priolist_activate pl p = Some pl' \<and> priolist_ok pl' \<and> active pl' = insert p (active pl) \<and>
    pl_priority pl' = pl_priority pl"
proof -
  define i where "i = pl_priority pl p - 1"
  let ?sl = "pl_slots pl ! i"
  note D = priolist_okD [OF assms(1)]
  have i: "i < NN_PRIOLIST_SLOTS" "pl_priority pl p = Suc i" using assms(2,3) by (simp_all add: i_def)
  have sl: "slot_of pl p = ?sl" by (simp add: slot_of_def i_def)
  have p: "p \<notin> set (sl_pipes ?sl)" using assms(4) i(1) active_nth [OF D(1)] by blast
  have len: "i < length (pl_slots pl)" using i(1) D(1) by simp
  define s where "s = (if sl_pipes ?sl = [] then \<lparr>sl_pipes = [p], sl_current = Some p\<rparr>
    else ?sl\<lparr>sl_pipes := sl_pipes ?sl @ [p]\<rparr>)"
  define c where "c = (if sl_pipes ?sl = [] \<and> (pl_current pl = - 1 \<or> int (Suc i) < pl_current pl)
    then int (Suc i) else pl_current pl)"
  have a: "nn_priolist_activate pl p = Some ((put_sl pl i s)\<lparr>pl_current := c\<rparr>)"
    using p i(2) by (auto simp: nn_priolist_activate_def sl i_def [symmetric] Let_def s_def c_def put_sl_def)
  have s: "slot_ok s" "set (sl_pipes s) = insert p (set (sl_pipes ?sl))" "sl_pipes s \<noteq> []"
    using D(2) [OF i(1)] p by (auto simp: s_def slot_ok_def split: option.splits)
  have prio: "\<forall>q \<in> set (sl_pipes s). pl_priority pl q = Suc i" using D(3) [OF i(1)] i(2) s(2) by auto
  have "current_ok ((pl_slots pl)[i := s]) c"
    using current_filled [OF D(4) len _ s(3)] current_other [OF D(4) len, of s] s(3)
    by (cases "sl_pipes ?sl = []") (simp_all add: c_def del: of_nat_Suc)
  note P = put_ok [OF assms(1) i(1) s(1) prio this]
  have "q \<in> active ((put_sl pl i s)\<lparr>pl_current := c\<rparr>) \<longleftrightarrow> q \<in> insert p (active pl)" for q
  proof (cases "pl_priority pl q = Suc i")
    case True
    then have "q \<in> active pl \<longleftrightarrow> q \<in> set (sl_pipes ?sl)" using i(1) by (simp add: active_iff [OF assms(1)] slot_of_def)
    then show ?thesis using P(2) [of q] True s(2) by simp
  next
    case False
    then show ?thesis using P(2) [of q] i(2) by auto
  qed
  then have "active ((put_sl pl i s)\<lparr>pl_current := c\<rparr>) = insert p (active pl)" by blast
  then show ?thesis using a P(1) by (simp add: put_sl_def)
qed

text \<open>Removing the current pipe of a slot, or leaving it for the next one.\<close>

lemma leave_ok:
  assumes "priolist_ok pl" "i < NN_PRIOLIST_SLOTS" "sl_current (pl_slots pl ! i) = Some p"
    and "rest = sl_pipes (pl_slots pl ! i) \<or> rest = remove1 p (sl_pipes (pl_slots pl ! i))"
    and "s = \<lparr>sl_pipes = rest, sl_current = or_begin (behind (sl_pipes (pl_slots pl ! i)) p) rest\<rparr>"
    and "c = (if pl_current pl = int (Suc i) then skip_empty ((pl_slots pl)[i := s]) (Suc i) else pl_current pl)"
  shows "priolist_ok ((put_sl pl i s)\<lparr>pl_current := c\<rparr>)"
    and "active ((put_sl pl i s)\<lparr>pl_current := c\<rparr>) =
      (if rest = sl_pipes (pl_slots pl ! i) then active pl else active pl - {p})"
proof -
  let ?sl = "pl_slots pl ! i"
  note D = priolist_okD [OF assms(1)]
  have d: "distinct (sl_pipes ?sl)" "p \<in> set (sl_pipes ?sl)" using D(2) [OF assms(2)] assms(3) by (simp_all add: slot_ok_def)
  have r: "distinct rest" "set rest = (if rest = sl_pipes ?sl then set (sl_pipes ?sl) else set (sl_pipes ?sl) - {p})"
    using assms(4) d by auto
  have len: "i < length (pl_slots pl)" using assms(2) D(1) by simp
  have s: "slot_ok s" using or_begin_ok [OF d(1) assms(4)] r(1) by (auto simp: slot_ok_def assms(5) split: option.splits)
  have prio: "\<forall>q \<in> set (sl_pipes s). pl_priority pl q = Suc i"
    using D(3) [OF assms(2)] r(2) by (auto simp: assms(5) split: if_splits)
  have "current_ok ((pl_slots pl)[i := s]) c"
  proof (cases "pl_current pl = int (Suc i)")
    case True
    have "nat (int (Suc i)) - 1 = i" unfolding nat_int by simp
    with D(4) True have "\<forall>j < i. sl_pipes (pl_slots pl ! j) = []" by (simp add: current_ok_def del: of_nat_Suc)
    then have "\<forall>j < Suc i - 1. sl_pipes ((pl_slots pl)[i := s] ! j) = []" by simp
    with skip_empty [of "(pl_slots pl)[i := s]" "Suc i"] D(1) True show ?thesis by (simp add: assms(6))
  next
    case False
    from D(4) show ?thesis
    proof (cases rule: current_ok_cases)
      case none
      with len d(2) show ?thesis by auto
    next
      case (some j)
      then have "j < i" using False d(2) by (metis linorder_neqE_nat list.set(1) empty_iff)
      with some False show ?thesis by (simp add: assms(6) current_ok_Suc del: of_nat_Suc)
    qed
  qed
  note P = put_ok [OF assms(1,2) s prio this]
  have "q \<in> active ((put_sl pl i s)\<lparr>pl_current := c\<rparr>) \<longleftrightarrow>
      q \<in> (if rest = sl_pipes ?sl then active pl else active pl - {p})" for q
  proof (cases "pl_priority pl q = Suc i")
    case True
    then have "q \<in> active pl \<longleftrightarrow> q \<in> set (sl_pipes ?sl)"
      using assms(2) by (simp add: active_iff [OF assms(1)] slot_of_def)
    then show ?thesis using P(2) [of q] True r(2) by (simp add: assms(5))
  next
    case False
    then have "q \<noteq> p" using D(3) [OF assms(2) d(2)] by auto
    with False show ?thesis using P(2) [of q] by auto
  qed
  then show "active ((put_sl pl i s)\<lparr>pl_current := c\<rparr>) = (if rest = sl_pipes ?sl then active pl else active pl - {p})"
    by blast
  show "priolist_ok ((put_sl pl i s)\<lparr>pl_current := c\<rparr>)" by (rule P(1))
qed

lemma rm_ok:
  assumes "priolist_ok pl" "1 \<le> pl_priority pl p" "pl_priority pl p \<le> NN_PRIOLIST_SLOTS"
  shows "priolist_ok (nn_priolist_rm pl p)" "active (nn_priolist_rm pl p) = active pl - {p}"
proof -
  define i where "i = pl_priority pl p - 1"
  let ?sl = "pl_slots pl ! i"
  let ?rest = "remove1 p (sl_pipes ?sl)"
  note D = priolist_okD [OF assms(1)]
  have i: "i < NN_PRIOLIST_SLOTS" "pl_priority pl p = Suc i" using assms(2,3) by (simp_all add: i_def)
  have sl: "slot_of pl p = ?sl" by (simp add: slot_of_def i_def)
  have act: "p \<in> active pl \<longleftrightarrow> p \<in> set (sl_pipes ?sl)"
    using i by (simp add: active_iff [OF assms(1)] sl)
  have "priolist_ok (nn_priolist_rm pl p) \<and> active (nn_priolist_rm pl p) = active pl - {p}"
  proof (cases "p \<in> set (sl_pipes ?sl)")
    case False
    then have "nn_priolist_rm pl p = pl" by (simp add: nn_priolist_rm_def sl Let_def)
    with assms(1) act False show ?thesis by simp
  next
    case in_slot: True
    have d: "distinct (sl_pipes ?sl)" using D(2) [OF i(1)] by (simp add: slot_ok_def)
    have ne: "?rest \<noteq> sl_pipes ?sl" using d in_slot by (metis distinct.simps(2) distinct_remove1 in_set_remove1 notin_set_remove1 set_remove1_eq Diff_iff singletonI)
    show ?thesis
    proof (cases "sl_current ?sl = Some p")
      case True
      let ?s = "\<lparr>sl_pipes = ?rest, sl_current = or_begin (behind (sl_pipes ?sl) p) ?rest\<rparr>"
      let ?c = "if pl_current pl = int (Suc i) then skip_empty ((pl_slots pl)[i := ?s]) (Suc i) else pl_current pl"
      have "nn_priolist_rm pl p = (put_sl pl i ?s)\<lparr>pl_current := ?c\<rparr>"
        using True in_slot i(2) by (simp add: nn_priolist_rm_def sl Let_def put_sl_def)
      with leave_ok [OF assms(1) i(1) True disjI2 refl refl, OF refl] ne show ?thesis by simp
    next
      case False
      let ?s = "?sl\<lparr>sl_pipes := ?rest\<rparr>"
      have r: "nn_priolist_rm pl p = (put_sl pl i ?s)\<lparr>pl_current := pl_current pl\<rparr>"
        using False in_slot i(2) by (simp add: nn_priolist_rm_def sl Let_def put_sl_def)
      from D(2) [OF i(1)] in_slot False obtain q where q: "sl_current ?sl = Some q" "q \<in> set (sl_pipes ?sl)" "q \<noteq> p"
        by (auto simp: slot_ok_def split: option.splits)
      have qr: "q \<in> set ?rest" using q(2,3) by simp
      have "slot_ok ?s" using q(1) qr d by (simp add: slot_ok_def)
      moreover have "\<forall>q \<in> set (sl_pipes ?s). pl_priority pl q = Suc i"
        using D(3) [OF i(1)] set_remove1_subset [of p "sl_pipes ?sl"] by auto
      moreover have "current_ok ((pl_slots pl)[i := ?s]) (pl_current pl)"
        by (rule current_other [OF D(4)]) (use i(1) D(1) in_slot qr in auto)
      ultimately have P: "priolist_ok (nn_priolist_rm pl p)"
        "\<And>x. x \<in> active (nn_priolist_rm pl p) \<longleftrightarrow> (if pl_priority pl x = Suc i then x \<in> set (sl_pipes ?s) else x \<in> active pl)"
        using put_ok [OF assms(1) i(1)] unfolding r by blast+
      have "x \<in> active (nn_priolist_rm pl p) \<longleftrightarrow> x \<in> active pl - {p}" for x
      proof (cases "pl_priority pl x = Suc i")
        case True
        then have "x \<in> active pl \<longleftrightarrow> x \<in> set (sl_pipes ?sl)"
          using i(1) by (simp add: active_iff [OF assms(1)] slot_of_def)
        then show ?thesis using P(2) [of x] True d by simp
      next
        case False
        then show ?thesis using P(2) [of x] i(2) by auto
      qed
      with P(1) show ?thesis by blast
    qed
  qed
  then show "priolist_ok (nn_priolist_rm pl p)" "active (nn_priolist_rm pl p) = active pl - {p}" by blast+
qed

text \<open>The current pipe is one of the active pipes of the highest priority that has any.\<close>

lemma getpipe_ok:
  assumes "priolist_ok pl"
  shows "nn_priolist_getpipe pl =
      (if active pl = {} then Some None else Some (sl_current (pl_slots pl ! (nat (pl_current pl) - 1))))"
    and "nn_priolist_getpipe pl = Some (Some p) \<Longrightarrow> p \<in> active pl \<and> int (pl_priority pl p) = pl_current pl \<and>
      (\<forall>q \<in> active pl. pl_priority pl p \<le> pl_priority pl q)"
    and "nn_priolist_is_active pl \<longleftrightarrow> active pl \<noteq> {}"
proof -
  note D = priolist_okD [OF assms]
  have *: "nn_priolist_getpipe pl =
      (if active pl = {} then Some None else Some (sl_current (pl_slots pl ! (nat (pl_current pl) - 1)))) \<and>
    (nn_priolist_getpipe pl = Some (Some p) \<longrightarrow> p \<in> active pl \<and> int (pl_priority pl p) = pl_current pl \<and>
      (\<forall>q \<in> active pl. pl_priority pl p \<le> pl_priority pl q)) \<and>
    (nn_priolist_is_active pl \<longleftrightarrow> active pl \<noteq> {})"
    using D(4)
  proof (cases rule: current_ok_cases)
    case none
    then have "active pl = {}" using active_nth [OF D(1)] D(1) by auto
    with none show ?thesis by (simp add: nn_priolist_getpipe_def nn_priolist_is_active_def)
  next
    case (some j)
    have nj: "nat (pl_current pl) - 1 = j" unfolding some(1) nat_int by simp
    have j: "j < NN_PRIOLIST_SLOTS" using some(2) D(1) by simp
    obtain q where q: "sl_current (pl_slots pl ! j) = Some q" "q \<in> set (sl_pipes (pl_slots pl ! j))"
      using D(2) [OF j] some(3) by (auto simp: slot_ok_def split: option.splits)
    have qa: "q \<in> active pl" using q(2) j active_nth [OF D(1)] by blast
    have g: "nn_priolist_getpipe pl = Some (Some q)" using nj q(1) some(1) by (simp add: nn_priolist_getpipe_def)
    have pq: "pl_priority pl q = Suc j" by (rule D(3) [OF j q(2)])
    have "pl_priority pl q \<le> pl_priority pl x" if "x \<in> active pl" for x
    proof -
      from that obtain i where i: "i < NN_PRIOLIST_SLOTS" "x \<in> set (sl_pipes (pl_slots pl ! i))"
        using active_nth [OF D(1)] by blast
      then have "\<not> i < j" using some(4) by auto
      then show ?thesis using D(3) [OF i] pq by simp
    qed
    then show ?thesis using g qa pq nj q(1) some(1) by (auto simp: nn_priolist_is_active_def)
  qed
  then show "nn_priolist_getpipe pl =
      (if active pl = {} then Some None else Some (sl_current (pl_slots pl ! (nat (pl_current pl) - 1))))"
    "nn_priolist_getpipe pl = Some (Some p) \<Longrightarrow> p \<in> active pl \<and> int (pl_priority pl p) = pl_current pl \<and>
      (\<forall>q \<in> active pl. pl_priority pl p \<le> pl_priority pl q)"
    "nn_priolist_is_active pl \<longleftrightarrow> active pl \<noteq> {}" by blast+
qed

lemma advance_ok:
  assumes "priolist_ok pl" "nn_priolist_getpipe pl = Some (Some p)"
  shows "\<exists>pl'. nn_priolist_advance pl release = Some pl' \<and> priolist_ok pl' \<and>
    active pl' = (if release then active pl - {p} else active pl) \<and> pl_priority pl' = pl_priority pl"
proof -
  note D = priolist_okD [OF assms(1)]
  note G = getpipe_ok [OF assms(1)]
  have "active pl \<noteq> {}" using assms(2) G(1) by auto
  from D(4) show ?thesis
  proof (cases rule: current_ok_cases)
    case none
    with assms(2) show ?thesis by (simp add: nn_priolist_getpipe_def)
  next
    case (some j)
    have nj: "nat (pl_current pl) - 1 = j" "nat (pl_current pl) = Suc j" unfolding some(1) nat_int by simp_all
    have j: "j < NN_PRIOLIST_SLOTS" using some(2) D(1) by simp
    have p: "sl_current (pl_slots pl ! j) = Some p" using assms(2) G(1) nj(1) \<open>active pl \<noteq> {}\<close> by simp
    let ?ps = "sl_pipes (pl_slots pl ! j)"
    let ?rest = "if release then remove1 p ?ps else ?ps"
    let ?s = "\<lparr>sl_pipes = ?rest, sl_current = or_begin (behind ?ps p) ?rest\<rparr>"
    let ?pl = "(put_sl pl j ?s)\<lparr>pl_current := skip_empty ((pl_slots pl)[j := ?s]) (Suc j)\<rparr>"
    have a: "nn_priolist_advance pl release = Some ?pl"
      using p nj some(1) by (simp add: nn_priolist_advance_def Let_def put_sl_def)
    have d: "distinct ?ps" "p \<in> set ?ps" using D(2) [OF j] p by (simp_all add: slot_ok_def)
    then have ne: "remove1 p ?ps \<noteq> ?ps" by (metis set_remove1_eq Diff_iff singletonI)
    have r: "?rest = ?ps \<or> ?rest = remove1 p ?ps" by simp
    have c: "skip_empty ((pl_slots pl)[j := ?s]) (Suc j) =
        (if pl_current pl = int (Suc j) then skip_empty ((pl_slots pl)[j := ?s]) (Suc j) else pl_current pl)"
      using some(1) by simp
    note L = leave_ok [OF assms(1) j p r refl c]
    have "pl_priority ?pl = pl_priority pl" by (simp add: put_sl_def)
    with L a ne show ?thesis by (cases release) simp_all
  qed
qed

section \<open>Taking turns\<close>

text \<open>The pipes that a number of turns without a release come to.\<close>

fun turns :: "nat \<Rightarrow> nn_priolist \<Rightarrow> nat list" where
  "turns 0 pl = []"
| "turns (Suc n) pl =
     (case (nn_priolist_getpipe pl, nn_priolist_advance pl False) of
        (Some (Some p), Some pl') \<Rightarrow> p # turns n pl'
      | _ \<Rightarrow> [])"

lemma behind_nth:
  "distinct xs \<Longrightarrow> k < length xs \<Longrightarrow> behind xs (xs ! k) = (if Suc k < length xs then Some (xs ! Suc k) else None)"
proof (induction xs arbitrary: k)
  case (Cons x xs)
  show ?case
  proof (cases k)
    case 0
    then show ?thesis by (cases xs) simp_all
  next
    case (Suc j)
    with Cons.prems have "xs ! j \<noteq> x" by auto
    with Suc Cons show ?thesis by simp
  qed
qed simp

lemma turns_round:
  assumes "pl_current pl = int (Suc j)" "j < length (pl_slots pl)"
    and "pl_slots pl ! j = \<lparr>sl_pipes = xs, sl_current = Some (xs ! k)\<rparr>" "distinct xs" "k < length xs"
    and "length (pl_slots pl) = NN_PRIOLIST_SLOTS"
  shows "turns n pl = map (\<lambda>i. xs ! ((k + i) mod length xs)) [0..<n]"
  using assms
proof (induction n arbitrary: pl k)
  case (Suc n)
  have nj: "nat (pl_current pl) - 1 = j" "nat (pl_current pl) = Suc j" unfolding Suc.prems(1) nat_int by simp_all
  let ?k = "Suc k mod length xs"
  let ?s = "\<lparr>sl_pipes = xs, sl_current = Some (xs ! ?k)\<rparr>"
  have g: "nn_priolist_getpipe pl = Some (Some (xs ! k))"
    using Suc.prems(1,3) nj by (simp add: nn_priolist_getpipe_def)
  have b: "or_begin (behind xs (xs ! k)) xs = Some (xs ! ?k)"
  proof (cases "Suc k < length xs")
    case True
    then show ?thesis using behind_nth [OF Suc.prems(4,5)] by (simp add: or_begin_def)
  next
    case False
    then have "Suc k = length xs" using Suc.prems(5) by simp
    moreover have "begin_of xs = Some (xs ! 0)" using Suc.prems(5) by (cases xs) (simp_all add: begin_of_def)
    ultimately show ?thesis using behind_nth [OF Suc.prems(4,5)] by (simp add: or_begin_def)
  qed
  have "skip_empty ((pl_slots pl)[j := ?s]) (Suc j) = int (Suc j)"
    using Suc.prems(2,5,6) by (auto simp: skip_empty.simps [of _ "Suc j"])
  then have a: "nn_priolist_advance pl False = Some ((put_sl pl j ?s)\<lparr>pl_current := int (Suc j)\<rparr>)"
    using Suc.prems(1,3) nj b by (simp add: nn_priolist_advance_def Let_def put_sl_def)
  have "turns n ((put_sl pl j ?s)\<lparr>pl_current := int (Suc j)\<rparr>) = map (\<lambda>i. xs ! ((?k + i) mod length xs)) [0..<n]"
  proof (rule Suc.IH)
    show "?k < length xs" using Suc.prems(5) by (intro mod_less_divisor) linarith
  qed (use Suc.prems in \<open>simp_all add: put_sl_def\<close>)
  also have "\<dots> = map (\<lambda>i. xs ! ((k + i) mod length xs)) [1..<Suc n]"
    unfolding One_nat_def map_Suc_upt [symmetric] map_map by (simp add: mod_add_left_eq)
  finally show ?case
    using g a Suc.prems(5) by (simp add: upt_conv_Cons del: upt_Suc)
qed simp

lemma turn_indices:
  fixes k n :: nat
  assumes "k < n"
  shows "(\<lambda>i. (k + i) mod n) ` {0..<n} = {0..<n}"
proof
  show "(\<lambda>i. (k + i) mod n) ` {0..<n} \<subseteq> {0..<n}" using assms by auto
  show "{0..<n} \<subseteq> (\<lambda>i. (k + i) mod n) ` {0..<n}"
  proof
    fix m assume "m \<in> {0..<n}"
    then have m: "m < n" by simp
    show "m \<in> (\<lambda>i. (k + i) mod n) ` {0..<n}"
    proof (cases "k \<le> m")
      case True
      then show ?thesis using m by (intro image_eqI [of _ _ "m - k"]) simp_all
    next
      case False
      then show ?thesis using m assms by (intro image_eqI [of _ _ "m + n - k"]) simp_all
    qed
  qed
qed

text \<open>In as many turns as there are active pipes of the best priority each of them comes once.\<close>

definition best :: "nn_priolist \<Rightarrow> nat set" where
  "best pl = {p \<in> active pl. \<forall>q \<in> active pl. pl_priority pl p \<le> pl_priority pl q}"

lemma turns_best:
  assumes "priolist_ok pl"
  shows "distinct (turns (card (best pl)) pl)" "set (turns (card (best pl)) pl) = best pl"
proof -
  note D = priolist_okD [OF assms]
  have "distinct (turns (card (best pl)) pl) \<and> set (turns (card (best pl)) pl) = best pl"
    using D(4)
  proof (cases rule: current_ok_cases)
    case none
    then have "best pl = {}" using active_nth [OF D(1)] D(1) by (auto simp: best_def)
    then show ?thesis by simp
  next
    case (some j)
    have j: "j < NN_PRIOLIST_SLOTS" using some(2) D(1) by simp
    let ?xs = "sl_pipes (pl_slots pl ! j)"
    obtain p where p: "sl_current (pl_slots pl ! j) = Some p" "p \<in> set ?xs"
      using D(2) [OF j] some(3) by (auto simp: slot_ok_def split: option.splits)
    then obtain k where k: "k < length ?xs" "?xs ! k = p" by (auto simp: in_set_conv_nth)
    have d: "distinct ?xs" using D(2) [OF j] by (simp add: slot_ok_def)
    have sl: "pl_slots pl ! j = \<lparr>sl_pipes = ?xs, sl_current = Some (?xs ! k)\<rparr>" using p k by simp
    note T = turns_round [OF some(1,2) sl d k(1) D(1)]
    have prio: "pl_priority pl q = Suc i" "q \<in> active pl" if "i < NN_PRIOLIST_SLOTS" "q \<in> set (sl_pipes (pl_slots pl ! i))" for i q
      using D(3) [OF that] active_nth [OF D(1)] that by blast+
    have "best pl = set ?xs"
    proof (intro equalityI subsetI)
      fix q assume q: "q \<in> best pl"
      then obtain i where i: "i < NN_PRIOLIST_SLOTS" "q \<in> set (sl_pipes (pl_slots pl ! i))"
        using active_nth [OF D(1)] by (auto simp: best_def)
      have "\<not> i < j" using i(2) some(4) by auto
      moreover have "pl_priority pl q \<le> Suc j" using q prio [OF j p(2)] by (auto simp: best_def)
      ultimately have "i = j" using prio(1) [OF i] by simp
      with i(2) show "q \<in> set ?xs" by simp
    next
      fix q assume q: "q \<in> set ?xs"
      have "Suc j \<le> pl_priority pl x" if "x \<in> active pl" for x
      proof -
        from that obtain i where i: "i < NN_PRIOLIST_SLOTS" "x \<in> set (sl_pipes (pl_slots pl ! i))"
          using active_nth [OF D(1)] by blast
        have "\<not> i < j" using i(2) some(4) by auto
        then show ?thesis using prio(1) [OF i] by simp
      qed
      then show "q \<in> best pl" using prio [OF j q] by (simp add: best_def)
    qed
    moreover have "card (set ?xs) = length ?xs" using d by (rule distinct_card)
    ultimately have t: "turns (card (best pl)) pl = map (\<lambda>i. ?xs ! ((k + i) mod length ?xs)) [0..<length ?xs]"
      using T by simp
    have "set (turns (card (best pl)) pl) = (!) ?xs ` (\<lambda>i. (k + i) mod length ?xs) ` {0..<length ?xs}"
      unfolding t by (simp add: image_image)
    also have "\<dots> = (!) ?xs ` {0..<length ?xs}" using turn_indices [OF k(1)] by simp
    also have "\<dots> = best pl" using \<open>best pl = set ?xs\<close> by (simp add: set_conv_nth image_def) (metis atLeastLessThan_iff le0)
    finally have s: "set (turns (card (best pl)) pl) = best pl" .
    have "length (turns (card (best pl)) pl) = card (best pl)" using t by (simp add: \<open>best pl = set ?xs\<close> \<open>card (set ?xs) = length ?xs\<close>)
    with s show ?thesis by (simp add: card_distinct)
  qed
  then show "distinct (turns (card (best pl)) pl)" "set (turns (card (best pl)) pl) = best pl" by blast+
qed

lemma getpipe_best:
  assumes "priolist_ok pl" "active pl \<noteq> {}"
  shows "\<exists>p. nn_priolist_getpipe pl = Some (Some p) \<and> p \<in> best pl"
proof -
  note D = priolist_okD [OF assms(1)]
  note G = getpipe_ok [OF assms(1)]
  from D(4) have "\<exists>p. nn_priolist_getpipe pl = Some (Some p)"
  proof (cases rule: current_ok_cases)
    case none
    then show ?thesis using assms(2) active_nth [OF D(1)] D(1) by auto
  next
    case (some j)
    have nj: "nat (pl_current pl) - 1 = j" unfolding some(1) nat_int by simp
    have "j < NN_PRIOLIST_SLOTS" using some(2) D(1) by simp
    from D(2) [OF this] some(3) obtain p where "sl_current (pl_slots pl ! j) = Some p"
      by (auto simp: slot_ok_def split: option.splits)
    then show ?thesis using nj some(1) by (simp add: nn_priolist_getpipe_def)
  qed
  then show ?thesis using G(2) by (auto simp: best_def)
qed

end
