(* ===== verification/Nn_Pipes.thy ===== *)
theory Nn_Pipes
  imports Nn_Priolist
begin

text \<open>
  Pipes, \<open>src/core/pipe.c\<close> of nanomsg, and the two ways the sockets use many of them: the fair queue for receiving,
  \<open>protocols/utils/fq.c\<close>, and the load balancer for sending, \<open>lb.c\<close>, both a prioritised list.

  What a transport does with a message is the parameter \<open>transport\<close>: \<open>t_send\<close> takes a message and says whether it was sent at
  once (it then calls \<open>nn_pipebase_sent\<close> before it returns); \<open>t_recv\<close> gives the message that has arrived, whether it
  comes with its header split off, and whether the next one is there already.

  The outer option of a result is a failed assertion, the inner one the result \<open>-EAGAIN\<close>.
\<close>

section \<open>Messages and transports\<close>

record msg =
  m_sphdr :: bytes
  m_body :: bytes

record 't transport =
  t_send :: "nat \<Rightarrow> msg \<Rightarrow> 't \<Rightarrow> bool \<times> 't"
  t_recv :: "nat \<Rightarrow> 't \<Rightarrow> bool \<times> msg \<times> bool \<times> 't"

section \<open>Pipes\<close>

datatype pipe_state = PIPEBASE_IDLE | PIPEBASE_ACTIVE | PIPEBASE_FAILED

datatype io_state = IO_DEACTIVATED | IO_IDLE | IO_BUSY | IO_DONE | IO_ASYNC

text \<open>
  The states of the two directions are named alike: \<open>IO_BUSY\<close> is receiving or sending, \<open>IO_DONE\<close> received or sent.
  The flags say whether an event is raised and has not been seen by the socket.
\<close>

record pipebase =
  pb_state :: pipe_state
  pb_instate :: io_state
  pb_outstate :: io_state
  pb_sndprio :: nat
  pb_rcvprio :: nat
  pb_in :: bool
  pb_out :: bool

definition nn_pipebase_init :: "nat \<Rightarrow> nat \<Rightarrow> pipebase" where
  "nn_pipebase_init sndprio rcvprio =
     \<lparr>pb_state = PIPEBASE_IDLE, pb_instate = IO_DEACTIVATED, pb_outstate = IO_DEACTIVATED,
      pb_sndprio = sndprio, pb_rcvprio = rcvprio, pb_in = False, pb_out = False\<rparr>"

text \<open>Whether the socket accepts the pipe is the parameter \<open>added\<close>.\<close>

definition nn_pipebase_start :: "bool \<Rightarrow> pipebase \<Rightarrow> pipebase option" where
  "nn_pipebase_start added self =
     (if pb_state self \<noteq> PIPEBASE_IDLE then None
      else let self' = self\<lparr>pb_state := PIPEBASE_ACTIVE, pb_instate := IO_ASYNC, pb_outstate := IO_IDLE\<rparr> in
        Some (if added then self'\<lparr>pb_out := True\<rparr> else self'\<lparr>pb_state := PIPEBASE_FAILED\<rparr>))"

definition nn_pipebase_stop :: "pipebase \<Rightarrow> pipebase" where
  "nn_pipebase_stop self = self\<lparr>pb_state := PIPEBASE_IDLE\<rparr>"

definition nn_pipebase_received :: "pipebase \<Rightarrow> pipebase option" where
  "nn_pipebase_received self =
     (if pb_instate self = IO_BUSY then Some (self\<lparr>pb_instate := IO_DONE\<rparr>)
      else if pb_instate self \<noteq> IO_ASYNC then None
      else Some (self\<lparr>pb_instate := IO_IDLE, pb_in := True\<rparr>))"

definition nn_pipebase_sent :: "pipebase \<Rightarrow> pipebase option" where
  "nn_pipebase_sent self =
     (if pb_outstate self = IO_BUSY then Some (self\<lparr>pb_outstate := IO_DONE\<rparr>)
      else if pb_outstate self \<noteq> IO_ASYNC then None
      else Some (self\<lparr>pb_outstate := IO_IDLE, pb_out := True\<rparr>))"

text \<open>All pipes and the state of the transports.\<close>

record 't net =
  n_pipes :: "nat \<Rightarrow> pipebase"
  n_trans :: 't

definition put_pipe :: "nat \<Rightarrow> pipebase \<Rightarrow> 't net \<Rightarrow> 't net" where
  "put_pipe p pb n = n\<lparr>n_pipes := (n_pipes n)(p := pb)\<rparr>"

text \<open>Sending on a pipe, with whether the pipe is released.\<close>

definition nn_pipe_send :: "'t transport \<Rightarrow> nat \<Rightarrow> msg \<Rightarrow> 't net \<Rightarrow> (bool \<times> 't net) option" where
  "nn_pipe_send T p m n =
     (let pb = n_pipes n p in
      if pb_outstate pb \<noteq> IO_IDLE then None
      else case t_send T p m (n_trans n) of
        (sync, t) \<Rightarrow>
          (case (if sync then nn_pipebase_sent (pb\<lparr>pb_outstate := IO_BUSY\<rparr>) else Some (pb\<lparr>pb_outstate := IO_BUSY\<rparr>)) of
             None \<Rightarrow> None
           | Some pb' \<Rightarrow>
               if pb_outstate pb' = IO_DONE
               then Some (False, put_pipe p (pb'\<lparr>pb_outstate := IO_IDLE\<rparr>) (n\<lparr>n_trans := t\<rparr>))
               else if pb_outstate pb' \<noteq> IO_BUSY then None
               else Some (True, put_pipe p (pb'\<lparr>pb_outstate := IO_ASYNC\<rparr>) (n\<lparr>n_trans := t\<rparr>))))"

text \<open>Receiving: whether the pipe is released, whether the message is split already, and the message.\<close>

definition nn_pipe_recv :: "'t transport \<Rightarrow> nat \<Rightarrow> 't net \<Rightarrow> (bool \<times> bool \<times> msg \<times> 't net) option" where
  "nn_pipe_recv T p n =
     (let pb = n_pipes n p in
      if pb_instate pb \<noteq> IO_IDLE then None
      else case t_recv T p (n_trans n) of
        (parsed, m, nxt, t) \<Rightarrow>
          (case (if nxt then nn_pipebase_received (pb\<lparr>pb_instate := IO_BUSY\<rparr>) else Some (pb\<lparr>pb_instate := IO_BUSY\<rparr>)) of
             None \<Rightarrow> None
           | Some pb' \<Rightarrow>
               if pb_instate pb' = IO_DONE
               then Some (False, parsed, m, put_pipe p (pb'\<lparr>pb_instate := IO_IDLE\<rparr>) (n\<lparr>n_trans := t\<rparr>))
               else if pb_instate pb' \<noteq> IO_BUSY then None
               else Some (True, parsed, m, put_pipe p (pb'\<lparr>pb_instate := IO_ASYNC\<rparr>) (n\<lparr>n_trans := t\<rparr>))))"

section \<open>The fair queue\<close>

definition nn_fq_init :: nn_priolist where "nn_fq_init = nn_priolist_init"
definition nn_fq_add :: "nn_priolist \<Rightarrow> nat \<Rightarrow> nat \<Rightarrow> nn_priolist" where "nn_fq_add = nn_priolist_add"
definition nn_fq_rm :: "nn_priolist \<Rightarrow> nat \<Rightarrow> nn_priolist" where "nn_fq_rm = nn_priolist_rm"
definition nn_fq_in :: "nn_priolist \<Rightarrow> nat \<Rightarrow> nn_priolist option" where "nn_fq_in = nn_priolist_activate"
definition nn_fq_can_recv :: "nn_priolist \<Rightarrow> bool" where "nn_fq_can_recv = nn_priolist_is_active"

definition nn_fq_recv ::
    "'t transport \<Rightarrow> nn_priolist \<Rightarrow> 't net \<Rightarrow> ((nat \<times> bool \<times> msg) option \<times> nn_priolist \<times> 't net) option" where
  "nn_fq_recv T self n =
     (case nn_priolist_getpipe self of
        None \<Rightarrow> None
      | Some None \<Rightarrow> Some (None, self, n)
      | Some (Some p) \<Rightarrow>
          (case nn_pipe_recv T p n of
             None \<Rightarrow> None
           | Some (release, parsed, m, n') \<Rightarrow>
               (case nn_priolist_advance self release of
                  None \<Rightarrow> None
                | Some self' \<Rightarrow> Some (Some (p, parsed, m), self', n'))))"

section \<open>The load balancer\<close>

definition nn_lb_init :: nn_priolist where "nn_lb_init = nn_priolist_init"
definition nn_lb_add :: "nn_priolist \<Rightarrow> nat \<Rightarrow> nat \<Rightarrow> nn_priolist" where "nn_lb_add = nn_priolist_add"
definition nn_lb_rm :: "nn_priolist \<Rightarrow> nat \<Rightarrow> nn_priolist" where "nn_lb_rm = nn_priolist_rm"
definition nn_lb_out :: "nn_priolist \<Rightarrow> nat \<Rightarrow> nn_priolist option" where "nn_lb_out = nn_priolist_activate"
definition nn_lb_can_send :: "nn_priolist \<Rightarrow> bool" where "nn_lb_can_send = nn_priolist_is_active"
definition nn_lb_get_priority :: "nn_priolist \<Rightarrow> int" where "nn_lb_get_priority = nn_priolist_get_priority"

text \<open>
  What is recorded of the current priority, by the case \<open>NN_STAT_CURRENT_SND_PRIORITY\<close> of \<open>nn_sock_stat_increment\<close>: a
  priority, or \<open>-1\<close> when no pipe can send. Anything else fails an assertion.
\<close>

definition stat_snd_priority :: "int \<Rightarrow> int option" where
  "stat_snd_priority increment =
     (if 0 < increment \<and> increment \<le> 16 \<or> increment = - 1 then Some increment else None)"

text \<open>The pipe the message was sent to.\<close>

definition nn_lb_send ::
    "'t transport \<Rightarrow> nn_priolist \<Rightarrow> msg \<Rightarrow> 't net \<Rightarrow> (nat option \<times> nn_priolist \<times> 't net) option" where
  "nn_lb_send T self m n =
     (case nn_priolist_getpipe self of
        None \<Rightarrow> None
      | Some None \<Rightarrow> Some (None, self, n)
      | Some (Some p) \<Rightarrow>
          (case nn_pipe_send T p m n of
             None \<Rightarrow> None
           | Some (release, n') \<Rightarrow>
               (case nn_priolist_advance self release of
                  None \<Rightarrow> None
                | Some self' \<Rightarrow> Some (Some p, self', n'))))"

lemmas fq_defs = nn_fq_init_def nn_fq_add_def nn_fq_rm_def nn_fq_in_def nn_fq_can_recv_def
lemmas lb_defs = nn_lb_init_def nn_lb_add_def nn_lb_rm_def nn_lb_out_def nn_lb_can_send_def nn_lb_get_priority_def

text \<open>The current priority of a priority list is one that can be recorded.\<close>

lemma stat_priority_ok: "priolist_ok lb \<Longrightarrow> stat_snd_priority (nn_lb_get_priority lb) = Some (pl_current lb)"
  by (auto simp: priolist_ok_def current_ok_def stat_snd_priority_def nn_lb_get_priority_def
      nn_priolist_get_priority_def NN_PRIOLIST_SLOTS_def split: if_splits)

section \<open>Only idle pipes are used\<close>

text \<open>
  The fair queue and the pipes fit together when a pipe in the queue is one whose message has arrived; so with the load
  balancer and the pipes that can send.
\<close>

definition fq_ok :: "nn_priolist \<Rightarrow> 't net \<Rightarrow> bool" where
  "fq_ok fq n \<longleftrightarrow> priolist_ok fq \<and> (\<forall>p \<in> active fq. pb_instate (n_pipes n p) = IO_IDLE)"

definition lb_ok :: "nn_priolist \<Rightarrow> 't net \<Rightarrow> bool" where
  "lb_ok lb n \<longleftrightarrow> priolist_ok lb \<and> (\<forall>p \<in> active lb. pb_outstate (n_pipes n p) = IO_IDLE)"

lemma pipe_recv:
  assumes "pb_instate (n_pipes n p) = IO_IDLE" "t_recv T p (n_trans n) = (parsed, m, nxt, t)"
  shows "\<exists>n'. nn_pipe_recv T p n = Some (\<not> nxt, parsed, m, n') \<and> n_trans n' = t \<and>
    pb_instate (n_pipes n' p) = (if nxt then IO_IDLE else IO_ASYNC) \<and>
    pb_outstate (n_pipes n' p) = pb_outstate (n_pipes n p) \<and> (\<forall>q. q \<noteq> p \<longrightarrow> n_pipes n' q = n_pipes n q)"
  using assms by (simp add: nn_pipe_recv_def nn_pipebase_received_def put_pipe_def Let_def)

lemma pipe_send:
  assumes "pb_outstate (n_pipes n p) = IO_IDLE" "t_send T p m (n_trans n) = (sync, t)"
  shows "\<exists>n'. nn_pipe_send T p m n = Some (\<not> sync, n') \<and> n_trans n' = t \<and>
    pb_outstate (n_pipes n' p) = (if sync then IO_IDLE else IO_ASYNC) \<and>
    pb_instate (n_pipes n' p) = pb_instate (n_pipes n p) \<and> (\<forall>q. q \<noteq> p \<longrightarrow> n_pipes n' q = n_pipes n q)"
  using assms by (simp add: nn_pipe_send_def nn_pipebase_sent_def put_pipe_def Let_def)

text \<open>Receiving never fails an assertion, and takes a message of the best priority there is.\<close>

lemma fq_recv:
  assumes "fq_ok fq n"
  shows "active fq = {} \<Longrightarrow> nn_fq_recv T fq n = Some (None, fq, n)"
    and "active fq \<noteq> {} \<Longrightarrow> \<exists>p parsed m nxt t fq' n'.
      nn_fq_recv T fq n = Some (Some (p, parsed, m), fq', n') \<and> p \<in> best fq \<and>
      t_recv T p (n_trans n) = (parsed, m, nxt, t) \<and> n_trans n' = t \<and> fq_ok fq' n' \<and>
      active fq' = (if nxt then active fq else active fq - {p}) \<and> pl_priority fq' = pl_priority fq \<and>
      (\<forall>q. pb_outstate (n_pipes n' q) = pb_outstate (n_pipes n q))"
proof -
  have ok: "priolist_ok fq" "\<And>p. p \<in> active fq \<Longrightarrow> pb_instate (n_pipes n p) = IO_IDLE"
    using assms by (simp_all add: fq_ok_def)
  note G = getpipe_ok [OF ok(1)]
  show "nn_fq_recv T fq n = Some (None, fq, n)" if "active fq = {}"
    using that G(1) by (simp add: nn_fq_recv_def)
  show "\<exists>p parsed m nxt t fq' n'.
      nn_fq_recv T fq n = Some (Some (p, parsed, m), fq', n') \<and> p \<in> best fq \<and>
      t_recv T p (n_trans n) = (parsed, m, nxt, t) \<and> n_trans n' = t \<and> fq_ok fq' n' \<and>
      active fq' = (if nxt then active fq else active fq - {p}) \<and> pl_priority fq' = pl_priority fq \<and>
      (\<forall>q. pb_outstate (n_pipes n' q) = pb_outstate (n_pipes n q))" if ne: "active fq \<noteq> {}"
  proof -
    obtain p where p: "nn_priolist_getpipe fq = Some (Some p)" "p \<in> best fq"
      using getpipe_best [OF ok(1) ne] by blast
    obtain parsed m nxt t where r: "t_recv T p (n_trans n) = (parsed, m, nxt, t)" by (metis prod_cases4)
    have "p \<in> active fq" using p(2) by (simp add: best_def)
    from pipe_recv [OF ok(2) [OF this] r] obtain n' where
      n': "nn_pipe_recv T p n = Some (\<not> nxt, parsed, m, n')" "n_trans n' = t"
        "pb_instate (n_pipes n' p) = (if nxt then IO_IDLE else IO_ASYNC)"
        "pb_outstate (n_pipes n' p) = pb_outstate (n_pipes n p)" "\<forall>q. q \<noteq> p \<longrightarrow> n_pipes n' q = n_pipes n q" by blast
    from advance_ok [OF ok(1) p(1), of "\<not> nxt"] obtain fq' where
      fq': "nn_priolist_advance fq (\<not> nxt) = Some fq'" "priolist_ok fq'"
        "active fq' = (if \<not> nxt then active fq - {p} else active fq)" "pl_priority fq' = pl_priority fq" by blast
    have "pb_instate (n_pipes n' q) = IO_IDLE" if "q \<in> active fq'" for q
      using that fq'(3) n'(3,5) ok(2) by (cases "q = p") (auto split: if_splits)
    moreover have "pb_outstate (n_pipes n' q) = pb_outstate (n_pipes n q)" for q
      using n'(4,5) by (cases "q = p") simp_all
    ultimately show ?thesis
      using p r n'(1,2) fq' by (auto simp: nn_fq_recv_def fq_ok_def)
  qed
qed

text \<open>So with sending.\<close>

lemma lb_send:
  assumes "lb_ok lb n"
  shows "active lb = {} \<Longrightarrow> nn_lb_send T lb m n = Some (None, lb, n)"
    and "active lb \<noteq> {} \<Longrightarrow> \<exists>p sync t lb' n'.
      nn_lb_send T lb m n = Some (Some p, lb', n') \<and> p \<in> best lb \<and>
      t_send T p m (n_trans n) = (sync, t) \<and> n_trans n' = t \<and> lb_ok lb' n' \<and>
      active lb' = (if sync then active lb else active lb - {p}) \<and> pl_priority lb' = pl_priority lb \<and>
      (\<forall>q. pb_instate (n_pipes n' q) = pb_instate (n_pipes n q))"
proof -
  have ok: "priolist_ok lb" "\<And>p. p \<in> active lb \<Longrightarrow> pb_outstate (n_pipes n p) = IO_IDLE"
    using assms by (simp_all add: lb_ok_def)
  note G = getpipe_ok [OF ok(1)]
  show "nn_lb_send T lb m n = Some (None, lb, n)" if "active lb = {}"
    using that G(1) by (simp add: nn_lb_send_def)
  show "\<exists>p sync t lb' n'.
      nn_lb_send T lb m n = Some (Some p, lb', n') \<and> p \<in> best lb \<and>
      t_send T p m (n_trans n) = (sync, t) \<and> n_trans n' = t \<and> lb_ok lb' n' \<and>
      active lb' = (if sync then active lb else active lb - {p}) \<and> pl_priority lb' = pl_priority lb \<and>
      (\<forall>q. pb_instate (n_pipes n' q) = pb_instate (n_pipes n q))" if ne: "active lb \<noteq> {}"
  proof -
    obtain p where p: "nn_priolist_getpipe lb = Some (Some p)" "p \<in> best lb"
      using getpipe_best [OF ok(1) ne] by blast
    obtain sync t where r: "t_send T p m (n_trans n) = (sync, t)" by (metis surj_pair)
    have "p \<in> active lb" using p(2) by (simp add: best_def)
    from pipe_send [OF ok(2) [OF this] r] obtain n' where
      n': "nn_pipe_send T p m n = Some (\<not> sync, n')" "n_trans n' = t"
        "pb_outstate (n_pipes n' p) = (if sync then IO_IDLE else IO_ASYNC)"
        "pb_instate (n_pipes n' p) = pb_instate (n_pipes n p)" "\<forall>q. q \<noteq> p \<longrightarrow> n_pipes n' q = n_pipes n q" by blast
    from advance_ok [OF ok(1) p(1), of "\<not> sync"] obtain lb' where
      lb': "nn_priolist_advance lb (\<not> sync) = Some lb'" "priolist_ok lb'"
        "active lb' = (if \<not> sync then active lb - {p} else active lb)" "pl_priority lb' = pl_priority lb" by blast
    have "pb_outstate (n_pipes n' q) = IO_IDLE" if "q \<in> active lb'" for q
      using that lb'(3) n'(3,5) ok(2) by (cases "q = p") (auto split: if_splits)
    moreover have "pb_instate (n_pipes n' q) = pb_instate (n_pipes n q)" for q
      using n'(4,5) by (cases "q = p") simp_all
    ultimately show ?thesis
      using p r n'(1,2) lb' by (auto simp: nn_lb_send_def lb_ok_def)
  qed
qed

end
