(* ===== verification/Nn_Wire.thy ===== *)
theory Nn_Wire
  imports Prelude
begin

text \<open>
  Integers in network order, \<open>src/utils/wire.c\<close> of nanomsg. The \<open>put\<close> functions return the bytes they
  write; the \<open>get\<close> functions read the front of a buffer.
\<close>

definition nn_gets :: "bytes \<Rightarrow> 16 word" where
  "nn_gets buf = push_bit 8 (ucast (buf ! 0)) OR ucast (buf ! 1)"

definition nn_puts :: "16 word \<Rightarrow> bytes" where
  "nn_puts val = [ucast (drop_bit 8 val AND 0xff), ucast (val AND 0xff)]"

definition nn_getl :: "bytes \<Rightarrow> u32" where
  "nn_getl buf = push_bit 24 (ucast (buf ! 0)) OR push_bit 16 (ucast (buf ! 1)) OR
     push_bit 8 (ucast (buf ! 2)) OR ucast (buf ! 3)"

definition nn_putl :: "u32 \<Rightarrow> bytes" where
  "nn_putl val = [ucast (drop_bit 24 val AND 0xff), ucast (drop_bit 16 val AND 0xff),
     ucast (drop_bit 8 val AND 0xff), ucast (val AND 0xff)]"

definition nn_getll :: "bytes \<Rightarrow> u64" where
  "nn_getll buf = push_bit 56 (ucast (buf ! 0)) OR push_bit 48 (ucast (buf ! 1)) OR
     push_bit 40 (ucast (buf ! 2)) OR push_bit 32 (ucast (buf ! 3)) OR
     push_bit 24 (ucast (buf ! 4)) OR push_bit 16 (ucast (buf ! 5)) OR
     push_bit 8 (ucast (buf ! 6)) OR push_bit 0 (ucast (buf ! 7))"

definition nn_putll :: "u64 \<Rightarrow> bytes" where
  "nn_putll val = [ucast (drop_bit 56 val AND 0xff), ucast (drop_bit 48 val AND 0xff),
     ucast (drop_bit 40 val AND 0xff), ucast (drop_bit 32 val AND 0xff),
     ucast (drop_bit 24 val AND 0xff), ucast (drop_bit 16 val AND 0xff),
     ucast (drop_bit 8 val AND 0xff), ucast (val AND 0xff)]"

section \<open>Both ways\<close>

lemma byte_and: "(ucast (w AND 0xff :: 'a::len word) :: byte) = ucast w"
proof -
  have "(0xff :: 'a word) = mask 8" by (simp add: mask_eq_exp_minus_1)
  then have "w AND 0xff = take_bit 8 w" by (simp only: take_bit_eq_mask)
  moreover have "(ucast (take_bit 8 w) :: byte) = ucast w" by (rule bit_word_eqI) (auto simp: bit_simps)
  ultimately show ?thesis by simp
qed

lemmas wire_defs = nn_gets_def nn_puts_def nn_getl_def nn_putl_def nn_getll_def nn_putll_def

lemma length_put [simp]: "length (nn_puts s) = 2" "length (nn_putl l) = 4" "length (nn_putll ll) = 8"
  by (simp_all add: nn_puts_def nn_putl_def nn_putll_def)

lemma get_put [simp]:
  "nn_gets (nn_puts s @ r) = s" "nn_getl (nn_putl l @ r) = l" "nn_getll (nn_putll ll @ r) = ll"
proof -
  show "nn_gets (nn_puts s @ r) = s"
    by (rule bit_word_eqI) (auto simp: wire_defs byte_and bit_simps)
  show "nn_getl (nn_putl l @ r) = l"
  proof (rule bit_word_eqI)
    fix n
    show "bit (nn_getl (nn_putl l @ r)) n \<longleftrightarrow> bit l n" if "n < LENGTH(32)"
      using that by (cases "n < 8"; cases "n < 16"; cases "n < 24") (auto simp: wire_defs byte_and bit_simps)
  qed
  show "nn_getll (nn_putll ll @ r) = ll"
  proof (rule bit_word_eqI)
    fix n
    assume n: "n < LENGTH(64)"
    then consider "n < 8" | "8 \<le> n" "n < 16" | "16 \<le> n" "n < 24" | "24 \<le> n" "n < 32" | "32 \<le> n" "n < 40"
      | "40 \<le> n" "n < 48" | "48 \<le> n" "n < 56" | "56 \<le> n" by linarith
    then show "bit (nn_getll (nn_putll ll @ r)) n \<longleftrightarrow> bit ll n"
      using n by cases (auto simp: wire_defs byte_and bit_simps)
  qed
qed

lemma length_two: "length b = 2 \<longleftrightarrow> (\<exists>p q. b = [p, q])"
  by (auto simp: length_Suc_conv numeral_2_eq_2)

lemma length_four: "length b = 4 \<longleftrightarrow> (\<exists>p q r s. b = [p, q, r, s])"
  by (auto simp: length_Suc_conv numeral_eq_Suc)

lemma length_eight: "length b = 8 \<longleftrightarrow> (\<exists>p q r s t u v w. b = [p, q, r, s, t, u, v, w])"
  by (auto simp: length_Suc_conv numeral_eq_Suc)

lemma bit_byte_high: "\<not> bit (b :: byte) (8 + n)" "\<not> bit (b :: byte) (16 + n)" "\<not> bit (b :: byte) (24 + n)"
    "\<not> bit (b :: byte) (32 + n)" "\<not> bit (b :: byte) (40 + n)" "\<not> bit (b :: byte) (48 + n)" "\<not> bit (b :: byte) (56 + n)"
  by (auto dest: bit_imp_le_length)

lemma bytes_get_put:
  "length b = 2 \<Longrightarrow> nn_puts (nn_gets b) = b"
  "length b = 4 \<Longrightarrow> nn_putl (nn_getl b) = b"
  "length b = 8 \<Longrightarrow> nn_putll (nn_getll b) = b"
  by (auto simp: length_two length_four length_eight wire_defs byte_and bit_simps bit_byte_high intro!: bit_word_eqI)

end
