(* ===== verification/Nn_Req.thy ===== *)
theory Nn_Req
  imports Nn_Pipes Nn_Wire
begin

text \<open>
  The requester's socket of the request/reply protocol of nanomsg, the one the client of the file system sends its requests
  with: the raw socket of \<open>protocols/reqrep/xreq.c\<close> below, the state machine of \<open>req.c\<close> above, and the re-send timer of
  \<open>aio/timer.c\<close> as its owner sees it.

  The pipes of the socket and the transport are those of \<open>Nn_Pipes\<close>. A failed assertion is \<open>None\<close>. Messages
  are values; \<open>rq_live\<close> says whether the stored reply is a message or the remains of one that \<open>nn_msg_term\<close> was called on.
\<close>

definition EAGAIN :: int where "EAGAIN = 11"
definition EINVAL_opt :: int where "EINVAL_opt = 22"
definition EFSM :: int where "EFSM = 156384766"
definition ENOPROTOOPT :: int where "ENOPROTOOPT = 92"

lemmas nn_errnos = EAGAIN_def EINVAL_opt_def EFSM_def ENOPROTOOPT_def

section \<open>The raw socket\<close>

record 't xreq =
  xq_lb :: nn_priolist
  xq_fq :: nn_priolist
  xq_net :: "'t net"
  xq_snd_priority :: int   \<comment> \<open>\<open>statistics.current_snd_priority\<close> of the socket\<close>

definition nn_xreq_init :: "'t net \<Rightarrow> 't xreq" where
  "nn_xreq_init n = \<lparr>xq_lb = nn_lb_init, xq_fq = nn_fq_init, xq_net = n, xq_snd_priority = 0\<rparr>"

definition nn_xreq_add :: "nat \<Rightarrow> 't xreq \<Rightarrow> 't xreq option" where
  "nn_xreq_add pipe self =
     (let sndprio = pb_sndprio (n_pipes (xq_net self) pipe); rcvprio = pb_rcvprio (n_pipes (xq_net self) pipe) in
      if \<not> (1 \<le> sndprio \<and> sndprio \<le> 16) \<or> \<not> (1 \<le> rcvprio \<and> rcvprio \<le> 16) then None
      else Some (self\<lparr>xq_lb := nn_lb_add (xq_lb self) pipe sndprio, xq_fq := nn_fq_add (xq_fq self) pipe rcvprio\<rparr>))"

definition nn_xreq_rm :: "nat \<Rightarrow> 't xreq \<Rightarrow> 't xreq option" where
  "nn_xreq_rm pipe self =
     (let lb = nn_lb_rm (xq_lb self) pipe; fq = nn_fq_rm (xq_fq self) pipe in
      map_option (\<lambda>prio. self\<lparr>xq_lb := lb, xq_fq := fq, xq_snd_priority := prio\<rparr>)
        (stat_snd_priority (nn_lb_get_priority lb)))"

definition nn_xreq_in :: "nat \<Rightarrow> 't xreq \<Rightarrow> 't xreq option" where
  "nn_xreq_in pipe self = map_option (\<lambda>fq. self\<lparr>xq_fq := fq\<rparr>) (nn_fq_in (xq_fq self) pipe)"

definition nn_xreq_out :: "nat \<Rightarrow> 't xreq \<Rightarrow> 't xreq option" where
  "nn_xreq_out pipe self =
     (case nn_lb_out (xq_lb self) pipe of
        None \<Rightarrow> None
      | Some lb \<Rightarrow> map_option (\<lambda>prio. self\<lparr>xq_lb := lb, xq_snd_priority := prio\<rparr>)
          (stat_snd_priority (nn_lb_get_priority lb)))"

text \<open>Whether something can be received, and whether something can be sent.\<close>

definition nn_xreq_events :: "'t xreq \<Rightarrow> bool \<times> bool" where
  "nn_xreq_events self = (nn_fq_can_recv (xq_fq self), nn_lb_can_send (xq_lb self))"

definition nn_xreq_send_to :: "'t transport \<Rightarrow> msg \<Rightarrow> 't xreq \<Rightarrow> (nat option \<times> 't xreq) option" where
  "nn_xreq_send_to T m self =
     (case nn_lb_send T (xq_lb self) m (xq_net self) of
        None \<Rightarrow> None
      | Some (to, lb, n) \<Rightarrow> Some (to, self\<lparr>xq_lb := lb, xq_net := n\<rparr>))"

definition nn_xreq_send :: "'t transport \<Rightarrow> msg \<Rightarrow> 't xreq \<Rightarrow> (int \<times> 't xreq) option" where
  "nn_xreq_send T m self =
     (case nn_xreq_send_to T m self of
        None \<Rightarrow> None
      | Some (to, self') \<Rightarrow> Some (if to = None then - EAGAIN else 0, self'))"

text \<open>
  The message split into its header, four bytes, and its body, unless the transport has done it. A message that is
  too short is given up, and the result is \<open>-EAGAIN\<close>, as if there were no message; but it has been put
  where the caller wants its message.
\<close>

datatype received = Nothing_there | Malformed msg | Received msg

definition nn_xreq_split :: "bool \<Rightarrow> msg \<Rightarrow> received option" where
  "nn_xreq_split parsed m =
     (if parsed then Some (Received m)
      else if length (m_body m) < 4 then Some (Malformed m)
      else if m_sphdr m \<noteq> [] then None
      else Some (Received \<lparr>m_sphdr = take 4 (m_body m), m_body = drop 4 (m_body m)\<rparr>))"

definition nn_xreq_recv :: "'t transport \<Rightarrow> 't xreq \<Rightarrow> (received \<times> 't xreq) option" where
  "nn_xreq_recv T self =
     (case nn_fq_recv T (xq_fq self) (xq_net self) of
        None \<Rightarrow> None
      | Some (None, fq, n) \<Rightarrow> Some (Nothing_there, self\<lparr>xq_fq := fq, xq_net := n\<rparr>)
      | Some (Some (p, parsed, m), fq, n) \<Rightarrow>
          (case nn_xreq_split parsed m of
             None \<Rightarrow> None
           | Some r \<Rightarrow> Some (r, self\<lparr>xq_fq := fq, xq_net := n\<rparr>)))"

definition nn_xreq_setopt :: int where "nn_xreq_setopt = - ENOPROTOOPT"
definition nn_xreq_getopt :: int where "nn_xreq_getopt = - ENOPROTOOPT"

section \<open>The re-send timer\<close>

text \<open>The states of the state machines of the library, and of the timer.\<close>

datatype fsm_state = FSM_IDLE | FSM_ACTIVE | FSM_STOPPING

record nn_timer =
  tm_fsm :: fsm_state
  tm_state :: fsm_state
  tm_timeout :: int

datatype timer_src = TIMER_START_TASK | TIMER_WORKER_TIMEOUT | TIMER_STOP_TASK

datatype timer_event = TIMER_TIMEOUT | TIMER_STOPPED

definition nn_timer_init :: nn_timer where
  "nn_timer_init = \<lparr>tm_fsm = FSM_IDLE, tm_state = FSM_IDLE, tm_timeout = - 1\<rparr>"

definition nn_timer_isidle :: "nn_timer \<Rightarrow> bool" where
  "nn_timer_isidle self \<longleftrightarrow> tm_fsm self = FSM_IDLE"

definition nn_timer_start :: "int \<Rightarrow> nn_timer \<Rightarrow> nn_timer option" where
  "nn_timer_start timeout self =
     (if timeout < 0 then None
      else if tm_fsm self \<noteq> FSM_IDLE \<or> tm_state self \<noteq> FSM_IDLE then None
      else Some \<lparr>tm_fsm = FSM_ACTIVE, tm_state = FSM_ACTIVE, tm_timeout = timeout\<rparr>)"

definition nn_timer_stop :: "nn_timer \<Rightarrow> nn_timer" where
  "nn_timer_stop self =
     (if tm_fsm self \<noteq> FSM_ACTIVE then self else self\<lparr>tm_fsm := FSM_STOPPING, tm_state := FSM_STOPPING\<rparr>)"

text \<open>What comes from the worker thread, with the event that is raised to the owner.\<close>

definition nn_timer_shutdown :: "timer_src \<Rightarrow> nn_timer \<Rightarrow> (timer_event option \<times> nn_timer) option" where
  "nn_timer_shutdown src self =
     (if tm_state self \<noteq> FSM_STOPPING then None
      else if src \<noteq> TIMER_STOP_TASK then Some (None, self)
      else Some (Some TIMER_STOPPED, self\<lparr>tm_state := FSM_IDLE, tm_fsm := FSM_IDLE\<rparr>))"

definition nn_timer_handler :: "timer_src \<Rightarrow> nn_timer \<Rightarrow> (timer_event option \<times> nn_timer) option" where
  "nn_timer_handler src self =
     (if tm_state self \<noteq> FSM_ACTIVE then None
      else case src of
        TIMER_START_TASK \<Rightarrow> if tm_timeout self < 0 then None else Some (None, self\<lparr>tm_timeout := - 1\<rparr>)
      | TIMER_WORKER_TIMEOUT \<Rightarrow> if tm_timeout self \<noteq> - 1 then None else Some (Some TIMER_TIMEOUT, self)
      | TIMER_STOP_TASK \<Rightarrow> None)"

definition nn_timer_feed :: "timer_src \<Rightarrow> nn_timer \<Rightarrow> (timer_event option \<times> nn_timer) option" where
  "nn_timer_feed src self =
     (if tm_fsm self \<noteq> FSM_STOPPING then nn_timer_handler src self else nn_timer_shutdown src self)"

section \<open>The socket\<close>

definition NN_REQ_DEFAULT_RESEND_IVL :: int where "NN_REQ_DEFAULT_RESEND_IVL = 60000"

datatype req_state =
    REQ_IDLE | REQ_PASSIVE | REQ_DELAYED | REQ_ACTIVE | REQ_TIMED_OUT | REQ_CANCELLING
  | REQ_STOPPING_TIMER | REQ_DONE | REQ_STOPPING

datatype req_event =
    ACTION_START | ACTION_IN | ACTION_OUT | ACTION_SENT | ACTION_RECEIVED | ACTION_PIPE_RM | ACTION_STOP
  | RESEND_TIMER timer_event

record 't req =
  rq_xreq :: "'t xreq"
  rq_fsm :: fsm_state
  rq_state :: req_state
  rq_resend_ivl :: int
  rq_id :: u32
  rq_request :: msg
  rq_reply :: msg
  rq_live :: bool
  rq_timer :: nn_timer
  rq_sent_to :: "nat option"

definition nn_req_inprogress :: "'t req \<Rightarrow> bool" where
  "nn_req_inprogress self \<longleftrightarrow>
     \<not> (rq_state self = REQ_IDLE \<or> rq_state self = REQ_PASSIVE \<or> rq_state self = REQ_STOPPING)"

text \<open>Sending the stored request.\<close>

definition nn_req_action_send :: "'t transport \<Rightarrow> bool \<Rightarrow> 't req \<Rightarrow> 't req option" where
  "nn_req_action_send T allow_delay self =
     (case nn_xreq_send_to T (rq_request self) (rq_xreq self) of
        None \<Rightarrow> None
      | Some (None, x) \<Rightarrow>
          if allow_delay then Some (self\<lparr>rq_xreq := x, rq_state := REQ_DELAYED\<rparr>) else None
      | Some (Some to, x) \<Rightarrow>
          (case nn_timer_start (rq_resend_ivl self) (rq_timer self) of
             None \<Rightarrow> None
           | Some tm \<Rightarrow>
               Some (self\<lparr>rq_xreq := x, rq_timer := tm, rq_sent_to := Some to, rq_state := REQ_ACTIVE\<rparr>)))"

text \<open>The state machine, one definition for each state; an event that a state has no case for fails.\<close>

definition stop_timer :: "req_state \<Rightarrow> 't req \<Rightarrow> 't req" where
  "stop_timer st self = self\<lparr>rq_timer := nn_timer_stop (rq_timer self), rq_sent_to := None, rq_state := st\<rparr>"

definition req_idle :: "req_event \<Rightarrow> 't req \<Rightarrow> 't req option" where
  "req_idle ev self = (if ev = ACTION_START then Some (self\<lparr>rq_state := REQ_PASSIVE\<rparr>) else None)"

definition req_passive :: "'t transport \<Rightarrow> req_event \<Rightarrow> 't req \<Rightarrow> 't req option" where
  "req_passive T ev self = (if ev = ACTION_SENT then nn_req_action_send T True self else None)"

definition req_delayed :: "'t transport \<Rightarrow> req_event \<Rightarrow> 't req \<Rightarrow> 't req option" where
  "req_delayed T ev self =
     (if ev = ACTION_OUT then nn_req_action_send T False self
      else if ev = ACTION_SENT then Some self
      else None)"

definition req_active :: "req_event \<Rightarrow> 't req \<Rightarrow> 't req option" where
  "req_active ev self =
     (if ev = ACTION_IN then Some (stop_timer REQ_STOPPING_TIMER self)
      else if ev = ACTION_SENT then Some (stop_timer REQ_CANCELLING self)
      else if ev = ACTION_PIPE_RM then Some (stop_timer REQ_TIMED_OUT self)
      else if ev = RESEND_TIMER TIMER_TIMEOUT then Some (stop_timer REQ_TIMED_OUT self)
      else None)"

definition req_timed_out :: "'t transport \<Rightarrow> req_event \<Rightarrow> 't req \<Rightarrow> 't req option" where
  "req_timed_out T ev self =
     (if ev = RESEND_TIMER TIMER_STOPPED then nn_req_action_send T True self
      else if ev = ACTION_SENT then Some (self\<lparr>rq_state := REQ_CANCELLING\<rparr>)
      else None)"

definition req_cancelling :: "'t transport \<Rightarrow> req_event \<Rightarrow> 't req \<Rightarrow> 't req option" where
  "req_cancelling T ev self =
     (if ev = RESEND_TIMER TIMER_STOPPED then nn_req_action_send T True self
      else if ev = ACTION_SENT then Some self
      else None)"

definition req_stopping_timer :: "req_event \<Rightarrow> 't req \<Rightarrow> 't req option" where
  "req_stopping_timer ev self =
     (if ev = RESEND_TIMER TIMER_STOPPED then Some (self\<lparr>rq_state := REQ_DONE\<rparr>)
      else if ev = ACTION_SENT then Some (self\<lparr>rq_state := REQ_CANCELLING\<rparr>)
      else None)"

definition req_done :: "'t transport \<Rightarrow> req_event \<Rightarrow> 't req \<Rightarrow> 't req option" where
  "req_done T ev self =
     (if ev = ACTION_RECEIVED then Some (self\<lparr>rq_state := REQ_PASSIVE\<rparr>)
      else if ev = ACTION_SENT then nn_req_action_send T True self
      else None)"

definition nn_req_handler :: "'t transport \<Rightarrow> req_event \<Rightarrow> 't req \<Rightarrow> 't req option" where
  "nn_req_handler T ev self =
     (case rq_state self of
        REQ_IDLE \<Rightarrow> req_idle ev self
      | REQ_PASSIVE \<Rightarrow> req_passive T ev self
      | REQ_DELAYED \<Rightarrow> req_delayed T ev self
      | REQ_ACTIVE \<Rightarrow> req_active ev self
      | REQ_TIMED_OUT \<Rightarrow> req_timed_out T ev self
      | REQ_CANCELLING \<Rightarrow> req_cancelling T ev self
      | REQ_STOPPING_TIMER \<Rightarrow> req_stopping_timer ev self
      | REQ_DONE \<Rightarrow> req_done T ev self
      | REQ_STOPPING \<Rightarrow> None)"

text \<open>Stopping the socket: the timer is stopped first. When it is, the state machine is idle again.\<close>

definition nn_req_shutdown :: "req_event \<Rightarrow> 't req \<Rightarrow> 't req option" where
  "nn_req_shutdown ev self =
     (let self' = (if ev = ACTION_STOP
         then self\<lparr>rq_timer := nn_timer_stop (rq_timer self), rq_state := REQ_STOPPING\<rparr> else self) in
      if rq_state self' \<noteq> REQ_STOPPING then None
      else if \<not> nn_timer_isidle (rq_timer self') then Some self'
      else Some (self'\<lparr>rq_state := REQ_IDLE, rq_fsm := FSM_IDLE\<rparr>))"

definition req_feed :: "'t transport \<Rightarrow> req_event \<Rightarrow> 't req \<Rightarrow> 't req option" where
  "req_feed T ev self =
     (if rq_fsm self \<noteq> FSM_STOPPING then nn_req_handler T ev self else nn_req_shutdown ev self)"

text \<open>The socket is created with a random number as its first identifier.\<close>

definition empty_msg :: msg where "empty_msg = \<lparr>m_sphdr = [], m_body = []\<rparr>"

definition nn_req_init :: "u32 \<Rightarrow> 't net \<Rightarrow> 't req" where
  "nn_req_init lastid n =
     \<lparr>rq_xreq = nn_xreq_init n, rq_fsm = FSM_ACTIVE, rq_state = REQ_PASSIVE,
      rq_resend_ivl = NN_REQ_DEFAULT_RESEND_IVL, rq_id = lastid, rq_request = empty_msg, rq_reply = empty_msg,
      rq_live = True, rq_timer = nn_timer_init, rq_sent_to = None\<rparr>"

definition nn_req_stop :: "'t req \<Rightarrow> 't req option" where
  "nn_req_stop self =
     (if rq_fsm self \<noteq> FSM_ACTIVE then Some self
      else nn_req_shutdown ACTION_STOP (self\<lparr>rq_fsm := FSM_STOPPING\<rparr>))"

text \<open>
  Whether a reply that has arrived is the one waited for. The checks are on the header: its size, the bit that marks
  the bottom of the stack, and the identifier of the last request.
\<close>

definition req_accepts :: "'t req \<Rightarrow> msg \<Rightarrow> bool" where
  "req_accepts self reply \<longleftrightarrow>
     nn_req_inprogress self \<and> length (m_sphdr reply) = 4 \<and>
     nn_getl (m_sphdr reply) AND 0x80000000 \<noteq> 0 \<and> nn_getl (m_sphdr reply) = rq_id self OR 0x80000000"

text \<open>
  Each reply is stored before it is looked at. The loop ends with the first reply that is accepted, or when nothing more
  can be received; it runs on as long as other messages arrive.
\<close>

definition malformed :: "received \<Rightarrow> bool" where
  "malformed r \<longleftrightarrow> (case r of Malformed m \<Rightarrow> True | _ \<Rightarrow> False)"

definition put_received :: "received \<Rightarrow> 't xreq \<Rightarrow> 't req \<Rightarrow> 't req" where
  "put_received r x self =
     (case r of
        Nothing_there \<Rightarrow> self\<lparr>rq_xreq := x\<rparr>
      | Malformed m \<Rightarrow> self\<lparr>rq_xreq := x, rq_reply := m, rq_live := False\<rparr>
      | Received m \<Rightarrow> self\<lparr>rq_xreq := x, rq_reply := m, rq_live := True\<rparr>)"

partial_function (option) req_in_loop :: "'t transport \<Rightarrow> 't req \<Rightarrow> 't req option option" where
  "req_in_loop T self =
     (if nn_xreq_recv T (rq_xreq self) = None then Some None
      else let r = fst (the (nn_xreq_recv T (rq_xreq self)));
               self' = put_received r (snd (the (nn_xreq_recv T (rq_xreq self)))) self in
        if r = Nothing_there \<or> malformed r then Some (Some self')
        else if \<not> req_accepts self' (rq_reply self') then req_in_loop T (self'\<lparr>rq_live := False\<rparr>)
        else let self'' = self'\<lparr>rq_reply := (rq_reply self')\<lparr>m_sphdr := []\<rparr>\<rparr> in
          Some (if rq_state self'' = REQ_ACTIVE then req_feed T ACTION_IN self'' else Some self''))"

definition nn_req_in :: "'t transport \<Rightarrow> nat \<Rightarrow> 't req \<Rightarrow> 't req option option" where
  "nn_req_in T pipe self =
     (case nn_xreq_in pipe (rq_xreq self) of
        None \<Rightarrow> Some None
      | Some x \<Rightarrow> req_in_loop T (self\<lparr>rq_xreq := x\<rparr>))"

definition nn_req_out :: "'t transport \<Rightarrow> nat \<Rightarrow> 't req \<Rightarrow> 't req option" where
  "nn_req_out T pipe self =
     (case nn_xreq_out pipe (rq_xreq self) of
        None \<Rightarrow> None
      | Some x \<Rightarrow>
          let self' = self\<lparr>rq_xreq := x\<rparr> in
          if rq_state self' = REQ_DELAYED then req_feed T ACTION_OUT self' else Some self')"

definition nn_req_events :: "'t req \<Rightarrow> bool \<times> bool" where
  "nn_req_events self = (rq_state self = REQ_DONE, True)"

definition nn_req_csend :: "'t transport \<Rightarrow> msg \<Rightarrow> 't req \<Rightarrow> 't req option" where
  "nn_req_csend T m self =
     (let id = rq_id self + 1 in
      if m_sphdr m \<noteq> [] then None
      else req_feed T ACTION_SENT
        (self\<lparr>rq_id := id, rq_request := m\<lparr>m_sphdr := nn_putl (id OR 0x80000000)\<rparr>\<rparr>))"

text \<open>The result, the reply, and whether it is a message at all.\<close>

definition nn_req_crecv :: "'t transport \<Rightarrow> 't req \<Rightarrow> (int \<times> (msg \<times> bool) option \<times> 't req) option" where
  "nn_req_crecv T self =
     (if \<not> nn_req_inprogress self then Some (- EFSM, None, self)
      else if rq_state self \<noteq> REQ_DONE then Some (- EAGAIN, None, self)
      else case req_feed T ACTION_RECEIVED (self\<lparr>rq_reply := empty_msg, rq_live := True\<rparr>) of
        None \<Rightarrow> None
      | Some self' \<Rightarrow> Some (0, Some (rq_reply self, rq_live self), self'))"

definition nn_req_rm :: "'t transport \<Rightarrow> nat \<Rightarrow> 't req \<Rightarrow> 't req option" where
  "nn_req_rm T pipe self =
     (case nn_xreq_rm pipe (rq_xreq self) of
        None \<Rightarrow> None
      | Some x \<Rightarrow> let self' = self\<lparr>rq_xreq := x\<rparr> in
          if Some pipe = rq_sent_to self' then req_feed T ACTION_PIPE_RM self' else Some self')"

text \<open>The options: the level and the option are \<open>NN_REQ\<close> and \<open>NN_REQ_RESEND_IVL\<close>, the value an \<open>int\<close>.\<close>

definition NN_REQ :: int where "NN_REQ = 48"
definition NN_REQ_RESEND_IVL :: int where "NN_REQ_RESEND_IVL = 1"

definition nn_req_setopt :: "int \<Rightarrow> int \<Rightarrow> int \<Rightarrow> nat \<Rightarrow> 't req \<Rightarrow> int \<times> 't req" where
  "nn_req_setopt level option optval optvallen self =
     (if level \<noteq> NN_REQ then (- ENOPROTOOPT, self)
      else if option = NN_REQ_RESEND_IVL then
        if optvallen \<noteq> 4 then (- EINVAL_opt, self) else (0, self\<lparr>rq_resend_ivl := optval\<rparr>)
      else (- ENOPROTOOPT, self))"

definition nn_req_getopt :: "int \<Rightarrow> int \<Rightarrow> nat \<Rightarrow> 't req \<Rightarrow> int + int \<times> nat" where
  "nn_req_getopt level option optvallen self =
     (if level \<noteq> NN_REQ then Inl (- ENOPROTOOPT)
      else if option = NN_REQ_RESEND_IVL then
        if optvallen < 4 then Inl (- EINVAL_opt) else Inr (rq_resend_ivl self, 4)
      else Inl (- ENOPROTOOPT))"

text \<open>What comes from the worker thread to the timer, and from the timer to the socket.\<close>

definition req_timer :: "'t transport \<Rightarrow> timer_src \<Rightarrow> 't req \<Rightarrow> 't req option" where
  "req_timer T src self =
     (case nn_timer_feed src (rq_timer self) of
        None \<Rightarrow> None
      | Some (None, tm) \<Rightarrow> Some (self\<lparr>rq_timer := tm\<rparr>)
      | Some (Some ev, tm) \<Rightarrow> req_feed T (RESEND_TIMER ev) (self\<lparr>rq_timer := tm\<rparr>))"

end
