(* ===== verification/Nn_Req_Spec.thy ===== *)
theory Nn_Req_Spec
  imports Nn_Req
begin

text \<open>
  What the requester's socket keeps: the raw socket uses pipes only when they are idle, the re-send timer runs exactly while
  a request is out, and the socket knows the pipe it was sent to. Every operation and every event that can come keeps
  it and fails no assertion.
\<close>

section \<open>The raw socket\<close>

definition xreq_ok :: "'t xreq \<Rightarrow> bool" where
  "xreq_ok x \<longleftrightarrow> fq_ok (xq_fq x) (xq_net x) \<and> lb_ok (xq_lb x) (xq_net x)"

text \<open>
  The contract of a transport: a message that is not split has no header yet; and it has only finitely many messages, as \<open>avail\<close>
  counts them.
\<close>

definition unsplit :: "'t transport \<Rightarrow> bool" where
  "unsplit T \<longleftrightarrow> (\<forall>p t parsed m nxt t'. t_recv T p t = (parsed, m, nxt, t') \<longrightarrow> parsed \<or> m_sphdr m = [])"

definition drains :: "'t transport \<Rightarrow> ('t \<Rightarrow> nat) \<Rightarrow> bool" where
  "drains T avail \<longleftrightarrow>
     (\<forall>p t parsed m nxt t'. t_recv T p t = (parsed, m, nxt, t') \<longrightarrow>
        (if nxt then avail t' < avail t else avail t' \<le> avail t))"

lemma finite_active: "finite (active pl)"
  by (simp add: active_def)

lemma xreq_send_to:
  assumes "xreq_ok x"
  shows "active (xq_lb x) = {} \<Longrightarrow> nn_xreq_send_to T m x = Some (None, x)"
    and "active (xq_lb x) \<noteq> {} \<Longrightarrow> \<exists>p x'. nn_xreq_send_to T m x = Some (Some p, x') \<and> xreq_ok x' \<and>
      p \<in> best (xq_lb x) \<and> n_trans (xq_net x') = snd (t_send T p m (n_trans (xq_net x))) \<and> xq_fq x' = xq_fq x \<and>
      (\<forall>q. pb_instate (n_pipes (xq_net x') q) = pb_instate (n_pipes (xq_net x) q))"
proof -
  have ok: "fq_ok (xq_fq x) (xq_net x)" "lb_ok (xq_lb x) (xq_net x)" using assms by (simp_all add: xreq_ok_def)
  show "nn_xreq_send_to T m x = Some (None, x)" if "active (xq_lb x) = {}"
    using lb_send(1) [OF ok(2) that, of T m] by (simp add: nn_xreq_send_to_def)
  show "\<exists>p x'. nn_xreq_send_to T m x = Some (Some p, x') \<and> xreq_ok x' \<and>
      p \<in> best (xq_lb x) \<and> n_trans (xq_net x') = snd (t_send T p m (n_trans (xq_net x))) \<and> xq_fq x' = xq_fq x \<and>
      (\<forall>q. pb_instate (n_pipes (xq_net x') q) = pb_instate (n_pipes (xq_net x) q))"
    if "active (xq_lb x) \<noteq> {}"
    using lb_send(2) [OF ok(2) that, of T m] ok(1)
    by (auto simp: nn_xreq_send_to_def xreq_ok_def fq_ok_def)
qed

text \<open>Each message that is received leaves less to receive.\<close>

lemma fq_drains:
  assumes "drains T avail" "t_recv T p (n_trans n) = (parsed, m, nxt, t)" "n_trans n' = t" "p \<in> active fq"
    and "active fq' = (if nxt then active fq else active fq - {p})"
  shows "avail (n_trans n') + card (active fq') < avail (n_trans n) + card (active fq)"
proof -
  have a: "if nxt then avail t < avail (n_trans n) else avail t \<le> avail (n_trans n)"
    using assms(1,2) unfolding drains_def by blast
  show ?thesis
  proof (cases nxt)
    case False
    then have "card (active fq') < card (active fq)"
      using assms(4,5) card_Diff1_less [OF finite_active, of p fq] by (simp del: card_Diff_insert)
    then show ?thesis using a False assms(3) by simp
  qed (use a assms(3,5) in simp)
qed

lemma xreq_recv:
  assumes "xreq_ok x" "unsplit T"
  shows "active (xq_fq x) = {} \<Longrightarrow> nn_xreq_recv T x = Some (Nothing_there, x)"
    and "active (xq_fq x) \<noteq> {} \<Longrightarrow> \<exists>r x'. nn_xreq_recv T x = Some (r, x') \<and> xreq_ok x' \<and> r \<noteq> Nothing_there \<and>
      xq_lb x' = xq_lb x \<and>
      (drains T avail \<longrightarrow> avail (n_trans (xq_net x')) + card (active (xq_fq x')) <
        avail (n_trans (xq_net x)) + card (active (xq_fq x)))"
proof -
  have ok: "fq_ok (xq_fq x) (xq_net x)" "lb_ok (xq_lb x) (xq_net x)" using assms(1) by (simp_all add: xreq_ok_def)
  show "nn_xreq_recv T x = Some (Nothing_there, x)" if "active (xq_fq x) = {}"
    using fq_recv(1) [OF ok(1) that, of T] by (simp add: nn_xreq_recv_def)
  assume ne: "active (xq_fq x) \<noteq> {}"
  from fq_recv(2) [OF ok(1) ne, of T] obtain p parsed m nxt t fq' n' where
    f: "nn_fq_recv T (xq_fq x) (xq_net x) = Some (Some (p, parsed, m), fq', n')" "p \<in> best (xq_fq x)"
      "t_recv T p (n_trans (xq_net x)) = (parsed, m, nxt, t)" "n_trans n' = t" "fq_ok fq' n'"
      "active fq' = (if nxt then active (xq_fq x) else active (xq_fq x) - {p})"
      "\<forall>q. pb_outstate (n_pipes n' q) = pb_outstate (n_pipes (xq_net x) q)" by blast
  have "parsed \<or> m_sphdr m = []" using assms(2) f(3) unfolding unsplit_def by blast
  then obtain r where r: "nn_xreq_split parsed m = Some r" "r \<noteq> Nothing_there"
    by (cases parsed; cases "length (m_body m) < 4") (auto simp: nn_xreq_split_def)
  let ?x = "x\<lparr>xq_fq := fq', xq_net := n'\<rparr>"
  have rc: "nn_xreq_recv T x = Some (r, ?x)" using f(1) r(1) by (simp add: nn_xreq_recv_def)
  have okx: "xreq_ok ?x" using f(5,7) ok(2) by (simp add: xreq_ok_def lb_ok_def)
  have "p \<in> active (xq_fq x)" using f(2) by (simp add: best_def)
  then have "avail (n_trans (xq_net ?x)) + card (active (xq_fq ?x)) <
      avail (n_trans (xq_net x)) + card (active (xq_fq x))" if "drains T avail"
    using fq_drains [OF that f(3), of n' "xq_fq x" fq'] f(4,6) by simp
  with rc r(2) okx show "\<exists>r x'. nn_xreq_recv T x = Some (r, x') \<and> xreq_ok x' \<and> r \<noteq> Nothing_there \<and>
      xq_lb x' = xq_lb x \<and>
      (drains T avail \<longrightarrow> avail (n_trans (xq_net x')) + card (active (xq_fq x')) <
        avail (n_trans (xq_net x)) + card (active (xq_fq x)))"
    by (intro exI [of _ r] exI [of _ ?x]) simp
qed

section \<open>The state machine\<close>

fun timer_of :: "req_state \<Rightarrow> fsm_state" where
  "timer_of REQ_ACTIVE = FSM_ACTIVE"
| "timer_of REQ_TIMED_OUT = FSM_STOPPING"
| "timer_of REQ_CANCELLING = FSM_STOPPING"
| "timer_of REQ_STOPPING_TIMER = FSM_STOPPING"
| "timer_of _ = FSM_IDLE"

definition req_base :: "'t req \<Rightarrow> bool" where
  "req_base r \<longleftrightarrow> xreq_ok (rq_xreq r) \<and> rq_fsm r = FSM_ACTIVE \<and> rq_state r \<noteq> REQ_IDLE \<and>
     rq_state r \<noteq> REQ_STOPPING \<and> 0 \<le> rq_resend_ivl r"

definition timer_is :: "fsm_state \<Rightarrow> 't req \<Rightarrow> bool" where
  "timer_is st r \<longleftrightarrow> tm_fsm (rq_timer r) = st \<and> tm_state (rq_timer r) = st"

definition req_ok :: "'t req \<Rightarrow> bool" where
  "req_ok r \<longleftrightarrow> req_base r \<and> timer_is (timer_of (rq_state r)) r \<and> (rq_sent_to r \<noteq> None \<longleftrightarrow> rq_state r = REQ_ACTIVE)"

text \<open>Sending starts the timer, which must be idle; without a peer the request is delayed.\<close>

lemma action_send:
  assumes "req_base r" "timer_is FSM_IDLE r" "rq_sent_to r = None"
    and "d \<or> active (xq_lb (rq_xreq r)) \<noteq> {}"
  shows "\<exists>r'. nn_req_action_send T d r = Some r' \<and> req_ok r' \<and> rq_request r' = rq_request r \<and> rq_id r' = rq_id r \<and>
    rq_reply r' = rq_reply r \<and> rq_live r' = rq_live r \<and>
    rq_state r' = (if active (xq_lb (rq_xreq r)) = {} then REQ_DELAYED else REQ_ACTIVE) \<and>
    (active (xq_lb (rq_xreq r)) \<noteq> {} \<longrightarrow> (\<exists>p \<in> best (xq_lb (rq_xreq r)). rq_sent_to r' = Some p \<and>
      n_trans (xq_net (rq_xreq r')) = snd (t_send T p (rq_request r) (n_trans (xq_net (rq_xreq r)))))) \<and>
    xq_fq (rq_xreq r') = xq_fq (rq_xreq r) \<and>
    (\<forall>q. pb_instate (n_pipes (xq_net (rq_xreq r')) q) = pb_instate (n_pipes (xq_net (rq_xreq r)) q))"
proof -
  have ok: "xreq_ok (rq_xreq r)" using assms(1) by (simp add: req_base_def)
  show ?thesis
  proof (cases "active (xq_lb (rq_xreq r)) = {}")
    case True
    with xreq_send_to(1) [OF ok True, of T "rq_request r"] assms show ?thesis
      by (simp add: nn_req_action_send_def req_ok_def req_base_def timer_is_def)
  next
    case False
    from xreq_send_to(2) [OF ok False, of T "rq_request r"] obtain p x' where
      x': "nn_xreq_send_to T (rq_request r) (rq_xreq r) = Some (Some p, x')" "xreq_ok x'" "p \<in> best (xq_lb (rq_xreq r))"
        "n_trans (xq_net x') = snd (t_send T p (rq_request r) (n_trans (xq_net (rq_xreq r))))"
        "xq_fq x' = xq_fq (rq_xreq r)"
        "\<forall>q. pb_instate (n_pipes (xq_net x') q) = pb_instate (n_pipes (xq_net (rq_xreq r)) q)" by blast
    with assms False show ?thesis
      by (simp add: nn_req_action_send_def nn_timer_start_def req_ok_def req_base_def timer_is_def)
  qed
qed

lemma stop_timer_ok:
  assumes "req_ok r" "rq_state r = REQ_ACTIVE" "timer_of st = FSM_STOPPING"
  shows "req_ok (stop_timer st r)"
  using assms by (cases st) (auto simp: req_ok_def req_base_def timer_is_def stop_timer_def nn_timer_stop_def)

text \<open>The events that can come: in the states they come in, nothing fails.\<close>

fun can_come :: "req_event \<Rightarrow> 't req \<Rightarrow> bool" where
  "can_come ACTION_IN r \<longleftrightarrow> rq_state r = REQ_ACTIVE"
| "can_come ACTION_OUT r \<longleftrightarrow> rq_state r = REQ_DELAYED \<and> active (xq_lb (rq_xreq r)) \<noteq> {}"
| "can_come ACTION_SENT r \<longleftrightarrow> True"
| "can_come ACTION_RECEIVED r \<longleftrightarrow> rq_state r = REQ_DONE"
| "can_come ACTION_PIPE_RM r \<longleftrightarrow> rq_state r = REQ_ACTIVE"
| "can_come (RESEND_TIMER TIMER_TIMEOUT) r \<longleftrightarrow> rq_state r = REQ_ACTIVE"
| "can_come _ r \<longleftrightarrow> False"

lemmas req_states = req_idle_def req_passive_def req_delayed_def req_active_def req_timed_out_def req_cancelling_def
  req_stopping_timer_def req_done_def nn_req_handler_def

lemma feed_ok:
  assumes "req_ok r" "can_come ev r"
  shows "\<exists>r'. req_feed T ev r = Some r' \<and> req_ok r'"
proof -
  have b: "req_base r" "timer_is (timer_of (rq_state r)) r" "rq_sent_to r \<noteq> None \<longleftrightarrow> rq_state r = REQ_ACTIVE"
    using assms(1) by (simp_all add: req_ok_def)
  have f: "req_feed T ev r = nn_req_handler T ev r" for ev using b(1) by (simp add: req_feed_def req_base_def)
  note S = stop_timer_ok [OF assms(1)]
  note A = action_send [OF b(1), where T = T]
  have chg: "req_ok (r\<lparr>rq_state := st\<rparr>)" if "timer_of st = timer_of (rq_state r)" "st \<noteq> REQ_IDLE" "st \<noteq> REQ_STOPPING"
      "st = REQ_ACTIVE \<longleftrightarrow> rq_state r = REQ_ACTIVE" for st
    using b that by (simp add: req_ok_def req_base_def timer_is_def)
  have i: "rq_state r \<noteq> REQ_IDLE" "rq_state r \<noteq> REQ_STOPPING" using b(1) by (simp_all add: req_base_def)
  show ?thesis
    using assms(2)
  proof (cases ev)
    case ACTION_SENT
    show ?thesis
    proof (cases "rq_state r")
      case REQ_PASSIVE
      with A [of True] b show ?thesis by (auto simp: f ACTION_SENT req_states)
    next
      case REQ_DONE
      with A [of True] b show ?thesis by (auto simp: f ACTION_SENT req_states)
    qed (use i S chg assms(1) in \<open>simp_all add: f ACTION_SENT req_states\<close>)
  next
    case ACTION_OUT
    with assms(2) A [of False] b show ?thesis by (auto simp: f req_states)
  next
    case (RESEND_TIMER tev)
    with assms(2) S show ?thesis by (cases tev) (simp_all add: f req_states)
  qed (use S chg in \<open>simp_all add: f req_states\<close>)
qed

text \<open>The timer that has been stopped is idle; what follows depends on why it was.\<close>

lemma stopped_ok:
  assumes "req_base r" "timer_is FSM_IDLE r" "rq_sent_to r = None" "timer_of (rq_state r) = FSM_STOPPING"
  shows "\<exists>r'. req_feed T (RESEND_TIMER TIMER_STOPPED) r = Some r' \<and> req_ok r'"
proof -
  have f: "req_feed T ev r = nn_req_handler T ev r" for ev using assms(1) by (simp add: req_feed_def req_base_def)
  from action_send [OF assms(1-3), of True T] have A: "\<exists>r'. nn_req_action_send T True r = Some r' \<and> req_ok r'" by blast
  show ?thesis
    using assms A by (cases "rq_state r") (simp_all add: f req_states req_ok_def req_base_def timer_is_def)
qed

section \<open>The operations\<close>

lemma req_ok_init: "req_ok (nn_req_init i n)"
  by (simp add: req_ok_def req_base_def nn_req_init_def xreq_ok_def nn_xreq_init_def fq_ok_def lb_ok_def
      fq_defs lb_defs priolist_ok_init timer_is_def nn_timer_init_def NN_REQ_DEFAULT_RESEND_IVL_def)

text \<open>Changing what the state machine does not depend on.\<close>

lemma req_ok_put:
  "req_ok r \<Longrightarrow> xreq_ok x \<Longrightarrow> req_ok (r\<lparr>rq_xreq := x\<rparr>)"
  "req_ok r \<Longrightarrow> req_ok (r\<lparr>rq_reply := m\<rparr>)" "req_ok r \<Longrightarrow> req_ok (r\<lparr>rq_live := b\<rparr>)"
  "req_ok r \<Longrightarrow> req_ok (r\<lparr>rq_id := i\<rparr>)" "req_ok r \<Longrightarrow> req_ok (r\<lparr>rq_request := m\<rparr>)"
  by (simp_all add: req_ok_def req_base_def timer_is_def)

lemma req_ok_xreq: "req_ok r \<Longrightarrow> xreq_ok (rq_xreq r)"
  by (simp add: req_ok_def req_base_def)

lemma csend_ok:
  assumes "req_ok r" "m_sphdr m = []"
  shows "\<exists>r'. nn_req_csend T m r = Some r' \<and> req_ok r'"
proof -
  let ?r = "r\<lparr>rq_id := rq_id r + 1, rq_request := m\<lparr>m_sphdr := nn_putl ((rq_id r + 1) OR 0x80000000)\<rparr>\<rparr>"
  have "req_ok ?r" using assms(1) req_ok_put(4,5) by blast
  from feed_ok [OF this, of ACTION_SENT T] assms(2) show ?thesis by (simp add: nn_req_csend_def Let_def)
qed

lemma crecv_ok:
  assumes "req_ok r"
  shows "\<exists>rc m r'. nn_req_crecv T r = Some (rc, m, r') \<and> req_ok r'"
proof (cases "rq_state r = REQ_DONE")
  case True
  let ?r = "r\<lparr>rq_reply := empty_msg, rq_live := True\<rparr>"
  have ok: "req_ok ?r" using assms req_ok_put(2,3) by blast
  have "can_come ACTION_RECEIVED ?r" using True by simp
  from feed_ok [OF ok this, of T] True show ?thesis
    by (auto simp: nn_req_crecv_def nn_req_inprogress_def)
next
  case False
  then show ?thesis using assms by (auto simp: nn_req_crecv_def)
qed

lemma timer_start_task_ok:
  assumes "req_ok r" "rq_state r = REQ_ACTIVE \<and> 0 \<le> tm_timeout (rq_timer r) \<or> timer_of (rq_state r) = FSM_STOPPING"
  shows "\<exists>r'. req_timer T TIMER_START_TASK r = Some r' \<and> req_ok r'"
  using assms by (auto simp: req_timer_def nn_timer_feed_def nn_timer_handler_def nn_timer_shutdown_def
      req_ok_def req_base_def timer_is_def)

lemma timer_timeout_ok:
  assumes "req_ok r" "rq_state r = REQ_ACTIVE \<and> tm_timeout (rq_timer r) = - 1 \<or> timer_of (rq_state r) = FSM_STOPPING"
  shows "\<exists>r'. req_timer T TIMER_WORKER_TIMEOUT r = Some r' \<and> req_ok r'"
proof (cases "rq_state r = REQ_ACTIVE")
  case True
  then have "req_timer T TIMER_WORKER_TIMEOUT r = req_feed T (RESEND_TIMER TIMER_TIMEOUT) r"
    using assms by (auto simp: req_timer_def nn_timer_feed_def nn_timer_handler_def req_ok_def req_base_def timer_is_def)
  with feed_ok [OF assms(1), of "RESEND_TIMER TIMER_TIMEOUT" T] True show ?thesis by simp
next
  case False
  then show ?thesis
    using assms by (auto simp: req_timer_def nn_timer_feed_def nn_timer_shutdown_def req_ok_def req_base_def timer_is_def)
qed

lemma timer_stop_task_ok:
  assumes "req_ok r" "timer_of (rq_state r) = FSM_STOPPING"
  shows "\<exists>r'. req_timer T TIMER_STOP_TASK r = Some r' \<and> req_ok r'"
proof -
  let ?r = "r\<lparr>rq_timer := (rq_timer r)\<lparr>tm_state := FSM_IDLE, tm_fsm := FSM_IDLE\<rparr>\<rparr>"
  have e: "req_timer T TIMER_STOP_TASK r = req_feed T (RESEND_TIMER TIMER_STOPPED) ?r"
    using assms by (auto simp: req_timer_def nn_timer_feed_def nn_timer_shutdown_def req_ok_def timer_is_def)
  have "rq_sent_to r = None" using assms by (auto simp: req_ok_def)
  then show ?thesis
    unfolding e using assms by (intro stopped_ok) (auto simp: req_ok_def req_base_def timer_is_def)
qed

lemma req_in_loop_ok:
  assumes "req_ok r" "unsplit T" "drains T avail"
  shows "\<exists>r'. req_in_loop T r = Some (Some r') \<and> req_ok r'"
  using assms(1)
proof (induction "avail (n_trans (xq_net (rq_xreq r))) + card (active (xq_fq (rq_xreq r)))" arbitrary: r rule: less_induct)
  case less
  have ok: "xreq_ok (rq_xreq r)" by (rule req_ok_xreq [OF less.prems])
  note X = xreq_recv [OF ok assms(2)]
  show ?case
  proof (cases "active (xq_fq (rq_xreq r)) = {}")
    case True
    with X(1) show ?thesis
      using req_ok_put(1) [OF less.prems ok] by (simp add: req_in_loop.simps [of T r] put_received_def Let_def)
  next
    case False
    from X(2) [OF False, of avail] assms(3) obtain x x' where
      x: "nn_xreq_recv T (rq_xreq r) = Some (x, x')" "xreq_ok x'" "x \<noteq> Nothing_there"
        "avail (n_trans (xq_net x')) + card (active (xq_fq x')) <
         avail (n_trans (xq_net (rq_xreq r))) + card (active (xq_fq (rq_xreq r)))" by blast
    let ?r = "put_received x x' r"
    have okr: "req_ok ?r"
      using less.prems x(2) by (cases x) (simp_all add: put_received_def req_ok_def req_base_def timer_is_def)
    have rx: "rq_xreq ?r = x'" by (cases x) (simp_all add: put_received_def)
    show ?thesis
    proof (cases "malformed x")
      case True
      then show ?thesis using x(1) okr by (simp add: req_in_loop.simps [of T r] Let_def)
    next
      case wf: False
      show ?thesis
      proof (cases "req_accepts ?r (rq_reply ?r)")
        case False
        have "\<exists>r'. req_in_loop T (?r\<lparr>rq_live := False\<rparr>) = Some (Some r') \<and> req_ok r'"
          by (rule less.hyps) (use x(4) rx req_ok_put(3) [OF okr] in simp_all)
        then show ?thesis using x(1,3) wf False by (simp add: req_in_loop.simps [of T r] Let_def)
      next
        case True
        let ?r'' = "?r\<lparr>rq_reply := (rq_reply ?r)\<lparr>m_sphdr := []\<rparr>\<rparr>"
        have ok'': "req_ok ?r''" by (rule req_ok_put(2) [OF okr])
        have "\<exists>r'. (if rq_state ?r'' = REQ_ACTIVE then req_feed T ACTION_IN ?r'' else Some ?r'') = Some r' \<and> req_ok r'"
          using feed_ok [OF ok'', of ACTION_IN T] ok'' by simp
        then show ?thesis using x(1,3) wf True by (simp add: req_in_loop.simps [of T r] Let_def)
      qed
    qed
  qed
qed

section \<open>Everything that can happen\<close>

text \<open>
  An operation of the user, a pipe that starts, gets a message, can send again or goes away, something from the worker thread
  for the timer, or the socket being stopped. The events that a pipe raises are handled before the next thing happens.
\<close>

datatype req_op =
    Op_send msg | Op_recv | Op_start nat | Op_in nat | Op_out nat | Op_rm nat | Op_timer timer_src
  | Op_setopt int int int nat | Op_stop

definition put_pb :: "nat \<Rightarrow> pipebase \<Rightarrow> 't req \<Rightarrow> 't req" where
  "put_pb p pb r = r\<lparr>rq_xreq := (rq_xreq r)\<lparr>xq_net := put_pipe p pb (xq_net (rq_xreq r))\<rparr>\<rparr>"

abbreviation pipe_at :: "'t req \<Rightarrow> nat \<Rightarrow> pipebase" where
  "pipe_at r p \<equiv> n_pipes (xq_net (rq_xreq r)) p"

fun req_do :: "'t transport \<Rightarrow> req_op \<Rightarrow> 't req \<Rightarrow> 't req option" where
  "req_do T (Op_send m) r = nn_req_csend T m r"
| "req_do T Op_recv r = map_option (\<lambda>(rc, m, r'). r') (nn_req_crecv T r)"
| "req_do T (Op_start p) r =
     (case nn_pipebase_start True (pipe_at r p) of
        None \<Rightarrow> None
      | Some pb \<Rightarrow> (let r1 = put_pb p pb r in
          case nn_xreq_add p (rq_xreq r1) of
            None \<Rightarrow> None
          | Some x \<Rightarrow> nn_req_out T p (r1\<lparr>rq_xreq := x\<rparr>)))"
| "req_do T (Op_in p) r =
     (case nn_pipebase_received (pipe_at r p) of
        None \<Rightarrow> None
      | Some pb \<Rightarrow> (case nn_req_in T p (put_pb p pb r) of Some (Some r') \<Rightarrow> Some r' | _ \<Rightarrow> None))"
| "req_do T (Op_out p) r =
     (case nn_pipebase_sent (pipe_at r p) of
        None \<Rightarrow> None
      | Some pb \<Rightarrow> nn_req_out T p (put_pb p pb r))"
| "req_do T (Op_rm p) r = nn_req_rm T p r"
| "req_do T (Op_timer src) r = req_timer T src r"
| "req_do T (Op_setopt level option optval optvallen) r = Some (snd (nn_req_setopt level option optval optvallen r))"
| "req_do T Op_stop r = nn_req_stop r"

definition known :: "nat \<Rightarrow> nn_priolist \<Rightarrow> bool" where
  "known p pl \<longleftrightarrow> 1 \<le> pl_priority pl p \<and> pl_priority pl p \<le> NN_PRIOLIST_SLOTS"

definition prio_ok :: "nat \<Rightarrow> bool" where
  "prio_ok n \<longleftrightarrow> 1 \<le> n \<and> n \<le> 16"

text \<open>
  What can come next. The user and the pipes come only while the socket is not being stopped, the worker thread when the
  timer has given it something to do. The re-send interval that is set is not negative.
\<close>

definition req_open :: "'t req \<Rightarrow> bool" where
  "req_open r \<longleftrightarrow> rq_fsm r = FSM_ACTIVE"

fun enabled :: "req_op \<Rightarrow> 't req \<Rightarrow> bool" where
  "enabled (Op_send m) r \<longleftrightarrow> req_open r \<and> m_sphdr m = []"
| "enabled Op_recv r \<longleftrightarrow> req_open r"
| "enabled (Op_start p) r \<longleftrightarrow> req_open r \<and> pb_state (pipe_at r p) = PIPEBASE_IDLE \<and>
     p \<notin> active (xq_fq (rq_xreq r)) \<and> p \<notin> active (xq_lb (rq_xreq r)) \<and>
     prio_ok (pb_sndprio (pipe_at r p)) \<and> prio_ok (pb_rcvprio (pipe_at r p))"
| "enabled (Op_in p) r \<longleftrightarrow> req_open r \<and> pb_instate (pipe_at r p) = IO_ASYNC \<and> known p (xq_fq (rq_xreq r))"
| "enabled (Op_out p) r \<longleftrightarrow> req_open r \<and> pb_outstate (pipe_at r p) = IO_ASYNC \<and> known p (xq_lb (rq_xreq r))"
| "enabled (Op_rm p) r \<longleftrightarrow> req_open r \<and> known p (xq_fq (rq_xreq r)) \<and> known p (xq_lb (rq_xreq r))"
| "enabled (Op_timer TIMER_START_TASK) r \<longleftrightarrow>
     tm_fsm (rq_timer r) = FSM_ACTIVE \<and> 0 \<le> tm_timeout (rq_timer r) \<or> tm_fsm (rq_timer r) = FSM_STOPPING"
| "enabled (Op_timer TIMER_WORKER_TIMEOUT) r \<longleftrightarrow>
     tm_fsm (rq_timer r) = FSM_ACTIVE \<and> tm_timeout (rq_timer r) = - 1 \<or> tm_fsm (rq_timer r) = FSM_STOPPING"
| "enabled (Op_timer TIMER_STOP_TASK) r \<longleftrightarrow> tm_fsm (rq_timer r) = FSM_STOPPING"
| "enabled (Op_setopt level option optval optvallen) r \<longleftrightarrow> req_open r \<and>
     (level = NN_REQ \<and> option = NN_REQ_RESEND_IVL \<and> optvallen = 4 \<longrightarrow> 0 \<le> optval)"
| "enabled Op_stop r \<longleftrightarrow> True"

text \<open>Pipes coming to life.\<close>

lemma fq_in_ok:
  assumes "fq_ok fq n" "known p fq" "p \<notin> active fq" "pb_instate (n_pipes n p) = IO_IDLE"
  shows "\<exists>fq'. nn_fq_in fq p = Some fq' \<and> fq_ok fq' n \<and> active fq' = insert p (active fq)"
  using assms activate_ok [of fq p] by (auto simp: fq_ok_def known_def fq_defs)

lemma lb_out_ok:
  assumes "lb_ok lb n" "known p lb" "p \<notin> active lb" "pb_outstate (n_pipes n p) = IO_IDLE"
  shows "\<exists>lb'. nn_lb_out lb p = Some lb' \<and> lb_ok lb' n \<and> active lb' = insert p (active lb)"
  using assms activate_ok [of lb p] by (auto simp: lb_ok_def known_def lb_defs)

lemma fq_ok_cong: "fq_ok fq n \<Longrightarrow> (\<And>q. q \<in> active fq \<Longrightarrow> pb_instate (n_pipes n' q) = pb_instate (n_pipes n q)) \<Longrightarrow> fq_ok fq n'"
  by (simp add: fq_ok_def)

lemma lb_ok_cong: "lb_ok lb n \<Longrightarrow> (\<And>q. q \<in> active lb \<Longrightarrow> pb_outstate (n_pipes n' q) = pb_outstate (n_pipes n q)) \<Longrightarrow> lb_ok lb n'"
  by (simp add: lb_ok_def)

lemma req_out_ok:
  assumes "req_ok r" "known p (xq_lb (rq_xreq r))" "p \<notin> active (xq_lb (rq_xreq r))"
    and "pb_outstate (pipe_at r p) = IO_IDLE"
  shows "\<exists>r'. nn_req_out T p r = Some r' \<and> req_ok r'"
proof -
  let ?x = "rq_xreq r"
  have x: "fq_ok (xq_fq ?x) (xq_net ?x)" "lb_ok (xq_lb ?x) (xq_net ?x)"
    using req_ok_xreq [OF assms(1)] by (simp_all add: xreq_ok_def)
  from lb_out_ok [OF x(2) assms(2-4)] obtain lb' where
    lb: "nn_lb_out (xq_lb ?x) p = Some lb'" "lb_ok lb' (xq_net ?x)" "active lb' = insert p (active (xq_lb ?x))" by blast
  have st: "stat_snd_priority (nn_lb_get_priority lb') = Some (pl_current lb')"
    by (rule stat_priority_ok) (use lb(2) in \<open>simp add: lb_ok_def\<close>)
  let ?r = "r\<lparr>rq_xreq := ?x\<lparr>xq_lb := lb', xq_snd_priority := pl_current lb'\<rparr>\<rparr>"
  have "req_ok ?r" by (rule req_ok_put(1) [OF assms(1)]) (use x(1) lb(2) in \<open>simp add: xreq_ok_def\<close>)
  then show ?thesis
    using feed_ok [of ?r ACTION_OUT T] lb(1,3) st by (simp add: nn_req_out_def nn_xreq_out_def Let_def)
qed

lemma req_rm_ok:
  assumes "req_ok r" "known p (xq_fq (rq_xreq r))" "known p (xq_lb (rq_xreq r))"
  shows "\<exists>r'. nn_req_rm T p r = Some r' \<and> req_ok r'"
proof -
  let ?x = "rq_xreq r"
  have x: "fq_ok (xq_fq ?x) (xq_net ?x)" "lb_ok (xq_lb ?x) (xq_net ?x)"
    using req_ok_xreq [OF assms(1)] by (simp_all add: xreq_ok_def)
  have st: "stat_snd_priority (nn_lb_get_priority (nn_lb_rm (xq_lb ?x) p)) = Some (pl_current (nn_lb_rm (xq_lb ?x) p))"
    by (rule stat_priority_ok) (use x(2) assms(3) rm_ok [of "xq_lb ?x" p] in \<open>simp add: lb_ok_def known_def lb_defs\<close>)
  let ?y = "?x\<lparr>xq_lb := nn_lb_rm (xq_lb ?x) p, xq_fq := nn_fq_rm (xq_fq ?x) p,
    xq_snd_priority := pl_current (nn_lb_rm (xq_lb ?x) p)\<rparr>"
  have y: "nn_xreq_rm p ?x = Some ?y" using st by (simp add: nn_xreq_rm_def Let_def)
  have "xreq_ok ?y"
    using x assms(2,3) rm_ok [of "xq_fq ?x" p] rm_ok [of "xq_lb ?x" p]
    by (simp add: xreq_ok_def fq_ok_def lb_ok_def known_def fq_defs lb_defs)
  from req_ok_put(1) [OF assms(1) this] have ok: "req_ok (r\<lparr>rq_xreq := ?y\<rparr>)" .
  have "rq_sent_to r = Some p \<longrightarrow> rq_state r = REQ_ACTIVE" using assms(1) by (auto simp: req_ok_def)
  then show ?thesis
    using feed_ok [OF ok, of ACTION_PIPE_RM T] ok y by (auto simp: nn_req_rm_def Let_def)
qed

lemma put_pb_ok:
  assumes "req_ok r" "p \<notin> active (xq_fq (rq_xreq r)) \<or> pb_instate pb = pb_instate (pipe_at r p)"
    and "p \<notin> active (xq_lb (rq_xreq r)) \<or> pb_outstate pb = pb_outstate (pipe_at r p)"
  shows "req_ok (put_pb p pb r)"
proof -
  let ?x = "rq_xreq r"
  have "fq_ok (xq_fq ?x) (put_pipe p pb (xq_net ?x))" "lb_ok (xq_lb ?x) (put_pipe p pb (xq_net ?x))"
    using req_ok_xreq [OF assms(1)] assms(2,3)
    by (auto simp: xreq_ok_def put_pipe_def intro: fq_ok_cong lb_ok_cong)
  then show ?thesis
    unfolding put_pb_def by (intro req_ok_put(1) [OF assms(1)]) (simp add: xreq_ok_def)
qed

lemma async_not_active:
  assumes "req_ok r"
  shows "pb_instate (pipe_at r p) \<noteq> IO_IDLE \<Longrightarrow> p \<notin> active (xq_fq (rq_xreq r))"
    and "pb_outstate (pipe_at r p) \<noteq> IO_IDLE \<Longrightarrow> p \<notin> active (xq_lb (rq_xreq r))"
  using req_ok_xreq [OF assms] by (auto simp: xreq_ok_def fq_ok_def lb_ok_def)

lemma start_ok:
  assumes "req_ok r" "enabled (Op_start p) r"
  shows "\<exists>r'. req_do T (Op_start p) r = Some r' \<and> req_ok r'"
proof -
  define pb where "pb = (pipe_at r p)\<lparr>pb_state := PIPEBASE_ACTIVE, pb_instate := IO_ASYNC, pb_outstate := IO_IDLE, pb_out := True\<rparr>"
  let ?r = "put_pb p pb r"
  have e: "pb_state (pipe_at r p) = PIPEBASE_IDLE" "p \<notin> active (xq_fq (rq_xreq r))" "p \<notin> active (xq_lb (rq_xreq r))"
    "prio_ok (pb_sndprio (pipe_at r p))" "prio_ok (pb_rcvprio (pipe_at r p))" using assms(2) by simp_all
  have st: "nn_pipebase_start True (pipe_at r p) = Some pb" using e(1) by (simp add: nn_pipebase_start_def pb_def Let_def)
  have ok: "req_ok ?r" by (rule put_pb_ok [OF assms(1)]) (use e(2,3) in simp_all)
  have at: "pipe_at ?r p = pb" "xq_fq (rq_xreq ?r) = xq_fq (rq_xreq r)" "xq_lb (rq_xreq ?r) = xq_lb (rq_xreq r)"
    by (simp_all add: put_pb_def put_pipe_def)
  let ?x = "(rq_xreq ?r)\<lparr>xq_lb := nn_lb_add (xq_lb (rq_xreq r)) p (pb_sndprio pb),
    xq_fq := nn_fq_add (xq_fq (rq_xreq r)) p (pb_rcvprio pb)\<rparr>"
  have pr: "prio_ok (pb_sndprio pb)" "prio_ok (pb_rcvprio pb)" using e(4,5) by (simp_all add: pb_def)
  have ad: "nn_xreq_add p (rq_xreq ?r) = Some ?x" using pr at by (simp add: nn_xreq_add_def prio_ok_def Let_def)
  have xr: "fq_ok (xq_fq (rq_xreq r)) (xq_net (rq_xreq ?r))" "lb_ok (xq_lb (rq_xreq r)) (xq_net (rq_xreq ?r))"
    using req_ok_xreq [OF ok] at by (simp_all add: xreq_ok_def)
  have xok: "xreq_ok ?x"
    using xr add_ok [of "xq_fq (rq_xreq r)" p] add_ok [of "xq_lb (rq_xreq r)" p] e(2,3)
    by (simp add: xreq_ok_def fq_ok_def lb_ok_def fq_defs lb_defs)
  have "\<exists>r'. nn_req_out T p (?r\<lparr>rq_xreq := ?x\<rparr>) = Some r' \<and> req_ok r'"
  proof (rule req_out_ok)
    show "req_ok (?r\<lparr>rq_xreq := ?x\<rparr>)" by (rule req_ok_put(1) [OF ok xok])
    show "known p (xq_lb (rq_xreq (?r\<lparr>rq_xreq := ?x\<rparr>)))"
      using pr(1) by (simp add: known_def lb_defs nn_priolist_add_def prio_ok_def NN_PRIOLIST_SLOTS_def)
    show "p \<notin> active (xq_lb (rq_xreq (?r\<lparr>rq_xreq := ?x\<rparr>)))"
      using e(3) xr(2) add_ok(2) by (simp add: lb_defs lb_ok_def)
    show "pb_outstate (pipe_at (?r\<lparr>rq_xreq := ?x\<rparr>) p) = IO_IDLE" using at by (simp add: pb_def)
  qed
  then show ?thesis using st ad by (simp add: Let_def)
qed

lemma in_ok:
  assumes "req_ok r" "enabled (Op_in p) r" "unsplit T" "drains T avail"
  shows "\<exists>r'. req_do T (Op_in p) r = Some r' \<and> req_ok r'"
proof -
  define pb where "pb = (pipe_at r p)\<lparr>pb_instate := IO_IDLE, pb_in := True\<rparr>"
  let ?r = "put_pb p pb r"
  have e: "pb_instate (pipe_at r p) = IO_ASYNC" "known p (xq_fq (rq_xreq r))" using assms(2) by simp_all
  have na: "p \<notin> active (xq_fq (rq_xreq r))" using async_not_active(1) [OF assms(1)] e(1) by simp
  have rc: "nn_pipebase_received (pipe_at r p) = Some pb" using e(1) by (simp add: nn_pipebase_received_def pb_def)
  have ok: "req_ok ?r" by (rule put_pb_ok [OF assms(1)]) (use na in \<open>simp_all add: pb_def\<close>)
  have at: "pb_instate (pipe_at ?r p) = IO_IDLE" "xq_fq (rq_xreq ?r) = xq_fq (rq_xreq r)"
    by (simp_all add: put_pb_def put_pipe_def pb_def)
  have x: "fq_ok (xq_fq (rq_xreq r)) (xq_net (rq_xreq ?r))" "lb_ok (xq_lb (rq_xreq ?r)) (xq_net (rq_xreq ?r))"
    using req_ok_xreq [OF ok] at(2) by (simp_all add: xreq_ok_def)
  from fq_in_ok [OF x(1) e(2) na at(1)] obtain fq' where
    fq: "nn_fq_in (xq_fq (rq_xreq r)) p = Some fq'" "fq_ok fq' (xq_net (rq_xreq ?r))" by blast
  let ?r' = "?r\<lparr>rq_xreq := (rq_xreq ?r)\<lparr>xq_fq := fq'\<rparr>\<rparr>"
  have "req_ok ?r'" by (rule req_ok_put(1) [OF ok]) (use fq(2) x(2) in \<open>simp add: xreq_ok_def\<close>)
  from req_in_loop_ok [OF this assms(3,4)] show ?thesis
    using rc fq(1) at(2) by (auto simp: nn_req_in_def nn_xreq_in_def)
qed

lemma out_ok:
  assumes "req_ok r" "enabled (Op_out p) r"
  shows "\<exists>r'. req_do T (Op_out p) r = Some r' \<and> req_ok r'"
proof -
  define pb where "pb = (pipe_at r p)\<lparr>pb_outstate := IO_IDLE, pb_out := True\<rparr>"
  let ?r = "put_pb p pb r"
  have e: "pb_outstate (pipe_at r p) = IO_ASYNC" "known p (xq_lb (rq_xreq r))" using assms(2) by simp_all
  have na: "p \<notin> active (xq_lb (rq_xreq r))" using async_not_active(2) [OF assms(1)] e(1) by simp
  have st: "nn_pipebase_sent (pipe_at r p) = Some pb" using e(1) by (simp add: nn_pipebase_sent_def pb_def)
  have "req_ok ?r" by (rule put_pb_ok [OF assms(1)]) (use na in \<open>simp_all add: pb_def\<close>)
  from req_out_ok [OF this, of p T] na e(2) st show ?thesis
    by (simp add: put_pb_def put_pipe_def pb_def)
qed

lemma setopt_ok:
  "req_ok r \<Longrightarrow> enabled (Op_setopt l p v n) r \<Longrightarrow> req_ok (snd (nn_req_setopt l p v n r))"
  by (auto simp: nn_req_setopt_def req_ok_def req_base_def timer_is_def)

text \<open>The timer has something to do exactly in the states it has been started in.\<close>

lemma req_ok_timer: "req_ok r \<Longrightarrow> tm_fsm (rq_timer r) = timer_of (rq_state r) \<and> (timer_of (rq_state r) = FSM_ACTIVE \<longleftrightarrow> rq_state r = REQ_ACTIVE)"
  by (cases "rq_state r") (simp_all add: req_ok_def timer_is_def)

text \<open>The socket that is being stopped waits for its timer, and is idle then.\<close>

definition req_ending :: "'t req \<Rightarrow> bool" where
  "req_ending r \<longleftrightarrow>
     rq_fsm r = FSM_STOPPING \<and> rq_state r = REQ_STOPPING \<and> timer_is FSM_STOPPING r \<or>
     rq_fsm r = FSM_IDLE \<and> rq_state r = REQ_IDLE \<and> timer_is FSM_IDLE r"

lemma stop_ok: "req_ok r \<or> req_ending r \<Longrightarrow> \<exists>r'. nn_req_stop r = Some r' \<and> req_ending r'"
  by (cases "rq_state r") (auto simp: nn_req_stop_def nn_req_shutdown_def nn_timer_stop_def nn_timer_isidle_def req_ending_def
      req_ok_def req_base_def timer_is_def Let_def)

lemma ending_ok:
  assumes "req_ending r" "enabled op r"
  shows "\<exists>r'. req_do T op r = Some r' \<and> req_ending r'"
proof (cases op)
  case (Op_timer src)
  with assms show ?thesis
    by (cases src) (auto simp: req_timer_def nn_timer_feed_def nn_timer_shutdown_def req_feed_def nn_req_shutdown_def
        nn_timer_isidle_def req_ending_def timer_is_def Let_def)
qed (use assms stop_ok [of r] in \<open>auto simp: req_open_def req_ending_def\<close>)

lemma req_open_do_ok:
  assumes "req_ok r" "enabled op r" "unsplit T" "drains T avail"
  shows "\<exists>r'. req_do T op r = Some r' \<and> (req_ok r' \<or> req_ending r')"
proof (cases op)
  case (Op_send m)
  with csend_ok [OF assms(1), of m T] assms(2) show ?thesis by auto
next
  case Op_recv
  with crecv_ok [OF assms(1), of T] show ?thesis by auto
next
  case (Op_start p)
  with start_ok [OF assms(1), of p T] assms(2) show ?thesis by blast
next
  case (Op_in p)
  with in_ok [OF assms(1) _ assms(3,4), of p] assms(2) show ?thesis by blast
next
  case (Op_out p)
  with out_ok [OF assms(1), of p T] assms(2) show ?thesis by blast
next
  case (Op_rm p)
  with req_rm_ok [OF assms(1), of p T] assms(2) show ?thesis by auto
next
  case (Op_timer src)
  with assms(2) req_ok_timer [OF assms(1)] timer_start_task_ok [OF assms(1), of T] timer_timeout_ok [OF assms(1), of T]
    timer_stop_task_ok [OF assms(1), of T] show ?thesis
    by (cases src) auto
next
  case (Op_setopt l p v n)
  with setopt_ok [OF assms(1), of l p v n] assms(2) show ?thesis by (simp del: enabled.simps)
next
  case Op_stop
  with stop_ok [of r] assms(1) show ?thesis by auto
qed

lemma req_do_ok:
  assumes "req_ok r \<or> req_ending r" "enabled op r" "unsplit T" "drains T avail"
  shows "\<exists>r'. req_do T op r = Some r' \<and> (req_ok r' \<or> req_ending r')"
  using assms(1) req_open_do_ok [OF _ assms(2-4)] ending_ok [OF _ assms(2), of T] by blast

text \<open>The states that sequences of enabled operations lead to.\<close>

inductive req_reach :: "'t transport \<Rightarrow> 't req \<Rightarrow> bool" for T where
  init: "req_reach T (nn_req_init i n)"
| step: "req_reach T r \<Longrightarrow> enabled op r \<Longrightarrow> req_do T op r = Some r' \<Longrightarrow> req_reach T r'"

lemma req_reach_ok: "req_reach T r \<Longrightarrow> unsplit T \<Longrightarrow> drains T avail \<Longrightarrow> req_ok r \<or> req_ending r"
proof (induction rule: req_reach.induct)
  case (step r op r')
  then have "req_ok r \<or> req_ending r" by blast
  from req_do_ok [OF this step.hyps(2) step.prems] step.hyps(3) show ?case by auto
qed (simp add: req_ok_init)

end
