(* ===== verification/Trie.thy ===== *)
theory Trie
  imports Prelude "HOL-Library.Sublist"
begin

text \<open>
  The subscription trie of the messaging library, \<open>src/protocols/pubsub/trie.c\<close> of nanomsg: a
  patricia trie whose nodes hold a reference count, up to ten bytes of prefix, and their children, in a list of at
  most eight characters (sparse) or an array over a range of characters (dense).

  The C code walks down with a pointer to the pointer of a node and changes nodes in place; here each operation
  returns the new node. A pointer that may be null is an option. Reading past the end of the data or
  through a null pointer is the result \<open>None\<close>.
\<close>

definition NN_TRIE_PREFIX_MAX :: nat where "NN_TRIE_PREFIX_MAX = 10"
definition NN_TRIE_SPARSE_MAX :: nat where "NN_TRIE_SPARSE_MAX = 8"

lemmas trie_consts = NN_TRIE_PREFIX_MAX_def NN_TRIE_SPARSE_MAX_def

section \<open>Nodes\<close>

text \<open>The children: in the dense case \<open>min\<close>, \<open>max\<close>, \<open>nbr\<close> and the array of pointers.\<close>

datatype 'n kids =
    Sparse "(byte \<times> 'n) list"
  | Dense byte byte "16 word" "'n option list"

datatype trie_node = Node (refcount: u32) (node_prefix: bytes) (node_kids: "trie_node kids")

definition nn_node_has_subscribers :: "trie_node \<Rightarrow> bool" where
  "nn_node_has_subscribers n \<longleftrightarrow> refcount n \<noteq> 0"

fun nn_node_check_prefix :: "bytes \<Rightarrow> bytes \<Rightarrow> nat" where
  "nn_node_check_prefix (p # ps) (d # ds) = (if p \<noteq> d then 0 else Suc (nn_node_check_prefix ps ds))"
| "nn_node_check_prefix _ _ = 0"

text \<open>The slot of a character: no slot, or what it holds.\<close>

definition nn_node_next :: "'n kids \<Rightarrow> byte \<Rightarrow> 'n option option" where
  "nn_node_next k c =
     (case k of
        Sparse cs \<Rightarrow> (case map_of cs c of None \<Rightarrow> None | Some n \<Rightarrow> Some (Some n))
      | Dense mn mx nbr xs \<Rightarrow> if c < mn \<or> mx < c then None else Some (xs ! (unat c - unat mn)))"

text \<open>Writing to the slot of a character that has one.\<close>

definition put_slot :: "'n kids \<Rightarrow> byte \<Rightarrow> 'n option \<Rightarrow> 'n kids" where
  "put_slot k c v =
     (case k of
        Sparse cs \<Rightarrow> (case v of None \<Rightarrow> k
          | Some n \<Rightarrow> Sparse (map (\<lambda>(d, m). if d = c then (d, n) else (d, m)) cs))
      | Dense mn mx nbr xs \<Rightarrow> Dense mn mx nbr (xs[unat c - unat mn := v]))"

text \<open>The node merged with its only child, when it is no subscription and the prefixes fit into one.\<close>

definition nn_node_compact :: "trie_node \<Rightarrow> trie_node" where
  "nn_node_compact self =
     (if nn_node_has_subscribers self then self
      else case node_kids self of
        Sparse [(c, ch)] \<Rightarrow>
          if NN_TRIE_PREFIX_MAX < length (node_prefix self) + length (node_prefix ch) + 1 then self
          else Node (refcount ch) (node_prefix self @ c # node_prefix ch) (node_kids ch)
      | _ \<Rightarrow> self)"

section \<open>Subscribing\<close>

text \<open>Step 4: the nodes for the rest of a subscription; step 5 counts it in the last of them.\<close>

function new_nodes :: "bytes \<Rightarrow> trie_node" where
  "new_nodes data =
     (if NN_TRIE_PREFIX_MAX < length data
      then Node 0 (take NN_TRIE_PREFIX_MAX data)
        (Sparse [(data ! NN_TRIE_PREFIX_MAX, new_nodes (drop (Suc NN_TRIE_PREFIX_MAX) data))])
      else Node 1 data (Sparse []))"
  by pat_completeness auto
termination by (relation "measure length") (auto simp: trie_consts)

declare new_nodes.simps [simp del]

text \<open>Step 3: a child for a character that has none. The three cases of the child array:\<close>

definition grow_dense ::
    "byte \<Rightarrow> byte \<Rightarrow> 'n option list \<Rightarrow> byte \<Rightarrow> byte \<times> byte \<times> 'n option list" where
  "grow_dense mn mx xs c =
     (if c < mn \<or> mx < c then
        let new_min = min mn c; new_max = max mx c in
        (new_min, new_max,
         if mn \<noteq> new_min then replicate (unat mn - unat new_min) None @ xs
         else xs @ replicate (unat new_max - unat mx) None)
      else (mn, mx, xs))"

definition sparse_to_dense :: "(byte \<times> 'n) list \<Rightarrow> byte \<Rightarrow> byte \<times> byte \<times> 'n option list" where
  "sparse_to_dense cs c =
     (let new_min = min (fold (\<lambda>(d, n). min d) cs 255) c;
          new_max = max (fold (\<lambda>(d, n). max d) cs 0) c
      in (new_min, new_max,
          fold (\<lambda>(d, n) xs. xs[unat d - unat new_min := Some n]) cs
            (replicate (unat new_max - unat new_min + 1) None)))"

text \<open>The new node of the third case starts with a reference count of zero, whatever the old one had.\<close>

definition add_kid :: "u32 \<Rightarrow> 'n kids \<Rightarrow> byte \<Rightarrow> 'n \<Rightarrow> u32 \<times> 'n kids" where
  "add_kid r k c n =
     (case k of
        Dense mn mx nbr xs \<Rightarrow>
          (case grow_dense mn mx xs c of
             (mn', mx', xs') \<Rightarrow> (r, Dense mn' mx' (nbr + 1) (xs'[unat c - unat mn' := Some n])))
      | Sparse cs \<Rightarrow>
          if length cs < NN_TRIE_SPARSE_MAX then (r, Sparse (cs @ [(c, n)]))
          else (case sparse_to_dense cs c of
             (mn, mx, xs) \<Rightarrow> (0, Dense mn mx (of_nat (length cs) + 1) (xs[unat c - unat mn := Some n]))))"

definition add_child :: "trie_node \<Rightarrow> bytes \<Rightarrow> trie_node" where
  "add_child self data =
     (case add_kid (refcount self) (node_kids self) (hd data) (new_nodes (tl data)) of
        (r, k) \<Rightarrow> Node r (node_prefix self) k)"

text \<open>Step 5, and the result: whether the subscription is fresh.\<close>

definition count_in :: "trie_node \<Rightarrow> trie_node \<times> bool" where
  "count_in self = (Node (refcount self + 1) (node_prefix self) (node_kids self), refcount self + 1 = 1)"

text \<open>Step 2: the node split behind the first \<open>pos\<close> bytes of its prefix.\<close>

definition split_node :: "trie_node \<Rightarrow> nat \<Rightarrow> trie_node" where
  "split_node self pos =
     Node 0 (take pos (node_prefix self))
       (Sparse [(node_prefix self ! pos,
         nn_node_compact (Node (refcount self) (drop (pos + 1) (node_prefix self)) (node_kids self)))])"

text \<open>Step 1: the walk down.\<close>

function nn_node_subscribe :: "trie_node \<Rightarrow> bytes \<Rightarrow> trie_node \<times> bool" where
  "nn_node_subscribe self data =
     (let pos = nn_node_check_prefix (node_prefix self) data; rest = drop pos data in
      if pos < length (node_prefix self) then
        (let node = split_node self pos in
         if rest = [] then count_in node else (add_child node rest, True))
      else if rest = [] then count_in self
      else case nn_node_next (node_kids self) (hd rest) of
        Some (Some n) \<Rightarrow>
          (case nn_node_subscribe n (tl rest) of
             (n', fresh) \<Rightarrow>
               (Node (refcount self) (node_prefix self) (put_slot (node_kids self) (hd rest) (Some n')), fresh))
      | _ \<Rightarrow> (add_child self rest, True))"
  by pat_completeness auto
termination
  by (relation "measure (\<lambda>(n, d). length d)") auto

declare nn_node_subscribe.simps [simp del]

text \<open>The trie is its root, which is null when nothing is subscribed.\<close>

definition nn_trie_subscribe :: "trie_node option \<Rightarrow> bytes \<Rightarrow> trie_node option \<times> bool" where
  "nn_trie_subscribe root data =
     (case root of None \<Rightarrow> (Some (new_nodes data), True)
      | Some n \<Rightarrow> (case nn_node_subscribe n data of (n', fresh) \<Rightarrow> (Some n', fresh)))"

section \<open>Matching\<close>

text \<open>The code reads \<open>*data\<close> for the next character without asking whether there is one.\<close>

function nn_node_match :: "trie_node \<Rightarrow> bytes \<Rightarrow> bool option" where
  "nn_node_match node data =
     (if nn_node_check_prefix (node_prefix node) data \<noteq> length (node_prefix node) then Some False
      else let rest = drop (length (node_prefix node)) data in
        if nn_node_has_subscribers node then Some True
        else if rest = [] then None
        else case nn_node_next (node_kids node) (hd rest) of
          Some (Some n) \<Rightarrow> nn_node_match n (tl rest)
        | _ \<Rightarrow> Some False)"
  by pat_completeness auto
termination
  by (relation "measure (\<lambda>(n, d). length d)") auto

declare nn_node_match.simps [simp del]

definition nn_trie_match :: "trie_node option \<Rightarrow> bytes \<Rightarrow> bool option" where
  "nn_trie_match root data = (case root of None \<Rightarrow> Some False | Some n \<Rightarrow> nn_node_match n data)"

section \<open>Unsubscribing\<close>

definition EINVAL_int :: int where "EINVAL_int = 22"

text \<open>The label \<open>found\<close>: the end of the subscription is reached at this node.\<close>

definition unsub_found :: "trie_node option \<Rightarrow> int \<times> trie_node option" where
  "unsub_found self =
     (case self of
        None \<Rightarrow> (- EINVAL_int, None)
      | Some n \<Rightarrow>
          if \<not> nn_node_has_subscribers n then (- EINVAL_int, Some n)
          else let n' = Node (refcount n - 1) (node_prefix n) (node_kids n) in
            if refcount n' = 0 then
              (if node_kids n' = Sparse [] then (1, None) else (1, Some (nn_node_compact n')))
            else (0, Some n'))"

text \<open>
  The child array without the child of \<open>c\<close>, whose slot in a dense array is already null. When a dense array
  becomes sparse, the new node starts with a reference count of zero, and there must be eight children left.
\<close>

definition first_used :: "'n option list \<Rightarrow> nat" where
  "first_used xs = length (takeWhile (\<lambda>x. x = None) xs)"

definition last_used :: "'n option list \<Rightarrow> nat" where
  "last_used xs = length (dropWhile (\<lambda>x. x = None) (rev xs)) - 1"

fun used_slots :: "nat \<Rightarrow> 'n option list \<Rightarrow> (byte \<times> 'n) list" where
  "used_slots i [] = []"
| "used_slots i (None # xs) = used_slots (Suc i) xs"
| "used_slots i (Some n # xs) = (of_nat i, n) # used_slots (Suc i) xs"

definition del_kid :: "u32 \<Rightarrow> 'n kids \<Rightarrow> byte \<Rightarrow> (u32 \<times> 'n kids) option" where
  "del_kid r k c =
     (case k of
        Sparse cs \<Rightarrow>
          if c \<notin> fst ` set cs then None else Some (r, Sparse (filter (\<lambda>(d, n). d \<noteq> c) cs))
      | Dense mn mx nbr xs0 \<Rightarrow>
          let xs = xs0[unat c - unat mn := None] in
          if NN_TRIE_SPARSE_MAX + 1 < unat nbr then
            if c = mn then
              Some (r, Dense (of_nat (first_used xs) + mn) mx (nbr - 1) (drop (first_used xs) xs))
            else if c = mx then
              Some (r, Dense mn (of_nat (last_used xs) + mn) (nbr - 1) (take (last_used xs + 1) xs))
            else Some (r, Dense mn mx (nbr - 1) xs)
          else let cs = used_slots (unat mn) xs in
            if length cs \<noteq> NN_TRIE_SPARSE_MAX then None else Some (0, Sparse cs))"

text \<open>
  A sparse node without children and subscribers is freed, and a sparse one is compacted; one whose array was
  dense is left as it is.
\<close>

definition prune :: "trie_node \<Rightarrow> byte \<Rightarrow> trie_node option option" where
  "prune self c =
     (case del_kid (refcount self) (node_kids self) c of
        None \<Rightarrow> None
      | Some (r, k) \<Rightarrow> let n = Node r (node_prefix self) k in
          Some (case node_kids self of
             Sparse cs \<Rightarrow> if k = Sparse [] \<and> \<not> nn_node_has_subscribers n then None
               else Some (nn_node_compact n)
           | Dense mn mx nbr xs \<Rightarrow> Some n))"

text \<open>
  When there are no data the node is taken for the end of the subscription before its prefix is looked
  at. A result other than zero, also the error, makes the parent prune.
\<close>

function nn_node_unsubscribe :: "trie_node option \<Rightarrow> bytes \<Rightarrow> (int \<times> trie_node option) option" where
  "nn_node_unsubscribe self data =
     (if data = [] then Some (unsub_found self)
      else case self of
        None \<Rightarrow> None
      | Some n \<Rightarrow>
          if nn_node_check_prefix (node_prefix n) data \<noteq> length (node_prefix n) then Some (0, self)
          else let rest = drop (length (node_prefix n)) data in
            if rest = [] then Some (unsub_found self)
            else case nn_node_next (node_kids n) (hd rest) of
              None \<Rightarrow> Some (0, self)
            | Some ch \<Rightarrow>
                (case nn_node_unsubscribe ch (tl rest) of
                   None \<Rightarrow> None
                 | Some (res, ch') \<Rightarrow>
                     if res = 0 \<or> ch' \<noteq> None then
                       Some (if res = 0 then 0 else 1,
                         Some (Node (refcount n) (node_prefix n) (put_slot (node_kids n) (hd rest) ch')))
                     else map_option (\<lambda>n'. (1, n')) (prune n (hd rest))))"
  by pat_completeness auto
termination
  by (relation "measure (\<lambda>(n, d). length d)") auto

declare nn_node_unsubscribe.simps [simp del]

definition nn_trie_unsubscribe :: "trie_node option \<Rightarrow> bytes \<Rightarrow> (int \<times> trie_node option) option" where
  "nn_trie_unsubscribe root data = nn_node_unsubscribe root data"

end
