(* ===== verification/Trie_Spec.thy ===== *)
theory Trie_Spec
  imports Trie
begin

text \<open>
  What the trie represents: for each string the number of its subscriptions, \<open>subs\<close>. The well-formedness of
  nodes is \<open>wf_node\<close>. The child array is an implementation of a partial function from
  characters to nodes, \<open>child\<close>: the lemmas on \<open>put_slot\<close>, \<open>add_kid\<close> and \<open>del_kid\<close> say so, and the proofs about the
  tree only use them.
\<close>

section \<open>The child array as a partial function\<close>

definition child :: "'n kids \<Rightarrow> byte \<Rightarrow> 'n option" where
  "child k c = (case nn_node_next k c of Some (Some n) \<Rightarrow> Some n | _ \<Rightarrow> None)"

text \<open>\<open>used xs\<close>: how many slots are in use.\<close>

primrec used :: "'n option list \<Rightarrow> nat" where
  "used [] = 0"
| "used (x # xs) = (if x = None then 0 else 1) + used xs"

lemma used_append [simp]: "used (xs @ ys) = used xs + used ys"
  by (induction xs) simp_all

lemma used_None [simp]: "used (replicate n None) = 0"
  by (induction n) simp_all

fun kids_ok :: "'n kids \<Rightarrow> bool" where
  "kids_ok (Sparse cs) \<longleftrightarrow> distinct (map fst cs) \<and> length cs \<le> NN_TRIE_SPARSE_MAX"
| "kids_ok (Dense mn mx nbr xs) \<longleftrightarrow> mn \<le> mx \<and> length xs = unat mx - unat mn + 1 \<and>
     unat nbr = used xs \<and> NN_TRIE_SPARSE_MAX < used xs \<and> hd xs \<noteq> None \<and> last xs \<noteq> None"

lemma child_Sparse [simp]: "child (Sparse cs) c = map_of cs c"
  by (simp add: child_def nn_node_next_def split: option.splits)

lemma child_Dense:
  "child (Dense mn mx nbr xs) c = (if mn \<le> c \<and> c \<le> mx then xs ! (unat c - unat mn) else None)"
  by (auto simp: child_def nn_node_next_def split: option.splits)

lemma next_child:
  "nn_node_next k c = Some (Some n) \<longleftrightarrow> child k c = Some n"
  by (auto simp: child_def split: option.splits)

lemma case_next:
  "(case nn_node_next k c of Some (Some n) \<Rightarrow> f n | _ \<Rightarrow> d) = (case child k c of Some n \<Rightarrow> f n | None \<Rightarrow> d)"
  by (auto simp: child_def split: option.splits)

lemma map_of_replace:
  "map_of (map (\<lambda>(d, m). if d = c then (d, n) else (d, m)) cs) x =
     (if x = c \<and> map_of cs c \<noteq> None then Some n else map_of cs x)"
  by (induction cs) auto

lemma fst_replace: "map fst (map (\<lambda>(d, m). if d = c then (d, n) else (d, m)) cs) = map fst cs"
  by (induction cs) auto

lemma used_update:
  "i < length xs \<Longrightarrow> used (xs[i := v]) + (if xs ! i = None then 0 else 1) = used xs + (if v = None then 0 else 1)"
proof (induction xs arbitrary: i)
  case (Cons x xs)
  then show ?case by (cases i) auto
qed simp

lemma hd_update: "xs \<noteq> [] \<Longrightarrow> hd (xs[i := v]) = (if i = 0 then v else hd xs)"
  by (cases xs; cases i) simp_all

lemma last_update: "xs \<noteq> [] \<Longrightarrow> last (xs[i := v]) = (if i = length xs - 1 then v else last xs)"
  by (simp add: last_list_update)

lemma slot_index:
  fixes mn mx c :: byte
  shows "mn \<le> c \<Longrightarrow> c \<le> mx \<Longrightarrow> unat c - unat mn < unat mx - unat mn + 1"
  by (simp add: word_le_nat_alt)

lemma slot_inj:
  fixes mn c d :: byte
  shows "mn \<le> c \<Longrightarrow> mn \<le> d \<Longrightarrow> unat c - unat mn = unat d - unat mn \<longleftrightarrow> c = d"
  by (simp add: word_le_nat_alt word_unat_eq_iff) arith

text \<open>Replacing a child.\<close>

lemma child_put_slot:
  assumes "kids_ok k" "child k c \<noteq> None"
  shows "child (put_slot k c (Some n)) d = (if d = c then Some n else child k d)"
    and "kids_ok (put_slot k c (Some n))"
proof -
  show "child (put_slot k c (Some n)) d = (if d = c then Some n else child k d)"
  proof (cases k)
    case (Sparse cs)
    with assms(2) show ?thesis by (simp add: put_slot_def map_of_replace)
  next
    case (Dense mn mx nbr xs)
    with assms(2) have c: "mn \<le> c" "c \<le> mx" by (auto simp: child_Dense split: if_splits)
    have i: "unat c - unat mn < length xs" using assms(1) Dense slot_index [OF c] by simp
    show ?thesis
      using Dense c i slot_inj [OF c(1), of d]
      by (auto simp: put_slot_def child_Dense nth_list_update)
  qed
  show "kids_ok (put_slot k c (Some n))"
  proof (cases k)
    case (Sparse cs)
    with assms(1) show ?thesis by (simp add: put_slot_def del: map_map) (simp only: fst_replace)
  next
    case (Dense mn mx nbr xs)
    with assms(2) have c: "mn \<le> c" "c \<le> mx" and v: "xs ! (unat c - unat mn) \<noteq> None"
      by (auto simp: child_Dense split: if_splits)
    have i: "unat c - unat mn < length xs" using assms(1) Dense slot_index [OF c] by simp
    from used_update [OF i, of "Some n"] v have u: "used (xs[unat c - unat mn := Some n]) = used xs" by simp
    have ne: "xs \<noteq> []" using i by auto
    show ?thesis
      using assms(1) Dense by (auto simp: put_slot_def u hd_update [OF ne] last_update [OF ne])
  qed
qed

text \<open>Adding a child to a dense array: the slot exists afterwards and is empty, the others are as before.\<close>

lemma nth_pad:
  "xs ! i = None \<Longrightarrow> i < length xs \<Longrightarrow> (replicate j None @ xs) ! (j + i) = None"
  by (simp add: nth_append)

lemma grow_dense_low:
  fixes mn mx c :: byte
  assumes "c < mn" "mn \<le> mx" "length xs = unat mx - unat mn + 1"
  shows "grow_dense mn mx xs c = (c, mx, replicate (unat mn - unat c) None @ xs)"
    and "length (replicate (unat mn - unat c) None @ xs) = unat mx - unat c + 1"
    and "child (Dense c mx nbr (replicate (unat mn - unat c) None @ xs)) d = child (Dense mn mx nbr' xs) d"
proof -
  have le: "unat c < unat mn" "unat mn \<le> unat mx" using assms(1,2) by (simp_all add: word_less_nat_alt word_le_nat_alt)
  show "grow_dense mn mx xs c = (c, mx, replicate (unat mn - unat c) None @ xs)"
    using assms(1,2) by (auto simp: grow_dense_def Let_def min_def max_def)
  show "length (replicate (unat mn - unat c) None @ xs) = unat mx - unat c + 1"
    using le assms(3) by simp
  show "child (Dense c mx nbr (replicate (unat mn - unat c) None @ xs)) d = child (Dense mn mx nbr' xs) d"
    using le by (auto simp: child_Dense nth_append word_le_nat_alt)
qed

lemma grow_dense_high:
  fixes mn mx c :: byte
  assumes "mx < c" "mn \<le> mx" "length xs = unat mx - unat mn + 1"
  shows "grow_dense mn mx xs c = (mn, c, xs @ replicate (unat c - unat mx) None)"
    and "length (xs @ replicate (unat c - unat mx) None) = unat c - unat mn + 1"
    and "child (Dense mn c nbr (xs @ replicate (unat c - unat mx) None)) d = child (Dense mn mx nbr' xs) d"
proof -
  have le: "unat mx < unat c" "unat mn \<le> unat mx" using assms(1,2) by (simp_all add: word_less_nat_alt word_le_nat_alt)
  show "grow_dense mn mx xs c = (mn, c, xs @ replicate (unat c - unat mx) None)"
    using assms(1,2) by (auto simp: grow_dense_def Let_def min_def max_def)
  show "length (xs @ replicate (unat c - unat mx) None) = unat c - unat mn + 1"
    using le assms(3) by simp
  show "child (Dense mn c nbr (xs @ replicate (unat c - unat mx) None)) d = child (Dense mn mx nbr' xs) d"
    using le assms(3) by (auto simp: child_Dense nth_append word_le_nat_alt nth_replicate)
qed

lemma grow_dense_in: "mn \<le> c \<Longrightarrow> c \<le> mx \<Longrightarrow> grow_dense mn mx xs c = (mn, mx, xs)"
  by (auto simp: grow_dense_def)

text \<open>Filling an empty slot of a dense array.\<close>

lemma fill_slot:
  fixes mn mx c :: byte
  assumes "mn \<le> c" "c \<le> mx" "length xs = unat mx - unat mn + 1" "child (Dense mn mx nbr xs) c = None"
  shows "child (Dense mn mx nbr' (xs[unat c - unat mn := Some n])) d =
      (if d = c then Some n else child (Dense mn mx nbr xs) d)"
    and "used (xs[unat c - unat mn := Some n]) = used xs + 1"
    and "hd (xs[unat c - unat mn := Some n]) = (if c = mn then Some n else hd xs)"
    and "last (xs[unat c - unat mn := Some n]) = (if c = mx then Some n else last xs)"
proof -
  have i: "unat c - unat mn < length xs" using slot_index [OF assms(1,2)] assms(3) by simp
  have ne: "xs \<noteq> []" using i by auto
  have le: "unat mn \<le> unat c" "unat c \<le> unat mx" using assms(1,2) by (simp_all add: word_le_nat_alt)
  show "child (Dense mn mx nbr' (xs[unat c - unat mn := Some n])) d =
      (if d = c then Some n else child (Dense mn mx nbr xs) d)"
    using assms(1,2) i slot_inj [OF assms(1), of d] by (auto simp: child_Dense nth_list_update)
  have "xs ! (unat c - unat mn) = None" using assms(1,2,4) by (simp add: child_Dense)
  with used_update [OF i, of "Some n"] show "used (xs[unat c - unat mn := Some n]) = used xs + 1" by simp
  have "unat c - unat mn = 0 \<longleftrightarrow> c = mn" using le by (simp add: word_unat_eq_iff)
  then show "hd (xs[unat c - unat mn := Some n]) = (if c = mn then Some n else hd xs)"
    by (simp only: hd_update [OF ne])
  have "unat c - unat mn = length xs - 1 \<longleftrightarrow> c = mx" using le assms(3) by (simp add: word_unat_eq_iff) arith
  then show "last (xs[unat c - unat mn := Some n]) = (if c = mx then Some n else last xs)"
    by (simp only: last_update [OF ne])
qed

text \<open>A dense array has at most 256 slots, so that its counter does not wrap.\<close>

lemma used_le: "used xs \<le> length xs"
  by (induction xs) auto

lemma nbr_Suc:
  fixes nbr :: "16 word" and mx :: byte
  assumes "unat nbr = used xs" "length xs = unat mx - unat mn + 1"
  shows "unat (nbr + 1) = used xs + 1"
proof -
  have "unat mx < 256" using unsigned_less [of mx, where 'a = nat] by simp
  then have "unat nbr < 257" using assms used_le [of xs] by simp
  then show ?thesis using assms(1) by (simp add: unat_word_ariths)
qed

lemma add_kid_dense:
  assumes "kids_ok (Dense mn mx nbr xs)" "child (Dense mn mx nbr xs) c = None"
    and "add_kid r (Dense mn mx nbr xs) c n = (r', k')"
  shows "r' = r \<and> (\<forall>d. child k' d = (if d = c then Some n else child (Dense mn mx nbr xs) d)) \<and> kids_ok k'"
proof -
  obtain mn' mx' ys where g: "grow_dense mn mx xs c = (mn', mx', ys)"
    by (metis prod_cases3)
  have k: "k' = Dense mn' mx' (nbr + 1) (ys[unat c - unat mn' := Some n])" "r' = r"
    using assms(3) by (simp_all add: add_kid_def g)
  have ok: "mn \<le> mx" "length xs = unat mx - unat mn + 1" "unat nbr = used xs" "NN_TRIE_SPARSE_MAX < used xs"
      "hd xs \<noteq> None" "last xs \<noteq> None" using assms(1) by simp_all
  have ne: "xs \<noteq> []" using ok(2) by auto
  have G: "mn' \<le> c \<and> c \<le> mx' \<and> length ys = unat mx' - unat mn' + 1 \<and> used ys = used xs \<and>
      (\<forall>d. child (Dense mn' mx' nbr ys) d = child (Dense mn mx nbr xs) d) \<and>
      (c = mn' \<or> hd ys \<noteq> None) \<and> (c = mx' \<or> last ys \<noteq> None)"
  proof (cases "c < mn")
    case True
    note low = grow_dense_low [OF True ok(1,2)]
    from low(1) g have e: "mn' = c" "mx' = mx" "ys = replicate (unat mn - unat c) None @ xs" by simp_all
    show ?thesis
      unfolding e using low(2) low(3) [of nbr _ nbr] True ok ne by auto
  next
    case False
    show ?thesis
    proof (cases "mx < c")
      case True
      note high = grow_dense_high [OF True ok(1,2)]
      from high(1) g have e: "mn' = mn" "mx' = c" "ys = xs @ replicate (unat c - unat mx) None" by simp_all
      show ?thesis
        unfolding e using high(2) high(3) [of nbr _ nbr] True ok ne by auto
    next
      case False
      with \<open>\<not> c < mn\<close> g grow_dense_in [of mn c mx xs] ok show ?thesis by auto
    qed
  qed
  then have c: "child (Dense mn' mx' nbr ys) c = None" using assms(2) by simp
  from G have b: "mn' \<le> c" "c \<le> mx'" "length ys = unat mx' - unat mn' + 1" by simp_all
  note F = fill_slot [OF b c]
  have "unat (nbr + 1) = used ys + 1" using nbr_Suc [OF _ b(3)] G ok(3) by simp
  then show ?thesis
    using G ok(4) k b F(1) [of "nbr + 1"] F(2-4) by auto
qed

text \<open>The conversion of a full sparse array: the range of the characters, and the filled array.\<close>

lemma fold_min:
  fixes a :: byte
  shows "fold (\<lambda>(d, n). min d) cs a \<le> a \<and> (\<forall>d \<in> fst ` set cs. fold (\<lambda>(d, n). min d) cs a \<le> d) \<and>
    (fold (\<lambda>(d, n). min d) cs a = a \<or> fold (\<lambda>(d, n). min d) cs a \<in> fst ` set cs)"
proof (induction cs arbitrary: a)
  case (Cons x cs)
  obtain d n where x: "x = (d, n)" by (cases x)
  show ?case using Cons [of "min d a"] unfolding x by (auto simp: min_def split: if_splits)
qed simp

lemma top_byte: "(c :: byte) \<le> 255" "255 \<le> c \<longleftrightarrow> c = 255"
proof -
  show le: "c \<le> 255" for c :: byte
    using unsigned_less [of c, where 'a = nat] by (simp add: word_le_nat_alt)
  show "255 \<le> c \<longleftrightarrow> c = 255" using le [of c] by auto
qed

lemma fold_max:
  fixes a :: byte
  shows "a \<le> fold (\<lambda>(d, n). max d) cs a \<and> (\<forall>d \<in> fst ` set cs. d \<le> fold (\<lambda>(d, n). max d) cs a) \<and>
    (fold (\<lambda>(d, n). max d) cs a = a \<or> fold (\<lambda>(d, n). max d) cs a \<in> fst ` set cs)"
proof (induction cs arbitrary: a)
  case (Cons x cs)
  obtain d n where x: "x = (d, n)" by (cases x)
  show ?case using Cons [of "max d a"] unfolding x by (auto simp: max_def split: if_splits)
qed simp

definition fill_slots :: "byte \<Rightarrow> (byte \<times> 'n) list \<Rightarrow> 'n option list \<Rightarrow> 'n option list" where
  "fill_slots mn cs xs = fold (\<lambda>(d, n) xs. xs[unat d - unat mn := Some n]) cs xs"

lemma fill_slots_simps [simp]:
  "fill_slots mn [] xs = xs"
  "fill_slots mn ((d, n) # cs) xs = fill_slots mn cs (xs[unat d - unat mn := Some n])"
  by (simp_all add: fill_slots_def)

lemma fill_slots:
  assumes "distinct (map fst cs)" "\<forall>d \<in> fst ` set cs. mn \<le> d \<and> d \<le> mx \<and> child (Dense mn mx nbr xs) d = None"
    and "length xs = unat mx - unat mn + 1"
  shows "length (fill_slots mn cs xs) = length xs \<and> used (fill_slots mn cs xs) = used xs + length cs \<and>
    (\<forall>d. child (Dense mn mx nbr (fill_slots mn cs xs)) d =
      (case map_of cs d of Some n \<Rightarrow> Some n | None \<Rightarrow> child (Dense mn mx nbr xs) d))"
  using assms
proof (induction cs arbitrary: xs)
  case (Cons x cs)
  obtain c n where x: "x = (c, n)" by (cases x)
  have c: "mn \<le> c" "c \<le> mx" "child (Dense mn mx nbr xs) c = None" using Cons.prems(2) by (simp_all add: x)
  note F = fill_slot(1) [OF c(1,2) Cons.prems(3) c(3), where n = n and nbr' = nbr]
    fill_slot(2) [OF c(1,2) Cons.prems(3) c(3), of n]
  have "\<forall>d \<in> fst ` set cs. d \<noteq> c" using Cons.prems(1) by (auto simp: x)
  then have "\<forall>d \<in> fst ` set cs. mn \<le> d \<and> d \<le> mx \<and>
      child (Dense mn mx nbr (xs[unat c - unat mn := Some n])) d = None"
    using Cons.prems(2) F(1) by (auto simp: x)
  with Cons.IH [of "xs[unat c - unat mn := Some n]"] Cons.prems(1,3) F(1,2)
  show ?case by (auto simp: x map_of_eq_None_iff split: option.splits)
qed simp

lemma sparse_to_dense_eq:
  "sparse_to_dense cs c =
     (let mn = min (fold (\<lambda>(d, n). min d) cs 255) c; mx = max (fold (\<lambda>(d, n). max d) cs 0) c in
      (mn, mx, fill_slots mn cs (replicate (unat mx - unat mn + 1) None)))"
  by (simp add: sparse_to_dense_def fill_slots_def Let_def)

lemma child_ends:
  assumes "mn \<le> mx" "length xs = unat mx - unat mn + 1"
  shows "child (Dense mn mx nbr xs) mn = hd xs" "child (Dense mn mx nbr xs) mx = last xs"
proof -
  have "xs \<noteq> []" using assms(2) by auto
  then show "child (Dense mn mx nbr xs) mn = hd xs" "child (Dense mn mx nbr xs) mx = last xs"
    using assms by (simp_all add: child_Dense hd_conv_nth last_conv_nth)
qed

lemma add_kid_convert:
  assumes "kids_ok (Sparse cs)" "map_of cs c = None" "length cs = NN_TRIE_SPARSE_MAX"
    and "add_kid r (Sparse cs) c n = (r', k')"
  shows "r' = 0 \<and> (\<forall>d. child k' d = (if d = c then Some n else map_of cs d)) \<and> kids_ok k'"
proof -
  define mn where "mn = min (fold (\<lambda>(d, n). min d) cs 255) c"
  define mx where "mx = max (fold (\<lambda>(d, n). max d) cs 0) c"
  define xs0 where "xs0 = replicate (unat mx - unat mn + 1) (None :: 'a option)"
  let ?ys = "fill_slots mn cs xs0"
  let ?nbr = "of_nat (length cs) + 1 :: 16 word"
  have k: "k' = Dense mn mx ?nbr (?ys[unat c - unat mn := Some n])" "r' = 0"
    using assms(3,4) unfolding xs0_def
    by (simp_all add: add_kid_def sparse_to_dense_eq mn_def mx_def Let_def del: replicate_Suc)
  have lo: "mn \<le> c" "\<forall>d \<in> fst ` set cs. mn \<le> d" "mn = c \<or> mn \<in> fst ` set cs"
    using fold_min [of cs 255] top_byte [of c] by (auto simp: mn_def min_def split: if_splits)
  have hi: "c \<le> mx" "\<forall>d \<in> fst ` set cs. d \<le> mx" "mx = c \<or> mx \<in> fst ` set cs"
    using fold_max [of 0 cs] by (auto simp: mx_def max_def split: if_splits)
  have mm: "mn \<le> mx" using lo(1) hi(1) by simp
  have x0: "length xs0 = unat mx - unat mn + 1" "used xs0 = 0"
    unfolding xs0_def by (simp_all only: length_replicate used_None)
  have e: "child (Dense mn mx ?nbr xs0) d = None" for d
  proof (cases "mn \<le> d \<and> d \<le> mx")
    case True
    then have "xs0 ! (unat d - unat mn) = None" unfolding xs0_def by (intro nth_replicate slot_index) simp_all
    with True show ?thesis by (simp only: child_Dense simp_thms if_True)
  next
    case False
    then show ?thesis by (auto simp: child_Dense)
  qed
  have F: "length ?ys = unat mx - unat mn + 1" "used ?ys = length cs"
      "\<And>d. child (Dense mn mx ?nbr ?ys) d = map_of cs d"
    using fill_slots [of cs mn mx ?nbr xs0] assms(1) lo(2) hi(2) e x0 by (auto split: option.splits)
  have c: "child (Dense mn mx ?nbr ?ys) c = None" using F(3) assms(2) by simp
  note S = fill_slot(1) [OF lo(1) hi(1) F(1) c, where n = n and nbr' = "?nbr"]
    fill_slot(2-4) [OF lo(1) hi(1) F(1) c, of n]
  note at = child_ends [OF mm F(1), where nbr = "?nbr"]
  have "mn = c \<or> hd ?ys \<noteq> None" using lo(3) F(3) [of mn] at(1) by (auto simp: map_of_eq_None_iff)
  moreover have "mx = c \<or> last ?ys \<noteq> None" using hi(3) F(3) [of mx] at(2) by (auto simp: map_of_eq_None_iff)
  moreover have "unat ?nbr = length cs + 1" using assms(3) by (simp add: trie_consts)
  ultimately show ?thesis
    using S k mm F assms(3) by (auto simp: trie_consts)
qed

text \<open>All three cases.\<close>

lemma child_add_kid:
  assumes "kids_ok k" "child k c = None" "add_kid r k c n = (r', k')"
  shows "child k' d = (if d = c then Some n else child k d)" and "kids_ok k'" and "r' = r \<or> r' = 0"
proof -
  have *: "(r' = r \<or> r' = 0) \<and> (\<forall>d. child k' d = (if d = c then Some n else child k d)) \<and> kids_ok k'"
  proof (cases k)
    case (Dense mn mx nbr xs)
    show ?thesis
      using add_kid_dense [OF assms [unfolded Dense]] Dense by simp
  next
    case (Sparse cs)
    show ?thesis
    proof (cases "length cs < NN_TRIE_SPARSE_MAX")
      case True
      have "map_of (cs @ [(c, n)]) d = (if d = c then Some n else map_of cs d)" for d
        using Sparse assms(2) by (auto simp: map_add_def split: option.splits)
      moreover have "c \<notin> fst ` set cs" using Sparse assms(2) by (simp add: map_of_eq_None_iff)
      ultimately show ?thesis
        using True Sparse assms(1,3) by (auto simp: add_kid_def simp del: map_of_append)
    next
      case False
      with Sparse assms have l: "length cs = NN_TRIE_SPARSE_MAX" by simp
      have m: "map_of cs c = None" using Sparse assms(2) by simp
      have ok: "kids_ok (Sparse cs)" using Sparse assms(1) by simp
      show ?thesis
        using add_kid_convert [OF ok m l assms(3) [unfolded Sparse]] Sparse by simp
    qed
  qed
  then show "child k' d = (if d = c then Some n else child k d)" "kids_ok k'" "r' = r \<or> r' = 0" by blast+
qed

text \<open>Removing a child. A dense array is trimmed at the end that became empty:\<close>

lemma first_used:
  assumes "used xs \<noteq> 0"
  shows "first_used xs < length xs" "i < first_used xs \<Longrightarrow> xs ! i = None"
    "used (drop (first_used xs) xs) = used xs" "hd (drop (first_used xs) xs) \<noteq> None"
    "last (drop (first_used xs) xs) = last xs"
proof -
  let ?P = "\<lambda>x. x = None"
  have d: "drop (first_used xs) xs = dropWhile ?P xs"
    by (simp add: first_used_def dropWhile_eq_drop)
  have u: "used (dropWhile ?P xs) = used xs" by (induction xs) auto
  then have ne: "dropWhile ?P xs \<noteq> []" using assms by (metis used.simps(1))
  with d show "first_used xs < length xs" by (metis drop_eq_Nil not_le)
  then show "last (drop (first_used xs) xs) = last xs" by simp
  show "used (drop (first_used xs) xs) = used xs" using u d by simp
  show "hd (drop (first_used xs) xs) \<noteq> None" using hd_dropWhile [OF ne] d by simp
  show "i < first_used xs \<Longrightarrow> xs ! i = None"
    using set_takeWhileD [of "xs ! i" ?P xs] takeWhile_nth [of i ?P xs] nth_mem [of i "takeWhile ?P xs"]
    by (simp add: first_used_def)
qed

lemma used_rev [simp]: "used (rev xs) = used xs"
  by (induction xs) auto

lemma last_used:
  assumes "used xs \<noteq> 0"
  shows "last_used xs < length xs" "last_used xs < i \<Longrightarrow> i < length xs \<Longrightarrow> xs ! i = None"
    "used (take (last_used xs + 1) xs) = used xs" "last (take (last_used xs + 1) xs) \<noteq> None"
    "hd (take (last_used xs + 1) xs) = hd xs"
proof -
  let ?P = "\<lambda>x. x = None"
  have "used (rev xs) \<noteq> 0" using assms by simp
  note F = first_used [OF this, simplified]
  have l: "last_used xs = length xs - 1 - first_used (rev xs)"
    by (simp add: last_used_def first_used_def dropWhile_eq_drop)
  have t: "take (last_used xs + 1) xs = rev (drop (first_used (rev xs)) (rev xs))"
    using F(1) by (simp add: l rev_drop Suc_diff_Suc)
  show "last_used xs < length xs" using F(1) l by simp
  show "used (take (last_used xs + 1) xs) = used xs" unfolding t using F(3) by simp
  show "last (take (last_used xs + 1) xs) \<noteq> None" unfolding t using F(4) by (simp add: last_rev)
  show "hd (take (last_used xs + 1) xs) = hd xs" by (cases xs) simp_all
  assume i: "last_used xs < i" "i < length xs"
  then have "length xs - 1 - i < first_used (rev xs)" using l F(1) by simp
  from F(2) [OF this] i(2) show "xs ! i = None" by (simp add: rev_nth)
qed

lemma used_slots:
  assumes "i + length xs \<le> 256"
  shows "length (used_slots i xs) = used xs"
    and "map_of (used_slots i xs) d =
      (if i \<le> unat d \<and> unat d < i + length xs then xs ! (unat d - i) else None)"
    and "distinct (map fst (used_slots i xs)) \<and> (\<forall>e \<in> fst ` set (used_slots i xs). i \<le> unat e)"
  using assms
proof (induction i xs rule: used_slots.induct)
  case (1 i)
  { case 1 then show ?case by simp }
  { case 2 then show ?case by auto }
  { case 3 then show ?case by simp }
next
  case (2 i xs)
  { case 1 then show ?case using 2 by simp }
  { case 2
    then show ?case using "2.IH"(2) by (cases "unat d = i") (auto simp: nth_Cons')}
  { case 3 then show ?case using "2.IH"(3) by (auto simp: Ball_def dest: Suc_leD) }
next
  case (3 i n xs)
  have i: "unat (of_nat i :: byte) = i" if "i + length (Some n # xs) \<le> 256"
    using that by (simp add: unat_of_nat)
  { case 1 then show ?case using 3 by simp }
  { case 2
    then show ?case using "3.IH"(2) i by (cases "unat d = i") (auto simp: nth_Cons' word_unat_eq_iff) }
  { case 3 then show ?case using "3.IH"(3) i by (auto dest: Suc_leD) }
qed

lemma del_kid_dense:
  assumes "kids_ok (Dense mn mx nbr xs0)" "child (Dense mn mx nbr xs0) c \<noteq> None"
  shows "\<exists>r' k'. del_kid r (Dense mn mx nbr xs0) c = Some (r', k') \<and> (r' = r \<or> r' = 0) \<and> (\<forall>d. child k' d = (if d = c then None else child (Dense mn mx nbr xs0) d)) \<and>
    kids_ok k' \<and> k' \<noteq> Sparse []"
proof -
  from assms(2) have b: "mn \<le> c" "c \<le> mx" and v: "xs0 ! (unat c - unat mn) \<noteq> None"
    by (auto simp: child_Dense split: if_splits)
  have le: "unat mn \<le> unat c" "unat c \<le> unat mx" "unat mx < 256"
    using b unsigned_less [of mx, where 'a = nat] by (simp_all add: word_le_nat_alt)
  have ok: "length xs0 = unat mx - unat mn + 1" "unat nbr = used xs0" "8 < used xs0"
      "hd xs0 \<noteq> None" "last xs0 \<noteq> None" using assms(1) by (simp_all add: trie_consts)
  have i: "unat c - unat mn < length xs0" using slot_index [OF b] ok(1) by simp
  have ne: "xs0 \<noteq> []" using i by auto
  define xs where "xs = xs0[unat c - unat mn := None]"
  have len: "length xs = unat mx - unat mn + 1" by (simp add: xs_def ok(1))
  have u: "used xs + 1 = used xs0" using used_update [OF i, of None] v by (simp add: xs_def)
  have ch: "child (Dense mn mx nbr' xs) d = (if d = c then None else child (Dense mn mx nbr xs0) d)" for nbr' d
    using b i slot_inj [OF b(1), of d] by (auto simp: xs_def child_Dense nth_list_update)
  have hd: "hd xs = (if c = mn then None else hd xs0)"
  proof -
    have "unat c - unat mn = 0 \<longleftrightarrow> c = mn" using le by (simp add: word_unat_eq_iff)
    then show ?thesis by (simp only: xs_def hd_update [OF ne])
  qed
  have last: "last xs = (if c = mx then None else last xs0)"
  proof -
    have "unat c - unat mn = length xs0 - 1 \<longleftrightarrow> c = mx" using le ok(1) by (simp add: word_unat_eq_iff) arith
    then show ?thesis by (simp only: xs_def last_update [OF ne])
  qed
  have u0: "used xs \<noteq> 0" using u ok(3) by simp
  have nbr1: "unat (nbr - 1) = used xs"
    using u ok(2,3) by (simp add: unat_word_ariths unat_sub_if')
  have lt: "unat mn < unat mx" "mn \<noteq> mx" using used_le [of xs0] ok(1,3) by auto
  consider (low) "9 < unat nbr" "c = mn" | (high) "9 < unat nbr" "c \<noteq> mn" "c = mx"
    | (mid) "9 < unat nbr" "c \<noteq> mn" "c \<noteq> mx" | (conv) "unat nbr = 9"
    using ok(2,3) by linarith
  then show ?thesis
  proof cases
    case low
    let ?f = "first_used xs"
    note F = first_used [OF u0]
    define m where "m = of_nat ?f + mn"
    have e: "del_kid r (Dense mn mx nbr xs0) c = Some (r, Dense m mx (nbr - 1) (drop ?f xs))"
      using low by (simp add: del_kid_def xs_def trie_consts Let_def m_def)
    have m: "unat m = ?f + unat mn"
      using F(1) len le by (simp add: unat_word_ariths unat_of_nat m_def)
    have "child (Dense m mx (nbr - 1) (drop ?f xs)) d = child (Dense mn mx nbr xs) d" for d
      using F(1) F(2) [of "unat d - unat mn"] len lt(1)
      by (auto simp: child_Dense word_le_nat_alt m)
    then show ?thesis
      unfolding e using ch F(1,3-5) low len nbr1 ok(2,5) u last lt by (auto simp: word_le_nat_alt m trie_consts)
  next
    case high
    let ?l = "last_used xs"
    note F = last_used [OF u0]
    define m where "m = of_nat ?l + mn"
    have e: "del_kid r (Dense mn mx nbr xs0) c = Some (r, Dense mn m (nbr - 1) (take (?l + 1) xs))"
      using high by (simp add: del_kid_def xs_def trie_consts Let_def m_def)
    have m: "unat m = ?l + unat mn"
      using F(1) len le by (simp add: unat_word_ariths unat_of_nat m_def)
    have "child (Dense mn m (nbr - 1) (take (?l + 1) xs)) d = child (Dense mn mx nbr xs) d" for d
      using F(1) F(2) [of "unat d - unat mn"] len lt(1)
      by (auto simp: child_Dense word_le_nat_alt m)
    then show ?thesis
      unfolding e using ch F(1,3-5) high len nbr1 ok(2,4) u hd lt by (auto simp: word_le_nat_alt m trie_consts)
  next
    case mid
    have e: "del_kid r (Dense mn mx nbr xs0) c = Some (r, Dense mn mx (nbr - 1) xs)"
      using mid by (simp add: del_kid_def xs_def trie_consts Let_def)
    show ?thesis
      unfolding e using ch [of "nbr - 1"] mid len nbr1 ok(2,4,5) u hd last b by (auto simp: trie_consts)
  next
    case conv
    let ?k = "Sparse (used_slots (unat mn) xs)"
    have w: "unat mn + length xs \<le> 256" using len le by simp
    note U = used_slots [OF w]
    have "child ?k d = child (Dense mn mx nbr xs) d" for d
      unfolding child_Sparse U(2) using len le by (auto simp: child_Dense word_le_nat_alt)
    moreover have l: "length (used_slots (unat mn) xs) = 8" using U(1) u ok(2) conv by simp
    moreover have "del_kid r (Dense mn mx nbr xs0) c = Some (0, ?k)"
      using conv l by (simp add: del_kid_def xs_def trie_consts Let_def)
    ultimately show ?thesis using ch U(3) by (auto simp: trie_consts)
  qed
qed

text \<open>Both cases.\<close>

lemma map_of_filter_neq: "map_of (filter (\<lambda>(d, n). d \<noteq> c) cs) d = (if d = c then None else map_of cs d)"
  by (induction cs) auto

lemma child_del_kid:
  assumes "kids_ok k" "child k c \<noteq> None"
  shows "\<exists>r' k'. del_kid r k c = Some (r', k') \<and> (r' = r \<or> r' = 0) \<and>
    (\<forall>d. child k' d = (if d = c then None else child k d)) \<and> kids_ok k'"
proof (cases k)
  case (Dense mn mx nbr xs)
  show ?thesis using del_kid_dense [OF assms [unfolded Dense]] Dense by blast
next
  case (Sparse cs)
  have i: "c \<in> fst ` set cs" using assms(2) Sparse by (simp add: map_of_eq_None_iff)
  have "distinct (map fst (filter (\<lambda>(d, n). d \<noteq> c) cs))"
    using assms(1) Sparse by (auto simp: distinct_map_filter)
  moreover have "length (filter (\<lambda>(d, n). d \<noteq> c) cs) \<le> length cs" by (rule length_filter_le)
  then have "length (filter (\<lambda>(d, n). d \<noteq> c) cs) \<le> NN_TRIE_SPARSE_MAX"
    by (rule order_trans) (use assms(1) Sparse in simp)
  ultimately have "kids_ok (Sparse (filter (\<lambda>(d, n). d \<noteq> c) cs))" by simp
  moreover have "del_kid r k c = Some (r, Sparse (filter (\<lambda>(d, n). d \<noteq> c) cs))"
    using Sparse i by (simp add: del_kid_def)
  ultimately show ?thesis using Sparse by (simp add: map_of_filter_neq)
qed

end
