(* ===== verification/Trie_Subs.thy ===== *)
theory Trie_Subs
  imports Trie_Spec
begin

text \<open>
  The trie as a function from strings to reference counts, \<open>subs\<close>, its well-formedness \<open>wf_node\<close>, and what
  each step of the operations does to both.
\<close>

section \<open>Prefixes\<close>

lemma check_prefix_le: "nn_node_check_prefix p d \<le> length p" "nn_node_check_prefix p d \<le> length d"
  by (induction p d rule: nn_node_check_prefix.induct) auto

lemma check_prefix_take: "take (nn_node_check_prefix p d) p = take (nn_node_check_prefix p d) d"
  by (induction p d rule: nn_node_check_prefix.induct) auto

lemma check_prefix_stops:
  "nn_node_check_prefix p d < length p \<Longrightarrow> nn_node_check_prefix p d < length d \<Longrightarrow>
   p ! nn_node_check_prefix p d \<noteq> d ! nn_node_check_prefix p d"
  by (induction p d rule: nn_node_check_prefix.induct) auto

lemma check_prefix_full [simp]: "nn_node_check_prefix p d = length p \<longleftrightarrow> prefix p d"
  by (induction p d rule: nn_node_check_prefix.induct) auto

lemma check_prefix_append [simp]: "nn_node_check_prefix p (p @ d) = length p" "nn_node_check_prefix p p = length p"
  by simp_all

lemma check_prefix_less: "nn_node_check_prefix p d < length p \<longleftrightarrow> \<not> prefix p d"
  using check_prefix_le(1) [of p d] check_prefix_full [of p d] by linarith

text \<open>How a string lies to the prefix of a node.\<close>

lemma prefix_trichotomy:
  obtains (at) "x = p" | (below) c t where "x = p @ c # t" | (off) "\<not> prefix p x"
  by (metis append_Nil2 list.exhaust prefixE)

section \<open>The subscriptions below a node\<close>

function subs :: "trie_node \<Rightarrow> bytes \<Rightarrow> u32" where
  "subs n x =
     (if \<not> prefix (node_prefix n) x then 0
      else let rest = drop (length (node_prefix n)) x in
        if rest = [] then refcount n
        else case child (node_kids n) (hd rest) of None \<Rightarrow> 0 | Some ch \<Rightarrow> subs ch (tl rest))"
  by pat_completeness auto
termination
  by (relation "measure (\<lambda>(n, x). length x)") auto

declare subs.simps [simp del]

lemma subs_simps [simp]:
  "subs (Node r p k) p = r"
  "subs (Node r p k) (p @ c # t) = (case child k c of None \<Rightarrow> 0 | Some ch \<Rightarrow> subs ch t)"
  "\<not> prefix p x \<Longrightarrow> subs (Node r p k) x = 0"
  by (simp_all add: subs.simps [of "Node r p k"] split: option.splits)

text \<open>
  Well-formed nodes: a prefix of at most ten bytes, a proper child array, no leaf without a subscription.
\<close>

inductive wf_node :: "trie_node \<Rightarrow> bool" where
  wf_node: "length p \<le> NN_TRIE_PREFIX_MAX \<Longrightarrow> kids_ok k \<Longrightarrow>
    (\<And>c n. child k c = Some n \<Longrightarrow> wf_node n) \<Longrightarrow> (r = 0 \<Longrightarrow> k \<noteq> Sparse []) \<Longrightarrow> wf_node (Node r p k)"

inductive_simps wf_node_simps: "wf_node (Node r p k)"

lemma kids_ok_child:
  assumes "kids_ok k" "k \<noteq> Sparse []"
  obtains c n where "child k c = Some n"
proof (cases k)
  case (Sparse cs)
  with assms(2) obtain c n cs' where "cs = (c, n) # cs'" by (metis list.exhaust surj_pair)
  with Sparse that [of c n] show ?thesis by simp
next
  case (Dense mn mx nbr xs)
  with assms(1) child_ends(1) [of mn mx xs nbr] that [of mn] show ?thesis by auto
qed

lemma child_no_kids: "k = Sparse [] \<Longrightarrow> child k c = None"
  by simp

text \<open>A well-formed node has a subscription below it.\<close>

lemma wf_node_subscribed: "wf_node n \<Longrightarrow> \<exists>x. subs n x \<noteq> 0"
proof (induction rule: wf_node.induct)
  case (wf_node p k r)
  show ?case
  proof (cases "r = 0")
    case True
    with wf_node kids_ok_child obtain c n where c: "child k c = Some n" by metis
    with wf_node.IH obtain x where "subs n x \<noteq> 0" by blast
    with c have "subs (Node r p k) (p @ c # x) \<noteq> 0" by simp
    then show ?thesis by blast
  next
    case False
    then have "subs (Node r p k) p \<noteq> 0" by simp
    then show ?thesis by blast
  qed
qed

section \<open>The steps of subscribing\<close>

lemma subs_merge:
  "subs (Node 0 p (Sparse [(c, Node r q k)])) x = subs (Node r (p @ c # q) k) x"
proof (cases rule: prefix_trichotomy [of x p])
  case at
  then have "\<not> prefix (p @ c # q) x" by simp
  with at show ?thesis by simp
next
  case (below d t)
  show ?thesis
  proof (cases rule: prefix_trichotomy [of t q])
    case at
    with below show ?thesis by (cases "d = c") simp_all
  next
    case (below e s)
    have "subs (Node r (p @ c # q) k) ((p @ c # q) @ e # s) = subs (Node r q k) (q @ e # s)"
      by (simp only: subs_simps)
    then show ?thesis using below \<open>x = p @ d # t\<close> by (cases "d = c") simp_all
  next
    case off
    with below show ?thesis by (cases "d = c") simp_all
  qed
next
  case off
  then have "\<not> prefix (p @ c # q) x" using append_prefixD by blast
  with off show ?thesis by simp
qed

lemma subs_compact [simp]: "subs (nn_node_compact n) x = subs n x"
proof (cases n)
  case (Node r p k)
  show ?thesis
  proof (cases "\<exists>c r' q k'. k = Sparse [(c, Node r' q k')]")
    case True
    then obtain c r' q k' where "k = Sparse [(c, Node r' q k')]" by blast
    then show ?thesis
      by (simp add: Node nn_node_compact_def nn_node_has_subscribers_def subs_merge)
  next
    case False
    then have "nn_node_compact n = n"
      by (auto simp: Node nn_node_compact_def split: kids.splits list.splits) (metis trie_node.exhaust)
    then show ?thesis by simp
  qed
qed

lemma wf_compact:
  assumes "wf_node n"
  shows "wf_node (nn_node_compact n)"
proof (cases n)
  case (Node r p k)
  show ?thesis
  proof (cases "\<exists>c r' q k'. k = Sparse [(c, Node r' q k')] \<and> r = 0 \<and> length p + length q + 1 \<le> NN_TRIE_PREFIX_MAX")
    case True
    then obtain c r' q k' where k: "k = Sparse [(c, Node r' q k')]" "r = 0"
        "length p + length q + 1 \<le> NN_TRIE_PREFIX_MAX" by blast
    then have "wf_node (Node r' q k')" using assms by (auto simp: Node wf_node_simps split: if_splits)
    then show ?thesis
      using k by (auto simp: Node nn_node_compact_def nn_node_has_subscribers_def wf_node_simps)
  next
    case False
    then have "nn_node_compact n = n"
      by (auto simp: Node nn_node_compact_def nn_node_has_subscribers_def split: kids.splits list.splits)
        (metis Suc_eq_plus1 not_le trie_node.exhaust_sel)
    then show ?thesis using assms by simp
  qed
qed

lemma subs_new_nodes [simp]: "subs (new_nodes d) x = (if x = d then 1 else 0)"
proof (induction d arbitrary: x rule: new_nodes.induct)
  case (1 d)
  show ?case
  proof (cases "NN_TRIE_PREFIX_MAX < length d")
    case True
    let ?p = "take NN_TRIE_PREFIX_MAX d"
    have d: "d = ?p @ d ! NN_TRIE_PREFIX_MAX # drop (Suc NN_TRIE_PREFIX_MAX) d"
      using True by (rule id_take_nth_drop)
    note n = new_nodes.simps [of d, simplified True if_True]
    show ?thesis
    proof (cases rule: prefix_trichotomy [of x ?p])
      case at
      then have "x \<noteq> d" using True by auto
      then show ?thesis using at n by simp
    next
      case (below c t)
      have "x = d \<longleftrightarrow> c = d ! NN_TRIE_PREFIX_MAX \<and> t = drop (Suc NN_TRIE_PREFIX_MAX) d"
        by (subst d) (simp add: below)
      then show ?thesis using n below 1 [OF True] by simp
    next
      case off
      then have "x \<noteq> d" by (auto simp: take_is_prefix)
      then show ?thesis using off n by simp
    qed
  next
    case False
    then have n: "new_nodes d = Node 1 d (Sparse [])" using new_nodes.simps [of d] by simp
    show ?thesis unfolding n by (cases rule: prefix_trichotomy [of x d]) auto
  qed
qed

lemma wf_new_nodes: "wf_node (new_nodes d)"
proof (induction d rule: new_nodes.induct)
  case (1 d)
  then show ?case
    using new_nodes.simps [of d] by (auto simp: wf_node_simps trie_consts split: if_splits)
qed

lemma subs_split_node:
  assumes "pos < length (node_prefix n)"
  shows "subs (split_node n pos) x = subs n x"
proof (cases n)
  case (Node r p k)
  let ?q = "drop (pos + 1) p"
  have p: "take pos p @ p ! pos # ?q = p" using assms Node by (simp add: id_take_nth_drop [symmetric])
  have "subs (split_node n pos) x = subs (Node 0 (take pos p) (Sparse [(p ! pos, Node r ?q k)])) x"
    by (cases rule: prefix_trichotomy [of x "take pos p"]) (simp_all add: Node split_node_def)
  then show ?thesis by (simp only: subs_merge p Node)
qed

lemma wf_split_node:
  assumes "pos < length (node_prefix n)" "wf_node n"
  shows "wf_node (split_node n pos)"
proof (cases n)
  case (Node r p k)
  with assms have "wf_node (Node r (drop (pos + 1) p) k)" by (auto simp: wf_node_simps)
  from wf_compact [OF this] show ?thesis
    using assms Node by (auto simp: split_node_def wf_node_simps trie_consts split: if_splits)
qed

text \<open>What one subscription does to the counts: strings on the way may lose theirs.\<close>

definition same_but :: "(bytes \<Rightarrow> u32) \<Rightarrow> (bytes \<Rightarrow> u32) \<Rightarrow> bytes \<Rightarrow> bool" where
  "same_but f g x \<longleftrightarrow> (\<forall>y. y \<noteq> x \<longrightarrow> g y = f y \<or> strict_prefix y x \<and> g y = 0)"

lemma same_butI: "(\<And>y. y \<noteq> x \<Longrightarrow> g y = f y \<or> strict_prefix y x \<and> g y = 0) \<Longrightarrow> same_but f g x"
  by (simp add: same_but_def)

lemma same_but_at: "same_but (subs (Node r p k)) (subs (Node r' p k)) p"
  by (rule same_butI, rule disjI1) (metis prefix_trichotomy subs_simps(2,3))

text \<open>Changing the child of one character.\<close>

lemma same_but_child:
  assumes "\<And>d. d \<noteq> c \<Longrightarrow> child k' d = child k d" "r' = r \<or> r' = 0"
    and "same_but (\<lambda>t. case child k c of None \<Rightarrow> 0 | Some n \<Rightarrow> subs n t)
      (\<lambda>t. case child k' c of None \<Rightarrow> 0 | Some n \<Rightarrow> subs n t) t"
  shows "same_but (subs (Node r p k)) (subs (Node r' p k')) (p @ c # t)"
proof (rule same_butI)
  fix y assume y: "y \<noteq> p @ c # t"
  show "subs (Node r' p k') y = subs (Node r p k) y \<or> strict_prefix y (p @ c # t) \<and> subs (Node r' p k') y = 0"
  proof (cases rule: prefix_trichotomy [of y p])
    case at
    then show ?thesis using assms(2) by (auto simp: strict_prefix_def)
  next
    case (below d s)
    show ?thesis
    proof (cases "d = c")
      case True
      with below y assms(3) show ?thesis by (auto simp: same_but_def strict_prefix_def)
    next
      case False
      with below assms(1) show ?thesis by simp
    qed
  next
    case off
    then show ?thesis by simp
  qed
qed

lemma add_child:
  assumes "wf_node n" "child (node_kids n) c = None"
  shows "wf_node (add_child n (c # t)) \<and> subs (add_child n (c # t)) (node_prefix n @ c # t) = 1 \<and>
    same_but (subs n) (subs (add_child n (c # t))) (node_prefix n @ c # t)"
proof (cases n)
  case (Node r p k)
  obtain r' k' where a: "add_kid r k c (new_nodes t) = (r', k')" by (metis surj_pair)
  have ok: "kids_ok k" "child k c = None" using assms by (simp_all add: Node wf_node_simps)
  note C = child_add_kid [OF ok a]
  have n': "add_child n (c # t) = Node r' p k'" by (simp add: add_child_def Node a)
  have "k' \<noteq> Sparse []" using C(1) [of c] by auto
  then have "wf_node (Node r' p k')"
    using assms(1) C(2) C(1) by (auto simp: Node wf_node_simps wf_new_nodes split: if_splits)
  moreover have "same_but (subs (Node r p k)) (subs (Node r' p k')) (p @ c # t)"
    by (rule same_but_child) (use C(1,3) ok(2) in \<open>auto simp: same_but_def\<close>)
  ultimately show ?thesis using n' C(1) by (simp add: Node)
qed

text \<open>Putting another node where there is a child.\<close>

lemma wf_put_slot:
  assumes "wf_node (Node r p k)" "child k c = Some m" "wf_node n"
  shows "wf_node (Node r p (put_slot k c (Some n)))"
proof -
  have k: "length p \<le> NN_TRIE_PREFIX_MAX" "kids_ok k" "\<And>c n. child k c = Some n \<Longrightarrow> wf_node n"
    using assms(1) by (auto simp: wf_node_simps)
  have "child k c \<noteq> None" using assms(2) by simp
  note P = child_put_slot [OF k(2) this, of n]
  show ?thesis
  proof (rule wf_node.wf_node)
    show "length p \<le> NN_TRIE_PREFIX_MAX" by (rule k(1))
    show "kids_ok (put_slot k c (Some n))" by (rule P(2))
    show "wf_node m" if "child (put_slot k c (Some n)) d = Some m" for d m
      using that k(3) assms(3) by (auto simp: P(1) split: if_splits)
    show "put_slot k c (Some n) \<noteq> Sparse []"
      using P(1) [of c] by (metis child_no_kids option.distinct(1))
  qed
qed

text \<open>The whole operation.\<close>

lemma nn_node_subscribe:
  assumes "wf_node n" "nn_node_subscribe n x = (n', fresh)" "subs n x \<noteq> - 1"
  shows "wf_node n' \<and> subs n' x = subs n x + 1 \<and> (fresh \<longleftrightarrow> subs n x = 0) \<and> same_but (subs n) (subs n') x"
  using assms
proof (induction n x arbitrary: n' fresh rule: nn_node_subscribe.induct)
  case (1 n x)
  obtain r p k where n: "n = Node r p k" by (cases n)
  let ?pos = "nn_node_check_prefix p x"
  show ?case
  proof (cases rule: prefix_trichotomy [of x p])
    case at
    then have n': "n' = Node (r + 1) p k" "fresh \<longleftrightarrow> r + 1 = 1"
      using "1.prems"(2) by (simp_all add: n nn_node_subscribe.simps [of "Node r p k"] count_in_def)
    have "r + 1 \<noteq> 0" using "1.prems"(3) by (simp add: n at eq_neg_iff_add_eq_0)
    then show ?thesis
      using "1.prems"(1) n' same_but_at by (auto simp: n at wf_node_simps)
  next
    case (below c t)
    have "nn_node_subscribe n x =
        (case child k c of
           Some ch \<Rightarrow> (case nn_node_subscribe ch t of
             (ch', fresh) \<Rightarrow> (Node r p (put_slot k c (Some ch')), fresh))
         | None \<Rightarrow> (add_child n (c # t), True))"
      using below by (simp add: n nn_node_subscribe.simps [of "Node r p k"] case_next Let_def cong: option.case_cong)
    with "1.prems"(2) have s: "(case child k c of
           Some ch \<Rightarrow> (case nn_node_subscribe ch t of
             (ch', fresh) \<Rightarrow> (Node r p (put_slot k c (Some ch')), fresh))
         | None \<Rightarrow> (add_child n (c # t), True)) = (n', fresh)" by simp
    show ?thesis
    proof (cases "child k c")
      case None
      with s have "n' = add_child n (c # t)" "fresh" by simp_all
      with add_child [OF "1.prems"(1), of c t] None below show ?thesis by (simp add: n)
    next
      case (Some ch)
      obtain ch' where ch': "nn_node_subscribe ch t = (ch', fresh)" "n' = Node r p (put_slot k c (Some ch'))"
        using s Some by (auto split: prod.splits)
      have "wf_node ch" "kids_ok k" using "1.prems"(1) Some by (auto simp: n wf_node_simps)
      moreover have "subs ch t \<noteq> - 1" using "1.prems"(3) Some below by (simp add: n)
      moreover have "nn_node_next k c = Some (Some ch)" using Some by (simp add: next_child)
      ultimately have "wf_node ch' \<and> subs ch' (tl (c # t)) = subs ch (tl (c # t)) + 1 \<and>
          (fresh \<longleftrightarrow> subs ch (tl (c # t)) = 0) \<and> same_but (subs ch) (subs ch') (tl (c # t))"
        by (intro "1.IH" [of "length p" "c # t" "Some ch" ch]) (simp_all add: n below ch'(1))
      then have IH: "wf_node ch'" "subs ch' t = subs ch t + 1" "fresh \<longleftrightarrow> subs ch t = 0"
          "same_but (subs ch) (subs ch') t" by simp_all
      have "child k c \<noteq> None" using Some by simp
      note P = child_put_slot(1) [OF \<open>kids_ok k\<close> this, of ch']
      have "wf_node n'"
        using wf_put_slot [OF "1.prems"(1) [unfolded n] Some] IH unfolding ch'(2) by blast
      moreover have "same_but (subs n) (subs n') x"
        unfolding ch'(2) n below
      proof (rule same_but_child)
        show "child (put_slot k c (Some ch')) d = child k d" if "d \<noteq> c" for d using P that by simp
        show "same_but (\<lambda>t. case child k c of None \<Rightarrow> 0 | Some n \<Rightarrow> subs n t)
            (\<lambda>t. case child (put_slot k c (Some ch')) c of None \<Rightarrow> 0 | Some n \<Rightarrow> subs n t) t"
          using IH by (simp add: P Some)
      qed simp
      ultimately show ?thesis using IH P Some below by (simp add: n ch'(2))
    qed
  next
    case off
    let ?m = "split_node n ?pos"
    have lt: "?pos < length p" using off by (simp add: check_prefix_less)
    have m: "wf_node ?m" "\<And>y. subs ?m y = subs n y" "node_prefix ?m = take ?pos x"
      using wf_split_node [of ?pos n] subs_split_node [of ?pos n] lt "1.prems"(1) check_prefix_take [of p x]
      by (simp_all add: n) (simp add: split_node_def)
    have x: "take ?pos x @ drop ?pos x = x" "subs n x = 0" using off by (simp_all add: n)
    show ?thesis
    proof (cases "drop ?pos x")
      case Nil
      then have n': "n' = fst (count_in ?m)" "fresh = snd (count_in ?m)"
        using "1.prems"(2) lt by (simp_all add: n nn_node_subscribe.simps [of "Node r p k"] Let_def)
      obtain k' where k': "?m = Node 0 x k'" using Nil m(3) x(1) by (simp add: split_node_def n)
      have "subs n y = subs (Node 0 x k') y" for y using m(2) k' by simp
      then have "subs n = subs (Node 0 x k')" by blast
      then show ?thesis
        using m(1) same_but_at [of 0 x k' 1] x(2) unfolding n' k'
        by (simp add: count_in_def wf_node_simps)
    next
      case (Cons c t)
      then have n': "n' = add_child ?m (c # t)" "fresh"
        using "1.prems"(2) lt by (simp_all add: n nn_node_subscribe.simps [of "Node r p k"] Let_def)
      have "p ! ?pos \<noteq> x ! ?pos" using check_prefix_stops [of p x] lt Cons by (metis drop_Nil drop_eq_Nil list.distinct(1) not_le)
      moreover have "x ! ?pos = c" using Cons by (metis hd_drop_conv_nth list.sel(1) drop_eq_Nil list.distinct(1) not_le)
      ultimately have "child (node_kids ?m) c = None" by (simp add: split_node_def n)
      moreover have "subs ?m = subs n" using m(2) by blast
      ultimately show ?thesis using add_child [OF m(1), of c t] n' m(3) x Cons by simp
    qed
  qed
qed

section \<open>Matching\<close>

lemma nn_node_match_below:
  "nn_node_match (Node r p k) (p @ c # t) =
     (if r \<noteq> 0 then Some True
      else case child k c of None \<Rightarrow> Some False | Some ch \<Rightarrow> nn_node_match ch t)"
  by (simp add: nn_node_match.simps [of "Node r p k"] nn_node_has_subscribers_def case_next Let_def
      cong: option.case_cong)

lemma nn_node_match_True:
  "nn_node_match n d = Some b \<Longrightarrow> b \<longleftrightarrow> (\<exists>y. prefix y d \<and> subs n y \<noteq> 0)"
proof (induction n d rule: nn_node_match.induct)
  case (1 n d)
  obtain r p k where n: "n = Node r p k" by (cases n)
  show ?case
  proof (cases rule: prefix_trichotomy [of d p])
    case at
    have "subs n y = 0" if "prefix y p" "y \<noteq> p" for y
      using that by (metis n subs_simps(3) prefix_order.antisym)
    then show ?thesis
      using "1.prems" by (auto simp: n at nn_node_match.simps [of "Node r p k"] nn_node_has_subscribers_def split: if_splits)
  next
    case off
    then have "\<forall>y. prefix y d \<longrightarrow> subs n y = 0" by (metis n subs_simps(3) prefix_order.trans)
    then show ?thesis using "1.prems" off by (simp add: n nn_node_match.simps [of "Node r p k"])
  next
    case (below c t)
    show ?thesis
    proof (cases "r = 0")
      case False
      then show ?thesis
        using "1.prems" below by (auto simp: n nn_node_match_below intro!: exI [of _ p])
    next
      case True
      have m: "nn_node_match n d = (case child k c of None \<Rightarrow> Some False | Some ch \<Rightarrow> nn_node_match ch t)"
        using below True by (simp add: n nn_node_match_below)
      have s: "(\<exists>y. prefix y d \<and> subs n y \<noteq> 0) \<longleftrightarrow>
          (\<exists>s. prefix s t \<and> (case child k c of None \<Rightarrow> 0 | Some ch \<Rightarrow> subs ch s) \<noteq> 0)" (is "?l \<longleftrightarrow> ?r")
      proof
        assume ?l
        then obtain y where y: "prefix y d" "subs n y \<noteq> 0" by blast
        show ?r
        proof (cases rule: prefix_trichotomy [of y p])
          case at
          with y True show ?thesis by (simp add: n)
        next
          case off
          with y show ?thesis by (simp add: n)
        next
          case (below e s)
          with y \<open>d = p @ c # t\<close> show ?thesis by (auto simp: n intro!: exI [of _ s])
        qed
      next
        assume ?r
        then obtain s where "prefix s t" "(case child k c of None \<Rightarrow> 0 | Some ch \<Rightarrow> subs ch s) \<noteq> 0" by blast
        then show ?l using below by (intro exI [of _ "p @ c # s"]) (simp add: n)
      qed
      show ?thesis
      proof (cases "child k c")
        case None
        with "1.prems" m s show ?thesis by simp
      next
        case (Some ch)
        have "b \<longleftrightarrow> (\<exists>y. prefix y (tl (c # t)) \<and> subs ch y \<noteq> 0)"
          by (rule "1.IH" [of "c # t" "Some ch" ch])
            (use "1.prems" m Some below True in \<open>simp_all add: n next_child nn_node_has_subscribers_def\<close>)
        with s Some show ?thesis by simp
      qed
    qed
  qed
qed

text \<open>The read past the end happens for the proper prefixes of subscriptions only.\<close>

lemma nn_node_match_None:
  "nn_node_match n d = None \<Longrightarrow> wf_node n \<Longrightarrow>
   (\<forall>y. prefix y d \<longrightarrow> subs n y = 0) \<and> (\<exists>s. s \<noteq> [] \<and> subs n (d @ s) \<noteq> 0)"
proof (induction n d rule: nn_node_match.induct)
  case (1 n d)
  obtain r p k where n: "n = Node r p k" by (cases n)
  show ?case
  proof (cases rule: prefix_trichotomy [of d p])
    case at
    then have r: "r = 0"
      using "1.prems"(1) by (simp add: n nn_node_match.simps [of "Node r p k"] nn_node_has_subscribers_def split: if_splits)
    have z: "subs n y = 0" if "prefix y p" for y
      using that r by (cases "y = p") (simp add: n, metis n subs_simps(3) prefix_order.antisym)
    obtain x where x: "subs n x \<noteq> 0" using wf_node_subscribed "1.prems"(2) by blast
    then have "prefix p x" by (metis n subs_simps(3))
    then obtain s where "x = p @ s" by (rule prefixE)
    moreover from this x z [of p] have "s \<noteq> []" by auto
    ultimately show ?thesis using x z at by blast
  next
    case off
    with "1.prems" show ?thesis by (simp add: n nn_node_match.simps [of "Node r p k"])
  next
    case (below c t)
    have r: "r = 0"
      using below "1.prems"(1) by (simp add: n nn_node_match_below split: if_splits)
    then have "nn_node_match n d = (case child k c of None \<Rightarrow> Some False | Some ch \<Rightarrow> nn_node_match ch t)"
      using below by (simp add: n nn_node_match_below)
    then obtain ch where ch: "child k c = Some ch" "nn_node_match ch t = None"
      using "1.prems"(1) by (auto split: option.splits)
    have "wf_node ch" using "1.prems"(2) ch by (auto simp: n wf_node_simps)
    then have "(\<forall>y. prefix y (tl (c # t)) \<longrightarrow> subs ch y = 0) \<and> (\<exists>s. s \<noteq> [] \<and> subs ch (tl (c # t) @ s) \<noteq> 0)"
      by (intro "1.IH" [of "c # t" "Some ch" ch])
        (use ch below r in \<open>simp_all add: n next_child nn_node_has_subscribers_def\<close>)
    then obtain s where z: "\<forall>y. prefix y t \<longrightarrow> subs ch y = 0" and s: "s \<noteq> []" "subs ch (t @ s) \<noteq> 0" by auto
    have "subs n y = 0" if y: "prefix y d" for y
    proof (cases rule: prefix_trichotomy [of y p])
      case (below e u)
      with y z ch(1) \<open>d = p @ c # t\<close> show ?thesis by (auto simp: n)
    qed (use r in \<open>simp_all add: n\<close>)
    moreover have "subs n (d @ s) \<noteq> 0" using below ch(1) s by (simp add: n)
    ultimately show ?thesis using s(1) by blast
  qed
qed

section \<open>Unsubscribing\<close>

definition osubs :: "trie_node option \<Rightarrow> bytes \<Rightarrow> u32" where
  "osubs root x = (case root of None \<Rightarrow> 0 | Some n \<Rightarrow> subs n x)"

lemma osubs_simps [simp]: "osubs None = (\<lambda>_. 0)" "osubs (Some n) = subs n"
  by (simp_all add: osubs_def fun_eq_iff)

definition wf_root :: "trie_node option \<Rightarrow> bool" where
  "wf_root root \<longleftrightarrow> (case root of None \<Rightarrow> True | Some n \<Rightarrow> wf_node n)"

lemma wf_root_simps [simp]: "wf_root None" "wf_root (Some n) \<longleftrightarrow> wf_node n"
  by (simp_all add: wf_root_def)

lemma subs_dead: "subs (Node 0 p (Sparse [])) x = 0"
  by (cases rule: prefix_trichotomy [of x p]) simp_all

lemma prune:
  assumes "wf_node (Node r p k)" "child k c = Some ch" "same_but (subs ch) (\<lambda>_. 0) t"
  shows "\<exists>o'. prune (Node r p k) c = Some o' \<and> wf_root o' \<and> osubs o' (p @ c # t) = 0 \<and>
    same_but (subs (Node r p k)) (osubs o') (p @ c # t)"
proof -
  have ok: "kids_ok k" "child k c \<noteq> None" using assms(1,2) by (simp_all add: wf_node_simps)
  from child_del_kid [OF ok, of r] obtain r' k' where d: "del_kid r k c = Some (r', k')"
    and C: "\<And>d. child k' d = (if d = c then None else child k d)" "kids_ok k'" "r' = r \<or> r' = 0" by blast
  have same: "same_but (subs (Node r p k)) (subs (Node r' p k')) (p @ c # t)"
    by (rule same_but_child) (use C(1,3) assms(2,3) in simp_all)
  have wf: "wf_node (Node r' p k')" if "r' = 0 \<longrightarrow> k' \<noteq> Sparse []"
    using assms(1) C(1,2) that by (auto simp: wf_node_simps split: if_splits)
  have z: "subs (Node r' p k') (p @ c # t) = 0" by (simp add: C(1))
  show ?thesis
  proof (cases k)
    case (Sparse cs)
    show ?thesis
    proof (cases "k' = Sparse [] \<and> r' = 0")
      case True
      then have o: "prune (Node r p k) c = Some None"
        using d Sparse by (simp add: prune_def nn_node_has_subscribers_def)
      have "subs (Node r' p k') = (\<lambda>_. 0)" using True subs_dead by auto
      moreover have "osubs None = (\<lambda>_. 0)" by auto
      ultimately show ?thesis unfolding o using same by simp
    next
      case False
      then have o: "prune (Node r p k) c = Some (Some (nn_node_compact (Node r' p k')))"
        using d Sparse by (auto simp: prune_def nn_node_has_subscribers_def Let_def)
      have "osubs (Some (nn_node_compact (Node r' p k'))) = subs (Node r' p k')" by auto
      then show ?thesis unfolding o using same z wf False wf_compact by auto
    qed
  next
    case (Dense mn mx nbr xs)
    then have o: "prune (Node r p k) c = Some (Some (Node r' p k'))" using d by (simp add: prune_def Let_def)
    have "k' \<noteq> Sparse []" using del_kid_dense [OF ok [unfolded Dense], of r] d [unfolded Dense] by auto
    moreover have "osubs (Some (Node r' p k')) = subs (Node r' p k')" by auto
    ultimately show ?thesis unfolding o using same z wf by auto
  qed
qed

lemma unsub_found:
  assumes "wf_node (Node r p k)" "r \<noteq> 0" "unsub_found (Some (Node r p k)) = (res, o')"
  shows "res = (if r = 1 then 1 else 0) \<and> wf_root o' \<and> osubs o' p = r - 1 \<and>
    same_but (subs (Node r p k)) (osubs o') p \<and> (o' = None \<longrightarrow> r = 1)"
proof (cases "r = 1")
  case True
  show ?thesis
  proof (cases "k = Sparse []")
    case k: True
    have "osubs None = subs (Node 0 p k)" using k by (auto simp: subs_dead)
    then show ?thesis
      using assms True k same_but_at [of r p k 0] by (simp add: unsub_found_def nn_node_has_subscribers_def)
  next
    case False
    then have o: "res = 1" "o' = Some (nn_node_compact (Node 0 p k))"
      using assms True by (simp_all add: unsub_found_def nn_node_has_subscribers_def)
    have "wf_node (Node 0 p k)" using assms(1) False by (simp add: wf_node_simps)
    moreover have "osubs o' = subs (Node 0 p k)" using o by auto
    ultimately show ?thesis using o True same_but_at [of r p k 0] wf_compact by simp
  qed
next
  case False
  then have r: "r - 1 \<noteq> 0" by simp
  then have o: "res = 0" "o' = Some (Node (r - 1) p k)"
    using assms by (simp_all add: unsub_found_def nn_node_has_subscribers_def Let_def)
  moreover have "osubs o' = subs (Node (r - 1) p k)" using o by auto
  ultimately show ?thesis using False r assms(1) same_but_at [of r p k "r - 1"] by (auto simp: wf_node_simps)
qed

lemma nn_node_unsubscribe_at:
  "nn_node_unsubscribe (Some (Node r p k)) p = Some (unsub_found (Some (Node r p k)))"
  unfolding nn_node_unsubscribe.simps [of "Some (Node r p k)" p] by (cases "p = []") simp_all

lemma nn_node_unsubscribe:
  "wf_node n \<Longrightarrow> subs n x \<noteq> 0 \<Longrightarrow>
   \<exists>res o'. nn_node_unsubscribe (Some n) x = Some (res, o') \<and> res = (if subs n x = 1 then 1 else 0) \<and>
     wf_root o' \<and> osubs o' x = subs n x - 1 \<and> same_but (subs n) (osubs o') x \<and> (o' = None \<longrightarrow> subs n x = 1)"
proof (induction "length x" arbitrary: n x rule: less_induct)
  case less
  obtain r p k where n: "n = Node r p k" by (cases n)
  show ?case
  proof (cases rule: prefix_trichotomy [of x p])
    case at
    obtain res o' where f: "unsub_found (Some (Node r p k)) = (res, o')" by (metis surj_pair)
    have "r \<noteq> 0" using less.prems(2) by (simp add: n at)
    moreover have "nn_node_unsubscribe (Some n) x = Some (res, o')"
      using f by (simp add: n at nn_node_unsubscribe_at)
    ultimately show ?thesis using unsub_found [OF _ _ f] less.prems(1) by (auto simp: n at)
  next
    case off
    with less.prems(2) show ?thesis by (simp add: n)
  next
    case (below c t)
    with less.prems(2) obtain ch where ch: "child k c = Some ch" "subs ch t \<noteq> 0"
      by (auto simp: n split: option.splits)
    have "wf_node ch" using less.prems(1) ch(1) by (auto simp: n wf_node_simps)
    moreover have "length t < length x" using below by simp
    ultimately obtain res o' where u: "nn_node_unsubscribe (Some ch) t = Some (res, o')"
      and IH: "res = (if subs ch t = 1 then 1 else 0)" "wf_root o'" "osubs o' t = subs ch t - 1"
        "same_but (subs ch) (osubs o') t" "o' = None \<longrightarrow> subs ch t = 1"
      using less.hyps [of t ch] ch(2) by blast
    have s: "subs n x = subs ch t" using below ch(1) by (simp add: n)
    have nx: "nn_node_next k c = Some (Some ch)" using ch(1) by (simp add: next_child)
    show ?thesis
    proof (cases o')
      case (Some m)
      have e: "nn_node_unsubscribe (Some n) x = Some (res, Some (Node r p (put_slot k c (Some m))))"
        using u nx below Some IH(1) by (simp add: n nn_node_unsubscribe.simps [of "Some (Node r p k)"])
      have "kids_ok k" "child k c \<noteq> None" using less.prems(1) ch(1) by (simp_all add: n wf_node_simps)
      note P = child_put_slot(1) [OF this, of m]
      have "same_but (subs n) (subs (Node r p (put_slot k c (Some m)))) x"
        unfolding n below
      proof (rule same_but_child)
        show "child (put_slot k c (Some m)) d = child k d" if "d \<noteq> c" for d using P that by simp
        show "same_but (\<lambda>t. case child k c of None \<Rightarrow> 0 | Some n \<Rightarrow> subs n t)
            (\<lambda>t. case child (put_slot k c (Some m)) c of None \<Rightarrow> 0 | Some n \<Rightarrow> subs n t) t"
          using IH(4) by (simp add: P ch(1) Some osubs_def)
      qed simp
      moreover have "wf_node (Node r p (put_slot k c (Some m)))"
        using wf_put_slot [OF less.prems(1) [unfolded n] ch(1)] IH(2) Some by simp
      moreover have "osubs (Some (Node r p (put_slot k c (Some m)))) = subs (Node r p (put_slot k c (Some m)))"
        by auto
      ultimately show ?thesis using e IH(1,3) s Some P by (simp add: below)
    next
      case None
      then have 1: "subs ch t = 1" "res = 1" using IH(1,5) by simp_all
      then have e: "nn_node_unsubscribe (Some n) x = map_option (\<lambda>n'. (1, n')) (prune n c)"
        using u nx below None by (simp add: n nn_node_unsubscribe.simps [of "Some (Node r p k)"])
      have "same_but (subs ch) (\<lambda>_. 0) t" using IH(4) None by (simp add: osubs_def)
      with prune [OF less.prems(1) [unfolded n] ch(1)] show ?thesis
        using e s 1 by (auto simp: n below)
    qed
  qed
qed

section \<open>The operations on the root\<close>

lemma nn_trie_subscribe:
  assumes "wf_root root" "osubs root x \<noteq> - 1" "nn_trie_subscribe root x = (root', fresh)"
  shows "wf_root root'" "osubs root' x = osubs root x + 1" "fresh \<longleftrightarrow> osubs root x = 0"
    "same_but (osubs root) (osubs root') x"
proof -
  have "wf_root root' \<and> osubs root' x = osubs root x + 1 \<and> (fresh \<longleftrightarrow> osubs root x = 0) \<and>
      same_but (osubs root) (osubs root') x"
  proof (cases root)
    case None
    with assms(3) show ?thesis by (auto simp: nn_trie_subscribe_def wf_new_nodes same_but_def)
  next
    case (Some n)
    with assms show ?thesis
      using nn_node_subscribe [of n x] by (auto simp: nn_trie_subscribe_def split: prod.splits)
  qed
  then show "wf_root root'" "osubs root' x = osubs root x + 1" "fresh \<longleftrightarrow> osubs root x = 0"
    "same_but (osubs root) (osubs root') x" by blast+
qed

lemma nn_trie_match:
  assumes "wf_root root"
  shows "nn_trie_match root d = Some b \<Longrightarrow> b \<longleftrightarrow> (\<exists>y. prefix y d \<and> osubs root y \<noteq> 0)"
    and "nn_trie_match root d = None \<Longrightarrow>
      (\<forall>y. prefix y d \<longrightarrow> osubs root y = 0) \<and> (\<exists>s. s \<noteq> [] \<and> osubs root (d @ s) \<noteq> 0)"
  using assms nn_node_match_True [of _ d b] nn_node_match_None [of _ d]
  by (auto simp: nn_trie_match_def split: option.splits)

lemma nn_trie_unsubscribe:
  assumes "wf_root root" "osubs root x \<noteq> 0"
  shows "\<exists>root'. nn_trie_unsubscribe root x = Some (if osubs root x = 1 then 1 else 0, root') \<and> wf_root root' \<and>
    osubs root' x = osubs root x - 1 \<and> same_but (osubs root) (osubs root') x"
proof -
  obtain n where "root = Some n" using assms(2) by (cases root) simp_all
  with assms nn_node_unsubscribe [of n x] show ?thesis
    by (auto simp: nn_trie_unsubscribe_def)
qed

text \<open>The empty trie is the null pointer, and no other well-formed trie is without subscriptions.\<close>

lemma empty_trie:
  assumes "wf_root root"
  shows "(\<forall>x. osubs root x = 0) \<longleftrightarrow> root = None"
  using assms wf_node_subscribed by (cases root) auto

end
