(* ===== verification/Nn_Sub.thy ===== *)
theory Nn_Sub
  imports Nn_Req_Spec Trie_Subs
begin

text \<open>
  The raw subscriber's socket of nanomsg, \<open>src/protocols/pubsub/xsub.c\<close>: the fair queue of \<open>Nn_Pipes\<close> for the messages
  and the trie of \<open>Trie\<close> for the subscriptions.

  As elsewhere \<open>None\<close> is a failed assertion. Receiving has an outcome of its own for a match that reads behind the end of the
  message.
\<close>

record 't xsub =
  xs_fq :: nn_priolist
  xs_trie :: "trie_node option"
  xs_net :: "'t net"

definition nn_xsub_init :: "'t net \<Rightarrow> 't xsub" where
  "nn_xsub_init n = \<lparr>xs_fq = nn_fq_init, xs_trie = None, xs_net = n\<rparr>"

definition nn_xsub_add :: "nat \<Rightarrow> 't xsub \<Rightarrow> 't xsub option" where
  "nn_xsub_add pipe self =
     (let rcvprio = pb_rcvprio (n_pipes (xs_net self) pipe) in
      if \<not> (1 \<le> rcvprio \<and> rcvprio \<le> 16) then None
      else Some (self\<lparr>xs_fq := nn_fq_add (xs_fq self) pipe rcvprio\<rparr>))"

definition nn_xsub_rm :: "nat \<Rightarrow> 't xsub \<Rightarrow> 't xsub" where
  "nn_xsub_rm pipe self = self\<lparr>xs_fq := nn_fq_rm (xs_fq self) pipe\<rparr>"

definition nn_xsub_in :: "nat \<Rightarrow> 't xsub \<Rightarrow> 't xsub option" where
  "nn_xsub_in pipe self = map_option (\<lambda>fq. self\<lparr>xs_fq := fq\<rparr>) (nn_fq_in (xs_fq self) pipe)"

definition nn_xsub_events :: "'t xsub \<Rightarrow> bool" where
  "nn_xsub_events self = nn_fq_can_recv (xs_fq self)"

text \<open>
  How receiving ends: with a failed assertion, with a match that reads behind the end of a body, or with a result. The loop
  goes on while messages do not match.
\<close>

datatype 't sub_outcome = Sub_aborted | Sub_over_read bytes | Sub_returned int "msg option" "'t xsub"

partial_function (option) nn_xsub_recv :: "'t transport \<Rightarrow> 't xsub \<Rightarrow> 't sub_outcome option" where
  "nn_xsub_recv T self =
     (if nn_fq_recv T (xs_fq self) (xs_net self) = None then Some Sub_aborted
      else let r = fst (the (nn_fq_recv T (xs_fq self) (xs_net self)));
               rest = snd (the (nn_fq_recv T (xs_fq self) (xs_net self)));
               self' = self\<lparr>xs_fq := fst rest, xs_net := snd rest\<rparr> in
        if r = None then Some (Sub_returned (- EAGAIN) None self')
        else let m = snd (snd (the r)) in
          if nn_trie_match (xs_trie self) (m_body m) = None then Some (Sub_over_read (m_body m))
          else if nn_trie_match (xs_trie self) (m_body m) = Some False then nn_xsub_recv T self'
          else Some (Sub_returned 0 (Some m) self'))"

definition NN_SUB :: int where "NN_SUB = 33"
definition NN_SUB_SUBSCRIBE :: int where "NN_SUB_SUBSCRIBE = 1"
definition NN_SUB_UNSUBSCRIBE :: int where "NN_SUB_UNSUBSCRIBE = 2"

definition nn_xsub_setopt :: "int \<Rightarrow> int \<Rightarrow> bytes \<Rightarrow> 't xsub \<Rightarrow> (int \<times> 't xsub) option" where
  "nn_xsub_setopt level option optval self =
     (if level \<noteq> NN_SUB then Some (- ENOPROTOOPT, self)
      else if option = NN_SUB_SUBSCRIBE then
        Some (0, self\<lparr>xs_trie := fst (nn_trie_subscribe (xs_trie self) optval)\<rparr>)
      else if option = NN_SUB_UNSUBSCRIBE then
        (case nn_trie_unsubscribe (xs_trie self) optval of
           None \<Rightarrow> None
         | Some (rc, root) \<Rightarrow> Some (if 0 \<le> rc then 0 else rc, self\<lparr>xs_trie := root\<rparr>))
      else Some (- ENOPROTOOPT, self))"

definition nn_xsub_getopt :: int where "nn_xsub_getopt = - ENOPROTOOPT"

section \<open>What is delivered\<close>

definition xsub_ok :: "'t xsub \<Rightarrow> bool" where
  "xsub_ok s \<longleftrightarrow> fq_ok (xs_fq s) (xs_net s) \<and> wf_root (xs_trie s)"

text \<open>Receiving one message, whatever it is.\<close>

lemma xsub_fq_recv:
  assumes "xsub_ok s" "active (xs_fq s) \<noteq> {}" "drains T avail"
  shows "\<exists>p parsed m fq n. nn_fq_recv T (xs_fq s) (xs_net s) = Some (Some (p, parsed, m), fq, n) \<and> fq_ok fq n \<and>
    avail (n_trans n) + card (active fq) < avail (n_trans (xs_net s)) + card (active (xs_fq s))"
proof -
  have "fq_ok (xs_fq s) (xs_net s)" using assms(1) by (simp add: xsub_ok_def)
  from fq_recv(2) [OF this assms(2), of T] obtain p parsed m nxt t fq n where
    f: "nn_fq_recv T (xs_fq s) (xs_net s) = Some (Some (p, parsed, m), fq, n)" "p \<in> best (xs_fq s)"
      "t_recv T p (n_trans (xs_net s)) = (parsed, m, nxt, t)" "n_trans n = t" "fq_ok fq n"
      "active fq = (if nxt then active (xs_fq s) else active (xs_fq s) - {p})" by blast
  have "p \<in> active (xs_fq s)" using f(2) by (simp add: best_def)
  with fq_drains [OF assms(3) f(3,4) _ f(6)]
  have "avail (n_trans n) + card (active fq) < avail (n_trans (xs_net s)) + card (active (xs_fq s))" by blast
  with f(1,4,5) show ?thesis by blast
qed

text \<open>
  Receiving ends, unless a message is read behind its end, with a message that has a subscribed prefix, or when there are no
  more messages.
\<close>

lemma xsub_recv:
  assumes "xsub_ok s" "drains T avail"
  shows "(\<exists>d. nn_xsub_recv T s = Some (Sub_over_read d) \<and> nn_trie_match (xs_trie s) d = None) \<or>
    (\<exists>s'. nn_xsub_recv T s = Some (Sub_returned (- EAGAIN) None s') \<and> xsub_ok s' \<and> active (xs_fq s') = {} \<and> xs_trie s' = xs_trie s) \<or>
    (\<exists>m s'. nn_xsub_recv T s = Some (Sub_returned 0 (Some m) s') \<and> xsub_ok s' \<and> xs_trie s' = xs_trie s \<and>
       (\<exists>y. prefix y (m_body m) \<and> osubs (xs_trie s) y \<noteq> 0))"
  using assms(1)
proof (induction "avail (n_trans (xs_net s)) + card (active (xs_fq s))" arbitrary: s rule: less_induct)
  case less
  have ok: "fq_ok (xs_fq s) (xs_net s)" "wf_root (xs_trie s)" using less.prems by (simp_all add: xsub_ok_def)
  show ?case
  proof (cases "active (xs_fq s) = {}")
    case True
    with fq_recv(1) [OF ok(1) True, of T] less.prems show ?thesis
      by (simp add: nn_xsub_recv.simps [of T s] Let_def)
  next
    case False
    from xsub_fq_recv [OF less.prems False assms(2)] obtain p parsed m fq n where
      f: "nn_fq_recv T (xs_fq s) (xs_net s) = Some (Some (p, parsed, m), fq, n)" "fq_ok fq n"
        "avail (n_trans n) + card (active fq) < avail (n_trans (xs_net s)) + card (active (xs_fq s))" by blast
    let ?s = "s\<lparr>xs_fq := fq, xs_net := n\<rparr>"
    have s: "xsub_ok ?s" using f(2) ok(2) by (simp add: xsub_ok_def)
    consider (none) "nn_trie_match (xs_trie s) (m_body m) = None" | (no) "nn_trie_match (xs_trie s) (m_body m) = Some False"
      | (yes) "nn_trie_match (xs_trie s) (m_body m) = Some True" by (metis (full_types) option.exhaust)
    then show ?thesis
    proof cases
      case none
      then show ?thesis using f(1) by (simp add: nn_xsub_recv.simps [of T s] Let_def)
    next
      case no
      then have "nn_xsub_recv T s = nn_xsub_recv T ?s" using f(1) by (simp add: nn_xsub_recv.simps [of T s] Let_def)
      with less.hyps [of ?s] f(3) s show ?thesis by simp
    next
      case yes
      then have "nn_xsub_recv T s = Some (Sub_returned 0 (Some m) ?s)" using f(1) by (simp add: nn_xsub_recv.simps [of T s] Let_def)
      with s nn_trie_match(1) [OF ok(2) yes] show ?thesis by simp
    qed
  qed
qed

end
