(* ===== verification/Nn_List.thy ===== *)
theory Nn_List
  imports Prelude
begin

text \<open>
  The intrusive list of the messaging library, \<open>src/utils/list.c\<close> of nanomsg: a doubly
  linked list whose links lie in the items themselves.

  The memory is a function from addresses of items to their links. A link is the special value for an item that is in no
  container, or a pointer that may be null. A failed assertion is the result \<open>None\<close>, as is the use of the
  special value as a pointer.

  What the links represent is a list of addresses, \<open>list_of\<close>, and each operation is shown to be
  the operation on lists of the same name, and to leave all other items alone.
\<close>

datatype link = NOTIN | To (target: "nat option")

section \<open>The list\<close>

record nn_list_item =
  it_prev :: link
  it_next :: link

record nn_list =
  first :: "nat option"
  last_of :: "nat option"

type_synonym items = "nat \<Rightarrow> nn_list_item"

definition nn_list_init :: nn_list where
  "nn_list_init = \<lparr>first = None, last_of = None\<rparr>"

definition nn_list_term :: "nn_list \<Rightarrow> unit option" where
  "nn_list_term self = (if first self = None \<and> last_of self = None then Some () else None)"

definition nn_list_empty :: "nn_list \<Rightarrow> bool" where
  "nn_list_empty self \<longleftrightarrow> first self = None"

definition nn_list_begin :: "nn_list \<Rightarrow> nat option" where
  "nn_list_begin self = first self"

definition nn_list_prev :: "items \<Rightarrow> nn_list \<Rightarrow> nat option \<Rightarrow> nat option option" where
  "nn_list_prev h self it =
     (case it of None \<Rightarrow> Some (last_of self)
      | Some a \<Rightarrow> (case it_prev (h a) of NOTIN \<Rightarrow> None | To p \<Rightarrow> Some p))"

definition nn_list_next :: "items \<Rightarrow> nat \<Rightarrow> nat option option" where
  "nn_list_next h it = (case it_next (h it) of NOTIN \<Rightarrow> None | To p \<Rightarrow> Some p)"

definition nn_list_item_init :: nn_list_item where
  "nn_list_item_init = \<lparr>it_prev = NOTIN, it_next = NOTIN\<rparr>"

definition nn_list_item_isinlist :: "nn_list_item \<Rightarrow> bool" where
  "nn_list_item_isinlist self \<longleftrightarrow> it_prev self \<noteq> NOTIN"

definition nn_list_item_term :: "nn_list_item \<Rightarrow> unit option" where
  "nn_list_item_term self = (if nn_list_item_isinlist self then None else Some ())"

text \<open>Writing one link of the item a pointer points to, if it is not null.\<close>

definition set_next :: "nat option \<Rightarrow> link \<Rightarrow> items \<Rightarrow> items" where
  "set_next p v h = (case p of None \<Rightarrow> h | Some a \<Rightarrow> h(a := (h a)\<lparr>it_next := v\<rparr>))"

definition set_prev :: "nat option \<Rightarrow> link \<Rightarrow> items \<Rightarrow> items" where
  "set_prev p v h = (case p of None \<Rightarrow> h | Some a \<Rightarrow> h(a := (h a)\<lparr>it_prev := v\<rparr>))"

text \<open>Inserting in front of \<open>it\<close>, or at the end when it is null.\<close>

definition nn_list_insert ::
    "items \<Rightarrow> nn_list \<Rightarrow> nat \<Rightarrow> nat option \<Rightarrow> (items \<times> nn_list) option" where
  "nn_list_insert h self item it =
     (if nn_list_item_isinlist (h item) then None
      else case (case it of None \<Rightarrow> To (last_of self) | Some a \<Rightarrow> it_prev (h a)) of
        NOTIN \<Rightarrow> None
      | To p \<Rightarrow>
          let h1 = h(item := \<lparr>it_prev = To p, it_next = To it\<rparr>);
              h2 = set_next p (To (Some item)) h1;
              h3 = set_prev it (To (Some item)) h2
          in Some (h3,
            \<lparr>first = if first self = None \<or> first self = it then Some item else first self,
             last_of = if it = None then Some item else last_of self\<rparr>))"

text \<open>Erasing an item, with the item behind it as the result.\<close>

definition nn_list_erase ::
    "items \<Rightarrow> nn_list \<Rightarrow> nat \<Rightarrow> (items \<times> nn_list \<times> nat option) option" where
  "nn_list_erase h self item =
     (case (it_prev (h item), it_next (h item)) of
        (To p, To n) \<Rightarrow>
          let h1 = set_next p (To n) h; h2 = set_prev n (To p) h1 in
          Some (h2(item := nn_list_item_init),
            \<lparr>first = if p = None then n else first self, last_of = if n = None then p else last_of self\<rparr>, n)
      | _ \<Rightarrow> None)"

section \<open>What a list represents\<close>

text \<open>The links of the items \<open>xs\<close>, with \<open>p\<close> in front of them and \<open>n\<close> behind.\<close>

definition hd_or :: "nat list \<Rightarrow> nat option \<Rightarrow> nat option" where
  "hd_or xs n = (case xs of [] \<Rightarrow> n | x # _ \<Rightarrow> Some x)"

definition last_or :: "nat option \<Rightarrow> nat list \<Rightarrow> nat option" where
  "last_or p xs = (if xs = [] then p else Some (last xs))"

lemma hd_or_simps [simp]: "hd_or [] n = n" "hd_or (x # xs) n = Some x" "hd_or (xs @ ys) n = hd_or xs (hd_or ys n)"
  by (simp_all add: hd_or_def split: list.split)

lemma last_or_simps [simp]:
  "last_or p [] = p" "last_or p (x # xs) = last_or (Some x) xs" "last_or p (xs @ ys) = last_or (last_or p xs) ys"
  by (simp_all add: last_or_def)

lemma hd_or_in: "hd_or xs n = Some a \<Longrightarrow> a \<in> set xs \<or> n = Some a"
  by (cases xs) simp_all

lemma last_or_in: "last_or p xs = Some a \<Longrightarrow> a \<in> set xs \<or> p = Some a"
  by (auto simp: last_or_def split: if_splits)

lemma hd_or_None [simp]: "hd_or xs n = None \<longleftrightarrow> xs = [] \<and> n = None"
  by (cases xs) simp_all

lemma last_or_None [simp]: "last_or p xs = None \<longleftrightarrow> xs = [] \<and> p = None"
  by (simp add: last_or_def)

fun chain :: "items \<Rightarrow> nat option \<Rightarrow> nat list \<Rightarrow> nat option \<Rightarrow> bool" where
  "chain h p [] n \<longleftrightarrow> True"
| "chain h p (x # xs) n \<longleftrightarrow>
     h x = \<lparr>it_prev = To p, it_next = To (hd_or xs n)\<rparr> \<and> chain h (Some x) xs n"

lemma chain_append [simp]:
  "chain h p (xs @ ys) n \<longleftrightarrow> chain h p xs (hd_or ys n) \<and> chain h (last_or p xs) ys n"
  by (induction xs arbitrary: p) auto

lemma chain_keep: "chain h p xs n \<Longrightarrow> (\<And>x. x \<in> set xs \<Longrightarrow> h' x = h x) \<Longrightarrow> chain h' p xs n"
  by (induction xs arbitrary: p) auto

text \<open>Changing what is behind the items, and what is in front.\<close>

lemma chain_set_next:
  assumes "chain h p xs n" "distinct xs" "p \<notin> Some ` set xs"
  shows "chain (set_next (last_or p xs) (To n') h) p xs n'"
  using assms
proof (induction xs rule: rev_induct)
  case (snoc x xs)
  have "chain h p xs (Some x)" using snoc.prems(1) by simp
  then have "chain (set_next (Some x) (To n') h) p xs (Some x)"
    by (rule chain_keep) (use snoc.prems(2) in \<open>auto simp: set_next_def\<close>)
  moreover have "set_next (Some x) (To n') h x = \<lparr>it_prev = To (last_or p xs), it_next = To n'\<rparr>"
    using snoc.prems(1) by (simp add: set_next_def)
  ultimately show ?case by simp
qed simp

lemma chain_set_prev:
  assumes "chain h p xs n" "distinct xs"
  shows "chain (set_prev (hd_or xs n) (To p') h) p' xs n"
proof (cases xs)
  case (Cons x ys)
  have "chain h (Some x) ys n" using assms(1) Cons by simp
  then have "chain (set_prev (Some x) (To p') h) (Some x) ys n"
    by (rule chain_keep) (use assms(2) Cons in \<open>auto simp: set_prev_def\<close>)
  moreover have "set_prev (Some x) (To p') h x = \<lparr>it_prev = To p', it_next = To (hd_or ys n)\<rparr>"
    using assms(1) Cons by (simp add: set_prev_def)
  ultimately show ?thesis using Cons by simp
qed simp

lemma set_next_other: "p \<noteq> Some a \<Longrightarrow> set_next p v h a = h a"
  by (auto simp: set_next_def split: option.splits)

lemma set_prev_other: "p \<noteq> Some a \<Longrightarrow> set_prev p v h a = h a"
  by (auto simp: set_prev_def split: option.splits)

definition list_of :: "items \<Rightarrow> nn_list \<Rightarrow> nat list \<Rightarrow> bool" where
  "list_of h l xs \<longleftrightarrow> distinct xs \<and> chain h None xs None \<and> first l = hd_or xs None \<and> last_of l = last_or None xs"

lemma list_of_init [simp]: "list_of h nn_list_init []"
  by (simp add: list_of_def nn_list_init_def)

lemma list_of_empty: "list_of h l xs \<Longrightarrow> nn_list_empty l \<longleftrightarrow> xs = []"
  by (cases xs) (simp_all add: list_of_def nn_list_empty_def)

lemma list_of_begin: "list_of h l xs \<Longrightarrow> nn_list_begin l = hd_or xs None"
  by (simp add: list_of_def nn_list_begin_def)

lemma list_of_next: "list_of h l (ys @ x # zs) \<Longrightarrow> nn_list_next h x = Some (hd_or zs None)"
  by (simp add: list_of_def nn_list_next_def)

lemma list_of_prev: "list_of h l (ys @ x # zs) \<Longrightarrow> nn_list_prev h l (Some x) = Some (last_or None ys)"
  by (simp add: list_of_def nn_list_prev_def)

lemma list_of_isin: "list_of h l xs \<Longrightarrow> x \<in> set xs \<Longrightarrow> nn_list_item_isinlist (h x)"
  by (auto simp: list_of_def nn_list_item_isinlist_def dest!: split_list)

text \<open>Every list is determined by the memory.\<close>

lemma list_of_frame: "list_of h l xs \<Longrightarrow> (\<And>x. x \<in> set xs \<Longrightarrow> h' x = h x) \<Longrightarrow> list_of h' l xs"
  using chain_keep [of h None xs None h'] by (simp add: list_of_def)

lemma list_insert:
  assumes "list_of h l (ys @ zs)" "\<not> nn_list_item_isinlist (h x)"
  shows "\<exists>h' l'. nn_list_insert h l x (hd_or zs None) = Some (h', l') \<and> list_of h' l' (ys @ x # zs) \<and>
    (\<forall>a. a \<notin> set (ys @ x # zs) \<longrightarrow> h' a = h a)"
proof -
  let ?p = "last_or None ys" and ?n = "hd_or zs None"
  let ?h1 = "h(x := \<lparr>it_prev = To ?p, it_next = To ?n\<rparr>)"
  let ?h2 = "set_next ?p (To (Some x)) ?h1"
  let ?h3 = "set_prev ?n (To (Some x)) ?h2"
  have x: "x \<notin> set ys" "x \<notin> set zs" using assms list_of_isin by auto
  have d: "distinct ys" "distinct zs" "set ys \<inter> set zs = {}" using assms(1) by (simp_all add: list_of_def)
  have c: "chain h None ys ?n" "chain h ?p zs None" using assms(1) by (simp_all add: list_of_def)
  have pz: "?p \<noteq> Some a" if "a \<in> set zs \<or> a = x" for a using last_or_in [of None ys a] that d(3) x(1) by auto
  have ny: "?n \<noteq> Some a" if "a \<in> set ys \<or> a = x" for a using hd_or_in [of zs None a] that d(3) x(2) by auto
  have "chain ?h1 None ys ?n" by (rule chain_keep [OF c(1)]) (use x(1) in auto)
  then have "chain ?h2 None ys (Some x)" by (rule chain_set_next) (use d in simp_all)
  then have 1: "chain ?h3 None ys (Some x)"
    by (rule chain_keep) (use ny in \<open>simp add: set_prev_other\<close>)
  have "chain ?h2 ?p zs None"
    by (rule chain_keep [OF c(2)]) (use pz x(2) in \<open>auto simp: set_next_other\<close>)
  then have 2: "chain ?h3 (Some x) zs None" by (rule chain_set_prev) (rule d(2))
  have 3: "?h3 x = \<lparr>it_prev = To ?p, it_next = To ?n\<rparr>"
    using pz ny by (simp add: set_prev_other set_next_other)
  have it: "(case ?n of None \<Rightarrow> To (last_of l) | Some a \<Rightarrow> it_prev (h a)) = To ?p"
    using assms(1) c(2) by (cases zs) (simp_all add: list_of_def)
  have "first l = None \<or> first l = ?n \<longleftrightarrow> ys = []"
    using assms(1) ny [of "hd ys"] by (cases ys) (auto simp: list_of_def)
  moreover have "first l = hd_or ys ?n" "last_of l = last_or ?p zs" using assms(1) by (simp_all add: list_of_def)
  ultimately have "list_of ?h3 \<lparr>first = if first l = None \<or> first l = ?n then Some x else first l,
      last_of = if ?n = None then Some x else last_of l\<rparr> (ys @ x # zs)"
    using 1 2 3 d x by (cases ys; cases zs) (auto simp: list_of_def last_or_def)
  moreover have "?h3 a = h a" if "a \<notin> set (ys @ x # zs)" for a
  proof -
    have "?p \<noteq> Some a" "?n \<noteq> Some a" using last_or_in [of None ys a] hd_or_in [of zs None a] that by auto
    then show ?thesis using that by (simp add: set_prev_other set_next_other)
  qed
  ultimately show ?thesis
    using assms(2) by (simp add: nn_list_insert_def it Let_def)
qed

lemma list_erase:
  assumes "list_of h l (ys @ x # zs)"
  shows "\<exists>h' l'. nn_list_erase h l x = Some (h', l', hd_or zs None) \<and> list_of h' l' (ys @ zs) \<and>
    \<not> nn_list_item_isinlist (h' x) \<and> (\<forall>a. a \<notin> set (ys @ x # zs) \<longrightarrow> h' a = h a)"
proof -
  let ?p = "last_or None ys" and ?n = "hd_or zs None"
  let ?h1 = "set_next ?p (To ?n) h"
  let ?h2 = "set_prev ?n (To ?p) ?h1"
  let ?h3 = "?h2(x := nn_list_item_init)"
  have d: "distinct ys" "distinct zs" "set ys \<inter> set zs = {}" "x \<notin> set ys" "x \<notin> set zs"
    using assms by (simp_all add: list_of_def)
  have c: "chain h None ys (Some x)" "chain h (Some x) zs None" "h x = \<lparr>it_prev = To ?p, it_next = To ?n\<rparr>"
    using assms by (simp_all add: list_of_def)
  have pz: "?p \<noteq> Some a" if "a \<in> set zs" for a using last_or_in [of None ys a] that d(3) by auto
  have ny: "?n \<noteq> Some a" if "a \<in> set ys" for a using hd_or_in [of zs None a] that d(3) by auto
  have "chain ?h1 None ys ?n" using c(1) by (rule chain_set_next) (use d in simp_all)
  then have 1: "chain ?h3 None ys ?n"
    by (rule chain_keep) (use ny d(4) in \<open>auto simp: set_prev_other\<close>)
  have "chain ?h1 (Some x) zs None"
    by (rule chain_keep [OF c(2)]) (use pz in \<open>simp add: set_next_other\<close>)
  then have "chain ?h2 ?p zs None" by (rule chain_set_prev) (rule d(2))
  then have 2: "chain ?h3 ?p zs None" by (rule chain_keep) (use d(5) in auto)
  have "first l = hd_or ys (Some x)" "last_of l = last_or (Some x) zs" using assms by (simp_all add: list_of_def)
  then have "list_of ?h3 \<lparr>first = if ?p = None then ?n else first l, last_of = if ?n = None then ?p else last_of l\<rparr>
      (ys @ zs)"
    using 1 2 d by (cases ys; cases zs) (auto simp: list_of_def last_or_def)
  moreover have "?h3 a = h a" if "a \<notin> set (ys @ x # zs)" for a
  proof -
    have "?p \<noteq> Some a" "?n \<noteq> Some a" using last_or_in [of None ys a] hd_or_in [of zs None a] that by auto
    then show ?thesis using that by (simp add: set_prev_other set_next_other)
  qed
  ultimately show ?thesis
    using c(3) by (simp add: nn_list_erase_def nn_list_item_init_def nn_list_item_isinlist_def Let_def)
qed

end
