(* ===== verification/Nn_Queue.thy ===== *)
theory Nn_Queue
  imports Nn_List
begin

text \<open>
  The intrusive queue of the messaging library, \<open>src/utils/queue.c\<close> of nanomsg: a singly linked list with pointers to
  both ends. As for the list, the memory maps the addresses of items to their links, and the operations are shown
  to be those of the list of addresses that the links represent.
\<close>

record nn_queue =
  q_head :: "nat option"
  q_tail :: "nat option"

type_synonym qlinks = "nat \<Rightarrow> link"

definition nn_queue_init :: nn_queue where
  "nn_queue_init = \<lparr>q_head = None, q_tail = None\<rparr>"

definition nn_queue_empty :: "nn_queue \<Rightarrow> bool" where
  "nn_queue_empty self \<longleftrightarrow> q_head self = None"

definition nn_queue_item_isinqueue :: "link \<Rightarrow> bool" where
  "nn_queue_item_isinqueue self \<longleftrightarrow> self \<noteq> NOTIN"

text \<open>Writing the link of the item a pointer points to, if it is not null.\<close>

definition set_link :: "nat option \<Rightarrow> link \<Rightarrow> qlinks \<Rightarrow> qlinks" where
  "set_link p v h = (case p of None \<Rightarrow> h | Some a \<Rightarrow> h(a := v))"

definition nn_queue_push :: "qlinks \<Rightarrow> nn_queue \<Rightarrow> nat \<Rightarrow> (qlinks \<times> nn_queue) option" where
  "nn_queue_push h self item =
     (if nn_queue_item_isinqueue (h item) then None
      else Some (set_link (q_tail self) (To (Some item)) (h(item := To None)),
        \<lparr>q_head = if q_head self = None then Some item else q_head self, q_tail = Some item\<rparr>))"

text \<open>
  The loop of \<open>nn_queue_remove\<close>: the item in front of the one to remove, or that it is not there. It does not end
  when the links go round in a circle.
\<close>

partial_function (option) walk_queue ::
    "qlinks \<Rightarrow> nat \<Rightarrow> nat option \<Rightarrow> nat option \<Rightarrow> nat option option option" where
  "walk_queue h item prev it =
     (if it = None then Some None
      else if the it = item then Some (Some prev)
      else if h (the it) = NOTIN then None
      else walk_queue h item it (target (h (the it))))"

definition nn_queue_remove :: "qlinks \<Rightarrow> nn_queue \<Rightarrow> nat \<Rightarrow> (qlinks \<times> nn_queue) option" where
  "nn_queue_remove h self item =
     (case h item of
        NOTIN \<Rightarrow> Some (h, self)
      | To n \<Rightarrow>
          (case walk_queue h item None (q_head self) of
             None \<Rightarrow> None
           | Some None \<Rightarrow> Some (h, self)
           | Some (Some prev) \<Rightarrow>
               Some ((set_link prev (To n) h)(item := NOTIN),
                 \<lparr>q_head = if q_head self = Some item then n else q_head self,
                  q_tail = if q_tail self = Some item then prev else q_tail self\<rparr>)))"

definition nn_queue_pop :: "qlinks \<Rightarrow> nn_queue \<Rightarrow> (qlinks \<times> nn_queue \<times> nat option) option" where
  "nn_queue_pop h self =
     (case q_head self of
        None \<Rightarrow> Some (h, self, None)
      | Some a \<Rightarrow>
          (case h a of
             NOTIN \<Rightarrow> None
           | To n \<Rightarrow> Some (h(a := NOTIN), \<lparr>q_head = n, q_tail = if n = None then None else q_tail self\<rparr>, Some a)))"

section \<open>What a queue represents\<close>

fun qchain :: "qlinks \<Rightarrow> nat list \<Rightarrow> nat option \<Rightarrow> bool" where
  "qchain h [] n \<longleftrightarrow> True"
| "qchain h (x # xs) n \<longleftrightarrow> h x = To (hd_or xs n) \<and> qchain h xs n"

lemma qchain_append [simp]: "qchain h (xs @ ys) n \<longleftrightarrow> qchain h xs (hd_or ys n) \<and> qchain h ys n"
  by (induction xs) auto

lemma qchain_keep: "qchain h xs n \<Longrightarrow> (\<And>x. x \<in> set xs \<Longrightarrow> h' x = h x) \<Longrightarrow> qchain h' xs n"
  by (induction xs) auto

lemma qchain_set_link:
  assumes "qchain h xs n" "distinct xs"
  shows "qchain (set_link (last_or None xs) (To n') h) xs n'"
proof (cases xs rule: rev_cases)
  case (snoc ys y)
  have "qchain h ys (Some y)" using assms(1) snoc by simp
  then have "qchain (set_link (Some y) (To n') h) ys (Some y)"
    by (rule qchain_keep) (use assms(2) snoc in \<open>auto simp: set_link_def\<close>)
  with snoc show ?thesis by (simp add: set_link_def)
qed simp

definition queue_of :: "qlinks \<Rightarrow> nn_queue \<Rightarrow> nat list \<Rightarrow> bool" where
  "queue_of h q xs \<longleftrightarrow> distinct xs \<and> qchain h xs None \<and> q_head q = hd_or xs None \<and> q_tail q = last_or None xs"

lemma queue_of_isin: "queue_of h q xs \<Longrightarrow> x \<in> set xs \<Longrightarrow> nn_queue_item_isinqueue (h x)"
  by (auto simp: queue_of_def nn_queue_item_isinqueue_def dest!: split_list)

lemma queue_of_init: "queue_of h nn_queue_init []"
  by (simp add: queue_of_def nn_queue_init_def)

lemma queue_of_empty: "queue_of h q xs \<Longrightarrow> nn_queue_empty q \<longleftrightarrow> xs = []"
  by (simp add: queue_of_def nn_queue_empty_def)

lemma queue_push:
  assumes "queue_of h q xs" "\<not> nn_queue_item_isinqueue (h x)"
  shows "\<exists>h' q'. nn_queue_push h q x = Some (h', q') \<and> queue_of h' q' (xs @ [x]) \<and>
    (\<forall>a. a \<notin> set xs \<and> a \<noteq> x \<longrightarrow> h' a = h a)"
proof -
  let ?h1 = "h(x := To None)"
  let ?h2 = "set_link (last_or None xs) (To (Some x)) ?h1"
  have x: "x \<notin> set xs" using assms queue_of_isin by blast
  have q: "distinct xs" "qchain h xs None" "q_head q = hd_or xs None" "q_tail q = last_or None xs"
    using assms(1) by (simp_all add: queue_of_def)
  have l: "last_or None xs \<noteq> Some a" if "a \<notin> set xs" for a using last_or_in [of None xs a] that by auto
  have "qchain ?h1 xs None" by (rule qchain_keep [OF q(2)]) (use x in auto)
  then have "qchain ?h2 xs (Some x)" by (rule qchain_set_link) (rule q(1))
  moreover have "?h2 a = ?h1 a" if "a \<notin> set xs" for a
    using l [OF that] by (auto simp: set_link_def split: option.splits)
  ultimately show ?thesis
    using assms(2) x q by (cases xs) (auto simp: nn_queue_push_def queue_of_def last_or_def)
qed

lemma walk_queue_found:
  assumes "qchain h (ys @ x # zs) None" "x \<notin> set ys"
  shows "walk_queue h x p (hd_or (ys @ x # zs) None) = Some (Some (last_or p ys))"
  using assms by (induction ys arbitrary: p) (simp_all add: walk_queue.simps)

lemma walk_queue_not_found:
  assumes "qchain h xs None" "x \<notin> set xs"
  shows "walk_queue h x p (hd_or xs None) = Some None"
  using assms by (induction xs arbitrary: p) (auto simp: walk_queue.simps)

lemma queue_remove:
  assumes "queue_of h q (ys @ x # zs)"
  shows "\<exists>h' q'. nn_queue_remove h q x = Some (h', q') \<and> queue_of h' q' (ys @ zs) \<and>
    \<not> nn_queue_item_isinqueue (h' x) \<and> (\<forall>a. a \<notin> set (ys @ x # zs) \<longrightarrow> h' a = h a)"
proof -
  let ?n = "hd_or zs None" and ?p = "last_or None ys"
  let ?h1 = "set_link ?p (To ?n) h"
  let ?h2 = "?h1(x := NOTIN)"
  have d: "distinct ys" "distinct zs" "set ys \<inter> set zs = {}" "x \<notin> set ys" "x \<notin> set zs"
    using assms by (simp_all add: queue_of_def)
  have c: "qchain h ys (Some x)" "qchain h zs None" "h x = To ?n" using assms by (simp_all add: queue_of_def)
  have e: "q_head q = hd_or (ys @ x # zs) None" "q_tail q = last_or (Some x) zs"
    using assms by (simp_all add: queue_of_def)
  have l: "?p \<noteq> Some a" if "a \<notin> set ys" for a using last_or_in [of None ys a] that by auto
  then have o: "?h1 a = h a" if "a \<notin> set ys" for a
    using that by (auto simp: set_link_def split: option.splits)
  have "qchain ?h1 ys ?n" by (rule qchain_set_link [OF c(1) d(1)])
  then have 1: "qchain ?h2 ys ?n" by (rule qchain_keep) (use d(4) in auto)
  have 2: "qchain ?h2 zs None" by (rule qchain_keep [OF c(2)]) (use d(3,5) o in auto)
  have w: "walk_queue h x None (q_head q) = Some (Some ?p)"
    unfolding e by (rule walk_queue_found) (use assms d(4) in \<open>simp_all add: queue_of_def\<close>)
  have "queue_of ?h2 \<lparr>q_head = if q_head q = Some x then ?n else q_head q,
      q_tail = if q_tail q = Some x then ?p else q_tail q\<rparr> (ys @ zs)"
    using 1 2 d e by (cases ys; cases zs rule: rev_cases) (auto simp: queue_of_def last_or_def)
  then show ?thesis
    using c(3) w o by (auto simp: nn_queue_remove_def nn_queue_item_isinqueue_def)
qed

lemma queue_pop:
  assumes "queue_of h q (x # xs)"
  shows "\<exists>h' q'. nn_queue_pop h q = Some (h', q', Some x) \<and> queue_of h' q' xs \<and>
    \<not> nn_queue_item_isinqueue (h' x) \<and> (\<forall>a. a \<noteq> x \<longrightarrow> h' a = h a)"
proof -
  have "qchain (h(x := NOTIN)) xs None"
    by (rule qchain_keep [of h]) (use assms in \<open>auto simp: queue_of_def\<close>)
  then show ?thesis
    using assms by (cases xs) (auto simp: queue_of_def nn_queue_pop_def nn_queue_item_isinqueue_def)
qed

lemma queue_pop_empty: "queue_of h q [] \<Longrightarrow> nn_queue_pop h q = Some (h, q, None)"
  by (simp add: queue_of_def nn_queue_pop_def)

end
