(* ===== verification/Nn_Hash.thy ===== *)
theory Nn_Hash
  imports Prelude
begin

text \<open>
  The hash table of the messaging library, \<open>src/utils/hash.c\<close> of nanomsg: an array of lists of items with 32-bit keys,
  which doubles when it is half full. The lists are taken at what \<open>Nn_List\<close> shows them to represent; an item is its
  key and the object it is embedded in. A failed assertion is the result \<open>None\<close>.

  The contract is the locale \<open>peer_table\<close>: the table is a partial function. Its interpretation for \<open>nn_hash\<close>
  discharges the laws, the conversion of the table included.
\<close>

section \<open>The contract\<close>

locale peer_table =
  fixes ok :: "'h \<Rightarrow> bool"
    and get :: "'h \<Rightarrow> u32 \<Rightarrow> 'v option"
    and put :: "'h \<Rightarrow> u32 \<Rightarrow> 'v \<Rightarrow> 'h option"
    and del :: "'h \<Rightarrow> u32 \<Rightarrow> 'h option"
  assumes put_new: "ok h \<Longrightarrow> get h k = None \<Longrightarrow> \<exists>h'. put h k v = Some h' \<and> ok h' \<and> get h' = (get h)(k \<mapsto> v)"
    and put_old: "ok h \<Longrightarrow> get h k \<noteq> None \<Longrightarrow> put h k v = None"
    and del_old: "ok h \<Longrightarrow> get h k \<noteq> None \<Longrightarrow> \<exists>h'. del h k = Some h' \<and> ok h' \<and> get h' = (get h)(k := None)"
    and del_new: "ok h \<Longrightarrow> get h k = None \<Longrightarrow> del h k = None"
begin

lemma put_get: "ok h \<Longrightarrow> put h k v = Some h' \<Longrightarrow> ok h' \<and> get h k = None \<and> get h' = (get h)(k \<mapsto> v)"
  by (metis option.distinct(1) option.inject put_new put_old)

text \<open>A peer that comes and goes leaves the others as they were.\<close>

lemma put_del: "ok h \<Longrightarrow> put h k v = Some h' \<Longrightarrow> \<exists>h''. del h' k = Some h'' \<and> ok h'' \<and> get h'' = get h"
  using put_get [of h k v h'] del_old [of h' k] by (auto simp: fun_upd_idem)

lemma del_get: "ok h \<Longrightarrow> del h k = Some h' \<Longrightarrow> ok h' \<and> get h k \<noteq> None \<and> get h' = (get h)(k := None)"
  by (metis del_new del_old option.distinct(1) option.inject)

lemma put_put: "ok h \<Longrightarrow> put h k v = Some h' \<Longrightarrow> put h' j w = Some h'' \<Longrightarrow> j \<noteq> k \<and> get h'' k = Some v"
  using put_get [of h k v h'] put_get [of h' j w h''] by auto

end

section \<open>The table\<close>

definition NN_HASH_INITIAL_SLOTS :: u32 where "NN_HASH_INITIAL_SLOTS = 32"

record 'v nn_hash =
  h_slots :: u32
  h_items :: u32
  h_array :: "(u32 \<times> 'v) list list"

definition nn_hash_key :: "u32 \<Rightarrow> u32" where
  "nn_hash_key key0 =
     (let key = (key0 XOR 61) XOR drop_bit 16 key0;
          key = key + push_bit 3 key;
          key = key XOR drop_bit 4 key;
          key = key * 0x27d4eb2d
      in key XOR drop_bit 15 key)"

definition hash_slot :: "u32 \<Rightarrow> u32 \<Rightarrow> nat" where
  "hash_slot slots key = unat (nn_hash_key key mod slots)"

definition nn_hash_init :: "'v nn_hash" where
  "nn_hash_init = \<lparr>h_slots = NN_HASH_INITIAL_SLOTS, h_items = 0,
     h_array = replicate (unat NN_HASH_INITIAL_SLOTS) []\<rparr>"

text \<open>Every list must be empty when the table is given up.\<close>

definition nn_hash_term :: "'v nn_hash \<Rightarrow> unit option" where
  "nn_hash_term self = (if \<forall>xs \<in> set (h_array self). xs = [] then Some () else None)"

text \<open>Moving the items, slot by slot and from the front, to the ends of their new lists.\<close>

definition nn_hash_move :: "u32 \<Rightarrow> (u32 \<times> 'v) list list \<Rightarrow> u32 \<times> 'v \<Rightarrow> (u32 \<times> 'v) list list" where
  "nn_hash_move slots arr hitm =
     (let newslot = hash_slot slots (fst hitm) in arr[newslot := arr ! newslot @ [hitm]])"

definition nn_hash_rehash :: "'v nn_hash \<Rightarrow> 'v nn_hash" where
  "nn_hash_rehash self =
     (let slots = h_slots self * 2 in
      self\<lparr>h_slots := slots,
           h_array := foldl (foldl (nn_hash_move slots)) (replicate (unat slots) []) (h_array self)\<rparr>)"

definition nn_hash_insert :: "'v nn_hash \<Rightarrow> u32 \<Rightarrow> 'v \<Rightarrow> 'v nn_hash option" where
  "nn_hash_insert self key item =
     (let i = hash_slot (h_slots self) key in
      if key \<in> fst ` set (h_array self ! i) then None
      else let self' = self\<lparr>h_array := (h_array self)[i := h_array self ! i @ [(key, item)]],
                            h_items := h_items self + 1\<rparr>
        in Some (if h_slots self' < h_items self' * 2 \<and> h_slots self' < 0x80000000
                 then nn_hash_rehash self' else self'))"

text \<open>
  Erasing the item with a key, which must be in its list, as \<open>nn_list_erase\<close> asserts; the number of items is not
  changed.
\<close>

definition nn_hash_erase :: "'v nn_hash \<Rightarrow> u32 \<Rightarrow> 'v nn_hash option" where
  "nn_hash_erase self key =
     (let slot = hash_slot (h_slots self) key in
      if key \<notin> fst ` set (h_array self ! slot) then None
      else Some (self\<lparr>h_array := (h_array self)[slot := filter (\<lambda>it. fst it \<noteq> key) (h_array self ! slot)]\<rparr>))"

definition nn_hash_get :: "'v nn_hash \<Rightarrow> u32 \<Rightarrow> 'v option" where
  "nn_hash_get self key =
     (case find (\<lambda>it. fst it = key) (h_array self ! hash_slot (h_slots self) key) of
        None \<Rightarrow> None | Some it \<Rightarrow> Some (snd it))"

section \<open>The laws\<close>

definition hash_ok :: "'v nn_hash \<Rightarrow> bool" where
  "hash_ok h \<longleftrightarrow> h_slots h \<noteq> 0 \<and> length (h_array h) = unat (h_slots h) \<and>
     (\<forall>i < length (h_array h). distinct (map fst (h_array h ! i)) \<and>
        (\<forall>it \<in> set (h_array h ! i). hash_slot (h_slots h) (fst it) = i))"

lemma hash_slot_less: "slots \<noteq> 0 \<Longrightarrow> hash_slot slots key < unat slots"
  by (simp add: hash_slot_def unat_mod word_neq_0_conv [symmetric] unat_gt_0)

lemma find_map_of: "(case find (\<lambda>it. fst it = k) xs of None \<Rightarrow> None | Some it \<Rightarrow> Some (snd it)) = map_of xs k"
  by (induction xs) auto

lemma nn_hash_get: "nn_hash_get h k = map_of (h_array h ! hash_slot (h_slots h) k) k"
  by (simp add: nn_hash_get_def find_map_of)

lemma hash_ok_init: "hash_ok nn_hash_init"
  by (simp add: hash_ok_def nn_hash_init_def NN_HASH_INITIAL_SLOTS_def)

lemma get_init: "nn_hash_get nn_hash_init k = None"
  using hash_slot_less [of NN_HASH_INITIAL_SLOTS k]
  by (simp add: nn_hash_get nn_hash_init_def NN_HASH_INITIAL_SLOTS_def)

text \<open>Appending an item with a new key to its list.\<close>

lemma map_of_snoc: "k \<notin> fst ` set xs \<Longrightarrow> map_of (xs @ [(k, v)]) = (map_of xs)(k \<mapsto> v)"
  by (induction xs) auto

lemma move_ok:
  assumes "hash_ok h" "k \<notin> fst ` set (h_array h ! hash_slot (h_slots h) k)"
    and "h_array h' = nn_hash_move (h_slots h) (h_array h) (k, v)" "h_slots h' = h_slots h"
  shows "hash_ok h'" "nn_hash_get h' = (nn_hash_get h)(k \<mapsto> v)"
proof -
  let ?i = "hash_slot (h_slots h) k"
  have i: "?i < length (h_array h)" using assms(1) hash_slot_less by (simp add: hash_ok_def)
  have a: "h_array h' = (h_array h)[?i := h_array h ! ?i @ [(k, v)]]"
    using assms(3) by (simp add: nn_hash_move_def Let_def)
  show "hash_ok h'"
    using assms(1,2,4) i unfolding hash_ok_def a by (auto simp: nth_list_update)
  show "nn_hash_get h' = (nn_hash_get h)(k \<mapsto> v)"
    using map_of_snoc [OF assms(2), of v] i assms(4)
    by (auto simp: nn_hash_get a nth_list_update fun_eq_iff)
qed

lemma get_keys: "hash_ok h \<Longrightarrow> nn_hash_get h k = None \<longleftrightarrow> k \<notin> fst ` set (h_array h ! hash_slot (h_slots h) k)"
  by (simp add: nn_hash_get map_of_eq_None_iff)

text \<open>Moving a list of items with different keys that the new table does not have yet.\<close>

lemma move_list:
  assumes "hash_ok h" "distinct (map fst its)" "\<forall>it \<in> set its. nn_hash_get h (fst it) = None"
  shows "hash_ok (h\<lparr>h_array := foldl (nn_hash_move (h_slots h)) (h_array h) its\<rparr>) \<and>
    nn_hash_get (h\<lparr>h_array := foldl (nn_hash_move (h_slots h)) (h_array h) its\<rparr>) = nn_hash_get h ++ map_of its"
  using assms
proof (induction its arbitrary: h)
  case (Cons it its)
  obtain k v where it: "it = (k, v)" by (cases it)
  let ?h = "h\<lparr>h_array := nn_hash_move (h_slots h) (h_array h) (k, v)\<rparr>"
  have k: "k \<notin> fst ` set (h_array h ! hash_slot (h_slots h) k)"
    using Cons.prems(1,3) get_keys [of h k] by (simp add: it)
  have M: "hash_ok ?h" "nn_hash_get ?h = (nn_hash_get h)(k \<mapsto> v)"
    using move_ok [OF Cons.prems(1) k, of ?h v] by simp_all
  have "\<forall>it \<in> set its. nn_hash_get ?h (fst it) = None"
    using Cons.prems(2,3) by (auto simp: M(2) it)
  with Cons.IH [of ?h] M(1) Cons.prems(2)
  have "hash_ok (h\<lparr>h_array := foldl (nn_hash_move (h_slots h)) (h_array h) (it # its)\<rparr>) \<and>
      nn_hash_get (h\<lparr>h_array := foldl (nn_hash_move (h_slots h)) (h_array h) (it # its)\<rparr>) =
        nn_hash_get ?h ++ map_of its"
    by (simp add: it)
  moreover have "nn_hash_get ?h ++ map_of its = nn_hash_get h ++ map_of (it # its)"
    using Cons.prems(2) unfolding M(2) by (simp add: it map_add_upd_left dom_map_of_conv_image_fst)
  ultimately show ?case by (simp only: simp_thms)
qed (simp add: map_add_def)

text \<open>All lists of the table, one after the other, hold each key once.\<close>

lemma concat_slots:
  assumes "\<forall>i < length xss. distinct (map fst (xss ! i)) \<and> (\<forall>it \<in> set (xss ! i). s (fst it) = m + i)"
  shows "distinct (map fst (concat xss)) \<and> (\<forall>it \<in> set (concat xss). m \<le> s (fst it)) \<and>
    (\<forall>k. map_of (concat xss) k =
      (if m \<le> s k \<and> s k < m + length xss then map_of (xss ! (s k - m)) k else None))"
  using assms
proof (induction xss arbitrary: m)
  case (Cons xs xss)
  have 0: "distinct (map fst xs)" "\<forall>it \<in> set xs. s (fst it) = m" using Cons.prems by force+
  have "\<forall>i < length xss. distinct (map fst (xss ! i)) \<and> (\<forall>it \<in> set (xss ! i). s (fst it) = Suc m + i)"
    using Cons.prems by force
  note IH = Cons.IH [OF this]
  have "fst ` set xs \<inter> fst ` set (concat xss) = {}" using 0(2) IH by fastforce
  moreover have "\<forall>it \<in> set (concat xss). m \<le> s (fst it)" using IH Suc_leD by blast
  moreover have "map_of xs k = None" if "s k \<noteq> m" for k
    using that 0(2) by (auto simp: map_of_eq_None_iff)
  moreover have "map_of (concat xss) k = None" if "s k = m" for k
    using that IH by simp
  ultimately show ?case
    using 0 IH by (auto simp: map_add_def nth_Cons' Suc_le_eq split: option.splits)
qed auto

lemma hash_concat:
  assumes "hash_ok h"
  shows "distinct (map fst (concat (h_array h)))" and "map_of (concat (h_array h)) = nn_hash_get h"
proof -
  have "\<forall>i < length (h_array h). distinct (map fst (h_array h ! i)) \<and>
      (\<forall>it \<in> set (h_array h ! i). hash_slot (h_slots h) (fst it) = 0 + i)"
    using assms by (simp add: hash_ok_def)
  note C = concat_slots [OF this]
  from C show "distinct (map fst (concat (h_array h)))" by blast
  have "hash_slot (h_slots h) k < length (h_array h)" for k using assms hash_slot_less by (simp add: hash_ok_def)
  with C show "map_of (concat (h_array h)) = nn_hash_get h" by (auto simp: nn_hash_get)
qed

lemma foldl_foldl: "foldl (foldl f) a xss = foldl f a (concat xss)"
  by (induction xss arbitrary: a) auto

text \<open>Doubling the table keeps what is in it.\<close>

lemma rehash_ok:
  assumes "hash_ok h" "h_slots h < 0x80000000"
  shows "hash_ok (nn_hash_rehash h)" "nn_hash_get (nn_hash_rehash h) = nn_hash_get h"
proof -
  let ?h0 = "h\<lparr>h_slots := h_slots h * 2, h_array := replicate (unat (h_slots h * 2)) []\<rparr>"
  have u: "unat (h_slots h * 2) = unat (h_slots h) * 2"
    using assms(2) by (simp add: unat_word_ariths word_less_nat_alt)
  have n0: "unat (h_slots h) \<noteq> 0" using assms(1) by (simp add: hash_ok_def unat_eq_0)
  then have "unat (h_slots h * 2) \<noteq> 0" by (simp only: u)
  then have n: "h_slots h * 2 \<noteq> 0" by (metis unsigned_0)
  have ok0: "hash_ok ?h0" using n by (simp add: hash_ok_def)
  have "nn_hash_get ?h0 k = None" for k using hash_slot_less [OF n, of k] by (simp add: nn_hash_get)
  with move_list [OF ok0 hash_concat(1) [OF assms(1)]] hash_concat(2) [OF assms(1)]
  have "hash_ok (nn_hash_rehash h) \<and> nn_hash_get (nn_hash_rehash h) = nn_hash_get ?h0 ++ nn_hash_get h"
    by (simp add: nn_hash_rehash_def foldl_foldl Let_def)
  moreover have "nn_hash_get ?h0 ++ nn_hash_get h = nn_hash_get h"
    using \<open>\<And>k. nn_hash_get ?h0 k = None\<close> by (auto simp: map_add_def split: option.splits)
  ultimately show "hash_ok (nn_hash_rehash h)" "nn_hash_get (nn_hash_rehash h) = nn_hash_get h" by simp_all
qed

lemma insert_new:
  assumes "hash_ok h" "nn_hash_get h k = None"
  shows "\<exists>h'. nn_hash_insert h k v = Some h' \<and> hash_ok h' \<and> nn_hash_get h' = (nn_hash_get h)(k \<mapsto> v)"
proof -
  let ?i = "hash_slot (h_slots h) k"
  let ?h = "h\<lparr>h_array := (h_array h)[?i := h_array h ! ?i @ [(k, v)]], h_items := h_items h + 1\<rparr>"
  have k: "k \<notin> fst ` set (h_array h ! ?i)" using assms get_keys by blast
  have M: "hash_ok ?h" "nn_hash_get ?h = (nn_hash_get h)(k \<mapsto> v)"
    using move_ok [OF assms(1) k, of ?h v] by (simp_all add: nn_hash_move_def Let_def)
  then show ?thesis using k rehash_ok [of ?h] by (auto simp: nn_hash_insert_def Let_def)
qed

lemma map_of_filter_key: "map_of (filter (\<lambda>it. fst it \<noteq> k) xs) = (map_of xs)(k := None)"
  by (induction xs) auto

lemma erase_ok:
  assumes "hash_ok h" "nn_hash_get h k \<noteq> None"
  shows "\<exists>h'. nn_hash_erase h k = Some h' \<and> hash_ok h' \<and> nn_hash_get h' = (nn_hash_get h)(k := None) \<and>
    h_items h' = h_items h \<and> h_slots h' = h_slots h"
proof -
  let ?i = "hash_slot (h_slots h) k"
  let ?h = "h\<lparr>h_array := (h_array h)[?i := filter (\<lambda>it. fst it \<noteq> k) (h_array h ! ?i)]\<rparr>"
  have i: "?i < length (h_array h)" using assms(1) hash_slot_less by (simp add: hash_ok_def)
  have "hash_ok ?h"
    using assms(1) i by (auto simp: hash_ok_def nth_list_update distinct_map_filter)
  moreover have "nn_hash_get ?h = (nn_hash_get h)(k := None)"
    using i by (auto simp: nn_hash_get nth_list_update map_of_filter_key fun_eq_iff)
  moreover have "nn_hash_erase h k = Some ?h"
    using assms get_keys [of h k] by (auto simp: nn_hash_erase_def Let_def)
  ultimately show ?thesis by simp
qed

interpretation pipes: peer_table hash_ok nn_hash_get nn_hash_insert nn_hash_erase
proof unfold_locales
  show "nn_hash_insert h k v = None" if "hash_ok h" "nn_hash_get h k \<noteq> None" for h k and v :: 'v
    using that get_keys [of h k] by (simp add: nn_hash_insert_def Let_def)
  show "nn_hash_erase h k = None" if "hash_ok h" "nn_hash_get h k = None" for h :: "'v nn_hash" and k
    using that get_keys [of h k] by (simp add: nn_hash_erase_def Let_def)
  show "\<exists>h'. nn_hash_insert h k v = Some h' \<and> hash_ok h' \<and> nn_hash_get h' = (nn_hash_get h)(k \<mapsto> v)"
    if "hash_ok h" "nn_hash_get h k = None" for h k and v :: 'v
    using that by (rule insert_new)
  show "\<exists>h'. nn_hash_erase h k = Some h' \<and> hash_ok h' \<and> nn_hash_get h' = (nn_hash_get h)(k := None)"
    if "hash_ok h" "nn_hash_get h k \<noteq> None" for h :: "'v nn_hash" and k
    using erase_ok [OF that] by (elim exE conjE) (intro exI conjI)
qed

section \<open>The number of items\<close>

text \<open>
  Items that come and go one after the other, \<open>n\<close> of them so far. The count of the items only grows, and with it the
  empty table.
\<close>

inductive come_and_go :: "nat \<Rightarrow> 'v nn_hash \<Rightarrow> bool" where
  start: "come_and_go 0 nn_hash_init"
| next_one: "come_and_go n h \<Longrightarrow> nn_hash_insert h k v = Some h' \<Longrightarrow> nn_hash_erase h' k = Some h'' \<Longrightarrow>
    come_and_go (Suc n) h''"

lemma insert_counts:
  assumes "nn_hash_insert h k v = Some h'" "h_slots h \<noteq> 0"
    and "unat (h_items h) = n" "n < 2 ^ 30" "2 * n \<le> unat (h_slots h)"
  shows "unat (h_items h') = Suc n" "2 * Suc n \<le> unat (h_slots h')"
proof -
  have i: "unat (h_items h + 1) = Suc n" using assms(3,4) by (simp add: unat_word_ariths)
  have d: "unat ((h_items h + 1) * 2) = 2 * Suc n"
    unfolding unat_word_ariths(2) i using assms(4) by simp
  have s: "unat (h_slots h) \<noteq> 0" using assms(2) by (simp add: unat_eq_0)
  have h: "h_items h' = h_items h + 1" "h_slots h' =
      (if h_slots h < (h_items h + 1) * 2 \<and> h_slots h < 0x80000000 then h_slots h * 2 else h_slots h)"
    using assms(1) by (auto simp: nn_hash_insert_def nn_hash_rehash_def Let_def split: if_splits)
  show "unat (h_items h') = Suc n" using h(1) i by simp
  show "2 * Suc n \<le> unat (h_slots h')"
  proof (cases "h_slots h < (h_items h + 1) * 2")
    case True
    then have "unat (h_slots h) < 2 * Suc n" by (simp only: word_less_nat_alt d)
    then have "unat (h_slots h) < 2 ^ 31" using assms(4) by simp
    then have "h_slots h < 0x80000000" "unat (h_slots h * 2) = 2 * unat (h_slots h)"
      by (simp_all add: word_less_nat_alt unat_word_ariths(2))
    moreover have "2 * Suc n \<le> 2 * unat (h_slots h)" using s assms(5) by (cases n) simp_all
    ultimately show ?thesis using True h(2) by simp
  next
    case False
    then have "2 * Suc n \<le> unat (h_slots h)" by (simp only: word_less_nat_alt d not_less)
    with False h(2) show ?thesis by simp
  qed
qed

lemma come_and_go:
  "come_and_go n h \<Longrightarrow> n \<le> 2 ^ 30 \<Longrightarrow>
   hash_ok h \<and> (\<forall>k. nn_hash_get h k = None) \<and> unat (h_items h) = n \<and> 2 * n \<le> unat (h_slots h)"
proof (induction rule: come_and_go.induct)
  case start
  show ?case by (simp add: hash_ok_init get_init) (simp add: nn_hash_init_def)
next
  case (next_one n h k v h' h'')
  from next_one.IH next_one.prems have IH: "hash_ok h" "\<forall>k. nn_hash_get h k = None"
    "unat (h_items h) = n" "2 * n \<le> unat (h_slots h)" by simp_all
  from pipes.put_get [OF IH(1) next_one.hyps(2)] have ok: "hash_ok h'" "nn_hash_get h' = (nn_hash_get h)(k \<mapsto> v)"
    by simp_all
  have "n < 2 ^ 30" using next_one.prems by simp
  from insert_counts [OF next_one.hyps(2) _ IH(3) this IH(4)] IH(1)
  have "unat (h_items h') = Suc n" "2 * Suc n \<le> unat (h_slots h')" by (simp_all add: hash_ok_def)
  then show ?case using erase_ok [OF ok(1), of k] ok(2) IH(2) next_one.hyps(3) by auto
qed

end
