(* ===== verification/Nn_Rep.thy ===== *)
theory Nn_Rep
  imports Nn_Req Nn_Hash
begin

text \<open>
  The replier's socket of the request/reply protocol of nanomsg, the one the server of the file system answers with: the raw
  socket of \<open>protocols/reqrep/xrep.c\<close>, which finds the pipe of a reply by the key in its header, and
  \<open>rep.c\<close> above it, which keeps the header of the request it works on.

  The data of a pipe, its key in the table and whether it can send, are named by the pipe.
\<close>

section \<open>The raw socket\<close>

record 't xrep =
  xp_next_key :: u32
  xp_outpipes :: "nat nn_hash"
  xp_inpipes :: nn_priolist
  xp_key :: "nat \<Rightarrow> u32"
  xp_out :: "nat \<Rightarrow> bool"
  xp_net :: "'t net"

text \<open>The first key is a random number.\<close>

definition nn_xrep_init :: "u32 \<Rightarrow> 't net \<Rightarrow> 't xrep" where
  "nn_xrep_init next_key n =
     \<lparr>xp_next_key = next_key, xp_outpipes = nn_hash_init, xp_inpipes = nn_fq_init,
      xp_key = (\<lambda>_. 0), xp_out = (\<lambda>_. False), xp_net = n\<rparr>"

definition nn_xrep_add :: "nat \<Rightarrow> 't xrep \<Rightarrow> 't xrep option" where
  "nn_xrep_add pipe self =
     (let rcvprio = pb_rcvprio (n_pipes (xp_net self) pipe); key = xp_next_key self AND 0x7fffffff in
      if \<not> (1 \<le> rcvprio \<and> rcvprio \<le> 16) then None
      else case nn_hash_insert (xp_outpipes self) key pipe of
        None \<Rightarrow> None
      | Some h \<Rightarrow>
          Some (self\<lparr>xp_outpipes := h, xp_key := (xp_key self)(pipe := key), xp_out := (xp_out self)(pipe := False),
            xp_next_key := xp_next_key self + 1, xp_inpipes := nn_fq_add (xp_inpipes self) pipe rcvprio\<rparr>))"

definition nn_xrep_rm :: "nat \<Rightarrow> 't xrep \<Rightarrow> 't xrep option" where
  "nn_xrep_rm pipe self =
     map_option (\<lambda>h. self\<lparr>xp_inpipes := nn_fq_rm (xp_inpipes self) pipe, xp_outpipes := h\<rparr>)
       (nn_hash_erase (xp_outpipes self) (xp_key self pipe))"

definition nn_xrep_in :: "nat \<Rightarrow> 't xrep \<Rightarrow> 't xrep option" where
  "nn_xrep_in pipe self = map_option (\<lambda>fq. self\<lparr>xp_inpipes := fq\<rparr>) (nn_fq_in (xp_inpipes self) pipe)"

definition nn_xrep_out :: "nat \<Rightarrow> 't xrep \<Rightarrow> 't xrep" where
  "nn_xrep_out pipe self = self\<lparr>xp_out := (xp_out self)(pipe := True)\<rparr>"

definition nn_xrep_events :: "'t xrep \<Rightarrow> bool \<times> bool" where
  "nn_xrep_events self = (nn_fq_can_recv (xp_inpipes self), True)"

text \<open>
  What becomes of a message that is sent: it is given to a pipe, terminated, or dropped without being terminated, so
  that its memory is lost.
\<close>

datatype fate = Sent_on nat msg | Terminated | Leaked

definition nn_xrep_send :: "'t transport \<Rightarrow> msg \<Rightarrow> 't xrep \<Rightarrow> (fate \<times> 't xrep) option" where
  "nn_xrep_send T m self =
     (if length (m_sphdr m) < 4 then Some (Terminated, self)
      else let key = nn_getl (m_sphdr m); m' = m\<lparr>m_sphdr := drop 4 (m_sphdr m)\<rparr> in
        case nn_hash_get (xp_outpipes self) key of
          None \<Rightarrow> Some (Leaked, self)
        | Some pipe \<Rightarrow>
            if \<not> xp_out self pipe then Some (Leaked, self)
            else (case nn_pipe_send T pipe m' (xp_net self) of
                None \<Rightarrow> None
              | Some (release, n) \<Rightarrow>
                  Some (Sent_on pipe m', self\<lparr>xp_net := n,
                    xp_out := if release then (xp_out self)(pipe := False) else xp_out self\<rparr>)))"

text \<open>
  The size of the header of a request, in words: all up to the first with the highest bit, the bottom of the stack. A message
  without it has no header.
\<close>

function xrep_header :: "bytes \<Rightarrow> nat option" where
  "xrep_header data =
     (if length data < 4 then None
      else if nn_getl data AND 0x80000000 \<noteq> 0 then Some 1
      else map_option Suc (xrep_header (drop 4 data)))"
  by pat_completeness auto
termination
  by (relation "measure length") auto

declare xrep_header.simps [simp del]

definition nn_xrep_split :: "bool \<Rightarrow> msg \<Rightarrow> received option" where
  "nn_xrep_split parsed m =
     (if parsed then Some (Received m)
      else case xrep_header (m_body m) of
        None \<Rightarrow> Some (Malformed m)
      | Some i \<Rightarrow>
          if m_sphdr m \<noteq> [] then None
          else Some (Received \<lparr>m_sphdr = take (4 * i) (m_body m), m_body = drop (4 * i) (m_body m)\<rparr>))"

text \<open>The key of the pipe goes in front of the header.\<close>

definition nn_xrep_recv :: "'t transport \<Rightarrow> 't xrep \<Rightarrow> (received \<times> 't xrep) option" where
  "nn_xrep_recv T self =
     (case nn_fq_recv T (xp_inpipes self) (xp_net self) of
        None \<Rightarrow> None
      | Some (None, fq, n) \<Rightarrow> Some (Nothing_there, self\<lparr>xp_inpipes := fq, xp_net := n\<rparr>)
      | Some (Some (pipe, parsed, m), fq, n) \<Rightarrow>
          (let self' = self\<lparr>xp_inpipes := fq, xp_net := n\<rparr> in
           case nn_xrep_split parsed m of
             None \<Rightarrow> None
           | Some (Received m') \<Rightarrow>
               Some (Received (m'\<lparr>m_sphdr := nn_putl (xp_key self pipe) @ m_sphdr m'\<rparr>), self')
           | Some r \<Rightarrow> Some (r, self')))"

definition nn_xrep_setopt :: int where "nn_xrep_setopt = - ENOPROTOOPT"
definition nn_xrep_getopt :: int where "nn_xrep_getopt = - ENOPROTOOPT"

section \<open>The socket\<close>

text \<open>The backtrace is there when the flag \<open>NN_REP_INPROGRESS\<close> is set.\<close>

record 't rep =
  rp_xrep :: "'t xrep"
  rp_backtrace :: "bytes option"

definition nn_rep_init :: "u32 \<Rightarrow> 't net \<Rightarrow> 't rep" where
  "nn_rep_init next_key n = \<lparr>rp_xrep = nn_xrep_init next_key n, rp_backtrace = None\<rparr>"

definition nn_rep_events :: "'t rep \<Rightarrow> bool \<times> bool" where
  "nn_rep_events self =
     (let (i, o') = nn_xrep_events (rp_xrep self) in (i, o' \<and> rp_backtrace self \<noteq> None))"

definition nn_rep_send :: "'t transport \<Rightarrow> msg \<Rightarrow> 't rep \<Rightarrow> (int \<times> fate option \<times> 't rep) option" where
  "nn_rep_send T m self =
     (case rp_backtrace self of
        None \<Rightarrow> Some (- EFSM, None, self)
      | Some backtrace \<Rightarrow>
          if m_sphdr m \<noteq> [] then None
          else (case nn_xrep_send T (m\<lparr>m_sphdr := backtrace\<rparr>) (rp_xrep self) of
              None \<Rightarrow> None
            | Some (f, x) \<Rightarrow> Some (0, Some f, self\<lparr>rp_xrep := x, rp_backtrace := None\<rparr>)))"

definition nn_rep_recv :: "'t transport \<Rightarrow> 't rep \<Rightarrow> (int \<times> msg option \<times> 't rep) option" where
  "nn_rep_recv T self0 =
     (let self = self0\<lparr>rp_backtrace := None\<rparr> in
      case nn_xrep_recv T (rp_xrep self) of
        None \<Rightarrow> None
      | Some (Received m, x) \<Rightarrow>
          Some (0, Some (m\<lparr>m_sphdr := []\<rparr>), self\<lparr>rp_xrep := x, rp_backtrace := Some (m_sphdr m)\<rparr>)
      | Some (r, x) \<Rightarrow> Some (- EAGAIN, None, self\<lparr>rp_xrep := x\<rparr>))"

end
