(* ===== verification/Nn_Rep_Spec.thy ===== *)
theory Nn_Rep_Spec
  imports Nn_Rep Nn_Req_Spec
begin

text \<open>
  What the replier's socket keeps, and that no operation fails: every pipe a request can come from is in the table under its
  key, keys have the highest bit clear, and a pipe marked as able to send is idle.
\<close>

definition peers :: "'t xrep \<Rightarrow> nat set" where
  "peers x = {p. nn_hash_get (xp_outpipes x) (xp_key x p) = Some p}"

definition keys_ok :: "nat nn_hash \<Rightarrow> (nat \<Rightarrow> u32) \<Rightarrow> bool" where
  "keys_ok h key \<longleftrightarrow> (\<forall>k p. nn_hash_get h k = Some p \<longrightarrow> key p = k \<and> k AND 0x80000000 = 0)"

definition can_send :: "nat set \<Rightarrow> (nat \<Rightarrow> bool) \<Rightarrow> 't net \<Rightarrow> bool" where
  "can_send ps ready n \<longleftrightarrow> (\<forall>p \<in> ps. ready p \<longrightarrow> pb_outstate (n_pipes n p) = IO_IDLE)"

definition xrep_ok :: "'t xrep \<Rightarrow> bool" where
  "xrep_ok x \<longleftrightarrow> fq_ok (xp_inpipes x) (xp_net x) \<and> hash_ok (xp_outpipes x) \<and> active (xp_inpipes x) \<subseteq> peers x \<and>
     keys_ok (xp_outpipes x) (xp_key x) \<and> can_send (peers x) (xp_out x) (xp_net x)"

lemma keys_okD: "keys_ok h key \<Longrightarrow> nn_hash_get h k = Some p \<Longrightarrow> key p = k \<and> k AND 0x80000000 = 0"
  by (simp add: keys_ok_def)

lemma can_sendD: "can_send ps ready n \<Longrightarrow> p \<in> ps \<Longrightarrow> ready p \<Longrightarrow> pb_outstate (n_pipes n p) = IO_IDLE"
  by (simp add: can_send_def)

lemma peers_simps [simp]:
  "peers (x\<lparr>xp_inpipes := fq\<rparr>) = peers x" "peers (x\<lparr>xp_net := n\<rparr>) = peers x" "peers (x\<lparr>xp_out := ready\<rparr>) = peers x"
  by (simp_all add: peers_def)

lemma xrep_init_ok: "xrep_ok (nn_xrep_init k n)"
  by (simp add: xrep_ok_def nn_xrep_init_def fq_ok_def fq_defs priolist_ok_init hash_ok_init get_init peers_def
      keys_ok_def can_send_def)

text \<open>A new pipe; it fails only when its key is taken.\<close>

lemma xrep_add_ok:
  assumes "xrep_ok x" "prio_ok (pb_rcvprio (n_pipes (xp_net x) p))" "p \<notin> peers x"
    and "nn_hash_get (xp_outpipes x) (xp_next_key x AND 0x7fffffff) = None"
  shows "\<exists>x'. nn_xrep_add p x = Some x' \<and> xrep_ok x' \<and> peers x' = insert p (peers x) \<and> xp_net x' = xp_net x \<and>
    active (xp_inpipes x') = active (xp_inpipes x) \<and>
    pl_priority (xp_inpipes x') p = pb_rcvprio (n_pipes (xp_net x) p)"
proof -
  let ?k = "xp_next_key x AND 0x7fffffff"
  have ok: "fq_ok (xp_inpipes x) (xp_net x)" "hash_ok (xp_outpipes x)" "active (xp_inpipes x) \<subseteq> peers x"
    "keys_ok (xp_outpipes x) (xp_key x)" "can_send (peers x) (xp_out x) (xp_net x)"
    using assms(1) by (simp_all add: xrep_ok_def)
  from pipes.put_new [OF ok(2) assms(4), of p] obtain h where
    h: "nn_hash_insert (xp_outpipes x) ?k p = Some h" "hash_ok h" "nn_hash_get h = (nn_hash_get (xp_outpipes x))(?k \<mapsto> p)" by blast
  have n: "nn_hash_get (xp_outpipes x) k \<noteq> Some p" for k using keys_okD [OF ok(4), of k p] assms(3) by (auto simp: peers_def)
  let ?x = "x\<lparr>xp_outpipes := h, xp_key := (xp_key x)(p := ?k), xp_out := (xp_out x)(p := False),
    xp_next_key := xp_next_key x + 1, xp_inpipes := nn_fq_add (xp_inpipes x) p (pb_rcvprio (n_pipes (xp_net x) p))\<rparr>"
  have a: "nn_xrep_add p x = Some ?x" using h(1) assms(2) by (simp add: nn_xrep_add_def prio_ok_def Let_def)
  have pe: "peers ?x = insert p (peers x)"
    using n assms(4) by (auto simp: peers_def h(3))
  have k0: "?k AND 0x80000000 = 0" by (simp add: and.assoc)
  have "p \<notin> active (xp_inpipes x)" using ok(3) assms(3) by blast
  then have act: "fq_ok (xp_inpipes ?x) (xp_net ?x)" "active (xp_inpipes ?x) = active (xp_inpipes x)"
    using ok(1) add_ok [of "xp_inpipes x" p] by (simp_all add: fq_ok_def fq_defs)
  moreover have pr: "pl_priority (xp_inpipes ?x) p = pb_rcvprio (n_pipes (xp_net x) p)"
    by (simp add: fq_defs nn_priolist_add_def)
  moreover have "keys_ok (xp_outpipes ?x) (xp_key ?x)"
    using keys_okD [OF ok(4)] n k0 by (simp add: keys_ok_def h(3))
  moreover have "can_send (peers ?x) (xp_out ?x) (xp_net ?x)"
    unfolding pe using can_sendD [OF ok(5)] by (simp add: can_send_def)
  ultimately have "xrep_ok ?x" unfolding xrep_ok_def pe using ok(3) h(2) by auto
  with a pe act(2) pr show ?thesis by simp
qed

lemma xrep_rm_ok:
  assumes "xrep_ok x" "p \<in> peers x" "known p (xp_inpipes x)"
  shows "\<exists>x'. nn_xrep_rm p x = Some x' \<and> xrep_ok x' \<and> peers x' = peers x - {p} \<and>
    nn_hash_get (xp_outpipes x') = (nn_hash_get (xp_outpipes x))(xp_key x p := None)"
proof -
  have ok: "fq_ok (xp_inpipes x) (xp_net x)" "hash_ok (xp_outpipes x)" "active (xp_inpipes x) \<subseteq> peers x"
    "keys_ok (xp_outpipes x) (xp_key x)" "can_send (peers x) (xp_out x) (xp_net x)"
    using assms(1) by (simp_all add: xrep_ok_def)
  have g: "nn_hash_get (xp_outpipes x) (xp_key x p) \<noteq> None" using assms(2) by (simp add: peers_def)
  from pipes.del_old [OF ok(2) g] obtain h where
    h: "nn_hash_erase (xp_outpipes x) (xp_key x p) = Some h" "hash_ok h"
      "nn_hash_get h = (nn_hash_get (xp_outpipes x))(xp_key x p := None)" by blast
  let ?x = "x\<lparr>xp_inpipes := nn_fq_rm (xp_inpipes x) p, xp_outpipes := h\<rparr>"
  have e: "nn_xrep_rm p x = Some ?x" using h(1) by (simp add: nn_xrep_rm_def)
  have pe: "peers ?x = peers x - {p}" using assms(2) by (auto simp: peers_def h(3))
  have "fq_ok (xp_inpipes ?x) (xp_net ?x)" "active (xp_inpipes ?x) = active (xp_inpipes x) - {p}"
    using ok(1) assms(3) rm_ok [of "xp_inpipes x" p] by (simp_all add: fq_ok_def known_def fq_defs)
  moreover have "keys_ok (xp_outpipes ?x) (xp_key ?x)"
    using keys_okD [OF ok(4)] by (simp add: keys_ok_def h(3))
  moreover have "can_send (peers ?x) (xp_out ?x) (xp_net ?x)"
    unfolding pe using can_sendD [OF ok(5)] by (simp add: can_send_def)
  ultimately have "xrep_ok ?x" unfolding xrep_ok_def pe using ok(3) h(2) by auto
  with e pe h(3) show ?thesis by simp
qed

lemma xrep_in_ok:
  assumes "xrep_ok x" "p \<in> peers x" "known p (xp_inpipes x)" "p \<notin> active (xp_inpipes x)"
    and "pb_instate (n_pipes (xp_net x) p) = IO_IDLE"
  shows "\<exists>x'. nn_xrep_in p x = Some x' \<and> xrep_ok x' \<and> active (xp_inpipes x') = insert p (active (xp_inpipes x)) \<and>
    xp_out x' = xp_out x \<and> xp_net x' = xp_net x"
proof -
  have "fq_ok (xp_inpipes x) (xp_net x)" using assms(1) by (simp add: xrep_ok_def)
  from fq_in_ok [OF this assms(3-5)] obtain fq where
    "nn_fq_in (xp_inpipes x) p = Some fq" "fq_ok fq (xp_net x)" "active fq = insert p (active (xp_inpipes x))" by blast
  then show ?thesis using assms(1,2) by (auto simp: nn_xrep_in_def xrep_ok_def)
qed

lemma xrep_out_ok:
  "xrep_ok x \<Longrightarrow> pb_outstate (n_pipes (xp_net x) p) = IO_IDLE \<Longrightarrow> xrep_ok (nn_xrep_out p x)"
  by (auto simp: xrep_ok_def nn_xrep_out_def can_send_def)

text \<open>
  Sending never fails. A reply whose pipe is there and can send goes out on it; one whose pipe is gone or busy
  is dropped and its memory lost.
\<close>

lemma xrep_send:
  assumes "xrep_ok x" "4 \<le> length (m_sphdr m)"
  shows "case nn_hash_get (xp_outpipes x) (nn_getl (m_sphdr m)) of
      Some p \<Rightarrow> if xp_out x p
        then (\<exists>x'. nn_xrep_send T m x = Some (Sent_on p (m\<lparr>m_sphdr := drop 4 (m_sphdr m)\<rparr>), x') \<and> xrep_ok x')
        else nn_xrep_send T m x = Some (Leaked, x)
    | None \<Rightarrow> nn_xrep_send T m x = Some (Leaked, x)"
proof (cases "nn_hash_get (xp_outpipes x) (nn_getl (m_sphdr m))")
  case None
  then show ?thesis using assms(2) by (simp add: nn_xrep_send_def Let_def)
next
  case (Some p)
  show ?thesis
  proof (cases "xp_out x p")
    case False
    then show ?thesis using Some assms(2) by (simp add: nn_xrep_send_def Let_def)
  next
    case True
    have ok: "keys_ok (xp_outpipes x) (xp_key x)" "can_send (peers x) (xp_out x) (xp_net x)"
      using assms(1) by (simp_all add: xrep_ok_def)
    have "p \<in> peers x" using Some keys_okD [OF ok(1) Some] by (simp add: peers_def)
    with True can_sendD [OF ok(2)] have i: "pb_outstate (n_pipes (xp_net x) p) = IO_IDLE" by blast
    let ?m = "m\<lparr>m_sphdr := drop 4 (m_sphdr m)\<rparr>"
    obtain sync t where s: "t_send T p ?m (n_trans (xp_net x)) = (sync, t)" by (metis surj_pair)
    from pipe_send [OF i s] obtain n' where n': "nn_pipe_send T p ?m (xp_net x) = Some (\<not> sync, n')"
      "pb_outstate (n_pipes n' p) = (if sync then IO_IDLE else IO_ASYNC)"
      "pb_instate (n_pipes n' p) = pb_instate (n_pipes (xp_net x) p)" "\<forall>q. q \<noteq> p \<longrightarrow> n_pipes n' q = n_pipes (xp_net x) q" by blast
    let ?x = "x\<lparr>xp_net := n', xp_out := if \<not> sync then (xp_out x)(p := False) else xp_out x\<rparr>"
    have e: "nn_xrep_send T m x = Some (Sent_on p ?m, ?x)"
      using Some True assms(2) n'(1) by (simp add: nn_xrep_send_def Let_def)
    have "pb_instate (n_pipes n' q) = pb_instate (n_pipes (xp_net x) q)" for q using n'(3,4) by (cases "q = p") simp_all
    then have "fq_ok (xp_inpipes x) n'" using assms(1) fq_ok_cong unfolding xrep_ok_def by blast
    moreover have "pb_outstate (n_pipes n' q) = IO_IDLE" if "q \<in> peers x" "xp_out ?x q" for q
      using that can_sendD [OF ok(2)] n'(2,4) by (cases "q = p") (auto split: if_splits)
    then have "can_send (peers x) (xp_out ?x) n'" by (simp add: can_send_def)
    ultimately have "xrep_ok ?x" using assms(1) by (simp add: xrep_ok_def)
    with e Some True show ?thesis by auto
  qed
qed

lemma xrep_header_bound: "xrep_header d = Some i \<Longrightarrow> 4 * i \<le> length d \<and> 0 < i"
proof (induction d arbitrary: i rule: xrep_header.induct)
  case (1 d)
  then show ?case
    using xrep_header.simps [of d] by (fastforce split: if_splits)
qed

text \<open>The header of a request: a stack of words without the highest bit, and the word with it at the bottom.\<close>

lemma xrep_header_stack:
  assumes "\<forall>w \<in> set ws. w AND 0x80000000 = 0" "b AND 0x80000000 \<noteq> 0"
  shows "xrep_header (concat (map nn_putl ws) @ nn_putl b @ body) = Some (Suc (length ws))"
  using assms
proof (induction ws)
  case Nil
  then show ?case by (simp add: xrep_header.simps [of "nn_putl b @ body"])
next
  case (Cons w ws)
  then show ?case
    by (simp add: xrep_header.simps [of "nn_putl w @ concat (map nn_putl ws) @ nn_putl b @ body"])
qed

lemma xrep_recv:
  assumes "xrep_ok x" "unsplit T"
  shows "active (xp_inpipes x) = {} \<Longrightarrow> nn_xrep_recv T x = Some (Nothing_there, x)"
    and "active (xp_inpipes x) \<noteq> {} \<Longrightarrow> \<exists>p parsed m nxt t r x'.
      t_recv T p (n_trans (xp_net x)) = (parsed, m, nxt, t) \<and> p \<in> best (xp_inpipes x) \<and> p \<in> peers x \<and>
      nn_xrep_split parsed m = Some r \<and> xrep_ok x' \<and> xp_outpipes x' = xp_outpipes x \<and> xp_key x' = xp_key x \<and>
      xp_out x' = xp_out x \<and> pl_priority (xp_inpipes x') = pl_priority (xp_inpipes x) \<and>
      nn_xrep_recv T x = Some (case r of
        Received m' \<Rightarrow> Received (m'\<lparr>m_sphdr := nn_putl (xp_key x p) @ m_sphdr m'\<rparr>) | _ \<Rightarrow> r, x')"
proof -
  have ok: "fq_ok (xp_inpipes x) (xp_net x)" "active (xp_inpipes x) \<subseteq> peers x"
    using assms(1) by (simp_all add: xrep_ok_def)
  show "nn_xrep_recv T x = Some (Nothing_there, x)" if "active (xp_inpipes x) = {}"
    using fq_recv(1) [OF ok(1) that, of T] by (simp add: nn_xrep_recv_def)
  assume ne: "active (xp_inpipes x) \<noteq> {}"
  from fq_recv(2) [OF ok(1) ne, of T] obtain p parsed m nxt t fq' n' where
    f: "nn_fq_recv T (xp_inpipes x) (xp_net x) = Some (Some (p, parsed, m), fq', n')" "p \<in> best (xp_inpipes x)"
      "t_recv T p (n_trans (xp_net x)) = (parsed, m, nxt, t)" "fq_ok fq' n'"
      "active fq' = (if nxt then active (xp_inpipes x) else active (xp_inpipes x) - {p})"
      "\<forall>q. pb_outstate (n_pipes n' q) = pb_outstate (n_pipes (xp_net x) q)"
      "pl_priority fq' = pl_priority (xp_inpipes x)" by blast
  have "parsed \<or> m_sphdr m = []" using assms(2) f(3) unfolding unsplit_def by blast
  then obtain r where r: "nn_xrep_split parsed m = Some r"
    by (cases parsed; cases "xrep_header (m_body m)") (auto simp: nn_xrep_split_def)
  let ?x = "x\<lparr>xp_inpipes := fq', xp_net := n'\<rparr>"
  have "can_send (peers x) (xp_out x) n'" using assms(1) f(6) by (simp add: xrep_ok_def can_send_def)
  then have "xrep_ok ?x" using assms(1) f(4,5) ok(2) by (auto simp: xrep_ok_def split: if_splits)
  moreover have "p \<in> peers x" using f(2) ok(2) by (auto simp: best_def)
  moreover have "nn_xrep_recv T x = Some (case r of
      Received m' \<Rightarrow> Received (m'\<lparr>m_sphdr := nn_putl (xp_key x p) @ m_sphdr m'\<rparr>) | _ \<Rightarrow> r, ?x)"
    using f(1) r by (cases r) (simp_all add: nn_xrep_recv_def Let_def)
  ultimately show "\<exists>p parsed m nxt t r x'.
      t_recv T p (n_trans (xp_net x)) = (parsed, m, nxt, t) \<and> p \<in> best (xp_inpipes x) \<and> p \<in> peers x \<and>
      nn_xrep_split parsed m = Some r \<and> xrep_ok x' \<and> xp_outpipes x' = xp_outpipes x \<and> xp_key x' = xp_key x \<and>
      xp_out x' = xp_out x \<and> pl_priority (xp_inpipes x') = pl_priority (xp_inpipes x) \<and>
      nn_xrep_recv T x = Some (case r of
        Received m' \<Rightarrow> Received (m'\<lparr>m_sphdr := nn_putl (xp_key x p) @ m_sphdr m'\<rparr>) | _ \<Rightarrow> r, x')"
    using f(2,3,7) r by (intro exI [of _ p] exI [of _ parsed] exI [of _ m] exI [of _ nxt] exI [of _ t] exI [of _ r]
        exI [of _ ?x]) simp
qed

section \<open>One exchange\<close>

text \<open>
  How a message goes from one side to the other: a stream carries the header and the body one after the other, and the other
  side gets them in one piece; within a process they stay apart.
\<close>

definition carried :: "bool \<Rightarrow> msg \<Rightarrow> msg" where
  "carried parsed m = (if parsed then m else \<lparr>m_sphdr = [], m_body = m_sphdr m @ m_body m\<rparr>)"

text \<open>The tag of a request, with the highest bit set.\<close>

definition tag :: "u32 \<Rightarrow> bytes" where
  "tag i = nn_putl (i OR 0x80000000)"

lemma tag_simps [simp]: "length (tag i) = 4" "nn_getl (tag i @ r) = i OR 0x80000000"
  "nn_getl (tag i) = i OR 0x80000000"
  using get_put(2) [of "i OR 0x80000000" "[]"] by (simp_all add: tag_def)

lemma top_bit: "(i OR 0x80000000 :: u32) AND 0x80000000 \<noteq> 0"
proof -
  have "bit ((i OR 0x80000000 :: u32) AND 0x80000000) 31"
    by (simp add: bit_simps)
  then show ?thesis by (metis bit_0_eq bot_apply bot_bool_def)
qed

lemma split_request:
  "nn_xrep_split parsed (carried parsed \<lparr>m_sphdr = tag i, m_body = b\<rparr>) = Some (Received \<lparr>m_sphdr = tag i, m_body = b\<rparr>)"
  using top_bit [of i]
  by (simp add: nn_xrep_split_def carried_def xrep_header.simps [of "tag i @ b"])

lemma split_reply:
  "nn_xreq_split parsed (carried parsed \<lparr>m_sphdr = tag i, m_body = b\<rparr>) = Some (Received \<lparr>m_sphdr = tag i, m_body = b\<rparr>)"
  by (simp add: nn_xreq_split_def carried_def)

text \<open>The request comes out of the replier's socket as it went into the requester's, and the socket knows the way back.\<close>

lemma rep_recv_request:
  assumes "xrep_ok (rp_xrep q)" "unsplit T" "active (xp_inpipes (rp_xrep q)) = {p}"
    and "t_recv T p (n_trans (xp_net (rp_xrep q))) = (parsed, carried parsed \<lparr>m_sphdr = tag i, m_body = b\<rparr>, nxt, t)"
  shows "\<exists>x. nn_rep_recv T q = Some (0, Some \<lparr>m_sphdr = [], m_body = b\<rparr>,
      q\<lparr>rp_xrep := x, rp_backtrace := Some (nn_putl (xp_key (rp_xrep q) p) @ tag i)\<rparr>) \<and>
    xrep_ok x \<and> xp_out x = xp_out (rp_xrep q) \<and>
    nn_hash_get (xp_outpipes x) (xp_key (rp_xrep q) p) = Some p \<and> xp_key x = xp_key (rp_xrep q) \<and>
    pl_priority (xp_inpipes x) = pl_priority (xp_inpipes (rp_xrep q))"
proof -
  have "active (xp_inpipes (rp_xrep q)) \<noteq> {}" using assms(3) by simp
  from xrep_recv(2) [OF assms(1,2) this] obtain p' parsed' m nxt' t' r x where
    x: "t_recv T p' (n_trans (xp_net (rp_xrep q))) = (parsed', m, nxt', t')" "p' \<in> best (xp_inpipes (rp_xrep q))"
      "p' \<in> peers (rp_xrep q)" "nn_xrep_split parsed' m = Some r" "xrep_ok x" "xp_outpipes x = xp_outpipes (rp_xrep q)"
      "xp_out x = xp_out (rp_xrep q)" "xp_key x = xp_key (rp_xrep q)"
      "pl_priority (xp_inpipes x) = pl_priority (xp_inpipes (rp_xrep q))"
      "nn_xrep_recv T (rp_xrep q) = Some (case r of
        Received m' \<Rightarrow> Received (m'\<lparr>m_sphdr := nn_putl (xp_key (rp_xrep q) p') @ m_sphdr m'\<rparr>) | _ \<Rightarrow> r, x)" by blast
  have p: "p' = p" using x(2) assms(3) by (simp add: best_def)
  have "parsed' = parsed" "m = carried parsed \<lparr>m_sphdr = tag i, m_body = b\<rparr>"
    using x(1) assms(4) unfolding p by auto
  then have "r = Received \<lparr>m_sphdr = tag i, m_body = b\<rparr>"
    using x(4) split_request [of parsed i b] by simp
  then show ?thesis
    using x(3,5-10) p by (intro exI [of _ x]) (simp add: nn_rep_recv_def peers_def Let_def)
qed

text \<open>The reply goes out on the pipe the request came from, with the tag of the request.\<close>

lemma rep_send_reply:
  assumes "xrep_ok x" "rp_xrep q = x" "rp_backtrace q = Some (nn_putl key @ tag i)"
    and "nn_hash_get (xp_outpipes x) key = Some p" "xp_out x p"
  shows "\<exists>x'. nn_rep_send T \<lparr>m_sphdr = [], m_body = c\<rparr> q =
      Some (0, Some (Sent_on p \<lparr>m_sphdr = tag i, m_body = c\<rparr>), q\<lparr>rp_xrep := x', rp_backtrace := None\<rparr>) \<and> xrep_ok x'"
  using xrep_send [OF assms(1), of "\<lparr>m_sphdr = nn_putl key @ tag i, m_body = c\<rparr>" T] assms(2-5)
  by (auto simp: nn_rep_send_def)

end
