(* ===== verification/Nn_Req_Props.thy ===== *)
theory Nn_Req_Props
  imports Nn_Rep_Spec
begin

text \<open>
  The properties of the request/reply sockets that the client and the server of the file system talk through.
\<close>

section \<open>Sockets with one pipe\<close>

text \<open>
  For the concrete instances below: a transport that holds the messages that are to come, and the queues with one
  active pipe.
\<close>

definition list_transport :: "msg list transport" where
  "list_transport =
     \<lparr>t_send = (\<lambda>p m ms. (True, ms)),
      t_recv = (\<lambda>p ms. case ms of [] \<Rightarrow> (True, empty_msg, False, [])
        | m # ms \<Rightarrow> (False, m\<lparr>m_sphdr := []\<rparr>, ms \<noteq> [], ms))\<rparr>"

lemma list_transport: "unsplit list_transport" "drains list_transport length"
  by (auto simp: unsplit_def drains_def list_transport_def split: list.splits)

definition idle_net :: "msg list \<Rightarrow> msg list net" where
  "idle_net ms = \<lparr>n_pipes = (\<lambda>_. (nn_pipebase_init 1 1)\<lparr>pb_instate := IO_IDLE, pb_outstate := IO_IDLE\<rparr>), n_trans = ms\<rparr>"

definition one_pipe :: nn_priolist where
  "one_pipe = the (nn_priolist_activate (nn_priolist_add nn_priolist_init 7 1) 7)"

lemma one_pipe: "priolist_ok one_pipe" "active one_pipe = {7}"
proof -
  have a: "priolist_ok (nn_priolist_add nn_priolist_init 7 1)" "active (nn_priolist_add nn_priolist_init 7 1) = {}"
    using add_ok [OF priolist_ok_init, of 7 1] by simp_all
  from activate_ok [OF a(1), of 7] a(2) show "priolist_ok one_pipe" "active one_pipe = {7}"
    by (auto simp: one_pipe_def nn_priolist_add_def NN_PRIOLIST_SLOTS_def)
qed

lemma one_pipe_ok: "fq_ok one_pipe (idle_net ms)" "lb_ok one_pipe (idle_net ms)"
  using one_pipe by (simp_all add: fq_ok_def lb_ok_def idle_net_def)

text \<open>Receiving on the only active pipe.\<close>

lemma xreq_recv_one:
  assumes "fq_ok (xq_fq x) (xq_net x)" "active (xq_fq x) = {p}"
    and "t_recv T p (n_trans (xq_net x)) = (parsed, m, nxt, t)" "nn_xreq_split parsed m = Some r"
  shows "\<exists>fq n. nn_xreq_recv T x = Some (r, x\<lparr>xq_fq := fq, xq_net := n\<rparr>) \<and> n_trans n = t \<and> fq_ok fq n \<and>
    active fq = (if nxt then {p} else {})"
proof -
  have "active (xq_fq x) \<noteq> {}" using assms(2) by simp
  from fq_recv(2) [OF assms(1) this, of T] obtain p' parsed' m' nxt' t' fq n where
    f: "nn_fq_recv T (xq_fq x) (xq_net x) = Some (Some (p', parsed', m'), fq, n)" "p' \<in> best (xq_fq x)"
      "t_recv T p' (n_trans (xq_net x)) = (parsed', m', nxt', t')" "n_trans n = t'" "fq_ok fq n"
      "active fq = (if nxt' then active (xq_fq x) else active (xq_fq x) - {p'})" by blast
  have p: "p' = p" using f(2) assms(2) by (simp add: best_def)
  have e: "parsed' = parsed" "m' = m" "nxt' = nxt" "t' = t" using f(3) assms(3) unfolding p by simp_all
  show ?thesis
    using f(1,4-6) assms(2,4) unfolding e p by (intro exI [of _ fq] exI [of _ n]) (simp add: nn_xreq_recv_def)
qed

text \<open>A requester with one pipe, in a state.\<close>

definition one_peer :: "req_state \<Rightarrow> msg list \<Rightarrow> msg list req" where
  "one_peer st ms =
     (nn_req_init 3 (idle_net ms))\<lparr>rq_xreq := \<lparr>xq_lb = one_pipe, xq_fq = one_pipe, xq_net = idle_net ms, xq_snd_priority = 1\<rparr>, rq_state := st,
        rq_timer := \<lparr>tm_fsm = timer_of st, tm_state = timer_of st, tm_timeout = - 1\<rparr>,
        rq_sent_to := if st = REQ_ACTIVE then Some 7 else None\<rparr>"

lemma one_peer_ok: "st \<noteq> REQ_IDLE \<Longrightarrow> st \<noteq> REQ_STOPPING \<Longrightarrow> req_ok (one_peer st ms)"
  using one_pipe_ok by (simp add: one_peer_def req_ok_def req_base_def timer_is_def xreq_ok_def nn_req_init_def
      NN_REQ_DEFAULT_RESEND_IVL_def)

section \<open>Safety\<close>

text \<open>
  C21: In every state of the requester's socket that is reached by what the user, the pipes, the timer and the stopping of
  the socket do, whatever can happen next returns: no assertion fails, the state machine gets no event that it has no case for, and the
  loop over the replies ends. The timer runs exactly while a request is out, and the socket knows the pipe of that request;
  a socket that is being stopped is idle when its timer has been stopped.

  The conditions are that the re-send interval is never set to a negative value
  (\<open>negative_interval_aborts\<close> below shows what happens then), that nothing but the timer comes once the socket is being stopped, and
  the contract of the transport: an unsplit message has no header, and there are finitely many messages to receive.
\<close>

theorem requester_never_aborts:
  assumes "req_reach T r" "unsplit T" "drains T avail" "enabled op r"
  shows "(\<exists>r'. req_do T op r = Some r') \<and>
    (tm_fsm (rq_timer r) = FSM_ACTIVE \<longleftrightarrow> rq_state r = REQ_ACTIVE) \<and>
    (rq_fsm r = FSM_ACTIVE \<longrightarrow> (rq_sent_to r \<noteq> None \<longleftrightarrow> rq_state r = REQ_ACTIVE)) \<and>
    (rq_fsm r = FSM_STOPPING \<longrightarrow> (\<exists>r'. req_do T (Op_timer TIMER_STOP_TASK) r = Some r' \<and> rq_fsm r' = FSM_IDLE))"
proof (intro conjI impI)
  have ok: "req_ok r \<or> req_ending r" by (rule req_reach_ok [OF assms(1-3)])
  show "\<exists>r'. req_do T op r = Some r'" using req_do_ok [OF ok assms(4,2,3)] by blast
  show "tm_fsm (rq_timer r) = FSM_ACTIVE \<longleftrightarrow> rq_state r = REQ_ACTIVE"
    using ok req_ok_timer [of r] by (auto simp: req_ending_def timer_is_def)
  show "rq_sent_to r \<noteq> None \<longleftrightarrow> rq_state r = REQ_ACTIVE" if "rq_fsm r = FSM_ACTIVE"
    using ok that by (auto simp: req_ending_def req_ok_def)
  show "\<exists>r'. req_do T (Op_timer TIMER_STOP_TASK) r = Some r' \<and> rq_fsm r' = FSM_IDLE" if "rq_fsm r = FSM_STOPPING"
    using ok that by (auto simp: req_ending_def req_ok_def req_base_def timer_is_def req_timer_def nn_timer_feed_def
        nn_timer_shutdown_def req_feed_def nn_req_shutdown_def nn_timer_isidle_def Let_def)
qed

text \<open>A socket whose interval is set to one second, with a request that has to wait, is stopped.\<close>

theorem requester_never_aborts_witness:
  "\<exists>r1 r2 r3. req_do list_transport (Op_setopt NN_REQ NN_REQ_RESEND_IVL 1000 4) (nn_req_init 3 (idle_net [])) = Some r1 \<and>
     req_do list_transport (Op_send empty_msg) r1 = Some r2 \<and> req_do list_transport Op_stop r2 = Some r3"
proof -
  let ?r0 = "nn_req_init 3 (idle_net [])"
  note P = requester_never_aborts [OF _ list_transport]
  have e0: "enabled (Op_setopt NN_REQ NN_REQ_RESEND_IVL 1000 4) ?r0" by (simp add: nn_req_init_def req_open_def)
  from P [OF req_reach.init this] obtain r1 where
    r1: "req_do list_transport (Op_setopt NN_REQ NN_REQ_RESEND_IVL 1000 4) ?r0 = Some r1" by blast
  have R1: "req_reach list_transport r1" by (rule req_reach.step [OF req_reach.init e0 r1])
  have "rq_fsm r1 = FSM_ACTIVE" using r1 by (auto simp: nn_req_setopt_def nn_req_init_def)
  then have e1: "enabled (Op_send empty_msg) r1" by (simp add: req_open_def empty_msg_def)
  from P [OF R1 e1] obtain r2 where r2: "req_do list_transport (Op_send empty_msg) r1 = Some r2" by blast
  have R2: "req_reach list_transport r2" by (rule req_reach.step [OF R1 e1 r2])
  have "enabled Op_stop r2" by simp
  from P [OF R2 this] r1 r2 show ?thesis by blast
qed

section \<open>One exchange\<close>

text \<open>The messages that a transport has for a requester.\<close>

definition req_arrive :: "'t \<Rightarrow> 't req \<Rightarrow> 't req" where
  "req_arrive t r = r\<lparr>rq_xreq := (rq_xreq r)\<lparr>xq_net := (xq_net (rq_xreq r))\<lparr>n_trans := t\<rparr>\<rparr>\<rparr>"

lemma req_arrive_ok: "req_ok r \<Longrightarrow> req_ok (req_arrive t r)"
  unfolding req_arrive_def
  by (rule req_ok_put(1)) (use req_ok_xreq in \<open>auto simp: xreq_ok_def fq_ok_def lb_ok_def\<close>)

lemma req_arrive_simps [simp]: "rq_state (req_arrive t r) = rq_state r" "rq_id (req_arrive t r) = rq_id r"
  "xq_fq (rq_xreq (req_arrive t r)) = xq_fq (rq_xreq r)" "pipe_at (req_arrive t r) p = pipe_at r p"
  "n_trans (xq_net (rq_xreq (req_arrive t r))) = t"
  by (simp_all add: req_arrive_def)

text \<open>A request goes out, to a peer of the best priority, under a new identifier.\<close>

lemma request_goes_out:
  assumes "req_ok r" "rq_state r = REQ_PASSIVE" "active (xq_lb (rq_xreq r)) \<noteq> {}"
  shows "\<exists>p r1. nn_req_csend T \<lparr>m_sphdr = [], m_body = b\<rparr> r = Some r1 \<and> req_ok r1 \<and> rq_state r1 = REQ_ACTIVE \<and>
    rq_id r1 = rq_id r + 1 \<and> p \<in> best (xq_lb (rq_xreq r)) \<and> rq_sent_to r1 = Some p \<and>
    n_trans (xq_net (rq_xreq r1)) =
      snd (t_send T p \<lparr>m_sphdr = tag (rq_id r + 1), m_body = b\<rparr> (n_trans (xq_net (rq_xreq r)))) \<and>
    xq_fq (rq_xreq r1) = xq_fq (rq_xreq r) \<and> (\<forall>q. pb_instate (pipe_at r1 q) = pb_instate (pipe_at r q))"
proof -
  let ?r = "r\<lparr>rq_id := rq_id r + 1, rq_request := \<lparr>m_sphdr = tag (rq_id r + 1), m_body = b\<rparr>\<rparr>"
  have "req_ok ?r" using assms(1) req_ok_put(4,5) by blast
  then have b: "req_base ?r" "timer_is FSM_IDLE ?r" "rq_sent_to ?r = None" "rq_fsm ?r = FSM_ACTIVE"
    using assms(2) by (simp_all add: req_ok_def req_base_def)
  have e: "nn_req_csend T \<lparr>m_sphdr = [], m_body = b\<rparr> r = nn_req_action_send T True ?r"
    using assms(2) b(4) by (simp add: nn_req_csend_def req_feed_def req_states tag_def Let_def)
  from action_send [OF b(1-3), of True T] assms(3) show ?thesis unfolding e by auto
qed

text \<open>
  From the acceptance of a reply to its delivery. When the first reply that can be received is accepted while the request is out,
  the timer is stopped, and as soon as it is the user gets the body of that reply, and the socket is free for
  the next request.
\<close>

theorem accepted_reply_is_delivered:
  assumes "req_ok r" "rq_state r = REQ_ACTIVE" "nn_xreq_recv T (rq_xreq r) = Some (Received m, x)" "req_accepts r m"
  shows "\<exists>r1 r2 r3. req_in_loop T r = Some (Some r1) \<and> rq_state r1 = REQ_STOPPING_TIMER \<and>
    req_timer T TIMER_STOP_TASK r1 = Some r2 \<and>
    nn_req_crecv T r2 = Some (0, Some (m\<lparr>m_sphdr := []\<rparr>, True), r3) \<and> rq_state r3 = REQ_PASSIVE"
proof -
  let ?r0 = "r\<lparr>rq_xreq := x, rq_live := True, rq_reply := m\<lparr>m_sphdr := []\<rparr>\<rparr>"
  let ?r1 = "stop_timer REQ_STOPPING_TIMER ?r0"
  have b: "rq_fsm r = FSM_ACTIVE" "tm_fsm (rq_timer r) = FSM_ACTIVE" "tm_state (rq_timer r) = FSM_ACTIVE"
    using assms(1,2) by (simp_all add: req_ok_def req_base_def timer_is_def)
  have "req_accepts (put_received (Received m) x r) m"
    using assms(4) by (simp add: req_accepts_def put_received_def nn_req_inprogress_def)
  then have l: "req_in_loop T r = Some (Some ?r1)"
    using assms(2,3) b(1)
    by (simp add: req_in_loop.simps [of T r] put_received_def malformed_def Let_def req_feed_def req_states)
  let ?r2 = "?r1\<lparr>rq_timer := (rq_timer ?r1)\<lparr>tm_state := FSM_IDLE, tm_fsm := FSM_IDLE\<rparr>, rq_state := REQ_DONE\<rparr>"
  have t: "req_timer T TIMER_STOP_TASK ?r1 = Some ?r2"
    using b by (simp add: req_timer_def nn_timer_feed_def nn_timer_shutdown_def stop_timer_def nn_timer_stop_def
        req_feed_def req_states)
  have "\<exists>r3. nn_req_crecv T ?r2 = Some (0, Some (m\<lparr>m_sphdr := []\<rparr>, True), r3) \<and> rq_state r3 = REQ_PASSIVE"
    using b(1) by (simp add: nn_req_crecv_def nn_req_inprogress_def req_feed_def req_states stop_timer_def)
  moreover have "rq_state ?r1 = REQ_STOPPING_TIMER" by (simp add: stop_timer_def)
  ultimately show ?thesis using l t by blast
qed

theorem accepted_reply_is_delivered_witness:
  "\<exists>r1 r2 r3. req_in_loop list_transport (one_peer REQ_ACTIVE [\<lparr>m_sphdr = [], m_body = tag 3 @ [5]\<rparr>]) = Some (Some r1) \<and>
     req_timer list_transport TIMER_STOP_TASK r1 = Some r2 \<and>
     nn_req_crecv list_transport r2 = Some (0, Some (\<lparr>m_sphdr = [], m_body = [5]\<rparr>, True), r3)"
proof -
  let ?r = "one_peer REQ_ACTIVE [\<lparr>m_sphdr = [], m_body = tag 3 @ [5]\<rparr>]"
  let ?m = "\<lparr>m_sphdr = tag 3, m_body = [5]\<rparr>"
  have a: "fq_ok (xq_fq (rq_xreq ?r)) (xq_net (rq_xreq ?r))" "active (xq_fq (rq_xreq ?r)) = {7}"
    using one_pipe one_pipe_ok by (simp_all add: one_peer_def)
  have b: "t_recv list_transport 7 (n_trans (xq_net (rq_xreq ?r))) = (False, carried False ?m, False, [])"
    by (simp add: one_peer_def idle_net_def list_transport_def carried_def)
  from xreq_recv_one [OF a b split_reply] obtain x where
    x: "nn_xreq_recv list_transport (rq_xreq ?r) = Some (Received ?m, x)" by blast
  have c: "req_accepts ?r ?m"
    using top_bit [of 3] by (simp add: req_accepts_def one_peer_def nn_req_init_def nn_req_inprogress_def)
  have s: "rq_state ?r = REQ_ACTIVE" by (simp add: one_peer_def)
  have "req_ok ?r" by (rule one_peer_ok) simp_all
  from accepted_reply_is_delivered [OF this s x c] show ?thesis by auto
qed

text \<open>The reply to the request that is out arrives, and reaches the user.\<close>

lemma reply_comes_in:
  assumes "req_ok r" "rq_state r = REQ_ACTIVE" "active (xq_fq (rq_xreq r)) = {}" "known p (xq_fq (rq_xreq r))"
    and "pb_instate (pipe_at r p) = IO_ASYNC"
    and "t_recv T p (n_trans (xq_net (rq_xreq r))) = (parsed, carried parsed \<lparr>m_sphdr = tag (rq_id r), m_body = c\<rparr>, nxt, t)"
  shows "\<exists>r1 r2 r3. req_do T (Op_in p) r = Some r1 \<and> req_timer T TIMER_STOP_TASK r1 = Some r2 \<and>
    nn_req_crecv T r2 = Some (0, Some (\<lparr>m_sphdr = [], m_body = c\<rparr>, True), r3) \<and> rq_state r3 = REQ_PASSIVE"
proof -
  define pb where "pb = (pipe_at r p)\<lparr>pb_instate := IO_IDLE, pb_in := True\<rparr>"
  let ?m = "\<lparr>m_sphdr = tag (rq_id r), m_body = c\<rparr>"
  let ?r = "put_pb p pb r"
  have rc: "nn_pipebase_received (pipe_at r p) = Some pb" using assms(5) by (simp add: nn_pipebase_received_def pb_def)
  have ok: "req_ok ?r" by (rule put_pb_ok [OF assms(1)]) (use assms(3) in \<open>simp_all add: pb_def\<close>)
  have at: "pb_instate (pipe_at ?r p) = IO_IDLE" "xq_fq (rq_xreq ?r) = xq_fq (rq_xreq r)" "rq_state ?r = rq_state r"
    "rq_id ?r = rq_id r" "n_trans (xq_net (rq_xreq ?r)) = n_trans (xq_net (rq_xreq r))"
    by (simp_all add: put_pb_def put_pipe_def pb_def)
  have x: "fq_ok (xq_fq (rq_xreq r)) (xq_net (rq_xreq ?r))" "lb_ok (xq_lb (rq_xreq ?r)) (xq_net (rq_xreq ?r))"
    using req_ok_xreq [OF ok] at(2) by (simp_all add: xreq_ok_def)
  have na: "p \<notin> active (xq_fq (rq_xreq r))" using assms(3) by simp
  from fq_in_ok [OF x(1) assms(4) na at(1)] obtain fq where
    fq: "nn_fq_in (xq_fq (rq_xreq r)) p = Some fq" "fq_ok fq (xq_net (rq_xreq ?r))" "active fq = {p}"
    using assms(3) by auto
  let ?x = "(rq_xreq ?r)\<lparr>xq_fq := fq\<rparr>"
  let ?r' = "?r\<lparr>rq_xreq := ?x\<rparr>"
  have ok': "req_ok ?r'" by (rule req_ok_put(1) [OF ok]) (use fq(2) x(2) in \<open>simp add: xreq_ok_def\<close>)
  have f: "fq_ok (xq_fq ?x) (xq_net ?x)" "active (xq_fq ?x) = {p}"
    "t_recv T p (n_trans (xq_net ?x)) = (parsed, carried parsed ?m, nxt, t)" using fq(2,3) assms(6) at(5) by simp_all
  from xreq_recv_one [OF f split_reply] obtain y where
    y: "nn_xreq_recv T (rq_xreq ?r') = Some (Received ?m, y)" by auto
  have st: "rq_state ?r' = REQ_ACTIVE" using assms(2) at(3) by simp
  have "req_accepts ?r' ?m"
    using top_bit [of "rq_id r"] st at(4) by (simp add: req_accepts_def nn_req_inprogress_def)
  from accepted_reply_is_delivered [OF ok' st y this] show ?thesis
    using rc fq(1) at(2) by (auto simp: nn_req_in_def nn_xreq_in_def)
qed

text \<open>
  C22: A request that gets no reply is sent again: after the timeout, and when the timer has stopped, the same message goes to the best
  peer there is, under the same identifier, and the timer runs again; without a peer the request waits for one.
\<close>

theorem unanswered_request_is_sent_again:
  assumes "req_ok r" "rq_state r = REQ_ACTIVE" "tm_timeout (rq_timer r) = - 1"
  shows "\<exists>r1 r2. req_timer T TIMER_WORKER_TIMEOUT r = Some r1 \<and> req_timer T TIMER_STOP_TASK r1 = Some r2 \<and>
    rq_id r2 = rq_id r \<and> rq_request r2 = rq_request r \<and>
    (if active (xq_lb (rq_xreq r)) = {} then rq_state r2 = REQ_DELAYED
     else rq_state r2 = REQ_ACTIVE \<and> (\<exists>p \<in> best (xq_lb (rq_xreq r)). rq_sent_to r2 = Some p \<and>
       n_trans (xq_net (rq_xreq r2)) = snd (t_send T p (rq_request r) (n_trans (xq_net (rq_xreq r))))))"
proof -
  let ?r1 = "stop_timer REQ_TIMED_OUT r"
  let ?r = "?r1\<lparr>rq_timer := (rq_timer ?r1)\<lparr>tm_state := FSM_IDLE, tm_fsm := FSM_IDLE\<rparr>\<rparr>"
  have b: "req_base r" "rq_fsm r = FSM_ACTIVE" "tm_fsm (rq_timer r) = FSM_ACTIVE" "tm_state (rq_timer r) = FSM_ACTIVE"
    using assms(1,2) by (simp_all add: req_ok_def req_base_def timer_is_def)
  have t1: "req_timer T TIMER_WORKER_TIMEOUT r = Some ?r1"
    using assms(2,3) b(2-4) by (simp add: req_timer_def nn_timer_feed_def nn_timer_handler_def req_feed_def req_states)
  have "req_base ?r" "timer_is FSM_IDLE ?r" "rq_sent_to ?r = None"
    using b(1) by (simp_all add: req_base_def timer_is_def stop_timer_def)
  from action_send [OF this, of True T] obtain r2 where
    r2: "nn_req_action_send T True ?r = Some r2" "rq_request r2 = rq_request ?r" "rq_id r2 = rq_id ?r"
      "rq_state r2 = (if active (xq_lb (rq_xreq ?r)) = {} then REQ_DELAYED else REQ_ACTIVE)"
      "active (xq_lb (rq_xreq ?r)) \<noteq> {} \<longrightarrow> (\<exists>p \<in> best (xq_lb (rq_xreq ?r)). rq_sent_to r2 = Some p \<and>
        n_trans (xq_net (rq_xreq r2)) = snd (t_send T p (rq_request ?r) (n_trans (xq_net (rq_xreq ?r)))))" by blast
  have x: "rq_xreq ?r = rq_xreq r" "rq_request ?r = rq_request r" "rq_id ?r = rq_id r" by (simp_all add: stop_timer_def)
  have "req_timer T TIMER_STOP_TASK ?r1 = nn_req_action_send T True ?r"
    using b(2-4) by (simp add: req_timer_def nn_timer_feed_def nn_timer_shutdown_def stop_timer_def nn_timer_stop_def
        req_feed_def req_states)
  with t1 r2 show ?thesis unfolding x by auto
qed

theorem unanswered_request_is_sent_again_witness:
  "\<exists>r1 r2. req_timer list_transport TIMER_WORKER_TIMEOUT (one_peer REQ_ACTIVE []) = Some r1 \<and>
     req_timer list_transport TIMER_STOP_TASK r1 = Some r2 \<and> rq_state r2 = REQ_ACTIVE"
proof -
  have "req_ok (one_peer REQ_ACTIVE [])" by (rule one_peer_ok) simp_all
  moreover have "rq_state (one_peer REQ_ACTIVE []) = REQ_ACTIVE" "tm_timeout (rq_timer (one_peer REQ_ACTIVE [])) = - 1"
    "active (xq_lb (rq_xreq (one_peer REQ_ACTIVE []))) \<noteq> {}"
    using one_pipe(2) by (simp_all add: one_peer_def)
  ultimately show ?thesis
    using unanswered_request_is_sent_again [of "one_peer REQ_ACTIVE []" list_transport] by auto
qed

section \<open>Where the code departs\<close>

text \<open>
  A reply that is there but not fetched yet is lost when a stale one comes: it is stored over the good one before its identifier
  is looked at, and stays there. The user then gets the stale message, which was given up.
\<close>

theorem stale_reply_replaces_the_good_one:
  assumes "rq_fsm r = FSM_ACTIVE" "rq_state r = REQ_DONE" "nn_xreq_recv T (rq_xreq r) = Some (Received m, x)"
    and "nn_getl (m_sphdr m) \<noteq> rq_id r OR 0x80000000" "nn_xreq_recv T x = Some (Nothing_there, x)"
  shows "\<exists>r1 r2. req_in_loop T r = Some (Some r1) \<and> rq_state r1 = REQ_DONE \<and>
    nn_req_crecv T r1 = Some (0, Some (m, False), r2)"
proof -
  let ?r1 = "r\<lparr>rq_xreq := x, rq_reply := m, rq_live := False\<rparr>"
  have "req_in_loop T r = req_in_loop T ?r1"
    using assms(3,4) by (simp add: req_in_loop.simps [of T r] put_received_def malformed_def Let_def req_accepts_def)
  also have "\<dots> = Some (Some ?r1)"
    using assms(5) by (simp add: req_in_loop.simps [of T ?r1] put_received_def Let_def)
  finally show ?thesis
    using assms(1,2) by (simp add: nn_req_crecv_def nn_req_inprogress_def req_feed_def req_states)
qed

theorem stale_reply_replaces_the_good_one_witness:
  "\<exists>r1 r2. req_in_loop list_transport (one_peer REQ_DONE [\<lparr>m_sphdr = [], m_body = tag 2 @ [9]\<rparr>]) = Some (Some r1) \<and>
     nn_req_crecv list_transport r1 = Some (0, Some (\<lparr>m_sphdr = tag 2, m_body = [9]\<rparr>, False), r2)"
proof -
  let ?r = "one_peer REQ_DONE [\<lparr>m_sphdr = [], m_body = tag 2 @ [9]\<rparr>]"
  let ?m = "\<lparr>m_sphdr = tag 2, m_body = [9]\<rparr>"
  have a: "fq_ok (xq_fq (rq_xreq ?r)) (xq_net (rq_xreq ?r))" "active (xq_fq (rq_xreq ?r)) = {7}"
    using one_pipe one_pipe_ok by (simp_all add: one_peer_def)
  have b: "t_recv list_transport 7 (n_trans (xq_net (rq_xreq ?r))) = (False, carried False ?m, False, [])"
    by (simp add: one_peer_def idle_net_def list_transport_def carried_def)
  from xreq_recv_one [OF a b split_reply] obtain fq n where
    x: "nn_xreq_recv list_transport (rq_xreq ?r) = Some (Received ?m, (rq_xreq ?r)\<lparr>xq_fq := fq, xq_net := n\<rparr>)"
      "active fq = (if False then {7} else {})" "fq_ok fq n" by blast
  have none: "active fq = {}" using x(2) by simp
  let ?x = "(rq_xreq ?r)\<lparr>xq_fq := fq, xq_net := n\<rparr>"
  have "nn_xreq_recv list_transport ?x = Some (Nothing_there, ?x)"
    using fq_recv(1) [OF x(3) none, of list_transport] by (simp add: nn_xreq_recv_def)
  moreover have "rq_fsm ?r = FSM_ACTIVE" "rq_state ?r = REQ_DONE" "nn_getl (m_sphdr ?m) \<noteq> rq_id ?r OR 0x80000000"
    by (simp_all add: one_peer_def nn_req_init_def)
  ultimately show ?thesis using stale_reply_replaces_the_good_one [OF _ _ x(1)] by blast
qed

text \<open>
  The option of the re-send interval takes any integer; with a negative one the next request that can be sent fails the assertion in
  the timer and ends the process.
\<close>

theorem negative_interval_aborts:
  assumes "req_ok r" "rq_state r = REQ_PASSIVE" "ivl < 0" "active (xq_lb (rq_xreq r)) \<noteq> {}" "m_sphdr m = []"
  shows "\<exists>r'. nn_req_setopt NN_REQ NN_REQ_RESEND_IVL ivl 4 r = (0, r') \<and> nn_req_csend T m r' = None"
proof -
  let ?m = "m\<lparr>m_sphdr := nn_putl ((rq_id r + 1) OR 0x80000000)\<rparr>"
  from xreq_send_to(2) [OF req_ok_xreq [OF assms(1)] assms(4), of T ?m] obtain p x where
    "nn_xreq_send_to T ?m (rq_xreq r) = Some (Some p, x)" by blast
  moreover have "rq_fsm r = FSM_ACTIVE" using assms(1) by (simp add: req_ok_def req_base_def)
  ultimately show ?thesis
    using assms(2,3,5) by (simp add: nn_req_setopt_def nn_req_csend_def req_feed_def req_states
        nn_req_action_send_def nn_timer_start_def Let_def)
qed

theorem negative_interval_aborts_witness:
  "\<exists>r'. nn_req_setopt NN_REQ NN_REQ_RESEND_IVL (- 1) 4 (one_peer REQ_PASSIVE []) = (0, r') \<and>
     nn_req_csend list_transport empty_msg r' = None"
  using negative_interval_aborts [OF one_peer_ok, of REQ_PASSIVE "[]" "- 1" empty_msg list_transport] one_pipe(2)
  by (simp add: one_peer_def empty_msg_def)

text \<open>
  A malformed reply stops the loop: the messages that have arrived behind it are left, although the pipe stays
  with the active ones, which raise no further event.
\<close>

theorem malformed_reply_stops_the_loop:
  assumes "fq_ok (xq_fq (rq_xreq r)) (xq_net (rq_xreq r))" "active (xq_fq (rq_xreq r)) = {p}"
    and "t_recv T p (n_trans (xq_net (rq_xreq r))) = (False, m, True, t)" "length (m_body m) < 4"
  shows "\<exists>r'. req_in_loop T r = Some (Some r') \<and> rq_state r' = rq_state r \<and>
    active (xq_fq (rq_xreq r')) = {p} \<and> n_trans (xq_net (rq_xreq r')) = t"
proof -
  have "nn_xreq_split False m = Some (Malformed m)" using assms(4) by (simp add: nn_xreq_split_def)
  from xreq_recv_one [OF assms(1-3) this] obtain fq n where
    x: "nn_xreq_recv T (rq_xreq r) = Some (Malformed m, (rq_xreq r)\<lparr>xq_fq := fq, xq_net := n\<rparr>)" "n_trans n = t"
      "active fq = (if True then {p} else {})" by blast
  have "req_in_loop T r = Some (Some (r\<lparr>rq_xreq := (rq_xreq r)\<lparr>xq_fq := fq, xq_net := n\<rparr>, rq_reply := m, rq_live := False\<rparr>))"
    using x(1) by (simp add: req_in_loop.simps [of T r] put_received_def malformed_def Let_def)
  with x(2,3) show ?thesis by simp
qed

theorem malformed_reply_stops_the_loop_witness:
  "\<exists>r'. req_in_loop list_transport
       (one_peer REQ_ACTIVE [\<lparr>m_sphdr = [], m_body = [1]\<rparr>, \<lparr>m_sphdr = [], m_body = tag 3 @ [5]\<rparr>]) = Some (Some r') \<and>
     rq_state r' = REQ_ACTIVE \<and> n_trans (xq_net (rq_xreq r')) = [\<lparr>m_sphdr = [], m_body = tag 3 @ [5]\<rparr>]"
proof -
  let ?ms = "[\<lparr>m_sphdr = [], m_body = [1]\<rparr>, \<lparr>m_sphdr = [], m_body = tag 3 @ [5]\<rparr>]"
  let ?r = "one_peer REQ_ACTIVE ?ms"
  have a: "fq_ok (xq_fq (rq_xreq ?r)) (xq_net (rq_xreq ?r))" "active (xq_fq (rq_xreq ?r)) = {7}"
    using one_pipe one_pipe_ok by (simp_all add: one_peer_def)
  have b: "t_recv list_transport 7 (n_trans (xq_net (rq_xreq ?r))) = (False, \<lparr>m_sphdr = [], m_body = [1]\<rparr>, True, tl ?ms)"
    by (simp add: one_peer_def idle_net_def list_transport_def)
  from malformed_reply_stops_the_loop [OF a b] show ?thesis by (auto simp: one_peer_def)
qed

end
