(* ===== verification/Trie_Props.thy ===== *)
theory Trie_Props
  imports Trie_Subs
begin

text \<open>
  The properties of the subscription trie: what subscribing, matching and unsubscribing mean for the subscriptions, and
  where the code departs from it.
\<close>

section \<open>The three operations\<close>

text \<open>
  Subscribing to a string adds one to its count and reports whether it is a fresh subscription; the trie stays
  well-formed. The count of every other string stays, unless it is a proper prefix of the string, whose count may
  be lost (see \<open>full_node_forgets_its_subscription\<close>).
\<close>

theorem subscribe_counts:
  assumes "wf_root root" "osubs root x \<noteq> - 1" "nn_trie_subscribe root x = (root', fresh)"
  shows "wf_root root' \<and> osubs root' x = osubs root x + 1 \<and> (fresh \<longleftrightarrow> osubs root x = 0) \<and>
    (\<forall>y. y \<noteq> x \<longrightarrow> osubs root' y = osubs root y \<or> strict_prefix y x \<and> osubs root' y = 0)"
  using nn_trie_subscribe [OF assms] by (simp add: same_but_def)

theorem subscribe_counts_witness:
  "osubs (fst (nn_trie_subscribe (Some (Node 1 [97] (Sparse []))) [97, 98])) [97, 98] = 1 \<and>
   snd (nn_trie_subscribe (Some (Node 1 [97] (Sparse []))) [97, 98])"
proof -
  let ?root = "Some (Node 1 [97] (Sparse []))"
  have z: "osubs ?root [97, 98] = 0" by (simp add: subs.simps)
  have "wf_root ?root" by (simp add: wf_node_simps trie_consts)
  then show ?thesis
    using subscribe_counts [of ?root "[97, 98]" "fst (nn_trie_subscribe ?root [97, 98])"
        "snd (nn_trie_subscribe ?root [97, 98])"] z by simp
qed

text \<open>
  C31: What a match answers: true exactly when a prefix of the message is subscribed. There is no answer only when no
  prefix is subscribed but the message goes on to a subscription: the code then reads behind its end.
\<close>

theorem match_finds_prefix:
  assumes "wf_root root"
  shows "case nn_trie_match root d of
      Some b \<Rightarrow> b \<longleftrightarrow> (\<exists>y. prefix y d \<and> osubs root y \<noteq> 0)
    | None \<Rightarrow> (\<forall>y. prefix y d \<longrightarrow> osubs root y = 0) \<and> (\<exists>s. s \<noteq> [] \<and> osubs root (d @ s) \<noteq> 0)"
  using nn_trie_match [OF assms, of d] by (auto split: option.split)

theorem match_finds_prefix_witness:
  "nn_trie_match (Some (Node 1 [97] (Sparse []))) [97, 98] = Some True \<and>
   (\<exists>y. prefix y [97, 98] \<and> osubs (Some (Node 1 [97] (Sparse []))) y \<noteq> 0)"
proof -
  let ?root = "Some (Node 1 [97] (Sparse []))"
  have m: "nn_trie_match ?root [97, 98] = Some True"
    by (simp add: nn_trie_match_def nn_node_match.simps nn_node_has_subscribers_def)
  have "wf_root ?root" by (simp add: wf_node_simps trie_consts)
  from match_finds_prefix [OF this, of "[97, 98]"] m show ?thesis by simp
qed

text \<open>
  Unsubscribing from a subscribed string takes one from its count and reports whether it was the last; the
  trie stays well-formed, and the other strings keep their counts but for proper prefixes, as in subscribing.
\<close>

theorem unsubscribe_counts:
  assumes "wf_root root" "osubs root x \<noteq> 0"
  shows "\<exists>root'. nn_trie_unsubscribe root x = Some (if osubs root x = 1 then 1 else 0, root') \<and>
    wf_root root' \<and> osubs root' x = osubs root x - 1 \<and>
    (\<forall>y. y \<noteq> x \<longrightarrow> osubs root' y = osubs root y \<or> strict_prefix y x \<and> osubs root' y = 0)"
  using nn_trie_unsubscribe [OF assms] by (simp add: same_but_def)

theorem unsubscribe_counts_witness:
  "\<exists>root'. nn_trie_unsubscribe (Some (Node 2 [97] (Sparse []))) [97] = Some (0, root') \<and> osubs root' [97] = 1"
proof -
  let ?root = "Some (Node 2 [97] (Sparse []))"
  have "wf_root ?root" by (simp add: wf_node_simps trie_consts)
  from unsubscribe_counts [OF this, of "[97]"] show ?thesis by (auto simp: subs.simps)
qed

section \<open>Sequences of operations\<close>

text \<open>
  The tries that subscribing, and unsubscribing from what is subscribed, lead to; beside each trie how
  many times each string is subscribed.
\<close>

inductive trie_reach :: "trie_node option \<Rightarrow> (bytes \<Rightarrow> nat) \<Rightarrow> bool" where
  empty: "trie_reach None (\<lambda>_. 0)"
| subscribe: "trie_reach root f \<Longrightarrow> osubs root x \<noteq> - 1 \<Longrightarrow> nn_trie_subscribe root x = (root', fresh) \<Longrightarrow>
    trie_reach root' (f(x := f x + 1))"
| unsubscribe: "trie_reach root f \<Longrightarrow> osubs root x \<noteq> 0 \<Longrightarrow> nn_trie_unsubscribe root x = Some (res, root') \<Longrightarrow>
    trie_reach root' (f(x := f x - 1))"

lemma unat_plus_1: "(r :: u32) \<noteq> - 1 \<Longrightarrow> unat (r + 1) = unat r + 1"
  by (simp add: unatSuc eq_neg_iff_add_eq_0 add.commute)

lemma unat_minus_1: "(r :: u32) \<noteq> 0 \<Longrightarrow> unat (r - 1) = unat r - 1"
  by (simp add: unat_minus_one)

lemma trie_reach_sound: "trie_reach root f \<Longrightarrow> wf_root root \<and> (\<forall>x. unat (osubs root x) \<le> f x)"
proof (induction rule: trie_reach.induct)
  case (subscribe root f x root' fresh)
  have "wf_root root" using subscribe.IH by simp
  note S = nn_trie_subscribe [OF this subscribe.hyps(2,3)]
  have "unat (osubs root' y) \<le> (f(x := f x + 1)) y" for y
    using S(2,4) subscribe.IH unat_plus_1 [OF subscribe.hyps(2)] by (cases "y = x") (auto simp: same_but_def)
  with S(1) show ?case by blast
next
  case (unsubscribe root f x res root')
  have wf: "wf_root root" using unsubscribe.IH by simp
  from nn_trie_unsubscribe [OF wf unsubscribe.hyps(2)] unsubscribe.hyps(3)
  have S: "wf_root root'" "osubs root' x = osubs root x - 1" "same_but (osubs root) (osubs root') x" by auto
  have "unat (osubs root' y) \<le> (f(x := f x - 1)) y" for y
    using S(2,3) unsubscribe.IH unat_minus_1 [OF unsubscribe.hyps(2)]
    by (cases "y = x") (auto simp: same_but_def intro: diff_le_mono)
  with S(1) show ?case by blast
qed simp

text \<open>
  C27: In every reachable trie, which is well-formed, a string never has more subscriptions than were made and not
  taken back: no message is delivered that nobody asked for.
\<close>

theorem reachable_trie_sound:
  assumes "trie_reach root f"
  shows "wf_root root \<and> (\<forall>x. unat (osubs root x) \<le> f x) \<and>
    (nn_trie_match root d = Some True \<longrightarrow> (\<exists>y. prefix y d \<and> 0 < f y))"
proof -
  note T = trie_reach_sound [OF assms]
  have "\<exists>y. prefix y d \<and> 0 < f y" if "nn_trie_match root d = Some True"
  proof -
    from nn_trie_match(1) [of root, OF _ that] T obtain y where "prefix y d" "osubs root y \<noteq> 0" by blast
    moreover from this(2) T have "0 < f y" by (metis gr0I le_zero_eq unat_eq_zero)
    ultimately show ?thesis by blast
  qed
  with T show ?thesis by blast
qed

theorem reachable_trie_sound_witness:
  "wf_root (Some (new_nodes [97])) \<and> (\<exists>y. prefix y [97, 98 :: byte] \<and> 0 < ((\<lambda>_. 0 :: nat)([97] := 0 + 1)) y)"
proof -
  have "trie_reach (Some (new_nodes [97])) ((\<lambda>_. 0)([97] := 0 + 1))"
    by (rule trie_reach.subscribe [OF trie_reach.empty]) (simp_all add: nn_trie_subscribe_def)
  moreover have "nn_trie_match (Some (new_nodes [97])) [97, 98] = Some True"
    by (simp add: nn_trie_match_def nn_node_match.simps new_nodes.simps nn_node_has_subscribers_def trie_consts)
  ultimately show ?thesis using reachable_trie_sound by blast
qed

text \<open>The nodes of a trie.\<close>

inductive node_in :: "trie_node \<Rightarrow> trie_node \<Rightarrow> bool" where
  here: "node_in n n"
| below: "child (node_kids n) c = Some m \<Longrightarrow> node_in n' m \<Longrightarrow> node_in n' n"

lemma wf_node_in: "node_in n' n \<Longrightarrow> wf_node n \<Longrightarrow> wf_node n'"
proof (induction rule: node_in.induct)
  case (below n c m n')
  then show ?case by (cases n) (auto simp: wf_node_simps)
qed simp

lemma used_filter: "used xs = length (filter (\<lambda>x. x \<noteq> None) xs)"
  by (induction xs) simp_all

text \<open>
  C37: As long as only strings that are subscribed are unsubscribed, and none so often that its count wraps around, each node of
  the trie fits into its C structure (\<open>absent_string_is_counted_out\<close> below shows what unsubscribing another string does): the prefix into its ten bytes; the sparse children into their eight
  places, each character once; a dense array has exactly the size its limits give, more than eight children, as many as the
  counter says, and one at either end. A node without children is subscribed.
\<close>

theorem nodes_fit_their_struct:
  assumes "trie_reach (Some root) f" "node_in (Node r p k) root"
  shows "length p \<le> NN_TRIE_PREFIX_MAX \<and> (k = Sparse [] \<longrightarrow> r \<noteq> 0) \<and>
    (case k of
       Sparse cs \<Rightarrow> length cs \<le> NN_TRIE_SPARSE_MAX \<and> distinct (map fst cs)
     | Dense mn mx nbr xs \<Rightarrow> mn \<le> mx \<and> length xs = unat mx - unat mn + 1 \<and> NN_TRIE_SPARSE_MAX < unat nbr \<and>
         unat nbr = length (filter (\<lambda>x. x \<noteq> None) xs) \<and> hd xs \<noteq> None \<and> last xs \<noteq> None)"
proof -
  have "wf_node root" using trie_reach_sound [OF assms(1)] by simp
  from wf_node_in [OF assms(2) this] show ?thesis
    by (cases k) (auto simp: wf_node_simps used_filter simp del: not_None_eq)
qed

theorem nodes_fit_their_struct_witness:
  "\<exists>f. trie_reach (Some (new_nodes [97])) f \<and> node_in (Node 1 [97] (Sparse [])) (new_nodes [97]) \<and>
     length [97 :: byte] \<le> NN_TRIE_PREFIX_MAX"
proof -
  have "trie_reach (Some (new_nodes [97])) ((\<lambda>_. 0)([97] := 0 + 1))"
    by (rule trie_reach.subscribe [OF trie_reach.empty]) (simp_all add: nn_trie_subscribe_def)
  moreover have "node_in (Node 1 [97] (Sparse [])) (new_nodes [97])"
    using node_in.here [of "Node 1 [97] (Sparse [])"] by (simp add: new_nodes.simps trie_consts)
  ultimately show ?thesis using nodes_fit_their_struct by blast
qed

section \<open>Where the code departs\<close>

text \<open>
  A node with eight children in its list that gets a ninth is copied into a dense node, whose reference count
  starts at zero: the subscriptions of the node's own string are forgotten.
\<close>

theorem full_node_forgets_its_subscription:
  assumes "length cs = NN_TRIE_SPARSE_MAX" "map_of cs c = None"
  shows "osubs (fst (nn_trie_subscribe (Some (Node r p (Sparse cs))) (p @ c # t))) p = 0"
  using assms
  by (simp add: nn_trie_subscribe_def nn_node_subscribe.simps [of "Node r p (Sparse cs)"] case_next
      add_child_def add_kid_def sparse_to_dense_def Let_def split: prod.split)

theorem full_node_forgets_its_subscription_witness:
  "osubs (fst (nn_trie_subscribe
     (Some (Node 1 [] (Sparse (map (\<lambda>i. (of_nat i, Node 1 [] (Sparse []))) [1..<9])))) [0])) [] = 0"
  using full_node_forgets_its_subscription
    [of "map (\<lambda>i. (of_nat i, Node 1 [] (Sparse []))) [1..<9]" 0 1 "[]" "[]"]
  by (simp add: trie_consts upt_rec)

text \<open>
  Unsubscribing a string that leads to an empty slot in the middle of a dense array: the error of the missing child is taken for a
  removal, and a child that was never there is counted out. The counter is then too small, and when the array is
  made sparse there are more than eight children left: the assertion fails.
\<close>

theorem absent_string_is_counted_out:
  assumes "mn < c" "c < mx" "xs ! (unat c - unat mn) = None" "length xs = unat mx - unat mn + 1"
    and "NN_TRIE_SPARSE_MAX + 1 < unat nbr"
  shows "osubs (Some (Node r p (Dense mn mx nbr xs))) (p @ [c]) = 0 \<and>
    nn_trie_unsubscribe (Some (Node r p (Dense mn mx nbr xs))) (p @ [c]) = Some (1, Some (Node r p (Dense mn mx (nbr - 1) xs)))"
proof -
  have b: "mn \<le> c" "c \<le> mx" "c \<noteq> mn" "c \<noteq> mx" using assms(1,2) by auto
  have i: "unat c - unat mn < length xs" using slot_index [OF b(1,2)] assms(4) by simp
  have u: "xs[unat c - unat mn := None] = xs" using assms(3) by (metis list_update_id)
  have ch: "child (Dense mn mx nbr xs) c = None" using assms(3) b i by (simp add: child_Dense)
  have "nn_node_next (Dense mn mx nbr xs) c = Some None" using assms(3) b i by (auto simp: nn_node_next_def)
  then have "nn_node_unsubscribe (Some (Node r p (Dense mn mx nbr xs))) (p @ [c]) =
      map_option (\<lambda>n'. (1, n')) (prune (Node r p (Dense mn mx nbr xs)) c)"
    by (simp add: nn_node_unsubscribe.simps [of "Some (Node r p (Dense mn mx nbr xs))"] nn_node_unsubscribe.simps [of None]
        unsub_found_def EINVAL_int_def)
  also have "\<dots> = Some (1, Some (Node r p (Dense mn mx (nbr - 1) xs)))"
    using assms(5) b u by (simp add: prune_def del_kid_def Let_def)
  finally show ?thesis using ch by (simp add: nn_trie_unsubscribe_def)
qed

theorem absent_string_is_counted_out_witness:
  "\<exists>xs. length (filter (\<lambda>x. x \<noteq> None) xs) = 10 \<and>
     nn_trie_unsubscribe (Some (Node 0 [] (Dense 0 10 10 xs))) [1] = Some (1, Some (Node 0 [] (Dense 0 10 9 xs)))"
  using absent_string_is_counted_out [of 0 1 10 "Some (Node 1 [] (Sparse [])) # None # replicate 9 (Some (Node 1 [] (Sparse [])))" 10 0 "[]"]
  by (intro exI [of _ "Some (Node 1 [] (Sparse [])) # None # replicate 9 (Some (Node 1 [] (Sparse [])))"]) (simp add: trie_consts)

text \<open>
  Unsubscribing from the empty string, which is not subscribed, takes a subscription from the string at the
  root: the code looks at the length of the data before it compares the prefix.
\<close>

theorem unsubscribing_nothing_hits_the_root:
  assumes "p \<noteq> []" "r \<noteq> 0"
  shows "osubs (Some (Node r p k)) [] = 0 \<and>
    (\<exists>res root'. nn_trie_unsubscribe (Some (Node r p k)) [] = Some (res, root') \<and>
      osubs root' p = osubs (Some (Node r p k)) p - 1)"
proof -
  have "osubs (snd (unsub_found (Some (Node r p k)))) p = r - 1"
    using assms(2) by (simp add: unsub_found_def nn_node_has_subscribers_def Let_def subs_dead)
  then show ?thesis
    using assms(1) by (cases "unsub_found (Some (Node r p k))")
      (simp add: nn_trie_unsubscribe_def nn_node_unsubscribe.simps [of "Some (Node r p k)"])
qed

theorem unsubscribing_nothing_hits_the_root_witness:
  "\<exists>res root'. nn_trie_unsubscribe (Some (Node 1 [97] (Sparse []))) [] = Some (res, root') \<and> osubs root' [97] = 0"
  using unsubscribing_nothing_hits_the_root [of "[97]" 1 "Sparse []"] by (auto simp: subs.simps)

end
