(* ===== verification/Nn_Props.thy ===== *)
theory Nn_Props
  imports Nn_Sub Nn_Queue Nn_Req_Props Trie_Props
begin

text \<open>
  The properties of the containers of nanomsg, of the order in which its sockets come to their pipes, and of the
  subscriber's socket.
\<close>

section \<open>The linked list and the queue\<close>

text \<open>
  The doubly linked list is a sequence: an item that is in no list can be inserted before any item or at the end, and then
  any item of the list can be erased, which returns the item behind it and leaves the erased one in no list. No other item of the heap
  is touched, and no assertion fails.
\<close>

theorem list_is_a_sequence:
  assumes "list_of h l (ys @ zs)" "\<not> nn_list_item_isinlist (h x)"
  shows "\<exists>h' l'. nn_list_insert h l x (hd_or zs None) = Some (h', l') \<and> list_of h' l' (ys @ x # zs) \<and>
    (\<forall>a. a \<notin> set (ys @ x # zs) \<longrightarrow> h' a = h a) \<and>
    (\<forall>us y vs. ys @ x # zs = us @ y # vs \<longrightarrow>
      (\<exists>h'' l''. nn_list_erase h' l' y = Some (h'', l'', hd_or vs None) \<and> list_of h'' l'' (us @ vs) \<and>
        \<not> nn_list_item_isinlist (h'' y) \<and> (\<forall>a. a \<notin> set (ys @ x # zs) \<longrightarrow> h'' a = h a)))"
proof -
  from list_insert [OF assms] obtain h' l' where
    i: "nn_list_insert h l x (hd_or zs None) = Some (h', l')" "list_of h' l' (ys @ x # zs)"
      "\<forall>a. a \<notin> set (ys @ x # zs) \<longrightarrow> h' a = h a" by blast
  have "\<exists>h'' l''. nn_list_erase h' l' y = Some (h'', l'', hd_or vs None) \<and> list_of h'' l'' (us @ vs) \<and>
      \<not> nn_list_item_isinlist (h'' y) \<and> (\<forall>a. a \<notin> set (ys @ x # zs) \<longrightarrow> h'' a = h a)"
    if "ys @ x # zs = us @ y # vs" for us y vs
  proof -
    from list_erase [OF i(2) [unfolded that]] obtain h'' l'' where
      "nn_list_erase h' l' y = Some (h'', l'', hd_or vs None)" "list_of h'' l'' (us @ vs)"
      "\<not> nn_list_item_isinlist (h'' y)" "\<forall>a. a \<notin> set (us @ y # vs) \<longrightarrow> h'' a = h' a" by blast
    with i(3) show ?thesis unfolding that by metis
  qed
  with i show ?thesis by blast
qed

theorem list_is_a_sequence_witness:
  "\<exists>h' l' h'' l''. nn_list_insert (\<lambda>_. nn_list_item_init) nn_list_init 4 None = Some (h', l') \<and>
     list_of h' l' [4] \<and> nn_list_erase h' l' 4 = Some (h'', l'', None) \<and> list_of h'' l'' []"
proof -
  have "list_of (\<lambda>_. nn_list_item_init) nn_list_init ([] @ [])" by simp
  moreover have "\<not> nn_list_item_isinlist nn_list_item_init" by (simp add: nn_list_item_isinlist_def nn_list_item_init_def)
  ultimately obtain h' l' where *: "nn_list_insert (\<lambda>_. nn_list_item_init) nn_list_init 4 (hd_or [] None) = Some (h', l')"
    "list_of h' l' ([] @ 4 # [])"
    "\<forall>us y vs. [] @ 4 # [] = us @ y # vs \<longrightarrow>
      (\<exists>h'' l''. nn_list_erase h' l' y = Some (h'', l'', hd_or vs None) \<and> list_of h'' l'' (us @ vs) \<and>
        \<not> nn_list_item_isinlist (h'' y) \<and> (\<forall>a. a \<notin> set ([] @ 4 # []) \<longrightarrow> h'' a = nn_list_item_init))"
    using list_is_a_sequence [of "\<lambda>_. nn_list_item_init" nn_list_init "[]" "[]" 4] by blast
  from *(3) have "\<exists>h'' l''. nn_list_erase h' l' 4 = Some (h'', l'', hd_or [] None) \<and> list_of h'' l'' ([] @ [])" by blast
  with *(1,2) show ?thesis by simp
qed

text \<open>
  The queue refines a sequence: pushing appends, popping takes the first item, and removing takes any item out, wherever it is; the item is in no queue
  afterwards, and the items of other queues are not touched.
\<close>

theorem queue_is_a_sequence:
  assumes "queue_of h q xs"
  shows "(\<forall>x. \<not> nn_queue_item_isinqueue (h x) \<longrightarrow> (\<exists>h' q'. nn_queue_push h q x = Some (h', q') \<and> queue_of h' q' (xs @ [x]) \<and>
      (\<forall>a. a \<notin> set (xs @ [x]) \<longrightarrow> h' a = h a))) \<and>
    (\<forall>ys x zs. xs = ys @ x # zs \<longrightarrow> (\<exists>h' q'. nn_queue_remove h q x = Some (h', q') \<and> queue_of h' q' (ys @ zs) \<and>
      \<not> nn_queue_item_isinqueue (h' x) \<and> (\<forall>a. a \<notin> set xs \<longrightarrow> h' a = h a))) \<and>
    (case xs of [] \<Rightarrow> nn_queue_pop h q = Some (h, q, None)
     | x # rest \<Rightarrow> \<exists>h' q'. nn_queue_pop h q = Some (h', q', Some x) \<and> queue_of h' q' rest \<and>
         \<not> nn_queue_item_isinqueue (h' x))"
proof (intro conjI allI impI)
  show "case xs of [] \<Rightarrow> nn_queue_pop h q = Some (h, q, None)
     | x # rest \<Rightarrow> \<exists>h' q'. nn_queue_pop h q = Some (h', q', Some x) \<and> queue_of h' q' rest \<and>
         \<not> nn_queue_item_isinqueue (h' x)"
  proof (cases xs)
    case Nil
    then show ?thesis using assms queue_pop_empty by simp
  next
    case (Cons x rest)
    with queue_pop [of h q x rest] assms show ?thesis by auto
  qed
next
  fix x assume "\<not> nn_queue_item_isinqueue (h x)"
  from queue_push [OF assms this]
  show "\<exists>h' q'. nn_queue_push h q x = Some (h', q') \<and> queue_of h' q' (xs @ [x]) \<and>
      (\<forall>a. a \<notin> set (xs @ [x]) \<longrightarrow> h' a = h a)" by (auto simp: conj_commute)
next
  fix ys x zs assume "xs = ys @ x # zs"
  with queue_remove [of h q ys x zs] assms
  show "\<exists>h' q'. nn_queue_remove h q x = Some (h', q') \<and> queue_of h' q' (ys @ zs) \<and>
      \<not> nn_queue_item_isinqueue (h' x) \<and> (\<forall>a. a \<notin> set xs \<longrightarrow> h' a = h a)" by simp
qed

theorem queue_is_a_sequence_witness:
  "\<exists>h' q'. nn_queue_push (\<lambda>_. NOTIN) nn_queue_init 3 = Some (h', q') \<and> queue_of h' q' [3]"
proof -
  from queue_is_a_sequence [OF queue_of_init, of "\<lambda>_. NOTIN"]
  have "\<forall>x. \<exists>h' q'. nn_queue_push (\<lambda>_. NOTIN) nn_queue_init x = Some (h', q') \<and> queue_of h' q' [x]"
    by (simp add: nn_queue_item_isinqueue_def) blast
  then show ?thesis by blast
qed

section \<open>The hash table\<close>

text \<open>What is done to the table, and to a map.\<close>

datatype 'v table_op = Put u32 'v | Del u32

fun hash_run :: "'v table_op list \<Rightarrow> 'v nn_hash \<Rightarrow> 'v nn_hash option" where
  "hash_run [] h = Some h"
| "hash_run (Put k v # ops) h = (case nn_hash_insert h k v of None \<Rightarrow> None | Some h' \<Rightarrow> hash_run ops h')"
| "hash_run (Del k # ops) h = (case nn_hash_erase h k of None \<Rightarrow> None | Some h' \<Rightarrow> hash_run ops h')"

fun map_run :: "'v table_op list \<Rightarrow> (u32 \<rightharpoonup> 'v) \<Rightarrow> (u32 \<rightharpoonup> 'v) option" where
  "map_run [] m = Some m"
| "map_run (Put k v # ops) m = (if m k = None then map_run ops (m(k \<mapsto> v)) else None)"
| "map_run (Del k # ops) m = (if m k = None then None else map_run ops (m(k := None)))"

lemma hash_run: "hash_ok h \<Longrightarrow> map_option nn_hash_get (hash_run ops h) = map_run ops (nn_hash_get h)"
proof (induction ops arbitrary: h)
  case (Cons a ops)
  show ?case
  proof (cases a)
    case (Put k v)
    show ?thesis
    proof (cases "nn_hash_get h k")
      case None
      from insert_new [OF Cons.prems None, of v] obtain h' where
        "nn_hash_insert h k v = Some h'" "hash_ok h'" "nn_hash_get h' = (nn_hash_get h)(k \<mapsto> v)" by blast
      with Cons.IH [of h'] Put None show ?thesis by (simp del: fun_upd_apply)
    next
      case (Some w)
      then have "nn_hash_insert h k v = None" using Cons.prems by (intro pipes.put_old) simp_all
      then show ?thesis using Some Put by simp
    qed
  next
    case (Del k)
    show ?thesis
    proof (cases "nn_hash_get h k")
      case None
      with pipes.del_new [OF Cons.prems, of k] Del show ?thesis by simp
    next
      case (Some w)
      then obtain h' where "nn_hash_erase h k = Some h'" "hash_ok h'" "nn_hash_get h' = (nn_hash_get h)(k := None)"
        using pipes.del_old [OF Cons.prems, of k] by blast
      with Cons.IH [of h'] Del Some show ?thesis by (simp del: fun_upd_apply)
    qed
  qed
qed simp

text \<open>
  C33: Whatever is inserted and erased, in whatever order and however often the table is rehashed on the way, the hash table
  answers like a map; the assertion of an insertion fails exactly when the key is there, and that of an erasure exactly when it
  is not.
\<close>

theorem hash_equals_map:
  "map_option nn_hash_get (hash_run ops nn_hash_init) = map_run ops Map.empty"
proof -
  have "nn_hash_get nn_hash_init = (Map.empty :: u32 \<rightharpoonup> 'a)" by (simp add: fun_eq_iff get_init)
  with hash_run [OF hash_ok_init, of ops] show ?thesis by simp
qed

lemma come_and_go_exists: "n \<le> 2 ^ 30 \<Longrightarrow> \<exists>h :: 'v nn_hash. come_and_go n h"
proof (induction n)
  case 0
  show ?case using come_and_go.start by blast
next
  case (Suc n)
  then obtain h :: "'v nn_hash" where h: "come_and_go n h" by auto
  with come_and_go [OF h] Suc.prems insert_new [of h 0 undefined] obtain h' where
    h': "nn_hash_insert h 0 undefined = Some h'" by auto
  from come_and_go [OF h] Suc.prems have "hash_ok h" by simp
  from pipes.put_del [OF this h'] obtain h'' where "nn_hash_erase h' 0 = Some h''" by blast
  from come_and_go.next_one [OF h h' this] show ?case by blast
qed

text \<open>
  Erasing does not take anything from the number of items: the table of a socket whose pipes come and go, never more than one of them
  at a time, grows with the number of pipes there have ever been, although it is empty.
\<close>

theorem empty_table_grows:
  assumes "come_and_go n h" "n \<le> 2 ^ 30"
  shows "(\<forall>k. nn_hash_get h k = None) \<and> unat (h_items h) = n \<and> 2 * n \<le> unat (h_slots h)"
  using come_and_go [OF assms] by blast

theorem empty_table_grows_witness:
  "\<exists>h :: unit nn_hash. (\<forall>k. nn_hash_get h k = None) \<and> unat (h_items h) = 1000 \<and> 2000 \<le> unat (h_slots h)"
proof -
  obtain h :: "unit nn_hash" where "come_and_go 1000 h" using come_and_go_exists [of 1000] by auto
  from empty_table_grows [OF this] show ?thesis by auto
qed

section \<open>Words on the wire\<close>

text \<open>
  Words of 16, 32 and 64 bits are read from the wire as they were written to it, whatever follows; and bytes that are
  read and written again are the same bytes.
\<close>

theorem wire_round_trip:
  "nn_gets (nn_puts s @ r) = s \<and> nn_getl (nn_putl l @ r) = l \<and> nn_getll (nn_putll ll @ r) = ll \<and>
   (length b = 2 \<longrightarrow> nn_puts (nn_gets b) = b) \<and> (length b = 4 \<longrightarrow> nn_putl (nn_getl b) = b) \<and>
   (length b = 8 \<longrightarrow> nn_putll (nn_getll b) = b)"
  using bytes_get_put [of b] by simp

theorem wire_round_trip_witness:
  "nn_getl (nn_putl 0xdeadbeef @ [7]) = 0xdeadbeef \<and> nn_putl (nn_getl [1, 2, 3, 255]) = [1, 2, 3, 255]"
  using wire_round_trip [of 0 "[7]" "0xdeadbeef" 0 "[1, 2, 3, 255]"] by simp

section \<open>Whose turn it is\<close>

text \<open>The priority lists that the operations lead to, each called as the sockets call it.\<close>

inductive turns_reach :: "nn_priolist \<Rightarrow> bool" where
  init: "turns_reach nn_priolist_init"
| add: "turns_reach pl \<Longrightarrow> p \<notin> active pl \<Longrightarrow> turns_reach (nn_priolist_add pl p prio)"
| rm: "turns_reach pl \<Longrightarrow> known p pl \<Longrightarrow> turns_reach (nn_priolist_rm pl p)"
| activate: "turns_reach pl \<Longrightarrow> known p pl \<Longrightarrow> p \<notin> active pl \<Longrightarrow> nn_priolist_activate pl p = Some pl' \<Longrightarrow> turns_reach pl'"
| advance: "turns_reach pl \<Longrightarrow> nn_priolist_getpipe pl = Some (Some p) \<Longrightarrow> nn_priolist_advance pl release = Some pl' \<Longrightarrow>
    turns_reach pl'"

lemma turns_reach: "turns_reach pl \<Longrightarrow> priolist_ok pl"
proof (induction rule: turns_reach.induct)
  case (activate pl p pl')
  then show ?case using activate_ok [of pl p] by (auto simp: known_def)
next
  case (advance pl p release pl')
  then show ?case using advance_ok [of pl p release] by auto
qed (simp_all add: priolist_ok_init add_ok rm_ok known_def)

text \<open>
  C26: The pipes are served fairly. While any pipe is active, the current one is one of the active pipes of the best priority, and in as
  many turns as there are of them each comes exactly once: no pipe waits for longer than one round.
\<close>

theorem pipes_take_turns:
  assumes "turns_reach pl"
  shows "distinct (turns (card (best pl)) pl) \<and> set (turns (card (best pl)) pl) = best pl \<and>
    (active pl \<noteq> {} \<longrightarrow> (\<exists>p \<in> best pl. nn_priolist_getpipe pl = Some (Some p)))"
  using turns_best [OF turns_reach [OF assms]] getpipe_best [OF turns_reach [OF assms]] by blast

theorem pipes_take_turns_witness:
  "turns 1 one_pipe = [7]"
proof -
  let ?a = "nn_priolist_add nn_priolist_init 7 1"
  have a: "turns_reach ?a" by (rule turns_reach.add [OF turns_reach.init]) simp
  have k: "known 7 ?a" by (simp add: known_def nn_priolist_add_def NN_PRIOLIST_SLOTS_def)
  have n: "(7 :: nat) \<notin> active ?a" using add_ok(2) [OF priolist_ok_init, of 7 1] by simp
  from activate_ok [OF turns_reach [OF a] _ _ n] k obtain pl where "nn_priolist_activate ?a 7 = Some pl"
    by (auto simp: known_def)
  then have "turns_reach one_pipe" using turns_reach.activate [OF a k n] by (simp add: one_pipe_def)
  moreover have "best one_pipe = {7}" using one_pipe by (auto simp: best_def)
  ultimately show ?thesis using pipes_take_turns [of one_pipe] by (cases "turns 1 one_pipe") (auto split: prod.splits option.splits)
qed

section \<open>The subscriber's socket\<close>

text \<open>
  What the socket comes to, and beside it how many times each string is subscribed. The transport may
  change the pipes as long as those in the queue stay idle.
\<close>

inductive sub_reach :: "'t transport \<Rightarrow> 't xsub \<Rightarrow> (bytes \<Rightarrow> nat) \<Rightarrow> bool" for T where
  init: "sub_reach T (nn_xsub_init n) (\<lambda>_. 0)"
| net: "sub_reach T s f \<Longrightarrow> \<forall>p \<in> active (xs_fq s). pb_instate (n_pipes n p) = IO_IDLE \<Longrightarrow> sub_reach T (s\<lparr>xs_net := n\<rparr>) f"
| add: "sub_reach T s f \<Longrightarrow> p \<notin> active (xs_fq s) \<Longrightarrow> nn_xsub_add p s = Some s' \<Longrightarrow> sub_reach T s' f"
| rm: "sub_reach T s f \<Longrightarrow> known p (xs_fq s) \<Longrightarrow> sub_reach T (nn_xsub_rm p s) f"
| ready: "sub_reach T s f \<Longrightarrow> known p (xs_fq s) \<Longrightarrow> p \<notin> active (xs_fq s) \<Longrightarrow> pb_instate (n_pipes (xs_net s) p) = IO_IDLE \<Longrightarrow>
    nn_xsub_in p s = Some s' \<Longrightarrow> sub_reach T s' f"
| subscribe: "sub_reach T s f \<Longrightarrow> osubs (xs_trie s) x \<noteq> - 1 \<Longrightarrow>
    nn_xsub_setopt NN_SUB NN_SUB_SUBSCRIBE x s = Some (rc, s') \<Longrightarrow> sub_reach T s' (f(x := f x + 1))"
| unsubscribe: "sub_reach T s f \<Longrightarrow> osubs (xs_trie s) x \<noteq> 0 \<Longrightarrow>
    nn_xsub_setopt NN_SUB NN_SUB_UNSUBSCRIBE x s = Some (rc, s') \<Longrightarrow> sub_reach T s' (f(x := f x - 1))"
| recv: "sub_reach T s f \<Longrightarrow> nn_xsub_recv T s = Some (Sub_returned rc m s') \<Longrightarrow> sub_reach T s' f"

lemma sub_reach:
  assumes "sub_reach T s f" "drains T avail"
  shows "fq_ok (xs_fq s) (xs_net s) \<and> trie_reach (xs_trie s) f"
  using assms(1)
proof (induction rule: sub_reach.induct)
  case (init n)
  show ?case by (simp add: nn_xsub_init_def fq_ok_def fq_defs priolist_ok_init trie_reach.empty)
next
  case (net s f n)
  then show ?case by (simp add: fq_ok_def)
next
  case (add s f p s')
  then show ?case using add_ok [of "xs_fq s" p] by (auto simp: nn_xsub_add_def fq_ok_def fq_defs Let_def split: if_splits)
next
  case (rm s f p)
  then show ?case using rm_ok [of "xs_fq s" p] by (auto simp: nn_xsub_rm_def fq_ok_def fq_defs known_def)
next
  case (ready s f p s')
  then show ?case using fq_in_ok [of "xs_fq s" "xs_net s" p] by (auto simp: nn_xsub_in_def)
next
  case (subscribe s f x rc s')
  have "trie_reach (fst (nn_trie_subscribe (xs_trie s) x)) (f(x := f x + 1))"
    by (rule trie_reach.subscribe [where fresh = "snd (nn_trie_subscribe (xs_trie s) x)"]) (use subscribe in auto)
  then show ?case using subscribe by (auto simp: nn_xsub_setopt_def simp del: fun_upd_apply)
next
  case (unsubscribe s f x rc s')
  then obtain rc' root where "nn_trie_unsubscribe (xs_trie s) x = Some (rc', root)" "s' = s\<lparr>xs_trie := root\<rparr>"
    by (auto simp: nn_xsub_setopt_def NN_SUB_SUBSCRIBE_def NN_SUB_UNSUBSCRIBE_def split: option.splits)
  then show ?case using unsubscribe trie_reach.unsubscribe [of "xs_trie s" f x] by (auto simp del: fun_upd_apply)
next
  case (recv s f rc m s')
  then have "xsub_ok s" using trie_reach_sound by (auto simp: xsub_ok_def)
  from xsub_recv [OF this assms(2)] recv show ?case by (auto simp: xsub_ok_def)
qed

text \<open>
  C32: Whatever the user subscribes and unsubscribes and whatever pipes come and go, receiving ends without a failed assertion,
  and a message that is delivered begins with a string that is subscribed; when there is none to deliver all pipes have been
  emptied. The only other end is a match that reads behind the end of a message, which happens only for one that is a proper
  prefix of a subscribed string. The conditions are that the transport has finitely many messages to receive, that only strings
  that are subscribed are unsubscribed, and that none is subscribed so often that its count wraps around.
\<close>

theorem subscriber_gets_what_it_asked_for:
  assumes "sub_reach T s f" "drains T avail"
  shows "(\<exists>d y. nn_xsub_recv T s = Some (Sub_over_read d) \<and> strict_prefix d y \<and> 0 < f y) \<or>
    (\<exists>s'. nn_xsub_recv T s = Some (Sub_returned (- EAGAIN) None s') \<and> active (xs_fq s') = {}) \<or>
    (\<exists>m s'. nn_xsub_recv T s = Some (Sub_returned 0 (Some m) s') \<and> (\<exists>y. prefix y (m_body m) \<and> 0 < f y))"
proof -
  note R = sub_reach [OF assms]
  then have t: "wf_root (xs_trie s)" "\<And>x. unat (osubs (xs_trie s) x) \<le> f x" using trie_reach_sound by blast+
  then have "xsub_ok s" using R by (simp add: xsub_ok_def)
  moreover have pos: "0 < f y" if "osubs (xs_trie s) y \<noteq> 0" for y
    using t(2) [of y] that by (metis gr0I le_zero_eq unat_eq_zero)
  moreover have "\<exists>y. strict_prefix d y \<and> 0 < f y" if "nn_trie_match (xs_trie s) d = None" for d
  proof -
    from nn_trie_match(2) [OF t(1) that] obtain z where "z \<noteq> []" "osubs (xs_trie s) (d @ z) \<noteq> 0" by blast
    then show ?thesis using pos [of "d @ z"] by (intro exI [of _ "d @ z"]) (auto simp: strict_prefix_def)
  qed
  ultimately show ?thesis using xsub_recv [of s T avail] assms(2) by blast
qed

theorem subscriber_gets_what_it_asked_for_witness:
  "\<exists>s s'. sub_reach list_transport s ((\<lambda>_. 0)([97] := 1)) \<and>
     nn_xsub_recv list_transport s = Some (Sub_returned 0 (Some \<lparr>m_sphdr = [], m_body = [97, 98]\<rparr>) s') \<and>
     (\<exists>y. prefix y [97, 98] \<and> 0 < ((\<lambda>_. 0 :: nat)([97] := 1)) y)"
proof -
  let ?n = "idle_net [\<lparr>m_sphdr = [], m_body = [97, 98]\<rparr>]"
  let ?f = "(\<lambda>_. 0 :: nat)([97] := 0 + 1)"
  let ?s0 = "nn_xsub_init ?n"
  let ?s1 = "?s0\<lparr>xs_trie := Some (new_nodes [97])\<rparr>"
  let ?s2 = "?s1\<lparr>xs_fq := nn_fq_add nn_fq_init 7 1\<rparr>"
  have "nn_xsub_setopt NN_SUB NN_SUB_SUBSCRIBE [97] ?s0 = Some (0, ?s1)"
    by (simp add: nn_xsub_setopt_def nn_xsub_init_def nn_trie_subscribe_def)
  then have 1: "sub_reach list_transport ?s1 ?f"
    by (intro sub_reach.subscribe [OF sub_reach.init]) (simp_all add: nn_xsub_init_def)
  have 2: "sub_reach list_transport ?s2 ?f"
    by (rule sub_reach.add [OF 1, of 7])
      (simp_all add: nn_xsub_init_def nn_xsub_add_def fq_defs idle_net_def nn_pipebase_init_def)
  have q: "fq_ok (xs_fq ?s2) (xs_net ?s2)" "known 7 (xs_fq ?s2)" "active (xs_fq ?s2) = {}"
    using add_ok [OF priolist_ok_init, of 7 1]
    by (simp_all add: fq_ok_def fq_defs known_def nn_priolist_add_def NN_PRIOLIST_SLOTS_def)
  have i: "pb_instate (n_pipes (xs_net ?s2) 7) = IO_IDLE" by (simp add: nn_xsub_init_def idle_net_def)
  from fq_in_ok [OF q(1,2) _ i] q(3) obtain fq where
    fq: "nn_fq_in (xs_fq ?s2) 7 = Some fq" "fq_ok fq (xs_net ?s2)" "active fq = {7}" by auto
  let ?s = "?s2\<lparr>xs_fq := fq\<rparr>"
  have r: "sub_reach list_transport ?s ?f"
    by (rule sub_reach.ready [OF 2 q(2) _ i]) (use fq q(3) in \<open>simp_all add: nn_xsub_in_def\<close>)
  have ok: "fq_ok (xs_fq ?s) (xs_net ?s)" and ac: "active (xs_fq ?s) \<noteq> {}" using fq by simp_all
  have t: "t_recv list_transport 7 (n_trans (xs_net ?s)) = (False, \<lparr>m_sphdr = [], m_body = [97, 98]\<rparr>, False, [])"
    by (simp add: nn_xsub_init_def idle_net_def list_transport_def)
  have "best (xs_fq ?s) = {7}" using fq(3) by (auto simp: best_def)
  with fq_recv(2) [OF ok ac, of list_transport] t obtain fq' n' where
    "nn_fq_recv list_transport (xs_fq ?s) (xs_net ?s) = Some (Some (7, False, \<lparr>m_sphdr = [], m_body = [97, 98]\<rparr>), fq', n')"
    by (metis prod.inject singletonD)
  moreover have "nn_trie_match (Some (new_nodes [97])) [97, 98] = Some True"
    by (simp add: nn_trie_match_def nn_node_match.simps new_nodes.simps nn_node_has_subscribers_def trie_consts)
  ultimately have e: "nn_xsub_recv list_transport ?s =
      Some (Sub_returned 0 (Some \<lparr>m_sphdr = [], m_body = [97, 98]\<rparr>) (?s\<lparr>xs_fq := fq', xs_net := n'\<rparr>))"
    by (subst nn_xsub_recv.simps) (simp add: Let_def)
  from subscriber_gets_what_it_asked_for [OF r list_transport(2)] e have "\<exists>y. prefix y [97, 98] \<and> 0 < ?f y" by auto
  with r e show ?thesis by auto
qed

end
