(* ===== verification/Nn_Rep_Props.thy ===== *)
theory Nn_Rep_Props
  imports Nn_Rep_Spec Nn_Req_Props
begin

text \<open>
  The replier's socket under everything that can happen to it: what holds in each state it can reach, that no assertion
  fails, and what becomes of a reply that cannot go out; and an exchange between a requester and a replier.
\<close>

section \<open>Everything that can happen\<close>

datatype rep_op = Rep_send msg | Rep_recv | Rep_start nat | Rep_in nat | Rep_out nat | Rep_rm nat

definition rep_pb :: "nat \<Rightarrow> pipebase \<Rightarrow> 't rep \<Rightarrow> 't rep" where
  "rep_pb p pb q = q\<lparr>rp_xrep := (rp_xrep q)\<lparr>xp_net := put_pipe p pb (xp_net (rp_xrep q))\<rparr>\<rparr>"

abbreviation rep_pipe :: "'t rep \<Rightarrow> nat \<Rightarrow> pipebase" where
  "rep_pipe q p \<equiv> n_pipes (xp_net (rp_xrep q)) p"

fun rep_do :: "'t transport \<Rightarrow> rep_op \<Rightarrow> 't rep \<Rightarrow> 't rep option" where
  "rep_do T (Rep_send m) q = map_option (\<lambda>(rc, f, q'). q') (nn_rep_send T m q)"
| "rep_do T Rep_recv q = map_option (\<lambda>(rc, m, q'). q') (nn_rep_recv T q)"
| "rep_do T (Rep_start p) q =
     (case nn_pipebase_start True (rep_pipe q p) of
        None \<Rightarrow> None
      | Some pb \<Rightarrow> (let q1 = rep_pb p pb q in
          map_option (\<lambda>x. q1\<lparr>rp_xrep := nn_xrep_out p x\<rparr>) (nn_xrep_add p (rp_xrep q1))))"
| "rep_do T (Rep_in p) q =
     (case nn_pipebase_received (rep_pipe q p) of
        None \<Rightarrow> None
      | Some pb \<Rightarrow> (let q1 = rep_pb p pb q in
          map_option (\<lambda>x. q1\<lparr>rp_xrep := x\<rparr>) (nn_xrep_in p (rp_xrep q1))))"
| "rep_do T (Rep_out p) q =
     (case nn_pipebase_sent (rep_pipe q p) of
        None \<Rightarrow> None
      | Some pb \<Rightarrow> (let q1 = rep_pb p pb q in Some (q1\<lparr>rp_xrep := nn_xrep_out p (rp_xrep q1)\<rparr>)))"
| "rep_do T (Rep_rm p) q = map_option (\<lambda>x. q\<lparr>rp_xrep := x\<rparr>) (nn_xrep_rm p (rp_xrep q))"

text \<open>
  A pipe that starts is a new one, and the next key is free: this is so unless a pipe stays while two to the thirty-first others
  have come.
\<close>

fun rep_enabled :: "rep_op \<Rightarrow> 't rep \<Rightarrow> bool" where
  "rep_enabled (Rep_send m) q \<longleftrightarrow> m_sphdr m = []"
| "rep_enabled Rep_recv q \<longleftrightarrow> True"
| "rep_enabled (Rep_start p) q \<longleftrightarrow> pb_state (rep_pipe q p) = PIPEBASE_IDLE \<and> p \<notin> peers (rp_xrep q) \<and>
     prio_ok (pb_rcvprio (rep_pipe q p)) \<and>
     nn_hash_get (xp_outpipes (rp_xrep q)) (xp_next_key (rp_xrep q) AND 0x7fffffff) = None"
| "rep_enabled (Rep_in p) q \<longleftrightarrow> pb_instate (rep_pipe q p) = IO_ASYNC \<and> p \<in> peers (rp_xrep q) \<and>
     known p (xp_inpipes (rp_xrep q))"
| "rep_enabled (Rep_out p) q \<longleftrightarrow> pb_outstate (rep_pipe q p) = IO_ASYNC"
| "rep_enabled (Rep_rm p) q \<longleftrightarrow> p \<in> peers (rp_xrep q) \<and> known p (xp_inpipes (rp_xrep q))"

definition rep_ok :: "'t rep \<Rightarrow> bool" where
  "rep_ok q \<longleftrightarrow> xrep_ok (rp_xrep q) \<and> (\<forall>b. rp_backtrace q = Some b \<longrightarrow> 4 \<le> length b)"

text \<open>Changing a pipe that is not in use.\<close>

lemma rep_pb_ok:
  assumes "rep_ok q" "p \<notin> active (xp_inpipes (rp_xrep q)) \<or> pb_instate pb = pb_instate (rep_pipe q p)"
    and "pb_outstate pb = IO_IDLE \<or> pb_outstate pb = pb_outstate (rep_pipe q p)"
  shows "rep_ok (rep_pb p pb q)"
proof -
  let ?x = "rp_xrep q" and ?n = "put_pipe p pb (xp_net (rp_xrep q))"
  have x: "fq_ok (xp_inpipes ?x) (xp_net ?x)" "can_send (peers ?x) (xp_out ?x) (xp_net ?x)"
    using assms(1) by (simp_all add: rep_ok_def xrep_ok_def)
  have "fq_ok (xp_inpipes ?x) ?n"
    by (rule fq_ok_cong [OF x(1)]) (use assms(2) in \<open>auto simp: put_pipe_def\<close>)
  moreover have "can_send (peers ?x) (xp_out ?x) ?n"
    using can_sendD [OF x(2)] assms(3) by (auto simp: can_send_def put_pipe_def)
  ultimately show ?thesis using assms(1) by (simp add: rep_ok_def rep_pb_def xrep_ok_def)
qed

lemma rep_not_active:
  "rep_ok q \<Longrightarrow> pb_instate (rep_pipe q p) \<noteq> IO_IDLE \<Longrightarrow> p \<notin> active (xp_inpipes (rp_xrep q))"
  by (auto simp: rep_ok_def xrep_ok_def fq_ok_def)

lemma rep_send_ok:
  assumes "rep_ok q" "m_sphdr m = []"
  shows "\<exists>q'. rep_do T (Rep_send m) q = Some q' \<and> rep_ok q'"
proof (cases "rp_backtrace q")
  case None
  then show ?thesis using assms by (simp add: nn_rep_send_def)
next
  case (Some b)
  let ?m = "m\<lparr>m_sphdr := b\<rparr>"
  have x: "xrep_ok (rp_xrep q)" "4 \<le> length (m_sphdr ?m)" using assms(1) Some by (simp_all add: rep_ok_def)
  from xrep_send [OF x, of T] x(1) have "\<exists>f x'. nn_xrep_send T ?m (rp_xrep q) = Some (f, x') \<and> xrep_ok x'"
    by (auto split: option.splits if_splits)
  then show ?thesis using Some assms(2) by (auto simp: nn_rep_send_def rep_ok_def)
qed

lemma rep_recv_ok:
  assumes "rep_ok q" "unsplit T"
  shows "\<exists>q'. rep_do T Rep_recv q = Some q' \<and> rep_ok q'"
proof (cases "active (xp_inpipes (rp_xrep q)) = {}")
  case True
  have "xrep_ok (rp_xrep q)" using assms(1) by (simp add: rep_ok_def)
  with xrep_recv(1) [OF this assms(2) True] show ?thesis by (simp add: nn_rep_recv_def rep_ok_def)
next
  case False
  have "xrep_ok (rp_xrep q)" using assms(1) by (simp add: rep_ok_def)
  from xrep_recv(2) [OF this assms(2) False] obtain p r x' where
    x: "xrep_ok x'" "nn_xrep_recv T (rp_xrep q) = Some (case r of
        Received m' \<Rightarrow> Received (m'\<lparr>m_sphdr := nn_putl (xp_key (rp_xrep q) p) @ m_sphdr m'\<rparr>) | _ \<Rightarrow> r, x')" by blast
  then show ?thesis by (cases r) (simp_all add: nn_rep_recv_def rep_ok_def)
qed

lemma rep_start_ok:
  assumes "rep_ok q" "rep_enabled (Rep_start p) q"
  shows "\<exists>q'. rep_do T (Rep_start p) q = Some q' \<and> rep_ok q'"
proof -
  define pb where "pb = (rep_pipe q p)\<lparr>pb_state := PIPEBASE_ACTIVE, pb_instate := IO_ASYNC, pb_outstate := IO_IDLE, pb_out := True\<rparr>"
  let ?q = "rep_pb p pb q"
  have e: "pb_state (rep_pipe q p) = PIPEBASE_IDLE" "p \<notin> peers (rp_xrep q)" "prio_ok (pb_rcvprio (rep_pipe q p))"
    "nn_hash_get (xp_outpipes (rp_xrep q)) (xp_next_key (rp_xrep q) AND 0x7fffffff) = None" using assms(2) by simp_all
  have st: "nn_pipebase_start True (rep_pipe q p) = Some pb" using e(1) by (simp add: nn_pipebase_start_def pb_def Let_def)
  have "p \<notin> active (xp_inpipes (rp_xrep q))" using assms(1) e(2) by (auto simp: rep_ok_def xrep_ok_def)
  then have ok: "rep_ok ?q" by (intro rep_pb_ok [OF assms(1)]) (simp_all add: pb_def)
  have at: "rep_pipe ?q p = pb" by (simp add: rep_pb_def put_pipe_def)
  have x: "xrep_ok (rp_xrep ?q)" "prio_ok (pb_rcvprio (n_pipes (xp_net (rp_xrep ?q)) p))" "p \<notin> peers (rp_xrep ?q)"
    "nn_hash_get (xp_outpipes (rp_xrep ?q)) (xp_next_key (rp_xrep ?q) AND 0x7fffffff) = None"
    using ok at e(2-4) by (simp_all add: rep_ok_def rep_pb_def pb_def)
  from xrep_add_ok [OF x] obtain x' where
    x': "nn_xrep_add p (rp_xrep ?q) = Some x'" "xrep_ok x'" "xp_net x' = xp_net (rp_xrep ?q)" by blast
  have "xrep_ok (nn_xrep_out p x')" by (rule xrep_out_ok [OF x'(2)]) (use x'(3) at in \<open>simp add: pb_def\<close>)
  then show ?thesis using st x'(1) ok by (simp add: rep_ok_def)
qed

lemma rep_in_ok:
  assumes "rep_ok q" "rep_enabled (Rep_in p) q"
  shows "\<exists>q'. rep_do T (Rep_in p) q = Some q' \<and> rep_ok q'"
proof -
  define pb where "pb = (rep_pipe q p)\<lparr>pb_instate := IO_IDLE, pb_in := True\<rparr>"
  let ?q = "rep_pb p pb q"
  have e: "pb_instate (rep_pipe q p) = IO_ASYNC" "p \<in> peers (rp_xrep q)" "known p (xp_inpipes (rp_xrep q))"
    using assms(2) by simp_all
  have na: "p \<notin> active (xp_inpipes (rp_xrep q))" by (rule rep_not_active [OF assms(1)]) (simp add: e(1))
  have rc: "nn_pipebase_received (rep_pipe q p) = Some pb" using e(1) by (simp add: nn_pipebase_received_def pb_def)
  have ok: "rep_ok ?q" by (rule rep_pb_ok [OF assms(1)]) (use na in \<open>simp_all add: pb_def\<close>)
  have "\<exists>x'. nn_xrep_in p (rp_xrep ?q) = Some x' \<and> xrep_ok x' \<and> active (xp_inpipes x') = insert p (active (xp_inpipes (rp_xrep ?q))) \<and>
      xp_out x' = xp_out (rp_xrep ?q) \<and> xp_net x' = xp_net (rp_xrep ?q)"
    by (rule xrep_in_ok) (use ok e(2,3) na in \<open>simp_all add: rep_ok_def rep_pb_def put_pipe_def pb_def\<close>)
  then show ?thesis using rc ok by (auto simp: rep_ok_def)
qed

lemma rep_out_ok:
  assumes "rep_ok q" "rep_enabled (Rep_out p) q"
  shows "\<exists>q'. rep_do T (Rep_out p) q = Some q' \<and> rep_ok q'"
proof -
  define pb where "pb = (rep_pipe q p)\<lparr>pb_outstate := IO_IDLE, pb_out := True\<rparr>"
  let ?q = "rep_pb p pb q"
  have s: "nn_pipebase_sent (rep_pipe q p) = Some pb" using assms(2) by (simp add: nn_pipebase_sent_def pb_def)
  have ok: "rep_ok ?q" by (rule rep_pb_ok [OF assms(1)]) (simp_all add: pb_def)
  have "xrep_ok (nn_xrep_out p (rp_xrep ?q))"
    by (rule xrep_out_ok) (use ok in \<open>simp_all add: rep_ok_def rep_pb_def put_pipe_def pb_def\<close>)
  then show ?thesis using s ok by (simp add: rep_ok_def Let_def)
qed

lemma rep_do_ok:
  assumes "rep_ok q" "rep_enabled op q" "unsplit T"
  shows "\<exists>q'. rep_do T op q = Some q' \<and> rep_ok q'"
proof (cases op)
  case (Rep_send m)
  with rep_send_ok [OF assms(1)] assms(2) show ?thesis by (simp del: rep_do.simps)
next
  case Rep_recv
  with rep_recv_ok [OF assms(1,3)] show ?thesis by blast
next
  case (Rep_start p)
  with rep_start_ok [OF assms(1)] assms(2) show ?thesis by blast
next
  case (Rep_in p)
  with rep_in_ok [OF assms(1)] assms(2) show ?thesis by blast
next
  case (Rep_out p)
  with rep_out_ok [OF assms(1)] assms(2) show ?thesis by blast
next
  case (Rep_rm p)
  with xrep_rm_ok [of "rp_xrep q" p] assms(1,2) show ?thesis by (auto simp: rep_ok_def)
qed

inductive rep_reach :: "'t transport \<Rightarrow> 't rep \<Rightarrow> bool" for T where
  init: "rep_reach T (nn_rep_init k n)"
| step: "rep_reach T q \<Longrightarrow> rep_enabled op q \<Longrightarrow> rep_do T op q = Some q' \<Longrightarrow> rep_reach T q'"

lemma rep_reach_ok: "rep_reach T q \<Longrightarrow> unsplit T \<Longrightarrow> rep_ok q"
proof (induction rule: rep_reach.induct)
  case (init k n)
  show ?case by (simp add: rep_ok_def nn_rep_init_def xrep_init_ok)
next
  case (step q op q')
  from rep_do_ok [OF step.IH [OF step.prems] step.hyps(2) step.prems] step.hyps(3) show ?case by auto
qed

section \<open>One exchange\<close>






text \<open>A replier with one pipe, which has no request yet.\<close>

lemma rep_started:
  assumes "unsplit T"
  shows "\<exists>q. rep_reach T q \<and> peers (rp_xrep q) = {7} \<and> known 7 (xp_inpipes (rp_xrep q)) \<and>
     active (xp_inpipes (rp_xrep q)) = {} \<and> pb_instate (rep_pipe q 7) = IO_ASYNC \<and> n_trans (xp_net (rp_xrep q)) = ms \<and> xp_out (rp_xrep q) 7"
proof -
  define q0 where "q0 = nn_rep_init 5 \<lparr>n_pipes = (\<lambda>_. nn_pipebase_init 1 1), n_trans = ms\<rparr>"
  define pb where
    "pb = (nn_pipebase_init 1 1)\<lparr>pb_state := PIPEBASE_ACTIVE, pb_instate := IO_ASYNC, pb_outstate := IO_IDLE, pb_out := True\<rparr>"
  let ?q = "rep_pb 7 pb q0"
  have r0: "rep_reach T q0" unfolding q0_def by (rule rep_reach.init)
  have e: "rep_enabled (Rep_start 7) q0"
    by (simp add: q0_def nn_rep_init_def nn_xrep_init_def nn_pipebase_init_def prio_ok_def peers_def get_init)
  have st: "nn_pipebase_start True (rep_pipe q0 7) = Some pb"
    by (simp add: q0_def nn_rep_init_def nn_xrep_init_def nn_pipebase_start_def nn_pipebase_init_def pb_def Let_def)
  have p0: "peers (rp_xrep ?q) = {}"
    by (simp add: rep_pb_def q0_def nn_rep_init_def nn_xrep_init_def peers_def get_init)
  have "rep_ok ?q"
    by (rule rep_pb_ok [OF rep_reach_ok [OF r0 assms]])
      (simp_all add: q0_def nn_rep_init_def nn_xrep_init_def fq_defs pb_def)
  then have x: "xrep_ok (rp_xrep ?q)" by (simp add: rep_ok_def)
  have at: "rep_pipe ?q 7 = pb" "n_trans (xp_net (rp_xrep ?q)) = ms" "active (xp_inpipes (rp_xrep ?q)) = {}"
    by (simp_all add: rep_pb_def put_pipe_def q0_def nn_rep_init_def nn_xrep_init_def fq_defs)
  have h: "nn_hash_get (xp_outpipes (rp_xrep ?q)) (xp_next_key (rp_xrep ?q) AND 0x7fffffff) = None"
    by (simp add: rep_pb_def q0_def nn_rep_init_def nn_xrep_init_def get_init)
  have "prio_ok (pb_rcvprio (rep_pipe ?q 7))" unfolding at by (simp add: pb_def prio_ok_def nn_pipebase_init_def)
  from xrep_add_ok [OF x this _ h] p0 at obtain x1 where
    x1: "nn_xrep_add 7 (rp_xrep ?q) = Some x1" "peers x1 = {7}" "xp_net x1 = xp_net (rp_xrep ?q)"
      "active (xp_inpipes x1) = {}" "pl_priority (xp_inpipes x1) 7 = pb_rcvprio pb" by auto
  let ?q1 = "?q\<lparr>rp_xrep := nn_xrep_out 7 x1\<rparr>"
  have "rep_do T (Rep_start 7) q0 = Some ?q1" using st x1(1) by simp
  from rep_reach.step [OF r0 e this] have "rep_reach T ?q1" .
  moreover have "peers (rp_xrep ?q1) = {7}" "active (xp_inpipes (rp_xrep ?q1)) = {}" "known 7 (xp_inpipes (rp_xrep ?q1))"
    using x1(2,4,5) by (simp_all add: nn_xrep_out_def known_def pb_def nn_pipebase_init_def NN_PRIOLIST_SLOTS_def)
  moreover have "pb_instate (rep_pipe ?q1 7) = IO_ASYNC" "n_trans (xp_net (rp_xrep ?q1)) = ms"
    "xp_out (rp_xrep ?q1) 7" using x1(3) at by (simp_all add: nn_xrep_out_def pb_def)
  ultimately show ?thesis by blast
qed







section \<open>The properties\<close>

text \<open>
  C23: Whatever the users, the pipes and the peers do, the replier's socket fails no assertion; each pipe a request can come
  from is in the table under its own key, and no key has the bit that marks the bottom of the stack.
\<close>

theorem replier_never_aborts:
  assumes "rep_reach T q" "unsplit T" "rep_enabled op q"
  shows "(\<exists>q'. rep_do T op q = Some q') \<and>
    (\<forall>p \<in> active (xp_inpipes (rp_xrep q)). nn_hash_get (xp_outpipes (rp_xrep q)) (xp_key (rp_xrep q) p) = Some p) \<and>
    (\<forall>k p. nn_hash_get (xp_outpipes (rp_xrep q)) k = Some p \<longrightarrow> k AND 0x80000000 = 0)"
proof -
  have ok: "rep_ok q" by (rule rep_reach_ok [OF assms(1,2)])
  then have "active (xp_inpipes (rp_xrep q)) \<subseteq> peers (rp_xrep q)" "keys_ok (xp_outpipes (rp_xrep q)) (xp_key (rp_xrep q))"
    by (simp_all add: rep_ok_def xrep_ok_def)
  then show ?thesis
    using rep_do_ok [OF ok assms(3,2)] keys_okD [of "xp_outpipes (rp_xrep q)" "xp_key (rp_xrep q)"]
    by (auto simp: peers_def)
qed

theorem replier_never_aborts_witness:
  "\<exists>q q' k. rep_reach list_transport q \<and> nn_hash_get (xp_outpipes (rp_xrep q)) k = Some 7 \<and> k AND 0x80000000 = 0 \<and>
     rep_do list_transport Rep_recv q = Some q'"
proof -
  from rep_started [OF list_transport(1), of "[]"] obtain q where q: "rep_reach list_transport q" "peers (rp_xrep q) = {7}" by blast
  then have k: "nn_hash_get (xp_outpipes (rp_xrep q)) (xp_key (rp_xrep q) 7) = Some 7" by (auto simp: peers_def)
  have e: "rep_enabled Rep_recv q" by simp
  from replier_never_aborts [OF q(1) list_transport(1) e] k q(1) show ?thesis by blast
qed

text \<open>
  A reply whose pipe is gone, or is still sending, is dropped; \<open>nn_send\<close> reports success, the request cannot be answered any more, and the message is not
  terminated: its memory is lost.
\<close>

theorem unsendable_reply_is_leaked:
  assumes "rep_reach T q" "unsplit T" "rp_backtrace q = Some b" "m_sphdr m = []"
    and "\<forall>p. nn_hash_get (xp_outpipes (rp_xrep q)) (nn_getl b) = Some p \<longrightarrow> \<not> xp_out (rp_xrep q) p"
  shows "nn_rep_send T m q = Some (0, Some Leaked, q\<lparr>rp_backtrace := None\<rparr>)"
proof -
  have ok: "xrep_ok (rp_xrep q)" "4 \<le> length (m_sphdr (m\<lparr>m_sphdr := b\<rparr>))"
    using rep_reach_ok [OF assms(1,2)] assms(3) by (simp_all add: rep_ok_def)
  have "nn_xrep_send T (m\<lparr>m_sphdr := b\<rparr>) (rp_xrep q) = Some (Leaked, rp_xrep q)"
    using xrep_send [OF ok, of T] assms(5) by (auto split: option.splits if_splits)
  then show ?thesis using assms(3,4) by (simp add: nn_rep_send_def)
qed

theorem unsendable_reply_is_leaked_witness:
  "\<exists>q b. rep_reach list_transport q \<and> rp_backtrace q = Some b \<and>
     nn_hash_get (xp_outpipes (rp_xrep q)) (nn_getl b) = None \<and>
     nn_rep_send list_transport empty_msg q = Some (0, Some Leaked, q\<lparr>rp_backtrace := None\<rparr>)"
proof -
  let ?ms = "[\<lparr>m_sphdr = [], m_body = tag 3 @ [1, 2]\<rparr>]"
  from rep_started [OF list_transport(1), of ?ms] obtain q1 where
    q1: "rep_reach list_transport q1" "peers (rp_xrep q1) = {7}" "known 7 (xp_inpipes (rp_xrep q1))"
      "active (xp_inpipes (rp_xrep q1)) = {}" "pb_instate (rep_pipe q1 7) = IO_ASYNC" "n_trans (xp_net (rp_xrep q1)) = ?ms"
    by blast
  define pb where "pb = (rep_pipe q1 7)\<lparr>pb_instate := IO_IDLE, pb_in := True\<rparr>"
  let ?q = "rep_pb 7 pb q1"
  have rc: "nn_pipebase_received (rep_pipe q1 7) = Some pb" using q1(5) by (simp add: nn_pipebase_received_def pb_def)
  have "rep_ok ?q"
    by (rule rep_pb_ok [OF rep_reach_ok [OF q1(1) list_transport(1)]]) (use q1(4) in \<open>simp_all add: pb_def\<close>)
  then have "xrep_ok (rp_xrep ?q)" by (simp add: rep_ok_def)
  then have "\<exists>x'. nn_xrep_in 7 (rp_xrep ?q) = Some x' \<and> xrep_ok x' \<and> active (xp_inpipes x') = insert 7 (active (xp_inpipes (rp_xrep ?q))) \<and>
      xp_out x' = xp_out (rp_xrep ?q) \<and> xp_net x' = xp_net (rp_xrep ?q)"
    by (rule xrep_in_ok) (use q1 in \<open>simp_all add: rep_pb_def put_pipe_def pb_def\<close>)
  then obtain x2 where x2: "nn_xrep_in 7 (rp_xrep ?q) = Some x2" "xrep_ok x2" "active (xp_inpipes x2) = {7}"
    "xp_net x2 = xp_net (rp_xrep ?q)" using q1(4) by (auto simp: rep_pb_def)
  let ?q2 = "?q\<lparr>rp_xrep := x2\<rparr>"
  have "rep_enabled (Rep_in 7) q1" using q1 by simp
  moreover have "rep_do list_transport (Rep_in 7) q1 = Some ?q2" using rc x2(1) by simp
  ultimately have r2: "rep_reach list_transport ?q2" by (rule rep_reach.step [OF q1(1)])
  have x: "xrep_ok (rp_xrep ?q2)" "active (xp_inpipes (rp_xrep ?q2)) = {7}" using x2 by simp_all
  have t: "t_recv list_transport 7 (n_trans (xp_net (rp_xrep ?q2))) =
      (False, carried False \<lparr>m_sphdr = tag 3, m_body = [1, 2]\<rparr>, False, [])"
    using x2(4) q1(6) by (simp add: list_transport_def carried_def rep_pb_def put_pipe_def)
  from rep_recv_request [OF x(1) list_transport(1) x(2) t] obtain x3 where
    x3: "nn_rep_recv list_transport ?q2 = Some (0, Some \<lparr>m_sphdr = [], m_body = [1, 2]\<rparr>,
        ?q2\<lparr>rp_xrep := x3, rp_backtrace := Some (nn_putl (xp_key x2 7) @ tag 3)\<rparr>)"
      "xrep_ok x3" "nn_hash_get (xp_outpipes x3) (xp_key x2 7) = Some 7" "xp_key x3 = xp_key x2"
      "pl_priority (xp_inpipes x3) = pl_priority (xp_inpipes x2)" by auto
  let ?q3 = "?q2\<lparr>rp_xrep := x3, rp_backtrace := Some (nn_putl (xp_key x2 7) @ tag 3)\<rparr>"
  have "rep_do list_transport Rep_recv ?q2 = Some ?q3" using x3(1) by simp
  then have r3: "rep_reach list_transport ?q3" by (rule rep_reach.step [OF r2, of Rep_recv, rotated]) simp
  have "pl_priority (xp_inpipes x2) = pl_priority (xp_inpipes (rp_xrep ?q))"
    using x2(1) by (auto simp: nn_xrep_in_def fq_defs nn_priolist_activate_def put_sl_def Let_def split: if_splits)
  then have k3: "known 7 (xp_inpipes x3)" using q1(3) x3(5) by (simp add: known_def rep_pb_def)
  have p3: "7 \<in> peers x3" using x3(3,4) by (simp add: peers_def)
  from xrep_rm_ok [OF x3(2) p3 k3] obtain x4 where
    x4: "nn_xrep_rm 7 x3 = Some x4" "nn_hash_get (xp_outpipes x4) = (nn_hash_get (xp_outpipes x3))(xp_key x3 7 := None)" by blast
  let ?q4 = "?q3\<lparr>rp_xrep := x4\<rparr>"
  have "rep_enabled (Rep_rm 7) ?q3" using k3 p3 by simp
  moreover have "rep_do list_transport (Rep_rm 7) ?q3 = Some ?q4" using x4(1) by simp
  ultimately have r4: "rep_reach list_transport ?q4" by (rule rep_reach.step [OF r3])
  have g: "nn_hash_get (xp_outpipes (rp_xrep ?q4)) (xp_key x2 7) = None" using x4(2) x3(4) by simp
  have b: "rp_backtrace ?q4 = Some (nn_putl (xp_key x2 7) @ tag 3)" by simp
  have "nn_rep_send list_transport empty_msg ?q4 = Some (0, Some Leaked, ?q4\<lparr>rp_backtrace := None\<rparr>)"
    by (rule unsendable_reply_is_leaked [OF r4 list_transport(1) b]) (use g in \<open>simp_all add: empty_msg_def\<close>)
  with r4 b g show ?thesis by (intro exI [of _ ?q4] exI [of _ "nn_putl (xp_key x2 7) @ tag 3"]) simp
qed

end
