(* ===== verification/Nn_Dist.thy ===== *)
theory Nn_Dist
  imports Nn_Req_Spec
begin

text \<open>
  The two other ways the sockets of nanomsg use their pipes: the distributor, \<open>protocols/utils/dist.c\<close>, which sends
  a message to all pipes that can send, and the exclusive pipe, \<open>excl.c\<close>, for sockets with a single peer.

  As in \<open>Nn_Pipes\<close> a failed assertion is \<open>None\<close>. Copies of a message are the message itself.
\<close>

definition EISCONN :: int where "EISCONN = 106"

section \<open>The distributor\<close>

record nn_dist =
  d_count :: u32
  d_pipes :: "nat list"

definition nn_dist_init :: nn_dist where
  "nn_dist_init = \<lparr>d_count = 0, d_pipes = []\<rparr>"

definition nn_dist_term :: "nn_dist \<Rightarrow> unit option" where
  "nn_dist_term self = (if d_count self = 0 \<and> d_pipes self = [] then Some () else None)"

text \<open>A pipe that is added is in no list yet.\<close>

definition nn_dist_add :: "nn_dist \<Rightarrow> nat \<Rightarrow> nn_dist" where
  "nn_dist_add self pipe = self"

definition nn_dist_rm :: "nn_dist \<Rightarrow> nat \<Rightarrow> nn_dist" where
  "nn_dist_rm self pipe =
     (if pipe \<in> set (d_pipes self)
      then \<lparr>d_count = d_count self - 1, d_pipes = remove1 pipe (d_pipes self)\<rparr> else self)"

definition nn_dist_out :: "nn_dist \<Rightarrow> nat \<Rightarrow> nn_dist option" where
  "nn_dist_out self pipe =
     (if pipe \<in> set (d_pipes self) then None
      else Some \<lparr>d_count = d_count self + 1, d_pipes = d_pipes self @ [pipe]\<rparr>)"

text \<open>The loop over the list; a pipe that is released is erased from it on the way.\<close>

fun dist_loop ::
    "'t transport \<Rightarrow> msg \<Rightarrow> nat option \<Rightarrow> nat list \<Rightarrow> nn_dist \<Rightarrow> 't net \<Rightarrow> (nn_dist \<times> 't net) option" where
  "dist_loop T m exclude [] self n = Some (self, n)"
| "dist_loop T m exclude (p # rest) self n =
     (if Some p = exclude then dist_loop T m exclude rest self n
      else case nn_pipe_send T p m n of
        None \<Rightarrow> None
      | Some (release, n') \<Rightarrow>
          dist_loop T m exclude rest
            (if release then \<lparr>d_count = d_count self - 1, d_pipes = remove1 p (d_pipes self)\<rparr> else self) n')"

definition nn_dist_send :: "'t transport \<Rightarrow> nn_dist \<Rightarrow> msg \<Rightarrow> nat option \<Rightarrow> 't net \<Rightarrow> (nn_dist \<times> 't net) option" where
  "nn_dist_send T self m exclude n =
     (if d_count self = 0 then Some (self, n) else dist_loop T m exclude (d_pipes self) self n)"

section \<open>The exclusive pipe\<close>

record nn_excl =
  ex_pipe :: "nat option"
  ex_in :: "nat option"
  ex_out :: "nat option"

definition nn_excl_init :: nn_excl where
  "nn_excl_init = \<lparr>ex_pipe = None, ex_in = None, ex_out = None\<rparr>"

definition nn_excl_term :: "nn_excl \<Rightarrow> unit option" where
  "nn_excl_term self = (if ex_pipe self = None \<and> ex_in self = None \<and> ex_out self = None then Some () else None)"

definition nn_excl_add :: "nn_excl \<Rightarrow> nat \<Rightarrow> int \<times> nn_excl" where
  "nn_excl_add self pipe = (if ex_pipe self \<noteq> None then (- EISCONN, self) else (0, self\<lparr>ex_pipe := Some pipe\<rparr>))"

definition nn_excl_rm :: "nn_excl \<Rightarrow> nat \<Rightarrow> nn_excl option" where
  "nn_excl_rm self pipe = (if ex_pipe self = None then None else Some nn_excl_init)"

definition nn_excl_in :: "nn_excl \<Rightarrow> nat \<Rightarrow> nn_excl option" where
  "nn_excl_in self pipe =
     (if ex_in self \<noteq> None \<or> Some pipe \<noteq> ex_pipe self then None else Some (self\<lparr>ex_in := Some pipe\<rparr>))"

definition nn_excl_out :: "nn_excl \<Rightarrow> nat \<Rightarrow> nn_excl option" where
  "nn_excl_out self pipe =
     (if ex_out self \<noteq> None \<or> Some pipe \<noteq> ex_pipe self then None else Some (self\<lparr>ex_out := Some pipe\<rparr>))"

definition nn_excl_send :: "'t transport \<Rightarrow> nn_excl \<Rightarrow> msg \<Rightarrow> 't net \<Rightarrow> (int \<times> nn_excl \<times> 't net) option" where
  "nn_excl_send T self m n =
     (case ex_out self of
        None \<Rightarrow> Some (- EAGAIN, self, n)
      | Some p \<Rightarrow>
          (case nn_pipe_send T p m n of
             None \<Rightarrow> None
           | Some (release, n') \<Rightarrow> Some (0, if release then self\<lparr>ex_out := None\<rparr> else self, n')))"

definition nn_excl_recv :: "'t transport \<Rightarrow> nn_excl \<Rightarrow> 't net \<Rightarrow> ((bool \<times> msg) option \<times> nn_excl \<times> 't net) option" where
  "nn_excl_recv T self n =
     (case ex_in self of
        None \<Rightarrow> Some (None, self, n)
      | Some p \<Rightarrow>
          (case nn_pipe_recv T p n of
             None \<Rightarrow> None
           | Some (release, parsed, m, n') \<Rightarrow>
               Some (Some (parsed, m), if release then self\<lparr>ex_in := None\<rparr> else self, n')))"

definition nn_excl_can_send :: "nn_excl \<Rightarrow> bool" where "nn_excl_can_send self \<longleftrightarrow> ex_out self \<noteq> None"
definition nn_excl_can_recv :: "nn_excl \<Rightarrow> bool" where "nn_excl_can_recv self \<longleftrightarrow> ex_in self \<noteq> None"

lemmas excl_defs = nn_excl_init_def nn_excl_add_def nn_excl_rm_def nn_excl_in_def nn_excl_out_def

section \<open>What the distributor does\<close>

text \<open>Each pipe in the list is idle, and counted once.\<close>

definition dist_ok :: "nn_dist \<Rightarrow> 't net \<Rightarrow> bool" where
  "dist_ok d n \<longleftrightarrow> distinct (d_pipes d) \<and> unat (d_count d) = length (d_pipes d) \<and>
     (\<forall>p \<in> set (d_pipes d). pb_outstate (n_pipes n p) = IO_IDLE)"

lemma dist_ok_init: "dist_ok nn_dist_init n"
  by (simp add: dist_ok_def nn_dist_init_def)

lemma dist_ok_cong:
  "dist_ok d n \<Longrightarrow> (\<And>q. q \<in> set (d_pipes d) \<Longrightarrow> pb_outstate (n_pipes n' q) = pb_outstate (n_pipes n q)) \<Longrightarrow> dist_ok d n'"
  by (simp add: dist_ok_def)

lemma count_less:
  assumes "dist_ok d n" "p \<in> set (d_pipes d)"
  shows "dist_ok \<lparr>d_count = d_count d - 1, d_pipes = remove1 p (d_pipes d)\<rparr> n"
proof -
  have "d_pipes d \<noteq> []" using assms(2) by auto
  then have "unat (d_count d) \<noteq> 0" using assms(1) by (simp add: dist_ok_def)
  then have "d_count d \<noteq> 0" by auto
  then have "unat (d_count d - 1) = unat (d_count d) - 1" by (rule unat_minus_one)
  then show ?thesis using assms by (auto simp: dist_ok_def length_remove1 dest: notin_set_remove1)
qed

lemma dist_rm_ok:
  assumes "dist_ok d n"
  shows "dist_ok (nn_dist_rm d p) n" "set (d_pipes (nn_dist_rm d p)) = set (d_pipes d) - {p}"
proof -
  show "dist_ok (nn_dist_rm d p) n" using assms count_less [OF assms] by (simp add: nn_dist_rm_def)
  have "distinct (d_pipes d)" using assms by (simp add: dist_ok_def)
  then show "set (d_pipes (nn_dist_rm d p)) = set (d_pipes d) - {p}" by (simp add: nn_dist_rm_def)
qed

lemma dist_out_ok:
  assumes "dist_ok d n" "p \<notin> set (d_pipes d)" "pb_outstate (n_pipes n p) = IO_IDLE" "d_count d \<noteq> - 1"
  shows "\<exists>d'. nn_dist_out d p = Some d' \<and> dist_ok d' n \<and> d_pipes d' = d_pipes d @ [p]"
proof -
  have "d_count d + 1 \<noteq> 0" using assms(4) by (simp add: eq_neg_iff_add_eq_0)
  then have "unat (d_count d + 1) = Suc (unat (d_count d))" by (simp add: unatSuc add.commute)
  then show ?thesis using assms(1-3) by (simp add: nn_dist_out_def dist_ok_def)
qed

text \<open>What is sent, and to whom, one after the other.\<close>

definition sent_to_all :: "'t transport \<Rightarrow> msg \<Rightarrow> nat list \<Rightarrow> 't \<Rightarrow> 't" where
  "sent_to_all T m ps t = fold (\<lambda>p t. snd (t_send T p m t)) ps t"

lemma dist_loop:
  assumes "dist_ok d n" "set ps \<subseteq> set (d_pipes d)" "distinct ps"
  shows "\<exists>d' n'. dist_loop T m ex ps d n = Some (d', n') \<and> dist_ok d' n' \<and>
    n_trans n' = sent_to_all T m (filter (\<lambda>p. Some p \<noteq> ex) ps) (n_trans n) \<and>
    set (d_pipes d) - {p \<in> set ps. Some p \<noteq> ex} \<subseteq> set (d_pipes d') \<and> set (d_pipes d') \<subseteq> set (d_pipes d) \<and>
    (\<forall>q. pb_instate (n_pipes n' q) = pb_instate (n_pipes n q))"
  using assms
proof (induction ps arbitrary: d n)
  case Nil
  then show ?case by (simp add: sent_to_all_def)
next
  case (Cons p ps)
  show ?case
  proof (cases "Some p = ex")
    case True
    with Cons.IH [OF Cons.prems(1)] Cons.prems(2,3) obtain d' n' where
      *: "dist_loop T m ex ps d n = Some (d', n')" "dist_ok d' n'"
      "n_trans n' = sent_to_all T m (filter (\<lambda>p. Some p \<noteq> ex) ps) (n_trans n)"
      "set (d_pipes d) - {p \<in> set ps. Some p \<noteq> ex} \<subseteq> set (d_pipes d')" "set (d_pipes d') \<subseteq> set (d_pipes d)"
      "\<forall>q. pb_instate (n_pipes n' q) = pb_instate (n_pipes n q)" by auto
    have "{q \<in> set (p # ps). Some q \<noteq> ex} = {q \<in> set ps. Some q \<noteq> ex}" using True by auto
    with * True show ?thesis by auto
  next
    case False
    have i: "pb_outstate (n_pipes n p) = IO_IDLE" using Cons.prems(1,2) by (simp add: dist_ok_def)
    obtain sync t where s: "t_send T p m (n_trans n) = (sync, t)" by (metis surj_pair)
    from pipe_send [OF i s] obtain n1 where n1: "nn_pipe_send T p m n = Some (\<not> sync, n1)" "n_trans n1 = t"
      "pb_outstate (n_pipes n1 p) = (if sync then IO_IDLE else IO_ASYNC)"
      "pb_instate (n_pipes n1 p) = pb_instate (n_pipes n p)" "\<forall>q. q \<noteq> p \<longrightarrow> n_pipes n1 q = n_pipes n q" by blast
    let ?d = "if \<not> sync then \<lparr>d_count = d_count d - 1, d_pipes = remove1 p (d_pipes d)\<rparr> else d"
    have p: "p \<in> set (d_pipes d)" "p \<notin> set ps" "distinct ps" "distinct (d_pipes d)"
      using Cons.prems by (auto simp: dist_ok_def)
    have "dist_ok ?d n" using Cons.prems(1) count_less [OF Cons.prems(1) p(1)] by simp
    then have ok: "dist_ok ?d n1"
    proof (rule dist_ok_cong)
      fix q assume "q \<in> set (d_pipes ?d)"
      then show "pb_outstate (n_pipes n1 q) = pb_outstate (n_pipes n q)"
        using n1(3,5) i p(4) by (cases "q = p") (auto split: if_splits)
    qed
    have sub: "set ps \<subseteq> set (d_pipes ?d)" using Cons.prems(2) p by auto
    from Cons.IH [OF ok sub p(3)] obtain d' n' where
      *: "dist_loop T m ex ps ?d n1 = Some (d', n')" "dist_ok d' n'"
      "n_trans n' = sent_to_all T m (filter (\<lambda>p. Some p \<noteq> ex) ps) (n_trans n1)"
      "set (d_pipes ?d) - {p \<in> set ps. Some p \<noteq> ex} \<subseteq> set (d_pipes d')" "set (d_pipes d') \<subseteq> set (d_pipes ?d)"
      "\<forall>q. pb_instate (n_pipes n' q) = pb_instate (n_pipes n1 q)" by blast
    have "n_trans n' = sent_to_all T m (filter (\<lambda>p. Some p \<noteq> ex) (p # ps)) (n_trans n)"
      using *(3) False n1(2) s by (simp add: sent_to_all_def)
    moreover have "set (d_pipes d) - {q \<in> set (p # ps). Some q \<noteq> ex} \<subseteq> set (d_pipes d')"
      using *(4) False p(4) by (auto split: if_splits)
    moreover have "set (d_pipes d') \<subseteq> set (d_pipes d)" using *(5) p(4) by (auto split: if_splits)
    moreover have "pb_instate (n_pipes n' q) = pb_instate (n_pipes n q)" for q
      using *(6) n1(4,5) by (cases "q = p") simp_all
    ultimately show ?thesis using False n1(1) *(1,2) by simp
  qed
qed

text \<open>Every pipe in the list but the excluded one is sent the message once, in the order of the list.\<close>

lemma dist_send:
  assumes "dist_ok d n"
  shows "\<exists>d' n'. nn_dist_send T d m ex n = Some (d', n') \<and> dist_ok d' n' \<and>
    n_trans n' = sent_to_all T m (filter (\<lambda>p. Some p \<noteq> ex) (d_pipes d)) (n_trans n) \<and>
    set (d_pipes d') \<subseteq> set (d_pipes d) \<and> (\<forall>q. pb_instate (n_pipes n' q) = pb_instate (n_pipes n q))"
proof (cases "d_count d = 0")
  case True
  then have "d_pipes d = []" using assms by (simp add: dist_ok_def)
  with True assms show ?thesis by (simp add: nn_dist_send_def sent_to_all_def)
next
  case False
  have "distinct (d_pipes d)" using assms by (simp add: dist_ok_def)
  from dist_loop [OF assms subset_refl this, of T m ex] False show ?thesis by (auto simp: nn_dist_send_def)
qed

section \<open>What the exclusive pipe does\<close>

definition excl_ok :: "nn_excl \<Rightarrow> 't net \<Rightarrow> bool" where
  "excl_ok e n \<longleftrightarrow> (\<forall>p. ex_in e = Some p \<longrightarrow> ex_pipe e = Some p \<and> pb_instate (n_pipes n p) = IO_IDLE) \<and>
     (\<forall>p. ex_out e = Some p \<longrightarrow> ex_pipe e = Some p \<and> pb_outstate (n_pipes n p) = IO_IDLE)"

lemma excl_send:
  assumes "excl_ok e n"
  shows "ex_out e = None \<Longrightarrow> nn_excl_send T e m n = Some (- EAGAIN, e, n)"
    and "ex_out e = Some p \<Longrightarrow> \<exists>e' n'. nn_excl_send T e m n = Some (0, e', n') \<and> excl_ok e' n' \<and>
      ex_pipe e' = ex_pipe e \<and> ex_in e' = ex_in e \<and> n_trans n' = snd (t_send T p m (n_trans n))"
proof -
  show "ex_out e = None \<Longrightarrow> nn_excl_send T e m n = Some (- EAGAIN, e, n)" by (simp add: nn_excl_send_def)
  assume o: "ex_out e = Some p"
  then have i: "ex_pipe e = Some p" "pb_outstate (n_pipes n p) = IO_IDLE" using assms by (simp_all add: excl_ok_def)
  obtain sync t where s: "t_send T p m (n_trans n) = (sync, t)" by (metis surj_pair)
  from pipe_send [OF i(2) s] obtain n' where n': "nn_pipe_send T p m n = Some (\<not> sync, n')" "n_trans n' = t"
    "pb_outstate (n_pipes n' p) = (if sync then IO_IDLE else IO_ASYNC)"
    "pb_instate (n_pipes n' p) = pb_instate (n_pipes n p)" "\<forall>q. q \<noteq> p \<longrightarrow> n_pipes n' q = n_pipes n q" by blast
  then show "\<exists>e' n'. nn_excl_send T e m n = Some (0, e', n') \<and> excl_ok e' n' \<and>
      ex_pipe e' = ex_pipe e \<and> ex_in e' = ex_in e \<and> n_trans n' = snd (t_send T p m (n_trans n))"
    using o i(1) assms s by (auto simp: nn_excl_send_def excl_ok_def)
qed

lemma excl_recv:
  assumes "excl_ok e n"
  shows "ex_in e = None \<Longrightarrow> nn_excl_recv T e n = Some (None, e, n)"
    and "ex_in e = Some p \<Longrightarrow> \<exists>parsed m nxt t e' n'. t_recv T p (n_trans n) = (parsed, m, nxt, t) \<and>
      nn_excl_recv T e n = Some (Some (parsed, m), e', n') \<and> excl_ok e' n' \<and> ex_pipe e' = ex_pipe e \<and>
      ex_out e' = ex_out e \<and> n_trans n' = t \<and> ex_in e' = (if nxt then Some p else None)"
proof -
  show "ex_in e = None \<Longrightarrow> nn_excl_recv T e n = Some (None, e, n)" by (simp add: nn_excl_recv_def)
  assume o: "ex_in e = Some p"
  then have i: "ex_pipe e = Some p" "pb_instate (n_pipes n p) = IO_IDLE" using assms by (simp_all add: excl_ok_def)
  obtain parsed m nxt t where s: "t_recv T p (n_trans n) = (parsed, m, nxt, t)" by (metis prod_cases4)
  from pipe_recv [OF i(2) s] obtain n' where n': "nn_pipe_recv T p n = Some (\<not> nxt, parsed, m, n')" "n_trans n' = t"
    "pb_instate (n_pipes n' p) = (if nxt then IO_IDLE else IO_ASYNC)"
    "pb_outstate (n_pipes n' p) = pb_outstate (n_pipes n p)" "\<forall>q. q \<noteq> p \<longrightarrow> n_pipes n' q = n_pipes n q" by blast
  then show "\<exists>parsed m nxt t e' n'. t_recv T p (n_trans n) = (parsed, m, nxt, t) \<and>
      nn_excl_recv T e n = Some (Some (parsed, m), e', n') \<and> excl_ok e' n' \<and> ex_pipe e' = ex_pipe e \<and>
      ex_out e' = ex_out e \<and> n_trans n' = t \<and> ex_in e' = (if nxt then Some p else None)"
    using o i(1) assms s by (auto simp: nn_excl_recv_def excl_ok_def)
qed

end
