(* ===== verification/Nn_Survey.thy ===== *)
theory Nn_Survey
  imports Nn_Dist
begin

text \<open>
  The survey protocol of nanomsg: the surveyor (\<open>protocols/survey/xsurveyor.c\<close> and the state machine of \<open>surveyor.c\<close> above it), which
  asks all its peers and collects the responses until a deadline, and the respondent (\<open>xrespondent.c\<close>, \<open>respondent.c\<close>).

  Pipes, transport and failed assertions are as in \<open>Nn_Pipes\<close>, the timer as in \<open>Nn_Req\<close>.
\<close>

section \<open>The raw surveyor\<close>

record 't xsurveyor =
  xv_outpipes :: nn_dist
  xv_inpipes :: nn_priolist
  xv_net :: "'t net"

definition nn_xsurveyor_init :: "'t net \<Rightarrow> 't xsurveyor" where
  "nn_xsurveyor_init n = \<lparr>xv_outpipes = nn_dist_init, xv_inpipes = nn_fq_init, xv_net = n\<rparr>"

definition nn_xsurveyor_add :: "nat \<Rightarrow> 't xsurveyor \<Rightarrow> 't xsurveyor option" where
  "nn_xsurveyor_add pipe self =
     (let rcvprio = pb_rcvprio (n_pipes (xv_net self) pipe) in
      if \<not> (1 \<le> rcvprio \<and> rcvprio \<le> 16) then None
      else Some (self\<lparr>xv_inpipes := nn_fq_add (xv_inpipes self) pipe rcvprio,
        xv_outpipes := nn_dist_add (xv_outpipes self) pipe\<rparr>))"

definition nn_xsurveyor_rm :: "nat \<Rightarrow> 't xsurveyor \<Rightarrow> 't xsurveyor" where
  "nn_xsurveyor_rm pipe self =
     self\<lparr>xv_inpipes := nn_fq_rm (xv_inpipes self) pipe, xv_outpipes := nn_dist_rm (xv_outpipes self) pipe\<rparr>"

definition nn_xsurveyor_in :: "nat \<Rightarrow> 't xsurveyor \<Rightarrow> 't xsurveyor option" where
  "nn_xsurveyor_in pipe self = map_option (\<lambda>fq. self\<lparr>xv_inpipes := fq\<rparr>) (nn_fq_in (xv_inpipes self) pipe)"

definition nn_xsurveyor_out :: "nat \<Rightarrow> 't xsurveyor \<Rightarrow> 't xsurveyor option" where
  "nn_xsurveyor_out pipe self = map_option (\<lambda>d. self\<lparr>xv_outpipes := d\<rparr>) (nn_dist_out (xv_outpipes self) pipe)"

definition nn_xsurveyor_events :: "'t xsurveyor \<Rightarrow> bool \<times> bool" where
  "nn_xsurveyor_events self = (nn_fq_can_recv (xv_inpipes self), True)"

definition nn_xsurveyor_send :: "'t transport \<Rightarrow> msg \<Rightarrow> 't xsurveyor \<Rightarrow> (int \<times> 't xsurveyor) option" where
  "nn_xsurveyor_send T m self =
     (case nn_dist_send T (xv_outpipes self) m None (xv_net self) of
        None \<Rightarrow> None
      | Some (d, n) \<Rightarrow> Some (0, self\<lparr>xv_outpipes := d, xv_net := n\<rparr>))"

text \<open>The header is split off as in the requester's raw socket.\<close>

definition nn_xsurveyor_recv :: "'t transport \<Rightarrow> 't xsurveyor \<Rightarrow> (received \<times> 't xsurveyor) option" where
  "nn_xsurveyor_recv T self =
     (case nn_fq_recv T (xv_inpipes self) (xv_net self) of
        None \<Rightarrow> None
      | Some (None, fq, n) \<Rightarrow> Some (Nothing_there, self\<lparr>xv_inpipes := fq, xv_net := n\<rparr>)
      | Some (Some (p, parsed, m), fq, n) \<Rightarrow>
          (case nn_xreq_split parsed m of
             None \<Rightarrow> None
           | Some r \<Rightarrow> Some (r, self\<lparr>xv_inpipes := fq, xv_net := n\<rparr>)))"

definition nn_xsurveyor_setopt :: int where "nn_xsurveyor_setopt = - ENOPROTOOPT"
definition nn_xsurveyor_getopt :: int where "nn_xsurveyor_getopt = - ENOPROTOOPT"

section \<open>The surveyor\<close>

definition NN_SURVEYOR_DEFAULT_DEADLINE :: int where "NN_SURVEYOR_DEFAULT_DEADLINE = 1000"

datatype surveyor_state = SV_IDLE | SV_PASSIVE | SV_ACTIVE | SV_CANCELLING | SV_STOPPING_TIMER | SV_STOPPING

datatype surveyor_event =
    SV_FSM_START | SV_FSM_STOP | SV_ACTION_START | SV_ACTION_CANCEL | DEADLINE_TIMER timer_event

record 't surveyor =
  sv_x :: "'t xsurveyor"
  sv_fsm :: fsm_state
  sv_state :: surveyor_state
  sv_surveyid :: u32
  sv_timer :: nn_timer
  sv_tosend :: msg
  sv_deadline :: int

definition nn_surveyor_inprogress :: "'t surveyor \<Rightarrow> bool" where
  "nn_surveyor_inprogress self \<longleftrightarrow>
     \<not> (sv_state self = SV_IDLE \<or> sv_state self = SV_PASSIVE \<or> sv_state self = SV_STOPPING)"

definition nn_surveyor_resend :: "'t transport \<Rightarrow> 't surveyor \<Rightarrow> 't surveyor option" where
  "nn_surveyor_resend T self =
     (case nn_xsurveyor_send T (sv_tosend self) (sv_x self) of
        None \<Rightarrow> None
      | Some (rc, x) \<Rightarrow> if rc \<noteq> 0 then None else Some (self\<lparr>sv_x := x\<rparr>))"

text \<open>Sending the stored survey and starting its timer, as two states do.\<close>

definition start_survey :: "'t transport \<Rightarrow> 't surveyor \<Rightarrow> 't surveyor option" where
  "start_survey T self =
     (case nn_surveyor_resend T self of
        None \<Rightarrow> None
      | Some self' \<Rightarrow>
          (case nn_timer_start (sv_deadline self') (sv_timer self') of
             None \<Rightarrow> None
           | Some tm \<Rightarrow> Some (self'\<lparr>sv_timer := tm, sv_state := SV_ACTIVE\<rparr>)))"

definition nn_surveyor_handler :: "'t transport \<Rightarrow> surveyor_event \<Rightarrow> 't surveyor \<Rightarrow> 't surveyor option" where
  "nn_surveyor_handler T ev self =
     (case sv_state self of
        SV_IDLE \<Rightarrow> if ev = SV_FSM_START then Some (self\<lparr>sv_state := SV_PASSIVE\<rparr>) else None
      | SV_PASSIVE \<Rightarrow> if ev = SV_ACTION_START then start_survey T self else None
      | SV_ACTIVE \<Rightarrow>
          if ev = SV_ACTION_CANCEL then Some (self\<lparr>sv_timer := nn_timer_stop (sv_timer self), sv_state := SV_CANCELLING\<rparr>)
          else if ev = DEADLINE_TIMER TIMER_TIMEOUT
            then Some (self\<lparr>sv_timer := nn_timer_stop (sv_timer self), sv_state := SV_STOPPING_TIMER\<rparr>)
          else None
      | SV_CANCELLING \<Rightarrow>
          if ev = SV_ACTION_CANCEL then Some self
          else if ev = DEADLINE_TIMER TIMER_STOPPED then start_survey T self
          else None
      | SV_STOPPING_TIMER \<Rightarrow>
          if ev = SV_ACTION_CANCEL then Some (self\<lparr>sv_state := SV_CANCELLING\<rparr>)
          else if ev = DEADLINE_TIMER TIMER_STOPPED then Some (self\<lparr>sv_state := SV_PASSIVE\<rparr>)
          else None
      | SV_STOPPING \<Rightarrow> None)"

definition nn_surveyor_shutdown :: "surveyor_event \<Rightarrow> 't surveyor \<Rightarrow> 't surveyor option" where
  "nn_surveyor_shutdown ev self =
     (let self' = (if ev = SV_FSM_STOP
         then self\<lparr>sv_timer := nn_timer_stop (sv_timer self), sv_state := SV_STOPPING\<rparr> else self) in
      if sv_state self' \<noteq> SV_STOPPING then None
      else if \<not> nn_timer_isidle (sv_timer self') then Some self'
      else Some (self'\<lparr>sv_state := SV_IDLE, sv_fsm := FSM_IDLE\<rparr>))"

definition surveyor_feed :: "'t transport \<Rightarrow> surveyor_event \<Rightarrow> 't surveyor \<Rightarrow> 't surveyor option" where
  "surveyor_feed T ev self =
     (if sv_fsm self \<noteq> FSM_STOPPING then nn_surveyor_handler T ev self else nn_surveyor_shutdown ev self)"

text \<open>The first identifier is a random number.\<close>

definition nn_surveyor_init :: "u32 \<Rightarrow> 't net \<Rightarrow> 't surveyor" where
  "nn_surveyor_init surveyid n =
     \<lparr>sv_x = nn_xsurveyor_init n, sv_fsm = FSM_ACTIVE, sv_state = SV_PASSIVE, sv_surveyid = surveyid,
      sv_timer = nn_timer_init, sv_tosend = empty_msg, sv_deadline = NN_SURVEYOR_DEFAULT_DEADLINE\<rparr>"

definition nn_surveyor_stop :: "'t surveyor \<Rightarrow> 't surveyor option" where
  "nn_surveyor_stop self =
     (if sv_fsm self \<noteq> FSM_ACTIVE then Some self
      else nn_surveyor_shutdown SV_FSM_STOP (self\<lparr>sv_fsm := FSM_STOPPING\<rparr>))"

definition nn_surveyor_events :: "'t surveyor \<Rightarrow> bool \<times> bool" where
  "nn_surveyor_events self =
     (let (i, o') = nn_xsurveyor_events (sv_x self) in (i \<or> \<not> nn_surveyor_inprogress self, o'))"

definition nn_surveyor_send :: "'t transport \<Rightarrow> msg \<Rightarrow> 't surveyor \<Rightarrow> (int \<times> 't surveyor) option" where
  "nn_surveyor_send T m self0 =
     (let id = sv_surveyid self0 + 1 in
      if m_sphdr m \<noteq> [] then None
      else let self = self0\<lparr>sv_surveyid := id, sv_tosend := m\<lparr>m_sphdr := nn_putl id\<rparr>\<rparr> in
        if nn_surveyor_inprogress self then
          if \<not> snd (nn_xsurveyor_events (sv_x self)) then Some (- EAGAIN, self)
          else map_option (Pair 0) (surveyor_feed T SV_ACTION_CANCEL self)
        else map_option (Pair 0) (surveyor_feed T SV_ACTION_START self))"

text \<open>
  The loop over the responses. Stale ones are passed over; \<open>lost\<close> counts them, since none is terminated and the next
  message is received over it.
\<close>

definition response_ok :: "'t surveyor \<Rightarrow> msg \<Rightarrow> bool" where
  "response_ok self m \<longleftrightarrow> length (m_sphdr m) = 4 \<and> nn_getl (m_sphdr m) = sv_surveyid self"

partial_function (option) surveyor_recv_loop ::
    "'t transport \<Rightarrow> nat \<Rightarrow> 't surveyor \<Rightarrow> (int \<times> msg option \<times> nat \<times> 't surveyor) option option" where
  "surveyor_recv_loop T lost self =
     (if nn_xsurveyor_recv T (sv_x self) = None then Some None
      else let r = fst (the (nn_xsurveyor_recv T (sv_x self)));
               self' = self\<lparr>sv_x := snd (the (nn_xsurveyor_recv T (sv_x self)))\<rparr> in
        if r = Nothing_there \<or> malformed r then Some (Some (- EAGAIN, None, lost, self'))
        else if \<not> response_ok self' (case r of Received m \<Rightarrow> m | _ \<Rightarrow> empty_msg)
          then surveyor_recv_loop T (lost + 1) self'
        else Some (Some (0, Some ((case r of Received m \<Rightarrow> m | _ \<Rightarrow> empty_msg)\<lparr>m_sphdr := []\<rparr>), lost, self')))"

definition nn_surveyor_recv :: "'t transport \<Rightarrow> 't surveyor \<Rightarrow> (int \<times> msg option \<times> nat \<times> 't surveyor) option option" where
  "nn_surveyor_recv T self =
     (if \<not> nn_surveyor_inprogress self then Some (Some (- EFSM, None, 0, self))
      else surveyor_recv_loop T 0 self)"

definition NN_SURVEYOR :: int where "NN_SURVEYOR = 96"
definition NN_SURVEYOR_DEADLINE :: int where "NN_SURVEYOR_DEADLINE = 1"

definition nn_surveyor_setopt :: "int \<Rightarrow> int \<Rightarrow> int \<Rightarrow> nat \<Rightarrow> 't surveyor \<Rightarrow> int \<times> 't surveyor" where
  "nn_surveyor_setopt level option optval optvallen self =
     (if level \<noteq> NN_SURVEYOR then (- ENOPROTOOPT, self)
      else if option = NN_SURVEYOR_DEADLINE then
        if optvallen \<noteq> 4 then (- EINVAL_opt, self) else (0, self\<lparr>sv_deadline := optval\<rparr>)
      else (- ENOPROTOOPT, self))"

definition nn_surveyor_getopt :: "int \<Rightarrow> int \<Rightarrow> nat \<Rightarrow> 't surveyor \<Rightarrow> int + int \<times> nat" where
  "nn_surveyor_getopt level option optvallen self =
     (if level \<noteq> NN_SURVEYOR then Inl (- ENOPROTOOPT)
      else if option = NN_SURVEYOR_DEADLINE then
        if optvallen < 4 then Inl (- EINVAL_opt) else Inr (sv_deadline self, 4)
      else Inl (- ENOPROTOOPT))"

text \<open>What comes from the worker thread to the timer, and from the timer to the socket.\<close>

definition surveyor_timer :: "'t transport \<Rightarrow> timer_src \<Rightarrow> 't surveyor \<Rightarrow> 't surveyor option" where
  "surveyor_timer T src self =
     (case nn_timer_feed src (sv_timer self) of
        None \<Rightarrow> None
      | Some (None, tm) \<Rightarrow> Some (self\<lparr>sv_timer := tm\<rparr>)
      | Some (Some ev, tm) \<Rightarrow> surveyor_feed T (DEADLINE_TIMER ev) (self\<lparr>sv_timer := tm\<rparr>))"

section \<open>The respondent\<close>

record 't xrespondent =
  xd_excl :: nn_excl
  xd_net :: "'t net"

definition nn_xrespondent_init :: "'t net \<Rightarrow> 't xrespondent" where
  "nn_xrespondent_init n = \<lparr>xd_excl = nn_excl_init, xd_net = n\<rparr>"

definition nn_xrespondent_add :: "nat \<Rightarrow> 't xrespondent \<Rightarrow> int \<times> 't xrespondent" where
  "nn_xrespondent_add pipe self = (case nn_excl_add (xd_excl self) pipe of (rc, e) \<Rightarrow> (rc, self\<lparr>xd_excl := e\<rparr>))"

definition nn_xrespondent_rm :: "nat \<Rightarrow> 't xrespondent \<Rightarrow> 't xrespondent option" where
  "nn_xrespondent_rm pipe self = map_option (\<lambda>e. self\<lparr>xd_excl := e\<rparr>) (nn_excl_rm (xd_excl self) pipe)"

definition nn_xrespondent_in :: "nat \<Rightarrow> 't xrespondent \<Rightarrow> 't xrespondent option" where
  "nn_xrespondent_in pipe self = map_option (\<lambda>e. self\<lparr>xd_excl := e\<rparr>) (nn_excl_in (xd_excl self) pipe)"

definition nn_xrespondent_out :: "nat \<Rightarrow> 't xrespondent \<Rightarrow> 't xrespondent option" where
  "nn_xrespondent_out pipe self = map_option (\<lambda>e. self\<lparr>xd_excl := e\<rparr>) (nn_excl_out (xd_excl self) pipe)"

definition nn_xrespondent_events :: "'t xrespondent \<Rightarrow> bool \<times> bool" where
  "nn_xrespondent_events self = (nn_excl_can_recv (xd_excl self), nn_excl_can_send (xd_excl self))"

definition nn_xrespondent_send :: "'t transport \<Rightarrow> msg \<Rightarrow> 't xrespondent \<Rightarrow> (int \<times> 't xrespondent) option" where
  "nn_xrespondent_send T m self =
     (case nn_excl_send T (xd_excl self) m (xd_net self) of
        None \<Rightarrow> None
      | Some (rc, e, n) \<Rightarrow> Some (rc, self\<lparr>xd_excl := e, xd_net := n\<rparr>))"

text \<open>Here a header that is there already is replaced.\<close>

definition nn_xrespondent_split :: "bool \<Rightarrow> msg \<Rightarrow> received" where
  "nn_xrespondent_split parsed m =
     (if parsed then Received m
      else if length (m_body m) < 4 then Malformed m
      else Received \<lparr>m_sphdr = take 4 (m_body m), m_body = drop 4 (m_body m)\<rparr>)"

definition nn_xrespondent_recv :: "'t transport \<Rightarrow> 't xrespondent \<Rightarrow> (received \<times> 't xrespondent) option" where
  "nn_xrespondent_recv T self =
     (case nn_excl_recv T (xd_excl self) (xd_net self) of
        None \<Rightarrow> None
      | Some (None, e, n) \<Rightarrow> Some (Nothing_there, self\<lparr>xd_excl := e, xd_net := n\<rparr>)
      | Some (Some (parsed, m), e, n) \<Rightarrow> Some (nn_xrespondent_split parsed m, self\<lparr>xd_excl := e, xd_net := n\<rparr>))"

definition nn_xrespondent_setopt :: int where "nn_xrespondent_setopt = - ENOPROTOOPT"
definition nn_xrespondent_getopt :: int where "nn_xrespondent_getopt = - ENOPROTOOPT"

record 't respondent =
  rd_x :: "'t xrespondent"
  rd_surveyid :: u32
  rd_inprogress :: bool

definition nn_respondent_init :: "u32 \<Rightarrow> 't net \<Rightarrow> 't respondent" where
  "nn_respondent_init anything n = \<lparr>rd_x = nn_xrespondent_init n, rd_surveyid = anything, rd_inprogress = False\<rparr>"

definition nn_respondent_events :: "'t respondent \<Rightarrow> bool \<times> bool" where
  "nn_respondent_events self =
     (let (i, o') = nn_xrespondent_events (rd_x self) in (i, o' \<and> rd_inprogress self))"

text \<open>The result, and whether the message has been terminated, which happens also when the result tells the caller to try it again.\<close>

definition nn_respondent_send :: "'t transport \<Rightarrow> msg \<Rightarrow> 't respondent \<Rightarrow> (int \<times> bool \<times> 't respondent) option" where
  "nn_respondent_send T m self =
     (if \<not> rd_inprogress self then Some (- EFSM, False, self)
      else if m_sphdr m \<noteq> [] then None
      else case nn_xrespondent_send T (m\<lparr>m_sphdr := nn_putl (rd_surveyid self)\<rparr>) (rd_x self) of
        None \<Rightarrow> None
      | Some (rc, x) \<Rightarrow>
          if rc = - EAGAIN then Some (- EAGAIN, True, self\<lparr>rd_x := x\<rparr>)
          else if rc \<noteq> 0 then None
          else Some (0, False, self\<lparr>rd_x := x, rd_inprogress := False\<rparr>))"

definition nn_respondent_recv :: "'t transport \<Rightarrow> 't respondent \<Rightarrow> (int \<times> msg option \<times> 't respondent) option" where
  "nn_respondent_recv T self0 =
     (let self = self0\<lparr>rd_inprogress := False\<rparr> in
      case nn_xrespondent_recv T (rd_x self) of
        None \<Rightarrow> None
      | Some (Received m, x) \<Rightarrow>
          if length (m_sphdr m) \<noteq> 4 then None
          else Some (0, Some (m\<lparr>m_sphdr := []\<rparr>),
            self\<lparr>rd_x := x, rd_surveyid := nn_getl (m_sphdr m), rd_inprogress := True\<rparr>)
      | Some (r, x) \<Rightarrow> Some (- EAGAIN, None, self\<lparr>rd_x := x\<rparr>))"

end
