(* ===== verification/Nn_Survey_Spec.thy ===== *)
theory Nn_Survey_Spec
  imports Nn_Survey
begin

text \<open>
  What the surveyor keeps: its pipes are used only when they are idle, and the deadline timer runs exactly while a survey is
  collecting responses. Every operation and every event that can come keeps it and fails no assertion, but for the start of a survey with a
  negative deadline.
\<close>

section \<open>The raw surveyor\<close>

definition xsv_ok :: "'t xsurveyor \<Rightarrow> bool" where
  "xsv_ok x \<longleftrightarrow> fq_ok (xv_inpipes x) (xv_net x) \<and> dist_ok (xv_outpipes x) (xv_net x)"

text \<open>A survey goes to every pipe that can send.\<close>

lemma xsv_send:
  assumes "xsv_ok x"
  shows "\<exists>x'. nn_xsurveyor_send T m x = Some (0, x') \<and> xsv_ok x' \<and> xv_inpipes x' = xv_inpipes x \<and>
    n_trans (xv_net x') = sent_to_all T m (d_pipes (xv_outpipes x)) (n_trans (xv_net x))"
proof -
  have ok: "fq_ok (xv_inpipes x) (xv_net x)" "dist_ok (xv_outpipes x) (xv_net x)"
    using assms by (simp_all add: xsv_ok_def)
  from dist_send [OF ok(2), of T m None] obtain d n where
    d: "nn_dist_send T (xv_outpipes x) m None (xv_net x) = Some (d, n)" "dist_ok d n"
      "n_trans n = sent_to_all T m (d_pipes (xv_outpipes x)) (n_trans (xv_net x))"
      "\<forall>q. pb_instate (n_pipes n q) = pb_instate (n_pipes (xv_net x) q)" by auto
  have "fq_ok (xv_inpipes x) n" by (rule fq_ok_cong [OF ok(1)]) (use d(4) in blast)
  with d(1-3) show ?thesis by (simp add: nn_xsurveyor_send_def xsv_ok_def)
qed

text \<open>Each message that is received leaves less to receive.\<close>

lemma xsv_recv:
  assumes "xsv_ok x" "unsplit T"
  shows "active (xv_inpipes x) = {} \<Longrightarrow> nn_xsurveyor_recv T x = Some (Nothing_there, x)"
    and "active (xv_inpipes x) \<noteq> {} \<Longrightarrow> \<exists>r x'. nn_xsurveyor_recv T x = Some (r, x') \<and> xsv_ok x' \<and> r \<noteq> Nothing_there \<and>
      (drains T avail \<longrightarrow> avail (n_trans (xv_net x')) + card (active (xv_inpipes x')) <
        avail (n_trans (xv_net x)) + card (active (xv_inpipes x)))"
proof -
  have ok: "fq_ok (xv_inpipes x) (xv_net x)" "dist_ok (xv_outpipes x) (xv_net x)"
    using assms(1) by (simp_all add: xsv_ok_def)
  show "nn_xsurveyor_recv T x = Some (Nothing_there, x)" if "active (xv_inpipes x) = {}"
    using fq_recv(1) [OF ok(1) that, of T] by (simp add: nn_xsurveyor_recv_def)
  assume ne: "active (xv_inpipes x) \<noteq> {}"
  from fq_recv(2) [OF ok(1) ne, of T] obtain p parsed m nxt t fq' n' where
    f: "nn_fq_recv T (xv_inpipes x) (xv_net x) = Some (Some (p, parsed, m), fq', n')" "p \<in> best (xv_inpipes x)"
      "t_recv T p (n_trans (xv_net x)) = (parsed, m, nxt, t)" "n_trans n' = t" "fq_ok fq' n'"
      "active fq' = (if nxt then active (xv_inpipes x) else active (xv_inpipes x) - {p})"
      "\<forall>q. pb_outstate (n_pipes n' q) = pb_outstate (n_pipes (xv_net x) q)" by blast
  have "parsed \<or> m_sphdr m = []" using assms(2) f(3) unfolding unsplit_def by blast
  then obtain r where r: "nn_xreq_split parsed m = Some r" "r \<noteq> Nothing_there"
    by (cases parsed; cases "length (m_body m) < 4") (auto simp: nn_xreq_split_def)
  let ?x = "x\<lparr>xv_inpipes := fq', xv_net := n'\<rparr>"
  have rc: "nn_xsurveyor_recv T x = Some (r, ?x)" using f(1) r(1) by (simp add: nn_xsurveyor_recv_def)
  have "dist_ok (xv_outpipes x) n'" by (rule dist_ok_cong [OF ok(2)]) (use f(7) in blast)
  then have okx: "xsv_ok ?x" using f(5) by (simp add: xsv_ok_def)
  have "p \<in> active (xv_inpipes x)" using f(2) by (simp add: best_def)
  then have "avail (n_trans (xv_net ?x)) + card (active (xv_inpipes ?x)) <
      avail (n_trans (xv_net x)) + card (active (xv_inpipes x))" if "drains T avail"
    using fq_drains [OF that f(3), of n' "xv_inpipes x" fq'] f(4,6) by simp
  with rc r(2) okx show "\<exists>r x'. nn_xsurveyor_recv T x = Some (r, x') \<and> xsv_ok x' \<and> r \<noteq> Nothing_there \<and>
      (drains T avail \<longrightarrow> avail (n_trans (xv_net x')) + card (active (xv_inpipes x')) <
        avail (n_trans (xv_net x)) + card (active (xv_inpipes x)))"
    by (intro exI [of _ r] exI [of _ ?x]) simp
qed

section \<open>The state machine\<close>

fun sv_timer_of :: "surveyor_state \<Rightarrow> fsm_state" where
  "sv_timer_of SV_ACTIVE = FSM_ACTIVE"
| "sv_timer_of SV_CANCELLING = FSM_STOPPING"
| "sv_timer_of SV_STOPPING_TIMER = FSM_STOPPING"
| "sv_timer_of _ = FSM_IDLE"

definition sv_timer_is :: "fsm_state \<Rightarrow> 't surveyor \<Rightarrow> bool" where
  "sv_timer_is st s \<longleftrightarrow> tm_fsm (sv_timer s) = st \<and> tm_state (sv_timer s) = st"

definition sv_base :: "'t surveyor \<Rightarrow> bool" where
  "sv_base s \<longleftrightarrow> xsv_ok (sv_x s) \<and> sv_fsm s = FSM_ACTIVE \<and> sv_state s \<noteq> SV_IDLE \<and> sv_state s \<noteq> SV_STOPPING \<and>
     0 \<le> sv_deadline s"

definition sv_ok :: "'t surveyor \<Rightarrow> bool" where
  "sv_ok s \<longleftrightarrow> sv_base s \<and> sv_timer_is (sv_timer_of (sv_state s)) s"

lemmas sv_defs = sv_ok_def sv_base_def sv_timer_is_def

lemma start_survey_ok:
  assumes "sv_base s" "sv_timer_is FSM_IDLE s"
  shows "\<exists>s'. start_survey T s = Some s' \<and> sv_ok s' \<and> sv_state s' = SV_ACTIVE \<and> sv_surveyid s' = sv_surveyid s \<and>
    tm_timeout (sv_timer s') = sv_deadline s \<and>
    n_trans (xv_net (sv_x s')) = sent_to_all T (sv_tosend s) (d_pipes (xv_outpipes (sv_x s))) (n_trans (xv_net (sv_x s)))"
proof -
  have "xsv_ok (sv_x s)" using assms(1) by (simp add: sv_base_def)
  from xsv_send [OF this, of T "sv_tosend s"] obtain x where
    "nn_xsurveyor_send T (sv_tosend s) (sv_x s) = Some (0, x)" "xsv_ok x"
    "n_trans (xv_net x) = sent_to_all T (sv_tosend s) (d_pipes (xv_outpipes (sv_x s))) (n_trans (xv_net (sv_x s)))"
    by blast
  with assms show ?thesis by (simp add: start_survey_def nn_surveyor_resend_def nn_timer_start_def sv_defs)
qed

lemma sv_feed:
  "sv_base s \<Longrightarrow> surveyor_feed T ev s = nn_surveyor_handler T ev s"
  by (simp add: surveyor_feed_def sv_base_def)

text \<open>What the user, and the timer while it runs, ask of the state machine.\<close>

lemma sv_action_ok:
  assumes "sv_ok s" "ev = SV_ACTION_START \<and> sv_state s = SV_PASSIVE \<or> ev = SV_ACTION_CANCEL \<and> nn_surveyor_inprogress s \<or>
    ev = DEADLINE_TIMER TIMER_TIMEOUT \<and> sv_state s = SV_ACTIVE"
  shows "\<exists>s'. surveyor_feed T ev s = Some s' \<and> sv_ok s'"
proof -
  have b: "sv_base s" "sv_timer_is (sv_timer_of (sv_state s)) s" using assms(1) by (simp_all add: sv_ok_def)
  show ?thesis
  proof (cases "sv_state s")
    case SV_PASSIVE
    then have "\<exists>s'. start_survey T s = Some s' \<and> sv_ok s'" using start_survey_ok [OF b(1), of T] b(2) by auto
    then show ?thesis using assms(2) SV_PASSIVE
      by (auto simp: sv_feed [OF b(1)] nn_surveyor_handler_def nn_surveyor_inprogress_def)
  qed (use assms in \<open>auto simp: sv_feed [OF b(1)] nn_surveyor_handler_def nn_surveyor_inprogress_def nn_timer_stop_def sv_defs\<close>)
qed

text \<open>The timer that has been stopped is idle.\<close>

lemma sv_stopped_ok:
  assumes "sv_base s" "sv_timer_is FSM_IDLE s" "sv_timer_of (sv_state s) = FSM_STOPPING"
  shows "\<exists>s'. surveyor_feed T (DEADLINE_TIMER TIMER_STOPPED) s = Some s' \<and> sv_ok s'"
proof (cases "sv_state s")
  case SV_CANCELLING
  then show ?thesis using start_survey_ok [OF assms(1,2), of T]
    by (auto simp: sv_feed [OF assms(1)] nn_surveyor_handler_def)
qed (use assms in \<open>simp_all add: sv_feed [OF assms(1)] nn_surveyor_handler_def sv_defs\<close>)

section \<open>The operations\<close>

lemma sv_ok_init: "sv_ok (nn_surveyor_init i n)"
  by (simp add: sv_defs nn_surveyor_init_def xsv_ok_def nn_xsurveyor_init_def fq_ok_def fq_defs priolist_ok_init
      dist_ok_init nn_timer_init_def NN_SURVEYOR_DEFAULT_DEADLINE_def)

lemma sv_ok_put: "sv_ok s \<Longrightarrow> xsv_ok x \<Longrightarrow> sv_ok (s\<lparr>sv_x := x\<rparr>)"
  by (simp add: sv_defs)

lemma sv_ok_x: "sv_ok s \<Longrightarrow> xsv_ok (sv_x s)"
  by (simp add: sv_defs)

lemma sv_send_ok:
  assumes "sv_ok s" "m_sphdr m = []"
  shows "\<exists>s'. nn_surveyor_send T m s = Some (0, s') \<and> sv_ok s'"
proof -
  let ?s = "s\<lparr>sv_surveyid := sv_surveyid s + 1, sv_tosend := m\<lparr>m_sphdr := nn_putl (sv_surveyid s + 1)\<rparr>\<rparr>"
  have ok: "sv_ok ?s" using assms(1) by (simp add: sv_defs)
  have e: "nn_surveyor_inprogress ?s = nn_surveyor_inprogress s" by (simp add: nn_surveyor_inprogress_def)
  show ?thesis
  proof (cases "nn_surveyor_inprogress s")
    case True
    with sv_action_ok [OF ok, of SV_ACTION_CANCEL T] e assms(2) show ?thesis
      by (auto simp: nn_surveyor_send_def Let_def nn_xsurveyor_events_def)
  next
    case False
    then have "sv_state ?s = SV_PASSIVE" using assms(1) by (simp add: nn_surveyor_inprogress_def sv_defs)
    with sv_action_ok [OF ok, of SV_ACTION_START T] e assms(2) False show ?thesis
      by (auto simp: nn_surveyor_send_def Let_def)
  qed
qed

text \<open>
  What the raw socket gives, one after the other. Receiving ends; all messages that were passed over are stale, and what
  the user gets came with the identifier of the last survey.
\<close>

fun receives :: "'t transport \<Rightarrow> 't xsurveyor \<Rightarrow> received list \<Rightarrow> 't xsurveyor \<Rightarrow> bool" where
  "receives T x [] x' \<longleftrightarrow> x = x'"
| "receives T x (r # rs) x' \<longleftrightarrow>
     (case nn_xsurveyor_recv T x of None \<Rightarrow> False | Some (r', y) \<Rightarrow> r' = r \<and> receives T y rs x')"

definition survey_result :: "received \<Rightarrow> int \<times> msg option" where
  "survey_result r = (case r of Received m \<Rightarrow> (0, Some (m\<lparr>m_sphdr := []\<rparr>)) | _ \<Rightarrow> (- EAGAIN, None))"

definition survey_receives :: "'t transport \<Rightarrow> 't surveyor \<Rightarrow> msg list \<Rightarrow> received \<Rightarrow> 't surveyor \<Rightarrow> bool" where
  "survey_receives T s stale r s' \<longleftrightarrow>
     receives T (sv_x s) (map Received stale @ [r]) (sv_x s') \<and> s' = s\<lparr>sv_x := sv_x s'\<rparr> \<and>
     (\<forall>m \<in> set stale. m_sphdr m \<noteq> nn_putl (sv_surveyid s)) \<and>
     (\<forall>m. r = Received m \<longrightarrow> m_sphdr m = nn_putl (sv_surveyid s))"

lemma response_ok: "response_ok s m \<longleftrightarrow> m_sphdr m = nn_putl (sv_surveyid s)"
  using bytes_get_put(2) [of "m_sphdr m"] get_put(2) [of "sv_surveyid s" "[]"]
  by (auto simp: response_ok_def length_put)

lemma surveyor_recv_loop:
  assumes "sv_ok s" "unsplit T" "drains T avail"
  shows "\<exists>stale r s'. sv_ok s' \<and> survey_receives T s stale r s' \<and>
    surveyor_recv_loop T l0 s = Some (Some (fst (survey_result r), snd (survey_result r), l0 + length stale, s'))"
  using assms(1)
proof (induction "avail (n_trans (xv_net (sv_x s))) + card (active (xv_inpipes (sv_x s)))" arbitrary: s l0 rule: less_induct)
  case less
  note X = xsv_recv [OF sv_ok_x [OF less.prems] assms(2)]
  note L = surveyor_recv_loop.simps [of T l0 s] Let_def malformed_def survey_receives_def survey_result_def
  show ?case
  proof (cases "active (xv_inpipes (sv_x s)) = {}")
    case True
    with X(1) less.prems show ?thesis by (intro exI [of _ "[]"] exI [of _ Nothing_there] exI [of _ s]) (simp add: L)
  next
    case False
    from X(2) [OF False, of avail] assms(3) obtain r x where
      x: "nn_xsurveyor_recv T (sv_x s) = Some (r, x)" "xsv_ok x" "r \<noteq> Nothing_there"
        "avail (n_trans (xv_net x)) + card (active (xv_inpipes x)) <
         avail (n_trans (xv_net (sv_x s))) + card (active (xv_inpipes (sv_x s)))" by blast
    let ?s = "s\<lparr>sv_x := x\<rparr>"
    have ok: "sv_ok ?s" by (rule sv_ok_put [OF less.prems x(2)])
    show ?thesis
    proof (cases "\<exists>m. r = Received m \<and> \<not> response_ok ?s m")
      case True
      then obtain m where m: "r = Received m" "\<not> response_ok ?s m" by blast
      have "\<exists>stale r s'. sv_ok s' \<and> survey_receives T ?s stale r s' \<and> surveyor_recv_loop T (l0 + 1) ?s =
          Some (Some (fst (survey_result r), snd (survey_result r), l0 + 1 + length stale, s'))"
        by (rule less.hyps) (use x(4) ok in simp_all)
      then obtain stale r' s' where *: "sv_ok s'" "survey_receives T ?s stale r' s'" "surveyor_recv_loop T (l0 + 1) ?s =
          Some (Some (fst (survey_result r'), snd (survey_result r'), l0 + 1 + length stale, s'))" by blast
      have "survey_receives T s (m # stale) r' s'"
        using *(2) x(1) m by (simp add: survey_receives_def response_ok)
      moreover have "surveyor_recv_loop T l0 s = surveyor_recv_loop T (l0 + 1) ?s"
        using x(1) m by (simp add: surveyor_recv_loop.simps [of T l0 s] Let_def malformed_def)
      ultimately show ?thesis using *(1,3) by (intro exI [of _ "m # stale"] exI [of _ r'] exI [of _ s']) simp
    next
      case False
      then have "survey_receives T s [] r ?s" using x(1) by (auto simp: survey_receives_def response_ok)
      moreover have "surveyor_recv_loop T l0 s = Some (Some (fst (survey_result r), snd (survey_result r), l0, ?s))"
        using x(1,3) False by (cases r) (simp_all add: surveyor_recv_loop.simps [of T l0 s] Let_def malformed_def survey_result_def)
      ultimately show ?thesis using ok by (intro exI [of _ "[]"] exI [of _ r] exI [of _ ?s]) simp
    qed
  qed
qed

lemma sv_recv_ok:
  assumes "sv_ok s" "unsplit T" "drains T avail"
  shows "\<exists>rc m l s'. nn_surveyor_recv T s = Some (Some (rc, m, l, s')) \<and> sv_ok s'"
  using surveyor_recv_loop [OF assms, of 0] assms(1)
  by (cases "nn_surveyor_inprogress s") (auto simp: nn_surveyor_recv_def)

section \<open>Everything that can happen\<close>

text \<open>
  As for the requester: an operation of the user, with the options; a pipe that starts, gets a message, can send
  again or goes away; or something from the worker thread for the timer.
\<close>

datatype survey_op =
    Sv_send msg | Sv_recv | Sv_deadline int | Sv_start nat | Sv_in nat | Sv_out nat | Sv_rm nat | Sv_timer timer_src

abbreviation sv_pipe :: "'t surveyor \<Rightarrow> nat \<Rightarrow> pipebase" where
  "sv_pipe s p \<equiv> n_pipes (xv_net (sv_x s)) p"

definition sv_put :: "nat \<Rightarrow> pipebase \<Rightarrow> 't surveyor \<Rightarrow> 't surveyor" where
  "sv_put p pb s = s\<lparr>sv_x := (sv_x s)\<lparr>xv_net := put_pipe p pb (xv_net (sv_x s))\<rparr>\<rparr>"

definition with_x :: "'t surveyor \<Rightarrow> 't xsurveyor \<Rightarrow> 't surveyor" where
  "with_x s x = s\<lparr>sv_x := x\<rparr>"

fun survey_do :: "'t transport \<Rightarrow> survey_op \<Rightarrow> 't surveyor \<Rightarrow> 't surveyor option" where
  "survey_do T (Sv_send m) s = map_option snd (nn_surveyor_send T m s)"
| "survey_do T Sv_recv s = (case nn_surveyor_recv T s of Some (Some (rc, m, l, s')) \<Rightarrow> Some s' | _ \<Rightarrow> None)"
| "survey_do T (Sv_deadline v) s = Some (snd (nn_surveyor_setopt NN_SURVEYOR NN_SURVEYOR_DEADLINE v 4 s))"
| "survey_do T (Sv_start p) s =
     (case nn_pipebase_start True (sv_pipe s p) of
        None \<Rightarrow> None
      | Some pb \<Rightarrow> (let s1 = sv_put p pb s in
          case nn_xsurveyor_add p (sv_x s1) of
            None \<Rightarrow> None
          | Some x \<Rightarrow> map_option (with_x s1) (nn_xsurveyor_out p x)))"
| "survey_do T (Sv_in p) s =
     (case nn_pipebase_received (sv_pipe s p) of
        None \<Rightarrow> None
      | Some pb \<Rightarrow> map_option (with_x s) (nn_xsurveyor_in p (sv_x (sv_put p pb s))))"
| "survey_do T (Sv_out p) s =
     (case nn_pipebase_sent (sv_pipe s p) of
        None \<Rightarrow> None
      | Some pb \<Rightarrow> map_option (with_x s) (nn_xsurveyor_out p (sv_x (sv_put p pb s))))"
| "survey_do T (Sv_rm p) s = Some (with_x s (nn_xsurveyor_rm p (sv_x s)))"
| "survey_do T (Sv_timer src) s = surveyor_timer T src s"

text \<open>The deadline can be set to any number. A survey that starts with a negative one fails an assertion, see \<open>survey_fails\<close>.\<close>

fun survey_can :: "survey_op \<Rightarrow> 't surveyor \<Rightarrow> bool" where
  "survey_can (Sv_send m) s \<longleftrightarrow> m_sphdr m = []"
| "survey_can Sv_recv s \<longleftrightarrow> True"
| "survey_can (Sv_deadline v) s \<longleftrightarrow> True"
| "survey_can (Sv_start p) s \<longleftrightarrow> pb_state (sv_pipe s p) = PIPEBASE_IDLE \<and> p \<notin> active (xv_inpipes (sv_x s)) \<and>
     p \<notin> set (d_pipes (xv_outpipes (sv_x s))) \<and> prio_ok (pb_rcvprio (sv_pipe s p)) \<and> d_count (xv_outpipes (sv_x s)) \<noteq> - 1"
| "survey_can (Sv_in p) s \<longleftrightarrow> pb_instate (sv_pipe s p) = IO_ASYNC \<and> known p (xv_inpipes (sv_x s))"
| "survey_can (Sv_out p) s \<longleftrightarrow> pb_outstate (sv_pipe s p) = IO_ASYNC \<and> d_count (xv_outpipes (sv_x s)) \<noteq> - 1"
| "survey_can (Sv_rm p) s \<longleftrightarrow> known p (xv_inpipes (sv_x s))"
| "survey_can (Sv_timer TIMER_START_TASK) s \<longleftrightarrow>
     sv_state s = SV_ACTIVE \<and> 0 \<le> tm_timeout (sv_timer s) \<or> sv_timer_of (sv_state s) = FSM_STOPPING"
| "survey_can (Sv_timer TIMER_WORKER_TIMEOUT) s \<longleftrightarrow>
     sv_state s = SV_ACTIVE \<and> tm_timeout (sv_timer s) = - 1 \<or> sv_timer_of (sv_state s) = FSM_STOPPING"
| "survey_can (Sv_timer TIMER_STOP_TASK) s \<longleftrightarrow> sv_timer_of (sv_state s) = FSM_STOPPING"

lemmas xsv_defs = nn_xsurveyor_add_def nn_xsurveyor_rm_def nn_xsurveyor_in_def nn_xsurveyor_out_def

lemma xsv_in_ok:
  assumes "xsv_ok x" "known p (xv_inpipes x)" "p \<notin> active (xv_inpipes x)" "pb_instate (n_pipes (xv_net x) p) = IO_IDLE"
  shows "\<exists>x'. nn_xsurveyor_in p x = Some x' \<and> xsv_ok x'"
  using assms fq_in_ok [of "xv_inpipes x" "xv_net x" p] by (auto simp: xsv_ok_def xsv_defs)

lemma xsv_out_ok:
  assumes "xsv_ok x" "p \<notin> set (d_pipes (xv_outpipes x))" "pb_outstate (n_pipes (xv_net x) p) = IO_IDLE"
    and "d_count (xv_outpipes x) \<noteq> - 1"
  shows "\<exists>x'. nn_xsurveyor_out p x = Some x' \<and> xsv_ok x'"
  using assms dist_out_ok [of "xv_outpipes x" "xv_net x" p] by (auto simp: xsv_ok_def xsv_defs)

lemma xsv_rm_ok:
  assumes "xsv_ok x" "known p (xv_inpipes x)"
  shows "xsv_ok (nn_xsurveyor_rm p x)"
  using assms rm_ok [of "xv_inpipes x" p] dist_rm_ok(1) [of "xv_outpipes x" "xv_net x" p]
  by (simp add: xsv_ok_def xsv_defs fq_ok_def fq_defs known_def)

lemma xsv_add_ok:
  assumes "xsv_ok x" "p \<notin> active (xv_inpipes x)" "prio_ok (pb_rcvprio (n_pipes (xv_net x) p))"
  shows "\<exists>x'. nn_xsurveyor_add p x = Some x' \<and> xsv_ok x' \<and> xv_outpipes x' = xv_outpipes x \<and> xv_net x' = xv_net x"
  using assms add_ok [of "xv_inpipes x" p]
  by (simp add: xsv_ok_def xsv_defs fq_ok_def fq_defs nn_dist_add_def prio_ok_def Let_def)

lemma sv_put_ok:
  assumes "sv_ok s" "p \<notin> active (xv_inpipes (sv_x s)) \<or> pb_instate pb = pb_instate (sv_pipe s p)"
    and "p \<notin> set (d_pipes (xv_outpipes (sv_x s))) \<or> pb_outstate pb = pb_outstate (sv_pipe s p)"
  shows "sv_ok (sv_put p pb s)"
proof -
  let ?x = "sv_x s"
  have "fq_ok (xv_inpipes ?x) (put_pipe p pb (xv_net ?x))" "dist_ok (xv_outpipes ?x) (put_pipe p pb (xv_net ?x))"
    using sv_ok_x [OF assms(1)] assms(2,3)
    by (auto simp: xsv_ok_def put_pipe_def intro: fq_ok_cong dist_ok_cong)
  then show ?thesis unfolding sv_put_def by (intro sv_ok_put [OF assms(1)]) (simp add: xsv_ok_def)
qed

lemma sv_async:
  assumes "sv_ok s"
  shows "pb_instate (sv_pipe s p) \<noteq> IO_IDLE \<Longrightarrow> p \<notin> active (xv_inpipes (sv_x s))"
    and "pb_outstate (sv_pipe s p) \<noteq> IO_IDLE \<Longrightarrow> p \<notin> set (d_pipes (xv_outpipes (sv_x s)))"
  using sv_ok_x [OF assms] by (auto simp: xsv_ok_def fq_ok_def dist_ok_def)

lemma with_x_ok: "sv_ok s \<Longrightarrow> xsv_ok x \<Longrightarrow> sv_ok (with_x s x)"
  by (simp add: with_x_def sv_ok_put)

lemma sv_put_simps [simp]:
  "n_pipes (xv_net (sv_x (sv_put p pb s))) p = pb" "xv_inpipes (sv_x (sv_put p pb s)) = xv_inpipes (sv_x s)"
  "xv_outpipes (sv_x (sv_put p pb s)) = xv_outpipes (sv_x s)"
  by (simp_all add: sv_put_def put_pipe_def)

lemma sv_start_ok:
  assumes "sv_ok s" "survey_can (Sv_start p) s"
  shows "\<exists>s'. survey_do T (Sv_start p) s = Some s' \<and> sv_ok s'"
proof -
  obtain pb where pb: "nn_pipebase_start True (sv_pipe s p) = Some pb" "pb_outstate pb = IO_IDLE"
    "pb_rcvprio pb = pb_rcvprio (sv_pipe s p)"
    using assms(2) by (simp add: nn_pipebase_start_def Let_def)
  have ok: "sv_ok (sv_put p pb s)" by (rule sv_put_ok [OF assms(1)]) (use assms(2) in simp_all)
  from xsv_add_ok [OF sv_ok_x [OF ok], of p] assms(2) pb(3) obtain x where
    x: "nn_xsurveyor_add p (sv_x (sv_put p pb s)) = Some x" "xsv_ok x" "xv_outpipes x = xv_outpipes (sv_x s)"
      "xv_net x = xv_net (sv_x (sv_put p pb s))" by auto
  have "n_pipes (xv_net x) p = pb" using x(4) by simp
  with xsv_out_ok [OF x(2), of p] x(3) assms(2) pb(2) obtain x' where
    "nn_xsurveyor_out p x = Some x'" "xsv_ok x'" by auto
  then show ?thesis using pb(1) x(1) with_x_ok [OF ok] by (simp add: Let_def)
qed

lemma sv_in_ok:
  assumes "sv_ok s" "survey_can (Sv_in p) s"
  shows "\<exists>s'. survey_do T (Sv_in p) s = Some s' \<and> sv_ok s'"
proof -
  have na: "p \<notin> active (xv_inpipes (sv_x s))" using sv_async(1) [OF assms(1)] assms(2) by simp
  obtain pb where pb: "nn_pipebase_received (sv_pipe s p) = Some pb" "pb_instate pb = IO_IDLE"
    "pb_outstate pb = pb_outstate (sv_pipe s p)"
    using assms(2) by (simp add: nn_pipebase_received_def)
  have ok: "sv_ok (sv_put p pb s)" by (rule sv_put_ok [OF assms(1)]) (use na pb in simp_all)
  from xsv_in_ok [OF sv_ok_x [OF ok], of p] assms(2) na pb(2) obtain x where
    "nn_xsurveyor_in p (sv_x (sv_put p pb s)) = Some x" "xsv_ok x" by auto
  then show ?thesis using pb(1) with_x_ok [OF assms(1)] by simp
qed

lemma sv_out_ok:
  assumes "sv_ok s" "survey_can (Sv_out p) s"
  shows "\<exists>s'. survey_do T (Sv_out p) s = Some s' \<and> sv_ok s'"
proof -
  have na: "p \<notin> set (d_pipes (xv_outpipes (sv_x s)))" using sv_async(2) [OF assms(1)] assms(2) by simp
  obtain pb where pb: "nn_pipebase_sent (sv_pipe s p) = Some pb" "pb_outstate pb = IO_IDLE"
    "pb_instate pb = pb_instate (sv_pipe s p)"
    using assms(2) by (simp add: nn_pipebase_sent_def)
  have ok: "sv_ok (sv_put p pb s)" by (rule sv_put_ok [OF assms(1)]) (use na pb in simp_all)
  from xsv_out_ok [OF sv_ok_x [OF ok], of p] assms(2) na pb(2) obtain x where
    "nn_xsurveyor_out p (sv_x (sv_put p pb s)) = Some x" "xsv_ok x" by auto
  then show ?thesis using pb(1) with_x_ok [OF assms(1)] by simp
qed

lemma sv_timer_ok:
  assumes "sv_ok s" "survey_can (Sv_timer src) s"
  shows "\<exists>s'. surveyor_timer T src s = Some s' \<and> sv_ok s'"
proof (cases src)
  case TIMER_START_TASK
  then show ?thesis using assms
    by (auto simp: surveyor_timer_def nn_timer_feed_def nn_timer_handler_def nn_timer_shutdown_def sv_defs)
next
  case TIMER_WORKER_TIMEOUT
  show ?thesis
  proof (cases "sv_state s = SV_ACTIVE")
    case True
    then have "surveyor_timer T src s = surveyor_feed T (DEADLINE_TIMER TIMER_TIMEOUT) s"
      using assms TIMER_WORKER_TIMEOUT by (auto simp: surveyor_timer_def nn_timer_feed_def nn_timer_handler_def sv_defs)
    with sv_action_ok [OF assms(1), of "DEADLINE_TIMER TIMER_TIMEOUT" T] True show ?thesis by simp
  next
    case False
    then show ?thesis using assms TIMER_WORKER_TIMEOUT
      by (auto simp: surveyor_timer_def nn_timer_feed_def nn_timer_shutdown_def sv_defs)
  qed
next
  case TIMER_STOP_TASK
  let ?s = "s\<lparr>sv_timer := (sv_timer s)\<lparr>tm_state := FSM_IDLE, tm_fsm := FSM_IDLE\<rparr>\<rparr>"
  have e: "surveyor_timer T src s = surveyor_feed T (DEADLINE_TIMER TIMER_STOPPED) ?s"
    using assms TIMER_STOP_TASK by (auto simp: surveyor_timer_def nn_timer_feed_def nn_timer_shutdown_def sv_defs)
  show ?thesis
    unfolding e using assms TIMER_STOP_TASK by (intro sv_stopped_ok) (auto simp: sv_defs)
qed

lemma survey_do_ok:
  assumes "sv_ok s" "survey_can op s" "unsplit T" "drains T avail" "\<forall>v. op = Sv_deadline v \<longrightarrow> 0 \<le> v"
  shows "\<exists>s'. survey_do T op s = Some s' \<and> sv_ok s'"
proof (cases op)
  case (Sv_send m)
  with sv_send_ok [OF assms(1), of m T] assms(2) show ?thesis by auto
next
  case Sv_recv
  with sv_recv_ok [OF assms(1,3,4)] show ?thesis by auto
next
  case (Sv_deadline v)
  with assms(1,5) show ?thesis by (simp add: nn_surveyor_setopt_def sv_defs)
next
  case (Sv_start p)
  with sv_start_ok [OF assms(1), of p T] assms(2) show ?thesis by blast
next
  case (Sv_in p)
  with sv_in_ok [OF assms(1), of p T] assms(2) show ?thesis by blast
next
  case (Sv_out p)
  with sv_out_ok [OF assms(1), of p T] assms(2) show ?thesis by blast
next
  case (Sv_rm p)
  with assms(2) with_x_ok [OF assms(1) xsv_rm_ok [OF sv_ok_x [OF assms(1)]], of p] show ?thesis by simp
next
  case (Sv_timer src)
  with sv_timer_ok [OF assms(1), of src T] assms(2) show ?thesis by simp
qed

section \<open>Deadlines\<close>

text \<open>
  What starts a survey: sending while none is going on, and the timer that has stopped after one was cancelled. With a negative deadline it
  fails; everything else does not look at the deadline.
\<close>

definition starts_survey :: "survey_op \<Rightarrow> 't surveyor \<Rightarrow> bool" where
  "starts_survey op s \<longleftrightarrow>
     (case op of
        Sv_send m \<Rightarrow> sv_state s = SV_PASSIVE
      | Sv_timer src \<Rightarrow> src = TIMER_STOP_TASK \<and> sv_state s = SV_CANCELLING
      | _ \<Rightarrow> False)"

definition survey_fails :: "survey_op \<Rightarrow> 't surveyor \<Rightarrow> bool" where
  "survey_fails op s \<longleftrightarrow> sv_deadline s < 0 \<and> starts_survey op s"

definition with_deadline :: "int \<Rightarrow> 't surveyor \<Rightarrow> 't surveyor" where
  "with_deadline d s = s\<lparr>sv_deadline := d\<rparr>"

lemma with_deadline_simps [simp]:
  "sv_x (with_deadline d s) = sv_x s" "sv_fsm (with_deadline d s) = sv_fsm s" "sv_state (with_deadline d s) = sv_state s"
  "sv_surveyid (with_deadline d s) = sv_surveyid s" "sv_timer (with_deadline d s) = sv_timer s"
  "sv_tosend (with_deadline d s) = sv_tosend s" "sv_deadline (with_deadline d s) = d"
  "(with_deadline d s)\<lparr>sv_x := x\<rparr> = with_deadline d (s\<lparr>sv_x := x\<rparr>)"
  "(with_deadline d s)\<lparr>sv_state := st\<rparr> = with_deadline d (s\<lparr>sv_state := st\<rparr>)"
  "(with_deadline d s)\<lparr>sv_timer := tm\<rparr> = with_deadline d (s\<lparr>sv_timer := tm\<rparr>)"
  "(with_deadline d s)\<lparr>sv_surveyid := i\<rparr> = with_deadline d (s\<lparr>sv_surveyid := i\<rparr>)"
  "(with_deadline d s)\<lparr>sv_tosend := m\<rparr> = with_deadline d (s\<lparr>sv_tosend := m\<rparr>)"
  "(with_deadline d s)\<lparr>sv_fsm := f\<rparr> = with_deadline d (s\<lparr>sv_fsm := f\<rparr>)"
  "with_deadline d (with_deadline e s) = with_deadline d s"
  by (simp_all add: with_deadline_def)

lemma survey_can_deadline [simp]: "survey_can op (with_deadline d s) = survey_can op s"
  by (induction op s rule: survey_can.induct) simp_all

lemma handler_deadline:
  assumes "\<not> (ev = SV_ACTION_START \<and> sv_state s = SV_PASSIVE)" "\<not> (ev = DEADLINE_TIMER TIMER_STOPPED \<and> sv_state s = SV_CANCELLING)"
  shows "surveyor_feed T ev (with_deadline d s) = map_option (with_deadline d) (surveyor_feed T ev s)"
  using assms by (cases "sv_state s") (auto simp: surveyor_feed_def nn_surveyor_handler_def nn_surveyor_shutdown_def Let_def)

lemma timer_deadline:
  assumes "\<not> starts_survey (Sv_timer src) s"
  shows "surveyor_timer T src (with_deadline d s) = map_option (with_deadline d) (surveyor_timer T src s)"
proof -
  have "src = TIMER_STOP_TASK" if "nn_timer_feed src (sv_timer s) = Some (Some TIMER_STOPPED, tm)" for tm
    using that by (auto simp: nn_timer_feed_def nn_timer_shutdown_def nn_timer_handler_def split: if_splits timer_src.splits)
  with assms show ?thesis
    by (auto simp: surveyor_timer_def starts_survey_def handler_deadline split: option.split)
qed

lemma recv_loop_deadline:
  assumes "surveyor_recv_loop T l s = Some y"
  shows "surveyor_recv_loop T l (with_deadline d s) = Some (map_option (\<lambda>(rc, m, n, s'). (rc, m, n, with_deadline d s')) y)"
proof (rule surveyor_recv_loop.raw_induct [where P = "\<lambda>T l s y. surveyor_recv_loop T l (with_deadline d s) =
    Some (map_option (\<lambda>(rc, m, n, s'). (rc, m, n, with_deadline d s')) y)", OF _ assms], goal_cases)
  case (1 loop T l s y)
  then show ?case
    by (subst surveyor_recv_loop.simps) (auto simp: Let_def response_ok_def split: if_splits)
qed

lemma survey_do_deadline:
  assumes "survey_do T op s = Some s'" "\<not> starts_survey op s" "\<forall>v. op \<noteq> Sv_deadline v"
  shows "survey_do T op (with_deadline d s) = Some (with_deadline d s')"
proof (cases op)
  case (Sv_send m)
  have "nn_surveyor_inprogress (with_deadline d s) = nn_surveyor_inprogress s" for s :: "'a surveyor" by (simp add: nn_surveyor_inprogress_def)
  then show ?thesis using Sv_send assms(1,2)
    by (auto simp: nn_surveyor_send_def nn_xsurveyor_events_def starts_survey_def handler_deadline Let_def split: if_splits)
next
  case Sv_recv
  have "nn_surveyor_inprogress (with_deadline d s) = nn_surveyor_inprogress s" by (simp add: nn_surveyor_inprogress_def)
  then show ?thesis using Sv_recv assms(1) recv_loop_deadline [of T 0 s _ d]
    by (auto simp: nn_surveyor_recv_def split: if_splits option.splits)
next
  case (Sv_timer src)
  then show ?thesis using assms timer_deadline [of src s T d] by simp
qed (use assms in \<open>auto simp: sv_put_def with_x_def Let_def split: option.splits\<close>)

text \<open>Such a start fails, and without one everything goes on.\<close>

lemma sv_ok_deadline: "sv_ok (with_deadline 0 s) \<Longrightarrow> 0 \<le> d \<Longrightarrow> sv_ok (with_deadline d s)"
  by (simp add: sv_defs)

lemma sv_ok_later: "sv_ok s \<Longrightarrow> sv_ok (with_deadline 0 s)"
  by (simp add: sv_defs)

lemma with_own_deadline: "with_deadline (sv_deadline s) s = s"
  by (simp add: with_deadline_def)

lemma sv_recv_loop_any:
  assumes "sv_ok (with_deadline 0 s)" "unsplit T" "drains T avail"
  shows "\<exists>stale r s'. survey_receives T s stale r s' \<and>
    surveyor_recv_loop T l s = Some (Some (fst (survey_result r), snd (survey_result r), l + length stale, s'))"
proof -
  from surveyor_recv_loop [OF assms, of l] obtain stale r s' where
    *: "survey_receives T (with_deadline 0 s) stale r s'"
      "surveyor_recv_loop T l (with_deadline 0 s) = Some (Some (fst (survey_result r), snd (survey_result r), l + length stale, s'))"
    by blast
  have "survey_receives T s stale r (with_deadline (sv_deadline s) s')"
    using *(1) unfolding survey_receives_def with_deadline_def by (cases s, cases s') simp
  then show ?thesis using recv_loop_deadline [OF *(2), of "sv_deadline s"] by (auto simp: with_own_deadline)
qed

lemma start_survey_fails: "sv_deadline s < 0 \<Longrightarrow> start_survey T s = None"
  by (auto simp: start_survey_def nn_surveyor_resend_def nn_timer_start_def split: option.split)

lemma survey_fails_ok:
  assumes "sv_ok (with_deadline 0 s)" "survey_can op s" "survey_fails op s"
  shows "survey_do T op s = None"
proof (cases op)
  case (Sv_send m)
  then show ?thesis using assms
    by (auto simp: survey_fails_def starts_survey_def nn_surveyor_send_def nn_surveyor_inprogress_def sv_defs surveyor_feed_def
        nn_surveyor_handler_def Let_def start_survey_fails)
next
  case (Sv_timer src)
  then show ?thesis using assms start_survey_fails
    by (auto simp: survey_fails_def starts_survey_def surveyor_timer_def nn_timer_feed_def nn_timer_shutdown_def sv_defs surveyor_feed_def
        nn_surveyor_handler_def start_survey_fails)
qed (use assms in \<open>simp_all add: survey_fails_def starts_survey_def\<close>)

lemma survey_any_deadline_ok:
  assumes ok: "sv_ok (with_deadline 0 s)" and can: "survey_can op s" "\<not> survey_fails op s" and T: "unsplit T" "drains T avail"
  shows "\<exists>s'. survey_do T op s = Some s' \<and> sv_ok (with_deadline 0 s')"
proof (cases "\<exists>v. op = Sv_deadline v")
  case True
  then show ?thesis using ok by (auto simp: nn_surveyor_setopt_def with_deadline_def)
next
  case nd: False
  show ?thesis
  proof (cases "sv_deadline s < 0")
    case True
    with can(2) have n: "\<not> starts_survey op (with_deadline 0 s)"
      by (auto simp: survey_fails_def starts_survey_def split: survey_op.splits)
    from survey_do_ok [OF ok _ T, of op] can(1) nd obtain s' where
      s': "survey_do T op (with_deadline 0 s) = Some s'" "sv_ok s'" by auto
    from survey_do_deadline [OF s'(1) n, of "sv_deadline s"] nd have "survey_do T op s = Some (with_deadline (sv_deadline s) s')"
      by (simp add: with_own_deadline)
    moreover have "sv_ok (with_deadline 0 s')" using s'(2) by (rule sv_ok_later)
    ultimately show ?thesis by simp
  next
    case False
    then have "sv_ok s" using sv_ok_deadline [OF ok, of "sv_deadline s"] by (simp add: with_own_deadline)
    from survey_do_ok [OF this can(1) T] nd obtain s' where "survey_do T op s = Some s'" "sv_ok s'" by auto
    moreover from this(2) have "sv_ok (with_deadline 0 s')" by (rule sv_ok_later)
    ultimately show ?thesis by blast
  qed
qed

inductive survey_reach :: "'t transport \<Rightarrow> 't surveyor \<Rightarrow> bool" for T where
  init: "survey_reach T (nn_surveyor_init i n)"
| step: "survey_reach T s \<Longrightarrow> survey_can op s \<Longrightarrow> survey_do T op s = Some s' \<Longrightarrow> survey_reach T s'"

lemma survey_reach_ok: "survey_reach T s \<Longrightarrow> unsplit T \<Longrightarrow> drains T avail \<Longrightarrow> sv_ok (with_deadline 0 s)"
proof (induction rule: survey_reach.induct)
  case (init i n)
  show ?case by (rule sv_ok_init [THEN sv_ok_later])
next
  case (step s op s')
  note ok = step.IH [OF step.prems]
  have "\<not> survey_fails op s" using survey_fails_ok [OF ok step.hyps(2)] step.hyps(3) by auto
  from survey_any_deadline_ok [OF ok step.hyps(2) this step.prems] step.hyps(3) show ?case by auto
qed

end
