(* ===== verification/Nn_Sockets.thy ===== *)
theory Nn_Sockets
  imports Nn_Dist
begin

text \<open>
  The sockets of nanomsg that are little more than one of the ways to use pipes: the publisher (\<open>protocols/pubsub/xpub.c\<close>), the two
  ends of the pipeline (\<open>pipeline/xpush.c\<close>, \<open>xpull.c\<close>), the pair (\<open>pair/xpair.c\<close>) and the bus (\<open>bus/xbus.c\<close>, \<open>bus.c\<close>).
  What the transport and the pipes are, and what \<open>None\<close> is, is said in \<open>Nn_Pipes\<close>.
\<close>

section \<open>The publisher\<close>

record 't xpub =
  xb_outpipes :: nn_dist
  xb_net :: "'t net"

definition nn_xpub_init :: "'t net \<Rightarrow> 't xpub" where
  "nn_xpub_init n = \<lparr>xb_outpipes = nn_dist_init, xb_net = n\<rparr>"

definition nn_xpub_add :: "nat \<Rightarrow> 't xpub \<Rightarrow> 't xpub" where
  "nn_xpub_add pipe self = self\<lparr>xb_outpipes := nn_dist_add (xb_outpipes self) pipe\<rparr>"

definition nn_xpub_rm :: "nat \<Rightarrow> 't xpub \<Rightarrow> 't xpub" where
  "nn_xpub_rm pipe self = self\<lparr>xb_outpipes := nn_dist_rm (xb_outpipes self) pipe\<rparr>"

text \<open>A message from a subscriber is a failed assertion.\<close>

definition nn_xpub_in :: "nat \<Rightarrow> 't xpub \<Rightarrow> 't xpub option" where
  "nn_xpub_in pipe self = None"

definition nn_xpub_out :: "nat \<Rightarrow> 't xpub \<Rightarrow> 't xpub option" where
  "nn_xpub_out pipe self = map_option (\<lambda>d. self\<lparr>xb_outpipes := d\<rparr>) (nn_dist_out (xb_outpipes self) pipe)"

definition nn_xpub_events :: "'t xpub \<Rightarrow> bool \<times> bool" where
  "nn_xpub_events self = (False, True)"

definition nn_xpub_send :: "'t transport \<Rightarrow> msg \<Rightarrow> 't xpub \<Rightarrow> (int \<times> 't xpub) option" where
  "nn_xpub_send T m self =
     (case nn_dist_send T (xb_outpipes self) m None (xb_net self) of
        None \<Rightarrow> None
      | Some (d, n) \<Rightarrow> Some (0, self\<lparr>xb_outpipes := d, xb_net := n\<rparr>))"

definition nn_xpub_setopt :: int where "nn_xpub_setopt = - ENOPROTOOPT"
definition nn_xpub_getopt :: int where "nn_xpub_getopt = - ENOPROTOOPT"

section \<open>The pipeline\<close>

record 't xpush =
  xh_lb :: nn_priolist
  xh_net :: "'t net"
  xh_snd_priority :: int   \<comment> \<open>\<open>statistics.current_snd_priority\<close> of the socket\<close>

definition nn_xpush_init :: "'t net \<Rightarrow> 't xpush" where
  "nn_xpush_init n = \<lparr>xh_lb = nn_lb_init, xh_net = n, xh_snd_priority = 0\<rparr>"

definition nn_xpush_add :: "nat \<Rightarrow> 't xpush \<Rightarrow> 't xpush option" where
  "nn_xpush_add pipe self =
     (let sndprio = pb_sndprio (n_pipes (xh_net self) pipe) in
      if \<not> (1 \<le> sndprio \<and> sndprio \<le> 16) then None
      else Some (self\<lparr>xh_lb := nn_lb_add (xh_lb self) pipe sndprio\<rparr>))"

definition nn_xpush_rm :: "nat \<Rightarrow> 't xpush \<Rightarrow> 't xpush option" where
  "nn_xpush_rm pipe self =
     (let lb = nn_lb_rm (xh_lb self) pipe in
      map_option (\<lambda>prio. self\<lparr>xh_lb := lb, xh_snd_priority := prio\<rparr>) (stat_snd_priority (nn_lb_get_priority lb)))"

definition nn_xpush_in :: "nat \<Rightarrow> 't xpush \<Rightarrow> 't xpush" where
  "nn_xpush_in pipe self = self"

definition nn_xpush_out :: "nat \<Rightarrow> 't xpush \<Rightarrow> 't xpush option" where
  "nn_xpush_out pipe self =
     (case nn_lb_out (xh_lb self) pipe of
        None \<Rightarrow> None
      | Some lb \<Rightarrow> map_option (\<lambda>prio. self\<lparr>xh_lb := lb, xh_snd_priority := prio\<rparr>)
          (stat_snd_priority (nn_lb_get_priority lb)))"

definition nn_xpush_events :: "'t xpush \<Rightarrow> bool \<times> bool" where
  "nn_xpush_events self = (False, nn_lb_can_send (xh_lb self))"

definition nn_xpush_send :: "'t transport \<Rightarrow> msg \<Rightarrow> 't xpush \<Rightarrow> (int \<times> 't xpush) option" where
  "nn_xpush_send T m self =
     (case nn_lb_send T (xh_lb self) m (xh_net self) of
        None \<Rightarrow> None
      | Some (to, lb, n) \<Rightarrow> Some (if to = None then - EAGAIN else 0, self\<lparr>xh_lb := lb, xh_net := n\<rparr>))"

definition nn_xpush_setopt :: int where "nn_xpush_setopt = - ENOPROTOOPT"
definition nn_xpush_getopt :: int where "nn_xpush_getopt = - ENOPROTOOPT"

record 't xpull =
  xl_fq :: nn_priolist
  xl_net :: "'t net"

definition nn_xpull_init :: "'t net \<Rightarrow> 't xpull" where
  "nn_xpull_init n = \<lparr>xl_fq = nn_fq_init, xl_net = n\<rparr>"

definition nn_xpull_add :: "nat \<Rightarrow> 't xpull \<Rightarrow> 't xpull option" where
  "nn_xpull_add pipe self =
     (let rcvprio = pb_rcvprio (n_pipes (xl_net self) pipe) in
      if \<not> (1 \<le> rcvprio \<and> rcvprio \<le> 16) then None
      else Some (self\<lparr>xl_fq := nn_fq_add (xl_fq self) pipe rcvprio\<rparr>))"

definition nn_xpull_rm :: "nat \<Rightarrow> 't xpull \<Rightarrow> 't xpull" where
  "nn_xpull_rm pipe self = self\<lparr>xl_fq := nn_fq_rm (xl_fq self) pipe\<rparr>"

definition nn_xpull_in :: "nat \<Rightarrow> 't xpull \<Rightarrow> 't xpull option" where
  "nn_xpull_in pipe self = map_option (\<lambda>fq. self\<lparr>xl_fq := fq\<rparr>) (nn_fq_in (xl_fq self) pipe)"

definition nn_xpull_out :: "nat \<Rightarrow> 't xpull \<Rightarrow> 't xpull" where
  "nn_xpull_out pipe self = self"

definition nn_xpull_events :: "'t xpull \<Rightarrow> bool \<times> bool" where
  "nn_xpull_events self = (nn_fq_can_recv (xl_fq self), False)"

definition nn_xpull_recv :: "'t transport \<Rightarrow> 't xpull \<Rightarrow> (int \<times> msg option \<times> 't xpull) option" where
  "nn_xpull_recv T self =
     (case nn_fq_recv T (xl_fq self) (xl_net self) of
        None \<Rightarrow> None
      | Some (None, fq, n) \<Rightarrow> Some (- EAGAIN, None, self\<lparr>xl_fq := fq, xl_net := n\<rparr>)
      | Some (Some (p, parsed, m), fq, n) \<Rightarrow> Some (0, Some m, self\<lparr>xl_fq := fq, xl_net := n\<rparr>))"

definition nn_xpull_setopt :: int where "nn_xpull_setopt = - ENOPROTOOPT"
definition nn_xpull_getopt :: int where "nn_xpull_getopt = - ENOPROTOOPT"

section \<open>The pair\<close>

record 't xpair =
  xa_excl :: nn_excl
  xa_net :: "'t net"

definition nn_xpair_init :: "'t net \<Rightarrow> 't xpair" where
  "nn_xpair_init n = \<lparr>xa_excl = nn_excl_init, xa_net = n\<rparr>"

definition nn_xpair_add :: "nat \<Rightarrow> 't xpair \<Rightarrow> int \<times> 't xpair" where
  "nn_xpair_add pipe self = (case nn_excl_add (xa_excl self) pipe of (rc, e) \<Rightarrow> (rc, self\<lparr>xa_excl := e\<rparr>))"

definition nn_xpair_rm :: "nat \<Rightarrow> 't xpair \<Rightarrow> 't xpair option" where
  "nn_xpair_rm pipe self = map_option (\<lambda>e. self\<lparr>xa_excl := e\<rparr>) (nn_excl_rm (xa_excl self) pipe)"

definition nn_xpair_in :: "nat \<Rightarrow> 't xpair \<Rightarrow> 't xpair option" where
  "nn_xpair_in pipe self = map_option (\<lambda>e. self\<lparr>xa_excl := e\<rparr>) (nn_excl_in (xa_excl self) pipe)"

definition nn_xpair_out :: "nat \<Rightarrow> 't xpair \<Rightarrow> 't xpair option" where
  "nn_xpair_out pipe self = map_option (\<lambda>e. self\<lparr>xa_excl := e\<rparr>) (nn_excl_out (xa_excl self) pipe)"

definition nn_xpair_events :: "'t xpair \<Rightarrow> bool \<times> bool" where
  "nn_xpair_events self = (nn_excl_can_recv (xa_excl self), nn_excl_can_send (xa_excl self))"

definition nn_xpair_send :: "'t transport \<Rightarrow> msg \<Rightarrow> 't xpair \<Rightarrow> (int \<times> 't xpair) option" where
  "nn_xpair_send T m self =
     (case nn_excl_send T (xa_excl self) m (xa_net self) of
        None \<Rightarrow> None
      | Some (rc, e, n) \<Rightarrow> Some (rc, self\<lparr>xa_excl := e, xa_net := n\<rparr>))"

definition nn_xpair_recv :: "'t transport \<Rightarrow> 't xpair \<Rightarrow> (int \<times> msg option \<times> 't xpair) option" where
  "nn_xpair_recv T self =
     (case nn_excl_recv T (xa_excl self) (xa_net self) of
        None \<Rightarrow> None
      | Some (None, e, n) \<Rightarrow> Some (- EAGAIN, None, self\<lparr>xa_excl := e, xa_net := n\<rparr>)
      | Some (Some (parsed, m), e, n) \<Rightarrow> Some (0, Some m, self\<lparr>xa_excl := e, xa_net := n\<rparr>))"

definition nn_xpair_setopt :: int where "nn_xpair_setopt = - ENOPROTOOPT"
definition nn_xpair_getopt :: int where "nn_xpair_getopt = - ENOPROTOOPT"

section \<open>The bus\<close>

text \<open>
  The header of a message is the address of the pipe it came from, in the eight bytes of its memory image; here a pipe is
  named by its address.
\<close>

record 't xbus =
  xu_outpipes :: nn_dist
  xu_inpipes :: nn_priolist
  xu_net :: "'t net"

definition pipe_image :: "nat \<Rightarrow> bytes" where
  "pipe_image p = le_bytes 8 (of_nat p :: u64)"

definition image_pipe :: "bytes \<Rightarrow> nat option" where
  "image_pipe b = (let a = unat (le_word b :: u64) in if a = 0 then None else Some a)"

definition nn_xbus_init :: "'t net \<Rightarrow> 't xbus" where
  "nn_xbus_init n = \<lparr>xu_outpipes = nn_dist_init, xu_inpipes = nn_fq_init, xu_net = n\<rparr>"

definition nn_xbus_add :: "nat \<Rightarrow> 't xbus \<Rightarrow> 't xbus option" where
  "nn_xbus_add pipe self =
     (let rcvprio = pb_rcvprio (n_pipes (xu_net self) pipe) in
      if \<not> (1 \<le> rcvprio \<and> rcvprio \<le> 16) then None
      else Some (self\<lparr>xu_inpipes := nn_fq_add (xu_inpipes self) pipe rcvprio,
        xu_outpipes := nn_dist_add (xu_outpipes self) pipe\<rparr>))"

definition nn_xbus_rm :: "nat \<Rightarrow> 't xbus \<Rightarrow> 't xbus" where
  "nn_xbus_rm pipe self =
     self\<lparr>xu_inpipes := nn_fq_rm (xu_inpipes self) pipe, xu_outpipes := nn_dist_rm (xu_outpipes self) pipe\<rparr>"

definition nn_xbus_in :: "nat \<Rightarrow> 't xbus \<Rightarrow> 't xbus option" where
  "nn_xbus_in pipe self = map_option (\<lambda>fq. self\<lparr>xu_inpipes := fq\<rparr>) (nn_fq_in (xu_inpipes self) pipe)"

definition nn_xbus_out :: "nat \<Rightarrow> 't xbus \<Rightarrow> 't xbus option" where
  "nn_xbus_out pipe self = map_option (\<lambda>d. self\<lparr>xu_outpipes := d\<rparr>) (nn_dist_out (xu_outpipes self) pipe)"

definition nn_xbus_events :: "'t xbus \<Rightarrow> bool \<times> bool" where
  "nn_xbus_events self = (nn_fq_can_recv (xu_inpipes self), True)"

definition nn_xbus_send :: "'t transport \<Rightarrow> msg \<Rightarrow> 't xbus \<Rightarrow> (int \<times> 't xbus) option" where
  "nn_xbus_send T m self =
     (if m_sphdr m \<noteq> [] \<and> length (m_sphdr m) \<noteq> 8 then Some (- EINVAL_opt, self)
      else let exclude = (if m_sphdr m = [] then None else image_pipe (m_sphdr m)) in
        case nn_dist_send T (xu_outpipes self) (m\<lparr>m_sphdr := []\<rparr>) exclude (xu_net self) of
          None \<Rightarrow> None
        | Some (d, n) \<Rightarrow> Some (0, self\<lparr>xu_outpipes := d, xu_net := n\<rparr>))"

text \<open>The loop drops messages that come with a header.\<close>

partial_function (option) nn_xbus_recv :: "'t transport \<Rightarrow> 't xbus \<Rightarrow> (int \<times> msg option \<times> 't xbus) option option" where
  "nn_xbus_recv T self =
     (if nn_fq_recv T (xu_inpipes self) (xu_net self) = None then Some None
      else let r = fst (the (nn_fq_recv T (xu_inpipes self) (xu_net self)));
               rest = snd (the (nn_fq_recv T (xu_inpipes self) (xu_net self)));
               self' = self\<lparr>xu_inpipes := fst rest, xu_net := snd rest\<rparr> in
        if r = None then Some (Some (- EAGAIN, None, self'))
        else if m_sphdr (snd (snd (the r))) \<noteq> [] then nn_xbus_recv T self'
        else Some (Some (0, Some ((snd (snd (the r)))\<lparr>m_sphdr := pipe_image (fst (the r))\<rparr>), self')))"

definition nn_xbus_setopt :: int where "nn_xbus_setopt = - ENOPROTOOPT"
definition nn_xbus_getopt :: int where "nn_xbus_getopt = - ENOPROTOOPT"

definition nn_bus_send :: "'t transport \<Rightarrow> msg \<Rightarrow> 't xbus \<Rightarrow> (int \<times> 't xbus) option" where
  "nn_bus_send T m self =
     (if m_sphdr m \<noteq> [] then Some (- EINVAL_opt, self)
      else case nn_xbus_send T m self of
        None \<Rightarrow> None
      | Some (rc, self') \<Rightarrow> if rc \<noteq> 0 then None else Some (0, self'))"

definition nn_bus_recv :: "'t transport \<Rightarrow> 't xbus \<Rightarrow> (int \<times> msg option \<times> 't xbus) option option" where
  "nn_bus_recv T self =
     (case nn_xbus_recv T self of
        None \<Rightarrow> None
      | Some None \<Rightarrow> Some None
      | Some (Some (rc, m, self')) \<Rightarrow>
          if rc = - EAGAIN then Some (Some (- EAGAIN, None, self'))
          else (case m of None \<Rightarrow> Some None
            | Some m \<Rightarrow> if rc \<noteq> 0 \<or> length (m_sphdr m) \<noteq> 8 then Some None
                else Some (Some (0, Some (m\<lparr>m_sphdr := []\<rparr>), self'))))"

section \<open>What the bus does\<close>

lemma image_pipe_image: "0 < p \<Longrightarrow> p < 2 ^ 64 \<Longrightarrow> image_pipe (pipe_image p) = Some p"
  by (simp add: image_pipe_def pipe_image_def unat_of_nat)

lemma length_pipe_image [simp]: "length (pipe_image p) = 8" "pipe_image p \<noteq> []"
proof -
  show "length (pipe_image p) = 8" by (simp add: pipe_image_def)
  then show "pipe_image p \<noteq> []" by auto
qed

definition xbus_ok :: "'t xbus \<Rightarrow> bool" where
  "xbus_ok x \<longleftrightarrow> fq_ok (xu_inpipes x) (xu_net x) \<and> dist_ok (xu_outpipes x) (xu_net x)"

text \<open>Receiving ends, and a message comes with the address of an active pipe.\<close>

lemma xbus_recv:
  assumes "xbus_ok x" "drains T avail"
  shows "\<exists>x'. xbus_ok x' \<and> xu_outpipes x' = xu_outpipes x \<and>
    (nn_xbus_recv T x = Some (Some (- EAGAIN, None, x')) \<and> active (xu_inpipes x') = {} \<or>
     (\<exists>p m. p \<in> active (xu_inpipes x) \<and> nn_xbus_recv T x = Some (Some (0, Some (m\<lparr>m_sphdr := pipe_image p\<rparr>), x'))))"
  using assms(1)
proof (induction "avail (n_trans (xu_net x)) + card (active (xu_inpipes x))" arbitrary: x rule: less_induct)
  case less
  have ok: "fq_ok (xu_inpipes x) (xu_net x)" "dist_ok (xu_outpipes x) (xu_net x)"
    using less.prems by (simp_all add: xbus_ok_def)
  show ?case
  proof (cases "active (xu_inpipes x) = {}")
    case True
    have "nn_xbus_recv T x = Some (Some (- EAGAIN, None, x))"
      using fq_recv(1) [OF ok(1) True, of T] by (simp add: nn_xbus_recv.simps [of T x] Let_def)
    with less.prems True show ?thesis by simp
  next
    case False
    from fq_recv(2) [OF ok(1) False, of T] obtain p parsed m nxt t fq n where
      f: "nn_fq_recv T (xu_inpipes x) (xu_net x) = Some (Some (p, parsed, m), fq, n)" "p \<in> best (xu_inpipes x)"
        "t_recv T p (n_trans (xu_net x)) = (parsed, m, nxt, t)" "n_trans n = t" "fq_ok fq n"
        "active fq = (if nxt then active (xu_inpipes x) else active (xu_inpipes x) - {p})"
        "\<forall>q. pb_outstate (n_pipes n q) = pb_outstate (n_pipes (xu_net x) q)" by blast
    let ?x = "x\<lparr>xu_inpipes := fq, xu_net := n\<rparr>"
    have p: "p \<in> active (xu_inpipes x)" "active fq \<subseteq> active (xu_inpipes x)" using f(2,6) by (auto simp: best_def)
    have "dist_ok (xu_outpipes x) n" by (rule dist_ok_cong [OF ok(2)]) (use f(7) in blast)
    then have okx: "xbus_ok ?x" using f(5) by (simp add: xbus_ok_def)
    show ?thesis
    proof (cases "m_sphdr m = []")
      case True
      then have "nn_xbus_recv T x = Some (Some (0, Some (m\<lparr>m_sphdr := pipe_image p\<rparr>), ?x))"
        using f(1) by (simp add: nn_xbus_recv.simps [of T x] Let_def)
      with okx p(1) show ?thesis by (intro exI [of _ ?x]) auto
    next
      case h: False
      then have e: "nn_xbus_recv T x = nn_xbus_recv T ?x" using f(1) by (simp add: nn_xbus_recv.simps [of T x] Let_def)
      have "avail (n_trans (xu_net ?x)) + card (active (xu_inpipes ?x)) < avail (n_trans (xu_net x)) + card (active (xu_inpipes x))"
        using fq_drains [OF assms(2) f(3,4) p(1) f(6)] by simp
      from less.hyps [OF this okx] p(2) show ?thesis unfolding e by auto
    qed
  qed
qed

end
