(* ===== verification/Nn_Survey_Props.thy ===== *)
theory Nn_Survey_Props
  imports Nn_Survey_Spec Nn_Sockets Nn_Req_Props
begin

text \<open>
  The properties of the sockets that send to all their peers: the survey with its deadline, and the bus.
\<close>

section \<open>Sockets with one pipe\<close>

text \<open>As \<open>list_transport\<close>, but what is sent can be received.\<close>

definition loop_transport :: "msg list transport" where
  "loop_transport = list_transport\<lparr>t_send := (\<lambda>p m ms. (True, ms @ [m]))\<rparr>"

lemma loop_transport: "unsplit loop_transport" "drains loop_transport length"
  using list_transport by (simp_all add: unsplit_def drains_def loop_transport_def)

definition one_surveyor :: "surveyor_state \<Rightarrow> msg list \<Rightarrow> msg list surveyor" where
  "one_surveyor st ms =
     (nn_surveyor_init 3 (idle_net ms))\<lparr>
        sv_x := \<lparr>xv_outpipes = \<lparr>d_count = 1, d_pipes = [7]\<rparr>, xv_inpipes = one_pipe, xv_net = idle_net ms\<rparr>,
        sv_state := st, sv_timer := \<lparr>tm_fsm = sv_timer_of st, tm_state = sv_timer_of st, tm_timeout = - 1\<rparr>\<rparr>"

lemma one_surveyor_ok: "st \<noteq> SV_IDLE \<Longrightarrow> st \<noteq> SV_STOPPING \<Longrightarrow> sv_ok (one_surveyor st ms)"
  using one_pipe_ok(1) by (simp add: one_surveyor_def sv_defs xsv_ok_def dist_ok_def idle_net_def nn_surveyor_init_def
      NN_SURVEYOR_DEFAULT_DEADLINE_def)

section \<open>The survey\<close>



text \<open>
  A survey that is started while none is going on is sent once, under the next identifier, to every pipe that can send, and the deadline
  timer is started.
\<close>

lemma survey_is_sent:
  assumes "sv_ok s" "m_sphdr m = []" "sv_state s = SV_PASSIVE"
  shows "\<exists>s'. nn_surveyor_send T m s = Some (0, s') \<and> sv_state s' = SV_ACTIVE \<and> tm_timeout (sv_timer s') = sv_deadline s \<and>
    n_trans (xv_net (sv_x s')) = sent_to_all T (m\<lparr>m_sphdr := nn_putl (sv_surveyid s + 1)\<rparr>) (d_pipes (xv_outpipes (sv_x s)))
      (n_trans (xv_net (sv_x s)))"
proof -
  let ?s = "s\<lparr>sv_surveyid := sv_surveyid s + 1, sv_tosend := m\<lparr>m_sphdr := nn_putl (sv_surveyid s + 1)\<rparr>\<rparr>"
  have "sv_base ?s" "sv_timer_is FSM_IDLE ?s" "sv_fsm s = FSM_ACTIVE" using assms(1,3) by (simp_all add: sv_defs)
  from start_survey_ok [OF this(1,2), of T] this(3) assms(2,3) show ?thesis
    by (auto simp: nn_surveyor_send_def nn_surveyor_inprogress_def surveyor_feed_def nn_surveyor_handler_def Let_def)
qed

text \<open>
  A survey that is started while another one is going on is not sent yet: the timer is stopped first; when it has stopped, only the last one
  that was started is sent, to every pipe that can send, and the timer is started again.
\<close>

theorem last_survey_is_sent:
  assumes "sv_ok s" "m_sphdr m = []" "m_sphdr m' = []" "sv_state s \<noteq> SV_PASSIVE"
  defines "tagged k b \<equiv> b\<lparr>m_sphdr := nn_putl (sv_surveyid s + k)\<rparr>"
  shows "\<exists>s1 s2 s3. nn_surveyor_send T m s = Some (0, s1) \<and> sv_x s1 = sv_x s \<and>
    nn_surveyor_send T m' s1 = Some (0, s2) \<and> sv_x s2 = sv_x s \<and> surveyor_timer T TIMER_STOP_TASK s2 = Some s3 \<and>
    sv_state s3 = SV_ACTIVE \<and> tm_timeout (sv_timer s3) = sv_deadline s \<and>
    n_trans (xv_net (sv_x s3)) = sent_to_all T (tagged 2 m') (d_pipes (xv_outpipes (sv_x s))) (n_trans (xv_net (sv_x s)))"
proof -
  have ok: "sv_base s" "sv_fsm s = FSM_ACTIVE" "sv_state s \<noteq> SV_IDLE" "sv_state s \<noteq> SV_STOPPING"
    using assms(1) by (simp_all add: sv_defs)
  note st = assms(4)
  define tm where "tm = (if sv_state s = SV_ACTIVE then nn_timer_stop (sv_timer s) else sv_timer s)"
  have tm: "tm_fsm tm = FSM_STOPPING" "tm_state tm = FSM_STOPPING"
    using assms(1) st by (cases "sv_state s"; simp add: sv_defs tm_def nn_timer_stop_def)+
  let ?s1 = "s\<lparr>sv_surveyid := sv_surveyid s + 1, sv_tosend := tagged 1 m, sv_timer := tm, sv_state := SV_CANCELLING\<rparr>"
  let ?s2 = "?s1\<lparr>sv_surveyid := sv_surveyid s + 2, sv_tosend := tagged 2 m'\<rparr>"
  have 1: "nn_surveyor_send T m s = Some (0, ?s1)"
    using ok st assms(2) by (cases "sv_state s") (simp_all add: nn_surveyor_send_def nn_surveyor_inprogress_def
        surveyor_feed_def nn_surveyor_handler_def nn_xsurveyor_events_def tagged_def tm_def Let_def)
  have 2: "nn_surveyor_send T m' ?s1 = Some (0, ?s2)"
    using ok assms(3) by (simp add: nn_surveyor_send_def nn_surveyor_inprogress_def surveyor_feed_def
        nn_surveyor_handler_def nn_xsurveyor_events_def tagged_def Let_def add.commute)
  let ?s3 = "?s2\<lparr>sv_timer := tm\<lparr>tm_state := FSM_IDLE, tm_fsm := FSM_IDLE\<rparr>\<rparr>"
  have 3: "surveyor_timer T TIMER_STOP_TASK ?s2 = start_survey T ?s3"
    using tm ok(2) by (simp add: surveyor_timer_def nn_timer_feed_def nn_timer_shutdown_def surveyor_feed_def
        nn_surveyor_handler_def)
  have "sv_base ?s3" "sv_timer_is FSM_IDLE ?s3" using ok(1) by (simp_all add: sv_defs)
  from start_survey_ok [OF this, of T] obtain s3 where
    s3: "start_survey T ?s3 = Some s3" "sv_state s3 = SV_ACTIVE" "tm_timeout (sv_timer s3) = sv_deadline s"
      "n_trans (xv_net (sv_x s3)) =
        sent_to_all T (tagged 2 m') (d_pipes (xv_outpipes (sv_x s))) (n_trans (xv_net (sv_x s)))" by auto
  show ?thesis
    by (intro exI [of _ ?s1] exI [of _ ?s2] exI [of _ s3]) (simp only: 1 2 3 s3, simp)
qed

theorem last_survey_is_sent_witness:
  "\<exists>s1 s2 s3. nn_surveyor_send loop_transport \<lparr>m_sphdr = [], m_body = [1]\<rparr> (one_surveyor SV_ACTIVE []) = Some (0, s1) \<and>
     nn_surveyor_send loop_transport \<lparr>m_sphdr = [], m_body = [2]\<rparr> s1 = Some (0, s2) \<and>
     surveyor_timer loop_transport TIMER_STOP_TASK s2 = Some s3 \<and>
     n_trans (xv_net (sv_x s3)) = [\<lparr>m_sphdr = nn_putl 5, m_body = [2]\<rparr>]"
proof -
  have "sv_ok (one_surveyor SV_ACTIVE [])" by (rule one_surveyor_ok) simp_all
  from last_survey_is_sent [OF this, of "\<lparr>m_sphdr = [], m_body = [1]\<rparr>" "\<lparr>m_sphdr = [], m_body = [2]\<rparr>" loop_transport]
  show ?thesis
    by (simp add: one_surveyor_def idle_net_def nn_surveyor_init_def sent_to_all_def loop_transport_def) blast
qed

lemma survey_in_progress: "sv_ok s \<Longrightarrow> nn_surveyor_inprogress s \<longleftrightarrow> sv_state s \<noteq> SV_PASSIVE"
  by (auto simp: sv_defs nn_surveyor_inprogress_def)

lemma no_survey_no_response:
  "sv_ok s \<Longrightarrow> sv_state s = SV_PASSIVE \<Longrightarrow> nn_surveyor_recv T s = Some (Some (- EFSM, None, 0, s))"
  by (simp add: nn_surveyor_recv_def survey_in_progress)

text \<open>
  What a survey collects. While a survey is going on receiving ends; it has taken some stale messages from the raw socket, which are
  lost, and then either a message with the identifier of the survey, whose body it returns, or nothing, or a message that is too short, and
  returns \<open>EAGAIN\<close>.
\<close>

theorem survey_collects_its_responses:
  assumes "survey_reach T s" "unsplit T" "drains T avail" "sv_state s \<noteq> SV_PASSIVE"
  shows "\<exists>stale r s'. receives T (sv_x s) (map Received stale @ [r]) (sv_x s') \<and>
    s' = s\<lparr>sv_x := sv_x s'\<rparr> \<and> (\<forall>m \<in> set stale. m_sphdr m \<noteq> nn_putl (sv_surveyid s)) \<and>
    (\<forall>m. r = Received m \<longrightarrow> m_sphdr m = nn_putl (sv_surveyid s)) \<and>
    nn_surveyor_recv T s = Some (Some (case r of Received m \<Rightarrow> (0, Some (m\<lparr>m_sphdr := []\<rparr>), length stale, s')
      | _ \<Rightarrow> (- EAGAIN, None, length stale, s')))"
proof -
  have ok: "sv_ok (with_deadline 0 s)" by (rule survey_reach_ok [OF assms(1-3)])
  then have e: "nn_surveyor_recv T s = surveyor_recv_loop T 0 s" using assms(4)
    by (auto simp: nn_surveyor_recv_def nn_surveyor_inprogress_def sv_defs)
  from sv_recv_loop_any [OF ok assms(2,3), of 0] obtain stale r s' where *: "survey_receives T s stale r s'"
    "surveyor_recv_loop T 0 s = Some (Some (fst (survey_result r), snd (survey_result r), length stale, s'))" by auto
  show ?thesis
    by (rule exI [of _ stale], rule exI [of _ r], rule exI [of _ s'])
      (use * in \<open>cases r; simp only: e survey_receives_def survey_result_def received.case fst_conv snd_conv simp_thms\<close>)
qed

theorem survey_collects_its_responses_witness:
  "\<exists>s stale r (s' :: msg list surveyor). survey_do loop_transport (Sv_send empty_msg) (nn_surveyor_init 3 (idle_net [])) = Some s \<and> sv_state s = SV_ACTIVE \<and>
     receives loop_transport (sv_x s) (map Received stale @ [r]) (sv_x s')"
proof -
  define s0 where "s0 = nn_surveyor_init 3 (idle_net [])"
  have 0: "survey_reach loop_transport s0" unfolding s0_def by (rule survey_reach.init)
  have p: "m_sphdr empty_msg = []" "sv_state s0 = SV_PASSIVE" by (simp_all add: s0_def nn_surveyor_init_def empty_msg_def)
  have "sv_ok s0" unfolding s0_def by (rule sv_ok_init)
  from survey_is_sent [OF this p, of loop_transport] obtain s where
    s: "nn_surveyor_send loop_transport empty_msg s0 = Some (0, s)" "sv_state s = SV_ACTIVE" by blast
  have d: "survey_do loop_transport (Sv_send empty_msg) s0 = Some s" by (simp add: s(1))
  have "survey_can (Sv_send empty_msg) s0" by (simp add: p(1))
  from survey_collects_its_responses [OF survey_reach.step [OF 0 this d] loop_transport] s(2) obtain stale r and s' :: "msg list surveyor" where
    "receives loop_transport (sv_x s) (map Received stale @ [r]) (sv_x s')" by auto
  then show ?thesis using d s(2) unfolding s0_def by blast
qed

text \<open>
  A survey and its response. A respondent that can receive and send gets the body of a survey that has arrived; the first answer goes out
  under the identifier of the survey, and further ones are refused with \<open>EFSM\<close>; and when that answer arrives at the surveyor whose last
  survey it was, it is taken for a response.
\<close>

theorem response_is_collected:
  fixes c :: bytes
  assumes "excl_ok (xd_excl (rd_x d)) (xd_net (rd_x d))" "ex_in (xd_excl (rd_x d)) = Some p" "ex_out (xd_excl (rd_x d)) = Some p"
    and "t_recv T p (n_trans (xd_net (rd_x d))) =
      (parsed, carried parsed \<lparr>m_sphdr = nn_putl (sv_surveyid s), m_body = b\<rparr>, nxt, t)"
  defines "answer \<equiv> \<lparr>m_sphdr = nn_putl (sv_surveyid s), m_body = c\<rparr>"
  shows "\<exists>d' d''. nn_respondent_recv T d = Some (0, Some \<lparr>m_sphdr = [], m_body = b\<rparr>, d') \<and>
    nn_respondent_send T \<lparr>m_sphdr = [], m_body = c\<rparr> d' = Some (0, False, d'') \<and>
    n_trans (xd_net (rd_x d'')) = snd (t_send T p answer t) \<and>
    nn_respondent_send T m d'' = Some (- EFSM, False, d'') \<and>
    nn_xreq_split parsed (carried parsed answer) = Some (Received answer) \<and> response_ok s answer"
proof -
  let ?id = "sv_surveyid s" and ?x = "rd_x d"
  have len: "length (nn_putl ?id) = 4" by (simp add: length_put)
  from excl_recv(2) [OF assms(1,2), of T] assms(4) obtain e n where
    r: "nn_excl_recv T (xd_excl ?x) (xd_net ?x) =
        Some (Some (parsed, carried parsed \<lparr>m_sphdr = nn_putl ?id, m_body = b\<rparr>), e, n)"
      "excl_ok e n" "ex_out e = Some p" "n_trans n = t" using assms(3) by auto
  have split: "nn_xrespondent_split parsed (carried parsed \<lparr>m_sphdr = nn_putl ?id, m_body = b\<rparr>) =
      Received \<lparr>m_sphdr = nn_putl ?id, m_body = b\<rparr>"
    using len by (simp add: nn_xrespondent_split_def carried_def)
  let ?d = "d\<lparr>rd_x := ?x\<lparr>xd_excl := e, xd_net := n\<rparr>, rd_surveyid := ?id, rd_inprogress := True\<rparr>"
  have 1: "nn_respondent_recv T d = Some (0, Some \<lparr>m_sphdr = [], m_body = b\<rparr>, ?d)"
    using r(1) split len get_put(2) [of ?id "[]"] by (simp add: nn_respondent_recv_def nn_xrespondent_recv_def Let_def)
  from excl_send(2) [OF r(2,3), of T answer] obtain e' n' where
    s: "nn_excl_send T e answer n = Some (0, e', n')" "n_trans n' = snd (t_send T p answer t)" using r(4) by auto
  let ?d' = "?d\<lparr>rd_x := ?x\<lparr>xd_excl := e', xd_net := n'\<rparr>, rd_inprogress := False\<rparr>"
  have 2: "nn_respondent_send T \<lparr>m_sphdr = [], m_body = c\<rparr> ?d = Some (0, False, ?d')"
    using s(1) by (simp add: nn_respondent_send_def nn_xrespondent_send_def answer_def EAGAIN_def)
  have 3: "nn_respondent_send T m ?d' = Some (- EFSM, False, ?d')" by (simp add: nn_respondent_send_def)
  have 4: "nn_xreq_split parsed (carried parsed answer) = Some (Received answer)"
    using len by (simp add: nn_xreq_split_def carried_def answer_def)
  show ?thesis
    using 1 2 3 4 s(2) by (intro exI [of _ ?d] exI [of _ ?d']) (simp add: response_ok answer_def)
qed

theorem response_is_collected_witness:
  "\<exists>d' d''. nn_respondent_recv loop_transport
      \<lparr>rd_x = \<lparr>xd_excl = \<lparr>ex_pipe = Some 7, ex_in = Some 7, ex_out = Some 7\<rparr>,
        xd_net = idle_net [\<lparr>m_sphdr = [], m_body = nn_putl 3 @ [8]\<rparr>]\<rparr>, rd_surveyid = 0, rd_inprogress = False\<rparr> =
      Some (0, Some \<lparr>m_sphdr = [], m_body = [8]\<rparr>, d') \<and>
    nn_respondent_send loop_transport \<lparr>m_sphdr = [], m_body = [9]\<rparr> d' = Some (0, False, d'') \<and>
    n_trans (xd_net (rd_x d'')) = [\<lparr>m_sphdr = nn_putl 3, m_body = [9]\<rparr>]"
proof -
  let ?d = "\<lparr>rd_x = \<lparr>xd_excl = \<lparr>ex_pipe = Some (7 :: nat), ex_in = Some 7, ex_out = Some 7\<rparr>,
    xd_net = idle_net [\<lparr>m_sphdr = [], m_body = nn_putl 3 @ [8]\<rparr>]\<rparr>, rd_surveyid = 0, rd_inprogress = False\<rparr>"
  have "excl_ok (xd_excl (rd_x ?d)) (xd_net (rd_x ?d))" by (simp add: excl_ok_def idle_net_def)
  moreover have "t_recv loop_transport 7 (n_trans (xd_net (rd_x ?d))) =
      (False, carried False \<lparr>m_sphdr = nn_putl (sv_surveyid (one_surveyor SV_ACTIVE [])), m_body = [8]\<rparr>, False, [])"
    by (simp add: loop_transport_def list_transport_def idle_net_def carried_def one_surveyor_def nn_surveyor_init_def)
  ultimately show ?thesis
    using response_is_collected [of ?d 7 loop_transport False "one_surveyor SV_ACTIVE []" "[8]" False "[]" "[9]" empty_msg]
    by (fastforce simp: loop_transport_def one_surveyor_def nn_surveyor_init_def)
qed

section \<open>The bus\<close>

text \<open>
  The bus does not echo. A message that the raw socket has received, sent back to it by a device, goes once to
  every pipe that can send, but for the one it came from.
\<close>

theorem bus_does_not_echo:
  assumes "xbus_ok x" "drains T avail" "\<forall>p \<in> active (xu_inpipes x). 0 < p \<and> p < 2 ^ 64"
    and "nn_xbus_recv T x = Some (Some (0, Some m, x'))"
  shows "\<exists>p x''. p \<in> active (xu_inpipes x) \<and> m_sphdr m = pipe_image p \<and> nn_xbus_send T m x' = Some (0, x'') \<and> xbus_ok x'' \<and>
    n_trans (xu_net x'') =
      sent_to_all T (m\<lparr>m_sphdr := []\<rparr>) (filter (\<lambda>q. q \<noteq> p) (d_pipes (xu_outpipes x))) (n_trans (xu_net x'))"
proof -
  from xbus_recv [OF assms(1,2)] assms(4) obtain p r where
    *: "xbus_ok x'" "xu_outpipes x' = xu_outpipes x" "p \<in> active (xu_inpipes x)" "m = r\<lparr>m_sphdr := pipe_image p\<rparr>"
    by (auto simp: EAGAIN_def)
  have ok: "fq_ok (xu_inpipes x') (xu_net x')" "dist_ok (xu_outpipes x') (xu_net x')"
    using *(1) by (simp_all add: xbus_ok_def)
  have ex: "image_pipe (pipe_image p) = Some p" using image_pipe_image [of p] assms(3) *(3) by blast
  from dist_send [OF ok(2), of T "m\<lparr>m_sphdr := []\<rparr>" "Some p"] obtain d n where
    d: "nn_dist_send T (xu_outpipes x') (m\<lparr>m_sphdr := []\<rparr>) (Some p) (xu_net x') = Some (d, n)" "dist_ok d n"
      "n_trans n = sent_to_all T (m\<lparr>m_sphdr := []\<rparr>) (filter (\<lambda>q. Some q \<noteq> Some p) (d_pipes (xu_outpipes x'))) (n_trans (xu_net x'))"
      "\<forall>q. pb_instate (n_pipes n q) = pb_instate (n_pipes (xu_net x') q)" by blast
  have "fq_ok (xu_inpipes x') n" by (rule fq_ok_cong [OF ok(1)]) (use d(4) in blast)
  then have "xbus_ok (x'\<lparr>xu_outpipes := d, xu_net := n\<rparr>)" using d(2) by (simp add: xbus_ok_def)
  moreover have "nn_xbus_send T m x' = Some (0, x'\<lparr>xu_outpipes := d, xu_net := n\<rparr>)"
    using d(1) ex by (simp add: nn_xbus_send_def *(4) Let_def)
  ultimately show ?thesis
    using d(3) *(2-4) by (intro exI [of _ p] exI [of _ "x'\<lparr>xu_outpipes := d, xu_net := n\<rparr>"]) simp
qed

theorem bus_does_not_echo_witness:
  "\<exists>m x' x''. nn_xbus_recv loop_transport
      \<lparr>xu_outpipes = \<lparr>d_count = 2, d_pipes = [7, 5]\<rparr>, xu_inpipes = one_pipe,
        xu_net = idle_net [\<lparr>m_sphdr = [], m_body = [8]\<rparr>]\<rparr> = Some (Some (0, Some m, x')) \<and>
    m_sphdr m = pipe_image 7 \<and> nn_xbus_send loop_transport m x' = Some (0, x'')"
proof -
  let ?x = "\<lparr>xu_outpipes = \<lparr>d_count = 2, d_pipes = [7, 5 :: nat]\<rparr>, xu_inpipes = one_pipe,
    xu_net = idle_net [\<lparr>m_sphdr = [], m_body = [8]\<rparr>]\<rparr>"
  have ok: "xbus_ok ?x" using one_pipe_ok(1) by (simp add: xbus_ok_def dist_ok_def idle_net_def)
  have f: "fq_ok (xu_inpipes ?x) (xu_net ?x)" "active (xu_inpipes ?x) \<noteq> {}" "best (xu_inpipes ?x) = {7}"
    using one_pipe_ok(1) one_pipe(2) by (auto simp: best_def)
  have t: "t_recv loop_transport 7 (n_trans (xu_net ?x)) = (False, \<lparr>m_sphdr = [], m_body = [8]\<rparr>, False, [])"
    by (simp add: loop_transport_def list_transport_def idle_net_def)
  from fq_recv(2) [OF f(1,2), of loop_transport] t f(3) obtain fq n where
    "nn_fq_recv loop_transport (xu_inpipes ?x) (xu_net ?x) = Some (Some (7, False, \<lparr>m_sphdr = [], m_body = [8]\<rparr>), fq, n)"
    by auto
  then have r: "nn_xbus_recv loop_transport ?x =
      Some (Some (0, Some \<lparr>m_sphdr = pipe_image 7, m_body = [8]\<rparr>, ?x\<lparr>xu_inpipes := fq, xu_net := n\<rparr>))"
    by (simp add: nn_xbus_recv.simps [of loop_transport ?x])
  from bus_does_not_echo [OF ok loop_transport(2) _ r] one_pipe(2) obtain x'' where
    "nn_xbus_send loop_transport \<lparr>m_sphdr = pipe_image 7, m_body = [8]\<rparr> (?x\<lparr>xu_inpipes := fq, xu_net := n\<rparr>) = Some (0, x'')"
    by auto
  with r show ?thesis by auto
qed

end
