(* ===== verification/Nn_Chunk.thy ===== *)
theory Nn_Chunk
  imports Nn_Wire
begin

text \<open>
  The memory of messages: reference-counted chunks (\<open>utils/chunk.c\<close>, \<open>atomic.c\<close>), the references that hold short data in
  themselves (\<open>chunkref.c\<close>), and messages of three such references (\<open>msg.c\<close>).

  A chunk is a block of the heap: the fields of \<open>struct nn_chunk\<close>, and the bytes that follow it. A pointer to the data of a chunk is
  the number of the block and an offset into those bytes; in front of the data lie the size of the unused space and a tag, in network
  order. The heap says which allocations succeed and what the memory holds that they give. A failed assertion, a freed
  block, and a read or write outside of a block are \<open>None\<close>.
\<close>

section \<open>The heap\<close>

record block =
  bk_refcount :: u32
  bk_size :: u64
  bk_area :: bytes

record heap =
  hp_blocks :: "nat \<Rightarrow> block option"
  hp_next :: nat
  hp_room :: "nat \<Rightarrow> bool"
  hp_junk :: "nat \<Rightarrow> byte list"

type_synonym ptr = "nat \<times> nat"

text \<open>Memory that has not been written: some bytes, as many as asked for.\<close>

definition junk :: "heap \<Rightarrow> nat \<Rightarrow> bytes" where
  "junk h n = take n (hp_junk h (hp_next h)) @ replicate (n - length (hp_junk h (hp_next h))) 0"

definition malloc_block :: "block \<Rightarrow> heap \<Rightarrow> (nat \<times> heap) option" where
  "malloc_block k h =
     (if hp_room h (hp_next h)
      then Some (hp_next h, h\<lparr>hp_blocks := (hp_blocks h)(hp_next h \<mapsto> k), hp_next := hp_next h + 1\<rparr>) else None)"

definition put_block :: "nat \<Rightarrow> block \<Rightarrow> heap \<Rightarrow> heap" where
  "put_block b k h = h\<lparr>hp_blocks := (hp_blocks h)(b \<mapsto> k)\<rparr>"

definition free_block :: "nat \<Rightarrow> heap \<Rightarrow> heap" where
  "free_block b h = h\<lparr>hp_blocks := (hp_blocks h)(b := None)\<rparr>"

definition peek :: "nat \<Rightarrow> bytes \<Rightarrow> u32" where
  "peek i area = nn_getl (drop i area)"

definition poke :: "nat \<Rightarrow> u32 \<Rightarrow> bytes \<Rightarrow> bytes" where
  "poke i v area = take i area @ nn_putl v @ drop (i + 4) area"

section \<open>Chunks\<close>

definition NN_CHUNK_TAG :: u32 where "NN_CHUNK_TAG = 0xdeadcafe"
definition NN_CHUNK_TAG_DEALLOCATED :: u32 where "NN_CHUNK_TAG_DEALLOCATED = 0xbeadfeed"
definition ENOMEM_nn :: int where "ENOMEM_nn = 12"
definition EINVAL_nn :: int where "EINVAL_nn = 22"

text \<open>The structure takes 24 bytes, the two integers after it eight.\<close>

definition nn_chunk_hdrsize :: u64 where
  "nn_chunk_hdrsize = 24 + 2 * 4"

text \<open>A pointer whose unused space does not lead back to the head of its block is \<open>None\<close> too.\<close>

definition nn_chunk_getptr :: "ptr \<Rightarrow> heap \<Rightarrow> (nat \<times> block) option" where
  "nn_chunk_getptr p h =
     (case hp_blocks h (fst p) of
        None \<Rightarrow> None
      | Some self \<Rightarrow>
          if snd p < 8 \<or> length (bk_area self) < snd p then None
          else if peek (snd p - 4) (bk_area self) \<noteq> NN_CHUNK_TAG then None
          else if 8 + unat (peek (snd p - 8) (bk_area self)) \<noteq> snd p then None
          else Some (fst p, self))"

definition nn_chunk_getdata :: "nat \<Rightarrow> ptr" where
  "nn_chunk_getdata self = (self, 8)"

definition nn_chunk_alloc :: "u64 \<Rightarrow> int \<Rightarrow> heap \<Rightarrow> (int + ptr) \<times> heap" where
  "nn_chunk_alloc sz type h =
     (let total = nn_chunk_hdrsize + sz in
      if total < nn_chunk_hdrsize then (Inl (- ENOMEM_nn), h)
      else if type \<noteq> 0 then (Inl (- EINVAL_nn), h)
      else case malloc_block \<lparr>bk_refcount = 1, bk_size = sz,
          bk_area = nn_putl 0 @ nn_putl NN_CHUNK_TAG @ junk h (unat sz)\<rparr> h of
        None \<Rightarrow> (Inl (- ENOMEM_nn), h)
      | Some (self, h') \<Rightarrow> (Inr (nn_chunk_getdata self), h'))"

text \<open>
  A block of its own is reallocated, which may move it, with the bytes that fit; a shared one is copied, as much as it has,
  whatever fits. The new pointer is to the bytes right after the head.
\<close>

definition nn_chunk_realloc :: "u64 \<Rightarrow> ptr \<Rightarrow> heap \<Rightarrow> ((int + ptr) \<times> heap) option" where
  "nn_chunk_realloc sz p h =
     (case nn_chunk_getptr p h of
        None \<Rightarrow> None
      | Some (b, self) \<Rightarrow>
          if bk_refcount self = 1 then
            let new_size = nn_chunk_hdrsize + sz in
            if new_size < nn_chunk_hdrsize then Some (Inl (- ENOMEM_nn), h)
            else (case malloc_block (self\<lparr>bk_size := sz,
                bk_area := take (8 + unat sz) (bk_area self @ junk h (unat sz))\<rparr>) h of
              None \<Rightarrow> Some (Inl (- ENOMEM_nn), h)
            | Some (b', h') \<Rightarrow> Some (Inr (nn_chunk_getdata b'), free_block b h'))
          else
            (case nn_chunk_alloc sz 0 h of
              (Inl rc, h') \<Rightarrow> Some (Inl rc, h')
            | (Inr q, h') \<Rightarrow>
                (case hp_blocks h' (fst q) of
                  None \<Rightarrow> None
                | Some k \<Rightarrow>
                    if bk_size k < bk_size self \<or> length (bk_area self) < 8 + unat (bk_size self) then None
                    else Some (Inr q, put_block b (self\<lparr>bk_refcount := bk_refcount self - 1\<rparr>)
                      (put_block (fst q) (k\<lparr>bk_area := take 8 (bk_area k) @ take (unat (bk_size self)) (drop 8 (bk_area self)) @
                        drop (8 + unat (bk_size self)) (bk_area k)\<rparr>) h')))))"

text \<open>The count is tested as it was before it was decremented. The memory of a freed chunk, and the tag put into it, are gone.\<close>

definition nn_chunk_free :: "ptr \<Rightarrow> heap \<Rightarrow> heap option" where
  "nn_chunk_free p h =
     (case nn_chunk_getptr p h of
        None \<Rightarrow> None
      | Some (b, self) \<Rightarrow>
          Some (if bk_refcount self \<le> 1 then free_block b h
            else put_block b (self\<lparr>bk_refcount := bk_refcount self - 1\<rparr>) h))"

definition nn_chunk_addref :: "ptr \<Rightarrow> u32 \<Rightarrow> heap \<Rightarrow> heap option" where
  "nn_chunk_addref p n h =
     (case nn_chunk_getptr p h of
        None \<Rightarrow> None
      | Some (b, self) \<Rightarrow> Some (put_block b (self\<lparr>bk_refcount := bk_refcount self + n\<rparr>) h))"

definition nn_chunk_size :: "ptr \<Rightarrow> heap \<Rightarrow> u64 option" where
  "nn_chunk_size p h = map_option (\<lambda>(b, self). bk_size self) (nn_chunk_getptr p h)"

text \<open>The tag and the size of the unused space are written in front of the bytes that are left.\<close>

definition nn_chunk_trim :: "ptr \<Rightarrow> u64 \<Rightarrow> heap \<Rightarrow> (ptr \<times> heap) option" where
  "nn_chunk_trim p n h =
     (case nn_chunk_getptr p h of
        None \<Rightarrow> None
      | Some (b, self) \<Rightarrow>
          if \<not> n \<le> bk_size self then None
          else let q = snd p + unat n; empty_space = q - 8 in
            if length (bk_area self) < q \<or> \<not> empty_space < 2 ^ 32 - 1 then None
            else Some ((b, q), put_block b (self\<lparr>
              bk_area := poke (q - 8) (of_nat empty_space) (poke (q - 4) NN_CHUNK_TAG (bk_area self)),
              bk_size := bk_size self - n\<rparr>) h))"

section \<open>References\<close>

definition NN_CHUNKREF_MAX :: nat where "NN_CHUNKREF_MAX = 32"

text \<open>
  The first byte of the 32 is the length of the data in the others, or 0xff when a pointer follows. What the bytes of the structure were before
  is again some memory.
\<close>

datatype chunkref = Vsm bytes | Ref ptr

definition nn_chunkref_init :: "u64 \<Rightarrow> heap \<Rightarrow> (chunkref \<times> heap) option" where
  "nn_chunkref_init sz h =
     (if unat sz < NN_CHUNKREF_MAX then Some (Vsm (junk h (unat sz)), h)
      else case nn_chunk_alloc sz 0 h of
        (Inl rc, h') \<Rightarrow> None
      | (Inr p, h') \<Rightarrow> Some (Ref p, h'))"

definition nn_chunkref_init_chunk :: "ptr \<Rightarrow> chunkref" where
  "nn_chunkref_init_chunk chunk = Ref chunk"

definition nn_chunkref_term :: "chunkref \<Rightarrow> heap \<Rightarrow> heap option" where
  "nn_chunkref_term self h = (case self of Ref p \<Rightarrow> nn_chunk_free p h | Vsm d \<Rightarrow> Some h)"

text \<open>The chunk, and the reference that is left, which is empty.\<close>

definition nn_chunkref_getchunk :: "chunkref \<Rightarrow> heap \<Rightarrow> (ptr \<times> chunkref \<times> heap) option" where
  "nn_chunkref_getchunk self h =
     (case self of
        Ref p \<Rightarrow> Some (p, Vsm [], h)
      | Vsm d \<Rightarrow>
          (case nn_chunk_alloc (of_nat (length d)) 0 h of
            (Inl rc, h') \<Rightarrow> None
          | (Inr p, h') \<Rightarrow>
              (case hp_blocks h' (fst p) of
                None \<Rightarrow> None
              | Some k \<Rightarrow> Some (p, Vsm [], put_block (fst p) (k\<lparr>bk_area := take 8 (bk_area k) @ d\<rparr>) h'))))"

definition nn_chunkref_mv :: "chunkref \<Rightarrow> chunkref" where
  "nn_chunkref_mv src = src"

definition nn_chunkref_cp :: "chunkref \<Rightarrow> heap \<Rightarrow> (chunkref \<times> heap) option" where
  "nn_chunkref_cp src h =
     (case src of Ref p \<Rightarrow> map_option (Pair src) (nn_chunk_addref p 1 h) | Vsm d \<Rightarrow> Some (src, h))"

definition nn_chunkref_size :: "chunkref \<Rightarrow> heap \<Rightarrow> u64 option" where
  "nn_chunkref_size self h = (case self of Ref p \<Rightarrow> nn_chunk_size p h | Vsm d \<Rightarrow> Some (of_nat (length d)))"

text \<open>The bytes that \<open>nn_chunkref_data\<close> points to, as many as there are.\<close>

definition nn_chunkref_data :: "chunkref \<Rightarrow> heap \<Rightarrow> bytes option" where
  "nn_chunkref_data self h =
     (case self of
        Ref p \<Rightarrow> map_option (\<lambda>(b, k). take (unat (bk_size k)) (drop (snd p) (bk_area k))) (nn_chunk_getptr p h)
      | Vsm d \<Rightarrow> Some d)"

text \<open>Writing through that pointer, from its beginning.\<close>

definition chunkref_store :: "bytes \<Rightarrow> chunkref \<Rightarrow> heap \<Rightarrow> (chunkref \<times> heap) option" where
  "chunkref_store d self h =
     (case self of
        Ref p \<Rightarrow>
          (case nn_chunk_getptr p h of
            None \<Rightarrow> None
          | Some (b, k) \<Rightarrow>
              if length (bk_area k) < snd p + length d then None
              else Some (self, put_block b (k\<lparr>bk_area :=
                take (snd p) (bk_area k) @ d @ drop (snd p + length d) (bk_area k)\<rparr>) h))
      | Vsm e \<Rightarrow> if length e < length d then None else Some (Vsm (d @ drop (length d) e), h))"

definition nn_chunkref_trim :: "u64 \<Rightarrow> chunkref \<Rightarrow> heap \<Rightarrow> (chunkref \<times> heap) option" where
  "nn_chunkref_trim n self h =
     (case self of
        Ref p \<Rightarrow> map_option (\<lambda>(q, h'). (Ref q, h')) (nn_chunk_trim p n h)
      | Vsm d \<Rightarrow> if \<not> unat n \<le> length d then None else Some (Vsm (drop (unat n) d), h))"

definition nn_chunkref_bulkcopy_start :: "chunkref \<Rightarrow> u32 \<Rightarrow> heap \<Rightarrow> heap option" where
  "nn_chunkref_bulkcopy_start self copies h =
     (case self of Ref p \<Rightarrow> nn_chunk_addref p copies h | Vsm d \<Rightarrow> Some h)"

definition nn_chunkref_bulkcopy_cp :: "chunkref \<Rightarrow> chunkref" where
  "nn_chunkref_bulkcopy_cp src = src"

section \<open>Messages\<close>

record nn_msg =
  g_sphdr :: chunkref
  g_hdrs :: chunkref
  g_body :: chunkref

text \<open>References with no data take no memory.\<close>

definition nn_msg_init :: "u64 \<Rightarrow> heap \<Rightarrow> (nn_msg \<times> heap) option" where
  "nn_msg_init sz h =
     map_option (\<lambda>(body, h'). (\<lparr>g_sphdr = Vsm [], g_hdrs = Vsm [], g_body = body\<rparr>, h')) (nn_chunkref_init sz h)"

definition nn_msg_init_chunk :: "ptr \<Rightarrow> nn_msg" where
  "nn_msg_init_chunk chunk = \<lparr>g_sphdr = Vsm [], g_hdrs = Vsm [], g_body = nn_chunkref_init_chunk chunk\<rparr>"

definition nn_msg_term :: "nn_msg \<Rightarrow> heap \<Rightarrow> heap option" where
  "nn_msg_term self h =
     Option.bind (nn_chunkref_term (g_sphdr self) h) (\<lambda>h.
     Option.bind (nn_chunkref_term (g_hdrs self) h) (\<lambda>h.
     nn_chunkref_term (g_body self) h))"

definition nn_msg_mv :: "nn_msg \<Rightarrow> nn_msg" where
  "nn_msg_mv src =
     \<lparr>g_sphdr = nn_chunkref_mv (g_sphdr src), g_hdrs = nn_chunkref_mv (g_hdrs src), g_body = nn_chunkref_mv (g_body src)\<rparr>"

definition nn_msg_cp :: "nn_msg \<Rightarrow> heap \<Rightarrow> (nn_msg \<times> heap) option" where
  "nn_msg_cp src h =
     Option.bind (nn_chunkref_cp (g_sphdr src) h) (\<lambda>(sphdr, h).
     Option.bind (nn_chunkref_cp (g_hdrs src) h) (\<lambda>(hdrs, h).
     Option.bind (nn_chunkref_cp (g_body src) h) (\<lambda>(body, h).
     Some (\<lparr>g_sphdr = sphdr, g_hdrs = hdrs, g_body = body\<rparr>, h))))"

definition nn_msg_bulkcopy_start :: "nn_msg \<Rightarrow> u32 \<Rightarrow> heap \<Rightarrow> heap option" where
  "nn_msg_bulkcopy_start self copies h =
     Option.bind (nn_chunkref_bulkcopy_start (g_sphdr self) copies h) (\<lambda>h.
     Option.bind (nn_chunkref_bulkcopy_start (g_hdrs self) copies h) (\<lambda>h.
     nn_chunkref_bulkcopy_start (g_body self) copies h))"

definition nn_msg_bulkcopy_cp :: "nn_msg \<Rightarrow> nn_msg" where
  "nn_msg_bulkcopy_cp src = \<lparr>g_sphdr = nn_chunkref_bulkcopy_cp (g_sphdr src),
     g_hdrs = nn_chunkref_bulkcopy_cp (g_hdrs src), g_body = nn_chunkref_bulkcopy_cp (g_body src)\<rparr>"

definition nn_msg_replace_body :: "chunkref \<Rightarrow> nn_msg \<Rightarrow> heap \<Rightarrow> (nn_msg \<times> heap) option" where
  "nn_msg_replace_body new_body self h =
     map_option (Pair (self\<lparr>g_body := new_body\<rparr>)) (nn_chunkref_term (g_body self) h)"

end
