(* ===== verification/Nn_Chunk_Spec.thy ===== *)
theory Nn_Chunk_Spec
  imports Nn_Chunk
begin

text \<open>
  Variables that hold references to chunks are a store of byte strings: each block of the heap is counted as often as
  variables refer to it, and every operation does to the strings what it should. What changes the data of a chunk needs the only
  reference to it.
\<close>

section \<open>Integers in a block\<close>

lemma length_poke [simp]: "i + 4 \<le> length a \<Longrightarrow> length (poke i v a) = length a"
  by (simp add: poke_def)

lemma nth_poke:
  "i + 4 \<le> length a \<Longrightarrow> k < length a \<Longrightarrow> poke i v a ! k = (if i \<le> k \<and> k < i + 4 then nn_putl v ! (k - i) else a ! k)"
  by (auto simp: poke_def nth_append nth_Cons' min_def)

lemma peek_poke [simp]: "i + 4 \<le> length a \<Longrightarrow> peek i (poke i v a) = v"
  by (simp add: peek_def poke_def)

lemma peek_nth: "i + 4 \<le> length a \<Longrightarrow> peek i a = nn_getl [a ! i, a ! (i + 1), a ! (i + 2), a ! (i + 3)]"
  by (simp add: peek_def nn_getl_def add.commute)

lemma peek_poke_other:
  "i + 4 \<le> length a \<Longrightarrow> j + 4 \<le> length a \<Longrightarrow> i + 4 \<le> j \<or> j + 4 \<le> i \<Longrightarrow> peek i (poke j v a) = peek i a"
  by (auto simp: peek_nth nth_poke)

lemma drop_poke: "i + 4 \<le> k \<Longrightarrow> i + 4 \<le> length a \<Longrightarrow> drop k (poke i v a) = drop k a"
  by (simp add: poke_def)

lemma peek_append: "i + 4 \<le> length a \<Longrightarrow> peek i (a @ b) = peek i a"
  by (auto simp: peek_def nn_getl_def nth_append)

section \<open>Chunks\<close>

text \<open>The data reach to the end of the block.\<close>

definition chunk_ok :: "heap \<Rightarrow> ptr \<Rightarrow> bool" where
  "chunk_ok h p \<longleftrightarrow> (\<exists>k. nn_chunk_getptr p h = Some (fst p, k) \<and> length (bk_area k) = snd p + unat (bk_size k))"

definition chunk_data :: "heap \<Rightarrow> ptr \<Rightarrow> bytes" where
  "chunk_data h p = (case hp_blocks h (fst p) of None \<Rightarrow> [] | Some k \<Rightarrow> drop (snd p) (bk_area k))"

lemma getptr_Some:
  "nn_chunk_getptr p h = Some (b, k) \<longleftrightarrow> b = fst p \<and> hp_blocks h b = Some k \<and> 8 \<le> snd p \<and> snd p \<le> length (bk_area k) \<and>
     peek (snd p - 4) (bk_area k) = NN_CHUNK_TAG \<and> 8 + unat (peek (snd p - 8) (bk_area k)) = snd p"
  by (cases "hp_blocks h (fst p)"; cases "hp_blocks h (fst p) = Some k"; cases "b = fst p")
    (simp_all add: nn_chunk_getptr_def not_less)

lemma getptr_cong: "hp_blocks h' (fst p) = hp_blocks h (fst p) \<Longrightarrow> nn_chunk_getptr p h' = nn_chunk_getptr p h"
  by (simp add: nn_chunk_getptr_def)

lemma chunk_ok_cong: "hp_blocks h' (fst p) = hp_blocks h (fst p) \<Longrightarrow> chunk_ok h' p = chunk_ok h p"
  by (simp add: chunk_ok_def getptr_cong [of h' p h])

lemma chunk_data_cong: "hp_blocks h' (fst p) = hp_blocks h (fst p) \<Longrightarrow> chunk_data h' p = chunk_data h p"
  by (simp add: chunk_data_def)

lemma chunk_okD:
  assumes "chunk_ok h p"
  obtains k where "nn_chunk_getptr p h = Some (fst p, k)" "hp_blocks h (fst p) = Some k" "8 \<le> snd p"
    "length (bk_area k) = snd p + unat (bk_size k)" "nn_chunkref_data (Ref p) h = Some (chunk_data h p)"
    "length (chunk_data h p) = unat (bk_size k)"
  using assms by (auto simp: chunk_ok_def getptr_Some nn_chunkref_data_def chunk_data_def)

text \<open>A block whose count alone has changed.\<close>

lemma recount:
  assumes "nn_chunk_getptr p h = Some (fst p, k)"
  shows "chunk_ok (put_block (fst p) (k\<lparr>bk_refcount := c\<rparr>) h) q = chunk_ok h q"
    and "chunk_data (put_block (fst p) (k\<lparr>bk_refcount := c\<rparr>) h) q = chunk_data h q"
  using assms by (cases "fst q = fst p"; auto simp: chunk_ok_def getptr_Some put_block_def chunk_data_def)+

lemma length_junk [simp]: "length (junk h n) = n"
  by (simp add: junk_def)

lemma peek_head [simp]:
  "peek 0 (nn_putl v @ nn_putl w @ r) = v" "peek 4 (nn_putl v @ nn_putl w @ r) = w"
  by (simp_all add: peek_def)

definition new_block :: "u64 \<Rightarrow> bytes \<Rightarrow> block" where
  "new_block sz d = \<lparr>bk_refcount = 1, bk_size = sz, bk_area = nn_putl 0 @ nn_putl NN_CHUNK_TAG @ d\<rparr>"

definition with_block :: "block \<Rightarrow> heap \<Rightarrow> heap" where
  "with_block k h = h\<lparr>hp_blocks := (hp_blocks h)(hp_next h \<mapsto> k), hp_next := hp_next h + 1\<rparr>"

lemma chunk_alloc:
  assumes "hp_room h (hp_next h)" "unat sz < 2 ^ 64 - 32"
  shows "nn_chunk_alloc sz 0 h = (Inr (hp_next h, 8), with_block (new_block sz (junk h (unat sz))) h)"
proof -
  have "unat (nn_chunk_hdrsize + sz) = 32 + unat sz"
    using assms(2) by (subst unat_plus_simple [THEN iffD1]) (simp_all add: nn_chunk_hdrsize_def word_le_nat_alt unat_word_ariths)
  then have "\<not> nn_chunk_hdrsize + sz < nn_chunk_hdrsize" by (simp add: word_less_nat_alt nn_chunk_hdrsize_def)
  then show ?thesis using assms(1)
    by (simp add: nn_chunk_alloc_def malloc_block_def nn_chunk_getdata_def new_block_def with_block_def Let_def)
qed

lemma new_block_ok:
  assumes "length d = unat sz"
  shows "chunk_ok (with_block (new_block sz d) h) (hp_next h, 8)" "chunk_data (with_block (new_block sz d) h) (hp_next h, 8) = d"
  using assms by (simp_all add: chunk_ok_def getptr_Some chunk_data_def with_block_def new_block_def)

lemma chunk_trim:
  assumes "chunk_ok h p" "unat n \<le> length (chunk_data h p)" "snd p + unat n - 8 < 2 ^ 32 - 1"
  shows "\<exists>k. nn_chunk_trim p n h = Some ((fst p, snd p + unat n), put_block (fst p) k h) \<and>
    chunk_ok (put_block (fst p) k h) (fst p, snd p + unat n) \<and>
    chunk_data (put_block (fst p) k h) (fst p, snd p + unat n) = drop (unat n) (chunk_data h p) \<and>
    map_option bk_refcount (hp_blocks h (fst p)) = Some (bk_refcount k)"
proof -
  from assms(1) obtain k where k: "nn_chunk_getptr p h = Some (fst p, k)" "hp_blocks h (fst p) = Some k" "8 \<le> snd p"
    "length (bk_area k) = snd p + unat (bk_size k)" "length (chunk_data h p) = unat (bk_size k)" by (rule chunk_okD)
  let ?q = "snd p + unat n" and ?a = "bk_area k"
  let ?a' = "poke (?q - 8) (of_nat (?q - 8)) (poke (?q - 4) NN_CHUNK_TAG ?a)"
  let ?k = "k\<lparr>bk_area := ?a', bk_size := bk_size k - n\<rparr>"
  have n: "n \<le> bk_size k" "?q \<le> length ?a" using assms(2) k(4,5) by (simp_all add: word_le_nat_alt)
  then have t: "nn_chunk_trim p n h = Some ((fst p, ?q), put_block (fst p) ?k h)"
    using k(1) assms(3) by (simp add: nn_chunk_trim_def Let_def)
  have b: "?q - 8 + 4 \<le> length ?a" "?q - 4 + 4 \<le> length ?a" using n(2) k(3) by simp_all
  have p4: "peek (?q - 4) ?a' = NN_CHUNK_TAG"
    using b k(3) by (subst peek_poke_other) simp_all
  have p8: "unat (peek (?q - 8) ?a') = ?q - 8" using b assms(3) by (simp add: unat_of_nat)
  have sz: "unat (bk_size k - n) = unat (bk_size k) - unat n" using n(1) by (simp add: unat_sub)
  have ok: "chunk_ok (put_block (fst p) ?k h) (fst p, ?q)"
    using b p4 p8 k(3,4) n(2) sz unfolding chunk_ok_def getptr_Some by (auto simp: put_block_def word_le_nat_alt)
  have "drop ?q ?a' = drop ?q ?a" using b k(3) by (simp add: drop_poke)
  then have "chunk_data (put_block (fst p) ?k h) (fst p, ?q) = drop (unat n) (chunk_data h p)"
    using k(2) by (simp add: chunk_data_def put_block_def add.commute)
  with t ok k(2) show ?thesis by (intro exI [of _ ?k]) simp
qed

section \<open>A store of references\<close>

text \<open>Variables that hold references, named by numbers; a pointer to a chunk that the program holds is such a variable too.\<close>

type_synonym store = "nat \<Rightarrow> chunkref option"

definition users :: "store \<Rightarrow> nat \<Rightarrow> nat set" where
  "users S b = {i. \<exists>off. S i = Some (Ref (b, off))}"

definition store_ok :: "heap \<Rightarrow> store \<Rightarrow> bool" where
  "store_ok h S \<longleftrightarrow> finite (dom S) \<and> (\<forall>b \<ge> hp_next h. hp_blocks h b = None) \<and>
     (\<forall>i p. S i = Some (Ref p) \<longrightarrow> chunk_ok h p) \<and> (\<forall>i d. S i = Some (Vsm d) \<longrightarrow> length d < NN_CHUNKREF_MAX) \<and>
     (\<forall>b k. hp_blocks h b = Some k \<longrightarrow> users S b \<noteq> {} \<and> unat (bk_refcount k) = card (users S b))"

definition ref_data :: "heap \<Rightarrow> chunkref \<Rightarrow> bytes" where
  "ref_data h r = (case r of Vsm d \<Rightarrow> d | Ref p \<Rightarrow> chunk_data h p)"

definition data_of :: "heap \<Rightarrow> store \<Rightarrow> nat \<Rightarrow> bytes option" where
  "data_of h S i = map_option (ref_data h) (S i)"

lemma store_okD:
  assumes "store_ok h S"
  shows "finite (dom S)" "hp_next h \<le> b \<Longrightarrow> hp_blocks h b = None" "S i = Some (Ref p) \<Longrightarrow> chunk_ok h p"
    "S i = Some (Vsm d) \<Longrightarrow> length d < NN_CHUNKREF_MAX"
    "hp_blocks h b = Some k \<Longrightarrow> users S b \<noteq> {}" "hp_blocks h b = Some k \<Longrightarrow> unat (bk_refcount k) = card (users S b)"
  using assms unfolding store_ok_def by blast+

lemma finite_users: "store_ok h S \<Longrightarrow> finite (users S b)"
  by (rule finite_subset [OF _ store_okD(1)]) (auto simp: users_def)

lemma users_upd:
  "users (S(i := v)) b = (users S b - {i}) \<union> (case v of Some (Ref p) \<Rightarrow> if fst p = b then {i} else {} | _ \<Rightarrow> {})"
  by (auto simp: users_def split: option.splits chunkref.splits)

lemma in_users: "S i = Some (Ref p) \<Longrightarrow> i \<in> users S (fst p)"
  by (cases p) (auto simp: users_def)

lemma no_users: "store_ok h S \<Longrightarrow> hp_blocks h b = None \<Longrightarrow> users S b = {}"
  using store_okD(3) by (fastforce simp: users_def chunk_ok_def getptr_Some)

text \<open>When no variable is left, the heap is empty; and no block is without a variable.\<close>

lemma no_leak: "store_ok h S \<Longrightarrow> dom S = {} \<Longrightarrow> hp_blocks h b = None"
  using store_okD(5) [of h S b] by (cases "hp_blocks h b") (auto simp: users_def)

text \<open>Changing one block and one variable.\<close>

lemma store_okI:
  assumes "store_ok h S" "hp_next h \<le> hp_next h'" "b < hp_next h'" "\<And>c. c \<noteq> b \<Longrightarrow> hp_blocks h' c = hp_blocks h c"
    and "finite (dom S')" "\<And>c. c \<noteq> b \<Longrightarrow> users S' c = users S c"
    and "\<And>i p. S' i = Some (Ref p) \<Longrightarrow> fst p = b \<Longrightarrow> chunk_ok h' p"
    and "\<And>i p. S' i = Some (Ref p) \<Longrightarrow> fst p \<noteq> b \<Longrightarrow> chunk_ok h p"
    and "\<And>i d. S' i = Some (Vsm d) \<Longrightarrow> length d < NN_CHUNKREF_MAX"
    and "\<And>k. hp_blocks h' b = Some k \<Longrightarrow> users S' b \<noteq> {} \<and> unat (bk_refcount k) = card (users S' b)"
  shows "store_ok h' S'"
  unfolding store_ok_def
proof (intro conjI allI impI)
  fix c assume "hp_next h' \<le> c"
  then show "hp_blocks h' c = None" using assms(2-4) store_okD(2) [OF assms(1), of c] by auto
next
  fix i p assume "S' i = Some (Ref p)"
  then show "chunk_ok h' p" using assms(4,7,8) chunk_ok_cong [of h' p h] by (cases "fst p = b") auto
next
  fix c k assume k: "hp_blocks h' c = Some k"
  show "users S' c \<noteq> {}" "unat (bk_refcount k) = card (users S' c)"
    using k assms(4,6,10) store_okD(5,6) [OF assms(1)] by (cases "c = b"; auto)+
qed (use assms(5,9) in auto)

section \<open>The operations\<close>

lemma data_of_upd: "data_of h (S(i := v)) = (data_of h S)(i := map_option (ref_data h) v)"
  by (auto simp: data_of_def)

text \<open>The data of the variables that do not use the block that has changed.\<close>

lemma data_of_cong:
  assumes "\<And>i p. S i = Some (Ref p) \<Longrightarrow> chunk_data h' p = chunk_data h p"
  shows "data_of h' S = data_of h S"
proof
  fix i
  show "data_of h' S i = data_of h S i"
    by (cases "S i") (auto simp: data_of_def ref_data_def assms split: chunkref.splits)
qed

text \<open>A new chunk.\<close>

lemma new_chunk_ok:
  assumes "store_ok h S" "S j = None \<or> (\<exists>d. S j = Some (Vsm d))" "length d = unat sz"
  defines "h' \<equiv> with_block (new_block sz d) h"
  shows "store_ok h' (S(j \<mapsto> Ref (hp_next h, 8)))" "data_of h' (S(j \<mapsto> Ref (hp_next h, 8))) = (data_of h S)(j \<mapsto> d)"
proof -
  let ?b = "hp_next h"
  have n: "hp_blocks h ?b = None" using store_okD(2) [OF assms(1)] by simp
  have u: "users S ?b = {}" by (rule no_users [OF assms(1) n])
  have h': "hp_blocks h' = (hp_blocks h)(?b \<mapsto> new_block sz d)" "hp_next h' = ?b + 1"
    by (simp_all add: h'_def with_block_def)
  have ok: "chunk_ok h' (?b, 8)" "chunk_data h' (?b, 8) = d" using new_block_ok [OF assms(3)] by (simp_all add: h'_def)
  have j: "j \<notin> users S c" for c using assms(2) by (auto simp: users_def)
  show "store_ok h' (S(j \<mapsto> Ref (?b, 8)))"
  proof (rule store_okI [OF assms(1), where b = ?b])
    show "users (S(j \<mapsto> Ref (?b, 8))) c = users S c" if "c \<noteq> ?b" for c using that j by (auto simp: users_upd)
    show "chunk_ok h' p" if "(S(j \<mapsto> Ref (?b, 8))) i = Some (Ref p)" "fst p = ?b" for i p
      using that ok(1) in_users [of S i p] u by (auto split: if_splits)
    show "chunk_ok h p" if "(S(j \<mapsto> Ref (?b, 8))) i = Some (Ref p)" "fst p \<noteq> ?b" for i p
      using that store_okD(3) [OF assms(1), of i p] by (auto split: if_splits)
    show "users (S(j \<mapsto> Ref (?b, 8))) ?b \<noteq> {} \<and> unat (bk_refcount k) = card (users (S(j \<mapsto> Ref (?b, 8))) ?b)"
      if "hp_blocks h' ?b = Some k" for k using that u by (auto simp: h' users_upd new_block_def)
  qed (use h' store_okD(1,4) [OF assms(1)] in \<open>auto split: if_splits\<close>)
  have "chunk_data h' p = chunk_data h p" if "S i = Some (Ref p)" for i p
    using in_users [of S i p, OF that] u h'(1) by (intro chunk_data_cong) auto
  then show "data_of h' (S(j \<mapsto> Ref (?b, 8))) = (data_of h S)(j \<mapsto> d)"
    using data_of_cong [of S h' h] ok(2) by (simp add: data_of_upd ref_data_def)
qed

definition room :: "heap \<Rightarrow> u64 \<Rightarrow> bool" where
  "room h sz \<longleftrightarrow> hp_room h (hp_next h) \<and> unat sz < 2 ^ 64 - 32"

lemma ref_init:
  assumes "store_ok h S" "S i = None" "room h sz"
  shows "\<exists>r h' d. nn_chunkref_init sz h = Some (r, h') \<and> store_ok h' (S(i \<mapsto> r)) \<and>
    data_of h' (S(i \<mapsto> r)) = (data_of h S)(i \<mapsto> d) \<and> length d = unat sz"
proof (cases "unat sz < NN_CHUNKREF_MAX")
  case True
  let ?r = "Vsm (junk h (unat sz))"
  have "users (S(i \<mapsto> ?r)) b = users S b" for b using assms(2) by (auto simp: users_def)
  then have "store_ok h (S(i \<mapsto> ?r))" using assms(1) True by (auto simp: store_ok_def)
  then show ?thesis using True
    by (intro exI [of _ ?r] exI [of _ h] exI [of _ "junk h (unat sz)"]) (simp add: nn_chunkref_init_def data_of_upd ref_data_def)
next
  case False
  let ?d = "junk h (unat sz)"
  have "nn_chunkref_init sz h = Some (Ref (hp_next h, 8), with_block (new_block sz ?d) h)"
    using False chunk_alloc [of h sz] assms(3) by (simp add: nn_chunkref_init_def room_def)
  with new_chunk_ok [OF assms(1), of i ?d sz] assms(2) show ?thesis by auto
qed

text \<open>References that are added and taken away change the count alone.\<close>

lemma recount_ok:
  assumes "store_ok h S" "S i = Some (Ref p)" "nn_chunk_getptr p h = Some (fst p, k)"
    and "finite (dom S')" "\<And>c. c \<noteq> fst p \<Longrightarrow> users S' c = users S c"
    and "\<And>j r. S' j = Some r \<Longrightarrow> \<exists>l. S l = Some r"
    and "users S' (fst p) \<noteq> {}" "unat c = card (users S' (fst p))"
  defines "h' \<equiv> put_block (fst p) (k\<lparr>bk_refcount := c\<rparr>) h"
  shows "store_ok h' S'" "data_of h' S' = data_of h S'"
proof -
  note R = recount [OF assms(3), of c, folded h'_def]
  have b: "hp_blocks h (fst p) = Some k" using assms(3) by (simp add: getptr_Some)
  then have n: "fst p < hp_next h" using store_okD(2) [OF assms(1), of "fst p"] by (cases "fst p < hp_next h") auto
  show "store_ok h' S'"
  proof (rule store_okI [OF assms(1), where b = "fst p"])
    show "chunk_ok h' q" if "S' j = Some (Ref q)" for j q
      using assms(6) [OF that] R(1) store_okD(3) [OF assms(1)] by blast
    show "chunk_ok h q" if "S' j = Some (Ref q)" for j q using assms(6) [OF that] store_okD(3) [OF assms(1)] by blast
    show "length d < NN_CHUNKREF_MAX" if "S' j = Some (Vsm d)" for j d
      using assms(6) [OF that] store_okD(4) [OF assms(1)] by blast
  qed (use assms(4,5,7,8) n in \<open>auto simp: h'_def put_block_def\<close>)
  show "data_of h' S' = data_of h S'" by (rule data_of_cong) (simp add: R(2))
qed

lemma ref_bulk:
  assumes "store_ok h S" "S i = Some (Ref p)" "finite J" "\<forall>j \<in> J. S j = None" "card (users S (fst p)) + card J < 2 ^ 32"
  defines "S' \<equiv> \<lambda>j. if j \<in> J then Some (Ref p) else S j"
  shows "\<exists>h'. nn_chunk_addref p (of_nat (card J)) h = Some h' \<and> store_ok h' S' \<and> data_of h' S' = data_of h S'"
proof -
  from store_okD(3) [OF assms(1,2)] obtain k where
    k: "nn_chunk_getptr p h = Some (fst p, k)" "hp_blocks h (fst p) = Some k" by (rule chunk_okD)
  have u: "users S' (fst p) = users S (fst p) \<union> J" by (cases p) (auto simp: users_def S'_def)
  have dis: "users S (fst p) \<inter> J = {}" using assms(4) by (auto simp: users_def)
  have "unat (bk_refcount k + of_nat (card J)) = card (users S' (fst p))"
    using store_okD(6) [OF assms(1) k(2)] assms(5) card_Un_disjoint [OF finite_users [OF assms(1)] assms(3) dis]
    by (simp add: u unat_word_ariths unat_of_nat)
  moreover have "users S' c = users S c" if "c \<noteq> fst p" for c
    using that assms(4) by (cases p) (auto simp: users_def S'_def)
  moreover have "finite (dom S')"
    by (rule finite_subset [of _ "dom S \<union> J"]) (use store_okD(1) [OF assms(1)] assms(3) in \<open>auto simp: S'_def split: if_splits\<close>)
  moreover have "users S' (fst p) \<noteq> {}" using store_okD(5) [OF assms(1) k(2)] u by simp
  moreover have "\<exists>l. S l = Some r" if "S' j = Some r" for j r using that assms(2) by (auto simp: S'_def split: if_splits)
  ultimately show ?thesis
    using recount_ok [OF assms(1,2) k(1), of S' "bk_refcount k + of_nat (card J)"] k(1) by (auto simp: nn_chunk_addref_def)
qed

lemma ref_term:
  assumes "store_ok h S" "S i = Some r"
  shows "\<exists>h'. nn_chunkref_term r h = Some h' \<and> store_ok h' (S(i := None)) \<and> data_of h' (S(i := None)) = (data_of h S)(i := None)"
proof (cases r)
  case (Vsm d)
  have "users (S(i := None)) b = users S b" for b using assms(2) Vsm by (auto simp: users_def)
  then have "store_ok h (S(i := None))" using assms(1) by (auto simp: store_ok_def)
  then show ?thesis using Vsm by (simp add: nn_chunkref_term_def data_of_upd)
next
  case (Ref p)
  let ?S = "S(i := None)"
  have i: "S i = Some (Ref p)" using assms(2) Ref by simp
  from store_okD(3) [OF assms(1) i] obtain k where
    k: "nn_chunk_getptr p h = Some (fst p, k)" "hp_blocks h (fst p) = Some k" by (rule chunk_okD)
  have u: "users ?S c = users S c - {i}" for c by (simp add: users_upd)
  have ui: "i \<in> users S c \<longleftrightarrow> c = fst p" for c using i by (cases p) (auto simp: users_def)
  have cnt: "unat (bk_refcount k) = card (users S (fst p))" by (rule store_okD(6) [OF assms(1) k(2)])
  have f: "finite (users S (fst p))" by (rule finite_users [OF assms(1)])
  have sub: "\<exists>l. S l = Some r" if "?S j = Some r" for j r using that by (auto split: if_splits)
  show ?thesis
  proof (cases "bk_refcount k \<le> 1")
    case True
    then have "card (users S (fst p)) \<le> 1" using cnt by (simp add: word_le_nat_alt)
    then have e: "users S (fst p) - {i} = {}" using ui f by (metis card_le_Suc0_iff_eq One_nat_def Diff_eq_empty_iff insertI1 subsetI singletonD singleton_iff)
    let ?h = "free_block (fst p) h"
    have nb: "fst q \<noteq> fst p" if "?S j = Some (Ref q)" for j q using in_users [of ?S j q] that e u by auto
    have n: "fst p < hp_next h" using k(2) store_okD(2) [OF assms(1), of "fst p"] by (cases "fst p < hp_next h") auto
    have "store_ok ?h ?S"
    proof (rule store_okI [OF assms(1), where b = "fst p"])
      show "chunk_ok h q" if "?S j = Some (Ref q)" for j q using sub [OF that] store_okD(3) [OF assms(1)] by blast
      show "length d < NN_CHUNKREF_MAX" if "?S j = Some (Vsm d)" for j d using sub [OF that] store_okD(4) [OF assms(1)] by blast
      show "users ?S c = users S c" if "c \<noteq> fst p" for c using that ui u by auto
    qed (use nb n store_okD(1) [OF assms(1)] in \<open>auto simp: free_block_def\<close>)
    moreover have "data_of ?h ?S = data_of h ?S"
      by (rule data_of_cong, rule chunk_data_cong) (use nb in \<open>simp add: free_block_def\<close>)
    ultimately show ?thesis using k(1) True Ref by (simp add: nn_chunkref_term_def nn_chunk_free_def data_of_upd)
  next
    case False
    then have "1 < card (users S (fst p))" using cnt by (simp add: word_le_nat_alt)
    moreover have "card (users ?S (fst p)) = card (users S (fst p)) - 1" using ui f by (simp add: u card_Diff_singleton)
    ultimately have c: "card (users ?S (fst p)) = card (users S (fst p)) - 1" "users ?S (fst p) \<noteq> {}" by auto
    have "bk_refcount k \<noteq> 0" using False by auto
    then have "unat (bk_refcount k - 1) = card (users ?S (fst p))" using cnt c(1) by (simp add: unat_minus_one)
    then have "store_ok (put_block (fst p) (k\<lparr>bk_refcount := bk_refcount k - 1\<rparr>) h) ?S"
      "data_of (put_block (fst p) (k\<lparr>bk_refcount := bk_refcount k - 1\<rparr>) h) ?S = data_of h ?S"
      using recount_ok [OF assms(1) i k(1), of ?S] sub c(2) ui u store_okD(1) [OF assms(1)] by auto
    then show ?thesis using k(1) False Ref by (simp add: nn_chunkref_term_def nn_chunk_free_def data_of_upd)
  qed
qed

text \<open>The only variable that refers to a chunk may change it.\<close>

definition exclusive :: "store \<Rightarrow> nat \<Rightarrow> bool" where
  "exclusive S i \<longleftrightarrow> (\<forall>p. S i = Some (Ref p) \<longrightarrow> users S (fst p) = {i})"

lemma rewrite_ok:
  assumes "store_ok h S" "S i = Some (Ref p)" "users S (fst p) = {i}" "hp_blocks h (fst p) = Some k"
    and "bk_refcount k' = bk_refcount k" "fst q = fst p"
  defines "h' \<equiv> put_block (fst p) k' h"
  assumes "chunk_ok h' q"
  shows "store_ok h' (S(i \<mapsto> Ref q))" "data_of h' (S(i \<mapsto> Ref q)) = (data_of h S)(i \<mapsto> chunk_data h' q)"
proof -
  have nb: "fst r \<noteq> fst p" if "S j = Some (Ref r)" "j \<noteq> i" for j r using in_users [of S j r, OF that(1)] that(2) assms(3) by (metis singletonD)
  have n: "fst p < hp_next h" using assms(4) store_okD(2) [OF assms(1), of "fst p"] by (cases "fst p < hp_next h") auto
  have u: "users (S(i \<mapsto> Ref q)) c = users S c" for c
    using assms(2,3,6) by (cases "c = fst p"; cases p; cases q) (auto simp: users_upd users_def)
  show "store_ok h' (S(i \<mapsto> Ref q))"
  proof (rule store_okI [OF assms(1), where b = "fst p"])
    show "users (S(i \<mapsto> Ref q)) (fst p) \<noteq> {} \<and> unat (bk_refcount l) = card (users (S(i \<mapsto> Ref q)) (fst p))"
      if "hp_blocks h' (fst p) = Some l" for l
      using that assms(5) store_okD(5,6) [OF assms(1,4)] u by (auto simp: h'_def put_block_def)
    show "chunk_ok h' r" if "(S(i \<mapsto> Ref q)) j = Some (Ref r)" "fst r = fst p" for j r
      using that nb [of j r] assms(8) by (cases "j = i") auto
    show "chunk_ok h r" if "(S(i \<mapsto> Ref q)) j = Some (Ref r)" "fst r \<noteq> fst p" for j r
      using that assms(6) store_okD(3) [OF assms(1), of j r] by (auto split: if_splits)
    show "length d < NN_CHUNKREF_MAX" if "(S(i \<mapsto> Ref q)) j = Some (Vsm d)" for j d
      using that store_okD(4) [OF assms(1), of j d] by (auto split: if_splits)
  qed (use n u store_okD(1) [OF assms(1)] in \<open>auto simp: h'_def put_block_def\<close>)
  have "data_of h' (S(i := None)) = data_of h (S(i := None))"
    by (rule data_of_cong, rule chunk_data_cong) (use nb in \<open>auto simp: h'_def put_block_def split: if_splits\<close>)
  then have "(data_of h' S)(i := None) = (data_of h S)(i := None)" by (simp add: data_of_upd)
  then show "data_of h' (S(i \<mapsto> Ref q)) = (data_of h S)(i \<mapsto> chunk_data h' q)"
    by (metis data_of_upd fun_upd_upd option.simps(9) ref_data_def chunkref.simps(6))
qed

lemma vsm_ok:
  assumes "store_ok h S" "S i = Some (Vsm d)" "length e < NN_CHUNKREF_MAX"
  shows "store_ok h (S(i \<mapsto> Vsm e))" "data_of h (S(i \<mapsto> Vsm e)) = (data_of h S)(i \<mapsto> e)"
proof -
  have "users (S(i \<mapsto> Vsm e)) b = users S b" for b using assms(2) by (auto simp: users_def)
  then show "store_ok h (S(i \<mapsto> Vsm e))" using assms(1,3) by (auto simp: store_ok_def)
  show "data_of h (S(i \<mapsto> Vsm e)) = (data_of h S)(i \<mapsto> e)" by (simp add: data_of_upd ref_data_def)
qed

text \<open>Where the data of a variable begin in its block.\<close>

definition ref_offset :: "chunkref \<Rightarrow> nat" where
  "ref_offset r = (case r of Ref p \<Rightarrow> snd p | Vsm d \<Rightarrow> 8)"

lemma ref_trim:
  assumes "store_ok h S" "S i = Some r" "exclusive S i" "unat n \<le> length (ref_data h r)" "ref_offset r + unat n - 8 < 2 ^ 32 - 1"
  shows "\<exists>r' h'. nn_chunkref_trim n r h = Some (r', h') \<and> store_ok h' (S(i \<mapsto> r')) \<and>
    data_of h' (S(i \<mapsto> r')) = (data_of h S)(i \<mapsto> drop (unat n) (ref_data h r))"
proof (cases r)
  case (Vsm d)
  with assms(2,4) vsm_ok [OF assms(1), of i d "drop (unat n) d"] store_okD(4) [OF assms(1), of i d] show ?thesis
    by (simp add: nn_chunkref_trim_def ref_data_def)
next
  case (Ref p)
  have i: "S i = Some (Ref p)" "users S (fst p) = {i}" using assms(2,3) Ref by (auto simp: exclusive_def)
  from store_okD(3) [OF assms(1) i(1)] have ok: "chunk_ok h p" .
  then obtain k0 where k0: "hp_blocks h (fst p) = Some k0" by (rule chunk_okD)
  from chunk_trim [OF ok, of n] assms(4,5) Ref obtain k where
    k: "nn_chunk_trim p n h = Some ((fst p, snd p + unat n), put_block (fst p) k h)"
      "chunk_ok (put_block (fst p) k h) (fst p, snd p + unat n)"
      "chunk_data (put_block (fst p) k h) (fst p, snd p + unat n) = drop (unat n) (chunk_data h p)"
      "bk_refcount k0 = bk_refcount k" using k0 by (auto simp: ref_data_def ref_offset_def)
  from rewrite_ok [OF assms(1) i k0, of k "(fst p, snd p + unat n)"] k(2-4) show ?thesis
    using k(1) Ref by (simp add: nn_chunkref_trim_def ref_data_def)
qed

lemma ref_store:
  assumes "store_ok h S" "S i = Some r" "exclusive S i" "length d \<le> length (ref_data h r)"
  shows "\<exists>r' h'. chunkref_store d r h = Some (r', h') \<and> store_ok h' (S(i \<mapsto> r')) \<and>
    data_of h' (S(i \<mapsto> r')) = (data_of h S)(i \<mapsto> d @ drop (length d) (ref_data h r))"
proof (cases r)
  case (Vsm e)
  with assms(2,4) vsm_ok [OF assms(1), of i e "d @ drop (length d) e"] store_okD(4) [OF assms(1), of i e] show ?thesis
    by (simp add: chunkref_store_def ref_data_def)
next
  case (Ref p)
  have i: "S i = Some (Ref p)" "users S (fst p) = {i}" using assms(2,3) Ref by (auto simp: exclusive_def)
  from store_okD(3) [OF assms(1) i(1)] obtain k where
    k: "nn_chunk_getptr p h = Some (fst p, k)" "hp_blocks h (fst p) = Some k" "8 \<le> snd p"
      "length (bk_area k) = snd p + unat (bk_size k)" "length (chunk_data h p) = unat (bk_size k)" by (rule chunk_okD)
  let ?a = "take (snd p) (bk_area k) @ d @ drop (snd p + length d) (bk_area k)"
  let ?k = "k\<lparr>bk_area := ?a\<rparr>" and ?h = "put_block (fst p) (k\<lparr>bk_area := ?a\<rparr>) h"
  have l: "length d \<le> unat (bk_size k)" using assms(4) k(5) Ref by (simp add: ref_data_def)
  have a: "length ?a = length (bk_area k)" "snd p \<le> length (bk_area k)" using l k(4) by simp_all
  have "peek j ?a = peek j (bk_area k)" if "j + 4 \<le> snd p" for j
    using that a by (simp add: peek_nth nth_append)
  then have ok: "chunk_ok ?h p" using k(1,3,4) a
    by (auto simp: chunk_ok_def getptr_Some put_block_def)
  have "chunk_data ?h p = d @ drop (length d) (chunk_data h p)"
    using a k(2) by (simp add: chunk_data_def put_block_def add.commute)
  moreover have "chunkref_store d r h = Some (Ref p, ?h)" using k(1,4) l Ref by (simp add: chunkref_store_def)
  ultimately show ?thesis
    using rewrite_ok [OF assms(1) i k(2), of ?k p] ok Ref by (simp add: ref_data_def)
qed

lemma ref_getchunk:
  assumes "store_ok h S" "S i = Some r" "S j = None" "i \<noteq> j" "room h (of_nat (length (ref_data h r)))"
  shows "\<exists>p r' h'. nn_chunkref_getchunk r h = Some (p, r', h') \<and> store_ok h' (S(i \<mapsto> r', j \<mapsto> Ref p)) \<and>
    data_of h' (S(i \<mapsto> r', j \<mapsto> Ref p)) = (data_of h S)(i \<mapsto> [], j \<mapsto> ref_data h r)"
proof (cases r)
  case (Ref p)
  let ?S = "S(i \<mapsto> Vsm [], j \<mapsto> Ref p)"
  have i: "S i = Some (Ref p)" using assms(2) Ref by simp
  from store_okD(3) [OF assms(1) i] obtain k where
    k: "nn_chunk_getptr p h = Some (fst p, k)" "hp_blocks h (fst p) = Some k" by (rule chunk_okD)
  have u: "users ?S c = (if c = fst p then insert j (users S c - {i}) else users S c)" for c
    using i assms(3,4) by (cases p) (auto simp: users_def)
  have c: "card (users ?S c) = card (users S c)" for c
  proof (cases "c = fst p")
    case True
    have "i \<in> users S c" "j \<notin> users S c" using in_users [of S i p, OF i] True assms(3) by (auto simp: users_def)
    then have "card (insert j (users S c - {i})) = card (users S c)"
      using finite_users [OF assms(1), of c] card_Suc_Diff1 [of "users S c" i] by (simp del: card_Diff_insert card_Diff_singleton)
    then show ?thesis using True u by simp
  qed (use u in simp)
  have ok: "store_ok h ?S"
    unfolding store_ok_def
  proof (intro conjI allI impI)
    fix l q assume "?S l = Some (Ref q)"
    then show "chunk_ok h q" using store_okD(3) [OF assms(1)] i by (auto split: if_splits)
  next
    fix l d assume "?S l = Some (Vsm d)"
    then show "length d < NN_CHUNKREF_MAX" using store_okD(4) [OF assms(1)] by (auto simp: NN_CHUNKREF_MAX_def split: if_splits)
  next
    fix b m assume m: "hp_blocks h b = Some m"
    show "users ?S b \<noteq> {}" using store_okD(5) [OF assms(1) m] u by auto
    show "unat (bk_refcount m) = card (users ?S b)" using store_okD(6) [OF assms(1) m] c by simp
  qed (use store_okD(1,2) [OF assms(1)] in auto)
  then show ?thesis using Ref by (simp add: nn_chunkref_getchunk_def data_of_upd ref_data_def)
next
  case (Vsm d)
  let ?p = "(hp_next h, 8)" and ?sz = "of_nat (length d) :: u64"
  let ?hj = "with_block (new_block ?sz (junk h (length d))) h" and ?h = "with_block (new_block ?sz d) h"
  have l: "length d < 32" using store_okD(4) [OF assms(1), of i d] assms(2) Vsm by (simp add: NN_CHUNKREF_MAX_def)
  then have sz: "unat ?sz = length d" by (simp add: unat_of_nat)
  have "nn_chunk_alloc ?sz 0 h = (Inr ?p, ?hj)"
    using chunk_alloc [of h ?sz] assms(5) sz Vsm by (simp add: room_def ref_data_def)
  moreover have "put_block (hp_next h) ((new_block ?sz (junk h (length d)))\<lparr>bk_area :=
      take 8 (bk_area (new_block ?sz (junk h (length d)))) @ d\<rparr>) ?hj = ?h"
    by (simp add: put_block_def with_block_def new_block_def)
  ultimately have g: "nn_chunkref_getchunk r h = Some (?p, Vsm [], ?h)"
    using Vsm by (simp add: nn_chunkref_getchunk_def with_block_def)
  have i: "S i = Some (Vsm d)" using assms(2) Vsm by simp
  note V = vsm_ok [OF assms(1) i, of "[]"]
  have ok: "store_ok h (S(i \<mapsto> Vsm []))" by (rule V(1)) (simp add: NN_CHUNKREF_MAX_def)
  from new_chunk_ok [OF ok, of j d ?sz] assms(3,4) sz V(2) show ?thesis
    using g Vsm by (simp add: ref_data_def NN_CHUNKREF_MAX_def)
qed

end
