(* ===== verification/Nn_Chunk_Props.thy ===== *)
theory Nn_Chunk_Props
  imports Nn_Chunk_Spec
begin

text \<open>
  The properties of the memory of messages: its operations on any number of variables are those on byte strings, memory is neither lost nor
  used after it has been freed, and what happens when a chunk is reallocated after it has been trimmed, or
  trimmed while it is shared.
\<close>

section \<open>Sequences of operations\<close>

text \<open>
  The operations, on numbered variables: initialise with a length, copy, copy many times at once, move, terminate, trim, write
  through the data pointer, and take the chunk out into another variable.
\<close>

datatype ref_op =
    Op_init nat u64 | Op_cp nat nat | Op_bulk nat "nat list" | Op_mv nat nat | Op_term nat |
    Op_trim nat u64 | Op_put nat bytes | Op_getchunk nat nat

fun ref_do :: "ref_op \<Rightarrow> heap \<times> store \<Rightarrow> (heap \<times> store) option" where
  "ref_do (Op_init i n) (h, S) = map_option (\<lambda>(r, h'). (h', S(i \<mapsto> r))) (nn_chunkref_init n h)"
| "ref_do (Op_cp i j) (h, S) =
     Option.bind (S i) (\<lambda>r. map_option (\<lambda>(r', h'). (h', S(j \<mapsto> r'))) (nn_chunkref_cp r h))"
| "ref_do (Op_bulk i js) (h, S) =
     Option.bind (S i) (\<lambda>r. map_option (\<lambda>h'. (h', \<lambda>j. if j \<in> set js then Some (nn_chunkref_bulkcopy_cp r) else S j))
       (nn_chunkref_bulkcopy_start r (of_nat (length js)) h))"
| "ref_do (Op_mv i j) (h, S) = Option.bind (S i) (\<lambda>r. Some (h, S(i := None, j \<mapsto> nn_chunkref_mv r)))"
| "ref_do (Op_term i) (h, S) = Option.bind (S i) (\<lambda>r. map_option (\<lambda>h'. (h', S(i := None))) (nn_chunkref_term r h))"
| "ref_do (Op_trim i n) (h, S) =
     Option.bind (S i) (\<lambda>r. map_option (\<lambda>(r', h'). (h', S(i \<mapsto> r'))) (nn_chunkref_trim n r h))"
| "ref_do (Op_put i d) (h, S) =
     Option.bind (S i) (\<lambda>r. map_option (\<lambda>(r', h'). (h', S(i \<mapsto> r'))) (chunkref_store d r h))"
| "ref_do (Op_getchunk i j) (h, S) =
     Option.bind (S i) (\<lambda>r. map_option (\<lambda>(p, r', h'). (h', S(i \<mapsto> r', j \<mapsto> Ref p))) (nn_chunkref_getchunk r h))"

text \<open>The same on byte strings; what a new string holds is not said.\<close>

fun string_step :: "ref_op \<Rightarrow> (nat \<Rightarrow> bytes option) \<Rightarrow> (nat \<Rightarrow> bytes option) \<Rightarrow> bool" where
  "string_step (Op_init i n) A A' \<longleftrightarrow> (\<exists>d. length d = unat n \<and> A' = A(i \<mapsto> d))"
| "string_step (Op_cp i j) A A' \<longleftrightarrow> A' = A(j := A i)"
| "string_step (Op_bulk i js) A A' \<longleftrightarrow> A' = (\<lambda>j. if j \<in> set js then A i else A j)"
| "string_step (Op_mv i j) A A' \<longleftrightarrow> A' = A(j := A i, i := None)"
| "string_step (Op_term i) A A' \<longleftrightarrow> A' = A(i := None)"
| "string_step (Op_trim i n) A A' \<longleftrightarrow> A' = A(i := map_option (drop (unat n)) (A i))"
| "string_step (Op_put i d) A A' \<longleftrightarrow> A' = A(i := map_option (\<lambda>e. d @ drop (length d) e) (A i))"
| "string_step (Op_getchunk i j) A A' \<longleftrightarrow> A' = A(j := A i, i \<mapsto> [])"

definition free_var :: "store \<Rightarrow> nat \<Rightarrow> bool" where "free_var S i \<longleftrightarrow> S i = None"

text \<open>
  What is asked of the caller, none of which the code checks: variables in use and free ones, memory, lengths, and the only reference where data
  change.
\<close>

fun ref_can :: "ref_op \<Rightarrow> heap \<Rightarrow> store \<Rightarrow> bool" where
  "ref_can (Op_init i n) h S \<longleftrightarrow> S i = None \<and> room h n"
| "ref_can (Op_cp i j) h S \<longleftrightarrow> S i \<noteq> None \<and> S j = None \<and> card (dom S) < 2 ^ 32 - 1"
| "ref_can (Op_bulk i js) h S \<longleftrightarrow> S i \<noteq> None \<and> list_all (free_var S) js \<and> distinct js \<and> card (dom S) + length js < 2 ^ 32"
| "ref_can (Op_mv i j) h S \<longleftrightarrow> S i \<noteq> None \<and> S j = None"
| "ref_can (Op_term i) h S \<longleftrightarrow> S i \<noteq> None"
| "ref_can (Op_trim i n) h S \<longleftrightarrow> exclusive S i \<and>
     (case S i of None \<Rightarrow> False
      | Some r \<Rightarrow> unat n \<le> length (ref_data h r) \<and> ref_offset r + unat n - 8 < 2 ^ 32 - 1)"
| "ref_can (Op_put i d) h S \<longleftrightarrow> exclusive S i \<and> (case S i of None \<Rightarrow> False | Some r \<Rightarrow> length d \<le> length (ref_data h r))"
| "ref_can (Op_getchunk i j) h S \<longleftrightarrow> S j = None \<and>
     (case S i of None \<Rightarrow> False | Some r \<Rightarrow> room h (of_nat (length (ref_data h r))))"

lemma bulk_ok:
  assumes "store_ok h S" "S i = Some r" "finite J" "\<forall>j \<in> J. S j = None" "card (dom S) + card J < 2 ^ 32"
  defines "S' \<equiv> \<lambda>j. if j \<in> J then Some r else S j"
  shows "\<exists>h'. nn_chunkref_bulkcopy_start r (of_nat (card J)) h = Some h' \<and> store_ok h' S' \<and>
    data_of h' S' = (\<lambda>j. if j \<in> J then data_of h S i else data_of h S j)"
proof -
  have d: "data_of h S' = (\<lambda>j. if j \<in> J then data_of h S i else data_of h S j)"
    using assms(2) by (auto simp: data_of_def S'_def)
  show ?thesis
  proof (cases r)
    case (Vsm e)
    have "users S' b = users S b" for b using assms(2,4) Vsm by (auto simp: users_def S'_def)
    moreover have "finite (dom S')"
      by (rule finite_subset [of _ "dom S \<union> J"]) (use store_okD(1) [OF assms(1)] assms(3) in \<open>auto simp: S'_def split: if_splits\<close>)
    ultimately have "store_ok h S'"
      using assms(1,2) Vsm store_okD(4) [OF assms(1), of i e] by (auto simp: store_ok_def S'_def split: if_splits)
    then show ?thesis using Vsm d by (simp add: nn_chunkref_bulkcopy_start_def)
  next
    case (Ref p)
    have "card (users S (fst p)) \<le> card (dom S)"
      by (rule card_mono [OF store_okD(1) [OF assms(1)]]) (auto simp: users_def)
    then have "card (users S (fst p)) + card J < 2 ^ 32" using assms(5) by simp
    from ref_bulk [OF assms(1) _ assms(3,4) this] assms(2) Ref d show ?thesis
      by (auto simp: nn_chunkref_bulkcopy_start_def S'_def)
  qed
qed

lemma cp_ok:
  assumes "store_ok h S" "S i = Some r" "S j = None" "card (dom S) < 2 ^ 32 - 1"
  shows "\<exists>h'. nn_chunkref_cp r h = Some (r, h') \<and> store_ok h' (S(j \<mapsto> r)) \<and>
    data_of h' (S(j \<mapsto> r)) = (data_of h S)(j := data_of h S i)"
proof -
  have e: "(\<lambda>l. if l \<in> {j} then Some r else S l) = S(j \<mapsto> r)"
    "(\<lambda>l. if l \<in> {j} then data_of h S i else data_of h S l) = (data_of h S)(j := data_of h S i)" by auto
  have "nn_chunkref_cp r h = map_option (Pair r) (nn_chunkref_bulkcopy_start r 1 h)"
    by (cases r) (simp_all add: nn_chunkref_cp_def nn_chunkref_bulkcopy_start_def)
  then show ?thesis using bulk_ok [OF assms(1,2), of "{j}", unfolded e] assms(3,4) by auto
qed

lemma mv_ok:
  assumes "store_ok h S" "S i = Some r" "S j = None"
  shows "store_ok h (S(i := None, j \<mapsto> r))"
proof -
  let ?S = "S(i := None, j \<mapsto> r)"
  have ij: "i \<noteq> j" using assms(2,3) by auto
  have u: "users ?S b = (if i \<in> users S b then insert j (users S b - {i}) else users S b)" for b
    using assms(2,3) by (auto simp: users_def)
  have c: "card (users ?S b) = card (users S b)" for b
  proof (cases "i \<in> users S b")
    case True
    have "j \<notin> users S b" using assms(3) by (simp add: users_def)
    then have "card (insert j (users S b - {i})) = card (users S b)"
      using True finite_users [OF assms(1), of b] card_Suc_Diff1 [of "users S b" i] by (simp del: card_Diff_insert card_Diff_singleton)
    then show ?thesis using True u by simp
  qed (use u in simp)
  show ?thesis
    unfolding store_ok_def
  proof (intro conjI allI impI)
    fix l q assume "?S l = Some (Ref q)"
    then show "chunk_ok h q" using store_okD(3) [OF assms(1)] assms(2) by (auto split: if_splits)
  next
    fix l d assume "?S l = Some (Vsm d)"
    then show "length d < NN_CHUNKREF_MAX" using store_okD(4) [OF assms(1)] assms(2) by (auto split: if_splits)
  next
    fix b m assume m: "hp_blocks h b = Some m"
    show "users ?S b \<noteq> {}" using store_okD(5) [OF assms(1) m] u by auto
    show "unat (bk_refcount m) = card (users ?S b)" using store_okD(6) [OF assms(1) m] c by simp
  qed (use store_okD(1,2) [OF assms(1)] in auto)
qed

lemma ref_do_ok:
  assumes "store_ok h S" "ref_can op h S"
  shows "\<exists>h' S'. ref_do op (h, S) = Some (h', S') \<and> store_ok h' S' \<and> string_step op (data_of h S) (data_of h' S')"
proof (cases op)
  case (Op_init i n)
  with ref_init [OF assms(1), of i n] assms(2) show ?thesis by fastforce
next
  case (Op_cp i j)
  then obtain r where r: "S i = Some r" using assms(2) by auto
  with Op_cp cp_ok [OF assms(1) r, of j] assms(2) show ?thesis by auto
next
  case (Op_bulk i js)
  then obtain r where r: "S i = Some r" using assms(2) by auto
  have "card (set js) = length js" "\<forall>j \<in> set js. S j = None"
    using assms(2) Op_bulk by (auto simp: distinct_card list_all_iff free_var_def)
  with Op_bulk r bulk_ok [OF assms(1) r, of "set js"] assms(2) show ?thesis
    by (auto simp: nn_chunkref_bulkcopy_cp_def cong: if_cong)
next
  case (Op_mv i j)
  then obtain r where r: "S i = Some r" "S j = None" using assms(2) by auto
  then have "data_of h (S(i := None, j \<mapsto> r)) = (data_of h S)(j := data_of h S i, i := None)"
    by (cases "i = j") (auto simp: data_of_def fun_eq_iff)
  with Op_mv r mv_ok [OF assms(1) r] show ?thesis by (simp add: nn_chunkref_mv_def del: fun_upd_apply)
next
  case (Op_term i)
  then obtain r where r: "S i = Some r" using assms(2) by auto
  with Op_term ref_term [OF assms(1) r] show ?thesis by auto
next
  case (Op_trim i n)
  then obtain r where r: "S i = Some r" "exclusive S i" "unat n \<le> length (ref_data h r)" "ref_offset r + unat n - 8 < 2 ^ 32 - 1"
    using assms(2) by (auto split: option.splits)
  then have "data_of h S i = Some (ref_data h r)" by (simp add: data_of_def)
  with Op_trim r(1) ref_trim [OF assms(1) r] show ?thesis by auto
next
  case (Op_put i d)
  then obtain r where r: "S i = Some r" "exclusive S i" "length d \<le> length (ref_data h r)"
    using assms(2) by (auto split: option.splits)
  then have "data_of h S i = Some (ref_data h r)" by (simp add: data_of_def)
  with Op_put r(1) ref_store [OF assms(1) r] show ?thesis by auto
next
  case (Op_getchunk i j)
  then obtain r where r: "S i = Some r" "S j = None" "room h (of_nat (length (ref_data h r)))"
    using assms(2) by (auto split: option.splits)
  then have ij: "i \<noteq> j" and "data_of h S i = Some (ref_data h r)" by (auto simp: data_of_def)
  with Op_getchunk r(1) ref_getchunk [OF assms(1) r(1,2) ij r(3)] show ?thesis by (auto simp: fun_upd_twist)
qed

text \<open>What a program can do from an empty heap.\<close>

inductive ref_reach :: "heap \<Rightarrow> store \<Rightarrow> bool" where
  start: "(\<And>b. hp_blocks h b = None) \<Longrightarrow> ref_reach h (\<lambda>_. None)"
| step: "ref_reach h S \<Longrightarrow> ref_can op h S \<Longrightarrow> ref_do op (h, S) = Some (h', S') \<Longrightarrow> ref_reach h' S'"

lemma ref_reach_ok: "ref_reach h S \<Longrightarrow> store_ok h S"
proof (induction rule: ref_reach.induct)
  case (start h)
  then show ?case by (simp add: store_ok_def)
next
  case (step h S op h' S')
  from ref_do_ok [OF step.IH step.hyps(2)] step.hyps(3) show ?case by auto
qed

text \<open>A heap with memory for everything.\<close>

definition big_heap :: heap where
  "big_heap = \<lparr>hp_blocks = (\<lambda>_. None), hp_next = 0, hp_room = (\<lambda>_. True), hp_junk = (\<lambda>_. [])\<rparr>"

section \<open>Properties\<close>

text \<open>
  C15: References are byte strings, for a program that changes no shared chunk. The conditions are those of \<open>ref_can\<close>: each variable is used
  between its initialisation and its termination; it is stored to, or trimmed, only while it is the only one that refers to its chunk; what is
  initialised fits into memory, what is trimmed or stored into the string; and there are fewer than \<open>2^32\<close> references. In every state
  that such a program reaches each operation that the conditions allow succeeds, with no failed assertion and no access outside of memory, and
  does to the contents of the variables what it does to byte strings, each with its own: copying need not copy the bytes. The code does
  not check that a chunk it changes is not shared, and \<open>shared_trim_breaks_the_other\<close> shows what happens when it is.
\<close>

theorem references_are_byte_strings:
  assumes "ref_reach h S" "ref_can op h S"
  shows "\<exists>h' S'. ref_do op (h, S) = Some (h', S') \<and> string_step op (data_of h S) (data_of h' S')"
  using ref_do_ok [OF ref_reach_ok [OF assms(1)] assms(2)] by blast

theorem references_are_byte_strings_witness:
  "\<exists>h S h' S'. ref_do (Op_init 1 40) (big_heap, \<lambda>_. None) = Some (h, S) \<and>
     ref_do (Op_cp 1 2) (h, S) = Some (h', S') \<and> data_of h' S' 2 = data_of h S 1"
proof -
  have 0: "ref_reach big_heap (\<lambda>_. None)" by (rule ref_reach.start) (simp add: big_heap_def)
  have c0: "ref_can (Op_init 1 40) big_heap (\<lambda>_. None)" by (simp add: room_def big_heap_def)
  from references_are_byte_strings [OF 0 c0] obtain h S d where
    1: "ref_do (Op_init 1 40) (big_heap, \<lambda>_. None) = Some (h, S)" "data_of h S = (data_of big_heap (\<lambda>_. None))(1 \<mapsto> d)" by auto
  then have S: "dom S = {1}" by (auto simp: data_of_def dom_def fun_eq_iff split: if_splits)
  have "S 2 = None" using domI [of S 2] S by (cases "S 2") fastforce+
  moreover have "S 1 \<noteq> None" using S by blast
  ultimately have c1: "ref_can (Op_cp 1 2) h S" using S by auto
  from references_are_byte_strings [OF ref_reach.step [OF 0 c0 1(1)] c1] 1(1) show ?thesis by fastforce
qed

text \<open>
  C16: Memory is neither lost nor used after it has been freed. In every such state a block is allocated exactly when some variable
  refers to it, and its count is the number of those variables. In particular no block is left when all variables have been
  terminated.
\<close>

theorem blocks_are_counted:
  assumes "ref_reach h S"
  shows "(hp_blocks h b \<noteq> None \<longleftrightarrow> users S b \<noteq> {}) \<and>
    (\<forall>k. hp_blocks h b = Some k \<longrightarrow> unat (bk_refcount k) = card (users S b)) \<and> (dom S = {} \<longrightarrow> hp_blocks h b = None)"
  using no_users [OF ref_reach_ok [OF assms], of b] store_okD(5,6) [OF ref_reach_ok [OF assms], of b] no_leak [OF ref_reach_ok [OF assms], of b]
  by auto

theorem blocks_are_counted_witness:
  "\<exists>h S k. ref_do (Op_init 1 40) (big_heap, \<lambda>_. None) = Some (h, S) \<and> hp_blocks h 0 = Some k \<and>
     unat (bk_refcount k) = card (users S 0) \<and> users S 0 = {1} \<and>
     (\<exists>h'. ref_do (Op_term 1) (h, S) = Some (h', \<lambda>_. None) \<and> hp_blocks h' 0 = None)"
proof -
  let ?h = "with_block (new_block 40 (junk big_heap 40)) big_heap" and ?S = "[1 \<mapsto> Ref (0, 8)] :: store"
  have 0: "ref_reach big_heap (\<lambda>_. None)" by (rule ref_reach.start) (simp add: big_heap_def)
  have c0: "ref_can (Op_init 1 40) big_heap (\<lambda>_. None)" by (simp add: room_def big_heap_def)
  have d0: "ref_do (Op_init 1 40) (big_heap, \<lambda>_. None) = Some (?h, ?S)"
    using chunk_alloc [of big_heap 40] by (simp add: nn_chunkref_init_def NN_CHUNKREF_MAX_def big_heap_def)
  note 1 = ref_reach.step [OF 0 c0 d0]
  have u: "users ?S 0 = {1}" by (auto simp: users_def)
  obtain k where k: "hp_blocks ?h 0 = Some k" by (simp add: with_block_def big_heap_def)
  have c1: "ref_can (Op_term 1) ?h ?S" by simp
  from ref_do_ok [OF ref_reach_ok [OF 1] c1] obtain h' S' where "ref_do (Op_term 1) (?h, ?S) = Some (h', S')" by blast
  then have d1: "ref_do (Op_term 1) (?h, ?S) = Some (h', \<lambda>_. None)" by (auto simp: fun_eq_iff split: if_splits)
  have "hp_blocks h' 0 = None" using blocks_are_counted [OF ref_reach.step [OF 1 c1 d1], of 0] by simp
  then show ?thesis using d0 k u d1 blocks_are_counted [OF 1, of 0] by blast
qed

text \<open>
  A message that has been trimmed cannot be reallocated. When four bytes have been taken from the front of a chunk, as the sockets do with
  the header of every request and reply, reallocating it succeeds, but the pointer it gives is to where the data of the whole chunk
  began, where the tag has been overwritten: the next use of it, to free it at the latest, fails an assertion.
\<close>

theorem realloc_after_trim_aborts:
  assumes "chunk_ok h (b, 8)" "hp_blocks h b = Some k" "bk_refcount k = 1" "4 \<le> unat (bk_size k)"
    and "hp_room h (hp_next h)" "b \<noteq> hp_next h" "unat n < 2 ^ 64 - 32"
  shows "\<exists>p h1 q h2. nn_chunk_trim (b, 8) 4 h = Some (p, h1) \<and> chunk_data h1 p = drop 4 (chunk_data h (b, 8)) \<and>
    nn_chunk_realloc n p h1 = Some (Inr q, h2) \<and> nn_chunk_free q h2 = None \<and> nn_chunk_size q h2 = None"
proof -
  let ?a = "bk_area k"
  from assms(1) obtain k' where "nn_chunk_getptr (b, 8) h = Some (b, k')" "hp_blocks h b = Some k'"
    "length (bk_area k') = 8 + unat (bk_size k')" by (rule chunk_okD) auto
  then have g: "nn_chunk_getptr (b, 8) h = Some (b, k)" "length ?a = 8 + unat (bk_size k)" using assms(2) by simp_all
  have u4: "unat (4 :: u64) = 4" by simp
  have l: "4 \<le> length (chunk_data h (b, 8))" using assms(2,4) g(2) by (simp add: chunk_data_def)
  let ?a' = "poke 4 (of_nat 4) (poke 8 NN_CHUNK_TAG ?a)"
  let ?k = "k\<lparr>bk_area := ?a', bk_size := bk_size k - 4\<rparr>" and ?h = "put_block b (k\<lparr>bk_area := ?a', bk_size := bk_size k - 4\<rparr>) h"
  have n4: "4 \<le> bk_size k" using assms(4) by (simp add: word_le_nat_alt)
  have t: "nn_chunk_trim (b, 8) 4 h = Some ((b, 12), ?h)" using g n4 assms(4) by (simp add: nn_chunk_trim_def Let_def)
  from chunk_trim [OF assms(1), of 4] l t have
    ok: "chunk_ok ?h (b, 12)" "chunk_data ?h (b, 12) = drop 4 (chunk_data h (b, 8))" by auto
  from ok(1) obtain k1 where "nn_chunk_getptr (b, 12) ?h = Some (b, k1)" by (rule chunk_okD) auto
  then have g1: "nn_chunk_getptr (b, 12) ?h = Some (b, ?k)" by (auto simp: getptr_Some put_block_def)
  let ?k2 = "?k\<lparr>bk_size := n, bk_area := take (8 + unat n) (?a' @ junk ?h (unat n))\<rparr>"
  let ?h2 = "free_block b (with_block ?k2 ?h)"
  have "unat (nn_chunk_hdrsize + n) = 32 + unat n"
    using assms(7) by (subst unat_plus_simple [THEN iffD1]) (simp_all add: nn_chunk_hdrsize_def word_le_nat_alt unat_word_ariths)
  then have no: "\<not> nn_chunk_hdrsize + n < nn_chunk_hdrsize" by (simp add: word_less_nat_alt nn_chunk_hdrsize_def)
  have r: "nn_chunk_realloc n (b, 12) ?h = Some (Inr (hp_next h, 8), ?h2)"
    using g1 no assms(3,5) by (simp add: nn_chunk_realloc_def malloc_block_def with_block_def nn_chunk_getdata_def Let_def
        put_block_def [of b _ h])
  have "peek 4 (bk_area ?k2) = peek 4 ?a'"
    using g(2) assms(4) by (simp add: peek_nth nth_append)
  also have "\<dots> = 4" using g(2) assms(4) by simp
  finally have "peek 4 (bk_area ?k2) \<noteq> NN_CHUNK_TAG" by (simp add: NN_CHUNK_TAG_def)
  then have "nn_chunk_getptr (hp_next h, 8) ?h2 = None"
    using assms(6) by (simp add: nn_chunk_getptr_def free_block_def with_block_def put_block_def)
  then have "nn_chunk_free (hp_next h, 8) ?h2 = None" "nn_chunk_size (hp_next h, 8) ?h2 = None"
    by (simp_all add: nn_chunk_free_def nn_chunk_size_def)
  with t ok(2) r show ?thesis by blast
qed

theorem realloc_after_trim_aborts_witness:
  "\<exists>p0 h0 p h1 q h2. nn_chunk_alloc 40 0 big_heap = (Inr p0, h0) \<and> nn_chunk_trim p0 4 h0 = Some (p, h1) \<and>
     nn_chunk_realloc 50 p h1 = Some (Inr q, h2) \<and> nn_chunk_free q h2 = None"
proof -
  let ?h = "with_block (new_block 40 (junk big_heap 40)) big_heap"
  have a: "nn_chunk_alloc 40 0 big_heap = (Inr (0, 8), ?h)"
    using chunk_alloc [of big_heap 40] by (simp add: big_heap_def)
  have "chunk_ok ?h (0, 8)" using new_block_ok(1) [of "junk big_heap 40" 40 big_heap] by (simp add: big_heap_def)
  from realloc_after_trim_aborts [OF this, of "new_block 40 (junk big_heap 40)" 50] show ?thesis
    using a by (auto simp: with_block_def big_heap_def new_block_def)
qed

text \<open>
  A shared chunk must not be trimmed. When two references share a chunk and four bytes are taken from one of them, the new
  head overwrites the tag of the other, whose next use fails an assertion.
\<close>

theorem shared_trim_breaks_the_other:
  assumes "chunk_ok h p" "4 \<le> length (chunk_data h p)" "snd p < 2 ^ 32 - 1" "snd p - 4 \<noteq> unat NN_CHUNK_TAG"
  shows "\<exists>h1 r h2. nn_chunkref_cp (Ref p) h = Some (Ref p, h1) \<and> nn_chunkref_trim 4 (Ref p) h1 = Some (r, h2) \<and>
    ref_data h2 r = drop 4 (chunk_data h p) \<and> nn_chunkref_size (Ref p) h2 = None \<and> nn_chunkref_term (Ref p) h2 = None"
proof -
  from assms(1) obtain k where k: "nn_chunk_getptr p h = Some (fst p, k)" "hp_blocks h (fst p) = Some k" "8 \<le> snd p"
    "length (bk_area k) = snd p + unat (bk_size k)" "length (chunk_data h p) = unat (bk_size k)" by (rule chunk_okD)
  let ?k = "k\<lparr>bk_refcount := bk_refcount k + 1\<rparr>" and ?h = "put_block (fst p) (k\<lparr>bk_refcount := bk_refcount k + 1\<rparr>) h"
  note R = recount [OF k(1), of "bk_refcount k + 1"]
  have c: "nn_chunkref_cp (Ref p) h = Some (Ref p, ?h)" using k(1) by (simp add: nn_chunkref_cp_def nn_chunk_addref_def)
  have ok: "chunk_ok ?h p" "chunk_data ?h p = chunk_data h p" using R assms(1) by simp_all
  have g: "nn_chunk_getptr p ?h = Some (fst p, ?k)" using k(1) by (simp add: getptr_Some put_block_def)
  let ?a = "poke (snd p - 4) (of_nat (snd p - 4)) (poke (snd p) NN_CHUNK_TAG (bk_area k))"
  let ?h2 = "put_block (fst p) (?k\<lparr>bk_area := ?a, bk_size := bk_size k - 4\<rparr>) ?h"
  have sz: "4 \<le> bk_size k" using assms(2) k(5) by (simp add: word_le_nat_alt)
  have t: "nn_chunk_trim p 4 ?h = Some ((fst p, snd p + 4), ?h2)"
    using g sz assms(2,3) k(3-5) by (simp add: nn_chunk_trim_def Let_def)
  have "unat (4 :: u64) \<le> length (chunk_data ?h p)" "snd p + unat (4 :: u64) - 8 < 2 ^ 32 - 1"
    using assms(2,3) ok(2) by simp_all
  from chunk_trim [OF ok(1) this] ok(2) t have
    d: "chunk_data ?h2 (fst p, snd p + 4) = drop 4 (chunk_data h p)" by auto
  have "peek (snd p - 4) ?a = of_nat (snd p - 4)" using k(3-5) assms(2) by (intro peek_poke) simp
  moreover have "(of_nat (snd p - 4) :: u32) \<noteq> NN_CHUNK_TAG"
    using assms(3,4) by (auto simp: word_unat_eq_iff unat_of_nat)
  ultimately have "nn_chunk_getptr p ?h2 = None"
    by (simp add: nn_chunk_getptr_def put_block_def del: of_nat_diff)
  then show ?thesis
    using c t d by (intro exI [of _ ?h] exI [of _ "Ref (fst p, snd p + 4)"] exI [of _ ?h2])
      (simp add: nn_chunkref_trim_def ref_data_def nn_chunkref_size_def nn_chunk_size_def nn_chunkref_term_def nn_chunk_free_def)
qed

theorem shared_trim_breaks_the_other_witness:
  "\<exists>h1 r h2. nn_chunkref_cp (Ref (0, 8)) (with_block (new_block 40 (junk big_heap 40)) big_heap) = Some (Ref (0, 8), h1) \<and>
     nn_chunkref_trim 4 (Ref (0, 8)) h1 = Some (r, h2) \<and> nn_chunkref_term (Ref (0, 8)) h2 = None"
proof -
  let ?h = "with_block (new_block 40 (junk big_heap 40)) big_heap"
  have "chunk_ok ?h (0, 8)" "chunk_data ?h (0, 8) = junk big_heap 40"
    using new_block_ok [of "junk big_heap 40" 40 big_heap] by (simp_all add: big_heap_def)
  then show ?thesis using shared_trim_breaks_the_other [of ?h "(0, 8)"] by (auto simp: NN_CHUNK_TAG_def)
qed

end
