(* ===== verification/Nn_Msgqueue.thy ===== *)
theory Nn_Msgqueue
  imports Nn_Req
begin

text \<open>
  The message queue of the in-process transport, \<open>transports/inproc/msgqueue.c\<close>: a chain of chunks of 126 messages each, filled at one
  end and emptied at the other, with one empty chunk kept for later, and a limit on the memory of the messages.

  Chunks are named by numbers. Memory that holds no message, or one that has been moved away, is \<open>None\<close>; reading it, or a
  chunk that has been freed, is the outcome \<open>None\<close> of the operation. Allocation succeeds, since the code ends the process
  when it does not. The contract that the queue gives to its users is the locale \<open>bounded_fifo\<close>.
\<close>

definition NN_MSGQUEUE_GRANULARITY :: nat where "NN_MSGQUEUE_GRANULARITY = 126"

record mq_chunk =
  mc_msgs :: "nat \<Rightarrow> msg option"
  mc_next :: "nat option"

record msgqueue =
  mq_heap :: "nat \<Rightarrow> mq_chunk option"
  mq_fresh :: nat
  mq_out :: "nat \<times> nat"
  mq_in :: "nat \<times> nat"
  mq_count :: u64
  mq_mem :: u64
  mq_maxmem :: u64
  mq_cache :: "nat option"

definition new_chunk :: mq_chunk where
  "new_chunk = \<lparr>mc_msgs = (\<lambda>_. None), mc_next = None\<rparr>"

definition nn_msgqueue_init :: "u64 \<Rightarrow> msgqueue" where
  "nn_msgqueue_init maxmem =
     \<lparr>mq_heap = [0 \<mapsto> new_chunk], mq_fresh = 1, mq_out = (0, 0), mq_in = (0, 0), mq_count = 0, mq_mem = 0,
      mq_maxmem = maxmem, mq_cache = None\<rparr>"

definition nn_msgqueue_empty :: "msgqueue \<Rightarrow> bool" where
  "nn_msgqueue_empty self \<longleftrightarrow> mq_count self = 0"

definition msg_size :: "msg \<Rightarrow> u64" where
  "msg_size m = of_nat (length (m_sphdr m)) + of_nat (length (m_body m))"

text \<open>Storing a message at the end; when the chunk is full, the cached one or a new one is linked to it.\<close>

definition mq_link :: "msgqueue \<Rightarrow> msgqueue option" where
  "mq_link self0 =
     (let self = (if mq_cache self0 = None
         then self0\<lparr>mq_heap := (mq_heap self0)(mq_fresh self0 \<mapsto> new_chunk), mq_fresh := mq_fresh self0 + 1,
           mq_cache := Some (mq_fresh self0)\<rparr> else self0) in
      case (mq_heap self (fst (mq_out self)), mq_cache self) of
        (Some c, Some k) \<Rightarrow>
          Some (self\<lparr>mq_heap := (mq_heap self)(fst (mq_out self) \<mapsto> c\<lparr>mc_next := Some k\<rparr>), mq_out := (k, 0), mq_cache := None\<rparr>)
      | _ \<Rightarrow> None)"

definition nn_msgqueue_send :: "msg \<Rightarrow> msgqueue \<Rightarrow> (int \<times> msgqueue) option" where
  "nn_msgqueue_send m self =
     (let msgsz = msg_size m in
      if 0 < mq_count self \<and> mq_maxmem self \<le> mq_mem self + msgsz then Some (- EAGAIN, self)
      else case (mq_heap self (fst (mq_out self)), mq_out self) of
        (Some c, (k, pos)) \<Rightarrow>
          (let self' = self\<lparr>mq_count := mq_count self + 1, mq_mem := mq_mem self + msgsz,
             mq_heap := (mq_heap self)(k \<mapsto> c\<lparr>mc_msgs := (mc_msgs c)(pos \<mapsto> m)\<rparr>), mq_out := (k, pos + 1)\<rparr> in
           if pos + 1 = NN_MSGQUEUE_GRANULARITY then map_option (Pair 0) (mq_link self') else Some (0, self'))
      | _ \<Rightarrow> None)"

text \<open>Behind the last message of a chunk the next one follows; the empty one is cached or freed.\<close>

definition mq_unlink :: "nat \<Rightarrow> mq_chunk \<Rightarrow> msgqueue \<Rightarrow> msgqueue option" where
  "mq_unlink k c self =
     (case mc_next c of
        None \<Rightarrow> None
      | Some k' \<Rightarrow>
          Some (if mq_cache self = None then self\<lparr>mq_in := (k', 0), mq_cache := Some k\<rparr>
            else self\<lparr>mq_in := (k', 0), mq_heap := (mq_heap self)(k := None)\<rparr>))"

definition nn_msgqueue_recv :: "msgqueue \<Rightarrow> (int \<times> msg option \<times> msgqueue) option" where
  "nn_msgqueue_recv self =
     (if mq_count self = 0 then Some (- EAGAIN, None, self)
      else case (mq_heap self (fst (mq_in self)), mq_in self) of
        (Some c, (k, pos)) \<Rightarrow>
          (case mc_msgs c pos of
            None \<Rightarrow> None
          | Some m \<Rightarrow>
              (let c' = c\<lparr>mc_msgs := (mc_msgs c)(pos := None)\<rparr>;
                   self' = self\<lparr>mq_heap := (mq_heap self)(k \<mapsto> c'), mq_in := (k, pos + 1),
                     mq_count := mq_count self - 1, mq_mem := mq_mem self - msg_size m\<rparr> in
               map_option (\<lambda>self''. (0, Some m, self''))
                 (if pos + 1 = NN_MSGQUEUE_GRANULARITY then mq_unlink k c' self' else Some self')))
      | _ \<Rightarrow> None)"

text \<open>Receiving until nothing is left, then freeing the last chunk and the cached one.\<close>

fun mq_drain :: "nat \<Rightarrow> msgqueue \<Rightarrow> msgqueue option" where
  "mq_drain 0 self = None"
| "mq_drain (Suc fuel) self =
     (case nn_msgqueue_recv self of
        None \<Rightarrow> None
      | Some (rc, m, self') \<Rightarrow> if rc = - EAGAIN then Some self' else if rc < 0 then None else mq_drain fuel self')"

definition nn_msgqueue_term :: "nat \<Rightarrow> msgqueue \<Rightarrow> msgqueue option" where
  "nn_msgqueue_term fuel self0 =
     (case mq_drain fuel self0 of
        None \<Rightarrow> None
      | Some self \<Rightarrow>
          if fst (mq_in self) \<noteq> fst (mq_out self) then None
          else let h = (mq_heap self)(fst (mq_in self) := None) in
            Some (self\<lparr>mq_heap := (case mq_cache self of None \<Rightarrow> h | Some k \<Rightarrow> h(k := None)), mq_cache := None\<rparr>))"

section \<open>The contract\<close>

text \<open>Putting (\<open>Some m\<close>) and getting (\<open>None\<close>), with what was accepted and what came out.\<close>

fun passes ::
    "('m \<Rightarrow> 'q \<Rightarrow> (int \<times> 'q) option) \<Rightarrow> ('q \<Rightarrow> (int \<times> 'm option \<times> 'q) option) \<Rightarrow> 'm option list \<Rightarrow> 'q \<Rightarrow>
     ('m list \<times> 'm list \<times> 'q) option" where
  "passes put get [] q = Some ([], [], q)"
| "passes put get (None # ops) q =
     (case get q of
        None \<Rightarrow> None
      | Some (rc, r, q') \<Rightarrow>
          map_option (\<lambda>(i, o', q'). (i, (case r of None \<Rightarrow> o' | Some m \<Rightarrow> m # o'), q')) (passes put get ops q'))"
| "passes put get (Some m # ops) q =
     (case put m q of
        None \<Rightarrow> None
      | Some (rc, q') \<Rightarrow> map_option (\<lambda>(i, o', q'). (if rc = 0 then m # i else i, o', q')) (passes put get ops q'))"

text \<open>
  A first-in, first-out queue with a limit: \<open>holds q ms\<close> says that the messages in it are \<open>ms\<close>. A message is refused only when there
  is another one in the queue already and the limit would be reached. The number of messages must stay below what can be counted.
\<close>

locale bounded_fifo =
  fixes holds :: "'q \<Rightarrow> 'm list \<Rightarrow> bool"
    and full :: "'m \<Rightarrow> 'q \<Rightarrow> bool"
    and put :: "'m \<Rightarrow> 'q \<Rightarrow> (int \<times> 'q) option"
    and get :: "'q \<Rightarrow> (int \<times> 'm option \<times> 'q) option"
    and empty_q :: "'q \<Rightarrow> bool"
    and limit :: nat
  assumes put_full: "holds q ms \<Longrightarrow> full m q \<Longrightarrow> put m q = Some (- EAGAIN, q)"
    and put_ok: "holds q ms \<Longrightarrow> \<not> full m q \<Longrightarrow> length ms < limit \<Longrightarrow> \<exists>q'. put m q = Some (0, q') \<and> holds q' (ms @ [m])"
    and get_empty: "holds q [] \<Longrightarrow> get q = Some (- EAGAIN, None, q)"
    and get_ok: "holds q (m # ms) \<Longrightarrow> \<exists>q'. get q = Some (0, Some m, q') \<and> holds q' ms"
    and empty_iff: "holds q ms \<Longrightarrow> empty_q q \<longleftrightarrow> ms = []"
    and not_full: "holds q [] \<Longrightarrow> \<not> full m q"
begin

text \<open>A queue never fails, and what has gone in is what has come out and what is still there, in this order.\<close>

lemma passes_in_order:
  assumes "holds q ms" "length ms + length ops \<le> limit"
  shows "\<exists>i o' q' ms'. passes put get ops q = Some (i, o', q') \<and> holds q' ms' \<and> ms @ i = o' @ ms'"
  using assms
proof (induction ops arbitrary: q ms)
  case Nil
  then show ?case by auto
next
  case (Cons a ops)
  show ?case
  proof (cases a)
    case None
    show ?thesis
    proof (cases ms)
      case Nil
      with get_empty [of q] Cons.prems Cons.IH [of q "[]"] None show ?thesis by auto
    next
      case (Cons m ms')
      with get_ok [of q m ms'] Cons.prems(1) obtain q' where q': "get q = Some (0, Some m, q')" "holds q' ms'" by blast
      with Cons.IH [OF q'(2)] Cons.prems(2) Cons None show ?thesis by fastforce
    qed
  next
    case (Some m)
    show ?thesis
    proof (cases "full m q")
      case True
      with put_full [OF Cons.prems(1) True] Cons.IH [OF Cons.prems(1)] Cons.prems(2) Some show ?thesis
        by (fastforce simp: EAGAIN_def)
    next
      case False
      from put_ok [OF Cons.prems(1) False] Cons.prems(2) obtain q' where
        q': "put m q = Some (0, q')" "holds q' (ms @ [m])" by auto
      with Cons.IH [OF q'(2)] Cons.prems(2) Some show ?thesis by fastforce
    qed
  qed
qed

end

end
