(* ===== verification/Nn_Msgqueue_Spec.thy ===== *)
theory Nn_Msgqueue_Spec
  imports Nn_Msgqueue "HOL-Library.Sublist"
begin

text \<open>
  The chain of chunks is a sequence of messages, and the queue keeps the contract of \<open>bounded_fifo\<close>.
\<close>

abbreviation G :: nat where "G \<equiv> NN_MSGQUEUE_GRANULARITY"

lemma G_pos [simp]: "0 < G" "\<not> G \<le> 0" "G \<noteq> 0"
  by (simp_all add: NN_MSGQUEUE_GRANULARITY_def)

text \<open>The messages in the chunks of a list, numbered through.\<close>

definition slot :: "(nat \<Rightarrow> mq_chunk option) \<Rightarrow> nat list \<Rightarrow> nat \<Rightarrow> msg option" where
  "slot h cs i = (case h (cs ! (i div G)) of None \<Rightarrow> None | Some c \<Rightarrow> mc_msgs c (i mod G))"

definition linked :: "(nat \<Rightarrow> mq_chunk option) \<Rightarrow> nat list \<Rightarrow> bool" where
  "linked h cs \<longleftrightarrow> (\<forall>j. Suc j < length cs \<longrightarrow> (\<exists>c. h (cs ! j) = Some c \<and> mc_next c = Some (cs ! Suc j)))"

text \<open>The position behind the last message.\<close>

definition mq_end :: "msgqueue \<Rightarrow> nat list \<Rightarrow> nat" where
  "mq_end q cs = (length cs - 1) * G + snd (mq_out q)"

definition mq_repr :: "msgqueue \<Rightarrow> nat list \<Rightarrow> msg list \<Rightarrow> bool" where
  "mq_repr q cs xs \<longleftrightarrow> cs \<noteq> [] \<and> distinct cs \<and> fst (mq_in q) = hd cs \<and> fst (mq_out q) = last cs \<and>
     snd (mq_in q) < G \<and> snd (mq_out q) < G \<and> snd (mq_in q) + length xs = mq_end q cs \<and>
     (\<forall>i < length xs. slot (mq_heap q) cs (snd (mq_in q) + i) = Some (xs ! i)) \<and> linked (mq_heap q) cs \<and>
     dom (mq_heap q) = set cs \<union> set_option (mq_cache q) \<and> set cs \<inter> set_option (mq_cache q) = {} \<and>
     (\<forall>k \<in> dom (mq_heap q). k < mq_fresh q) \<and> unat (mq_count q) = length xs \<and> mq_mem q = sum_list (map msg_size xs)"

lemma div_G: "i < Suc n * G \<Longrightarrow> i div G \<le> n"
  by (simp add: div_less_iff_less_mult less_Suc_eq_le [symmetric] del: mult_Suc)

lemma slot_upd:
  assumes "distinct cs" "j < length cs" "i div G < length cs" "h (cs ! j) = Some c"
  shows "slot (h(cs ! j \<mapsto> c\<lparr>mc_msgs := (mc_msgs c)(p := v)\<rparr>)) cs i =
    (if i div G = j \<and> i mod G = p then v else slot h cs i)"
  using assms nth_eq_iff_index_eq [OF assms(1,3,2)] by (auto simp: slot_def)

lemma slot_next:
  "h k = Some c \<Longrightarrow> slot (h(k \<mapsto> c\<lparr>mc_next := n\<rparr>)) cs i = slot h cs i"
  by (simp add: slot_def)

lemma slot_keep:
  "k \<notin> set cs \<Longrightarrow> i div G < length cs \<Longrightarrow> slot (h(k := v)) cs i = slot h cs i"
  using nth_mem [of "i div G" cs] by (auto simp: slot_def)

lemma slot_snoc: "i div G < length cs \<Longrightarrow> slot h (cs @ [k]) i = slot h cs i"
  by (simp add: slot_def nth_append)

lemma slot_Cons: "slot h (k # cs) (i + G) = slot h cs i"
proof -
  have "(i + G) div G = Suc (i div G)" "(i + G) mod G = i mod G" by (simp_all add: div_add_self2)
  then show ?thesis unfolding slot_def by (simp only: nth_Cons_Suc)
qed

lemma linked_msgs:
  assumes "linked h cs" "h k = Some c"
  shows "linked (h(k \<mapsto> c\<lparr>mc_msgs := f\<rparr>)) cs"
  using assms unfolding linked_def by (metis fun_upd_apply mq_chunk.select_convs(2) mq_chunk.surjective mq_chunk.update_convs(1) option.inject)

lemma linked_keep: "linked h cs \<Longrightarrow> k \<notin> set cs \<Longrightarrow> linked (h(k := v)) cs"
  unfolding linked_def by (metis Suc_lessD fun_upd_other nth_mem)

lemma linked_snoc:
  assumes "linked h cs" "cs \<noteq> []" "distinct cs" "h (last cs) = Some c"
  shows "linked (h(last cs \<mapsto> c\<lparr>mc_next := Some k\<rparr>)) (cs @ [k])"
  unfolding linked_def
proof (intro allI impI)
  fix j assume "Suc j < length (cs @ [k])"
  then consider "Suc j < length cs" | "Suc j = length cs" by fastforce
  then show "\<exists>d. (h(last cs \<mapsto> c\<lparr>mc_next := Some k\<rparr>)) ((cs @ [k]) ! j) = Some d \<and> mc_next d = Some ((cs @ [k]) ! Suc j)"
  proof cases
    case 1
    have "cs ! j \<noteq> last cs"
      using 1 assms(2) nth_eq_iff_index_eq [OF assms(3), of j "length cs - 1"] by (auto simp: last_conv_nth)
    then show ?thesis using assms(1) 1 by (auto simp: linked_def nth_append)
  next
    case 2
    then have "cs ! j = last cs" by (metis assms(2) diff_Suc_1 last_conv_nth)
    then show ?thesis using 2 by (simp add: nth_append)
  qed
qed

lemma linked_tl: "linked h (k # cs) \<Longrightarrow> linked h cs"
  unfolding linked_def by force

lemma mq_reprD:
  assumes "mq_repr q cs xs"
  shows "cs \<noteq> []" "distinct cs" "fst (mq_in q) = hd cs" "fst (mq_out q) = last cs" "snd (mq_in q) < G" "snd (mq_out q) < G"
    "snd (mq_in q) + length xs = mq_end q cs" "\<And>i. i < length xs \<Longrightarrow> slot (mq_heap q) cs (snd (mq_in q) + i) = Some (xs ! i)"
    "linked (mq_heap q) cs" "dom (mq_heap q) = set cs \<union> set_option (mq_cache q)" "set cs \<inter> set_option (mq_cache q) = {}"
    "\<And>k. k \<in> dom (mq_heap q) \<Longrightarrow> k < mq_fresh q" "unat (mq_count q) = length xs" "mq_mem q = sum_list (map msg_size xs)"
  using assms unfolding mq_repr_def by blast+

lemma mq_init: "mq_repr (nn_msgqueue_init mx) [0] []"
  by (auto simp: mq_repr_def nn_msgqueue_init_def mq_end_def linked_def split: if_splits)

section \<open>Sending\<close>

text \<open>A full last chunk gets a successor.\<close>

lemma mq_link:
  assumes "cs \<noteq> []" "distinct cs" "fst (mq_out q) = last cs" "linked (mq_heap q) cs"
    and "dom (mq_heap q) = set cs \<union> set_option (mq_cache q)" "set cs \<inter> set_option (mq_cache q) = {}"
    and "\<And>k. k \<in> dom (mq_heap q) \<Longrightarrow> k < mq_fresh q"
  shows "\<exists>k q'. mq_link q = Some q' \<and> k \<notin> set cs \<and> mq_out q' = (k, 0) \<and> mq_in q' = mq_in q \<and> mq_cache q' = None \<and>
    mq_count q' = mq_count q \<and> mq_mem q' = mq_mem q \<and> mq_maxmem q' = mq_maxmem q \<and>
    dom (mq_heap q') = set (cs @ [k]) \<and> linked (mq_heap q') (cs @ [k]) \<and>
    (\<forall>i. i div G < length cs \<longrightarrow> slot (mq_heap q') (cs @ [k]) i = slot (mq_heap q) cs i) \<and>
    (\<forall>l \<in> dom (mq_heap q'). l < mq_fresh q')"
proof -
  have l: "last cs \<in> dom (mq_heap q)" using assms(1,5) by simp
  then obtain c where c: "mq_heap q (last cs) = Some c" by blast
  show ?thesis
  proof (cases "mq_cache q")
    case (Some k)
    let ?h = "(mq_heap q)(last cs \<mapsto> c\<lparr>mc_next := Some k\<rparr>)"
    have k: "k \<notin> set cs" "k < mq_fresh q" using assms(5-7) Some by auto
    define q' where "q' = q\<lparr>mq_heap := ?h, mq_out := (k, 0), mq_cache := None\<rparr>"
    have e: "mq_link q = Some q'" using Some c assms(3) by (simp add: mq_link_def q'_def)
    have f: "mq_heap q' = ?h" "mq_out q' = (k, 0)" "mq_cache q' = None" "mq_in q' = mq_in q" "mq_count q' = mq_count q"
      "mq_mem q' = mq_mem q" "mq_maxmem q' = mq_maxmem q" "mq_fresh q' = mq_fresh q" by (simp_all add: q'_def)
    have d: "dom ?h = set (cs @ [k])" using assms(5) Some l by auto
    have n: "linked ?h (cs @ [k])" by (rule linked_snoc [OF assms(4,1,2) c])
    have s: "\<forall>i. i div G < length cs \<longrightarrow> slot ?h (cs @ [k]) i = slot (mq_heap q) cs i"
      using slot_next [of "mq_heap q", OF c] by (simp add: slot_snoc)
    have "dom ?h = dom (mq_heap q)" using l by auto
    then have b: "\<forall>l \<in> dom ?h. l < mq_fresh q" using assms(7) by blast
    show ?thesis
      by (rule exI [of _ k], rule exI [of _ q']) (unfold f, intro conjI; (rule e | rule k(1) | rule d | rule n | rule s | rule b | rule refl))
  next
    case None
    let ?k = "mq_fresh q"
    let ?h = "(mq_heap q)(?k \<mapsto> new_chunk, last cs \<mapsto> c\<lparr>mc_next := Some ?k\<rparr>)"
    have k: "?k \<notin> set cs" "last cs \<noteq> ?k" using assms(5,7) l by fastforce+
    have c': "((mq_heap q)(?k \<mapsto> new_chunk)) (last cs) = Some c" using c k(2) by simp
    define q' where "q' = q\<lparr>mq_heap := ?h, mq_fresh := ?k + 1, mq_out := (?k, 0), mq_cache := None\<rparr>"
    have e: "mq_link q = Some q'" using None c k(2) assms(3) by (simp add: mq_link_def q'_def)
    have f: "mq_heap q' = ?h" "mq_out q' = (?k, 0)" "mq_cache q' = None" "mq_in q' = mq_in q" "mq_count q' = mq_count q"
      "mq_mem q' = mq_mem q" "mq_maxmem q' = mq_maxmem q" "mq_fresh q' = ?k + 1" by (simp_all add: q'_def)
    have d: "dom ?h = set (cs @ [?k])" using assms(5) None l by auto
    have n: "linked ?h (cs @ [?k])" by (rule linked_snoc [OF linked_keep [OF assms(4) k(1)] assms(1,2) c'])
    have s: "\<forall>i. i div G < length cs \<longrightarrow> slot ?h (cs @ [?k]) i = slot (mq_heap q) cs i"
    proof (intro allI impI)
      fix i assume i: "i div G < length cs"
      show "slot ?h (cs @ [?k]) i = slot (mq_heap q) cs i"
        by (simp only: slot_snoc [OF i] slot_next [of "(mq_heap q)(?k \<mapsto> new_chunk)", OF c'] slot_keep [OF k(1) i, of "mq_heap q" "Some new_chunk"])
    qed
    have "dom ?h = insert ?k (dom (mq_heap q))" using l by auto
    then have b: "\<forall>l \<in> dom ?h. l < ?k + 1" using assms(7) by (metis Suc_eq_plus1 insertE lessI less_SucI)
    show ?thesis
      by (rule exI [of _ ?k], rule exI [of _ q']) (unfold f, intro conjI; (rule e | rule k(1) | rule d | rule n | rule s | rule b | rule refl))
  qed
qed

definition mq_full :: "msg \<Rightarrow> msgqueue \<Rightarrow> bool" where
  "mq_full m q \<longleftrightarrow> 0 < mq_count q \<and> mq_maxmem q \<le> mq_mem q + msg_size m"

lemma mq_send:
  assumes "mq_repr q cs xs" "\<not> mq_full m q" "length xs < 2 ^ 64 - 1"
  shows "\<exists>q' cs'. nn_msgqueue_send m q = Some (0, q') \<and> mq_repr q' cs' (xs @ [m]) \<and> mq_maxmem q' = mq_maxmem q"
proof -
  note R = mq_reprD [OF assms(1)]
  obtain k pos where o: "mq_out q = (k, pos)" by (metis surj_pair)
  have k: "k = last cs" "pos < G" using R(4,6) o by simp_all
  have "last cs \<in> dom (mq_heap q)" using R(1,10) by simp
  then obtain c where c: "mq_heap q k = Some c" using k(1) by blast
  let ?h = "(mq_heap q)(k \<mapsto> c\<lparr>mc_msgs := (mc_msgs c)(pos \<mapsto> m)\<rparr>)"
  let ?q = "q\<lparr>mq_count := mq_count q + 1, mq_mem := mq_mem q + msg_size m, mq_heap := ?h, mq_out := (k, pos + 1)\<rparr>"
  have s: "nn_msgqueue_send m q = (if pos + 1 = G then map_option (Pair 0) (mq_link ?q) else Some (0, ?q))"
    using o c by (simp add: nn_msgqueue_send_def if_not_P [OF assms(2) [unfolded mq_full_def]] Let_def)
  have last: "last cs = cs ! (length cs - 1)" "length cs - 1 < length cs" using R(1) by (simp_all add: last_conv_nth)
  have e: "mq_end q cs = (length cs - 1) * G + pos" by (simp add: mq_end_def o)
  have "(length cs - 1) * G + pos < Suc (length cs - 1) * G" using k(2) by simp
  then have below: "i div G < length cs" if "i \<le> mq_end q cs" for i
    using div_G [of i "length cs - 1"] that e last(2) by simp
  have sl: "slot ?h cs (snd (mq_in q) + i) = Some ((xs @ [m]) ! i)" if "i < length (xs @ [m])" for i
  proof -
    let ?i = "snd (mq_in q) + i"
    have le: "?i \<le> mq_end q cs" using that R(7) by simp
    have u: "slot ?h cs ?i = (if ?i div G = length cs - 1 \<and> ?i mod G = pos then Some m else slot (mq_heap q) cs ?i)"
      using slot_upd [OF R(2) last(2) below [OF le]] c k(1) last(1) by simp
    have "?i div G = length cs - 1 \<and> ?i mod G = pos \<longleftrightarrow> ?i = mq_end q cs"
      using k(2) unfolding e by (metis add.commute div_mult_mod_eq div_mult_self1 div_less add_0 mod_mult_self1 mod_less G_pos(3))
    moreover have "?i = mq_end q cs \<longleftrightarrow> i = length xs" using R(7) by auto
    ultimately show ?thesis using u R(8) [of i] that by (auto simp: nth_append)
  qed
  have dom: "dom ?h = dom (mq_heap q)" using c by auto
  have lk: "linked ?h cs" by (rule linked_msgs [OF R(9) c])
  have "mq_count q \<noteq> - 1"
  proof
    assume "mq_count q = - 1"
    then have "length xs = unat (- 1 :: u64)" using R(13) by simp
    then show False using assms(3) by (simp add: unsigned_minus_1_eq_mask mask_eq_exp_minus_1)
  qed
  then have "mq_count q + 1 \<noteq> 0" by (simp add: eq_neg_iff_add_eq_0)
  then have cnt: "unat (mq_count q + 1) = length (xs @ [m])" using R(13) by (simp add: unatSuc add.commute)
  show ?thesis
  proof (cases "pos + 1 = G")
    case False
    have "mq_repr ?q cs (xs @ [m])"
      unfolding mq_repr_def using R False k sl lk cnt dom by (simp add: mq_end_def o del: dom_fun_upd)
    then show ?thesis using s False by auto
  next
    case True
    have "\<exists>k' q'. mq_link ?q = Some q' \<and> k' \<notin> set cs \<and> mq_out q' = (k', 0) \<and> mq_in q' = mq_in ?q \<and> mq_cache q' = None \<and>
      mq_count q' = mq_count ?q \<and> mq_mem q' = mq_mem ?q \<and> mq_maxmem q' = mq_maxmem ?q \<and>
      dom (mq_heap q') = set (cs @ [k']) \<and> linked (mq_heap q') (cs @ [k']) \<and>
      (\<forall>i. i div G < length cs \<longrightarrow> slot (mq_heap q') (cs @ [k']) i = slot (mq_heap ?q) cs i) \<and>
      (\<forall>l \<in> dom (mq_heap q'). l < mq_fresh q')"
      by (rule mq_link) (use R k lk dom in \<open>simp_all del: dom_fun_upd\<close>)
    then obtain k' q' where q': "mq_link ?q = Some q'" "k' \<notin> set cs" "mq_out q' = (k', 0)" "mq_in q' = mq_in q" "mq_cache q' = None"
      "mq_count q' = mq_count q + 1" "mq_mem q' = mq_mem q + msg_size m" "mq_maxmem q' = mq_maxmem q"
      "dom (mq_heap q') = set (cs @ [k'])" "linked (mq_heap q') (cs @ [k'])"
      "\<forall>i. i div G < length cs \<longrightarrow> slot (mq_heap q') (cs @ [k']) i = slot ?h cs i"
      "\<forall>l \<in> dom (mq_heap q'). l < mq_fresh q'" by auto
    have "mq_end q' (cs @ [k']) = length cs * G" by (simp add: mq_end_def q'(3))
    moreover have "length cs * G = Suc (length cs - 1) * G" using R(1) by (cases cs) simp_all
    ultimately have en: "mq_end q' (cs @ [k']) = mq_end q cs + 1" using True e by simp
    have "slot (mq_heap q') (cs @ [k']) (snd (mq_in q) + i) = Some ((xs @ [m]) ! i)" if "i < length (xs @ [m])" for i
    proof -
      have "snd (mq_in q) + i \<le> mq_end q cs" using that R(7) by simp
      from q'(11) below [OF this] sl [OF that] show ?thesis by simp
    qed
    moreover have "snd (mq_in q) + length (xs @ [m]) = mq_end q' (cs @ [k'])" using en R(7) by simp
    ultimately have "mq_repr q' (cs @ [k']) (xs @ [m])"
      unfolding mq_repr_def using R(1-3,5,14) q'(2-10,12) cnt by simp
    then show ?thesis using s True q'(1,8) by auto
  qed
qed

section \<open>Receiving\<close>

text \<open>The first message is taken out of the first chunk; what remains is numbered from there.\<close>

lemma mq_unlink:
  assumes "mq_repr q cs xs" "snd (mq_in q) + 1 = G" "xs \<noteq> []" "mq_heap q (hd cs) = Some c"
  defines "h \<equiv> (mq_heap q)(hd cs \<mapsto> c\<lparr>mc_msgs := (mc_msgs c)(snd (mq_in q) := None)\<rparr>)"
  shows "\<exists>k' cs'. mc_next c = Some k' \<and> tl cs = k' # cs' \<and> linked h (tl cs) \<and>
    (\<forall>i < length xs - 1. slot h (tl cs) i = Some (tl xs ! i)) \<and>
    length xs - 1 = (length (tl cs) - 1) * G + snd (mq_out q)"
proof -
  note R = mq_reprD [OF assms(1)]
  have "mq_end q cs = (length cs - 1) * G + snd (mq_out q)" by (simp add: mq_end_def)
  moreover have "0 < length xs" using assms(3) by simp
  moreover have "\<not> (length cs - 1 = 0)"
  proof
    assume "length cs - 1 = 0"
    then have "snd (mq_in q) + length xs < snd (mq_in q) + 1" using calculation R(6,7) assms(2) by simp
    then show False using calculation by simp
  qed
  ultimately obtain k k' cs' where cs: "cs = k # k' # cs'" by (cases cs; cases "tl cs") auto
  have c: "mq_heap q k = Some c" using assms(4) cs by simp
  have nx: "mc_next c = Some k'" using R(9) c cs unfolding linked_def by force
  have k: "k \<notin> set (k' # cs')" using R(2) cs by simp
  have lk: "linked h (tl cs)"
    unfolding h_def using linked_keep [OF linked_tl [of "mq_heap q" k "k' # cs'"]] R(9) k cs by simp
  have len: "length xs - 1 = (length (tl cs) - 1) * G + snd (mq_out q)"
    using R(7) assms(2) cs by (simp add: mq_end_def)
  have "slot h (tl cs) i = Some (tl xs ! i)" if i: "i < length xs - 1" for i
  proof -
    have "i < Suc (length (tl cs) - 1) * G" using i len R(6) by simp
    then have d: "i div G < length (k' # cs')" using div_G [of i "length (tl cs) - 1"] cs by simp
    have "slot h (tl cs) i = slot (mq_heap q) (k' # cs') i"
      using slot_keep [OF k d, of "mq_heap q"] cs by (simp add: h_def)
    also have "\<dots> = slot (mq_heap q) cs (i + G)" by (simp only: cs slot_Cons)
    also have "i + G = snd (mq_in q) + Suc i" using assms(2) by simp
    also have "slot (mq_heap q) cs \<dots> = Some (xs ! Suc i)" by (rule R(8)) (use i in simp)
    also have "xs ! Suc i = tl xs ! i" using assms(3) by (cases xs) simp_all
    finally show ?thesis .
  qed
  then show ?thesis using nx cs lk len by simp
qed

lemma mq_recv:
  assumes "mq_repr q cs (m # ms)"
  shows "\<exists>q' cs'. nn_msgqueue_recv q = Some (0, Some m, q') \<and> mq_repr q' cs' ms \<and> mq_maxmem q' = mq_maxmem q"
proof -
  note R = mq_reprD [OF assms]
  obtain k pos where i: "mq_in q = (k, pos)" by (metis surj_pair)
  have k: "k = hd cs" "pos < G" "k \<in> set cs" "k = cs ! 0" "0 < length cs" using R(1,3,5) i by (simp_all add: hd_conv_nth)
  then obtain c where c: "mq_heap q k = Some c" using R(10) by blast
  have m: "mc_msgs c pos = Some m" using R(8) [of 0] i k(2,4) c by (simp add: slot_def)
  let ?h = "(mq_heap q)(k \<mapsto> c\<lparr>mc_msgs := (mc_msgs c)(pos := None)\<rparr>)"
  let ?q = "q\<lparr>mq_heap := ?h, mq_in := (k, pos + 1), mq_count := mq_count q - 1, mq_mem := mq_mem q - msg_size m\<rparr>"
  have nz: "mq_count q \<noteq> 0" using R(13) by auto
  then have cnt: "unat (mq_count q - 1) = length ms" using R(13) by (simp add: unat_minus_one)
  have mem: "mq_mem q - msg_size m = sum_list (map msg_size ms)" using R(14) by simp
  have r: "nn_msgqueue_recv q = map_option (\<lambda>q'. (0, Some m, q'))
      (if pos + 1 = G then mq_unlink k (c\<lparr>mc_msgs := (mc_msgs c)(pos := None)\<rparr>) ?q else Some ?q)"
    using nz i c m by (simp add: nn_msgqueue_recv_def Let_def)
  have dom: "dom ?h = dom (mq_heap q)" using c by auto
  show ?thesis
  proof (cases "pos + 1 = G")
    case False
    have sl: "slot ?h cs (pos + 1 + j) = Some (ms ! j)" if j: "j < length ms" for j
    proof -
      have lt: "pos + 1 + j < mq_end q cs" using R(7) i j by simp
      then have "pos + 1 + j < Suc (length cs - 1) * G" using R(6) by (simp add: mq_end_def)
      then have "(pos + 1 + j) div G < length cs" using div_G [of "pos + 1 + j" "length cs - 1"] k(5)
        by linarith
      from slot_upd [OF R(2) k(5) this, of "mq_heap q" c pos None] c k(2,4)
      have "slot ?h cs (pos + 1 + j) = slot (mq_heap q) cs (pos + 1 + j)"
        by (auto simp: div_eq_0_iff)
      also have "\<dots> = Some ((m # ms) ! Suc j)" using R(8) [of "Suc j"] i j by simp
      finally show ?thesis by simp
    qed
    have lk: "linked ?h cs" by (rule linked_msgs [OF R(9) c])
    have "mq_repr ?q cs ms"
      unfolding mq_repr_def using R False k i sl lk cnt mem dom by (simp add: mq_end_def del: dom_fun_upd)
    then show ?thesis using r False by auto
  next
    case True
    have c': "mq_heap q (hd cs) = Some c" "snd (mq_in q) + 1 = G" "snd (mq_in q) = pos" using c k(1) i True by simp_all
    have "\<exists>k' cs'. mc_next c = Some k' \<and> tl cs = k' # cs' \<and> linked ?h (tl cs) \<and>
        (\<forall>i < length ms. slot ?h (tl cs) i = Some (ms ! i)) \<and> length ms = (length (tl cs) - 1) * G + snd (mq_out q)"
      using mq_unlink [OF assms c'(2) _ c'(1), unfolded c'(3)] k(1) by simp
    then obtain k' cs' where
      u: "mc_next c = Some k'" "tl cs = k' # cs'" "linked ?h (tl cs)"
        "\<forall>i < length ms. slot ?h (tl cs) i = Some (ms ! i)" "length ms = (length (tl cs) - 1) * G + snd (mq_out q)" by blast
    have cs: "cs = k # k' # cs'" using u(2) k(1) R(1) by (cases cs) auto
    have t: "k \<notin> set (tl cs)" "distinct (tl cs)" "last (tl cs) = last cs" using R(2) cs by auto
    have dh: "dom ?h = insert k (set (tl cs) \<union> set_option (mq_cache q))" using R(10) dom cs by auto
    have kc: "mq_cache q \<noteq> Some k" using R(11) cs by auto
    show ?thesis
    proof (cases "mq_cache q")
      case None
      let ?q' = "?q\<lparr>mq_in := (k', 0), mq_cache := Some k\<rparr>"
      have e: "mq_unlink k (c\<lparr>mc_msgs := (mc_msgs c)(pos := None)\<rparr>) ?q = Some ?q'" using u(1) None by (simp add: mq_unlink_def)
      have "dom ?h = set (tl cs) \<union> {k}" using dh None by auto
      then have "mq_repr ?q' (tl cs) ms"
        unfolding mq_repr_def using R(4,6,12) u(2-5) t cnt mem dom by (simp add: mq_end_def del: dom_fun_upd)
      then show ?thesis using r True e by auto
    next
      case (Some k0)
      let ?q' = "?q\<lparr>mq_in := (k', 0), mq_heap := ?h(k := None)\<rparr>"
      have e: "mq_unlink k (c\<lparr>mc_msgs := (mc_msgs c)(pos := None)\<rparr>) ?q = Some ?q'" using u(1) Some by (simp add: mq_unlink_def)
      have d: "dom (?h(k := None)) = set (tl cs) \<union> set_option (mq_cache q)" using dh t(1) kc Some by auto
      have lk: "linked (?h(k := None)) (tl cs)" by (rule linked_keep [OF u(3) t(1)])
      have sl: "slot (?h(k := None)) (tl cs) i = Some (ms ! i)" if "i < length ms" for i
      proof -
        have "i < Suc (length (tl cs) - 1) * G" using that u(5) R(6) by simp
        then have "i div G < length (tl cs)" using div_G [of i "length (tl cs) - 1"] u(2) by simp
        from slot_keep [OF t(1) this] u(4) that show ?thesis by metis
      qed
      have fr: "\<forall>l \<in> set (tl cs) \<union> set_option (mq_cache q). l < mq_fresh q" using R(10,12) cs by auto
      have "set (tl cs) \<inter> set_option (mq_cache q) = {}" using R(11) cs by auto
      then have "mq_repr ?q' (tl cs) ms"
        unfolding mq_repr_def using R(4,6) u(2,5) t d lk sl fr cnt mem
        by (simp add: mq_end_def del: dom_fun_upd fun_upd_apply)
      then show ?thesis using r True e by auto
    qed
  qed
qed

section \<open>The queue keeps its contract\<close>

definition mq_holds :: "msgqueue \<Rightarrow> msg list \<Rightarrow> bool" where
  "mq_holds q ms \<longleftrightarrow> (\<exists>cs. mq_repr q cs ms)"

interpretation mq: bounded_fifo mq_holds mq_full nn_msgqueue_send nn_msgqueue_recv nn_msgqueue_empty "2 ^ 64 - 1"
proof (unfold_locales, unfold mq_holds_def)
  fix q ms m m'
  show "\<exists>cs. mq_repr q cs ms \<Longrightarrow> mq_full m q \<Longrightarrow> nn_msgqueue_send m q = Some (- EAGAIN, q)"
    by (simp add: nn_msgqueue_send_def mq_full_def Let_def)
  show "\<exists>cs. mq_repr q cs ms \<Longrightarrow> \<not> mq_full m q \<Longrightarrow> length ms < 2 ^ 64 - 1 \<Longrightarrow>
      \<exists>q'. nn_msgqueue_send m q = Some (0, q') \<and> (\<exists>cs. mq_repr q' cs (ms @ [m]))"
    using mq_send by blast
  have n: "mq_count q = 0 \<longleftrightarrow> ms = []" if "mq_repr q cs ms" for q cs ms
    using mq_reprD(13) [OF that] unat_eq_0 [of "mq_count q"] by auto
  show "\<exists>cs. mq_repr q cs [] \<Longrightarrow> nn_msgqueue_recv q = Some (- EAGAIN, None, q)"
    using n [of q _ "[]"] by (auto simp: nn_msgqueue_recv_def)
  show "\<exists>cs. mq_repr q cs (m # ms) \<Longrightarrow> \<exists>q'. nn_msgqueue_recv q = Some (0, Some m, q') \<and> (\<exists>cs. mq_repr q' cs ms)"
    using mq_recv by blast
  show "\<exists>cs. mq_repr q cs ms \<Longrightarrow> nn_msgqueue_empty q \<longleftrightarrow> ms = []"
    using n [of q _ ms] by (auto simp: nn_msgqueue_empty_def)
  show "\<exists>cs. mq_repr q cs [] \<Longrightarrow> \<not> mq_full m q"
    using n [of q _ "[]"] by (auto simp: mq_full_def)
qed

text \<open>The queue never keeps more memory than for the chunks its messages lie in, the one that is filled and the cached one.\<close>

lemma mq_chunks_bound:
  assumes "mq_holds q ms"
  shows "card (dom (mq_heap q)) \<le> length ms div G + 3"
proof -
  from assms obtain cs where r: "mq_repr q cs ms" by (auto simp: mq_holds_def)
  note R = mq_reprD [OF r]
  have "(length cs - 1) * G \<le> length ms + G" using R(5,7) by (simp add: mq_end_def)
  then have "length cs - 1 \<le> (length ms + G) div G" by (simp add: less_eq_div_iff_mult_less_eq)
  then have "length cs \<le> length ms div G + 2" by (simp add: div_add_self2)
  moreover have "card (dom (mq_heap q)) \<le> card (set cs) + card (set_option (mq_cache q))" by (simp only: R(10) card_Un_le)
  moreover have "card (set_option (mq_cache q)) \<le> 1" by (cases "mq_cache q") simp_all
  ultimately show ?thesis using card_length [of cs] by linarith
qed

text \<open>Termination empties the queue and frees all chunks.\<close>

lemma mq_drain:
  "mq_holds q ms \<Longrightarrow> length ms < fuel \<Longrightarrow> \<exists>q'. mq_drain fuel q = Some q' \<and> mq_holds q' []"
proof (induction fuel arbitrary: q ms)
  case (Suc fuel)
  show ?case
  proof (cases ms)
    case Nil
    with mq.get_empty [of q] Suc.prems show ?thesis by (simp add: EAGAIN_def)
  next
    case (Cons m ms')
    with mq.get_ok [of q m ms'] Suc.prems(1) obtain q' where
      "nn_msgqueue_recv q = Some (0, Some m, q')" "mq_holds q' ms'" by blast
    with Suc.IH [of q' ms'] Suc.prems(2) Cons show ?thesis by (simp add: EAGAIN_def)
  qed
qed simp

lemma mq_term:
  assumes "mq_holds q ms" "length ms < fuel"
  shows "\<exists>q'. nn_msgqueue_term fuel q = Some q' \<and> dom (mq_heap q') = {}"
proof -
  from mq_drain [OF assms] obtain q' cs where d: "mq_drain fuel q = Some q'" "mq_repr q' cs []" by (auto simp: mq_holds_def)
  note R = mq_reprD [OF d(2)]
  have "mq_end q' cs < G" using R(5,7) by simp
  then have "length cs - 1 = 0" by (cases "length cs - 1") (simp_all add: mq_end_def)
  then obtain k where "cs = [k]" using R(1) by (cases cs) auto
  then have k: "fst (mq_in q') = k" "fst (mq_out q') = k" "dom (mq_heap q') = {k} \<union> set_option (mq_cache q')"
    using R(3,4,10) by simp_all
  then show ?thesis using d(1) by (cases "mq_cache q'") (auto simp: nn_msgqueue_term_def Let_def simp del: dom_eq_empty_conv)
qed

section \<open>Properties\<close>

text \<open>
  C25: First in, first out. Whatever is put into a new queue and taken out of it, in any order, it never reads memory it should not; the messages that
  were accepted are those that have come out followed by those that are still in the queue, in the same order; and emptying it gives all
  its memory back.
\<close>

theorem inproc_queue_is_fifo:
  assumes "length ops < 2 ^ 64"
  shows "\<exists>accepted taken q. passes nn_msgqueue_send nn_msgqueue_recv ops (nn_msgqueue_init mx) = Some (accepted, taken, q) \<and>
    prefix taken accepted \<and> (nn_msgqueue_empty q \<longleftrightarrow> taken = accepted) \<and>
    card (dom (mq_heap q)) \<le> (length accepted - length taken) div NN_MSGQUEUE_GRANULARITY + 3 \<and>
    (\<exists>q'. nn_msgqueue_term (Suc (length accepted)) q = Some q' \<and> dom (mq_heap q') = {})"
proof -
  have "mq_holds (nn_msgqueue_init mx) []" using mq_init by (auto simp: mq_holds_def)
  from mq.passes_in_order [OF this, of ops] assms obtain i o' q' ms where
    *: "passes nn_msgqueue_send nn_msgqueue_recv ops (nn_msgqueue_init mx) = Some (i, o', q')" "mq_holds q' ms" "i = o' @ ms" by auto
  from mq_term [OF *(2), of "Suc (length i)"] *(3) have t: "\<exists>q''. nn_msgqueue_term (Suc (length i)) q' = Some q'' \<and> dom (mq_heap q'') = {}"
    by simp
  show ?thesis using * t mq_chunks_bound [OF *(2)] mq.empty_iff [OF *(2)] by (intro exI [of _ i] exI [of _ o'] exI [of _ q']) simp
qed

theorem inproc_queue_is_fifo_witness:
  "\<exists>accepted taken q. passes nn_msgqueue_send nn_msgqueue_recv [Some empty_msg, None, Some empty_msg, None, None] (nn_msgqueue_init 1) =
     Some (accepted, taken, q) \<and> prefix taken accepted"
  using inproc_queue_is_fifo [of "[Some empty_msg, None, Some empty_msg, None, None]" 1] by auto

end
