(* ===== verification/Nn_Inproc.thy ===== *)
theory Nn_Inproc
  imports Nn_Msgqueue_Spec
begin

text \<open>
  The in-process transport: the two sessions of a connection, \<open>transports/inproc/sinproc.c\<close>, each with its queue of incoming messages,
  and the events they raise to each other.

  The state of both sessions is one state, with the events that have been raised to each and not been processed yet. A step
  is a call of the socket above, through \<open>nn_pipe_send\<close> and \<open>nn_pipe_recv\<close> of \<open>core/pipe.c\<close>, a stop, or the processing of one of
  those events, by whichever thread raised it, and so in any order. A failed assertion, an event that a state has no case for, and a
  pointer to a peer that is not set are \<open>None\<close>.
\<close>

section \<open>Sessions\<close>

datatype sinproc_state =
    SINPROC_IDLE | SINPROC_CONNECTING | SINPROC_READY | SINPROC_ACTIVE | SINPROC_DISCONNECTED |
    SINPROC_STOPPING_PEER | SINPROC_STOPPING

datatype sinproc_event = EV_READY | EV_ACCEPTED | EV_SENT | EV_RECEIVED | EV_DISCONNECT

record sinproc =
  sp_fsm :: fsm_state
  sp_state :: sinproc_state
  sp_sending :: bool
  sp_receiving :: bool
  sp_peer :: bool
  sp_pipe :: pipebase
  sp_queue :: msgqueue
  sp_msg :: msg

text \<open>The two ends: the one that connects, and the one that the bound endpoint made for it.\<close>

datatype side = Conn | Bound

fun other :: "side \<Rightarrow> side" where
  "other Conn = Bound"
| "other Bound = Conn"

record inproc =
  ip_ses :: "side \<Rightarrow> sinproc"
  ip_events :: "side \<Rightarrow> sinproc_event list"

definition upd_ses :: "side \<Rightarrow> sinproc \<Rightarrow> inproc \<Rightarrow> inproc" where
  "upd_ses s x w = w\<lparr>ip_ses := (ip_ses w)(s := x)\<rparr>"

definition nn_sinproc_init :: "u64 \<Rightarrow> nat \<Rightarrow> nat \<Rightarrow> sinproc" where
  "nn_sinproc_init rcvbuf sndprio rcvprio =
     \<lparr>sp_fsm = FSM_IDLE, sp_state = SINPROC_IDLE, sp_sending = False, sp_receiving = False, sp_peer = False,
      sp_pipe = nn_pipebase_init sndprio rcvprio, sp_queue = nn_msgqueue_init rcvbuf, sp_msg = empty_msg\<rparr>"

text \<open>
  Raising an event to the peer: the event object must not be in a queue. The ones of the handshake belong to the session that
  raises them and share one object; the others belong to the session they are raised to.
\<close>

definition raise_to :: "side \<Rightarrow> sinproc_event \<Rightarrow> inproc \<Rightarrow> inproc option" where
  "raise_to t e w =
     (if e \<in> set (ip_events w t) \<or> e \<in> {EV_READY, EV_ACCEPTED} \<and> set (ip_events w t) \<inter> {EV_READY, EV_ACCEPTED} \<noteq> {} then None
      else Some (w\<lparr>ip_events := (ip_events w)(t := ip_events w t @ [e])\<rparr>))"

definition raise_to_peer :: "side \<Rightarrow> sinproc_event \<Rightarrow> inproc \<Rightarrow> inproc option" where
  "raise_to_peer s e w = (if sp_peer (ip_ses w s) then raise_to (other s) e w else None)"

section \<open>The state machine\<close>

definition sinproc_start :: "sinproc \<Rightarrow> sinproc option" where
  "sinproc_start x = (case nn_pipebase_start True (sp_pipe x) of
     None \<Rightarrow> None | Some pb \<Rightarrow> Some (x\<lparr>sp_pipe := pb, sp_state := SINPROC_ACTIVE\<rparr>))"

text \<open>What the peer has sent goes into the queue; the user is told when it was empty.\<close>

definition sinproc_sent :: "side \<Rightarrow> inproc \<Rightarrow> inproc option" where
  "sinproc_sent s w =
     (let x = ip_ses w s; p = ip_ses w (other s) in
      if \<not> sp_peer x then None
      else case nn_msgqueue_send (sp_msg p) (sp_queue x) of
        None \<Rightarrow> None
      | Some (rc, q) \<Rightarrow>
          if rc = - EAGAIN then Some (upd_ses s (x\<lparr>sp_queue := q, sp_receiving := True\<rparr>) w)
          else if rc \<noteq> 0 then None
          else (case (if nn_msgqueue_empty (sp_queue x) then nn_pipebase_received (sp_pipe x) else Some (sp_pipe x)) of
            None \<Rightarrow> None
          | Some pb \<Rightarrow>
              raise_to_peer s EV_RECEIVED
                (upd_ses (other s) (p\<lparr>sp_msg := empty_msg\<rparr>) (upd_ses s (x\<lparr>sp_queue := q, sp_pipe := pb\<rparr>) w))))"

definition nn_sinproc_handler :: "side \<Rightarrow> sinproc_event \<Rightarrow> inproc \<Rightarrow> inproc option" where
  "nn_sinproc_handler s e w =
     (let x = ip_ses w s in
      case sp_state x of
        SINPROC_CONNECTING \<Rightarrow>
          if e = EV_READY then
            (case sinproc_start (x\<lparr>sp_peer := True\<rparr>) of
              None \<Rightarrow> None | Some x' \<Rightarrow> raise_to_peer s EV_ACCEPTED (upd_ses s x' w))
          else None
      | SINPROC_READY \<Rightarrow>
          if e = EV_READY \<or> e = EV_ACCEPTED then map_option (\<lambda>x'. upd_ses s x' w) (sinproc_start x) else None
      | SINPROC_ACTIVE \<Rightarrow>
          if e = EV_SENT then sinproc_sent s w
          else if e = EV_RECEIVED then
            if \<not> sp_sending x then None
            else (case nn_pipebase_sent (sp_pipe x) of
              None \<Rightarrow> None | Some pb \<Rightarrow> Some (upd_ses s (x\<lparr>sp_pipe := pb, sp_sending := False\<rparr>) w))
          else if e = EV_DISCONNECT then
            raise_to_peer s EV_DISCONNECT
              (upd_ses s (x\<lparr>sp_pipe := nn_pipebase_stop (sp_pipe x), sp_state := SINPROC_DISCONNECTED\<rparr>) w)
          else None
      | SINPROC_DISCONNECTED \<Rightarrow> if e = EV_RECEIVED then Some w else None
      | _ \<Rightarrow> None)"

text \<open>The peer's answer to the stop has been seen and no event is left: the session has stopped.\<close>

definition check_stopped :: "side \<Rightarrow> inproc \<Rightarrow> inproc option" where
  "check_stopped s w =
     (let x = ip_ses w s; es = set (ip_events w s) in
      if sp_state x \<noteq> SINPROC_STOPPING then Some w
      else if EV_RECEIVED \<in> es \<or> EV_DISCONNECT \<in> es then Some w
      else if set (ip_events w (other s)) \<inter> {EV_READY, EV_ACCEPTED} \<noteq> {} \<or> EV_SENT \<in> es then None
      else Some (upd_ses s (x\<lparr>sp_fsm := FSM_IDLE\<rparr>) w))"

definition nn_sinproc_shutdown :: "side \<Rightarrow> sinproc_event \<Rightarrow> inproc \<Rightarrow> inproc option" where
  "nn_sinproc_shutdown s e w =
     (let x = ip_ses w s in
      if e = EV_RECEIVED then check_stopped s w
      else if sp_state x = SINPROC_STOPPING_PEER \<and> e = EV_DISCONNECT
        then check_stopped s (upd_ses s (x\<lparr>sp_state := SINPROC_STOPPING\<rparr>) w)
      else None)"

definition sinproc_feed :: "side \<Rightarrow> sinproc_event \<Rightarrow> inproc \<Rightarrow> inproc option" where
  "sinproc_feed s e w =
     (if sp_fsm (ip_ses w s) \<noteq> FSM_STOPPING then nn_sinproc_handler s e w else nn_sinproc_shutdown s e w)"

definition nn_sinproc_stop :: "side \<Rightarrow> inproc \<Rightarrow> inproc option" where
  "nn_sinproc_stop s w =
     (let x = ip_ses w s in
      if sp_fsm x \<noteq> FSM_ACTIVE then Some w
      else if sp_state x \<noteq> SINPROC_IDLE \<and> sp_state x \<noteq> SINPROC_DISCONNECTED then
        Option.bind (raise_to_peer s EV_DISCONNECT (upd_ses s
          (x\<lparr>sp_fsm := FSM_STOPPING, sp_pipe := nn_pipebase_stop (sp_pipe x), sp_state := SINPROC_STOPPING_PEER\<rparr>) w))
          (check_stopped s)
      else check_stopped s (upd_ses s (x\<lparr>sp_fsm := FSM_STOPPING, sp_state := SINPROC_STOPPING\<rparr>) w))"

section \<open>The calls\<close>

text \<open>Starting the state machine leads to the state \<open>CONNECTING\<close>, and the action of the accepting end on to \<open>READY\<close>.\<close>

definition sinproc_begin :: "sinproc_state \<Rightarrow> sinproc \<Rightarrow> sinproc option" where
  "sinproc_begin st x =
     (if sp_fsm x \<noteq> FSM_IDLE \<or> sp_state x \<noteq> SINPROC_IDLE then None else Some (x\<lparr>sp_fsm := FSM_ACTIVE, sp_state := st\<rparr>))"

definition nn_sinproc_connect :: "side \<Rightarrow> inproc \<Rightarrow> inproc option" where
  "nn_sinproc_connect s w = map_option (\<lambda>x. upd_ses s x w) (sinproc_begin SINPROC_CONNECTING (ip_ses w s))"

definition nn_sinproc_accept :: "side \<Rightarrow> inproc \<Rightarrow> inproc option" where
  "nn_sinproc_accept s w0 =
     (if sp_peer (ip_ses w0 s) then None
      else Option.bind (raise_to_peer s EV_READY (upd_ses s ((ip_ses w0 s)\<lparr>sp_peer := True\<rparr>) w0)) (\<lambda>w.
        map_option (\<lambda>x. upd_ses s x w) (sinproc_begin SINPROC_READY (ip_ses w s))))"

definition ECONNRESET :: int where "ECONNRESET = 104"

definition nn_sinproc_send :: "side \<Rightarrow> msg \<Rightarrow> inproc \<Rightarrow> (int \<times> inproc) option" where
  "nn_sinproc_send s m w =
     (let x = ip_ses w s in
      if sp_state x = SINPROC_DISCONNECTED then Some (- ECONNRESET, w)
      else if sp_state x \<noteq> SINPROC_ACTIVE \<or> sp_sending x then None
      else map_option (Pair 0) (raise_to_peer s EV_SENT (upd_ses s (x\<lparr>sp_msg := m, sp_sending := True\<rparr>) w)))"

text \<open>A message of the peer that did not fit into the queue is tried again.\<close>

definition sinproc_retry :: "side \<Rightarrow> inproc \<Rightarrow> inproc option" where
  "sinproc_retry s w =
     (let x = ip_ses w s; p = ip_ses w (other s) in
      if sp_state x = SINPROC_DISCONNECTED \<or> \<not> sp_receiving x then Some w
      else if \<not> sp_peer x then None
      else case nn_msgqueue_send (sp_msg p) (sp_queue x) of
        None \<Rightarrow> None
      | Some (rc, q) \<Rightarrow>
          if rc = - EAGAIN then Some (upd_ses s (x\<lparr>sp_queue := q\<rparr>) w)
          else if rc \<noteq> 0 then None
          else map_option (\<lambda>w'. upd_ses s ((ip_ses w' s)\<lparr>sp_receiving := False\<rparr>) w')
            (raise_to_peer s EV_RECEIVED
              (upd_ses (other s) (p\<lparr>sp_msg := empty_msg\<rparr>) (upd_ses s (x\<lparr>sp_queue := q\<rparr>) w))))"

definition nn_sinproc_recv :: "side \<Rightarrow> inproc \<Rightarrow> (msg \<times> inproc) option" where
  "nn_sinproc_recv s w =
     (let x = ip_ses w s in
      if sp_state x \<noteq> SINPROC_ACTIVE \<and> sp_state x \<noteq> SINPROC_DISCONNECTED then None
      else case nn_msgqueue_recv (sp_queue x) of
        Some (rc, Some m, q) \<Rightarrow>
          if rc \<noteq> 0 then None
          else Option.bind (sinproc_retry s (upd_ses s (x\<lparr>sp_queue := q\<rparr>) w)) (\<lambda>w'.
            let x' = ip_ses w' s in
            if nn_msgqueue_empty (sp_queue x') then Some (m, w')
            else map_option (\<lambda>pb. (m, upd_ses s (x'\<lparr>sp_pipe := pb\<rparr>) w')) (nn_pipebase_received (sp_pipe x')))
      | _ \<Rightarrow> None)"

text \<open>The calls of the socket above.\<close>

definition inproc_pipe_send :: "side \<Rightarrow> msg \<Rightarrow> inproc \<Rightarrow> inproc option" where
  "inproc_pipe_send s m w =
     (let x = ip_ses w s in
      if pb_outstate (sp_pipe x) \<noteq> IO_IDLE then None
      else case nn_sinproc_send s m (upd_ses s (x\<lparr>sp_pipe := (sp_pipe x)\<lparr>pb_outstate := IO_BUSY\<rparr>\<rparr>) w) of
        None \<Rightarrow> None
      | Some (rc, w') \<Rightarrow>
          (let x' = ip_ses w' s in
           if rc < 0 then None
           else if pb_outstate (sp_pipe x') = IO_DONE
             then Some (upd_ses s (x'\<lparr>sp_pipe := (sp_pipe x')\<lparr>pb_outstate := IO_IDLE\<rparr>\<rparr>) w')
           else if pb_outstate (sp_pipe x') \<noteq> IO_BUSY then None
           else Some (upd_ses s (x'\<lparr>sp_pipe := (sp_pipe x')\<lparr>pb_outstate := IO_ASYNC\<rparr>\<rparr>) w')))"

definition inproc_pipe_recv :: "side \<Rightarrow> inproc \<Rightarrow> (msg \<times> inproc) option" where
  "inproc_pipe_recv s w =
     (let x = ip_ses w s in
      if pb_instate (sp_pipe x) \<noteq> IO_IDLE then None
      else case nn_sinproc_recv s (upd_ses s (x\<lparr>sp_pipe := (sp_pipe x)\<lparr>pb_instate := IO_BUSY\<rparr>\<rparr>) w) of
        None \<Rightarrow> None
      | Some (m, w') \<Rightarrow>
          (let x' = ip_ses w' s in
           if pb_instate (sp_pipe x') = IO_DONE
             then Some (m, upd_ses s (x'\<lparr>sp_pipe := (sp_pipe x')\<lparr>pb_instate := IO_IDLE\<rparr>\<rparr>) w')
           else if pb_instate (sp_pipe x') \<noteq> IO_BUSY then None
           else Some (m, upd_ses s (x'\<lparr>sp_pipe := (sp_pipe x')\<lparr>pb_instate := IO_ASYNC\<rparr>\<rparr>) w')))"

text \<open>Two new sessions, the one connecting and the other accepting.\<close>

definition inproc_init :: "u64 \<Rightarrow> u64 \<Rightarrow> inproc option" where
  "inproc_init rcvbuf rcvbuf' =
     Option.bind (nn_sinproc_connect Conn
       \<lparr>ip_ses = (\<lambda>s. nn_sinproc_init (if s = Conn then rcvbuf else rcvbuf') 8 8), ip_events = (\<lambda>_. [])\<rparr>)
       (nn_sinproc_accept Bound)"

text \<open>Processing the \<open>k\<close>-th event.\<close>

definition process_event :: "side \<Rightarrow> nat \<Rightarrow> inproc \<Rightarrow> inproc option" where
  "process_event s k w =
     (let es = ip_events w s in
      if k < length es
      then sinproc_feed s (es ! k) (w\<lparr>ip_events := (ip_events w)(s := take k es @ drop (Suc k) es)\<rparr>) else None)"

end
