(* ===== verification/Nn_Inproc_Spec.thy ===== *)
theory Nn_Inproc_Spec
  imports Nn_Inproc
begin

text \<open>
  What a connection of two sessions keeps: in each direction the messages given to one end are those that have come out of the other, those in
  the queue there, and at most one in between, whose place the flags and the events tell.
\<close>

lemma other_simps [simp]: "other (other s) = s" "other s \<noteq> s" "s \<noteq> other s"
  by (cases s; simp)+

lemma side_cases: "t = s \<or> t = other s"
  by (cases s; cases t) simp_all

lemma all_side: "(\<forall>t. P t) \<longleftrightarrow> P s \<and> P (other s)"
  using side_cases by metis

lemma upd_ses_simps [simp]:
  "ip_ses (upd_ses s x w) = (ip_ses w)(s := x)" "ip_events (upd_ses s x w) = ip_events w"
  by (simp_all add: upd_ses_def)

section \<open>One direction\<close>

text \<open>Where the message is that the sender has shown and that has not been acknowledged.\<close>

definition flying :: "inproc \<Rightarrow> side \<Rightarrow> bool" where
  "flying w s \<longleftrightarrow> EV_SENT \<in> set (ip_events w (other s))"

definition held :: "inproc \<Rightarrow> side \<Rightarrow> bool" where
  "held w s \<longleftrightarrow> sp_receiving (ip_ses w (other s))"

definition acked :: "inproc \<Rightarrow> side \<Rightarrow> bool" where
  "acked w s \<longleftrightarrow> EV_RECEIVED \<in> set (ip_events w s)"

definition in_flight :: "inproc \<Rightarrow> side \<Rightarrow> msg list" where
  "in_flight w s = (if flying w s \<or> held w s then [sp_msg (ip_ses w s)] else [])"

definition phase_ok :: "inproc \<Rightarrow> side \<Rightarrow> bool" where
  "phase_ok w s \<longleftrightarrow>
     (sp_sending (ip_ses w s) \<longleftrightarrow> flying w s \<or> held w s \<or> acked w s) \<and>
     \<not> (flying w s \<and> held w s) \<and> \<not> (flying w s \<and> acked w s) \<and> \<not> (held w s \<and> acked w s)"

definition carries :: "inproc \<Rightarrow> side \<Rightarrow> msg list \<Rightarrow> msg list \<Rightarrow> msg list \<Rightarrow> bool" where
  "carries w s q snt rcv \<longleftrightarrow>
     mq_holds (sp_queue (ip_ses w (other s))) q \<and> snt = rcv @ q @ in_flight w s \<and> phase_ok w s \<and> (held w s \<longrightarrow> q \<noteq> [])"

text \<open>What the socket above sees of a session, with the messages in the queue.\<close>

definition pipe_ok :: "sinproc \<Rightarrow> msg list \<Rightarrow> bool" where
  "pipe_ok x q \<longleftrightarrow>
     (if sp_state x = SINPROC_ACTIVE
      then pb_state (sp_pipe x) = PIPEBASE_ACTIVE \<and> pb_instate (sp_pipe x) = (if q = [] then IO_ASYNC else IO_IDLE) \<and>
        pb_outstate (sp_pipe x) = (if sp_sending x then IO_ASYNC else IO_IDLE)
      else pb_state (sp_pipe x) = PIPEBASE_IDLE \<and> pb_instate (sp_pipe x) = IO_DEACTIVATED \<and>
        pb_outstate (sp_pipe x) = IO_DEACTIVATED \<and> q = [] \<and> \<not> sp_sending x)"

section \<open>The handshake\<close>

definition shake_ok :: "inproc \<Rightarrow> bool" where
  "shake_ok w \<longleftrightarrow>
     (let c = ip_ses w Conn; b = ip_ses w Bound; ec = ip_events w Conn; eb = ip_events w Bound in
      sp_fsm c = FSM_ACTIVE \<and> sp_fsm b = FSM_ACTIVE \<and> sp_peer b \<and> distinct ec \<and> distinct eb \<and>
      (sp_state c = SINPROC_CONNECTING \<and> sp_state b = SINPROC_READY \<and> \<not> sp_peer c \<and> ec = [EV_READY] \<and> eb = [] \<or>
       sp_state c = SINPROC_ACTIVE \<and> sp_state b = SINPROC_READY \<and> sp_peer c \<and> ec = [] \<and>
         (eb = [EV_ACCEPTED] \<or> eb = [EV_ACCEPTED, EV_SENT]) \<or>
       sp_state c = SINPROC_ACTIVE \<and> sp_state b = SINPROC_ACTIVE \<and> sp_peer c \<and> set ec \<union> set eb \<subseteq> {EV_SENT, EV_RECEIVED}))"

definition inproc_ok :: "inproc \<Rightarrow> (side \<Rightarrow> msg list) \<Rightarrow> (side \<Rightarrow> msg list) \<Rightarrow> bool" where
  "inproc_ok w snt rcv \<longleftrightarrow> shake_ok w \<and>
     (\<exists>q. \<forall>s. carries w s (q (other s)) (snt s) (rcv (other s)) \<and> pipe_ok (ip_ses w s) (q s))"

text \<open>The calls the socket makes, and the events that may be processed: none comes before the end of the handshake.\<close>

definition can_send :: "inproc \<Rightarrow> side \<Rightarrow> bool" where
  "can_send w s \<longleftrightarrow> pb_outstate (sp_pipe (ip_ses w s)) = IO_IDLE"

definition can_recv :: "inproc \<Rightarrow> side \<Rightarrow> bool" where
  "can_recv w s \<longleftrightarrow> pb_instate (sp_pipe (ip_ses w s)) = IO_IDLE"

definition can_process :: "inproc \<Rightarrow> side \<Rightarrow> nat \<Rightarrow> bool" where
  "can_process w s k \<longleftrightarrow> k < length (ip_events w s) \<and> EV_ACCEPTED \<notin> set (take k (ip_events w s))"

text \<open>The states that follow from two new sessions, with the messages that went in at each end and that came out at each end.\<close>

inductive inproc_reach :: "u64 \<Rightarrow> u64 \<Rightarrow> inproc \<Rightarrow> (side \<Rightarrow> msg list) \<Rightarrow> (side \<Rightarrow> msg list) \<Rightarrow> bool" for b b' where
  reach_init: "inproc_init b b' = Some w \<Longrightarrow> inproc_reach b b' w (\<lambda>_. []) (\<lambda>_. [])"
| reach_send: "inproc_reach b b' w snt rcv \<Longrightarrow> can_send w s \<Longrightarrow> length (snt s) < 2 ^ 64 - 1 \<Longrightarrow>
    inproc_pipe_send s m w = Some w' \<Longrightarrow> inproc_reach b b' w' (snt(s := snt s @ [m])) rcv"
| reach_recv: "inproc_reach b b' w snt rcv \<Longrightarrow> can_recv w s \<Longrightarrow> inproc_pipe_recv s w = Some (m, w') \<Longrightarrow>
    inproc_reach b b' w' snt (rcv(s := rcv s @ [m]))"
| reach_event: "inproc_reach b b' w snt rcv \<Longrightarrow> can_process w s k \<Longrightarrow> process_event s k w = Some w' \<Longrightarrow>
    inproc_reach b b' w' snt rcv"

lemma inproc_init_ok:
  "\<exists>w. inproc_init b b' = Some w \<and> inproc_ok w (\<lambda>_. []) (\<lambda>_. [])"
proof -
  have q: "mq_holds (nn_msgqueue_init x) []" for x using mq_init by (auto simp: mq_holds_def)
  show ?thesis
    by (simp add: inproc_init_def sinproc_begin_def nn_sinproc_connect_def nn_sinproc_accept_def nn_sinproc_init_def raise_to_peer_def raise_to_def
        inproc_ok_def shake_ok_def carries_def pipe_ok_def in_flight_def flying_def held_def acked_def phase_ok_def
        all_side [of _ Conn] nn_pipebase_init_def q exI [of _ "\<lambda>_. []"] Let_def upd_ses_def)
qed

section \<open>The calls\<close>

lemma inproc_okE:
  assumes "inproc_ok w snt rcv"
  obtains q where "shake_ok w" "\<And>s. carries w s (q (other s)) (snt s) (rcv (other s))" "\<And>s. pipe_ok (ip_ses w s) (q s)"
  using assms unfolding inproc_ok_def by blast

lemma inproc_okI:
  assumes "shake_ok w" "\<And>t. t = s \<or> t = other s \<Longrightarrow> carries w t (q (other t)) (snt t) (rcv (other t)) \<and> pipe_ok (ip_ses w t) (q t)"
  shows "inproc_ok w snt rcv"
  using assms side_cases [of _ s] unfolding inproc_ok_def by blast

lemma no_event_before_ready:
  "shake_ok w \<Longrightarrow> sp_state (ip_ses w s) \<noteq> SINPROC_ACTIVE \<Longrightarrow> EV_RECEIVED \<notin> set (ip_events w s)"
  by (cases s) (auto simp: shake_ok_def Let_def)

lemmas chan_defs = carries_def in_flight_def flying_def held_def acked_def phase_ok_def

lemma send_ok:
  assumes ok: "inproc_ok w snt rcv" and can: "can_send w s"
  shows "\<exists>w'. inproc_pipe_send s m w = Some w' \<and> inproc_ok w' (snt(s := snt s @ [m])) rcv"
proof -
  obtain q where sh: "shake_ok w" and c: "\<And>s. carries w s (q (other s)) (snt s) (rcv (other s))"
    and p: "\<And>s. pipe_ok (ip_ses w s) (q s)"
    using inproc_okE [OF ok] by blast
  have a: "sp_state (ip_ses w s) = SINPROC_ACTIVE" "\<not> sp_sending (ip_ses w s)"
    using p [of s] can by (auto simp: pipe_ok_def can_send_def split: if_splits)
  have peer: "sp_peer (ip_ses w s)" using sh a(1) by (cases s) (auto simp: shake_ok_def Let_def)
  have f: "\<not> flying w s" "\<not> held w s" "\<not> acked w s" using c [of s] a(2) by (auto simp: carries_def phase_ok_def)
  obtain w' where w': "inproc_pipe_send s m w = Some w'"
    "w' = upd_ses s ((ip_ses w s)\<lparr>sp_msg := m, sp_sending := True, sp_pipe := (sp_pipe (ip_ses w s))\<lparr>pb_outstate := IO_ASYNC\<rparr>\<rparr>)
      (w\<lparr>ip_events := (ip_events w)(other s := ip_events w (other s) @ [EV_SENT])\<rparr>)"
    using a peer f(1) can
    by (simp add: inproc_pipe_send_def nn_sinproc_send_def raise_to_peer_def raise_to_def can_send_def flying_def upd_ses_def Let_def)
  have "shake_ok w'" using sh a peer f(1) unfolding w'(2)
    by (cases s) (auto simp: shake_ok_def flying_def Let_def)
  moreover have "carries w' s (q (other s)) (snt s @ [m]) (rcv (other s))" using c [of s] f unfolding w'(2)
    by (auto simp: chan_defs)
  moreover have "carries w' (other s) (q s) (snt (other s)) (rcv s)" using c [of "other s"] unfolding w'(2)
    by (auto simp: chan_defs)
  moreover have "pipe_ok (ip_ses w' s) (q s)" "pipe_ok (ip_ses w' (other s)) (q (other s))"
    using p [of s] p [of "other s"] a unfolding w'(2) by (auto simp: pipe_ok_def split: if_splits)
  ultimately show ?thesis using w'(1) by (auto intro!: inproc_okI [where s = s and q = q])
qed

section \<open>The events\<close>

text \<open>Taking the \<open>k\<close>-th event out.\<close>

lemma take_out:
  "distinct es \<Longrightarrow> k < length es \<Longrightarrow>
    set (take k es @ drop (Suc k) es) = set es - {es ! k} \<and> distinct (take k es @ drop (Suc k) es)"
  by (induction es arbitrary: k) (auto simp: nth_Cons split: nat.split)

definition without :: "side \<Rightarrow> nat \<Rightarrow> inproc \<Rightarrow> inproc" where
  "without s k w = w\<lparr>ip_events := (ip_events w)(s := take k (ip_events w s) @ drop (Suc k) (ip_events w s))\<rparr>"

lemma process_without:
  "k < length (ip_events w s) \<Longrightarrow> process_event s k w = sinproc_feed s (ip_events w s ! k) (without s k w)"
  by (simp add: process_event_def without_def Let_def)

lemma without_simps [simp]:
  "ip_ses (without s k w) = ip_ses w" "ip_events (without s k w) (other s) = ip_events w (other s)"
  by (simp_all add: without_def)

lemma without_events:
  assumes "shake_ok w" "k < length (ip_events w s)"
  shows "set (ip_events (without s k w) s) = set (ip_events w s) - {ip_events w s ! k}" "distinct (ip_events (without s k w) s)"
proof -
  have "distinct (ip_events w s)" using assms(1) by (cases s) (auto simp: shake_ok_def Let_def)
  note t = take_out [OF this assms(2)]
  have e: "ip_events (without s k w) s = take k (ip_events w s) @ drop (Suc k) (ip_events w s)" by (simp add: without_def)
  show "set (ip_events (without s k w) s) = set (ip_events w s) - {ip_events w s ! k}" "distinct (ip_events (without s k w) s)"
    unfolding e using t by (rule conjunct1, rule conjunct2)
qed

lemma fsm_active: "shake_ok w \<Longrightarrow> sp_fsm (ip_ses w s) = FSM_ACTIVE"
  by (cases s) (auto simp: shake_ok_def Let_def)

lemma active_peer: "shake_ok w \<Longrightarrow> sp_state (ip_ses w s) = SINPROC_ACTIVE \<Longrightarrow> sp_peer (ip_ses w s)"
  by (cases s) (auto simp: shake_ok_def Let_def)

lemma shake_both:
  "sp_state (ip_ses w s) = SINPROC_ACTIVE \<Longrightarrow> sp_state (ip_ses w (other s)) = SINPROC_ACTIVE \<Longrightarrow>
    shake_ok w \<longleftrightarrow> (\<forall>t. sp_fsm (ip_ses w t) = FSM_ACTIVE \<and> sp_peer (ip_ses w t) \<and> distinct (ip_events w t) \<and>
      set (ip_events w t) \<subseteq> {EV_SENT, EV_RECEIVED})"
  unfolding all_side [of _ s] by (cases s) (auto simp: shake_ok_def Let_def)

lemma sent_active:
  assumes "shake_ok w" "can_process w s k" "ip_events w s ! k = EV_SENT \<or> ip_events w s ! k = EV_RECEIVED"
  shows "sp_state (ip_ses w s) = SINPROC_ACTIVE"
  using assms by (cases s) (auto simp: shake_ok_def can_process_def Let_def less_Suc_eq)

lemma sent_peer_active:
  assumes "shake_ok w" "EV_SENT \<in> set (ip_events w s) \<or> EV_RECEIVED \<in> set (ip_events w s)"
  shows "sp_state (ip_ses w (other s)) = SINPROC_ACTIVE"
  using assms by (cases s) (auto simp: shake_ok_def Let_def)

text \<open>The acknowledgement: the sender is free again.\<close>

lemma received_ok:
  assumes ok: "inproc_ok w snt rcv" and k: "can_process w s k" and e: "ip_events w s ! k = EV_RECEIVED"
  shows "\<exists>w'. process_event s k w = Some w' \<and> inproc_ok w' snt rcv"
proof -
  obtain q where sh: "shake_ok w" and c: "\<And>s. carries w s (q (other s)) (snt s) (rcv (other s))"
    and p: "\<And>s. pipe_ok (ip_ses w s) (q s)"
    using inproc_okE [OF ok] by blast
  have k': "k < length (ip_events w s)" using k by (simp add: can_process_def)
  note ev = without_events [OF sh k', unfolded e]
  have a: "sp_state (ip_ses w s) = SINPROC_ACTIVE" "sp_state (ip_ses w (other s)) = SINPROC_ACTIVE"
    using sent_active [OF sh k] sent_peer_active [OF sh, of s] e nth_mem [OF k'] by auto
  have f: "acked w s" "sp_sending (ip_ses w s)" "\<not> flying w s" "\<not> held w s"
    using c [of s] e nth_mem [OF k'] by (auto simp: carries_def phase_ok_def acked_def split: if_splits)
  define x where "x = (ip_ses w s)\<lparr>sp_pipe := (sp_pipe (ip_ses w s))\<lparr>pb_outstate := IO_IDLE, pb_out := True\<rparr>, sp_sending := False\<rparr>"
  define w' where "w' = upd_ses s x (without s k w)"
  have "process_event s k w = Some w'"
    using a f p [of s] fsm_active [OF sh, of s]
    by (simp add: process_without [OF k'] e sinproc_feed_def nn_sinproc_handler_def nn_pipebase_sent_def pipe_ok_def w'_def x_def Let_def)
  moreover have "shake_ok w'" using sh a ev unfolding shake_both [OF a]
        by (subst shake_both [where s = s]) (auto simp: all_side [of _ s] w'_def x_def acked_def)
  moreover have "carries w' s (q (other s)) (snt s) (rcv (other s))" using c [of s] f ev unfolding w'_def x_def
    by (auto simp: chan_defs)
  moreover have "carries w' (other s) (q s) (snt (other s)) (rcv s)" using c [of "other s"] ev unfolding w'_def x_def
    by (auto simp: chan_defs)
  moreover have "pipe_ok (ip_ses w' s) (q s)" "pipe_ok (ip_ses w' (other s)) (q (other s))"
    using p [of s] p [of "other s"] a unfolding w'_def x_def by (auto simp: pipe_ok_def split: if_splits)
  ultimately show ?thesis by (auto intro!: inproc_okI [where s = s and q = q])
qed

text \<open>A message that was sent is put into the queue and acknowledged, or held.\<close>

lemma sent_ok:
  assumes ok: "inproc_ok w snt rcv" and k: "can_process w s k" and e: "ip_events w s ! k = EV_SENT"
    and few: "length (snt (other s)) \<le> 2 ^ 64 - 1"
  shows "\<exists>w'. process_event s k w = Some w' \<and> inproc_ok w' snt rcv"
proof -
  obtain q where sh: "shake_ok w" and c: "\<And>s. carries w s (q (other s)) (snt s) (rcv (other s))"
    and p: "\<And>s. pipe_ok (ip_ses w s) (q s)"
    using inproc_okE [OF ok] by blast
  let ?m = "sp_msg (ip_ses w (other s))"
  have k': "k < length (ip_events w s)" using k by (simp add: can_process_def)
  note ev = without_events [OF sh k', unfolded e]
  have a: "sp_state (ip_ses w s) = SINPROC_ACTIVE" "sp_state (ip_ses w (other s)) = SINPROC_ACTIVE"
    using sent_active [OF sh k] sent_peer_active [OF sh, of s] e nth_mem [OF k'] by auto
  have f: "flying w (other s)" using e nth_mem [OF k'] by (simp add: flying_def)
  have f': "sp_sending (ip_ses w (other s))" "\<not> acked w (other s)" "\<not> held w (other s)"
    using c [of "other s"] f by (auto simp: carries_def phase_ok_def split: if_splits)
  have h: "mq_holds (sp_queue (ip_ses w s)) (q s)" "snt (other s) = rcv s @ q s @ [?m]"
    using c [of "other s"] f by (auto simp: carries_def in_flight_def)
  have pr: "process_event s k w = sinproc_sent s (without s k w)"
    using a fsm_active [OF sh, of s] by (simp add: process_without [OF k'] e sinproc_feed_def nn_sinproc_handler_def Let_def)
  show ?thesis
  proof (cases "mq_full ?m (sp_queue (ip_ses w s))")
    case True
    then have "q s \<noteq> []" using mq.not_full h(1) by metis
    define x where "x = (ip_ses w s)\<lparr>sp_receiving := True\<rparr>"
    define w' where "w' = upd_ses s x (without s k w)"
    have "process_event s k w = Some w'" unfolding pr w'_def x_def
      using mq.put_full [OF h(1) True] active_peer [OF sh a(1)] by (simp add: sinproc_sent_def)
    moreover have "shake_ok w'" using sh a ev unfolding shake_both [OF a]
        by (subst shake_both [where s = s]) (auto simp: all_side [of _ s] w'_def x_def acked_def)
    moreover have "carries w' s (q (other s)) (snt s) (rcv (other s))" using c [of s] f ev unfolding w'_def x_def
      by (auto simp: chan_defs)
    moreover have "carries w' (other s) (q s) (snt (other s)) (rcv s)" using c [of "other s"] ev f f' h \<open>q s \<noteq> []\<close>
      unfolding w'_def x_def by (auto simp: chan_defs)
    moreover have "pipe_ok (ip_ses w' s) (q s)" "pipe_ok (ip_ses w' (other s)) (q (other s))"
      using p [of s] p [of "other s"] a unfolding w'_def x_def by (auto simp: pipe_ok_def split: if_splits)
    ultimately show ?thesis by (auto intro!: inproc_okI [where s = s and q = q])
  next
    case False
    from mq.put_ok [OF h(1) False] few h(2) obtain mq where mq: "nn_msgqueue_send ?m (sp_queue (ip_ses w s)) = Some (0, mq)"
      "mq_holds mq (q s @ [?m])" by auto
    obtain pb where pb: "(if nn_msgqueue_empty (sp_queue (ip_ses w s)) then nn_pipebase_received (sp_pipe (ip_ses w s))
        else Some (sp_pipe (ip_ses w s))) = Some pb" "pb_state pb = PIPEBASE_ACTIVE" "pb_instate pb = IO_IDLE"
      "pb_outstate pb = pb_outstate (sp_pipe (ip_ses w s))"
      using p [of s] a mq.empty_iff [OF h(1)] by (auto simp: pipe_ok_def nn_pipebase_received_def)
    define x where "x = (ip_ses w s)\<lparr>sp_queue := mq, sp_pipe := pb\<rparr>"
    define y where "y = (ip_ses w (other s))\<lparr>sp_msg := empty_msg\<rparr>"
    define w' where "w' = (upd_ses (other s) y (upd_ses s x (without s k w)))
      \<lparr>ip_events := (ip_events (without s k w))(other s := ip_events w (other s) @ [EV_RECEIVED])\<rparr>"
    have "process_event s k w = Some w'" unfolding pr w'_def x_def y_def
      using mq pb(1) active_peer [OF sh a(1)] f'(2)
      by (simp add: sinproc_sent_def raise_to_peer_def raise_to_def acked_def EAGAIN_def Let_def)
    moreover have "shake_ok w'" using sh a ev f' unfolding shake_both [OF a]
        by (subst shake_both [where s = s]) (auto simp: all_side [of _ s] w'_def x_def y_def acked_def)
    moreover have "carries w' s (q (other s)) (snt s) (rcv (other s))" using c [of s] f ev unfolding w'_def x_def y_def
      by (auto simp: chan_defs)
    moreover have "carries w' (other s) (q s @ [?m]) (snt (other s)) (rcv s)" using c [of "other s"] ev f f' h mq(2)
      unfolding w'_def x_def y_def by (auto simp: chan_defs)
    moreover have "pipe_ok (ip_ses w' s) (q s @ [?m])" "pipe_ok (ip_ses w' (other s)) (q (other s))"
      using p [of s] p [of "other s"] a pb unfolding w'_def x_def y_def by (auto simp: pipe_ok_def split: if_splits)
    ultimately show ?thesis by (auto intro!: inproc_okI [where s = s and q = "q(s := q s @ [?m])"])
  qed
qed

text \<open>The handshake.\<close>

lemma handshake_ok:
  assumes ok: "inproc_ok w snt rcv" and k: "can_process w s k" and e: "ip_events w s ! k \<notin> {EV_SENT, EV_RECEIVED}"
  shows "\<exists>w'. process_event s k w = Some w' \<and> inproc_ok w' snt rcv"
proof -
  obtain q where sh: "shake_ok w" and c: "\<And>s. carries w s (q (other s)) (snt s) (rcv (other s))"
    and p: "\<And>s. pipe_ok (ip_ses w s) (q s)"
    using inproc_okE [OF ok] by blast
  have k': "k < length (ip_events w s)" using k by (simp add: can_process_def)
  then have m: "\<exists>x \<in> set (ip_events w s). x \<notin> {EV_SENT, EV_RECEIVED}" using e nth_mem by blast
  note c' = c [of Conn] c [of Bound] and p' = p [of Conn] p [of Bound]
  have "s = Conn \<and> sp_state (ip_ses w Conn) = SINPROC_CONNECTING \<and> k = 0 \<or> s = Bound \<and> sp_state (ip_ses w Conn) = SINPROC_ACTIVE \<and> k = 0"
    using sh k' m e by (cases s) (fastforce simp: shake_ok_def Let_def less_Suc_eq)+
  then show ?thesis
  proof (elim disjE conjE)
    assume s: "s = Conn" "sp_state (ip_ses w Conn) = SINPROC_CONNECTING" "k = 0"
    then have f: "ip_events w Conn = [EV_READY]" "ip_events w Bound = []" "sp_state (ip_ses w Bound) = SINPROC_READY"
      "sp_fsm (ip_ses w Conn) = FSM_ACTIVE"
      using sh by (auto simp: shake_ok_def Let_def)
    show ?thesis using p' c' f sh s
      by (auto simp: process_event_def sinproc_feed_def nn_sinproc_handler_def sinproc_start_def nn_pipebase_start_def raise_to_peer_def
          raise_to_def pipe_ok_def shake_ok_def upd_ses_def Let_def chan_defs intro!: inproc_okI [where s = Conn and q = q])
  next
    assume s: "s = Bound" "sp_state (ip_ses w Conn) = SINPROC_ACTIVE" "k = 0"
    then have f: "ip_events w Conn = []" "ip_events w Bound = [EV_ACCEPTED] \<or> ip_events w Bound = [EV_ACCEPTED, EV_SENT]"
      "sp_state (ip_ses w Bound) = SINPROC_READY" "sp_fsm (ip_ses w Bound) = FSM_ACTIVE"
      using sh m e by (auto simp: shake_ok_def Let_def)
    obtain es where es: "ip_events w Bound = EV_ACCEPTED # es" "es = [] \<or> es = [EV_SENT]" using f(2) by auto
    define x where "x = (ip_ses w Bound)\<lparr>sp_pipe := (sp_pipe (ip_ses w Bound))
      \<lparr>pb_state := PIPEBASE_ACTIVE, pb_instate := IO_ASYNC, pb_outstate := IO_IDLE, pb_out := True\<rparr>, sp_state := SINPROC_ACTIVE\<rparr>"
    define w' where "w' = upd_ses Bound x (w\<lparr>ip_events := (ip_events w)(Bound := es)\<rparr>)"
    have "process_event s k w = Some w'" using p'(2) f(3,4) s es(1) unfolding w'_def x_def
      by (simp add: process_event_def sinproc_feed_def nn_sinproc_handler_def sinproc_start_def nn_pipebase_start_def pipe_ok_def
          upd_ses_def Let_def)
    moreover have "shake_ok w'" using sh f es s(2) unfolding w'_def x_def by (auto simp: shake_ok_def Let_def)
    moreover have "carries w' Conn (q Bound) (snt Conn) (rcv Bound)" using c'(1) es unfolding w'_def x_def
      by (auto simp: chan_defs)
    moreover have "carries w' Bound (q Conn) (snt Bound) (rcv Conn)" using c'(2) f(1) es unfolding w'_def x_def
      by (auto simp: chan_defs)
    moreover have "pipe_ok (ip_ses w' Conn) (q Conn)" "pipe_ok (ip_ses w' Bound) (q Bound)"
      using p' f(3) s(2) unfolding w'_def x_def by (auto simp: pipe_ok_def)
    ultimately show ?thesis by (auto intro!: inproc_okI [where s = Conn and q = q])
  qed
qed

lemma event_ok:
  assumes "inproc_ok w snt rcv" "can_process w s k" "\<And>t. length (snt t) \<le> 2 ^ 64 - 1"
  shows "\<exists>w'. process_event s k w = Some w' \<and> inproc_ok w' snt rcv"
  using received_ok [OF assms(1,2)] sent_ok [OF assms(1,2) _ assms(3)] handshake_ok [OF assms(1,2)] by blast

section \<open>Receiving\<close>

lemma retry_ok:
  assumes sh: "shake_ok w" and a: "sp_state (ip_ses w s) = SINPROC_ACTIVE"
    and c: "carries w s q (snt s) (rcv (other s))" and p: "pipe_ok (ip_ses w (other s)) q"
    and h: "mq_holds (sp_queue (ip_ses w s)) ms" and snt: "snt (other s) = out @ ms @ in_flight w (other s)" "phase_ok w (other s)"
    and few: "length (snt (other s)) \<le> 2 ^ 64 - 1"
  shows "\<exists>w2 ms'. sinproc_retry s w = Some w2 \<and> shake_ok w2 \<and> carries w2 s q (snt s) (rcv (other s)) \<and>
      carries w2 (other s) ms' (snt (other s)) out \<and> sp_state (ip_ses w2 s) = SINPROC_ACTIVE \<and>
      sp_sending (ip_ses w2 s) = sp_sending (ip_ses w s) \<and>
      sp_pipe (ip_ses w2 s) = sp_pipe (ip_ses w s) \<and> pipe_ok (ip_ses w2 (other s)) q"
proof (cases "sp_receiving (ip_ses w s)")
  case False
  then show ?thesis using assms by (intro exI [of _ w] exI [of _ ms]) (simp add: sinproc_retry_def carries_def held_def)
next
  case True
  let ?m = "sp_msg (ip_ses w (other s))"
  have f: "\<not> flying w (other s)" "\<not> acked w (other s)" "sp_sending (ip_ses w (other s))" "in_flight w (other s) = [?m]"
    using True snt(2) by (auto simp: phase_ok_def held_def in_flight_def)
  have a': "sp_state (ip_ses w (other s)) = SINPROC_ACTIVE" using f(3) p by (auto simp: pipe_ok_def split: if_splits)
  show ?thesis
  proof (cases "mq_full ?m (sp_queue (ip_ses w s))")
    case full: True
    then have "ms \<noteq> []" using mq.not_full h by metis
    define w2 where "w2 = upd_ses s (ip_ses w s) w"
    have "w2 = w" by (simp add: w2_def upd_ses_def)
    then have "sinproc_retry s w = Some w" using True a active_peer [OF sh a] mq.put_full [OF h full]
      by (simp add: sinproc_retry_def w2_def Let_def)
    then show ?thesis using assms \<open>ms \<noteq> []\<close> by (intro exI [of _ w] exI [of _ ms]) (simp add: carries_def)
  next
    case False
    from mq.put_ok [OF h False] few snt(1) f(4) obtain mq where mq: "nn_msgqueue_send ?m (sp_queue (ip_ses w s)) = Some (0, mq)"
      "mq_holds mq (ms @ [?m])" by auto
    define x where "x = (ip_ses w s)\<lparr>sp_queue := mq, sp_receiving := False\<rparr>"
    define y where "y = (ip_ses w (other s))\<lparr>sp_msg := empty_msg\<rparr>"
    define w2 where "w2 = (upd_ses s x (upd_ses (other s) y w))
      \<lparr>ip_events := (ip_events w)(other s := ip_events w (other s) @ [EV_RECEIVED])\<rparr>"
    have "sinproc_retry s w = Some w2" using True a active_peer [OF sh a] mq(1) f(2) unfolding w2_def x_def y_def
      by (simp add: sinproc_retry_def raise_to_peer_def raise_to_def acked_def EAGAIN_def upd_ses_def fun_upd_twist Let_def)
    moreover have "shake_ok w2" using sh f(2) unfolding shake_both [OF a a'] w2_def x_def y_def
      by (subst shake_both [where s = s]) (auto simp: a a' all_side [of _ s] acked_def)
    moreover have "carries w2 s q (snt s) (rcv (other s))" using c unfolding w2_def x_def y_def by (auto simp: chan_defs)
    moreover have "carries w2 (other s) (ms @ [?m]) (snt (other s)) out" using snt f mq(2) unfolding w2_def x_def y_def
      by (auto simp: chan_defs)
    moreover have "sp_state (ip_ses w2 s) = SINPROC_ACTIVE" "sp_sending (ip_ses w2 s) = sp_sending (ip_ses w s)"
      "sp_pipe (ip_ses w2 s) = sp_pipe (ip_ses w s)" "pipe_ok (ip_ses w2 (other s)) q"
      using a p unfolding w2_def x_def y_def by (simp_all add: pipe_ok_def)
    ultimately show ?thesis by blast
  qed
qed

lemma recv_ok:
  assumes ok: "inproc_ok w snt rcv" and can: "can_recv w s" and few: "length (snt (other s)) \<le> 2 ^ 64 - 1"
  shows "\<exists>m w'. inproc_pipe_recv s w = Some (m, w') \<and> inproc_ok w' snt (rcv(s := rcv s @ [m]))"
proof -
  obtain q where sh: "shake_ok w" and c: "\<And>s. carries w s (q (other s)) (snt s) (rcv (other s))"
    and p: "\<And>s. pipe_ok (ip_ses w s) (q s)"
    using inproc_okE [OF ok] by blast
  have a: "sp_state (ip_ses w s) = SINPROC_ACTIVE" "pb_state (sp_pipe (ip_ses w s)) = PIPEBASE_ACTIVE" "q s \<noteq> []"
    using p [of s] can by (auto simp: pipe_ok_def can_recv_def split: if_splits)
  then obtain m ms where q: "q s = m # ms" by (cases "q s") auto
  have h: "mq_holds (sp_queue (ip_ses w s)) (m # ms)" using c [of "other s"] q by (simp add: carries_def)
  from mq.get_ok [OF this] obtain mq where mq: "nn_msgqueue_recv (sp_queue (ip_ses w s)) = Some (0, Some m, mq)" "mq_holds mq ms"
    by blast
  define w1 where "w1 = upd_ses s ((ip_ses w s)\<lparr>sp_pipe := (sp_pipe (ip_ses w s))\<lparr>pb_instate := IO_BUSY\<rparr>, sp_queue := mq\<rparr>) w"
  have w1: "ip_events w1 = ip_events w" "ip_ses w1 (other s) = ip_ses w (other s)"
    "ip_ses w1 s = (ip_ses w s)\<lparr>sp_pipe := (sp_pipe (ip_ses w s))\<lparr>pb_instate := IO_BUSY\<rparr>, sp_queue := mq\<rparr>"
    by (simp_all add: w1_def)
  have "shake_ok w1" using sh w1 by (cases s) (simp_all add: shake_ok_def Let_def)
  moreover have "carries w1 s (q (other s)) (snt s) (rcv (other s))" using c [of s] w1 by (auto simp: chan_defs)
  moreover have "snt (other s) = (rcv s @ [m]) @ ms @ in_flight w1 (other s)" "phase_ok w1 (other s)"
    using c [of "other s"] w1 q by (auto simp: chan_defs)
  ultimately have "\<exists>w2 ms'. sinproc_retry s w1 = Some w2 \<and> shake_ok w2 \<and> carries w2 s (q (other s)) (snt s) (rcv (other s)) \<and>
      carries w2 (other s) ms' (snt (other s)) (rcv s @ [m]) \<and> sp_state (ip_ses w2 s) = SINPROC_ACTIVE \<and>
      sp_sending (ip_ses w2 s) = sp_sending (ip_ses w1 s) \<and>
      sp_pipe (ip_ses w2 s) = sp_pipe (ip_ses w1 s) \<and> pipe_ok (ip_ses w2 (other s)) (q (other s))"
    using w1 a mq(2) p few by (intro retry_ok) simp_all
  then obtain w2 ms' where w2: "sinproc_retry s w1 = Some w2" "shake_ok w2" "carries w2 s (q (other s)) (snt s) (rcv (other s))"
      "carries w2 (other s) ms' (snt (other s)) (rcv s @ [m])" "sp_state (ip_ses w2 s) = SINPROC_ACTIVE"
      "sp_sending (ip_ses w2 s) = sp_sending (ip_ses w s)"
      "sp_pipe (ip_ses w2 s) = (sp_pipe (ip_ses w s))\<lparr>pb_instate := IO_BUSY\<rparr>" "pipe_ok (ip_ses w2 (other s)) (q (other s))"
    using w1(3) by auto
  define x where "x = (ip_ses w2 s)\<lparr>sp_pipe := (sp_pipe (ip_ses w s))\<lparr>pb_instate := (if ms' = [] then IO_ASYNC else IO_IDLE)\<rparr>\<rparr>"
  define w' where "w' = upd_ses s x w2"
  have "mq_holds (sp_queue (ip_ses w2 s)) ms'" using w2(4) by (simp add: carries_def)
  then have "nn_msgqueue_empty (sp_queue (ip_ses w2 s)) \<longleftrightarrow> ms' = []" by (rule mq.empty_iff)
  then have "inproc_pipe_recv s w = Some (m, w')"
    using can a(1) mq(1) w2(1,7) unfolding w'_def x_def w1_def
    by (simp add: inproc_pipe_recv_def nn_sinproc_recv_def can_recv_def nn_pipebase_received_def upd_ses_def Let_def)
  moreover have "shake_ok w'" using w2(2) unfolding w'_def x_def by (cases s) (simp_all add: shake_ok_def Let_def)
  moreover have "carries w' s (q (other s)) (snt s) (rcv (other s))" using w2(3) unfolding w'_def x_def
    by (auto simp: chan_defs)
  moreover have "carries w' (other s) ms' (snt (other s)) (rcv s @ [m])" using w2(4) unfolding w'_def x_def
    by (auto simp: chan_defs)
  moreover have "pipe_ok (ip_ses w' s) ms'" "pipe_ok (ip_ses w' (other s)) (q (other s))"
    using p [of s] a w2(5-8) unfolding w'_def x_def by (auto simp: pipe_ok_def)
  ultimately show ?thesis by (auto intro!: inproc_okI [where s = s and q = "q(s := ms')"])
qed

end
