(* ===== verification/Nn_Inproc_Props.thy ===== *)
theory Nn_Inproc_Props
  imports Nn_Inproc_Spec
begin

text \<open>
  Properties of the in-process transport: what goes in comes out, in order, without an abort, and all of it; a connection that is closed
  while nothing is on its way closes at both ends, and one that is closed while a message is on its way ends the process.
\<close>

section \<open>Reachable states\<close>

lemma inproc_reach_ok:
  assumes "inproc_reach b b' w snt rcv"
  shows "inproc_ok w snt rcv \<and> (\<forall>s. length (snt s) \<le> 2 ^ 64 - 1)"
  using assms
proof induction
  case (reach_init w)
  then show ?case using inproc_init_ok [of b b'] by auto
next
  case (reach_send w snt rcv s m w')
  then show ?case using send_ok [of w snt rcv s m] by (auto simp: fun_upd_def)
next
  case (reach_recv w snt rcv s m w')
  then show ?case using recv_ok [of w snt rcv s] by (auto simp: fun_upd_def)
next
  case (reach_event w snt rcv s k w')
  then show ?case using event_ok [of w snt rcv s k] by auto
qed

lemmas reachE = inproc_reach_ok [THEN conjunct1] inproc_reach_ok [THEN conjunct2, rule_format]

text \<open>What is left to do is seen at the two ends.\<close>

definition inproc_quiet :: "inproc \<Rightarrow> bool" where
  "inproc_quiet w \<longleftrightarrow> (\<forall>s. \<not> can_recv w s \<and> (\<forall>k. \<not> can_process w s k))"

lemma quiet_no_events: "inproc_quiet w \<Longrightarrow> ip_events w s = []"
  by (auto simp: inproc_quiet_def can_process_def dest!: spec [of _ s] spec [of _ 0])

lemma quiet_active:
  assumes "inproc_ok w snt rcv" "inproc_quiet w"
  shows "sp_state (ip_ses w s) = SINPROC_ACTIVE"
  using assms(1) quiet_no_events [OF assms(2)] by (cases s) (auto simp: inproc_ok_def shake_ok_def Let_def)

lemma quiet_delivered:
  assumes "inproc_ok w snt rcv" "inproc_quiet w"
  shows "rcv (other s) = snt s"
proof -
  obtain q where sh: "shake_ok w" and c: "\<And>s. carries w s (q (other s)) (snt s) (rcv (other s))"
    and p: "\<And>s. pipe_ok (ip_ses w s) (q s)"
    using inproc_okE [OF assms(1)] by blast
  have "q t = []" for t using p [of t] quiet_active [OF assms, of t] assms(2)
    by (auto simp: pipe_ok_def inproc_quiet_def can_recv_def split: if_splits)
  then show ?thesis using c [of s] quiet_no_events [OF assms(2)] by (auto simp: chan_defs)
qed

lemma received_is_prefix: "inproc_ok w snt rcv \<Longrightarrow> prefix (rcv (other s)) (snt s)"
  by (auto simp: inproc_ok_def carries_def dest!: spec [of _ s])

text \<open>A message of the connecting end that is processed before the event that ends the handshake has no case.\<close>

lemma too_early:
  assumes "shake_ok w" "k < length (ip_events w s)" "\<not> can_process w s k"
  shows "process_event s k w = None"
proof -
  have e: "ip_events w s = [EV_ACCEPTED, EV_SENT]" "k = 1" "s = Bound" "sp_fsm (ip_ses w Bound) = FSM_ACTIVE"
    using assms by (cases s; cases k; auto simp: shake_ok_def can_process_def Let_def dest!: set_take_subset [THEN subsetD])+
  then have "sp_state (ip_ses w Bound) = SINPROC_READY" using assms(1) by (auto simp: shake_ok_def Let_def)
  then show ?thesis
    using e(1,4) unfolding e(2,3) by (simp add: process_event_def sinproc_feed_def nn_sinproc_handler_def Let_def)
qed

text \<open>
  C7: In order and without loss. In every state that follows from the connection of two sessions, by sending where the socket may
  send, receiving where it may receive and processing the pending events, what has come out at each end is a beginning of what was
  given to the other; sending and receiving fail no assertion; and when there is nothing left to receive or to process, both
  ends are active and everything has arrived. Processing a pending event fails an assertion exactly when it overtakes the event that
  ends the handshake: every other order of the events is fine.
\<close>

theorem inproc_delivers_in_order:
  assumes "inproc_reach b b' w snt rcv"
  shows "prefix (rcv (other s)) (snt s) \<and>
    (can_send w s \<longrightarrow> inproc_pipe_send s m w \<noteq> None) \<and> (can_recv w s \<longrightarrow> inproc_pipe_recv s w \<noteq> None) \<and>
    (k < length (ip_events w s) \<longrightarrow> (process_event s k w = None \<longleftrightarrow> EV_ACCEPTED \<in> set (take k (ip_events w s)))) \<and>
    (inproc_quiet w \<longrightarrow> rcv (other s) = snt s \<and> sp_state (ip_ses w s) = SINPROC_ACTIVE)"
proof -
  have sh: "shake_ok w" using reachE(1) [OF assms] by (simp add: inproc_ok_def)
  have "process_event s k w = None \<longleftrightarrow> EV_ACCEPTED \<in> set (take k (ip_events w s))" if "k < length (ip_events w s)"
    using that too_early [OF sh that] event_ok [OF reachE(1) [OF assms] _ reachE(2) [OF assms], of s k]
    by (cases "process_event s k w") (auto simp: can_process_def)
  then show ?thesis
    using received_is_prefix [OF reachE(1) [OF assms]] send_ok [OF reachE(1) [OF assms]]
      recv_ok [OF reachE(1) [OF assms] _ reachE(2) [OF assms]]
      quiet_delivered [OF reachE(1) [OF assms]] quiet_active [OF reachE(1) [OF assms]]
    by (intro conjI impI) fastforce+
qed

text \<open>A connection whose connecting end has sent a message at once, before and after the other end knows that it is connected.\<close>

lemmas sample_defs = inproc_init_def sinproc_begin_def nn_sinproc_connect_def nn_sinproc_accept_def nn_sinproc_init_def raise_to_peer_def raise_to_def
  nn_pipebase_init_def upd_ses_def process_event_def sinproc_feed_def nn_sinproc_handler_def sinproc_start_def nn_pipebase_start_def
  inproc_pipe_send_def nn_sinproc_send_def can_process_def can_send_def Let_def

lemma sample_connection:
  "\<exists>w w'. inproc_reach 1 1 w ((\<lambda>_. [])(Conn := [empty_msg])) (\<lambda>_. []) \<and> ip_events w Bound = [EV_ACCEPTED, EV_SENT] \<and>
     inproc_reach 1 1 w' ((\<lambda>_. [])(Conn := [empty_msg])) (\<lambda>_. []) \<and> ip_events w' Bound = [EV_SENT]"
proof -
  obtain w0 where w0: "inproc_init 1 1 = Some w0" "can_process w0 Conn 0" "\<exists>w1. process_event Conn 0 w0 = Some w1 \<and> can_send w1 Conn \<and>
     (\<exists>w. inproc_pipe_send Conn empty_msg w1 = Some w \<and> ip_events w Bound = [EV_ACCEPTED, EV_SENT] \<and>
     (\<exists>w'. process_event Bound 0 w = Some w' \<and> ip_events w' Bound = [EV_SENT]))"
    by (simp add: sample_defs)
  then obtain w1 w w' where w: "process_event Conn 0 w0 = Some w1" "can_send w1 Conn" "inproc_pipe_send Conn empty_msg w1 = Some w"
     "ip_events w Bound = [EV_ACCEPTED, EV_SENT]" "process_event Bound 0 w = Some w'" "ip_events w' Bound = [EV_SENT]" by blast
  have "inproc_reach 1 1 w1 (\<lambda>_. []) (\<lambda>_. [])" by (rule reach_event [OF reach_init [OF w0(1)] w0(2) w(1)])
  from reach_send [OF this w(2) _ w(3)] have r: "inproc_reach 1 1 w ((\<lambda>_. [])(Conn := [empty_msg])) (\<lambda>_. [])" by simp
  have "inproc_reach 1 1 w' ((\<lambda>_. [])(Conn := [empty_msg])) (\<lambda>_. [])"
    by (rule reach_event [OF r _ w(5)]) (simp add: can_process_def w(4))
  then show ?thesis using r w(4,6) by blast
qed

theorem inproc_delivers_in_order_witness:
  "\<exists>w w'. ip_events w Bound = [EV_ACCEPTED, EV_SENT] \<and> process_event Bound 0 w \<noteq> None \<and> process_event Bound 1 w = None \<and>
     ip_events w' Bound = [EV_SENT] \<and> process_event Bound 0 w' \<noteq> None"
proof -
  from sample_connection obtain w w' where
    w: "inproc_reach 1 1 w ((\<lambda>_. [])(Conn := [empty_msg])) (\<lambda>_. [])" "ip_events w Bound = [EV_ACCEPTED, EV_SENT]"
      "inproc_reach 1 1 w' ((\<lambda>_. [])(Conn := [empty_msg])) (\<lambda>_. [])" "ip_events w' Bound = [EV_SENT]" by blast
  from inproc_delivers_in_order [OF w(1), of Bound _ 0] inproc_delivers_in_order [OF w(1), of Bound _ 1]
    inproc_delivers_in_order [OF w(3), of Bound _ 0] w(2,4)
  show ?thesis by (intro exI [of _ w] exI [of _ w']) simp
qed

section \<open>Everything arrives\<close>

text \<open>A number of steps of the transport and of the receivers, while nothing new is sent.\<close>

inductive serves :: "nat \<Rightarrow> inproc \<Rightarrow> (side \<Rightarrow> msg list) \<Rightarrow> inproc \<Rightarrow> (side \<Rightarrow> msg list) \<Rightarrow> bool" where
  serves_0: "serves 0 w rcv w rcv"
| serves_recv: "serves n w rcv w' rcv' \<Longrightarrow> can_recv w' s \<Longrightarrow> inproc_pipe_recv s w' = Some (m, w'') \<Longrightarrow>
    serves (Suc n) w rcv w'' (rcv'(s := rcv' s @ [m]))"
| serves_event: "serves n w rcv w' rcv' \<Longrightarrow> can_process w' s k \<Longrightarrow> process_event s k w' = Some w'' \<Longrightarrow> serves (Suc n) w rcv w'' rcv'"

lemma serves_reach: "serves n w rcv w' rcv' \<Longrightarrow> inproc_reach b b' w snt rcv \<Longrightarrow> inproc_reach b b' w' snt rcv'"
  by (induction rule: serves.induct) (auto intro: inproc_reach.intros)

fun event_work :: "sinproc_event \<Rightarrow> nat" where
  "event_work EV_RECEIVED = 1"
| "event_work EV_ACCEPTED = 1"
| "event_work _ = 2"

definition events_work :: "inproc \<Rightarrow> side \<Rightarrow> nat" where
  "events_work w s = sum_list (map event_work (ip_events w s))"

lemma take_out_work:
  "k < length es \<Longrightarrow> sum_list (map event_work es) = sum_list (map event_work (take k es @ drop (Suc k) es)) + event_work (es ! k)"
  by (induction es arbitrary: k) (auto simp: nth_Cons split: nat.split)

lemma raise_work:
  "raise_to t e w = Some w' \<Longrightarrow> events_work w' t = events_work w t + event_work e \<and> events_work w' (other t) = events_work w (other t)"
  by (auto simp: raise_to_def events_work_def split: if_splits)

lemma upd_ses_work [simp]: "events_work (upd_ses s x w) t = events_work w t"
  by (simp add: events_work_def)

lemma event_less_work:
  assumes "can_process w s k" "process_event s k w = Some w'" "sp_fsm (ip_ses w s) = FSM_ACTIVE" "ip_events w s ! k \<noteq> EV_DISCONNECT"
  shows "events_work w' s + events_work w' (other s) < events_work w s + events_work w (other s)"
proof -
  let ?w = "without s k w"
  have k: "k < length (ip_events w s)" using assms(1) by (simp add: can_process_def)
  have t: "events_work w s = events_work ?w s + event_work (ip_events w s ! k)" "events_work ?w (other s) = events_work w (other s)"
    using take_out_work [OF k] by (simp_all add: events_work_def without_def)
  have "nn_sinproc_handler s (ip_events w s ! k) ?w = Some w'"
    using assms(2,3) by (simp add: process_without [OF k] sinproc_feed_def)
  then show ?thesis using t assms(4)
    by (cases "ip_events w s ! k")
      (auto simp: nn_sinproc_handler_def sinproc_sent_def raise_to_peer_def Let_def dest!: raise_work split: sinproc_state.splits option.splits
        if_splits)
qed

lemma recv_work:
  assumes "inproc_pipe_recv s w = Some (m, w')"
  shows "events_work w' s + events_work w' (other s) \<le> events_work w s + events_work w (other s) + 1"
  using assms
  by (auto simp: inproc_pipe_recv_def nn_sinproc_recv_def sinproc_retry_def raise_to_peer_def bind_eq_Some_conv Let_def dest!: raise_work
      split: option.splits if_splits prod.splits)

definition undelivered :: "(side \<Rightarrow> msg list) \<Rightarrow> (side \<Rightarrow> msg list) \<Rightarrow> nat" where
  "undelivered snt rcv = (length (snt Conn) - length (rcv Bound)) + (length (snt Bound) - length (rcv Conn))"

lemma events_work_le:
  assumes "shake_ok w"
  shows "events_work w s \<le> 3"
proof -
  have d: "distinct (ip_events w s)" "set (ip_events w s) \<subseteq> {EV_SENT, EV_RECEIVED} \<or> ip_events w s = [] \<or> ip_events w s = [EV_READY] \<or>
      ip_events w s = [EV_ACCEPTED] \<or> ip_events w s = [EV_ACCEPTED, EV_SENT]"
    using assms by (cases s; auto simp: shake_ok_def Let_def)+
  have "events_work w s = sum event_work (set (ip_events w s))"
    by (simp add: events_work_def sum_list_distinct_conv_sum_set [OF d(1)])
  moreover have "sum event_work (set (ip_events w s)) \<le> sum event_work {EV_SENT, EV_RECEIVED}" if "set (ip_events w s) \<subseteq> {EV_SENT, EV_RECEIVED}"
    using that by (intro sum_mono2) simp_all
  ultimately show ?thesis using d(2) by auto
qed

lemma serves_bound:
  assumes "serves n w rcv w' rcv'" "inproc_reach b b' w snt rcv"
  shows "n + events_work w' Conn + events_work w' Bound + 2 * undelivered snt rcv' \<le>
    events_work w Conn + events_work w Bound + 2 * undelivered snt rcv"
  using assms
proof (induction rule: serves.induct)
  case (serves_recv n w rcv w' rcv' s m w'')
  have r: "inproc_reach b b' w' snt rcv'" using serves_reach serves_recv by blast
  have "inproc_reach b b' w'' snt (rcv'(s := rcv' s @ [m]))" using r serves_recv by (auto intro: reach_recv)
  from received_is_prefix [OF reachE(1) [OF this], of "other s"] have "prefix (rcv' s @ [m]) (snt (other s))" by simp
  then have "length (rcv' s) < length (snt (other s))" using prefix_length_le by fastforce
  then have "undelivered snt (rcv'(s := rcv' s @ [m])) + 1 = undelivered snt rcv'" by (cases s) (auto simp: undelivered_def)
  then show ?case using serves_recv recv_work [OF serves_recv(3)] by (cases s) (auto simp del: fun_upd_apply)
next
  case (serves_event n w rcv w' rcv' s k w'')
  have "inproc_ok w' snt rcv'" using serves_reach serves_event reachE(1) by blast
  then have sh: "shake_ok w'" by (simp add: inproc_ok_def)
  have "ip_events w' s ! k \<noteq> EV_DISCONNECT"
  proof
    assume e: "ip_events w' s ! k = EV_DISCONNECT"
    have "EV_DISCONNECT \<in> set (ip_events w' s)" using serves_event(2) e nth_mem [of k "ip_events w' s"] by (simp add: can_process_def)
    then show False using sh by (cases s) (auto simp: shake_ok_def Let_def)
  qed
  from event_less_work [OF serves_event(2,3) fsm_active [OF sh] this] show ?case using serves_event by (cases s) auto
qed simp

lemma serves_le:
  assumes "serves n w rcv w' rcv'" "inproc_reach b b' w snt rcv"
  shows "n \<le> 2 * undelivered snt rcv + 6"
proof -
  have "shake_ok w" using reachE(1) [OF assms(2)] by (simp add: inproc_ok_def)
  then show ?thesis using serves_bound [OF assms] events_work_le [of w Conn] events_work_le [of w Bound] by linarith
qed

lemma serves_on:
  assumes "serves n w rcv w' rcv'" "inproc_reach b b' w snt rcv" "\<not> inproc_quiet w'"
  shows "\<exists>w'' rcv''. serves (Suc n) w rcv w'' rcv''"
proof -
  note r = serves_reach [OF assms(1,2)]
  from assms(3) obtain t k where "can_recv w' t \<or> can_process w' t k" by (auto simp: inproc_quiet_def)
  then show ?thesis
    using recv_ok [OF reachE(1) [OF r] _ reachE(2) [OF r], of t] event_ok [OF reachE(1) [OF r] _ reachE(2) [OF r], of t k]
      serves.intros(2,3) [OF assms(1)] by blast
qed

lemma serves_until_quiet:
  assumes "inproc_reach b b' w snt rcv"
  shows "\<exists>n w' rcv'. serves n w rcv w' rcv' \<and> inproc_quiet w'"
proof (rule ccontr)
  assume n: "\<nexists>n w' rcv'. serves n w rcv w' rcv' \<and> inproc_quiet w'"
  have "\<exists>w' rcv'. serves n w rcv w' rcv'" for n
  proof (induction n)
    case 0
    show ?case by (blast intro: serves_0)
  next
    case (Suc n)
    then show ?case using n serves_on [OF _ assms] by blast
  qed
  then show False using serves_le [OF _ assms] by (metis not_less_eq_eq order_refl)
qed

text \<open>
  C8: Everything arrives. While nothing new is sent, the transport and the receivers have at most twice as many steps to do as messages are on
  their way, and six more; they do not get stuck before; and where they have come to an end, everything that was sent has arrived.
\<close>

theorem inproc_everything_arrives:
  assumes "inproc_reach b b' w snt rcv" "serves n w rcv w' rcv'"
  shows "n \<le> 2 * undelivered snt rcv + 6 \<and> (inproc_quiet w' \<longrightarrow> rcv' (other s) = snt s) \<and>
    (\<not> inproc_quiet w' \<longrightarrow> (\<exists>w'' rcv''. serves (Suc n) w rcv w'' rcv''))"
  using serves_le [OF assms(2,1)] serves_on [OF assms(2,1)] quiet_delivered [OF reachE(1) [OF serves_reach [OF assms(2,1)]]] by blast

theorem inproc_everything_arrives_witness:
  "\<exists>n w w' rcv'. serves n w (\<lambda>_. []) w' rcv' \<and> inproc_quiet w' \<and> rcv' Bound = [empty_msg] \<and> n \<le> 8"
proof -
  from sample_connection obtain w where w: "inproc_reach 1 1 w ((\<lambda>_. [])(Conn := [empty_msg])) (\<lambda>_. [])" by blast
  from serves_until_quiet [OF this] obtain n w' rcv' where "serves n w (\<lambda>_. []) w' rcv'" "inproc_quiet w'" by blast
  with inproc_everything_arrives [OF w this(1), of Conn] show ?thesis by (auto simp: undelivered_def)
qed

section \<open>Closing\<close>

lemma stop_active:
  assumes "sp_fsm (ip_ses w s) = FSM_ACTIVE" "sp_state (ip_ses w s) = SINPROC_ACTIVE" "sp_peer (ip_ses w s)"
    "EV_DISCONNECT \<notin> set (ip_events w (other s))"
  shows "nn_sinproc_stop s w = Some ((upd_ses s ((ip_ses w s)\<lparr>sp_fsm := FSM_STOPPING, sp_pipe := nn_pipebase_stop (sp_pipe (ip_ses w s)),
      sp_state := SINPROC_STOPPING_PEER\<rparr>) w)\<lparr>ip_events := (ip_events w)(other s := ip_events w (other s) @ [EV_DISCONNECT])\<rparr>)"
  using assms by (simp add: nn_sinproc_stop_def raise_to_peer_def raise_to_def check_stopped_def Let_def)

lemma no_disconnect: "shake_ok w \<Longrightarrow> EV_DISCONNECT \<notin> set (ip_events w s)"
  by (cases s) (auto simp: shake_ok_def Let_def)

text \<open>
  Closing while a message is on its way. An end that has a message coming and is closed before the event is processed tells its peer, and
  then ends the process: its state has no case for the event.
\<close>

theorem closing_meets_a_message:
  assumes "inproc_reach b b' w snt rcv" "can_process w s k" "ip_events w s ! k = EV_SENT"
  shows "\<exists>w'. nn_sinproc_stop s w = Some w' \<and> can_process w' s k \<and> process_event s k w' = None"
proof -
  have sh: "shake_ok w" using reachE(1) [OF assms(1)] by (simp add: inproc_ok_def)
  have a: "sp_state (ip_ses w s) = SINPROC_ACTIVE" using sent_active [OF sh assms(2)] assms(3) by blast
  note st = stop_active [OF fsm_active [OF sh] a active_peer [OF sh a] no_disconnect [OF sh]]
  show ?thesis using assms(2,3)
    by (auto simp: st can_process_def process_event_def sinproc_feed_def nn_sinproc_shutdown_def Let_def)
qed

theorem closing_meets_a_message_witness:
  "\<exists>w w'. ip_events w Bound = [EV_SENT] \<and> nn_sinproc_stop Bound w = Some w' \<and> process_event Bound 0 w' = None"
proof -
  from sample_connection obtain w where w: "inproc_reach 1 1 w ((\<lambda>_. [])(Conn := [empty_msg])) (\<lambda>_. [])" "ip_events w Bound = [EV_SENT]"
    by blast
  from closing_meets_a_message [OF w(1), of Bound 0] w(2) show ?thesis by (auto simp: can_process_def)
qed

text \<open>
  A message before the end of the handshake. The connecting end may send as soon as it is connected; when its message is processed before
  the event that tells the other end so, the process ends.
\<close>

theorem message_overtakes_the_handshake:
  assumes "inproc_reach b b' w snt rcv" "ip_events w Bound = [EV_ACCEPTED, EV_SENT]"
  shows "process_event Bound 1 w = None"
  using too_early [of w 1 Bound] reachE(1) [OF assms(1)] assms(2) by (simp add: inproc_ok_def can_process_def)

theorem message_overtakes_the_handshake_witness:
  "\<exists>w. ip_events w Bound = [EV_ACCEPTED, EV_SENT] \<and> process_event Bound 1 w = None"
  using sample_connection message_overtakes_the_handshake by blast

text \<open>
  Closing in peace. When no event is pending and both ends are connected, closing either end and letting the two tell each other, then
  closing the other, brings both state machines to a stop.
\<close>

theorem quiet_close:
  assumes "inproc_reach b b' w snt rcv" "inproc_quiet w"
  shows "\<exists>w1 w2 w3 w4. nn_sinproc_stop s w = Some w1 \<and> process_event (other s) 0 w1 = Some w2 \<and> process_event s 0 w2 = Some w3 \<and>
    nn_sinproc_stop (other s) w3 = Some w4 \<and> (\<forall>t. sp_fsm (ip_ses w4 t) = FSM_IDLE \<and> ip_events w4 t = [])"
proof -
  have sh: "shake_ok w" using reachE(1) [OF assms(1)] by (simp add: inproc_ok_def)
  note a = quiet_active [OF reachE(1) [OF assms(1)] assms(2)] and e = quiet_no_events [OF assms(2)]
  note st = stop_active [OF fsm_active [OF sh] a active_peer [OF sh a] no_disconnect [OF sh]]
  show ?thesis
    by (auto simp: st process_event_def sinproc_feed_def nn_sinproc_shutdown_def nn_sinproc_handler_def raise_to_peer_def raise_to_def
        check_stopped_def nn_sinproc_stop_def fsm_active [OF sh] a e active_peer [OF sh a] upd_ses_def all_side [of _ s] Let_def)
qed

theorem quiet_close_witness:
  "\<exists>w w1. inproc_quiet w \<and> nn_sinproc_stop Bound w = Some w1"
proof -
  from sample_connection obtain w where "inproc_reach 1 1 w ((\<lambda>_. [])(Conn := [empty_msg])) (\<lambda>_. [])" by blast
  with serves_until_quiet serves_reach obtain w' rcv' where
    "inproc_reach 1 1 w' ((\<lambda>_. [])(Conn := [empty_msg])) rcv'" "inproc_quiet w'" by meson
  with quiet_close [OF this, of Bound] show ?thesis by blast
qed

end
