(* ===== verification/Nn_Peer.thy ===== *)
theory Nn_Peer
  imports Nn_Survey Nn_Sub
begin

text \<open>
  Which socket types may talk to each other: the function \<open>ispeer\<close> of each protocol, and \<open>nn_sock_ispeer\<close> of \<open>core/sock.c\<close>, which
  compares the protocols first (the bits of \<open>0xfff0\<close>). A protocol is sixteen times its number, and one more for its second side.
\<close>

definition NN_PAIR :: int where "NN_PAIR = 1 * 16 + 0"
definition NN_PUB :: int where "NN_PUB = 2 * 16 + 0"
definition NN_REP :: int where "NN_REP = 3 * 16 + 1"
definition NN_PUSH :: int where "NN_PUSH = 5 * 16 + 0"
definition NN_PULL :: int where "NN_PULL = 5 * 16 + 1"
definition NN_RESPONDENT :: int where "NN_RESPONDENT = 6 * 16 + 1"
definition NN_BUS :: int where "NN_BUS = 7 * 16 + 0"

definition nn_xpair_ispeer :: "int \<Rightarrow> bool" where "nn_xpair_ispeer socktype \<longleftrightarrow> socktype = NN_PAIR"
definition nn_xpub_ispeer :: "int \<Rightarrow> bool" where "nn_xpub_ispeer socktype \<longleftrightarrow> socktype = NN_SUB"
definition nn_xsub_ispeer :: "int \<Rightarrow> bool" where "nn_xsub_ispeer socktype \<longleftrightarrow> socktype = NN_PUB"
definition nn_xreq_ispeer :: "int \<Rightarrow> bool" where "nn_xreq_ispeer socktype \<longleftrightarrow> socktype = NN_REP"
definition nn_xrep_ispeer :: "int \<Rightarrow> bool" where "nn_xrep_ispeer socktype \<longleftrightarrow> socktype = NN_REQ"
definition nn_xpush_ispeer :: "int \<Rightarrow> bool" where "nn_xpush_ispeer socktype \<longleftrightarrow> socktype = NN_PULL"
definition nn_xpull_ispeer :: "int \<Rightarrow> bool" where "nn_xpull_ispeer socktype \<longleftrightarrow> socktype = NN_PUSH"
definition nn_xsurveyor_ispeer :: "int \<Rightarrow> bool" where "nn_xsurveyor_ispeer socktype \<longleftrightarrow> socktype = NN_RESPONDENT"
definition nn_xrespondent_ispeer :: "int \<Rightarrow> bool" where "nn_xrespondent_ispeer socktype \<longleftrightarrow> socktype = NN_SURVEYOR"
definition nn_xbus_ispeer :: "int \<Rightarrow> bool" where "nn_xbus_ispeer socktype \<longleftrightarrow> socktype = NN_BUS"

lemmas protocol_defs = NN_PAIR_def NN_PUB_def NN_SUB_def NN_REQ_def NN_REP_def NN_PUSH_def NN_PULL_def NN_SURVEYOR_def
  NN_RESPONDENT_def NN_BUS_def

lemmas ispeer_defs = nn_xpair_ispeer_def nn_xpub_ispeer_def nn_xsub_ispeer_def nn_xreq_ispeer_def nn_xrep_ispeer_def nn_xpush_ispeer_def
  nn_xpull_ispeer_def nn_xsurveyor_ispeer_def nn_xrespondent_ispeer_def nn_xbus_ispeer_def

text \<open>The socket types that are registered, with their function; the raw types and the others share protocol and function.\<close>

definition socktypes :: "(int \<times> (int \<Rightarrow> bool)) list" where
  "socktypes =
     [(NN_PAIR, nn_xpair_ispeer), (NN_PUB, nn_xpub_ispeer), (NN_SUB, nn_xsub_ispeer), (NN_REP, nn_xrep_ispeer),
      (NN_REQ, nn_xreq_ispeer), (NN_PUSH, nn_xpush_ispeer), (NN_PULL, nn_xpull_ispeer),
      (NN_RESPONDENT, nn_xrespondent_ispeer), (NN_SURVEYOR, nn_xsurveyor_ispeer), (NN_BUS, nn_xbus_ispeer)]"

definition nn_sock_ispeer :: "int \<Rightarrow> (int \<Rightarrow> bool) \<Rightarrow> int \<Rightarrow> bool" where
  "nn_sock_ispeer protocol ispeer socktype \<longleftrightarrow> protocol div 16 mod 2 ^ 12 = socktype div 16 mod 2 ^ 12 \<and> ispeer socktype"

text \<open>An endpoint of a socket of one protocol asks whether another may be its peer.\<close>

definition protocol_ispeer :: "int \<Rightarrow> int \<Rightarrow> bool" where
  "protocol_ispeer p q = (case map_of socktypes p of None \<Rightarrow> False | Some f \<Rightarrow> nn_sock_ispeer p f q)"

lemma protocol_ispeer_sym: "protocol_ispeer p q \<longleftrightarrow> protocol_ispeer q p"
proof -
  have *: "protocol_ispeer p q \<longleftrightarrow> (p, q) \<in> {(NN_PAIR, NN_PAIR), (NN_PUB, NN_SUB), (NN_SUB, NN_PUB), (NN_REQ, NN_REP),
      (NN_REP, NN_REQ), (NN_PUSH, NN_PULL), (NN_PULL, NN_PUSH), (NN_SURVEYOR, NN_RESPONDENT),
      (NN_RESPONDENT, NN_SURVEYOR), (NN_BUS, NN_BUS)}" for p q
    by (auto simp: protocol_ispeer_def socktypes_def nn_sock_ispeer_def protocol_defs ispeer_defs)
  show ?thesis unfolding * by auto
qed

end
