(* ===== verification/Nn_Sock.thy ===== *)
theory Nn_Sock
  imports Nn_Peer
begin

text \<open>
  The socket of the core, \<open>core/sock.c\<close>, with its endpoints, \<open>core/ep.c\<close>: the state machine from its start to \<open>nn_close\<close>, the options, the
  statistics, blocking sends and receives, and the two file descriptors that say whether one of them would block.

  What a socket type implements, \<open>struct nn_sockbase_vfptr\<close> of \<open>protocol.h\<close>, is the record \<open>vfptr\<close>; what the transports do is the record
  \<open>transports\<close>. Both are parameters. Everything else happens inside the context of the socket: a call enters it, does its work, and when
  it leaves, the events that were raised are processed and the descriptors are adjusted.

  A failed assertion, an event that a state has no case for, and a use of the socket type after it was destroyed are \<open>None\<close>.
\<close>

definition ETERM :: int where "ETERM = 156384765"
definition ENOTSUP :: int where "ENOTSUP = 95"
definition ETIMEDOUT_nn :: int where "ETIMEDOUT_nn = 110"
definition EINTR_nn :: int where "EINTR_nn = 4"

section \<open>What the socket uses\<close>

text \<open>
  The functions of a socket type on its state. Sending and receiving give a result, zero or a negative error; \<open>v_events\<close> says whether something
  can be received and sent; \<open>v_stop\<close> also whether \<open>nn_sockbase_stopped\<close> was called at once, and is missing in most types.
  \<open>v_started\<close>, \<open>v_received\<close> and \<open>v_sent\<close> are what a transport does to a pipe, in the state of the socket type, before the socket type is
  told, and \<open>v_timer\<close> what the worker thread does for the timer of a socket type that has one, and whether that made it call
  \<open>nn_sockbase_stopped\<close>.
\<close>

record 'b vfptr =
  v_stop :: "('b \<Rightarrow> ('b \<times> bool) option) option"
  v_add :: "nat \<Rightarrow> 'b \<Rightarrow> (int \<times> 'b) option"
  v_rm :: "nat \<Rightarrow> 'b \<Rightarrow> 'b option"
  v_in :: "nat \<Rightarrow> 'b \<Rightarrow> 'b option"
  v_out :: "nat \<Rightarrow> 'b \<Rightarrow> 'b option"
  v_events :: "'b \<Rightarrow> bool \<times> bool"
  v_send :: "msg \<Rightarrow> 'b \<Rightarrow> (int \<times> 'b) option"
  v_recv :: "'b \<Rightarrow> (int \<times> msg option \<times> 'b) option"
  v_setopt :: "int \<Rightarrow> int \<Rightarrow> int \<Rightarrow> nat \<Rightarrow> 'b \<Rightarrow> int \<times> 'b"
  v_getopt :: "int \<Rightarrow> int \<Rightarrow> nat \<Rightarrow> 'b \<Rightarrow> int + int \<times> nat"
  v_started :: "nat \<Rightarrow> 'b \<Rightarrow> 'b option"
  v_received :: "nat \<Rightarrow> 'b \<Rightarrow> 'b option"
  v_sent :: "nat \<Rightarrow> 'b \<Rightarrow> 'b option"
  v_timer :: "timer_src \<Rightarrow> 'b \<Rightarrow> ('b \<times> bool) option"

text \<open>
  Whether a transport can make an endpoint, and whether one that is asked to stop has stopped at once; and the options of a transport, by its
  number, as it has made them for a socket.
\<close>

record 'o transports =
  tp_create :: "bool \<Rightarrow> string \<Rightarrow> int"
  tp_stops :: "int \<Rightarrow> bool"
  tp_optset :: "int \<Rightarrow> 'o option"
  tp_setopt :: "int \<Rightarrow> int \<Rightarrow> nat \<Rightarrow> 'o \<Rightarrow> int \<times> 'o"
  tp_getopt :: "int \<Rightarrow> nat \<Rightarrow> 'o \<Rightarrow> int + int \<times> nat"

record socktype =
  st_domain :: int
  st_protocol :: int
  st_norecv :: bool
  st_nosend :: bool

section \<open>The state\<close>

datatype sock_state = SOCK_INIT | SOCK_ACTIVE | SOCK_ZOMBIE | SOCK_STOPPING_EPS | SOCK_STOPPING

datatype ep_state = EP_IDLE | EP_ACTIVE | EP_STOPPING

record ep =
  ep_eid :: int
  ep_addr :: string
  ep_fsm :: fsm_state
  ep_state :: ep_state
  ep_errno :: int

datatype stat =
    ESTABLISHED_CONNECTIONS | ACCEPTED_CONNECTIONS | DROPPED_CONNECTIONS | BROKEN_CONNECTIONS | CONNECT_ERRORS | BIND_ERRORS |
    ACCEPT_ERRORS | MESSAGES_SENT | MESSAGES_RECEIVED | BYTES_SENT | BYTES_RECEIVED |
    CURRENT_CONNECTIONS | INPROGRESS_CONNECTIONS | CURRENT_SND_PRIORITY | CURRENT_EP_ERRORS

record sockopts =
  so_linger :: int
  so_sndbuf :: int
  so_rcvbuf :: int
  so_sndtimeo :: int
  so_rcvtimeo :: int
  so_reconnect_ivl :: int
  so_reconnect_ivl_max :: int
  so_sndprio :: int
  so_rcvprio :: int
  so_ipv4only :: int

text \<open>
  The events in the queue of the context: a pipe has become readable or writable; the transport has stopped an endpoint, of which the
  endpoint is told, and then the socket; the socket type has stopped.
\<close>

datatype sock_event = Pipe_in nat | Pipe_out nat | Ep_done int | Ep_stopped int | Base_stopped

text \<open>The descriptors are \<open>None\<close> when they are not open, or else signalled or not.\<close>

record ('b, 'o) sock =
  k_type :: socktype
  k_fsm :: fsm_state
  k_state :: sock_state
  k_base :: "'b option"
  k_in :: bool
  k_out :: bool
  k_rcvfd :: "bool option"
  k_sndfd :: "bool option"
  k_termsem :: nat
  k_eps :: "ep list"
  k_sdeps :: "ep list"
  k_eid :: int
  k_opts :: sockopts
  k_name :: bytes
  k_stat :: "stat \<Rightarrow> int"
  k_optsets :: "nat \<Rightarrow> 'o option"
  k_events :: "sock_event list"

section \<open>Statistics\<close>

definition level_stats :: "stat set" where
  "level_stats = {CURRENT_CONNECTIONS, INPROGRESS_CONNECTIONS, CURRENT_EP_ERRORS}"

definition stat_increment :: "stat \<Rightarrow> int \<Rightarrow> (stat \<Rightarrow> int) \<Rightarrow> (stat \<Rightarrow> int) option" where
  "stat_increment name increment st =
     (let v = st name; put = (\<lambda>x. Some (st(name := x))) in
      if name \<in> level_stats then
        if \<not> (increment > 0 \<or> v \<ge> - increment) \<or> \<not> (increment < 2 ^ 31 - 1 \<and> increment > - (2 ^ 31 - 1)) then None
        else put (v + increment)
      else if name = CURRENT_SND_PRIORITY then
        if \<not> (increment > 0 \<and> increment \<le> 16 \<or> increment = - 1) then None else put increment
      else if name = BYTES_SENT \<or> name = BYTES_RECEIVED then
        if \<not> increment \<ge> 0 then None else put ((v + increment) mod 2 ^ 64)
      else if \<not> increment > 0 then None else put ((v + increment) mod 2 ^ 64))"

definition nn_sock_stat_increment :: "stat \<Rightarrow> int \<Rightarrow> ('b, 'o) sock \<Rightarrow> ('b, 'o) sock option" where
  "nn_sock_stat_increment name increment self =
     map_option (\<lambda>st. self\<lparr>k_stat := st\<rparr>) (stat_increment name increment (k_stat self))"

section \<open>Endpoints\<close>

definition nn_ep_init :: "int \<Rightarrow> string \<Rightarrow> ep" where
  "nn_ep_init eid addr = \<lparr>ep_eid = eid, ep_addr = addr, ep_fsm = FSM_IDLE, ep_state = EP_IDLE, ep_errno = 0\<rparr>"

definition nn_ep_start :: "ep \<Rightarrow> ep option" where
  "nn_ep_start self = (if ep_fsm self \<noteq> FSM_IDLE \<or> ep_state self \<noteq> EP_IDLE then None
     else Some (self\<lparr>ep_state := EP_ACTIVE, ep_fsm := FSM_ACTIVE\<rparr>))"

text \<open>Stopping asks the transport; the second result says whether it is done with it.\<close>

definition nn_ep_stop :: "'o transports \<Rightarrow> ep \<Rightarrow> ep \<times> bool" where
  "nn_ep_stop T self =
     (if ep_fsm self \<noteq> FSM_ACTIVE then (self, False)
      else (self\<lparr>ep_fsm := FSM_STOPPING, ep_state := EP_STOPPING\<rparr>, tp_stops T (ep_eid self)))"

text \<open>The end of an endpoint reported by the transport; no other state expects an event.\<close>

definition nn_ep_shutdown :: "ep \<Rightarrow> ep option" where
  "nn_ep_shutdown self =
     (if ep_fsm self = FSM_STOPPING \<and> ep_state self = EP_STOPPING
      then Some (self\<lparr>ep_state := EP_IDLE, ep_fsm := FSM_IDLE\<rparr>) else None)"

definition nn_ep_term :: "ep \<Rightarrow> bool" where
  "nn_ep_term self \<longleftrightarrow> ep_state self = EP_IDLE \<and> ep_fsm self = FSM_IDLE"

definition nn_ep_set_error :: "int \<Rightarrow> ep \<Rightarrow> ('b, 'o) sock \<Rightarrow> (ep \<times> ('b, 'o) sock) option" where
  "nn_ep_set_error errnum self k =
     (if ep_errno self = errnum then Some (self, k)
      else map_option (Pair (self\<lparr>ep_errno := errnum\<rparr>))
        (if ep_errno self = 0 then nn_sock_stat_increment CURRENT_EP_ERRORS 1 k else Some k))"

definition nn_ep_clear_error :: "ep \<Rightarrow> ('b, 'o) sock \<Rightarrow> (ep \<times> ('b, 'o) sock) option" where
  "nn_ep_clear_error self k =
     (if ep_errno self = 0 then Some (self, k)
      else map_option (Pair (self\<lparr>ep_errno := 0\<rparr>)) (nn_sock_stat_increment CURRENT_EP_ERRORS (- 1) k))"

section \<open>Starting and the file descriptors\<close>

definition default_opts :: sockopts where
  "default_opts = \<lparr>so_linger = 1000, so_sndbuf = 128 * 1024, so_rcvbuf = 128 * 1024, so_sndtimeo = - 1, so_rcvtimeo = - 1,
     so_reconnect_ivl = 100, so_reconnect_ivl_max = 0, so_sndprio = 8, so_rcvprio = 8, so_ipv4only = 1\<rparr>"

text \<open>The descriptors of new sockets are not signalled. That there are enough of them is assumed.\<close>

definition nn_sock_init :: "socktype \<Rightarrow> bytes \<Rightarrow> 'b \<Rightarrow> ('b, 'o) sock option" where
  "nn_sock_init st name b =
     (if st_nosend st \<and> st_norecv st then None
      else Some \<lparr>k_type = st, k_fsm = FSM_ACTIVE, k_state = SOCK_ACTIVE, k_base = Some b, k_in = False, k_out = False,
        k_rcvfd = (if st_norecv st then None else Some False), k_sndfd = (if st_nosend st then None else Some False),
        k_termsem = 0, k_eps = [], k_sdeps = [], k_eid = 1, k_opts = default_opts, k_name = name, k_stat = (\<lambda>_. 0),
        k_optsets = (\<lambda>_. None), k_events = []\<rparr>)"

text \<open>A descriptor is signalled by a write; taking the signal back reads it, and fails when there is none.\<close>

definition nn_efd_signal :: "bool option \<Rightarrow> bool option option" where
  "nn_efd_signal fd = (case fd of None \<Rightarrow> None | Some _ \<Rightarrow> Some (Some True))"

definition nn_efd_unsignal :: "bool option \<Rightarrow> bool option option" where
  "nn_efd_unsignal fd = (case fd of None \<Rightarrow> None | Some s \<Rightarrow> if s then Some (Some False) else None)"

definition adjust_efd :: "bool \<Rightarrow> bool \<Rightarrow> bool option \<Rightarrow> (bool \<times> bool option) option" where
  "adjust_efd event flag fd =
     (if event then if flag then Some (flag, fd) else map_option (Pair True) (nn_efd_signal fd)
      else if flag then map_option (Pair False) (nn_efd_unsignal fd) else Some (flag, fd))"

definition nn_sock_onleave :: "'b vfptr \<Rightarrow> ('b, 'o) sock \<Rightarrow> ('b, 'o) sock option" where
  "nn_sock_onleave V self =
     (if k_state self \<noteq> SOCK_ACTIVE then Some self
      else case k_base self of
        None \<Rightarrow> None
      | Some b \<Rightarrow>
          (case (if st_norecv (k_type self) then Some (k_in self, k_rcvfd self)
              else adjust_efd (fst (v_events V b)) (k_in self) (k_rcvfd self)) of
            None \<Rightarrow> None
          | Some (i, rfd) \<Rightarrow>
              (case (if st_nosend (k_type self) then Some (k_out self, k_sndfd self)
                  else adjust_efd (snd (v_events V b)) (k_out self) (k_sndfd self)) of
                None \<Rightarrow> None
              | Some (o', sfd) \<Rightarrow> Some (self\<lparr>k_in := i, k_rcvfd := rfd, k_out := o', k_sndfd := sfd\<rparr>))))"

section \<open>The state machine\<close>

definition nn_sock_action_zombify :: "('b, 'o) sock \<Rightarrow> ('b, 'o) sock option" where
  "nn_sock_action_zombify self =
     (case (if k_in self \<or> st_norecv (k_type self) then Some (k_rcvfd self) else nn_efd_signal (k_rcvfd self)) of
        None \<Rightarrow> None
      | Some rfd \<Rightarrow>
          (case (if k_out self \<or> st_nosend (k_type self) then Some (k_sndfd self) else nn_efd_signal (k_sndfd self)) of
            None \<Rightarrow> None
          | Some sfd \<Rightarrow>
              Some (self\<lparr>k_state := SOCK_ZOMBIE, k_in := True, k_rcvfd := rfd, k_out := True, k_sndfd := sfd\<rparr>)))"

text \<open>An endpoint that has stopped is deallocated.\<close>

definition erase_sdep :: "int \<Rightarrow> ('b, 'o) sock \<Rightarrow> ('b, 'o) sock option" where
  "erase_sdep eid self =
     (case find (\<lambda>e. ep_eid e = eid) (k_sdeps self) of
        None \<Rightarrow> None
      | Some e \<Rightarrow> if nn_ep_term e then Some (self\<lparr>k_sdeps := filter (\<lambda>e. ep_eid e \<noteq> eid) (k_sdeps self)\<rparr>) else None)"

definition nn_sock_handler :: "'b vfptr \<Rightarrow> sock_event \<Rightarrow> ('b, 'o) sock \<Rightarrow> ('b, 'o) sock option" where
  "nn_sock_handler V ev self =
     (if k_state self \<noteq> SOCK_ACTIVE then None
      else case k_base self of
        None \<Rightarrow> None
      | Some b \<Rightarrow>
          (case ev of
            Ep_stopped eid \<Rightarrow> erase_sdep eid self
          | Pipe_in p \<Rightarrow> map_option (\<lambda>b. self\<lparr>k_base := Some b\<rparr>) (v_in V p b)
          | Pipe_out p \<Rightarrow> map_option (\<lambda>b. self\<lparr>k_base := Some b\<rparr>) (v_out V p b)
          | _ \<Rightarrow> None))"

text \<open>The labels \<open>finish1\<close> and \<open>finish2\<close>: the socket type is destroyed and \<open>nn_close\<close> may go on; or it is asked to stop first.\<close>

definition sock_finish1 :: "('b, 'o) sock \<Rightarrow> ('b, 'o) sock" where
  "sock_finish1 self = self\<lparr>k_base := None, k_state := SOCK_INIT, k_termsem := k_termsem self + 1\<rparr>"

definition sock_finish2 :: "'b vfptr \<Rightarrow> ('b, 'o) sock \<Rightarrow> ('b, 'o) sock option" where
  "sock_finish2 V self0 =
     (if k_sdeps self0 \<noteq> [] then Some self0
      else if k_eps self0 \<noteq> [] then None
      else let self = self0\<lparr>k_state := SOCK_STOPPING\<rparr> in
        case v_stop V of
          None \<Rightarrow> Some (sock_finish1 self)
        | Some stop \<Rightarrow>
            (case Option.bind (k_base self) stop of
              None \<Rightarrow> None
            | Some (b, now) \<Rightarrow>
                Some (self\<lparr>k_base := Some b, k_events := k_events self @ (if now then [Base_stopped] else [])\<rparr>)))"

text \<open>Stopping all endpoints; those whose transport is done with them at once are reported in the queue of events.\<close>

definition stop_eps :: "'o transports \<Rightarrow> ('b, 'o) sock \<Rightarrow> ('b, 'o) sock" where
  "stop_eps T self =
     (let stopped = map (nn_ep_stop T) (k_eps self) in
      self\<lparr>k_eps := [], k_sdeps := k_sdeps self @ map fst stopped,
        k_events := k_events self @ map (\<lambda>(e, now). Ep_done (ep_eid e)) (filter snd stopped)\<rparr>)"

definition sock_stop_action :: "'b vfptr \<Rightarrow> 'o transports \<Rightarrow> ('b, 'o) sock \<Rightarrow> ('b, 'o) sock option" where
  "sock_stop_action V T self =
     (if k_state self \<noteq> SOCK_ACTIVE \<and> k_state self \<noteq> SOCK_ZOMBIE then None
      else sock_finish2 V ((stop_eps T (self\<lparr>k_rcvfd := None, k_sndfd := None\<rparr>))\<lparr>k_state := SOCK_STOPPING_EPS\<rparr>))"

definition nn_sock_shutdown :: "'b vfptr \<Rightarrow> sock_event \<Rightarrow> ('b, 'o) sock \<Rightarrow> ('b, 'o) sock option" where
  "nn_sock_shutdown V ev self =
     (if k_state self = SOCK_STOPPING_EPS then
        (case ev of Ep_stopped eid \<Rightarrow> Option.bind (erase_sdep eid self) (sock_finish2 V) | _ \<Rightarrow> None)
      else if k_state self = SOCK_STOPPING then if ev = Base_stopped then Some (sock_finish1 self) else None
      else None)"

text \<open>An event for an endpoint goes to its state machine, which raises one for the socket.\<close>

definition ep_done :: "int \<Rightarrow> ('b, 'o) sock \<Rightarrow> ('b, 'o) sock option" where
  "ep_done eid self =
     (case find (\<lambda>e. ep_eid e = eid) (k_sdeps self) of
        None \<Rightarrow> None
      | Some e \<Rightarrow>
          map_option (\<lambda>e'. self\<lparr>k_sdeps := map (\<lambda>d. if ep_eid d = eid then e' else d) (k_sdeps self),
            k_events := k_events self @ [Ep_stopped eid]\<rparr>) (nn_ep_shutdown e))"

definition sock_feed :: "'b vfptr \<Rightarrow> sock_event \<Rightarrow> ('b, 'o) sock \<Rightarrow> ('b, 'o) sock option" where
  "sock_feed V ev self =
     (case ev of
        Ep_done eid \<Rightarrow> ep_done eid self
      | _ \<Rightarrow> if k_fsm self \<noteq> FSM_STOPPING then nn_sock_handler V ev self else nn_sock_shutdown V ev self)"

section \<open>The context\<close>

text \<open>Leaving the context: all events are processed, with those they raise, and then the descriptors are adjusted.\<close>

fun event_weight :: "sock_event \<Rightarrow> nat" where
  "event_weight (Ep_done _) = 3"
| "event_weight (Ep_stopped _) = 2"
| "event_weight _ = 1"

lemma sock_feed_events:
  assumes "sock_feed V e k = Some k'"
  shows "\<exists>es. k_events k' = k_events k @ es \<and> sum_list (map event_weight es) < event_weight e"
proof -
  have e: "k_events a = k_events b" if "erase_sdep eid b = Some a" for eid and a b :: "('a, 'b) sock"
    using that by (auto simp: erase_sdep_def split: option.splits if_splits)
  have f: "\<exists>es. k_events a = k_events b @ es \<and> sum_list (map event_weight es) < 2" if "sock_finish2 V b = Some a" for a b :: "('a, 'b) sock"
    using that by (auto simp: sock_finish2_def sock_finish1_def Let_def split: option.splits if_splits prod.splits)
  have d: "\<exists>es. k_events a = k_events b @ es \<and> sum_list (map event_weight es) < 3" if "ep_done eid b = Some a" for eid and a b :: "('a, 'b) sock"
    using that by (auto simp: ep_done_def split: option.splits)
  show ?thesis
  proof (cases e)
    case (Ep_stopped eid)
    show ?thesis
    proof (cases "k_fsm k = FSM_STOPPING")
      case True
      then show ?thesis using assms Ep_stopped f
        by (auto simp: sock_feed_def nn_sock_shutdown_def bind_eq_Some_conv dest!: e split: if_splits) metis
    next
      case False
      then show ?thesis using assms Ep_stopped e by (auto simp: sock_feed_def nn_sock_handler_def split: if_splits option.splits)
    qed
  qed (use assms d in \<open>auto simp: sock_feed_def nn_sock_handler_def nn_sock_shutdown_def sock_finish1_def split: if_splits option.splits\<close>)
qed

function process_events :: "'b vfptr \<Rightarrow> ('b, 'o) sock \<Rightarrow> ('b, 'o) sock option" where
  "process_events V self =
     (case k_events self of
        [] \<Rightarrow> Some self
      | e # es \<Rightarrow>
          (case sock_feed V e (self\<lparr>k_events := es\<rparr>) of
            None \<Rightarrow> None
          | Some self' \<Rightarrow> process_events V self'))"
  by pat_completeness auto
termination
  by (relation "measure (\<lambda>(V, self). sum_list (map event_weight (k_events self)))") (auto dest!: sock_feed_events)

declare process_events.simps [simp del]

definition nn_ctx_leave :: "'b vfptr \<Rightarrow> ('b, 'o) sock \<Rightarrow> ('b, 'o) sock option" where
  "nn_ctx_leave V self = Option.bind (process_events V self) (nn_sock_onleave V)"

section \<open>The calls\<close>

definition nn_sock_zombify :: "'b vfptr \<Rightarrow> ('b, 'o) sock \<Rightarrow> ('b, 'o) sock option" where
  "nn_sock_zombify V self =
     (if k_fsm self = FSM_STOPPING \<or> k_state self \<notin> {SOCK_INIT, SOCK_ACTIVE} then None
      else Option.bind (nn_sock_action_zombify self) (nn_ctx_leave V))"

text \<open>\<open>nn_sock_term\<close> up to the semaphore, and what it does when the semaphore has been posted.\<close>

definition nn_sock_stop :: "'b vfptr \<Rightarrow> 'o transports \<Rightarrow> ('b, 'o) sock \<Rightarrow> ('b, 'o) sock option" where
  "nn_sock_stop V T self =
     (if k_fsm self \<noteq> FSM_ACTIVE then nn_ctx_leave V self
      else Option.bind (sock_stop_action V T (self\<lparr>k_fsm := FSM_STOPPING\<rparr>)) (nn_ctx_leave V))"

definition nn_sock_term :: "('b, 'o) sock \<Rightarrow> ('b, 'o) sock option" where
  "nn_sock_term self =
     (if k_termsem self = 0 \<or> k_fsm self \<noteq> FSM_STOPPING \<or> k_sdeps self \<noteq> [] \<or> k_eps self \<noteq> [] \<or> k_events self \<noteq> [] then None
      else Some (self\<lparr>k_termsem := k_termsem self - 1, k_fsm := FSM_IDLE\<rparr>))"

definition nn_sock_add_ep :: "'b vfptr \<Rightarrow> 'o transports \<Rightarrow> bool \<Rightarrow> string \<Rightarrow> ('b, 'o) sock \<Rightarrow> (int \<times> ('b, 'o) sock) option" where
  "nn_sock_add_ep V T bind addr self =
     (if length addr > 128 then None
      else let rc = tp_create T bind addr in
        if rc < 0 then map_option (Pair rc) (nn_ctx_leave V self)
        else case nn_ep_start (nn_ep_init (k_eid self) addr) of
          None \<Rightarrow> None
        | Some ep \<Rightarrow>
            map_option (Pair (k_eid self)) (nn_ctx_leave V (self\<lparr>k_eid := k_eid self + 1, k_eps := k_eps self @ [ep]\<rparr>)))"

definition nn_sock_rm_ep :: "'b vfptr \<Rightarrow> 'o transports \<Rightarrow> int \<Rightarrow> ('b, 'o) sock \<Rightarrow> (int \<times> ('b, 'o) sock) option" where
  "nn_sock_rm_ep V T eid self =
     (case find (\<lambda>e. ep_eid e = eid) (k_eps self) of
        None \<Rightarrow> map_option (Pair (- EINVAL_opt)) (nn_ctx_leave V self)
      | Some ep \<Rightarrow>
          (let (ep', now) = nn_ep_stop T ep in
           map_option (Pair 0) (nn_ctx_leave V (self\<lparr>k_eps := filter (\<lambda>e. ep_eid e \<noteq> eid) (k_eps self), k_sdeps := k_sdeps self @ [ep'],
             k_events := k_events self @ (if now then [Ep_done eid] else [])\<rparr>))))"

text \<open>The transport reports that an endpoint has stopped.\<close>

definition nn_ep_stopped :: "'b vfptr \<Rightarrow> int \<Rightarrow> ('b, 'o) sock \<Rightarrow> ('b, 'o) sock option" where
  "nn_ep_stopped V eid self = nn_ctx_leave V (self\<lparr>k_events := k_events self @ [Ep_done eid]\<rparr>)"

text \<open>Pipes, as transports start and stop them and report what happens on them.\<close>

definition nn_sock_add :: "'b vfptr \<Rightarrow> nat \<Rightarrow> ('b, 'o) sock \<Rightarrow> (int \<times> ('b, 'o) sock) option" where
  "nn_sock_add V p self =
     (case Option.bind (k_base self) (v_add V p) of
        None \<Rightarrow> None
      | Some (rc, b) \<Rightarrow>
          (let self' = self\<lparr>k_base := Some b\<rparr> in
           if rc \<ge> 0 then map_option (Pair rc) (nn_sock_stat_increment CURRENT_CONNECTIONS 1 self') else Some (rc, self')))"

definition nn_sock_rm :: "'b vfptr \<Rightarrow> nat \<Rightarrow> ('b, 'o) sock \<Rightarrow> ('b, 'o) sock option" where
  "nn_sock_rm V p self =
     (case Option.bind (k_base self) (v_rm V p) of
        None \<Rightarrow> None
      | Some b \<Rightarrow> nn_sock_stat_increment CURRENT_CONNECTIONS (- 1) (self\<lparr>k_base := Some b\<rparr>))"

definition pipe_start :: "'b vfptr \<Rightarrow> nat \<Rightarrow> ('b, 'o) sock \<Rightarrow> ('b, 'o) sock option" where
  "pipe_start V p self =
     (case Option.bind (k_base self) (v_started V p) of
        None \<Rightarrow> None
      | Some b \<Rightarrow>
          (case nn_sock_add V p (self\<lparr>k_base := Some b\<rparr>) of
            None \<Rightarrow> None
          | Some (rc, self') \<Rightarrow>
              nn_ctx_leave V (self'\<lparr>k_events := k_events self' @ (if rc < 0 then [] else [Pipe_out p])\<rparr>)))"

definition pipe_stop :: "'b vfptr \<Rightarrow> nat \<Rightarrow> ('b, 'o) sock \<Rightarrow> ('b, 'o) sock option" where
  "pipe_stop V p self = Option.bind (nn_sock_rm V p self) (nn_ctx_leave V)"

definition pipe_received :: "'b vfptr \<Rightarrow> nat \<Rightarrow> ('b, 'o) sock \<Rightarrow> ('b, 'o) sock option" where
  "pipe_received V p self =
     (case Option.bind (k_base self) (v_received V p) of
        None \<Rightarrow> None
      | Some b \<Rightarrow> nn_ctx_leave V (self\<lparr>k_base := Some b, k_events := k_events self @ [Pipe_in p]\<rparr>))"

definition pipe_sent :: "'b vfptr \<Rightarrow> nat \<Rightarrow> ('b, 'o) sock \<Rightarrow> ('b, 'o) sock option" where
  "pipe_sent V p self =
     (case Option.bind (k_base self) (v_sent V p) of
        None \<Rightarrow> None
      | Some b \<Rightarrow> nn_ctx_leave V (self\<lparr>k_base := Some b, k_events := k_events self @ [Pipe_out p]\<rparr>))"

definition sock_timer :: "'b vfptr \<Rightarrow> timer_src \<Rightarrow> ('b, 'o) sock \<Rightarrow> ('b, 'o) sock option" where
  "sock_timer V src self =
     (case Option.bind (k_base self) (v_timer V src) of
        None \<Rightarrow> None
      | Some (b, stopped) \<Rightarrow>
          nn_ctx_leave V (self\<lparr>k_base := Some b, k_events := k_events self @ (if stopped then [Base_stopped] else [])\<rparr>))"

section \<open>Sending and receiving\<close>

text \<open>
  What happens while a call waits for a descriptor: the result of waiting, what other threads have done to the socket when the call has the
  context again, whether the descriptor is signalled then, and the time. A call is over or waits, with a timeout.
\<close>

record ('b, 'o) wakeup =
  w_rc :: int
  w_env :: "('b, 'o) sock \<Rightarrow> ('b, 'o) sock"
  w_ready :: bool
  w_now :: u64

datatype outcome = Returned int | Waiting int

text \<open>The timeout is an \<open>int\<close>: what does not fit loses its upper bits.\<close>

definition int_of_u64 :: "u64 \<Rightarrow> int" where
  "int_of_u64 x = sint (ucast x :: 32 word)"

definition call_deadline :: "int \<Rightarrow> u64 \<Rightarrow> u64 \<times> int" where
  "call_deadline timeo now = (if timeo < 0 then (- 1, - 1) else (now + of_int timeo, timeo))"

definition next_timeout :: "int \<Rightarrow> u64 \<Rightarrow> u64 \<Rightarrow> int \<Rightarrow> int" where
  "next_timeout timeo deadline now timeout =
     (if timeo \<ge> 0 then int_of_u64 (if now > deadline then 0 else deadline - now) else timeout)"

fun sock_send_loop ::
    "'b vfptr \<Rightarrow> msg \<Rightarrow> bool \<Rightarrow> u64 \<Rightarrow> int \<Rightarrow> ('b, 'o) wakeup list \<Rightarrow> ('b, 'o) sock \<Rightarrow> (outcome \<times> ('b, 'o) sock) option" where
  "sock_send_loop V m dontwait deadline timeout ws self =
     (if k_state self = SOCK_ZOMBIE then map_option (Pair (Returned (- ETERM))) (nn_ctx_leave V self)
      else case Option.bind (k_base self) (v_send V m) of
        None \<Rightarrow> None
      | Some (rc, b) \<Rightarrow>
          (let self = self\<lparr>k_base := Some b\<rparr> in
           if rc = 0 then map_option (Pair (Returned 0)) (nn_ctx_leave V self)
           else if \<not> rc < 0 then None
           else if rc \<noteq> - EAGAIN then map_option (Pair (Returned rc)) (nn_ctx_leave V self)
           else if dontwait then map_option (Pair (Returned (- EAGAIN))) (nn_ctx_leave V self)
           else case nn_ctx_leave V self of
             None \<Rightarrow> None
           | Some self \<Rightarrow>
               (case ws of
                  [] \<Rightarrow> Some (Waiting timeout, self)
                | w # ws \<Rightarrow>
                    (let self = w_env w self in
                     if w_rc w = - ETIMEDOUT_nn then Some (Returned (- EAGAIN), self)
                     else if w_rc w = - EINTR_nn then Some (Returned (- EINTR_nn), self)
                     else if w_rc w \<noteq> 0 then None
                     else sock_send_loop V m dontwait deadline
                       (next_timeout (so_sndtimeo (k_opts self)) deadline (w_now w) timeout) ws
                       (if w_ready w then self\<lparr>k_out := True\<rparr> else self)))))"

definition nn_sock_send ::
    "'b vfptr \<Rightarrow> msg \<Rightarrow> bool \<Rightarrow> u64 \<Rightarrow> ('b, 'o) wakeup list \<Rightarrow> ('b, 'o) sock \<Rightarrow> (outcome \<times> ('b, 'o) sock) option" where
  "nn_sock_send V m dontwait now ws self =
     (if st_nosend (k_type self) then Some (Returned (- ENOTSUP), self)
      else let (deadline, timeout) = call_deadline (so_sndtimeo (k_opts self)) now in sock_send_loop V m dontwait deadline timeout ws self)"

fun sock_recv_loop ::
    "'b vfptr \<Rightarrow> bool \<Rightarrow> u64 \<Rightarrow> int \<Rightarrow> ('b, 'o) wakeup list \<Rightarrow> ('b, 'o) sock \<Rightarrow> (outcome \<times> msg option \<times> ('b, 'o) sock) option" where
  "sock_recv_loop V dontwait deadline timeout ws self =
     (if k_state self = SOCK_ZOMBIE then map_option (\<lambda>k. (Returned (- ETERM), None, k)) (nn_ctx_leave V self)
      else case Option.bind (k_base self) (v_recv V) of
        None \<Rightarrow> None
      | Some (rc, m, b) \<Rightarrow>
          (let self = self\<lparr>k_base := Some b\<rparr> in
           if rc = 0 then map_option (\<lambda>k. (Returned 0, m, k)) (nn_ctx_leave V self)
           else if \<not> rc < 0 then None
           else if rc \<noteq> - EAGAIN then map_option (\<lambda>k. (Returned rc, None, k)) (nn_ctx_leave V self)
           else if dontwait then map_option (\<lambda>k. (Returned (- EAGAIN), None, k)) (nn_ctx_leave V self)
           else case nn_ctx_leave V self of
             None \<Rightarrow> None
           | Some self \<Rightarrow>
               (case ws of
                  [] \<Rightarrow> Some (Waiting timeout, None, self)
                | w # ws \<Rightarrow>
                    (let self = w_env w self in
                     if w_rc w = - ETIMEDOUT_nn then Some (Returned (- EAGAIN), None, self)
                     else if w_rc w = - EINTR_nn then Some (Returned (- EINTR_nn), None, self)
                     else if w_rc w \<noteq> 0 then None
                     else sock_recv_loop V dontwait deadline
                       (next_timeout (so_rcvtimeo (k_opts self)) deadline (w_now w) timeout) ws
                       (if w_ready w then self\<lparr>k_in := True\<rparr> else self)))))"

definition nn_sock_recv ::
    "'b vfptr \<Rightarrow> bool \<Rightarrow> u64 \<Rightarrow> ('b, 'o) wakeup list \<Rightarrow> ('b, 'o) sock \<Rightarrow> (outcome \<times> msg option \<times> ('b, 'o) sock) option" where
  "nn_sock_recv V dontwait now ws self =
     (if st_norecv (k_type self) then Some (Returned (- ENOTSUP), None, self)
      else let (deadline, timeout) = call_deadline (so_rcvtimeo (k_opts self)) now in sock_recv_loop V dontwait deadline timeout ws self)"

declare sock_send_loop.simps [simp del] sock_recv_loop.simps [simp del]

section \<open>The options\<close>

definition NN_SOL_SOCKET :: int where "NN_SOL_SOCKET = 0"
definition NN_LINGER :: int where "NN_LINGER = 1"
definition NN_SNDBUF :: int where "NN_SNDBUF = 2"
definition NN_RCVBUF :: int where "NN_RCVBUF = 3"
definition NN_SNDTIMEO :: int where "NN_SNDTIMEO = 4"
definition NN_RCVTIMEO :: int where "NN_RCVTIMEO = 5"
definition NN_RECONNECT_IVL :: int where "NN_RECONNECT_IVL = 6"
definition NN_RECONNECT_IVL_MAX :: int where "NN_RECONNECT_IVL_MAX = 7"
definition NN_SNDPRIO :: int where "NN_SNDPRIO = 8"
definition NN_RCVPRIO :: int where "NN_RCVPRIO = 9"
definition NN_SNDFD :: int where "NN_SNDFD = 10"
definition NN_RCVFD :: int where "NN_RCVFD = 11"
definition NN_DOMAIN :: int where "NN_DOMAIN = 12"
definition NN_PROTOCOL :: int where "NN_PROTOCOL = 13"
definition NN_IPV4ONLY :: int where "NN_IPV4ONLY = 14"
definition NN_SOCKET_NAME :: int where "NN_SOCKET_NAME = 15"
definition NN_MAX_TRANSPORT :: int where "NN_MAX_TRANSPORT = 3"

lemmas sockopt_names = NN_SOL_SOCKET_def NN_LINGER_def NN_SNDBUF_def NN_RCVBUF_def NN_SNDTIMEO_def NN_RCVTIMEO_def NN_RECONNECT_IVL_def
  NN_RECONNECT_IVL_MAX_def NN_SNDPRIO_def NN_RCVPRIO_def NN_SNDFD_def NN_RCVFD_def NN_DOMAIN_def NN_PROTOCOL_def NN_IPV4ONLY_def
  NN_SOCKET_NAME_def

text \<open>An \<open>int\<close> as the bytes of the buffer of an option, and back.\<close>

definition int_bytes :: "int \<Rightarrow> bytes" where
  "int_bytes v = le_bytes 4 (of_int v :: u32)"

definition bytes_int :: "bytes \<Rightarrow> int" where
  "bytes_int bs = sint (le_word (take 4 bs) :: u32)"

definition nn_sock_optset :: "'o transports \<Rightarrow> int \<Rightarrow> ('b, 'o) sock \<Rightarrow> 'o option \<times> ('b, 'o) sock" where
  "nn_sock_optset T tid self =
     (let index = - tid - 1 in
      if index < 0 \<or> index \<ge> NN_MAX_TRANSPORT then (None, self)
      else case k_optsets self (nat index) of
        Some o' \<Rightarrow> (Some o', self)
      | None \<Rightarrow> (tp_optset T tid, self\<lparr>k_optsets := (k_optsets self)(nat index := tp_optset T tid)\<rparr>))"

text \<open>The generic options, with the values they take.\<close>

definition setopt_int :: "int \<Rightarrow> int \<Rightarrow> sockopts \<Rightarrow> int \<times> sockopts" where
  "setopt_int option val o' =
     (if option = NN_LINGER then (0, o'\<lparr>so_linger := val\<rparr>)
      else if option = NN_SNDBUF then if val \<le> 0 then (- EINVAL_opt, o') else (0, o'\<lparr>so_sndbuf := val\<rparr>)
      else if option = NN_RCVBUF then if val \<le> 0 then (- EINVAL_opt, o') else (0, o'\<lparr>so_rcvbuf := val\<rparr>)
      else if option = NN_SNDTIMEO then (0, o'\<lparr>so_sndtimeo := val\<rparr>)
      else if option = NN_RCVTIMEO then (0, o'\<lparr>so_rcvtimeo := val\<rparr>)
      else if option = NN_RECONNECT_IVL then if val < 0 then (- EINVAL_opt, o') else (0, o'\<lparr>so_reconnect_ivl := val\<rparr>)
      else if option = NN_RECONNECT_IVL_MAX then if val < 0 then (- EINVAL_opt, o') else (0, o'\<lparr>so_reconnect_ivl_max := val\<rparr>)
      else if option = NN_SNDPRIO then if val < 1 \<or> val > 16 then (- EINVAL_opt, o') else (0, o'\<lparr>so_sndprio := val\<rparr>)
      else if option = NN_RCVPRIO then if val < 1 \<or> val > 16 then (- EINVAL_opt, o') else (0, o'\<lparr>so_rcvprio := val\<rparr>)
      else if option = NN_IPV4ONLY then if val \<noteq> 0 \<and> val \<noteq> 1 then (- EINVAL_opt, o') else (0, o'\<lparr>so_ipv4only := val\<rparr>)
      else (- ENOPROTOOPT, o'))"

definition nn_sock_setopt_inner ::
    "'b vfptr \<Rightarrow> 'o transports \<Rightarrow> int \<Rightarrow> int \<Rightarrow> bytes \<Rightarrow> ('b, 'o) sock \<Rightarrow> (int \<times> ('b, 'o) sock) option" where
  "nn_sock_setopt_inner V T level option optval self =
     (if level > NN_SOL_SOCKET then
        (case k_base self of
          None \<Rightarrow> None
        | Some b \<Rightarrow> (case v_setopt V level option (bytes_int optval) (length optval) b of (rc, b') \<Rightarrow> Some (rc, self\<lparr>k_base := Some b'\<rparr>)))
      else if level < NN_SOL_SOCKET then
        (case nn_sock_optset T level self of
          (None, self) \<Rightarrow> Some (- ENOPROTOOPT, self)
        | (Some o', self) \<Rightarrow>
            (case tp_setopt T option (bytes_int optval) (length optval) o' of
              (rc, o'') \<Rightarrow> Some (rc, self\<lparr>k_optsets := (k_optsets self)(nat (- level - 1) \<mapsto> o'')\<rparr>)))
      else if option = NN_SOCKET_NAME then
        if length optval > 63 then Some (- EINVAL_opt, self) else Some (0, self\<lparr>k_name := optval @ [0]\<rparr>)
      else if length optval \<noteq> 4 then Some (- EINVAL_opt, self)
      else (case setopt_int option (bytes_int optval) (k_opts self) of (rc, o') \<Rightarrow> Some (rc, self\<lparr>k_opts := o'\<rparr>)))"

definition nn_sock_setopt ::
    "'b vfptr \<Rightarrow> 'o transports \<Rightarrow> int \<Rightarrow> int \<Rightarrow> bytes \<Rightarrow> ('b, 'o) sock \<Rightarrow> (int \<times> ('b, 'o) sock) option" where
  "nn_sock_setopt V T level option optval self =
     (if k_state self = SOCK_ZOMBIE then map_option (Pair (- ETERM)) (nn_ctx_leave V self)
      else Option.bind (nn_sock_setopt_inner V T level option optval self) (\<lambda>(rc, self). map_option (Pair rc) (nn_ctx_leave V self)))"

definition getopt_int :: "int \<Rightarrow> ('b, 'o) sock \<Rightarrow> int option" where
  "getopt_int option self =
     (let o' = k_opts self in
      if option = NN_DOMAIN then Some (st_domain (k_type self))
      else if option = NN_PROTOCOL then Some (st_protocol (k_type self))
      else if option = NN_LINGER then Some (so_linger o')
      else if option = NN_SNDBUF then Some (so_sndbuf o')
      else if option = NN_RCVBUF then Some (so_rcvbuf o')
      else if option = NN_SNDTIMEO then Some (so_sndtimeo o')
      else if option = NN_RCVTIMEO then Some (so_rcvtimeo o')
      else if option = NN_RECONNECT_IVL then Some (so_reconnect_ivl o')
      else if option = NN_RECONNECT_IVL_MAX then Some (so_reconnect_ivl_max o')
      else if option = NN_SNDPRIO then Some (so_sndprio o')
      else if option = NN_RCVPRIO then Some (so_rcvprio o')
      else if option = NN_IPV4ONLY then Some (so_ipv4only o')
      else None)"

text \<open>
  The result is an error, or the bytes that are written into a buffer of the given length, and the length that is reported. The
  descriptors are numbers that the operating system chose, \<open>fds\<close> for receiving and sending.
\<close>

definition nn_sock_getopt_inner ::
    "'b vfptr \<Rightarrow> 'o transports \<Rightarrow> int \<times> int \<Rightarrow> int \<Rightarrow> int \<Rightarrow> nat \<Rightarrow> ('b, 'o) sock \<Rightarrow> ((int + bytes \<times> nat) \<times> ('b, 'o) sock) option" where
  "nn_sock_getopt_inner V T fds level option optvallen self =
     (let ret = (\<lambda>v. Inr (take optvallen (int_bytes v), 4)) in
      if level = NN_SOL_SOCKET then
        Some (case getopt_int option self of
            Some v \<Rightarrow> ret v
          | None \<Rightarrow>
              if option = NN_SNDFD then if st_nosend (k_type self) then Inl (- ENOPROTOOPT) else ret (snd fds)
              else if option = NN_RCVFD then if st_norecv (k_type self) then Inl (- ENOPROTOOPT) else ret (fst fds)
              else if option = NN_SOCKET_NAME then
                let name = takeWhile (\<lambda>c. c \<noteq> 0) (k_name self) in Inr (take optvallen (name @ replicate optvallen 0), length name)
              else Inl (- ENOPROTOOPT), self)
      else if level > NN_SOL_SOCKET then
        (case k_base self of
          None \<Rightarrow> None
        | Some b \<Rightarrow> Some (map_sum (\<lambda>e. e) (\<lambda>(v, l). (take optvallen (int_bytes v), l)) (v_getopt V level option optvallen b), self))
      else
        (case nn_sock_optset T level self of
          (None, self) \<Rightarrow> Some (Inl (- ENOPROTOOPT), self)
        | (Some o', self) \<Rightarrow>
            Some (map_sum (\<lambda>e. e) (\<lambda>(v, l). (take optvallen (int_bytes v), l)) (tp_getopt T option optvallen o'), self)))"

definition nn_sock_getopt ::
    "'b vfptr \<Rightarrow> 'o transports \<Rightarrow> int \<times> int \<Rightarrow> int \<Rightarrow> int \<Rightarrow> nat \<Rightarrow> ('b, 'o) sock \<Rightarrow> ((int + bytes \<times> nat) \<times> ('b, 'o) sock) option" where
  "nn_sock_getopt V T fds level option optvallen self =
     (if k_state self = SOCK_ZOMBIE then map_option (Pair (Inl (- ETERM))) (nn_ctx_leave V self)
      else Option.bind (nn_sock_getopt_inner V T fds level option optvallen self)
        (\<lambda>(r, self). map_option (Pair r) (nn_ctx_leave V self)))"

end
