(* ===== verification/Nn_Sock_Spec.thy ===== *)
theory Nn_Sock_Spec
  imports Nn_Sock
begin

text \<open>
  The contract between the core and a socket type, the locale \<open>socket_type\<close>, and what the socket keeps over any type that honours it: the
  descriptors say what can be received and sent, endpoints are accounted for, and the socket type is destroyed once, after all endpoints.
\<close>

section \<open>The contract\<close>

text \<open>
  When a state of the socket type is in order, and what may be asked of it then; which states it can be in while it is stopping, and what ends
  them.
\<close>

record 'b contract =
  c_ok :: "'b \<Rightarrow> bool"
  c_msg :: "msg \<Rightarrow> bool"
  c_opt :: "int \<Rightarrow> int \<Rightarrow> int \<Rightarrow> bool"
  c_start :: "nat \<Rightarrow> 'b \<Rightarrow> bool"
  c_in :: "nat \<Rightarrow> 'b \<Rightarrow> bool"
  c_out :: "nat \<Rightarrow> 'b \<Rightarrow> bool"
  c_rm :: "nat \<Rightarrow> 'b \<Rightarrow> bool"
  c_timer :: "timer_src \<Rightarrow> 'b \<Rightarrow> bool"
  c_left :: "'b \<Rightarrow> bool"
  c_last :: timer_src

locale socket_type =
  fixes V :: "'b vfptr" and C :: "'b contract"
  assumes send_ok: "c_ok C b \<Longrightarrow> c_msg C m \<Longrightarrow> \<exists>rc b'. v_send V m b = Some (rc, b') \<and> rc \<le> 0 \<and> c_ok C b'"
    and recv_ok: "c_ok C b \<Longrightarrow> \<exists>rc r b'. v_recv V b = Some (rc, r, b') \<and> rc \<le> 0 \<and> c_ok C b'"
    and opt_ok: "c_ok C b \<Longrightarrow> c_opt C level option v \<Longrightarrow> c_ok C (snd (v_setopt V level option v len b))"
    and start_ok: "c_ok C b \<Longrightarrow> c_start C p b \<Longrightarrow>
      \<exists>b1 b2 b3. v_started V p b = Some b1 \<and> v_add V p b1 = Some (0, b2) \<and> v_out V p b2 = Some b3 \<and> c_ok C b3"
    and in_ok: "c_ok C b \<Longrightarrow> c_in C p b \<Longrightarrow> \<exists>b1 b2. v_received V p b = Some b1 \<and> v_in V p b1 = Some b2 \<and> c_ok C b2"
    and out_ok: "c_ok C b \<Longrightarrow> c_out C p b \<Longrightarrow> \<exists>b1 b2. v_sent V p b = Some b1 \<and> v_out V p b1 = Some b2 \<and> c_ok C b2"
    and rm_ok: "c_ok C b \<Longrightarrow> c_rm C p b \<Longrightarrow> \<exists>b'. v_rm V p b = Some b' \<and> c_ok C b'"
    and timer_ok: "c_ok C b \<Longrightarrow> c_timer C src b \<Longrightarrow> \<exists>b'. v_timer V src b = Some (b', False) \<and> c_ok C b'"
    and stop_ok: "c_ok C b \<Longrightarrow> v_stop V = Some stop \<Longrightarrow> \<exists>b' now. stop b = Some (b', now) \<and> (\<not> now \<longrightarrow> c_left C b')"
    and left_ok: "c_left C b \<Longrightarrow> \<exists>b'. v_timer V src b = Some (b', src = c_last C) \<and> (src \<noteq> c_last C \<longrightarrow> c_left C b')"

section \<open>Everything that can happen\<close>

text \<open>
  A call of the user, where one that would wait returns; a transport that has stopped an endpoint; a pipe that starts, becomes readable or
  writable again, or goes away; the worker thread of a timer.
\<close>

datatype sock_op =
    So_send msg | So_recv | So_setopt int int bytes | So_add_ep bool string | So_rm_ep int | So_zombify | So_stop | So_ep_stopped int |
    So_start nat | So_in nat | So_out nat | So_rm nat | So_timer timer_src

fun sock_do :: "'b vfptr \<Rightarrow> 'o transports \<Rightarrow> sock_op \<Rightarrow> ('b, 'o) sock \<Rightarrow> ('b, 'o) sock option" where
  "sock_do V T (So_send m) k = map_option snd (nn_sock_send V m True 0 [] k)"
| "sock_do V T So_recv k = map_option (\<lambda>(r, m, k). k) (nn_sock_recv V True 0 [] k)"
| "sock_do V T (So_setopt level option val) k = map_option snd (nn_sock_setopt V T level option val k)"
| "sock_do V T (So_add_ep bind addr) k = map_option snd (nn_sock_add_ep V T bind addr k)"
| "sock_do V T (So_rm_ep eid) k = map_option snd (nn_sock_rm_ep V T eid k)"
| "sock_do V T So_zombify k = nn_sock_zombify V k"
| "sock_do V T So_stop k = nn_sock_stop V T k"
| "sock_do V T (So_ep_stopped eid) k = nn_ep_stopped V eid k"
| "sock_do V T (So_start p) k = pipe_start V p k"
| "sock_do V T (So_in p) k = pipe_received V p k"
| "sock_do V T (So_out p) k = pipe_sent V p k"
| "sock_do V T (So_rm p) k = pipe_stop V p k"
| "sock_do V T (So_timer src) k = sock_timer V src k"

text \<open>
  When each may happen. The user calls until \<open>nn_close\<close>; pipes start, get messages, can send again and go away, and endpoints stop, until the
  last endpoint has stopped; the timer comes as long as the socket type is there. What the user may send and which options may be set is
  up to the socket type.
\<close>

definition base_has :: "('b \<Rightarrow> bool) \<Rightarrow> ('b, 'o) sock \<Rightarrow> bool" where
  "base_has P k \<longleftrightarrow> (case k_base k of None \<Rightarrow> False | Some b \<Rightarrow> P b)"

definition open_state :: "('b, 'o) sock \<Rightarrow> bool" where
  "open_state k \<longleftrightarrow> k_state k = SOCK_ACTIVE \<or> k_state k = SOCK_ZOMBIE"

definition with_eps :: "('b, 'o) sock \<Rightarrow> bool" where
  "with_eps k \<longleftrightarrow> open_state k \<or> k_state k = SOCK_STOPPING_EPS"

fun sock_can :: "'b contract \<Rightarrow> sock_op \<Rightarrow> nat set \<Rightarrow> ('b, 'o) sock \<Rightarrow> bool" where
  "sock_can C (So_send m) P k \<longleftrightarrow> open_state k \<and> c_msg C m"
| "sock_can C So_recv P k \<longleftrightarrow> open_state k"
| "sock_can C (So_setopt level option val) P k \<longleftrightarrow> open_state k \<and> (level > 0 \<longrightarrow> c_opt C level option (bytes_int val))"
| "sock_can C (So_add_ep bind addr) P k \<longleftrightarrow> open_state k \<and> length addr \<le> 128"
| "sock_can C (So_rm_ep eid) P k \<longleftrightarrow> open_state k"
| "sock_can C So_zombify P k \<longleftrightarrow> k_state k = SOCK_ACTIVE"
| "sock_can C So_stop P k \<longleftrightarrow> open_state k"
| "sock_can C (So_ep_stopped eid) P k \<longleftrightarrow> with_eps k \<and> eid \<in> ep_eid ` set (k_sdeps k)"
| "sock_can C (So_start p) P k \<longleftrightarrow> with_eps k \<and> p \<notin> P \<and> base_has (c_start C p) k"
| "sock_can C (So_in p) P k \<longleftrightarrow> with_eps k \<and> p \<in> P \<and> base_has (c_in C p) k"
| "sock_can C (So_out p) P k \<longleftrightarrow> with_eps k \<and> p \<in> P \<and> base_has (c_out C p) k"
| "sock_can C (So_rm p) P k \<longleftrightarrow> k_state k \<noteq> SOCK_STOPPING \<and> p \<in> P \<and> base_has (c_rm C p) k"
| "sock_can C (So_timer src) P k \<longleftrightarrow>
     with_eps k \<and> base_has (c_timer C src) k \<or> k_state k = SOCK_STOPPING"

text \<open>
  What comes too late: once \<open>nn_term\<close> was called the state machine has no case for what the pipes and the endpoints raise, and while the endpoints
  are being stopped none for what the pipes raise.
\<close>

definition too_late :: "'o transports \<Rightarrow> sock_op \<Rightarrow> ('b, 'o) sock \<Rightarrow> bool" where
  "too_late T op k \<longleftrightarrow>
     (case op of
        So_start p \<Rightarrow> k_state k \<noteq> SOCK_ACTIVE
      | So_in p \<Rightarrow> k_state k \<noteq> SOCK_ACTIVE
      | So_out p \<Rightarrow> k_state k \<noteq> SOCK_ACTIVE
      | So_ep_stopped eid \<Rightarrow> k_state k = SOCK_ZOMBIE
      | So_rm_ep eid \<Rightarrow> k_state k = SOCK_ZOMBIE \<and> eid \<in> ep_eid ` set (k_eps k) \<and> tp_stops T eid
      | _ \<Rightarrow> False)"

fun ep_stops :: "'b vfptr \<Rightarrow> int list \<Rightarrow> ('b, 'o) sock \<Rightarrow> ('b, 'o) sock option" where
  "ep_stops V [] k = Some k"
| "ep_stops V (eid # eids) k = Option.bind (nn_ep_stopped V eid k) (ep_stops V eids)"

text \<open>The pipes that belong to the socket.\<close>

fun pipes_after :: "sock_op \<Rightarrow> nat set \<Rightarrow> nat set" where
  "pipes_after (So_start p) P = insert p P"
| "pipes_after (So_rm p) P = P - {p}"
| "pipes_after _ P = P"

inductive sock_reach :: "'b vfptr \<Rightarrow> 'b contract \<Rightarrow> 'o transports \<Rightarrow> nat set \<Rightarrow> ('b, 'o) sock \<Rightarrow> bool" for V C T where
  reach_start: "nn_sock_init st name b = Some k0 \<Longrightarrow> c_ok C b \<Longrightarrow> nn_ctx_leave V k0 = Some k \<Longrightarrow> sock_reach V C T {} k"
| reach_step: "sock_reach V C T P k \<Longrightarrow> sock_can C op P k \<Longrightarrow> sock_do V T op k = Some k' \<Longrightarrow> sock_reach V C T (pipes_after op P) k'"

section \<open>The invariant\<close>

definition eps_good :: "int \<Rightarrow> ep list \<Rightarrow> ep list \<Rightarrow> bool" where
  "eps_good n es ds \<longleftrightarrow> distinct (map ep_eid (es @ ds)) \<and> (\<forall>e \<in> set (es @ ds). ep_eid e < n) \<and>
     (\<forall>e \<in> set es. ep_fsm e = FSM_ACTIVE \<and> ep_state e = EP_ACTIVE) \<and>
     (\<forall>e \<in> set ds. ep_fsm e = FSM_STOPPING \<and> ep_state e = EP_STOPPING)"

definition eps_ok :: "('b, 'o) sock \<Rightarrow> bool" where
  "eps_ok k \<longleftrightarrow> eps_good (k_eid k) (k_eps k) (k_sdeps k)"

definition stopping_ep :: "ep \<Rightarrow> ep" where
  "stopping_ep e = e\<lparr>ep_fsm := FSM_STOPPING, ep_state := EP_STOPPING\<rparr>"

lemma stopping_ep_simps [simp]:
  "ep_eid (stopping_ep e) = ep_eid e" "ep_fsm (stopping_ep e) = FSM_STOPPING" "ep_state (stopping_ep e) = EP_STOPPING"
  by (simp_all add: stopping_ep_def)

lemma eps_good_alt:
  "eps_good n es ds \<longleftrightarrow> distinct (map ep_eid es) \<and> distinct (map ep_eid ds) \<and> (\<forall>x \<in> set es. \<forall>y \<in> set ds. ep_eid x \<noteq> ep_eid y) \<and>
     (\<forall>e \<in> set es. ep_eid e < n \<and> ep_fsm e = FSM_ACTIVE \<and> ep_state e = EP_ACTIVE) \<and>
     (\<forall>e \<in> set ds. ep_eid e < n \<and> ep_fsm e = FSM_STOPPING \<and> ep_state e = EP_STOPPING)"
  unfolding eps_good_def by auto

lemma eps_good_add:
  assumes "eps_good n es ds" "ep_eid e = n" "ep_fsm e = FSM_ACTIVE" "ep_state e = EP_ACTIVE"
  shows "eps_good (n + 1) (es @ [e]) ds"
proof -
  have "n \<notin> ep_eid ` set es" "\<forall>y \<in> set ds. n \<noteq> ep_eid y" using assms(1) unfolding eps_good_alt by auto
  then show ?thesis using assms unfolding eps_good_alt by (auto intro: less_trans [of _ n "n + 1"])
qed

lemma eps_good_drop: "eps_good n es ds \<Longrightarrow> eps_good n es (filter P ds)"
  unfolding eps_good_alt by (simp add: distinct_map_filter)

lemma eps_good_move:
  assumes "eps_good n es ds" "e \<in> set es"
  shows "eps_good n (filter (\<lambda>x. ep_eid x \<noteq> ep_eid e) es) (ds @ [stopping_ep e])"
proof -
  have "ep_eid e \<notin> ep_eid ` set ds" "ep_eid e < n" using assms unfolding eps_good_alt by auto
  then show ?thesis using assms(1) unfolding eps_good_alt by (auto simp: distinct_map_filter)
qed

lemma eps_good_all: "eps_good n es ds \<Longrightarrow> eps_good n [] (ds @ map stopping_ep es)"
  unfolding eps_good_alt by (auto simp: comp_def) metis

definition fds_open :: "('b, 'o) sock \<Rightarrow> bool" where
  "fds_open k \<longleftrightarrow> k_rcvfd k = (if st_norecv (k_type k) then None else Some (k_in k)) \<and>
     k_sndfd k = (if st_nosend (k_type k) then None else Some (k_out k))"

definition polled :: "'b vfptr \<Rightarrow> ('b, 'o) sock \<Rightarrow> bool" where
  "polled V k \<longleftrightarrow> (\<not> st_norecv (k_type k) \<longrightarrow> base_has (\<lambda>b. k_in k = fst (v_events V b)) k) \<and>
     (\<not> st_nosend (k_type k) \<longrightarrow> base_has (\<lambda>b. k_out k = snd (v_events V b)) k)"

text \<open>What depends on the state of the socket.\<close>

definition state_ok :: "'b vfptr \<Rightarrow> 'b contract \<Rightarrow> ('b, 'o) sock \<Rightarrow> bool" where
  "state_ok V C k \<longleftrightarrow>
     (case k_state k of
        SOCK_ACTIVE \<Rightarrow> k_fsm k = FSM_ACTIVE \<and> base_has (c_ok C) k \<and> fds_open k \<and> k_termsem k = 0
      | SOCK_ZOMBIE \<Rightarrow> k_fsm k = FSM_ACTIVE \<and> base_has (c_ok C) k \<and> fds_open k \<and> k_termsem k = 0
      | SOCK_STOPPING_EPS \<Rightarrow> k_fsm k = FSM_STOPPING \<and> base_has (c_ok C) k \<and> k_eps k = [] \<and> k_sdeps k \<noteq> [] \<and> k_termsem k = 0
      | SOCK_STOPPING \<Rightarrow> k_fsm k = FSM_STOPPING \<and> base_has (c_left C) k \<and> k_eps k = [] \<and> k_sdeps k = [] \<and> v_stop V \<noteq> None \<and> k_termsem k = 0
      | SOCK_INIT \<Rightarrow> k_fsm k = FSM_STOPPING \<and> k_base k = None \<and> k_eps k = [] \<and> k_sdeps k = [] \<and> k_termsem k = 1)"

definition sock_ok :: "'b vfptr \<Rightarrow> 'b contract \<Rightarrow> nat set \<Rightarrow> ('b, 'o) sock \<Rightarrow> bool" where
  "sock_ok V C P k \<longleftrightarrow> state_ok V C k \<and> eps_ok k \<and> finite P \<and> k_stat k CURRENT_CONNECTIONS = int (card P) \<and>
     (k_state k = SOCK_ACTIVE \<longrightarrow> polled V k) \<and> k_events k = []"

lemma base_has_Some [simp]: "k_base k = Some b \<Longrightarrow> base_has P k \<longleftrightarrow> P b"
  by (simp add: base_has_def)

lemma base_hasE: "base_has P k \<Longrightarrow> (\<And>b. k_base k = Some b \<Longrightarrow> P b \<Longrightarrow> thesis) \<Longrightarrow> thesis"
  by (auto simp: base_has_def split: option.splits)

lemma state_ok_open: "open_state k \<Longrightarrow> state_ok V C k \<longleftrightarrow> k_fsm k = FSM_ACTIVE \<and> base_has (c_ok C) k \<and> fds_open k \<and> k_termsem k = 0"
  by (auto simp: open_state_def state_ok_def)

section \<open>Leaving\<close>

lemma process_none [simp]: "k_events k = [] \<Longrightarrow> process_events V k = Some k"
  by (simp add: process_events.simps)

lemma onleave_idle: "k_state k \<noteq> SOCK_ACTIVE \<Longrightarrow> nn_sock_onleave V k = Some k"
  by (simp add: nn_sock_onleave_def)

lemma adjust_efd_ok: "adjust_efd e flag (Some flag) = Some (e, Some e)"
  by (simp add: adjust_efd_def nn_efd_signal_def nn_efd_unsignal_def)

text \<open>Leaving an active socket adjusts the descriptors and nothing else.\<close>

definition fds_set :: "bool \<Rightarrow> bool option \<Rightarrow> bool \<Rightarrow> bool option \<Rightarrow> ('b, 'o) sock \<Rightarrow> ('b, 'o) sock" where
  "fds_set i rfd o' sfd k = k\<lparr>k_in := i, k_rcvfd := rfd, k_out := o', k_sndfd := sfd\<rparr>"

lemma onleave_active:
  assumes "k_state k = SOCK_ACTIVE" "k_base k = Some b" "fds_open k"
  shows "\<exists>i o' rfd sfd. nn_sock_onleave V k = Some (fds_set i rfd o' sfd k) \<and> fds_open (fds_set i rfd o' sfd k) \<and> polled V (fds_set i rfd o' sfd k)"
proof -
  define i where "i = (if st_norecv (k_type k) then k_in k else fst (v_events V b))"
  define o' where "o' = (if st_nosend (k_type k) then k_out k else snd (v_events V b))"
  define rfd where "rfd = (if st_norecv (k_type k) then None else Some i)"
  define sfd where "sfd = (if st_nosend (k_type k) then None else Some o')"
  have r: "(if st_norecv (k_type k) then Some (k_in k, k_rcvfd k) else adjust_efd (fst (v_events V b)) (k_in k) (k_rcvfd k)) = Some (i, rfd)"
    using assms(3) by (simp add: fds_open_def adjust_efd_ok i_def rfd_def)
  have s: "(if st_nosend (k_type k) then Some (k_out k, k_sndfd k) else adjust_efd (snd (v_events V b)) (k_out k) (k_sndfd k)) = Some (o', sfd)"
    using assms(3) by (simp add: fds_open_def adjust_efd_ok o'_def sfd_def)
  have "nn_sock_onleave V k = Some (fds_set i rfd o' sfd k)"
    by (simp only: nn_sock_onleave_def assms(1,2) r s option.case prod.case fds_set_def simp_thms if_False)
  moreover have "fds_open (fds_set i rfd o' sfd k)" by (simp add: fds_open_def fds_set_def rfd_def sfd_def)
  moreover have "polled V (fds_set i rfd o' sfd k)" using assms(2) by (simp add: polled_def fds_set_def base_has_def i_def o'_def)
  ultimately show ?thesis by blast
qed

text \<open>What holds just before leaving, when all events have been processed.\<close>

definition inside_ok :: "'b vfptr \<Rightarrow> 'b contract \<Rightarrow> nat set \<Rightarrow> ('b, 'o) sock \<Rightarrow> bool" where
  "inside_ok V C P k \<longleftrightarrow> state_ok V C k \<and> eps_ok k \<and> finite P \<and> k_stat k CURRENT_CONNECTIONS = int (card P) \<and> k_events k = []"

lemma sock_ok_inside: "sock_ok V C P k \<Longrightarrow> inside_ok V C P k"
  by (simp add: sock_ok_def inside_ok_def)

lemma sock_leave_ok:
  assumes "inside_ok V C P k"
  shows "\<exists>k'. nn_ctx_leave V k = Some k' \<and> sock_ok V C P k' \<and> k_state k' = k_state k \<and> k_base k' = k_base k \<and> k_eps k' = k_eps k \<and>
    k_sdeps k' = k_sdeps k \<and> k_termsem k' = k_termsem k \<and> k_opts k' = k_opts k \<and> k_fsm k' = k_fsm k"
proof (cases "k_state k = SOCK_ACTIVE")
  case False
  then show ?thesis using assms by (simp add: nn_ctx_leave_def inside_ok_def onleave_idle sock_ok_def)
next
  case True
  then obtain b where b: "k_base k = Some b" "fds_open k" using assms by (auto simp: inside_ok_def state_ok_def elim!: base_hasE)
  from onleave_active [OF True b, of V] obtain i o' rfd sfd where
    l: "nn_sock_onleave V k = Some (fds_set i rfd o' sfd k)" "fds_open (fds_set i rfd o' sfd k)" "polled V (fds_set i rfd o' sfd k)" by blast
  have "sock_ok V C P (fds_set i rfd o' sfd k)" using assms l(2,3) True b(1)
    by (simp add: sock_ok_def inside_ok_def state_ok_def eps_ok_def eps_good_def fds_set_def base_has_def)
  moreover have "nn_ctx_leave V k = Some (fds_set i rfd o' sfd k)" using assms l(1) by (simp add: nn_ctx_leave_def inside_ok_def)
  ultimately show ?thesis by (intro exI [of _ "fds_set i rfd o' sfd k"]) (simp add: fds_set_def)
qed

text \<open>Putting another good state of the socket type into an open socket.\<close>

lemma with_base_ok:
  assumes "inside_ok V C P k" "open_state k \<or> k_state k = SOCK_STOPPING_EPS" "c_ok C b"
  shows "inside_ok V C P (k\<lparr>k_base := Some b\<rparr>)"
  using assms by (auto simp: inside_ok_def state_ok_def eps_ok_def eps_good_def open_state_def fds_open_def base_has_def)

lemma open_base: "inside_ok V C P k \<Longrightarrow> open_state k \<or> k_state k = SOCK_STOPPING_EPS \<Longrightarrow> \<exists>b. k_base k = Some b \<and> c_ok C b"
  by (auto simp: inside_ok_def state_ok_def open_state_def elim!: base_hasE)

section \<open>The end of endpoints\<close>

lemma process_events_Cons:
  "k_events k = e # es \<Longrightarrow> process_events V k = Option.bind (sock_feed V e (k\<lparr>k_events := es\<rparr>)) (process_events V)"
  by (subst process_events.simps) (simp split: option.split)

definition idle_ep :: "ep \<Rightarrow> ep" where
  "idle_ep e = e\<lparr>ep_state := EP_IDLE, ep_fsm := FSM_IDLE\<rparr>"

definition idle_in :: "int set \<Rightarrow> ep list \<Rightarrow> ep list" where
  "idle_in ds = map (\<lambda>e. if ep_eid e \<in> ds then idle_ep e else e)"

lemma idle_ep_simps [simp]: "ep_eid (idle_ep e) = ep_eid e" "nn_ep_term (idle_ep e)"
  by (simp_all add: idle_ep_def nn_ep_term_def)

lemma idle_in_Cons [simp]: "idle_in ds [] = []" "idle_in ds (e # es) = (if ep_eid e \<in> ds then idle_ep e else e) # idle_in ds es"
  by (simp_all add: idle_in_def)

lemma idle_in_simps [simp]: "map ep_eid (idle_in ds es) = map ep_eid es" "idle_in {} es = es" "idle_in ds es = [] \<longleftrightarrow> es = []"
  by (induction es) auto

lemma eid_idle_in [simp]: "ep_eid ` set (idle_in ds es) = ep_eid ` set es"
  by (simp only: set_map [symmetric] idle_in_simps)

lemma in_idle_in: "e \<in> set es \<Longrightarrow> (if ep_eid e \<in> ds then idle_ep e else e) \<in> set (idle_in ds es)"
  by (auto simp: idle_in_def)

lemma idle_in_other: "e \<in> set (idle_in ds es) \<Longrightarrow> ep_eid e \<notin> ds \<Longrightarrow> e \<in> set es"
  by (auto simp: idle_in_def split: if_splits)

lemma idle_in_twice: "idle_in ds (idle_in es xs) = idle_in (ds \<union> es) xs"
  by (induction xs) (auto simp: idle_ep_def)

lemma idle_in_none: "(\<And>e. e \<in> set xs \<Longrightarrow> ep_eid e \<notin> ds) \<Longrightarrow> idle_in ds xs = xs"
  by (induction xs) auto

lemma filter_idle_in: "filter (\<lambda>e. ep_eid e \<noteq> d) (idle_in ds xs) = idle_in ds (filter (\<lambda>e. ep_eid e \<noteq> d) xs)"
  by (induction xs) auto

lemma idle_one: "distinct (map ep_eid xs) \<Longrightarrow> e \<in> set xs \<Longrightarrow> map (\<lambda>x. if ep_eid x = ep_eid e then idle_ep e else x) xs = idle_in {ep_eid e} xs"
proof (induction xs)
  case (Cons x xs)
  then have "x = e \<or> ep_eid x \<noteq> ep_eid e" by force
  then show ?case
  proof
    assume "x = e"
    then have "ep_eid e \<notin> ep_eid ` set xs" using Cons.prems(1) by simp
    then have "\<forall>y \<in> set xs. ep_eid y \<noteq> ep_eid e" by (metis imageI)
    then have "map (\<lambda>x. if ep_eid x = ep_eid e then idle_ep e else x) xs = xs" "idle_in {ep_eid e} xs = xs"
      by (auto intro!: map_idI idle_in_none)
    then show ?thesis using \<open>x = e\<close> by simp
  qed (use Cons in auto)
qed simp

lemma find_eid:
  "distinct (map ep_eid es) \<Longrightarrow> e \<in> set es \<Longrightarrow> find (\<lambda>d. ep_eid d = ep_eid e) es = Some e"
  by (induction es) force+

text \<open>The transports' reports come first: each endpoint becomes idle and tells the socket, behind what is queued already.\<close>

lemma process_dones:
  assumes "distinct ds" "set ds \<subseteq> ep_eid ` set (k_sdeps k)" "distinct (map ep_eid (k_sdeps k))"
    "\<forall>e \<in> set (k_sdeps k). ep_eid e \<in> set ds \<longrightarrow> ep_fsm e = FSM_STOPPING \<and> ep_state e = EP_STOPPING"
  shows "process_events V (k\<lparr>k_events := map Ep_done ds @ es\<rparr>) =
    process_events V (k\<lparr>k_sdeps := idle_in (set ds) (k_sdeps k), k_events := es @ map Ep_stopped ds\<rparr>)"
  using assms
proof (induction ds arbitrary: k es)
  case Nil
  show ?case by simp
next
  case (Cons d ds)
  then obtain e where e: "e \<in> set (k_sdeps k)" "ep_eid e = d" by auto
  let ?k = "k\<lparr>k_sdeps := idle_in {d} (k_sdeps k)\<rparr>"
  have "find (\<lambda>x. ep_eid x = d) (k_sdeps k) = Some e" using find_eid [OF Cons.prems(3) e(1)] e(2) by simp
  moreover have "ep_fsm e = FSM_STOPPING" "ep_state e = EP_STOPPING" using Cons.prems(4) e by auto
  moreover have "map (\<lambda>x. if ep_eid x = d then idle_ep e else x) (k_sdeps k) = idle_in {d} (k_sdeps k)"
    using idle_one [OF Cons.prems(3) e(1)] e(2) by simp
  ultimately have "process_events V (k\<lparr>k_events := map Ep_done (d # ds) @ es\<rparr>) =
      process_events V (?k\<lparr>k_events := map Ep_done ds @ (es @ [Ep_stopped d])\<rparr>)"
    by (simp add: process_events_Cons sock_feed_def ep_done_def nn_ep_shutdown_def idle_ep_def [symmetric])
  also have "\<dots> = process_events V (?k\<lparr>k_sdeps := idle_in (set ds) (k_sdeps ?k), k_events := (es @ [Ep_stopped d]) @ map Ep_stopped ds\<rparr>)"
  proof (rule Cons.IH)
    show "distinct ds" "set ds \<subseteq> ep_eid ` set (k_sdeps ?k)" "distinct (map ep_eid (k_sdeps ?k))" using Cons.prems(1-3) by simp_all
    have "d \<notin> set ds" using Cons.prems(1) by simp
    then show "\<forall>e \<in> set (k_sdeps ?k). ep_eid e \<in> set ds \<longrightarrow> ep_fsm e = FSM_STOPPING \<and> ep_state e = EP_STOPPING"
      using Cons.prems(4) idle_in_other [of _ "{d}" "k_sdeps k"] by fastforce
  qed
  also have "idle_in (set ds) (k_sdeps ?k) = idle_in (set (d # ds)) (k_sdeps k)" 
    using idle_in_twice [of "set ds" "{d}" "k_sdeps k"] by simp
  finally show ?case by simp
qed

text \<open>An idle endpoint is deallocated.\<close>

lemma erase_idle:
  assumes "distinct (map ep_eid (k_sdeps k))" "e \<in> set (k_sdeps k)" "nn_ep_term e"
  shows "erase_sdep (ep_eid e) k = Some (k\<lparr>k_sdeps := filter (\<lambda>d. ep_eid d \<noteq> ep_eid e) (k_sdeps k)\<rparr>)"
  using find_eid [OF assms(1,2)] assms(3) by (simp add: erase_sdep_def)

text \<open>In an active socket one endpoint that has stopped goes, and nothing else changes.\<close>

definition drop_sdep :: "int \<Rightarrow> ('b, 'o) sock \<Rightarrow> ('b, 'o) sock" where
  "drop_sdep eid k = k\<lparr>k_sdeps := filter (\<lambda>e. ep_eid e \<noteq> eid) (k_sdeps k)\<rparr>"

lemma drop_sdep_events: "drop_sdep eid (k\<lparr>k_events := es\<rparr>) = (drop_sdep eid k)\<lparr>k_events := es\<rparr>"
  by (cases k) (simp add: drop_sdep_def)

lemma process_done_active:
  assumes "k_state k = SOCK_ACTIVE" "k_fsm k = FSM_ACTIVE" "k_base k = Some b" "eps_ok k" "eid \<in> ep_eid ` set (k_sdeps k)"
  shows "process_events V (k\<lparr>k_events := [Ep_done eid]\<rparr>) = Some (drop_sdep eid k\<lparr>k_events := []\<rparr>)"
proof -
  from assms(5) obtain e where e: "e \<in> set (k_sdeps k)" "ep_eid e = eid" by auto
  have d: "distinct (map ep_eid (k_sdeps k))" using assms(4) by (simp add: eps_ok_def eps_good_def)
  let ?k = "k\<lparr>k_sdeps := idle_in {eid} (k_sdeps k), k_events := []\<rparr>"
  have "process_events V (k\<lparr>k_events := [Ep_done eid]\<rparr>) = process_events V (?k\<lparr>k_events := [Ep_stopped eid]\<rparr>)"
    using process_dones [of "[eid]" k V "[]"] assms(4) e by (auto simp: eps_ok_def eps_good_def)
  also have "\<dots> = Option.bind (erase_sdep eid ?k) (process_events V)"
    using assms(1-3) by (simp add: process_events_Cons sock_feed_def nn_sock_handler_def)
  also have "erase_sdep eid ?k = Some (drop_sdep eid k\<lparr>k_events := []\<rparr>)"
  proof -
    have "idle_ep e \<in> set (k_sdeps ?k)" using in_idle_in [OF e(1), of "{eid}"] e(2) by simp
    from erase_idle [OF _ this] have "erase_sdep eid ?k = Some (?k\<lparr>k_sdeps := filter (\<lambda>x. ep_eid x \<noteq> eid) (idle_in {eid} (k_sdeps k))\<rparr>)"
      using d e(2) by simp
    also have "filter (\<lambda>x. ep_eid x \<noteq> eid) (idle_in {eid} (k_sdeps k)) = filter (\<lambda>x. ep_eid x \<noteq> eid) (k_sdeps k)"
      unfolding filter_idle_in by (rule idle_in_none) simp
    finally show ?thesis by (simp add: drop_sdep_def)
  qed
  finally show ?thesis by simp
qed

text \<open>
  In a socket that is being closed, each endpoint that has stopped goes; the last one lets the socket type stop, and with it, at once or later,
  the socket.
\<close>

lemma stopping_end:
  assumes "k_state k = SOCK_STOPPING_EPS" "k_fsm k = FSM_STOPPING" "k_base k = Some b" "k_eps k = []" "k_sdeps k = []" "k_events k = []"
    "k_termsem k = 0" "\<And>stop. v_stop V = Some stop \<Longrightarrow> \<exists>b' now. stop b = Some (b', now) \<and> (\<not> now \<longrightarrow> c_left C b')"
  shows "\<exists>k'. Option.bind (sock_finish2 V k) (process_events V) = Some k' \<and> state_ok V C k' \<and> k_eps k' = [] \<and> k_sdeps k' = [] \<and>
    k_events k' = [] \<and> k_stat k' = k_stat k \<and> k_eid k' = k_eid k \<and> k_state k' \<in> {SOCK_STOPPING, SOCK_INIT} \<and> (v_stop V = None \<longrightarrow> k_state k' = SOCK_INIT)"
proof (cases "v_stop V")
  case None
  then show ?thesis using assms by (simp add: sock_finish2_def sock_finish1_def state_ok_def)
next
  case (Some stop)
  with assms(8) obtain b' now where s: "stop b = Some (b', now)" "\<not> now \<longrightarrow> c_left C b'" by blast
  show ?thesis
  proof (cases now)
    case True
    then show ?thesis using assms Some s
      by (simp add: sock_finish2_def process_events_Cons sock_feed_def nn_sock_shutdown_def sock_finish1_def state_ok_def)
  next
    case False
    then show ?thesis using assms Some s by (simp add: sock_finish2_def state_ok_def)
  qed
qed

lemma process_stopped:
  assumes "k_state k = SOCK_STOPPING_EPS" "k_fsm k = FSM_STOPPING" "k_base k = Some b" "k_eps k = []" "k_sdeps k \<noteq> []"
    "k_termsem k = 0" "\<And>stop. v_stop V = Some stop \<Longrightarrow> \<exists>b' now. stop b = Some (b', now) \<and> (\<not> now \<longrightarrow> c_left C b')" "c_ok C b"
    "distinct ss" "set ss \<subseteq> ep_eid ` set (k_sdeps k)" "distinct (map ep_eid (k_sdeps k))"
    "\<forall>e \<in> set (k_sdeps k). ep_eid e \<in> set ss \<longrightarrow> nn_ep_term e"
  shows "\<exists>k'. process_events V (k\<lparr>k_events := map Ep_stopped ss\<rparr>) = Some k' \<and> state_ok V C k' \<and> k_eps k' = [] \<and>
    k_sdeps k' = filter (\<lambda>e. ep_eid e \<notin> set ss) (k_sdeps k) \<and> k_events k' = [] \<and> k_stat k' = k_stat k \<and> k_eid k' = k_eid k \<and>
    (if k_sdeps k' \<noteq> [] then k_state k' = SOCK_STOPPING_EPS else k_state k' \<in> {SOCK_STOPPING, SOCK_INIT} \<and>
      (v_stop V = None \<longrightarrow> k_state k' = SOCK_INIT))"
  using assms
proof (induction ss arbitrary: k)
  case Nil
  then show ?case by (simp add: state_ok_def)
next
  case (Cons s ss)
  then obtain e where e: "e \<in> set (k_sdeps k)" "ep_eid e = s" "nn_ep_term e" by auto
  let ?k = "(drop_sdep s k)\<lparr>k_events := map Ep_stopped ss\<rparr>"
  have f: "process_events V (k\<lparr>k_events := map Ep_stopped (s # ss)\<rparr>) = Option.bind (sock_finish2 V ?k) (process_events V)"
    using erase_idle [of "k\<lparr>k_events := map Ep_stopped ss\<rparr>" e] e Cons.prems(1,2,11)
    unfolding drop_sdep_events [symmetric] by (simp add: process_events_Cons sock_feed_def nn_sock_shutdown_def drop_sdep_def)
  show ?case
  proof (cases "k_sdeps ?k = []")
    case True
    have all: "ep_eid d = s" if "d \<in> set (k_sdeps k)" for d using True that by (auto simp: drop_sdep_def filter_empty_conv)
    have "ss = []" using Cons.prems(9,10) all by (cases ss) auto
    then have "\<exists>k'. Option.bind (sock_finish2 V ?k) (process_events V) = Some k' \<and> state_ok V C k' \<and> k_eps k' = [] \<and> k_sdeps k' = [] \<and>
      k_events k' = [] \<and> k_stat k' = k_stat ?k \<and> k_eid k' = k_eid ?k \<and> k_state k' \<in> {SOCK_STOPPING, SOCK_INIT} \<and> (v_stop V = None \<longrightarrow> k_state k' = SOCK_INIT)"
      using Cons.prems(1-7) True by (intro stopping_end) (simp_all add: drop_sdep_def)
    moreover have "filter (\<lambda>e. ep_eid e \<notin> set (s # ss)) (k_sdeps k) = []" using all by (auto simp: filter_empty_conv)
    ultimately show ?thesis unfolding f by (auto simp: drop_sdep_def)
  next
    case False
    have sub: "set ss \<subseteq> ep_eid ` set (k_sdeps (drop_sdep s k))" using Cons.prems(9,10) by (fastforce simp: drop_sdep_def)
    have "\<exists>k'. process_events V ((drop_sdep s k)\<lparr>k_events := map Ep_stopped ss\<rparr>) = Some k' \<and> state_ok V C k' \<and> k_eps k' = [] \<and>
      k_sdeps k' = filter (\<lambda>e. ep_eid e \<notin> set ss) (k_sdeps (drop_sdep s k)) \<and> k_events k' = [] \<and> k_stat k' = k_stat (drop_sdep s k) \<and> k_eid k' = k_eid (drop_sdep s k) \<and>
      (if k_sdeps k' \<noteq> [] then k_state k' = SOCK_STOPPING_EPS else k_state k' \<in> {SOCK_STOPPING, SOCK_INIT} \<and>
        (v_stop V = None \<longrightarrow> k_state k' = SOCK_INIT))"
      using Cons.prems False sub by (intro Cons.IH) (simp_all add: drop_sdep_def distinct_map_filter)
    then show ?thesis unfolding f using False by (simp add: sock_finish2_def drop_sdep_def conj_commute)
  qed
qed

lemma filter_out_idle: "filter (\<lambda>e. ep_eid e \<notin> ds) (idle_in ds xs) = filter (\<lambda>e. ep_eid e \<notin> ds) xs"
  by (induction xs) auto

lemma process_closing:
  assumes k: "k_state k = SOCK_STOPPING_EPS" "inside_ok V C P k"
    and stop: "\<And>stop b. v_stop V = Some stop \<Longrightarrow> c_ok C b \<Longrightarrow> \<exists>b' now. stop b = Some (b', now) \<and> (\<not> now \<longrightarrow> c_left C b')"
    and ds: "distinct ds" "set ds \<subseteq> ep_eid ` set (k_sdeps k)"
  shows "\<exists>k'. process_events V (k\<lparr>k_events := map Ep_done ds\<rparr>) = Some k' \<and> inside_ok V C P k' \<and>
    k_sdeps k' = filter (\<lambda>e. ep_eid e \<notin> set ds) (k_sdeps k) \<and>
    (if k_sdeps k' \<noteq> [] then k_state k' = SOCK_STOPPING_EPS else k_state k' \<in> {SOCK_STOPPING, SOCK_INIT} \<and>
      (v_stop V = None \<longrightarrow> k_state k' = SOCK_INIT))"
proof -
  from k obtain b where b: "k_fsm k = FSM_STOPPING" "k_base k = Some b" "c_ok C b" "k_eps k = []" "k_sdeps k \<noteq> []" "k_termsem k = 0"
    by (auto simp: inside_ok_def state_ok_def elim!: base_hasE)
  have e: "distinct (map ep_eid (k_sdeps k))" "\<forall>e \<in> set (k_sdeps k). ep_fsm e = FSM_STOPPING \<and> ep_state e = EP_STOPPING"
    using k(2) b(4) by (simp_all add: inside_ok_def eps_ok_def eps_good_def)
  let ?k = "k\<lparr>k_sdeps := idle_in (set ds) (k_sdeps k)\<rparr>"
  have p: "process_events V (k\<lparr>k_events := map Ep_done ds\<rparr>) = process_events V (?k\<lparr>k_events := map Ep_stopped ds\<rparr>)"
    using process_dones [OF ds e(1), of V "[]"] e(2) by simp
  have "nn_ep_term x" if "x \<in> set (idle_in (set ds) (k_sdeps k))" "ep_eid x \<in> set ds" for x
    using that by (auto simp: idle_in_def split: if_splits)
  then have "\<exists>k'. process_events V (?k\<lparr>k_events := map Ep_stopped ds\<rparr>) = Some k' \<and> state_ok V C k' \<and> k_eps k' = [] \<and>
    k_sdeps k' = filter (\<lambda>e. ep_eid e \<notin> set ds) (k_sdeps ?k) \<and> k_events k' = [] \<and> k_stat k' = k_stat ?k \<and> k_eid k' = k_eid ?k \<and>
    (if k_sdeps k' \<noteq> [] then k_state k' = SOCK_STOPPING_EPS else k_state k' \<in> {SOCK_STOPPING, SOCK_INIT} \<and>
      (v_stop V = None \<longrightarrow> k_state k' = SOCK_INIT))"
    using k(1) b ds e(1) stop [OF _ b(3)] by (intro process_stopped) simp_all
  then obtain k' where k': "process_events V (?k\<lparr>k_events := map Ep_stopped ds\<rparr>) = Some k'" "state_ok V C k'" "k_eps k' = []"
    "k_sdeps k' = filter (\<lambda>e. ep_eid e \<notin> set ds) (k_sdeps k)" "k_events k' = []" "k_stat k' = k_stat k \<and> k_eid k' = k_eid k"
    "if k_sdeps k' \<noteq> [] then k_state k' = SOCK_STOPPING_EPS else k_state k' \<in> {SOCK_STOPPING, SOCK_INIT} \<and>
      (v_stop V = None \<longrightarrow> k_state k' = SOCK_INIT)" by (auto simp: filter_out_idle)
  have "inside_ok V C P k'" using k(2) k'(2-6) b(4) eps_good_drop [of "k_eid k" "[]" "k_sdeps k" "\<lambda>e. ep_eid e \<notin> set ds"]
    by (simp add: inside_ok_def eps_ok_def)
  then show ?thesis unfolding p using k' by blast
qed

text \<open>What is left when endpoints have stopped: others, or the socket type, or nothing.\<close>

definition closed_but :: "'b vfptr \<Rightarrow> ep list \<Rightarrow> ('b, 'o) sock \<Rightarrow> bool" where
  "closed_but V es k \<longleftrightarrow> (if es \<noteq> [] then k_state k = SOCK_STOPPING_EPS
     else k_state k \<in> {SOCK_STOPPING, SOCK_INIT} \<and> (v_stop V = None \<longrightarrow> k_state k = SOCK_INIT))"

text \<open>The endpoints that closing waits for.\<close>

definition left_eps :: "'o transports \<Rightarrow> ('b, 'o) sock \<Rightarrow> ep list" where
  "left_eps T k = k_sdeps k @ map stopping_ep (filter (\<lambda>e. \<not> tp_stops T (ep_eid e)) (k_eps k))"

section \<open>Every step keeps the invariant\<close>

context socket_type
begin

lemma send_step:
  assumes ok: "sock_ok V C P k" and "open_state k" "c_msg C m"
  shows "\<exists>r k'. nn_sock_send V m True now [] k = Some (Returned r, k') \<and> sock_ok V C P k'"
proof (cases "st_nosend (k_type k) \<or> k_state k = SOCK_ZOMBIE")
  case True
  then show ?thesis using ok sock_leave_ok [OF sock_ok_inside [OF ok]]
    by (auto simp: nn_sock_send_def sock_send_loop.simps split: prod.split)
next
  case False
  from open_base [OF sock_ok_inside [OF ok]] assms(2) obtain b where b: "k_base k = Some b" "c_ok C b" by blast
  from send_ok [OF b(2) assms(3)] obtain rc b' where s: "v_send V m b = Some (rc, b')" "rc \<le> 0" "c_ok C b'" by blast
  from sock_leave_ok [OF with_base_ok [OF sock_ok_inside [OF ok] disjI1 [OF assms(2)] s(3)]] obtain k' where
    "nn_ctx_leave V (k\<lparr>k_base := Some b'\<rparr>) = Some k'" "sock_ok V C P k'" by blast
  then show ?thesis using False b(1) s(1,2) by (auto simp: nn_sock_send_def sock_send_loop.simps Let_def split: prod.split)
qed

lemma recv_step:
  assumes ok: "sock_ok V C P k" and "open_state k"
  shows "\<exists>r m k'. nn_sock_recv V True now [] k = Some (Returned r, m, k') \<and> sock_ok V C P k'"
proof (cases "st_norecv (k_type k) \<or> k_state k = SOCK_ZOMBIE")
  case True
  then show ?thesis using ok sock_leave_ok [OF sock_ok_inside [OF ok]]
    by (auto simp: nn_sock_recv_def sock_recv_loop.simps split: prod.split)
next
  case False
  from open_base [OF sock_ok_inside [OF ok]] assms(2) obtain b where b: "k_base k = Some b" "c_ok C b" by blast
  from recv_ok [OF b(2)] obtain rc r b' where s: "v_recv V b = Some (rc, r, b')" "rc \<le> 0" "c_ok C b'" by blast
  from sock_leave_ok [OF with_base_ok [OF sock_ok_inside [OF ok] disjI1 [OF assms(2)] s(3)]] obtain k' where
    "nn_ctx_leave V (k\<lparr>k_base := Some b'\<rparr>) = Some k'" "sock_ok V C P k'" by blast
  then show ?thesis using False b(1) s(1,2) by (auto simp: nn_sock_recv_def sock_recv_loop.simps Let_def split: prod.split)
qed

lemma setopt_step:
  assumes ok: "sock_ok V C P k" and "open_state k" "level > 0 \<Longrightarrow> c_opt C level option (bytes_int val)"
  shows "\<exists>rc k'. nn_sock_setopt V T level option val k = Some (rc, k') \<and> sock_ok V C P k'"
proof (cases "k_state k = SOCK_ZOMBIE")
  case True
  then show ?thesis using sock_leave_ok [OF sock_ok_inside [OF ok]] by (auto simp: nn_sock_setopt_def)
next
  case False
  from open_base [OF sock_ok_inside [OF ok]] assms(2) obtain b where b: "k_base k = Some b" "c_ok C b" by blast
  have "\<exists>rc k1. nn_sock_setopt_inner V T level option val k = Some (rc, k1) \<and> inside_ok V C P k1"
  proof (cases "level > NN_SOL_SOCKET")
    case True
    then have "c_ok C (snd (v_setopt V level option (bytes_int val) (length val) b))"
      using opt_ok [OF b(2) assms(3)] by (simp add: NN_SOL_SOCKET_def)
    from with_base_ok [OF sock_ok_inside [OF ok] disjI1 [OF assms(2)] this] show ?thesis using True b(1)
      by (auto simp: nn_sock_setopt_inner_def split: prod.split)
  next
    case False
    have i: "inside_ok V C P (k\<lparr>k_optsets := o1\<rparr>)" "inside_ok V C P (k\<lparr>k_opts := o2\<rparr>)" "inside_ok V C P (k\<lparr>k_name := n\<rparr>)"
      "inside_ok V C P k" "inside_ok V C P (k\<lparr>k_optsets := o1, k_optsets := o3\<rparr>)" for o1 o2 o3 n
      using sock_ok_inside [OF ok] assms(2)
      by (simp_all add: inside_ok_def state_ok_open eps_ok_def fds_open_def base_has_def open_state_def)
    show ?thesis using False i
      by (auto simp: nn_sock_setopt_inner_def nn_sock_optset_def Let_def split: option.splits prod.splits)
  qed
  then show ?thesis using False sock_leave_ok by (fastforce simp: nn_sock_setopt_def)
qed

lemma add_ep_step:
  assumes ok: "sock_ok V C P k" and "open_state k" "length addr \<le> 128"
  shows "\<exists>rc k'. nn_sock_add_ep V T bind addr k = Some (rc, k') \<and> sock_ok V C P k'"
proof (cases "tp_create T bind addr < 0")
  case True
  then show ?thesis using sock_leave_ok [OF sock_ok_inside [OF ok]] assms(3) by (auto simp: nn_sock_add_ep_def Let_def)
next
  case False
  let ?e = "\<lparr>ep_eid = k_eid k, ep_addr = addr, ep_fsm = FSM_ACTIVE, ep_state = EP_ACTIVE, ep_errno = 0\<rparr>"
  let ?k = "k\<lparr>k_eid := k_eid k + 1, k_eps := k_eps k @ [?e]\<rparr>"
  have "eps_ok ?k" using ok eps_good_add [of "k_eid k" "k_eps k" "k_sdeps k" ?e] by (simp add: sock_ok_def eps_ok_def)
  then have "inside_ok V C P ?k" using ok assms(2)
    by (simp add: sock_ok_def inside_ok_def state_ok_open open_state_def fds_open_def base_has_def)
  from sock_leave_ok [OF this] obtain k' where "nn_ctx_leave V ?k = Some k'" "sock_ok V C P k'" by blast
  then show ?thesis using False assms(3) by (simp add: nn_sock_add_ep_def nn_ep_start_def nn_ep_init_def)
qed

text \<open>Taking an endpoint from the active ones, or a stopping one away, keeps the accounts.\<close>

lemma eps_moved:
  assumes "inside_ok V C P k" "open_state k" "e \<in> set (k_eps k)"
  shows "inside_ok V C P (k\<lparr>k_eps := filter (\<lambda>x. ep_eid x \<noteq> ep_eid e) (k_eps k),
    k_sdeps := k_sdeps k @ [stopping_ep e]\<rparr>)"
  using assms eps_good_move [of "k_eid k" "k_eps k" "k_sdeps k" e]
  by (auto simp: inside_ok_def state_ok_def open_state_def eps_ok_def fds_open_def base_has_def)

lemma drop_sdep_ok:
  assumes "inside_ok V C P k" "k_state k = SOCK_ACTIVE"
  shows "inside_ok V C P (drop_sdep eid k\<lparr>k_events := []\<rparr>)"
  using assms eps_good_drop [of "k_eid k" "k_eps k" "k_sdeps k" "\<lambda>e. ep_eid e \<noteq> eid"]
  by (simp add: inside_ok_def state_ok_open open_state_def eps_ok_def fds_open_def base_has_def drop_sdep_def)

lemma leave_after:
  assumes "process_events V k = Some k1" "inside_ok V C P k1"
  shows "\<exists>k'. nn_ctx_leave V k = Some k' \<and> sock_ok V C P k' \<and> k_state k' = k_state k1 \<and> k_sdeps k' = k_sdeps k1 \<and> k_eps k' = k_eps k1"
  using sock_leave_ok [OF assms(2)] assms by (auto simp: nn_ctx_leave_def inside_ok_def)

lemma done_active_step:
  assumes "inside_ok V C P k" "k_state k = SOCK_ACTIVE" "eid \<in> ep_eid ` set (k_sdeps k)"
  shows "\<exists>k'. nn_ctx_leave V (k\<lparr>k_events := [Ep_done eid]\<rparr>) = Some k' \<and> sock_ok V C P k' \<and> k_state k' = SOCK_ACTIVE"
proof -
  from assms(1,2) obtain b where b: "k_base k = Some b" "k_fsm k = FSM_ACTIVE" "eps_ok k"
    by (auto simp: inside_ok_def state_ok_def elim!: base_hasE)
  from leave_after [OF process_done_active [OF assms(2) b(2,1,3) assms(3)] drop_sdep_ok [OF assms(1,2)]] assms(2)
  show ?thesis by (auto simp: drop_sdep_def)
qed

lemma ep_stopped_step:
  assumes ok: "sock_ok V C P k" and "k_state k = SOCK_ACTIVE \<or> k_state k = SOCK_STOPPING_EPS" "eid \<in> ep_eid ` set (k_sdeps k)"
  shows "\<exists>k'. nn_ep_stopped V eid k = Some k' \<and> sock_ok V C P k'"
proof -
  note i = sock_ok_inside [OF ok]
  have e: "nn_ep_stopped V eid k = nn_ctx_leave V (k\<lparr>k_events := [Ep_done eid]\<rparr>)" using ok by (simp add: nn_ep_stopped_def sock_ok_def)
  from assms(2) show ?thesis
  proof
    assume "k_state k = SOCK_ACTIVE"
    from done_active_step [OF i this assms(3)] show ?thesis unfolding e by blast
  next
    assume s: "k_state k = SOCK_STOPPING_EPS"
    from process_closing [OF s i, of "[eid]"] stop_ok assms(3) obtain k1 where
      "process_events V (k\<lparr>k_events := [Ep_done eid]\<rparr>) = Some k1" "inside_ok V C P k1" by fastforce
    from leave_after [OF this] show ?thesis unfolding e by blast
  qed
qed

lemma rm_ep_step:
  assumes ok: "sock_ok V C P k" and a: "open_state k" "\<not> too_late T (So_rm_ep eid) k"
  shows "\<exists>rc k'. nn_sock_rm_ep V T eid k = Some (rc, k') \<and> sock_ok V C P k'"
proof (cases "find (\<lambda>e. ep_eid e = eid) (k_eps k)")
  case None
  then show ?thesis using sock_leave_ok [OF sock_ok_inside [OF ok]] by (auto simp: nn_sock_rm_ep_def)
next
  case (Some e)
  then have e: "e \<in> set (k_eps k)" "ep_eid e = eid" by (auto simp: find_Some_iff)
  then have f: "ep_fsm e = FSM_ACTIVE" using ok by (auto simp: sock_ok_def eps_ok_def eps_good_def)
  define e' where "e' = stopping_ep e"
  define k1 where "k1 = k\<lparr>k_eps := filter (\<lambda>x. ep_eid x \<noteq> eid) (k_eps k), k_sdeps := k_sdeps k @ [e']\<rparr>"
  have k1: "inside_ok V C P k1" using eps_moved [OF sock_ok_inside [OF ok] a(1) e(1)] e(2) by (simp add: k1_def e'_def)
  have "k_events k = []" using ok by (simp add: sock_ok_def)
  then have "nn_sock_rm_ep V T eid k = map_option (Pair 0)
      (nn_ctx_leave V (if tp_stops T eid then k1\<lparr>k_events := [Ep_done eid]\<rparr> else k1))"
    using Some f e(2) by (cases k) (simp add: nn_sock_rm_ep_def nn_ep_stop_def k1_def e'_def stopping_ep_def)
  moreover have "k_state k1 = SOCK_ACTIVE" if "tp_stops T eid"
    using a e that by (auto simp: k1_def open_state_def too_late_def)
  moreover have "eid \<in> ep_eid ` set (k_sdeps k1)" using e(2) by (simp add: k1_def e'_def)
  ultimately show ?thesis using done_active_step [OF k1, of eid] sock_leave_ok [OF k1] by auto
qed

lemma zombify_step:
  assumes ok: "sock_ok V C P k" and a: "k_state k = SOCK_ACTIVE"
  shows "\<exists>k'. nn_sock_zombify V k = Some k' \<and> sock_ok V C P k'"
proof -
  have f: "fds_open k" "k_fsm k = FSM_ACTIVE" using ok a by (simp_all add: sock_ok_def state_ok_def)
  define k1 where "k1 = k\<lparr>k_state := SOCK_ZOMBIE, k_in := True, k_rcvfd := (if st_norecv (k_type k) then None else Some True),
    k_out := True, k_sndfd := (if st_nosend (k_type k) then None else Some True)\<rparr>"
  have z: "nn_sock_action_zombify k = Some k1" using f(1)
    by (auto simp: nn_sock_action_zombify_def fds_open_def nn_efd_signal_def k1_def)
  have "inside_ok V C P k1" using ok a
    by (simp add: sock_ok_def inside_ok_def state_ok_open open_state_def eps_ok_def fds_open_def base_has_def k1_def)
  from sock_leave_ok [OF this] show ?thesis using a f(2) z by (auto simp: nn_sock_zombify_def)
qed

text \<open>Closing: the endpoints are asked to stop, and those that have not stopped at once are waited for.\<close>

lemma stop_eps_ok:
  assumes "eps_ok k" "k_events k = []"
  shows "stop_eps T k = k\<lparr>k_eps := [], k_sdeps := k_sdeps k @ map stopping_ep (k_eps k),
    k_events := map Ep_done (map ep_eid (filter (\<lambda>e. tp_stops T (ep_eid e)) (k_eps k)))\<rparr>"
proof -
  have m: "map (nn_ep_stop T) es = map (\<lambda>e. (stopping_ep e, tp_stops T (ep_eid e))) es" if "\<forall>e \<in> set es. ep_fsm e = FSM_ACTIVE" for es
    using that by (simp add: nn_ep_stop_def stopping_ep_def)
  have f: "map (\<lambda>(e, now). Ep_done (ep_eid e)) (filter snd (map (\<lambda>e. (stopping_ep e, tp_stops T (ep_eid e))) es)) =
      map Ep_done (map ep_eid (filter (\<lambda>e. tp_stops T (ep_eid e)) es))" for es
    by (induction es) auto
  have "map (nn_ep_stop T) (k_eps k) = map (\<lambda>e. (stopping_ep e, tp_stops T (ep_eid e))) (k_eps k)"
    using assms(1) by (intro m) (simp add: eps_ok_def eps_good_alt)
  then show ?thesis unfolding stop_eps_def Let_def by (simp only: f assms(2) append_Nil) (simp add: comp_def)
qed

lemma left_eps_alt:
  assumes "eps_ok k"
  shows "filter (\<lambda>e. ep_eid e \<notin> ep_eid ` set (filter (\<lambda>e. tp_stops T (ep_eid e)) (k_eps k))) (k_sdeps k @ map stopping_ep (k_eps k)) = left_eps T k"
proof -
  have d: "\<And>x y. x \<in> set (k_eps k) \<Longrightarrow> y \<in> set (k_sdeps k) \<Longrightarrow> ep_eid x \<noteq> ep_eid y" using assms by (simp add: eps_ok_def eps_good_alt)
  have "filter (\<lambda>e. ep_eid e \<notin> ep_eid ` set (filter (\<lambda>e. tp_stops T (ep_eid e)) (k_eps k))) (k_sdeps k) = k_sdeps k"
    using d by (intro filter_True) fastforce
  moreover have "filter (\<lambda>e. ep_eid e \<notin> ep_eid ` set (filter (\<lambda>e. tp_stops T (ep_eid e)) es)) (map stopping_ep es) =
      map stopping_ep (filter (\<lambda>e. \<not> tp_stops T (ep_eid e)) es)" for es
  proof -
    have "ep_eid e \<notin> ep_eid ` set (filter (\<lambda>e. tp_stops T (ep_eid e)) es) \<longleftrightarrow> \<not> tp_stops T (ep_eid e)" if "e \<in> set es" for e
      using that by auto
    then show ?thesis by (simp add: filter_map comp_def cong: filter_cong)
  qed
  ultimately show ?thesis by (simp add: left_eps_def)
qed

lemma stop_step:
  assumes ok: "sock_ok V C P k" and o: "open_state k"
  shows "\<exists>k'. nn_sock_stop V T k = Some k' \<and> sock_ok V C P k' \<and> k_sdeps k' = left_eps T k \<and>
    (if left_eps T k \<noteq> [] then k_state k' = SOCK_STOPPING_EPS else k_state k' \<in> {SOCK_STOPPING, SOCK_INIT} \<and>
      (v_stop V = None \<longrightarrow> k_state k' = SOCK_INIT))"
proof -
  from ok o obtain b where b: "k_fsm k = FSM_ACTIVE" "k_base k = Some b" "c_ok C b" "k_termsem k = 0" "k_events k = []" "eps_ok k"
    by (auto simp: sock_ok_def state_ok_open elim!: base_hasE)
  define ds where "ds = map ep_eid (filter (\<lambda>e. tp_stops T (ep_eid e)) (k_eps k))"
  define k1 where "k1 = k\<lparr>k_fsm := FSM_STOPPING, k_rcvfd := None, k_sndfd := None, k_eps := [],
    k_sdeps := k_sdeps k @ map stopping_ep (k_eps k), k_state := SOCK_STOPPING_EPS\<rparr>"
  have e: "eps_ok (k\<lparr>k_fsm := FSM_STOPPING, k_rcvfd := None, k_sndfd := None\<rparr>)" using b(6) by (simp add: eps_ok_def)
  have stop: "nn_sock_stop V T k = Option.bind (sock_finish2 V (k1\<lparr>k_events := map Ep_done ds\<rparr>)) (nn_ctx_leave V)"
    using b(1,5) o stop_eps_ok [OF e, of T] unfolding k1_def ds_def
    by (cases k) (auto simp: nn_sock_stop_def sock_stop_action_def open_state_def)
  have g: "eps_ok k1" using b(6) eps_good_all by (simp add: eps_ok_def k1_def)
  have i: "inside_ok V C P k1" if "k_sdeps k1 \<noteq> []"
    using ok b(2-5) g that by (simp add: inside_ok_def sock_ok_def state_ok_def k1_def)
  have left: "filter (\<lambda>e. ep_eid e \<notin> set ds) (k_sdeps k1) = left_eps T k"
    using left_eps_alt [OF b(6)] by (simp add: ds_def k1_def)
  show ?thesis
  proof (cases "k_sdeps k1 = []")
    case True
    then have ds: "ds = []" "left_eps T k = []" "k_sdeps k = []" using left by (auto simp: ds_def k1_def)
    have "k1\<lparr>k_events := []\<rparr> = k1" using b(5) by (simp add: k1_def)
    then have s: "nn_sock_stop V T k = Option.bind (sock_finish2 V k1) (nn_ctx_leave V)"
      using stop ds(1) by simp
    from stopping_end [of k1 b V C] True b(2,4,5) stop_ok [OF b(3)] obtain k' where
      k': "Option.bind (sock_finish2 V k1) (process_events V) = Some k'" "state_ok V C k'" "k_eps k' = []" "k_sdeps k' = []"
      "k_events k' = []" "k_stat k' = k_stat k1" "k_eid k' = k_eid k1" "k_state k' \<in> {SOCK_STOPPING, SOCK_INIT}"
      "v_stop V = None \<longrightarrow> k_state k' = SOCK_INIT" by (auto simp: k1_def)
    have "inside_ok V C P k'" using ok k'(2-7) by (simp add: inside_ok_def sock_ok_def eps_ok_def eps_good_def k1_def)
    moreover from k'(1) obtain k2 where k2: "sock_finish2 V k1 = Some k2" "process_events V k2 = Some k'" by (auto simp: bind_eq_Some_conv)
    ultimately obtain k3 where "nn_ctx_leave V k2 = Some k3" "sock_ok V C P k3" "k_state k3 = k_state k'" "k_sdeps k3 = k_sdeps k'"
      using leave_after by blast
    then show ?thesis using s k2(1) ds(2) k'(4,8,9) by auto
  next
    case False
    have s: "nn_sock_stop V T k = nn_ctx_leave V (k1\<lparr>k_events := map Ep_done ds\<rparr>)"
      using stop False by (simp add: sock_finish2_def)
    have d: "distinct ds" "set ds \<subseteq> ep_eid ` set (k_sdeps k1)" using b(6)
      by (auto simp: ds_def k1_def eps_ok_def eps_good_alt distinct_map_filter image_Un image_image)
    have "k_state k1 = SOCK_STOPPING_EPS" by (simp add: k1_def)
    moreover have "\<And>stop b. v_stop V = Some stop \<Longrightarrow> c_ok C b \<Longrightarrow> \<exists>b' now. stop b = Some (b', now) \<and> (\<not> now \<longrightarrow> c_left C b')" using stop_ok by blast
    ultimately obtain k' where
      k': "process_events V (k1\<lparr>k_events := map Ep_done ds\<rparr>) = Some k'" "inside_ok V C P k'" "k_sdeps k' = left_eps T k"
      "if k_sdeps k' \<noteq> [] then k_state k' = SOCK_STOPPING_EPS else k_state k' \<in> {SOCK_STOPPING, SOCK_INIT} \<and>
        (v_stop V = None \<longrightarrow> k_state k' = SOCK_INIT)" using process_closing [OF _ i [OF False], of ds] d unfolding left by auto
    from leave_after [OF k'(1,2)] obtain k3 where "nn_ctx_leave V (k1\<lparr>k_events := map Ep_done ds\<rparr>) = Some k3" "sock_ok V C P k3"
      "k_state k3 = k_state k'" "k_sdeps k3 = k_sdeps k'" by blast
    then show ?thesis using s k'(3,4) by (auto split: if_splits)
  qed
qed

lemma base_step:
  assumes "inside_ok V C P k" "open_state k \<or> k_state k = SOCK_STOPPING_EPS" "c_ok C b"
  shows "\<exists>k'. nn_ctx_leave V (k\<lparr>k_base := Some b\<rparr>) = Some k' \<and> sock_ok V C P k'"
  using sock_leave_ok [OF with_base_ok [OF assms]] by blast

text \<open>An event of a pipe, in an active socket.\<close>

lemma pipe_event:
  assumes "inside_ok V C P k" "k_state k = SOCK_ACTIVE" "c_ok C b2"
    and "e = Pipe_in p \<and> v_in V p b1 = Some b2 \<or> e = Pipe_out p \<and> v_out V p b1 = Some b2"
  shows "\<exists>k'. nn_ctx_leave V (k\<lparr>k_base := Some b1, k_events := [e]\<rparr>) = Some k' \<and> sock_ok V C P k'"
proof -
  have f: "k_fsm k = FSM_ACTIVE" "k_events k = []" using assms(1,2) by (simp_all add: inside_ok_def state_ok_def)
  have "sock_feed V e (k\<lparr>k_base := Some b1, k_events := []\<rparr>) = Some (k\<lparr>k_base := Some b2\<rparr>)"
    using assms(2,4) f by (cases k) (auto simp: sock_feed_def nn_sock_handler_def)
  then have "process_events V (k\<lparr>k_base := Some b1, k_events := [e]\<rparr>) = Some (k\<lparr>k_base := Some b2\<rparr>)"
    using f(2) by (simp add: process_events_Cons)
  from leave_after [OF this with_base_ok [OF assms(1) _ assms(3)]] assms(2) show ?thesis by (auto simp: open_state_def)
qed

lemma in_step:
  assumes ok: "sock_ok V C P k" and a: "k_state k = SOCK_ACTIVE" "base_has (c_in C p) k"
  shows "\<exists>k'. pipe_received V p k = Some k' \<and> sock_ok V C P k'"
proof -
  from ok a obtain b where b: "k_base k = Some b" "c_ok C b" "c_in C p b" "k_events k = []"
    by (auto simp: sock_ok_def state_ok_def elim!: base_hasE)
  from in_ok [OF b(2,3)] obtain b1 b2 where "v_received V p b = Some b1" "v_in V p b1 = Some b2" "c_ok C b2" by blast
  with pipe_event [OF sock_ok_inside [OF ok] a(1), of b2 "Pipe_in p" p b1] b(1,4) show ?thesis by (simp add: pipe_received_def)
qed

lemma out_step:
  assumes ok: "sock_ok V C P k" and a: "k_state k = SOCK_ACTIVE" "base_has (c_out C p) k"
  shows "\<exists>k'. pipe_sent V p k = Some k' \<and> sock_ok V C P k'"
proof -
  from ok a obtain b where b: "k_base k = Some b" "c_ok C b" "c_out C p b" "k_events k = []"
    by (auto simp: sock_ok_def state_ok_def elim!: base_hasE)
  from out_ok [OF b(2,3)] obtain b1 b2 where "v_sent V p b = Some b1" "v_out V p b1 = Some b2" "c_ok C b2" by blast
  with pipe_event [OF sock_ok_inside [OF ok] a(1), of b2 "Pipe_out p" p b1] b(1,4) show ?thesis by (simp add: pipe_sent_def)
qed

text \<open>The number of pipes.\<close>

definition with_pipes :: "int \<Rightarrow> ('b, 'o) sock \<Rightarrow> ('b, 'o) sock" where
  "with_pipes n k = k\<lparr>k_stat := (k_stat k)(CURRENT_CONNECTIONS := n)\<rparr>"

lemma with_pipes_ok: "inside_ok V C P k \<Longrightarrow> finite Q \<Longrightarrow> inside_ok V C Q (with_pipes (int (card Q)) k)"
  by (auto simp: inside_ok_def with_pipes_def state_ok_def eps_ok_def fds_open_def base_has_def split: sock_state.splits)

lemma start_step:
  assumes ok: "sock_ok V C P k" and a: "k_state k = SOCK_ACTIVE" "base_has (c_start C p) k" "p \<notin> P"
  shows "\<exists>k'. pipe_start V p k = Some k' \<and> sock_ok V C (insert p P) k'"
proof -
  from ok a obtain b where b: "k_base k = Some b" "c_ok C b" "c_start C p b" "k_events k = []" "k_stat k CURRENT_CONNECTIONS = int (card P)" "finite P"
    by (auto simp: sock_ok_def state_ok_def elim!: base_hasE)
  from start_ok [OF b(2,3)] obtain b1 b2 b3 where
    s: "v_started V p b = Some b1" "v_add V p b1 = Some (0, b2)" "v_out V p b2 = Some b3" "c_ok C b3" by blast
  let ?k = "with_pipes (int (card (insert p P))) k"
  have "nn_sock_add V p (k\<lparr>k_base := Some b1\<rparr>) = Some (0, ?k\<lparr>k_base := Some b2\<rparr>)"
    using s(2) b(5,6) a(3) by (cases k) (simp add: nn_sock_add_def nn_sock_stat_increment_def stat_increment_def level_stats_def with_pipes_def add.commute)
  then have "pipe_start V p k = nn_ctx_leave V (?k\<lparr>k_base := Some b2, k_events := [Pipe_out p]\<rparr>)"
    using b(1,4) s(1) by (simp add: pipe_start_def with_pipes_def)
  moreover have "inside_ok V C (insert p P) ?k" using with_pipes_ok [OF sock_ok_inside [OF ok]] b(6) by simp
  moreover have "k_state ?k = SOCK_ACTIVE" using a(1) by (simp add: with_pipes_def)
  ultimately show ?thesis using pipe_event [of "insert p P" ?k b3 "Pipe_out p" p b2] s(3,4) by simp
qed

lemma rm_step:
  assumes ok: "sock_ok V C P k" and a: "k_state k \<noteq> SOCK_STOPPING" "base_has (c_rm C p) k" "p \<in> P"
  shows "\<exists>k'. pipe_stop V p k = Some k' \<and> sock_ok V C (P - {p}) k'"
proof -
  have o: "open_state k \<or> k_state k = SOCK_STOPPING_EPS" using ok a(1,2)
    by (cases "k_state k") (auto simp: sock_ok_def state_ok_def open_state_def base_has_def)
  with open_base [OF sock_ok_inside [OF ok]] a(2) obtain b where b: "k_base k = Some b" "c_ok C b" "c_rm C p b" by auto
  from rm_ok [OF b(2,3)] obtain b' where r: "v_rm V p b = Some b'" "c_ok C b'" by blast
  have c: "k_stat k CURRENT_CONNECTIONS = int (card P)" "finite P" "card P > 0" using ok a(3)
    by (auto simp: sock_ok_def card_gt_0_iff)
  let ?k = "with_pipes (int (card (P - {p}))) k"
  have "nn_sock_rm V p k = Some (?k\<lparr>k_base := Some b'\<rparr>)"
    using b(1) r(1) c a(3) by (cases k) (simp add: nn_sock_rm_def nn_sock_stat_increment_def stat_increment_def level_stats_def with_pipes_def of_nat_diff)
  moreover have "inside_ok V C (P - {p}) ?k" using with_pipes_ok [OF sock_ok_inside [OF ok]] c(2) by simp
  moreover have "open_state ?k \<or> k_state ?k = SOCK_STOPPING_EPS" using o by (simp add: with_pipes_def open_state_def)
  ultimately show ?thesis using base_step [of "P - {p}" ?k b'] r(2) by (simp add: pipe_stop_def)
qed

text \<open>The timer, and the end of a socket type that was not stopped at once.\<close>

lemma timer_step:
  assumes ok: "sock_ok V C P k" and o: "open_state k \<or> k_state k = SOCK_STOPPING_EPS" and t: "base_has (c_timer C src) k"
  shows "\<exists>k'. sock_timer V src k = Some k' \<and> sock_ok V C P k'"
proof -
  from open_base [OF sock_ok_inside [OF ok] o] t obtain b where b: "k_base k = Some b" "c_ok C b" "c_timer C src b" by auto
  from timer_ok [OF b(2,3)] obtain b' where t: "v_timer V src b = Some (b', False)" "c_ok C b'" by blast
  have "k_events k = []" using ok by (simp add: sock_ok_def)
  then have "sock_timer V src k = nn_ctx_leave V (k\<lparr>k_base := Some b'\<rparr>)" using b(1) t(1) by (cases k) (simp add: sock_timer_def)
  then show ?thesis using base_step [OF sock_ok_inside [OF ok] o t(2)] by simp
qed

lemma last_step:
  assumes ok: "sock_ok V C P k" and s: "k_state k = SOCK_STOPPING"
  shows "\<exists>k'. sock_timer V src k = Some k' \<and> sock_ok V C P k' \<and> k_state k' = (if src = c_last C then SOCK_INIT else SOCK_STOPPING)"
proof -
  from ok s obtain b where b: "k_base k = Some b" "c_left C b" "k_fsm k = FSM_STOPPING" "k_events k = []" "k_sdeps k = []" "k_eps k = []"
      "k_termsem k = 0" "v_stop V \<noteq> None"
    by (auto simp: sock_ok_def state_ok_def elim!: base_hasE)
  from left_ok [OF b(2)] obtain b' where t: "v_timer V src b = Some (b', src = c_last C)" "src \<noteq> c_last C \<longrightarrow> c_left C b'" by blast
  let ?k = "if src = c_last C then sock_finish1 k else k\<lparr>k_base := Some b'\<rparr>"
  have "process_events V (k\<lparr>k_base := Some b', k_events := if src = c_last C then [Base_stopped] else []\<rparr>) = Some ?k"
    using s b(3,4) by (cases k) (simp add: process_events_Cons sock_feed_def nn_sock_shutdown_def sock_finish1_def)
  moreover have "inside_ok V C P ?k" using ok s b t(2) by (simp add: inside_ok_def sock_ok_def state_ok_def eps_ok_def sock_finish1_def)
  ultimately obtain k' where "nn_ctx_leave V (k\<lparr>k_base := Some b', k_events := if src = c_last C then [Base_stopped] else []\<rparr>) = Some k'"
    "sock_ok V C P k'" "k_state k' = k_state ?k" using leave_after by blast
  then show ?thesis using b(1,4) t(1) s by (auto simp: sock_timer_def sock_finish1_def)
qed

text \<open>What comes too late fails.\<close>

lemma no_case:
  assumes "ev = Pipe_in p \<or> ev = Pipe_out p" "k_state k \<noteq> SOCK_ACTIVE" "k_events k = []"
  shows "nn_ctx_leave V (k\<lparr>k_base := Some b, k_events := [ev]\<rparr>) = None"
  using assms by (auto simp: nn_ctx_leave_def process_events_Cons sock_feed_def nn_sock_handler_def nn_sock_shutdown_def)

lemma zombie_done:
  assumes "k_state k = SOCK_ZOMBIE" "k_fsm k = FSM_ACTIVE"
  shows "nn_ctx_leave V (k\<lparr>k_events := [Ep_done eid]\<rparr>) = None"
  using assms by (auto simp: nn_ctx_leave_def process_events_Cons sock_feed_def nn_sock_handler_def ep_done_def nn_ep_shutdown_def
      split: option.splits)

lemma too_late_fails:
  assumes ok: "sock_ok V C P k" and "sock_can C op P k" "too_late T op k"
  shows "sock_do V T op k = None"
proof -
  have ev: "k_events k = []" "k_state k = SOCK_ZOMBIE \<Longrightarrow> k_fsm k = FSM_ACTIVE" using ok by (auto simp: sock_ok_def state_ok_def)
  show ?thesis
    using assms(3)
  proof (cases op)
    case (So_start p)
    then have a: "k_state k \<noteq> SOCK_ACTIVE" "p \<notin> P" "with_eps k" "base_has (c_start C p) k"
      using assms(2,3) by (simp_all add: too_late_def)
    from open_base [OF sock_ok_inside [OF ok]] a(3,4) obtain b where
      b: "k_base k = Some b" "c_ok C b" "c_start C p b" by (auto simp: with_eps_def)
    have n: "k_stat k CURRENT_CONNECTIONS = int (card P)" "finite P" using ok by (simp_all add: sock_ok_def)
    from start_ok [OF b(2,3)] obtain b1 b2 where s: "v_started V p b = Some b1" "v_add V p b1 = Some (0, b2)" by blast
    let ?k = "with_pipes (int (card (insert p P))) k"
    have "nn_sock_add V p (k\<lparr>k_base := Some b1\<rparr>) = Some (0, ?k\<lparr>k_base := Some b2\<rparr>)"
      using s(2) n a(2) by (cases k) (simp add: nn_sock_add_def nn_sock_stat_increment_def stat_increment_def level_stats_def with_pipes_def add.commute)
    then have "pipe_start V p k = nn_ctx_leave V (?k\<lparr>k_base := Some b2, k_events := [Pipe_out p]\<rparr>)"
      using b(1) ev(1) s(1) by (simp add: pipe_start_def with_pipes_def)
    also have "\<dots> = None" by (rule no_case) (use a(1) ev(1) in \<open>simp_all add: with_pipes_def\<close>)
    finally show ?thesis using So_start by simp
  next
    case (So_in p)
    then show ?thesis using assms(3) ev no_case [of "Pipe_in p" p k]
      by (auto simp: too_late_def pipe_received_def split: option.splits)
  next
    case (So_out p)
    then show ?thesis using assms(3) ev no_case [of "Pipe_out p" p k]
      by (auto simp: too_late_def pipe_sent_def split: option.splits)
  next
    case (So_ep_stopped eid)
    then show ?thesis using assms(3) ev zombie_done [of k eid] by (simp add: too_late_def nn_ep_stopped_def)
  next
    case (So_rm_ep eid)
    then have z: "k_state k = SOCK_ZOMBIE" "eid \<in> ep_eid ` set (k_eps k)" "tp_stops T eid"
      using assms(3) by (simp_all add: too_late_def)
    obtain e where e: "find (\<lambda>e. ep_eid e = eid) (k_eps k) = Some e"
      using z(2) by (cases "find (\<lambda>e. ep_eid e = eid) (k_eps k)") (auto simp: find_None_iff)
    then have f: "ep_fsm e = FSM_ACTIVE" "ep_eid e = eid" using ok by (auto simp: find_Some_iff sock_ok_def eps_ok_def eps_good_def)
    then obtain e' where "nn_ep_stop T e = (e', True)" using z(3) by (simp add: nn_ep_stop_def)
    then show ?thesis
      using e f So_rm_ep ev(1) zombie_done [of "k\<lparr>k_eps := filter (\<lambda>e. ep_eid e \<noteq> eid) (k_eps k), k_sdeps := k_sdeps k @ [e']\<rparr>" eid]
        z(1) ev(2) [OF z(1)]
      by (simp add: nn_sock_rm_ep_def)
  qed (simp_all add: too_late_def)
qed

lemma sock_do_ok:
  assumes ok: "sock_ok V C P k" and "sock_can C op P k" "\<not> too_late T op k"
  shows "\<exists>k'. sock_do V T op k = Some k' \<and> sock_ok V C (pipes_after op P) k'"
  using assms(2,3)
proof (cases op)
  case (So_send m)
  then show ?thesis using send_step [OF ok, of m 0] assms(2) by fastforce
next
  case So_recv
  then show ?thesis using recv_step [OF ok, of 0] assms(2) by fastforce
next
  case (So_setopt level option val)
  then show ?thesis using setopt_step [OF ok, of level option val T] assms(2) by fastforce
next
  case (So_add_ep bind addr)
  then show ?thesis using add_ep_step [OF ok, of addr T bind] assms(2) by fastforce
next
  case (So_rm_ep eid)
  then show ?thesis using rm_ep_step [OF ok, of T eid] assms(2,3) by fastforce
next
  case So_zombify
  then show ?thesis using zombify_step [OF ok] assms(2) by simp
next
  case So_stop
  then show ?thesis using stop_step [OF ok, of T] assms(2) by fastforce
next
  case (So_ep_stopped eid)
  then show ?thesis using ep_stopped_step [OF ok, of eid] assms(2,3) by (auto simp: too_late_def with_eps_def open_state_def)
next
  case (So_start p)
  then show ?thesis using start_step [OF ok, of p] assms(2,3) by (auto simp: too_late_def with_eps_def open_state_def)
next
  case (So_in p)
  then show ?thesis using in_step [OF ok, of p] assms(2,3) by (auto simp: too_late_def with_eps_def open_state_def)
next
  case (So_out p)
  then show ?thesis using out_step [OF ok, of p] assms(2,3) by (auto simp: too_late_def with_eps_def open_state_def)
next
  case (So_rm p)
  then show ?thesis using rm_step [OF ok, of p] assms(2) by simp
next
  case (So_timer src)
  then show ?thesis using timer_step [OF ok, of src] last_step [OF ok, of src] assms(2) by (auto simp: with_eps_def)
qed

text \<open>When all endpoints that were left have reported that they stopped, in any order, the socket is closed but for what the socket type waits for.\<close>

lemma closing_step:
  assumes ok: "sock_ok V C P k" and s: "k_state k = SOCK_STOPPING_EPS" "eid \<in> ep_eid ` set (k_sdeps k)"
  shows "\<exists>k'. nn_ep_stopped V eid k = Some k' \<and> sock_ok V C P k' \<and> k_sdeps k' = filter (\<lambda>e. ep_eid e \<noteq> eid) (k_sdeps k) \<and>
    closed_but V (k_sdeps k') k'"
proof -
  have e: "nn_ep_stopped V eid k = nn_ctx_leave V (k\<lparr>k_events := [Ep_done eid]\<rparr>)" using ok by (simp add: nn_ep_stopped_def sock_ok_def)
  have "\<exists>k1. process_events V (k\<lparr>k_events := map Ep_done [eid]\<rparr>) = Some k1 \<and> inside_ok V C P k1 \<and>
      k_sdeps k1 = filter (\<lambda>e. ep_eid e \<notin> set [eid]) (k_sdeps k) \<and>
      (if k_sdeps k1 \<noteq> [] then k_state k1 = SOCK_STOPPING_EPS else k_state k1 \<in> {SOCK_STOPPING, SOCK_INIT} \<and>
        (v_stop V = None \<longrightarrow> k_state k1 = SOCK_INIT))"
    using s(2) stop_ok by (intro process_closing [OF s(1) sock_ok_inside [OF ok]]) auto
  then obtain k1 where k1: "process_events V (k\<lparr>k_events := [Ep_done eid]\<rparr>) = Some k1" "inside_ok V C P k1"
      "k_sdeps k1 = filter (\<lambda>e. ep_eid e \<noteq> eid) (k_sdeps k)" "closed_but V (k_sdeps k1) k1"
    by (auto simp: closed_but_def)
  from leave_after [OF k1(1,2)] k1(3,4) show ?thesis unfolding e by (auto simp: closed_but_def)
qed

lemma closing_run:
  assumes "sock_ok V C P k" "closed_but V (k_sdeps k) k" "distinct ds" "set ds = ep_eid ` set (k_sdeps k)"
  shows "\<exists>k'. ep_stops V ds k = Some k' \<and> sock_ok V C P k' \<and> closed_but V [] k'"
  using assms
proof (induction ds arbitrary: k)
  case (Cons d ds)
  then have "k_state k = SOCK_STOPPING_EPS" "d \<in> ep_eid ` set (k_sdeps k)" by (auto simp: closed_but_def split: if_splits)
  from closing_step [OF Cons.prems(1) this] obtain k1 where
    k1: "nn_ep_stopped V d k = Some k1" "sock_ok V C P k1" "k_sdeps k1 = filter (\<lambda>e. ep_eid e \<noteq> d) (k_sdeps k)"
      "closed_but V (k_sdeps k1) k1" by blast
  have "ep_eid ` set (k_sdeps k1) = ep_eid ` set (k_sdeps k) - {d}" unfolding k1(3) by auto
  also have "\<dots> = set ds" using Cons.prems(3,4) by auto
  finally show ?case using Cons.IH [OF k1(2,4)] Cons.prems(3) k1(1) by simp
qed simp

lemma close_ok:
  assumes ok: "sock_ok V C P k" and o: "open_state k" and ds: "distinct ds" "set ds = ep_eid ` set (left_eps T k)"
  shows "\<exists>k'. Option.bind (nn_sock_stop V T k) (ep_stops V ds) = Some k' \<and> sock_ok V C P k' \<and> closed_but V [] k'"
proof -
  from stop_step [OF ok o, of T] obtain k1 where k1: "nn_sock_stop V T k = Some k1" "sock_ok V C P k1" "k_sdeps k1 = left_eps T k"
    "closed_but V (k_sdeps k1) k1" by (auto simp: closed_but_def)
  from closing_run [OF k1(2,4) ds(1)] ds(2) k1(1,3) show ?thesis by simp
qed

lemma term_ok:
  assumes "sock_ok V C P k" "k_state k = SOCK_INIT"
  shows "\<exists>k'. nn_sock_term k = Some k'" "k_base k = None"
  using assms by (simp_all add: nn_sock_term_def sock_ok_def state_ok_def)

lemma init_ok:
  assumes "nn_sock_init st name b = Some k0" "c_ok C b"
  shows "\<exists>k. nn_ctx_leave V k0 = Some k \<and> sock_ok V C {} k"
proof -
  have "inside_ok V C {} k0" using assms
    by (auto simp: nn_sock_init_def inside_ok_def state_ok_def eps_ok_def eps_good_def fds_open_def base_has_def split: if_splits)
  from sock_leave_ok [OF this] show ?thesis by blast
qed

lemma sock_reach_ok: "sock_reach V C T P k \<Longrightarrow> sock_ok V C P k"
proof (induction rule: sock_reach.induct)
  case (reach_start st name b k0 k)
  then show ?case using init_ok by fastforce
next
  case (reach_step P k op k')
  have "\<not> too_late T op k" using too_late_fails [OF reach_step.IH reach_step.hyps(2)] reach_step.hyps(3) by auto
  from sock_do_ok [OF reach_step.IH reach_step.hyps(2) this] reach_step.hyps(3) show ?case by simp
qed

end

end
