(* ===== verification/Nn_Sock_Props.thy ===== *)
theory Nn_Sock_Props
  imports Nn_Sock_Spec Nn_Survey_Props
begin

text \<open>
  The surveyor as a socket type of the core: the contract of \<open>socket_type\<close> holds for it, and with it everything that is proved of the socket;
  and the properties of the socket, of closing it, of its timeouts and of its options.
\<close>

section \<open>The surveyor as a socket type\<close>

definition has_stopped :: "'t surveyor \<Rightarrow> 't surveyor \<Rightarrow> 't surveyor \<times> bool" where
  "has_stopped s s' = (s', sv_fsm s \<noteq> FSM_IDLE \<and> sv_fsm s' = FSM_IDLE)"

definition surveyor_vfptr :: "'t transport \<Rightarrow> 't surveyor vfptr" where
  "surveyor_vfptr T =
     \<lparr>v_stop = Some (\<lambda>s. map_option (has_stopped s) (nn_surveyor_stop s)),
      v_add = (\<lambda>p s. map_option (\<lambda>x. (0, with_x s x)) (nn_xsurveyor_add p (sv_x s))),
      v_rm = (\<lambda>p s. Some (with_x s (nn_xsurveyor_rm p (sv_x s)))),
      v_in = (\<lambda>p s. map_option (with_x s) (nn_xsurveyor_in p (sv_x s))),
      v_out = (\<lambda>p s. map_option (with_x s) (nn_xsurveyor_out p (sv_x s))),
      v_events = nn_surveyor_events,
      v_send = nn_surveyor_send T,
      v_recv = (\<lambda>s. case nn_surveyor_recv T s of Some (Some (rc, m, l, s')) \<Rightarrow> Some (rc, m, s') | _ \<Rightarrow> None),
      v_setopt = nn_surveyor_setopt,
      v_getopt = nn_surveyor_getopt,
      v_started = (\<lambda>p s. map_option (\<lambda>pb. sv_put p pb s) (nn_pipebase_start True (sv_pipe s p))),
      v_received = (\<lambda>p s. map_option (\<lambda>pb. sv_put p pb s) (nn_pipebase_received (sv_pipe s p))),
      v_sent = (\<lambda>p s. map_option (\<lambda>pb. sv_put p pb s) (nn_pipebase_sent (sv_pipe s p))),
      v_timer = (\<lambda>src s. map_option (has_stopped s) (surveyor_timer T src s))\<rparr>"

text \<open>The transport of the messages splits off no header, and gives what it has, no more.\<close>

definition surveyor_contract :: "'t transport \<Rightarrow> 't surveyor contract" where
  "surveyor_contract T =
     \<lparr>c_ok = (\<lambda>s. sv_ok s \<and> unsplit T \<and> (\<exists>avail. drains T avail)),
      c_msg = (\<lambda>m. m_sphdr m = []),
      c_opt = (\<lambda>level option v. level = NN_SURVEYOR \<and> option = NN_SURVEYOR_DEADLINE \<longrightarrow> 0 \<le> v),
      c_start = (\<lambda>p. survey_can (Sv_start p)),
      c_in = (\<lambda>p. survey_can (Sv_in p)),
      c_out = (\<lambda>p. survey_can (Sv_out p)),
      c_rm = (\<lambda>p. survey_can (Sv_rm p)),
      c_timer = (\<lambda>src. survey_can (Sv_timer src)),
      c_left = (\<lambda>s. sv_state s = SV_STOPPING \<and> sv_fsm s = FSM_STOPPING \<and> sv_timer_is FSM_STOPPING s),
      c_last = TIMER_STOP_TASK\<rparr>"

lemmas surveyor_type_defs = surveyor_vfptr_def surveyor_contract_def

lemma sv_events_stay: "sv_ok s \<Longrightarrow> sv_fsm s = FSM_ACTIVE"
  by (simp add: sv_defs)

lemma surveyor_stop_ok:
  assumes "sv_ok s"
  shows "\<exists>s'. nn_surveyor_stop s = Some s' \<and> (sv_fsm s' \<noteq> FSM_IDLE \<longrightarrow> sv_state s' = SV_STOPPING \<and> sv_fsm s' = FSM_STOPPING \<and>
    sv_timer_is FSM_STOPPING s')"
  using assms by (cases "sv_state s")
    (simp_all add: nn_surveyor_stop_def nn_surveyor_shutdown_def sv_defs nn_timer_stop_def nn_timer_isidle_def)

lemma surveyor_left_ok:
  assumes "sv_state s = SV_STOPPING" "sv_fsm s = FSM_STOPPING" "sv_timer_is FSM_STOPPING s"
  shows "\<exists>s'. surveyor_timer T src s = Some s' \<and> (if src = TIMER_STOP_TASK then sv_fsm s' = FSM_IDLE else s' = s)"
  using assms by (cases src)
    (simp_all add: surveyor_timer_def nn_timer_feed_def nn_timer_shutdown_def sv_timer_is_def surveyor_feed_def nn_surveyor_shutdown_def
      nn_timer_isidle_def)

interpretation survey_sock: socket_type "surveyor_vfptr T" "surveyor_contract T" for T :: "'t transport"
proof (unfold_locales, goal_cases)
  case (1 b m)
  then show ?case using sv_send_ok [of b m T] by (auto simp: surveyor_type_defs)
next
  case (2 b)
  then obtain avail where a: "sv_ok b" "unsplit T" "drains T avail" by (auto simp: surveyor_contract_def)
  from surveyor_recv_loop [OF this, of 0] obtain stale :: "msg list" and r s' where
    "sv_ok s'" "surveyor_recv_loop T 0 b = Some (Some (fst (survey_result r), snd (survey_result r), length stale, s'))"
    unfolding add_0 by blast
  then show ?case using a
    by (cases r) (auto simp: surveyor_type_defs nn_surveyor_recv_def survey_result_def EFSM_def EAGAIN_def)
next
  case (3 b level option v len)
  then show ?case by (auto simp: surveyor_type_defs nn_surveyor_setopt_def sv_defs)
next
  case (4 b p)
  then have "sv_ok b" "survey_can (Sv_start p) b" by (simp_all add: surveyor_contract_def)
  from sv_start_ok [OF this, of T] 4(1) show ?case
    by (auto simp: surveyor_type_defs with_x_def Let_def split: option.splits)
next
  case (5 b p)
  then have "sv_ok b" "survey_can (Sv_in p) b" by (simp_all add: surveyor_contract_def)
  from sv_in_ok [OF this, of T] 5(1) show ?case
    by (auto simp: surveyor_type_defs with_x_def sv_put_def split: option.splits)
next
  case (6 b p)
  then have "sv_ok b" "survey_can (Sv_out p) b" by (simp_all add: surveyor_contract_def)
  from sv_out_ok [OF this, of T] 6(1) show ?case
    by (auto simp: surveyor_type_defs with_x_def sv_put_def split: option.splits)
next
  case (7 b p)
  then show ?case using with_x_ok [OF _ xsv_rm_ok [OF sv_ok_x]] by (auto simp: surveyor_type_defs)
next
  case (8 b src)
  then have "sv_ok b" "survey_can (Sv_timer src) b" by (simp_all add: surveyor_contract_def)
  from sv_timer_ok [OF this, of T] 8(1) show ?case by (auto simp: surveyor_type_defs has_stopped_def sv_events_stay)
next
  case (9 b stop)
  then have "sv_ok b" by (simp add: surveyor_contract_def)
  from surveyor_stop_ok [OF this] 9(2) sv_events_stay [OF this] show ?case by (auto simp: surveyor_type_defs has_stopped_def)
next
  case (10 b src)
  then have "sv_state b = SV_STOPPING" "sv_fsm b = FSM_STOPPING" "sv_timer_is FSM_STOPPING b" by (simp_all add: surveyor_contract_def)
  from surveyor_left_ok [OF this, of T src] this show ?case by (auto simp: surveyor_type_defs has_stopped_def split: if_splits)
qed

section \<open>A socket to try\<close>

definition survey_socktype :: socktype where
  "survey_socktype = \<lparr>st_domain = 1, st_protocol = NN_SURVEYOR, st_norecv = False, st_nosend = False\<rparr>"

definition slow_transports :: "unit transports" where
  "slow_transports = \<lparr>tp_create = (\<lambda>_ _. 0), tp_stops = (\<lambda>_. False), tp_optset = (\<lambda>_. None), tp_setopt = (\<lambda>_ _ _ o'. (0, o')),
     tp_getopt = (\<lambda>_ _ _. Inl (- 1))\<rparr>"

definition survey_socket :: "(msg list surveyor, unit) sock" where
  "survey_socket = the (nn_ctx_leave (surveyor_vfptr loop_transport)
     (the (nn_sock_init survey_socktype [] (nn_surveyor_init 3 (idle_net [])))))"

abbreviation survey_socket_reach where
  "survey_socket_reach T \<equiv> sock_reach (surveyor_vfptr T) (surveyor_contract T)"

lemma survey_socket_events: "nn_surveyor_events (nn_surveyor_init 3 (idle_net [])) = (True, True)"
  by (simp add: nn_surveyor_events_def nn_xsurveyor_events_def nn_surveyor_init_def nn_surveyor_inprogress_def)

lemma survey_socket_ok: "survey_socket_reach loop_transport slow_transports {} survey_socket"
  "k_state survey_socket = SOCK_ACTIVE" "k_base survey_socket = Some (nn_surveyor_init 3 (idle_net []))"
  "k_opts survey_socket = default_opts" "k_type survey_socket = survey_socktype" "k_eps survey_socket = []" "k_sdeps survey_socket = []"
proof -
  define k0 :: "(msg list surveyor, unit) sock" where "k0 = the (nn_sock_init survey_socktype [] (nn_surveyor_init 3 (idle_net [])))"
  have k0: "nn_sock_init survey_socktype [] (nn_surveyor_init 3 (idle_net [])) = Some k0"
    by (simp add: k0_def nn_sock_init_def survey_socktype_def)
  have c: "c_ok (surveyor_contract loop_transport) (nn_surveyor_init 3 (idle_net []))"
    using loop_transport sv_ok_init by (auto simp: surveyor_contract_def)
  have l: "nn_ctx_leave (surveyor_vfptr loop_transport) k0 = Some (fds_set True (Some True) True (Some True) k0)"
    by (simp add: k0_def nn_ctx_leave_def nn_sock_onleave_def nn_sock_init_def adjust_efd_def nn_efd_signal_def fds_set_def
        survey_socktype_def surveyor_vfptr_def survey_socket_events)
  have s: "survey_socket = fds_set True (Some True) True (Some True) k0"
    unfolding survey_socket_def k0_def [symmetric] l by simp
  show "survey_socket_reach loop_transport slow_transports {} survey_socket"
    by (rule reach_start [OF k0 c]) (simp add: l s)
  show "k_state survey_socket = SOCK_ACTIVE" "k_base survey_socket = Some (nn_surveyor_init 3 (idle_net []))"
    "k_opts survey_socket = default_opts" "k_type survey_socket = survey_socktype" "k_eps survey_socket = []" "k_sdeps survey_socket = []"
    by (simp_all add: s fds_set_def k0_def nn_sock_init_def survey_socktype_def)
qed

section \<open>What always holds\<close>










lemma zombify_zombie:
  assumes "sock_ok V C P k" "k_state k = SOCK_ACTIVE" "nn_sock_zombify V k = Some k'"
  shows "k_state k' = SOCK_ZOMBIE"
proof -
  from assms obtain k1 where k1: "nn_sock_action_zombify k = Some k1" "nn_ctx_leave V k1 = Some k'"
    by (auto simp: nn_sock_zombify_def bind_eq_Some_conv split: if_splits)
  then have "k_state k1 = SOCK_ZOMBIE" "k_events k1 = []"
    using assms(1) by (auto simp: nn_sock_action_zombify_def sock_ok_def split: option.splits)
  with k1(2) show ?thesis by (simp add: nn_ctx_leave_def onleave_idle)
qed

text \<open>
  The socket type is destroyed only when no endpoint is left, and then \<open>nn_close\<close> can go on.\<close>

theorem destroyed_last:
  assumes "survey_socket_reach T Tr P k" "k_base k = None"
  shows "k_eps k = [] \<and> k_sdeps k = [] \<and> k_state k = SOCK_INIT \<and> (\<exists>k'. nn_sock_term k = Some k')"
proof -
  have ok: "sock_ok (surveyor_vfptr T) (surveyor_contract T) P k" by (rule survey_sock.sock_reach_ok [OF assms(1)])
  then have i: "k_state k = SOCK_INIT" using assms(2)
    by (cases "k_state k") (auto simp: sock_ok_def state_ok_def base_has_def)
  with ok survey_sock.term_ok(1) [OF ok] show ?thesis by (simp add: sock_ok_def state_ok_def)
qed

lemma stopped_survey_socket: "\<exists>k. survey_socket_reach loop_transport slow_transports {} k \<and> k_base k = None"
proof -
  let ?V = "surveyor_vfptr loop_transport" and ?C = "surveyor_contract loop_transport"
  have o: "open_state survey_socket" by (simp add: open_state_def survey_socket_ok)
  from survey_sock.stop_step [OF survey_sock.sock_reach_ok [OF survey_socket_ok(1)] o, of slow_transports] obtain k1 where
    k1: "nn_sock_stop ?V slow_transports survey_socket = Some k1" "sock_ok ?V ?C {} k1" "k_state k1 \<in> {SOCK_STOPPING, SOCK_INIT}"
    by (auto simp: left_eps_def survey_socket_ok)
  have r1: "survey_socket_reach loop_transport slow_transports {} k1"
    using reach_step [OF survey_socket_ok(1), of So_stop k1] o k1(1) by simp
  show ?thesis
  proof (cases "k_state k1 = SOCK_INIT")
    case True
    then show ?thesis using r1 survey_sock.term_ok(2) [OF k1(2)] by blast
  next
    case False
    then have s: "k_state k1 = SOCK_STOPPING" using k1(3) by simp
    from survey_sock.last_step [OF k1(2) this, of TIMER_STOP_TASK] obtain k2 where
      k2: "sock_timer ?V TIMER_STOP_TASK k1 = Some k2" "sock_ok ?V ?C {} k2" "k_state k2 = SOCK_INIT" by (auto simp: surveyor_contract_def)
    have "survey_socket_reach loop_transport slow_transports {} k2"
      using reach_step [OF r1, of "So_timer TIMER_STOP_TASK" k2] s k2(1) by simp
    then show ?thesis using survey_sock.term_ok(2) [OF k2(2,3)] by blast
  qed
qed

theorem destroyed_last_witness:
  "\<exists>k. survey_socket_reach loop_transport slow_transports {} k \<and> k_base k = None \<and> (\<exists>k'. nn_sock_term k = Some k')"
  using stopped_survey_socket destroyed_last by blast

text \<open>
  C19: Closing ends. When all endpoints that have not stopped at once report that they have, in any order, the socket type is asked to stop; then,
  or when its timer has stopped too, it is destroyed and \<open>nn_close\<close> returns.
\<close>

theorem closing_ends:
  assumes "survey_socket_reach T Tr P k" "open_state k" "distinct eids" "set eids = ep_eid ` set (left_eps Tr k)"
  shows "\<exists>k1 k2 k3. Option.bind (nn_sock_stop (surveyor_vfptr T) Tr k) (ep_stops (surveyor_vfptr T) eids) = Some k1 \<and>
    (k1 = k2 \<or> sock_timer (surveyor_vfptr T) TIMER_STOP_TASK k1 = Some k2) \<and> k_base k2 = None \<and> nn_sock_term k2 = Some k3"
proof -
  let ?V = "surveyor_vfptr T" and ?C = "surveyor_contract T"
  from survey_sock.close_ok [OF survey_sock.sock_reach_ok [OF assms(1)] assms(2-4)] obtain k1 where
    k1: "Option.bind (nn_sock_stop ?V Tr k) (ep_stops ?V eids) = Some k1" "sock_ok ?V ?C P k1" "closed_but ?V [] k1" by blast
  have "\<exists>k2. (k1 = k2 \<or> sock_timer ?V TIMER_STOP_TASK k1 = Some k2) \<and> sock_ok ?V ?C P k2 \<and> k_state k2 = SOCK_INIT"
  proof (cases "k_state k1 = SOCK_INIT")
    case False
    then have "k_state k1 = SOCK_STOPPING" using k1(3) by (simp add: closed_but_def)
    from survey_sock.last_step [OF k1(2) this, of TIMER_STOP_TASK] show ?thesis by (auto simp: surveyor_contract_def)
  qed (use k1(2) in blast)
  then obtain k2 where k2: "k1 = k2 \<or> sock_timer ?V TIMER_STOP_TASK k1 = Some k2" "sock_ok ?V ?C P k2" "k_state k2 = SOCK_INIT" by blast
  from survey_sock.term_ok [OF k2(2,3)] k1(1) k2(1) show ?thesis by blast
qed

theorem closing_ends_witness:
  "\<exists>k1 k2 k3. nn_sock_stop (surveyor_vfptr loop_transport) slow_transports survey_socket = Some k1 \<and>
    (k1 = k2 \<or> sock_timer (surveyor_vfptr loop_transport) TIMER_STOP_TASK k1 = Some k2) \<and> k_base k2 = None \<and> nn_sock_term k2 = Some k3"
  using closing_ends [OF survey_socket_ok(1), of "[]"]
  by (simp add: survey_socket_ok open_state_def left_eps_def bind_eq_Some_conv)

text \<open>
  \<open>nn_term\<close> leaves a socket that must not be touched by its transports any more: a message that arrives, one that has been sent, or an
  endpoint that has stopped aborts the process.
\<close>

theorem terminated_socket_aborts:
  assumes "survey_socket_reach T Tr P k" "k_state k = SOCK_ACTIVE" "nn_sock_zombify (surveyor_vfptr T) k = Some k'"
  shows "pipe_received (surveyor_vfptr T) p k' = None \<and> pipe_sent (surveyor_vfptr T) p k' = None \<and>
    nn_ep_stopped (surveyor_vfptr T) eid k' = None"
proof -
  let ?V = "surveyor_vfptr T"
  have ok: "sock_ok ?V (surveyor_contract T) P k" by (rule survey_sock.sock_reach_ok [OF assms(1)])
  from survey_sock.zombify_step [OF this assms(2)] assms(3) have ok': "sock_ok ?V (surveyor_contract T) P k'" by auto
  have z: "k_state k' = SOCK_ZOMBIE" using zombify_zombie [OF ok assms(2,3)] .
  then have f: "k_fsm k' = FSM_ACTIVE" "k_events k' = []" using ok' by (simp_all add: sock_ok_def state_ok_def)
  show ?thesis using z f
    by (auto simp: pipe_received_def pipe_sent_def nn_ep_stopped_def nn_ctx_leave_def process_events_Cons sock_feed_def nn_sock_handler_def
        ep_done_def nn_ep_shutdown_def split: option.splits)
qed

theorem terminated_socket_aborts_witness:
  "pipe_received (surveyor_vfptr loop_transport) 7 (the (nn_sock_zombify (surveyor_vfptr loop_transport) survey_socket)) = None"
proof -
  obtain k' where k': "nn_sock_zombify (surveyor_vfptr loop_transport) survey_socket = Some k'"
    using survey_sock.zombify_step [OF survey_sock.sock_reach_ok [OF survey_socket_ok(1)] survey_socket_ok(2)] by blast
  show ?thesis using terminated_socket_aborts [OF survey_socket_ok(1,2) k'] k' by simp
qed

section \<open>Waiting\<close>

lemma int_of_u64_small: "uint x < 2 ^ 31 \<Longrightarrow> int_of_u64 x = uint x"
proof -
  assume a: "uint x < 2 ^ 31"
  then have "uint (ucast x :: 32 word) = uint x" by (simp add: unsigned_ucast_eq take_bit_int_eq_self uint_lt_0)
  moreover have "- (2 ^ 31) \<le> uint x" using uint_ge_0 [of x] by (rule order_trans [rotated]) simp
  ultimately show ?thesis using a unfolding int_of_u64_def
    by (simp only: sint_uint) (rule signed_take_bit_int_eq_self, simp_all)
qed

text \<open>Leaving keeps the options.\<close>

lemma process_events_opts: "process_events V k = Some k' \<Longrightarrow> k_opts k' = k_opts k"
proof (induction V k rule: process_events.induct)
  case (1 V k)
  have f: "k_opts b = k_opts a" if "sock_feed V e a = Some b" for e and a b :: "('a, 'b) sock"
    using that by (auto simp: sock_feed_def nn_sock_handler_def nn_sock_shutdown_def ep_done_def erase_sdep_def sock_finish2_def sock_finish1_def
        Let_def bind_eq_Some_conv split: sock_event.splits if_splits option.splits prod.splits)
  show ?case
  proof (cases "k_events k")
    case (Cons e es)
    with 1(2) obtain k1 where k1: "sock_feed V e (k\<lparr>k_events := es\<rparr>) = Some k1" "process_events V k1 = Some k'"
      by (auto simp: process_events_Cons bind_eq_Some_conv)
    from 1(1) [OF Cons k1] f [OF k1(1)] show ?thesis by simp
  qed (use 1(2) in simp)
qed

lemma leave_opts: "nn_ctx_leave V k = Some k' \<Longrightarrow> k_opts k' = k_opts k"
  by (auto simp: nn_ctx_leave_def nn_sock_onleave_def bind_eq_Some_conv dest!: process_events_opts split: if_splits option.splits prod.splits)

lemma next_timeout_left:
  assumes "0 \<le> timeo" "timeo < 2 ^ 31" "uint now + timeo < 2 ^ 64" "uint now \<le> uint n"
  shows "next_timeout timeo (now + of_int timeo) n t = max 0 (uint now + timeo - uint n)"
proof -
  have "uint (of_int timeo :: u64) = timeo" using assms(1,2) by (simp add: unsigned_of_int take_bit_int_eq_self)
  then have d: "uint (now + of_int timeo) = uint now + timeo" using assms(1,3) uint_add_lem [of now "of_int timeo"] by simp
  show ?thesis
  proof (cases "n > now + of_int timeo")
    case True
    then have "uint n > uint now + timeo" using d by (simp add: word_less_def)
    then show ?thesis using True assms(1) int_of_u64_small [of 0] by (simp add: next_timeout_def)
  next
    case False
    then have le: "uint n \<le> uint (now + of_int timeo)" by (simp add: word_less_def)
    then have "uint (now + of_int timeo - n) = uint now + timeo - uint n" using d uint_sub_lem by metis
    then show ?thesis using False assms le d int_of_u64_small [of "now + of_int timeo - n"] by (simp add: next_timeout_def)
  qed
qed

text \<open>What other threads do meanwhile does not change the options, and the clock does not go back.\<close>

definition quiet_wakeups :: "u64 \<Rightarrow> ('b, 'o) wakeup list \<Rightarrow> bool" where
  "quiet_wakeups now ws \<longleftrightarrow> (\<forall>w \<in> set ws. (\<forall>k. k_opts (w_env w k) = k_opts k) \<and> uint now \<le> uint (w_now w))"

lemma recv_loop_waits:
  assumes "sock_recv_loop V dontwait deadline timeout ws k = Some (Waiting t, r, k')" "quiet_wakeups now ws"
    "deadline = now + of_int (so_rcvtimeo (k_opts k))"
    "0 \<le> so_rcvtimeo (k_opts k)" "so_rcvtimeo (k_opts k) < 2 ^ 31" "uint now + so_rcvtimeo (k_opts k) < 2 ^ 64"
  shows "t = (if ws = [] then timeout else max 0 (uint now + so_rcvtimeo (k_opts k) - uint (w_now (last ws))))"
  using assms
proof (induction ws arbitrary: timeout k)
  case Nil
  then show ?case
    by (subst (asm) sock_recv_loop.simps) (auto simp: Let_def split: if_splits option.splits prod.splits)
next
  case (Cons w ws)
  from Cons.prems(1) obtain b k1 where k1: "nn_ctx_leave V (k\<lparr>k_base := Some b\<rparr>) = Some k1"
    "sock_recv_loop V dontwait deadline (next_timeout (so_rcvtimeo (k_opts (w_env w k1))) deadline (w_now w) timeout) ws
      (if w_ready w then (w_env w k1)\<lparr>k_in := True\<rparr> else w_env w k1) = Some (Waiting t, r, k')"
    by (subst (asm) sock_recv_loop.simps) (auto simp: Let_def split: if_splits option.splits prod.splits)
  have o: "k_opts (w_env w k1) = k_opts k" using leave_opts [OF k1(1)] Cons.prems(2) by (simp add: quiet_wakeups_def)
  have n: "next_timeout (so_rcvtimeo (k_opts k)) deadline (w_now w) timeout =
      max 0 (uint now + so_rcvtimeo (k_opts k) - uint (w_now w))"
    unfolding Cons.prems(3) using Cons.prems(2,4-6) by (intro next_timeout_left) (simp_all add: quiet_wakeups_def)
  have "quiet_wakeups now ws" using Cons.prems(2) by (simp add: quiet_wakeups_def)
  moreover have "k_opts (if w_ready w then (w_env w k1)\<lparr>k_in := True\<rparr> else w_env w k1) = k_opts k" by (simp add: o)
  ultimately have "t = (if ws = [] then next_timeout (so_rcvtimeo (k_opts k)) deadline (w_now w) timeout
      else max 0 (uint now + so_rcvtimeo (k_opts k) - uint (w_now (last ws))))"
    using Cons.IH [OF k1(2)] Cons.prems(3-6) unfolding o by simp
  then show ?case unfolding n by simp
qed

text \<open>
  C20: A receive that waits waits no longer than until its deadline: while the option stays as it is, the timeout is at first its value, and after
  every time the call was woken up in vain what is left of it, and never negative, which would mean for ever.
\<close>

theorem receive_waits_until_its_deadline:
  assumes "nn_sock_recv V dontwait now ws k = Some (Waiting t, r, k')" "quiet_wakeups now ws"
    "0 \<le> so_rcvtimeo (k_opts k)" "so_rcvtimeo (k_opts k) < 2 ^ 31" "uint now + so_rcvtimeo (k_opts k) < 2 ^ 64"
  shows "t = (if ws = [] then so_rcvtimeo (k_opts k) else max 0 (uint now + so_rcvtimeo (k_opts k) - uint (w_now (last ws))))"
  using assms recv_loop_waits [of V dontwait "now + of_int (so_rcvtimeo (k_opts k))" "so_rcvtimeo (k_opts k)" ws k t r k' now]
  by (simp add: nn_sock_recv_def call_deadline_def split: if_splits)


definition waiting_socket :: "(msg list surveyor, unit) sock" where
  "waiting_socket = survey_socket\<lparr>k_base := Some ((nn_surveyor_init 3 (idle_net []))\<lparr>sv_state := SV_ACTIVE\<rparr>),
     k_opts := default_opts\<lparr>so_rcvtimeo := 100\<rparr>\<rparr>"

definition interrupted :: "u64 \<Rightarrow> ('b, 'o) wakeup" where
  "interrupted now = \<lparr>w_rc = 0, w_env = (\<lambda>k. k), w_ready = False, w_now = now\<rparr>"

lemma waiting_socket_waits:
  "\<exists>t k'. nn_sock_recv (surveyor_vfptr loop_transport) False 1000 [interrupted 1030] waiting_socket = Some (Waiting t, None, k')"
proof -
  define b :: "msg list surveyor" where "b = (nn_surveyor_init 3 (idle_net []))\<lparr>sv_state := SV_ACTIVE\<rparr>"
  have x: "nn_xsurveyor_recv loop_transport (sv_x b) = Some (Nothing_there, sv_x b)"
    using xsv_recv(1) [OF sv_ok_x [OF sv_ok_init [of 3 "idle_net []"]] loop_transport(1)] fq_defs
    by (simp add: b_def nn_surveyor_init_def nn_xsurveyor_init_def priolist_ok_init)
  then have r: "v_recv (surveyor_vfptr loop_transport) b = Some (- EAGAIN, None, b)"
    by (simp add: surveyor_vfptr_def nn_surveyor_recv_def surveyor_recv_loop.simps Let_def b_def nn_surveyor_inprogress_def)
  have e: "v_events (surveyor_vfptr loop_transport) b = (False, True)"
    by (simp add: surveyor_vfptr_def nn_surveyor_events_def nn_xsurveyor_events_def b_def nn_surveyor_inprogress_def nn_surveyor_init_def
        nn_xsurveyor_init_def fq_defs nn_priolist_is_active_def nn_priolist_init_def)
  define w where "w = waiting_socket"
  have w: "k_state w = SOCK_ACTIVE" "k_base w = Some b" "fds_open w" "k_events w = []" "\<not> st_norecv (k_type w)"
    using survey_sock.sock_reach_ok [OF survey_socket_ok(1)] survey_socket_ok
    by (simp_all add: w_def waiting_socket_def b_def sock_ok_def state_ok_def fds_open_def survey_socktype_def)
  from onleave_active [OF w(1-3), of "surveyor_vfptr loop_transport"] obtain i rfd o' sfd where
    l: "nn_sock_onleave (surveyor_vfptr loop_transport) w = Some (fds_set i rfd o' sfd w)" "fds_open (fds_set i rfd o' sfd w)" by blast
  define w1 where "w1 = fds_set i rfd o' sfd w"
  have w1: "k_state w1 = SOCK_ACTIVE" "k_base w1 = Some b" "fds_open w1" "k_events w1 = []" 
    using w l(2) by (simp_all add: w1_def fds_set_def)
  from onleave_active [OF w1(1-3), of "surveyor_vfptr loop_transport"] obtain w2 where
    l2: "nn_sock_onleave (surveyor_vfptr loop_transport) w1 = Some w2" by blast
  have s: "w\<lparr>k_base := Some b\<rparr> = w" "w1\<lparr>k_base := Some b\<rparr> = w1" using w(2) w1(2) by simp_all
  have l: "nn_ctx_leave (surveyor_vfptr loop_transport) w = Some w1" "nn_ctx_leave (surveyor_vfptr loop_transport) w1 = Some w2"
    using l(1) l2 w(4) w1(4) by (simp_all add: nn_ctx_leave_def w1_def)
  have "EAGAIN > 0" by (simp add: EAGAIN_def)
  then show ?thesis unfolding w_def [symmetric]
    by (simp add: nn_sock_recv_def w w1 r s l sock_recv_loop.simps interrupted_def ETIMEDOUT_nn_def EINTR_nn_def split: prod.split)
qed

theorem receive_waits_until_its_deadline_witness:
  "\<exists>k'. nn_sock_recv (surveyor_vfptr loop_transport) False 1000 [interrupted 1030] waiting_socket = Some (Waiting 70, None, k')"
proof -
  from waiting_socket_waits obtain t k' where
    w: "nn_sock_recv (surveyor_vfptr loop_transport) False 1000 [interrupted 1030] waiting_socket = Some (Waiting t, None, k')" by blast
  have "t = 70" using receive_waits_until_its_deadline [OF w] by (simp add: quiet_wakeups_def interrupted_def waiting_socket_def)
  with w show ?thesis by blast
qed

section \<open>Options\<close>

lemma int_bytes_int: "length bs = 4 \<Longrightarrow> int_bytes (bytes_int bs) = bs"
  by (simp add: int_bytes_def bytes_int_def)

lemma setopt_getopt: "setopt_int option v o1 = (0, o2) \<Longrightarrow> getopt_int option (k\<lparr>k_opts := o2\<rparr>) = Some v"
  by (auto simp: setopt_int_def getopt_int_def sockopt_names EINVAL_opt_def ENOPROTOOPT_def split: if_splits)

text \<open>
  What an option of the socket was set to is what is read back, while the socket is open.
\<close>

theorem option_is_read_back:
  assumes "survey_socket_reach T Tr P k" "k_state k = SOCK_ACTIVE" "option \<noteq> NN_SOCKET_NAME"
    "nn_sock_setopt (surveyor_vfptr T) Tr NN_SOL_SOCKET option val k = Some (0, k1)"
  shows "\<exists>k2. nn_sock_getopt (surveyor_vfptr T) Tr fds NN_SOL_SOCKET option 4 k1 = Some (Inr (val, 4), k2)"
proof -
  let ?V = "surveyor_vfptr T" and ?C = "surveyor_contract T"
  have ok: "sock_ok ?V ?C P k" by (rule survey_sock.sock_reach_ok [OF assms(1)])
  have len: "length val = 4" and st: "\<exists>o'. setopt_int option (bytes_int val) (k_opts k) = (0, o') \<and> nn_ctx_leave ?V (k\<lparr>k_opts := o'\<rparr>) = Some k1"
    using assms(2-4)
    by (auto simp: nn_sock_setopt_def nn_sock_setopt_inner_def bind_eq_Some_conv EINVAL_opt_def split: if_splits prod.splits)
  then obtain o' where o': "setopt_int option (bytes_int val) (k_opts k) = (0, o')" "nn_ctx_leave ?V (k\<lparr>k_opts := o'\<rparr>) = Some k1" by blast
  have "inside_ok ?V ?C P (k\<lparr>k_opts := o'\<rparr>)" using ok assms(2)
    by (simp add: sock_ok_def inside_ok_def state_ok_open eps_ok_def fds_open_def base_has_def open_state_def)
  from sock_leave_ok [OF this] o'(2) have k1: "sock_ok ?V ?C P k1" "k_opts k1 = o'" "k_state k1 = SOCK_ACTIVE"
    using assms(2) by auto
  from sock_leave_ok [OF sock_ok_inside [OF k1(1)]] obtain k2 where "nn_ctx_leave ?V k1 = Some k2" by blast
  moreover have "getopt_int option k1 = Some (bytes_int val)" using setopt_getopt [OF o'(1), of k1] k1(2) by (cases k1) simp
  ultimately show ?thesis using k1(3) len
    by (simp add: nn_sock_getopt_def nn_sock_getopt_inner_def int_bytes_int)
qed

theorem option_is_read_back_witness:
  "\<exists>k1 k2. nn_sock_setopt (surveyor_vfptr loop_transport) slow_transports NN_SOL_SOCKET NN_RCVTIMEO [250, 0, 0, 0] survey_socket = Some (0, k1) \<and>
    nn_sock_getopt (surveyor_vfptr loop_transport) slow_transports (3, 4) NN_SOL_SOCKET NN_RCVTIMEO 4 k1 = Some (Inr ([250, 0, 0, 0], 4), k2)"
proof -
  let ?V = "surveyor_vfptr loop_transport" and ?C = "surveyor_contract loop_transport"
  have "sock_ok ?V ?C {} survey_socket" by (rule survey_sock.sock_reach_ok [OF survey_socket_ok(1)])
  then have "inside_ok ?V ?C {} (survey_socket\<lparr>k_opts := default_opts\<lparr>so_rcvtimeo := bytes_int [250, 0, 0, 0]\<rparr>\<rparr>)"
    by (simp add: sock_ok_def inside_ok_def state_ok_open eps_ok_def fds_open_def base_has_def open_state_def survey_socket_ok)
  from sock_leave_ok [OF this] obtain k1 where
    l: "nn_ctx_leave ?V (survey_socket\<lparr>k_opts := default_opts\<lparr>so_rcvtimeo := bytes_int [250, 0, 0, 0]\<rparr>\<rparr>) = Some k1" by blast
  have s: "nn_sock_setopt ?V slow_transports NN_SOL_SOCKET NN_RCVTIMEO [250, 0, 0, 0] survey_socket = Some (0, k1)"
    using l by (simp add: nn_sock_setopt_def nn_sock_setopt_inner_def survey_socket_ok setopt_int_def sockopt_names)
  have "NN_RCVTIMEO \<noteq> NN_SOCKET_NAME" by (simp add: sockopt_names)
  from option_is_read_back [OF survey_socket_ok(1,2) this s] s show ?thesis by blast
qed

end
