(* ===== verification/Nn_Usock.thy ===== *)
theory Nn_Usock
  imports Nn_Inproc Nn_Sock Nn_Chunk
begin

text \<open>
  A socket of the operating system, as \<open>aio/usock_posix.inc\<close> wraps it: its state machine, sending what the kernel takes piece by piece, and receiving
  through a batch buffer.

  What the kernel answers to a call is the parameter \<open>kernel\<close>. What is posted to the worker thread, and which of the descriptor's events it polls for, is
  part of the state; the worker then feeds tasks and events to the state machine. Failed assertions, errors of the kernel that are not expected, and
  events that a state has no case for are \<open>None\<close>.
\<close>

definition ENFILE :: int where "ENFILE = 23"
definition EMFILE :: int where "EMFILE = 24"
definition EPIPE :: int where "EPIPE = 32"
definition ECONNABORTED :: int where "ECONNABORTED = 103"
definition ENOBUFS :: int where "ENOBUFS = 105"
definition ENOTCONN :: int where "ENOTCONN = 107"
definition ECONNREFUSED :: int where "ECONNREFUSED = 111"
definition EHOSTUNREACH :: int where "EHOSTUNREACH = 113"
definition EINPROGRESS :: int where "EINPROGRESS = 115"

text \<open>Each call gives an error, or its result, or nothing when there is no result; receiving no bytes is the end of the stream.
  \<open>kn_memory\<close> says whether so many bytes can be allocated.\<close>

record kernel =
  kn_socket :: "int option"
  kn_setsockopt :: "int option"
  kn_bind :: "int option"
  kn_listen :: "int option"
  kn_accept :: "int option"
  kn_connect :: "int option"
  kn_sockerr :: int
  kn_send :: "bytes \<Rightarrow> int + nat"
  kn_recv :: "nat \<Rightarrow> int + bytes"
  kn_memory :: "u64 \<Rightarrow> bool"

section \<open>The state\<close>

datatype usock_state =
    USOCK_IDLE | USOCK_STARTING | USOCK_BEING_ACCEPTED | USOCK_ACCEPTED_STATE | USOCK_CONNECTING | USOCK_ACTIVE | USOCK_REMOVING_FD | USOCK_DONE |
    USOCK_LISTENING | USOCK_ACCEPTING | USOCK_CANCELLING | USOCK_STOPPING | USOCK_STOPPING_ACCEPT | USOCK_ACCEPTING_ERROR

datatype usock_action = UA_START | UA_STOP | UA_ACCEPT | UA_BEING_ACCEPTED | UA_CANCEL | UA_LISTEN | UA_CONNECT | UA_ACTIVATE | UA_DONE | UA_ERROR

datatype usock_task = TASK_CONNECTING | TASK_CONNECTED | TASK_ACCEPT | TASK_SEND | TASK_RECV | TASK_STOP

text \<open>What reaches the state machine, and what it raises to its owner.\<close>

datatype usock_input = Act usock_action | Fd_in | Fd_out | Fd_err | Task usock_task

datatype usock_event =
    USOCK_CONNECTED | USOCK_ACCEPTED | USOCK_SENT | USOCK_RECEIVED | USOCK_ERROR | USOCK_ACCEPT_ERROR | USOCK_STOPPED | USOCK_SHUTDOWN

text \<open>
  \<open>us_got\<close> is what has been written into the buffer of the current request, \<open>us_len\<close> how much is missing; \<open>us_out\<close> are the pieces of memory that are
  left to send. The last two fields are not in the code: all that the kernel has taken, and all that it has given.
\<close>

record usock =
  us_fsm :: fsm_state
  us_state :: usock_state
  us_open :: bool
  us_errnum :: int
  us_got :: bytes
  us_len :: nat
  us_batch :: bytes
  us_batch_pos :: nat
  us_out :: "bytes list"
  us_asock :: bool
  us_tasks :: "usock_task list"
  us_polled :: bool
  us_pollin :: bool
  us_pollout :: bool
  us_raised :: "usock_event list"
  us_given :: bytes
  us_taken :: bytes

definition nn_usock_init :: usock where
  "nn_usock_init =
     \<lparr>us_fsm = FSM_IDLE, us_state = USOCK_IDLE, us_open = False, us_errnum = 0, us_got = [], us_len = 0, us_batch = [], us_batch_pos = 0,
      us_out = [], us_asock = False, us_tasks = [], us_polled = False, us_pollin = False, us_pollout = False, us_raised = [],
      us_given = [], us_taken = []\<rparr>"

definition nn_usock_isidle :: "usock \<Rightarrow> bool" where
  "nn_usock_isidle self \<longleftrightarrow> us_fsm self = FSM_IDLE \<and> USOCK_STOPPED \<notin> set (us_raised self)"

definition usock_raise :: "usock_event \<Rightarrow> usock \<Rightarrow> usock" where
  "usock_raise ev self = self\<lparr>us_raised := us_raised self @ [ev]\<rparr>"

section \<open>The worker thread\<close>

text \<open>A task can be posted once at a time. The poller refuses descriptors it has already, or has not.\<close>

definition nn_worker_execute :: "usock_task \<Rightarrow> usock \<Rightarrow> usock option" where
  "nn_worker_execute t self = (if t \<in> set (us_tasks self) then None else Some (self\<lparr>us_tasks := us_tasks self @ [t]\<rparr>))"

definition nn_worker_add_fd :: "usock \<Rightarrow> usock option" where
  "nn_worker_add_fd self =
     (if us_polled self then None else Some (self\<lparr>us_polled := True, us_pollin := False, us_pollout := False\<rparr>))"

definition nn_worker_rm_fd :: "usock \<Rightarrow> usock option" where
  "nn_worker_rm_fd self = (if \<not> us_polled self then None else Some (self\<lparr>us_polled := False\<rparr>))"

definition nn_worker_set_in :: "usock \<Rightarrow> usock option" where
  "nn_worker_set_in self = (if us_pollin self then Some self else if \<not> us_polled self then None else Some (self\<lparr>us_pollin := True\<rparr>))"

definition nn_worker_reset_in :: "usock \<Rightarrow> usock option" where
  "nn_worker_reset_in self = (if \<not> us_pollin self then Some self else if \<not> us_polled self then None else Some (self\<lparr>us_pollin := False\<rparr>))"

definition nn_worker_set_out :: "usock \<Rightarrow> usock option" where
  "nn_worker_set_out self = (if us_pollout self then Some self else if \<not> us_polled self then None else Some (self\<lparr>us_pollout := True\<rparr>))"

definition nn_worker_reset_out :: "usock \<Rightarrow> usock option" where
  "nn_worker_reset_out self = (if \<not> us_pollout self then Some self else if \<not> us_polled self then None else Some (self\<lparr>us_pollout := False\<rparr>))"

definition nn_internal_tasks :: "usock_input \<Rightarrow> usock \<Rightarrow> usock option option" where
  "nn_internal_tasks ev self =
     (case ev of
        Task TASK_SEND \<Rightarrow> Some (nn_worker_set_out self)
      | Task TASK_RECV \<Rightarrow> Some (nn_worker_set_in self)
      | Task TASK_CONNECTED \<Rightarrow> Some (nn_worker_add_fd self)
      | Task TASK_CONNECTING \<Rightarrow> Some (Option.bind (nn_worker_add_fd self) nn_worker_set_out)
      | Task TASK_ACCEPT \<Rightarrow> Some (Option.bind (nn_worker_add_fd self) nn_worker_set_in)
      | _ \<Rightarrow> None)"

section \<open>Bytes\<close>

text \<open>Taking what was sent off the pieces of memory: zero when nothing is left, or else \<open>EAGAIN\<close>.\<close>

fun adjust_iov :: "nat \<Rightarrow> bytes list \<Rightarrow> (int \<times> bytes list) option" where
  "adjust_iov 0 iov = Some (if iov = [] then 0 else - EAGAIN, iov)"
| "adjust_iov (Suc n) [] = None"
| "adjust_iov (Suc n) (x # iov) =
     (if Suc n \<ge> length x then
        if iov = [] then if Suc n = length x then Some (0, []) else None
        else adjust_iov (Suc n - length x) iov
      else Some (- EAGAIN, drop (Suc n) x # iov))"

definition send_failures :: "int set" where
  "send_failures = {ECONNRESET, ETIMEDOUT_nn, EPIPE, ECONNREFUSED, ENOTCONN}"

definition nn_usock_send_raw :: "kernel \<Rightarrow> usock \<Rightarrow> (int \<times> usock) option" where
  "nn_usock_send_raw k self =
     (case kn_send k (concat (us_out self)) of
        Inl e \<Rightarrow>
          if e = EAGAIN then map_option (\<lambda>(rc, iov). (rc, self\<lparr>us_out := iov\<rparr>)) (adjust_iov 0 (us_out self))
          else if e \<notin> send_failures then None
          else Some (- ECONNRESET, self)
      | Inr n \<Rightarrow>
          map_option (\<lambda>(rc, iov). (rc, self\<lparr>us_out := iov, us_given := us_given self @ take n (concat (us_out self))\<rparr>))
            (adjust_iov n (us_out self)))"

definition NN_USOCK_BATCH_SIZE :: nat where "NN_USOCK_BATCH_SIZE = 2048"

definition recv_failures :: "int set" where
  "recv_failures = {ECONNRESET, ENOTCONN, ECONNREFUSED, ETIMEDOUT_nn, EHOSTUNREACH}"

text \<open>The result, what was copied into the buffer, and the new state.\<close>

definition nn_usock_recv_raw :: "kernel \<Rightarrow> nat \<Rightarrow> usock \<Rightarrow> (int \<times> bytes \<times> usock) option" where
  "nn_usock_recv_raw k len self0 =
     (let there = drop (us_batch_pos self0) (us_batch self0);
          first = take len there;
          self = self0\<lparr>us_batch_pos := us_batch_pos self0 + length first\<rparr>;
          left = len - length first in
      if there \<noteq> [] \<and> left = 0 then Some (0, first, self)
      else case (case kn_recv k (if left > NN_USOCK_BATCH_SIZE then left else NN_USOCK_BATCH_SIZE) of
            Inr bs \<Rightarrow> if bs = [] then Some None else Some (Some bs)
          | Inl e \<Rightarrow> if e = EAGAIN then Some (Some []) else if e \<notin> recv_failures then None else Some None) of
          None \<Rightarrow> None
        | Some None \<Rightarrow> Some (- ECONNRESET, first, self)
        | Some (Some bs) \<Rightarrow>
            (let self = self\<lparr>us_taken := us_taken self @ bs\<rparr> in
             if left > NN_USOCK_BATCH_SIZE then Some (0, first @ bs, self)
             else Some (0, first @ take left bs, self\<lparr>us_batch := bs, us_batch_pos := length (take left bs)\<rparr>)))"

section \<open>The state machine\<close>

text \<open>What a socket does to the one it is paired with while a connection is accepted.\<close>

datatype partner_call = P_cancel | P_done | P_accepted

definition nn_usock_async_stop :: "usock \<Rightarrow> usock option" where
  "nn_usock_async_stop self = map_option (usock_raise USOCK_SHUTDOWN) (nn_worker_execute TASK_STOP self)"

definition nn_usock_init_from_fd :: "usock \<Rightarrow> usock option" where
  "nn_usock_init_from_fd self = (if us_open self then None else Some (self\<lparr>us_open := True\<rparr>))"

text \<open>The label \<open>error\<close>, and where the descriptor is closed with another error.\<close>

definition usock_fail :: "usock \<Rightarrow> usock option" where
  "usock_fail self =
     map_option (\<lambda>self. usock_raise USOCK_ERROR (self\<lparr>us_open := False, us_state := USOCK_DONE\<rparr>)) (nn_worker_rm_fd self)"

definition alone :: "usock option \<Rightarrow> (usock \<times> partner_call option) option" where
  "alone = map_option (\<lambda>self. (self, None))"

definition usock_in_ready :: "kernel \<Rightarrow> usock \<Rightarrow> usock option" where
  "usock_in_ready k usock =
     (case nn_usock_recv_raw k (us_len usock) usock of
        None \<Rightarrow> None
      | Some (rc, bs, usock) \<Rightarrow>
          if rc = 0 then
            (let usock = usock\<lparr>us_len := us_len usock - length bs, us_got := us_got usock @ bs\<rparr> in
             if us_len usock = 0 then map_option (usock_raise USOCK_RECEIVED) (nn_worker_reset_in usock) else Some usock)
          else usock_fail usock)"

definition usock_out_ready :: "kernel \<Rightarrow> usock \<Rightarrow> usock option" where
  "usock_out_ready k usock =
     (case nn_usock_send_raw k usock of
        None \<Rightarrow> None
      | Some (rc, usock) \<Rightarrow>
          if rc = 0 then map_option (usock_raise USOCK_SENT) (nn_worker_reset_out usock)
          else if rc = - EAGAIN then Some usock
          else usock_fail usock)"

definition usock_accept_ready :: "kernel \<Rightarrow> usock \<Rightarrow> (usock \<times> partner_call option) option" where
  "usock_accept_ready k usock =
     (case kn_accept k of
        None \<Rightarrow> map_option (\<lambda>usock. (usock\<lparr>us_asock := False, us_state := USOCK_LISTENING\<rparr>, Some P_accepted)) (nn_worker_rm_fd usock)
      | Some e \<Rightarrow>
          if e = ECONNABORTED then Some (usock, None)
          else if e \<in> {ENFILE, EMFILE, ENOBUFS, ENOMEM_nn} then
            alone (map_option (usock_raise USOCK_ACCEPT_ERROR)
              (nn_worker_rm_fd (usock\<lparr>us_errnum := e, us_state := USOCK_ACCEPTING_ERROR\<rparr>)))
          else None)"

definition nn_usock_handler :: "kernel \<Rightarrow> usock_input \<Rightarrow> usock \<Rightarrow> (usock \<times> partner_call option) option" where
  "nn_usock_handler k ev usock =
     (case nn_internal_tasks ev usock of
        Some r \<Rightarrow> alone r
      | None \<Rightarrow>
          (case us_state usock of
             USOCK_IDLE \<Rightarrow> if ev = Act UA_START then alone (Some (usock\<lparr>us_state := USOCK_STARTING\<rparr>)) else None
           | USOCK_STARTING \<Rightarrow>
               if ev = Act UA_LISTEN then alone (Some (usock\<lparr>us_state := USOCK_LISTENING\<rparr>))
               else if ev = Act UA_CONNECT then alone (Some (usock\<lparr>us_state := USOCK_CONNECTING\<rparr>))
               else if ev = Act UA_BEING_ACCEPTED then alone (Some (usock\<lparr>us_state := USOCK_BEING_ACCEPTED\<rparr>))
               else None
           | USOCK_BEING_ACCEPTED \<Rightarrow>
               if ev = Act UA_DONE then alone (Some (usock_raise USOCK_ACCEPTED (usock\<lparr>us_state := USOCK_ACCEPTED_STATE\<rparr>))) else None
           | USOCK_ACCEPTED_STATE \<Rightarrow>
               if ev = Act UA_ACTIVATE
               then alone (map_option (\<lambda>usock. usock\<lparr>us_state := USOCK_ACTIVE\<rparr>) (nn_worker_add_fd usock)) else None
           | USOCK_CONNECTING \<Rightarrow>
               if ev = Act UA_DONE
               then alone (map_option (usock_raise USOCK_CONNECTED) (nn_worker_execute TASK_CONNECTED (usock\<lparr>us_state := USOCK_ACTIVE\<rparr>)))
               else if ev = Act UA_ERROR
               then alone (Some (usock_raise USOCK_ERROR (usock\<lparr>us_open := False, us_state := USOCK_DONE\<rparr>)))
               else if ev = Fd_out then
                 (case nn_worker_reset_out usock of
                    None \<Rightarrow> None
                  | Some usock \<Rightarrow>
                      if kn_sockerr k = 0 then alone (Some (usock_raise USOCK_CONNECTED (usock\<lparr>us_state := USOCK_ACTIVE\<rparr>)))
                      else alone (usock_fail (usock\<lparr>us_errnum := kn_sockerr k\<rparr>)))
               else if ev = Fd_err then alone (usock_fail usock)
               else None
           | USOCK_ACTIVE \<Rightarrow>
               if ev = Fd_in then alone (usock_in_ready k usock)
               else if ev = Fd_out then alone (usock_out_ready k usock)
               else if ev = Fd_err then alone (usock_fail usock)
               else if ev = Act UA_ERROR then alone (nn_usock_async_stop (usock\<lparr>us_state := USOCK_REMOVING_FD\<rparr>))
               else None
           | USOCK_REMOVING_FD \<Rightarrow>
               if ev = Task TASK_STOP then alone (usock_fail usock)
               else if ev = Fd_in \<or> ev = Fd_out \<or> ev = Fd_err then alone (Some usock)
               else None
           | USOCK_DONE \<Rightarrow> None
           | USOCK_LISTENING \<Rightarrow> if ev = Act UA_ACCEPT then alone (Some (usock\<lparr>us_state := USOCK_ACCEPTING\<rparr>)) else None
           | USOCK_ACCEPTING \<Rightarrow>
               if ev = Act UA_DONE then alone (Some (usock\<lparr>us_state := USOCK_LISTENING\<rparr>))
               else if ev = Act UA_CANCEL then alone (nn_worker_execute TASK_STOP (usock\<lparr>us_state := USOCK_CANCELLING\<rparr>))
               else if ev = Fd_in then usock_accept_ready k usock
               else None
           | USOCK_ACCEPTING_ERROR \<Rightarrow> if ev = Act UA_ACCEPT then alone (Some (usock\<lparr>us_state := USOCK_ACCEPTING\<rparr>)) else None
           | USOCK_CANCELLING \<Rightarrow>
               if ev = Task TASK_STOP
               then map_option (\<lambda>usock. (usock\<lparr>us_state := USOCK_LISTENING\<rparr>, Some P_done)) (nn_worker_rm_fd usock)
               else if ev = Fd_in then alone (Some usock)
               else None
           | _ \<Rightarrow> None))"

text \<open>The labels \<open>finish1\<close> and \<open>finish2\<close>.\<close>

definition usock_finish2 :: "usock \<Rightarrow> usock option" where
  "usock_finish2 usock =
     (if us_fsm usock \<noteq> FSM_STOPPING then None
      else Some (usock_raise USOCK_STOPPED (usock\<lparr>us_state := USOCK_IDLE, us_fsm := FSM_IDLE\<rparr>)))"

definition usock_finish1 :: "usock \<Rightarrow> usock option" where
  "usock_finish1 usock = usock_finish2 (usock\<lparr>us_open := False\<rparr>)"

definition nn_usock_shutdown :: "usock_input \<Rightarrow> usock \<Rightarrow> (usock \<times> partner_call option) option" where
  "nn_usock_shutdown ev usock0 =
     (case nn_internal_tasks ev usock0 of
        Some r \<Rightarrow> alone r
      | None \<Rightarrow>
          if ev = Act UA_STOP then
            (let usock = usock0\<lparr>us_errnum := 0\<rparr>; st = us_state usock in
             if st = USOCK_ACCEPTING \<or> st = USOCK_CANCELLING then None
             else if st = USOCK_IDLE then alone (Some usock)
             else if st = USOCK_DONE then alone (usock_finish2 usock)
             else if st \<in> {USOCK_STARTING, USOCK_ACCEPTED_STATE, USOCK_ACCEPTING_ERROR, USOCK_LISTENING} then alone (usock_finish1 usock)
             else if st = USOCK_BEING_ACCEPTED then Some (usock\<lparr>us_state := USOCK_STOPPING_ACCEPT\<rparr>, Some P_cancel)
             else alone (map_option (\<lambda>usock. usock\<lparr>us_state := USOCK_STOPPING\<rparr>)
               (if st = USOCK_REMOVING_FD then Some usock else nn_usock_async_stop usock)))
          else if us_state usock0 = USOCK_STOPPING_ACCEPT then if ev = Act UA_DONE then alone (usock_finish2 usock0) else None
          else if us_state usock0 = USOCK_STOPPING then
            if ev = Task TASK_STOP then alone (Option.bind (nn_worker_rm_fd usock0) usock_finish1) else alone (Some usock0)
          else None)"

definition usock_feed :: "kernel \<Rightarrow> usock_input \<Rightarrow> usock \<Rightarrow> (usock \<times> partner_call option) option" where
  "usock_feed k ev self = (if us_fsm self \<noteq> FSM_STOPPING then nn_usock_handler k ev self else nn_usock_shutdown ev self)"

text \<open>Where no other socket is concerned.\<close>

definition usock_only :: "(usock \<times> partner_call option) option \<Rightarrow> usock option" where
  "usock_only r = (case r of Some (self, None) \<Rightarrow> Some self | _ \<Rightarrow> None)"

section \<open>The calls\<close>

definition usock_fsm_start :: "kernel \<Rightarrow> usock \<Rightarrow> usock option" where
  "usock_fsm_start k self =
     (if \<not> nn_usock_isidle self then None
      else map_option (\<lambda>self. self\<lparr>us_fsm := FSM_ACTIVE\<rparr>) (usock_only (usock_feed k (Act UA_START) self)))"

definition nn_usock_start :: "kernel \<Rightarrow> usock \<Rightarrow> (int \<times> usock) option" where
  "nn_usock_start k self =
     (case kn_socket k of
        Some e \<Rightarrow> Some (- e, self)
      | None \<Rightarrow> map_option (Pair 0) (Option.bind (nn_usock_init_from_fd self) (usock_fsm_start k)))"

definition nn_usock_stop :: "usock \<Rightarrow> (usock \<times> partner_call option) option" where
  "nn_usock_stop self =
     (if us_fsm self \<noteq> FSM_ACTIVE then Some (self, None) else nn_usock_shutdown (Act UA_STOP) (self\<lparr>us_fsm := FSM_STOPPING\<rparr>))"

definition nn_usock_setsockopt :: "kernel \<Rightarrow> usock \<Rightarrow> int option" where
  "nn_usock_setsockopt k self =
     (if us_state self \<noteq> USOCK_STARTING \<and> us_state self \<noteq> USOCK_ACCEPTED_STATE then None
      else Some (case kn_setsockopt k of None \<Rightarrow> 0 | Some e \<Rightarrow> - e))"

definition nn_usock_bind :: "kernel \<Rightarrow> usock \<Rightarrow> int option" where
  "nn_usock_bind k self =
     (if us_state self \<noteq> USOCK_STARTING \<or> kn_setsockopt k \<noteq> None then None
      else Some (case kn_bind k of None \<Rightarrow> 0 | Some e \<Rightarrow> - e))"

definition nn_usock_listen :: "kernel \<Rightarrow> usock \<Rightarrow> (int \<times> usock) option" where
  "nn_usock_listen k self =
     (if us_state self \<noteq> USOCK_STARTING then None
      else case kn_listen k of
        Some e \<Rightarrow> Some (- e, self)
      | None \<Rightarrow> map_option (Pair 0) (usock_only (usock_feed k (Act UA_LISTEN) self)))"

definition nn_usock_activate :: "kernel \<Rightarrow> usock \<Rightarrow> usock option" where
  "nn_usock_activate k self = usock_only (usock_feed k (Act UA_ACTIVATE) self)"

definition nn_usock_connect :: "kernel \<Rightarrow> usock \<Rightarrow> usock option" where
  "nn_usock_connect k self0 =
     (case usock_only (usock_feed k (Act UA_CONNECT) self0) of
        None \<Rightarrow> None
      | Some self \<Rightarrow>
          (case kn_connect k of
             None \<Rightarrow> usock_only (usock_feed k (Act UA_DONE) self)
           | Some e \<Rightarrow>
               if e \<noteq> EINPROGRESS then usock_only (usock_feed k (Act UA_ERROR) (self\<lparr>us_errnum := e\<rparr>))
               else nn_worker_execute TASK_CONNECTING self))"

definition nn_usock_send :: "kernel \<Rightarrow> bytes list \<Rightarrow> usock \<Rightarrow> usock option" where
  "nn_usock_send k iov self =
     (if us_state self \<noteq> USOCK_ACTIVE \<or> length iov > 3 then None
      else case nn_usock_send_raw k (self\<lparr>us_out := filter (\<lambda>x. x \<noteq> []) iov\<rparr>) of
        None \<Rightarrow> None
      | Some (rc, self) \<Rightarrow>
          if rc = 0 then Some (usock_raise USOCK_SENT self)
          else if rc \<noteq> - EAGAIN then if rc = - ECONNRESET then usock_only (usock_feed k (Act UA_ERROR) self) else None
          else nn_worker_execute TASK_SEND self)"

definition nn_usock_recv :: "kernel \<Rightarrow> nat \<Rightarrow> usock \<Rightarrow> usock option" where
  "nn_usock_recv k len self =
     (if us_state self \<noteq> USOCK_ACTIVE then None
      else case nn_usock_recv_raw k len self of
        None \<Rightarrow> None
      | Some (rc, bs, self) \<Rightarrow>
          if rc < 0 then if rc = - ECONNRESET then usock_only (usock_feed k (Act UA_ERROR) self) else None
          else if length bs = len then Some (usock_raise USOCK_RECEIVED (self\<lparr>us_got := bs\<rparr>))
          else nn_worker_execute TASK_RECV (self\<lparr>us_got := bs, us_len := len - length bs\<rparr>))"

section \<open>Accepting\<close>

text \<open>What one of the two paired sockets does to the other; from the listener it comes with a descriptor that was accepted.\<close>

definition partner_do :: "kernel \<Rightarrow> partner_call \<Rightarrow> usock \<Rightarrow> usock option" where
  "partner_do k c peer =
     (case c of
        P_cancel \<Rightarrow> usock_only (usock_feed k (Act UA_CANCEL) peer)
      | P_done \<Rightarrow> usock_only (usock_feed k (Act UA_DONE) peer)
      | P_accepted \<Rightarrow>
          map_option (\<lambda>peer. (usock_raise USOCK_ACCEPTED (peer\<lparr>us_state := USOCK_ACCEPTED_STATE\<rparr>))\<lparr>us_asock := False\<rparr>)
            (nn_usock_init_from_fd peer))"

definition accept_errors :: "int set" where
  "accept_errors = {EAGAIN, ECONNABORTED, ENFILE, EMFILE, ENOBUFS, ENOMEM_nn}"

definition nn_usock_accept :: "kernel \<Rightarrow> usock \<Rightarrow> usock \<Rightarrow> (usock \<times> usock) option" where
  "nn_usock_accept k self0 listener0 =
     (case (if nn_usock_isidle self0
            then Option.bind (usock_fsm_start k self0) (\<lambda>self. usock_only (usock_feed k (Act UA_BEING_ACCEPTED) self))
            else Some self0) of
        None \<Rightarrow> None
      | Some self \<Rightarrow>
          (case usock_only (usock_feed k (Act UA_ACCEPT) listener0) of
             None \<Rightarrow> None
           | Some listener \<Rightarrow>
               (case kn_accept k of
                  None \<Rightarrow>
                    (case nn_usock_init_from_fd (self\<lparr>us_asock := False\<rparr>) of
                       None \<Rightarrow> None
                     | Some self \<Rightarrow>
                         (case (usock_only (usock_feed k (Act UA_DONE) (listener\<lparr>us_asock := False\<rparr>)), usock_only (usock_feed k (Act UA_DONE) self)) of
                            (Some listener, Some self) \<Rightarrow> Some (self, listener)
                          | _ \<Rightarrow> None))
                | Some e \<Rightarrow>
                    if e \<notin> accept_errors then None
                    else let self = self\<lparr>us_asock := True\<rparr>; listener = listener\<lparr>us_asock := True\<rparr> in
                      if e \<noteq> EAGAIN \<and> e \<noteq> ECONNABORTED \<and> e \<noteq> us_errnum listener
                      then Some (self, usock_raise USOCK_ACCEPT_ERROR (listener\<lparr>us_errnum := e, us_state := USOCK_ACCEPTING_ERROR\<rparr>))
                      else map_option (Pair self) (nn_worker_execute TASK_ACCEPT listener))))"

end
