(* ===== verification/Nn_Stream.thy ===== *)
theory Nn_Stream
  imports Nn_Usock Nn_Peer
begin

text \<open>
  A connection over a stream of bytes: the session of the TCP transport, \<open>transports/tcp/stcp.c\<close>, the one of the IPC transport, \<open>ipc/sipc.c\<close>, which
  differs in a byte before the length of each message, and the exchange of protocol headers before them, \<open>utils/streamhdr.c\<close>.

  Both work on one socket of the operating system, which they own in turn, so the state is one record. Events that are raised wait in the
  queue of the context; each goes to whom the socket belonged to when it was raised. An event that is in the queue already when it is raised, a failed assertion, and
  an event that a state has no case for are \<open>None\<close>.
\<close>

section \<open>The state\<close>

datatype hdr_state =
    HDR_IDLE | HDR_SENDING | HDR_RECEIVING | HDR_STOPPING_TIMER_ERROR | HDR_STOPPING_TIMER_DONE | HDR_FINISHED | HDR_STOPPING

datatype hdr_event = HDR_OK | HDR_ERROR | HDR_STOPPED

datatype stcp_state =
    STCP_IDLE | STCP_PROTOHDR | STCP_STOPPING_STREAMHDR | STCP_ACTIVE | STCP_SHUTTING_DOWN | STCP_DONE | STCP_STOPPING

datatype stcp_instate = IN_NONE | IN_HDR | IN_BODY | IN_HASMSG

datatype stcp_outstate = OUT_NONE | OUT_IDLE | OUT_SENDING

datatype stcp_event = STCP_ERROR | STCP_STOPPED

text \<open>Who owns the socket: the endpoint, the session, or the exchange of headers.\<close>

datatype owner = Own_ep | Own_ses | Own_hdr

datatype conn_event = Us owner usock_event | Hd hdr_event | Tm timer_event | Ss stcp_event

record conn =
  cn_usock :: usock
  cn_owner :: owner
  cn_events :: "conn_event list"
  hd_fsm :: fsm_state
  hd_state :: hdr_state
  hd_timer :: nn_timer
  hd_owner :: "owner option"
  hd_protohdr :: bytes
  st_fsm :: fsm_state
  st_state :: stcp_state
  st_owner :: "owner option"
  st_instate :: stcp_instate
  st_inmsg :: bytes
  st_outstate :: stcp_outstate
  st_outmsg :: msg
  st_pipe :: pipebase
  cn_up :: "conn_event list"

text \<open>The socket type this end belongs to, whether it accepts the pipe, and what the transport puts before the length of a message.\<close>

record stream_env =
  se_first :: bytes
  se_protocol :: int
  se_ispeer :: "int \<Rightarrow> bool"
  se_added :: bool

definition NN_SIPC_MSG_NORMAL :: byte where "NN_SIPC_MSG_NORMAL = 1"

definition stream_hdrsize :: "stream_env \<Rightarrow> nat" where
  "stream_hdrsize env = length (se_first env) + 8"

definition conn_init :: "usock \<Rightarrow> nat \<Rightarrow> nat \<Rightarrow> conn" where
  "conn_init u sndprio rcvprio =
     \<lparr>cn_usock = u, cn_owner = Own_ep, cn_events = [], hd_fsm = FSM_IDLE, hd_state = HDR_IDLE, hd_timer = nn_timer_init, hd_owner = None,
      hd_protohdr = [], st_fsm = FSM_IDLE, st_state = STCP_IDLE, st_owner = None, st_instate = IN_NONE, st_inmsg = [],
      st_outstate = OUT_NONE, st_outmsg = empty_msg, st_pipe = nn_pipebase_init sndprio rcvprio, cn_up = []\<rparr>"

section \<open>Events\<close>

text \<open>Events of the same source that are raised through one event object.\<close>

fun usock_object :: "usock_event \<Rightarrow> nat" where
  "usock_object USOCK_CONNECTED = 0"
| "usock_object USOCK_ACCEPTED = 0"
| "usock_object USOCK_SENT = 1"
| "usock_object USOCK_RECEIVED = 2"
| "usock_object USOCK_ERROR = 3"
| "usock_object USOCK_ACCEPT_ERROR = 3"
| "usock_object USOCK_SHUTDOWN = 3"
| "usock_object USOCK_STOPPED = 4"

fun conn_object :: "conn_event \<Rightarrow> nat \<times> nat" where
  "conn_object (Us ow ev) = (0, usock_object ev)"
| "conn_object (Hd ev) = (1, if ev = HDR_STOPPED then 1 else 0)"
| "conn_object (Tm ev) = (2, if ev = TIMER_STOPPED then 1 else 0)"
| "conn_object (Ss ev) = (3, if ev = STCP_STOPPED then 1 else 0)"

definition conn_raise :: "conn_event \<Rightarrow> conn \<Rightarrow> conn option" where
  "conn_raise ev c =
     (if conn_object ev \<in> conn_object ` set (cn_events c) then None else Some (c\<lparr>cn_events := cn_events c @ [ev]\<rparr>))"

fun conn_raise_all :: "conn_event list \<Rightarrow> conn \<Rightarrow> conn option" where
  "conn_raise_all [] c = Some c"
| "conn_raise_all (ev # evs) c = Option.bind (conn_raise ev c) (conn_raise_all evs)"

text \<open>A call of the socket; what it raises goes to its owner.\<close>

definition us_do :: "(usock \<Rightarrow> usock option) \<Rightarrow> conn \<Rightarrow> conn option" where
  "us_do f c =
     (case f (cn_usock c) of
        None \<Rightarrow> None
      | Some u \<Rightarrow> conn_raise_all (map (Us (cn_owner c)) (us_raised u)) (c\<lparr>cn_usock := u\<lparr>us_raised := []\<rparr>\<rparr>))"

definition conn_timer_isidle :: "conn \<Rightarrow> bool" where
  "conn_timer_isidle c \<longleftrightarrow> nn_timer_isidle (hd_timer c) \<and> Tm TIMER_STOPPED \<notin> set (cn_events c)"

section \<open>The exchange of headers\<close>

definition stop_hd_timer :: "hdr_state \<Rightarrow> conn \<Rightarrow> conn" where
  "stop_hd_timer st c = c\<lparr>hd_timer := nn_timer_stop (hd_timer c), hd_state := st\<rparr>"

text \<open>Giving the socket back, and telling the session.\<close>

definition hd_finish :: "hdr_event \<Rightarrow> conn \<Rightarrow> conn option" where
  "hd_finish ev c =
     (case hd_owner c of
        None \<Rightarrow> None
      | Some ow \<Rightarrow> conn_raise (Hd ev) (c\<lparr>cn_owner := ow, hd_owner := None, hd_state := HDR_FINISHED\<rparr>))"

text \<open>\<open>Inl\<close> is an event of the socket, \<open>Inr\<close> one of the timer.\<close>

definition nn_streamhdr_handler :: "stream_env \<Rightarrow> kernel \<Rightarrow> usock_event + timer_event \<Rightarrow> conn \<Rightarrow> conn option" where
  "nn_streamhdr_handler env k ev c =
     (case hd_state c of
        HDR_SENDING \<Rightarrow>
          if ev = Inl USOCK_SENT then map_option (\<lambda>c. c\<lparr>hd_state := HDR_RECEIVING\<rparr>) (us_do (nn_usock_recv k 8) c)
          else if ev = Inl USOCK_SHUTDOWN then Some c
          else if ev = Inl USOCK_ERROR \<or> ev = Inr TIMER_TIMEOUT then Some (stop_hd_timer HDR_STOPPING_TIMER_ERROR c)
          else None
      | HDR_RECEIVING \<Rightarrow>
          if ev = Inl USOCK_RECEIVED then
            (let c = c\<lparr>hd_protohdr := us_got (cn_usock c)\<rparr> in
             if take 4 (hd_protohdr c) \<noteq> [0, 83, 80, 0] then Some (stop_hd_timer HDR_STOPPING_TIMER_ERROR c)
             else if \<not> se_ispeer env (uint (nn_gets (drop 4 (hd_protohdr c)))) then Some (stop_hd_timer HDR_STOPPING_TIMER_ERROR c)
             else Some (stop_hd_timer HDR_STOPPING_TIMER_DONE c))
          else if ev = Inl USOCK_SHUTDOWN then Some c
          else if ev = Inl USOCK_ERROR \<or> ev = Inr TIMER_TIMEOUT then Some (stop_hd_timer HDR_STOPPING_TIMER_ERROR c)
          else None
      | HDR_STOPPING_TIMER_ERROR \<Rightarrow>
          (case ev of Inl e \<Rightarrow> Some c | Inr e \<Rightarrow> if e = TIMER_STOPPED then hd_finish HDR_ERROR c else None)
      | HDR_STOPPING_TIMER_DONE \<Rightarrow> if ev = Inr TIMER_STOPPED then hd_finish HDR_OK c else None
      | _ \<Rightarrow> None)"

text \<open>The end of the state \<open>STOPPING\<close>.\<close>

definition hd_stopping :: "conn \<Rightarrow> conn option" where
  "hd_stopping c =
     (if hd_state c \<noteq> HDR_STOPPING then None
      else if \<not> conn_timer_isidle c then Some c
      else if hd_fsm c \<noteq> FSM_STOPPING then None
      else map_option (\<lambda>c. c\<lparr>hd_fsm := FSM_IDLE\<rparr>) (conn_raise (Hd HDR_STOPPED) (c\<lparr>hd_state := HDR_IDLE\<rparr>)))"

definition hd_feed :: "stream_env \<Rightarrow> kernel \<Rightarrow> usock_event + timer_event \<Rightarrow> conn \<Rightarrow> conn option" where
  "hd_feed env k ev c = (if hd_fsm c \<noteq> FSM_STOPPING then nn_streamhdr_handler env k ev c else hd_stopping c)"

definition nn_streamhdr_stop :: "conn \<Rightarrow> conn option" where
  "nn_streamhdr_stop c =
     (if hd_fsm c \<noteq> FSM_ACTIVE then Some c
      else hd_stopping (stop_hd_timer HDR_STOPPING (c\<lparr>hd_fsm := FSM_STOPPING\<rparr>)))"

definition nn_streamhdr_isidle :: "conn \<Rightarrow> bool" where
  "nn_streamhdr_isidle c \<longleftrightarrow> hd_fsm c = FSM_IDLE \<and> Hd HDR_STOPPED \<notin> set (cn_events c)"

definition protohdr :: "int \<Rightarrow> bytes" where
  "protohdr protocol = [0, 83, 80, 0] @ nn_puts (of_int protocol) @ [0, 0]"

text \<open>Starting takes the socket over; the state \<open>IDLE\<close> of the handler is the rest.\<close>

definition nn_streamhdr_start :: "stream_env \<Rightarrow> kernel \<Rightarrow> conn \<Rightarrow> conn option" where
  "nn_streamhdr_start env k c =
     (if hd_owner c \<noteq> None then None
      else let c = c\<lparr>cn_owner := Own_hdr, hd_owner := Some (cn_owner c), hd_protohdr := protohdr (se_protocol env)\<rparr> in
        if \<not> nn_streamhdr_isidle c \<or> hd_state c \<noteq> HDR_IDLE \<or> Tm TIMER_STOPPED \<in> set (cn_events c) then None
        else case nn_timer_start 1000 (hd_timer c) of
          None \<Rightarrow> None
        | Some tm \<Rightarrow>
            map_option (\<lambda>c. c\<lparr>hd_state := HDR_SENDING, hd_fsm := FSM_ACTIVE\<rparr>)
              (us_do (nn_usock_send k [hd_protohdr c]) (c\<lparr>hd_timer := tm\<rparr>)))"

section \<open>The session\<close>

definition nn_stcp_isidle :: "conn \<Rightarrow> bool" where
  "nn_stcp_isidle c \<longleftrightarrow> st_fsm c = FSM_IDLE \<and> Ss STCP_STOPPED \<notin> set (cn_events c)"

definition stream_start :: "stream_env \<Rightarrow> kernel \<Rightarrow> conn \<Rightarrow> conn option" where
  "stream_start env k c =
     (if st_owner c \<noteq> None then None
      else let c = c\<lparr>cn_owner := Own_ses, st_owner := Some (cn_owner c)\<rparr> in
        if \<not> nn_stcp_isidle c \<or> st_state c \<noteq> STCP_IDLE then None
        else map_option (\<lambda>c. c\<lparr>st_state := STCP_PROTOHDR, st_fsm := FSM_ACTIVE\<rparr>) (nn_streamhdr_start env k c))"

definition stream_frame :: "stream_env \<Rightarrow> msg \<Rightarrow> bytes" where
  "stream_frame env m = se_first env @ nn_putll (of_nat (length (m_sphdr m)) + of_nat (length (m_body m))) @ m_sphdr m @ m_body m"

definition stream_send :: "stream_env \<Rightarrow> kernel \<Rightarrow> msg \<Rightarrow> conn \<Rightarrow> conn option" where
  "stream_send env k m c =
     (if st_state c \<noteq> STCP_ACTIVE \<or> st_outstate c \<noteq> OUT_IDLE then None
      else map_option (\<lambda>c. c\<lparr>st_outstate := OUT_SENDING\<rparr>)
        (us_do (nn_usock_send k [se_first env @ nn_putll (of_nat (length (m_sphdr m)) + of_nat (length (m_body m))), m_sphdr m, m_body m])
          (c\<lparr>st_outmsg := m\<rparr>)))"

definition stream_recv :: "stream_env \<Rightarrow> kernel \<Rightarrow> conn \<Rightarrow> (msg \<times> conn) option" where
  "stream_recv env k c =
     (if st_state c \<noteq> STCP_ACTIVE \<or> st_instate c \<noteq> IN_HASMSG then None
      else map_option (Pair (empty_msg\<lparr>m_body := st_inmsg c\<rparr>))
        (us_do (nn_usock_recv k (stream_hdrsize env)) (c\<lparr>st_inmsg := [], st_instate := IN_HDR\<rparr>)))"

definition pipe_do :: "(pipebase \<Rightarrow> pipebase option) \<Rightarrow> conn \<Rightarrow> conn option" where
  "pipe_do f c = map_option (\<lambda>pb. c\<lparr>st_pipe := pb\<rparr>) (f (st_pipe c))"

definition stream_failed :: "conn \<Rightarrow> conn option" where
  "stream_failed c = conn_raise (Ss STCP_ERROR) (c\<lparr>st_state := STCP_DONE\<rparr>)"

text \<open>A length has arrived, with what is before it. A new message is made for it, whose memory must be had if it is not small.\<close>

definition stream_got_hdr :: "stream_env \<Rightarrow> kernel \<Rightarrow> conn \<Rightarrow> conn option" where
  "stream_got_hdr env k c =
     (let inhdr = us_got (cn_usock c); size = nn_getll (drop (length (se_first env)) inhdr) in
      if take (length (se_first env)) inhdr \<noteq> se_first env then None
      else if \<not> unat size < NN_CHUNKREF_MAX \<and> (nn_chunk_hdrsize + size < nn_chunk_hdrsize \<or> \<not> kn_memory k (nn_chunk_hdrsize + size)) then None
      else if size = 0 then pipe_do nn_pipebase_received (c\<lparr>st_inmsg := [], st_instate := IN_HASMSG\<rparr>)
      else us_do (nn_usock_recv k (unat size)) (c\<lparr>st_inmsg := [], st_instate := IN_BODY\<rparr>))"

definition stream_received :: "stream_env \<Rightarrow> kernel \<Rightarrow> conn \<Rightarrow> conn option" where
  "stream_received env k c =
     (case st_instate c of
        IN_HDR \<Rightarrow> stream_got_hdr env k c
      | IN_BODY \<Rightarrow> pipe_do nn_pipebase_received (c\<lparr>st_inmsg := us_got (cn_usock c), st_instate := IN_HASMSG\<rparr>)
      | _ \<Rightarrow> None)"

text \<open>\<open>Inl\<close> is an event of the socket, \<open>Inr\<close> one of the exchange of headers.\<close>

definition stream_handler :: "stream_env \<Rightarrow> kernel \<Rightarrow> usock_event + hdr_event \<Rightarrow> conn \<Rightarrow> conn option" where
  "stream_handler env k ev c =
     (case st_state c of
        STCP_PROTOHDR \<Rightarrow>
          if ev = Inr HDR_OK then map_option (\<lambda>c. c\<lparr>st_state := STCP_STOPPING_STREAMHDR\<rparr>) (nn_streamhdr_stop c)
          else if ev = Inr HDR_ERROR then stream_failed c
          else None
      | STCP_STOPPING_STREAMHDR \<Rightarrow>
          if ev = Inr HDR_STOPPED then
            (case pipe_do (nn_pipebase_start (se_added env)) c of
               None \<Rightarrow> None
             | Some c \<Rightarrow>
                 if pb_state (st_pipe c) = PIPEBASE_FAILED then stream_failed c
                 else map_option (\<lambda>c. c\<lparr>st_outstate := OUT_IDLE, st_state := STCP_ACTIVE\<rparr>)
                   (us_do (nn_usock_recv k (stream_hdrsize env)) (c\<lparr>st_instate := IN_HDR\<rparr>)))
          else None
      | STCP_ACTIVE \<Rightarrow>
          if ev = Inl USOCK_SENT then
            if st_outstate c \<noteq> OUT_SENDING then None
            else pipe_do nn_pipebase_sent (c\<lparr>st_outstate := OUT_IDLE, st_outmsg := empty_msg\<rparr>)
          else if ev = Inl USOCK_RECEIVED then stream_received env k c
          else if ev = Inl USOCK_SHUTDOWN then Some (c\<lparr>st_pipe := nn_pipebase_stop (st_pipe c), st_state := STCP_SHUTTING_DOWN\<rparr>)
          else if ev = Inl USOCK_ERROR then stream_failed (c\<lparr>st_pipe := nn_pipebase_stop (st_pipe c)\<rparr>)
          else None
      | STCP_SHUTTING_DOWN \<Rightarrow> if ev = Inl USOCK_ERROR then stream_failed c else None
      | _ \<Rightarrow> None)"

definition stream_stopping :: "conn \<Rightarrow> conn option" where
  "stream_stopping c =
     (if st_state c \<noteq> STCP_STOPPING then None
      else if \<not> nn_streamhdr_isidle c then Some c
      else case st_owner c of
        None \<Rightarrow> None
      | Some ow \<Rightarrow>
          if st_fsm c \<noteq> FSM_STOPPING then None
          else map_option (\<lambda>c. c\<lparr>st_fsm := FSM_IDLE\<rparr>)
            (conn_raise (Ss STCP_STOPPED) (c\<lparr>cn_owner := ow, st_owner := None, st_state := STCP_IDLE\<rparr>)))"

definition stream_feed :: "stream_env \<Rightarrow> kernel \<Rightarrow> usock_event + hdr_event \<Rightarrow> conn \<Rightarrow> conn option" where
  "stream_feed env k ev c = (if st_fsm c \<noteq> FSM_STOPPING then stream_handler env k ev c else stream_stopping c)"

definition stream_stop :: "conn \<Rightarrow> conn option" where
  "stream_stop c =
     (if st_fsm c \<noteq> FSM_ACTIVE then Some c
      else Option.bind (nn_streamhdr_stop (c\<lparr>st_fsm := FSM_STOPPING, st_pipe := nn_pipebase_stop (st_pipe c)\<rparr>))
        (\<lambda>c. stream_stopping (c\<lparr>st_state := STCP_STOPPING\<rparr>)))"

section \<open>The calls of the socket above\<close>

definition stream_pipe_send :: "stream_env \<Rightarrow> kernel \<Rightarrow> msg \<Rightarrow> conn \<Rightarrow> conn option" where
  "stream_pipe_send env k m c =
     (if pb_outstate (st_pipe c) \<noteq> IO_IDLE then None
      else case stream_send env k m (c\<lparr>st_pipe := (st_pipe c)\<lparr>pb_outstate := IO_BUSY\<rparr>\<rparr>) of
        None \<Rightarrow> None
      | Some c \<Rightarrow>
          if pb_outstate (st_pipe c) = IO_DONE then Some (c\<lparr>st_pipe := (st_pipe c)\<lparr>pb_outstate := IO_IDLE\<rparr>\<rparr>)
          else if pb_outstate (st_pipe c) \<noteq> IO_BUSY then None
          else Some (c\<lparr>st_pipe := (st_pipe c)\<lparr>pb_outstate := IO_ASYNC\<rparr>\<rparr>))"

definition stream_pipe_recv :: "stream_env \<Rightarrow> kernel \<Rightarrow> conn \<Rightarrow> (msg \<times> conn) option" where
  "stream_pipe_recv env k c =
     (if pb_instate (st_pipe c) \<noteq> IO_IDLE then None
      else case stream_recv env k (c\<lparr>st_pipe := (st_pipe c)\<lparr>pb_instate := IO_BUSY\<rparr>\<rparr>) of
        None \<Rightarrow> None
      | Some (m, c) \<Rightarrow>
          if pb_instate (st_pipe c) = IO_DONE then Some (m, c\<lparr>st_pipe := (st_pipe c)\<lparr>pb_instate := IO_IDLE\<rparr>\<rparr>)
          else if pb_instate (st_pipe c) \<noteq> IO_BUSY then None
          else Some (m, c\<lparr>st_pipe := (st_pipe c)\<lparr>pb_instate := IO_ASYNC\<rparr>\<rparr>))"

section \<open>What the threads do\<close>

text \<open>The first event in the queue; what is for the endpoint is collected in \<open>cn_up\<close>.\<close>

definition conn_dispatch :: "stream_env \<Rightarrow> kernel \<Rightarrow> conn_event \<Rightarrow> conn \<Rightarrow> conn option" where
  "conn_dispatch env k ev c =
     (case ev of
        Us Own_ses e \<Rightarrow> stream_feed env k (Inl e) c
      | Us Own_hdr e \<Rightarrow> hd_feed env k (Inl e) c
      | Us Own_ep e \<Rightarrow> Some (c\<lparr>cn_up := cn_up c @ [ev]\<rparr>)
      | Hd e \<Rightarrow> stream_feed env k (Inr e) c
      | Tm e \<Rightarrow> hd_feed env k (Inr e) c
      | Ss e \<Rightarrow> Some (c\<lparr>cn_up := cn_up c @ [ev]\<rparr>))"

definition conn_process :: "stream_env \<Rightarrow> kernel \<Rightarrow> conn \<Rightarrow> conn option" where
  "conn_process env k c =
     (case cn_events c of [] \<Rightarrow> None | ev # evs \<Rightarrow> conn_dispatch env k ev (c\<lparr>cn_events := evs\<rparr>))"

text \<open>The worker thread: its tasks, in order, and the descriptor's and the timer's events.\<close>

definition conn_task :: "kernel \<Rightarrow> conn \<Rightarrow> conn option" where
  "conn_task k c =
     (case us_tasks (cn_usock c) of
        [] \<Rightarrow> None
      | t # ts \<Rightarrow> us_do (\<lambda>u. usock_only (usock_feed k (Task t) (u\<lparr>us_tasks := ts\<rparr>))) c)"

definition conn_fd :: "kernel \<Rightarrow> usock_input \<Rightarrow> conn \<Rightarrow> conn option" where
  "conn_fd k ev c = us_do (\<lambda>u. usock_only (usock_feed k ev u)) c"

definition conn_timer :: "timer_src \<Rightarrow> conn \<Rightarrow> conn option" where
  "conn_timer src c =
     (case nn_timer_feed src (hd_timer c) of
        None \<Rightarrow> None
      | Some (None, tm) \<Rightarrow> Some (c\<lparr>hd_timer := tm\<rparr>)
      | Some (Some ev, tm) \<Rightarrow> conn_raise (Tm ev) (c\<lparr>hd_timer := tm\<rparr>))"

section \<open>The two transports\<close>

definition tcp_env :: "int \<Rightarrow> stream_env" where
  "tcp_env protocol = \<lparr>se_first = [], se_protocol = protocol, se_ispeer = protocol_ispeer protocol, se_added = True\<rparr>"

definition ipc_env :: "int \<Rightarrow> stream_env" where
  "ipc_env protocol =
     \<lparr>se_first = [NN_SIPC_MSG_NORMAL], se_protocol = protocol, se_ispeer = protocol_ispeer protocol, se_added = True\<rparr>"

text \<open>The functions of \<open>sipc.c\<close>: those of \<open>stcp.c\<close> with the type of the message before its length. A message of another type fails the
  assertion in \<open>stream_got_hdr\<close>.\<close>

definition nn_sipc_isidle :: "conn \<Rightarrow> bool" where
  "nn_sipc_isidle = nn_stcp_isidle"

definition nn_sipc_start :: "int \<Rightarrow> kernel \<Rightarrow> conn \<Rightarrow> conn option" where
  "nn_sipc_start protocol = stream_start (ipc_env protocol)"

definition nn_sipc_send :: "int \<Rightarrow> kernel \<Rightarrow> msg \<Rightarrow> conn \<Rightarrow> conn option" where
  "nn_sipc_send protocol = stream_send (ipc_env protocol)"

definition nn_sipc_recv :: "int \<Rightarrow> kernel \<Rightarrow> conn \<Rightarrow> (msg \<times> conn) option" where
  "nn_sipc_recv protocol = stream_recv (ipc_env protocol)"

definition nn_sipc_handler :: "int \<Rightarrow> kernel \<Rightarrow> usock_event + hdr_event \<Rightarrow> conn \<Rightarrow> conn option" where
  "nn_sipc_handler protocol = stream_handler (ipc_env protocol)"

definition nn_sipc_received :: "int \<Rightarrow> kernel \<Rightarrow> conn \<Rightarrow> conn option" where
  "nn_sipc_received protocol = stream_received (ipc_env protocol)"

definition nn_sipc_stop :: "conn \<Rightarrow> conn option" where
  "nn_sipc_stop = stream_stop"

definition nn_sipc_shutdown :: "conn \<Rightarrow> conn option" where
  "nn_sipc_shutdown = stream_stopping"

end
