(* ===== verification/Nn_Usock_Spec.thy ===== *)
theory Nn_Usock_Spec
  imports Nn_Usock
begin

text \<open>
  What a socket of the operating system carries: the bytes the kernel has taken and those that are left to send are the bytes that were to be sent, and the bytes
  it has given are those received and those still in the batch buffer, in order, whatever pieces the kernel makes.

  The contract of the kernel is \<open>kernel_law\<close>: it does not take more than it is offered, nor give more than it is asked for. It is \<open>kernel_calm\<close>
  when sending and receiving do not fail and the peer has not closed the stream.
\<close>

definition kernel_law :: "kernel \<Rightarrow> bool" where
  "kernel_law k \<longleftrightarrow> (\<forall>bs n. kn_send k bs = Inr n \<longrightarrow> n \<le> length bs) \<and> (\<forall>n bs. kn_recv k n = Inr bs \<longrightarrow> length bs \<le> n)"

definition kernel_calm :: "kernel \<Rightarrow> bool" where
  "kernel_calm k \<longleftrightarrow> (\<forall>bs e. kn_send k bs = Inl e \<longrightarrow> e = EAGAIN) \<and> (\<forall>n e. kn_recv k n = Inl e \<longrightarrow> e = EAGAIN) \<and>
     (\<forall>n. kn_recv k n \<noteq> Inr [])"

text \<open>The bytes in the batch buffer that have not been read.\<close>

definition us_rest :: "usock \<Rightarrow> bytes" where "us_rest u = drop (us_batch_pos u) (us_batch u)"

definition us_sending :: "usock \<Rightarrow> bool" where "us_sending u \<longleftrightarrow> TASK_SEND \<in> set (us_tasks u) \<or> us_pollout u"
definition us_recving :: "usock \<Rightarrow> bool" where "us_recving u \<longleftrightarrow> TASK_RECV \<in> set (us_tasks u) \<or> us_pollin u"

definition us_live :: "usock \<Rightarrow> bool" where
  "us_live u \<longleftrightarrow> us_fsm u = FSM_ACTIVE \<and> us_state u = USOCK_ACTIVE \<and>
     distinct (us_tasks u) \<and> set (us_tasks u) \<subseteq> {TASK_CONNECTED, TASK_SEND, TASK_RECV} \<and>
     (us_polled u \<longleftrightarrow> TASK_CONNECTED \<notin> set (us_tasks u)) \<and> (TASK_CONNECTED \<in> set (us_tasks u) \<longrightarrow> hd (us_tasks u) = TASK_CONNECTED) \<and>
     \<not> (TASK_SEND \<in> set (us_tasks u) \<and> us_pollout u) \<and> \<not> (TASK_RECV \<in> set (us_tasks u) \<and> us_pollin u) \<and>
     (us_pollin u \<or> us_pollout u \<longrightarrow> us_polled u) \<and> us_batch_pos u \<le> length (us_batch u) \<and>
     (us_sending u \<longrightarrow> us_out u \<noteq> [] \<and> [] \<notin> set (us_out u)) \<and> (us_recving u \<longrightarrow> us_len u > 0)"

definition us_dead :: "usock \<Rightarrow> bool" where
  "us_dead u \<longleftrightarrow> us_fsm u = FSM_ACTIVE \<and> (us_state u = USOCK_REMOVING_FD \<or> us_state u = USOCK_DONE)"

text \<open>The two directions, which do not touch each other.\<close>

definition same_in :: "usock \<Rightarrow> usock \<Rightarrow> bool" where
  "same_in u u' \<longleftrightarrow> us_got u' = us_got u \<and> us_len u' = us_len u \<and> us_rest u' = us_rest u \<and> us_taken u' = us_taken u \<and>
     us_recving u' = us_recving u"

definition same_out :: "usock \<Rightarrow> usock \<Rightarrow> bool" where
  "same_out u u' \<longleftrightarrow> us_out u' = us_out u \<and> us_given u' = us_given u \<and> us_sending u' = us_sending u"

lemmas us_defs = us_sending_def us_recving_def us_rest_def same_in_def same_out_def

section \<open>Pieces\<close>

lemma adjust_iov_spec:
  "n \<le> length (concat iov) \<Longrightarrow> [] \<notin> set iov \<Longrightarrow>
     \<exists>iov'. adjust_iov n iov = Some (if iov' = [] then 0 else - EAGAIN, iov') \<and> concat iov' = drop n (concat iov) \<and> [] \<notin> set iov'"
proof (induction n iov rule: adjust_iov.induct)
  case (1 iov)
  then show ?case by simp
next
  case (2 n)
  then show ?case by simp
next
  case (3 n x iov)
  show ?case
  proof (cases "Suc n \<ge> length x \<and> iov \<noteq> []")
    case True
    then have len: "Suc n - length x \<le> length (concat iov)" using "3.prems"(1) by simp
    have "[] \<notin> set iov" using "3.prems"(2) by simp
    from "3.IH" [OF _ _ len this] True show ?thesis by (auto simp del: concat.simps simp: concat.simps(2))
  next
    case False
    then show ?thesis using 3(2,3) by (cases "iov = []") auto
  qed
qed

lemma concat_filter_nonempty [simp]: "concat (filter (\<lambda>x. x \<noteq> []) iov) = concat iov"
  by (induction iov) auto

text \<open>Sending leaves what is not taken; receiving puts what is read, in the batch or not, behind what was there.\<close>

definition only_out :: "usock \<Rightarrow> usock \<Rightarrow> bool" where
  "only_out u u' \<longleftrightarrow> u' = u\<lparr>us_out := us_out u', us_given := us_given u'\<rparr>"

definition only_in :: "usock \<Rightarrow> usock \<Rightarrow> bool" where
  "only_in u u' \<longleftrightarrow> u' = u\<lparr>us_batch := us_batch u', us_batch_pos := us_batch_pos u', us_taken := us_taken u'\<rparr>"

lemma send_raw_spec:
  assumes "kernel_law k" "nn_usock_send_raw k u = Some (rc, u')" "[] \<notin> set (us_out u)"
  shows "(rc = - ECONNRESET \<and> u' = u \<and> \<not> kernel_calm k) \<or>
    (rc = (if us_out u' = [] then 0 else - EAGAIN) \<and> [] \<notin> set (us_out u') \<and>
      us_given u' @ concat (us_out u') = us_given u @ concat (us_out u) \<and> only_out u u')"
proof (cases "kn_send k (concat (us_out u))")
  case (Inl e)
  show ?thesis
  proof (cases "e = EAGAIN")
    case True
    then have "rc = (if us_out u = [] then 0 else - EAGAIN)" "u' = u" using assms(2) Inl by (auto simp: nn_usock_send_raw_def)
    then show ?thesis using assms(3) by (simp add: only_out_def)
  next
    case False
    then have "rc = - ECONNRESET" "u' = u" using assms(2) Inl by (auto simp: nn_usock_send_raw_def split: if_splits)
    moreover have "\<not> kernel_calm k" using Inl False by (auto simp: kernel_calm_def)
    ultimately show ?thesis by simp
  qed
next
  case (Inr n)
  with assms(1) have n: "n \<le> length (concat (us_out u))" by (auto simp: kernel_law_def)
  from adjust_iov_spec [OF this assms(3)] obtain iov' where
    iov: "adjust_iov n (us_out u) = Some (if iov' = [] then 0 else - EAGAIN, iov')" "concat iov' = drop n (concat (us_out u))"
      "[] \<notin> set iov'" by blast
  then have "rc = (if iov' = [] then 0 else - EAGAIN)"
      "u' = u\<lparr>us_out := iov', us_given := us_given u @ take n (concat (us_out u))\<rparr>"
    using assms(2) Inr by (simp_all add: nn_usock_send_raw_def)
  then show ?thesis using iov by (simp add: only_out_def)
qed

lemma send_raw_calm:
  assumes "kernel_law k" "kernel_calm k" "[] \<notin> set (us_out u)"
  shows "nn_usock_send_raw k u \<noteq> None"
proof (cases "kn_send k (concat (us_out u))")
  case (Inl e)
  then show ?thesis using assms(2) by (auto simp: nn_usock_send_raw_def kernel_calm_def)
next
  case (Inr n)
  with assms(1) have "n \<le> length (concat (us_out u))" by (auto simp: kernel_law_def)
  from adjust_iov_spec [OF this assms(3)] Inr show ?thesis by (auto simp: nn_usock_send_raw_def)
qed

text \<open>The four ways receiving goes: from the batch, not at all, directly into the buffer, and through the batch.\<close>

definition read_size :: "nat \<Rightarrow> usock \<Rightarrow> nat" where
  "read_size len u = (let left = len - length (us_rest u) in if left > NN_USOCK_BATCH_SIZE then left else NN_USOCK_BATCH_SIZE)"

lemma recv_raw_batch:
  "0 < len \<Longrightarrow> len \<le> length (us_rest u) \<Longrightarrow>
     nn_usock_recv_raw k len u = Some (0, take len (us_rest u), u\<lparr>us_batch_pos := us_batch_pos u + len\<rparr>)"
  by (auto simp: nn_usock_recv_raw_def us_rest_def Let_def min_def)

lemma recv_raw_fail:
  assumes "length (us_rest u) < len" "us_batch_pos u \<le> length (us_batch u)"
    "kn_recv k (read_size len u) = Inr [] \<or> (\<exists>e. kn_recv k (read_size len u) = Inl e \<and> e \<noteq> EAGAIN)"
  shows "nn_usock_recv_raw k len u = None \<or>
    nn_usock_recv_raw k len u = Some (- ECONNRESET, us_rest u, u\<lparr>us_batch_pos := length (us_batch u)\<rparr>)"
  using assms by (auto simp: nn_usock_recv_raw_def us_rest_def Let_def read_size_def split: if_splits)

lemma recv_raw_read:
  assumes "length (us_rest u) < len" "us_batch_pos u \<le> length (us_batch u)"
    "kn_recv k (read_size len u) = Inr new \<and> new \<noteq> [] \<or> kn_recv k (read_size len u) = Inl EAGAIN \<and> new = []"
    "left = len - length (us_rest u)"
  shows "nn_usock_recv_raw k len u =
    Some (0, us_rest u @ (if left > NN_USOCK_BATCH_SIZE then new else take left new),
      if left > NN_USOCK_BATCH_SIZE then u\<lparr>us_batch_pos := length (us_batch u), us_taken := us_taken u @ new\<rparr>
      else u\<lparr>us_batch_pos := length (take left new), us_taken := us_taken u @ new, us_batch := new\<rparr>)"
  using assms by (auto simp: nn_usock_recv_raw_def us_rest_def Let_def read_size_def split: if_splits)

lemma recv_raw_spec:
  assumes "kernel_law k" "nn_usock_recv_raw k len u = Some (rc, bs, u')" "0 < len" "us_batch_pos u \<le> length (us_batch u)"
  shows "(rc = - ECONNRESET \<and> \<not> kernel_calm k \<and> us_taken u' = us_taken u \<and> only_in u u') \<or>
    (rc = 0 \<and> length bs \<le> len \<and> us_batch_pos u' \<le> length (us_batch u') \<and> (length bs < len \<longrightarrow> us_rest u' = []) \<and>
      (\<exists>new. us_taken u' = us_taken u @ new \<and> us_rest u @ new = bs @ us_rest u') \<and> only_in u u')"
proof (cases "len \<le> length (us_rest u)")
  case True
  then have u': "rc = 0" "bs = take len (us_rest u)" "u' = u\<lparr>us_batch_pos := us_batch_pos u + len\<rparr>"
    using assms(2) recv_raw_batch [OF assms(3) True, of k] by auto
  have rest: "us_rest u' = drop len (us_rest u)" by (simp add: u' us_rest_def add.commute)
  have "us_batch_pos u' \<le> length (us_batch u')" using True u' assms(4) by (simp add: us_rest_def)
  moreover have "us_taken u' = us_taken u @ [] \<and> us_rest u @ [] = bs @ us_rest u'" by (simp add: u'(2) rest) (simp add: u'(3))
  moreover have "only_in u u'" by (simp add: u' only_in_def)
  ultimately show ?thesis using True u'(1,2) by fastforce
next
  case False
  let ?r = "kn_recv k (read_size len u)"
  define left where "left = len - length (us_rest u)"
  consider (fail) "?r = Inr [] \<or> (\<exists>e. ?r = Inl e \<and> e \<noteq> EAGAIN)" | (read) new where "?r = Inr new \<and> new \<noteq> [] \<or> ?r = Inl EAGAIN \<and> new = []"
    by (cases ?r) auto
  then show ?thesis
  proof cases
    case fail
    then have "rc = - ECONNRESET" "u' = u\<lparr>us_batch_pos := length (us_batch u)\<rparr>"
      using recv_raw_fail [of u len k] False assms(2,4) by auto
    moreover have "\<not> kernel_calm k" using fail by (auto simp: kernel_calm_def)
    ultimately show ?thesis by (simp add: only_in_def)
  next
    case read
    have eq: "(rc, bs, u') = (0, us_rest u @ (if left > NN_USOCK_BATCH_SIZE then new else take left new),
      if left > NN_USOCK_BATCH_SIZE then u\<lparr>us_batch_pos := length (us_batch u), us_taken := us_taken u @ new\<rparr>
      else u\<lparr>us_batch_pos := length (take left new), us_taken := us_taken u @ new, us_batch := new\<rparr>)"
      using recv_raw_read [OF _ assms(4) read left_def] False assms(2) by auto
    have size: "length new \<le> (if left > NN_USOCK_BATCH_SIZE then left else NN_USOCK_BATCH_SIZE)"
      using read assms(1) by (auto simp: kernel_law_def read_size_def Let_def left_def)
    show ?thesis
    proof (cases "left > NN_USOCK_BATCH_SIZE")
      case True
      then have "us_rest u' = []" using eq by (auto simp: us_rest_def)
      then show ?thesis using eq True size False by (auto simp: only_in_def left_def)
    next
      case small: False
      then have "us_rest u' = drop left new" using eq by (auto simp: us_rest_def min_def)
      then show ?thesis using eq small False by (auto simp: only_in_def left_def)
    qed
  qed
qed

lemma recv_raw_calm: "kernel_calm k \<Longrightarrow> nn_usock_recv_raw k len u \<noteq> None"
  unfolding kernel_calm_def nn_usock_recv_raw_def Let_def by (auto split: sum.splits if_splits option.splits)

section \<open>Calls and events\<close>

text \<open>What a call or an event does to a socket that is connected: it dies, or carries on.\<close>

definition us_unsent :: "usock \<Rightarrow> bytes" where "us_unsent u = (if us_sending u then concat (us_out u) else [])"

definition us_dies :: "kernel \<Rightarrow> usock \<Rightarrow> usock \<Rightarrow> bool" where
  "us_dies k u u' \<longleftrightarrow> us_dead u' \<and> us_given u' = us_given u \<and> us_taken u' = us_taken u \<and> \<not> kernel_calm k"

definition sends :: "bytes \<Rightarrow> usock \<Rightarrow> usock \<Rightarrow> bool" where
  "sends bs u u' \<longleftrightarrow> us_live u' \<and> same_in u u' \<and> us_given u' @ us_unsent u' = us_given u @ bs \<and>
     us_raised u' = us_raised u @ (if us_sending u' then [] else [USOCK_SENT])"

definition receives :: "bytes \<Rightarrow> nat \<Rightarrow> usock \<Rightarrow> usock \<Rightarrow> bool" where
  "receives bs n u u' \<longleftrightarrow> us_live u' \<and> same_out u u' \<and>
     (\<exists>new. us_taken u' = us_taken u @ new \<and> bs @ us_rest u @ new = us_got u' @ us_rest u') \<and>
     (if us_recving u' then length (us_got u') + us_len u' = n \<and> us_rest u' = [] \<and> us_raised u' = us_raised u
      else length (us_got u') = n \<and> us_raised u' = us_raised u @ [USOCK_RECEIVED])"

lemma live_raised [simp]:
  "us_live (u\<lparr>us_raised := r\<rparr>) = us_live u" "us_sending (u\<lparr>us_raised := r\<rparr>) = us_sending u"
  "us_recving (u\<lparr>us_raised := r\<rparr>) = us_recving u" "us_rest (u\<lparr>us_raised := r\<rparr>) = us_rest u"
  "us_unsent (u\<lparr>us_raised := r\<rparr>) = us_unsent u" "us_dead (u\<lparr>us_raised := r\<rparr>) = us_dead u"
  by (simp_all add: us_live_def us_defs us_unsent_def us_dead_def)

lemmas worker_defs = nn_worker_execute_def nn_worker_add_fd_def nn_worker_rm_fd_def nn_worker_set_in_def nn_worker_set_out_def
  nn_worker_reset_in_def nn_worker_reset_out_def nn_internal_tasks_def

lemma live_tasks: "us_live u \<Longrightarrow> t \<noteq> TASK_CONNECTED \<Longrightarrow> t \<notin> set (us_tasks u) \<Longrightarrow>
    TASK_CONNECTED \<in> set (us_tasks u @ [t]) \<longrightarrow> hd (us_tasks u @ [t]) = TASK_CONNECTED"
  by (cases "us_tasks u") (simp_all add: us_live_def)

text \<open>An error of a call leads to a task that removes the descriptor.\<close>

lemma live_feed:
  assumes "us_live u"
  shows "usock_feed k (Act UA_ERROR) u = alone (nn_usock_async_stop (u\<lparr>us_state := USOCK_REMOVING_FD\<rparr>))"
    "usock_feed k Fd_in u = alone (usock_in_ready k u)" "usock_feed k Fd_out u = alone (usock_out_ready k u)"
    "usock_feed k Fd_err u = alone (usock_fail u)"
  using assms by (simp_all add: us_live_def usock_feed_def nn_usock_handler_def nn_internal_tasks_def)

lemma feed_task [simp]:
  "usock_feed k (Task TASK_CONNECTED) u = alone (nn_worker_add_fd u)" "usock_feed k (Task TASK_SEND) u = alone (nn_worker_set_out u)"
  "usock_feed k (Task TASK_RECV) u = alone (nn_worker_set_in u)"
  by (simp_all add: usock_feed_def nn_usock_handler_def nn_usock_shutdown_def nn_internal_tasks_def)

lemma usock_only_None [simp]: "usock_only None = None"
  by (simp add: usock_only_def)

lemma usock_only_alone [simp]: "usock_only (alone r) = r"
  by (cases r) (simp_all add: usock_only_def alone_def)

lemma live_fsm: "us_live u \<Longrightarrow> us_fsm u = FSM_ACTIVE"
  by (simp add: us_live_def)

lemma usock_error_dies:
  assumes "us_live u" "usock_only (usock_feed k (Act UA_ERROR) u) = Some u'"
  shows "us_dead u' \<and> us_given u' = us_given u \<and> us_taken u' = us_taken u"
  using assms(2) live_fsm [OF assms(1)] by (auto simp: live_feed [OF assms(1)] nn_worker_execute_def nn_usock_async_stop_def usock_raise_def us_dead_def
      split: if_splits)

lemma usock_fail_dies:
  assumes "usock_fail u = Some u'" "us_fsm u = FSM_ACTIVE"
  shows "us_dead u' \<and> us_given u' = us_given u \<and> us_taken u' = us_taken u"
  using assms by (auto simp: usock_fail_def nn_worker_rm_fd_def usock_raise_def us_dead_def split: if_splits)

lemma only_outD:
  assumes "only_out u u'"
  shows "us_fsm u' = us_fsm u" "us_state u' = us_state u" "us_tasks u' = us_tasks u" "us_polled u' = us_polled u" "us_pollin u' = us_pollin u"
    "us_pollout u' = us_pollout u" "us_batch u' = us_batch u" "us_batch_pos u' = us_batch_pos u" "us_got u' = us_got u" "us_len u' = us_len u"
    "us_taken u' = us_taken u" "us_raised u' = us_raised u"
proof -
  obtain out given where "u' = u\<lparr>us_out := out, us_given := given\<rparr>" using assms unfolding only_out_def by blast
  then show "us_fsm u' = us_fsm u" "us_state u' = us_state u" "us_tasks u' = us_tasks u" "us_polled u' = us_polled u"
    "us_pollin u' = us_pollin u" "us_pollout u' = us_pollout u" "us_batch u' = us_batch u" "us_batch_pos u' = us_batch_pos u"
    "us_got u' = us_got u" "us_len u' = us_len u" "us_taken u' = us_taken u" "us_raised u' = us_raised u" by simp_all
qed

lemma only_inD:
  assumes "only_in u u'"
  shows "us_fsm u' = us_fsm u" "us_state u' = us_state u" "us_tasks u' = us_tasks u" "us_polled u' = us_polled u" "us_pollin u' = us_pollin u"
    "us_pollout u' = us_pollout u" "us_out u' = us_out u" "us_given u' = us_given u" "us_got u' = us_got u" "us_len u' = us_len u"
    "us_raised u' = us_raised u"
proof -
  obtain b p t where "u' = u\<lparr>us_batch := b, us_batch_pos := p, us_taken := t\<rparr>" using assms unfolding only_in_def by blast
  then show "us_fsm u' = us_fsm u" "us_state u' = us_state u" "us_tasks u' = us_tasks u" "us_polled u' = us_polled u"
    "us_pollin u' = us_pollin u" "us_pollout u' = us_pollout u" "us_out u' = us_out u" "us_given u' = us_given u"
    "us_got u' = us_got u" "us_len u' = us_len u" "us_raised u' = us_raised u" by simp_all
qed

lemma live_only_out:
  "us_live u \<Longrightarrow> only_out u u' \<Longrightarrow> us_out u' \<noteq> [] \<Longrightarrow> [] \<notin> set (us_out u') \<Longrightarrow> us_live u'"
  by (auto simp: us_live_def us_sending_def us_recving_def only_outD)

lemma live_only_out_idle: "us_live u \<Longrightarrow> only_out u u' \<Longrightarrow> \<not> us_sending u \<Longrightarrow> us_live u'"
  by (auto simp: us_live_def us_sending_def us_recving_def only_outD)

lemma live_only_in: "us_live u \<Longrightarrow> only_in u u' \<Longrightarrow> us_batch_pos u' \<le> length (us_batch u') \<Longrightarrow> us_live u'"
  by (auto simp: us_live_def us_sending_def us_recving_def only_inD)

lemma only_out_same_in: "only_out u u' \<Longrightarrow> same_in u u'"
  by (simp add: same_in_def us_rest_def us_recving_def only_outD)

lemma only_in_same_out: "only_in u u' \<Longrightarrow> same_out u u'"
  by (simp add: same_out_def us_sending_def only_inD)

lemma usock_send_spec:
  assumes "kernel_law k" "us_live u" "\<not> us_sending u" "nn_usock_send k iov u = Some u'"
  shows "us_dies k u u' \<or> sends (concat iov) u u'"
proof -
  let ?u = "u\<lparr>us_out := filter (\<lambda>x. x \<noteq> []) iov\<rparr>"
  have live: "us_live ?u" using assms(2,3) by (auto simp: us_live_def us_sending_def us_recving_def)
  obtain rc u1 where raw: "nn_usock_send_raw k ?u = Some (rc, u1)" using assms(4) by (auto simp: nn_usock_send_def split: option.splits if_splits)
  have "[] \<notin> set (us_out ?u)" by simp
  from send_raw_spec [OF assms(1) raw this] show ?thesis
  proof
    assume "rc = - ECONNRESET \<and> u1 = ?u \<and> \<not> kernel_calm k"
    then have "usock_only (usock_feed k (Act UA_ERROR) ?u) = Some u'" "\<not> kernel_calm k"
      using assms(4) raw by (auto simp: nn_usock_send_def ECONNRESET_def EAGAIN_def split: if_splits)
    then show ?thesis using usock_error_dies [OF live] by (auto simp: us_dies_def)
  next
    assume *: "rc = (if us_out u1 = [] then 0 else - EAGAIN) \<and> [] \<notin> set (us_out u1) \<and>
      us_given u1 @ concat (us_out u1) = us_given ?u @ concat (us_out ?u) \<and> only_out ?u u1"
    have oo: "only_out u u1" using * by (simp add: only_out_def)
    have u': "u' = (if us_out u1 = [] then usock_raise USOCK_SENT u1 else u1\<lparr>us_tasks := us_tasks u1 @ [TASK_SEND]\<rparr>)"
      using assms(4) raw * by (auto simp: nn_usock_send_def EAGAIN_def nn_worker_execute_def split: if_splits)
    have ns: "TASK_SEND \<notin> set (us_tasks u)" "\<not> us_pollout u" using assms(3) by (auto simp: us_sending_def)
    have "sends (concat iov) u u'"
    proof (cases "us_out u1 = []")
      case True
      then show ?thesis using * ns live_only_out_idle [OF assms(2) oo assms(3)] only_out_same_in [OF oo]
        by (simp add: u' sends_def usock_raise_def us_unsent_def us_sending_def only_outD [OF oo] same_in_def us_rest_def us_recving_def)
    next
      case False
      have "us_live (u1\<lparr>us_tasks := us_tasks u1 @ [TASK_SEND]\<rparr>)"
        using False * live_only_out_idle [OF assms(2) oo assms(3)] ns live_tasks [of u1 TASK_SEND]
        by (auto simp: us_live_def us_sending_def us_recving_def only_outD [OF oo])
      then show ?thesis using False * ns only_out_same_in [OF oo]
        by (simp add: u' sends_def us_unsent_def us_sending_def only_outD [OF oo] same_in_def us_rest_def us_recving_def)
    qed
    then show ?thesis ..
  qed
qed

lemma usock_recv_spec:
  assumes "kernel_law k" "us_live u" "\<not> us_recving u" "0 < len" "nn_usock_recv k len u = Some u'"
  shows "us_dies k u u' \<or> receives [] len u u'"
proof -
  obtain rc bs u1 where raw: "nn_usock_recv_raw k len u = Some (rc, bs, u1)" using assms(5) by (auto simp: nn_usock_recv_def split: option.splits if_splits)
  have pos: "us_batch_pos u \<le> length (us_batch u)" using assms(2) by (simp add: us_live_def)
  from recv_raw_spec [OF assms(1) raw assms(4) pos] show ?thesis
  proof
    assume *: "rc = - ECONNRESET \<and> \<not> kernel_calm k \<and> us_taken u1 = us_taken u \<and> only_in u u1"
    then have oi: "only_in u u1" by simp
    have st: "us_fsm u1 = FSM_ACTIVE" "us_state u1 = USOCK_ACTIVE" using assms(2) by (simp_all add: us_live_def only_inD [OF oi])
    have "usock_only (usock_feed k (Act UA_ERROR) u1) = Some u'"
      using assms(5) raw * by (auto simp: nn_usock_recv_def ECONNRESET_def split: if_splits)
    moreover have "usock_feed k (Act UA_ERROR) u1 = alone (nn_usock_async_stop (u1\<lparr>us_state := USOCK_REMOVING_FD\<rparr>))"
      using st by (simp add: usock_feed_def nn_usock_handler_def nn_internal_tasks_def)
    ultimately show ?thesis using * st by (auto simp: us_dies_def nn_worker_execute_def nn_usock_async_stop_def usock_raise_def us_dead_def
      only_inD split: if_splits)
  next
    assume *: "rc = 0 \<and> length bs \<le> len \<and> us_batch_pos u1 \<le> length (us_batch u1) \<and> (length bs < len \<longrightarrow> us_rest u1 = []) \<and>
      (\<exists>new. us_taken u1 = us_taken u @ new \<and> us_rest u @ new = bs @ us_rest u1) \<and> only_in u u1"
    then have oi: "only_in u u1" and live: "us_live u1" using live_only_in [OF assms(2)] by auto
    have u': "u' = (if length bs = len then usock_raise USOCK_RECEIVED (u1\<lparr>us_got := bs\<rparr>)
        else u1\<lparr>us_got := bs, us_len := len - length bs, us_tasks := us_tasks u1 @ [TASK_RECV]\<rparr>)"
    proof -
      have "rc = 0" using * by simp
      then show ?thesis using assms(5) raw by (auto simp: nn_usock_recv_def nn_worker_execute_def split: if_splits)
    qed
    have nr: "TASK_RECV \<notin> set (us_tasks u)" "\<not> us_pollin u" using assms(3) by (auto simp: us_recving_def)
    have live': "us_live u'"
    proof (cases "length bs = len")
      case True
      have "us_live (u1\<lparr>us_got := bs\<rparr>)" using live by (auto simp: us_live_def us_sending_def us_recving_def)
      then show ?thesis using True by (simp add: u' usock_raise_def)
    next
      case False
      then have "0 < len - length bs" using * by simp
      then show ?thesis using live live_tasks [OF live, of TASK_RECV] nr False
        by (auto simp: u' us_live_def us_sending_def us_recving_def only_inD [OF oi])
    qed
    have "us_rest u' = us_rest u1" "us_taken u' = us_taken u1" "us_got u' = bs" by (auto simp: u' usock_raise_def us_rest_def)
    moreover have "if length bs = len then us_raised u' = us_raised u @ [USOCK_RECEIVED]
        else us_raised u' = us_raised u \<and> us_len u' = len - length bs" by (simp add: u' usock_raise_def only_inD [OF oi])
    moreover have "same_out u u'" by (auto simp: u' usock_raise_def same_out_def us_sending_def only_inD [OF oi])
    moreover have "us_recving u' \<longleftrightarrow> length bs \<noteq> len" using nr by (auto simp: u' usock_raise_def us_recving_def only_inD [OF oi])
    ultimately have "receives [] len u u'" using live' *
      by (auto simp: receives_def split: if_splits)
    then show ?thesis ..
  qed
qed

lemma fd_in_spec:
  assumes "kernel_law k" "us_live u" "us_pollin u" "usock_in_ready k u = Some u'"
  shows "us_dies k u u' \<or> receives (us_got u) (length (us_got u) + us_len u) u u'"
proof -
  obtain rc bs u1 where raw: "nn_usock_recv_raw k (us_len u) u = Some (rc, bs, u1)" using assms(4) by (auto simp: usock_in_ready_def split: option.splits)
  have pos: "us_batch_pos u \<le> length (us_batch u)" and len: "0 < us_len u"
    using assms(2,3) by (auto simp: us_live_def us_recving_def)
  from recv_raw_spec [OF assms(1) raw len pos] show ?thesis
  proof
    assume *: "rc = - ECONNRESET \<and> \<not> kernel_calm k \<and> us_taken u1 = us_taken u \<and> only_in u u1"
    then have "usock_fail u1 = Some u'" using assms(4) raw by (auto simp: usock_in_ready_def ECONNRESET_def split: if_splits)
    moreover have "us_fsm u1 = FSM_ACTIVE" using * assms(2) by (auto simp: us_live_def only_inD)
    ultimately show ?thesis using usock_fail_dies * by (auto simp: us_dies_def only_inD)
  next
    assume *: "rc = 0 \<and> length bs \<le> us_len u \<and> us_batch_pos u1 \<le> length (us_batch u1) \<and> (length bs < us_len u \<longrightarrow> us_rest u1 = []) \<and>
      (\<exists>new. us_taken u1 = us_taken u @ new \<and> us_rest u @ new = bs @ us_rest u1) \<and> only_in u u1"
    then have oi: "only_in u u1" and live: "us_live u1" using live_only_in [OF assms(2)] by auto
    have no: "TASK_RECV \<notin> set (us_tasks u)" "us_polled u" using assms(2,3) by (auto simp: us_live_def)
    let ?u2 = "u1\<lparr>us_len := us_len u1 - length bs, us_got := us_got u1 @ bs\<rparr>"
    have u': "u' = (if length bs = us_len u then usock_raise USOCK_RECEIVED (?u2\<lparr>us_pollin := False\<rparr>) else ?u2)"
    proof -
      have "rc = 0" "length bs \<le> us_len u" using * by auto
      then show ?thesis using assms(3,4) raw no
        by (auto simp: usock_in_ready_def nn_worker_reset_in_def only_inD [OF oi] Let_def split: if_splits)
    qed
    have live': "us_live u'"
    proof (cases "length bs = us_len u")
      case True
      have "us_live (?u2\<lparr>us_pollin := False\<rparr>)" using live no by (auto simp: us_live_def us_sending_def us_recving_def only_inD [OF oi])
      then show ?thesis using True by (simp add: u' usock_raise_def)
    next
      case False
      then have "0 < us_len u - length bs" using * by simp
      then have "us_live ?u2" using live by (auto simp: us_live_def us_sending_def us_recving_def only_inD [OF oi])
      then show ?thesis using False by (simp add: u')
    qed
    have "us_rest u' = us_rest u1" "us_taken u' = us_taken u1" "us_got u' = us_got u @ bs"
      by (auto simp: u' usock_raise_def us_rest_def only_inD [OF oi])
    moreover have "if length bs = us_len u then us_raised u' = us_raised u @ [USOCK_RECEIVED]
        else us_raised u' = us_raised u \<and> us_len u' = us_len u - length bs" by (simp add: u' usock_raise_def only_inD [OF oi])
    moreover have "same_out u u'" by (auto simp: u' usock_raise_def same_out_def us_sending_def only_inD [OF oi])
    moreover have "us_recving u' \<longleftrightarrow> length bs \<noteq> us_len u" using no assms(3) by (auto simp: u' usock_raise_def us_recving_def only_inD [OF oi])
    ultimately have "receives (us_got u) (length (us_got u) + us_len u) u u'" using live' *
      by (auto simp: receives_def split: if_splits)
    then show ?thesis ..
  qed
qed

lemma fd_out_spec:
  assumes "kernel_law k" "us_live u" "us_pollout u" "usock_out_ready k u = Some u'"
  shows "us_dies k u u' \<or> sends (us_unsent u) u u'"
proof -
  obtain rc u1 where raw: "nn_usock_send_raw k u = Some (rc, u1)" using assms(4) by (auto simp: usock_out_ready_def split: option.splits)
  have out: "[] \<notin> set (us_out u)" "us_unsent u = concat (us_out u)" and no: "TASK_SEND \<notin> set (us_tasks u)" "us_polled u"
    using assms(2,3) by (auto simp: us_live_def us_sending_def us_unsent_def)
  from send_raw_spec [OF assms(1) raw out(1)] show ?thesis
  proof
    assume *: "rc = - ECONNRESET \<and> u1 = u \<and> \<not> kernel_calm k"
    then have "usock_fail u = Some u'" using assms(4) raw by (auto simp: usock_out_ready_def ECONNRESET_def EAGAIN_def split: if_splits)
    then show ?thesis using usock_fail_dies [of u u'] assms(2) * by (auto simp: us_dies_def us_live_def)
  next
    assume *: "rc = (if us_out u1 = [] then 0 else - EAGAIN) \<and> [] \<notin> set (us_out u1) \<and>
      us_given u1 @ concat (us_out u1) = us_given u @ concat (us_out u) \<and> only_out u u1"
    then have oo: "only_out u u1" by simp
    have u': "u' = (if us_out u1 = [] then usock_raise USOCK_SENT (u1\<lparr>us_pollout := False\<rparr>) else u1)"
      using assms(3,4) raw * no by (auto simp: usock_out_ready_def nn_worker_reset_out_def only_outD EAGAIN_def split: if_splits)
    have "sends (us_unsent u) u u'"
    proof (cases "us_out u1 = []")
      case True
      have "us_live (u1\<lparr>us_pollout := False\<rparr>)"
        using assms(2) no by (auto simp: us_live_def us_sending_def us_recving_def only_outD [OF oo])
      then show ?thesis using True * no out(2) only_out_same_in [OF oo]
        by (simp add: u' sends_def usock_raise_def us_unsent_def us_sending_def only_outD [OF oo] same_in_def us_rest_def us_recving_def)
    next
      case False
      have "us_live u1" using live_only_out [OF assms(2) oo False] * by simp
      then show ?thesis using False * out(2) assms(3) only_out_same_in [OF oo]
        by (simp add: u' sends_def us_unsent_def us_sending_def only_outD [OF oo])
    qed
    then show ?thesis ..
  qed
qed

text \<open>The tasks of the worker, in the order they were posted, only say what is polled for.\<close>

definition us_same :: "usock \<Rightarrow> usock \<Rightarrow> bool" where
  "us_same u u' \<longleftrightarrow> us_live u' \<and> same_in u u' \<and> same_out u u' \<and> us_raised u' = us_raised u"

lemma task_spec:
  assumes "us_live u" "us_tasks u = t # ts"
  obtains u' where "usock_only (usock_feed k (Task t) (u\<lparr>us_tasks := ts\<rparr>)) = Some u'" "us_same u u'"
proof -
  have "t \<in> {TASK_CONNECTED, TASK_SEND, TASK_RECV}" using assms by (auto simp: us_live_def)
  then consider (c) "t = TASK_CONNECTED" | (s) "t = TASK_SEND" | (r) "t = TASK_RECV" by auto
  then show ?thesis
  proof cases
    case c
    let ?u = "u\<lparr>us_tasks := ts, us_polled := True, us_pollin := False, us_pollout := False\<rparr>"
    have "us_same u ?u" "usock_only (usock_feed k (Task t) (u\<lparr>us_tasks := ts\<rparr>)) = Some ?u"
      using assms c by (auto simp: us_same_def us_live_def us_sending_def us_recving_def us_rest_def same_in_def same_out_def nn_worker_add_fd_def)
    then show ?thesis using that by blast
  next
    case s
    let ?u = "u\<lparr>us_tasks := ts, us_pollout := True\<rparr>"
    have "us_same u ?u" "usock_only (usock_feed k (Task t) (u\<lparr>us_tasks := ts\<rparr>)) = Some ?u"
      using assms s by (auto simp: us_same_def us_live_def us_sending_def us_recving_def us_rest_def same_in_def same_out_def nn_worker_set_out_def)
    then show ?thesis using that by blast
  next
    case r
    let ?u = "u\<lparr>us_tasks := ts, us_pollin := True\<rparr>"
    have "us_same u ?u" "usock_only (usock_feed k (Task t) (u\<lparr>us_tasks := ts\<rparr>)) = Some ?u"
      using assms r by (auto simp: us_same_def us_live_def us_sending_def us_recving_def us_rest_def same_in_def same_out_def nn_worker_set_in_def)
    then show ?thesis using that by blast
  qed
qed

section \<open>No abort while the kernel reports no failure\<close>

lemma usock_send_calm:
  assumes "kernel_law k" "kernel_calm k" "us_live u" "\<not> us_sending u" "length iov \<le> 3"
  shows "nn_usock_send k iov u \<noteq> None"
proof -
  let ?u = "u\<lparr>us_out := filter (\<lambda>x. x \<noteq> []) iov\<rparr>"
  have ne: "[] \<notin> set (us_out ?u)" by simp
  obtain rc u1 where raw: "nn_usock_send_raw k ?u = Some (rc, u1)" using send_raw_calm [OF assms(1,2) ne] by auto
  from send_raw_spec [OF assms(1) raw ne] assms(2) have "rc = (if us_out u1 = [] then 0 else - EAGAIN)" "only_out ?u u1" by auto
  then show ?thesis using raw assms(3-5)
    by (auto simp: nn_usock_send_def us_live_def us_sending_def nn_worker_execute_def only_outD EAGAIN_def)
qed

lemma usock_recv_calm:
  assumes "kernel_law k" "kernel_calm k" "us_live u" "\<not> us_recving u" "0 < len"
  shows "nn_usock_recv k len u \<noteq> None"
proof -
  obtain rc bs u1 where raw: "nn_usock_recv_raw k len u = Some (rc, bs, u1)" using recv_raw_calm [OF assms(2), of len u] by auto
  have pos: "us_batch_pos u \<le> length (us_batch u)" using assms(3) by (simp add: us_live_def)
  from recv_raw_spec [OF assms(1) raw assms(5) pos] assms(2) have "rc = 0" "only_in u u1" by auto
  then show ?thesis using raw assms(3,4)
    by (auto simp: nn_usock_recv_def us_live_def us_recving_def nn_worker_execute_def only_inD)
qed

lemma fd_in_calm:
  assumes "kernel_law k" "kernel_calm k" "us_live u" "us_pollin u"
  shows "usock_in_ready k u \<noteq> None"
proof -
  obtain rc bs u1 where raw: "nn_usock_recv_raw k (us_len u) u = Some (rc, bs, u1)" using recv_raw_calm [OF assms(2), of "us_len u" u] by auto
  have pos: "us_batch_pos u \<le> length (us_batch u)" "0 < us_len u" "us_polled u" using assms(3,4) by (auto simp: us_live_def us_recving_def)
  from recv_raw_spec [OF assms(1) raw pos(2,1)] assms(2) have "rc = 0" "only_in u u1" by auto
  then show ?thesis using raw pos(3) by (auto simp: usock_in_ready_def nn_worker_reset_in_def only_inD Let_def)
qed

lemma fd_out_calm:
  assumes "kernel_law k" "kernel_calm k" "us_live u" "us_pollout u"
  shows "usock_out_ready k u \<noteq> None"
proof -
  have out: "[] \<notin> set (us_out u)" "us_polled u" using assms(3,4) by (auto simp: us_live_def us_sending_def)
  obtain rc u1 where raw: "nn_usock_send_raw k u = Some (rc, u1)" using send_raw_calm [OF assms(1,2) out(1)] by auto
  from send_raw_spec [OF assms(1) raw out(1)] assms(2) have "rc = (if us_out u1 = [] then 0 else - EAGAIN)" "only_out u u1" by auto
  then show ?thesis using raw out(2) by (auto simp: usock_out_ready_def nn_worker_reset_out_def only_outD)
qed

lemma dies_calm: "kernel_calm k \<Longrightarrow> \<not> us_dies k u u'"
  by (simp add: us_dies_def)

end
