(* ===== verification/Nn_Stream_Spec.thy ===== *)
theory Nn_Stream_Spec
  imports Nn_Stream Nn_Usock_Spec "HOL-Library.Sublist"
begin

text \<open>
  What a connection carries: the bytes it gives to the kernel are its protocol header and the frames of the messages that were sent, the bytes that it takes
  are the header of the peer and the frames of the messages that were received, up to what is on its way. This holds through all states
  of the exchange of headers and of the session, and a step of a state in which it holds is not an abort while the kernel is calm and the peer speaks the protocol.
\<close>

section \<open>Frames\<close>

definition content :: "msg \<Rightarrow> bytes" where "content m = m_sphdr m @ m_body m"

definition frame :: "stream_env \<Rightarrow> bytes \<Rightarrow> bytes" where "frame env b = se_first env @ nn_putll (of_nat (length b)) @ b"

definition outstream :: "stream_env \<Rightarrow> msg list \<Rightarrow> bytes" where
  "outstream env ms = protohdr (se_protocol env) @ concat (map (frame env \<circ> content) ms)"

lemma length_protohdr [simp]: "length (protohdr p) = 8"
  by (simp add: protohdr_def)

lemma unat_length: "length b < 2 ^ 64 \<Longrightarrow> unat (of_nat (length b) :: u64) = length b"
  by (simp add: unsigned_of_nat take_bit_nat_eq_self)

text \<open>Frames can be told apart: what begins with the same bytes has the same first frame.\<close>

lemma frame_inject:
  assumes "frame env b @ r = frame env b' @ r'" "length b < 2 ^ 64" "length b' < 2 ^ 64"
  shows "b = b' \<and> r = r'"
proof -
  let ?n = "of_nat (length b) :: u64" and ?n' = "of_nat (length b') :: u64"
  have *: "nn_putll ?n @ (b @ r) = nn_putll ?n' @ (b' @ r')" using assms(1) by (simp add: frame_def)
  then have "nn_getll (nn_putll ?n @ (b @ r)) = nn_getll (nn_putll ?n' @ (b' @ r'))" by (rule arg_cong)
  then have "?n = ?n'" by (simp only: get_put)
  then have "length b = length b'" using unat_length [OF assms(2)] unat_length [OF assms(3)] by metis
  then show ?thesis using * \<open>?n = ?n'\<close> by simp
qed

lemma frames_prefix:
  assumes "prefix (concat (map (frame env) bs) @ r) (concat (map (frame env) cs))" "\<forall>b \<in> set bs \<union> set cs. length b < 2 ^ 64"
  shows "prefix bs cs"
  using assms
proof (induction bs arbitrary: cs)
  case (Cons b bs)
  show ?case
  proof (cases cs)
    case Nil
    then show ?thesis using Cons.prems(1) by (simp add: frame_def) (metis length_0_conv length_put(3) zero_neq_numeral)
  next
    case (Cons c cs')
    then obtain z where "frame env b @ concat (map (frame env) bs) @ r @ z = frame env c @ concat (map (frame env) cs')"
      using Cons.prems(1) by (auto simp: prefix_def)
    from frame_inject [OF this] have "b = c" "concat (map (frame env) bs) @ r @ z = concat (map (frame env) cs')"
      using Cons.prems(2) \<open>cs = c # cs'\<close> by auto
    then have "prefix (concat (map (frame env) bs) @ r) (concat (map (frame env) cs'))" by (metis append.assoc prefixI)
    then have "prefix bs cs'" using Cons.IH [of cs'] Cons.prems(2) \<open>cs = c # cs'\<close> by simp
    then show ?thesis using \<open>b = c\<close> \<open>cs = c # cs'\<close> by simp
  qed
qed simp

lemma stream_frame_eq: "stream_frame env m = frame env (content m)"
  by (simp add: stream_frame_def frame_def content_def)

lemma outstream_snoc: "outstream env (ms @ [m]) = outstream env ms @ frame env (content m)"
  by (simp add: outstream_def)

section \<open>Steps of the record\<close>

lemma raise_all_Some: "conn_raise_all evs c = Some c' \<Longrightarrow> c' = c\<lparr>cn_events := cn_events c @ evs\<rparr>"
proof (induction evs arbitrary: c)
  case (Cons ev evs)
  then have "conn_raise_all evs (c\<lparr>cn_events := cn_events c @ [ev]\<rparr>) = Some c'" by (auto simp: conn_raise_def split: if_splits)
  from Cons.IH [OF this] show ?case by simp
qed simp

lemma us_doE:
  assumes "us_do f c = Some c'"
  obtains u where "f (cn_usock c) = Some u"
    "c' = c\<lparr>cn_usock := u\<lparr>us_raised := []\<rparr>, cn_events := cn_events c @ map (Us (cn_owner c)) (us_raised u)\<rparr>"
  using assms raise_all_Some by (fastforce simp: us_do_def split: option.splits)

lemma us_doI:
  assumes "f (cn_usock c) = Some u" "us_raised u = [] \<or> us_raised u = [e] \<and> conn_object (Us Own_ep e) \<notin> conn_object ` set (cn_events c)"
  shows "us_do f c = Some (c\<lparr>cn_usock := u\<lparr>us_raised := []\<rparr>, cn_events := cn_events c @ map (Us (cn_owner c)) (us_raised u)\<rparr>)"
  using assms by (auto simp: us_do_def conn_raise_def)

section \<open>The invariant\<close>

text \<open>What can have arrived: nothing, or the header of the peer, and the frames of the messages that were handed over, in front of what else has.\<close>

definition arrived :: "stream_env \<Rightarrow> bytes list \<Rightarrow> bytes \<Rightarrow> bool" where
  "arrived env rcv taken \<longleftrightarrow> rcv = [] \<or> (\<exists>h. length h = 8 \<and> prefix (h @ concat (map (frame env) rcv)) taken)"

definition timer_on :: "nn_timer \<Rightarrow> bool" where "timer_on tm \<longleftrightarrow> tm_fsm tm = FSM_ACTIVE \<and> tm_state tm = FSM_ACTIVE"
definition timer_off :: "nn_timer \<Rightarrow> bool" where "timer_off tm \<longleftrightarrow> tm_fsm tm = FSM_IDLE \<and> tm_state tm = FSM_IDLE"
definition timer_stopping :: "nn_timer \<Rightarrow> bool" where "timer_stopping tm \<longleftrightarrow> tm_fsm tm = FSM_STOPPING \<and> tm_state tm = FSM_STOPPING"

text \<open>The exchange of headers: who owns the socket, and what each of its states waits for.\<close>

definition hdr_phase :: "conn \<Rightarrow> bool" where
  "hdr_phase c \<longleftrightarrow> st_state c = STCP_PROTOHDR \<and> st_fsm c = FSM_ACTIVE \<and> hd_fsm c = FSM_ACTIVE \<and> hd_owner c = Some Own_ses \<and>
     cn_owner c = Own_hdr \<and> pb_state (st_pipe c) = PIPEBASE_IDLE"

definition sending_phase :: "conn \<Rightarrow> bool" where
  "sending_phase c \<longleftrightarrow> (let u = cn_usock c in hdr_phase c \<and> hd_state c = HDR_SENDING \<and> timer_on (hd_timer c) \<and> \<not> us_recving u \<and> us_taken u = us_rest u \<and>
     (cn_events c = [] \<and> us_sending u \<or> cn_events c = [Us Own_hdr USOCK_SENT] \<and> \<not> us_sending u \<or> cn_events c = [Tm TIMER_TIMEOUT]))"

definition receiving_phase :: "conn \<Rightarrow> bool" where
  "receiving_phase c \<longleftrightarrow> (let u = cn_usock c in hdr_phase c \<and> hd_state c = HDR_RECEIVING \<and> timer_on (hd_timer c) \<and> \<not> us_sending u \<and>
     us_taken u = us_got u @ us_rest u \<and>
     (cn_events c = [] \<and> us_recving u \<and> length (us_got u) + us_len u = 8 \<or>
      cn_events c = [Us Own_hdr USOCK_RECEIVED] \<and> \<not> us_recving u \<and> length (us_got u) = 8 \<or> cn_events c = [Tm TIMER_TIMEOUT]))"

definition refusing_phase :: "conn \<Rightarrow> bool" where
  "refusing_phase c \<longleftrightarrow> hdr_phase c \<and> hd_state c = HDR_STOPPING_TIMER_ERROR \<and>
     (timer_stopping (hd_timer c) \<and> (cn_events c = [] \<or> (\<exists>e. cn_events c = [Us Own_hdr e])) \<or>
      timer_off (hd_timer c) \<and> cn_events c = [Tm TIMER_STOPPED])"

text \<open>The header has been received, and nothing else has been asked for.\<close>

definition has_header :: "conn \<Rightarrow> bool" where
  "has_header c \<longleftrightarrow> (let u = cn_usock c in \<not> us_sending u \<and> \<not> us_recving u \<and> us_taken u = us_got u @ us_rest u \<and> length (us_got u) = 8)"

definition accepting_phase :: "conn \<Rightarrow> bool" where
  "accepting_phase c \<longleftrightarrow> hdr_phase c \<and> hd_state c = HDR_STOPPING_TIMER_DONE \<and> has_header c \<and>
     (timer_stopping (hd_timer c) \<and> cn_events c = [] \<or> timer_off (hd_timer c) \<and> cn_events c = [Tm TIMER_STOPPED])"

definition finished_phase :: "conn \<Rightarrow> bool" where
  "finished_phase c \<longleftrightarrow> st_state c = STCP_PROTOHDR \<and> st_fsm c = FSM_ACTIVE \<and> hd_fsm c = FSM_ACTIVE \<and> hd_state c = HDR_FINISHED \<and>
     cn_owner c = Own_ses \<and> pb_state (st_pipe c) = PIPEBASE_IDLE \<and> timer_off (hd_timer c) \<and>
     (cn_events c = [Hd HDR_ERROR] \<or> cn_events c = [Hd HDR_OK] \<and> has_header c)"

definition starting_phase :: "conn \<Rightarrow> bool" where
  "starting_phase c \<longleftrightarrow> st_state c = STCP_STOPPING_STREAMHDR \<and> st_fsm c = FSM_ACTIVE \<and>
     cn_owner c = Own_ses \<and> pb_state (st_pipe c) = PIPEBASE_IDLE \<and> timer_off (hd_timer c) \<and>
     cn_events c = [Hd HDR_STOPPED] \<and> has_header c"

text \<open>The session: what has come in so far, of the header and the body of a message, and what is going out.\<close>

definition in_ok :: "stream_env \<Rightarrow> conn \<Rightarrow> bytes list \<Rightarrow> bool" where
  "in_ok env c rcv \<longleftrightarrow> (let u = cn_usock c; pending = (Us Own_ses USOCK_RECEIVED \<in> set (cn_events c));
       waiting = (\<lambda>n. pb_instate (st_pipe c) = IO_ASYNC \<and> pending \<noteq> us_recving u \<and>
         (if us_recving u then length (us_got u) + us_len u = n \<and> us_rest u = [] else length (us_got u) = n)) in
     \<exists>h. length h = 8 \<and>
       (case st_instate c of
          IN_NONE \<Rightarrow> False
        | IN_HDR \<Rightarrow> us_taken u = h @ concat (map (frame env) rcv) @ us_got u @ us_rest u \<and> waiting (stream_hdrsize env)
        | IN_BODY \<Rightarrow> (\<exists>sz :: u64. us_taken u = h @ concat (map (frame env) rcv) @ se_first env @ nn_putll sz @ us_got u @ us_rest u \<and>
            waiting (unat sz))
        | IN_HASMSG \<Rightarrow> us_taken u = h @ concat (map (frame env) rcv) @ frame env (st_inmsg c) @ us_rest u \<and> length (st_inmsg c) < 2 ^ 64 \<and>
            pb_instate (st_pipe c) = IO_IDLE \<and> \<not> pending \<and> \<not> us_recving u))"

definition out_ok :: "conn \<Rightarrow> bool" where
  "out_ok c \<longleftrightarrow> (let u = cn_usock c; pending = (Us Own_ses USOCK_SENT \<in> set (cn_events c)) in
     case st_outstate c of
       OUT_NONE \<Rightarrow> False
     | OUT_IDLE \<Rightarrow> \<not> us_sending u \<and> \<not> pending \<and> pb_outstate (st_pipe c) = IO_IDLE
     | OUT_SENDING \<Rightarrow> pending \<noteq> us_sending u \<and> pb_outstate (st_pipe c) = IO_ASYNC)"

definition active_phase :: "stream_env \<Rightarrow> conn \<Rightarrow> bytes list \<Rightarrow> bool" where
  "active_phase env c rcv \<longleftrightarrow> st_state c = STCP_ACTIVE \<and> st_fsm c = FSM_ACTIVE \<and> cn_owner c = Own_ses \<and> timer_off (hd_timer c) \<and>
     distinct (cn_events c) \<and> set (cn_events c) \<subseteq> {Us Own_ses USOCK_SENT, Us Own_ses USOCK_RECEIVED} \<and>
     in_ok env c rcv \<and> out_ok c"

definition phase :: "stream_env \<Rightarrow> conn \<Rightarrow> msg list \<Rightarrow> bytes list \<Rightarrow> bool" where
  "phase env c snt rcv \<longleftrightarrow>
     snt = [] \<and> rcv = [] \<and> (sending_phase c \<or> receiving_phase c \<or> refusing_phase c \<or> accepting_phase c \<or> finished_phase c \<or> starting_phase c) \<or>
     active_phase env c rcv \<or> st_state c = STCP_DONE \<and> st_fsm c = FSM_ACTIVE \<and> (\<forall>ev \<in> set (cn_events c). \<exists>e. ev = Ss e)"

text \<open>\<open>d\<close> says whether the socket may have failed.\<close>

definition conn_ok :: "bool \<Rightarrow> stream_env \<Rightarrow> conn \<Rightarrow> msg list \<Rightarrow> bytes list \<Rightarrow> bool" where
  "conn_ok d env c snt rcv \<longleftrightarrow> (let u = cn_usock c in
     arrived env rcv (us_taken u) \<and> prefix (us_given u) (outstream env snt) \<and> us_raised u = [] \<and>
     (us_dead u \<and> d \<or> us_live u \<and> us_given u @ us_unsent u = outstream env snt \<and> phase env c snt rcv))"

section \<open>Calls of the socket\<close>

text \<open>The outcome of a step: the invariant holds again, and with a calm kernel it is not an abort.\<close>

definition ok_step :: "bool \<Rightarrow> bool \<Rightarrow> stream_env \<Rightarrow> msg list \<Rightarrow> bytes list \<Rightarrow> conn option \<Rightarrow> bool" where
  "ok_step d calm env snt rcv r \<longleftrightarrow> (\<forall>c. r = Some c \<longrightarrow> conn_ok d env c snt rcv) \<and> (calm \<longrightarrow> r \<noteq> None)"

lemma ok_stepI: "r = Some c \<Longrightarrow> conn_ok d env c snt rcv \<Longrightarrow> ok_step d calm env snt rcv r"
  by (simp add: ok_step_def)

lemma ok_step_mono: "ok_step d calm env snt rcv r \<Longrightarrow> (calm' \<Longrightarrow> calm) \<Longrightarrow> ok_step d calm' env snt rcv r"
  by (auto simp: ok_step_def)

lemma ok_step_Some [simp]: "ok_step d calm env snt rcv (Some c) = conn_ok d env c snt rcv"
  by (simp add: ok_step_def)

text \<open>What a receiving call or event leaves of a connected socket, and a sending one.\<close>

definition recvd :: "bytes \<Rightarrow> nat \<Rightarrow> usock \<Rightarrow> usock \<Rightarrow> bool" where
  "recvd bs n u u1 \<longleftrightarrow> us_live u1 \<and> us_raised u1 = [] \<and> same_out u u1 \<and>
     (\<exists>new. us_taken u1 = us_taken u @ new \<and> bs @ us_rest u @ new = us_got u1 @ us_rest u1) \<and>
     (if us_recving u1 then length (us_got u1) + us_len u1 = n \<and> us_rest u1 = [] else length (us_got u1) = n)"

definition sent :: "bytes \<Rightarrow> usock \<Rightarrow> usock \<Rightarrow> bool" where
  "sent bs u u1 \<longleftrightarrow> us_live u1 \<and> us_raised u1 = [] \<and> same_in u u1 \<and> us_given u1 @ us_unsent u1 = us_given u @ bs"

lemma recvd_taken: "recvd bs n u u1 \<Longrightarrow> us_taken u = x @ bs @ us_rest u \<Longrightarrow> us_taken u1 = x @ us_got u1 @ us_rest u1"
  by (auto simp: recvd_def)

lemma recvd_grows: "recvd bs n u u1 \<Longrightarrow> prefix (us_taken u) (us_taken u1)"
  by (auto simp: recvd_def)

lemma arrived_grows: "arrived env rcv t \<Longrightarrow> prefix t t' \<Longrightarrow> arrived env rcv t'"
  by (auto simp: arrived_def intro: prefix_order.trans)

lemma unsent_same_out: "same_out u u1 \<Longrightarrow> us_given u1 = us_given u \<and> us_unsent u1 = us_unsent u \<and> us_sending u1 = us_sending u"
  by (simp add: same_out_def us_unsent_def)

text \<open>A socket that dies leaves the invariant.\<close>

lemma dies_ok:
  assumes "us_dies k u u'" "arrived env rcv (us_taken u)" "prefix (us_given u) (outstream env snt)" "kernel_calm k \<or> d"
    "cn_usock c' = u'\<lparr>us_raised := []\<rparr>"
  shows "conn_ok d env c' snt rcv"
  using assms by (simp add: us_dies_def conn_ok_def)

lemma step_intro:
  assumes f: "\<And>u'. f (cn_usock c) = Some u' \<Longrightarrow> us_dies k (cn_usock c) u' \<or> R u'"
    and R: "\<And>u'. R u' \<Longrightarrow> us_raised u' = [] \<or> us_raised u' = [e]"
    and calm: "kernel_calm k \<Longrightarrow> f (cn_usock c) \<noteq> None" "kernel_calm k \<Longrightarrow> conn_object (Us Own_ep e) \<notin> conn_object ` set (cn_events c)"
    and weak: "arrived env rcv (us_taken (cn_usock c))" "prefix (us_given (cn_usock c)) (outstream env snt)" "kernel_calm k \<or> d"
    and g: "\<And>c. cn_usock (g c) = cn_usock c"
    and live: "\<And>u'. R u' \<Longrightarrow>
      conn_ok d env (g (c\<lparr>cn_usock := u'\<lparr>us_raised := []\<rparr>, cn_events := cn_events c @ map (Us (cn_owner c)) (us_raised u')\<rparr>)) snt rcv"
  shows "ok_step d (kernel_calm k) env snt rcv (map_option g (us_do f c))"
  unfolding ok_step_def
proof (intro conjI allI impI)
  fix c'
  assume "map_option g (us_do f c) = Some c'"
  then obtain u where u: "f (cn_usock c) = Some u"
      "c' = g (c\<lparr>cn_usock := u\<lparr>us_raised := []\<rparr>, cn_events := cn_events c @ map (Us (cn_owner c)) (us_raised u)\<rparr>)"
    by (auto elim: us_doE)
  from f [OF u(1)] show "conn_ok d env c' snt rcv"
  proof
    assume "us_dies k (cn_usock c) u"
    then show ?thesis by (rule dies_ok [OF _ weak]) (simp add: u(2) g)
  qed (use live u(2) in simp)
next
  assume k: "kernel_calm k"
  with calm(1) obtain u where u: "f (cn_usock c) = Some u" by auto
  with f dies_calm [OF k] have "R u" by blast
  from us_doI [where f = f and c = c and u = u and e = e, OF u] R [OF this] calm(2) [OF k] show "map_option g (us_do f c) \<noteq> None" by auto
qed

lemma receives_recvd: "receives bs n u u' \<Longrightarrow> us_raised u = [] \<Longrightarrow>
    recvd bs n u (u'\<lparr>us_raised := []\<rparr>) \<and> us_raised u' = (if us_recving u' then [] else [USOCK_RECEIVED])"
  by (auto simp: receives_def recvd_def same_out_def us_rest_def us_recving_def us_sending_def)

lemma sends_sent: "sends bs u u' \<Longrightarrow> us_raised u = [] \<Longrightarrow>
    sent bs u (u'\<lparr>us_raised := []\<rparr>) \<and> us_raised u' = (if us_sending u' then [] else [USOCK_SENT])"
  by (auto simp: sends_def sent_def same_in_def us_rest_def us_recving_def us_sending_def)

abbreviation with_recvd :: "usock \<Rightarrow> conn \<Rightarrow> conn" where
  "with_recvd u1 c \<equiv> c\<lparr>cn_usock := u1, cn_events := cn_events c @ (if us_recving u1 then [] else [Us (cn_owner c) USOCK_RECEIVED])\<rparr>"

abbreviation with_sent :: "usock \<Rightarrow> conn \<Rightarrow> conn" where
  "with_sent u1 c \<equiv> c\<lparr>cn_usock := u1, cn_events := cn_events c @ (if us_sending u1 then [] else [Us (cn_owner c) USOCK_SENT])\<rparr>"

lemma us_recv_step:
  assumes law: "kernel_law k" and u: "us_live (cn_usock c)" "us_raised (cn_usock c) = []" "\<not> us_recving (cn_usock c)" "0 < n"
    and fresh: "(0, 2) \<notin> conn_object ` set (cn_events c)"
    and weak: "arrived env rcv (us_taken (cn_usock c))" "prefix (us_given (cn_usock c)) (outstream env snt)" "kernel_calm k \<or> d"
    and g: "\<And>c. cn_usock (g c) = cn_usock c"
    and live: "\<And>u1. recvd [] n (cn_usock c) u1 \<Longrightarrow> conn_ok d env (g (with_recvd u1 c)) snt rcv"
  shows "ok_step d (kernel_calm k) env snt rcv (map_option g (us_do (nn_usock_recv k n) c))"
proof (rule step_intro [where R = "receives [] n (cn_usock c)" and e = USOCK_RECEIVED])
  show "\<And>u'. nn_usock_recv k n (cn_usock c) = Some u' \<Longrightarrow> us_dies k (cn_usock c) u' \<or> receives [] n (cn_usock c) u'"
    by (rule usock_recv_spec [OF law u(1,3,4)])
  show "\<And>u'. receives [] n (cn_usock c) u' \<Longrightarrow> us_raised u' = [] \<or> us_raised u' = [USOCK_RECEIVED]"
    using receives_recvd [OF _ u(2)] by auto
  show "kernel_calm k \<Longrightarrow> nn_usock_recv k n (cn_usock c) \<noteq> None" by (rule usock_recv_calm [OF law _ u(1,3,4)])
  show "\<And>u'. receives [] n (cn_usock c) u' \<Longrightarrow> conn_ok d env
      (g (c\<lparr>cn_usock := u'\<lparr>us_raised := []\<rparr>, cn_events := cn_events c @ map (Us (cn_owner c)) (us_raised u')\<rparr>)) snt rcv"
    subgoal for u' using live [of "u'\<lparr>us_raised := []\<rparr>"] receives_recvd [of "[]" n "cn_usock c" u', OF _ u(2)] by (auto split: if_splits)
    done
qed (use fresh weak g in auto)

lemma us_send_step:
  assumes law: "kernel_law k" and u: "us_live (cn_usock c)" "us_raised (cn_usock c) = []" "\<not> us_sending (cn_usock c)" "length iov \<le> 3"
    and fresh: "(0, 1) \<notin> conn_object ` set (cn_events c)"
    and weak: "arrived env rcv (us_taken (cn_usock c))" "prefix (us_given (cn_usock c)) (outstream env snt)" "kernel_calm k \<or> d"
    and g: "\<And>c. cn_usock (g c) = cn_usock c"
    and live: "\<And>u1. sent (concat iov) (cn_usock c) u1 \<Longrightarrow> conn_ok d env (g (with_sent u1 c)) snt rcv"
  shows "ok_step d (kernel_calm k) env snt rcv (map_option g (us_do (nn_usock_send k iov) c))"
proof (rule step_intro [where R = "sends (concat iov) (cn_usock c)" and e = USOCK_SENT])
  show "\<And>u'. nn_usock_send k iov (cn_usock c) = Some u' \<Longrightarrow> us_dies k (cn_usock c) u' \<or> sends (concat iov) (cn_usock c) u'"
    by (rule usock_send_spec [OF law u(1,3)])
  show "\<And>u'. sends (concat iov) (cn_usock c) u' \<Longrightarrow> us_raised u' = [] \<or> us_raised u' = [USOCK_SENT]"
    using sends_sent [OF _ u(2)] by auto
  show "kernel_calm k \<Longrightarrow> nn_usock_send k iov (cn_usock c) \<noteq> None" by (rule usock_send_calm [OF law _ u(1,3,4)])
  show "\<And>u'. sends (concat iov) (cn_usock c) u' \<Longrightarrow> conn_ok d env
      (g (c\<lparr>cn_usock := u'\<lparr>us_raised := []\<rparr>, cn_events := cn_events c @ map (Us (cn_owner c)) (us_raised u')\<rparr>)) snt rcv"
    subgoal for u' using live [of "u'\<lparr>us_raised := []\<rparr>"] sends_sent [of "concat iov" "cn_usock c" u', OF _ u(2)] by (auto split: if_splits)
    done
qed (use fresh weak g in auto)

section \<open>Processing an event\<close>

lemma arrived_Nil [simp]: "arrived env [] t"
  by (simp add: arrived_def)

lemma app_prefix: "a @ b = c \<Longrightarrow> prefix a c"
  by auto

lemma recvd_ok:
  assumes "recvd bs n u u1" "us_given u @ us_unsent u = outstream env snt" "arrived env rcv (us_taken u)" "cn_usock c' = u1" "phase env c' snt rcv"
  shows "conn_ok d env c' snt rcv"
  using assms unsent_same_out [of u u1] arrived_grows [OF assms(3) recvd_grows [OF assms(1)]]
    app_prefix [OF assms(2)]
  by (auto simp: conn_ok_def recvd_def Let_def)

lemma conn_sent_ok:
  assumes "sent bs u u1" "us_given u @ bs = outstream env snt" "arrived env rcv (us_taken u)" "cn_usock c' = u1" "phase env c' snt rcv"
  shows "conn_ok d env c' snt rcv"
  using assms app_prefix [of "us_given u1" "us_unsent u1"] by (auto simp: conn_ok_def sent_def same_in_def Let_def)

text \<open>Steps that leave the socket alone.\<close>

lemma same_usock_ok:
  assumes "conn_ok d env c snt rcv" "us_live (cn_usock c)" "cn_usock c' = cn_usock c" "phase env c' snt rcv"
  shows "conn_ok d env c' snt rcv"
  using assms by (auto simp: conn_ok_def Let_def)

lemma live_not_dead: "us_live u \<Longrightarrow> \<not> us_dead u"
  by (auto simp: us_live_def us_dead_def)

lemma conn_okD:
  assumes "conn_ok d env c snt rcv" "us_live (cn_usock c)"
  shows "us_raised (cn_usock c) = []" "us_given (cn_usock c) @ us_unsent (cn_usock c) = outstream env snt" "phase env c snt rcv"
    "arrived env rcv (us_taken (cn_usock c))" "prefix (us_given (cn_usock c)) (outstream env snt)"
  using assms live_not_dead by (auto simp: conn_ok_def Let_def)

lemma timer_stop_on: "timer_on tm \<Longrightarrow> timer_stopping (nn_timer_stop tm)"
  by (simp add: timer_on_def timer_stopping_def nn_timer_stop_def)

lemma timer_stop_off: "timer_off tm \<Longrightarrow> nn_timer_stop tm = tm"
  by (simp add: timer_off_def nn_timer_stop_def)

lemmas phase_defs = hdr_phase_def sending_phase_def receiving_phase_def refusing_phase_def accepting_phase_def finished_phase_def
  starting_phase_def has_header_def Let_def

lemma process_sending:
  assumes "kernel_law k" "kernel_calm k \<or> d" "conn_ok d env c [] []" "us_live (cn_usock c)" "sending_phase c" "cn_events c \<noteq> []"
  shows "ok_step d (kernel_calm k) env [] [] (conn_process env k c)"
proof (cases "cn_events c = [Tm TIMER_TIMEOUT]")
  case True
  have st: "hdr_phase c" "hd_state c = HDR_SENDING" "timer_on (hd_timer c)" using assms(5) by (auto simp: sending_phase_def Let_def)
  then have eq: "conn_process env k c = Some (stop_hd_timer HDR_STOPPING_TIMER_ERROR (c\<lparr>cn_events := []\<rparr>))"
    using True by (simp add: conn_process_def conn_dispatch_def hd_feed_def hdr_phase_def nn_streamhdr_handler_def)
  have "refusing_phase (stop_hd_timer HDR_STOPPING_TIMER_ERROR (c\<lparr>cn_events := []\<rparr>))"
    using st timer_stop_on by (simp add: refusing_phase_def stop_hd_timer_def hdr_phase_def)
  then show ?thesis unfolding eq by (simp add: same_usock_ok [OF assms(3,4)] stop_hd_timer_def phase_def)
next
  case False
  let ?c = "c\<lparr>cn_events := []\<rparr>" and ?g = "\<lambda>c. c\<lparr>hd_state := HDR_RECEIVING\<rparr>"
  have ev: "cn_events c = [Us Own_hdr USOCK_SENT]" and st: "hdr_phase c" "hd_state c = HDR_SENDING" "timer_on (hd_timer c)"
      "\<not> us_sending (cn_usock c)" "\<not> us_recving (cn_usock c)" "us_taken (cn_usock c) = us_rest (cn_usock c)"
    using assms(5,6) False by (auto simp: sending_phase_def Let_def)
  then have eq: "conn_process env k c = map_option ?g (us_do (nn_usock_recv k 8) ?c)"
    by (simp add: conn_process_def conn_dispatch_def hd_feed_def hdr_phase_def nn_streamhdr_handler_def)
  show ?thesis unfolding eq
  proof (rule us_recv_step)
    fix u1
    assume u1: "recvd [] 8 (cn_usock ?c) u1"
    have "receiving_phase (?g (with_recvd u1 ?c))"
      using st u1 unsent_same_out [of "cn_usock c" u1] recvd_taken [OF u1, of "[]"]
      by (auto simp: receiving_phase_def Let_def hdr_phase_def recvd_def split: if_splits)
    then show "conn_ok d env (?g (with_recvd u1 ?c)) [] []"
      using u1 conn_okD(2) [OF assms(3,4)] by (intro recvd_ok [OF u1]) (simp_all add: phase_def)
  qed (use st assms conn_okD [OF assms(3,4)] in simp_all)
qed

lemma process_receiving:
  assumes "conn_ok d env c [] []" "us_live (cn_usock c)" "receiving_phase c" "cn_events c \<noteq> []"
  shows "ok_step d calm env [] [] (conn_process env k c)"
proof (cases "cn_events c = [Tm TIMER_TIMEOUT]")
  case True
  have st: "hdr_phase c" "hd_state c = HDR_RECEIVING" "timer_on (hd_timer c)" using assms(3) by (auto simp: receiving_phase_def Let_def)
  then have eq: "conn_process env k c = Some (stop_hd_timer HDR_STOPPING_TIMER_ERROR (c\<lparr>cn_events := []\<rparr>))"
    using True by (simp add: conn_process_def conn_dispatch_def hd_feed_def hdr_phase_def nn_streamhdr_handler_def)
  have "refusing_phase (stop_hd_timer HDR_STOPPING_TIMER_ERROR (c\<lparr>cn_events := []\<rparr>))"
    using st timer_stop_on by (simp add: refusing_phase_def stop_hd_timer_def hdr_phase_def)
  then show ?thesis unfolding eq by (simp add: same_usock_ok [OF assms(1,2)] stop_hd_timer_def phase_def)
next
  case False
  let ?c = "c\<lparr>cn_events := [], hd_protohdr := us_got (cn_usock c)\<rparr>"
  have ev: "cn_events c = [Us Own_hdr USOCK_RECEIVED]" and st: "hdr_phase c" "hd_state c = HDR_RECEIVING" "timer_on (hd_timer c)" "has_header c"
    using assms(3,4) False by (auto simp: receiving_phase_def has_header_def Let_def)
  then have eq: "conn_process env k c = Some (stop_hd_timer HDR_STOPPING_TIMER_ERROR ?c) \<or>
      conn_process env k c = Some (stop_hd_timer HDR_STOPPING_TIMER_DONE ?c)"
    by (simp add: conn_process_def conn_dispatch_def hd_feed_def hdr_phase_def nn_streamhdr_handler_def Let_def)
  have "refusing_phase (stop_hd_timer HDR_STOPPING_TIMER_ERROR ?c)" "accepting_phase (stop_hd_timer HDR_STOPPING_TIMER_DONE ?c)"
    using st timer_stop_on by (auto simp: refusing_phase_def accepting_phase_def stop_hd_timer_def hdr_phase_def has_header_def Let_def)
  then have "conn_ok d env (stop_hd_timer HDR_STOPPING_TIMER_ERROR ?c) [] []" "conn_ok d env (stop_hd_timer HDR_STOPPING_TIMER_DONE ?c) [] []"
    by (simp_all add: same_usock_ok [OF assms(1,2)] stop_hd_timer_def phase_def)
  with eq show ?thesis by auto
qed

lemma process_stopping_timer:
  assumes "conn_ok d env c [] []" "us_live (cn_usock c)" "refusing_phase c \<or> accepting_phase c" "cn_events c \<noteq> []"
  shows "ok_step d calm env [] [] (conn_process env k c)"
proof -
  have st: "hdr_phase c" using assms(3) by (auto simp: refusing_phase_def accepting_phase_def)
  consider (ignore) e where "refusing_phase c" "hd_state c = HDR_STOPPING_TIMER_ERROR" "timer_stopping (hd_timer c)" "cn_events c = [Us Own_hdr e]"
    | (refuse) "hd_state c = HDR_STOPPING_TIMER_ERROR" "timer_off (hd_timer c)" "cn_events c = [Tm TIMER_STOPPED]"
    | (accept) "hd_state c = HDR_STOPPING_TIMER_DONE" "timer_off (hd_timer c)" "cn_events c = [Tm TIMER_STOPPED]" "has_header c"
    using assms(3,4) by (auto simp: refusing_phase_def accepting_phase_def)
  then show ?thesis
  proof cases
    case ignore
    then have eq: "conn_process env k c = Some (c\<lparr>cn_events := []\<rparr>)"
      using st by (simp add: conn_process_def conn_dispatch_def hd_feed_def hdr_phase_def nn_streamhdr_handler_def)
    have "refusing_phase (c\<lparr>cn_events := []\<rparr>)" using ignore st by (simp add: refusing_phase_def hdr_phase_def)
    then show ?thesis unfolding eq by (simp add: same_usock_ok [OF assms(1,2)] phase_def)
  next
    case refuse
    let ?c = "c\<lparr>cn_events := [Hd HDR_ERROR], cn_owner := Own_ses, hd_owner := None, hd_state := HDR_FINISHED\<rparr>"
    have eq: "conn_process env k c = Some ?c"
      using refuse st by (simp add: conn_process_def conn_dispatch_def hd_feed_def hdr_phase_def nn_streamhdr_handler_def hd_finish_def conn_raise_def)
    have "finished_phase ?c" using refuse st by (simp add: finished_phase_def hdr_phase_def)
    then show ?thesis unfolding eq by (simp add: same_usock_ok [OF assms(1,2)] phase_def)
  next
    case accept
    let ?c = "c\<lparr>cn_events := [Hd HDR_OK], cn_owner := Own_ses, hd_owner := None, hd_state := HDR_FINISHED\<rparr>"
    have eq: "conn_process env k c = Some ?c"
      using accept st by (simp add: conn_process_def conn_dispatch_def hd_feed_def hdr_phase_def nn_streamhdr_handler_def hd_finish_def conn_raise_def)
    have "finished_phase ?c" using accept st by (simp add: finished_phase_def hdr_phase_def has_header_def)
    then show ?thesis unfolding eq by (simp add: same_usock_ok [OF assms(1,2)] phase_def)
  qed
qed

lemma process_finished:
  assumes "conn_ok d env c [] []" "us_live (cn_usock c)" "finished_phase c"
  shows "ok_step d calm env [] [] (conn_process env k c)"
proof (cases "cn_events c = [Hd HDR_OK]")
  case True
  let ?c = "c\<lparr>cn_events := [Hd HDR_STOPPED], hd_fsm := FSM_IDLE, hd_state := HDR_IDLE, st_state := STCP_STOPPING_STREAMHDR\<rparr>"
  have st: "st_state c = STCP_PROTOHDR" "st_fsm c = FSM_ACTIVE" "hd_fsm c = FSM_ACTIVE" "timer_off (hd_timer c)" "cn_owner c = Own_ses"
      "pb_state (st_pipe c) = PIPEBASE_IDLE" "has_header c"
    using assms(3) True by (auto simp: finished_phase_def)
  then have eq: "conn_process env k c = Some ?c"
    using True timer_stop_off [OF st(4)]
    by (simp add: conn_process_def conn_dispatch_def stream_feed_def stream_handler_def nn_streamhdr_stop_def stop_hd_timer_def hd_stopping_def
        conn_timer_isidle_def nn_timer_isidle_def timer_off_def conn_raise_def)
  have "starting_phase ?c" using st by (simp add: starting_phase_def has_header_def)
  then show ?thesis unfolding eq by (simp add: same_usock_ok [OF assms(1,2)] phase_def)
next
  case False
  let ?c = "c\<lparr>cn_events := [Ss STCP_ERROR], st_state := STCP_DONE\<rparr>"
  have st: "st_state c = STCP_PROTOHDR" "st_fsm c = FSM_ACTIVE" "cn_events c = [Hd HDR_ERROR]"
    using assms(3) False by (auto simp: finished_phase_def)
  then have eq: "conn_process env k c = Some ?c"
    by (simp add: conn_process_def conn_dispatch_def stream_feed_def stream_handler_def stream_failed_def conn_raise_def)
  show ?thesis unfolding eq using st by (simp add: same_usock_ok [OF assms(1,2)] phase_def)
qed

lemma process_starting:
  assumes "kernel_law k" "kernel_calm k \<or> d" "conn_ok d env c [] []" "us_live (cn_usock c)" "starting_phase c"
  shows "ok_step d (kernel_calm k) env [] [] (conn_process env k c)"
proof -
  let ?pb = "(st_pipe c)\<lparr>pb_state := PIPEBASE_ACTIVE, pb_instate := IO_ASYNC, pb_outstate := IO_IDLE, pb_out := True\<rparr>"
  let ?c = "c\<lparr>cn_events := [], st_pipe := ?pb, st_instate := IN_HDR\<rparr>" and ?g = "\<lambda>c. c\<lparr>st_outstate := OUT_IDLE, st_state := STCP_ACTIVE\<rparr>"
  have st: "st_state c = STCP_STOPPING_STREAMHDR" "st_fsm c = FSM_ACTIVE" "cn_owner c = Own_ses" "timer_off (hd_timer c)"
      "pb_state (st_pipe c) = PIPEBASE_IDLE" "cn_events c = [Hd HDR_STOPPED]"
      "\<not> us_sending (cn_usock c)" "\<not> us_recving (cn_usock c)" "us_taken (cn_usock c) = us_got (cn_usock c) @ us_rest (cn_usock c)"
      "length (us_got (cn_usock c)) = 8"
    using assms(5) by (auto simp: starting_phase_def has_header_def Let_def)
  show ?thesis
  proof (cases "se_added env")
    case True
    then have eq: "conn_process env k c = map_option ?g (us_do (nn_usock_recv k (stream_hdrsize env)) ?c)"
      using st by (simp add: conn_process_def conn_dispatch_def stream_feed_def stream_handler_def pipe_do_def nn_pipebase_start_def Let_def)
    show ?thesis unfolding eq
    proof (rule us_recv_step)
      fix u1
      assume u1: "recvd [] (stream_hdrsize env) (cn_usock ?c) u1"
      have "us_taken u1 = us_got (cn_usock c) @ us_got u1 @ us_rest u1"
        using recvd_taken [OF u1, of "us_got (cn_usock c)"] st by simp
      then have "active_phase env (?g (with_recvd u1 ?c)) []"
        using st u1 unsent_same_out [of "cn_usock c" u1]
        by (auto simp: active_phase_def Let_def recvd_def in_ok_def out_ok_def intro!: exI [of _ "us_got (cn_usock c)"] split: if_splits)
      then show "conn_ok d env (?g (with_recvd u1 ?c)) [] []"
        using conn_okD(2) [OF assms(3,4)] by (intro recvd_ok [OF u1]) (simp_all add: phase_def)
    qed (use st assms conn_okD [OF assms(3,4)] in \<open>simp_all add: stream_hdrsize_def\<close>)
  next
    case False
    let ?c' = "c\<lparr>cn_events := [Ss STCP_ERROR],
      st_pipe := (st_pipe c)\<lparr>pb_state := PIPEBASE_FAILED, pb_instate := IO_ASYNC, pb_outstate := IO_IDLE\<rparr>, st_state := STCP_DONE\<rparr>"
    have eq: "conn_process env k c = Some ?c'"
      using st False by (simp add: conn_process_def conn_dispatch_def stream_feed_def stream_handler_def pipe_do_def nn_pipebase_start_def
          Let_def stream_failed_def conn_raise_def)
    show ?thesis unfolding eq using st by (simp add: same_usock_ok [OF assms(3,4)] phase_def)
  qed
qed

text \<open>An active session: a message has been sent, or a length or a body has arrived.\<close>

lemma in_ok_events:
  assumes "in_ok env c rcv" "Us Own_ses USOCK_RECEIVED \<in> set (cn_events c') \<longleftrightarrow> Us Own_ses USOCK_RECEIVED \<in> set (cn_events c)"
    "same_in (cn_usock c) (cn_usock c')" "st_instate c' = st_instate c" "st_inmsg c' = st_inmsg c" "pb_instate (st_pipe c') = pb_instate (st_pipe c)"
  shows "in_ok env c' rcv"
  using assms unfolding in_ok_def Let_def same_in_def by (cases "st_instate c") (simp_all split del: if_split cong: if_cong)

lemma out_ok_events:
  assumes "out_ok c" "Us Own_ses USOCK_SENT \<in> set (cn_events c') \<longleftrightarrow> Us Own_ses USOCK_SENT \<in> set (cn_events c)"
    "us_sending (cn_usock c') = us_sending (cn_usock c)" "st_outstate c' = st_outstate c" "pb_outstate (st_pipe c') = pb_outstate (st_pipe c)"
  shows "out_ok c'"
  using assms unfolding out_ok_def Let_def by (cases "st_outstate c") simp_all

lemma same_in_refl [simp]: "same_in u u" by (simp add: same_in_def)
lemma same_out_refl [simp]: "same_out u u" by (simp add: same_out_def)

definition header_fits :: "stream_env \<Rightarrow> kernel \<Rightarrow> bytes \<Rightarrow> bool" where
  "header_fits env k inhdr \<longleftrightarrow> take (length (se_first env)) inhdr = se_first env \<and>
     (let size = nn_getll (drop (length (se_first env)) inhdr) in
      unat size < NN_CHUNKREF_MAX \<or> nn_chunk_hdrsize + size \<ge> nn_chunk_hdrsize \<and> kn_memory k (nn_chunk_hdrsize + size))"

lemma process_sent:
  assumes "conn_ok d env c snt rcv" "us_live (cn_usock c)" "active_phase env c rcv" "cn_events c = Us Own_ses USOCK_SENT # evs"
  shows "ok_step d calm env snt rcv (conn_process env k c)"
proof -
  have st: "st_state c = STCP_ACTIVE" "st_fsm c = FSM_ACTIVE" "distinct (cn_events c)" "in_ok env c rcv" "out_ok c"
    using assms(3) by (auto simp: active_phase_def)
  have out: "st_outstate c = OUT_SENDING" "pb_outstate (st_pipe c) = IO_ASYNC" "\<not> us_sending (cn_usock c)"
    using st(5) assms(4) by (auto simp: out_ok_def Let_def split: stcp_outstate.splits)
  let ?c = "c\<lparr>cn_events := evs, st_outstate := OUT_IDLE, st_outmsg := empty_msg,
    st_pipe := (st_pipe c)\<lparr>pb_outstate := IO_IDLE, pb_out := True\<rparr>\<rparr>"
  have eq: "conn_process env k c = Some ?c"
    using st out assms(4) by (simp add: conn_process_def conn_dispatch_def stream_feed_def stream_handler_def pipe_do_def nn_pipebase_sent_def)
  have "in_ok env ?c rcv" by (rule in_ok_events [OF st(4)]) (use assms(4) in simp_all)
  moreover have "out_ok ?c" using out st(3) assms(4) by (simp add: out_ok_def Let_def)
  ultimately have "active_phase env ?c rcv" using assms(3,4) by (auto simp: active_phase_def)
  then show ?thesis unfolding eq by (simp add: same_usock_ok [OF assms(1,2)] phase_def)
qed

lemma drop_first: "take (length f) x = f \<Longrightarrow> x = f @ drop (length f) x"
  by (metis append_take_drop_id)

lemma in_okE:
  assumes "in_ok env c rcv" "Us Own_ses USOCK_RECEIVED \<in> set (cn_events c)"
  obtains (hdr) h where "st_instate c = IN_HDR" "length h = 8" "length (us_got (cn_usock c)) = stream_hdrsize env"
      "us_taken (cn_usock c) = h @ concat (map (frame env) rcv) @ us_got (cn_usock c) @ us_rest (cn_usock c)"
      "\<not> us_recving (cn_usock c)" "pb_instate (st_pipe c) = IO_ASYNC"
    | (body) h where "st_instate c = IN_BODY" "length h = 8" "length (us_got (cn_usock c)) < 2 ^ 64"
      "us_taken (cn_usock c) = h @ concat (map (frame env) rcv) @ frame env (us_got (cn_usock c)) @ us_rest (cn_usock c)"
      "\<not> us_recving (cn_usock c)" "pb_instate (st_pipe c) = IO_ASYNC"
proof (cases "st_instate c")
  case IN_BODY
  from assms IN_BODY obtain h sz where h: "length h = 8" "length (us_got (cn_usock c)) = unat (sz :: u64)" "\<not> us_recving (cn_usock c)"
      "pb_instate (st_pipe c) = IO_ASYNC"
      "us_taken (cn_usock c) = h @ concat (map (frame env) rcv) @ se_first env @ nn_putll sz @ us_got (cn_usock c) @ us_rest (cn_usock c)"
    by (auto simp: in_ok_def Let_def)
  have "length (us_got (cn_usock c)) < 2 ^ 64" "frame env (us_got (cn_usock c)) = se_first env @ nn_putll sz @ us_got (cn_usock c)"
    using unsigned_less [of sz] by (simp_all add: h(2) frame_def)
  with h IN_BODY body show thesis by simp
qed (use assms hdr in \<open>auto simp: in_ok_def Let_def\<close>)

lemma process_received:
  assumes "kernel_law k" "kernel_calm k \<or> d" "conn_ok d env c snt rcv" "us_live (cn_usock c)" "active_phase env c rcv"
    "cn_events c = Us Own_ses USOCK_RECEIVED # evs"
  shows "ok_step d (kernel_calm k \<and> (st_instate c = IN_HDR \<longrightarrow> header_fits env k (us_got (cn_usock c)))) env snt rcv (conn_process env k c)"
proof -
  have st: "st_state c = STCP_ACTIVE" "st_fsm c = FSM_ACTIVE" "distinct (cn_events c)" "in_ok env c rcv" "out_ok c" "cn_owner c = Own_ses"
      "timer_off (hd_timer c)" "set (cn_events c) \<subseteq> {Us Own_ses USOCK_SENT, Us Own_ses USOCK_RECEIVED}"
    using assms(5) by (auto simp: active_phase_def)
  have evs: "distinct evs" "set evs \<subseteq> {Us Own_ses USOCK_SENT}" "Us Own_ses USOCK_RECEIVED \<notin> set evs"
    using st(3,8) assms(6) by auto
  let ?msg = "\<lambda>b. c\<lparr>cn_events := evs, st_inmsg := b, st_instate := IN_HASMSG,
    st_pipe := (st_pipe c)\<lparr>pb_instate := IO_IDLE, pb_in := True\<rparr>\<rparr>"
  have msg: "active_phase env (?msg b) rcv" if "length h = 8" "length b < 2 ^ 64" "\<not> us_recving (cn_usock c)"
      "us_taken (cn_usock c) = h @ concat (map (frame env) rcv) @ frame env b @ us_rest (cn_usock c)" for b h
  proof -
    have "in_ok env (?msg b) rcv" using that evs(3) by (auto simp: in_ok_def Let_def)
    moreover have "out_ok (?msg b)" by (rule out_ok_events [OF st(5)]) (simp_all add: assms(6))
    ultimately show ?thesis using st evs by (auto simp: active_phase_def)
  qed
  have eq: "conn_process env k c = stream_received env k (c\<lparr>cn_events := evs\<rparr>)"
    using st assms(6) by (simp add: conn_process_def conn_dispatch_def stream_feed_def stream_handler_def)
  have ev: "Us Own_ses USOCK_RECEIVED \<in> set (cn_events c)" by (simp add: assms(6))
  show ?thesis
  proof (cases rule: in_okE [OF st(4) ev])
    case body: (2 h)
    then have "conn_process env k c = Some (?msg (us_got (cn_usock c)))"
      by (simp add: eq stream_received_def pipe_do_def nn_pipebase_received_def)
    moreover have "active_phase env (?msg (us_got (cn_usock c))) rcv" using body by (intro msg) simp_all
    ultimately show ?thesis by (simp add: same_usock_ok [OF assms(3,4)] phase_def)
  next
    case hdr: (1 h)
    let ?inhdr = "us_got (cn_usock c)" and ?n = "length (se_first env)"
    let ?size = "nn_getll (drop ?n ?inhdr)"
    show ?thesis
    proof (cases "header_fits env k ?inhdr")
      case False
      then have "conn_process env k c = None"
        using hdr by (auto simp: eq stream_received_def stream_got_hdr_def header_fits_def Let_def)
      then show ?thesis using False hdr by (auto simp: ok_step_def)
    next
      case True
      have "length (drop ?n ?inhdr) = 8" using hdr by (simp add: stream_hdrsize_def)
      then have inhdr: "?inhdr = se_first env @ nn_putll ?size"
        using drop_first [of "se_first env" ?inhdr] True bytes_get_put(3) by (simp add: header_fits_def)
      show ?thesis
      proof (cases "?size = 0")
        case True
        then have "frame env [] = ?inhdr" using inhdr by (simp add: frame_def)
        then have "active_phase env (?msg []) rcv" using hdr by (intro msg) simp_all
        moreover have "conn_process env k c = Some (?msg [])"
          using hdr \<open>header_fits env k ?inhdr\<close> True
          by (auto simp: eq stream_received_def stream_got_hdr_def header_fits_def Let_def pipe_do_def nn_pipebase_received_def)
        ultimately show ?thesis by (simp add: same_usock_ok [OF assms(3,4)] phase_def)
      next
        case False
        then have size: "0 < unat ?size" by (simp add: unat_gt_0)
        let ?c = "c\<lparr>cn_events := evs, st_inmsg := [], st_instate := IN_BODY\<rparr>"
        have eq': "conn_process env k c = map_option (\<lambda>c. c) (us_do (nn_usock_recv k (unat ?size)) ?c)"
          using hdr True False by (auto simp: eq stream_received_def stream_got_hdr_def header_fits_def Let_def option.map_ident)
        have "ok_step d (kernel_calm k) env snt rcv (map_option (\<lambda>c. c) (us_do (nn_usock_recv k (unat ?size)) ?c))"
        proof (rule us_recv_step)
          fix u1
          assume u1: "recvd [] (unat ?size) (cn_usock ?c) u1"
          have "us_taken u1 = h @ concat (map (frame env) rcv) @ se_first env @ nn_putll ?size @ us_got u1 @ us_rest u1"
            using recvd_taken [OF u1, of "h @ concat (map (frame env) rcv) @ ?inhdr"] hdr inhdr by simp
          then have "in_ok env (with_recvd u1 ?c) rcv"
            using hdr u1 st evs by (auto simp: in_ok_def Let_def recvd_def split: if_splits)
          moreover have "out_ok (with_recvd u1 ?c)"
            by (rule out_ok_events [OF st(5)]) (use u1 unsent_same_out [of "cn_usock c" u1] assms(6) in \<open>auto simp: recvd_def\<close>)
          ultimately have "active_phase env (with_recvd u1 ?c) rcv" using st evs by (auto simp: active_phase_def)
          then show "conn_ok d env (with_recvd u1 ?c) snt rcv"
            using conn_okD [OF assms(3,4)] by (intro recvd_ok [OF u1]) (simp_all add: phase_def)
        qed (use hdr size evs assms conn_okD [OF assms(3,4)] in auto)
        then show ?thesis unfolding eq' by (rule ok_step_mono) simp
      qed
    qed
  qed
qed

lemma process_done:
  assumes "conn_ok d env c snt rcv" "us_live (cn_usock c)" "st_state c = STCP_DONE" "st_fsm c = FSM_ACTIVE"
    "\<forall>ev \<in> set (cn_events c). \<exists>e. ev = Ss e" "cn_events c \<noteq> []"
  shows "ok_step d calm env snt rcv (conn_process env k c)"
proof -
  obtain e evs where ev: "cn_events c = Ss e # evs" using assms(5,6) by (cases "cn_events c") auto
  then have eq: "conn_process env k c = Some (c\<lparr>cn_events := evs, cn_up := cn_up c @ [Ss e]\<rparr>)"
    by (simp add: conn_process_def conn_dispatch_def)
  show ?thesis unfolding eq using assms(3,4,5) ev by (simp add: same_usock_ok [OF assms(1,2)] phase_def)
qed

lemma process_live:
  assumes "kernel_law k" "kernel_calm k \<or> d" "conn_ok d env c snt rcv" "us_live (cn_usock c)" "cn_events c \<noteq> []"
  shows "ok_step d (kernel_calm k \<and> (st_state c = STCP_ACTIVE \<and> st_instate c = IN_HDR \<and> hd (cn_events c) = Us Own_ses USOCK_RECEIVED \<longrightarrow>
      header_fits env k (us_got (cn_usock c)))) env snt rcv (conn_process env k c)"
proof -
  consider (shake) "snt = []" "rcv = []" "sending_phase c \<or> receiving_phase c \<or> refusing_phase c \<or> accepting_phase c \<or> finished_phase c \<or> starting_phase c"
    | (active) "active_phase env c rcv" | (over) "st_state c = STCP_DONE" "st_fsm c = FSM_ACTIVE" "\<forall>ev \<in> set (cn_events c). \<exists>e. ev = Ss e"
    using conn_okD(3) [OF assms(3,4)] by (auto simp: phase_def)
  then show ?thesis
  proof cases
    case shake
    then have "ok_step d (kernel_calm k) env snt rcv (conn_process env k c)"
      using process_sending [OF assms(1,2) _ assms(4) _ assms(5)] process_receiving [OF _ assms(4) _ assms(5)]
        process_stopping_timer [OF _ assms(4) _ assms(5)] process_finished [OF _ assms(4)] process_starting [OF assms(1,2) _ assms(4)] assms(3)
      by blast
    then show ?thesis by (rule ok_step_mono) simp
  next
    case active
    then obtain evs where evs: "cn_events c = Us Own_ses USOCK_SENT # evs \<or> cn_events c = Us Own_ses USOCK_RECEIVED # evs"
      using assms(5) by (cases "cn_events c") (auto simp: active_phase_def)
    then show ?thesis
    proof
      assume "cn_events c = Us Own_ses USOCK_SENT # evs"
      from process_sent [OF assms(3,4) active this] show ?thesis .
    next
      assume ev: "cn_events c = Us Own_ses USOCK_RECEIVED # evs"
      from process_received [OF assms(1-4) active this] show ?thesis
        by (rule ok_step_mono) (use ev active in \<open>auto simp: active_phase_def\<close>)
    qed
  next
    case over
    then show ?thesis by (rule process_done [OF assms(3,4) _ _ _ assms(5)])
  qed
qed

end
