(* ===== verification/Nn_Stream_Reach.thy ===== *)
theory Nn_Stream_Reach
  imports Nn_Stream_Spec
begin

text \<open>
  The other steps of a connection: the calls of the socket above, the tasks of the worker, the events of the descriptor and of the timer, and what
  happens once the socket has failed. The states that can be reached, each with the messages that were sent and the ones that were handed over.
\<close>

section \<open>The calls of the socket above\<close>

lemma us_do_pipe: "us_do f c = Some c' \<Longrightarrow> st_pipe c' = st_pipe c"
  by (auto elim: us_doE)

lemma sent_unsent: "sent bs u u1 \<Longrightarrow> us_given u @ bs = us_given u1 @ us_unsent u1"
  by (simp add: sent_def)

lemma pipe_send_ok:
  assumes "kernel_law k" "kernel_calm k \<or> d" "conn_ok d env c snt rcv" "us_live (cn_usock c)"
  shows "(\<forall>c'. stream_pipe_send env k m c = Some c' \<longrightarrow> conn_ok d env c' (snt @ [m]) rcv) \<and>
    (kernel_calm k \<longrightarrow> st_state c = STCP_ACTIVE \<longrightarrow> pb_outstate (st_pipe c) = IO_IDLE \<longrightarrow> stream_pipe_send env k m c \<noteq> None)"
proof (cases "st_state c = STCP_ACTIVE \<and> pb_outstate (st_pipe c) = IO_IDLE")
  case False
  then show ?thesis by (auto simp: stream_pipe_send_def stream_send_def)
next
  case True
  let ?iov = "[se_first env @ nn_putll (of_nat (length (m_sphdr m)) + of_nat (length (m_body m))), m_sphdr m, m_body m]"
  let ?c = "c\<lparr>st_pipe := (st_pipe c)\<lparr>pb_outstate := IO_BUSY\<rparr>, st_outmsg := m\<rparr>"
  let ?g = "\<lambda>c. c\<lparr>st_outstate := OUT_SENDING, st_pipe := (st_pipe c)\<lparr>pb_outstate := IO_ASYNC\<rparr>\<rparr>"
  have active: "active_phase env c rcv" and given: "us_given (cn_usock c) @ us_unsent (cn_usock c) = outstream env snt"
    and arr: "arrived env rcv (us_taken (cn_usock c))" and raised: "us_raised (cn_usock c) = []"
    using conn_okD [OF assms(3,4)] True by (auto simp: phase_def phase_defs)
  then have st: "in_ok env c rcv" "st_outstate c = OUT_IDLE" "\<not> us_sending (cn_usock c)" "Us Own_ses USOCK_SENT \<notin> set (cn_events c)"
      "cn_owner c = Own_ses" "set (cn_events c) \<subseteq> {Us Own_ses USOCK_SENT, Us Own_ses USOCK_RECEIVED}" "distinct (cn_events c)"
    using True by (auto simp: active_phase_def out_ok_def Let_def split: stcp_outstate.splits)
  have unsent: "us_given (cn_usock c) = outstream env snt" using given st(3) by (simp add: us_unsent_def)
  have out: "us_given (cn_usock c) @ concat ?iov = outstream env (snt @ [m])"
    by (simp add: unsent outstream_snoc frame_def content_def)
  have eq: "stream_pipe_send env k m c = map_option ?g (us_do (nn_usock_send k ?iov) ?c)"
    using True st us_do_pipe [of "nn_usock_send k ?iov" ?c]
    by (cases "us_do (nn_usock_send k ?iov) ?c") (simp_all add: stream_pipe_send_def stream_send_def)
  have "ok_step d (kernel_calm k) env (snt @ [m]) rcv (map_option ?g (us_do (nn_usock_send k ?iov) ?c))"
  proof (rule us_send_step)
    fix u1
    assume u1: "sent (concat ?iov) (cn_usock ?c) u1"
    have "in_ok env (?g (with_sent u1 ?c)) rcv"
      by (rule in_ok_events [OF st(1)]) (use u1 in \<open>auto simp: sent_def st(5)\<close>)
    then have "active_phase env (?g (with_sent u1 ?c)) rcv"
      using active st(4,5) by (auto simp: active_phase_def out_ok_def Let_def)
    then show "conn_ok d env (?g (with_sent u1 ?c)) (snt @ [m]) rcv"
      using out arr by (intro conn_sent_ok [OF u1]) (simp_all add: phase_def)
  next
    show "prefix (us_given (cn_usock ?c)) (outstream env (snt @ [m]))" using app_prefix [OF out] by simp
  qed (use assms st arr raised in auto)
  then show ?thesis unfolding eq by (simp add: ok_step_def)
qed

lemma in_ok_idle:
  assumes "in_ok env c rcv" "pb_instate (st_pipe c) = IO_IDLE"
  obtains h where "st_instate c = IN_HASMSG" "length h = 8" "\<not> us_recving (cn_usock c)" "Us Own_ses USOCK_RECEIVED \<notin> set (cn_events c)"
    "us_taken (cn_usock c) = h @ concat (map (frame env) rcv) @ frame env (st_inmsg c) @ us_rest (cn_usock c)" "length (st_inmsg c) < 2 ^ 64"
  using assms by (cases "st_instate c") (auto simp: in_ok_def Let_def)

lemma pipe_recv_ok:
  assumes "kernel_law k" "kernel_calm k \<or> d" "conn_ok d env c snt rcv" "us_live (cn_usock c)"
  shows "(\<forall>m c'. stream_pipe_recv env k c = Some (m, c') \<longrightarrow>
      length (m_body m) < 2 ^ 64 \<and> m = empty_msg\<lparr>m_body := m_body m\<rparr> \<and> conn_ok d env c' snt (rcv @ [m_body m])) \<and>
    (kernel_calm k \<longrightarrow> st_state c = STCP_ACTIVE \<longrightarrow> pb_instate (st_pipe c) = IO_IDLE \<longrightarrow> stream_pipe_recv env k c \<noteq> None)"
proof (cases "st_state c = STCP_ACTIVE \<and> pb_instate (st_pipe c) = IO_IDLE")
  case False
  then show ?thesis by (auto simp: stream_pipe_recv_def stream_recv_def)
next
  case True
  let ?m = "empty_msg\<lparr>m_body := st_inmsg c\<rparr>"
  let ?c = "c\<lparr>st_pipe := (st_pipe c)\<lparr>pb_instate := IO_BUSY\<rparr>, st_inmsg := [], st_instate := IN_HDR\<rparr>"
  let ?g = "\<lambda>c. c\<lparr>st_pipe := (st_pipe c)\<lparr>pb_instate := IO_ASYNC\<rparr>\<rparr>" and ?u = "cn_usock c"
  have active: "active_phase env c rcv" and given: "us_given ?u @ us_unsent ?u = outstream env snt" "prefix (us_given ?u) (outstream env snt)"
    and raised: "us_raised ?u = []"
    using conn_okD [OF assms(3,4)] True by (auto simp: phase_def phase_defs)
  then have a: "in_ok env c rcv" "out_ok c" "cn_owner c = Own_ses" "set (cn_events c) \<subseteq> {Us Own_ses USOCK_SENT, Us Own_ses USOCK_RECEIVED}"
    by (auto simp: active_phase_def)
  obtain h where st: "out_ok c" "st_instate c = IN_HASMSG" "length h = 8" "\<not> us_recving ?u" "Us Own_ses USOCK_RECEIVED \<notin> set (cn_events c)"
      "us_taken ?u = h @ concat (map (frame env) rcv) @ frame env (st_inmsg c) @ us_rest ?u" "length (st_inmsg c) < 2 ^ 64"
      "cn_owner c = Own_ses" "set (cn_events c) \<subseteq> {Us Own_ses USOCK_SENT, Us Own_ses USOCK_RECEIVED}"
    by (rule in_ok_idle [OF a(1)]) (use True a in auto)
  have arr: "arrived env (rcv @ [st_inmsg c]) (us_taken ?u)" using st(3,6) by (auto simp: arrived_def)
  have eq: "stream_pipe_recv env k c = map_option (Pair ?m) (map_option ?g (us_do (nn_usock_recv k (stream_hdrsize env)) ?c))"
    using True st us_do_pipe [of "nn_usock_recv k (stream_hdrsize env)" ?c]
    by (cases "us_do (nn_usock_recv k (stream_hdrsize env)) ?c") (simp_all add: stream_pipe_recv_def stream_recv_def)
  have "ok_step d (kernel_calm k) env snt (rcv @ [st_inmsg c]) (map_option ?g (us_do (nn_usock_recv k (stream_hdrsize env)) ?c))"
  proof (rule us_recv_step)
    fix u1
    assume u1: "recvd [] (stream_hdrsize env) (cn_usock ?c) u1"
    have "us_taken u1 = h @ concat (map (frame env) (rcv @ [st_inmsg c])) @ us_got u1 @ us_rest u1"
      using recvd_taken [OF u1, of "h @ concat (map (frame env) (rcv @ [st_inmsg c]))"] st(6) by simp
    then have "in_ok env (?g (with_recvd u1 ?c)) (rcv @ [st_inmsg c])"
      using st(3-5,8) u1 by (auto simp: in_ok_def Let_def recvd_def)
    moreover have "out_ok (?g (with_recvd u1 ?c))"
      by (rule out_ok_events [OF st(1)]) (use u1 unsent_same_out [of ?u u1] in \<open>auto simp: recvd_def\<close>)
    ultimately have "active_phase env (?g (with_recvd u1 ?c)) (rcv @ [st_inmsg c])"
      using active st(5,8) by (auto simp: active_phase_def)
    then show "conn_ok d env (?g (with_recvd u1 ?c)) snt (rcv @ [st_inmsg c])"
      using given(1) arr by (intro recvd_ok [OF u1]) (simp_all add: phase_def)
  qed (use assms st arr raised given in \<open>auto simp: stream_hdrsize_def\<close>)
  then show ?thesis unfolding eq using st(7) by (auto simp: ok_step_def)
qed

section \<open>The worker thread\<close>

lemma phase_same:
  assumes "phase env c snt rcv" "same_in (cn_usock c) u1" "same_out (cn_usock c) u1"
  shows "phase env (c\<lparr>cn_usock := u1\<rparr>) snt rcv"
proof -
  have active: "active_phase env (c\<lparr>cn_usock := u1\<rparr>) rcv" if "active_phase env c rcv"
    using that in_ok_events [of env c rcv "c\<lparr>cn_usock := u1\<rparr>"] out_ok_events [of c "c\<lparr>cn_usock := u1\<rparr>"] assms(2,3)
    by (simp add: active_phase_def same_out_def)
  have sh: "sending_phase (c\<lparr>cn_usock := u1\<rparr>) = sending_phase c" "receiving_phase (c\<lparr>cn_usock := u1\<rparr>) = receiving_phase c"
    "refusing_phase (c\<lparr>cn_usock := u1\<rparr>) = refusing_phase c" "accepting_phase (c\<lparr>cn_usock := u1\<rparr>) = accepting_phase c"
    "finished_phase (c\<lparr>cn_usock := u1\<rparr>) = finished_phase c" "starting_phase (c\<lparr>cn_usock := u1\<rparr>) = starting_phase c"
    using assms(2,3) by (simp_all add: phase_defs same_in_def same_out_def)
  show ?thesis using assms(1) active unfolding phase_def sh by auto
qed

lemma task_ok:
  assumes "conn_ok d env c snt rcv" "us_live (cn_usock c)" "us_tasks (cn_usock c) \<noteq> []"
  shows "ok_step d calm env snt rcv (conn_task k c)"
proof -
  let ?u = "cn_usock c"
  obtain t ts where ts: "us_tasks ?u = t # ts" using assms(3) by (cases "us_tasks ?u") auto
  obtain u' where u': "usock_only (usock_feed k (Task t) (?u\<lparr>us_tasks := ts\<rparr>)) = Some u'" "us_same ?u u'"
    using task_spec [OF assms(2) ts] by blast
  have ok: "us_raised u' = []" "us_live u'" "same_in ?u u'" "same_out ?u u'" using u'(2) conn_okD(1) [OF assms(1,2)] by (auto simp: us_same_def)
  have id: "u'\<lparr>us_raised := []\<rparr> = u'" using ok(1) by simp
  have eq: "conn_task k c = Some (c\<lparr>cn_usock := u'\<rparr>)"
    using u'(1) ok(1) by (simp add: conn_task_def ts us_do_def id)
  have "phase env (c\<lparr>cn_usock := u'\<rparr>) snt rcv" using phase_same [OF conn_okD(3) [OF assms(1,2)] ok(3,4)] .
  then show ?thesis unfolding eq
    using conn_okD [OF assms(1,2)] ok unsent_same_out [OF ok(4)] by (simp add: conn_ok_def Let_def same_in_def)
qed

text \<open>The descriptor can be read or written to when that is polled for; it can be in error when the kernel is not calm.\<close>

definition can_fd :: "kernel \<Rightarrow> usock_input \<Rightarrow> conn \<Rightarrow> bool" where
  "can_fd k ev c \<longleftrightarrow> cn_events c = [] \<and> st_state c \<noteq> STCP_DONE \<and> us_polled (cn_usock c) \<and>
     (ev = Fd_in \<and> us_pollin (cn_usock c) \<or> ev = Fd_out \<and> us_pollout (cn_usock c) \<or> ev = Fd_err \<and> \<not> kernel_calm k)"

lemma fd_in_ok:
  assumes "kernel_law k" "kernel_calm k \<or> d" "conn_ok d env c snt rcv" "us_live (cn_usock c)" "can_fd k Fd_in c"
  shows "ok_step d (kernel_calm k) env snt rcv (conn_fd k Fd_in c)"
proof -
  let ?u = "cn_usock c"
  let ?n = "length (us_got ?u) + us_len ?u"
  have can: "cn_events c = []" "us_pollin ?u" "us_recving ?u" "st_state c \<noteq> STCP_DONE" using assms(5) by (auto simp: can_fd_def us_recving_def)
  have eq: "conn_fd k Fd_in c = map_option (\<lambda>c. c) (us_do (\<lambda>u. usock_only (usock_feed k Fd_in u)) c)"
    by (simp add: conn_fd_def option.map_ident)
  note ok = conn_okD [OF assms(3,4)]
  show ?thesis unfolding eq
  proof (rule step_intro [where R = "receives (us_got ?u) ?n ?u" and e = USOCK_RECEIVED])
    show "\<And>u'. usock_only (usock_feed k Fd_in ?u) = Some u' \<Longrightarrow> us_dies k ?u u' \<or> receives (us_got ?u) ?n ?u u'"
      using fd_in_spec [OF assms(1,4) can(2)] by (simp add: live_feed [OF assms(4)])
    show "\<And>u'. receives (us_got ?u) ?n ?u u' \<Longrightarrow> us_raised u' = [] \<or> us_raised u' = [USOCK_RECEIVED]"
      using receives_recvd [OF _ ok(1)] by auto
    show "kernel_calm k \<Longrightarrow> usock_only (usock_feed k Fd_in ?u) \<noteq> None"
      using fd_in_calm [OF assms(1) _ assms(4) can(2)] by (simp add: live_feed [OF assms(4)])
    fix u'
    assume r: "receives (us_got ?u) ?n ?u u'"
    let ?u1 = "u'\<lparr>us_raised := []\<rparr>" and ?c = "with_recvd (u'\<lparr>us_raised := []\<rparr>) c"
    have u1: "recvd (us_got ?u) ?n ?u ?u1" and raised: "us_raised u' = (if us_recving u' then [] else [USOCK_RECEIVED])"
      using receives_recvd [OF r ok(1)] by auto
    have same: "us_sending ?u1 = us_sending ?u" using unsent_same_out [of ?u ?u1] u1 by (auto simp: recvd_def)
    have taken: "us_taken ?u1 = x @ us_got ?u1 @ us_rest ?u1" if "us_taken ?u = x @ us_got ?u @ us_rest ?u" for x
      using recvd_taken [OF u1 that] .
    have len: "if us_recving ?u1 then length (us_got ?u1) + us_len ?u1 = ?n \<and> us_rest ?u1 = [] else length (us_got ?u1) = ?n"
      using u1 unfolding recvd_def by blast
    have "phase env ?c snt rcv"
      using ok(3) unfolding phase_def
    proof (elim disjE conjE)
      assume "snt = []" "rcv = []" "receiving_phase c"
      then have "receiving_phase ?c" using can same taken [of "[]"] len by (auto simp: receiving_phase_def hdr_phase_def Let_def split: if_splits)
      then show "snt = [] \<and> rcv = [] \<and> (sending_phase ?c \<or> receiving_phase ?c \<or> refusing_phase ?c \<or> accepting_phase ?c \<or> finished_phase ?c \<or>
        starting_phase ?c) \<or> active_phase env ?c rcv \<or> st_state ?c = STCP_DONE \<and> st_fsm ?c = FSM_ACTIVE \<and> (\<forall>ev \<in> set (cn_events ?c). \<exists>e. ev = Ss e)"
        using \<open>snt = []\<close> \<open>rcv = []\<close> by simp
    next
      assume "snt = []" "rcv = []" "refusing_phase c"
      then have "refusing_phase ?c" using can by (auto simp: refusing_phase_def hdr_phase_def)
      then show "snt = [] \<and> rcv = [] \<and> (sending_phase ?c \<or> receiving_phase ?c \<or> refusing_phase ?c \<or> accepting_phase ?c \<or> finished_phase ?c \<or>
        starting_phase ?c) \<or> active_phase env ?c rcv \<or> st_state ?c = STCP_DONE \<and> st_fsm ?c = FSM_ACTIVE \<and> (\<forall>ev \<in> set (cn_events ?c). \<exists>e. ev = Ss e)"
        using \<open>snt = []\<close> \<open>rcv = []\<close> by simp
    next
      assume a: "active_phase env c rcv"
      have "in_ok env ?c rcv"
      proof (cases "st_instate c")
        case IN_HDR
        then obtain h where h: "length h = 8" "us_taken ?u = h @ concat (map (frame env) rcv) @ us_got ?u @ us_rest ?u" "?n = stream_hdrsize env"
            "pb_instate (st_pipe c) = IO_ASYNC"
          using a can by (auto simp: active_phase_def in_ok_def Let_def)
        then show ?thesis using IN_HDR can a len taken [of "h @ concat (map (frame env) rcv)"]
          by (auto simp: in_ok_def Let_def active_phase_def intro!: exI [of _ h])
      next
        case IN_BODY
        then obtain h and sz :: u64 where h: "length h = 8"
            "us_taken ?u = h @ concat (map (frame env) rcv) @ se_first env @ nn_putll sz @ us_got ?u @ us_rest ?u" "?n = unat sz"
            "pb_instate (st_pipe c) = IO_ASYNC"
          using a can by (auto simp: active_phase_def in_ok_def Let_def)
        then show ?thesis using IN_BODY can a len taken [of "h @ concat (map (frame env) rcv) @ se_first env @ nn_putll sz"]
          by (auto simp: in_ok_def Let_def active_phase_def intro!: exI [of _ h] exI [of _ sz])
      qed (use a can in \<open>auto simp: active_phase_def in_ok_def Let_def\<close>)
      moreover have "out_ok ?c" by (rule out_ok_events [of c]) (use a same can in \<open>auto simp: active_phase_def\<close>)
      ultimately show "snt = [] \<and> rcv = [] \<and> (sending_phase ?c \<or> receiving_phase ?c \<or> refusing_phase ?c \<or> accepting_phase ?c \<or> finished_phase ?c \<or>
        starting_phase ?c) \<or> active_phase env ?c rcv \<or> st_state ?c = STCP_DONE \<and> st_fsm ?c = FSM_ACTIVE \<and> (\<forall>ev \<in> set (cn_events ?c). \<exists>e. ev = Ss e)"
        using a can by (auto simp: active_phase_def)
    qed (use can in \<open>auto simp: phase_defs\<close>)
    then have "conn_ok d env ?c snt rcv" using ok by (intro recvd_ok [OF u1]) simp_all
    then show "conn_ok d env (c\<lparr>cn_usock := u'\<lparr>us_raised := []\<rparr>, cn_events := cn_events c @ map (Us (cn_owner c)) (us_raised u')\<rparr>) snt rcv"
      using raised by (auto split: if_splits)
  qed (use can ok assms in auto)
qed

lemma fd_out_ok:
  assumes "kernel_law k" "kernel_calm k \<or> d" "conn_ok d env c snt rcv" "us_live (cn_usock c)" "can_fd k Fd_out c"
  shows "ok_step d (kernel_calm k) env snt rcv (conn_fd k Fd_out c)"
proof -
  let ?u = "cn_usock c"
  have can: "cn_events c = []" "us_pollout ?u" "us_sending ?u" "st_state c \<noteq> STCP_DONE" using assms(5) by (auto simp: can_fd_def us_sending_def)
  have eq: "conn_fd k Fd_out c = map_option (\<lambda>c. c) (us_do (\<lambda>u. usock_only (usock_feed k Fd_out u)) c)"
    by (simp add: conn_fd_def option.map_ident)
  note ok = conn_okD [OF assms(3,4)]
  show ?thesis unfolding eq
  proof (rule step_intro [where R = "sends (us_unsent ?u) ?u" and e = USOCK_SENT])
    show "\<And>u'. usock_only (usock_feed k Fd_out ?u) = Some u' \<Longrightarrow> us_dies k ?u u' \<or> sends (us_unsent ?u) ?u u'"
      using fd_out_spec [OF assms(1,4) can(2)] by (simp add: live_feed [OF assms(4)])
    show "\<And>u'. sends (us_unsent ?u) ?u u' \<Longrightarrow> us_raised u' = [] \<or> us_raised u' = [USOCK_SENT]"
      using sends_sent [OF _ ok(1)] by auto
    show "kernel_calm k \<Longrightarrow> usock_only (usock_feed k Fd_out ?u) \<noteq> None"
      using fd_out_calm [OF assms(1) _ assms(4) can(2)] by (simp add: live_feed [OF assms(4)])
    fix u'
    assume r: "sends (us_unsent ?u) ?u u'"
    let ?u1 = "u'\<lparr>us_raised := []\<rparr>" and ?c = "with_sent (u'\<lparr>us_raised := []\<rparr>) c"
    have u1: "sent (us_unsent ?u) ?u ?u1" and raised: "us_raised u' = (if us_sending u' then [] else [USOCK_SENT])"
      using sends_sent [OF r ok(1)] by auto
    have same: "same_in ?u ?u1" using u1 by (simp add: sent_def)
    have shake: "sending_phase c \<Longrightarrow> sending_phase ?c" "refusing_phase c \<Longrightarrow> refusing_phase ?c"
      using can same by (auto simp: sending_phase_def refusing_phase_def hdr_phase_def Let_def same_in_def)
    have act: "active_phase env ?c rcv" if a: "active_phase env c rcv"
    proof -
      have "in_ok env ?c rcv" by (rule in_ok_events [of env c]) (use a same can in \<open>auto simp: active_phase_def\<close>)
      moreover have "out_ok ?c" using a can by (auto simp: active_phase_def out_ok_def Let_def split: stcp_outstate.splits)
      ultimately show ?thesis using a can by (auto simp: active_phase_def)
    qed
    have none: "\<not> receiving_phase c" "\<not> accepting_phase c" "\<not> finished_phase c" "\<not> starting_phase c"
      using can by (auto simp: phase_defs)
    have "phase env ?c snt rcv" using ok(3) can(4) none shake act unfolding phase_def by blast
    then have "conn_ok d env ?c snt rcv" using ok by (intro conn_sent_ok [OF u1]) simp_all
    then show "conn_ok d env (c\<lparr>cn_usock := u'\<lparr>us_raised := []\<rparr>, cn_events := cn_events c @ map (Us (cn_owner c)) (us_raised u')\<rparr>) snt rcv"
      using raised by (auto split: if_splits)
  qed (use can ok assms in auto)
qed

lemma fd_ok:
  assumes "kernel_law k" "kernel_calm k \<or> d" "conn_ok d env c snt rcv" "us_live (cn_usock c)" "can_fd k ev c"
  shows "ok_step d (kernel_calm k) env snt rcv (conn_fd k ev c)"
proof (cases "ev = Fd_err")
  case False
  then show ?thesis using fd_in_ok [OF assms(1-4)] fd_out_ok [OF assms(1-4)] assms(5) by (auto simp: can_fd_def)
next
  case True
  then have k: "\<not> kernel_calm k" using assms(5) by (simp add: can_fd_def)
  have "conn_ok d env c' snt rcv" if r: "conn_fd k ev c = Some c'" for c'
  proof -
    from r True obtain u where u: "usock_fail (cn_usock c) = Some u" "cn_usock c' = u\<lparr>us_raised := []\<rparr>"
      by (auto simp: conn_fd_def live_feed [OF assms(4)] elim: us_doE)
    have "us_dies k (cn_usock c) u" using usock_fail_dies [OF u(1)] assms(4) k by (simp add: us_dies_def us_live_def)
    then show ?thesis by (rule dies_ok [OF _ conn_okD(4,5) [OF assms(3,4)] assms(2) u(2)])
  qed
  then show ?thesis using k by (simp add: ok_step_def)
qed

text \<open>What the worker sends to the timer, in any order that the timer knows.\<close>

definition can_timer :: "timer_src \<Rightarrow> conn \<Rightarrow> bool" where
  "can_timer src c \<longleftrightarrow> cn_events c = [] \<and> st_state c \<noteq> STCP_DONE \<and> nn_timer_feed src (hd_timer c) \<noteq> None"

lemma timer_off_feed: "timer_off tm \<Longrightarrow> nn_timer_feed src tm = None"
  by (simp add: timer_off_def nn_timer_feed_def nn_timer_handler_def)

lemma timer_on_feed:
  assumes "timer_on tm" "nn_timer_feed src tm = Some (e, tm')"
  shows "timer_on tm' \<and> (e = None \<or> e = Some TIMER_TIMEOUT)"
  using assms by (cases src) (auto simp: timer_on_def nn_timer_feed_def nn_timer_handler_def split: if_splits)

lemma timer_stopping_feed:
  assumes "timer_stopping tm" "nn_timer_feed src tm = Some (e, tm')"
  shows "timer_stopping tm' \<and> e = None \<or> timer_off tm' \<and> e = Some TIMER_STOPPED"
  using assms by (cases src) (auto simp: timer_stopping_def timer_off_def nn_timer_feed_def nn_timer_shutdown_def split: if_splits)

lemma timer_ok:
  assumes "conn_ok d env c snt rcv" "us_live (cn_usock c)" "can_timer src c"
  shows "ok_step d calm env snt rcv (conn_timer src c)"
proof -
  obtain e tm' where feed: "nn_timer_feed src (hd_timer c) = Some (e, tm')" and c: "cn_events c = []" "st_state c \<noteq> STCP_DONE"
    using assms(3) by (auto simp: can_timer_def)
  let ?c = "c\<lparr>hd_timer := tm', cn_events := (case e of None \<Rightarrow> [] | Some ev \<Rightarrow> [Tm ev])\<rparr>"
  have eq: "conn_timer src c = Some ?c"
    using feed c by (cases e) (simp_all add: conn_timer_def conn_raise_def)
  have off: "\<not> timer_off (hd_timer c)" using feed timer_off_feed by auto
  have on: "sending_phase ?c" if "sending_phase c"
  proof -
    have "timer_on tm' \<and> (e = None \<or> e = Some TIMER_TIMEOUT)" using timer_on_feed [OF _ feed] that by (auto simp: sending_phase_def Let_def)
    then show ?thesis using that c by (auto simp: sending_phase_def hdr_phase_def Let_def)
  qed
  have on': "receiving_phase ?c" if "receiving_phase c"
  proof -
    have "timer_on tm' \<and> (e = None \<or> e = Some TIMER_TIMEOUT)" using timer_on_feed [OF _ feed] that by (auto simp: receiving_phase_def Let_def)
    then show ?thesis using that c by (auto simp: receiving_phase_def hdr_phase_def Let_def)
  qed
  have stop: "refusing_phase c \<Longrightarrow> refusing_phase ?c" "accepting_phase c \<Longrightarrow> accepting_phase ?c"
    using timer_stopping_feed [OF _ feed] c off
    by (auto simp: refusing_phase_def accepting_phase_def hdr_phase_def has_header_def Let_def)
  have none: "\<not> finished_phase c" "\<not> starting_phase c" "\<not> active_phase env c rcv"
    using c off by (auto simp: finished_phase_def starting_phase_def active_phase_def)
  have "phase env ?c snt rcv" using conn_okD(3) [OF assms(1,2)] on on' stop none c(2) unfolding phase_def by blast
  then show ?thesis unfolding eq by (simp add: same_usock_ok [OF assms(1,2)])
qed

section \<open>The start\<close>

text \<open>A socket that has just been connected or accepted.\<close>

definition us_new :: "usock \<Rightarrow> bool" where
  "us_new u \<longleftrightarrow> us_live u \<and> us_raised u = [] \<and> us_given u = [] \<and> us_taken u = [] \<and> us_rest u = [] \<and> \<not> us_sending u \<and> \<not> us_recving u"

lemma conn_start_ok:
  assumes "kernel_law k" "kernel_calm k \<or> d" "us_new u"
  shows "ok_step d (kernel_calm k) env [] [] (stream_start env k (conn_init u sndprio rcvprio))"
proof -
  let ?c = "(conn_init u sndprio rcvprio)\<lparr>cn_owner := Own_hdr, st_owner := Some Own_ep, hd_owner := Some Own_ses,
    hd_protohdr := protohdr (se_protocol env), hd_timer := \<lparr>tm_fsm = FSM_ACTIVE, tm_state = FSM_ACTIVE, tm_timeout = 1000\<rparr>\<rparr>"
  let ?g = "\<lambda>c. c\<lparr>hd_state := HDR_SENDING, hd_fsm := FSM_ACTIVE, st_state := STCP_PROTOHDR, st_fsm := FSM_ACTIVE\<rparr>"
  have out: "us_given u @ protohdr (se_protocol env) = outstream env []" using assms(3) by (simp add: us_new_def outstream_def)
  have eq: "stream_start env k (conn_init u sndprio rcvprio) = map_option ?g (us_do (nn_usock_send k [protohdr (se_protocol env)]) ?c)"
    by (simp add: stream_start_def conn_init_def nn_stcp_isidle_def nn_streamhdr_start_def nn_streamhdr_isidle_def nn_timer_start_def
        nn_timer_init_def Let_def option.map_comp comp_def)
  show ?thesis unfolding eq
  proof (rule us_send_step)
    fix u1
    assume u1: "sent (concat [protohdr (se_protocol env)]) (cn_usock ?c) u1"
    have "sending_phase (?g (with_sent u1 ?c))"
      using u1 assms(3) by (auto simp: sending_phase_def hdr_phase_def Let_def conn_init_def timer_on_def sent_def same_in_def us_new_def
          nn_pipebase_init_def)
    then show "conn_ok d env (?g (with_sent u1 ?c)) [] []"
      using out by (intro conn_sent_ok [OF u1]) (simp_all add: phase_def conn_init_def)
  qed (use assms in \<open>auto simp: us_new_def conn_init_def\<close>)
qed

section \<open>After the socket has failed\<close>

text \<open>No bytes move any more, and a message can neither be sent nor received.\<close>

definition stays_dead :: "conn \<Rightarrow> conn \<Rightarrow> bool" where
  "stays_dead c c' \<longleftrightarrow> us_dead (cn_usock c') \<and> us_given (cn_usock c') = us_given (cn_usock c) \<and>
     us_taken (cn_usock c') = us_taken (cn_usock c) \<and> us_raised (cn_usock c') = []"

lemma stays_dead_ok:
  assumes "conn_ok d env c snt rcv" "us_dead (cn_usock c)" "stays_dead c c'"
  shows "conn_ok d env c' snt rcv"
  using assms live_not_dead [of "cn_usock c"] by (auto simp: conn_ok_def stays_dead_def Let_def)

lemma dead_calls [simp]:
  assumes "us_dead (cn_usock c)"
  shows "us_do (nn_usock_send k iov) c = None" "us_do (nn_usock_recv k n) c = None"
  using assms by (auto simp: us_do_def nn_usock_send_def nn_usock_recv_def us_dead_def)

lemma dead_pipe:
  assumes "us_dead (cn_usock c)"
  shows "stream_pipe_send env k m c = None" "stream_pipe_recv env k c = None"
  using assms by (simp_all add: stream_pipe_send_def stream_send_def stream_pipe_recv_def stream_recv_def)

lemma raise_usock: "conn_raise ev c = Some c' \<Longrightarrow> cn_usock c' = cn_usock c"
  by (auto simp: conn_raise_def split: if_splits)

lemma hd_stopping_usock: "hd_stopping c = Some c' \<Longrightarrow> cn_usock c' = cn_usock c"
  by (auto simp: hd_stopping_def dest: raise_usock split: if_splits)

lemma hd_feed_dead:
  assumes "hd_feed env k ev c = Some c'" "us_dead (cn_usock c)"
  shows "cn_usock c' = cn_usock c"
proof (cases "hd_fsm c = FSM_STOPPING")
  case True
  then show ?thesis using assms hd_stopping_usock by (auto simp: hd_feed_def)
next
  case False
  then have "nn_streamhdr_handler env k ev c = Some c'" using assms(1) by (simp add: hd_feed_def)
  then show ?thesis using assms(2)
    by (auto simp: nn_streamhdr_handler_def stop_hd_timer_def hd_finish_def Let_def dest: raise_usock
        split: hdr_state.splits if_splits sum.splits option.splits)
qed

lemma pipe_do_usock: "pipe_do f c = Some c' \<Longrightarrow> cn_usock c' = cn_usock c"
  by (auto simp: pipe_do_def)

lemma stream_failed_usock: "stream_failed c = Some c' \<Longrightarrow> cn_usock c' = cn_usock c"
  by (auto simp: stream_failed_def dest: raise_usock)

lemma streamhdr_stop_usock: "nn_streamhdr_stop c = Some c' \<Longrightarrow> cn_usock c' = cn_usock c"
  by (auto simp: nn_streamhdr_stop_def stop_hd_timer_def dest: hd_stopping_usock split: if_splits)

lemma stream_received_dead:
  assumes "stream_received env k c = Some c'" "us_dead (cn_usock c)"
  shows "cn_usock c' = cn_usock c"
  using assms by (auto simp: stream_received_def stream_got_hdr_def Let_def dest: pipe_do_usock split: stcp_instate.splits if_splits)

lemma stream_feed_dead:
  assumes "stream_feed env k ev c = Some c'" "us_dead (cn_usock c)"
  shows "cn_usock c' = cn_usock c"
proof (cases "st_fsm c = FSM_STOPPING")
  case True
  then show ?thesis using assms by (auto simp: stream_feed_def stream_stopping_def dest: raise_usock split: if_splits option.splits)
next
  case False
  then have "stream_handler env k ev c = Some c'" using assms(1) by (simp add: stream_feed_def)
  then show ?thesis
  proof (cases "st_state c")
    case STCP_STOPPING_STREAMHDR
    with \<open>stream_handler env k ev c = Some c'\<close> obtain c1 where c1: "pipe_do (nn_pipebase_start (se_added env)) c = Some c1"
        "stream_failed c1 = Some c' \<or> us_do (nn_usock_recv k (stream_hdrsize env)) (c1\<lparr>st_instate := IN_HDR\<rparr>) \<noteq> None"
      by (auto simp: stream_handler_def split: if_splits option.splits)
    then show ?thesis using assms(2) pipe_do_usock [OF c1(1)] stream_failed_usock by auto
  qed (use \<open>stream_handler env k ev c = Some c'\<close> assms(2) in
      \<open>auto simp: stream_handler_def dest: raise_usock pipe_do_usock stream_failed_usock streamhdr_stop_usock stream_received_dead split: if_splits\<close>)
qed

lemma process_dead:
  assumes "conn_ok d env c snt rcv" "us_dead (cn_usock c)" "conn_process env k c = Some c'"
  shows "conn_ok d env c' snt rcv"
proof -
  obtain ev evs where ev: "cn_events c = ev # evs" using assms(3) by (auto simp: conn_process_def split: list.splits)
  have "cn_usock c' = cn_usock c"
    using assms(2,3) ev
    by (auto simp: conn_process_def conn_dispatch_def dest!: stream_feed_dead hd_feed_dead split: conn_event.splits owner.splits)
  then show ?thesis using assms(1,2) by (intro stays_dead_ok [OF assms(1,2)]) (auto simp: stays_dead_def conn_ok_def Let_def)
qed

lemma feed_dead:
  assumes "us_dead u" "usock_only (usock_feed k ev u) = Some u'"
  shows "us_dead u' \<and> us_given u' = us_given u \<and> us_taken u' = us_taken u"
proof (cases "nn_internal_tasks ev u")
  case (Some r)
  then have r: "r = Some u'" using assms by (simp add: us_dead_def usock_feed_def nn_usock_handler_def)
  have "us_fsm u' = us_fsm u \<and> us_state u' = us_state u \<and> us_given u' = us_given u \<and> us_taken u' = us_taken u"
    using Some unfolding r nn_internal_tasks_def
    by (auto simp: nn_worker_set_in_def nn_worker_set_out_def nn_worker_add_fd_def split: usock_input.splits usock_task.splits if_splits)
  then show ?thesis using assms(1) by (simp add: us_dead_def)
next
  case None
  have "ev = Task TASK_STOP \<and> usock_fail u = Some u' \<or> u' = u"
  proof (cases "us_state u")
    case USOCK_REMOVING_FD
    then show ?thesis using assms None
      by (auto simp: us_dead_def usock_feed_def nn_usock_handler_def split: if_splits)
  next
    case USOCK_DONE
    then show ?thesis using assms None by (auto simp: us_dead_def usock_feed_def nn_usock_handler_def usock_only_def)
  qed (use assms(1) in \<open>auto simp: us_dead_def\<close>)
  then show ?thesis using assms(1) usock_fail_dies [of u u'] by (auto simp: us_dead_def)
qed

lemma us_do_dead:
  assumes "conn_ok d env c snt rcv" "us_dead (cn_usock c)" "us_do f c = Some c'"
    "\<And>u'. f (cn_usock c) = Some u' \<Longrightarrow> us_dead u' \<and> us_given u' = us_given (cn_usock c) \<and> us_taken u' = us_taken (cn_usock c)"
  shows "conn_ok d env c' snt rcv"
  using assms(3,4) by (intro stays_dead_ok [OF assms(1,2)]) (auto simp: stays_dead_def elim: us_doE)

lemma task_dead:
  assumes "conn_ok d env c snt rcv" "us_dead (cn_usock c)" "conn_task k c = Some c'"
  shows "conn_ok d env c' snt rcv"
proof -
  obtain t ts where ts: "us_tasks (cn_usock c) = t # ts" "us_do (\<lambda>u. usock_only (usock_feed k (Task t) (u\<lparr>us_tasks := ts\<rparr>))) c = Some c'"
    using assms(3) by (auto simp: conn_task_def split: list.splits)
  have "us_dead ((cn_usock c)\<lparr>us_tasks := ts\<rparr>)" using assms(2) by (simp add: us_dead_def)
  from feed_dead [OF this] show ?thesis by (intro us_do_dead [OF assms(1,2) ts(2)]) force
qed

lemma fd_dead:
  assumes "conn_ok d env c snt rcv" "us_dead (cn_usock c)" "conn_fd k ev c = Some c'"
  shows "conn_ok d env c' snt rcv"
  using us_do_dead [OF assms(1,2)] assms(3) feed_dead [OF assms(2)] unfolding conn_fd_def by blast

lemma timer_dead:
  assumes "conn_ok d env c snt rcv" "us_dead (cn_usock c)" "conn_timer src c = Some c'"
  shows "conn_ok d env c' snt rcv"
proof (rule stays_dead_ok [OF assms(1,2)])
  have "cn_usock c' = cn_usock c" using assms(3) by (auto simp: conn_timer_def dest!: raise_usock split: option.splits)
  then show "stays_dead c c'" using assms(1,2) by (auto simp: stays_dead_def conn_ok_def Let_def)
qed

section \<open>Reachable states\<close>

text \<open>
  \<open>K\<close> says which kernels may answer a step. The worker comes to the connection when all events have been processed; once the session has reported
  an error the endpoint stops it.
\<close>

inductive conn_reach :: "(kernel \<Rightarrow> bool) \<Rightarrow> stream_env \<Rightarrow> conn \<Rightarrow> msg list \<Rightarrow> bytes list \<Rightarrow> bool" for K env where
  reach_start: "kernel_law k \<Longrightarrow> K k \<Longrightarrow> us_new u \<Longrightarrow> stream_start env k (conn_init u sndprio rcvprio) = Some c \<Longrightarrow> conn_reach K env c [] []"
| reach_send: "conn_reach K env c snt rcv \<Longrightarrow> kernel_law k \<Longrightarrow> K k \<Longrightarrow> stream_pipe_send env k m c = Some c' \<Longrightarrow>
    conn_reach K env c' (snt @ [m]) rcv"
| reach_recv: "conn_reach K env c snt rcv \<Longrightarrow> kernel_law k \<Longrightarrow> K k \<Longrightarrow> stream_pipe_recv env k c = Some (m, c') \<Longrightarrow>
    conn_reach K env c' snt (rcv @ [m_body m])"
| reach_process: "conn_reach K env c snt rcv \<Longrightarrow> kernel_law k \<Longrightarrow> K k \<Longrightarrow> conn_process env k c = Some c' \<Longrightarrow> conn_reach K env c' snt rcv"
| reach_task: "conn_reach K env c snt rcv \<Longrightarrow> cn_events c = [] \<Longrightarrow> st_state c \<noteq> STCP_DONE \<Longrightarrow> kernel_law k \<Longrightarrow> K k \<Longrightarrow>
    conn_task k c = Some c' \<Longrightarrow> conn_reach K env c' snt rcv"
| reach_fd: "conn_reach K env c snt rcv \<Longrightarrow> can_fd k ev c \<Longrightarrow> kernel_law k \<Longrightarrow> K k \<Longrightarrow> conn_fd k ev c = Some c' \<Longrightarrow>
    conn_reach K env c' snt rcv"
| reach_timer: "conn_reach K env c snt rcv \<Longrightarrow> can_timer src c \<Longrightarrow> conn_timer src c = Some c' \<Longrightarrow> conn_reach K env c' snt rcv"

lemma conn_ok_cases: "conn_ok d env c snt rcv \<Longrightarrow> us_dead (cn_usock c) \<and> d \<or> us_live (cn_usock c)"
  by (auto simp: conn_ok_def Let_def)

lemma process_ok:
  assumes "kernel_law k" "kernel_calm k \<or> d" "conn_ok d env c snt rcv" "conn_process env k c = Some c'"
  shows "conn_ok d env c' snt rcv"
proof (cases "us_dead (cn_usock c)")
  case True
  then show ?thesis by (rule process_dead [OF assms(3) _ assms(4)])
next
  case False
  then have live: "us_live (cn_usock c)" using conn_ok_cases [OF assms(3)] by simp
  have ne: "cn_events c \<noteq> []" using assms(4) by (auto simp: conn_process_def)
  show ?thesis using process_live [OF assms(1-3) live ne] assms(4) by (simp add: ok_step_def)
qed

lemma conn_reach_ok:
  assumes "conn_reach K env c snt rcv" "(\<forall>k. K k \<longrightarrow> kernel_calm k) \<or> d"
  shows "conn_ok d env c snt rcv \<and> (\<forall>b \<in> set rcv. length b < 2 ^ 64)"
  using assms(1)
proof induction
  case (reach_start k u sndprio rcvprio c)
  then show ?case using conn_start_ok [of k d u env sndprio rcvprio] assms(2) by (auto simp: ok_step_def)
next
  case (reach_send c snt rcv k m c')
  then have "us_live (cn_usock c)" using conn_ok_cases [of d env c snt rcv] dead_pipe(1) [of c env k m] by auto
  then show ?case using pipe_send_ok [of k d env c snt rcv m] reach_send assms(2) by auto
next
  case (reach_recv c snt rcv k m c')
  then have "us_live (cn_usock c)" using conn_ok_cases [of d env c snt rcv] dead_pipe(2) [of c env k] by auto
  then show ?case using pipe_recv_ok [of k d env c snt rcv] reach_recv assms(2) by auto
next
  case (reach_process c snt rcv k c')
  then show ?case using process_ok [of k d env c snt rcv c'] assms(2) by auto
next
  case (reach_task c snt rcv k c')
  then have ne: "us_tasks (cn_usock c) \<noteq> []" by (auto simp: conn_task_def)
  have "conn_ok d env c' snt rcv"
  proof (cases "us_dead (cn_usock c)")
    case True
    then show ?thesis using task_dead reach_task by blast
  next
    case False
    then show ?thesis using task_ok [of d env c snt rcv True k] conn_ok_cases [of d env c snt rcv] reach_task ne by (auto simp: ok_step_def)
  qed
  then show ?case using reach_task by simp
next
  case (reach_fd c snt rcv k ev c')
  have "conn_ok d env c' snt rcv"
  proof (cases "us_dead (cn_usock c)")
    case True
    then show ?thesis using fd_dead reach_fd by blast
  next
    case False
    then show ?thesis using fd_ok [of k d env c snt rcv ev] conn_ok_cases [of d env c snt rcv] reach_fd assms(2) by (auto simp: ok_step_def)
  qed
  then show ?case using reach_fd by simp
next
  case (reach_timer c snt rcv src c')
  have "conn_ok d env c' snt rcv"
  proof (cases "us_dead (cn_usock c)")
    case True
    then show ?thesis using timer_dead reach_timer by blast
  next
    case False
    then show ?thesis using timer_ok [of d env c snt rcv src True] conn_ok_cases [of d env c snt rcv] reach_timer by (auto simp: ok_step_def)
  qed
  then show ?case using reach_timer by simp
qed

end
