(* ===== verification/Nn_Stream_Props.thy ===== *)
theory Nn_Stream_Props
  imports Nn_Stream_Reach
begin

text \<open>
  Properties of the connections over TCP and IPC: messages arrive in order and whole, whatever pieces the kernel makes of them; nothing aborts while the
  kernel reports no failure and the peer speaks the protocol; and the ways in which a peer, or a failure, ends the process.
\<close>

section \<open>In order\<close>

lemma frame_first: "se_first env = se_first env' \<Longrightarrow> frame env = frame env'"
  by (simp add: frame_def fun_eq_iff)

lemma prefix_drop_same: "prefix (h @ x) (h' @ y) \<Longrightarrow> length h = length h' \<Longrightarrow> h = h' \<and> prefix x y"
  by (auto simp: prefix_def)

lemma arrived_prefix:
  assumes "arrived env rcv t" "prefix t (h' @ concat (map (frame env) bs))" "length h' = 8" "\<forall>b \<in> set rcv \<union> set bs. length b < 2 ^ 64"
  shows "prefix rcv bs"
proof (cases "rcv = []")
  case False
  then obtain h where h: "length h = 8" "prefix (h @ concat (map (frame env) rcv)) t" using assms(1) by (auto simp: arrived_def)
  then have "prefix (h @ concat (map (frame env) rcv)) (h' @ concat (map (frame env) bs))" using assms(2) prefix_order.trans by blast
  then have "prefix (concat (map (frame env) rcv) @ []) (concat (map (frame env) bs))" using prefix_drop_same h(1) assms(3) by fastforce
  from frames_prefix [OF this] assms(4) show ?thesis by auto
qed simp

text \<open>
  C9: Two connections of which one takes from the kernel what the other has given to it, in order, hand over messages in order:
  what has been received at one end is a beginning of what was sent at the other. This holds in every state that they can reach, however the kernel
  cuts the stream, with failures and time-outs.
\<close>

theorem stream_delivers_in_order:
  assumes "conn_reach K env c snt rcv" "conn_reach K' env' c' snt' rcv'" "se_first env = se_first env'"
    "prefix (us_taken (cn_usock c)) (us_given (cn_usock c'))" "\<forall>m \<in> set snt'. length (content m) < 2 ^ 64"
  shows "prefix rcv (map content snt')"
proof (rule arrived_prefix)
  note ok = conn_reach_ok [OF assms(1), of True] and ok' = conn_reach_ok [OF assms(2), of True]
  show "arrived env rcv (us_taken (cn_usock c))" using ok by (auto simp: conn_ok_def Let_def)
  have "prefix (us_given (cn_usock c')) (outstream env' snt')" using ok' by (auto simp: conn_ok_def Let_def)
  with assms(4) have "prefix (us_taken (cn_usock c)) (outstream env' snt')" by (rule prefix_order.trans)
  then show "prefix (us_taken (cn_usock c)) (protohdr (se_protocol env') @ concat (map (frame env) (map content snt')))"
    using frame_first [OF assms(3)] by (simp add: outstream_def)
  show "\<forall>b \<in> set rcv \<union> set (map content snt'). length b < 2 ^ 64" using ok assms(5) by auto
qed simp

section \<open>No abort\<close>

text \<open>What the connection can be asked to do, by the socket above and by the threads.\<close>

datatype stream_step = Send msg | Receive | Process | Run_task | Fd usock_input | Timer timer_src

definition enabled :: "kernel \<Rightarrow> conn \<Rightarrow> stream_step \<Rightarrow> bool" where
  "enabled k c s \<longleftrightarrow> (case s of
     Send m \<Rightarrow> st_state c = STCP_ACTIVE \<and> pb_outstate (st_pipe c) = IO_IDLE
   | Receive \<Rightarrow> st_state c = STCP_ACTIVE \<and> pb_instate (st_pipe c) = IO_IDLE
   | Process \<Rightarrow> cn_events c \<noteq> []
   | Run_task \<Rightarrow> cn_events c = [] \<and> st_state c \<noteq> STCP_DONE \<and> us_tasks (cn_usock c) \<noteq> []
   | Fd ev \<Rightarrow> can_fd k ev c
   | Timer src \<Rightarrow> can_timer src c)"

definition stream_do :: "stream_env \<Rightarrow> kernel \<Rightarrow> stream_step \<Rightarrow> conn \<Rightarrow> conn option" where
  "stream_do env k s c = (case s of
     Send m \<Rightarrow> stream_pipe_send env k m c
   | Receive \<Rightarrow> map_option snd (stream_pipe_recv env k c)
   | Process \<Rightarrow> conn_process env k c
   | Run_task \<Rightarrow> conn_task k c
   | Fd ev \<Rightarrow> conn_fd k ev c
   | Timer src \<Rightarrow> conn_timer src c)"

definition fits :: "kernel \<Rightarrow> bytes \<Rightarrow> bool" where
  "fits k b \<longleftrightarrow> length b < 2 ^ 64 \<and> (let size = of_nat (length b) :: u64 in
     length b < NN_CHUNKREF_MAX \<or> nn_chunk_hdrsize + size \<ge> nn_chunk_hdrsize \<and> kn_memory k (nn_chunk_hdrsize + size))"

text \<open>The length that has arrived is the one of the next message.\<close>

lemma next_header:
  assumes "prefix (h @ concat (map (frame env) rcv) @ got @ rest) (h' @ concat (map (frame env) bs))" "length h = 8" "length h' = 8"
    "length got = stream_hdrsize env" "\<forall>b \<in> set rcv \<union> set bs. length b < 2 ^ 64"
  obtains b where "b \<in> set bs" "got = se_first env @ nn_putll (of_nat (length b))"
proof -
  have "prefix (concat (map (frame env) rcv) @ got @ rest) (concat (map (frame env) bs))"
    using prefix_drop_same [OF assms(1)] assms(2,3) by simp
  from this frames_prefix [OF this assms(5)] obtain cs where cs: "bs = rcv @ cs" "prefix (got @ rest) (concat (map (frame env) cs))"
    by (auto simp: prefix_def)
  have "cs \<noteq> []" using cs(2) assms(4) by (auto simp: stream_hdrsize_def)
  then obtain b cs' where b: "cs = b # cs'" by (cases cs) auto
  then obtain z where "got @ rest @ z = (se_first env @ nn_putll (of_nat (length b))) @ b @ concat (map (frame env) cs')"
    using cs(2) by (auto simp: prefix_def frame_def)
  moreover have "length got = length (se_first env @ nn_putll (of_nat (length b)))" using assms(4) by (simp add: stream_hdrsize_def)
  ultimately have "got = se_first env @ nn_putll (of_nat (length b))" by (metis append_eq_append_conv)
  then show thesis using that [of b] b cs(1) by simp
qed

text \<open>
  C10: No assertion fails in a connection whose kernel reports no failure, whose peer sends its protocol header and well-formed
  messages for which there is memory: in every reachable state, whatever can be asked for next is done.
\<close>

theorem stream_never_aborts:
  assumes "conn_reach kernel_calm env c snt rcv" "kernel_law k" "kernel_calm k" "enabled k c s"
    "length h = 8" "prefix (us_taken (cn_usock c)) (h @ concat (map (frame env) bs))" "\<forall>b \<in> set bs. fits k b"
  shows "stream_do env k s c \<noteq> None"
proof -
  have ok: "conn_ok False env c snt rcv" "\<forall>b \<in> set rcv. length b < 2 ^ 64" using conn_reach_ok [OF assms(1), of False] by auto
  have live: "us_live (cn_usock c)" using conn_ok_cases [OF ok(1)] by simp
  show ?thesis
  proof (cases s)
    case Process
    have ne: "cn_events c \<noteq> []" using assms(4) Process by (simp add: enabled_def)
    have "header_fits env k (us_got (cn_usock c))"
      if "st_state c = STCP_ACTIVE" "st_instate c = IN_HDR" "hd (cn_events c) = Us Own_ses USOCK_RECEIVED"
    proof -
      have "in_ok env c rcv" using conn_okD(3) [OF ok(1) live] that(1) by (auto simp: phase_def phase_defs active_phase_def)
      moreover have "Us Own_ses USOCK_RECEIVED \<in> set (cn_events c)" using ne that(3) by (metis list.set_sel(1))
      ultimately obtain h1 where h1: "length h1 = 8" "length (us_got (cn_usock c)) = stream_hdrsize env"
          "us_taken (cn_usock c) = h1 @ concat (map (frame env) rcv) @ us_got (cn_usock c) @ us_rest (cn_usock c)"
        by (cases rule: in_okE) (use \<open>st_instate c = IN_HDR\<close> in auto)
      have "\<forall>b \<in> set rcv \<union> set bs. length b < 2 ^ 64" using ok(2) assms(7) by (auto simp: fits_def)
      then obtain b where b: "b \<in> set bs" "us_got (cn_usock c) = se_first env @ nn_putll (of_nat (length b))"
        using next_header [OF assms(6) [unfolded h1(3)] h1(1) assms(5) h1(2)] by blast
      have "fits k b" using assms(7) b(1) by simp
      moreover have "nn_getll (nn_putll (of_nat (length b))) = of_nat (length b)" using get_put(3) [of _ "[]"] by simp
      ultimately show ?thesis using unat_length [of b] by (simp add: header_fits_def fits_def b(2) Let_def)
    qed
    then show ?thesis using process_live [OF assms(2) _ ok(1) live ne] assms(3) Process by (simp add: ok_step_def stream_do_def)
  qed (use assms(3,4) pipe_send_ok [OF assms(2) _ ok(1) live] pipe_recv_ok [OF assms(2) _ ok(1) live] task_ok [OF ok(1) live, of True]
      fd_ok [OF assms(2) _ ok(1) live] timer_ok [OF ok(1) live, of _ True] in
      \<open>auto simp: enabled_def stream_do_def ok_step_def\<close>)
qed

section \<open>Everything arrives\<close>

lemma frame_length: "length (frame env b) = stream_hdrsize env + length b"
  by (simp add: frame_def stream_hdrsize_def)

lemma partial_frame:
  assumes "concat (map (frame env) rcv) @ p = concat (map (frame env) bs)" "\<forall>b \<in> set rcv \<union> set bs. length b < 2 ^ 64"
    "\<And>b z. p = frame env b @ z \<Longrightarrow> length b < 2 ^ 64 \<Longrightarrow> False"
  shows "rcv = bs"
proof -
  have "prefix (concat (map (frame env) rcv) @ p) (concat (map (frame env) bs))" using assms(1) by simp
  from frames_prefix [OF this assms(2)] obtain cs where cs: "bs = rcv @ cs" by (auto simp: prefix_def)
  then have p: "p = concat (map (frame env) cs)" using assms(1) by simp
  show ?thesis
  proof (cases cs)
    case (Cons b cs')
    then show ?thesis using assms(3) [of b] p assms(2) cs by auto
  qed (simp add: cs)
qed

text \<open>
  C11: Without loss. When two connections have come to rest and no call of the kernel has failed at either end, so that both system sockets
  are alive, then all messages that were sent have been received. At rest means that everything that was given to the kernel at one end
  has been taken from it at the other, that the session of the receiver is active with no event pending and no message waiting to be handed
  over, and that the sender has nothing left to give to the kernel. How the kernel cuts the bytes does not matter. A failure in the middle
  of a message does lose it: the system socket is dead then.
\<close>

theorem stream_delivers_all:
  assumes "conn_reach K env c snt rcv" "conn_reach K' env' c' snt' rcv'" "se_first env = se_first env'"
    "\<not> us_dead (cn_usock c)" "\<not> us_dead (cn_usock c')"
    "us_taken (cn_usock c) = us_given (cn_usock c')" "\<forall>m \<in> set snt'. length (content m) < 2 ^ 64"
    "st_state c = STCP_ACTIVE" "st_instate c \<noteq> IN_HASMSG" "cn_events c = []" "\<not> us_sending (cn_usock c')"
  shows "rcv = map content snt'"
proof -
  have ok: "conn_ok True env c snt rcv" "\<forall>b \<in> set rcv. length b < 2 ^ 64" and ok': "conn_ok True env' c' snt' rcv'"
    using conn_reach_ok [OF assms(1), of True] conn_reach_ok [OF assms(2), of True] by auto
  have live: "us_live (cn_usock c)" "us_live (cn_usock c')" using conn_ok_cases [OF ok(1)] conn_ok_cases [OF ok'] assms(4,5) by auto
  have all: "us_taken (cn_usock c) = protohdr (se_protocol env') @ concat (map (frame env) (map content snt'))"
    using conn_okD(2) [OF ok' live(2)] assms(6,11) frame_first [OF assms(3)] by (simp add: us_unsent_def outstream_def)
  have len: "\<forall>b \<in> set rcv \<union> set (map content snt'). length b < 2 ^ 64" using ok(2) assms(7) by auto
  have "in_ok env c rcv" using conn_okD(3) [OF ok(1) live(1)] assms(8) by (auto simp: phase_def phase_defs active_phase_def)
  then obtain h p where h: "length h = 8" "us_taken (cn_usock c) = h @ concat (map (frame env) rcv) @ p"
    and p: "\<And>b z. p = frame env b @ z \<Longrightarrow> length b < 2 ^ 64 \<Longrightarrow> False"
  proof (cases "st_instate c")
    case IN_HDR
    with \<open>in_ok env c rcv\<close> obtain h where h: "length h = 8" "us_taken (cn_usock c) = h @ concat (map (frame env) rcv) @ us_got (cn_usock c)"
        "length (us_got (cn_usock c)) + us_len (cn_usock c) = stream_hdrsize env" "us_recving (cn_usock c)"
      using assms(10) by (auto simp: in_ok_def Let_def)
    have "0 < us_len (cn_usock c)" using live(1) h(4) by (simp add: us_live_def)
    then have "\<And>b z. us_got (cn_usock c) = frame env b @ z \<Longrightarrow> False" using h(3) by (auto simp: frame_length)
    then show thesis using that h by blast
  next
    case IN_BODY
    with \<open>in_ok env c rcv\<close> obtain h and sz :: u64 where h: "length h = 8"
        "us_taken (cn_usock c) = h @ concat (map (frame env) rcv) @ se_first env @ nn_putll sz @ us_got (cn_usock c)"
        "length (us_got (cn_usock c)) + us_len (cn_usock c) = unat sz" "us_recving (cn_usock c)"
      using assms(10) by (auto simp: in_ok_def Let_def)
    have pos: "0 < us_len (cn_usock c)" using live(1) h(4) by (simp add: us_live_def)
    have "False" if "se_first env @ nn_putll sz @ us_got (cn_usock c) = frame env b @ z" "length b < 2 ^ 64" for b z
    proof -
      have "nn_putll sz @ us_got (cn_usock c) = nn_putll (of_nat (length b)) @ b @ z" using that(1) by (simp add: frame_def)
      then have "nn_putll sz = nn_putll (of_nat (length b))" "us_got (cn_usock c) = b @ z" by (simp_all add: append_eq_append_conv)
      then have "sz = of_nat (length b)" using get_put(3) [of sz "[]"] get_put(3) [of "of_nat (length b)" "[]"] by simp
      then show False using h(3) pos unat_length [OF that(2)] \<open>us_got (cn_usock c) = b @ z\<close> by simp
    qed
    then show thesis using that [of h "se_first env @ nn_putll sz @ us_got (cn_usock c)"] h by blast
  qed (use assms(9) in \<open>auto simp: in_ok_def Let_def\<close>)
  have "concat (map (frame env) rcv) @ p = concat (map (frame env) (map content snt'))"
    using h all by (metis append_eq_append_conv length_protohdr)
  from partial_frame [OF this len p] show ?thesis .
qed

section \<open>What a peer and a failure can do\<close>

text \<open>A connection that was accepted, and a kernel that takes everything and has these bytes to give.\<close>

definition accepted_usock :: usock where
  "accepted_usock = nn_usock_init\<lparr>us_fsm := FSM_ACTIVE, us_state := USOCK_ACTIVE, us_open := True, us_polled := True\<rparr>"

definition giving :: "bytes \<Rightarrow> kernel" where
  "giving bs = \<lparr>kn_socket = None, kn_setsockopt = None, kn_bind = None, kn_listen = None, kn_accept = None, kn_connect = None, kn_sockerr = 0,
     kn_send = (\<lambda>b. Inr (length b)), kn_recv = (\<lambda>n. if bs = [] \<or> n = 0 then Inl EAGAIN else Inr (take n bs)), kn_memory = (\<lambda>_. True)\<rparr>"

lemma giving_calm: "kernel_law (giving bs)" "kernel_calm (giving bs)"
  by (auto simp: kernel_law_def kernel_calm_def giving_def)

lemma new_accepted: "us_new accepted_usock"
  by (simp add: us_new_def us_live_def us_sending_def us_recving_def us_rest_def accepted_usock_def nn_usock_init_def)

fun stream_run :: "stream_env \<Rightarrow> kernel \<Rightarrow> stream_step list \<Rightarrow> conn \<Rightarrow> conn option" where
  "stream_run env k [] c = Some c"
| "stream_run env k (s # ss) c = (if enabled k c s then Option.bind (stream_do env k s c) (stream_run env k ss) else None)"

lemma do_reach:
  assumes "conn_reach K env c snt rcv" "kernel_law k" "K k" "enabled k c s" "stream_do env k s c = Some c'"
  shows "conn_reach K env c' (snt @ (case s of Send m \<Rightarrow> [m] | _ \<Rightarrow> [])) rcv \<or> s = Receive"
  using assms by (cases s) (auto simp: stream_do_def enabled_def intro: conn_reach.intros)

lemma run_reach:
  assumes "conn_reach K env c snt rcv" "kernel_law k" "K k" "stream_run env k ss c = Some c'" "Receive \<notin> set ss"
  shows "conn_reach K env c' (snt @ concat (map (\<lambda>s. case s of Send m \<Rightarrow> [m] | _ \<Rightarrow> []) ss)) rcv"
  using assms(1,4,5)
proof (induction ss arbitrary: c snt)
  case (Cons s ss)
  then obtain c1 where c1: "enabled k c s" "stream_do env k s c = Some c1" "stream_run env k ss c1 = Some c'"
    by (auto split: if_splits bind_splits)
  from do_reach [OF Cons.prems(1) assms(2,3) c1(1,2)] Cons.prems(3)
  have "conn_reach K env c1 (snt @ (case s of Send m \<Rightarrow> [m] | _ \<Rightarrow> [])) rcv" by auto
  from Cons.IH [OF this c1(3)] Cons.prems(3) show ?case by simp
qed simp

lemma the_headers [simp]:
  "protohdr NN_REQ = [0, 83, 80, 0, 0, 48, 0, 0]" "protohdr NN_REP = [0, 83, 80, 0, 0, 49, 0, 0]"
  "nn_gets [0, 48, 0, 0] = 48" "nn_gets [0, 49, 0, 0] = 49"
  by (simp_all add: protohdr_def protocol_defs nn_puts_def nn_gets_def)

lemma eight_bytes [simp]:
  "replicate 8 x = [x, x, x, x, x, x, x, x]" "nn_getll [255, 255, 255, 255, 255, 255, 255, 255] = - 1"
    "\<not> unat (- 1 :: u64) < 32"
  by (simp add: eval_nat_numeral, code_simp, simp add: unsigned_minus_1_eq_mask mask_eq_exp_minus_1)

lemma the_peers [simp]: "protocol_ispeer NN_REP 48" "protocol_ispeer NN_REQ 49"
  by (simp_all add: protocol_ispeer_def socktypes_def nn_sock_ispeer_def protocol_defs ispeer_defs)

lemmas run_defs = accepted_usock_def nn_usock_init_def giving_def stream_start_def conn_init_def nn_stcp_isidle_def nn_streamhdr_start_def
  nn_streamhdr_isidle_def nn_timer_start_def nn_timer_init_def us_do_def nn_usock_send_def nn_usock_send_raw_def
  usock_raise_def conn_raise_def stream_do_def conn_process_def conn_dispatch_def hd_feed_def nn_streamhdr_handler_def
  nn_usock_recv_def nn_usock_recv_raw_def NN_USOCK_BATCH_SIZE_def stop_hd_timer_def nn_timer_stop_def conn_timer_def nn_timer_feed_def
  nn_timer_shutdown_def hd_finish_def stream_feed_def stream_handler_def nn_streamhdr_stop_def hd_stopping_def conn_timer_isidle_def
  nn_timer_isidle_def pipe_do_def nn_pipebase_start_def nn_pipebase_init_def stream_hdrsize_def tcp_env_def ipc_env_def Let_def
  enabled_def can_timer_def NN_SIPC_MSG_NORMAL_def

text \<open>The exchange of headers, when the whole header of the peer is there, and then the start of the session.\<close>

definition handshake :: "stream_step list" where
  "handshake = [Process, Process, Timer TIMER_STOP_TASK, Process, Process]"

definition started :: "stream_env \<Rightarrow> bytes \<Rightarrow> conn option" where
  "started env bs = Option.bind (stream_start env (giving bs) (conn_init accepted_usock 8 8)) (stream_run env (giving bs) handshake)"

lemma started_reach:
  assumes "started env bs = Some c" "\<And>k. kernel_calm k \<Longrightarrow> K k"
  shows "conn_reach K env c [] []"
proof -
  obtain c0 where c0: "stream_start env (giving bs) (conn_init accepted_usock 8 8) = Some c0" "stream_run env (giving bs) handshake c0 = Some c"
    using assms(1) by (auto simp: started_def split: bind_splits)
  have "conn_reach K env c0 [] []" by (rule reach_start [OF giving_calm(1) [of bs] _ new_accepted c0(1)]) (rule assms(2) [OF giving_calm(2)])
  from run_reach [OF this giving_calm(1) [of bs] _ c0(2)] assms(2) [OF giving_calm(2)] show ?thesis by (simp add: handshake_def)
qed

lemma bad_length:
  "\<exists>c c1. started (tcp_env NN_REP) (protohdr NN_REQ @ replicate 8 255) = Some c \<and>
      stream_run (tcp_env NN_REP) (giving []) [Process] c = Some c1 \<and> us_taken (cn_usock c1) = protohdr NN_REQ @ replicate 8 255 \<and>
      st_state c1 = STCP_ACTIVE \<and> st_instate c1 = IN_HDR \<and> cn_events c1 = [Us Own_ses USOCK_RECEIVED]"
    by (simp add: started_def handshake_def run_defs)

lemma bad_type:
  "\<exists>c c1. started (ipc_env NN_REP) (protohdr NN_REQ @ 2 # replicate 8 0) = Some c \<and>
      stream_run (ipc_env NN_REP) (giving []) [Process] c = Some c1 \<and> us_taken (cn_usock c1) = protohdr NN_REQ @ 2 # replicate 8 0 \<and>
      st_state c1 = STCP_ACTIVE \<and> st_instate c1 = IN_HDR \<and> cn_events c1 = [Us Own_ses USOCK_RECEIVED]"
    by (simp add: started_def handshake_def run_defs)

text \<open>The size of a message in memory, with what is in front of it, is computed in 64 bits.\<close>

lemma chunk_size_overflows: "nn_chunk_hdrsize + sz < nn_chunk_hdrsize \<longleftrightarrow> 2 ^ 64 \<le> unat nn_chunk_hdrsize + unat sz"
  using no_olen_add_nat [of nn_chunk_hdrsize sz] by (auto simp: not_le not_less)

text \<open>
  C38: What a peer can do with the header of a message. The header that has arrived at an active connection, behind the messages that have
  been received, is a type, over IPC one byte and over TCP none, and a length. Processing it ends the process exactly when the type is
  not 1, or when the length is at least \<open>NN_CHUNKREF_MAX\<close> and the size of the message in memory overflows 64 bits or cannot be had;
  otherwise it succeeds. The kernel is calm; nothing is assumed of the peer.
\<close>

theorem peer_can_abort:
  assumes "conn_reach kernel_calm env c snt rcv" "kernel_law k" "kernel_calm k"
    "st_state c = STCP_ACTIVE" "st_instate c = IN_HDR" "cn_events c = Us Own_ses USOCK_RECEIVED # evs"
    "us_taken (cn_usock c) = h @ concat (map (frame env) rcv) @ ty @ nn_putll sz @ rest" "length h = 8" "length ty = length (se_first env)"
  shows "stream_do env k Process c = None \<longleftrightarrow> ty \<noteq> se_first env \<or>
    NN_CHUNKREF_MAX \<le> unat sz \<and> (2 ^ 64 \<le> unat nn_chunk_hdrsize + unat sz \<or> \<not> kn_memory k (nn_chunk_hdrsize + sz))"
proof -
  have ok: "conn_ok False env c snt rcv" using conn_reach_ok [OF assms(1), of False] by auto
  have live: "us_live (cn_usock c)" using conn_ok_cases [OF ok] by simp
  have act: "active_phase env c rcv" using conn_okD(3) [OF ok live] assms(4) by (auto simp: phase_def phase_defs)
  have ev: "Us Own_ses USOCK_RECEIVED \<in> set (cn_events c)" by (simp add: assms(6))
  have "in_ok env c rcv" using act by (simp add: active_phase_def)
  then obtain h1 where h1: "length h1 = 8" "length (us_got (cn_usock c)) = stream_hdrsize env"
      "us_taken (cn_usock c) = h1 @ concat (map (frame env) rcv) @ us_got (cn_usock c) @ us_rest (cn_usock c)"
    by (cases rule: in_okE [OF _ ev]) (use assms(5) in auto)
  have "us_got (cn_usock c) @ us_rest (cn_usock c) = (ty @ nn_putll sz) @ rest"
    using h1(1,3) assms(7,8) by simp
  then have got: "us_got (cn_usock c) = ty @ nn_putll sz"
    using h1(2) assms(9) by (subst (asm) append_eq_append_conv) (simp_all add: stream_hdrsize_def)
  have gp: "nn_getll (nn_putll sz) = sz" using get_put(3) [of sz "[]"] by simp
  have fits: "header_fits env k (us_got (cn_usock c)) \<longleftrightarrow> \<not> (ty \<noteq> se_first env \<or>
      NN_CHUNKREF_MAX \<le> unat sz \<and> (2 ^ 64 \<le> unat nn_chunk_hdrsize + unat sz \<or> \<not> kn_memory k (nn_chunk_hdrsize + sz)))"
    using assms(9) chunk_size_overflows [of sz] by (auto simp: header_fits_def got gp Let_def not_le not_less)
  have "conn_process env k c = stream_received env k (c\<lparr>cn_events := evs\<rparr>)"
    using act assms(4,6) by (simp add: active_phase_def conn_process_def conn_dispatch_def stream_feed_def stream_handler_def)
  then have "conn_process env k c = None" if "\<not> header_fits env k (us_got (cn_usock c))"
    using that assms(5) by (auto simp: stream_received_def stream_got_hdr_def header_fits_def Let_def)
  moreover have "conn_process env k c \<noteq> None" if "header_fits env k (us_got (cn_usock c))"
    using process_received [OF assms(2) _ ok live act assms(6)] assms(3) that by (auto simp: ok_step_def)
  ultimately show ?thesis using fits by (auto simp: stream_do_def)
qed

text \<open>Over TCP a length of \<open>2 ^ 64 - 1\<close>, and over IPC the type 2, from a peer that has sent a good protocol header.\<close>

theorem peer_can_abort_witness:
  "\<exists>c c'. conn_reach kernel_calm (tcp_env NN_REP) c [] [] \<and> stream_do (tcp_env NN_REP) (giving []) Process c = None \<and>
     us_taken (cn_usock c) = protohdr NN_REQ @ replicate 8 255 \<and>
     conn_reach kernel_calm (ipc_env NN_REP) c' [] [] \<and> stream_do (ipc_env NN_REP) (giving []) Process c' = None \<and>
     us_taken (cn_usock c') = protohdr NN_REQ @ 2 # replicate 8 0"
proof -
  obtain c0 c where c: "started (tcp_env NN_REP) (protohdr NN_REQ @ replicate 8 255) = Some c0"
      "stream_run (tcp_env NN_REP) (giving []) [Process] c0 = Some c" "us_taken (cn_usock c) = protohdr NN_REQ @ replicate 8 255"
      "st_state c = STCP_ACTIVE" "st_instate c = IN_HDR" "cn_events c = [Us Own_ses USOCK_RECEIVED]" using bad_length by blast
  obtain d0 d where d: "started (ipc_env NN_REP) (protohdr NN_REQ @ 2 # replicate 8 0) = Some d0"
      "stream_run (ipc_env NN_REP) (giving []) [Process] d0 = Some d" "us_taken (cn_usock d) = protohdr NN_REQ @ 2 # replicate 8 0"
      "st_state d = STCP_ACTIVE" "st_instate d = IN_HDR" "cn_events d = [Us Own_ses USOCK_RECEIVED]" using bad_type by blast
  have "conn_reach kernel_calm (tcp_env NN_REP) c0 [] []" by (rule started_reach [OF c(1)])
  from run_reach [OF this giving_calm c(2)] have rc: "conn_reach kernel_calm (tcp_env NN_REP) c [] []" by simp
  have "conn_reach kernel_calm (ipc_env NN_REP) d0 [] []" by (rule started_reach [OF d(1)])
  from run_reach [OF this giving_calm d(2)] have rd: "conn_reach kernel_calm (ipc_env NN_REP) d [] []" by simp
  have "nn_putll (- 1) = replicate 8 255" by code_simp
  then have "us_taken (cn_usock c) = protohdr NN_REQ @ concat (map (frame (tcp_env NN_REP)) []) @ [] @ nn_putll (- 1) @ []"
    using c(3) by simp
  from peer_can_abort [OF rc giving_calm c(4-6) this, of "[]"] have 1: "stream_do (tcp_env NN_REP) (giving []) Process c = None"
    by (simp add: tcp_env_def NN_CHUNKREF_MAX_def nn_chunk_hdrsize_def unsigned_minus_1_eq_mask mask_eq_exp_minus_1)
  have "us_taken (cn_usock d) = protohdr NN_REQ @ concat (map (frame (ipc_env NN_REP)) []) @ [2] @ nn_putll 0 @ []"
    using d(3) by (simp add: nn_putll_def)
  from peer_can_abort [OF rd giving_calm d(4-6) this, of "[]"] have 2: "stream_do (ipc_env NN_REP) (giving []) Process d = None"
    by (simp add: ipc_env_def NN_SIPC_MSG_NORMAL_def)
  show ?thesis using rc rd 1 2 c(3) d(3) by blast
qed

text \<open>A kernel that reports the end of the stream, and one that takes nothing.\<close>

definition closed_kernel :: kernel where
  "closed_kernel = (giving [])\<lparr>kn_recv := \<lambda>_. Inr []\<rparr>"

definition full_kernel :: kernel where
  "full_kernel = (giving [])\<lparr>kn_send := \<lambda>_. Inl EAGAIN\<rparr>"

lemma other_laws: "kernel_law closed_kernel" "kernel_law full_kernel"
  by (simp_all add: kernel_law_def closed_kernel_def full_kernel_def giving_def)

lemma closed_early:
  "\<exists>c c'. started (tcp_env NN_REQ) (protohdr NN_REP) = Some c \<and> stream_run (tcp_env NN_REQ) closed_kernel [Process] c = Some c' \<and>
     enabled k c' (Send m) \<and> pb_out (st_pipe c') \<and> us_dead (cn_usock c')"
  by (simp add: started_def handshake_def run_defs closed_kernel_def us_dead_def live_feed usock_feed_def nn_usock_handler_def nn_internal_tasks_def
      nn_usock_async_stop_def nn_worker_execute_def ECONNRESET_def)

text \<open>
  A peer that closes the connection right after its header ends the process too, when a request waits to be sent: the session becomes active
  although the first receiving call has failed, tells the socket above that the pipe can be written to, and what is then sent fails the assertion of
  the system socket that it is active.
\<close>

theorem closed_after_header_aborts:
  "\<exists>c. conn_reach (\<lambda>_. True) (tcp_env NN_REQ) c [] [] \<and> enabled k c (Send m) \<and> pb_out (st_pipe c) \<and>
     stream_pipe_send (tcp_env NN_REQ) k m c = None"
proof -
  obtain c c' where c: "started (tcp_env NN_REQ) (protohdr NN_REP) = Some c" "stream_run (tcp_env NN_REQ) closed_kernel [Process] c = Some c'"
      "enabled k c' (Send m)" "pb_out (st_pipe c')" "us_dead (cn_usock c')"
    using closed_early by blast
  have "conn_reach (\<lambda>_. True) (tcp_env NN_REQ) c [] []" by (rule started_reach [OF c(1)]) simp
  from run_reach [OF this other_laws(1) _ c(2)] have "conn_reach (\<lambda>_. True) (tcp_env NN_REQ) c' [] []" by simp
  then show ?thesis using c(3,4) dead_pipe(1) [OF c(5)] by blast
qed

lemma closed_not_calm: "\<not> kernel_calm closed_kernel"
  by (simp add: kernel_calm_def closed_kernel_def)

lemma error_before_task:
  "\<exists>c c1 c2. started (tcp_env NN_REQ) (protohdr NN_REP) = Some c \<and> stream_run (tcp_env NN_REQ) full_kernel [Process, Run_task, Send empty_msg] c = Some c1 \<and>
     stream_run (tcp_env NN_REQ) closed_kernel [Fd Fd_err] c1 = Some c2 \<and> us_tasks (cn_usock c2) = [TASK_SEND] \<and> cn_events c2 \<noteq> [] \<and>
     stream_run (tcp_env NN_REQ) closed_kernel [Process] c2 \<noteq> None \<and> conn_task k c2 = None"
  using closed_not_calm
  by (simp add: started_def handshake_def run_defs full_kernel_def us_dead_def nn_worker_execute_def can_fd_def conn_fd_def stream_pipe_send_def
      stream_send_def usock_feed_def nn_usock_handler_def nn_internal_tasks_def usock_fail_def nn_worker_rm_fd_def conn_task_def
      nn_worker_set_in_def nn_worker_set_out_def stream_failed_def EAGAIN_def empty_msg_def nn_putll_def)

text \<open>
  An error of the descriptor that comes while the worker has still been asked to send ends the process as well: the descriptor is removed from the
  poller and closed at once, and the task that is left then asks the poller to watch it.
\<close>

theorem error_before_task_aborts:
  "\<exists>c. conn_reach (\<lambda>_. True) (tcp_env NN_REQ) c [empty_msg] [] \<and> us_tasks (cn_usock c) = [TASK_SEND] \<and> conn_task k c = None"
proof -
  obtain c c1 c2 where c: "started (tcp_env NN_REQ) (protohdr NN_REP) = Some c"
      "stream_run (tcp_env NN_REQ) full_kernel [Process, Run_task, Send empty_msg] c = Some c1"
      "stream_run (tcp_env NN_REQ) closed_kernel [Fd Fd_err] c1 = Some c2" "us_tasks (cn_usock c2) = [TASK_SEND]" "conn_task k c2 = None"
    using error_before_task [of k] by blast
  have "conn_reach (\<lambda>_. True) (tcp_env NN_REQ) c [] []" by (rule started_reach [OF c(1)]) simp
  from run_reach [OF this other_laws(2) _ c(2)] have r: "conn_reach (\<lambda>_. True) (tcp_env NN_REQ) c1 [empty_msg] []" by simp
  from run_reach [OF this other_laws(1) _ c(3)] have "conn_reach (\<lambda>_. True) (tcp_env NN_REQ) c2 [empty_msg] []" by simp
  then show ?thesis using c(4,5) by blast
qed

section \<open>Two connections\<close>

text \<open>A message of two bytes, sent at once at one end and received at the other.\<close>

definition a_msg :: msg where "a_msg = empty_msg\<lparr>m_body := [1, 2]\<rparr>"

lemma sample_sender:
  "\<exists>c c1. started (tcp_env NN_REQ) (protohdr NN_REP) = Some c \<and>
     stream_run (tcp_env NN_REQ) (giving []) [Process, Send a_msg, Process] c = Some c1 \<and>
     us_given (cn_usock c1) = protohdr NN_REQ @ [0, 0, 0, 0, 0, 0, 0, 2, 1, 2] \<and> us_taken (cn_usock c1) = protohdr NN_REP \<and>
     \<not> us_sending (cn_usock c1)"
  by (simp add: started_def handshake_def run_defs nn_worker_execute_def can_fd_def stream_pipe_send_def a_msg_def empty_msg_def
      stream_send_def nn_putll_def EAGAIN_def nn_pipebase_sent_def us_sending_def)

lemma sample_receiver:
  "\<exists>c c1 c2. started (tcp_env NN_REP) (protohdr NN_REQ @ [0, 0, 0, 0, 0, 0, 0, 2, 1, 2]) = Some c \<and>
     stream_run (tcp_env NN_REP) (giving []) [Process, Process, Process] c = Some c1 \<and>
     stream_pipe_recv (tcp_env NN_REP) (giving []) c1 = Some (a_msg, c2) \<and>
     us_taken (cn_usock c2) = protohdr NN_REQ @ [0, 0, 0, 0, 0, 0, 0, 2, 1, 2] \<and> st_state c2 = STCP_ACTIVE \<and> st_instate c2 = IN_HDR \<and>
     cn_events c2 = [] \<and> us_tasks (cn_usock c2) = [TASK_RECV]"
  by (simp add: started_def handshake_def run_defs nn_worker_execute_def can_fd_def stream_pipe_recv_def a_msg_def empty_msg_def
      stream_received_def stream_got_hdr_def nn_pipebase_received_def stream_recv_def NN_CHUNKREF_MAX_def nn_getll_def)

lemma sample_pair:
  obtains c c' where "conn_reach kernel_calm (tcp_env NN_REP) c [] [[1, 2]]" "conn_reach kernel_calm (tcp_env NN_REQ) c' [a_msg] []"
    "us_taken (cn_usock c) = us_given (cn_usock c')" "us_taken (cn_usock c) = protohdr NN_REQ @ concat (map (frame (tcp_env NN_REP)) [[1, 2]])"
    "st_state c = STCP_ACTIVE" "st_instate c \<noteq> IN_HASMSG" "cn_events c = []" "\<not> us_sending (cn_usock c')" "us_tasks (cn_usock c) = [TASK_RECV]"
proof -
  obtain r r1 r2 where r: "started (tcp_env NN_REP) (protohdr NN_REQ @ [0, 0, 0, 0, 0, 0, 0, 2, 1, 2]) = Some r"
     "stream_run (tcp_env NN_REP) (giving []) [Process, Process, Process] r = Some r1"
     "stream_pipe_recv (tcp_env NN_REP) (giving []) r1 = Some (a_msg, r2)"
     "us_taken (cn_usock r2) = protohdr NN_REQ @ [0, 0, 0, 0, 0, 0, 0, 2, 1, 2]" "st_state r2 = STCP_ACTIVE" "st_instate r2 = IN_HDR"
     "cn_events r2 = []" "us_tasks (cn_usock r2) = [TASK_RECV]"
    using sample_receiver by blast
  obtain s s1 where s: "started (tcp_env NN_REQ) (protohdr NN_REP) = Some s"
     "stream_run (tcp_env NN_REQ) (giving []) [Process, Send a_msg, Process] s = Some s1"
     "us_given (cn_usock s1) = protohdr NN_REQ @ [0, 0, 0, 0, 0, 0, 0, 2, 1, 2]" "\<not> us_sending (cn_usock s1)"
    using sample_sender by blast
  have "conn_reach kernel_calm (tcp_env NN_REP) r [] []" by (rule started_reach [OF r(1)])
  from run_reach [OF this giving_calm r(2)] have "conn_reach kernel_calm (tcp_env NN_REP) r1 [] []" by simp
  from reach_recv [OF this giving_calm(1) [of "[]"] _ r(3)] giving_calm(2) [of "[]"] have 1: "conn_reach kernel_calm (tcp_env NN_REP) r2 [] [[1, 2]]"
    by (simp add: a_msg_def)
  have "conn_reach kernel_calm (tcp_env NN_REQ) s [] []" by (rule started_reach [OF s(1)])
  from run_reach [OF this giving_calm s(2)] have 2: "conn_reach kernel_calm (tcp_env NN_REQ) s1 [a_msg] []" by simp
  show thesis by (rule that [OF 1 2]) (use r s in \<open>simp_all add: frame_def tcp_env_def nn_putll_def\<close>)
qed

theorem stream_delivers_in_order_witness:
  "\<exists>c c'. conn_reach kernel_calm (tcp_env NN_REP) c [] [[1, 2]] \<and> conn_reach kernel_calm (tcp_env NN_REQ) c' [a_msg] [] \<and>
     prefix [[1, 2]] (map content [a_msg])"
proof (rule sample_pair)
  fix c c'
  assume c: "conn_reach kernel_calm (tcp_env NN_REP) c [] [[1, 2]]" "conn_reach kernel_calm (tcp_env NN_REQ) c' [a_msg] []"
    "us_taken (cn_usock c) = us_given (cn_usock c')" "us_taken (cn_usock c) = protohdr NN_REQ @ concat (map (frame (tcp_env NN_REP)) [[1, 2]])"
  have "prefix [[1, 2]] (map content [a_msg])"
    by (rule stream_delivers_in_order [OF c(1,2)]) (simp_all add: c(3) tcp_env_def content_def a_msg_def empty_msg_def)
  then show ?thesis by (intro exI [of _ c] exI [of _ c'] conjI c(1,2))
qed

theorem stream_never_aborts_witness:
  "\<exists>c. conn_reach kernel_calm (tcp_env NN_REP) c [] [[1, 2]] \<and> stream_do (tcp_env NN_REP) (giving []) Run_task c \<noteq> None"
proof (rule sample_pair)
  fix c c'
  assume c: "conn_reach kernel_calm (tcp_env NN_REP) c [] [[1, 2]]"
    "us_taken (cn_usock c) = protohdr NN_REQ @ concat (map (frame (tcp_env NN_REP)) [[1, 2]])" "st_state c = STCP_ACTIVE" "cn_events c = []"
    "us_tasks (cn_usock c) = [TASK_RECV]"
  have "stream_do (tcp_env NN_REP) (giving []) Run_task c \<noteq> None"
    by (rule stream_never_aborts [OF c(1) giving_calm, where h = "protohdr NN_REQ" and bs = "[[1, 2]]"])
      (simp_all add: enabled_def c(2-5) fits_def NN_CHUNKREF_MAX_def)
  then show ?thesis using c(1) by blast
qed

theorem stream_delivers_all_witness:
  "\<exists>c c'. conn_reach kernel_calm (tcp_env NN_REP) c [] [[1, 2]] \<and> conn_reach kernel_calm (tcp_env NN_REQ) c' [a_msg] [] \<and>
     [[1, 2]] = map content [a_msg]"
proof (rule sample_pair)
  fix c c'
  assume c: "conn_reach kernel_calm (tcp_env NN_REP) c [] [[1, 2]]" "conn_reach kernel_calm (tcp_env NN_REQ) c' [a_msg] []"
    "us_taken (cn_usock c) = us_given (cn_usock c')" "st_state c = STCP_ACTIVE" "st_instate c \<noteq> IN_HASMSG" "cn_events c = []"
    "\<not> us_sending (cn_usock c')"
  have "us_live (cn_usock c)" "us_live (cn_usock c')"
    using conn_reach_ok [OF c(1), of False] conn_reach_ok [OF c(2), of False] conn_ok_cases by blast+
  then have alive: "\<not> us_dead (cn_usock c)" "\<not> us_dead (cn_usock c')" by (auto simp: us_live_def us_dead_def)
  have "[[1, 2]] = map content [a_msg]"
    by (rule stream_delivers_all [OF c(1,2) _ alive c(3) _ c(4-7)]) (simp_all add: tcp_env_def content_def a_msg_def empty_msg_def)
  then show ?thesis by (intro exI [of _ c] exI [of _ c'] conjI c(1,2))
qed

end
