(* ===== verification/Nn_Addr.thy ===== *)
theory Nn_Addr
  imports Nn_Usock
begin

text \<open>
  The addresses of the endpoints over TCP: \<open>transports/utils/port.c\<close>, the check of host names in \<open>dns.c\<close>, \<open>literal.c\<close>, \<open>iface.c\<close> (with
  \<open>getifaddrs\<close>), the resolver \<open>dns_getaddrinfo.inc\<close>, what \<open>nn_ctcp_create\<close> and \<open>nn_btcp_create\<close> accept, and the options of \<open>tcp.c\<close>. What the
  system knows of names and addresses is the parameter \<open>network\<close>. An address is a C string without its final zero; failed assertions are \<open>None\<close>.
\<close>

definition ENODEV :: int where "ENODEV = 19"

datatype inaddr = In4 bytes | In6 bytes | In_other

text \<open>\<open>inet_pton\<close> of the two families; the list of \<open>getifaddrs\<close>, whose entries may have no address; \<open>getaddrinfo\<close>, for one family or both.\<close>

record network =
  nw_pton4 :: "bytes \<Rightarrow> bytes option"
  nw_pton6 :: "bytes \<Rightarrow> bytes option"
  nw_ifaces :: "(bytes \<times> inaddr option) list"
  nw_lookup :: "bool \<Rightarrow> bytes \<Rightarrow> int + inaddr list"

section \<open>Parts of a string\<close>

definition before_first :: "byte \<Rightarrow> bytes \<Rightarrow> bytes" where "before_first c s = takeWhile (\<lambda>x. x \<noteq> c) s"
definition after_first :: "byte \<Rightarrow> bytes \<Rightarrow> bytes" where "after_first c s = tl (dropWhile (\<lambda>x. x \<noteq> c) s)"
definition before_last :: "byte \<Rightarrow> bytes \<Rightarrow> bytes" where "before_last c s = rev (tl (dropWhile (\<lambda>x. x \<noteq> c) (rev s)))"
definition after_last :: "byte \<Rightarrow> bytes \<Rightarrow> bytes" where "after_last c s = rev (takeWhile (\<lambda>x. x \<noteq> c) (rev s))"

section \<open>Ports\<close>

fun port_loop :: "int \<Rightarrow> bytes \<Rightarrow> int" where
  "port_loop res [] = (if res = 0 then - EINVAL_opt else res)"
| "port_loop res (c # cs) =
     (if c < 48 \<or> c > 57 then - EINVAL_opt
      else let res = res * 10 + (uint c - 48) in if res > 65535 then - EINVAL_opt else port_loop res cs)"

definition nn_port_resolve :: "bytes \<Rightarrow> int" where
  "nn_port_resolve port = port_loop 0 port"

section \<open>Host names\<close>

definition host_char :: "byte \<Rightarrow> bool" where
  "host_char c \<longleftrightarrow> 97 \<le> c \<and> c \<le> 122 \<or> 65 \<le> c \<and> c \<le> 90 \<or> 48 \<le> c \<and> c \<le> 57 \<or> c = 45"

fun label_loop :: "nat \<Rightarrow> bytes \<Rightarrow> int" where
  "label_loop labelsz [] = (if labelsz = 0 then - EINVAL_opt else 0)"
| "label_loop labelsz (c # cs) =
     (if c = 46 then if labelsz = 0 then - EINVAL_opt else label_loop 0 cs
      else if host_char c then if labelsz + 1 > 63 then - EINVAL_opt else label_loop (labelsz + 1) cs
      else - EINVAL_opt)"

definition nn_dns_check_hostname :: "bytes \<Rightarrow> int" where
  "nn_dns_check_hostname name =
     (if length name < 1 \<or> length name > 255 then - EINVAL_opt
      else if hd name = 45 then - EINVAL_opt
      else label_loop 0 name)"

section \<open>Literal addresses\<close>

definition INET6_ADDRSTRLEN :: nat where "INET6_ADDRSTRLEN = 46"

text \<open>The string without its brackets, if it is short enough.\<close>

definition literal_string :: "bytes \<Rightarrow> bytes option" where
  "literal_string addr =
     (if addr \<noteq> [] \<and> hd addr = 91 then
        if last addr \<noteq> 93 then None
        else if length addr - 2 + 1 > INET6_ADDRSTRLEN then None
        else Some (take (length addr - 2) (drop 1 addr))
      else if length addr + 1 > INET6_ADDRSTRLEN then None
      else Some addr)"

text \<open>\<open>None\<close> is \<open>-EINVAL\<close>.\<close>

definition nn_literal_resolve :: "network \<Rightarrow> bytes \<Rightarrow> bool \<Rightarrow> inaddr option" where
  "nn_literal_resolve nw addr ipv4only =
     (case literal_string addr of
        None \<Rightarrow> None
      | Some addrz \<Rightarrow>
          (case (if ipv4only then None else nw_pton6 nw addrz) of
             Some a \<Rightarrow> Some (In6 a)
           | None \<Rightarrow> map_option In4 (nw_pton4 nw addrz)))"

section \<open>Interfaces\<close>

definition nn_iface_any :: "bool \<Rightarrow> inaddr" where
  "nn_iface_any ipv4only = (if ipv4only then In4 (replicate 4 0) else In6 (replicate 16 0))"

text \<open>The addresses of the two families that were found under the name.\<close>

fun iface_loop :: "bytes \<Rightarrow> (bytes \<times> inaddr option) list \<Rightarrow> bytes option \<times> bytes option \<Rightarrow> (bytes option \<times> bytes option) option" where
  "iface_loop addr [] (ipv4, ipv6) = Some (ipv4, ipv6)"
| "iface_loop addr ((name, a) # it) (ipv4, ipv6) =
     (case a of
        None \<Rightarrow> iface_loop addr it (ipv4, ipv6)
      | Some a \<Rightarrow>
          if name \<noteq> addr then iface_loop addr it (ipv4, ipv6)
          else (case a of
              In4 x \<Rightarrow> if ipv4 \<noteq> None then None else iface_loop addr it (Some x, ipv6)
            | In6 x \<Rightarrow> if ipv6 \<noteq> None then None else iface_loop addr it (ipv4, Some x)
            | In_other \<Rightarrow> iface_loop addr it (ipv4, ipv6)))"

text \<open>\<open>Inl\<close> is \<open>-ENODEV\<close>.\<close>

definition nn_iface_resolve :: "network \<Rightarrow> bytes \<Rightarrow> bool \<Rightarrow> (int + inaddr) option" where
  "nn_iface_resolve nw addr ipv4only =
     (if addr = [42] then Some (Inr (nn_iface_any ipv4only))
      else case nn_literal_resolve nw addr ipv4only of
        Some a \<Rightarrow> Some (Inr a)
      | None \<Rightarrow>
          if nw_ifaces nw = [] then None
          else case iface_loop addr (nw_ifaces nw) (None, None) of
            None \<Rightarrow> None
          | Some (ipv4, ipv6) \<Rightarrow>
              Some (case (if ipv4only then None else ipv6) of
                  Some x \<Rightarrow> Inr (In6 x)
                | None \<Rightarrow> (case ipv4 of Some x \<Rightarrow> Inr (In4 x) | None \<Rightarrow> Inl (- ENODEV))))"

section \<open>What can be connected and bound to\<close>

text \<open>The first part of \<open>nn_ctcp_create\<close>: the result is zero or an error. A semicolon behind the last colon makes the port ill-formed.\<close>

definition ctcp_check :: "network \<Rightarrow> bool \<Rightarrow> bytes \<Rightarrow> int option" where
  "ctcp_check nw ipv4only addr =
     (let hostname = before_last 58 (if 59 \<in> set addr then after_first 59 addr else addr) in
      if 58 \<notin> set addr then Some (- EINVAL_opt)
      else if nn_port_resolve (after_last 58 addr) < 0 then Some (- EINVAL_opt)
      else if nn_dns_check_hostname hostname < 0 \<and> nn_literal_resolve nw hostname ipv4only = None then Some (- EINVAL_opt)
      else if 59 \<in> set addr then
        (case nn_iface_resolve nw (before_first 59 addr) ipv4only of
           None \<Rightarrow> None
         | Some (Inl e) \<Rightarrow> Some (- ENODEV)
         | Some (Inr a) \<Rightarrow> Some 0)
      else Some 0)"

text \<open>The first part of \<open>nn_btcp_create\<close>.\<close>

definition btcp_check :: "network \<Rightarrow> bool \<Rightarrow> bytes \<Rightarrow> int option" where
  "btcp_check nw ipv4only addr =
     (if 58 \<notin> set addr then Some (- EINVAL_opt)
      else if nn_port_resolve (after_last 58 addr) < 0 then Some (- EINVAL_opt)
      else case nn_iface_resolve nw (before_last 58 addr) ipv4only of
        None \<Rightarrow> None
      | Some (Inl e) \<Rightarrow> Some (- ENODEV)
      | Some (Inr a) \<Rightarrow> Some 0)"

section \<open>The resolver\<close>

definition NN_SOCKADDR_MAX :: nat where "NN_SOCKADDR_MAX = 128"

text \<open>What \<open>nn_dns_start\<close> finds: \<open>Inl\<close> is the error of \<open>getaddrinfo\<close>.\<close>

definition dns_resolve :: "network \<Rightarrow> bytes \<Rightarrow> bool \<Rightarrow> (int + inaddr) option" where
  "dns_resolve nw addr ipv4only =
     (case nn_literal_resolve nw addr ipv4only of
        Some a \<Rightarrow> Some (Inr a)
      | None \<Rightarrow>
          if \<not> NN_SOCKADDR_MAX > length addr then None
          else case nw_lookup nw ipv4only addr of
            Inl e \<Rightarrow> Some (Inl e)
          | Inr [a] \<Rightarrow> Some (Inr a)
          | Inr _ \<Rightarrow> None)"

section \<open>The options of TCP\<close>

definition NN_TCP_NODELAY :: int where "NN_TCP_NODELAY = 1"

definition nn_tcp_optset :: int where "nn_tcp_optset = 0"

definition nn_tcp_optset_setopt :: "int \<Rightarrow> bytes \<Rightarrow> int \<Rightarrow> int \<times> int" where
  "nn_tcp_optset_setopt option optval nodelay =
     (if length optval \<noteq> 4 then (- EINVAL_opt, nodelay)
      else let val = bytes_int optval in
        if option = NN_TCP_NODELAY then if val \<noteq> 0 \<and> val \<noteq> 1 then (- EINVAL_opt, nodelay) else (0, val)
        else (- ENOPROTOOPT, nodelay))"

definition nn_tcp_optset_getopt :: "int \<Rightarrow> nat \<Rightarrow> int \<Rightarrow> int + bytes \<times> nat" where
  "nn_tcp_optset_getopt option optvallen nodelay =
     (if option = NN_TCP_NODELAY then Inr (take optvallen (int_bytes nodelay), 4) else Inl (- ENOPROTOOPT))"

end
