(* ===== verification/Nn_Endpoint.thy ===== *)
theory Nn_Endpoint
  imports Nn_Stream Nn_Addr
begin

text \<open>
  The endpoints that connect: \<open>transports/tcp/ctcp.c\<close> and \<open>transports/ipc/cipc.c\<close>, with the timer between two attempts, \<open>utils/backoff.c\<close>, and
  the resolver's state machine.

  An endpoint owns a socket of the operating system and a session, which are a connection of \<open>Nn_Stream\<close>. The events of the connection
  stay in its own queue; those of the timer and the resolver are in the endpoint's. Either queue may be processed next, which allows more orders than the
  one queue of the code. What the socket of the core gives the endpoint is in \<open>epbase\<close>: the address, the options, the counters.
\<close>

section \<open>The base of an endpoint\<close>

text \<open>\<open>eb_stopped\<close> says that the endpoint has reported to the core that it has stopped.\<close>

record epbase =
  eb_addr :: bytes
  eb_opts :: sockopts
  eb_errno :: int
  eb_stat :: "stat \<Rightarrow> int"
  eb_stopped :: bool

definition epbase_init :: "bytes \<Rightarrow> sockopts \<Rightarrow> epbase" where
  "epbase_init addr opts = \<lparr>eb_addr = addr, eb_opts = opts, eb_errno = 0, eb_stat = (\<lambda>_. 0), eb_stopped = False\<rparr>"

definition nn_epbase_stat_increment :: "stat \<Rightarrow> int \<Rightarrow> epbase \<Rightarrow> epbase option" where
  "nn_epbase_stat_increment name increment self = map_option (\<lambda>st. self\<lparr>eb_stat := st\<rparr>) (stat_increment name increment (eb_stat self))"

definition nn_epbase_set_error :: "int \<Rightarrow> epbase \<Rightarrow> epbase option" where
  "nn_epbase_set_error errnum self =
     (if eb_errno self = errnum then Some self
      else map_option (\<lambda>self. self\<lparr>eb_errno := errnum\<rparr>)
        (if eb_errno self = 0 then nn_epbase_stat_increment CURRENT_EP_ERRORS 1 self else Some self))"

definition nn_epbase_clear_error :: "epbase \<Rightarrow> epbase option" where
  "nn_epbase_clear_error self =
     (if eb_errno self = 0 then Some self
      else map_option (\<lambda>self. self\<lparr>eb_errno := 0\<rparr>) (nn_epbase_stat_increment CURRENT_EP_ERRORS (- 1) self))"

definition nn_epbase_stopped :: "epbase \<Rightarrow> epbase" where
  "nn_epbase_stopped self = self\<lparr>eb_stopped := True\<rparr>"

definition ipv4only :: "epbase \<Rightarrow> bool" where
  "ipv4only self \<longleftrightarrow> so_ipv4only (eb_opts self) \<noteq> 0"

section \<open>The time between two attempts\<close>

definition int_ok :: "int \<Rightarrow> bool" where
  "int_ok x \<longleftrightarrow> - (2 ^ 31) \<le> x \<and> x < 2 ^ 31"

record backoff =
  bo_timer :: nn_timer
  bo_minivl :: int
  bo_maxivl :: int
  bo_n :: int

definition nn_backoff_init :: "int \<Rightarrow> int \<Rightarrow> backoff" where
  "nn_backoff_init minivl maxivl = \<lparr>bo_timer = nn_timer_init, bo_minivl = minivl, bo_maxivl = maxivl, bo_n = 1\<rparr>"

text \<open>The overflow of an \<open>int\<close> is undefined.\<close>

definition nn_backoff_start :: "backoff \<Rightarrow> backoff option" where
  "nn_backoff_start self =
     (let timeout = (bo_n self - 1) * bo_minivl self in
      if \<not> int_ok timeout then None
      else if timeout > bo_maxivl self
      then map_option (\<lambda>tm. self\<lparr>bo_timer := tm\<rparr>) (nn_timer_start (bo_maxivl self) (bo_timer self))
      else if \<not> int_ok (bo_n self * 2) then None
      else map_option (\<lambda>tm. self\<lparr>bo_timer := tm, bo_n := bo_n self * 2\<rparr>) (nn_timer_start timeout (bo_timer self)))"

definition nn_backoff_stop :: "backoff \<Rightarrow> backoff" where
  "nn_backoff_stop self = self\<lparr>bo_timer := nn_timer_stop (bo_timer self)\<rparr>"

definition nn_backoff_reset :: "backoff \<Rightarrow> backoff" where
  "nn_backoff_reset self = self\<lparr>bo_n := 1\<rparr>"

text \<open>The interval and its maximum, as the constructors of the endpoints read them.\<close>

definition endpoint_backoff :: "sockopts \<Rightarrow> backoff" where
  "endpoint_backoff opts =
     (let reconnect_ivl = so_reconnect_ivl opts; reconnect_ivl_max = so_reconnect_ivl_max opts in
      nn_backoff_init reconnect_ivl (if reconnect_ivl_max = 0 then reconnect_ivl else reconnect_ivl_max))"

section \<open>The resolver\<close>

datatype dns_event = DNS_DONE | DNS_STOPPED

datatype dns_state = DNS_IDLE | DNS_STATE_DONE

text \<open>\<open>dn_error\<close> and \<open>dn_addr\<close> are the result.\<close>

record dns =
  dn_fsm :: fsm_state
  dn_state :: dns_state
  dn_result :: "int + inaddr"

definition nn_dns_init :: dns where
  "nn_dns_init = \<lparr>dn_fsm = FSM_IDLE, dn_state = DNS_IDLE, dn_result = Inl 0\<rparr>"

section \<open>Connecting over TCP\<close>

datatype ctcp_state =
    CTCP_IDLE | CTCP_RESOLVING | CTCP_STOPPING_DNS | CTCP_CONNECTING | CTCP_ACTIVE | CTCP_STOPPING_STCP | CTCP_STOPPING_USOCK | CTCP_WAITING |
    CTCP_STOPPING_BACKOFF | CTCP_STOPPING_STCP_FINAL | CTCP_STOPPING

text \<open>The sources of the events.\<close>

datatype ep_input = From_usock usock_event | From_session stcp_event | From_dns dns_event | From_timer timer_event

record ctcp =
  ct_fsm :: fsm_state
  ct_state :: ctcp_state
  ct_base :: epbase
  ct_conn :: conn
  ct_retry :: backoff
  ct_dns :: dns
  ct_events :: "ep_input list"

definition ctcp_raise :: "ep_input \<Rightarrow> ctcp \<Rightarrow> ctcp option" where
  "ctcp_raise ev self = (if ev \<in> set (ct_events self) then None else Some (self\<lparr>ct_events := ct_events self @ [ev]\<rparr>))"

text \<open>The parts of the connection, as seen from the endpoint.\<close>

definition conn_usock_isidle :: "conn \<Rightarrow> bool" where
  "conn_usock_isidle c \<longleftrightarrow> us_fsm (cn_usock c) = FSM_IDLE \<and>
     list_all (\<lambda>ev. case ev of Us ow e \<Rightarrow> e \<noteq> USOCK_STOPPED | _ \<Rightarrow> True) (cn_events c)"

definition conn_usock_stop :: "conn \<Rightarrow> conn option" where
  "conn_usock_stop c = us_do (\<lambda>u. usock_only (nn_usock_stop u)) c"

definition conn_usock_start :: "kernel \<Rightarrow> conn \<Rightarrow> (int \<times> conn) option" where
  "conn_usock_start k c =
     (if kn_socket k = None \<and> \<not> conn_usock_isidle c then None
      else case nn_usock_start k (cn_usock c) of
        None \<Rightarrow> None
      | Some (rc, u) \<Rightarrow> map_option (Pair rc) (us_do (\<lambda>_. Some u) c))"

definition backoff_isidle :: "ep_input list \<Rightarrow> backoff \<Rightarrow> bool" where
  "backoff_isidle evs self \<longleftrightarrow> nn_timer_isidle (bo_timer self) \<and> From_timer TIMER_STOPPED \<notin> set evs"

text \<open>A timer that is started must be idle, the event of its last stop included.\<close>

definition backoff_start :: "ep_input list \<Rightarrow> backoff \<Rightarrow> backoff option" where
  "backoff_start evs self = (if From_timer TIMER_STOPPED \<in> set evs then None else nn_backoff_start self)"

definition dns_isidle :: "ctcp \<Rightarrow> bool" where
  "dns_isidle self \<longleftrightarrow> dn_fsm (ct_dns self) = FSM_IDLE \<and> From_dns DNS_STOPPED \<notin> set (ct_events self)"

text \<open>The result is there at once; \<open>nn_dns_handler\<close> then only raises that it is.\<close>

definition nn_dns_start :: "network \<Rightarrow> bytes \<Rightarrow> bool \<Rightarrow> ctcp \<Rightarrow> ctcp option" where
  "nn_dns_start nw addr v4 self =
     (if dn_state (ct_dns self) \<noteq> DNS_IDLE then None
      else case dns_resolve nw addr v4 of
        None \<Rightarrow> None
      | Some r \<Rightarrow>
          if \<not> dns_isidle self then None
          else map_option (\<lambda>self. self\<lparr>ct_dns := \<lparr>dn_fsm = FSM_ACTIVE, dn_state = DNS_STATE_DONE, dn_result = r\<rparr>\<rparr>)
            (ctcp_raise (From_dns DNS_DONE) self))"

definition nn_dns_stop :: "ctcp \<Rightarrow> ctcp option" where
  "nn_dns_stop self =
     (if dn_fsm (ct_dns self) \<noteq> FSM_ACTIVE then Some self
      else map_option (\<lambda>self. self\<lparr>ct_dns := (ct_dns self)\<lparr>dn_fsm := FSM_IDLE, dn_state := DNS_IDLE\<rparr>\<rparr>)
        (ctcp_raise (From_dns DNS_STOPPED) self))"

subsection \<open>Actions\<close>

text \<open>Doing something with a part of the endpoint.\<close>

definition ct_on_conn :: "(conn \<Rightarrow> conn option) \<Rightarrow> ctcp \<Rightarrow> ctcp option" where
  "ct_on_conn f self = map_option (\<lambda>c. self\<lparr>ct_conn := c\<rparr>) (f (ct_conn self))"

definition ct_on_base :: "(epbase \<Rightarrow> epbase option) \<Rightarrow> ctcp \<Rightarrow> ctcp option" where
  "ct_on_base f self = map_option (\<lambda>b. self\<lparr>ct_base := b\<rparr>) (f (ct_base self))"

definition ctcp_wait :: "ctcp \<Rightarrow> ctcp option" where
  "ctcp_wait self =
     map_option (\<lambda>b. self\<lparr>ct_retry := b, ct_state := CTCP_WAITING\<rparr>) (backoff_start (ct_events self) (ct_retry self))"

definition nn_ctcp_start_resolving :: "network \<Rightarrow> ctcp \<Rightarrow> ctcp option" where
  "nn_ctcp_start_resolving nw self =
     (let addr = eb_addr (ct_base self); host = (if 59 \<in> set addr then after_first 59 addr else addr) in
      if 58 \<notin> set addr then None
      else map_option (\<lambda>self. self\<lparr>ct_state := CTCP_RESOLVING\<rparr>)
        (nn_dns_start nw (before_last 58 host) (ipv4only (ct_base self)) self))"

text \<open>Options and the local address, then the call of \<open>connect\<close>.\<close>

definition ctcp_connect :: "kernel \<Rightarrow> ctcp \<Rightarrow> ctcp option" where
  "ctcp_connect k self =
     (if nn_usock_setsockopt k (cn_usock (ct_conn self)) = None then None
      else if nn_usock_bind k (cn_usock (ct_conn self)) \<noteq> Some 0 then None
      else Option.bind (ct_on_conn (us_do (nn_usock_connect k)) self)
        (\<lambda>self. ct_on_base (nn_epbase_stat_increment INPROGRESS_CONNECTIONS 1) (self\<lparr>ct_state := CTCP_CONNECTING\<rparr>)))"

definition nn_ctcp_start_connecting :: "network \<Rightarrow> kernel \<Rightarrow> inaddr \<Rightarrow> ctcp \<Rightarrow> ctcp option" where
  "nn_ctcp_start_connecting nw k ss self =
     (let addr = eb_addr (ct_base self) in
      if \<not> nn_port_resolve (after_last 58 addr) > 0 then None
      else case nn_iface_resolve nw (if 59 \<in> set addr then before_first 59 addr else [42]) (ipv4only (ct_base self)) of
        None \<Rightarrow> None
      | Some (Inl e) \<Rightarrow> ctcp_wait self
      | Some (Inr loc) \<Rightarrow>
          if ss = In_other then None
          else case conn_usock_start k (ct_conn self) of
            None \<Rightarrow> None
          | Some (rc, c) \<Rightarrow> if rc < 0 then ctcp_wait (self\<lparr>ct_conn := c\<rparr>) else ctcp_connect k (self\<lparr>ct_conn := c\<rparr>))"

subsection \<open>The state machine\<close>

definition ctcp_connecting :: "stream_env \<Rightarrow> kernel \<Rightarrow> usock_event \<Rightarrow> ctcp \<Rightarrow> ctcp option" where
  "ctcp_connecting env k type ctcp =
     (case type of
        USOCK_CONNECTED \<Rightarrow>
          Option.bind (ct_on_conn (stream_start env k) ctcp) (\<lambda>ctcp.
          Option.bind (ct_on_base (nn_epbase_stat_increment INPROGRESS_CONNECTIONS (- 1)) (ctcp\<lparr>ct_state := CTCP_ACTIVE\<rparr>)) (\<lambda>ctcp.
          Option.bind (ct_on_base (nn_epbase_stat_increment ESTABLISHED_CONNECTIONS 1) ctcp) (\<lambda>ctcp.
          ct_on_base nn_epbase_clear_error ctcp)))
      | USOCK_ERROR \<Rightarrow>
          Option.bind (ct_on_base (nn_epbase_set_error (us_errnum (cn_usock (ct_conn ctcp)))) ctcp) (\<lambda>ctcp.
          Option.bind (ct_on_conn conn_usock_stop ctcp) (\<lambda>ctcp.
          Option.bind (ct_on_base (nn_epbase_stat_increment INPROGRESS_CONNECTIONS (- 1)) (ctcp\<lparr>ct_state := CTCP_STOPPING_USOCK\<rparr>)) (\<lambda>ctcp.
          ct_on_base (nn_epbase_stat_increment CONNECT_ERRORS 1) ctcp)))
      | _ \<Rightarrow> None)"

definition nn_ctcp_handler :: "network \<Rightarrow> stream_env \<Rightarrow> kernel \<Rightarrow> ep_input \<Rightarrow> ctcp \<Rightarrow> ctcp option" where
  "nn_ctcp_handler nw env k ev ctcp =
     (case ct_state ctcp of
        CTCP_RESOLVING \<Rightarrow>
          if ev = From_dns DNS_DONE then map_option (\<lambda>ctcp. ctcp\<lparr>ct_state := CTCP_STOPPING_DNS\<rparr>) (nn_dns_stop ctcp) else None
      | CTCP_STOPPING_DNS \<Rightarrow>
          if ev = From_dns DNS_STOPPED then
            (case dn_result (ct_dns ctcp) of
               Inr a \<Rightarrow> nn_ctcp_start_connecting nw k a ctcp
             | Inl e \<Rightarrow> ctcp_wait ctcp)
          else None
      | CTCP_CONNECTING \<Rightarrow> (case ev of From_usock type \<Rightarrow> ctcp_connecting env k type ctcp | _ \<Rightarrow> None)
      | CTCP_ACTIVE \<Rightarrow>
          if ev = From_session STCP_ERROR then
            Option.bind (ct_on_conn stream_stop ctcp) (\<lambda>ctcp.
            ct_on_base (nn_epbase_stat_increment BROKEN_CONNECTIONS 1) (ctcp\<lparr>ct_state := CTCP_STOPPING_STCP\<rparr>))
          else None
      | CTCP_STOPPING_STCP \<Rightarrow>
          if ev = From_session STCP_STOPPED
          then map_option (\<lambda>ctcp. ctcp\<lparr>ct_state := CTCP_STOPPING_USOCK\<rparr>) (ct_on_conn conn_usock_stop ctcp) else None
      | CTCP_STOPPING_USOCK \<Rightarrow>
          if ev = From_usock USOCK_SHUTDOWN then Some ctcp
          else if ev = From_usock USOCK_STOPPED then ctcp_wait ctcp
          else None
      | CTCP_WAITING \<Rightarrow>
          if ev = From_timer TIMER_TIMEOUT
          then Some (ctcp\<lparr>ct_retry := nn_backoff_stop (ct_retry ctcp), ct_state := CTCP_STOPPING_BACKOFF\<rparr>) else None
      | CTCP_STOPPING_BACKOFF \<Rightarrow> if ev = From_timer TIMER_STOPPED then nn_ctcp_start_resolving nw ctcp else None
      | _ \<Rightarrow> None)"

text \<open>The rest of \<open>nn_ctcp_shutdown\<close>, from the state \<open>STOPPING\<close> and from \<open>STOPPING_STCP_FINAL\<close> on.\<close>

definition ctcp_stopping :: "ctcp \<Rightarrow> ctcp option" where
  "ctcp_stopping ctcp =
     (if ct_state ctcp \<noteq> CTCP_STOPPING then None
      else if \<not> backoff_isidle (ct_events ctcp) (ct_retry ctcp) \<or> \<not> conn_usock_isidle (ct_conn ctcp) \<or> \<not> dns_isidle ctcp then Some ctcp
      else if ct_fsm ctcp \<noteq> FSM_STOPPING then None
      else Some (ctcp\<lparr>ct_state := CTCP_IDLE, ct_fsm := FSM_IDLE, ct_base := nn_epbase_stopped (ct_base ctcp)\<rparr>))"

definition nn_ctcp_shutdown :: "ctcp \<Rightarrow> ctcp option" where
  "nn_ctcp_shutdown ctcp =
     (if ct_state ctcp = CTCP_STOPPING_STCP_FINAL then
        if \<not> nn_stcp_isidle (ct_conn ctcp) then Some ctcp
        else Option.bind (ct_on_conn conn_usock_stop (ctcp\<lparr>ct_retry := nn_backoff_stop (ct_retry ctcp)\<rparr>)) (\<lambda>ctcp.
          Option.bind (nn_dns_stop ctcp) (\<lambda>ctcp. ctcp_stopping (ctcp\<lparr>ct_state := CTCP_STOPPING\<rparr>)))
      else ctcp_stopping ctcp)"

definition nn_ctcp_stop :: "ctcp \<Rightarrow> ctcp option" where
  "nn_ctcp_stop ctcp0 =
     (if ct_fsm ctcp0 \<noteq> FSM_ACTIVE then Some ctcp0
      else let ctcp = ctcp0\<lparr>ct_fsm := FSM_STOPPING\<rparr> in
        Option.bind
          (if nn_stcp_isidle (ct_conn ctcp) then Some ctcp
           else Option.bind (ct_on_base (nn_epbase_stat_increment DROPPED_CONNECTIONS 1) ctcp) (ct_on_conn stream_stop))
          (\<lambda>ctcp. nn_ctcp_shutdown (ctcp\<lparr>ct_state := CTCP_STOPPING_STCP_FINAL\<rparr>)))"

definition ctcp_feed :: "network \<Rightarrow> stream_env \<Rightarrow> kernel \<Rightarrow> ep_input \<Rightarrow> ctcp \<Rightarrow> ctcp option" where
  "ctcp_feed nw env k ev ctcp = (if ct_fsm ctcp \<noteq> FSM_STOPPING then nn_ctcp_handler nw env k ev ctcp else nn_ctcp_shutdown ctcp)"

subsection \<open>Creating and destroying\<close>

definition ctcp_init :: "bytes \<Rightarrow> sockopts \<Rightarrow> ctcp" where
  "ctcp_init addr opts =
     \<lparr>ct_fsm = FSM_IDLE, ct_state = CTCP_IDLE, ct_base = epbase_init addr opts,
      ct_conn = conn_init nn_usock_init (nat (so_sndprio opts)) (nat (so_rcvprio opts)),
      ct_retry = endpoint_backoff opts, ct_dns = nn_dns_init, ct_events = []\<rparr>"

text \<open>An error, or the endpoint that has been started.\<close>

definition nn_ctcp_create :: "network \<Rightarrow> bytes \<Rightarrow> sockopts \<Rightarrow> (int + ctcp) option" where
  "nn_ctcp_create nw addr opts =
     (case ctcp_check nw (ipv4only (epbase_init addr opts)) addr of
        None \<Rightarrow> None
      | Some rc \<Rightarrow>
          if rc < 0 then Some (Inl rc)
          else map_option (\<lambda>self. Inr (self\<lparr>ct_fsm := FSM_ACTIVE\<rparr>)) (nn_ctcp_start_resolving nw (ctcp_init addr opts)))"

text \<open>The destructors assert that what they destroy is idle, and that none of its events is in the queue.\<close>

definition conn_term_ok :: "conn \<Rightarrow> bool" where
  "conn_term_ok c \<longleftrightarrow> cn_events c = [] \<and> st_state c = STCP_IDLE \<and> st_fsm c = FSM_IDLE \<and> hd_state c = HDR_IDLE \<and> hd_fsm c = FSM_IDLE \<and>
     nn_timer_isidle (hd_timer c) \<and> us_state (cn_usock c) = USOCK_IDLE \<and> us_fsm (cn_usock c) = FSM_IDLE"

definition nn_ctcp_destroy :: "ctcp \<Rightarrow> unit option" where
  "nn_ctcp_destroy self =
     (if dn_state (ct_dns self) \<noteq> DNS_IDLE \<or> dn_fsm (ct_dns self) \<noteq> FSM_IDLE \<or> ct_events self \<noteq> [] then None
      else if \<not> conn_term_ok (ct_conn self) then None
      else if \<not> nn_timer_isidle (bo_timer (ct_retry self)) then None
      else if ct_fsm self \<noteq> FSM_IDLE then None
      else Some ())"

subsection \<open>What the threads do\<close>

definition up_input :: "conn_event \<Rightarrow> ep_input option" where
  "up_input ev = (case ev of Us ow e \<Rightarrow> Some (From_usock e) | Ss e \<Rightarrow> Some (From_session e) | _ \<Rightarrow> None)"

text \<open>The first event of the connection, and what it raises to the endpoint; the first event of the timer and the resolver.\<close>

definition ctcp_process_conn :: "network \<Rightarrow> stream_env \<Rightarrow> kernel \<Rightarrow> ctcp \<Rightarrow> ctcp option" where
  "ctcp_process_conn nw env k self =
     (case conn_process env k (ct_conn self) of
        None \<Rightarrow> None
      | Some c \<Rightarrow>
          (case cn_up c of
             [] \<Rightarrow> Some (self\<lparr>ct_conn := c\<rparr>)
           | ev # evs \<Rightarrow>
               (case up_input ev of None \<Rightarrow> None | Some e \<Rightarrow> ctcp_feed nw env k e (self\<lparr>ct_conn := c\<lparr>cn_up := evs\<rparr>\<rparr>))))"

definition ctcp_process :: "network \<Rightarrow> stream_env \<Rightarrow> kernel \<Rightarrow> ctcp \<Rightarrow> ctcp option" where
  "ctcp_process nw env k self =
     (case ct_events self of [] \<Rightarrow> None | ev # evs \<Rightarrow> ctcp_feed nw env k ev (self\<lparr>ct_events := evs\<rparr>))"

definition ctcp_retry_timer :: "timer_src \<Rightarrow> ctcp \<Rightarrow> ctcp option" where
  "ctcp_retry_timer src self =
     (case nn_timer_feed src (bo_timer (ct_retry self)) of
        None \<Rightarrow> None
      | Some (ev, tm) \<Rightarrow>
          (let self = self\<lparr>ct_retry := (ct_retry self)\<lparr>bo_timer := tm\<rparr>\<rparr> in
           case ev of None \<Rightarrow> Some self | Some e \<Rightarrow> ctcp_raise (From_timer e) self))"

section \<open>Connecting over IPC\<close>

text \<open>The same machine without the resolver, on the same record. \<open>SUN_PATH\<close> is the size of \<open>sun_path\<close> on Linux.\<close>

definition SUN_PATH :: nat where "SUN_PATH = 108"

definition nn_cipc_start_connecting :: "kernel \<Rightarrow> ctcp \<Rightarrow> ctcp option" where
  "nn_cipc_start_connecting k self =
     (case conn_usock_start k (ct_conn self) of
        None \<Rightarrow> None
      | Some (rc, c) \<Rightarrow>
          (let self = self\<lparr>ct_conn := c\<rparr> in
           if rc < 0 then ctcp_wait self
           else if nn_usock_setsockopt k (cn_usock c) = None then None
           else if \<not> length (eb_addr (ct_base self)) < SUN_PATH then None
           else Option.bind (ct_on_conn (us_do (nn_usock_connect k)) self)
             (\<lambda>self. ct_on_base (nn_epbase_stat_increment INPROGRESS_CONNECTIONS 1) (self\<lparr>ct_state := CTCP_CONNECTING\<rparr>))))"

definition nn_cipc_handler :: "stream_env \<Rightarrow> kernel \<Rightarrow> ep_input \<Rightarrow> ctcp \<Rightarrow> ctcp option" where
  "nn_cipc_handler env k ev cipc =
     (case ct_state cipc of
        CTCP_CONNECTING \<Rightarrow> (case ev of From_usock type \<Rightarrow> ctcp_connecting env k type cipc | _ \<Rightarrow> None)
      | CTCP_ACTIVE \<Rightarrow>
          if ev = From_session STCP_ERROR then
            Option.bind (ct_on_conn nn_sipc_stop cipc) (\<lambda>cipc.
            ct_on_base (nn_epbase_stat_increment BROKEN_CONNECTIONS 1) (cipc\<lparr>ct_state := CTCP_STOPPING_STCP\<rparr>))
          else None
      | CTCP_STOPPING_STCP \<Rightarrow>
          if ev = From_session STCP_STOPPED
          then map_option (\<lambda>cipc. cipc\<lparr>ct_state := CTCP_STOPPING_USOCK\<rparr>) (ct_on_conn conn_usock_stop cipc) else None
      | CTCP_STOPPING_USOCK \<Rightarrow>
          if ev = From_usock USOCK_SHUTDOWN then Some cipc
          else if ev = From_usock USOCK_STOPPED then ctcp_wait cipc
          else None
      | CTCP_WAITING \<Rightarrow>
          if ev = From_timer TIMER_TIMEOUT
          then Some (cipc\<lparr>ct_retry := nn_backoff_stop (ct_retry cipc), ct_state := CTCP_STOPPING_BACKOFF\<rparr>) else None
      | CTCP_STOPPING_BACKOFF \<Rightarrow> if ev = From_timer TIMER_STOPPED then nn_cipc_start_connecting k cipc else None
      | _ \<Rightarrow> None)"

definition cipc_stopping :: "ctcp \<Rightarrow> ctcp option" where
  "cipc_stopping cipc =
     (if ct_state cipc \<noteq> CTCP_STOPPING then None
      else if \<not> backoff_isidle (ct_events cipc) (ct_retry cipc) \<or> \<not> conn_usock_isidle (ct_conn cipc) then Some cipc
      else if ct_fsm cipc \<noteq> FSM_STOPPING then None
      else Some (cipc\<lparr>ct_state := CTCP_IDLE, ct_fsm := FSM_IDLE, ct_base := nn_epbase_stopped (ct_base cipc)\<rparr>))"

definition nn_cipc_shutdown :: "ctcp \<Rightarrow> ctcp option" where
  "nn_cipc_shutdown cipc =
     (if ct_state cipc = CTCP_STOPPING_STCP_FINAL then
        if \<not> nn_sipc_isidle (ct_conn cipc) then Some cipc
        else Option.bind (ct_on_conn conn_usock_stop (cipc\<lparr>ct_retry := nn_backoff_stop (ct_retry cipc)\<rparr>))
          (\<lambda>cipc. cipc_stopping (cipc\<lparr>ct_state := CTCP_STOPPING\<rparr>))
      else cipc_stopping cipc)"

definition nn_cipc_stop :: "ctcp \<Rightarrow> ctcp option" where
  "nn_cipc_stop cipc0 =
     (if ct_fsm cipc0 \<noteq> FSM_ACTIVE then Some cipc0
      else let cipc = cipc0\<lparr>ct_fsm := FSM_STOPPING\<rparr> in
        Option.bind
          (if nn_sipc_isidle (ct_conn cipc) then Some cipc
           else Option.bind (ct_on_base (nn_epbase_stat_increment DROPPED_CONNECTIONS 1) cipc) (ct_on_conn nn_sipc_stop))
          (\<lambda>cipc. nn_cipc_shutdown (cipc\<lparr>ct_state := CTCP_STOPPING_STCP_FINAL\<rparr>)))"

definition cipc_feed :: "stream_env \<Rightarrow> kernel \<Rightarrow> ep_input \<Rightarrow> ctcp \<Rightarrow> ctcp option" where
  "cipc_feed env k ev cipc = (if ct_fsm cipc \<noteq> FSM_STOPPING then nn_cipc_handler env k ev cipc else nn_cipc_shutdown cipc)"

definition nn_cipc_create :: "kernel \<Rightarrow> bytes \<Rightarrow> sockopts \<Rightarrow> ctcp option" where
  "nn_cipc_create k addr opts =
     map_option (\<lambda>self. self\<lparr>ct_fsm := FSM_ACTIVE\<rparr>) (nn_cipc_start_connecting k (ctcp_init addr opts))"

definition nn_cipc_destroy :: "ctcp \<Rightarrow> unit option" where
  "nn_cipc_destroy self =
     (if ct_events self \<noteq> [] \<or> \<not> conn_term_ok (ct_conn self) then None
      else if \<not> nn_timer_isidle (bo_timer (ct_retry self)) then None
      else if ct_fsm self \<noteq> FSM_IDLE then None
      else Some ())"

end
