(* ===== verification/Nn_Endpoint_Spec.thy ===== *)
theory Nn_Endpoint_Spec
  imports Nn_Endpoint Nn_Stream_Reach
begin

text \<open>
  An endpoint that connects over TCP while no connection comes about: the phases it goes through, again and again, until it is closed. The
  contract of the system is \<open>refuses\<close> for the kernel, whose answers may otherwise be any error, and \<open>knows\<close> for the network.
\<close>

section \<open>The time between two attempts\<close>

definition bo_ok :: "backoff \<Rightarrow> bool" where
  "bo_ok b \<longleftrightarrow> 0 < bo_minivl b \<and> 0 \<le> bo_maxivl b \<and> 2 * (bo_maxivl b + bo_minivl b) < 2 ^ 31 \<and>
     (\<exists>i. bo_n b = 2 ^ i \<and> (i = 0 \<or> (2 ^ (i - 1) - 1) * bo_minivl b \<le> bo_maxivl b))"

lemma bo_ok_init: "0 < m \<Longrightarrow> 0 \<le> x \<Longrightarrow> 2 * (x + m) < 2 ^ 31 \<Longrightarrow> bo_ok (nn_backoff_init m x)"
  by (auto simp: bo_ok_def nn_backoff_init_def intro: exI [of _ 0])

lemma product_bounds:
  fixes n m :: int
  assumes "1 \<le> n" "0 < m"
  shows "n - 1 \<le> (n - 1) * m" "0 \<le> (n - 1) * m"
  using assms mult_left_mono [of 1 m "n - 1"] by simp_all

lemma backoff_start_ok:
  assumes "bo_ok b" "timer_off (bo_timer b)"
  obtains b' where "nn_backoff_start b = Some b'" "bo_ok b'" "timer_on (bo_timer b')" "bo_minivl b' = bo_minivl b" "bo_maxivl b' = bo_maxivl b"
    "tm_timeout (bo_timer b') = min (bo_maxivl b) ((bo_n b - 1) * bo_minivl b)"
    "bo_n b' = (if (bo_n b - 1) * bo_minivl b > bo_maxivl b then bo_n b else 2 * bo_n b)"
proof -
  obtain i where b: "0 < bo_minivl b" "0 \<le> bo_maxivl b" "2 * (bo_maxivl b + bo_minivl b) < 2 ^ 31" "bo_n b = 2 ^ i"
      "i = 0 \<or> (2 ^ (i - 1) - 1) * bo_minivl b \<le> bo_maxivl b"
    using assms(1) by (auto simp: bo_ok_def)
  have n: "1 \<le> bo_n b" using b(4) by simp
  have "(bo_n b - 1) * bo_minivl b \<le> 2 * bo_maxivl b + bo_minivl b"
  proof (cases "i = 0")
    case False
    then have "(bo_n b - 1) * bo_minivl b = 2 * ((2 ^ (i - 1) - 1) * bo_minivl b) + bo_minivl b"
      using b(4) by (cases i) (simp_all add: algebra_simps)
    then show ?thesis using b(5) False by simp
  qed (use b in simp)
  then have t: "int_ok ((bo_n b - 1) * bo_minivl b)" using product_bounds [OF n b(1)] b(1-3) by (simp add: int_ok_def)
  have d: "int_ok (bo_n b * 2)" if "(bo_n b - 1) * bo_minivl b \<le> bo_maxivl b"
    using product_bounds [OF n b(1)] that b(1-3) n by (simp add: int_ok_def)
  let ?tm = "\<lambda>t. \<lparr>tm_fsm = FSM_ACTIVE, tm_state = FSM_ACTIVE, tm_timeout = t\<rparr>"
  let ?big = "(bo_n b - 1) * bo_minivl b > bo_maxivl b"
  let ?b = "if ?big then b\<lparr>bo_timer := ?tm (bo_maxivl b)\<rparr> else b\<lparr>bo_timer := ?tm ((bo_n b - 1) * bo_minivl b), bo_n := bo_n b * 2\<rparr>"
  show thesis
  proof (rule that [of ?b])
    show "nn_backoff_start b = Some ?b"
      using t d b(2) product_bounds [OF n b(1)] assms(2)
      by (auto simp: nn_backoff_start_def nn_timer_start_def timer_off_def Let_def)
    show "bo_ok ?b"
    proof (cases ?big)
      case True
      then show ?thesis using assms(1) by (simp add: bo_ok_def)
    next
      case False
      then have "bo_n ?b = 2 ^ Suc i \<and> (2 ^ (Suc i - 1) - 1) * bo_minivl b \<le> bo_maxivl b" using b(4) by simp
      moreover have "bo_minivl ?b = bo_minivl b" "bo_maxivl ?b = bo_maxivl b" by simp_all
      ultimately show ?thesis using b(1-3) unfolding bo_ok_def by metis
    qed
  qed (auto simp: timer_on_def)
qed

section \<open>The socket\<close>

text \<open>No attempt to connect succeeds; that the socket can be bound to the local address the code asserts.\<close>

definition refuses :: "kernel \<Rightarrow> bool" where
  "refuses k \<longleftrightarrow> kn_setsockopt k = None \<and> kn_bind k = None \<and> (\<forall>e. kn_socket k = Some e \<longrightarrow> e > 0) \<and> kn_connect k \<noteq> None \<and> kn_sockerr k \<noteq> 0"

definition u_idle :: "usock \<Rightarrow> bool" where
  "u_idle u \<longleftrightarrow> us_fsm u = FSM_IDLE \<and> us_state u = USOCK_IDLE \<and> \<not> us_open u \<and> us_tasks u = [] \<and> \<not> us_polled u"

definition u_asking :: "usock \<Rightarrow> bool" where
  "u_asking u \<longleftrightarrow> us_fsm u = FSM_ACTIVE \<and> us_state u = USOCK_CONNECTING \<and> us_tasks u = [TASK_CONNECTING] \<and> \<not> us_polled u"

definition u_polling :: "usock \<Rightarrow> bool" where
  "u_polling u \<longleftrightarrow> us_fsm u = FSM_ACTIVE \<and> us_state u = USOCK_CONNECTING \<and> us_tasks u = [] \<and> us_polled u \<and> us_pollout u \<and> \<not> us_pollin u"

definition u_failed :: "usock \<Rightarrow> bool" where
  "u_failed u \<longleftrightarrow> us_fsm u = FSM_ACTIVE \<and> us_state u = USOCK_DONE \<and> us_tasks u = [] \<and> \<not> us_polled u \<and> \<not> us_open u"

definition u_stopping :: "usock \<Rightarrow> bool" where
  "u_stopping u \<longleftrightarrow> us_fsm u = FSM_STOPPING \<and> us_state u = USOCK_STOPPING \<and>
     (us_tasks u = [TASK_STOP] \<and> us_polled u \<or> us_tasks u = [TASK_CONNECTING, TASK_STOP] \<and> \<not> us_polled u)"

lemmas u_defs = u_idle_def u_asking_def u_polling_def u_failed_def u_stopping_def

lemmas usock_calls = usock_feed_def nn_usock_handler_def nn_internal_tasks_def nn_worker_add_fd_def nn_worker_rm_fd_def nn_worker_set_out_def
  nn_worker_reset_out_def nn_worker_execute_def usock_raise_def usock_fail_def nn_usock_async_stop_def nn_usock_shutdown_def usock_finish1_def
  usock_finish2_def nn_usock_stop_def alone_def usock_only_def

lemma u_start_failed: "kn_socket k = Some e \<Longrightarrow> nn_usock_start k u = Some (- e, u)"
  by (simp add: nn_usock_start_def)

lemma u_start:
  assumes "u_idle u" "us_raised u = []" "kn_socket k = None"
  shows "nn_usock_start k u = Some (0, u\<lparr>us_open := True, us_state := USOCK_STARTING, us_fsm := FSM_ACTIVE\<rparr>)"
  using assms by (simp add: nn_usock_start_def nn_usock_init_from_fd_def usock_fsm_start_def nn_usock_isidle_def u_idle_def usock_calls)

lemma u_connect:
  assumes "us_fsm u = FSM_ACTIVE" "us_state u = USOCK_STARTING" "us_tasks u = []" "\<not> us_polled u" "us_raised u = []" "refuses k"
  obtains u' where "nn_usock_connect k u = Some u'" "u_asking u' \<and> us_raised u' = [] \<or> u_failed u' \<and> us_raised u' = [USOCK_ERROR]"
proof -
  obtain e where e: "kn_connect k = Some e" using assms(6) by (auto simp: refuses_def)
  show thesis
  proof (cases "e = EINPROGRESS")
    case True
    then show thesis using that [of "u\<lparr>us_state := USOCK_CONNECTING, us_tasks := [TASK_CONNECTING]\<rparr>"] assms(1-5) e
      by (simp add: nn_usock_connect_def usock_calls u_asking_def)
  next
    case False
    then show thesis using assms(1-5) e
      that [of "u\<lparr>us_state := USOCK_DONE, us_errnum := e, us_open := False, us_raised := [USOCK_ERROR]\<rparr>"]
      by (simp add: nn_usock_connect_def usock_calls u_failed_def)
  qed
qed

lemma u_ask: "u_asking u \<Longrightarrow> us_raised u = [] \<Longrightarrow> us_tasks u = t # ts \<Longrightarrow>
   \<exists>u'. usock_only (usock_feed k (Task t) (u\<lparr>us_tasks := ts\<rparr>)) = Some u' \<and> u_polling u' \<and> us_raised u' = []"
  by (auto simp: u_asking_def u_polling_def usock_calls)

lemma u_fd:
  assumes "u_polling u" "us_raised u = []" "refuses k" "ev = Fd_out \<or> ev = Fd_err"
  obtains u' where "usock_only (usock_feed k ev u) = Some u'" "u_failed u'" "us_raised u' = [USOCK_ERROR]"
  using assms that by (auto simp: u_polling_def u_failed_def usock_calls refuses_def)

lemma u_stop_asking: "u_asking u \<or> u_polling u \<Longrightarrow> us_raised u = [] \<Longrightarrow>
   \<exists>u'. usock_only (nn_usock_stop u) = Some u' \<and> u_stopping u' \<and> us_raised u' = [USOCK_SHUTDOWN]"
  by (auto simp: u_defs usock_calls)

lemma u_stop_failed: "u_failed u \<Longrightarrow> us_raised u = [] \<Longrightarrow>
   \<exists>u'. usock_only (nn_usock_stop u) = Some u' \<and> u_idle u' \<and> us_raised u' = [USOCK_STOPPED]"
  by (auto simp: u_defs usock_calls)

lemma u_stop_idle: "u_idle u \<Longrightarrow> usock_only (nn_usock_stop u) = Some u"
  by (simp add: u_idle_def nn_usock_stop_def usock_only_def)

lemma u_stopping_task: "u_stopping u \<Longrightarrow> us_raised u = [] \<Longrightarrow> us_tasks u = t # ts \<Longrightarrow>
   \<exists>u'. usock_only (usock_feed k (Task t) (u\<lparr>us_tasks := ts\<rparr>)) = Some u' \<and>
     (u_stopping u' \<and> us_raised u' = [] \<or> u_idle u' \<and> us_raised u' = [USOCK_STOPPED])"
  by (auto simp: u_defs usock_calls)

lemma u_stopping_fd: "u_stopping u \<Longrightarrow> ev = Fd_out \<or> ev = Fd_in \<or> ev = Fd_err \<Longrightarrow> usock_only (usock_feed k ev u) = Some u"
  by (auto simp: u_stopping_def usock_calls)

section \<open>The phases\<close>

definition at_rest :: "conn \<Rightarrow> bool" where
  "at_rest c \<longleftrightarrow> cn_owner c = Own_ep \<and> cn_up c = [] \<and> us_raised (cn_usock c) = [] \<and> hd_fsm c = FSM_IDLE \<and> hd_state c = HDR_IDLE \<and>
     timer_off (hd_timer c) \<and> st_fsm c = FSM_IDLE \<and> st_state c = STCP_IDLE"

definition cp_idle :: "conn \<Rightarrow> bool" where
  "cp_idle c \<longleftrightarrow> at_rest c \<and> u_idle (cn_usock c) \<and> cn_events c = []"

definition cp_connecting :: "conn \<Rightarrow> bool" where
  "cp_connecting c \<longleftrightarrow> at_rest c \<and> (u_asking (cn_usock c) \<or> u_polling (cn_usock c)) \<and> cn_events c = []"

definition cp_failed :: "conn \<Rightarrow> bool" where
  "cp_failed c \<longleftrightarrow> at_rest c \<and> u_failed (cn_usock c) \<and> cn_events c = [Us Own_ep USOCK_ERROR]"

definition cp_stopped :: "conn \<Rightarrow> bool" where
  "cp_stopped c \<longleftrightarrow> at_rest c \<and> u_idle (cn_usock c) \<and> cn_events c = [Us Own_ep USOCK_STOPPED]"

definition cp_stopping :: "conn \<Rightarrow> bool" where
  "cp_stopping c \<longleftrightarrow> at_rest c \<and> u_stopping (cn_usock c) \<and> (cn_events c = [] \<or> cn_events c = [Us Own_ep USOCK_SHUTDOWN])"

lemmas cp_defs = cp_idle_def cp_connecting_def cp_failed_def cp_stopped_def cp_stopping_def

definition dns_off :: "dns \<Rightarrow> bool" where
  "dns_off d \<longleftrightarrow> dn_fsm d = FSM_IDLE \<and> dn_state d = DNS_IDLE"

text \<open>The port is a number, and the system answers what it is asked for the host and the local interface.\<close>

definition knows :: "epbase \<Rightarrow> network \<Rightarrow> bool" where
  "knows b nw \<longleftrightarrow> (let addr = eb_addr b; host = (if 59 \<in> set addr then after_first 59 addr else addr) in
     dns_resolve nw (before_last 58 host) (ipv4only b) \<notin> {None, Some (Inr In_other)} \<and>
     nn_iface_resolve nw (if 59 \<in> set addr then before_first 59 addr else [42]) (ipv4only b) \<noteq> None)"

definition addr_ok :: "epbase \<Rightarrow> bool" where
  "addr_ok b \<longleftrightarrow> 58 \<in> set (eb_addr b) \<and> nn_port_resolve (after_last 58 (eb_addr b)) > 0"

abbreviation retry_timer :: "ctcp \<Rightarrow> nn_timer" where "retry_timer self \<equiv> bo_timer (ct_retry self)"

definition opening_phase :: "ctcp \<Rightarrow> bool" where
  "opening_phase self \<longleftrightarrow> \<not> eb_stopped (ct_base self) \<and> (case ct_state self of
     CTCP_RESOLVING \<Rightarrow> cp_idle (ct_conn self) \<and> timer_off (retry_timer self) \<and> dn_fsm (ct_dns self) = FSM_ACTIVE \<and>
       dn_state (ct_dns self) = DNS_STATE_DONE \<and> dn_result (ct_dns self) \<noteq> Inr In_other \<and> ct_events self = [From_dns DNS_DONE]
   | CTCP_STOPPING_DNS \<Rightarrow> cp_idle (ct_conn self) \<and> timer_off (retry_timer self) \<and> dns_off (ct_dns self) \<and> dn_result (ct_dns self) \<noteq> Inr In_other \<and>
       ct_events self = [From_dns DNS_STOPPED]
   | CTCP_CONNECTING \<Rightarrow> (cp_connecting (ct_conn self) \<or> cp_failed (ct_conn self)) \<and> timer_off (retry_timer self) \<and> dns_off (ct_dns self) \<and> ct_events self = [] \<and>
       eb_stat (ct_base self) INPROGRESS_CONNECTIONS \<ge> 1
   | CTCP_STOPPING_USOCK \<Rightarrow> cp_stopped (ct_conn self) \<and> timer_off (retry_timer self) \<and> dns_off (ct_dns self) \<and> ct_events self = []
   | CTCP_WAITING \<Rightarrow> cp_idle (ct_conn self) \<and> timer_on (retry_timer self) \<and> dns_off (ct_dns self) \<and>
       (ct_events self = [] \<or> ct_events self = [From_timer TIMER_TIMEOUT])
   | CTCP_STOPPING_BACKOFF \<Rightarrow> cp_idle (ct_conn self) \<and> dns_off (ct_dns self) \<and>
       (timer_stopping (retry_timer self) \<and> ct_events self = [] \<or> timer_off (retry_timer self) \<and> ct_events self = [From_timer TIMER_STOPPED])
   | _ \<Rightarrow> False)"

definition closing_phase :: "ctcp \<Rightarrow> bool" where
  "closing_phase self \<longleftrightarrow> (\<not> eb_stopped (ct_base self) \<and> ct_state self = CTCP_STOPPING \<and> dns_off (ct_dns self) \<and>
     ((cp_stopping (ct_conn self) \<or> cp_stopped (ct_conn self)) \<and> timer_off (retry_timer self) \<and> ct_events self = [] \<or>
      cp_idle (ct_conn self) \<and>
        (timer_stopping (retry_timer self) \<and> ct_events self = [] \<or> timer_off (retry_timer self) \<and> ct_events self = [From_timer TIMER_STOPPED])))"

definition closed_phase :: "ctcp \<Rightarrow> bool" where
  "closed_phase self \<longleftrightarrow> eb_stopped (ct_base self) \<and> ct_state self = CTCP_IDLE \<and> dns_off (ct_dns self) \<and> cp_idle (ct_conn self) \<and>
     timer_off (retry_timer self) \<and> ct_events self = []"

definition ctcp_ok :: "ctcp \<Rightarrow> bool" where
  "ctcp_ok self \<longleftrightarrow> bo_ok (ct_retry self) \<and> addr_ok (ct_base self) \<and> eb_stat (ct_base self) INPROGRESS_CONNECTIONS \<ge> 0 \<and>
     (case ct_fsm self of
        FSM_ACTIVE \<Rightarrow> opening_phase self
      | FSM_STOPPING \<Rightarrow> closing_phase self
      | FSM_IDLE \<Rightarrow> closed_phase self)"

text \<open>The base is the same but for counters and the last error.\<close>

definition same_base :: "ctcp \<Rightarrow> ctcp \<Rightarrow> bool" where
  "same_base self self' \<longleftrightarrow> eb_addr (ct_base self') = eb_addr (ct_base self) \<and> eb_opts (ct_base self') = eb_opts (ct_base self)"

definition good :: "ctcp \<Rightarrow> ctcp option \<Rightarrow> bool" where
  "good self r \<longleftrightarrow> (\<exists>self'. r = Some self' \<and> ctcp_ok self' \<and> same_base self self')"

lemma us_do_one:
  assumes "f (cn_usock c) = Some u" "us_raised u = evs" "evs = [] \<or> evs = [e] \<and> cn_events c = []"
  shows "us_do f c = Some (c\<lparr>cn_usock := u\<lparr>us_raised := []\<rparr>, cn_events := cn_events c @ map (Us (cn_owner c)) evs\<rparr>)"
  using us_doI [of f c u e] assms by auto

lemma u_raised [simp]:
  "u_idle (u\<lparr>us_raised := x\<rparr>) = u_idle u" "u_asking (u\<lparr>us_raised := x\<rparr>) = u_asking u" "u_polling (u\<lparr>us_raised := x\<rparr>) = u_polling u"
  "u_failed (u\<lparr>us_raised := x\<rparr>) = u_failed u" "u_stopping (u\<lparr>us_raised := x\<rparr>) = u_stopping u"
  by (simp_all add: u_defs)

lemma at_rest_put [simp]: "at_rest (c\<lparr>cn_usock := u, cn_events := evs\<rparr>) \<longleftrightarrow> at_rest (c\<lparr>cn_usock := u\<rparr>)"
  by (simp add: at_rest_def)

section \<open>The steps of the endpoint\<close>

lemma fsm_put [simp]: "ct_fsm self = FSM_ACTIVE \<Longrightarrow> self\<lparr>ct_fsm := FSM_ACTIVE\<rparr> = self"
  by simp

lemma ctcp_wait_ok:
  assumes "bo_ok (ct_retry self)" "timer_off (retry_timer self)" "addr_ok (ct_base self)" "ct_events self = []" "ct_fsm self \<noteq> FSM_STOPPING"
    "cp_idle (ct_conn self)" "dns_off (ct_dns self)" "\<not> eb_stopped (ct_base self)" "eb_stat (ct_base self) INPROGRESS_CONNECTIONS \<ge> 0"
  obtains self' where "ctcp_wait self = Some self'" "ctcp_ok (self'\<lparr>ct_fsm := FSM_ACTIVE\<rparr>)" "same_base self self'" "ct_fsm self' = ct_fsm self"
proof -
  obtain b where b: "nn_backoff_start (ct_retry self) = Some b" "bo_ok b" "timer_on (bo_timer b)" using backoff_start_ok [OF assms(1,2)] by blast
  show thesis
    by (rule that [of "self\<lparr>ct_retry := b, ct_state := CTCP_WAITING\<rparr>"])
      (use b assms in \<open>auto simp: ctcp_wait_def backoff_start_def ctcp_ok_def opening_phase_def same_base_def\<close>)
qed

lemma ctcp_resolve_ok:
  assumes "bo_ok (ct_retry self)" "timer_off (retry_timer self)" "addr_ok (ct_base self)" "ct_events self = []"
    "cp_idle (ct_conn self)" "dns_off (ct_dns self)" "\<not> eb_stopped (ct_base self)" "eb_stat (ct_base self) INPROGRESS_CONNECTIONS \<ge> 0"
    "knows (ct_base self) nw"
  obtains self' where "nn_ctcp_start_resolving nw self = Some self'" "ctcp_ok (self'\<lparr>ct_fsm := FSM_ACTIVE\<rparr>)" "same_base self self'"
    "ct_fsm self' = ct_fsm self"
proof -
  let ?addr = "eb_addr (ct_base self)"
  let ?host = "if 59 \<in> set ?addr then after_first 59 ?addr else ?addr"
  obtain r where r: "dns_resolve nw (before_last 58 ?host) (ipv4only (ct_base self)) = Some r" "r \<noteq> Inr In_other"
    using assms(9) by (auto simp: knows_def Let_def)
  show thesis
    by (rule that [of "self\<lparr>ct_events := [From_dns DNS_DONE], ct_dns := \<lparr>dn_fsm = FSM_ACTIVE, dn_state = DNS_STATE_DONE, dn_result = r\<rparr>,
          ct_state := CTCP_RESOLVING\<rparr>"])
      (use r assms in \<open>auto simp: nn_ctcp_start_resolving_def nn_dns_start_def dns_off_def dns_isidle_def ctcp_raise_def addr_ok_def Let_def
          ctcp_ok_def opening_phase_def same_base_def\<close>)
qed

lemma ctcp_connect_ok:
  assumes "bo_ok (ct_retry self)" "timer_off (retry_timer self)" "addr_ok (ct_base self)" "ct_events self = []" "ct_fsm self = FSM_ACTIVE"
    "at_rest (ct_conn self)" "cn_events (ct_conn self) = []" "us_fsm (cn_usock (ct_conn self)) = FSM_ACTIVE"
    "us_state (cn_usock (ct_conn self)) = USOCK_STARTING" "us_tasks (cn_usock (ct_conn self)) = []" "\<not> us_polled (cn_usock (ct_conn self))"
    "dns_off (ct_dns self)" "\<not> eb_stopped (ct_base self)" "eb_stat (ct_base self) INPROGRESS_CONNECTIONS \<ge> 0" "refuses k"
  shows "good self (ctcp_connect k self)"
proof -
  let ?c = "ct_conn self"
  have raised: "us_raised (cn_usock ?c) = []" using assms(6) by (simp add: at_rest_def)
  have bind: "nn_usock_setsockopt k (cn_usock ?c) \<noteq> None" "nn_usock_bind k (cn_usock ?c) = Some 0"
    using assms(9,15) by (simp_all add: nn_usock_setsockopt_def nn_usock_bind_def refuses_def)
  obtain u where u: "nn_usock_connect k (cn_usock ?c) = Some u"
      "u_asking u \<and> us_raised u = [] \<or> u_failed u \<and> us_raised u = [USOCK_ERROR]"
    using u_connect [OF assms(8-11) raised assms(15)] .
  let ?c' = "?c\<lparr>cn_usock := u\<lparr>us_raised := []\<rparr>, cn_events := cn_events ?c @ map (Us (cn_owner ?c)) (us_raised u)\<rparr>"
  have d: "us_do (nn_usock_connect k) ?c = Some ?c'"
    using us_do_one [of "nn_usock_connect k" ?c u "us_raised u" USOCK_ERROR] u assms(7) by auto
  have p: "cp_connecting ?c' \<or> cp_failed ?c'"
    using u(2) assms(6,7) by (auto simp: cp_connecting_def cp_failed_def at_rest_def)
  show ?thesis
    using bind d p assms by (auto simp: good_def ctcp_connect_def ct_on_conn_def ct_on_base_def nn_epbase_stat_increment_def stat_increment_def
        level_stats_def ctcp_ok_def opening_phase_def same_base_def addr_ok_def)
qed

lemma ctcp_connecting_ok:
  assumes "bo_ok (ct_retry self)" "timer_off (retry_timer self)" "addr_ok (ct_base self)" "ct_events self = []" "ct_fsm self = FSM_ACTIVE"
    "cp_idle (ct_conn self)" "dns_off (ct_dns self)" "\<not> eb_stopped (ct_base self)" "eb_stat (ct_base self) INPROGRESS_CONNECTIONS \<ge> 0"
    "knows (ct_base self) nw" "refuses k" "ss \<noteq> In_other"
  shows "good self (nn_ctcp_start_connecting nw k ss self)"
proof -
  let ?c = "ct_conn self"
  let ?addr = "eb_addr (ct_base self)"
  have w: "good self (ctcp_wait self)"
    by (rule ctcp_wait_ok [OF assms(1-4) _ assms(6-9)]) (use assms(5) in \<open>auto simp: good_def same_base_def\<close>)
  have port: "nn_port_resolve (after_last 58 ?addr) > 0" using assms(3) by (simp add: addr_ok_def)
  obtain r where r: "nn_iface_resolve nw (if 59 \<in> set ?addr then before_first 59 ?addr else [42]) (ipv4only (ct_base self)) = Some r"
    using assms(10) by (auto simp: knows_def Let_def)
  have idle: "conn_usock_isidle ?c" using assms(6) by (simp add: conn_usock_isidle_def cp_idle_def u_idle_def)
  have u: "u_idle (cn_usock ?c)" "us_raised (cn_usock ?c) = []" "cn_events ?c = []" "at_rest ?c"
    using assms(6) by (simp_all add: cp_idle_def at_rest_def)
  have "good self (ctcp_connect k (self\<lparr>ct_conn := ?c\<lparr>cn_usock := cn_usock ?c\<lparr>us_open := True, us_state := USOCK_STARTING, us_fsm := FSM_ACTIVE\<rparr>\<rparr>\<rparr>))"
    (is "good self (ctcp_connect k ?s)")
  proof -
    have "good ?s (ctcp_connect k ?s)"
      by (rule ctcp_connect_ok) (use assms u in \<open>simp_all add: at_rest_def u_idle_def\<close>)
    then show ?thesis by (simp add: good_def same_base_def)
  qed
  moreover have "conn_usock_start k ?c = Some (0, ?c\<lparr>cn_usock := cn_usock ?c\<lparr>us_open := True, us_state := USOCK_STARTING, us_fsm := FSM_ACTIVE\<rparr>\<rparr>)"
    if "kn_socket k = None"
    using u_start [OF u(1,2) that] idle u(2) by (simp add: conn_usock_start_def us_do_def)
  moreover have "\<exists>e. conn_usock_start k ?c = Some (- e, ?c) \<and> e > 0" if "kn_socket k \<noteq> None"
    using that u_start_failed [of k] assms(11) u(2) by (auto simp: conn_usock_start_def us_do_def refuses_def)
  ultimately show ?thesis using w port r assms(12)
    by (cases "kn_socket k = None") (auto simp: nn_ctcp_start_connecting_def Let_def split: sum.splits)
qed

text \<open>What can come next. The worker feeds its tasks and events when the queues have been emptied, and so does the user's call to close.\<close>

datatype ctcp_step =
    C_process | C_conn | C_task | C_fd usock_input | C_retry timer_src | C_header timer_src | C_send msg | C_recv | C_stop

definition quiet :: "ctcp \<Rightarrow> bool" where
  "quiet self \<longleftrightarrow> ct_events self = [] \<and> cn_events (ct_conn self) = []"

definition ctcp_enabled :: "ctcp \<Rightarrow> ctcp_step \<Rightarrow> bool" where
  "ctcp_enabled self s \<longleftrightarrow> (let u = cn_usock (ct_conn self) in case s of
     C_process \<Rightarrow> ct_events self \<noteq> []
   | C_conn \<Rightarrow> cn_events (ct_conn self) \<noteq> []
   | C_task \<Rightarrow> quiet self \<and> us_tasks u \<noteq> []
   | C_fd ev \<Rightarrow> quiet self \<and> us_polled u \<and> (ev = Fd_err \<or> ev = Fd_in \<and> us_pollin u \<or> ev = Fd_out \<and> us_pollout u)
   | C_retry src \<Rightarrow> quiet self \<and> nn_timer_feed src (retry_timer self) \<noteq> None
   | C_header src \<Rightarrow> quiet self \<and> nn_timer_feed src (hd_timer (ct_conn self)) \<noteq> None
   | C_send m \<Rightarrow> quiet self \<and> st_state (ct_conn self) = STCP_ACTIVE \<and> pb_outstate (st_pipe (ct_conn self)) = IO_IDLE
   | C_recv \<Rightarrow> quiet self \<and> st_state (ct_conn self) = STCP_ACTIVE \<and> pb_instate (st_pipe (ct_conn self)) = IO_IDLE
   | C_stop \<Rightarrow> quiet self)"

definition ctcp_do :: "network \<Rightarrow> stream_env \<Rightarrow> kernel \<Rightarrow> ctcp_step \<Rightarrow> ctcp \<Rightarrow> ctcp option" where
  "ctcp_do nw env k s self = (case s of
     C_process \<Rightarrow> ctcp_process nw env k self
   | C_conn \<Rightarrow> ctcp_process_conn nw env k self
   | C_task \<Rightarrow> ct_on_conn (conn_task k) self
   | C_fd ev \<Rightarrow> ct_on_conn (conn_fd k ev) self
   | C_retry src \<Rightarrow> ctcp_retry_timer src self
   | C_header src \<Rightarrow> ct_on_conn (conn_timer src) self
   | C_send m \<Rightarrow> ct_on_conn (stream_pipe_send env k m) self
   | C_recv \<Rightarrow> ct_on_conn (\<lambda>c. map_option snd (stream_pipe_recv env k c)) self
   | C_stop \<Rightarrow> nn_ctcp_stop self)"

lemma ctcp_process_ok:
  assumes "ctcp_ok self" "ct_events self \<noteq> []" "knows (ct_base self) nw" "refuses k"
  shows "good self (ctcp_process nw env k self)"
proof (cases "ct_fsm self")
  case FSM_ACTIVE
  then have o: "opening_phase self" and b: "bo_ok (ct_retry self)" "addr_ok (ct_base self)" "eb_stat (ct_base self) INPROGRESS_CONNECTIONS \<ge> 0"
    using assms(1) by (simp_all add: ctcp_ok_def)
  consider (r) "ct_state self = CTCP_RESOLVING" | (d) "ct_state self = CTCP_STOPPING_DNS" | (w) "ct_state self = CTCP_WAITING"
    | (b) "ct_state self = CTCP_STOPPING_BACKOFF"
    using o assms(2) by (auto simp: opening_phase_def Let_def split: ctcp_state.splits)
  then show ?thesis
  proof cases
    case r
    then show ?thesis using o b FSM_ACTIVE
      by (auto simp: opening_phase_def good_def ctcp_process_def ctcp_feed_def nn_ctcp_handler_def nn_dns_stop_def ctcp_raise_def dns_off_def
          ctcp_ok_def same_base_def)
  next
    case d
    let ?s = "self\<lparr>ct_events := []\<rparr>"
    have o': "cp_idle (ct_conn self)" "timer_off (retry_timer self)" "dns_off (ct_dns self)" "dn_result (ct_dns self) \<noteq> Inr In_other"
        "ct_events self = [From_dns DNS_STOPPED]" "\<not> eb_stopped (ct_base self)"
      using o d by (auto simp: opening_phase_def)
    have "good ?s (nn_ctcp_start_connecting nw k ss ?s)" if "ss \<noteq> In_other" for ss
      by (rule ctcp_connecting_ok) (use o' b assms FSM_ACTIVE that in auto)
    moreover have "good ?s (ctcp_wait ?s)"
      by (rule ctcp_wait_ok [of ?s]) (use o' b FSM_ACTIVE in \<open>auto simp: good_def\<close>)
    moreover have "good self r" if "good ?s r" for r using that by (simp add: good_def same_base_def)
    ultimately show ?thesis using o' d FSM_ACTIVE
      by (auto simp: ctcp_process_def ctcp_feed_def nn_ctcp_handler_def split: sum.splits)
  next
    case w
    then show ?thesis using o b FSM_ACTIVE assms(2) timer_stop_on
      by (auto simp: opening_phase_def good_def ctcp_process_def ctcp_feed_def nn_ctcp_handler_def nn_backoff_stop_def ctcp_ok_def same_base_def bo_ok_def)
  next
    case b: b
    let ?s = "self\<lparr>ct_events := []\<rparr>"
    have o': "cp_idle (ct_conn self)" "timer_off (retry_timer self)" "dns_off (ct_dns self)" "\<not> eb_stopped (ct_base self)"
        "ct_events self = [From_timer TIMER_STOPPED]"
      using o b assms(2) by (auto simp: opening_phase_def)
    have "good ?s (nn_ctcp_start_resolving nw ?s)"
      by (rule ctcp_resolve_ok [of ?s nw]) (use o' \<open>bo_ok _\<close> \<open>addr_ok _\<close> \<open>0 \<le> _\<close> assms FSM_ACTIVE in \<open>auto simp: good_def\<close>)
    then show ?thesis using o' b FSM_ACTIVE
      by (auto simp: ctcp_process_def ctcp_feed_def nn_ctcp_handler_def good_def same_base_def)
  qed
next
  case FSM_IDLE
  then show ?thesis using assms(1,2) by (simp add: ctcp_ok_def closed_phase_def)
next
  case FSM_STOPPING
  then show ?thesis using assms(1,2)
    by (auto simp: ctcp_ok_def closing_phase_def closed_phase_def good_def ctcp_process_def ctcp_feed_def nn_ctcp_shutdown_def ctcp_stopping_def
        backoff_isidle_def nn_timer_isidle_def timer_off_def conn_usock_isidle_def cp_idle_def u_idle_def dns_isidle_def dns_off_def
        nn_epbase_stopped_def addr_ok_def same_base_def Let_def)
qed

lemma us_do_rest:
  assumes "at_rest c" "f (cn_usock c) = Some u" "us_raised u = [] \<or> us_raised u = [e]" "cn_events c = []"
  shows "us_do f c = Some (c\<lparr>cn_usock := u\<lparr>us_raised := []\<rparr>, cn_events := map (Us Own_ep) (us_raised u)\<rparr>) \<and>
    at_rest (c\<lparr>cn_usock := u\<lparr>us_raised := []\<rparr>, cn_events := map (Us Own_ep) (us_raised u)\<rparr>)"
  using us_do_one [of f c u "us_raised u" e] assms by (auto simp: at_rest_def)

lemma set_error_ok:
  "\<exists>b1. nn_epbase_set_error e b = Some b1 \<and> eb_stat b1 INPROGRESS_CONNECTIONS = eb_stat b INPROGRESS_CONNECTIONS \<and>
     eb_addr b1 = eb_addr b \<and> eb_opts b1 = eb_opts b \<and> eb_stopped b1 = eb_stopped b"
  by (cases "eb_errno b = e"; cases "eb_errno b = 0")
    (simp_all add: nn_epbase_set_error_def nn_epbase_stat_increment_def stat_increment_def level_stats_def)

lemma ctcp_error_ok:
  assumes "cp_failed (ct_conn self)" "ct_fsm self = FSM_ACTIVE" "ct_state self = CTCP_CONNECTING" "opening_phase self" "ctcp_ok self"
  shows "good self (ctcp_process_conn nw env k self)"
proof -
  let ?c = "ct_conn self" and ?b = "ct_base self"
  let ?d = "?c\<lparr>cn_events := [], cn_up := []\<rparr>"
  have r: "at_rest ?c" "u_failed (cn_usock ?c)" "cn_events ?c = [Us Own_ep USOCK_ERROR]" using assms(1) by (simp_all add: cp_failed_def)
  then have c: "cn_up ?c = []" "us_raised (cn_usock ?c) = []" "at_rest ?d" by (simp_all add: at_rest_def)
  have b: "bo_ok (ct_retry self)" "addr_ok ?b" "eb_stat ?b INPROGRESS_CONNECTIONS \<ge> 1" "\<not> eb_stopped ?b" "timer_off (retry_timer self)"
      "dns_off (ct_dns self)" "ct_events self = []"
    using assms(3-5) by (simp_all add: ctcp_ok_def opening_phase_def)
  obtain u where u: "usock_only (nn_usock_stop (cn_usock ?c)) = Some u" "u_idle u" "us_raised u = [USOCK_STOPPED]"
    using u_stop_failed [OF r(2) c(2)] by blast
  have stop: "conn_usock_stop ?d = Some (?d\<lparr>cn_usock := u\<lparr>us_raised := []\<rparr>, cn_events := [Us Own_ep USOCK_STOPPED]\<rparr>)"
      "at_rest (?d\<lparr>cn_usock := u\<lparr>us_raised := []\<rparr>, cn_events := [Us Own_ep USOCK_STOPPED]\<rparr>)"
    using us_do_rest [OF c(3), of "\<lambda>u. usock_only (nn_usock_stop u)" u USOCK_STOPPED] u by (simp_all add: conn_usock_stop_def)
  obtain b1 where b1: "nn_epbase_set_error (us_errnum (cn_usock ?c)) ?b = Some b1" "eb_stat b1 INPROGRESS_CONNECTIONS = eb_stat ?b INPROGRESS_CONNECTIONS"
      "eb_addr b1 = eb_addr ?b" "eb_opts b1 = eb_opts ?b" "eb_stopped b1 = eb_stopped ?b"
    using set_error_ok by blast
  show ?thesis
    using r(3) c(1) assms(2,3) b b1 stop u
    by (simp add: good_def ctcp_process_conn_def conn_process_def conn_dispatch_def up_input_def ctcp_feed_def nn_ctcp_handler_def ctcp_connecting_def
        ct_on_base_def ct_on_conn_def nn_epbase_stat_increment_def stat_increment_def level_stats_def ctcp_ok_def opening_phase_def
        cp_stopped_def same_base_def addr_ok_def)
qed

lemma ctcp_conn_ok:
  assumes "ctcp_ok self" "cn_events (ct_conn self) \<noteq> []"
  shows "good self (ctcp_process_conn nw env k self)"
proof (cases "ct_fsm self")
  case FSM_ACTIVE
  then have o: "opening_phase self" and b: "bo_ok (ct_retry self)" "addr_ok (ct_base self)" "eb_stat (ct_base self) INPROGRESS_CONNECTIONS \<ge> 0"
    using assms(1) by (simp_all add: ctcp_ok_def)
  consider (c) "ct_state self = CTCP_CONNECTING" | (u) "ct_state self = CTCP_STOPPING_USOCK"
    using o assms(2) by (auto simp: opening_phase_def cp_idle_def Let_def split: ctcp_state.splits)
  then show ?thesis
  proof cases
    case c
    then have "cp_failed (ct_conn self)" using o assms(2) by (auto simp: opening_phase_def cp_connecting_def)
    then show ?thesis by (rule ctcp_error_ok [OF _ FSM_ACTIVE c o assms(1)])
  next
    case u
    let ?d = "(ct_conn self)\<lparr>cn_events := [], cn_up := []\<rparr>"
    let ?s = "self\<lparr>ct_conn := ?d\<rparr>"
    have o': "cp_stopped (ct_conn self)" "timer_off (retry_timer self)" "dns_off (ct_dns self)" "\<not> eb_stopped (ct_base self)"
        "ct_events self = []"
      using o u by (simp_all add: opening_phase_def)
    then have d: "cp_idle ?d" "cn_events (ct_conn self) = [Us Own_ep USOCK_STOPPED]" "cn_up (ct_conn self) = []"
      by (auto simp: cp_stopped_def cp_idle_def at_rest_def)
    have "good ?s (ctcp_wait ?s)"
      by (rule ctcp_wait_ok [of ?s]) (use o' b d FSM_ACTIVE in \<open>auto simp: good_def\<close>)
    moreover have "good self r" if "good ?s r" for r using that by (simp add: good_def same_base_def)
    ultimately show ?thesis using u FSM_ACTIVE d
      by (simp add: ctcp_process_conn_def conn_process_def conn_dispatch_def up_input_def ctcp_feed_def nn_ctcp_handler_def)
  qed
next
  case FSM_IDLE
  then show ?thesis using assms(1,2) by (simp add: ctcp_ok_def closed_phase_def cp_idle_def)
next
  case FSM_STOPPING
  let ?d = "(ct_conn self)\<lparr>cn_events := [], cn_up := []\<rparr>"
  have o: "closing_phase self" and b: "bo_ok (ct_retry self)" "addr_ok (ct_base self)" "eb_stat (ct_base self) INPROGRESS_CONNECTIONS \<ge> 0"
    using assms(1) FSM_STOPPING by (simp_all add: ctcp_ok_def)
  have o': "cp_stopping (ct_conn self) \<or> cp_stopped (ct_conn self)" "timer_off (retry_timer self)" "dns_off (ct_dns self)"
      "\<not> eb_stopped (ct_base self)" "ct_events self = []" "ct_state self = CTCP_STOPPING"
    using o assms(2) by (auto simp: closing_phase_def cp_idle_def Let_def)
  then consider (s) "cp_stopping (ct_conn self)" "cn_events (ct_conn self) = [Us Own_ep USOCK_SHUTDOWN]" "cp_stopping ?d"
    | (t) "cp_stopped (ct_conn self)" "cn_events (ct_conn self) = [Us Own_ep USOCK_STOPPED]" "cp_idle ?d"
    using assms(2) by (auto simp: cp_defs at_rest_def)
  then show ?thesis
  proof cases
    case s
    then have "cn_up (ct_conn self) = []" "\<not> conn_usock_isidle ?d"
      by (auto simp: cp_stopping_def at_rest_def conn_usock_isidle_def u_stopping_def)
    then show ?thesis using s o' b FSM_STOPPING
      by (simp add: good_def ctcp_process_conn_def conn_process_def conn_dispatch_def up_input_def ctcp_feed_def nn_ctcp_shutdown_def ctcp_stopping_def
          ctcp_ok_def closing_phase_def same_base_def)
  next
    case t
    then have "cn_up (ct_conn self) = []" "conn_usock_isidle ?d"
      by (auto simp: cp_defs at_rest_def conn_usock_isidle_def u_idle_def)
    then show ?thesis using t o' b FSM_STOPPING
      by (simp add: good_def ctcp_process_conn_def conn_process_def conn_dispatch_def up_input_def ctcp_feed_def nn_ctcp_shutdown_def ctcp_stopping_def
          ctcp_ok_def closed_phase_def same_base_def backoff_isidle_def nn_timer_isidle_def timer_off_def dns_isidle_def dns_off_def
          nn_epbase_stopped_def addr_ok_def)
  qed
qed

text \<open>The tasks and the descriptor of the socket.\<close>

lemma conn_task_do: "us_tasks (cn_usock c) = t # ts \<Longrightarrow> conn_task k c = us_do (\<lambda>u. usock_only (usock_feed k (Task t) (u\<lparr>us_tasks := ts\<rparr>))) c"
  by (simp add: conn_task_def)

lemma on_conn_good:
  assumes "f (ct_conn self) = Some c" "ctcp_ok (self\<lparr>ct_conn := c\<rparr>)"
  shows "good self (ct_on_conn f self)"
  using assms by (simp add: good_def ct_on_conn_def same_base_def)

lemma connecting_conn:
  assumes "ctcp_ok self" "ct_fsm self = FSM_ACTIVE" "cp_connecting (ct_conn self)" "cp_connecting c \<or> cp_failed c"
  shows "ctcp_ok (self\<lparr>ct_conn := c\<rparr>)"
proof -
  have "ct_state self = CTCP_CONNECTING"
    using assms(1-3) by (auto simp: ctcp_ok_def opening_phase_def cp_defs u_defs split: ctcp_state.splits)
  then show ?thesis using assms by (auto simp: ctcp_ok_def opening_phase_def addr_ok_def)
qed

lemma stopping_conn:
  assumes "ctcp_ok self" "ct_fsm self = FSM_STOPPING" "cp_stopping (ct_conn self)" "cp_stopping c \<or> cp_stopped c"
  shows "ctcp_ok (self\<lparr>ct_conn := c\<rparr>)"
  using assms by (auto simp: ctcp_ok_def closing_phase_def addr_ok_def cp_defs u_defs)

lemma quiet_conn:
  assumes "ctcp_ok self" "cn_events (ct_conn self) = []" "us_tasks (cn_usock (ct_conn self)) \<noteq> [] \<or> us_polled (cn_usock (ct_conn self))"
  obtains "ct_fsm self = FSM_ACTIVE" "cp_connecting (ct_conn self)" | "ct_fsm self = FSM_STOPPING" "cp_stopping (ct_conn self)"
  using assms by (auto simp: ctcp_ok_def opening_phase_def closing_phase_def closed_phase_def cp_idle_def cp_failed_def cp_stopped_def u_idle_def
      split: fsm_state.splits ctcp_state.splits)

lemma rest_do:
  assumes "at_rest c" "cn_events c = []" "f (cn_usock c) = Some u" "us_raised u = [] \<or> us_raised u = [e]"
  obtains c' where "us_do f c = Some c'" "at_rest c'" "cn_usock c' = u\<lparr>us_raised := []\<rparr>" "cn_events c' = map (Us Own_ep) (us_raised u)"
  using us_do_rest [of c f u e] assms that
    [of "c\<lparr>cn_usock := u\<lparr>us_raised := []\<rparr>, cn_events := map (Us Own_ep) (us_raised u)\<rparr>"] by auto

lemma ctcp_task_ok:
  assumes "ctcp_ok self" "cn_events (ct_conn self) = []" "us_tasks (cn_usock (ct_conn self)) = t # ts"
  shows "good self (ct_on_conn (conn_task k) self)"
proof (rule quiet_conn [OF assms(1,2)])
  show "us_tasks (cn_usock (ct_conn self)) \<noteq> [] \<or> us_polled (cn_usock (ct_conn self))" using assms(3) by simp
next
  assume a: "ct_fsm self = FSM_ACTIVE" "cp_connecting (ct_conn self)"
  then have c: "at_rest (ct_conn self)" "us_raised (cn_usock (ct_conn self)) = []" "u_asking (cn_usock (ct_conn self))"
    using assms(3) by (auto simp: cp_connecting_def at_rest_def u_polling_def)
  from u_ask [OF c(3,2) assms(3), of k] obtain u where
    u: "usock_only (usock_feed k (Task t) (cn_usock (ct_conn self)\<lparr>us_tasks := ts\<rparr>)) = Some u" "u_polling u" "us_raised u = []" by blast
  obtain c' where c': "us_do (\<lambda>u. usock_only (usock_feed k (Task t) (u\<lparr>us_tasks := ts\<rparr>))) (ct_conn self) = Some c'" "at_rest c'"
      "cn_usock c' = u\<lparr>us_raised := []\<rparr>" "cn_events c' = []"
    by (rule rest_do [OF c(1) assms(2), of "\<lambda>u. usock_only (usock_feed k (Task t) (u\<lparr>us_tasks := ts\<rparr>))" u USOCK_ERROR]) (use u in auto)
  have "cp_connecting c'" using c' u(2) by (simp add: cp_connecting_def)
  then show ?thesis using on_conn_good [of "conn_task k"] connecting_conn [OF assms(1) a] c'(1) conn_task_do [OF assms(3)] by auto
next
  assume a: "ct_fsm self = FSM_STOPPING" "cp_stopping (ct_conn self)"
  then have c: "at_rest (ct_conn self)" "us_raised (cn_usock (ct_conn self)) = []" "u_stopping (cn_usock (ct_conn self))"
    by (auto simp: cp_stopping_def at_rest_def)
  from u_stopping_task [OF c(3,2) assms(3), of k] obtain u where
    u: "usock_only (usock_feed k (Task t) (cn_usock (ct_conn self)\<lparr>us_tasks := ts\<rparr>)) = Some u"
      "u_stopping u \<and> us_raised u = [] \<or> u_idle u \<and> us_raised u = [USOCK_STOPPED]" by blast
  obtain c' where c': "us_do (\<lambda>u. usock_only (usock_feed k (Task t) (u\<lparr>us_tasks := ts\<rparr>))) (ct_conn self) = Some c'" "at_rest c'"
      "cn_usock c' = u\<lparr>us_raised := []\<rparr>" "cn_events c' = map (Us Own_ep) (us_raised u)"
    by (rule rest_do [OF c(1) assms(2), of "\<lambda>u. usock_only (usock_feed k (Task t) (u\<lparr>us_tasks := ts\<rparr>))" u USOCK_STOPPED]) (use u in auto)
  have "cp_stopping c' \<or> cp_stopped c'" using c' u(2) by (auto simp: cp_stopping_def cp_stopped_def)
  then show ?thesis using on_conn_good [of "conn_task k"] stopping_conn [OF assms(1) a] c'(1) conn_task_do [OF assms(3)] by auto
qed

lemma ctcp_fd_ok:
  assumes "ctcp_ok self" "cn_events (ct_conn self) = []" "us_polled (cn_usock (ct_conn self))" "refuses k"
    "ev = Fd_err \<or> ev = Fd_in \<and> us_pollin (cn_usock (ct_conn self)) \<or> ev = Fd_out \<and> us_pollout (cn_usock (ct_conn self))"
  shows "good self (ct_on_conn (conn_fd k ev) self)"
proof (rule quiet_conn [OF assms(1,2)])
  show "us_tasks (cn_usock (ct_conn self)) \<noteq> [] \<or> us_polled (cn_usock (ct_conn self))" using assms(3) by simp
next
  assume a: "ct_fsm self = FSM_ACTIVE" "cp_connecting (ct_conn self)"
  then have c: "at_rest (ct_conn self)" "us_raised (cn_usock (ct_conn self)) = []" "u_polling (cn_usock (ct_conn self))"
    using assms(3) by (auto simp: cp_connecting_def at_rest_def u_asking_def)
  have ev: "ev = Fd_out \<or> ev = Fd_err" using assms(5) c(3) by (auto simp: u_polling_def)
  obtain u where u: "usock_only (usock_feed k ev (cn_usock (ct_conn self))) = Some u" "u_failed u" "us_raised u = [USOCK_ERROR]"
    using u_fd [OF c(3,2) assms(4) ev] .
  obtain c' where c': "us_do (\<lambda>u. usock_only (usock_feed k ev u)) (ct_conn self) = Some c'" "at_rest c'"
      "cn_usock c' = u\<lparr>us_raised := []\<rparr>" "cn_events c' = [Us Own_ep USOCK_ERROR]"
    by (rule rest_do [OF c(1) assms(2), of "\<lambda>u. usock_only (usock_feed k ev u)" u USOCK_ERROR]) (use u in auto)
  have "cp_failed c'" using c' u(2) by (simp add: cp_failed_def)
  then show ?thesis using on_conn_good [of "conn_fd k ev"] connecting_conn [OF assms(1) a] c'(1) by (auto simp: conn_fd_def)
next
  assume a: "ct_fsm self = FSM_STOPPING" "cp_stopping (ct_conn self)"
  then have c: "at_rest (ct_conn self)" "us_raised (cn_usock (ct_conn self)) = []" "u_stopping (cn_usock (ct_conn self))"
    by (auto simp: cp_stopping_def at_rest_def)
  have u: "usock_only (usock_feed k ev (cn_usock (ct_conn self))) = Some (cn_usock (ct_conn self))" using u_stopping_fd [OF c(3)] assms(5) by blast
  obtain c' where c': "us_do (\<lambda>u. usock_only (usock_feed k ev u)) (ct_conn self) = Some c'" "at_rest c'"
      "cn_usock c' = cn_usock (ct_conn self)\<lparr>us_raised := []\<rparr>" "cn_events c' = []"
    by (rule rest_do [OF c(1) assms(2), of "\<lambda>u. usock_only (usock_feed k ev u)" "cn_usock (ct_conn self)" USOCK_ERROR]) (use u c(2) in auto)
  have "cp_stopping c'" using c' c(3) by (simp add: cp_stopping_def)
  then show ?thesis using on_conn_good [of "conn_fd k ev"] stopping_conn [OF assms(1) a] c'(1) by (auto simp: conn_fd_def)
qed

lemma bo_ok_timer [simp]: "bo_ok (b\<lparr>bo_timer := tm\<rparr>) = bo_ok b"
  by (simp add: bo_ok_def)

lemma ctcp_retry_ok:
  assumes "ctcp_ok self" "ct_events self = []" "nn_timer_feed src (retry_timer self) = Some (e, tm)"
  shows "good self (ctcp_retry_timer src self)"
proof (cases "ct_fsm self")
  case FSM_ACTIVE
  have "\<not> timer_off (retry_timer self)" using assms(3) timer_off_feed [of "retry_timer self" src] by auto
  then consider (w) "ct_state self = CTCP_WAITING" "timer_on (retry_timer self)" | (b) "ct_state self = CTCP_STOPPING_BACKOFF" "timer_stopping (retry_timer self)"
    using assms(1,2) FSM_ACTIVE by (auto simp: ctcp_ok_def opening_phase_def split: ctcp_state.splits)
  then show ?thesis
  proof cases
    case w
    then show ?thesis using assms FSM_ACTIVE timer_on_feed [OF w(2) assms(3)]
      by (auto simp: good_def ctcp_retry_timer_def ctcp_raise_def ctcp_ok_def opening_phase_def same_base_def)
  next
    case b
    then show ?thesis using assms FSM_ACTIVE timer_stopping_feed [OF b(2) assms(3)]
      by (auto simp: good_def ctcp_retry_timer_def ctcp_raise_def ctcp_ok_def opening_phase_def same_base_def)
  qed
next
  case FSM_IDLE
  then show ?thesis using assms(1,3) timer_off_feed [of "retry_timer self" src] by (simp add: ctcp_ok_def closed_phase_def)
next
  case FSM_STOPPING
  have st: "timer_stopping (retry_timer self)"
    using assms timer_off_feed [of "retry_timer self" src] FSM_STOPPING by (auto simp: ctcp_ok_def closing_phase_def)
  then have "\<not> timer_off (retry_timer self)" by (simp add: timer_stopping_def timer_off_def)
  then show ?thesis using assms FSM_STOPPING timer_stopping_feed [OF st assms(3)]
    by (auto simp: good_def ctcp_retry_timer_def ctcp_raise_def ctcp_ok_def closing_phase_def same_base_def)
qed

lemma ctcp_stop_ok:
  assumes "ctcp_ok self" "quiet self"
  shows "good self (nn_ctcp_stop self)"
proof (cases "ct_fsm self = FSM_ACTIVE")
  case True
  let ?c = "ct_conn self"
  have b: "bo_ok (ct_retry self)" "addr_ok (ct_base self)" "eb_stat (ct_base self) INPROGRESS_CONNECTIONS \<ge> 0" "\<not> eb_stopped (ct_base self)"
      "ct_events self = []" "cn_events ?c = []" and o: "opening_phase self"
    using assms True by (auto simp: ctcp_ok_def opening_phase_def quiet_def)
  then consider (c) "ct_state self = CTCP_CONNECTING" "cp_connecting ?c" "timer_off (retry_timer self)" "dns_off (ct_dns self)"
    | (w) "cp_idle ?c" "timer_on (retry_timer self) \<or> timer_stopping (retry_timer self)" "dns_off (ct_dns self)"
    by (auto simp: opening_phase_def cp_failed_def cp_stopped_def split: ctcp_state.splits)
  then show ?thesis
  proof cases
    case c
    then have r: "at_rest ?c" "us_raised (cn_usock ?c) = []" "u_asking (cn_usock ?c) \<or> u_polling (cn_usock ?c)" "nn_stcp_isidle ?c"
      by (auto simp: cp_connecting_def at_rest_def nn_stcp_isidle_def)
    from u_stop_asking [OF r(3,2)] obtain u where
      u: "usock_only (nn_usock_stop (cn_usock ?c)) = Some u" "u_stopping u" "us_raised u = [USOCK_SHUTDOWN]" by blast
    obtain c' where c': "us_do (\<lambda>u. usock_only (nn_usock_stop u)) ?c = Some c'" "at_rest c'"
        "cn_usock c' = u\<lparr>us_raised := []\<rparr>" "cn_events c' = [Us Own_ep USOCK_SHUTDOWN]"
      by (rule rest_do [OF r(1) b(6), of "\<lambda>u. usock_only (nn_usock_stop u)" u USOCK_SHUTDOWN]) (use u in auto)
    have "cp_stopping c'" "\<not> conn_usock_isidle c'" using c' u(2) by (simp_all add: cp_stopping_def conn_usock_isidle_def u_stopping_def)
    then show ?thesis using True c b c'(1) r(4) timer_stop_off [OF c(3)]
      by (simp add: good_def nn_ctcp_stop_def nn_ctcp_shutdown_def ct_on_conn_def conn_usock_stop_def nn_dns_stop_def dns_off_def ctcp_stopping_def
          nn_backoff_stop_def ctcp_ok_def closing_phase_def same_base_def)
  next
    case w
    then have r: "at_rest ?c" "us_raised (cn_usock ?c) = []" "u_idle (cn_usock ?c)" "nn_stcp_isidle ?c"
      using b(6) by (auto simp: cp_idle_def at_rest_def nn_stcp_isidle_def)
    have tm: "timer_stopping (nn_timer_stop (retry_timer self))"
      using w(2) by (auto simp: timer_stopping_def timer_on_def nn_timer_stop_def)
    then have tm': "\<not> nn_timer_isidle (nn_timer_stop (retry_timer self))" by (simp add: timer_stopping_def nn_timer_isidle_def)
    have "conn_usock_stop ?c = Some ?c"
      using u_stop_idle [OF r(3)] r(2) by (simp add: conn_usock_stop_def us_do_def)
    then show ?thesis using True w b r(4) tm tm'
      by (simp add: good_def nn_ctcp_stop_def nn_ctcp_shutdown_def ct_on_conn_def nn_dns_stop_def dns_off_def ctcp_stopping_def
          nn_backoff_stop_def ctcp_ok_def closing_phase_def same_base_def backoff_isidle_def)
  qed
next
  case False
  then show ?thesis using assms(1) by (simp add: nn_ctcp_stop_def good_def same_base_def)
qed

lemma ctcp_at_rest: "ctcp_ok self \<Longrightarrow> at_rest (ct_conn self)"
  by (auto simp: ctcp_ok_def opening_phase_def closing_phase_def closed_phase_def cp_defs split: fsm_state.splits ctcp_state.splits)

lemma ctcp_do_ok:
  assumes "ctcp_ok self" "ctcp_enabled self s" "knows (ct_base self) nw" "refuses k"
  shows "good self (ctcp_do nw env k s self)"
proof (cases s)
  case C_task
  then obtain t ts where "us_tasks (cn_usock (ct_conn self)) = t # ts"
    using assms(2) by (auto simp: ctcp_enabled_def quiet_def neq_Nil_conv)
  then show ?thesis using ctcp_task_ok [OF assms(1)] assms(2) C_task by (simp add: ctcp_do_def ctcp_enabled_def quiet_def)
next
  case (C_retry src)
  then obtain e tm where "nn_timer_feed src (retry_timer self) = Some (e, tm)" using assms(2) by (auto simp: ctcp_enabled_def)
  then show ?thesis using ctcp_retry_ok [OF assms(1)] assms(2) C_retry by (simp add: ctcp_do_def ctcp_enabled_def quiet_def)
next
  case (C_header src)
  then show ?thesis using ctcp_at_rest [OF assms(1)] assms(2) timer_off_feed by (simp add: ctcp_enabled_def at_rest_def)
next
  case (C_send m)
  then show ?thesis using ctcp_at_rest [OF assms(1)] assms(2) by (simp add: ctcp_enabled_def at_rest_def)
next
  case C_recv
  then show ?thesis using ctcp_at_rest [OF assms(1)] assms(2) by (simp add: ctcp_enabled_def at_rest_def)
qed (use ctcp_process_ok [OF assms(1) _ assms(3,4)] ctcp_conn_ok [OF assms(1)] ctcp_fd_ok [OF assms(1) _ _ assms(4)] ctcp_stop_ok [OF assms(1)]
  assms(2) in \<open>auto simp: ctcp_do_def ctcp_enabled_def quiet_def Let_def\<close>)

section \<open>Reachable states\<close>

lemma port_loop_nonzero: "port_loop r cs \<noteq> 0 \<and> (0 \<le> r \<longrightarrow> port_loop r cs < 0 \<or> 0 < port_loop r cs)"
  by (induction r cs rule: port_loop.induct) (auto simp: EINVAL_opt_def Let_def)

lemma ctcp_create_ok:
  assumes "nn_ctcp_create nw addr opts = Some (Inr self)" "knows (epbase_init addr opts) nw" "bo_ok (endpoint_backoff opts)"
  shows "ctcp_ok self \<and> eb_addr (ct_base self) = addr \<and> eb_opts (ct_base self) = opts"
proof -
  let ?i = "ctcp_init addr opts"
  obtain rc s where s: "ctcp_check nw (ipv4only (epbase_init addr opts)) addr = Some rc" "nn_ctcp_start_resolving nw ?i = Some s"
      "self = s\<lparr>ct_fsm := FSM_ACTIVE\<rparr>" "\<not> rc < 0"
    using assms(1) by (auto simp: nn_ctcp_create_def split: option.splits if_splits)
  have "58 \<in> set addr" "\<not> nn_port_resolve (after_last 58 addr) < 0"
    using s(1,4) by (auto simp: ctcp_check_def Let_def EINVAL_opt_def split: if_splits)
  then have a: "addr_ok (epbase_init addr opts)"
    using port_loop_nonzero [of 0 "after_last 58 addr"] by (auto simp: addr_ok_def epbase_init_def nn_port_resolve_def)
  have "ctcp_ok (s\<lparr>ct_fsm := FSM_ACTIVE\<rparr>) \<and> same_base ?i s"
    by (rule ctcp_resolve_ok [of ?i nw])
      (use s(2) assms(2,3) a in \<open>auto simp: ctcp_init_def endpoint_backoff_def nn_backoff_init_def nn_timer_init_def timer_off_def cp_idle_def
         at_rest_def conn_init_def u_idle_def nn_usock_init_def dns_off_def nn_dns_init_def epbase_init_def Let_def\<close>)
  then show ?thesis using s(3) by (simp add: same_base_def ctcp_init_def epbase_init_def)
qed

text \<open>What an endpoint can come to while its peer cannot be reached; the system may answer differently each time.\<close>

inductive ctcp_reach :: "bytes \<Rightarrow> sockopts \<Rightarrow> ctcp \<Rightarrow> bool" for addr opts where
  reach_create: "nn_ctcp_create nw addr opts = Some (Inr self) \<Longrightarrow> knows (epbase_init addr opts) nw \<Longrightarrow> ctcp_reach addr opts self"
| reach_do: "ctcp_reach addr opts self \<Longrightarrow> ctcp_enabled self s \<Longrightarrow> knows (epbase_init addr opts) nw \<Longrightarrow> refuses k \<Longrightarrow>
    ctcp_do nw env k s self = Some self' \<Longrightarrow> ctcp_reach addr opts self'"

lemma knows_cong: "eb_addr b = eb_addr b' \<Longrightarrow> eb_opts b = eb_opts b' \<Longrightarrow> knows b = knows b'"
  by (simp add: knows_def ipv4only_def fun_eq_iff)

lemma ctcp_reach_ok:
  "ctcp_reach addr opts self \<Longrightarrow> bo_ok (endpoint_backoff opts) \<Longrightarrow>
     ctcp_ok self \<and> eb_addr (ct_base self) = addr \<and> eb_opts (ct_base self) = opts"
proof (induction rule: ctcp_reach.induct)
  case (reach_do self s nw k env self')
  then have ok: "ctcp_ok self" "eb_addr (ct_base self) = addr" "eb_opts (ct_base self) = opts" by auto
  then have "knows (ct_base self) nw" using reach_do(3) knows_cong [of "ct_base self" "epbase_init addr opts"] by (simp add: epbase_init_def)
  from ctcp_do_ok [OF ok(1) reach_do(2) this reach_do(4), of env] show ?case using reach_do(5) ok(2,3) by (auto simp: good_def same_base_def)
qed (use ctcp_create_ok in auto)

lemma closed_destroy: "ctcp_ok self \<Longrightarrow> eb_stopped (ct_base self) \<Longrightarrow> nn_ctcp_destroy self = Some ()"
  by (auto simp: ctcp_ok_def opening_phase_def closing_phase_def closed_phase_def nn_ctcp_destroy_def dns_off_def cp_idle_def u_idle_def at_rest_def
      conn_term_ok_def nn_timer_isidle_def timer_off_def split: fsm_state.splits)

text \<open>How much is left to do until the endpoint has stopped.\<close>

definition close_work :: "ctcp \<Rightarrow> nat" where
  "close_work self =
     2 * length (us_tasks (cn_usock (ct_conn self))) + length (cn_events (ct_conn self)) + length (ct_events self) +
     (if timer_stopping (retry_timer self) then 2 else 0)"

text \<open>Closing: what the threads have to do, each of which makes the work less.\<close>

definition closing_steps :: "ctcp_step set" where
  "closing_steps = {C_process, C_conn, C_task, C_retry TIMER_STOP_TASK}"

lemma closing_some:
  assumes "ctcp_ok self" "ct_fsm self = FSM_STOPPING"
  shows "\<exists>s \<in> closing_steps. ctcp_enabled self s"
proof -
  have "closing_phase self" using assms by (simp add: ctcp_ok_def)
  then show ?thesis
    by (auto simp: closing_phase_def closing_steps_def ctcp_enabled_def quiet_def cp_defs u_stopping_def timer_stopping_def
        nn_timer_feed_def nn_timer_shutdown_def Let_def)
qed

lemma closing_task:
  assumes "u_stopping u" "us_raised u = []" "us_tasks u = t # ts" "usock_only (usock_feed k (Task t) (u\<lparr>us_tasks := ts\<rparr>)) = Some u'"
  shows "2 * length (us_tasks u') + length (us_raised u') < 2 * length (us_tasks u)"
  using assms by (auto simp: u_defs usock_calls split: if_splits)

lemma closing_less:
  assumes "ctcp_ok self" "ct_fsm self = FSM_STOPPING" "ctcp_enabled self s" "s \<in> closing_steps" "ctcp_do nw env k s self = Some self'"
  shows "close_work self' < close_work self"
proof -
  have ph: "closing_phase self" using assms by (simp add: ctcp_ok_def)
  consider (p) "s = C_process" | (c) "s = C_conn" | (t) "s = C_task" | (r) "s = C_retry TIMER_STOP_TASK"
    using assms(4) by (auto simp: closing_steps_def)
  then show ?thesis
  proof cases
    case p
    then show ?thesis using assms(2,3,5) ph
      by (auto simp: ctcp_enabled_def closing_phase_def ctcp_do_def ctcp_process_def ctcp_feed_def nn_ctcp_shutdown_def ctcp_stopping_def
          close_work_def Let_def split: if_splits)
  next
    case c
    then have "cn_up (ct_conn self) = []" using ctcp_at_rest [OF assms(1)] by (simp add: at_rest_def)
    then show ?thesis using c assms(2,3,5) ph
      by (auto simp: ctcp_enabled_def closing_phase_def cp_defs ctcp_do_def ctcp_process_conn_def conn_process_def conn_dispatch_def up_input_def
          ctcp_feed_def nn_ctcp_shutdown_def ctcp_stopping_def close_work_def Let_def split: if_splits)
  next
    case t
    let ?u = "cn_usock (ct_conn self)"
    obtain a ts where a: "us_tasks ?u = a # ts" "cn_events (ct_conn self) = []"
      using assms(3) t by (auto simp: ctcp_enabled_def quiet_def neq_Nil_conv)
    have st: "u_stopping ?u" "us_raised ?u = []"
      using ph a by (auto simp: closing_phase_def cp_defs u_idle_def at_rest_def)
    obtain u where u: "usock_only (usock_feed k (Task a) (?u\<lparr>us_tasks := ts\<rparr>)) = Some u" "us_raised u = [] \<or> us_raised u = [USOCK_STOPPED]"
      using u_stopping_task [OF st a(1)] by blast
    have "us_do (\<lambda>u. usock_only (usock_feed k (Task a) (u\<lparr>us_tasks := ts\<rparr>))) (ct_conn self) =
        Some ((ct_conn self)\<lparr>cn_usock := u\<lparr>us_raised := []\<rparr>, cn_events := map (Us Own_ep) (us_raised u)\<rparr>)"
      using us_do_rest [OF ctcp_at_rest [OF assms(1)], of "\<lambda>u. usock_only (usock_feed k (Task a) (u\<lparr>us_tasks := ts\<rparr>))" u USOCK_STOPPED] u a(2)
      by simp
    then have "self' = self\<lparr>ct_conn := (ct_conn self)\<lparr>cn_usock := u\<lparr>us_raised := []\<rparr>, cn_events := map (Us Own_ep) (us_raised u)\<rparr>\<rparr>"
      using assms(5) t a(1) by (simp add: ctcp_do_def ct_on_conn_def conn_task_def)
    then show ?thesis using closing_task [OF st a(1) u(1)] a(2) by (simp add: close_work_def)
  next
    case r
    with assms(3) obtain e tm where f: "nn_timer_feed TIMER_STOP_TASK (retry_timer self) = Some (e, tm)" by (auto simp: ctcp_enabled_def)
    have "timer_stopping (retry_timer self)"
      using ph f timer_off_feed [of "retry_timer self"] by (auto simp: closing_phase_def)
    then show ?thesis using r assms(5) f
      by (auto simp: ctcp_do_def ctcp_retry_timer_def ctcp_raise_def close_work_def timer_stopping_def nn_timer_feed_def nn_timer_shutdown_def Let_def
          split: if_splits)
  qed
qed

text \<open>The others may come in between; they leave the work as it is.\<close>

lemma closing_other:
  assumes "ctcp_ok self" "ct_fsm self = FSM_STOPPING" "ctcp_enabled self s" "s \<notin> closing_steps" "ctcp_do nw env k s self = Some self'"
  shows "close_work self' = close_work self"
proof (cases s)
  case (C_fd ev)
  let ?u = "cn_usock (ct_conn self)"
  have "closing_phase self" using assms by (simp add: ctcp_ok_def)
  then have st: "u_stopping ?u" "us_raised ?u = []" "ev = Fd_out \<or> ev = Fd_in \<or> ev = Fd_err" "cn_events (ct_conn self) = []"
    using assms(3) C_fd by (auto simp: ctcp_enabled_def quiet_def closing_phase_def cp_defs u_idle_def at_rest_def Let_def)
  have "us_do (\<lambda>u. usock_only (usock_feed k ev u)) (ct_conn self) = Some ((ct_conn self)\<lparr>cn_usock := ?u\<lparr>us_raised := []\<rparr>, cn_events := []\<rparr>)"
    using us_do_rest [OF ctcp_at_rest [OF assms(1)], of "\<lambda>u. usock_only (usock_feed k ev u)" ?u USOCK_STOPPED] u_stopping_fd [OF st(1,3)] st(2,4)
    by simp
  then show ?thesis using assms(5) C_fd st(4) by (auto simp: ctcp_do_def ct_on_conn_def conn_fd_def close_work_def)
next
  case (C_retry src)
  then obtain e tm where f: "nn_timer_feed src (retry_timer self) = Some (e, tm)" "src \<noteq> TIMER_STOP_TASK"
    using assms(3,4) by (auto simp: ctcp_enabled_def closing_steps_def)
  have "closing_phase self" using assms by (simp add: ctcp_ok_def)
  then have "timer_stopping (retry_timer self)" using f(1) timer_off_feed [of "retry_timer self"] by (auto simp: closing_phase_def)
  then show ?thesis using C_retry assms(5) f
    by (auto simp: ctcp_do_def ctcp_retry_timer_def close_work_def timer_stopping_def nn_timer_feed_def nn_timer_shutdown_def Let_def
        split: if_splits)
next
  case (C_header src)
  then show ?thesis using ctcp_at_rest [OF assms(1)] assms(3) timer_off_feed by (simp add: ctcp_enabled_def at_rest_def)
next
  case (C_send m)
  then show ?thesis using ctcp_at_rest [OF assms(1)] assms(3) by (simp add: ctcp_enabled_def at_rest_def)
next
  case C_recv
  then show ?thesis using ctcp_at_rest [OF assms(1)] assms(3) by (simp add: ctcp_enabled_def at_rest_def)
qed (use assms in \<open>auto simp: ctcp_do_def nn_ctcp_stop_def closing_steps_def\<close>)

lemma closing_stays:
  assumes "ct_fsm self = FSM_STOPPING" "ctcp_ok self" "ctcp_enabled self s" "ctcp_do nw env k s self = Some self'" "ctcp_ok self'"
  shows "ct_fsm self' = FSM_STOPPING \<or> eb_stopped (ct_base self')"
proof -
  have stop: "ct_fsm s' = ct_fsm s \<or> ct_fsm s' = FSM_IDLE" if "ctcp_stopping s = Some s'" for s s'
    using that by (auto simp: ctcp_stopping_def split: if_splits)
  have shut: "ct_fsm s' \<noteq> FSM_ACTIVE" if "ct_fsm s = FSM_STOPPING" "ct_state s = CTCP_STOPPING" "ctcp_feed nw env k e s = Some s'" for e s s'
    using that stop [of s s'] by (auto simp: ctcp_feed_def nn_ctcp_shutdown_def)
  have "ct_state self = CTCP_STOPPING" using assms(1,2) by (simp add: ctcp_ok_def closing_phase_def)
  then have "ct_fsm self' \<noteq> FSM_ACTIVE" using assms(1,4)
    by (cases s) (auto dest: shut [rotated 2] simp: ctcp_do_def ctcp_process_def ctcp_process_conn_def ct_on_conn_def ctcp_retry_timer_def ctcp_raise_def nn_ctcp_stop_def
      Let_def split: list.splits option.splits if_splits)
  then show ?thesis using assms(5) by (cases "ct_fsm self'") (simp_all add: ctcp_ok_def closed_phase_def)
qed

end
