(* ===== verification/Nn_Bound.thy ===== *)
theory Nn_Bound
  imports Nn_Endpoint "HOL-Library.AList"
begin

text \<open>
  The endpoints that are bound: \<open>transports/tcp/btcp.c\<close> with the connections it accepts, \<open>atcp.c\<close>, and \<open>ipc/bipc.c\<close> with \<open>aipc.c\<close>.

  The listening socket belongs to the endpoint, or to the connection that waits to be accepted, which is the one the listener's events then go to. The
  connections are numbered; each has the queue of its own events, and the endpoint one for the events of the listener, of the connections' state machines
  and of the timer. The queues may be processed in any order.
\<close>

section \<open>A connection that is accepted\<close>

datatype atcp_state =
    ATCP_IDLE | ATCP_ACCEPTING | ATCP_ACTIVE | ATCP_STOPPING_STCP | ATCP_STOPPING_USOCK | ATCP_DONE | ATCP_STOPPING_STCP_FINAL | ATCP_STOPPING

datatype atcp_event = ATCP_ACCEPTED | ATCP_ERROR | ATCP_STOPPED

datatype atcp_input = A_usock usock_event | A_session stcp_event | A_listener usock_event

text \<open>\<open>at_listener\<close> says whether the connection has the listening socket.\<close>

record atcp =
  at_fsm :: fsm_state
  at_state :: atcp_state
  at_conn :: conn
  at_listener :: bool

text \<open>The events of the endpoint: from the listener, with the connection it belonged to, if it did, when it was raised; from a connection by its number; from the timer.\<close>

datatype btcp_event = Lst "nat option" usock_event | Acp nat atcp_event | Rt timer_event

datatype btcp_state =
    BTCP_IDLE | BTCP_ACTIVE | BTCP_STOPPING_ATCP | BTCP_STOPPING_USOCK | BTCP_STOPPING_ATCPS | BTCP_LISTENING | BTCP_WAITING | BTCP_CLOSING |
    BTCP_STOPPING_BACKOFF

text \<open>\<open>bt_atcp\<close> is the connection being accepted, \<open>bt_atcps\<close> the list of those that have been; what they are is in \<open>bt_all\<close>, by their numbers.\<close>

record btcp =
  bt_fsm :: fsm_state
  bt_state :: btcp_state
  bt_base :: epbase
  bt_usock :: usock
  bt_atcp :: "nat option"
  bt_atcps :: "nat list"
  bt_all :: "(nat \<times> atcp) list"
  bt_next :: nat
  bt_retry :: backoff
  bt_events :: "btcp_event list"

text \<open>Events that share an event object.\<close>

fun btcp_object :: "btcp_event \<Rightarrow> nat \<times> nat \<times> nat" where
  "btcp_object (Lst ow e) = (0, 0, usock_object e)"
| "btcp_object (Acp i e) = (1, i, case e of ATCP_ACCEPTED \<Rightarrow> 0 | ATCP_ERROR \<Rightarrow> 1 | ATCP_STOPPED \<Rightarrow> 2)"
| "btcp_object (Rt e) = (2, 0, if e = TIMER_STOPPED then 1 else 0)"

definition btcp_raise :: "btcp_event \<Rightarrow> btcp \<Rightarrow> btcp option" where
  "btcp_raise ev self =
     (if btcp_object ev \<in> btcp_object ` set (bt_events self) then None else Some (self\<lparr>bt_events := bt_events self @ [ev]\<rparr>))"

fun btcp_raise_all :: "btcp_event list \<Rightarrow> btcp \<Rightarrow> btcp option" where
  "btcp_raise_all [] self = Some self"
| "btcp_raise_all (ev # evs) self = Option.bind (btcp_raise ev self) (btcp_raise_all evs)"

definition bt_on_base :: "(epbase \<Rightarrow> epbase option) \<Rightarrow> btcp \<Rightarrow> btcp option" where
  "bt_on_base f self = map_option (\<lambda>b. self\<lparr>bt_base := b\<rparr>) (f (bt_base self))"

definition get_atcp :: "nat \<Rightarrow> btcp \<Rightarrow> atcp option" where
  "get_atcp i self = map_of (bt_all self) i"

definition put_atcp :: "nat \<Rightarrow> atcp \<Rightarrow> btcp \<Rightarrow> btcp" where
  "put_atcp i a self = self\<lparr>bt_all := AList.update i a (bt_all self)\<rparr>"

text \<open>The connection that has the listener.\<close>

definition listener_of :: "btcp \<Rightarrow> nat option" where
  "listener_of self = map_option fst (find (\<lambda>(i, a). at_listener a) (bt_all self))"

text \<open>A call of the listening socket.\<close>

definition lst_do :: "(usock \<Rightarrow> usock option) \<Rightarrow> btcp \<Rightarrow> btcp option" where
  "lst_do f self =
     (case f (bt_usock self) of
        None \<Rightarrow> None
      | Some u \<Rightarrow> btcp_raise_all (map (Lst (listener_of self)) (us_raised u)) (self\<lparr>bt_usock := u\<lparr>us_raised := []\<rparr>\<rparr>))"

text \<open>What is done with the connection of an accepted one.\<close>

definition at_on_conn :: "nat \<Rightarrow> (conn \<Rightarrow> conn option) \<Rightarrow> btcp \<Rightarrow> btcp option" where
  "at_on_conn i f self =
     (case get_atcp i self of
        None \<Rightarrow> None
      | Some a \<Rightarrow> map_option (\<lambda>c. put_atcp i (a\<lparr>at_conn := c\<rparr>) self) (f (at_conn a)))"

definition at_set :: "nat \<Rightarrow> (atcp \<Rightarrow> atcp) \<Rightarrow> btcp \<Rightarrow> btcp" where
  "at_set i f self = (case get_atcp i self of None \<Rightarrow> self | Some a \<Rightarrow> put_atcp i (f a) self)"

text \<open>What one of two paired sockets does to the other.\<close>

definition at_usock_stop :: "kernel \<Rightarrow> nat \<Rightarrow> btcp \<Rightarrow> btcp option" where
  "at_usock_stop k i self =
     (case get_atcp i self of
        None \<Rightarrow> None
      | Some a \<Rightarrow>
          (case nn_usock_stop (cn_usock (at_conn a)) of
             None \<Rightarrow> None
           | Some (u, p) \<Rightarrow>
               Option.bind (at_on_conn i (us_do (\<lambda>_. Some u)) self) (\<lambda>self.
                 case p of None \<Rightarrow> Some self | Some c \<Rightarrow> lst_do (partner_do k c) self)))"

definition at_usock_accept :: "kernel \<Rightarrow> nat \<Rightarrow> btcp \<Rightarrow> btcp option" where
  "at_usock_accept k i self =
     (case get_atcp i self of
        None \<Rightarrow> None
      | Some a \<Rightarrow>
          if us_fsm (cn_usock (at_conn a)) = FSM_IDLE \<and> \<not> conn_usock_isidle (at_conn a) then None
          else case nn_usock_accept k (cn_usock (at_conn a)) (bt_usock self) of
            None \<Rightarrow> None
          | Some (u, l) \<Rightarrow> Option.bind (at_on_conn i (us_do (\<lambda>_. Some u)) self) (lst_do (\<lambda>_. Some l)))"

definition at_isidle :: "nat \<Rightarrow> btcp \<Rightarrow> bool" where
  "at_isidle i self \<longleftrightarrow> (case get_atcp i self of None \<Rightarrow> False | Some a \<Rightarrow> at_fsm a = FSM_IDLE) \<and> Acp i ATCP_STOPPED \<notin> set (bt_events self)"

section \<open>Its state machine\<close>

definition atcp_accepting :: "stream_env \<Rightarrow> kernel \<Rightarrow> nat \<Rightarrow> atcp_input \<Rightarrow> btcp \<Rightarrow> btcp option" where
  "atcp_accepting env k i ev self =
     (if ev = A_usock USOCK_ACCEPTED then
        Option.bind (bt_on_base nn_epbase_clear_error self) (\<lambda>self.
        Option.bind (at_on_conn i (\<lambda>c. if nn_usock_setsockopt k (cn_usock c) = None then None else Some c) self) (\<lambda>self.
        Option.bind (btcp_raise (Acp i ATCP_ACCEPTED) (at_set i (\<lambda>a. a\<lparr>at_listener := False\<rparr>) self)) (\<lambda>self.
        Option.bind (at_on_conn i (us_do (nn_usock_activate k)) self) (\<lambda>self.
        Option.bind (at_on_conn i (stream_start env k) self) (\<lambda>self.
        bt_on_base (nn_epbase_stat_increment ACCEPTED_CONNECTIONS 1) (at_set i (\<lambda>a. a\<lparr>at_state := ATCP_ACTIVE\<rparr>) self))))))
      else if ev = A_listener USOCK_ACCEPT_ERROR then
        Option.bind (bt_on_base (nn_epbase_set_error (us_errnum (bt_usock self))) self) (\<lambda>self.
        Option.bind (bt_on_base (nn_epbase_stat_increment ACCEPT_ERRORS 1) self) (at_usock_accept k i))
      else None)"

definition nn_atcp_handler :: "stream_env \<Rightarrow> kernel \<Rightarrow> nat \<Rightarrow> atcp_input \<Rightarrow> btcp \<Rightarrow> btcp option" where
  "nn_atcp_handler env k i ev self =
     (case get_atcp i self of
        None \<Rightarrow> None
      | Some atcp \<Rightarrow>
          (case at_state atcp of
             ATCP_ACCEPTING \<Rightarrow> atcp_accepting env k i ev self
           | ATCP_ACTIVE \<Rightarrow>
               if ev = A_session STCP_ERROR then
                 Option.bind (at_on_conn i stream_stop self) (\<lambda>self.
                 bt_on_base (nn_epbase_stat_increment BROKEN_CONNECTIONS 1) (at_set i (\<lambda>a. a\<lparr>at_state := ATCP_STOPPING_STCP\<rparr>) self))
               else None
           | ATCP_STOPPING_STCP \<Rightarrow>
               if ev = A_session STCP_STOPPED
               then map_option (at_set i (\<lambda>a. a\<lparr>at_state := ATCP_STOPPING_USOCK\<rparr>)) (at_usock_stop k i self) else None
           | ATCP_STOPPING_USOCK \<Rightarrow>
               if ev = A_usock USOCK_SHUTDOWN then Some self
               else if ev = A_usock USOCK_STOPPED
               then map_option (at_set i (\<lambda>a. a\<lparr>at_state := ATCP_DONE\<rparr>)) (btcp_raise (Acp i ATCP_ERROR) self) else None
           | _ \<Rightarrow> None))"

text \<open>The rest of \<open>nn_atcp_shutdown\<close>, from the state \<open>STOPPING\<close> and from \<open>STOPPING_STCP_FINAL\<close> on.\<close>

definition atcp_stopping :: "nat \<Rightarrow> btcp \<Rightarrow> btcp option" where
  "atcp_stopping i self =
     (case get_atcp i self of
        None \<Rightarrow> None
      | Some atcp \<Rightarrow>
          if at_state atcp \<noteq> ATCP_STOPPING then None
          else if \<not> conn_usock_isidle (at_conn atcp) then Some self
          else if at_fsm atcp \<noteq> FSM_STOPPING then None
          else btcp_raise (Acp i ATCP_STOPPED)
            (put_atcp i (atcp\<lparr>at_listener := False, at_state := ATCP_IDLE, at_fsm := FSM_IDLE\<rparr>) self))"

definition nn_atcp_shutdown :: "kernel \<Rightarrow> nat \<Rightarrow> btcp \<Rightarrow> btcp option" where
  "nn_atcp_shutdown k i self =
     (case get_atcp i self of
        None \<Rightarrow> None
      | Some atcp \<Rightarrow>
          if at_state atcp = ATCP_STOPPING_STCP_FINAL then
            if \<not> nn_stcp_isidle (at_conn atcp) then Some self
            else Option.bind (at_usock_stop k i self) (\<lambda>self. atcp_stopping i (at_set i (\<lambda>a. a\<lparr>at_state := ATCP_STOPPING\<rparr>) self))
          else atcp_stopping i self)"

definition nn_atcp_stop :: "kernel \<Rightarrow> nat \<Rightarrow> btcp \<Rightarrow> btcp option" where
  "nn_atcp_stop k i self0 =
     (case get_atcp i self0 of
        None \<Rightarrow> None
      | Some atcp \<Rightarrow>
          if at_fsm atcp \<noteq> FSM_ACTIVE then Some self0
          else let self = at_set i (\<lambda>a. a\<lparr>at_fsm := FSM_STOPPING\<rparr>) self0 in
            Option.bind
              (if nn_stcp_isidle (at_conn atcp) then Some self
               else Option.bind (bt_on_base (nn_epbase_stat_increment DROPPED_CONNECTIONS 1) self) (at_on_conn i stream_stop))
              (\<lambda>self. nn_atcp_shutdown k i (at_set i (\<lambda>a. a\<lparr>at_state := ATCP_STOPPING_STCP_FINAL\<rparr>) self)))"

definition atcp_feed :: "stream_env \<Rightarrow> kernel \<Rightarrow> nat \<Rightarrow> atcp_input \<Rightarrow> btcp \<Rightarrow> btcp option" where
  "atcp_feed env k i ev self =
     (case get_atcp i self of
        None \<Rightarrow> None
      | Some atcp \<Rightarrow> if at_fsm atcp \<noteq> FSM_STOPPING then nn_atcp_handler env k i ev self else nn_atcp_shutdown k i self)"

definition nn_atcp_init :: "sockopts \<Rightarrow> atcp" where
  "nn_atcp_init opts =
     \<lparr>at_fsm = FSM_IDLE, at_state = ATCP_IDLE, at_conn = conn_init nn_usock_init (nat (so_sndprio opts)) (nat (so_rcvprio opts)),
      at_listener = False\<rparr>"

text \<open>Starting takes the listener over.\<close>

definition nn_atcp_start :: "kernel \<Rightarrow> nat \<Rightarrow> btcp \<Rightarrow> btcp option" where
  "nn_atcp_start k i self =
     (case get_atcp i self of
        None \<Rightarrow> None
      | Some atcp \<Rightarrow>
          if at_state atcp \<noteq> ATCP_IDLE \<or> \<not> at_isidle i self then None
          else map_option (at_set i (\<lambda>a. a\<lparr>at_state := ATCP_ACCEPTING, at_fsm := FSM_ACTIVE\<rparr>))
            (at_usock_accept k i (at_set i (\<lambda>a. a\<lparr>at_listener := True\<rparr>) self)))"

text \<open>Terminating a connection, and forgetting it.\<close>

definition nn_atcp_term :: "nat \<Rightarrow> btcp \<Rightarrow> btcp option" where
  "nn_atcp_term i self =
     (case get_atcp i self of
        None \<Rightarrow> None
      | Some atcp \<Rightarrow>
          if at_state atcp \<noteq> ATCP_IDLE \<or> at_fsm atcp \<noteq> FSM_IDLE \<or> (\<exists>e \<in> {ATCP_ACCEPTED, ATCP_ERROR, ATCP_STOPPED}. Acp i e \<in> set (bt_events self)) \<or>
            \<not> conn_term_ok (at_conn atcp) then None
          else Some (self\<lparr>bt_all := AList.delete i (bt_all self)\<rparr>))"

section \<open>The endpoint\<close>

definition lst_isidle :: "btcp \<Rightarrow> bool" where
  "lst_isidle self \<longleftrightarrow> us_fsm (bt_usock self) = FSM_IDLE \<and>
     list_all (\<lambda>ev. case ev of Lst ow e \<Rightarrow> e \<noteq> USOCK_STOPPED | _ \<Rightarrow> True) (bt_events self)"

definition btcp_wait :: "btcp \<Rightarrow> btcp option" where
  "btcp_wait self =
     (if Rt TIMER_STOPPED \<in> set (bt_events self) then None
      else map_option (\<lambda>b. self\<lparr>bt_retry := b, bt_state := BTCP_WAITING\<rparr>) (nn_backoff_start (bt_retry self)))"

definition nn_btcp_start_accepting :: "kernel \<Rightarrow> btcp \<Rightarrow> btcp option" where
  "nn_btcp_start_accepting k self =
     (if bt_atcp self \<noteq> None then None
      else let i = bt_next self in
        nn_atcp_start k i (put_atcp i (nn_atcp_init (eb_opts (bt_base self))) (self\<lparr>bt_atcp := Some i, bt_next := i + 1\<rparr>)))"

text \<open>From the start of the socket on; TCP and IPC have this part in common.\<close>

definition btcp_listen :: "kernel \<Rightarrow> btcp \<Rightarrow> btcp option" where
  "btcp_listen k self =
     (if kn_socket k = None \<and> \<not> lst_isidle self then None
      else case nn_usock_start k (bt_usock self) of
        None \<Rightarrow> None
      | Some (rc, u) \<Rightarrow>
          if rc < 0 then btcp_wait self
          else case lst_do (\<lambda>_. Some u) self of
            None \<Rightarrow> None
          | Some self \<Rightarrow>
              (case nn_usock_bind k (bt_usock self) of
                 None \<Rightarrow> None
               | Some rc \<Rightarrow>
                   if rc < 0
                   then map_option (\<lambda>self. self\<lparr>bt_state := BTCP_CLOSING\<rparr>) (lst_do (\<lambda>u. usock_only (nn_usock_stop u)) self)
                   else case nn_usock_listen k (bt_usock self) of
                     None \<Rightarrow> None
                   | Some (rc, u) \<Rightarrow>
                       if rc < 0
                       then map_option (\<lambda>self. self\<lparr>bt_state := BTCP_CLOSING\<rparr>) (lst_do (\<lambda>u. usock_only (nn_usock_stop u)) self)
                       else Option.bind (lst_do (\<lambda>_. Some u) self) (\<lambda>self.
                         map_option (\<lambda>self. self\<lparr>bt_state := BTCP_ACTIVE\<rparr>) (nn_btcp_start_accepting k self))))"

definition nn_btcp_start_listening :: "network \<Rightarrow> kernel \<Rightarrow> btcp \<Rightarrow> btcp option" where
  "nn_btcp_start_listening nw k self =
     (let addr = eb_addr (bt_base self) in
      if 58 \<notin> set addr \<or> \<not> nn_port_resolve (after_last 58 addr) \<ge> 0 then None
      else case nn_iface_resolve nw (before_last 58 addr) (ipv4only (bt_base self)) of
        Some (Inr ss) \<Rightarrow> if ss = In_other then None else btcp_listen k self
      | _ \<Rightarrow> None)"

text \<open>
  Over IPC the file that an earlier run may have left is removed first, if nobody listens on it. The result of \<open>connect\<close> on it is \<open>stale\<close>, an error or
  nothing, and that of \<open>unlink\<close> is \<open>unlinked\<close>.
\<close>

record ipc_probe =
  stale :: "int option"
  unlinked :: "int option"

definition ENOENT_nn :: int where "ENOENT_nn = 2"

definition nn_bipc_start_listening :: "ipc_probe \<Rightarrow> kernel \<Rightarrow> btcp \<Rightarrow> btcp option" where
  "nn_bipc_start_listening pr k self =
     (if \<not> length (eb_addr (bt_base self)) < SUN_PATH then None
      else if kn_socket k = None \<and> stale pr = Some ECONNREFUSED \<and> unlinked pr \<noteq> None \<and> unlinked pr \<noteq> Some ENOENT_nn then None
      else btcp_listen k self)"

text \<open>The state machine; \<open>listen\<close> is the function that starts listening.\<close>

definition btcp_active :: "kernel \<Rightarrow> btcp_event \<Rightarrow> btcp \<Rightarrow> btcp option" where
  "btcp_active k ev btcp =
     (case ev of
        Acp i type \<Rightarrow>
          if bt_atcp btcp = Some i then
            if type = ATCP_ACCEPTED
            then nn_btcp_start_accepting k (btcp\<lparr>bt_atcps := bt_atcps btcp @ [i], bt_atcp := None\<rparr>) else None
          else (case type of
              ATCP_ERROR \<Rightarrow> nn_atcp_stop k i btcp
            | ATCP_STOPPED \<Rightarrow>
                if i \<notin> set (bt_atcps btcp) then None else nn_atcp_term i (btcp\<lparr>bt_atcps := remove1 i (bt_atcps btcp)\<rparr>)
            | _ \<Rightarrow> None)
      | _ \<Rightarrow> None)"

definition nn_btcp_handler :: "(btcp \<Rightarrow> btcp option) \<Rightarrow> kernel \<Rightarrow> btcp_event \<Rightarrow> btcp \<Rightarrow> btcp option" where
  "nn_btcp_handler listen k ev btcp =
     (case bt_state btcp of
        BTCP_ACTIVE \<Rightarrow> btcp_active k ev btcp
      | BTCP_CLOSING \<Rightarrow>
          if ev = Lst None USOCK_SHUTDOWN then Some btcp
          else if ev = Lst None USOCK_STOPPED then btcp_wait btcp
          else None
      | BTCP_WAITING \<Rightarrow>
          if ev = Rt TIMER_TIMEOUT
          then Some (btcp\<lparr>bt_retry := nn_backoff_stop (bt_retry btcp), bt_state := BTCP_STOPPING_BACKOFF\<rparr>) else None
      | BTCP_STOPPING_BACKOFF \<Rightarrow> if ev = Rt TIMER_STOPPED then listen btcp else None
      | _ \<Rightarrow> None)"

text \<open>The label \<open>atcps_stopping\<close>.\<close>

definition atcps_stopping :: "btcp \<Rightarrow> btcp option" where
  "atcps_stopping btcp =
     (if bt_atcps btcp \<noteq> [] then Some btcp
      else if bt_fsm btcp \<noteq> FSM_STOPPING then None
      else Some (btcp\<lparr>bt_state := BTCP_IDLE, bt_fsm := FSM_IDLE, bt_base := nn_epbase_stopped (bt_base btcp)\<rparr>))"

fun stop_atcps :: "kernel \<Rightarrow> nat list \<Rightarrow> btcp \<Rightarrow> btcp option" where
  "stop_atcps k [] btcp = Some btcp"
| "stop_atcps k (i # it) btcp = Option.bind (nn_atcp_stop k i btcp) (stop_atcps k it)"

definition btcp_stopping_usock :: "kernel \<Rightarrow> btcp \<Rightarrow> btcp option" where
  "btcp_stopping_usock k btcp =
     (if \<not> lst_isidle btcp then Some btcp
      else Option.bind (stop_atcps k (bt_atcps btcp) btcp) (\<lambda>btcp. atcps_stopping (btcp\<lparr>bt_state := BTCP_STOPPING_ATCPS\<rparr>)))"

definition btcp_stopping_atcp :: "kernel \<Rightarrow> btcp \<Rightarrow> btcp option" where
  "btcp_stopping_atcp k btcp =
     (case bt_atcp btcp of
        None \<Rightarrow> None
      | Some i \<Rightarrow>
          if \<not> at_isidle i btcp then Some btcp
          else Option.bind (nn_atcp_term i btcp) (\<lambda>btcp.
            Option.bind (lst_do (\<lambda>u. usock_only (nn_usock_stop u)) (btcp\<lparr>bt_atcp := None\<rparr>)) (\<lambda>btcp.
            btcp_stopping_usock k (btcp\<lparr>bt_state := BTCP_STOPPING_USOCK\<rparr>))))"

definition nn_btcp_shutdown :: "kernel \<Rightarrow> btcp_event \<Rightarrow> btcp \<Rightarrow> btcp option" where
  "nn_btcp_shutdown k ev btcp =
     (case bt_state btcp of
        BTCP_STOPPING_ATCP \<Rightarrow> btcp_stopping_atcp k btcp
      | BTCP_STOPPING_USOCK \<Rightarrow> btcp_stopping_usock k btcp
      | BTCP_STOPPING_ATCPS \<Rightarrow>
          (case ev of
             Acp i ATCP_STOPPED \<Rightarrow>
               if i \<notin> set (bt_atcps btcp) then None
               else Option.bind (nn_atcp_term i (btcp\<lparr>bt_atcps := remove1 i (bt_atcps btcp)\<rparr>)) atcps_stopping
           | _ \<Rightarrow> None)
      | _ \<Rightarrow> None)"

definition nn_btcp_stop :: "kernel \<Rightarrow> btcp \<Rightarrow> btcp option" where
  "nn_btcp_stop k btcp0 =
     (if bt_fsm btcp0 \<noteq> FSM_ACTIVE then Some btcp0
      else let btcp = btcp0\<lparr>bt_fsm := FSM_STOPPING, bt_retry := nn_backoff_stop (bt_retry btcp0)\<rparr> in
        case bt_atcp btcp of
          Some i \<Rightarrow> Option.bind (nn_atcp_stop k i btcp) (\<lambda>btcp. btcp_stopping_atcp k (btcp\<lparr>bt_state := BTCP_STOPPING_ATCP\<rparr>))
        | None \<Rightarrow> btcp_stopping_usock k (btcp\<lparr>bt_state := BTCP_STOPPING_USOCK\<rparr>))"

definition btcp_feed :: "(btcp \<Rightarrow> btcp option) \<Rightarrow> kernel \<Rightarrow> btcp_event \<Rightarrow> btcp \<Rightarrow> btcp option" where
  "btcp_feed listen k ev btcp = (if bt_fsm btcp \<noteq> FSM_STOPPING then nn_btcp_handler listen k ev btcp else nn_btcp_shutdown k ev btcp)"

section \<open>Creating and destroying\<close>

definition btcp_init :: "bytes \<Rightarrow> sockopts \<Rightarrow> btcp" where
  "btcp_init addr opts =
     \<lparr>bt_fsm = FSM_IDLE, bt_state = BTCP_IDLE, bt_base = epbase_init addr opts, bt_usock = nn_usock_init, bt_atcp = None, bt_atcps = [],
      bt_all = [], bt_next = 0, bt_retry = endpoint_backoff opts, bt_events = []\<rparr>"

definition nn_btcp_create :: "network \<Rightarrow> kernel \<Rightarrow> bytes \<Rightarrow> sockopts \<Rightarrow> (int + btcp) option" where
  "nn_btcp_create nw k addr opts =
     (case btcp_check nw (ipv4only (epbase_init addr opts)) addr of
        None \<Rightarrow> None
      | Some rc \<Rightarrow>
          if rc < 0 then Some (Inl rc)
          else map_option (\<lambda>self. Inr (self\<lparr>bt_fsm := FSM_ACTIVE\<rparr>)) (nn_btcp_start_listening nw k (btcp_init addr opts)))"

definition nn_bipc_create :: "ipc_probe \<Rightarrow> kernel \<Rightarrow> bytes \<Rightarrow> sockopts \<Rightarrow> btcp option" where
  "nn_bipc_create pr k addr opts =
     map_option (\<lambda>self. self\<lparr>bt_fsm := FSM_ACTIVE\<rparr>) (nn_bipc_start_listening pr k (btcp_init addr opts))"

definition nn_btcp_destroy :: "btcp \<Rightarrow> unit option" where
  "nn_btcp_destroy self =
     (if bt_state self \<noteq> BTCP_IDLE \<or> bt_atcps self \<noteq> [] \<or> bt_atcp self \<noteq> None then None
      else if us_state (bt_usock self) \<noteq> USOCK_IDLE \<or> us_fsm (bt_usock self) \<noteq> FSM_IDLE \<or> bt_events self \<noteq> [] then None
      else if \<not> nn_timer_isidle (bo_timer (bt_retry self)) then None
      else if bt_fsm self \<noteq> FSM_IDLE then None
      else Some ())"

section \<open>What the threads do\<close>

text \<open>An event of the listener goes to the connection that has it, the others to the endpoint.\<close>

definition btcp_dispatch :: "(btcp \<Rightarrow> btcp option) \<Rightarrow> stream_env \<Rightarrow> kernel \<Rightarrow> btcp_event \<Rightarrow> btcp \<Rightarrow> btcp option" where
  "btcp_dispatch listen env k ev self =
     (case ev of
        Lst (Some i) e \<Rightarrow> atcp_feed env k i (A_listener e) self
      | _ \<Rightarrow> btcp_feed listen k ev self)"

definition btcp_process :: "(btcp \<Rightarrow> btcp option) \<Rightarrow> stream_env \<Rightarrow> kernel \<Rightarrow> btcp \<Rightarrow> btcp option" where
  "btcp_process listen env k self =
     (case bt_events self of [] \<Rightarrow> None | ev # evs \<Rightarrow> btcp_dispatch listen env k ev (self\<lparr>bt_events := evs\<rparr>))"

definition btcp_process_conn :: "stream_env \<Rightarrow> kernel \<Rightarrow> nat \<Rightarrow> btcp \<Rightarrow> btcp option" where
  "btcp_process_conn env k i self =
     (case get_atcp i self of
        None \<Rightarrow> None
      | Some a \<Rightarrow>
          (case conn_process env k (at_conn a) of
             None \<Rightarrow> None
           | Some c \<Rightarrow>
               (case cn_up c of
                  [] \<Rightarrow> Some (put_atcp i (a\<lparr>at_conn := c\<rparr>) self)
                | ev # evs \<Rightarrow>
                    (case ev of
                       Us ow e \<Rightarrow> atcp_feed env k i (A_usock e) (put_atcp i (a\<lparr>at_conn := c\<lparr>cn_up := evs\<rparr>\<rparr>) self)
                     | Ss e \<Rightarrow> atcp_feed env k i (A_session e) (put_atcp i (a\<lparr>at_conn := c\<lparr>cn_up := evs\<rparr>\<rparr>) self)
                     | _ \<Rightarrow> None))))"

definition btcp_timer :: "timer_src \<Rightarrow> btcp \<Rightarrow> btcp option" where
  "btcp_timer src self =
     (case nn_timer_feed src (bo_timer (bt_retry self)) of
        None \<Rightarrow> None
      | Some (ev, tm) \<Rightarrow>
          (let self = self\<lparr>bt_retry := (bt_retry self)\<lparr>bo_timer := tm\<rparr>\<rparr> in
           case ev of None \<Rightarrow> Some self | Some e \<Rightarrow> btcp_raise (Rt e) self))"

text \<open>The tasks and the descriptor of the listening socket, with what they do to the connection that is being accepted.\<close>

definition lst_event :: "kernel \<Rightarrow> (usock \<Rightarrow> (usock \<times> partner_call option) option) \<Rightarrow> btcp \<Rightarrow> btcp option" where
  "lst_event k f self =
     (case f (bt_usock self) of
        None \<Rightarrow> None
      | Some (u, p) \<Rightarrow>
          Option.bind (lst_do (\<lambda>_. Some u) self) (\<lambda>self.
            case (p, bt_atcp self) of
              (None, _) \<Rightarrow> Some self
            | (Some c, Some i) \<Rightarrow> at_on_conn i (us_do (partner_do k c)) self
            | _ \<Rightarrow> None))"

definition lst_task :: "kernel \<Rightarrow> btcp \<Rightarrow> btcp option" where
  "lst_task k self =
     (case us_tasks (bt_usock self) of
        [] \<Rightarrow> None
      | t # ts \<Rightarrow> lst_event k (\<lambda>u. usock_feed k (Task t) (u\<lparr>us_tasks := ts\<rparr>)) self)"

definition lst_fd :: "kernel \<Rightarrow> usock_input \<Rightarrow> btcp \<Rightarrow> btcp option" where
  "lst_fd k ev self = lst_event k (usock_feed k ev) self"

section \<open>IPC\<close>

text \<open>\<open>aipc.c\<close> and \<open>bipc.c\<close> are \<open>atcp.c\<close> and \<open>btcp.c\<close> over the session of \<open>sipc.c\<close>, with another way to start listening.\<close>

definition nn_aipc_isidle :: "nat \<Rightarrow> btcp \<Rightarrow> bool" where "nn_aipc_isidle = at_isidle"
definition nn_aipc_term :: "nat \<Rightarrow> btcp \<Rightarrow> btcp option" where "nn_aipc_term = nn_atcp_term"
definition nn_aipc_start :: "kernel \<Rightarrow> nat \<Rightarrow> btcp \<Rightarrow> btcp option" where "nn_aipc_start = nn_atcp_start"
definition nn_aipc_stop :: "kernel \<Rightarrow> nat \<Rightarrow> btcp \<Rightarrow> btcp option" where "nn_aipc_stop = nn_atcp_stop"
definition nn_aipc_shutdown :: "kernel \<Rightarrow> nat \<Rightarrow> btcp \<Rightarrow> btcp option" where "nn_aipc_shutdown = nn_atcp_shutdown"

definition nn_aipc_handler :: "int \<Rightarrow> kernel \<Rightarrow> nat \<Rightarrow> atcp_input \<Rightarrow> btcp \<Rightarrow> btcp option" where
  "nn_aipc_handler protocol = nn_atcp_handler (ipc_env protocol)"

definition nn_bipc_handler :: "ipc_probe \<Rightarrow> kernel \<Rightarrow> btcp_event \<Rightarrow> btcp \<Rightarrow> btcp option" where
  "nn_bipc_handler pr k = nn_btcp_handler (nn_bipc_start_listening pr k) k"

definition nn_bipc_start_accepting :: "kernel \<Rightarrow> btcp \<Rightarrow> btcp option" where "nn_bipc_start_accepting = nn_btcp_start_accepting"
definition nn_bipc_stop :: "kernel \<Rightarrow> btcp \<Rightarrow> btcp option" where "nn_bipc_stop = nn_btcp_stop"
definition nn_bipc_shutdown :: "kernel \<Rightarrow> btcp_event \<Rightarrow> btcp \<Rightarrow> btcp option" where "nn_bipc_shutdown = nn_btcp_shutdown"
definition nn_bipc_destroy :: "btcp \<Rightarrow> unit option" where "nn_bipc_destroy = nn_btcp_destroy"

end
