(* ===== verification/Nn_Endpoint_Props.thy ===== *)
theory Nn_Endpoint_Props
  imports Nn_Endpoint_Spec Nn_Bound Nn_Stream_Props
begin

text \<open>
  Properties of the endpoints over TCP and IPC: the waits between attempts, that an endpoint without a peer goes on until it is closed and then ends;
  and what goes wrong when a connection is lost or a bound endpoint is closed at the wrong time.
\<close>

section \<open>Ports\<close>

definition decimal :: "bytes \<Rightarrow> int" where
  "decimal s = foldl (\<lambda>r c. r * 10 + (uint c - 48)) 0 s"

definition digits :: "bytes \<Rightarrow> bool" where
  "digits s \<longleftrightarrow> list_all (\<lambda>c. 48 \<le> c \<and> c \<le> 57) s"

lemma digits_grow: "digits s \<Longrightarrow> r > 65535 \<Longrightarrow> foldl (\<lambda>r c. r * 10 + (uint c - 48)) r s > 65535"
proof (induction s arbitrary: r)
  case (Cons c s)
  then have "uint c \<ge> 48" by (simp add: digits_def word_le_def)
  then show ?case using Cons by (simp add: digits_def)
qed simp

lemma port_loop_decimal:
  "0 \<le> r \<Longrightarrow> r \<le> 65535 \<Longrightarrow> port_loop r s =
     (let v = foldl (\<lambda>r c. r * 10 + (uint c - 48)) r s in if digits s \<and> 0 < v \<and> v \<le> 65535 then v else - EINVAL_opt)"
proof (induction s arbitrary: r)
  case (Cons c s)
  show ?case
  proof (cases "48 \<le> c \<and> c \<le> 57")
    case True
    let ?r = "r * 10 + (uint c - 48)"
    have r: "0 \<le> ?r" using True Cons.prems by (simp add: word_le_def)
    have "\<not> (c < 48 \<or> c > 57)" using True by auto
    then show ?thesis using Cons.IH [OF r] digits_grow [of s ?r] True by (cases "?r > 65535") (auto simp: Let_def digits_def)
  next
    case False
    then have "c < 48 \<or> c > 57" by auto
    then show ?thesis by (auto simp: digits_def Let_def)
  qed
qed (simp add: digits_def Let_def)

text \<open>
  C34: A string is taken for a port exactly when it is made of decimal digits and the number is between 1 and 65535; the port is
  then this number. Leading zeros are allowed, however many.
\<close>

theorem port_is_its_number:
  "nn_port_resolve s = (if digits s \<and> 0 < decimal s \<and> decimal s \<le> 65535 then decimal s else - EINVAL_opt)"
  using port_loop_decimal [of 0 s] by (simp add: nn_port_resolve_def decimal_def Let_def)

section \<open>The time between two attempts\<close>

text \<open>The timer after the \<open>i\<close>-th wait has begun, each of the earlier ones having been stopped.\<close>

fun backoff_after :: "nat \<Rightarrow> backoff \<Rightarrow> backoff option" where
  "backoff_after 0 b = nn_backoff_start b"
| "backoff_after (Suc i) b = Option.bind (backoff_after i b) (\<lambda>b. nn_backoff_start (b\<lparr>bo_timer := nn_timer_init\<rparr>))"

definition interval :: "sockopts \<Rightarrow> int" where
  "interval opts = so_reconnect_ivl opts"

definition longest :: "sockopts \<Rightarrow> int" where
  "longest opts = (if so_reconnect_ivl_max opts = 0 then so_reconnect_ivl opts else so_reconnect_ivl_max opts)"

definition sane_intervals :: "sockopts \<Rightarrow> bool" where
  "sane_intervals opts \<longleftrightarrow> 0 < interval opts \<and> 0 \<le> longest opts \<and> 2 * (longest opts + interval opts) < 2 ^ 31"

lemma sane_ok: "sane_intervals opts \<Longrightarrow> bo_ok (endpoint_backoff opts)"
  using bo_ok_init [of "interval opts" "longest opts"]
  by (simp add: sane_intervals_def endpoint_backoff_def interval_def longest_def Let_def)

lemma init_off [simp]: "timer_off nn_timer_init"
  by (simp add: timer_off_def nn_timer_init_def)

lemma power_grows:
  assumes "0 < (m :: int)"
  shows "(2 ^ i - 1) * m \<le> (2 ^ Suc i - 1) * m"
proof (rule mult_right_mono)
  have "(2 :: int) ^ i \<le> 2 ^ Suc i" by (rule power_increasing) simp_all
  then show "(2 :: int) ^ i - 1 \<le> 2 ^ Suc i - 1" by (rule diff_right_mono)
qed (use assms in simp)

lemma backoff_after_ok:
  assumes "bo_ok b" "timer_off (bo_timer b)" "bo_n b = 1"
  shows "\<exists>b'. backoff_after i b = Some b' \<and> bo_ok b' \<and> bo_minivl b' = bo_minivl b \<and> bo_maxivl b' = bo_maxivl b \<and>
     tm_timeout (bo_timer b') = min (bo_maxivl b) ((2 ^ i - 1) * bo_minivl b) \<and>
     (if (2 ^ i - 1) * bo_minivl b > bo_maxivl b then \<exists>j \<le> i. bo_n b' = 2 ^ j \<and> (2 ^ j - 1) * bo_minivl b > bo_maxivl b
      else bo_n b' = 2 ^ Suc i)"
proof (induction i)
  case 0
  have "0 \<le> bo_maxivl b" using assms(1) by (simp add: bo_ok_def)
  moreover obtain d where "nn_backoff_start b = Some d" "bo_ok d" "bo_minivl d = bo_minivl b" "bo_maxivl d = bo_maxivl b"
      "tm_timeout (bo_timer d) = min (bo_maxivl b) ((bo_n b - 1) * bo_minivl b)"
      "bo_n d = (if (bo_n b - 1) * bo_minivl b > bo_maxivl b then bo_n b else 2 * bo_n b)"
    by (rule backoff_start_ok [OF assms(1,2)])
  ultimately show ?case using assms(3) by simp
next
  case (Suc i)
  then obtain b' where b': "backoff_after i b = Some b'" "bo_ok b'" "bo_minivl b' = bo_minivl b" "bo_maxivl b' = bo_maxivl b"
      "if (2 ^ i - 1) * bo_minivl b > bo_maxivl b then \<exists>j \<le> i. bo_n b' = 2 ^ j \<and> (2 ^ j - 1) * bo_minivl b > bo_maxivl b
       else bo_n b' = 2 ^ Suc i" by blast
  have m: "0 < bo_minivl b" using assms(1) by (simp add: bo_ok_def)
  let ?c = "b'\<lparr>bo_timer := nn_timer_init\<rparr>"
  obtain d where d: "nn_backoff_start ?c = Some d" "bo_ok d" "bo_minivl d = bo_minivl ?c" "bo_maxivl d = bo_maxivl ?c"
      "tm_timeout (bo_timer d) = min (bo_maxivl ?c) ((bo_n ?c - 1) * bo_minivl ?c)"
      "bo_n d = (if (bo_n ?c - 1) * bo_minivl ?c > bo_maxivl ?c then bo_n ?c else 2 * bo_n ?c)"
    by (rule backoff_start_ok [of ?c]) (use b'(2) in auto)
  show ?case
  proof (cases "(2 ^ i - 1) * bo_minivl b > bo_maxivl b")
    case True
    then obtain j where j: "j \<le> i" "bo_n b' = 2 ^ j" "(2 ^ j - 1) * bo_minivl b > bo_maxivl b" using b'(5) by auto
    moreover have "(2 ^ Suc i - 1) * bo_minivl b > bo_maxivl b" using power_grows [OF m, of i] True by (rule order.strict_trans2 [rotated])
    ultimately show ?thesis using b' d by (auto simp: le_Suc_eq)
  next
    case False
    then show ?thesis using b' d by auto
  qed
qed

text \<open>
  C14: The time that an endpoint waits before it connects again grows from nothing by powers of two times the interval, up to the
  maximum, and stays there: the \<open>i\<close>-th wait is the smaller of the maximum and \<open>2^i - 1\<close> intervals, and its computation does not overflow.
  The interval is positive, and twice the sum of maximum and interval is less than \<open>2^31\<close>. The maximum is \<open>NN_RECONNECT_IVL_MAX\<close>, or the
  interval itself when that is zero. A maximum that is smaller than the interval is used like any other, although
  \<open>doc/nn_setsockopt.txt\<close> says that it is ignored (\<open>smaller_maximum_is_used\<close>).
\<close>

theorem backoff_doubles:
  assumes "sane_intervals opts"
  shows "\<exists>b. backoff_after i (endpoint_backoff opts) = Some b \<and> tm_timeout (bo_timer b) = min (longest opts) ((2 ^ i - 1) * interval opts)"
proof -
  have "bo_n (endpoint_backoff opts) = 1" "timer_off (bo_timer (endpoint_backoff opts))"
    by (simp_all add: endpoint_backoff_def nn_backoff_init_def Let_def)
  then show ?thesis using backoff_after_ok [OF sane_ok [OF assms], of i]
    by (auto simp: endpoint_backoff_def nn_backoff_init_def interval_def longest_def Let_def)
qed

lemma smaller_maximum_is_used:
  assumes "sane_intervals opts" "so_reconnect_ivl_max opts \<noteq> 0" "so_reconnect_ivl_max opts < so_reconnect_ivl opts" "0 < i"
  shows "\<exists>b. backoff_after i (endpoint_backoff opts) = Some b \<and> tm_timeout (bo_timer b) = so_reconnect_ivl_max opts"
proof -
  have "bo_n (endpoint_backoff opts) = 1" "timer_off (bo_timer (endpoint_backoff opts))"
    by (simp_all add: endpoint_backoff_def nn_backoff_init_def Let_def)
  from backoff_after_ok [OF sane_ok [OF assms(1)] this(2,1), of i] obtain b where
    b: "backoff_after i (endpoint_backoff opts) = Some b" "tm_timeout (bo_timer b) = min (longest opts) ((2 ^ i - 1) * interval opts)"
    by (auto simp: endpoint_backoff_def nn_backoff_init_def interval_def longest_def Let_def)
  have "(2 :: int) ^ 1 \<le> 2 ^ i" by (rule power_increasing) (use assms(4) in simp_all)
  then have "1 * interval opts \<le> (2 ^ i - 1) * interval opts"
    by (intro mult_right_mono) (use assms(1) in \<open>simp_all add: sane_intervals_def\<close>)
  then show ?thesis using b assms(2,3) by (simp add: longest_def interval_def)
qed

definition ep_opts :: sockopts where
  "ep_opts = \<lparr>so_linger = 1000, so_sndbuf = 131072, so_rcvbuf = 131072, so_sndtimeo = -1, so_rcvtimeo = -1, so_reconnect_ivl = 100,
     so_reconnect_ivl_max = 0, so_sndprio = 8, so_rcvprio = 8, so_ipv4only = 1\<rparr>"

lemma backoff_doubles_witness:
  "\<exists>b. backoff_after 2 (endpoint_backoff (ep_opts\<lparr>so_reconnect_ivl_max := 1000\<rparr>)) = Some b \<and> tm_timeout (bo_timer b) = 300"
  using backoff_doubles [of "ep_opts\<lparr>so_reconnect_ivl_max := 1000\<rparr>" 2]
  by (simp add: sane_intervals_def ep_opts_def interval_def longest_def)

section \<open>Without a peer\<close>

text \<open>
  C12: While the peer of an endpoint cannot be reached, no assertion fails: in every state that can be reached all that can come next is
  done, and when the endpoint has reported that it has stopped it can be destroyed. The conditions are these. The host resolves to an error or
  to exactly one address, of IPv4 or IPv6, and the system answers what it is asked for the local interface
  (\<open>knows\<close>). Where there is a socket its options can be set and it can be bound to the local address; that there is no socket is allowed, and
  so is every way in which the attempt to connect fails, at once or later (\<open>refuses\<close>). The intervals between the attempts are those of
  \<open>backoff_doubles\<close>. Without these the code does fail assertions: \<open>ctcp.c\<close> in lines 618 and 619, \<open>dns_getaddrinfo.inc\<close> in line 110,
  \<open>iface.c\<close> in line 84.
\<close>

theorem connecting_never_aborts:
  assumes "ctcp_reach addr opts self" "sane_intervals opts" "ctcp_enabled self s" "knows (epbase_init addr opts) nw" "refuses k"
  shows "ctcp_do nw env k s self \<noteq> None \<and> (eb_stopped (ct_base self) \<longrightarrow> nn_ctcp_destroy self = Some ())"
proof -
  have ok: "ctcp_ok self" "knows (ct_base self) nw"
    using ctcp_reach_ok [OF assms(1) sane_ok [OF assms(2)]] assms(4) knows_cong [of "ct_base self" "epbase_init addr opts"]
    by (simp_all add: epbase_init_def)
  then show ?thesis using ctcp_do_ok [OF ok(1) assms(3) ok(2) assms(5), of env] closed_destroy [OF ok(1)] by (auto simp: good_def)
qed

definition loopback :: network where
  "loopback = \<lparr>nw_pton4 = (\<lambda>_. Some [127, 0, 0, 1]), nw_pton6 = (\<lambda>_. None), nw_ifaces = [], nw_lookup = (\<lambda>_ _. Inl 1)\<rparr>"

text \<open>The address \<open>1:80\<close>.\<close>

definition an_addr :: bytes where "an_addr = [49, 58, 56, 48]"

definition refusing :: kernel where
  "refusing = (giving [])\<lparr>kn_connect := Some EINPROGRESS, kn_sockerr := ECONNREFUSED\<rparr>"

fun ctcp_run :: "network \<Rightarrow> stream_env \<Rightarrow> kernel \<Rightarrow> ctcp_step list \<Rightarrow> ctcp \<Rightarrow> ctcp option" where
  "ctcp_run nw env k [] self = Some self"
| "ctcp_run nw env k (s # ss) self =
     (if ctcp_enabled self s then Option.bind (ctcp_do nw env k s self) (ctcp_run nw env k ss) else None)"

lemma ctcp_run_reach:
  assumes "knows (epbase_init addr opts) nw" "refuses k"
  shows "ctcp_reach addr opts self \<Longrightarrow> ctcp_run nw env k ss self = Some self' \<Longrightarrow> ctcp_reach addr opts self'"
  by (induction ss arbitrary: self) (auto simp: bind_eq_Some_conv split: if_splits intro: reach_do assms)

lemma an_address_known: "knows (epbase_init an_addr ep_opts) loopback"
  by code_simp

lemma refusing_refuses: "refuses refusing"
  by (simp add: refuses_def refusing_def giving_def EINPROGRESS_def ECONNREFUSED_def)

definition an_endpoint :: "ctcp_step list \<Rightarrow> ctcp option" where
  "an_endpoint ss = (case nn_ctcp_create loopback an_addr ep_opts of
     Some (Inr self) \<Rightarrow> ctcp_run loopback (tcp_env NN_REQ) refusing ss self | _ \<Rightarrow> None)"

lemma an_endpoint_reach: "an_endpoint ss = Some self \<Longrightarrow> ctcp_reach an_addr ep_opts self"
  using ctcp_run_reach [OF an_address_known refusing_refuses] reach_create [OF _ an_address_known]
  by (auto simp: an_endpoint_def split: option.splits sum.splits)

lemma default_sane: "sane_intervals ep_opts"
  by (simp add: sane_intervals_def ep_opts_def interval_def longest_def)

lemma connecting_never_aborts_witness:
  "\<exists>self. an_endpoint [C_process, C_process, C_task] = Some self \<and> ctcp_do loopback (tcp_env NN_REQ) refusing (C_fd Fd_out) self \<noteq> None"
proof -
  have "case an_endpoint [C_process, C_process, C_task] of Some self \<Rightarrow> ctcp_enabled self (C_fd Fd_out) | None \<Rightarrow> False" by code_simp
  then obtain self where s: "an_endpoint [C_process, C_process, C_task] = Some self" "ctcp_enabled self (C_fd Fd_out)" by (auto split: option.splits)
  from connecting_never_aborts [OF an_endpoint_reach [OF s(1)] default_sane s(2) an_address_known refusing_refuses] s(1) show ?thesis by blast
qed

text \<open>
  C13: An endpoint that is being closed while it has no peer comes to an end: as long as it has not stopped, one of the steps of
  \<open>closing_steps\<close> is due, each of these makes the work that is left less, and nothing that may come in between makes it more.
\<close>

theorem endpoint_closing_ends:
  assumes "ctcp_reach addr opts self" "sane_intervals opts" "ct_fsm self = FSM_STOPPING" "knows (epbase_init addr opts) nw" "refuses k"
  shows "(\<exists>s \<in> closing_steps. ctcp_enabled self s) \<and>
    (\<forall>s. ctcp_enabled self s \<longrightarrow> (\<exists>self'. ctcp_do nw env k s self = Some self' \<and>
       (if s \<in> closing_steps then close_work self' < close_work self else close_work self' = close_work self) \<and>
       (ct_fsm self' = FSM_STOPPING \<or> eb_stopped (ct_base self'))))"
proof -
  have ok: "ctcp_ok self" "knows (ct_base self) nw"
    using ctcp_reach_ok [OF assms(1) sane_ok [OF assms(2)]] assms(4) knows_cong [of "ct_base self" "epbase_init addr opts"]
    by (simp_all add: epbase_init_def)
  then have step: "\<exists>self'. ctcp_do nw env k s self = Some self' \<and> ctcp_ok self'" if "ctcp_enabled self s" for s
    using ctcp_do_ok [OF ok(1) that ok(2) assms(5), of env] by (auto simp: good_def)
  show ?thesis
    using closing_some [OF ok(1) assms(3)] step closing_less [OF ok(1) assms(3)] closing_other [OF ok(1) assms(3)]
      closing_stays [OF assms(3) ok(1)] by (metis (full_types))
qed

lemma endpoint_closing_ends_witness:
  "\<exists>self. an_endpoint [C_process, C_process, C_task, C_stop] = Some self \<and> (\<exists>s \<in> closing_steps. ctcp_enabled self s)"
proof -
  have "case an_endpoint [C_process, C_process, C_task, C_stop] of Some self \<Rightarrow> ct_fsm self = FSM_STOPPING | None \<Rightarrow> False" by code_simp
  then obtain self where s: "an_endpoint [C_process, C_process, C_task, C_stop] = Some self" "ct_fsm self = FSM_STOPPING"
    by (auto split: option.splits)
  from endpoint_closing_ends [OF an_endpoint_reach [OF s(1)] default_sane s(2) an_address_known refusing_refuses] s(1) show ?thesis by blast
qed

section \<open>When a connection is lost\<close>

text \<open>What the threads do of their own accord, in one of its orders: the states after each of \<open>n\<close> steps.\<close>

definition own_steps :: "ctcp_step list" where
  "own_steps = [C_conn, C_process, C_task, C_header TIMER_STOP_TASK, C_retry TIMER_STOP_TASK, C_retry TIMER_WORKER_TIMEOUT, C_retry TIMER_START_TASK]"

fun own_run :: "network \<Rightarrow> stream_env \<Rightarrow> kernel \<Rightarrow> nat \<Rightarrow> ctcp \<Rightarrow> ctcp list option" where
  "own_run nw env k 0 self = Some []"
| "own_run nw env k (Suc n) self =
     (case find (ctcp_enabled self) own_steps of
        None \<Rightarrow> None
      | Some s \<Rightarrow> Option.bind (ctcp_do nw env k s self) (\<lambda>self. map_option ((#) self) (own_run nw env k n self)))"

definition own_end :: "network \<Rightarrow> stream_env \<Rightarrow> kernel \<Rightarrow> nat \<Rightarrow> ctcp \<Rightarrow> ctcp option" where
  "own_end nw env k n self = map_option (\<lambda>t. last (self # t)) (own_run nw env k n self)"

text \<open>
  The peer sends its header and two messages at once; the socket above takes one of them, and the connection is lost. From then on the peer can
  be reached again, and sends its header on each connection.
\<close>

definition two_messages :: bytes where
  "two_messages = [0, 0, 0, 0, 0, 0, 0, 2, 1, 2, 0, 0, 0, 0, 0, 0, 0, 2, 1, 2]"

definition lost_connection :: "ctcp option" where
  "lost_connection = (case nn_ctcp_create loopback an_addr ep_opts of
     Some (Inr self) \<Rightarrow>
       Option.bind (own_end loopback (tcp_env NN_REQ) (giving (protohdr NN_REP @ two_messages)) 12 self)
         (ctcp_do loopback (tcp_env NN_REQ) (giving []) (C_fd Fd_err))
   | _ \<Rightarrow> None)"

text \<open>
  The bytes that had been read ahead from a connection that is lost are taken for the beginning of the next one: the peer's
  header is not found where it should be, and none of the next four connections, whose peer sends a correct header, becomes active.
\<close>

theorem reconnect_reads_old_bytes:
  "\<exists>self t. lost_connection = Some self \<and> us_rest (cn_usock (ct_conn self)) = drop 10 two_messages \<and>
     own_run loopback (tcp_env NN_REQ) (giving (protohdr NN_REP)) 80 self = Some t \<and>
     eb_stat (ct_base (last t)) BROKEN_CONNECTIONS = 5 \<and> list_all (\<lambda>s. st_state (ct_conn s) \<noteq> STCP_ACTIVE) t"
proof -
  have "case lost_connection of None \<Rightarrow> False | Some self \<Rightarrow>
     us_rest (cn_usock (ct_conn self)) = drop 10 two_messages \<and>
     (case own_run loopback (tcp_env NN_REQ) (giving (protohdr NN_REP)) 80 self of None \<Rightarrow> False | Some t \<Rightarrow>
        eb_stat (ct_base (last t)) BROKEN_CONNECTIONS = 5 \<and> list_all (\<lambda>s. st_state (ct_conn s) \<noteq> STCP_ACTIVE) t)" by code_simp
  then show ?thesis by (auto split: option.splits)
qed

section \<open>Closing a bound endpoint\<close>

text \<open>
  C39: A bound endpoint for which there was no socket, and that waits to try again, reports that it has stopped as soon as it is closed,
  while its timer is still being stopped; that it can be destroyed then, which the socket does at once, is an assertion that fails.
\<close>

theorem waiting_listener_cannot_be_closed:
  assumes "nn_btcp_create nw k addr opts = Some (Inr self)" "kn_socket k = Some e" "e > 0"
  shows "bt_state self = BTCP_WAITING \<and>
    (\<exists>self'. nn_btcp_stop k' self = Some self' \<and> eb_stopped (bt_base self') \<and> nn_btcp_destroy self' = None)"
proof -
  let ?i = "btcp_init addr opts"
  have idle: "timer_off (bo_timer (bt_retry ?i))" "us_fsm (bt_usock ?i) = FSM_IDLE" "bt_atcp ?i = None" "bt_atcps ?i = []" "bt_events ?i = []"
    by (simp_all add: btcp_init_def endpoint_backoff_def nn_backoff_init_def nn_timer_init_def timer_off_def nn_usock_init_def Let_def)
  have "nn_btcp_start_listening nw k ?i \<noteq> None \<and> self = (the (nn_btcp_start_listening nw k ?i))\<lparr>bt_fsm := FSM_ACTIVE\<rparr>"
    using assms(1) by (auto simp: nn_btcp_create_def split: option.splits if_splits)
  then have w: "btcp_wait ?i \<noteq> None \<and> self = (the (btcp_wait ?i))\<lparr>bt_fsm := FSM_ACTIVE\<rparr>"
    using assms(2,3) by (auto simp: nn_btcp_start_listening_def btcp_listen_def nn_usock_start_def Let_def split: option.splits sum.splits if_splits)
  then obtain b where b: "nn_backoff_start (bt_retry ?i) = Some b" "self = ?i\<lparr>bt_retry := b, bt_state := BTCP_WAITING, bt_fsm := FSM_ACTIVE\<rparr>"
    by (auto simp: btcp_wait_def split: if_splits)
  have "tm_fsm (bo_timer b) = FSM_ACTIVE"
    using b(1) by (auto simp: nn_backoff_start_def nn_timer_start_def Let_def split: if_splits)
  then show ?thesis using b(2) idle
    by (simp add: nn_btcp_stop_def btcp_stopping_usock_def lst_isidle_def atcps_stopping_def nn_btcp_destroy_def nn_epbase_stopped_def
        nn_backoff_stop_def nn_timer_stop_def nn_timer_isidle_def)
qed

definition no_socket :: kernel where
  "no_socket = (giving [])\<lparr>kn_socket := Some 24\<rparr>"

lemma waiting_listener_cannot_be_closed_witness:
  "\<exists>self self'. nn_btcp_create loopback no_socket an_addr ep_opts = Some (Inr self) \<and> nn_btcp_stop no_socket self = Some self' \<and>
     nn_btcp_destroy self' = None"
proof -
  have "case nn_btcp_create loopback no_socket an_addr ep_opts of Some (Inr self) \<Rightarrow> True | _ \<Rightarrow> False" by code_simp
  then obtain self where s: "nn_btcp_create loopback no_socket an_addr ep_opts = Some (Inr self)" by (auto split: option.splits sum.splits)
  have "kn_socket no_socket = Some 24" by (simp add: no_socket_def)
  from waiting_listener_cannot_be_closed [OF s this, of no_socket] s show ?thesis by auto
qed

end
