(* ===== verification/Spec2Isabelle.thy ===== *)
theory Spec2Isabelle
  imports Handle_Props Server_Props Client_Props Options_Props Chloros_Props Nn_Props Nn_Rep_Props Nn_Survey_Props Nn_Chunk_Props
    Nn_Inproc_Props Nn_Sock_Props Nn_Stream_Props Nn_Endpoint_Props
begin

text \<open>
  Two programs and a library. Lab 2 is SNFS, a networked file system: a client that mounts it through FUSE
  (\<open>lab2/src/client\<close>) sends requests to a server (\<open>lab2/src/server\<close>) over the request/reply sockets of nanomsg, which
  is vendored (\<open>lab2/libs/nanomsg/src\<close>). Lab 1 is Chloros, a library of green threads (\<open>lab1/src\<close>). Each operation is a
  definition with the name it has in the code; every theory opens with what it holds.

  \<^bold>\<open>The machine.\<close> \<open>Prelude\<close>: bytes and fixed-width integers are words, memory images are byte lists, a C string ends
  at its first zero. The stateful code of SNFS is written in a monad whose outcomes are a result,
  \<open>err_exit\<close> (the process ends with an error), undefined behaviour (a failed assertion or a
  read outside an object) and \<open>Spins\<close> (no progress); \<open>wp\<close> and \<open>twp\<close> are its partial and
  total preconditions. \<open>Posix_Env\<close>: the kernel's file system calls and Berkeley DB are the fields of a record \<open>env\<close>, with
  their documented behaviour as the named hypotheses \<open>libdb_laws\<close>, \<open>file_laws\<close>, \<open>dir_laws\<close> and the like;
  \<open>Sample_System\<close> and \<open>Sample_Server\<close> are a concrete environment that satisfies all of them, for the witnesses.

  \<^bold>\<open>The server.\<close> \<open>Ftypes\<close> and \<open>Wire\<close> hold the data of the protocol and the memory images that are sent (ftypes.h,
  requests.h, replys.h, strings.c). \<open>Fhandledb\<close> is the handle database (fhandledb.c); its contract is the locale
  \<open>handle_table\<close> of \<open>Handle_Table\<close>, a partial bijection of handles and paths, which it interprets, and
  \<open>Fhandledb_Spec\<close> adds that the operations return. \<open>Handlers\<close> is handlers.c, one definition per request;
  \<open>Handler_Spec\<close> says what each does to the table and the world, \<open>File_Store\<close> what READ, WRITE and
  READDIR do to an abstract file store. \<open>Serve_Loop\<close> is serve_loop of main.c, the decoding of messages and the
  dispatch; \<open>reachable\<close> are the states it can reach. \<open>Serve_Total\<close> shows that each handler does return, with one reply, and so the loop.
  \<open>Handle_Props\<close> and \<open>Server_Props\<close> hold the properties: the table invariant in every reachable state, one reply per request and one
  per message of the loop, the functional behaviour of each request, stale handles, round trips of the encodings.

  \<^bold>\<open>The client.\<close> \<open>Comm\<close> (comm.c), \<open>Request\<close> (request.c, send_request) and \<open>Fuseops\<close> (the FUSE callbacks)
  take the messaging library as a record of functions. \<open>Request_Reply\<close> states what they need of it as the locale
  \<open>request_reply\<close>; \<open>End_To_End\<close> interprets it by a network with the server of \<open>Serve_Loop\<close> behind it, so
  that \<open>Client_Props\<close> can speak of client and server together: what is written is read back, a path
  resolves to its handle. \<open>Callbacks_End\<close> shows that no callback on a file or directory waits forever when a sleep moves the clock;
  \<open>snfs_init\<close>, which waits without a deadline, is not part of that.
  \<open>Options\<close> and \<open>Options_Props\<close>: the command lines and the order of the start-up calls.

  \<^bold>\<open>The sockets of nanomsg.\<close> \<open>Nn_List\<close>, \<open>Nn_Queue\<close>, \<open>Nn_Hash\<close>, \<open>Nn_Wire\<close>: the containers of \<open>utils\<close>; the list and the
  queue are modelled on a heap of items and refined to sequences, the hash table is proved to be a map (locale
  \<open>peer_table\<close>, interpreted as \<open>pipes\<close>), where erasing what is not in it fails an assertion, and is \<open>None\<close>. \<open>Nn_Priolist\<close> and \<open>Nn_Pipes\<close>: the priority list, the pipes and the fair queue
  and load balancer over them. \<open>Nn_Req\<close> is the requester (xreq.c, the state machine of req.c, and timer.c), \<open>Nn_Rep\<close> the replier
  (xrep.c, rep.c), \<open>Nn_Sub\<close> with \<open>Trie\<close> the subscriber (xsub.c, trie.c). The \<open>_Spec\<close> theories carry their invariants;
  \<open>Nn_Req_Props\<close>, \<open>Nn_Rep_Props\<close>, \<open>Trie_Props\<close> and \<open>Nn_Props\<close> the properties: no reachable state fails an assertion, an exchange
  through both sockets delivers the reply to the request it answers (in \<open>Nn_Rep_Props\<close>), the pipes are served in turn, a subscriber gets what
  it subscribed to; the outcomes of its receive, \<open>sub_outcome\<close>, tell a failed assertion from a match that reads over its buffer. The
  transport is the parameter \<open>transport\<close> with the hypotheses \<open>unsplit\<close> (a message whose header is not split off arrives
  with an empty one) and \<open>drains\<close> (it holds finitely many messages). A step is an operation of the user or an event of a
  pipe or of the timer's worker thread; the events a step raises are handled before the next, as the library does under the
  lock of the socket.

  \<^bold>\<open>The other protocols.\<close> \<open>Nn_Dist\<close>: the distributor, which sends to every pipe, and the exclusive pipe. \<open>Nn_Sockets\<close> has
  the publisher, the pipeline, the pair and the bus over them, \<open>Nn_Survey\<close> the surveyor with its deadline and the respondent;
  \<open>Nn_Survey_Spec\<close> the invariant of the surveyor and its steps, \<open>Nn_Survey_Props\<close> that it aborts only for a negative deadline, that it collects
  the responses to its last survey, and that the bus does not echo.

  \<^bold>\<open>The core.\<close> \<open>Nn_Sock\<close> is the socket that all protocols share (core/sock.c, core/ep.c): its state machine from start to close, its
  endpoints, options, blocking calls, and the two descriptors that say whether a call would block; what leaves the context is written
  out as \<open>nn_ctx_leave\<close>, which handles all queued events first. A socket type is a record \<open>vfptr\<close> of its functions. \<open>Nn_Sock_Spec\<close>
  has the contract between the two as the locale \<open>socket_type\<close> and proves in it that each step keeps the invariant of the socket;
  \<open>Nn_Sock_Props\<close> interprets it by the surveyor, so that the properties hold of a whole socket: it aborts exactly for what comes too late (\<open>too_late\<close>: events of pipes and
  endpoints after \<open>nn_term\<close> or while the endpoints are being stopped), its descriptors tell the truth, closing it ends, waiting calls keep their deadline. \<open>Nn_Peer\<close>: which protocols may talk to each other.

  \<^bold>\<open>Messages and the in-process transport.\<close> \<open>Nn_Chunk\<close>: the reference-counted chunks messages lie in, on a heap, with the
  tags in front of the data. \<open>Nn_Chunk_Spec\<close> relates a store of references to byte strings, \<open>Nn_Chunk_Props\<close> shows that sharing cannot be
  seen while shared chunks are neither written nor trimmed, and that every block is freed with its last reference, and where the code breaks this. \<open>Nn_Msgqueue\<close> is the
  queue of the in-process transport, a chain of chunks; its contract is the locale \<open>bounded_fifo\<close>, interpreted in
  \<open>Nn_Msgqueue_Spec\<close>. \<open>Nn_Inproc\<close> is a connection of two sessions (sinproc.c) and the events they raise to each other, which the
  threads may process in any order; \<open>Nn_Inproc_Spec\<close> says where each message is, \<open>Nn_Inproc_Props\<close> that all of them arrive in
  order, that only an event that overtakes the handshake aborts, and what happens on closing. This is a transport in the sense of the parameter \<open>transport\<close>, with its
  asynchronous side written out.

  \<^bold>\<open>The stream transports.\<close> \<open>Nn_Usock\<close> is a socket of the operating system as \<open>aio/usock_posix.inc\<close> wraps it: its state machine, what it
  asks of the worker thread, sending piece by piece and receiving through a batch buffer. What the kernel answers is the parameter \<open>kernel\<close>, a
  record of the results of its calls, with the hypotheses \<open>kernel_law\<close> (it takes no more than it is offered and gives no more than it is asked
  for) and \<open>kernel_calm\<close> (it reports no failure). \<open>Nn_Stream\<close> is a connection over such a socket: the exchange of protocol headers (streamhdr.c)
  and the sessions over TCP and IPC (stcp.c, sipc.c), with the queue of the events they raise to each other. \<open>Nn_Usock_Spec\<close> says which bytes go
  where, \<open>Nn_Stream_Spec\<close> has the invariant of a connection by phases, \<open>Nn_Stream_Reach\<close> shows that every step keeps it, and
  \<open>Nn_Stream_Props\<close> that messages arrive whole and in order whatever pieces the kernel makes of them, that nothing aborts while the peer speaks
  the protocol, and exactly which headers of a peer that does not, or which failures, end the process.

  \<^bold>\<open>The endpoints.\<close> \<open>Nn_Addr\<close>: ports, host names, literal addresses, interfaces and the resolver (\<open>transports/utils\<close>), over the parameter
  \<open>network\<close>, what the system knows of names. \<open>Nn_Endpoint\<close> has the endpoints that connect (ctcp.c, cipc.c) with the timer between attempts
  (backoff.c), \<open>Nn_Bound\<close> the bound ones and the connections they accept (btcp.c, atcp.c, bipc.c, aipc.c); each owns connections of \<open>Nn_Stream\<close> and
  the queues of their events. \<open>Nn_Endpoint_Spec\<close> describes the phases of an endpoint whose peer cannot be reached (\<open>refuses\<close>, \<open>knows\<close>), which it
  keeps through every step, and the work that is left when it is closed; \<open>Nn_Endpoint_Props\<close> that nothing aborts, that closing ends, how
  long it waits between attempts, what a port is, and what goes wrong when a connection is lost or a waiting bound endpoint is closed.

  \<^bold>\<open>The threads.\<close> \<open>Chloros\<close> is the scheduler of chloros.cpp on one kernel thread, as a state and its steps,
  \<open>Chloros_Context\<close> the context switch of context_switch.S on registers and stack cells, \<open>Chloros_Cores\<close> several kernel
  threads that share the queue. \<open>Chloros_Props\<close> holds the properties: the invariant of the reachable states, that a
  queued thread waits for a bounded number of yields and spawns, and two races on several kernel threads.

  \<^bold>\<open>Termination.\<close> Only \<open>mq_drain\<close>, the loop that empties a queue, has fuel: one more than the number of messages in it is enough,
  as \<open>inproc_queue_is_fifo\<close> says. Other loops that may not end are partial functions with the value \<open>None\<close> (\<open>send_loop\<close>,
  \<open>recv_loop\<close>, \<open>req_in_loop\<close>, \<open>nn_xsub_recv\<close>, \<open>walk_queue\<close>), or give \<open>Spins\<close> (\<open>loop\<close>, \<open>generate_loop\<close>, which
  consumes a tape of random draws); that they end is part of the theorems, under the hypotheses named there.

  \<^bold>\<open>Not modelled.\<close> The logging of lab 1 and debug output; signal set-up, realpath, chdir and chroot, usage texts, and FUSE's own
  main loop; a failing malloc in the client; tests and mocks. Of nanomsg: constructors and destructors, which only
  allocate and free; the table of sockets and the threads of core/global.c, the event loop; the Windows and kqueue variants, the tools and the
  tests.
\<close>

end
